(* ===== verification/JsPrelude.thy ===== *)
theory JsPrelude
  imports Main "HOL-Library.Monad_Syntax" "HOL-Library.AList" "HOL-Library.Multiset"
begin

text \<open>
  The generic part of the development: the array combinators of JavaScript with callbacks
  that may throw, the insertion-ordered ES \<open>Map\<close>, and the two collections of rules the
  component theories extend.

  A computation that may throw is a value of \<open>'a option\<close>: \<open>None\<close> is the thrown
  exception (in the code modelled here always the \<open>TypeError\<close> of reading a property of
  \<open>null\<close> or \<open>undefined\<close>, or of calling an array method on something else), \<open>Some v\<close> the
  value.
\<close>

named_theorems js_total \<open>rules that show that a computation does not throw\<close>
named_theorems js_keys \<open>rules that compute the key of a modelled object\<close>

section \<open>Array methods with callbacks that may throw\<close>

text \<open>\<open>xs.map(f)\<close>: the callbacks run in order and the first that throws ends the call.\<close>

fun js_map :: "('a \<Rightarrow> 'b option) \<Rightarrow> 'a list \<Rightarrow> 'b list option" where
  "js_map f [] = Some []"
| "js_map f (x # xs) = do { y \<leftarrow> f x; ys \<leftarrow> js_map f xs; Some (y # ys) }"

text \<open>\<open>xs.filter(p)\<close>.\<close>

fun js_filter :: "('a \<Rightarrow> bool option) \<Rightarrow> 'a list \<Rightarrow> 'a list option" where
  "js_filter p [] = Some []"
| "js_filter p (x # xs) =
     do { b \<leftarrow> p x; ys \<leftarrow> js_filter p xs; Some (if b then x # ys else ys) }"

text \<open>\<open>xs.some(p)\<close> stops at the first element that satisfies \<open>p\<close>.\<close>

fun js_some :: "('a \<Rightarrow> bool option) \<Rightarrow> 'a list \<Rightarrow> bool option" where
  "js_some p [] = Some False"
| "js_some p (x # xs) = do { b \<leftarrow> p x; if b then Some True else js_some p xs }"

text \<open>\<open>xs.find(p)\<close>: the first element that satisfies \<open>p\<close>, or \<open>undefined\<close>.\<close>

fun js_find :: "('a \<Rightarrow> bool option) \<Rightarrow> 'a list \<Rightarrow> 'a option option" where
  "js_find p [] = Some None"
| "js_find p (x # xs) = do { b \<leftarrow> p x; if b then Some (Some x) else js_find p xs }"

text \<open>\<open>xs.reduce(f, a)\<close>.\<close>

fun js_reduce :: "('b \<Rightarrow> 'a \<Rightarrow> 'b option) \<Rightarrow> 'b \<Rightarrow> 'a list \<Rightarrow> 'b option" where
  "js_reduce f a [] = Some a"
| "js_reduce f a (x # xs) = do { b \<leftarrow> f a x; js_reduce f b xs }"

lemma js_reduce_total [js_total]:
  "P a \<Longrightarrow> (\<And>b x. x \<in> set xs \<Longrightarrow> P b \<Longrightarrow> f b x = Some (g b x) \<and> P (g b x)) \<Longrightarrow>
   js_reduce f a xs = Some (foldl g a xs)"
proof (induction xs arbitrary: a)
  case (Cons x xs)
  then have "f a x = Some (g a x)" "P (g a x)" by auto
  moreover have "js_reduce f (g a x) xs = Some (foldl g (g a x) xs)"
    by (rule Cons.IH) (use Cons.prems calculation in auto)
  ultimately show ?case by simp
qed simp

lemma js_map_total [js_total]:
  "(\<And>x. x \<in> set xs \<Longrightarrow> f x = Some (g x)) \<Longrightarrow> js_map f xs = Some (map g xs)"
  by (induction xs) auto

lemma js_filter_total [js_total]:
  "(\<And>x. x \<in> set xs \<Longrightarrow> p x = Some (q x)) \<Longrightarrow> js_filter p xs = Some (filter q xs)"
  by (induction xs) auto

lemma js_some_total [js_total]:
  "(\<And>x. x \<in> set xs \<Longrightarrow> p x = Some (q x)) \<Longrightarrow> js_some p xs = Some (\<exists>x \<in> set xs. q x)"
  by (induction xs) auto

lemma js_find_total [js_total]:
  "(\<And>x. x \<in> set xs \<Longrightarrow> p x = Some (q x)) \<Longrightarrow> js_find p xs = Some (find q xs)"
  by (induction xs) auto

lemma js_map_SomeD: "js_map f xs = Some ys \<Longrightarrow> list_all2 (\<lambda>x y. f x = Some y) xs ys"
  by (induction xs arbitrary: ys) (auto split: Option.bind_splits)

lemma js_map_ok:
  assumes "\<And>x. x \<in> set xs \<Longrightarrow> \<exists>y. f x = Some y \<and> P y \<and> key y = key x"
  shows "\<exists>ys. js_map f xs = Some ys \<and> list_all P ys \<and> map key ys = map key xs"
  using assms by (induction xs) fastforce+

lemma js_map_all:
  "(\<And>x. x \<in> set xs \<Longrightarrow> \<exists>y. f x = Some y \<and> P y) \<Longrightarrow> \<exists>ys. js_map f xs = Some ys \<and> list_all P ys"
  by (induction xs) fastforce+

lemma js_map_None: "js_map f xs = None \<longleftrightarrow> (\<exists>x \<in> set xs. f x = None)"
  by (induction xs) (auto split: option.splits)

lemma js_map_Some_set: "js_map f xs = Some ys \<Longrightarrow> set ys = {y. \<exists>x \<in> set xs. f x = Some y}"
  by (induction xs arbitrary: ys) (auto simp: bind_eq_Some_conv)

lemma js_map_length: "js_map f xs = Some ys \<Longrightarrow> length ys = length xs"
  by (auto dest!: js_map_SomeD list_all2_lengthD)

lemma js_filter_subset: "js_filter p xs = Some ys \<Longrightarrow> set ys \<subseteq> set xs"
  by (induction xs arbitrary: ys) (auto split: Option.bind_splits if_splits)

section \<open>Lists\<close>

lemma filter_ne_same: "x \<notin> f ` set xs \<Longrightarrow> filter (\<lambda>y. f y \<noteq> x) xs = xs"
  by (induction xs) auto

lemma distinct_map_filter_key: "distinct (map f xs) \<Longrightarrow> distinct (map f (filter p xs))"
  by (simp add: distinct_map_filter)

lemma distinct_key_mset:
  "mset ys = add_mset e (mset xs) \<Longrightarrow> distinct (map f xs) \<Longrightarrow> f e \<notin> f ` set xs \<Longrightarrow>
   distinct (map f ys)"
  by (metis distinct.simps(2) image_set list.simps(9) mset.simps(2) mset_eq_imp_distinct_iff
      mset_map)

text \<open>The last \<open>n\<close> elements, JavaScript's \<open>xs.slice(-n)\<close>.\<close>

definition last_n :: "nat \<Rightarrow> 'a list \<Rightarrow> 'a list" where
  "last_n n xs = drop (length xs - n) xs"

lemma length_last_n: "length (last_n n xs) = min n (length xs)"
  by (simp add: last_n_def)

lemma last_n_id: "length xs \<le> n \<Longrightarrow> last_n n xs = xs"
  by (simp add: last_n_def)

lemma last_n_snoc: "0 < n \<Longrightarrow> last (last_n n (xs @ [x])) = x"
  by (cases n) (simp_all add: last_n_def Suc_diff_le)

lemma last_n_app: "last_n n (last_n n xs @ ys) = last_n n (xs @ ys)"
proof (cases "length xs \<le> n")
  case False
  have "drop (length xs + length ys - n) xs = drop (length ys) (drop (length xs - n) xs)"
    using False by (simp add: add.commute)
  with False show ?thesis by (simp add: last_n_def)
qed (simp add: last_n_def)

section \<open>The ES \<open>Map\<close>\<close>

text \<open>
  A \<open>Map\<close> iterates in insertion order; \<open>set\<close> on a present key keeps its position. An
  association list with \<open>AList.update\<close> and \<open>AList.delete\<close> behaves so.
\<close>

type_synonym ('k, 'v) jsmap = "('k \<times> 'v) list"

definition map_get :: "('k, 'v) jsmap \<Rightarrow> 'k \<Rightarrow> 'v option" where
  "map_get m k = map_of m k"

definition map_has :: "('k, 'v) jsmap \<Rightarrow> 'k \<Rightarrow> bool" where
  "map_has m k = (map_of m k \<noteq> None)"

definition map_set :: "'k \<Rightarrow> 'v \<Rightarrow> ('k, 'v) jsmap \<Rightarrow> ('k, 'v) jsmap" where
  "map_set k v m = AList.update k v m"

definition map_delete :: "'k \<Rightarrow> ('k, 'v) jsmap \<Rightarrow> ('k, 'v) jsmap" where
  "map_delete k m = AList.delete k m"

definition map_keys :: "('k, 'v) jsmap \<Rightarrow> 'k list" where
  "map_keys m = map fst m"

lemma map_get_Nil [simp]: "map_get [] k = None"
  by (simp add: map_get_def)

lemma map_get_set [simp]: "map_get (map_set k v m) k' = (if k' = k then Some v else map_get m k')"
  by (simp add: map_get_def map_set_def update_conv)

lemma map_get_delete [simp]: "map_get (map_delete k m) k' = (if k' = k then None else map_get m k')"
  by (simp add: map_get_def map_delete_def delete_conv)

lemma map_has_iff: "map_has m k \<longleftrightarrow> map_get m k \<noteq> None"
  by (simp add: map_has_def map_get_def)

lemma set_map_keys: "k \<in> set (map_keys m) \<longleftrightarrow> map_get m k \<noteq> None"
  by (auto simp: map_keys_def map_get_def map_of_eq_None_iff)

lemma distinct_map_keys_set: "distinct (map_keys m) \<Longrightarrow> distinct (map_keys (map_set k v m))"
  by (simp add: map_keys_def map_set_def distinct_update)

lemma distinct_map_keys_delete: "distinct (map_keys m) \<Longrightarrow> distinct (map_keys (map_delete k m))"
  by (simp add: map_keys_def map_delete_def distinct_delete)

lemma map_keys_delete: "map_keys (map_delete k m) = filter (\<lambda>x. x \<noteq> k) (map_keys m)"
  by (induction m) (auto simp: map_keys_def map_delete_def)

lemma map_keys_set_fresh: "map_get m k = None \<Longrightarrow> map_keys (map_set k v m) = map_keys m @ [k]"
  by (induction m) (auto simp: map_keys_def map_set_def map_get_def split: if_splits)

lemma map_keys_set_present: "map_get m k = Some w \<Longrightarrow> map_keys (map_set k v m) = map_keys m"
  by (induction m) (auto simp: map_keys_def map_set_def map_get_def split: if_splits)

lemma set_map_set_subset: "set (map_set k v m) \<subseteq> insert (k, v) (set m)"
  by (induction m) (auto simp: map_set_def)

lemma map_set_absent: "k \<notin> fst ` set m \<Longrightarrow> map_set k v m = m @ [(k, v)]"
  by (induction m) (auto simp: map_set_def)

text \<open>
  The contract the clients of a \<open>Map\<close> rely on, and what follows from it for a table of
  pending entries that are taken out exactly once (a request table, a table of timers).
\<close>

locale es_map =
  fixes mempty :: 'm
    and mget :: "'m \<Rightarrow> 'k \<Rightarrow> 'v option"
    and mput :: "'k \<Rightarrow> 'v \<Rightarrow> 'm \<Rightarrow> 'm"
    and mdel :: "'k \<Rightarrow> 'm \<Rightarrow> 'm"
  assumes get_empty: "mget mempty k = None"
    and get_set: "mget (mput k v m) k' = (if k' = k then Some v else mget m k')"
    and get_del: "mget (mdel k m) k' = (if k' = k then None else mget m k')"
begin

definition take_out :: "'k \<Rightarrow> 'm \<Rightarrow> 'v option \<times> 'm" where
  "take_out k m = (mget m k, mdel k m)"

fun take_all :: "'k list \<Rightarrow> 'm \<Rightarrow> 'v option list \<times> 'm" where
  "take_all [] m = ([], m)"
| "take_all (k # ks) m =
     (mget m k # fst (take_all ks (mdel k m)), snd (take_all ks (mdel k m)))"

lemma take_out_twice: "fst (take_out k (snd (take_out k m))) = None"
  by (simp add: take_out_def get_del)

lemma take_out_other: "k' \<noteq> k \<Longrightarrow> mget (snd (take_out k m)) k' = mget m k'"
  by (simp add: take_out_def get_del)

lemma set_then_take: "fst (take_out k (mput k v m)) = Some v"
  by (simp add: take_out_def get_set)

lemma take_all_get: "mget (snd (take_all ks m)) k = (if k \<in> set ks then None else mget m k)"
  by (induction ks arbitrary: m) (auto simp: get_del)

lemma take_all_distinct:
  "distinct ks \<Longrightarrow> fst (take_all ks m) = map (mget m) ks"
  by (induction ks arbitrary: m) (auto simp: get_del)

end

interpretation esm: es_map "[]" map_get map_set map_delete
  by unfold_locales auto

text \<open>\<open>Set.add\<close> and \<open>Set.delete\<close>.\<close>

definition set_add :: "'a \<Rightarrow> 'a list \<Rightarrow> 'a list" where
  "set_add x xs = (if x \<in> set xs then xs else xs @ [x])"

definition set_delete :: "'a \<Rightarrow> 'a list \<Rightarrow> 'a list" where
  "set_delete x xs = filter (\<lambda>y. y \<noteq> x) xs"

lemma set_set_add [simp]: "set (set_add x xs) = insert x (set xs)"
  by (auto simp: set_add_def)

lemma set_set_delete [simp]: "set (set_delete x xs) = set xs - {x}"
  by (auto simp: set_delete_def)

lemma distinct_set_add [simp]: "distinct (set_add x xs) = distinct xs"
  by (auto simp: set_add_def)

lemma distinct_set_delete: "distinct xs \<Longrightarrow> distinct (set_delete x xs)"
  by (simp add: set_delete_def)

lemma set_fold_set_add [simp]: "set (fold set_add xs ys) = set xs \<union> set ys"
  by (induction xs arbitrary: ys) auto

lemma set_fold_set_delete [simp]: "set (fold set_delete xs ys) = set ys - set xs"
  by (induction xs arbitrary: ys) auto

lemma distinct_fold_set_add [simp]: "distinct (fold set_add xs ys) = distinct ys"
  by (induction xs arbitrary: ys) auto

end
