(* ===== verification/KeyedFeed.thy ===== *)
theory KeyedFeed
  imports JsPrelude
begin

text \<open>
  The contract of the client's live collections: lists of entities identified by a key, changed
  by the messages the server broadcasts. \<open>keyed_table\<close> is the part that puts an entity, by
  insertion (\<open>keyed_insert\<close>) or by an upsert, \<open>keyed_set\<close> also removes and \<open>keyed_feed\<close> also
  updates; they are interpreted on the collections of the forum, the store and the inbox.
  Inside the locales: an operation on well-formed elements does not throw, no key ever occurs
  twice, delivering an event twice is the same as delivering it once, and a run of events leaves
  exactly the keys that the abstract set of keys says.
\<close>

section \<open>Events and their meaning on the set of keys\<close>

datatype 'e feed_event = Added 'e | Changed 'e | Removed 'e

fun event_payload :: "'e feed_event \<Rightarrow> 'e" where
  "event_payload (Added e) = e"
| "event_payload (Changed e) = e"
| "event_payload (Removed e) = e"

fun key_effect :: "('e \<Rightarrow> 'k) \<Rightarrow> 'e feed_event \<Rightarrow> 'k set \<Rightarrow> 'k set" where
  "key_effect key (Added e) K = insert (key e) K"
| "key_effect key (Changed e) K = K"
| "key_effect key (Removed e) K = K - {key e}"

text \<open>A run of events over the three operations of a collection; \<open>None\<close> when one of them throws.\<close>

type_synonym 'e feed_op = "'e list \<Rightarrow> 'e \<Rightarrow> 'e list option"

fun feed_step :: "'e feed_op \<Rightarrow> 'e feed_op \<Rightarrow> 'e feed_op \<Rightarrow> 'e feed_event \<Rightarrow> 'e list \<Rightarrow> 'e list option"
  where
  "feed_step add upd del (Added e) xs = add xs e"
| "feed_step add upd del (Changed e) xs = upd xs e"
| "feed_step add upd del (Removed e) xs = del xs e"

fun feed_run :: "'e feed_op \<Rightarrow> 'e feed_op \<Rightarrow> 'e feed_op \<Rightarrow> 'e feed_event list \<Rightarrow> 'e list \<Rightarrow> 'e list option"
  where
  "feed_run add upd del [] xs = Some xs"
| "feed_run add upd del (ev # evs) xs =
     do { ys \<leftarrow> feed_step add upd del ev xs; feed_run add upd del evs ys }"

definition feed_inv :: "('e \<Rightarrow> bool) \<Rightarrow> ('e \<Rightarrow> 'k) \<Rightarrow> 'e list \<Rightarrow> bool" where
  "feed_inv ok key xs = (list_all ok xs \<and> distinct (map key xs))"

text \<open>Collections without a separate update: \<open>Inl e\<close> puts \<open>e\<close>, \<open>Inr e\<close> removes it.\<close>

fun table_step :: "'e feed_op \<Rightarrow> 'e feed_op \<Rightarrow> 'e + 'e \<Rightarrow> 'e list \<Rightarrow> 'e list option" where
  "table_step put del (Inl e) xs = put xs e"
| "table_step put del (Inr e) xs = del xs e"

fun table_run :: "'e feed_op \<Rightarrow> 'e feed_op \<Rightarrow> ('e + 'e) list \<Rightarrow> 'e list \<Rightarrow> 'e list option" where
  "table_run put del [] xs = Some xs"
| "table_run put del (ev # evs) xs =
     do { ys \<leftarrow> table_step put del ev xs; table_run put del evs ys }"

fun table_effect :: "('e \<Rightarrow> 'k) \<Rightarrow> 'e + 'e \<Rightarrow> 'k set \<Rightarrow> 'k set" where
  "table_effect key (Inl e) K = insert (key e) K"
| "table_effect key (Inr e) K = K - {key e}"

abbreviation table_payload :: "'e + 'e \<Rightarrow> 'e" where
  "table_payload ev \<equiv> (case ev of Inl e \<Rightarrow> e | Inr e \<Rightarrow> e)"

section \<open>Putting an entity: insertion and upsert\<close>

locale keyed_table =
  fixes ok :: "'e \<Rightarrow> bool"
    and key :: "'e \<Rightarrow> 'k"
    and add :: "'e list \<Rightarrow> 'e \<Rightarrow> 'e list option"
  assumes put_known: "list_all ok xs \<Longrightarrow> ok e \<Longrightarrow> key e \<in> key ` set xs \<Longrightarrow>
      \<exists>ys. add xs e = Some ys \<and> list_all ok ys \<and> map key ys = map key xs"
    and put_fresh: "list_all ok xs \<Longrightarrow> ok e \<Longrightarrow> key e \<notin> key ` set xs \<Longrightarrow>
      \<exists>ys e'. add xs e = Some ys \<and> mset ys = add_mset e' (mset xs) \<and> key e' = key e \<and> ok e'"
    and put_again: "list_all ok xs \<Longrightarrow> ok e \<Longrightarrow> add xs e = Some ys \<Longrightarrow> add ys e = Some ys"
begin

lemma add_ok:
  assumes "list_all ok xs" "ok e"
  shows "\<exists>ys. add xs e = Some ys \<and> list_all ok ys \<and> key ` set ys = insert (key e) (key ` set xs)"
proof (cases "key e \<in> key ` set xs")
  case True
  with assms obtain ys where ys: "add xs e = Some ys" "list_all ok ys" "map key ys = map key xs"
    using put_known by blast
  then have "key ` set ys = key ` set xs" by (metis image_set)
  with True ys show ?thesis by (auto simp: insert_absorb)
next
  case False
  with assms obtain ys e' where ys: "add xs e = Some ys" "mset ys = add_mset e' (mset xs)"
    "key e' = key e" "ok e'" using put_fresh by blast
  then have "set ys = insert e' (set xs)" by (metis set_mset_add_mset_insert set_mset_mset)
  with ys assms show ?thesis by (auto simp: list_all_iff)
qed

lemma add_distinct:
  assumes "list_all ok xs" "ok e" "distinct (map key xs)" "add xs e = Some ys"
  shows "distinct (map key ys)"
proof (cases "key e \<in> key ` set xs")
  case True
  with assms put_known [of xs e] show ?thesis by auto
next
  case False
  with assms obtain e' where "mset ys = add_mset e' (mset xs)" "key e' = key e"
    using put_fresh by fastforce
  with False assms(3) show ?thesis by (metis distinct_key_mset)
qed

lemmas add_twice = put_again

lemma add_run:
  assumes "feed_inv ok key xs" "list_all ok es"
  shows "\<exists>ys. js_reduce add xs es = Some ys \<and> feed_inv ok key ys \<and> key ` set ys = key ` set xs \<union> key ` set es"
  using assms
proof (induction es arbitrary: xs)
  case (Cons e es)
  then have xs: "list_all ok xs" "ok e" "distinct (map key xs)" by (simp_all add: feed_inv_def)
  from add_ok [OF xs(1,2)] obtain ys where ys: "add xs e = Some ys" "list_all ok ys"
    "key ` set ys = insert (key e) (key ` set xs)" by blast
  with add_distinct [OF xs(1-3) ys(1)] have "feed_inv ok key ys" by (simp add: feed_inv_def)
  with Cons.IH [of ys] Cons.prems ys show ?case by auto
qed simp

end

text \<open>A collection that ignores an entity it already holds.\<close>

locale keyed_insert =
  fixes ok :: "'e \<Rightarrow> bool"
    and key :: "'e \<Rightarrow> 'k"
    and add :: "'e list \<Rightarrow> 'e \<Rightarrow> 'e list option"
  assumes add_known: "list_all ok xs \<Longrightarrow> ok e \<Longrightarrow> key e \<in> key ` set xs \<Longrightarrow> add xs e = Some xs"
    and add_fresh: "list_all ok xs \<Longrightarrow> ok e \<Longrightarrow> key e \<notin> key ` set xs \<Longrightarrow>
      \<exists>ys e'. add xs e = Some ys \<and> mset ys = add_mset e' (mset xs) \<and> key e' = key e \<and> ok e'"

sublocale keyed_insert \<subseteq> keyed_table
proof (unfold_locales, goal_cases)
  case (1 xs e)
  then show ?case by (auto simp: add_known)
next
  case (2 xs e)
  then show ?case by (rule add_fresh)
next
  case (3 xs e ys)
  show ?case
  proof (cases "key e \<in> key ` set xs")
    case True
    with 3 show ?thesis by (simp add: add_known)
  next
    case False
    with 3 obtain e' where e': "mset ys = add_mset e' (mset xs)" "key e' = key e" "ok e'"
      using add_fresh by fastforce
    then have "set ys = insert e' (set xs)" by (metis set_mset_add_mset_insert set_mset_mset)
    with e' 3 have "list_all ok ys" "key e \<in> key ` set ys" by (auto simp: list_all_iff)
    with 3 show ?thesis by (simp add: add_known)
  qed
qed

context keyed_insert
begin

lemma is_table: "keyed_table ok key add"
  by unfold_locales

end

section \<open>Putting and removing\<close>

locale keyed_set = keyed_table ok key add
  for ok :: "'e \<Rightarrow> bool" and key :: "'e \<Rightarrow> 'k" and add :: "'e list \<Rightarrow> 'e \<Rightarrow> 'e list option" +
  fixes del :: "'e list \<Rightarrow> 'e \<Rightarrow> 'e list option"
  assumes del_spec: "list_all ok xs \<Longrightarrow> ok e \<Longrightarrow> del xs e = Some (filter (\<lambda>x. key x \<noteq> key e) xs)"
begin

lemma del_ok:
  assumes "feed_inv ok key xs" "ok e"
  shows "\<exists>ys. del xs e = Some ys \<and> feed_inv ok key ys \<and> key ` set ys = key ` set xs - {key e}
    \<and> del ys e = Some ys"
  using assms by (auto simp: feed_inv_def del_spec list_all_iff intro: distinct_map_filter_key)

lemma put_ok:
  assumes "feed_inv ok key xs" "ok e"
  shows "\<exists>ys. add xs e = Some ys \<and> feed_inv ok key ys \<and> key ` set ys = insert (key e) (key ` set xs)
    \<and> add ys e = Some ys"
proof -
  from assms have xs: "list_all ok xs" "distinct (map key xs)" by (simp_all add: feed_inv_def)
  then obtain ys where ys: "add xs e = Some ys" "list_all ok ys" "key ` set ys = insert (key e) (key ` set xs)"
    using add_ok assms(2) by blast
  from add_distinct [OF xs(1) assms(2) xs(2) ys(1)] put_again [OF xs(1) assms(2) ys(1)] ys
  show ?thesis by (simp add: feed_inv_def)
qed

lemma table_step_ok:
  assumes "feed_inv ok key xs" "ok (table_payload ev)"
  shows "\<exists>ys. table_step add del ev xs = Some ys \<and> feed_inv ok key ys
    \<and> key ` set ys = table_effect key ev (key ` set xs) \<and> table_step add del ev ys = Some ys"
  using assms put_ok del_ok by (cases ev) auto

lemma table_run_ok:
  assumes "feed_inv ok key xs" "list_all (\<lambda>ev. ok (table_payload ev)) evs"
  shows "\<exists>ys. table_run add del evs xs = Some ys \<and> feed_inv ok key ys
    \<and> key ` set ys = fold (table_effect key) evs (key ` set xs)"
  using assms
proof (induction evs arbitrary: xs)
  case (Cons ev evs)
  from Cons.prems have "ok (table_payload ev)" by simp
  from table_step_ok [OF Cons.prems(1) this] obtain ys where ys: "table_step add del ev xs = Some ys"
    "feed_inv ok key ys" "key ` set ys = table_effect key ev (key ` set xs)" by blast
  with Cons.IH [of ys] Cons.prems show ?case by auto
qed simp

lemma table_run_redelivered:
  assumes "feed_inv ok key xs" "list_all (\<lambda>ev. ok (table_payload ev)) evs"
  shows "table_run add del (concat (map (\<lambda>ev. [ev, ev]) evs)) xs = table_run add del evs xs"
  using assms
proof (induction evs arbitrary: xs)
  case (Cons ev evs)
  from Cons.prems have "ok (table_payload ev)" by simp
  from table_step_ok [OF Cons.prems(1) this] obtain ys where ys: "table_step add del ev xs = Some ys"
    "feed_inv ok key ys" "table_step add del ev ys = Some ys" by blast
  with Cons.IH [of ys] Cons.prems show ?case by auto
qed simp

end

section \<open>The whole contract\<close>

locale keyed_feed = keyed_set ok key add del
  for ok :: "'e \<Rightarrow> bool" and key :: "'e \<Rightarrow> 'k" and add :: "'e list \<Rightarrow> 'e \<Rightarrow> 'e list option"
    and upd :: "'e list \<Rightarrow> 'e \<Rightarrow> 'e list option" and del :: "'e list \<Rightarrow> 'e \<Rightarrow> 'e list option" +
  assumes upd_spec: "list_all ok xs \<Longrightarrow> ok e \<Longrightarrow>
      \<exists>ys. upd xs e = Some ys \<and> list_all ok ys \<and> map key ys = map key xs"
    and upd_other: "list_all ok xs \<Longrightarrow> ok e \<Longrightarrow> upd xs e = Some ys \<Longrightarrow> i < length xs \<Longrightarrow>
      key (xs ! i) \<noteq> key e \<Longrightarrow> ys ! i = xs ! i"
    and upd_again: "list_all ok xs \<Longrightarrow> ok e \<Longrightarrow> upd xs e = Some ys \<Longrightarrow> upd ys e = Some ys"
begin

lemma feed_step_ok:
  assumes "list_all ok xs" "ok (event_payload ev)"
  shows "\<exists>ys. feed_step add upd del ev xs = Some ys \<and> list_all ok ys \<and>
    key ` set ys = key_effect key ev (key ` set xs)"
proof (cases ev)
  case (Added e)
  with assms show ?thesis using add_ok by auto
next
  case (Changed e)
  with assms obtain ys where "upd xs e = Some ys" "list_all ok ys" "map key ys = map key xs"
    using upd_spec by auto
  moreover from this have "key ` set ys = key ` set xs" by (metis image_set)
  ultimately show ?thesis using Changed by auto
next
  case (Removed e)
  with assms show ?thesis by (auto simp: del_spec list_all_iff)
qed

lemma feed_step_inv:
  assumes "feed_inv ok key xs" "ok (event_payload ev)" "feed_step add upd del ev xs = Some ys"
  shows "feed_inv ok key ys"
proof (cases ev)
  case (Added e)
  with assms show ?thesis unfolding feed_inv_def
    using add_distinct [of xs e ys] feed_step_ok [of xs ev] by auto
next
  case (Changed e)
  with assms show ?thesis unfolding feed_inv_def
    using upd_spec [of xs e] by auto
next
  case (Removed e)
  with assms show ?thesis unfolding feed_inv_def
    by (auto simp: del_spec list_all_iff intro: distinct_map_filter_key)
qed

lemma feed_step_twice:
  assumes "list_all ok xs" "ok (event_payload ev)" "feed_step add upd del ev xs = Some ys"
  shows "feed_step add upd del ev ys = Some ys"
proof (cases ev)
  case (Added e)
  with assms show ?thesis using add_twice by auto
next
  case (Changed e)
  with assms show ?thesis using upd_again by auto
next
  case (Removed e)
  with assms show ?thesis by (auto simp: del_spec list_all_iff)
qed

lemma feed_run_ok:
  assumes "feed_inv ok key xs" "list_all (\<lambda>ev. ok (event_payload ev)) evs"
  shows "\<exists>ys. feed_run add upd del evs xs = Some ys \<and> feed_inv ok key ys \<and>
    key ` set ys = fold (key_effect key) evs (key ` set xs)"
  using assms
proof (induction evs arbitrary: xs)
  case Nil
  then show ?case by simp
next
  case (Cons ev evs)
  then have p: "list_all ok xs" "ok (event_payload ev)" by (simp_all add: feed_inv_def)
  then obtain ys where ys: "feed_step add upd del ev xs = Some ys"
    "key ` set ys = key_effect key ev (key ` set xs)" using feed_step_ok by blast
  with Cons.prems p have "feed_inv ok key ys" using feed_step_inv by blast
  with Cons.IH [of ys] Cons.prems ys show ?case by auto
qed

lemma feed_run_redelivered:
  assumes "feed_inv ok key xs" "list_all (\<lambda>ev. ok (event_payload ev)) evs"
  shows "feed_run add upd del (concat (map (\<lambda>ev. [ev, ev]) evs)) xs = feed_run add upd del evs xs"
  using assms
proof (induction evs arbitrary: xs)
  case Nil
  then show ?case by simp
next
  case (Cons ev evs)
  then have p: "list_all ok xs" "ok (event_payload ev)" by (simp_all add: feed_inv_def)
  then obtain ys where ys: "feed_step add upd del ev xs = Some ys" using feed_step_ok by blast
  with Cons.prems p have "feed_inv ok key ys" "feed_step add upd del ev ys = Some ys"
    using feed_step_inv feed_step_twice by blast+
  with Cons.IH [of ys] Cons.prems ys show ?case by auto
qed

end

end
