(* ===== verification/JsValue.thy ===== *)
theory JsValue
  imports JsPrelude
begin

text \<open>
  The JavaScript values the client code handles: everything that arrives over the WebSocket is
  the result of \<open>JSON.parse\<close>, is typed \<open>any\<close> and is merged into the state with object
  spreads. Objects are association lists in property order; numbers are the integers (ids,
  counters, positions and timestamps, below \<open>2 ^ 53\<close>, where doubles are exact) and \<open>NaN\<close>;
  strings are character lists.

  \<open>get\<close> is the property access \<open>v.k\<close>, which throws on \<open>null\<close> and \<open>undefined\<close>; \<open>fld\<close> is
  \<open>v?.k\<close>, which does not. An object that carries its own \<open>toString\<close> is outside the model.
\<close>

section \<open>Values\<close>

datatype jsval =
    JUndef
  | JNull
  | JBool bool
  | JNum int
  | JNaN
  | JStr string
  | JArr "jsval list"
  | JObj "(string \<times> jsval) list"
  | JMap "(jsval \<times> jsval) list"

definition nullish :: "jsval \<Rightarrow> bool" where
  "nullish v = (v = JUndef \<or> v = JNull)"

fun truthy :: "jsval \<Rightarrow> bool" where
  "truthy JUndef = False"
| "truthy JNull = False"
| "truthy (JBool b) = b"
| "truthy (JNum n) = (n \<noteq> 0)"
| "truthy JNaN = False"
| "truthy (JStr s) = (s \<noteq> [])"
| "truthy (JArr _) = True"
| "truthy (JObj _) = True"
| "truthy (JMap _) = True"

text \<open>\<open>a || b\<close>, \<open>a ?? b\<close> and \<open>a && b\<close> where evaluating \<open>b\<close> cannot throw.\<close>

definition js_or :: "jsval \<Rightarrow> jsval \<Rightarrow> jsval" where
  "js_or a b = (if truthy a then a else b)"

definition js_coalesce :: "jsval \<Rightarrow> jsval \<Rightarrow> jsval" where
  "js_coalesce a b = (if nullish a then b else a)"

lemma nullish_simps [simp]:
  "nullish JUndef" "nullish JNull" "\<not> nullish (JBool b)" "\<not> nullish (JNum n)" "\<not> nullish JNaN"
  "\<not> nullish (JStr s)" "\<not> nullish (JArr xs)" "\<not> nullish (JObj ps)" "\<not> nullish (JMap ms)"
  by (simp_all add: nullish_def)

lemma truthy_not_nullish: "truthy v \<Longrightarrow> \<not> nullish v"
  by (auto simp: nullish_def)

section \<open>\<open>String(v)\<close>\<close>

definition digit_char :: "nat \<Rightarrow> char" where
  "digit_char d = char_of (48 + d)"

definition is_digit :: "char \<Rightarrow> bool" where
  "is_digit c = (48 \<le> (of_char c :: nat) \<and> (of_char c :: nat) \<le> 57)"

definition digit_val :: "char \<Rightarrow> nat" where
  "digit_val c = of_char c - 48"

fun dec_nat :: "nat \<Rightarrow> string" where
  "dec_nat n = (if n < 10 then [digit_char n] else dec_nat (n div 10) @ [digit_char (n mod 10)])"

declare dec_nat.simps [simp del]

definition dec_int :: "int \<Rightarrow> string" where
  "dec_int i = (if i < 0 then CHR ''-'' # dec_nat (nat (- i)) else dec_nat (nat i))"

definition parse_nat :: "string \<Rightarrow> nat" where
  "parse_nat s = foldl (\<lambda>n c. 10 * n + digit_val c) 0 s"

fun js_join :: "string \<Rightarrow> string list \<Rightarrow> string" where
  "js_join sep [] = []"
| "js_join sep [x] = x"
| "js_join sep (x # y # xs) = x @ sep @ js_join sep (y # xs)"

fun js_string :: "jsval \<Rightarrow> string" where
  "js_string JUndef = ''undefined''"
| "js_string JNull = ''null''"
| "js_string (JBool b) = (if b then ''true'' else ''false'')"
| "js_string (JNum n) = dec_int n"
| "js_string JNaN = ''NaN''"
| "js_string (JStr s) = s"
| "js_string (JArr xs) = js_join '','' (map (\<lambda>x. if nullish x then [] else js_string x) xs)"
| "js_string (JObj _) = ''[object Object]''"
| "js_string (JMap _) = ''[object Map]''"

lemma of_char_digit_char: "d < 10 \<Longrightarrow> (of_char (digit_char d) :: nat) = 48 + d"
  by (simp add: digit_char_def)

lemma digit_val_digit_char [simp]: "d < 10 \<Longrightarrow> digit_val (digit_char d) = d"
  by (simp add: digit_val_def of_char_digit_char)

lemma is_digit_digit_char [simp]: "d < 10 \<Longrightarrow> is_digit (digit_char d)"
  by (simp add: is_digit_def of_char_digit_char)

lemma parse_dec_nat [simp]: "parse_nat (dec_nat n) = n"
proof (induction n rule: dec_nat.induct)
  case (1 n)
  then show ?case
    by (cases "n < 10") (simp_all add: dec_nat.simps [of n] parse_nat_def)
qed

lemma dec_nat_digits: "list_all is_digit (dec_nat n)"
proof (induction n rule: dec_nat.induct)
  case (1 n)
  then show ?case by (cases "n < 10") (simp_all add: dec_nat.simps [of n])
qed

lemma dec_nat_nonempty [simp]: "dec_nat n \<noteq> []"
  by (simp add: dec_nat.simps [of n])

lemma dec_nat_inject [simp]: "dec_nat m = dec_nat n \<longleftrightarrow> m = n"
  by (metis parse_dec_nat)

lemma dec_nat_small: "n < 10 \<Longrightarrow> dec_nat n = [digit_char n]"
  by (simp add: dec_nat.simps [of n])

lemma dec_int_small [simp]: "dec_int 0 = ''0''" "dec_int 1 = ''1''" "dec_int 2 = ''2''" "dec_int 3 = ''3''"
  by (simp_all add: dec_int_def dec_nat_small digit_char_def char_of_def bit_iff_odd)

lemma dec_nat_no_minus: "dec_nat n \<noteq> CHR ''-'' # s"
  using dec_nat_digits [of n] by (auto simp: is_digit_def)

lemma dec_int_inject [simp]: "dec_int i = dec_int j \<longleftrightarrow> i = j"
  by (auto simp: dec_int_def dec_nat_no_minus dec_nat_no_minus [symmetric])

section \<open>Properties\<close>

definition fld :: "jsval \<Rightarrow> string \<Rightarrow> jsval" where
  "fld v k =
     (case v of
        JObj ps \<Rightarrow> (case map_of ps k of Some w \<Rightarrow> w | None \<Rightarrow> JUndef)
      | JArr xs \<Rightarrow> if k = ''length'' then JNum (int (length xs)) else JUndef
      | JStr s \<Rightarrow> if k = ''length'' then JNum (int (length s)) else JUndef
      | _ \<Rightarrow> JUndef)"

definition get :: "jsval \<Rightarrow> string \<Rightarrow> jsval option" where
  "get v k = (if nullish v then None else Some (fld v k))"

lemma get_total [js_total, simp]: "\<not> nullish v \<Longrightarrow> get v k = Some (fld v k)"
  by (simp add: get_def)

lemma get_nullish [simp]: "nullish v \<Longrightarrow> get v k = None"
  by (simp add: get_def)

lemma fld_obj [simp]: "fld (JObj ps) k = (case map_of ps k of Some w \<Rightarrow> w | None \<Rightarrow> JUndef)"
  by (simp add: fld_def)

lemma fld_nullish: "nullish v \<Longrightarrow> fld v k = JUndef"
  by (auto simp: fld_def nullish_def)

lemma truthy_fld_readable: "truthy (fld v k) \<Longrightarrow> \<not> nullish v"
  by (metis fld_nullish truthy.simps(1))

section \<open>Object spread\<close>

text \<open>
  \<open>{...a, ...b}\<close>: the properties of \<open>a\<close> in their order, with \<open>b\<close>'s values where \<open>b\<close> has the
  property, then the remaining properties of \<open>b\<close>. Spreading a value that is not an object adds
  the index properties of an array or a string and nothing otherwise.
\<close>

definition props_merge :: "(string \<times> jsval) list \<Rightarrow> (string \<times> jsval) list \<Rightarrow> (string \<times> jsval) list"
  where
  "props_merge ps qs =
     map (\<lambda>(k, v). (k, case map_of qs k of Some w \<Rightarrow> w | None \<Rightarrow> v)) ps
     @ filter (\<lambda>(k, v). map_of ps k = None) qs"

definition own_props :: "jsval \<Rightarrow> (string \<times> jsval) list" where
  "own_props v =
     (case v of
        JObj ps \<Rightarrow> ps
      | JArr xs \<Rightarrow> map (\<lambda>i. (dec_nat i, xs ! i)) [0..<length xs]
      | JStr s \<Rightarrow> map (\<lambda>i. (dec_nat i, JStr [s ! i])) [0..<length s]
      | _ \<Rightarrow> [])"

definition obj_spread :: "jsval \<Rightarrow> jsval \<Rightarrow> jsval" where
  "obj_spread a b = JObj (props_merge (own_props a) (own_props b))"

text \<open>\<open>{...v, k1: x1, k2: x2}\<close>.\<close>

definition obj_with :: "jsval \<Rightarrow> (string \<times> jsval) list \<Rightarrow> jsval" where
  "obj_with v kvs = JObj (props_merge (own_props v) kvs)"

lemma map_of_props_merge:
  "map_of (props_merge ps qs) k = (case map_of qs k of Some w \<Rightarrow> Some w | None \<Rightarrow> map_of ps k)
   \<or> map_of ps k = None \<and> map_of qs k = None \<and> map_of (props_merge ps qs) k = None"
proof -
  have 1: "map_of (map (\<lambda>(k, v). (k, case map_of qs k of Some w \<Rightarrow> w | None \<Rightarrow> v)) ps) k =
      (case map_of ps k of None \<Rightarrow> None
       | Some v \<Rightarrow> Some (case map_of qs k of Some w \<Rightarrow> w | None \<Rightarrow> v))"
    by (induction ps) (simp_all split: option.splits prod.splits)
  have 2: "map_of (filter (\<lambda>(k, v). map_of ps k = None) qs) k =
      (if map_of ps k = None then map_of qs k else None)"
    by (induction qs) auto
  show ?thesis
    by (auto simp: props_merge_def map_add_def 1 2 split: option.splits)
qed

lemma map_of_merge [simp]:
  "map_of (props_merge ps qs) k = (case map_of qs k of Some w \<Rightarrow> Some w | None \<Rightarrow> map_of ps k)"
  using map_of_props_merge [of ps qs k] by (auto split: option.splits)

lemma fld_obj_with [simp]:
  "fld (obj_with v kvs) k =
     (case map_of kvs k of Some w \<Rightarrow> w
      | None \<Rightarrow> (case map_of (own_props v) k of Some w \<Rightarrow> w | None \<Rightarrow> JUndef))"
  by (simp add: obj_with_def split: option.splits)

lemma own_props_obj [simp]: "own_props (JObj ps) = ps"
  by (simp add: own_props_def)

lemma own_props_with [simp]: "own_props (obj_with v kvs) = props_merge (own_props v) kvs"
  by (simp add: obj_with_def)

lemma obj_spread_fld:
  "fld (obj_spread a b) k =
     (case map_of (own_props b) k of Some w \<Rightarrow> w
      | None \<Rightarrow> (case map_of (own_props a) k of Some w \<Rightarrow> w | None \<Rightarrow> JUndef))"
  by (simp add: obj_spread_def split: option.splits)

lemma obj_spread_readable [simp]: "\<not> nullish (obj_spread a b)" "\<not> nullish (obj_with a kvs)"
  by (simp_all add: obj_spread_def obj_with_def)

text \<open>Objects made by \<open>JSON.parse\<close> have each property once.\<close>

definition wf_props :: "(string \<times> jsval) list \<Rightarrow> bool" where
  "wf_props ps = distinct (map fst ps)"

lemma map_fst_merge:
  "map fst (props_merge ps qs) = map fst ps @ filter (\<lambda>k. map_of ps k = None) (map fst qs)"
  by (simp add: props_merge_def filter_map comp_def case_prod_unfold)

lemma wf_props_merge: "wf_props ps \<Longrightarrow> wf_props qs \<Longrightarrow> wf_props (props_merge ps qs)"
  by (auto simp: wf_props_def map_fst_merge map_of_eq_None_iff)

lemma merge_covered:
  assumes "wf_props qs" "\<forall>k \<in> set (map fst qs). map_of ps k \<noteq> None"
    and "\<forall>(k, v) \<in> set ps. map_of qs k \<in> {None, Some v}"
  shows "props_merge ps qs = ps"
proof -
  have "filter (\<lambda>(k, v). map_of ps k = None) qs = []"
    using assms(2) by (force simp: filter_empty_conv)
  moreover have "map (\<lambda>(k, v). (k, case map_of qs k of Some w \<Rightarrow> w | None \<Rightarrow> v)) ps = ps"
    using assms(3) by (intro map_idI) auto
  ultimately show ?thesis by (simp add: props_merge_def)
qed

lemma props_merge_idem:
  assumes "wf_props qs"
  shows "props_merge (props_merge ps qs) qs = props_merge ps qs"
proof (rule merge_covered [OF assms])
  show "\<forall>k \<in> set (map fst qs). map_of (props_merge ps qs) k \<noteq> None"
    by (auto simp: map_of_eq_None_iff split: option.splits)
  have "map_of qs k \<in> {None, Some v}" if "(k, v) \<in> set (props_merge ps qs)" for k v
    using that assms
    by (auto simp: props_merge_def wf_props_def map_of_eq_Some_iff split: option.splits)
  then show "\<forall>(k, v) \<in> set (props_merge ps qs). map_of qs k \<in> {None, Some v}" by blast
qed

lemma merge_self: "wf_props ps \<Longrightarrow> props_merge ps ps = ps"
  by (rule merge_covered) (auto simp: wf_props_def map_of_eq_None_iff)

lemma wf_props_simps [simp]:
  "wf_props []" "wf_props ((k, v) # ps) \<longleftrightarrow> k \<notin> set (map fst ps) \<and> wf_props ps"
  by (simp_all add: wf_props_def)

section \<open>Comparisons\<close>

text \<open>
  \<open>===\<close> on the values compared in the code: primitives by value, objects by identity, and two
  objects out of different messages are never the same object.
\<close>

fun strict_eq :: "jsval \<Rightarrow> jsval \<Rightarrow> bool" where
  "strict_eq JUndef JUndef = True"
| "strict_eq JNull JNull = True"
| "strict_eq (JBool a) (JBool b) = (a = b)"
| "strict_eq (JNum a) (JNum b) = (a = b)"
| "strict_eq (JStr a) (JStr b) = (a = b)"
| "strict_eq _ _ = False"

text \<open>\<open>String(a.k) === String(b.l)\<close>, the comparison by which the client identifies entities.\<close>

definition same_key :: "jsval \<Rightarrow> string \<Rightarrow> jsval \<Rightarrow> string \<Rightarrow> bool option" where
  "same_key a k b l = do { x \<leftarrow> get a k; y \<leftarrow> get b l; Some (js_string x = js_string y) }"

abbreviation same_id :: "jsval \<Rightarrow> jsval \<Rightarrow> bool option" where
  "same_id a b \<equiv> same_key a ''id'' b ''id''"

definition key_of :: "jsval \<Rightarrow> string" where
  "key_of v = js_string (fld v ''id'')"

lemma same_key_total [js_total]:
  "\<not> nullish a \<Longrightarrow> \<not> nullish b \<Longrightarrow>
   same_key a k b l = Some (js_string (fld a k) = js_string (fld b l))"
  by (simp add: same_key_def)

section \<open>Numbers\<close>

text \<open>
  \<open>Number(v)\<close>. A string is trimmed; the empty string is \<open>0\<close>, an optionally signed string of
  digits its value, any other string \<open>NaN\<close> (strings with a fraction or an exponent do not occur
  in the fields that are converted).
\<close>

definition is_space :: "char \<Rightarrow> bool" where
  "is_space c = ((of_char c :: nat) \<in> {9, 10, 11, 12, 13, 32, 160})"

definition js_trim :: "string \<Rightarrow> string" where
  "js_trim s = rev (dropWhile is_space (rev (dropWhile is_space s)))"

definition all_digits :: "string \<Rightarrow> bool" where
  "all_digits s = (s \<noteq> [] \<and> list_all is_digit s)"

definition string_to_number :: "string \<Rightarrow> jsval" where
  "string_to_number s =
     (let t = js_trim s in
      if t = [] then JNum 0
      else if all_digits t then JNum (int (parse_nat t))
      else if hd t = CHR ''-'' \<and> all_digits (tl t) then JNum (- int (parse_nat (tl t)))
      else if hd t = CHR ''+'' \<and> all_digits (tl t) then JNum (int (parse_nat (tl t)))
      else JNaN)"

definition js_number :: "jsval \<Rightarrow> jsval" where
  "js_number v =
     (case v of
        JUndef \<Rightarrow> JNaN
      | JNull \<Rightarrow> JNum 0
      | JBool b \<Rightarrow> JNum (if b then 1 else 0)
      | JNum n \<Rightarrow> JNum n
      | JNaN \<Rightarrow> JNaN
      | JStr s \<Rightarrow> string_to_number s
      | JArr xs \<Rightarrow> string_to_number (js_string (JArr xs))
      | JObj _ \<Rightarrow> JNaN
      | JMap _ \<Rightarrow> JNaN)"

text \<open>\<open>a + b\<close> concatenates when one operand is a string, an array or an object; otherwise, and for
  \<open>a * b\<close>, \<open>a - n\<close> and \<open>Math.max(0, a)\<close> always, the operands are converted with \<open>Number\<close>.\<close>

definition concatenates :: "jsval \<Rightarrow> bool" where
  "concatenates v = (case v of JStr _ \<Rightarrow> True | JArr _ \<Rightarrow> True | JObj _ \<Rightarrow> True | JMap _ \<Rightarrow> True | _ \<Rightarrow> False)"

definition js_arith :: "(int \<Rightarrow> int \<Rightarrow> int) \<Rightarrow> jsval \<Rightarrow> jsval \<Rightarrow> jsval" where
  "js_arith f a b =
     (case js_number a of
        JNum m \<Rightarrow> (case js_number b of JNum n \<Rightarrow> JNum (f m n) | _ \<Rightarrow> JNaN)
      | _ \<Rightarrow> JNaN)"

definition js_add :: "jsval \<Rightarrow> jsval \<Rightarrow> jsval" where
  "js_add a b =
     (if concatenates a \<or> concatenates b then JStr (js_string a @ js_string b)
      else js_arith (+) a b)"

definition js_mul :: "jsval \<Rightarrow> jsval \<Rightarrow> jsval" where
  "js_mul a b = js_arith (*) a b"

definition js_plus :: "jsval \<Rightarrow> int \<Rightarrow> jsval" where
  "js_plus a n = js_add a (JNum n)"

definition js_minus :: "jsval \<Rightarrow> int \<Rightarrow> jsval" where
  "js_minus a n = (case js_number a of JNum m \<Rightarrow> JNum (m - n) | _ \<Rightarrow> JNaN)"

definition js_max0 :: "jsval \<Rightarrow> jsval" where
  "js_max0 a = (case js_number a of JNum m \<Rightarrow> JNum (max 0 m) | _ \<Rightarrow> JNaN)"

definition num_of :: "jsval \<Rightarrow> int" where
  "num_of v = (case v of JNum n \<Rightarrow> n | _ \<Rightarrow> 0)"

definition is_number :: "jsval \<Rightarrow> bool" where
  "is_number v = (case v of JNum _ \<Rightarrow> True | _ \<Rightarrow> False)"

lemma is_numberD: "is_number v \<Longrightarrow> \<exists>n. v = JNum n"
  by (cases v) (simp_all add: is_number_def)

lemma is_number_simps [simp]: "is_number (JNum n)" "num_of (JNum n) = n"
  by (simp_all add: is_number_def num_of_def)

lemma js_num_arith [simp]:
  "js_add (JNum m) (JNum n) = JNum (m + n)" "js_mul (JNum m) (JNum n) = JNum (m * n)"
  "js_plus (JNum m) n = JNum (m + n)" "js_minus (JNum m) n = JNum (m - n)"
  "js_max0 (JNum m) = JNum (max 0 m)"
  by (simp_all add: js_add_def js_mul_def js_plus_def js_minus_def js_max0_def js_arith_def
      js_number_def concatenates_def)

lemma dropWhile_no_space: "s \<noteq> [] \<Longrightarrow> \<not> is_space (hd s) \<Longrightarrow> dropWhile is_space s = s"
  by (cases s) auto

lemma js_trim_id: "s \<noteq> [] \<Longrightarrow> \<not> is_space (hd s) \<Longrightarrow> \<not> is_space (last s) \<Longrightarrow> js_trim s = s"
  by (simp add: js_trim_def dropWhile_no_space hd_rev)

lemma digit_not_space: "is_digit c \<Longrightarrow> \<not> is_space c"
  by (auto simp: is_digit_def is_space_def)

lemma js_trim_digits: "all_digits s \<Longrightarrow> js_trim s = s"
  by (rule js_trim_id) (auto simp: all_digits_def list_all_iff digit_not_space)

lemma js_number_dec_nat [simp]: "js_number (JStr (dec_nat n)) = JNum (int n)"
proof -
  have "all_digits (dec_nat n)" by (simp add: all_digits_def dec_nat_digits)
  then show ?thesis
    by (simp add: js_number_def string_to_number_def js_trim_digits)
qed

lemma find_SomeD: "List.find P xs = Some x \<Longrightarrow> P x \<and> x \<in> set xs"
  by (induction xs) (auto split: if_splits)

lemma strict_eq_eq: "strict_eq a b \<Longrightarrow> a = b"
  by (cases a; cases b) simp_all

text \<open>Objects that are no arrays and no maps.\<close>

definition plain_object :: "jsval \<Rightarrow> bool" where
  "plain_object v = (case v of JObj _ \<Rightarrow> True | _ \<Rightarrow> False)"

lemma object_fields: "plain_object s \<Longrightarrow> (case map_of (own_props s) k of None \<Rightarrow> JUndef | Some w \<Rightarrow> w) = fld s k"
  by (simp add: plain_object_def split: jsval.splits)

end
