(* ===== verification/WsRegistry.thy ===== *)
theory WsRegistry
  imports JsValue
begin

text \<open>
  The registry of \<open>utils/wsRegistry.ts\<close>: which atoms of the jotai store a message type updates,
  and with which patch function; and the key and payload computed for it in
  \<open>hooks/handlers.ts\<close>. The store is the map from atoms to their values. A patch reads the
  previous value of its atom, the payload and the whole store; \<open>None\<close> is a patch that throws.
\<close>

section \<open>The store\<close>

datatype atom =
    CurrentUserAtom | GuestSandboxAtom
  | ForumCategoriesAtom | CurrentThreadAtom | ThreadCommentsAtom
  | CategoryFeedThreadsAtom | ActiveCategoryFeedIdAtom
  | UserFeedThreadsAtom | ActiveUserFeedIdAtom
  | AllFeedThreadsAtom | ActiveAllFeedIdAtom
  | ProductsAtom | ProductCategoriesAtom | OrdersAtom | CurrentOrderAtom
  | SelectedCategoryIdAtom | StoreCartItemsAtom
  | InboxConversationsAtom | InboxMessagesAtom | ActiveConversationIdAtom | InboxUnreadCountAtom
  | NotificationsAtom | GlobalChatMessagesAtom | OnlineUsersAtom | CursorPositionsAtom
  | VoicePermissionsAtom | MediaStateAtom | ActivityEventsAtom
  | BrandingAtom | SeoAtom | FooterConfigAtom

type_synonym ws_store = "atom \<Rightarrow> jsval"
type_synonym patch_fn = "jsval \<Rightarrow> jsval \<Rightarrow> ws_store \<Rightarrow> jsval option"

record resource_handler =
  h_atom :: atom
  h_patch :: patch_fn

type_synonym ws_registry = "(string, resource_handler list) jsmap"

datatype ws_outcome = Unhandled | Handled | Threw

definition register_resource :: "string \<Rightarrow> atom \<Rightarrow> patch_fn \<Rightarrow> ws_registry \<Rightarrow> ws_registry" where
  "register_resource message_type a patch registry =
     (let handlers = (case map_get registry message_type of Some hs \<Rightarrow> hs | None \<Rightarrow> []) in
      map_set message_type (handlers @ [\<lparr>h_atom = a, h_patch = patch\<rparr>]) registry)"

text \<open>
  The loop of \<open>applyWsUpdate\<close>: each handler sets its atom before the next one runs; a patch that
  throws ends the loop, and the atoms set so far keep their new values.
\<close>

fun run_handlers :: "resource_handler list \<Rightarrow> jsval \<Rightarrow> ws_store \<Rightarrow> ws_store \<times> ws_outcome" where
  "run_handlers [] data st = (st, Handled)"
| "run_handlers (h # hs) data st =
     (case h_patch h (st (h_atom h)) data st of
        None \<Rightarrow> (st, Threw)
      | Some v \<Rightarrow> run_handlers hs data (st(h_atom h := v)))"

definition apply_ws_update :: "ws_registry \<Rightarrow> string \<Rightarrow> jsval \<Rightarrow> ws_store \<Rightarrow> ws_store \<times> ws_outcome" where
  "apply_ws_update registry message_type data st =
     (case map_get registry message_type of
        None \<Rightarrow> (st, Unhandled)
      | Some hs \<Rightarrow> if hs = [] then (st, Unhandled) else run_handlers hs data st)"

section \<open>Key and payload of a message\<close>

definition registry_payload :: "jsval \<Rightarrow> jsval" where
  "registry_payload payload = js_coalesce (fld payload ''data'') payload"

definition registry_key :: "string \<Rightarrow> jsval \<Rightarrow> string" where
  "registry_key type payload =
     (if truthy (fld payload ''action'') then type @ '':'' @ js_string (fld payload ''action'')
      else type)"

definition starts_with :: "string \<Rightarrow> string \<Rightarrow> bool" where
  "starts_with pre s = (take (length pre) s = pre)"

definition apply_message_update ::
  "ws_registry \<Rightarrow> string \<Rightarrow> jsval \<Rightarrow> ws_store \<Rightarrow> ws_store \<times> ws_outcome" where
  "apply_message_update registry type payload st =
     (if type = ''voice:control'' \<or> starts_with ''voice:'' type
      then apply_ws_update registry type (registry_payload payload) st
      else apply_ws_update registry (registry_key type payload) (registry_payload payload) st)"

text \<open>
  A payload with an action never reaches a patch as \<open>null\<close> or \<open>undefined\<close>: with no \<open>data\<close> the
  payload object itself is passed.
\<close>

lemma registry_payload_readable:
  "truthy (fld payload ''action'') \<Longrightarrow> \<not> nullish (registry_payload payload)"
  by (auto simp: registry_payload_def js_coalesce_def dest: truthy_fld_readable)

section \<open>Registration\<close>

type_synonym registration = "string \<times> atom \<times> patch_fn"

definition register_all :: "registration list \<Rightarrow> ws_registry \<Rightarrow> ws_registry" where
  "register_all rs registry = fold (\<lambda>(ty, a, p). register_resource ty a p) rs registry"

text \<open>The handlers of a type, in the order in which they were registered.\<close>

definition handlers_for :: "registration list \<Rightarrow> string \<Rightarrow> resource_handler list" where
  "handlers_for rs ty =
     map (\<lambda>(ty', a, p). \<lparr>h_atom = a, h_patch = p\<rparr>) (filter (\<lambda>(ty', a, p). ty' = ty) rs)"

lemma handlers_for_Nil [simp]: "handlers_for [] ty = []"
  by (simp add: handlers_for_def)

lemma handlers_for_Cons [simp]:
  "handlers_for ((ty', a, p) # rs) ty =
     (if ty' = ty then \<lparr>h_atom = a, h_patch = p\<rparr> # handlers_for rs ty else handlers_for rs ty)"
  by (simp add: handlers_for_def)

lemma handlers_for_append [simp]:
  "handlers_for (rs @ rs') ty = handlers_for rs ty @ handlers_for rs' ty"
  by (simp add: handlers_for_def)

lemma register_all_lookup:
  "(case map_get (register_all rs registry) ty of Some hs \<Rightarrow> hs | None \<Rightarrow> []) =
   (case map_get registry ty of Some hs \<Rightarrow> hs | None \<Rightarrow> []) @ handlers_for rs ty"
proof (induction rs arbitrary: registry)
  case Nil
  then show ?case by (simp add: register_all_def)
next
  case (Cons r rs)
  obtain ty' a p where r: "r = (ty', a, p)" by (cases r)
  show ?case
    using Cons.IH [of "register_resource ty' a p registry"]
    by (auto simp: r register_all_def register_resource_def Let_def split: option.splits)
qed

lemma apply_registered:
  "apply_ws_update (register_all rs []) ty data st =
     (if handlers_for rs ty = [] then (st, Unhandled) else run_handlers (handlers_for rs ty) data st)"
  using register_all_lookup [of rs "[]" ty]
  by (auto simp: apply_ws_update_def split: option.splits if_splits)

lemma in_handlers_for: "h \<in> set (handlers_for rs ty) \<longleftrightarrow> (ty, h_atom h, h_patch h) \<in> set rs"
  by (cases h) (force simp: handlers_for_def image_iff)

section \<open>What a run of handlers keeps\<close>

lemma run_handlers_frame:
  "a \<notin> h_atom ` set hs \<Longrightarrow> fst (run_handlers hs data st) a = st a"
  by (induction hs arbitrary: st) (auto split: option.splits)

lemma run_handlers_inv:
  assumes "I st"
    and "\<And>h st v. h \<in> set hs \<Longrightarrow> I st \<Longrightarrow> h_patch h (st (h_atom h)) data st = Some v \<Longrightarrow>
      I (st(h_atom h := v))"
  shows "I (fst (run_handlers hs data st))"
  using assms
proof (induction hs arbitrary: st)
  case Nil
  then show ?case by simp
next
  case (Cons h hs)
  show ?case
  proof (cases "h_patch h (st (h_atom h)) data st")
    case None
    with Cons.prems show ?thesis by simp
  next
    case (Some v)
    have "I (st(h_atom h := v))"
      by (rule Cons.prems(2)) (use Some Cons.prems(1) in auto)
    then have "I (fst (run_handlers hs data (st(h_atom h := v))))"
      by (rule Cons.IH) (rule Cons.prems(2), auto)
    then show ?thesis by (simp only: run_handlers.simps Some option.case)
  qed
qed

lemma run_handlers_total:
  assumes "I st"
    and "\<And>h st. h \<in> set hs \<Longrightarrow> I st \<Longrightarrow>
      \<exists>v. h_patch h (st (h_atom h)) data st = Some v \<and> I (st(h_atom h := v))"
  shows "snd (run_handlers hs data st) = Handled \<and> I (fst (run_handlers hs data st))"
  using assms
proof (induction hs arbitrary: st)
  case Nil
  then show ?case by simp
next
  case (Cons h hs)
  obtain v where v: "h_patch h (st (h_atom h)) data st = Some v" "I (st(h_atom h := v))"
    using Cons.prems(2) [of h st] Cons.prems(1) by (meson list.set_intros(1))
  from v(2) have "snd (run_handlers hs data (st(h_atom h := v))) = Handled \<and>
      I (fst (run_handlers hs data (st(h_atom h := v))))"
    by (rule Cons.IH) (rule Cons.prems(2), auto)
  then show ?case by (simp only: run_handlers.simps v(1) option.case)
qed

text \<open>
  Patches of array-valued atoms: calling an array method on another value throws.
\<close>

definition arr_patch :: "(jsval list \<Rightarrow> jsval \<Rightarrow> ws_store \<Rightarrow> jsval list option) \<Rightarrow> patch_fn" where
  "arr_patch f prev data st = (case prev of JArr xs \<Rightarrow> map_option JArr (f xs data st) | _ \<Rightarrow> None)"

lemma arr_patch_arr [simp]: "arr_patch f (JArr xs) data st = map_option JArr (f xs data st)"
  by (simp add: arr_patch_def)

end
