(* ===== verification/TsTypes.thy ===== *)
theory TsTypes
  imports JsValue
begin

text \<open>
  The TypeScript types of the client's data. The compiler erases them, so nothing at run time
  makes a value of \<open>JSON.parse\<close> follow its declared type; here an interface is the list of its
  fields and \<open>conforms\<close> says when a value has a type, so that the declarations of the code become
  invariants of the state that the patches are shown to keep.
\<close>

datatype tsty =
    TAny
  | TString
  | TNumber
  | TBoolean
  | TNull
  | TUndef
  | TLit string
  | TUnion "tsty list"
  | TArray tsty
  | TDict tsty
  | TRef string
  | TShape "(string \<times> bool \<times> tsty) list"

text \<open>A field is its name, whether it is declared with \<open>?\<close>, and its type.\<close>

type_synonym fields = "(string \<times> bool \<times> tsty) list"
type_synonym interfaces = "string \<Rightarrow> fields option"

abbreviation req :: "string \<Rightarrow> tsty \<Rightarrow> string \<times> bool \<times> tsty" where
  "req k t \<equiv> (k, False, t)"

abbreviation opt :: "string \<Rightarrow> tsty \<Rightarrow> string \<times> bool \<times> tsty" where
  "opt k t \<equiv> (k, True, t)"

definition nullable :: "tsty \<Rightarrow> tsty" where
  "nullable t = TUnion [t, TNull]"

definition literals :: "string list \<Rightarrow> tsty" where
  "literals xs = TUnion (map TLit xs)"

lemma size_arr_elem: "x \<in> set xs \<Longrightarrow> size x < Suc (size_list size xs)"
  by (induction xs) auto

lemma size_prop_elem: "(k, x) \<in> set ps \<Longrightarrow> size x < Suc (size_list (size_prod (\<lambda>_. 0) size) ps)"
  by (induction ps) auto

lemma size_fld_obj: "size (fld (JObj ps) k) < Suc (size_list (size_prod (\<lambda>_. 0) size) ps)"
  by (auto split: option.splits dest!: map_of_SomeD intro: size_prop_elem)

lemmas size_smaller = size_arr_elem size_prop_elem size_fld_obj

function conforms :: "interfaces \<Rightarrow> jsval \<Rightarrow> tsty \<Rightarrow> bool" where
  "conforms env v TAny = True"
| "conforms env v TString = (case v of JStr _ \<Rightarrow> True | _ \<Rightarrow> False)"
| "conforms env v TNumber = (case v of JNum _ \<Rightarrow> True | JNaN \<Rightarrow> True | _ \<Rightarrow> False)"
| "conforms env v TBoolean = (case v of JBool _ \<Rightarrow> True | _ \<Rightarrow> False)"
| "conforms env v TNull = (v = JNull)"
| "conforms env v TUndef = (v = JUndef)"
| "conforms env v (TLit s) = (v = JStr s)"
| "conforms env v (TUnion ts) = list_ex (\<lambda>t. conforms env v t) ts"
| "conforms env v (TArray t) =
     (case v of JArr xs \<Rightarrow> list_all (\<lambda>x. conforms env x t) xs | _ \<Rightarrow> False)"
| "conforms env v (TDict t) =
     (case v of JObj ps \<Rightarrow> list_all (\<lambda>(k, x). conforms env x t) ps | _ \<Rightarrow> False)"
| "conforms env v (TRef n) =
     (case v of
        JObj ps \<Rightarrow> (case env n of
            Some fs \<Rightarrow> list_all (\<lambda>(k, optional, t).
              optional \<and> fld (JObj ps) k = JUndef \<or> conforms env (fld (JObj ps) k) t) fs
          | None \<Rightarrow> False)
      | _ \<Rightarrow> False)"
| "conforms env v (TShape fs) =
     (case v of
        JObj ps \<Rightarrow> list_all (\<lambda>(k, optional, t).
          optional \<and> fld (JObj ps) k = JUndef \<or> conforms env (fld (JObj ps) k) t) fs
      | _ \<Rightarrow> False)"
  by pat_completeness auto
termination
  by (relation "measures [\<lambda>(env, v, t). size v, \<lambda>(env, v, t). size t]")
     (auto simp: size_smaller less_imp_neq simp del: fld_obj)

declare conforms.simps(11,12) [simp del]

definition numeric :: "jsval \<Rightarrow> bool" where
  "numeric v = ((\<exists>n. v = JNum n) \<or> v = JNaN)"

lemma numeric_simps [simp]:
  "numeric (JNum n)" "numeric JNaN" "\<not> numeric JUndef" "\<not> numeric JNull" "\<not> numeric (JBool b)"
  "\<not> numeric (JStr s)" "\<not> numeric (JArr xs)" "\<not> numeric (JObj ps)" "\<not> numeric (JMap ms)"
  by (auto simp: numeric_def)

lemma numericE: "numeric v \<Longrightarrow> (\<And>n. v = JNum n \<Longrightarrow> R) \<Longrightarrow> (v = JNaN \<Longrightarrow> R) \<Longrightarrow> R"
  by (auto simp: numeric_def)

lemma conforms_primitive [simp]:
  "conforms env v TString \<longleftrightarrow> (\<exists>s. v = JStr s)"
  "conforms env v TNumber \<longleftrightarrow> numeric v"
  "conforms env v TBoolean \<longleftrightarrow> (\<exists>b. v = JBool b)"
  by (cases v; simp)+

declare conforms.simps(2,3,4) [simp del]

text \<open>An array all of whose elements satisfy a predicate.\<close>

definition list_of :: "(jsval \<Rightarrow> bool) \<Rightarrow> jsval \<Rightarrow> bool" where
  "list_of P v = (case v of JArr xs \<Rightarrow> list_all P xs | _ \<Rightarrow> False)"

lemma list_of_arr [simp]: "list_of P (JArr xs) = list_all P xs"
  by (simp add: list_of_def)

lemma list_ofE: "list_of P v \<Longrightarrow> (\<And>xs. v = JArr xs \<Longrightarrow> list_all P xs \<Longrightarrow> R) \<Longrightarrow> R"
  by (cases v) (auto simp: list_of_def)

lemma conforms_array [simp]: "conforms env v (TArray t) \<longleftrightarrow> list_of (\<lambda>x. conforms env x t) v"
  by (cases v) (simp_all add: list_of_def)

declare conforms.simps(9) [simp del]

lemma some_bool [simp]: "\<exists>b. b" "Ex Not"
  by blast+

lemma conforms_bool [simp]: "conforms env (JBool b) TBoolean"
  by simp

lemma numeric_arith [simp]:
  assumes "numeric v"
  shows "numeric (js_plus v k)" "numeric (js_minus v k)" "numeric (js_max0 v)"
  using assms
  by (auto elim!: numericE simp: js_plus_def js_add_def js_minus_def js_max0_def concatenates_def
      js_arith_def js_number_def)

section \<open>Interfaces\<close>

fun is_obj :: "jsval \<Rightarrow> bool" where
  "is_obj (JObj _) = True"
| "is_obj _ = False"

definition field_ok :: "interfaces \<Rightarrow> jsval \<Rightarrow> string \<times> bool \<times> tsty \<Rightarrow> bool" where
  "field_ok env v f = (case f of (k, optional, t) \<Rightarrow>
     optional \<and> fld v k = JUndef \<or> conforms env (fld v k) t)"

definition has_fields :: "interfaces \<Rightarrow> fields \<Rightarrow> jsval \<Rightarrow> bool" where
  "has_fields env fs v = (is_obj v \<and> list_all (field_ok env v) fs)"

lemma field_ok_simps [simp]:
  "field_ok env v (k, optional, t) \<longleftrightarrow> optional \<and> fld v k = JUndef \<or> conforms env (fld v k) t"
  by (simp add: field_ok_def)

lemma is_obj_iff: "is_obj v \<longleftrightarrow> (\<exists>ps. v = JObj ps)"
  by (cases v) auto

lemma conforms_shape: "conforms env v (TShape fs) \<longleftrightarrow> has_fields env fs v"
  by (cases v) (simp_all add: conforms.simps has_fields_def field_ok_def [abs_def])

lemma conforms_ref: "conforms env v (TRef n) \<longleftrightarrow> (\<exists>fs. env n = Some fs \<and> has_fields env fs v)"
  by (cases v) (auto simp: conforms.simps has_fields_def field_ok_def [abs_def] simp del: fld_obj
      split: option.splits)

lemma conforms_nullable [simp]:
  "conforms env v (nullable t) \<longleftrightarrow> conforms env v t \<or> v = JNull"
  by (simp add: nullable_def)

lemma conforms_literals [simp]:
  "conforms env v (literals ss) \<longleftrightarrow> (\<exists>s \<in> set ss. v = JStr s)"
  by (auto simp: literals_def list_ex_iff)

lemma has_fieldsD:
  "has_fields env fs v \<Longrightarrow> (k, optional, t) \<in> set fs \<Longrightarrow>
   optional \<and> fld v k = JUndef \<or> conforms env (fld v k) t"
  using bspec [of "set fs" "field_ok env v" "(k, optional, t)"] by (simp add: has_fields_def list_all_iff)

lemma has_fields_readable: "has_fields env fs v \<Longrightarrow> \<not> nullish v"
  by (auto simp: has_fields_def is_obj_iff)

text \<open>The value a field gets in an object update.\<close>

definition value_ok :: "interfaces \<Rightarrow> fields \<Rightarrow> string \<Rightarrow> jsval \<Rightarrow> bool" where
  "value_ok env fs k w =
     (\<forall>(k', optional, t) \<in> set fs. k' = k \<longrightarrow> optional \<and> w = JUndef \<or> conforms env w t)"

text \<open>\<open>{...v, k: w, ...}\<close> has the interface of \<open>v\<close> when every overwritten field gets a value of
  its type.\<close>

lemma fld_with_obj:
  "is_obj v \<Longrightarrow> fld (obj_with v kvs) k = (case map_of kvs k of Some w \<Rightarrow> w | None \<Rightarrow> fld v k)"
  by (auto simp: is_obj_iff split: option.splits)

lemma field_ok_with:
  "is_obj v \<Longrightarrow> map_of kvs (fst f) = None \<Longrightarrow> field_ok env (obj_with v kvs) f \<longleftrightarrow> field_ok env v f"
  by (cases f) (simp add: fld_with_obj del: fld_obj_with)

lemma has_fields_with:
  assumes "has_fields env fs v" "\<And>k w. map_of kvs k = Some w \<Longrightarrow> value_ok env fs k w"
  shows "has_fields env fs (obj_with v kvs)"
proof -
  have obj: "is_obj v" using assms(1) by (simp add: has_fields_def)
  have "field_ok env (obj_with v kvs) f" if "f \<in> set fs" for f
  proof (cases "map_of kvs (fst f)")
    case None
    with that assms(1) show ?thesis by (simp add: field_ok_with [OF obj] has_fields_def list_all_iff)
  next
    case (Some w)
    with that assms(2) [of "fst f" w] show ?thesis by (cases f) (auto simp: value_ok_def)
  qed
  then show ?thesis by (simp add: has_fields_def list_all_iff obj_with_def)
qed

text \<open>\<open>Partial<T>\<close> of a JSON value: the fields that are there have their types.\<close>

definition partial_of :: "interfaces \<Rightarrow> fields \<Rightarrow> jsval \<Rightarrow> bool" where
  "partial_of env fs v = (is_obj v \<and> list_all (\<lambda>(k, optional, t).
     case map_of (own_props v) k of
       Some w \<Rightarrow> optional \<and> w = JUndef \<or> conforms env w t
     | None \<Rightarrow> True) fs)"

lemma partial_of_readable: "partial_of env fs v \<Longrightarrow> \<not> nullish v"
  by (auto simp: partial_of_def is_obj_iff)

lemma has_fields_partial: "has_fields env fs v \<Longrightarrow> partial_of env fs v"
  by (force simp: has_fields_def partial_of_def is_obj_iff list_all_iff field_ok_def split: option.splits)

lemma partial_of_value:
  "partial_of env fs d \<Longrightarrow> map_of (own_props d) k = Some w \<Longrightarrow> value_ok env fs k w"
  by (force simp: partial_of_def value_ok_def list_all_iff)

lemma has_fields_spread:
  assumes "has_fields env fs v" "partial_of env fs d"
  shows "has_fields env fs (obj_spread v d)"
proof -
  have "obj_spread v d = obj_with v (own_props d)" by (simp add: obj_spread_def obj_with_def)
  then show ?thesis using has_fields_with [OF assms(1)] partial_of_value [OF assms(2)] by simp
qed

lemma has_fields_value: "has_fields env fs v \<Longrightarrow> value_ok env fs k (fld v k)"
  by (auto simp: value_ok_def dest: has_fieldsD)

end
