(* ===== verification/Entities.thy ===== *)
theory Entities
  imports KeyedFeed WsRegistry TsTypes
begin

text \<open>
  What the collections of the client have in common: their elements are entities, objects with
  an \<open>id\<close> that is compared as a string, and messages add, merge or remove one of them. The
  lemmas say what the array idioms of the atoms compute on lists of entities.
\<close>

section \<open>Array idioms\<close>

text \<open>\<open>xs.includes(s)\<close> on an array, or on a string (where it is the substring test).\<close>

fun substring_of :: "string \<Rightarrow> string \<Rightarrow> bool" where
  "substring_of s [] = (s = [])"
| "substring_of s (c # cs) = (starts_with s (c # cs) \<or> substring_of s cs)"

definition js_includes :: "jsval \<Rightarrow> string \<Rightarrow> bool option" where
  "js_includes v s =
     (case v of
        JArr xs \<Rightarrow> Some (JStr s \<in> set xs)
      | JStr t \<Rightarrow> Some (substring_of s t)
      | _ \<Rightarrow> None)"

text \<open>\<open>v || []\<close> used as an array.\<close>

definition list_or_empty :: "jsval \<Rightarrow> jsval list option" where
  "list_or_empty v = (if truthy v then (case v of JArr xs \<Rightarrow> Some xs | _ \<Rightarrow> None) else Some [])"

section \<open>Entities and their keys\<close>

text \<open>An entity of a collection: an object of \<open>JSON.parse\<close> with a truthy \<open>id\<close>.\<close>

definition entity_ok :: "jsval \<Rightarrow> bool" where
  "entity_ok v = (case v of JObj ps \<Rightarrow> wf_props ps \<and> truthy (fld v ''id'') | _ \<Rightarrow> False)"

lemma entity_ok_obj: "entity_ok v \<Longrightarrow> \<exists>ps. v = JObj ps \<and> wf_props ps \<and> truthy (fld (JObj ps) ''id'')"
  by (cases v) (auto simp: entity_ok_def)

lemma entity_readable [js_total]: "entity_ok v \<Longrightarrow> \<not> nullish v"
  by (auto dest: entity_ok_obj)

lemma entity_truthy: "entity_ok v \<Longrightarrow> truthy v"
  by (auto dest: entity_ok_obj)

lemma entity_spread:
  assumes "entity_ok t" "entity_ok d"
  shows "entity_ok (obj_spread t d)" "key_of (obj_spread t d) = key_of d"
proof -
  from assms obtain ps qs where v: "t = JObj ps" "d = JObj qs" "wf_props ps" "wf_props qs"
    "truthy (fld d ''id'')" by (metis entity_ok_obj)
  then obtain i where i: "map_of qs ''id'' = Some i" "truthy i"
    by (auto split: option.splits)
  with v show "entity_ok (obj_spread t d)"
    by (simp add: entity_ok_def obj_spread_def wf_props_merge)
  from v i show "key_of (obj_spread t d) = key_of d"
    by (simp add: key_of_def obj_spread_def)
qed

lemma obj_spread_again: "entity_ok d \<Longrightarrow> obj_spread (obj_spread t d) d = obj_spread t d"
  by (auto dest!: entity_ok_obj simp: obj_spread_def props_merge_idem)

lemma same_id_entities [js_total]:
  "entity_ok a \<Longrightarrow> entity_ok b \<Longrightarrow> same_id a b = Some (key_of a = key_of b)"
  by (simp add: same_key_total entity_readable key_of_def)

lemma some_same_id:
  "list_all entity_ok xs \<Longrightarrow> entity_ok e \<Longrightarrow>
   js_some (\<lambda>t. same_id t e) xs = Some (key_of e \<in> key_of ` set xs)"
  by (subst js_some_total [where q = "\<lambda>t. key_of t = key_of e"])
     (auto simp: list_all_iff same_id_entities intro: rev_image_eqI)

lemma filter_by_key:
  "list_all entity_ok xs \<Longrightarrow>
   js_filter (\<lambda>t. do { x \<leftarrow> get t ''id''; Some (js_string x \<noteq> k) }) xs =
   Some (filter (\<lambda>t. key_of t \<noteq> k) xs)"
  by (rule js_filter_total) (auto simp: list_all_iff entity_readable key_of_def)

text \<open>\<open>xs.map(t => String(t.id) === String(d.id) ? {...t, ...d} : t)\<close>, used by every collection.\<close>

definition merge_by_key :: "jsval \<Rightarrow> jsval \<Rightarrow> jsval" where
  "merge_by_key d t = (if key_of t = key_of d then obj_spread t d else t)"

lemma merge_by_key_entity:
  assumes "entity_ok t" "entity_ok d"
  shows "entity_ok (merge_by_key d t)" "key_of (merge_by_key d t) = key_of t"
    and "merge_by_key d (merge_by_key d t) = merge_by_key d t"
  using assms by (auto simp: merge_by_key_def entity_spread obj_spread_again)

definition user_ok :: "jsval \<Rightarrow> bool" where
  "user_ok u = (nullish u \<or> nullish (fld u ''permissions'') \<or> list_of (\<lambda>_. True) (fld u ''permissions''))"

lemma list_or_empty_ok:
  "(truthy v \<Longrightarrow> list_of P v) \<Longrightarrow> \<exists>xs. list_or_empty v = Some xs \<and> list_all P xs"
  by (cases v) (auto simp: list_or_empty_def list_of_def)

lemma entity_with:
  assumes "entity_ok c" "wf_props kvs" "''id'' \<notin> set (map fst kvs)"
  shows "entity_ok (obj_with c kvs)" "key_of (obj_with c kvs) = key_of c"
proof -
  from assms(3) have "map_of kvs ''id'' = None" by (simp add: map_of_eq_None_iff)
  then show "entity_ok (obj_with c kvs)" "key_of (obj_with c kvs) = key_of c"
    using entity_ok_obj [OF assms(1)] assms(2)
    by (auto simp: entity_ok_def obj_with_def key_of_def wf_props_merge)
qed

lemma edit_by_key:
  assumes "list_all entity_ok xs" "\<not> nullish d"
    and "\<And>x. wf_props (kvs x) \<and> ''id'' \<notin> set (map fst (kvs x))"
  shows "\<exists>ys. js_map (\<lambda>x. do { b \<leftarrow> same_key x ''id'' d k;
      Some (if b then obj_with x (kvs x) else x) }) xs = Some ys \<and>
    list_all entity_ok ys \<and> map key_of ys = map key_of xs"
  using assms
  by (intro js_map_ok) (auto simp: list_all_iff same_key_total entity_readable entity_with)

section \<open>Registrations that handle every message\<close>

definition handles :: "(ws_store \<Rightarrow> bool) \<Rightarrow> (string \<Rightarrow> jsval \<Rightarrow> bool) \<Rightarrow> registration list \<Rightarrow> bool" where
  "handles I pay rs = list_all (\<lambda>(ty, a, p). \<forall>d st. I st \<longrightarrow> pay ty d \<longrightarrow>
     (\<exists>v. p (st a) d st = Some v \<and> I (st(a := v)))) rs"

lemma handles_run:
  assumes "handles I pay rs" "I st" "pay ty d" "handlers_for rs ty \<noteq> []"
  shows "snd (apply_ws_update (register_all rs []) ty d st) = Handled
    \<and> I (fst (apply_ws_update (register_all rs []) ty d st))"
proof -
  have "\<exists>v. h_patch h (st (h_atom h)) d st = Some v \<and> I (st(h_atom h := v))"
    if "h \<in> set (handlers_for rs ty)" "I st" for h st
    using that assms(1,3) by (fastforce simp: handles_def list_all_iff in_handlers_for)
  from run_handlers_total [of I, OF assms(2) this] assms(4) show ?thesis
    by (simp add: apply_registered)
qed

text \<open>The usual invariant: every atom holds a value of its type.\<close>

definition types_ok :: "(atom \<Rightarrow> jsval \<Rightarrow> bool) \<Rightarrow> ws_store \<Rightarrow> bool" where
  "types_ok T st = (\<forall>a. T a (st a))"

lemma types_okD: "types_ok T st \<Longrightarrow> T a (st a)"
  by (simp add: types_ok_def)

lemma types_handles:
  assumes "list_all (\<lambda>(ty, a, p). \<forall>d st. types_ok T st \<longrightarrow> pay ty d \<longrightarrow>
    (\<exists>v. p (st a) d st = Some v \<and> T a v)) rs"
  shows "handles (types_ok T) pay rs"
  using assms by (fastforce simp: handles_def types_ok_def list_all_iff)

lemma arr_patch_types:
  assumes "list_of P v" "\<And>xs. list_all P xs \<Longrightarrow> \<exists>ys. f xs d st = Some ys \<and> list_all P ys"
  shows "\<exists>w. arr_patch f v d st = Some w \<and> list_of P w"
  using assms by (force elim!: list_ofE)

section \<open>The usual collection\<close>

lemma merge_map:
  "list_all entity_ok xs \<Longrightarrow> entity_ok d \<Longrightarrow>
   js_map (\<lambda>t. do { b \<leftarrow> same_id t d; Some (if b then obj_spread t d else t) }) xs =
   Some (map (merge_by_key d) xs)"
  by (rule js_map_total) (auto simp: list_all_iff same_id_entities merge_by_key_def)

lemma merge_map_typed:
  "list_all (has_fields env fs) xs \<Longrightarrow> \<not> nullish d \<Longrightarrow>
   js_map (\<lambda>t. do { b \<leftarrow> same_id t d; Some (if b then obj_spread t d else t) }) xs =
   Some (map (merge_by_key d) xs)"
  by (intro js_map_total)
     (auto simp: list_all_iff same_key_total has_fields_readable key_of_def merge_by_key_def)

lemma merge_map_types:
  assumes "list_all (has_fields env fs) xs" "partial_of env fs d"
  shows "\<exists>ys. js_map (\<lambda>t. do { b \<leftarrow> same_id t d; Some (if b then obj_spread t d else t) }) xs = Some ys \<and>
    list_all (has_fields env fs) ys"
  using assms
  by (auto simp: merge_map_typed partial_of_readable list_all_iff has_fields_spread merge_by_key_def)

lemma filter_types:
  "list_all (has_fields env fs) xs \<Longrightarrow>
   js_filter (\<lambda>t. do { x \<leftarrow> get t ''id''; Some (js_string x \<noteq> k) }) xs =
   Some (filter (\<lambda>t. key_of t \<noteq> k) xs)"
  by (rule js_filter_total) (auto simp: list_all_iff has_fields_readable key_of_def)

lemma filter_types_ok:
  "list_all (has_fields env fs) xs \<Longrightarrow>
   \<exists>ys. js_filter (\<lambda>t. do { x \<leftarrow> get t ''id''; Some (js_string x \<noteq> k) }) xs = Some ys \<and>
     list_all (has_fields env fs) ys"
  by (simp add: filter_types) (simp add: list_all_iff)

lemma some_types:
  "list_all (has_fields env fs) xs \<Longrightarrow> \<not> nullish e \<Longrightarrow>
   js_some (\<lambda>t. same_id t e) xs = Some (key_of e \<in> key_of ` set xs)"
  by (subst js_some_total [where q = "\<lambda>t. key_of t = key_of e"])
     (auto simp: list_all_iff same_key_total has_fields_readable key_of_def intro: rev_image_eqI)

text \<open>\<open>data?.id ? prev.filter(c => String(c.id) !== String(data.id)) : prev\<close>.\<close>

definition remove_with_id :: "jsval list \<Rightarrow> jsval \<Rightarrow> jsval list option" where
  "remove_with_id prev data =
     (if truthy (fld data ''id'')
      then js_filter (\<lambda>c. do { x \<leftarrow> get c ''id''; Some (js_string x \<noteq> js_string (fld data ''id'')) }) prev
      else Some prev)"

lemma remove_with_id_eq:
  "list_all entity_ok xs \<Longrightarrow> entity_ok d \<Longrightarrow>
   remove_with_id xs d = Some (filter (\<lambda>t. key_of t \<noteq> key_of d) xs)"
  using filter_by_key [of xs "key_of d"] entity_ok_obj [of d]
  by (auto simp: remove_with_id_def key_of_def)

lemma remove_with_id_types:
  "list_all (has_fields env fs) xs \<Longrightarrow> \<exists>ys. remove_with_id xs d = Some ys \<and> list_all (has_fields env fs) ys"
  using filter_types_ok [of env fs xs "js_string (fld d ''id'')"] by (auto simp: remove_with_id_def)

text \<open>Lists of entities in which no key occurs twice.\<close>

definition keyed_list :: "(jsval \<Rightarrow> bool) \<Rightarrow> jsval \<Rightarrow> bool" where
  "keyed_list P v = (case v of JArr xs \<Rightarrow> feed_inv P key_of xs | _ \<Rightarrow> False)"

lemma keyed_list_arr [simp]: "keyed_list P (JArr xs) = feed_inv P key_of xs"
  by (simp add: keyed_list_def)

lemma keyed_listE: "keyed_list P v \<Longrightarrow> (\<And>xs. v = JArr xs \<Longrightarrow> feed_inv P key_of xs \<Longrightarrow> R) \<Longrightarrow> R"
  by (cases v) (auto simp: keyed_list_def)

lemma arr_patch_keyed:
  assumes "keyed_list P v" "\<And>xs. feed_inv P key_of xs \<Longrightarrow> \<exists>ys. f xs d st = Some ys \<and> feed_inv P key_of ys"
  shows "\<exists>w. arr_patch f v d st = Some w \<and> keyed_list P w"
  using assms by (force elim!: keyed_listE)

lemma feed_inv_map:
  assumes "feed_inv P key_of xs"
    and "\<And>x. x \<in> set xs \<Longrightarrow> P x \<Longrightarrow> \<exists>y. f x = Some y \<and> P y \<and> key_of y = key_of x"
  shows "\<exists>ys. js_map f xs = Some ys \<and> feed_inv P key_of ys \<and> map key_of ys = map key_of xs"
proof -
  have "\<exists>y. f x = Some y \<and> P y \<and> key_of y = key_of x" if "x \<in> set xs" for x
    using assms that by (simp add: feed_inv_def list_all_iff)
  from js_map_ok [of xs f P key_of, OF this] assms(1) show ?thesis
    by (auto simp: feed_inv_def)
qed

lemma feed_inv_mapI:
  "feed_inv P key_of xs \<Longrightarrow> (\<And>x. P x \<Longrightarrow> \<exists>y. f x = Some y \<and> P y \<and> key_of y = key_of x) \<Longrightarrow>
   \<exists>ys. js_map f xs = Some ys \<and> feed_inv P key_of ys"
  using feed_inv_map [of P xs f] by meson

lemma feed_inv_filter: "feed_inv P key_of xs \<Longrightarrow> feed_inv P key_of (filter q xs)"
  by (auto simp: feed_inv_def list_all_iff intro: distinct_map_filter_key)

lemma standard_insert:
  assumes "\<And>xs e. list_all entity_ok xs \<Longrightarrow> entity_ok e \<Longrightarrow> key_of e \<in> key_of ` set xs \<Longrightarrow>
      add xs e = Some xs"
    and "\<And>xs e. list_all entity_ok xs \<Longrightarrow> entity_ok e \<Longrightarrow> key_of e \<notin> key_of ` set xs \<Longrightarrow>
      \<exists>ys. add xs e = Some ys \<and> mset ys = add_mset e (mset xs)"
  shows "keyed_insert entity_ok key_of add"
proof (unfold_locales, goal_cases)
  case (1 xs e)
  then show ?case by (rule assms(1))
next
  case (2 xs e)
  then obtain ys where "add xs e = Some ys" "mset ys = add_mset e (mset xs)" using assms(2) by blast
  with 2 show ?case by blast
qed

lemma standard_feed:
  assumes add: "keyed_insert entity_ok key_of add"
    and upd: "\<And>xs e. list_all entity_ok xs \<Longrightarrow> entity_ok e \<Longrightarrow> upd xs e = Some (map (merge_by_key e) xs)"
    and del: "\<And>xs e. list_all entity_ok xs \<Longrightarrow> entity_ok e \<Longrightarrow>
      del xs e = Some (filter (\<lambda>x. key_of x \<noteq> key_of e) xs)"
  shows "keyed_feed entity_ok key_of add upd del"
proof -
  have again: "map (merge_by_key e) (map (merge_by_key e) xs) = map (merge_by_key e) xs"
    "list_all entity_ok (map (merge_by_key e) xs)" if "list_all entity_ok xs" "entity_ok e" for xs e
    using that by (simp_all add: list_all_iff merge_by_key_entity)
  show ?thesis
  proof (intro keyed_feed.intro keyed_set.intro keyed_insert.is_table [OF add]
      keyed_set_axioms.intro keyed_feed_axioms.intro, goal_cases)
    case (1 xs e)
    then show ?case by (rule del)
  next
    case (2 xs e)
    then show ?case by (simp add: upd merge_by_key_entity list_all_iff)
  next
    case (3 xs e ys i)
    then show ?case by (auto simp: upd merge_by_key_def)
  next
    case (4 xs e ys)
    then show ?case using again [of xs e] by (auto simp: upd)
  qed
qed

end
