(* ===== verification/ForumAtoms.thy ===== *)
theory ForumAtoms
  imports Entities
begin

text \<open>
  \<open>atoms/forum.ts\<close>: the patches that keep the categories, the thread being viewed, its comments
  and the three live thread feeds up to date, their registration, and the permission atoms
  derived from the current user. Array-valued atoms are patched through \<open>arr_patch\<close>; \<open>fld\<close> is
  used for \<open>v?.k\<close> and for \<open>v.k\<close> where \<open>v\<close> has already been read.
\<close>

section \<open>Helpers of the module\<close>

definition payload_id :: "jsval \<Rightarrow> jsval" where
  "payload_id data =
     (case data of
        JObj ps \<Rightarrow> (case map_of ps ''id'' of Some v \<Rightarrow> v | None \<Rightarrow> data)
      | _ \<Rightarrow> data)"

definition update_thread :: "jsval \<Rightarrow> jsval \<Rightarrow> jsval option" where
  "update_thread thread data = do {
     title \<leftarrow> get data ''title'';
     Some (obj_with thread
       [(''title'', js_or title (fld thread ''title'')),
        (''content'', js_or (fld data ''content'') (fld thread ''content'')),
        (''updated_at'', js_or (fld data ''updated_at'') (fld thread ''updated_at'')),
        (''view_count'', js_coalesce (fld data ''view_count'') (fld thread ''view_count'')),
        (''reply_count'', js_coalesce (fld data ''reply_count'') (fld thread ''reply_count''))]) }"

section \<open>The thread being viewed\<close>

definition patch_current_thread_saved :: patch_fn where
  "patch_current_thread_saved prev data st =
     (if truthy prev then do {
        same \<leftarrow> same_id prev data;
        if same then update_thread prev data else Some prev }
      else Some prev)"

definition patch_current_thread_deleted :: patch_fn where
  "patch_current_thread_deleted prev data st =
     (if truthy prev \<and> key_of prev = js_string (payload_id data) then Some JNull else Some prev)"

definition patch_current_thread_liked :: patch_fn where
  "patch_current_thread_liked prev data st =
     (if \<not> truthy prev then Some prev
      else do {
        same \<leftarrow> same_key prev ''id'' data ''thread_id'';
        if \<not> same then Some prev
        else
          let acting_user_id = js_string (fld data ''user_id'');
              current_user = st CurrentUserAtom
          in Some (obj_with prev
            [(''likes'', js_coalesce (fld data ''likes'')
                (js_plus (js_or (fld prev ''likes'') (JNum 0)) 1)),
             (''is_liked'', if acting_user_id = key_of current_user then JBool True
                else fld prev ''is_liked'')]) })"

definition patch_current_thread_unliked :: patch_fn where
  "patch_current_thread_unliked prev data st =
     (if \<not> truthy prev then Some prev
      else do {
        same \<leftarrow> same_key prev ''id'' data ''thread_id'';
        if \<not> same then Some prev
        else
          let acting_user_id = js_string (fld data ''user_id'');
              current_user = st CurrentUserAtom
          in Some (obj_with prev
            [(''likes'', js_max0 (js_coalesce (fld data ''likes'')
                (js_minus (js_or (fld prev ''likes'') (JNum 1)) 1))),
             (''is_liked'', if acting_user_id = key_of current_user then JBool False
                else fld prev ''is_liked'')]) })"

section \<open>Comments of the thread\<close>

text \<open>\<open>isOwner || (perms?.includes("forum.thread-comment-delete") ?? false)\<close>.\<close>

definition may_moderate :: "bool \<Rightarrow> jsval \<Rightarrow> bool option" where
  "may_moderate is_owner perms =
     (if is_owner then Some True
      else if nullish perms then Some False
      else js_includes perms ''forum.thread-comment-delete'')"

definition patch_comment_created :: "jsval list \<Rightarrow> jsval \<Rightarrow> ws_store \<Rightarrow> jsval list option" where
  "patch_comment_created prev data st =
     (let new_comment = fld data ''new_comment'' in
      if \<not> truthy new_comment then Some prev
      else do {
        known \<leftarrow> js_some (\<lambda>p. same_id p new_comment) prev;
        if known then Some prev
        else do {
          let user = st CurrentUserAtom;
          let user_id = fld user ''id'';
          let perms = fld user ''permissions'';
          let is_owner = (\<not> nullish user_id \<and>
            js_string (fld new_comment ''user_id'') = js_string user_id);
          may \<leftarrow> may_moderate is_owner perms;
          Some (prev @ [obj_with new_comment
            [(''can_delete'', JBool may), (''can_edit'', JBool may),
             (''can_like_comments'', JBool True)]]) } })"

definition patch_comment_deleted :: "jsval list \<Rightarrow> jsval \<Rightarrow> ws_store \<Rightarrow> jsval list option" where
  "patch_comment_deleted prev data st =
     js_filter (\<lambda>p. do { b \<leftarrow> same_key p ''id'' data ''comment_id''; Some (\<not> b) }) prev"

definition patch_comment_updated :: "jsval list \<Rightarrow> jsval \<Rightarrow> ws_store \<Rightarrow> jsval list option" where
  "patch_comment_updated prev data st =
     js_map (\<lambda>p. do {
       b \<leftarrow> same_key p ''id'' data ''comment_id'';
       Some (if b then obj_with p
          [(''content'', js_or (fld data ''content'') (fld p ''content'')),
           (''updated_at'', js_or (fld data ''updated_at'') (fld p ''updated_at''))]
        else p) }) prev"

definition patch_comment_liked :: "jsval list \<Rightarrow> jsval \<Rightarrow> ws_store \<Rightarrow> jsval list option" where
  "patch_comment_liked prev data st = do {
     acting \<leftarrow> get data ''user_id'';
     let current_user = st CurrentUserAtom;
     js_map (\<lambda>p. do {
       b \<leftarrow> same_key p ''id'' data ''comment_id'';
       Some (if b then obj_with p
          [(''likes'', js_coalesce (fld data ''likes'') (js_plus (fld p ''likes'') 1)),
           (''is_liked'', if js_string acting = key_of current_user then JBool True
              else fld p ''is_liked'')]
        else p) }) prev }"

definition patch_comment_unliked :: "jsval list \<Rightarrow> jsval \<Rightarrow> ws_store \<Rightarrow> jsval list option" where
  "patch_comment_unliked prev data st = do {
     acting \<leftarrow> get data ''user_id'';
     let current_user = st CurrentUserAtom;
     js_map (\<lambda>p. do {
       b \<leftarrow> same_key p ''id'' data ''comment_id'';
       Some (if b then obj_with p
          [(''likes'', js_max0 (js_coalesce (fld data ''likes'') (js_minus (fld p ''likes'') 1))),
           (''is_liked'', if js_string acting = key_of current_user then JBool False
              else fld p ''is_liked'')]
        else p) }) prev }"

section \<open>The live thread feeds\<close>

definition add_to_feed :: "jsval list \<Rightarrow> jsval \<Rightarrow> jsval list option" where
  "add_to_feed prev thread = do {
     known \<leftarrow> js_some (\<lambda>t. same_id t thread) prev;
     Some (if known then prev else prev @ [thread]) }"

definition update_in_feed :: "jsval list \<Rightarrow> jsval \<Rightarrow> jsval list option" where
  "update_in_feed prev data =
     js_map (\<lambda>t. do { b \<leftarrow> same_id t data; Some (if b then obj_spread t data else t) }) prev"

definition remove_from_feed :: "jsval list \<Rightarrow> jsval \<Rightarrow> jsval list option" where
  "remove_from_feed prev i =
     js_filter (\<lambda>t. do { x \<leftarrow> get t ''id''; Some (js_string x \<noteq> js_string i) }) prev"

definition delete_in_feed :: "jsval list \<Rightarrow> jsval \<Rightarrow> jsval list option" where
  "delete_in_feed prev data = remove_from_feed prev (payload_id data)"

definition patch_category_feed_created :: "jsval list \<Rightarrow> jsval \<Rightarrow> ws_store \<Rightarrow> jsval list option" where
  "patch_category_feed_created prev data st =
     (let active = st ActiveCategoryFeedIdAtom in
      if truthy active then do {
        c \<leftarrow> get data ''category_id'';
        if strict_eq (JStr (js_string c)) active then add_to_feed prev data else Some prev }
      else Some prev)"

definition patch_user_feed_created :: "jsval list \<Rightarrow> jsval \<Rightarrow> ws_store \<Rightarrow> jsval list option" where
  "patch_user_feed_created prev data st =
     (let active = st ActiveUserFeedIdAtom in
      if truthy active then do {
        u \<leftarrow> get data ''user_id'';
        if strict_eq (JStr (js_string u)) active then add_to_feed prev data else Some prev }
      else Some prev)"

definition patch_all_feed_created :: "jsval list \<Rightarrow> jsval \<Rightarrow> ws_store \<Rightarrow> jsval list option" where
  "patch_all_feed_created prev data st =
     (if truthy (st ActiveAllFeedIdAtom) then add_to_feed prev data else Some prev)"

section \<open>Categories\<close>

definition patch_category_created :: "jsval list \<Rightarrow> jsval \<Rightarrow> ws_store \<Rightarrow> jsval list option" where
  "patch_category_created prev data st =
     (if \<not> truthy (fld data ''id'') then Some prev
      else do {
        known \<leftarrow> js_some (\<lambda>c. same_id c data) prev;
        if known then Some prev
        else Some (prev @ [JObj
          [(''id'', fld data ''id''), (''name'', fld data ''name''),
           (''description'', fld data ''description''),
           (''is_locked'', js_or (fld data ''is_locked'') (JBool False)),
           (''is_pinned'', js_or (fld data ''is_pinned'') (JBool False)),
           (''display_order'', js_or (fld data ''display_order'') (JNum 0)),
           (''thread_count'', js_or (fld data ''thread_count'') (JNum 0)),
           (''created_at'', fld data ''created_at''), (''updated_at'', fld data ''updated_at''),
           (''threads'', JArr [])]]) })"

definition patch_category_deleted :: "jsval list \<Rightarrow> jsval \<Rightarrow> ws_store \<Rightarrow> jsval list option" where
  "patch_category_deleted prev data st =
     js_filter (\<lambda>c. do { x \<leftarrow> get c ''id''; Some (js_string x \<noteq> js_string (payload_id data)) }) prev"

definition patch_category_updated :: "jsval list \<Rightarrow> jsval \<Rightarrow> ws_store \<Rightarrow> jsval list option" where
  "patch_category_updated prev data st =
     js_map (\<lambda>c. do {
       b \<leftarrow> same_id c data;
       Some (if b then obj_with c
          [(''name'', js_or (fld data ''name'') (fld c ''name'')),
           (''description'', js_or (fld data ''description'') (fld c ''description'')),
           (''is_locked'', js_coalesce (fld data ''is_locked'') (fld c ''is_locked'')),
           (''thread_count'', js_coalesce (fld data ''thread_count'') (fld c ''thread_count'')),
           (''updated_at'', js_or (fld data ''updated_at'') (fld c ''updated_at'')),
           (''threads'', fld c ''threads'')]
        else c) }) prev"

text \<open>\<open>now_iso\<close> is what \<open>new Date().toISOString()\<close> returns while the message is handled.\<close>

definition patch_category_threads_updated ::
  "string \<Rightarrow> jsval list \<Rightarrow> jsval \<Rightarrow> ws_store \<Rightarrow> jsval list option" where
  "patch_category_threads_updated now_iso prev data st =
     js_map (\<lambda>c. do {
       b \<leftarrow> same_id c data;
       Some (if b then obj_with c
          [(''threads'', js_coalesce (fld data ''threads'') (fld c ''threads'')),
           (''updated_at'', JStr now_iso)]
        else c) }) prev"

definition patch_category_thread_created :: "jsval list \<Rightarrow> jsval \<Rightarrow> ws_store \<Rightarrow> jsval list option" where
  "patch_category_thread_created prev data st =
     (if \<not> truthy (fld data ''category_id'') then Some prev
      else
        let cat_id = js_string (fld data ''category_id'') in
        js_map (\<lambda>c. do {
          x \<leftarrow> get c ''id'';
          if js_string x \<noteq> cat_id then Some c
          else do {
            threads \<leftarrow> list_or_empty (fld c ''threads'');
            already_exists \<leftarrow> js_some (\<lambda>t. same_id t data) threads;
            if already_exists then Some c
            else Some (obj_with c
              [(''threads'', JArr (take 2 (data # threads))),
               (''thread_count'', js_plus (js_or (fld c ''thread_count'') (JNum 0)) 1)]) } }) prev)"

definition patch_category_thread_deleted :: "jsval list \<Rightarrow> jsval \<Rightarrow> ws_store \<Rightarrow> jsval list option" where
  "patch_category_thread_deleted prev data st =
     js_map (\<lambda>c. do {
       ts \<leftarrow> get c ''threads'';
       threads \<leftarrow> list_or_empty ts;
       filtered \<leftarrow> remove_from_feed threads (payload_id data);
       if length filtered = length threads then Some c
       else Some (obj_with c
         [(''threads'', JArr filtered),
          (''thread_count'', js_max0 (js_minus (js_or (fld c ''thread_count'') (JNum 0)) 1))]) }) prev"

section \<open>Registration\<close>

definition forum_registrations :: "string \<Rightarrow> registration list" where
  "forum_registrations now_iso =
     [(''forum:update:thread_created'', CurrentThreadAtom, patch_current_thread_saved),
      (''forum:update:thread_updated'', CurrentThreadAtom, patch_current_thread_saved),
      (''forum:update:thread_deleted'', CurrentThreadAtom, patch_current_thread_deleted),
      (''forum:update:thread_liked'', CurrentThreadAtom, patch_current_thread_liked),
      (''forum:update:thread_unliked'', CurrentThreadAtom, patch_current_thread_unliked),
      (''forum:update:comment_created'', ThreadCommentsAtom, arr_patch patch_comment_created),
      (''forum:update:comment_deleted'', ThreadCommentsAtom, arr_patch patch_comment_deleted),
      (''forum:update:comment_updated'', ThreadCommentsAtom, arr_patch patch_comment_updated),
      (''forum:update:comment_liked'', ThreadCommentsAtom, arr_patch patch_comment_liked),
      (''forum:update:comment_unliked'', ThreadCommentsAtom, arr_patch patch_comment_unliked),
      (''forum:update:thread_created'', CategoryFeedThreadsAtom, arr_patch patch_category_feed_created),
      (''forum:update:thread_created'', UserFeedThreadsAtom, arr_patch patch_user_feed_created),
      (''forum:update:thread_created'', AllFeedThreadsAtom, arr_patch patch_all_feed_created),
      (''forum:update:thread_updated'', CategoryFeedThreadsAtom, arr_patch (\<lambda>p d st. update_in_feed p d)),
      (''forum:update:thread_updated'', UserFeedThreadsAtom, arr_patch (\<lambda>p d st. update_in_feed p d)),
      (''forum:update:thread_updated'', AllFeedThreadsAtom, arr_patch (\<lambda>p d st. update_in_feed p d)),
      (''forum:update:thread_deleted'', CategoryFeedThreadsAtom, arr_patch (\<lambda>p d st. delete_in_feed p d)),
      (''forum:update:thread_deleted'', UserFeedThreadsAtom, arr_patch (\<lambda>p d st. delete_in_feed p d)),
      (''forum:update:thread_deleted'', AllFeedThreadsAtom, arr_patch (\<lambda>p d st. delete_in_feed p d)),
      (''forum:update:category_created'', ForumCategoriesAtom, arr_patch patch_category_created),
      (''forum:update:category_deleted'', ForumCategoriesAtom, arr_patch patch_category_deleted),
      (''forum:update:category_updated'', ForumCategoriesAtom, arr_patch patch_category_updated),
      (''forum:update:category_threads_updated'', ForumCategoriesAtom,
         arr_patch (patch_category_threads_updated now_iso)),
      (''forum:update:thread_created'', ForumCategoriesAtom, arr_patch patch_category_thread_created),
      (''forum:update:thread_deleted'', ForumCategoriesAtom, arr_patch patch_category_thread_deleted)]"

section \<open>Derived permissions\<close>

record thread_permissions =
  canEdit :: bool
  canDelete :: bool
  canLock :: bool
  canLikeComments :: bool
  canDeleteThreadComment :: bool
  canLikeThreads :: bool

definition or_includes :: "bool \<Rightarrow> jsval \<Rightarrow> string \<Rightarrow> bool option" where
  "or_includes b perms p = (if b then Some True else js_includes perms p)"

definition thread_permissions_of :: "jsval \<Rightarrow> jsval \<Rightarrow> bool \<Rightarrow> thread_permissions option" where
  "thread_permissions_of user thread sandbox =
     (if \<not> truthy user \<or> \<not> truthy thread then
        Some \<lparr>canEdit = sandbox, canDelete = sandbox, canLock = sandbox, canLikeComments = sandbox,
          canDeleteThreadComment = sandbox, canLikeThreads = sandbox\<rparr>
      else do {
        is_admin \<leftarrow> js_includes (js_coalesce (fld user ''roles'') (JArr [])) ''admin'';
        let perms = js_coalesce (fld user ''permissions'') (JArr []);
        let is_owner = (key_of user = js_string (fld thread ''user_id''));
        edit \<leftarrow> or_includes (is_owner \<or> is_admin) perms ''forum.thread-edit'';
        delete \<leftarrow> or_includes (is_owner \<or> is_admin) perms ''forum.thread-delete'';
        delete_comment \<leftarrow> or_includes is_admin perms ''forum.thread-comment-delete'';
        Some \<lparr>canEdit = edit \<or> sandbox, canDelete = delete \<or> sandbox, canLock = edit \<or> sandbox,
          canLikeComments = True, canDeleteThreadComment = delete_comment \<or> sandbox,
          canLikeThreads = True\<rparr> })"

definition enriched_thread_comments :: "jsval \<Rightarrow> jsval list \<Rightarrow> bool \<Rightarrow> jsval list option" where
  "enriched_thread_comments user comments sandbox =
     (if \<not> truthy user then
        Some (map (\<lambda>c. obj_with c [(''can_edit'', JBool sandbox), (''can_delete'', JBool sandbox),
          (''can_like_comments'', JBool sandbox)]) comments)
      else do {
        is_admin \<leftarrow> js_includes (js_coalesce (fld user ''roles'') (JArr [])) ''admin'';
        let perms = js_coalesce (fld user ''permissions'') (JArr []);
        js_map (\<lambda>c. do {
          author \<leftarrow> get c ''user_id'';
          may \<leftarrow> or_includes (key_of user = js_string author \<or> is_admin) perms
            ''forum.thread-comment-delete'';
          Some (obj_with c [(''can_edit'', JBool (may \<or> sandbox)),
            (''can_delete'', JBool (may \<or> sandbox)), (''can_like_comments'', JBool True)]) })
          comments })"

section \<open>Entities and their keys\<close>

lemma payload_id_entity [js_keys]: "entity_ok v \<Longrightarrow> js_string (payload_id v) = key_of v"
  by (auto dest!: entity_ok_obj simp: payload_id_def key_of_def split: option.splits)

lemma update_in_feed_eq:
  "list_all entity_ok xs \<Longrightarrow> entity_ok d \<Longrightarrow>
   update_in_feed xs d = Some (map (merge_by_key d) xs)"
  unfolding update_in_feed_def by (rule merge_map)

lemma add_to_feed_eq:
  "list_all entity_ok xs \<Longrightarrow> entity_ok e \<Longrightarrow>
   add_to_feed xs e = Some (if key_of e \<in> key_of ` set xs then xs else xs @ [e])"
  by (simp add: add_to_feed_def some_same_id)

lemma delete_in_feed_eq:
  "list_all entity_ok xs \<Longrightarrow> entity_ok e \<Longrightarrow>
   delete_in_feed xs e = Some (filter (\<lambda>t. key_of t \<noteq> key_of e) xs)"
  by (simp add: delete_in_feed_def remove_from_feed_def payload_id_entity filter_by_key)

lemmas feed_eqs = add_to_feed_eq update_in_feed_eq delete_in_feed_eq

interpretation thread_insert: keyed_insert entity_ok key_of add_to_feed
  by (rule standard_insert) (simp_all add: feed_eqs)

interpretation thread_feed: keyed_feed entity_ok key_of add_to_feed update_in_feed delete_in_feed
  by (rule standard_feed) (unfold_locales, simp_all add: feed_eqs)

section \<open>Well-formed forum state\<close>

definition category_ok :: "jsval \<Rightarrow> bool" where
  "category_ok c = (entity_ok c \<and>
     (truthy (fld c ''threads'') \<longrightarrow> list_of entity_ok (fld c ''threads'')))"

definition forum_ok :: "ws_store \<Rightarrow> bool" where
  "forum_ok st =
     (user_ok (st CurrentUserAtom)
      \<and> (st CurrentThreadAtom = JNull \<or> entity_ok (st CurrentThreadAtom))
      \<and> list_of entity_ok (st ThreadCommentsAtom)
      \<and> list_of entity_ok (st CategoryFeedThreadsAtom)
      \<and> list_of entity_ok (st UserFeedThreadsAtom)
      \<and> list_of entity_ok (st AllFeedThreadsAtom)
      \<and> list_of category_ok (st ForumCategoriesAtom))"

text \<open>The payloads the server sends with each forum action.\<close>

definition forum_payload_ok :: "string \<Rightarrow> jsval \<Rightarrow> bool" where
  "forum_payload_ok ty d =
     (if ty = ''forum:update:comment_created''
      then \<not> truthy (fld d ''new_comment'') \<or> entity_ok (fld d ''new_comment'')
      else if ty = ''forum:update:category_threads_updated''
      then \<not> nullish d \<and> (truthy (fld d ''threads'') \<longrightarrow> list_of entity_ok (fld d ''threads''))
      else if ty \<in> {''forum:update:thread_created'', ''forum:update:thread_updated'',
        ''forum:update:thread_deleted'', ''forum:update:category_created'',
        ''forum:update:category_updated''} then entity_ok d
      else \<not> nullish d)"

lemma update_thread_entity:
  assumes "entity_ok t" "\<not> nullish d"
  shows "\<exists>t'. update_thread t d = Some t' \<and> entity_ok t' \<and> key_of t' = key_of t"
  using assms by (simp add: update_thread_def entity_with)

text \<open>Every patch of the thread being viewed keeps it \<open>null\<close> or an entity with the same key.\<close>

lemma patch_current_thread_ok:
  assumes "t = JNull \<or> entity_ok t"
    and "p = patch_current_thread_saved \<and> entity_ok d \<or>
      p \<in> {patch_current_thread_deleted, patch_current_thread_liked, patch_current_thread_unliked}
      \<and> \<not> nullish d"
  shows "\<exists>v. p t d st = Some v \<and> (v = JNull \<or> entity_ok v \<and> key_of v = key_of t)"
proof (cases "entity_ok t")
  case True
  then have "truthy t" "\<not> nullish t" by (simp_all add: entity_truthy entity_readable)
  with True assms update_thread_entity [of t d] show ?thesis
    by (auto simp: patch_current_thread_saved_def patch_current_thread_deleted_def
        patch_current_thread_liked_def patch_current_thread_unliked_def same_key_total
        entity_readable entity_with Let_def)
next
  case False
  with assms show ?thesis
    by (auto simp: patch_current_thread_saved_def patch_current_thread_deleted_def
        patch_current_thread_liked_def patch_current_thread_unliked_def)
qed

text \<open>Every patch of the comments keeps a list of entities.\<close>

lemma may_moderate_ok: "user_ok u \<Longrightarrow> \<exists>b. may_moderate b0 (fld u ''permissions'') = Some b"
  by (auto simp: user_ok_def may_moderate_def js_includes_def fld_nullish elim: list_ofE)

lemma patch_comment_created_ok:
  assumes "list_all entity_ok xs" "user_ok (st CurrentUserAtom)"
    and "truthy (fld d ''new_comment'') \<Longrightarrow> entity_ok (fld d ''new_comment'')"
  shows "\<exists>ys. patch_comment_created xs d st = Some ys \<and> list_all entity_ok ys"
proof (cases "truthy (fld d ''new_comment'')")
  case True
  let ?c = "fld d ''new_comment''" and ?u = "st CurrentUserAtom"
  obtain may where "may_moderate (\<not> nullish (fld ?u ''id'') \<and>
      js_string (fld ?c ''user_id'') = js_string (fld ?u ''id'')) (fld ?u ''permissions'') = Some may"
    using may_moderate_ok [OF assms(2)] by blast
  with True assms show ?thesis
    by (auto simp: patch_comment_created_def Let_def some_same_id entity_with)
next
  case False
  with assms show ?thesis by (simp add: patch_comment_created_def)
qed

lemma patch_comment_edits_ok:
  assumes "list_all entity_ok xs" "\<not> nullish d"
  shows "\<exists>ys. patch_comment_updated xs d st = Some ys \<and> list_all entity_ok ys \<and>
      map key_of ys = map key_of xs"
    and "\<exists>ys. patch_comment_liked xs d st = Some ys \<and> list_all entity_ok ys \<and>
      map key_of ys = map key_of xs"
    and "\<exists>ys. patch_comment_unliked xs d st = Some ys \<and> list_all entity_ok ys \<and>
      map key_of ys = map key_of xs"
  unfolding patch_comment_updated_def patch_comment_liked_def patch_comment_unliked_def
    Let_def get_total [OF assms(2)] bind.bind_lunit
  by (rule edit_by_key [OF assms]; simp)+

lemma patch_comment_deleted_ok:
  assumes "list_all entity_ok xs" "\<not> nullish d"
  shows "patch_comment_deleted xs d st =
    Some (filter (\<lambda>c. key_of c \<noteq> js_string (fld d ''comment_id'')) xs)"
  unfolding patch_comment_deleted_def using assms
  by (intro js_filter_total) (auto simp: list_all_iff same_key_total entity_readable key_of_def)

text \<open>Every patch of the categories keeps a list of categories.\<close>

lemma category_with:
  assumes "category_ok c" "wf_props kvs" "''id'' \<notin> set (map fst kvs)"
    and "\<And>v. map_of kvs ''threads'' = Some v \<Longrightarrow> truthy v \<Longrightarrow> list_of entity_ok v"
  shows "category_ok (obj_with c kvs)" "key_of (obj_with c kvs) = key_of c"
  using assms entity_with [of c kvs] entity_ok_obj [of c]
  by (auto simp: category_ok_def split: option.splits)

lemma patch_category_created_ok:
  assumes "list_all category_ok xs" "entity_ok d"
  shows "\<exists>ys. patch_category_created xs d st = Some ys \<and> list_all category_ok ys \<and>
    key_of ` set ys = insert (key_of d) (key_of ` set xs)"
proof -
  have "list_all entity_ok xs" using assms(1) by (simp add: list_all_iff category_ok_def)
  moreover have "truthy (fld d ''id'')" using entity_ok_obj [OF assms(2)] by auto
  ultimately show ?thesis using assms
    by (auto simp: patch_category_created_def some_same_id category_ok_def entity_ok_def key_of_def
        intro: rev_image_eqI)
qed

lemma patch_category_deleted_ok:
  assumes "list_all category_ok xs"
  shows "patch_category_deleted xs d st =
    Some (filter (\<lambda>c. key_of c \<noteq> js_string (payload_id d)) xs)"
  using assms unfolding patch_category_deleted_def
  by (intro filter_by_key) (simp add: list_all_iff category_ok_def)

lemma category_entity: "category_ok c \<Longrightarrow> entity_ok c"
  by (simp add: category_ok_def)

lemma category_threads: "category_ok c \<Longrightarrow> truthy (fld c ''threads'') \<Longrightarrow> list_of entity_ok (fld c ''threads'')"
  by (simp add: category_ok_def)

lemma edit_category:
  assumes "list_all category_ok xs" "\<not> nullish d"
    and "\<And>x. category_ok x \<Longrightarrow> wf_props (kvs x) \<and> ''id'' \<notin> set (map fst (kvs x)) \<and>
      (\<forall>v. map_of (kvs x) ''threads'' = Some v \<longrightarrow> truthy v \<longrightarrow> list_of entity_ok v)"
  shows "\<exists>ys. js_map (\<lambda>x. do { b \<leftarrow> same_id x d; Some (if b then obj_with x (kvs x) else x) }) xs =
      Some ys \<and> list_all category_ok ys \<and> map key_of ys = map key_of xs"
  using assms
  by (intro js_map_ok)
     (auto simp: list_all_iff same_key_total category_entity entity_readable category_with)

lemma patch_category_updated_ok:
  assumes "list_all category_ok xs" "\<not> nullish d"
  shows "\<exists>ys. patch_category_updated xs d st = Some ys \<and> list_all category_ok ys \<and>
    map key_of ys = map key_of xs"
  unfolding patch_category_updated_def
  by (rule edit_category [OF assms]) (simp add: category_threads)

lemma patch_category_threads_updated_ok:
  assumes "list_all category_ok xs" "\<not> nullish d"
    and "truthy (fld d ''threads'') \<Longrightarrow> list_of entity_ok (fld d ''threads'')"
  shows "\<exists>ys. patch_category_threads_updated now xs d st = Some ys \<and> list_all category_ok ys \<and>
    map key_of ys = map key_of xs"
  unfolding patch_category_threads_updated_def using assms(3)
  by (intro edit_category [OF assms(1,2)]) (auto simp: category_threads js_coalesce_def)

lemma category_with_threads:
  assumes "category_ok c" "list_all entity_ok ts"
  shows "category_ok (obj_with c [(''threads'', JArr ts), (''thread_count'', n)])"
    and "key_of (obj_with c [(''threads'', JArr ts), (''thread_count'', n)]) = key_of c"
  using assms by (auto intro!: category_with split: if_splits)

lemma patch_category_thread_created_ok:
  assumes "list_all category_ok xs" "entity_ok d"
  shows "\<exists>ys. patch_category_thread_created xs d st = Some ys \<and> list_all category_ok ys \<and>
    map key_of ys = map key_of xs"
proof (cases "truthy (fld d ''category_id'')")
  case False
  with assms show ?thesis by (simp add: patch_category_thread_created_def)
next
  case True
  have "\<exists>y. do { x \<leftarrow> get c ''id'';
        if js_string x \<noteq> k then Some c
        else do { threads \<leftarrow> list_or_empty (fld c ''threads'');
          already_exists \<leftarrow> js_some (\<lambda>t. same_id t d) threads;
          if already_exists then Some c
          else Some (obj_with c
            [(''threads'', JArr (take 2 (d # threads))),
             (''thread_count'', js_plus (js_or (fld c ''thread_count'') (JNum 0)) 1)]) } } = Some y \<and>
      category_ok y \<and> key_of y = key_of c" if "c \<in> set xs" for c k
  proof -
    from that assms(1) have c: "category_ok c" by (simp add: list_all_iff)
    then obtain ts where ts: "list_or_empty (fld c ''threads'') = Some ts" "list_all entity_ok ts"
      using list_or_empty_ok category_threads by blast
    then have "list_all entity_ok (take 1 ts)" by (auto simp: list_all_iff dest: in_set_takeD)
    with c ts assms(2) show ?thesis
      by (simp add: some_same_id entity_readable category_entity category_with_threads)
  qed
  then show ?thesis using True
    by (auto simp: patch_category_thread_created_def Let_def intro!: js_map_ok)
qed

text \<open>The threads a category's entry shows.\<close>

definition previews :: "jsval \<Rightarrow> jsval list" where
  "previews c = (case list_or_empty (fld c ''threads'') of Some ts \<Rightarrow> ts | None \<Rightarrow> [])"

definition without_preview :: "string \<Rightarrow> jsval \<Rightarrow> jsval" where
  "without_preview k c =
     (if k \<in> key_of ` set (previews c)
      then obj_with c
        [(''threads'', JArr (filter (\<lambda>t. key_of t \<noteq> k) (previews c))),
         (''thread_count'', js_max0 (js_minus (js_or (fld c ''thread_count'') (JNum 0)) 1))]
      else c)"

lemma category_previews:
  "category_ok c \<Longrightarrow> list_or_empty (fld c ''threads'') = Some (previews c) \<and> list_all entity_ok (previews c)"
  using list_or_empty_ok [of "fld c ''threads''" entity_ok] category_threads [of c]
  by (auto simp: previews_def)

lemma previews_with [simp]:
  "previews (obj_with c [(''threads'', JArr ts), (''thread_count'', n)]) = ts"
  by (simp add: previews_def list_or_empty_def)

lemma length_filter_key:
  "length (filter (\<lambda>t. key_of t \<noteq> k) ts) = length ts \<longleftrightarrow> k \<notin> key_of ` set ts"
proof
  assume len: "length (filter (\<lambda>t. key_of t \<noteq> k) ts) = length ts"
  show "k \<notin> key_of ` set ts"
  proof
    assume "k \<in> key_of ` set ts"
    then obtain t where "t \<in> set ts" "\<not> key_of t \<noteq> k" by auto
    from length_filter_less [of t ts "\<lambda>t. key_of t \<noteq> k", OF this] len show False by simp
  qed
qed (simp add: filter_ne_same)

lemma without_preview_ok:
  assumes "category_ok c"
  shows "category_ok (without_preview k c)" "key_of (without_preview k c) = key_of c"
    and "k \<notin> key_of ` set (previews (without_preview k c))"
  using assms category_previews [OF assms]
  by (auto simp: without_preview_def category_with_threads list_all_iff)

lemma patch_category_thread_deleted_eq:
  assumes "list_all category_ok xs"
  shows "patch_category_thread_deleted xs d st =
    Some (map (without_preview (js_string (payload_id d))) xs)"
  unfolding patch_category_thread_deleted_def
proof (rule js_map_total)
  fix c assume "c \<in> set xs"
  with assms have c: "category_ok c" by (simp add: list_all_iff)
  then show "do { ts \<leftarrow> get c ''threads''; threads \<leftarrow> list_or_empty ts;
       filtered \<leftarrow> remove_from_feed threads (payload_id d);
       if length filtered = length threads then Some c
       else Some (obj_with c [(''threads'', JArr filtered),
          (''thread_count'', js_max0 (js_minus (js_or (fld c ''thread_count'') (JNum 0)) 1))]) } =
      Some (without_preview (js_string (payload_id d)) c)"
    using category_previews [OF c]
    by (auto simp: remove_from_feed_def filter_by_key entity_readable category_entity
        without_preview_def length_filter_key)
qed

lemma patch_category_thread_deleted_ok:
  assumes "list_all category_ok xs"
  shows "\<exists>ys. patch_category_thread_deleted xs d st = Some ys \<and> list_all category_ok ys \<and>
    map key_of ys = map key_of xs"
  using assms by (auto simp: patch_category_thread_deleted_eq list_all_iff without_preview_ok)

section \<open>Every forum message is handled\<close>

lemma feed_created_ok:
  assumes "list_all entity_ok xs" "entity_ok d"
  shows "\<exists>ys. patch_category_feed_created xs d st = Some ys \<and> list_all entity_ok ys"
    and "\<exists>ys. patch_user_feed_created xs d st = Some ys \<and> list_all entity_ok ys"
    and "\<exists>ys. patch_all_feed_created xs d st = Some ys \<and> list_all entity_ok ys"
  using assms thread_insert.add_ok [of xs d]
  by (auto simp: patch_category_feed_created_def patch_user_feed_created_def
      patch_all_feed_created_def Let_def entity_readable)

lemma feed_update_ok:
  assumes "list_all entity_ok xs" "entity_ok d"
  shows "\<exists>ys. update_in_feed xs d = Some ys \<and> list_all entity_ok ys"
    and "\<exists>ys. delete_in_feed xs d = Some ys \<and> list_all entity_ok ys"
  using assms thread_feed.upd_spec [of xs d] by (auto simp: delete_in_feed_eq list_all_iff)

lemma entity_atom_step:
  assumes "forum_ok st"
    and "A \<in> {ThreadCommentsAtom, CategoryFeedThreadsAtom, UserFeedThreadsAtom, AllFeedThreadsAtom}"
    and "\<And>xs. list_all entity_ok xs \<Longrightarrow> \<exists>ys. f xs d st = Some ys \<and> list_all entity_ok ys"
  shows "\<exists>v. arr_patch f (st A) d st = Some v \<and> forum_ok (st(A := v))"
proof -
  from assms(1,2) obtain xs where xs: "st A = JArr xs" "list_all entity_ok xs"
    by (auto simp: forum_ok_def elim: list_ofE)
  with assms(3) obtain ys where "f xs d st = Some ys" "list_all entity_ok ys" by blast
  with xs assms(1,2) show ?thesis by (auto simp: forum_ok_def)
qed

lemma category_atom_step:
  assumes "forum_ok st"
    and "\<And>xs. list_all category_ok xs \<Longrightarrow> \<exists>ys. f xs d st = Some ys \<and> list_all category_ok ys"
  shows "\<exists>v. arr_patch f (st ForumCategoriesAtom) d st = Some v \<and>
    forum_ok (st(ForumCategoriesAtom := v))"
proof -
  from assms(1) obtain xs where xs: "st ForumCategoriesAtom = JArr xs" "list_all category_ok xs"
    by (auto simp: forum_ok_def elim: list_ofE)
  with assms(2) obtain ys where "f xs d st = Some ys" "list_all category_ok ys" by blast
  with xs assms(1) show ?thesis by (auto simp: forum_ok_def)
qed

lemma thread_atom_step:
  assumes "forum_ok st"
    and "p = patch_current_thread_saved \<and> entity_ok d \<or>
      p \<in> {patch_current_thread_deleted, patch_current_thread_liked, patch_current_thread_unliked}
      \<and> \<not> nullish d"
  shows "\<exists>v. p (st CurrentThreadAtom) d st = Some v \<and> forum_ok (st(CurrentThreadAtom := v))"
  using patch_current_thread_ok [OF _ assms(2), of "st CurrentThreadAtom" st] assms(1)
  by (auto simp: forum_ok_def)

lemma comment_patches_ok:
  assumes "list_all entity_ok xs"
  shows "user_ok (st CurrentUserAtom) \<Longrightarrow>
      \<not> truthy (fld d ''new_comment'') \<or> entity_ok (fld d ''new_comment'') \<Longrightarrow>
      \<exists>ys. patch_comment_created xs d st = Some ys \<and> list_all entity_ok ys"
    and "\<not> nullish d \<Longrightarrow> \<exists>ys. patch_comment_deleted xs d st = Some ys \<and> list_all entity_ok ys"
    and "\<not> nullish d \<Longrightarrow> \<exists>ys. patch_comment_updated xs d st = Some ys \<and> list_all entity_ok ys"
    and "\<not> nullish d \<Longrightarrow> \<exists>ys. patch_comment_liked xs d st = Some ys \<and> list_all entity_ok ys"
    and "\<not> nullish d \<Longrightarrow> \<exists>ys. patch_comment_unliked xs d st = Some ys \<and> list_all entity_ok ys"
proof -
  show "user_ok (st CurrentUserAtom) \<Longrightarrow>
      \<not> truthy (fld d ''new_comment'') \<or> entity_ok (fld d ''new_comment'') \<Longrightarrow>
      \<exists>ys. patch_comment_created xs d st = Some ys \<and> list_all entity_ok ys"
    using assms patch_comment_created_ok by blast
  show "\<not> nullish d \<Longrightarrow> \<exists>ys. patch_comment_deleted xs d st = Some ys \<and> list_all entity_ok ys"
    using assms by (auto simp: patch_comment_deleted_ok list_all_iff)
qed (use assms patch_comment_edits_ok in blast)+

lemma category_patches_ok:
  assumes "list_all category_ok xs"
  shows "entity_ok d \<Longrightarrow> \<exists>ys. patch_category_created xs d st = Some ys \<and> list_all category_ok ys"
    and "\<exists>ys. patch_category_deleted xs d st = Some ys \<and> list_all category_ok ys"
    and "\<not> nullish d \<Longrightarrow> \<exists>ys. patch_category_updated xs d st = Some ys \<and> list_all category_ok ys"
    and "truthy (fld d ''threads'') \<longrightarrow> list_of entity_ok (fld d ''threads'') \<Longrightarrow> \<not> nullish d \<Longrightarrow>
      \<exists>ys. patch_category_threads_updated now xs d st = Some ys \<and> list_all category_ok ys"
    and "entity_ok d \<Longrightarrow>
      \<exists>ys. patch_category_thread_created xs d st = Some ys \<and> list_all category_ok ys"
    and "\<exists>ys. patch_category_thread_deleted xs d st = Some ys \<and> list_all category_ok ys"
  using patch_category_created_ok [OF assms, of d st] patch_category_updated_ok [OF assms, of d st]
    patch_category_threads_updated_ok [OF assms, of d now st]
    patch_category_thread_created_ok [OF assms, of d st]
    patch_category_thread_deleted_ok [OF assms, of d st]
    patch_category_deleted_ok [OF assms, of d st] assms
  by (simp_all add: list_all_iff) blast+

lemma forum_user: "forum_ok st \<Longrightarrow> user_ok (st CurrentUserAtom)"
  by (simp add: forum_ok_def)

lemma forum_payload_simps:
  "forum_payload_ok ''forum:update:comment_created'' d \<longleftrightarrow>
     \<not> truthy (fld d ''new_comment'') \<or> entity_ok (fld d ''new_comment'')"
  "forum_payload_ok ''forum:update:category_threads_updated'' d \<longleftrightarrow>
     \<not> nullish d \<and> (truthy (fld d ''threads'') \<longrightarrow> list_of entity_ok (fld d ''threads''))"
  "forum_payload_ok ''forum:update:thread_created'' d \<longleftrightarrow> entity_ok d"
  "forum_payload_ok ''forum:update:thread_updated'' d \<longleftrightarrow> entity_ok d"
  "forum_payload_ok ''forum:update:thread_deleted'' d \<longleftrightarrow> entity_ok d"
  "forum_payload_ok ''forum:update:category_created'' d \<longleftrightarrow> entity_ok d"
  "forum_payload_ok ''forum:update:category_updated'' d \<longleftrightarrow> entity_ok d"
  by (simp_all add: forum_payload_ok_def)

lemma forum_payload_readable: "forum_payload_ok ty d \<Longrightarrow> ty \<noteq> ''forum:update:comment_created'' \<Longrightarrow> \<not> nullish d"
  by (auto simp: forum_payload_ok_def entity_readable split: if_splits)

lemmas thread_steps =
  thread_atom_step [where p = patch_current_thread_saved]
  thread_atom_step [where p = patch_current_thread_deleted]
  thread_atom_step [where p = patch_current_thread_liked]
  thread_atom_step [where p = patch_current_thread_unliked]

lemmas forum_patches_ok = comment_patches_ok category_patches_ok feed_created_ok feed_update_ok

lemma forum_handles: "handles forum_ok forum_payload_ok (forum_registrations now)"
  unfolding handles_def forum_registrations_def list.pred_inject prod.case
  by (intro conjI allI impI list.pred_inject(1);
      (simp only: forum_payload_simps)?;
      (rule thread_steps | rule category_atom_step | rule entity_atom_step);
      (assumption
       | (rule forum_patches_ok;
          (assumption | simp add: forum_user forum_payload_readable entity_readable))
       | simp add: entity_readable forum_payload_readable))

section \<open>Properties\<close>

text \<open>
  Whatever forum message arrives, if its payload has the shape the server sends and the forum
  state is well formed, every handler registered for it runs without throwing and the state is
  well formed again: arrays stay arrays of entities with an id, the thread being viewed stays
  \<open>null\<close> or an entity, and the previews of every category stay entities.
\<close>

lemma forum_message_handled:
  assumes "forum_ok st" "forum_payload_ok ty d" "handlers_for (forum_registrations now) ty \<noteq> []"
  shows "snd (apply_ws_update (register_all (forum_registrations now) []) ty d st) = Handled
    \<and> forum_ok (fst (apply_ws_update (register_all (forum_registrations now) []) ty d st))"
  by (rule handles_run [OF forum_handles assms])

lemma forum_message_handled_witness:
  "snd (apply_ws_update (register_all (forum_registrations []) []) ''forum:update:thread_created''
      (JObj [(''id'', JNum 7), (''category_id'', JNum 1)])
      ((\<lambda>a. JArr [])(CurrentUserAtom := JNull, CurrentThreadAtom := JNull))) = Handled"
proof -
  let ?st = "(\<lambda>a. JArr [])(CurrentUserAtom := JNull, CurrentThreadAtom := JNull) :: ws_store"
  have "forum_ok ?st" by (simp add: forum_ok_def user_ok_def)
  moreover have "forum_payload_ok ''forum:update:thread_created''
      (JObj [(''id'', JNum 7), (''category_id'', JNum 1)])"
    by (simp add: forum_payload_simps entity_ok_def)
  moreover have "handlers_for (forum_registrations []) ''forum:update:thread_created'' \<noteq> []"
    by (simp add: forum_registrations_def)
  ultimately show ?thesis using forum_message_handled by blast
qed

text \<open>
  C13. A live thread feed driven by any sequence of created, updated and deleted events about
  well-formed threads never throws, never holds a thread twice, and holds at the end exactly the
  threads that the created and deleted events say, whatever was merged into them meanwhile.
\<close>

theorem thread_feed_refines_key_set:
  assumes "feed_inv entity_ok key_of xs" "list_all (\<lambda>ev. entity_ok (event_payload ev)) evs"
  shows "\<exists>ys. feed_run add_to_feed update_in_feed delete_in_feed evs xs = Some ys
    \<and> feed_inv entity_ok key_of ys
    \<and> key_of ` set ys = fold (key_effect key_of) evs (key_of ` set xs)"
  by (rule thread_feed.feed_run_ok [OF assms])

lemma thread_feed_refines_key_set_witness:
  "\<exists>ys. feed_run add_to_feed update_in_feed delete_in_feed
      [Added (JObj [(''id'', JNum 1)]), Added (JObj [(''id'', JStr ''2'')]),
       Removed (JObj [(''id'', JStr ''1'')])] [] = Some ys
    \<and> key_of ` set ys = {''2''}"
proof -
  let ?evs = "[Added (JObj [(''id'', JNum 1)]), Added (JObj [(''id'', JStr ''2'')]),
    Removed (JObj [(''id'', JStr ''1'')])]"
  have "feed_inv entity_ok key_of []" by (simp add: feed_inv_def)
  moreover have "list_all (\<lambda>ev. entity_ok (event_payload ev)) ?evs" by (simp add: entity_ok_def)
  moreover have "fold (key_effect key_of) ?evs (key_of ` set []) = {''2''}"
    by (auto simp: key_of_def)
  ultimately show ?thesis using thread_feed_refines_key_set [of "[]" ?evs] by metis
qed

text \<open>
  Delivering every event of a live thread feed twice leaves the same feed as delivering it
  once: reconnects that replay a broadcast cannot duplicate, resurrect or corrupt a thread.
\<close>

lemma thread_feed_redelivery:
  assumes "feed_inv entity_ok key_of xs" "list_all (\<lambda>ev. entity_ok (event_payload ev)) evs"
  shows "feed_run add_to_feed update_in_feed delete_in_feed (concat (map (\<lambda>ev. [ev, ev]) evs)) xs =
    feed_run add_to_feed update_in_feed delete_in_feed evs xs"
  by (rule thread_feed.feed_run_redelivered [OF assms])

lemma thread_feed_redelivery_witness:
  "feed_run add_to_feed update_in_feed delete_in_feed
      [Added (JObj [(''id'', JNum 1)]), Added (JObj [(''id'', JNum 1)])] [] =
    feed_run add_to_feed update_in_feed delete_in_feed [Added (JObj [(''id'', JNum 1)])] []"
  using thread_feed_redelivery [of "[]" "[Added (JObj [(''id'', JNum 1)])]"]
  by (simp add: feed_inv_def entity_ok_def)

definition thread_absent :: "string \<Rightarrow> ws_store \<Rightarrow> bool" where
  "thread_absent k st =
     (\<not> (truthy (st CurrentThreadAtom) \<and> key_of (st CurrentThreadAtom) = k)
      \<and> list_of (\<lambda>t. key_of t \<noteq> k) (st CategoryFeedThreadsAtom)
      \<and> list_of (\<lambda>t. key_of t \<noteq> k) (st UserFeedThreadsAtom)
      \<and> list_of (\<lambda>t. key_of t \<noteq> k) (st AllFeedThreadsAtom)
      \<and> list_of (\<lambda>c. k \<notin> key_of ` set (previews c)) (st ForumCategoriesAtom))"

lemma handlers_thread_deleted:
  "handlers_for (forum_registrations now) ''forum:update:thread_deleted'' =
     [\<lparr>h_atom = CurrentThreadAtom, h_patch = patch_current_thread_deleted\<rparr>,
      \<lparr>h_atom = CategoryFeedThreadsAtom, h_patch = arr_patch (\<lambda>p d st. delete_in_feed p d)\<rparr>,
      \<lparr>h_atom = UserFeedThreadsAtom, h_patch = arr_patch (\<lambda>p d st. delete_in_feed p d)\<rparr>,
      \<lparr>h_atom = AllFeedThreadsAtom, h_patch = arr_patch (\<lambda>p d st. delete_in_feed p d)\<rparr>,
      \<lparr>h_atom = ForumCategoriesAtom, h_patch = arr_patch patch_category_thread_deleted\<rparr>]"
  by (simp add: forum_registrations_def)

text \<open>
  A \<open>thread_deleted\<close> message removes the thread from every place the client keeps it: it is no
  longer the thread being viewed, it is in none of the three feeds and in no category's preview.
\<close>

lemma thread_deleted_everywhere:
  assumes "forum_ok st" "entity_ok d"
  shows "thread_absent (key_of d)
    (fst (apply_ws_update (register_all (forum_registrations now) []) ''forum:update:thread_deleted'' d st))"
proof -
  from assms(1) obtain as bs cs ks where st: "st CategoryFeedThreadsAtom = JArr as"
    "st UserFeedThreadsAtom = JArr bs" "st AllFeedThreadsAtom = JArr cs"
    "st ForumCategoriesAtom = JArr ks"
    "list_all entity_ok as" "list_all entity_ok bs" "list_all entity_ok cs" "list_all category_ok ks"
    by (auto simp: forum_ok_def elim!: list_ofE)
  show ?thesis using assms(2) st
    by (simp add: apply_registered handlers_thread_deleted patch_current_thread_deleted_def
        delete_in_feed_eq patch_category_thread_deleted_eq payload_id_entity thread_absent_def
        list_all_iff without_preview_ok)
qed

lemma thread_deleted_everywhere_witness:
  "thread_absent ''3'' (fst (apply_ws_update (register_all (forum_registrations []) [])
      ''forum:update:thread_deleted'' (JObj [(''id'', JNum 3)])
      ((\<lambda>a. JArr [])(CurrentUserAtom := JNull, CurrentThreadAtom := JObj [(''id'', JNum 3)],
         AllFeedThreadsAtom := JArr [JObj [(''id'', JStr ''3'')], JObj [(''id'', JNum 4)]]))))"
proof -
  let ?st = "(\<lambda>a. JArr [])(CurrentUserAtom := JNull, CurrentThreadAtom := JObj [(''id'', JNum 3)],
    AllFeedThreadsAtom := JArr [JObj [(''id'', JStr ''3'')], JObj [(''id'', JNum 4)]]) :: ws_store"
  have "forum_ok ?st" by (simp add: forum_ok_def user_ok_def entity_ok_def)
  moreover have "entity_ok (JObj [(''id'', JNum 3)])" by (simp add: entity_ok_def)
  moreover have "key_of (JObj [(''id'', JNum 3)]) = ''3''" by (simp add: key_of_def)
  ultimately show ?thesis using thread_deleted_everywhere by metis
qed

end
