(* ===== verification/AuthAtoms.thy ===== *)
theory AuthAtoms
  imports Entities
begin

text \<open>
  \<open>atoms/auth.ts\<close>: the user and the authentication state, the token atoms that are kept in
  \<open>localStorage\<close> and mirrored in a cookie, and the derived permission and role checks.
\<close>

section \<open>Interfaces\<close>

definition User :: fields where
  "User =
     [req ''id'' TString, req ''username'' TString, req ''email'' TString,
      req ''display_name'' TString, req ''avatar_url'' TString, req ''banner_url'' TString,
      req ''photo_url'' TString, req ''bio'' TString, opt ''discord_id'' TString,
      req ''is_suspended'' TBoolean, req ''email_verified'' TBoolean, opt ''totp_enabled'' TBoolean,
      req ''roles'' (TArray TString), req ''permissions'' (TArray TString),
      opt ''power_level'' TNumber, req ''created_at'' TString, req ''updated_at'' TString,
      opt ''background_image_url'' TString, opt ''background_video_url'' TString,
      opt ''background_position'' TString, opt ''font_family'' TString,
      opt ''profile_card_art_url'' TString]"

record auth_state =
  isAuthenticated :: bool
  auth_user :: jsval
  accessToken :: "string option"
  refreshToken :: "string option"
  auth_loading :: bool
  auth_error :: "string option"

section \<open>Token storage\<close>

text \<open>\<open>encodeURIComponent\<close> on the characters below 256, through UTF-8.\<close>

definition hex_digit :: "nat \<Rightarrow> char" where
  "hex_digit n = ''0123456789ABCDEF'' ! (n mod 16)"

definition percent :: "nat \<Rightarrow> string" where
  "percent b = [CHR ''%'', hex_digit (b div 16), hex_digit (b mod 16)]"

definition uri_unreserved :: "char \<Rightarrow> bool" where
  "uri_unreserved c =
     (let n = (of_char c :: nat) in
      65 \<le> n \<and> n \<le> 90 \<or> 97 \<le> n \<and> n \<le> 122 \<or> 48 \<le> n \<and> n \<le> 57
      \<or> c \<in> set [CHR ''-'', CHR ''_'', CHR ''.'', CHR ''!'', CHR ''~'', CHR ''*'', CHR 0x27, CHR ''('', CHR '')''])"

definition encode_uri_component :: "string \<Rightarrow> string" where
  "encode_uri_component s = concat (map (\<lambda>c.
     let n = (of_char c :: nat) in
     if uri_unreserved c then [c]
     else if n < 128 then percent n
     else percent (192 + n div 64) @ percent (128 + n mod 64)) s)"

text \<open>
  What the storage atoms touch: \<open>localStorage\<close> when the browser has it, the in-memory fallback,
  the protocol of the page, and the assignments made to \<open>document.cookie\<close>, latest last.
\<close>

record browser_env =
  has_local_storage :: bool
  local_storage :: "(string, string) jsmap"
  memory_store :: "(string, string) jsmap"
  https :: bool
  cookie_writes :: "string list"

definition auth_cookie_attributes :: "browser_env \<Rightarrow> string" where
  "auth_cookie_attributes env =
     ''path=/; max-age=2592000; SameSite=Lax'' @ (if https env then ''; Secure'' else [])"

definition access_token_key :: string where
  "access_token_key = ''auth.accessToken''"

definition write_cookie :: "string \<Rightarrow> browser_env \<Rightarrow> browser_env" where
  "write_cookie c env = env\<lparr>cookie_writes := cookie_writes env @ [c]\<rparr>"

definition token_cookie :: "string \<Rightarrow> browser_env \<Rightarrow> string" where
  "token_cookie tok env =
     ''auth_token='' @ encode_uri_component tok @ ''; '' @ auth_cookie_attributes env"

definition quoted :: "string \<Rightarrow> bool" where
  "quoted s = (s \<noteq> [] \<and> hd s = CHR 0x22 \<and> last s = CHR 0x22)"

text \<open>\<open>v || initialValue\<close> for a string or \<open>null\<close>.\<close>

definition or_initial :: "string option \<Rightarrow> string option \<Rightarrow> string option" where
  "or_initial v init = (case v of Some s \<Rightarrow> if s = [] then init else Some s | None \<Rightarrow> init)"

definition storage_get_value :: "string \<Rightarrow> string option \<Rightarrow> browser_env \<Rightarrow> string option \<times> browser_env" where
  "storage_get_value key init env =
     (if has_local_storage env then
        let val0 = map_get (local_storage env) key;
            (val, env1) = (case val0 of
                Some s \<Rightarrow> if quoted s
                  then (Some (butlast (tl s)),
                        env\<lparr>local_storage := map_set key (butlast (tl s)) (local_storage env)\<rparr>)
                  else (Some s, env)
              | None \<Rightarrow> (None, env));
            env2 = (case val of
                Some s \<Rightarrow> if key = access_token_key \<and> s \<noteq> [] then write_cookie (token_cookie s env1) env1
                  else env1
              | None \<Rightarrow> env1)
        in (or_initial val init, env2)
      else (or_initial (map_get (memory_store env) key) init, env))"

definition storage_write :: "string \<Rightarrow> string option \<Rightarrow> browser_env \<Rightarrow> browser_env" where
  "storage_write key v env =
     (if has_local_storage env then
        (case v of
           None \<Rightarrow>
             let env1 = env\<lparr>local_storage := map_delete key (local_storage env)\<rparr> in
             if key = access_token_key
             then write_cookie ''auth_token=; path=/; expires=Thu, 01 Jan 1970 00:00:00 GMT'' env1
             else env1
         | Some s \<Rightarrow>
             let env1 = env\<lparr>local_storage := map_set key s (local_storage env)\<rparr> in
             if key = access_token_key then write_cookie (token_cookie s env1) env1 else env1)
      else (case v of
           None \<Rightarrow> env\<lparr>memory_store := map_delete key (memory_store env)\<rparr>
         | Some s \<Rightarrow> env\<lparr>memory_store := map_set key s (memory_store env)\<rparr>))"

section \<open>Derived atoms\<close>

definition is_authenticated :: "string option \<Rightarrow> bool" where
  "is_authenticated access_token = (access_token \<noteq> None)"

definition auth_state_of ::
  "jsval \<Rightarrow> string option \<Rightarrow> string option \<Rightarrow> bool \<Rightarrow> string option \<Rightarrow> auth_state" where
  "auth_state_of user access refresh loading err =
     \<lparr>isAuthenticated = is_authenticated access, auth_user = user, accessToken = access,
      refreshToken = refresh, auth_loading = loading, auth_error = err\<rparr>"

definition has_permission :: "jsval \<Rightarrow> string \<Rightarrow> bool option" where
  "has_permission user permission =
     (if \<not> truthy user then Some False
      else do {
        admin \<leftarrow> js_includes (js_coalesce (fld user ''roles'') (JArr [])) ''admin'';
        if admin then Some True
        else js_includes (js_coalesce (fld user ''permissions'') (JArr [])) permission })"

definition has_role :: "jsval \<Rightarrow> string \<Rightarrow> bool option" where
  "has_role user role = js_includes (js_coalesce (fld user ''roles'') (JArr [])) role"

section \<open>Typed users\<close>

definition no_interfaces :: interfaces where
  "no_interfaces = (\<lambda>_. None)"

text \<open>The strings of a list that is declared \<open>string[]\<close>.\<close>

definition strings_of :: "jsval \<Rightarrow> string set" where
  "strings_of v = (case v of JArr xs \<Rightarrow> {s. JStr s \<in> set xs} | _ \<Rightarrow> {})"

lemma typed_user_lists:
  assumes "has_fields env User u"
  shows "\<exists>xs. fld u ''roles'' = JArr xs" "\<exists>xs. fld u ''permissions'' = JArr xs"
  using has_fieldsD [OF assms, of "''roles''" False "TArray TString"]
    has_fieldsD [OF assms, of "''permissions''" False "TArray TString"]
  by (auto simp: User_def elim!: list_ofE)

lemma includes_strings: "js_includes (js_coalesce (JArr xs) (JArr [])) s = Some (s \<in> strings_of (JArr xs))"
  by (simp add: js_includes_def js_coalesce_def strings_of_def)

lemma has_permission_typed:
  assumes "has_fields env User u"
  shows "has_permission u p =
    Some (''admin'' \<in> strings_of (fld u ''roles'') \<or> p \<in> strings_of (fld u ''permissions''))"
proof -
  have "truthy u" using assms by (auto simp: has_fields_def is_obj_iff)
  then show ?thesis using typed_user_lists [OF assms]
    by (auto simp: has_permission_def includes_strings)
qed

lemma has_role_typed:
  assumes "has_fields env User u"
  shows "has_role u r = Some (r \<in> strings_of (fld u ''roles''))"
  using typed_user_lists [OF assms] by (auto simp: has_role_def includes_strings)

section \<open>Properties\<close>

text \<open>
  Nobody has a permission without being logged in; a logged-in user has exactly the permissions
  listed for them, and an administrator all of them. The role check agrees: an administrator is
  whoever has the role, and a visitor has no role.
\<close>

lemma permission_check_exact:
  assumes "u = JNull \<or> has_fields env User u"
  shows "has_permission u p = Some (u \<noteq> JNull \<and>
      (''admin'' \<in> strings_of (fld u ''roles'') \<or> p \<in> strings_of (fld u ''permissions'')))
    \<and> has_role u r = Some (r \<in> strings_of (fld u ''roles''))"
  using assms
proof
  assume "u = JNull"
  then show ?thesis
    by (simp add: has_permission_def has_role_def js_includes_def js_coalesce_def fld_nullish strings_of_def)
next
  assume t: "has_fields env User u"
  then have "u \<noteq> JNull" by (auto simp: has_fields_def)
  with t show ?thesis by (simp add: has_permission_typed has_role_typed)
qed

lemma permission_check_exact_witness:
  "has_permission JNull ''forum.thread-edit'' = Some False"
  using permission_check_exact [of JNull no_interfaces "''forum.thread-edit''" "[]"] by simp

text \<open>
  What is written to a token atom is what a reload reads back, in a browser with
  \<open>localStorage\<close> and without; \<open>null\<close> reads back as the initial value; and in a browser the latest
  \<open>auth_token\<close> cookie always names the access token that was written, or expires it.
\<close>

lemma token_round_trip:
  assumes "v = None \<or> (\<exists>s. v = Some s \<and> s \<noteq> [] \<and> \<not> quoted s)"
  shows "fst (storage_get_value key None (storage_write key v env)) = v
    \<and> (has_local_storage env \<and> key = access_token_key \<longrightarrow>
        last (cookie_writes (storage_write key v env)) =
          (case v of Some s \<Rightarrow> token_cookie s env
           | None \<Rightarrow> ''auth_token=; path=/; expires=Thu, 01 Jan 1970 00:00:00 GMT''))
    \<and> (\<forall>k. k \<noteq> key \<longrightarrow> map_get (local_storage (storage_write key v env)) k = map_get (local_storage env) k)"
  using assms
  by (auto simp: storage_get_value_def storage_write_def write_cookie_def or_initial_def Let_def
      token_cookie_def auth_cookie_attributes_def)

lemma token_round_trip_witness:
  "fst (storage_get_value ''auth.accessToken'' None (storage_write ''auth.accessToken'' (Some ''a.b'')
     \<lparr>has_local_storage = True, local_storage = [], memory_store = [], https = True, cookie_writes = []\<rparr>))
   = Some ''a.b''"
  using token_round_trip [of "Some ''a.b''"] by (simp add: quoted_def)

end
