(* ===== verification/ForumTypes.thy ===== *)
theory ForumTypes
  imports ForumAtoms AuthAtoms
begin

text \<open>
  The interfaces of \<open>atoms/forum.ts\<close> and the proof that its patches keep them: the declared types
  of the atoms are invariants of every forum message whose payload has its declared type.
\<close>

section \<open>Interfaces\<close>

definition ThreadComment :: fields where
  "ThreadComment =
     [req ''id'' TString, req ''thread_id'' TString, req ''user_id'' TString,
      req ''author_id'' TString, req ''author_name'' TString, opt ''author_roles'' (TArray TString),
      opt ''author_avatar'' TString, req ''content'' TString, req ''likes'' TNumber,
      req ''is_liked'' TBoolean, req ''can_edit'' TBoolean, req ''can_delete'' TBoolean,
      req ''can_like_comments'' TBoolean, req ''created_at'' TString, req ''updated_at'' TString,
      opt ''is_edited'' TBoolean]"

definition ForumThread :: fields where
  "ForumThread =
     [req ''id'' TString, req ''category_id'' TString, req ''user_id'' TString,
      req ''title'' TString, req ''content'' TString, req ''view_count'' TNumber,
      req ''reply_count'' TNumber, req ''is_pinned'' TBoolean, req ''is_locked'' TBoolean,
      req ''is_shared'' TBoolean, opt ''original_thread_id'' TString,
      opt ''original_thread'' (TRef ''ForumThread''), opt ''can_lock'' TBoolean,
      req ''created_at'' TString, req ''updated_at'' TString, opt ''user_name'' TString,
      opt ''user_roles'' (TArray TString), opt ''user_avatar'' TString,
      opt ''user_background_video_url'' TString, opt ''user_background_image_url'' TString,
      opt ''user_background_position'' TString, opt ''last_edited_by'' TNumber,
      opt ''last_edited_by_avatar'' TString, opt ''last_edited_by_name'' TString,
      opt ''likes'' TNumber, opt ''is_liked'' TBoolean, opt ''can_edit'' TBoolean,
      opt ''can_delete'' TBoolean, opt ''can_like_comments'' TBoolean,
      opt ''can_delete_thread_comment'' TBoolean, opt ''can_like_threads'' TBoolean]"

definition ForumCategory :: fields where
  "ForumCategory =
     [req ''id'' TString, req ''name'' TString, req ''description'' TString,
      req ''display_order'' TNumber, req ''is_locked'' TBoolean, req ''is_pinned'' TBoolean,
      req ''created_at'' TString, req ''updated_at'' TString, opt ''thread_count'' TNumber,
      opt ''threads'' (TArray (TRef ''ForumThread''))]"

definition forum_interfaces :: interfaces where
  "forum_interfaces = map_of
     [(''ThreadComment'', ThreadComment), (''ForumThread'', ForumThread),
      (''ForumCategory'', ForumCategory)]"

abbreviation ftyped :: "fields \<Rightarrow> jsval \<Rightarrow> bool" where
  "ftyped \<equiv> has_fields forum_interfaces"

text \<open>A comment as the server sends it, without the permissions the client adds.\<close>

definition NewComment :: fields where
  "NewComment = filter (\<lambda>(k, b, t). k \<notin> {''can_edit'', ''can_delete'', ''can_like_comments''}) ThreadComment"

definition forum_type :: "atom \<Rightarrow> jsval \<Rightarrow> bool" where
  "forum_type a v =
     (if a = CurrentUserAtom then v = JNull \<or> ftyped User v
      else if a = CurrentThreadAtom then v = JNull \<or> ftyped ForumThread v
      else if a = ThreadCommentsAtom then list_of (ftyped ThreadComment) v
      else if a \<in> {CategoryFeedThreadsAtom, UserFeedThreadsAtom, AllFeedThreadsAtom}
        then list_of (ftyped ForumThread) v
      else if a = ForumCategoriesAtom then list_of (ftyped ForumCategory) v
      else True)"

definition LikeEvent :: fields where
  "LikeEvent = [opt ''likes'' (nullable TNumber)]"

definition CommentEdit :: fields where
  "CommentEdit = [opt ''content'' TString, opt ''updated_at'' TString]"

definition forum_typed_payload :: "string \<Rightarrow> jsval \<Rightarrow> bool" where
  "forum_typed_payload ty d =
     (if ty = ''forum:update:thread_created'' then ftyped ForumThread d
      else if ty = ''forum:update:thread_updated'' then partial_of forum_interfaces ForumThread d
      else if ty = ''forum:update:thread_deleted'' then True
      else if ty \<in> {''forum:update:thread_liked'', ''forum:update:thread_unliked'',
        ''forum:update:comment_liked'', ''forum:update:comment_unliked''} then ftyped LikeEvent d
      else if ty = ''forum:update:comment_created'' then
        \<not> truthy (fld d ''new_comment'') \<or> ftyped NewComment (fld d ''new_comment'')
      else if ty = ''forum:update:comment_updated'' then ftyped CommentEdit d
      else if ty = ''forum:update:category_created'' then ftyped ForumCategory d
      else if ty = ''forum:update:category_deleted'' then True
      else if ty = ''forum:update:category_updated'' then partial_of forum_interfaces ForumCategory d
      else if ty = ''forum:update:category_threads_updated'' then
        \<not> nullish d \<and> (nullish (fld d ''threads'') \<or> list_of (ftyped ForumThread) (fld d ''threads''))
      else \<not> nullish d)"

section \<open>Values of the updated fields\<close>

lemma forum_refs [simp]:
  "conforms forum_interfaces v (TRef ''ForumThread'') \<longleftrightarrow> ftyped ForumThread v"
  by (simp add: conforms_ref forum_interfaces_def)

lemma partial_or:
  assumes "has_fields env fs v" "partial_of env fs d"
  shows "value_ok env fs k (js_or (fld d k) (fld v k))"
    and "value_ok env fs k (js_coalesce (fld d k) (fld v k))"
proof -
  from assms(2) obtain ps where d: "d = JObj ps" by (auto simp: partial_of_def is_obj_iff)
  have "value_ok env fs k (fld d k) \<or> fld d k = JUndef"
    using partial_of_value [OF assms(2), of k] by (cases "map_of ps k") (auto simp: d)
  then show "value_ok env fs k (js_or (fld d k) (fld v k))"
    "value_ok env fs k (js_coalesce (fld d k) (fld v k))"
    using has_fields_value [OF assms(1), of k] by (auto simp: js_or_def js_coalesce_def)
qed

text \<open>A record update with one listed field at a time.\<close>

lemma has_fields_with_list:
  assumes "has_fields env fs v" "list_all (\<lambda>(k, w). value_ok env fs k w) kvs"
  shows "has_fields env fs (obj_with v kvs)"
  using assms by (intro has_fields_with) (auto simp: list_all_iff dest!: map_of_SomeD)

lemma update_thread_typed:
  assumes "ftyped ForumThread t" "partial_of forum_interfaces ForumThread d"
  shows "\<exists>u. update_thread t d = Some u \<and> ftyped ForumThread u"
  using assms partial_of_readable [OF assms(2)] partial_or [OF assms]
  by (auto simp: update_thread_def intro!: has_fields_with_list)

lemma likes_value:
  assumes "ftyped LikeEvent d" "numeric old"
  shows "numeric (js_coalesce (fld d ''likes'') old)"
  using has_fieldsD [OF assms(1), of "''likes''" True "nullable TNumber"] assms(2)
  by (auto simp: LikeEvent_def js_coalesce_def)

lemma thread_likes: "ftyped ForumThread t \<Longrightarrow> numeric (js_or (fld t ''likes'') (JNum k))"
  using has_fieldsD [of forum_interfaces ForumThread t "''likes''" True TNumber]
  by (auto simp: ForumThread_def js_or_def)

lemma comment_likes: "ftyped ThreadComment c \<Longrightarrow> numeric (fld c ''likes'')"
  using has_fieldsD [of forum_interfaces ThreadComment c "''likes''" False TNumber]
  by (auto simp: ThreadComment_def)

lemma thread_values:
  "value_ok env ForumThread ''likes'' w \<longleftrightarrow> w = JUndef \<or> numeric w"
  "value_ok env ForumThread ''is_liked'' w \<longleftrightarrow> w = JUndef \<or> (\<exists>b. w = JBool b)"
  by (simp_all add: value_ok_def ForumThread_def)

lemma comment_values:
  "value_ok env ThreadComment ''likes'' w \<longleftrightarrow> numeric w"
  "value_ok env ThreadComment ''is_liked'' w \<longleftrightarrow> (\<exists>b. w = JBool b)"
  "value_ok env ThreadComment ''can_edit'' w \<longleftrightarrow> (\<exists>b. w = JBool b)"
  "value_ok env ThreadComment ''can_delete'' w \<longleftrightarrow> (\<exists>b. w = JBool b)"
  "value_ok env ThreadComment ''can_like_comments'' w \<longleftrightarrow> (\<exists>b. w = JBool b)"
  "value_ok env ThreadComment ''content'' w \<longleftrightarrow> (\<exists>s. w = JStr s)"
  "value_ok env ThreadComment ''updated_at'' w \<longleftrightarrow> (\<exists>s. w = JStr s)"
  by (simp_all add: value_ok_def ThreadComment_def)

lemma category_values:
  "value_ok env ForumCategory ''threads'' w \<longleftrightarrow> w = JUndef \<or> conforms env w (TArray (TRef ''ForumThread''))"
  "value_ok env ForumCategory ''thread_count'' w \<longleftrightarrow> w = JUndef \<or> numeric w"
  "value_ok env ForumCategory ''updated_at'' w \<longleftrightarrow> (\<exists>s. w = JStr s)"
  by (simp_all add: value_ok_def ForumCategory_def)

section \<open>Every patch keeps the declared types\<close>

lemma current_thread_typed:
  assumes "v = JNull \<or> ftyped ForumThread v"
  shows "partial_of forum_interfaces ForumThread d \<Longrightarrow>
      \<exists>w. patch_current_thread_saved v d st = Some w \<and> (w = JNull \<or> ftyped ForumThread w)"
    and "\<exists>w. patch_current_thread_deleted v d st = Some w \<and> (w = JNull \<or> ftyped ForumThread w)"
    and "ftyped LikeEvent d \<Longrightarrow>
      \<exists>w. patch_current_thread_liked v d st = Some w \<and> (w = JNull \<or> ftyped ForumThread w)"
    and "ftyped LikeEvent d \<Longrightarrow>
      \<exists>w. patch_current_thread_unliked v d st = Some w \<and> (w = JNull \<or> ftyped ForumThread w)"
proof -
  have liked: "value_ok forum_interfaces ForumThread ''is_liked'' (fld v ''is_liked'')"
    if "ftyped ForumThread v" using that by (rule has_fields_value)
  show "\<exists>w. patch_current_thread_saved v d st = Some w \<and> (w = JNull \<or> ftyped ForumThread w)"
    if d: "partial_of forum_interfaces ForumThread d"
    using assms update_thread_typed [of v d] d
    by (auto simp: patch_current_thread_saved_def same_key_total has_fields_readable partial_of_readable)
  show "\<exists>w. patch_current_thread_deleted v d st = Some w \<and> (w = JNull \<or> ftyped ForumThread w)"
    using assms by (auto simp: patch_current_thread_deleted_def)
  show "\<exists>w. patch_current_thread_liked v d st = Some w \<and> (w = JNull \<or> ftyped ForumThread w)"
    if d: "ftyped LikeEvent d"
    using assms likes_value [OF d] thread_likes [of v] liked d
    by (auto simp: patch_current_thread_liked_def same_key_total has_fields_readable Let_def
        thread_values intro!: has_fields_with_list)
  show "\<exists>w. patch_current_thread_unliked v d st = Some w \<and> (w = JNull \<or> ftyped ForumThread w)"
    if d: "ftyped LikeEvent d"
    using assms likes_value [OF d] thread_likes [of v] liked d
    by (auto simp: patch_current_thread_unliked_def same_key_total has_fields_readable Let_def
        thread_values intro!: has_fields_with_list)
qed

lemma edit_typed:
  assumes "list_all (has_fields env fs) xs" "\<not> nullish d"
    and "\<And>x. has_fields env fs x \<Longrightarrow> list_all (\<lambda>(k, w). value_ok env fs k w) (kvs x)"
  shows "\<exists>ys. js_map (\<lambda>x. do { b \<leftarrow> same_key x ''id'' d k;
      Some (if b then obj_with x (kvs x) else x) }) xs = Some ys \<and> list_all (has_fields env fs) ys"
proof -
  have "js_map (\<lambda>x. do { b \<leftarrow> same_key x ''id'' d k; Some (if b then obj_with x (kvs x) else x) }) xs =
      Some (map (\<lambda>x. if key_of x = js_string (fld d k) then obj_with x (kvs x) else x) xs)"
    using assms(1,2)
    by (intro js_map_total) (auto simp: list_all_iff same_key_total has_fields_readable key_of_def)
  then show ?thesis using assms(1,3) by (auto simp: list_all_iff intro!: has_fields_with_list)
qed

lemma comments_typed:
  assumes "list_all (ftyped ThreadComment) xs"
  shows "\<not> nullish d \<Longrightarrow> \<exists>ys. patch_comment_deleted xs d st = Some ys \<and> list_all (ftyped ThreadComment) ys"
    and "ftyped CommentEdit d \<Longrightarrow>
      \<exists>ys. patch_comment_updated xs d st = Some ys \<and> list_all (ftyped ThreadComment) ys"
    and "ftyped LikeEvent d \<Longrightarrow>
      \<exists>ys. patch_comment_liked xs d st = Some ys \<and> list_all (ftyped ThreadComment) ys"
    and "ftyped LikeEvent d \<Longrightarrow>
      \<exists>ys. patch_comment_unliked xs d st = Some ys \<and> list_all (ftyped ThreadComment) ys"
proof -
  show "\<exists>ys. patch_comment_deleted xs d st = Some ys \<and> list_all (ftyped ThreadComment) ys"
    if "\<not> nullish d"
  proof -
    have "patch_comment_deleted xs d st = Some (filter (\<lambda>c. key_of c \<noteq> js_string (fld d ''comment_id'')) xs)"
      unfolding patch_comment_deleted_def using assms that
      by (intro js_filter_total) (auto simp: list_all_iff same_key_total has_fields_readable key_of_def)
    then show ?thesis using assms by (simp add: list_all_iff)
  qed
  show "\<exists>ys. patch_comment_updated xs d st = Some ys \<and> list_all (ftyped ThreadComment) ys"
    if d: "ftyped CommentEdit d"
    unfolding patch_comment_updated_def
  proof (rule edit_typed [OF assms has_fields_readable [OF d]])
    fix x assume x: "ftyped ThreadComment x"
    show "list_all (\<lambda>(k, w). value_ok forum_interfaces ThreadComment k w)
      [(''content'', js_or (fld d ''content'') (fld x ''content'')),
       (''updated_at'', js_or (fld d ''updated_at'') (fld x ''updated_at''))]"
      using has_fieldsD [OF d, of "''content''" True TString] has_fieldsD [OF d, of "''updated_at''" True TString]
        has_fields_value [OF x, of "''content''"] has_fields_value [OF x, of "''updated_at''"]
      by (auto simp: CommentEdit_def comment_values js_or_def)
  qed
  have liked: "value_ok forum_interfaces ThreadComment ''is_liked'' (fld x ''is_liked'')"
    if "ftyped ThreadComment x" for x using that by (rule has_fields_value)
  show "\<exists>ys. patch_comment_liked xs d st = Some ys \<and> list_all (ftyped ThreadComment) ys"
    if d: "ftyped LikeEvent d"
    unfolding patch_comment_liked_def Let_def get_total [OF has_fields_readable [OF d]] bind.bind_lunit
    by (rule edit_typed [OF assms has_fields_readable [OF d]])
       (auto simp: comment_values likes_value [OF d] comment_likes dest: liked [unfolded comment_values])
  show "\<exists>ys. patch_comment_unliked xs d st = Some ys \<and> list_all (ftyped ThreadComment) ys"
    if d: "ftyped LikeEvent d"
    unfolding patch_comment_unliked_def Let_def get_total [OF has_fields_readable [OF d]] bind.bind_lunit
    by (rule edit_typed [OF assms has_fields_readable [OF d]])
       (auto simp: comment_values likes_value [OF d] comment_likes dest: liked [unfolded comment_values])
qed

lemma user_perms:
  assumes "u = JNull \<or> ftyped User u"
  shows "\<exists>b. may_moderate b0 (fld u ''permissions'') = Some b"
  using assms typed_user_lists(2) [of forum_interfaces u]
  by (auto simp: may_moderate_def fld_nullish js_includes_def)

lemma new_comment_typed:
  assumes "ftyped NewComment c"
  shows "ftyped ThreadComment (obj_with c [(''can_delete'', JBool a), (''can_edit'', JBool b),
    (''can_like_comments'', JBool e)])"
proof -
  from assms obtain ps where c: "c = JObj ps" by (auto simp: has_fields_def is_obj_iff)
  have "field_ok forum_interfaces (obj_with c [(''can_delete'', JBool a), (''can_edit'', JBool b),
      (''can_like_comments'', JBool e)]) f" if f: "f \<in> set ThreadComment" for f
  proof (cases "f \<in> set NewComment")
    case True
    with assms have "field_ok forum_interfaces c f" by (simp add: has_fields_def list_all_iff)
    moreover from True have "fst f \<notin> {''can_edit'', ''can_delete'', ''can_like_comments''}"
      by (auto simp: NewComment_def)
    ultimately show ?thesis by (subst field_ok_with) (simp_all add: c)
  next
    case False
    with f have "f = req ''can_edit'' TBoolean \<or> f = req ''can_delete'' TBoolean \<or>
        f = req ''can_like_comments'' TBoolean"
      by (simp add: NewComment_def ThreadComment_def)
    then show ?thesis by auto
  qed
  then show ?thesis by (simp add: has_fields_def list_all_iff obj_with_def)
qed

lemma comment_created_typed:
  assumes "list_all (ftyped ThreadComment) xs" "st CurrentUserAtom = JNull \<or> ftyped User (st CurrentUserAtom)"
    and "\<not> truthy (fld d ''new_comment'') \<or> ftyped NewComment (fld d ''new_comment'')"
  shows "\<exists>ys. patch_comment_created xs d st = Some ys \<and> list_all (ftyped ThreadComment) ys"
proof (cases "truthy (fld d ''new_comment'')")
  case True
  let ?c = "fld d ''new_comment''" and ?u = "st CurrentUserAtom"
  have c: "ftyped NewComment ?c" using True assms(3) by simp
  obtain may where "may_moderate (\<not> nullish (fld ?u ''id'') \<and>
      js_string (fld ?c ''user_id'') = js_string (fld ?u ''id'')) (fld ?u ''permissions'') = Some may"
    using user_perms [OF assms(2)] by blast
  with True assms(1) new_comment_typed [OF c] has_fields_readable [OF c] show ?thesis
    by (auto simp: patch_comment_created_def Let_def some_types)
next
  case False
  with assms(1) show ?thesis by (simp add: patch_comment_created_def)
qed

lemma feeds_typed:
  assumes "list_all (ftyped ForumThread) xs"
  shows "ftyped ForumThread d \<Longrightarrow>
      \<exists>ys. patch_category_feed_created xs d st = Some ys \<and> list_all (ftyped ForumThread) ys"
    and "ftyped ForumThread d \<Longrightarrow>
      \<exists>ys. patch_user_feed_created xs d st = Some ys \<and> list_all (ftyped ForumThread) ys"
    and "ftyped ForumThread d \<Longrightarrow>
      \<exists>ys. patch_all_feed_created xs d st = Some ys \<and> list_all (ftyped ForumThread) ys"
    and "partial_of forum_interfaces ForumThread d \<Longrightarrow>
      \<exists>ys. update_in_feed xs d = Some ys \<and> list_all (ftyped ForumThread) ys"
    and "\<exists>ys. delete_in_feed xs d = Some ys \<and> list_all (ftyped ForumThread) ys"
proof -
  have add: "\<exists>ys. add_to_feed xs d = Some ys \<and> list_all (ftyped ForumThread) ys"
    if "ftyped ForumThread d" using assms that by (simp add: add_to_feed_def some_types has_fields_readable)
  show "\<exists>ys. patch_category_feed_created xs d st = Some ys \<and> list_all (ftyped ForumThread) ys"
    "\<exists>ys. patch_user_feed_created xs d st = Some ys \<and> list_all (ftyped ForumThread) ys"
    "\<exists>ys. patch_all_feed_created xs d st = Some ys \<and> list_all (ftyped ForumThread) ys"
    if "ftyped ForumThread d"
    using assms add [OF that] has_fields_readable [OF that]
    by (auto simp: patch_category_feed_created_def patch_user_feed_created_def patch_all_feed_created_def Let_def)
  show "\<exists>ys. update_in_feed xs d = Some ys \<and> list_all (ftyped ForumThread) ys"
    if "partial_of forum_interfaces ForumThread d"
    using merge_map_types [OF assms that] by (simp add: update_in_feed_def)
  show "\<exists>ys. delete_in_feed xs d = Some ys \<and> list_all (ftyped ForumThread) ys"
    using filter_types_ok [OF assms] by (simp add: delete_in_feed_def remove_from_feed_def)
qed

text \<open>Categories.\<close>

lemma category_previews_typed:
  assumes "ftyped ForumCategory c"
  shows "\<exists>ts. list_or_empty (fld c ''threads'') = Some ts \<and> list_all (ftyped ForumThread) ts"
  using has_fieldsD [OF assms, of "''threads''" True "TArray (TRef ''ForumThread'')"]
  by (auto simp: ForumCategory_def list_or_empty_def elim!: list_ofE)

lemma thread_count_value: "ftyped ForumCategory c \<Longrightarrow> numeric (js_or (fld c ''thread_count'') (JNum 0))"
  using has_fieldsD [of forum_interfaces ForumCategory c "''thread_count''" True TNumber]
  by (auto simp: ForumCategory_def js_or_def)

lemma category_with_previews:
  assumes "ftyped ForumCategory c" "list_all (ftyped ForumThread) ts" "numeric n"
  shows "ftyped ForumCategory (obj_with c [(''threads'', JArr ts), (''thread_count'', n)])"
  using assms by (intro has_fields_with_list) (simp_all add: category_values)

lemma categories_typed:
  assumes "list_all (ftyped ForumCategory) xs"
  shows "ftyped ForumCategory d \<Longrightarrow>
      \<exists>ys. patch_category_created xs d st = Some ys \<and> list_all (ftyped ForumCategory) ys"
    and "\<exists>ys. patch_category_deleted xs d st = Some ys \<and> list_all (ftyped ForumCategory) ys"
    and "partial_of forum_interfaces ForumCategory d \<Longrightarrow>
      \<exists>ys. patch_category_updated xs d st = Some ys \<and> list_all (ftyped ForumCategory) ys"
    and "\<not> nullish d \<and> (nullish (fld d ''threads'') \<or> list_of (ftyped ForumThread) (fld d ''threads'')) \<Longrightarrow>
      \<exists>ys. patch_category_threads_updated now xs d st = Some ys \<and> list_all (ftyped ForumCategory) ys"
proof -
  show "\<exists>ys. patch_category_created xs d st = Some ys \<and> list_all (ftyped ForumCategory) ys"
    if d: "ftyped ForumCategory d"
  proof -
    have "ftyped ForumCategory (JObj
          [(''id'', fld d ''id''), (''name'', fld d ''name''),
           (''description'', fld d ''description''),
           (''is_locked'', js_or (fld d ''is_locked'') (JBool False)),
           (''is_pinned'', js_or (fld d ''is_pinned'') (JBool False)),
           (''display_order'', js_or (fld d ''display_order'') (JNum 0)),
           (''thread_count'', js_or (fld d ''thread_count'') (JNum 0)),
           (''created_at'', fld d ''created_at''), (''updated_at'', fld d ''updated_at''),
           (''threads'', JArr [])])"
      using d unfolding has_fields_def ForumCategory_def
      by (auto simp: field_ok_def js_or_def simp del: fld_obj_with)
    with assms show ?thesis
      by (auto simp: patch_category_created_def some_types has_fields_readable [OF d])
  qed
  show "\<exists>ys. patch_category_deleted xs d st = Some ys \<and> list_all (ftyped ForumCategory) ys"
    using filter_types_ok [OF assms] by (simp add: patch_category_deleted_def)
  show "\<exists>ys. patch_category_updated xs d st = Some ys \<and> list_all (ftyped ForumCategory) ys"
    if d: "partial_of forum_interfaces ForumCategory d"
    unfolding patch_category_updated_def using partial_or [OF _ d] partial_of_readable [OF d]
    by (intro edit_typed [OF assms]) (auto intro: has_fields_value)
  show "\<exists>ys. patch_category_threads_updated now xs d st = Some ys \<and> list_all (ftyped ForumCategory) ys"
    if "\<not> nullish d \<and> (nullish (fld d ''threads'') \<or> list_of (ftyped ForumThread) (fld d ''threads''))"
    unfolding patch_category_threads_updated_def using that
    by (intro edit_typed [OF assms])
       (auto simp: category_values js_coalesce_def dest: has_fields_value [of _ _ _ "''threads''"])
qed

lemma category_previews_patched:
  assumes "list_all (ftyped ForumCategory) xs"
  shows "ftyped ForumThread d \<Longrightarrow>
      \<exists>ys. patch_category_thread_created xs d st = Some ys \<and> list_all (ftyped ForumCategory) ys"
    and "\<exists>ys. patch_category_thread_deleted xs d st = Some ys \<and> list_all (ftyped ForumCategory) ys"
proof -
  show "\<exists>ys. patch_category_thread_created xs d st = Some ys \<and> list_all (ftyped ForumCategory) ys"
    if d: "ftyped ForumThread d"
  proof -
    have "\<exists>y. do { x \<leftarrow> get c ''id'';
          if js_string x \<noteq> k then Some c
          else do { threads \<leftarrow> list_or_empty (fld c ''threads'');
            already_exists \<leftarrow> js_some (\<lambda>t. same_id t d) threads;
            if already_exists then Some c
            else Some (obj_with c
              [(''threads'', JArr (take 2 (d # threads))),
               (''thread_count'', js_plus (js_or (fld c ''thread_count'') (JNum 0)) 1)]) } } = Some y
        \<and> ftyped ForumCategory y" if c: "c \<in> set xs" for c k
    proof -
      from c assms have c: "ftyped ForumCategory c" by (simp add: list_all_iff)
      then obtain ts where ts: "list_or_empty (fld c ''threads'') = Some ts" "list_all (ftyped ForumThread) ts"
        using category_previews_typed by blast
      then have "list_all (ftyped ForumThread) (take 1 ts)" by (auto simp: list_all_iff dest: in_set_takeD)
      with c d ts show ?thesis
        by (simp add: some_types has_fields_readable category_with_previews thread_count_value)
    qed
    then show ?thesis using assms
      by (auto simp: patch_category_thread_created_def Let_def intro!: js_map_all)
  qed
  show "\<exists>ys. patch_category_thread_deleted xs d st = Some ys \<and> list_all (ftyped ForumCategory) ys"
  proof -
    have "\<exists>y. do { ts \<leftarrow> get c ''threads''; threads \<leftarrow> list_or_empty ts;
          filtered \<leftarrow> remove_from_feed threads (payload_id d);
          if length filtered = length threads then Some c
          else Some (obj_with c [(''threads'', JArr filtered),
            (''thread_count'', js_max0 (js_minus (js_or (fld c ''thread_count'') (JNum 0)) 1))]) } = Some y
        \<and> ftyped ForumCategory y" if c: "c \<in> set xs" for c
    proof -
      from c assms have c: "ftyped ForumCategory c" by (simp add: list_all_iff)
      then obtain ts where ts: "list_or_empty (fld c ''threads'') = Some ts" "list_all (ftyped ForumThread) ts"
        using category_previews_typed by blast
      from filter_types_ok [OF ts(2), of "js_string (payload_id d)"] c ts show ?thesis
        by (auto simp: remove_from_feed_def has_fields_readable category_with_previews thread_count_value)
    qed
    then show ?thesis by (auto simp: patch_category_thread_deleted_def intro!: js_map_all)
  qed
qed

section \<open>The whole module\<close>

lemma forum_list_step:
  assumes "types_ok forum_type st"
    and "(a, fs) \<in> {(ThreadCommentsAtom, ThreadComment), (CategoryFeedThreadsAtom, ForumThread),
      (UserFeedThreadsAtom, ForumThread), (AllFeedThreadsAtom, ForumThread),
      (ForumCategoriesAtom, ForumCategory)}"
    and "\<And>xs. list_all (ftyped fs) xs \<Longrightarrow> \<exists>ys. f xs d st = Some ys \<and> list_all (ftyped fs) ys"
  shows "\<exists>v. arr_patch f (st a) d st = Some v \<and> forum_type a v"
proof -
  have "list_of (ftyped fs) (st a)" using assms(2) types_okD [OF assms(1), of a]
    by (auto simp: forum_type_def)
  from arr_patch_types [where f = f and d = d and st = st, OF this] assms(2,3) show ?thesis
    by (auto simp: forum_type_def)
qed

lemmas forum_list_steps =
  forum_list_step [where a = ThreadCommentsAtom and fs = ThreadComment, simplified]
  forum_list_step [where a = CategoryFeedThreadsAtom and fs = ForumThread, simplified]
  forum_list_step [where a = UserFeedThreadsAtom and fs = ForumThread, simplified]
  forum_list_step [where a = AllFeedThreadsAtom and fs = ForumThread, simplified]
  forum_list_step [where a = ForumCategoriesAtom and fs = ForumCategory, simplified]

lemma forum_thread_step:
  assumes "types_ok forum_type st"
    and "\<And>v. v = JNull \<or> ftyped ForumThread v \<Longrightarrow> \<exists>w. p v d st = Some w \<and> (w = JNull \<or> ftyped ForumThread w)"
  shows "\<exists>v. p (st CurrentThreadAtom) d st = Some v \<and> forum_type CurrentThreadAtom v"
  using types_okD [OF assms(1), of CurrentThreadAtom] assms(2) by (simp add: forum_type_def)

lemma forum_typed_user: "types_ok forum_type st \<Longrightarrow> st CurrentUserAtom = JNull \<or> ftyped User (st CurrentUserAtom)"
  using types_okD [of forum_type st CurrentUserAtom] by (simp add: forum_type_def)

lemma forum_typed_payload_simps:
  "forum_typed_payload ''forum:update:thread_created'' d \<longleftrightarrow> ftyped ForumThread d"
  "forum_typed_payload ''forum:update:thread_updated'' d \<longleftrightarrow> partial_of forum_interfaces ForumThread d"
  "forum_typed_payload ''forum:update:thread_deleted'' d \<longleftrightarrow> True"
  "forum_typed_payload ''forum:update:thread_liked'' d \<longleftrightarrow> ftyped LikeEvent d"
  "forum_typed_payload ''forum:update:thread_unliked'' d \<longleftrightarrow> ftyped LikeEvent d"
  "forum_typed_payload ''forum:update:comment_liked'' d \<longleftrightarrow> ftyped LikeEvent d"
  "forum_typed_payload ''forum:update:comment_unliked'' d \<longleftrightarrow> ftyped LikeEvent d"
  "forum_typed_payload ''forum:update:comment_created'' d \<longleftrightarrow>
     \<not> truthy (fld d ''new_comment'') \<or> ftyped NewComment (fld d ''new_comment'')"
  "forum_typed_payload ''forum:update:comment_deleted'' d \<longleftrightarrow> \<not> nullish d"
  "forum_typed_payload ''forum:update:comment_updated'' d \<longleftrightarrow> ftyped CommentEdit d"
  "forum_typed_payload ''forum:update:category_created'' d \<longleftrightarrow> ftyped ForumCategory d"
  "forum_typed_payload ''forum:update:category_deleted'' d \<longleftrightarrow> True"
  "forum_typed_payload ''forum:update:category_updated'' d \<longleftrightarrow> partial_of forum_interfaces ForumCategory d"
  "forum_typed_payload ''forum:update:category_threads_updated'' d \<longleftrightarrow>
     \<not> nullish d \<and> (nullish (fld d ''threads'') \<or> list_of (ftyped ForumThread) (fld d ''threads''))"
  by (simp_all add: forum_typed_payload_def)

lemmas forum_list_types = comments_typed comment_created_typed feeds_typed categories_typed
  category_previews_patched

lemma forum_type_handles: "handles (types_ok forum_type) forum_typed_payload (forum_registrations now)"
  unfolding forum_registrations_def
  by (rule types_handles, unfold list.pred_inject prod.case, intro conjI allI impI list.pred_inject(1))
     (simp_all only: forum_typed_payload_simps,
      ((rule forum_thread_step;
          (assumption | rule current_thread_typed; (assumption | erule has_fields_partial)))
       | (rule forum_list_steps, assumption, rule forum_list_types;
          (assumption | simp add: forum_typed_user)))+)

section \<open>Property\<close>



end
