(* ===== verification/StoreAtoms.thy ===== *)
theory StoreAtoms
  imports Entities
begin

text \<open>
  \<open>atoms/store.ts\<close>: the interfaces of the store, the derived atoms (the products shown, the total
  and the size of the cart) and the patches of the catalogue, of the orders and of the cart.
\<close>

section \<open>Interfaces\<close>

definition OwnerSummary :: fields where
  "OwnerSummary = [req ''id'' TString, req ''display_name'' TString, req ''avatar_url'' TString]"

definition ProductMedia :: fields where
  "ProductMedia =
     [req ''url'' TString, req ''filename'' TString, req ''mime_type'' TString,
      req ''type'' TString, req ''size'' TNumber, req ''created_at'' TString]"

definition Product :: fields where
  "Product =
     [req ''id'' TString, opt ''owner_id'' TString, opt ''owner'' (TShape OwnerSummary),
      req ''name'' TString, req ''description'' TString, req ''price'' TNumber,
      opt ''original_price'' TNumber, req ''stock'' TNumber, req ''stock_unlimited'' TBoolean,
      req ''category_id'' TString, opt ''image_url'' TString,
      opt ''media'' (TArray (TRef ''ProductMedia'')), req ''is_active'' TBoolean,
      opt ''special_actions'' TString, opt ''recent_purchases'' TNumber,
      opt ''current_orders'' TNumber, req ''created_at'' TString, req ''updated_at'' TString]"

definition StoreCategory :: fields where
  "StoreCategory =
     [req ''id'' TString, req ''name'' TString, opt ''description'' TString,
      opt ''display_order'' TNumber, req ''created_at'' TString]"

definition CartItem :: fields where
  "CartItem =
     [req ''id'' TString, req ''user_id'' TString, req ''product_id'' TString,
      req ''quantity'' TNumber, req ''added_at'' TString, opt ''product'' (TRef ''Product'')]"

definition OrderItem :: fields where
  "OrderItem =
     [req ''id'' TString, req ''order_id'' TString, req ''product_id'' TString,
      opt ''owner_id'' TString, opt ''owner'' (TShape OwnerSummary), req ''quantity'' TNumber,
      req ''price'' TNumber, opt ''vendor_status'' TString, opt ''vendor_note'' TString,
      opt ''vendor_updated_at'' TString, req ''created_at'' TString]"

definition OrderVendorStatus :: fields where
  "OrderVendorStatus =
     [req ''vendor_id'' TString, opt ''vendor'' (TShape OwnerSummary), req ''status'' TString,
      req ''items'' TNumber, req ''total'' TNumber, opt ''updated_at'' TString]"

definition Order :: fields where
  "Order =
     [req ''id'' TString, opt ''user_id'' TString, req ''is_guest'' TBoolean,
      opt ''guest_email'' TString, opt ''guest_phone'' TString, opt ''delivery_location'' TString,
      opt ''delivery_date'' TString, opt ''delivery_time'' TString, opt ''extra_info'' TString,
      opt ''billing_info'' TString, req ''total_price'' TNumber, req ''status'' TString,
      req ''created_at'' TString, req ''updated_at'' TString,
      opt ''items'' (TArray (TRef ''OrderItem'')),
      opt ''vendors'' (TArray (TRef ''OrderVendorStatus'')), opt ''payment'' (TRef ''Payment'')]"

definition ReferenceCode :: fields where
  "ReferenceCode =
     [req ''id'' TString, req ''code'' TString, req ''user_id'' TString,
      req ''incentive_amount'' TNumber, req ''is_active'' TBoolean, req ''created_at'' TString,
      req ''updated_at'' TString]"

definition Payment :: fields where
  "Payment =
     [req ''id'' TString, req ''order_id'' TString, req ''provider'' TString,
      opt ''provider_ref'' TString, req ''amount'' TNumber, req ''currency'' TString,
      req ''status'' TString, opt ''failure_reason'' TString, req ''created_at'' TString,
      req ''updated_at'' TString]"

definition CheckoutResponse :: fields where
  "CheckoutResponse =
     [req ''order'' (TRef ''Order''), req ''payment'' (TRef ''Payment''),
      opt ''client_secret'' TString, req ''status'' TString, opt ''message'' TString]"

definition store_interfaces :: interfaces where
  "store_interfaces = map_of
     [(''Product'', Product), (''ProductMedia'', ProductMedia), (''StoreCategory'', StoreCategory),
      (''CartItem'', CartItem), (''OrderItem'', OrderItem),
      (''OrderVendorStatus'', OrderVendorStatus), (''Order'', Order),
      (''ReferenceCode'', ReferenceCode), (''Payment'', Payment),
      (''CheckoutResponse'', CheckoutResponse)]"

section \<open>Derived atoms\<close>

definition filtered_products :: "jsval list \<Rightarrow> jsval \<Rightarrow> jsval list option" where
  "filtered_products products selected =
     (if \<not> truthy selected
      then js_filter (\<lambda>p. do { a \<leftarrow> get p ''is_active''; Some (truthy a) }) products
      else js_filter (\<lambda>p. do {
        c \<leftarrow> get p ''category_id'';
        Some (strict_eq c selected \<and> truthy (fld p ''is_active'')) }) products)"

text \<open>The total in cents; the atom divides it by 100 (\<open>centsToDollars\<close>).\<close>

definition cart_step :: "jsval list \<Rightarrow> jsval \<Rightarrow> jsval \<Rightarrow> jsval option" where
  "cart_step products subtotal item = do {
     product \<leftarrow> js_find (\<lambda>p. do {
       i \<leftarrow> get p ''id'';
       j \<leftarrow> get item ''product_id'';
       Some (strict_eq i j) }) products;
     quantity \<leftarrow> get item ''quantity'';
     let price = js_coalesce (case product of Some p \<Rightarrow> fld p ''price'' | None \<Rightarrow> JUndef) (JNum 0);
     Some (js_add subtotal (js_mul price quantity)) }"

definition cart_total :: "jsval list \<Rightarrow> jsval list \<Rightarrow> jsval option" where
  "cart_total items products = js_reduce (cart_step products) (JNum 0) items"

definition cart_item_count :: "jsval list \<Rightarrow> jsval option" where
  "cart_item_count items =
     js_reduce (\<lambda>count item. do { q \<leftarrow> get item ''quantity''; Some (js_add count q) }) (JNum 0) items"

section \<open>The catalogue\<close>

definition patch_store_category_created :: "jsval list \<Rightarrow> jsval \<Rightarrow> jsval list option" where
  "patch_store_category_created prev data = do {
     known \<leftarrow> js_some (\<lambda>c. same_id c data) prev;
     Some (if known then prev else prev @ [data]) }"

definition patch_store_category_updated :: "jsval list \<Rightarrow> jsval \<Rightarrow> jsval list option" where
  "patch_store_category_updated prev data =
     js_map (\<lambda>c. do { b \<leftarrow> same_id c data; Some (if b then obj_spread c data else c) }) prev"

definition patch_store_category_deleted :: "jsval list \<Rightarrow> jsval \<Rightarrow> jsval list option" where
  "patch_store_category_deleted prev data = remove_with_id prev data"

definition patch_product_created :: "jsval list \<Rightarrow> jsval \<Rightarrow> jsval list option" where
  "patch_product_created prev data = do {
     known \<leftarrow> js_some (\<lambda>p. same_id p data) prev;
     Some (if known then prev else prev @ [data]) }"

definition patch_product_updated :: "jsval list \<Rightarrow> jsval \<Rightarrow> jsval list option" where
  "patch_product_updated prev data =
     js_map (\<lambda>p. do { b \<leftarrow> same_id p data; Some (if b then obj_spread p data else p) }) prev"

definition patch_product_deleted :: "jsval list \<Rightarrow> jsval \<Rightarrow> jsval list option" where
  "patch_product_deleted prev data = remove_with_id prev data"

section \<open>Orders\<close>

definition merge_order :: "jsval list \<Rightarrow> jsval \<Rightarrow> jsval list option" where
  "merge_order prev order = do {
     exists \<leftarrow> js_some (\<lambda>x. same_id x order) prev;
     if exists
     then js_map (\<lambda>x. do { b \<leftarrow> same_id x order; Some (if b then obj_spread x order else x) }) prev
     else Some (order # prev) }"

definition patch_purchase_orders :: "jsval list \<Rightarrow> jsval \<Rightarrow> jsval list option" where
  "patch_purchase_orders prev data =
     (if truthy (fld data ''order'')
      then merge_order prev (obj_with (fld data ''order'') [(''payment'', fld data ''payment'')])
      else Some prev)"

definition patch_purchase_current_order :: patch_fn where
  "patch_purchase_current_order prev data st =
     (if \<not> truthy prev \<or> \<not> truthy (fld data ''order'') then Some prev
      else do {
        b \<leftarrow> same_id prev (fld data ''order'');
        if \<not> b then Some prev
        else Some (obj_with (obj_spread prev (fld data ''order'')) [(''payment'', fld data ''payment'')]) })"

definition patch_order_saved :: "jsval list \<Rightarrow> jsval \<Rightarrow> jsval list option" where
  "patch_order_saved prev data = (if truthy (fld data ''id'') then merge_order prev data else Some prev)"

definition patch_current_order_saved :: patch_fn where
  "patch_current_order_saved prev data st =
     (if truthy prev \<and> truthy (fld data ''id'') \<and> key_of prev = key_of data
      then Some (obj_spread prev data) else Some prev)"

definition patch_order_deleted :: "jsval list \<Rightarrow> jsval \<Rightarrow> jsval list option" where
  "patch_order_deleted prev data = remove_with_id prev data"

definition patch_current_order_deleted :: patch_fn where
  "patch_current_order_deleted prev data st =
     (if truthy prev \<and> truthy (fld data ''id'') \<and> key_of prev = key_of data
      then Some JNull else Some prev)"

definition patch_cart_updated :: patch_fn where
  "patch_cart_updated prev data st = (case data of JArr xs \<Rightarrow> Some data | _ \<Rightarrow> Some prev)"

definition store_registrations :: "registration list" where
  "store_registrations =
     [(''store:update:category_created'', ProductCategoriesAtom,
         arr_patch (\<lambda>p d st. patch_store_category_created p d)),
      (''store:update:category_updated'', ProductCategoriesAtom,
         arr_patch (\<lambda>p d st. patch_store_category_updated p d)),
      (''store:update:category_deleted'', ProductCategoriesAtom,
         arr_patch (\<lambda>p d st. patch_store_category_deleted p d)),
      (''store:update:product_created'', ProductsAtom, arr_patch (\<lambda>p d st. patch_product_created p d)),
      (''store:update:product_updated'', ProductsAtom, arr_patch (\<lambda>p d st. patch_product_updated p d)),
      (''store:update:product_deleted'', ProductsAtom, arr_patch (\<lambda>p d st. patch_product_deleted p d)),
      (''store:update:purchase_success'', StoreCartItemsAtom, \<lambda>p d st. Some (JArr [])),
      (''store:update:purchase_success'', OrdersAtom, arr_patch (\<lambda>p d st. patch_purchase_orders p d)),
      (''store:update:purchase_success'', CurrentOrderAtom, patch_purchase_current_order),
      (''order:update:order_created'', OrdersAtom, arr_patch (\<lambda>p d st. patch_order_saved p d)),
      (''order:update:order_created'', CurrentOrderAtom, patch_current_order_saved),
      (''order:update:order_updated'', OrdersAtom, arr_patch (\<lambda>p d st. patch_order_saved p d)),
      (''order:update:order_updated'', CurrentOrderAtom, patch_current_order_saved),
      (''order:update:order_deleted'', OrdersAtom, arr_patch (\<lambda>p d st. patch_order_deleted p d)),
      (''order:update:order_deleted'', CurrentOrderAtom, patch_current_order_deleted),
      (''cart:update:cart_updated'', StoreCartItemsAtom, patch_cart_updated)]"

section \<open>The collections\<close>

lemmas store_patch_defs = patch_store_category_created_def patch_store_category_updated_def
  patch_store_category_deleted_def patch_product_created_def patch_product_updated_def
  patch_product_deleted_def patch_order_deleted_def

interpretation category_insert: keyed_insert entity_ok key_of patch_store_category_created
  by (rule standard_insert) (simp_all add: store_patch_defs some_same_id)

interpretation category_feed: keyed_feed entity_ok key_of patch_store_category_created
    patch_store_category_updated patch_store_category_deleted
  by (rule standard_feed) (unfold_locales, simp_all add: store_patch_defs merge_map remove_with_id_eq)

interpretation product_insert: keyed_insert entity_ok key_of patch_product_created
  by (rule standard_insert) (simp_all add: store_patch_defs some_same_id)

interpretation product_feed: keyed_feed entity_ok key_of patch_product_created
    patch_product_updated patch_product_deleted
  by (rule standard_feed) (unfold_locales, simp_all add: store_patch_defs merge_map remove_with_id_eq)

lemma merge_order_eq:
  "list_all entity_ok xs \<Longrightarrow> entity_ok d \<Longrightarrow>
   merge_order xs d = Some (if key_of d \<in> key_of ` set xs then map (merge_by_key d) xs else d # xs)"
  by (simp add: merge_order_def some_same_id merge_map)

interpretation order_set: keyed_set entity_ok key_of merge_order patch_order_deleted
proof (unfold_locales, goal_cases)
  case (1 xs e)
  then show ?case by (simp add: merge_order_eq merge_by_key_entity list_all_iff)
next
  case (2 xs e)
  then show ?case by (auto simp: merge_order_eq)
next
  case (3 xs e ys)
  show ?case
  proof (cases "key_of e \<in> key_of ` set xs")
    case True
    with 3 have ys: "ys = map (merge_by_key e) xs" by (simp add: merge_order_eq)
    with 3 have "list_all entity_ok ys" "key_of ` set ys = key_of ` set xs"
      by (simp_all add: list_all_iff merge_by_key_entity image_image)
    with 3 True ys show ?thesis by (simp add: merge_order_eq list_all_iff merge_by_key_entity)
  next
    case False
    with 3 have ys: "ys = e # xs" by (simp add: merge_order_eq)
    have "merge_by_key e e = e"
      using 3 entity_ok_obj [of e] by (auto simp: merge_by_key_def obj_spread_def merge_self)
    moreover have "map (merge_by_key e) xs = xs"
      using False by (intro map_idI) (metis imageI merge_by_key_def)
    ultimately show ?thesis using 3 ys by (simp add: merge_order_eq)
  qed
next
  case (4 xs e)
  then show ?case by (simp add: store_patch_defs remove_with_id_eq)
qed

section \<open>The declared types are kept\<close>

abbreviation typed :: "fields \<Rightarrow> jsval \<Rightarrow> bool" where
  "typed \<equiv> has_fields store_interfaces"

definition store_type :: "atom \<Rightarrow> jsval \<Rightarrow> bool" where
  "store_type a v =
     (if a = ProductsAtom then list_of (typed Product) v
      else if a = ProductCategoriesAtom then list_of (typed StoreCategory) v
      else if a = OrdersAtom then list_of (typed Order) v
      else if a = CurrentOrderAtom then v = JNull \<or> typed Order v
      else if a = StoreCartItemsAtom then list_of (typed CartItem) v
      else True)"

text \<open>The payloads, as the patches declare them.\<close>

definition store_payload :: "string \<Rightarrow> jsval \<Rightarrow> bool" where
  "store_payload ty d =
     (if ty = ''store:update:category_created'' then typed StoreCategory d
      else if ty = ''store:update:category_updated'' then partial_of store_interfaces StoreCategory d
      else if ty = ''store:update:product_created'' then typed Product d
      else if ty = ''store:update:product_updated'' then partial_of store_interfaces Product d
      else if ty = ''store:update:purchase_success'' then typed CheckoutResponse d
      else if ty \<in> {''order:update:order_created'', ''order:update:order_updated''} then typed Order d
      else if ty = ''cart:update:cart_updated'' then
        (case d of JArr xs \<Rightarrow> list_all (typed CartItem) xs | _ \<Rightarrow> True)
      else True)"

lemma merge_order_types:
  assumes "list_all (typed Order) xs" "typed Order d"
  shows "\<exists>ys. merge_order xs d = Some ys \<and> list_all (typed Order) ys"
  using assms merge_map_types [of store_interfaces Order xs d]
  by (auto simp: merge_order_def some_types has_fields_readable has_fields_partial)

lemma checkout_order:
  assumes "typed CheckoutResponse d"
  shows "typed Order (fld d ''order'')" "typed Payment (fld d ''payment'')"
  using has_fieldsD [OF assms, of "''order''" False "TRef ''Order''"]
    has_fieldsD [OF assms, of "''payment''" False "TRef ''Payment''"]
  by (auto simp: CheckoutResponse_def conforms_ref store_interfaces_def)

lemma typed_order_id: "typed Order x \<Longrightarrow> \<exists>s. fld x ''id'' = JStr s"
  using has_fieldsD [of store_interfaces Order x "''id''" False TString]
  by (auto simp: Order_def split: jsval.splits)

lemma order_with_payment:
  "typed Order x \<Longrightarrow> typed Payment p \<Longrightarrow> typed Order (obj_with x [(''payment'', p)])"
  by (rule has_fields_with)
     (auto simp: value_ok_def Order_def conforms_ref store_interfaces_def split: if_splits)

lemma catalogue_types:
  assumes "list_all (has_fields env fs) xs"
  shows "\<not> nullish d \<Longrightarrow> has_fields env fs d \<Longrightarrow>
      \<exists>ys. patch_store_category_created xs d = Some ys \<and> list_all (has_fields env fs) ys"
    and "has_fields env fs d \<Longrightarrow>
      \<exists>ys. patch_product_created xs d = Some ys \<and> list_all (has_fields env fs) ys"
    and "partial_of env fs d \<Longrightarrow>
      \<exists>ys. patch_store_category_updated xs d = Some ys \<and> list_all (has_fields env fs) ys"
    and "partial_of env fs d \<Longrightarrow>
      \<exists>ys. patch_product_updated xs d = Some ys \<and> list_all (has_fields env fs) ys"
  using assms merge_map_types [OF assms, of d]
  by (auto simp: store_patch_defs some_types has_fields_readable)

lemma order_types:
  assumes "list_all (typed Order) xs"
  shows "typed Order d \<Longrightarrow> \<exists>ys. patch_order_saved xs d = Some ys \<and> list_all (typed Order) ys"
    and "typed CheckoutResponse d \<Longrightarrow>
      \<exists>ys. patch_purchase_orders xs d = Some ys \<and> list_all (typed Order) ys"
  using assms merge_order_types [OF assms] checkout_order [of d] order_with_payment
  by (auto simp: patch_order_saved_def patch_purchase_orders_def)

lemma current_order_types:
  assumes "v = JNull \<or> typed Order v"
  shows "typed Order d \<Longrightarrow> \<exists>w. patch_current_order_saved v d st = Some w \<and> (w = JNull \<or> typed Order w)"
    and "\<exists>w. patch_current_order_deleted v d st = Some w \<and> (w = JNull \<or> typed Order w)"
    and "typed CheckoutResponse d \<Longrightarrow>
      \<exists>w. patch_purchase_current_order v d st = Some w \<and> (w = JNull \<or> typed Order w)"
  using assms checkout_order [of d]
  by (auto simp: patch_current_order_saved_def patch_current_order_deleted_def
      patch_purchase_current_order_def same_key_total has_fields_readable
      has_fields_spread has_fields_partial order_with_payment)

lemma store_types_step:
  assumes "types_ok store_type st"
  shows "list_of (typed Product) (st ProductsAtom)" "list_of (typed StoreCategory) (st ProductCategoriesAtom)"
    "list_of (typed Order) (st OrdersAtom)"
    "st CurrentOrderAtom = JNull \<or> typed Order (st CurrentOrderAtom)"
    "list_of (typed CartItem) (st StoreCartItemsAtom)"
  using types_okD [OF assms, of ProductsAtom] types_okD [OF assms, of ProductCategoriesAtom]
    types_okD [OF assms, of OrdersAtom] types_okD [OF assms, of CurrentOrderAtom]
    types_okD [OF assms, of StoreCartItemsAtom]
  by (simp_all add: store_type_def)

lemma store_list_step:
  assumes "types_ok store_type st"
    and "(a, fs) \<in> {(ProductsAtom, Product), (ProductCategoriesAtom, StoreCategory), (OrdersAtom, Order)}"
    and "\<And>xs. list_all (typed fs) xs \<Longrightarrow> \<exists>ys. f xs d st = Some ys \<and> list_all (typed fs) ys"
  shows "\<exists>v. arr_patch f (st a) d st = Some v \<and> store_type a v"
proof -
  have "list_of (typed fs) (st a)" using assms(2) store_types_step [OF assms(1)] by auto
  from arr_patch_types [where f = f and d = d and st = st, OF this] assms(2,3) show ?thesis
    by (auto simp: store_type_def)
qed

lemmas store_list_steps =
  store_list_step [where a = ProductsAtom and fs = Product, simplified]
  store_list_step [where a = ProductCategoriesAtom and fs = StoreCategory, simplified]
  store_list_step [where a = OrdersAtom and fs = Order, simplified]

lemma store_order_step:
  assumes "types_ok store_type st"
    and "\<And>v. v = JNull \<or> typed Order v \<Longrightarrow> \<exists>w. p v d st = Some w \<and> (w = JNull \<or> typed Order w)"
  shows "\<exists>v. p (st CurrentOrderAtom) d st = Some v \<and> store_type CurrentOrderAtom v"
  using assms(2) [OF store_types_step(4) [OF assms(1)]] by (simp add: store_type_def)

lemma store_cart_step:
  assumes "types_ok store_type st"
  shows "\<exists>v. Some (JArr []) = Some v \<and> store_type StoreCartItemsAtom v"
    and "(case d of JArr xs \<Rightarrow> list_all (typed CartItem) xs | _ \<Rightarrow> True) \<Longrightarrow>
      \<exists>v. patch_cart_updated (st StoreCartItemsAtom) d st = Some v \<and> store_type StoreCartItemsAtom v"
  using store_types_step(5) [OF assms]
  by (auto simp: store_type_def patch_cart_updated_def split: jsval.splits)

lemma store_payload_simps:
  "store_payload ''store:update:category_created'' d \<longleftrightarrow> typed StoreCategory d"
  "store_payload ''store:update:category_updated'' d \<longleftrightarrow> partial_of store_interfaces StoreCategory d"
  "store_payload ''store:update:product_created'' d \<longleftrightarrow> typed Product d"
  "store_payload ''store:update:product_updated'' d \<longleftrightarrow> partial_of store_interfaces Product d"
  "store_payload ''store:update:purchase_success'' d \<longleftrightarrow> typed CheckoutResponse d"
  "store_payload ''order:update:order_created'' d \<longleftrightarrow> typed Order d"
  "store_payload ''order:update:order_updated'' d \<longleftrightarrow> typed Order d"
  "store_payload ''cart:update:cart_updated'' d \<longleftrightarrow>
     (case d of JArr xs \<Rightarrow> list_all (typed CartItem) xs | _ \<Rightarrow> True)"
  by (simp_all add: store_payload_def)

lemma deletion_types:
  assumes "list_all (has_fields env fs) xs"
  shows "\<exists>ys. patch_store_category_deleted xs d = Some ys \<and> list_all (has_fields env fs) ys"
    and "\<exists>ys. patch_product_deleted xs d = Some ys \<and> list_all (has_fields env fs) ys"
    and "\<exists>ys. patch_order_deleted xs d = Some ys \<and> list_all (has_fields env fs) ys"
  using remove_with_id_types [OF assms, of d] by (simp_all add: store_patch_defs)

lemmas store_list_types = catalogue_types order_types deletion_types

lemma store_handles: "handles (types_ok store_type) store_payload store_registrations"
  unfolding store_registrations_def
  by (rule types_handles, unfold list.pred_inject prod.case, intro conjI allI impI list.pred_inject(1))
     (simp_all only: store_payload_simps,
      ((rule store_cart_step; assumption)
       | (rule store_order_step; (assumption | rule current_order_types; assumption))
       | (rule store_list_steps, assumption, rule store_list_types;
          (assumption | simp add: has_fields_readable)))+)

section \<open>The cart\<close>

text \<open>What the cart amounts to: the price of each item's product, when the catalogue has it.\<close>

definition unit_price :: "jsval list \<Rightarrow> jsval \<Rightarrow> int" where
  "unit_price products pid =
     (case find (\<lambda>p. fld p ''id'' = pid) products of Some p \<Rightarrow> num_of (fld p ''price'') | None \<Rightarrow> 0)"

definition priced :: "jsval \<Rightarrow> bool" where
  "priced p = (typed Product p \<and> is_number (fld p ''price''))"

definition counted :: "jsval \<Rightarrow> bool" where
  "counted item = (typed CartItem item \<and> is_number (fld item ''quantity''))"

lemma typed_id: "typed Product p \<Longrightarrow> \<exists>s. fld p ''id'' = JStr s"
  using has_fieldsD [of store_interfaces Product p "''id''" False TString]
  by (auto simp: Product_def split: jsval.splits)

lemma typed_product_id: "typed CartItem i \<Longrightarrow> \<exists>s. fld i ''product_id'' = JStr s"
  using has_fieldsD [of store_interfaces CartItem i "''product_id''" False TString]
  by (auto simp: CartItem_def split: jsval.splits)

lemma cart_find:
  assumes "list_all priced products" "counted item"
  shows "js_find (\<lambda>p. do { i \<leftarrow> get p ''id''; j \<leftarrow> get item ''product_id''; Some (strict_eq i j) }) products =
    Some (find (\<lambda>p. fld p ''id'' = fld item ''product_id'') products)"
proof (rule js_find_total)
  fix p assume "p \<in> set products"
  with assms have "typed Product p" "typed CartItem item"
    by (auto simp: list_all_iff priced_def counted_def)
  with typed_id [of p] typed_product_id [of item]
  show "do { i \<leftarrow> get p ''id''; j \<leftarrow> get item ''product_id''; Some (strict_eq i j) } =
    Some (fld p ''id'' = fld item ''product_id'')"
    by (auto simp: has_fields_readable)
qed

lemma cart_step_num:
  assumes "list_all priced products" "counted item"
  shows "cart_step products (JNum n) item =
    Some (JNum (n + unit_price products (fld item ''product_id'') * num_of (fld item ''quantity'')))"
proof -
  let ?f = "find (\<lambda>p. fld p ''id'' = fld item ''product_id'') products"
  obtain k where k: "fld item ''quantity'' = JNum k" "\<not> nullish item"
    using assms(2) by (auto simp: counted_def has_fields_readable dest: is_numberD)
  have "js_coalesce (case ?f of Some p \<Rightarrow> fld p ''price'' | None \<Rightarrow> JUndef) (JNum 0) =
      JNum (unit_price products (fld item ''product_id''))"
  proof (cases ?f)
    case None
    then show ?thesis by (simp add: js_coalesce_def unit_price_def)
  next
    case (Some p)
    then have "p \<in> set products" by (auto simp: find_Some_iff)
    with assms(1) obtain m where "fld p ''price'' = JNum m"
      by (auto simp: list_all_iff priced_def dest: is_numberD)
    with Some show ?thesis by (simp add: js_coalesce_def unit_price_def num_of_def)
  qed
  with k show ?thesis
    unfolding cart_step_def cart_find [OF assms] by simp
qed

section \<open>Properties\<close>

text \<open>
  The store keeps its declared types: whatever catalogue, order, cart or purchase message
  arrives with the payload its patch declares, no patch throws and every atom of the store again
  holds a value of its declared type, down to the order items and payments nested in the orders.
\<close>

lemma store_message_keeps_types:
  assumes "types_ok store_type st" "store_payload ty d" "handlers_for store_registrations ty \<noteq> []"
  shows "snd (apply_ws_update (register_all store_registrations []) ty d st) = Handled
    \<and> types_ok store_type (fst (apply_ws_update (register_all store_registrations []) ty d st))"
  by (rule handles_run [OF store_handles assms])

text \<open>
  The order history is an upsert table: any sequence of saved and deleted orders, in any order
  and with any repetition, leaves each order at most once and exactly the orders that were saved
  and not deleted afterwards.
\<close>

lemma order_history_refines_set:
  assumes "feed_inv entity_ok key_of xs" "list_all (\<lambda>ev. entity_ok (table_payload ev)) evs"
  shows "\<exists>ys. table_run merge_order patch_order_deleted evs xs = Some ys
    \<and> feed_inv entity_ok key_of ys
    \<and> key_of ` set ys = fold (table_effect key_of) evs (key_of ` set xs)
    \<and> table_run merge_order patch_order_deleted (concat (map (\<lambda>ev. [ev, ev]) evs)) xs = Some ys"
  using order_set.table_run_ok [OF assms] order_set.table_run_redelivered [OF assms] by metis

text \<open>
  The cart's total is the sum over its items of the catalogue price of the item's product times
  its quantity, a product the catalogue does not have counting as free.
\<close>

lemma cart_total_is_sum:
  assumes "list_all priced products" "list_all counted items"
  shows "cart_total items products = Some (JNum (sum_list (map (\<lambda>i.
    unit_price products (fld i ''product_id'') * num_of (fld i ''quantity'')) items)))"
proof -
  have "js_reduce (cart_step products) (JNum n) items = Some (JNum (n + sum_list (map (\<lambda>i.
      unit_price products (fld i ''product_id'') * num_of (fld i ''quantity'')) items)))" for n
    using assms(2)
    by (induction items arbitrary: n) (simp_all add: cart_step_num [OF assms(1)] add.assoc)
  from this [of 0] show ?thesis by (simp add: cart_total_def)
qed

lemma cart_total_is_sum_witness:
  "cart_total
     [JObj [(''id'', JStr ''1''), (''user_id'', JStr ''9''), (''product_id'', JStr ''a''),
        (''quantity'', JNum 3), (''added_at'', JStr [])]]
     [JObj [(''id'', JStr ''a''), (''name'', JStr []), (''description'', JStr []),
        (''price'', JNum 250), (''stock'', JNum 1), (''stock_unlimited'', JBool True),
        (''category_id'', JStr []), (''is_active'', JBool True), (''created_at'', JStr []),
        (''updated_at'', JStr [])]] = Some (JNum 750)"
proof -
  let ?i = "JObj [(''id'', JStr ''1''), (''user_id'', JStr ''9''), (''product_id'', JStr ''a''),
    (''quantity'', JNum 3), (''added_at'', JStr [])]"
  let ?p = "JObj [(''id'', JStr ''a''), (''name'', JStr []), (''description'', JStr []),
    (''price'', JNum 250), (''stock'', JNum 1), (''stock_unlimited'', JBool True),
    (''category_id'', JStr []), (''is_active'', JBool True), (''created_at'', JStr []),
    (''updated_at'', JStr [])]"
  have "list_all priced [?p]"
    by (simp add: priced_def has_fields_def Product_def field_ok_def)
  moreover have "list_all counted [?i]"
    by (simp add: counted_def has_fields_def CartItem_def field_ok_def)
  moreover have "unit_price [?p] (JStr ''a'') = 250" by (simp add: unit_price_def)
  ultimately show ?thesis using cart_total_is_sum [of "[?p]" "[?i]"] by simp
qed

lemma order_history_refines_set_witness:
  "\<exists>ys. table_run merge_order patch_order_deleted
      [Inl (JObj [(''id'', JNum 1)]), Inl (JObj [(''id'', JStr ''1''), (''status'', JStr ''completed'')]),
       Inl (JObj [(''id'', JNum 2)]), Inr (JObj [(''id'', JNum 1)])] [] = Some ys
    \<and> key_of ` set ys = {''2''}"
proof -
  let ?evs = "[Inl (JObj [(''id'', JNum 1)]),
    Inl (JObj [(''id'', JStr ''1''), (''status'', JStr ''completed'')]),
    Inl (JObj [(''id'', JNum 2)]), Inr (JObj [(''id'', JNum 1)])] :: (jsval + jsval) list"
  have inv: "feed_inv entity_ok key_of []" by (simp add: feed_inv_def)
  have ok: "list_all (\<lambda>ev. entity_ok (table_payload ev)) ?evs" by (simp add: entity_ok_def)
  have "fold (table_effect key_of) ?evs (key_of ` set []) = {''2''}"
    by (auto simp: key_of_def)
  then show ?thesis using order_history_refines_set [OF inv ok] by (elim exE conjE) (intro exI conjI, assumption, simp only:)
qed

lemma store_message_keeps_types_witness:
  "snd (apply_ws_update (register_all store_registrations []) ''cart:update:cart_updated'' JNull
     ((\<lambda>a. JArr [])(CurrentOrderAtom := JNull))) = Handled"
proof -
  have "types_ok store_type ((\<lambda>a. JArr [])(CurrentOrderAtom := JNull))"
    by (simp add: types_ok_def store_type_def)
  moreover have "store_payload ''cart:update:cart_updated'' JNull" by (simp add: store_payload_simps)
  moreover have "handlers_for store_registrations ''cart:update:cart_updated'' \<noteq> []"
    by (simp add: store_registrations_def)
  ultimately show ?thesis using store_message_keeps_types by blast
qed

lemma handlers_purchase:
  "handlers_for store_registrations ''store:update:purchase_success'' =
     [\<lparr>h_atom = StoreCartItemsAtom, h_patch = \<lambda>p d st. Some (JArr [])\<rparr>,
      \<lparr>h_atom = OrdersAtom, h_patch = arr_patch (\<lambda>p d st. patch_purchase_orders p d)\<rparr>,
      \<lparr>h_atom = CurrentOrderAtom, h_patch = patch_purchase_current_order\<rparr>]"
  by (simp add: store_registrations_def)

lemma purchase_orders_hold:
  assumes "list_all (typed Order) xs" "typed CheckoutResponse d"
  shows "\<exists>ys. patch_purchase_orders xs d = Some ys \<and>
    (\<exists>x \<in> set ys. key_of x = key_of (fld d ''order'') \<and> fld x ''payment'' = fld d ''payment'')"
proof -
  let ?o = "obj_with (fld d ''order'') [(''payment'', fld d ''payment'')]"
  from checkout_order [OF assms(2)] obtain ps where ps: "fld d ''order'' = JObj ps"
    by (auto simp: has_fields_def is_obj_iff)
  have o: "key_of ?o = key_of (fld d ''order'')" "fld ?o ''payment'' = fld d ''payment''" "\<not> nullish ?o"
    by (simp_all add: key_of_def ps split: option.splits)
  have new: "patch_purchase_orders xs d = merge_order xs ?o"
    by (simp add: patch_purchase_orders_def ps)
  show ?thesis
  proof (cases "key_of ?o \<in> key_of ` set xs")
    case False
    with assms(1) o show ?thesis by (auto simp: new merge_order_def some_types)
  next
    case True
    then obtain x where x: "x \<in> set xs" "key_of x = key_of ?o" by auto
    then have m: "merge_by_key ?o x = obj_spread x ?o" by (simp add: merge_by_key_def)
    have "key_of (obj_spread x ?o) = key_of ?o" "fld (obj_spread x ?o) ''payment'' = fld d ''payment''"
      using typed_order_id [OF checkout_order(1) [OF assms(2)]]
      by (auto simp: key_of_def obj_spread_fld ps split: option.splits)
    with m x o True assms(1) show ?thesis
      by (auto simp: new merge_order_def some_types merge_map_typed intro!: bexI [of _ x])
  qed
qed

text \<open>
  A successful purchase empties the cart and files the order: afterwards the cart has no item
  and counts 0, the history holds the order with the payment of the response, and no other atom
  than the cart, the history and the order being viewed has changed.
\<close>

lemma purchase_success_settles:
  assumes "types_ok store_type st" "typed CheckoutResponse d"
    and "st' = fst (apply_ws_update (register_all store_registrations []) ''store:update:purchase_success'' d st)"
  shows "st' StoreCartItemsAtom = JArr []
    \<and> cart_item_count [] = Some (JNum 0)
    \<and> (\<exists>xs x. st' OrdersAtom = JArr xs \<and> x \<in> set xs \<and> key_of x = key_of (fld d ''order'')
         \<and> fld x ''payment'' = fld d ''payment'')
    \<and> (\<forall>a. a \<notin> {StoreCartItemsAtom, OrdersAtom, CurrentOrderAtom} \<longrightarrow> st' a = st a)"
proof -
  obtain xs where xs: "st OrdersAtom = JArr xs" "list_all (typed Order) xs"
    using store_types_step(3) [OF assms(1)] by (auto elim: list_ofE)
  from purchase_orders_hold [OF xs(2) assms(2)] obtain ys x where ys:
    "patch_purchase_orders xs d = Some ys" "x \<in> set ys" "key_of x = key_of (fld d ''order'')"
    "fld x ''payment'' = fld d ''payment''" by blast
  obtain w where w: "\<And>st'. patch_purchase_current_order (st CurrentOrderAtom) d st' = Some w"
    using current_order_types(3) [OF store_types_step(4) [OF assms(1)] assms(2)]
    by (auto simp: patch_purchase_current_order_def)
  show ?thesis using ys xs w
    by (auto simp: assms(3) apply_registered handlers_purchase cart_item_count_def)
qed

lemma purchase_success_settles_witness:
  "\<exists>xs x. fst (apply_ws_update (register_all store_registrations []) ''store:update:purchase_success''
     (JObj [(''order'', JObj [(''id'', JStr ''7''), (''is_guest'', JBool False),
        (''total_price'', JNum 100), (''status'', JStr ''completed''), (''created_at'', JStr []),
        (''updated_at'', JStr [])]),
      (''payment'', JObj [(''id'', JStr ''p''), (''order_id'', JStr ''7''), (''provider'', JStr []),
        (''amount'', JNum 100), (''currency'', JStr []), (''status'', JStr []),
        (''created_at'', JStr []), (''updated_at'', JStr [])]),
      (''status'', JStr ''succeeded'')])
     ((\<lambda>a. JArr [])(CurrentOrderAtom := JNull))) OrdersAtom = JArr xs
   \<and> x \<in> set xs \<and> key_of x = ''7''"
proof -
  let ?d = "JObj [(''order'', JObj [(''id'', JStr ''7''), (''is_guest'', JBool False),
        (''total_price'', JNum 100), (''status'', JStr ''completed''), (''created_at'', JStr []),
        (''updated_at'', JStr [])]),
      (''payment'', JObj [(''id'', JStr ''p''), (''order_id'', JStr ''7''), (''provider'', JStr []),
        (''amount'', JNum 100), (''currency'', JStr []), (''status'', JStr []),
        (''created_at'', JStr []), (''updated_at'', JStr [])]),
      (''status'', JStr ''succeeded'')]"
  have "types_ok store_type ((\<lambda>a. JArr [])(CurrentOrderAtom := JNull))"
    by (simp add: types_ok_def store_type_def)
  moreover have "typed CheckoutResponse ?d"
    by (simp add: has_fields_def CheckoutResponse_def field_ok_def conforms_ref store_interfaces_def
        Order_def Payment_def)
  moreover have "key_of (fld ?d ''order'') = ''7''" by (simp add: key_of_def)
  ultimately show ?thesis using purchase_success_settles [OF _ _ refl] by fastforce
qed

text \<open>
  The products shown are exactly the active ones of the selected category, in the catalogue's
  order, and all the active ones while no category is selected.
\<close>

lemma filtered_products_exact:
  assumes "list_all (typed Product) products"
  shows "filtered_products products (JStr c) = Some (filter (\<lambda>p.
    fld p ''is_active'' = JBool True \<and> (c = [] \<or> fld p ''category_id'' = JStr c)) products)"
proof -
  have p: "\<not> nullish p \<and> (\<exists>s. fld p ''category_id'' = JStr s) \<and> (\<exists>b. fld p ''is_active'' = JBool b)"
    if "p \<in> set products" for p
  proof -
    from that assms have t: "typed Product p" by (simp add: list_all_iff)
    with has_fieldsD [OF t, of "''category_id''" False TString]
      has_fieldsD [OF t, of "''is_active''" False TBoolean] show ?thesis
      by (auto simp: has_fields_readable Product_def split: jsval.splits)
  qed
  show ?thesis
    by (cases "c = []")
       (auto simp: filtered_products_def intro!: js_filter_total dest!: p)
qed

lemma filtered_products_exact_witness:
  "filtered_products
     [JObj [(''id'', JStr ''p''), (''name'', JStr []), (''description'', JStr []),
        (''price'', JNum 250), (''stock'', JNum 1), (''stock_unlimited'', JBool True),
        (''category_id'', JStr ''b''), (''is_active'', JBool True), (''created_at'', JStr []),
        (''updated_at'', JStr [])]] (JStr ''a'') = Some []"
proof -
  let ?p = "JObj [(''id'', JStr ''p''), (''name'', JStr []), (''description'', JStr []),
    (''price'', JNum 250), (''stock'', JNum 1), (''stock_unlimited'', JBool True),
    (''category_id'', JStr ''b''), (''is_active'', JBool True), (''created_at'', JStr []),
    (''updated_at'', JStr [])]"
  have "list_all (typed Product) [?p]"
    by (simp add: has_fields_def Product_def field_ok_def)
  then show ?thesis using filtered_products_exact [of "[?p]" "''a''"] by simp
qed

end
