(* ===== verification/InboxAtoms.thy ===== *)
theory InboxAtoms
  imports AuthAtoms
begin

text \<open>
  \<open>atoms/inbox.ts\<close>: conversations, the messages of the conversation being viewed, participants and
  the unread counters.
\<close>

section \<open>Interfaces\<close>

definition InboxMessage :: fields where
  "InboxMessage =
     [req ''id'' TString, req ''conversation_id'' TString, req ''sender_id'' TString,
      req ''sender_name'' TString, req ''sender_avatar'' TString, req ''content'' TString,
      req ''message_type'' TString, opt ''attachment_url'' TString, opt ''attachment_name'' TString,
      opt ''attachment_size'' TNumber, opt ''attachment_mime'' TString, req ''is_read'' TBoolean,
      req ''created_at'' TString, req ''updated_at'' TString]"

definition InboxParticipant :: fields where
  "InboxParticipant = User @ [req ''role'' TString, req ''is_muted'' TBoolean]"

definition InboxConversation :: fields where
  "InboxConversation =
     [req ''id'' TString, req ''is_group'' TBoolean, opt ''title'' TString,
      req ''created_at'' TString, req ''updated_at'' TString, req ''is_locked'' TBoolean,
      opt ''participants'' (TArray (TRef ''InboxParticipant'')), opt ''other_user'' (TRef ''User''),
      opt ''last_message'' (TRef ''InboxMessage''), opt ''unread_count'' TNumber,
      opt ''blocked_by_current_user'' TBoolean, opt ''blocked_by_other_user'' TBoolean]"

definition inbox_interfaces :: interfaces where
  "inbox_interfaces = map_of
     [(''User'', User), (''InboxMessage'', InboxMessage), (''InboxParticipant'', InboxParticipant),
      (''InboxConversation'', InboxConversation)]"

section \<open>Conversations\<close>

definition patch_conversation_created :: "jsval list \<Rightarrow> jsval \<Rightarrow> jsval list option" where
  "patch_conversation_created prev data = do {
     known \<leftarrow> js_some (\<lambda>c. same_id c data) prev;
     Some (if known then prev else data # prev) }"

definition patch_conversation_deleted :: "jsval list \<Rightarrow> jsval \<Rightarrow> jsval list option" where
  "patch_conversation_deleted prev data = remove_with_id prev data"

definition patch_active_conversation_deleted :: patch_fn where
  "patch_active_conversation_deleted prev data st =
     (if truthy prev \<and> truthy (fld data ''id'') \<and> js_string prev = key_of data
      then Some JNull else Some prev)"

text \<open>\<open>v?.m(f)\<close> for an array method \<open>m\<close>.\<close>

definition opt_array :: "(jsval list \<Rightarrow> jsval list option) \<Rightarrow> jsval \<Rightarrow> jsval option" where
  "opt_array f v =
     (if nullish v then Some JUndef
      else case v of JArr xs \<Rightarrow> map_option JArr (f xs) | _ \<Rightarrow> None)"

definition patch_participant_removed :: "jsval list \<Rightarrow> jsval \<Rightarrow> jsval list option" where
  "patch_participant_removed prev data =
     js_map (\<lambda>c. do {
       b \<leftarrow> same_key c ''id'' data ''conversation_id'';
       if b then do {
         ps \<leftarrow> opt_array (js_filter (\<lambda>p. do {
           same \<leftarrow> same_key p ''id'' data ''user_id''; Some (\<not> same) })) (fld c ''participants'');
         Some (obj_with c [(''participants'', ps)]) }
       else Some c }) prev"

definition patch_participant_added :: "jsval list \<Rightarrow> jsval \<Rightarrow> jsval list option" where
  "patch_participant_added prev data =
     js_map (\<lambda>c. do {
       b \<leftarrow> same_key c ''id'' data ''conversation_id'';
       if \<not> b then Some c
       else do {
         existing \<leftarrow> (if nullish (fld c ''participants'') then Some None
           else case fld c ''participants'' of
               JArr ps \<Rightarrow> js_find (\<lambda>p. same_id p (fld data ''participant'')) ps
             | _ \<Rightarrow> None);
         if (case existing of Some p \<Rightarrow> truthy p | None \<Rightarrow> False) then Some c
         else do {
           ps \<leftarrow> list_or_empty (fld c ''participants'');
           Some (obj_with c [(''participants'', JArr (ps @ [fld data ''participant'']))]) } } }) prev"

text \<open>\<open>c.participants?.map(p => String(p.id) === String(data.user_id) ? {...p, k: data.k} : p)\<close>.\<close>

definition set_participant_field :: "string \<Rightarrow> jsval list \<Rightarrow> jsval \<Rightarrow> jsval list option" where
  "set_participant_field k prev data =
     js_map (\<lambda>c. do {
       b \<leftarrow> same_key c ''id'' data ''conversation_id'';
       if b then do {
         ps \<leftarrow> opt_array (js_map (\<lambda>p. do {
           same \<leftarrow> same_key p ''id'' data ''user_id'';
           Some (if same then obj_with p [(k, fld data k)] else p) })) (fld c ''participants'');
         Some (obj_with c [(''participants'', ps)]) }
       else Some c }) prev"

definition patch_participant_muted :: "jsval list \<Rightarrow> jsval \<Rightarrow> jsval list option" where
  "patch_participant_muted = set_participant_field ''is_muted''"

definition patch_participant_role_changed :: "jsval list \<Rightarrow> jsval \<Rightarrow> jsval list option" where
  "patch_participant_role_changed = set_participant_field ''role''"

definition patch_conversation_locked :: "jsval list \<Rightarrow> jsval \<Rightarrow> jsval list option" where
  "patch_conversation_locked prev data =
     js_map (\<lambda>c. do {
       b \<leftarrow> same_key c ''id'' data ''conversation_id'';
       Some (if b then obj_with c [(''is_locked'', fld data ''is_locked'')] else c) }) prev"

section \<open>Messages\<close>

definition patch_message_created :: "jsval list \<Rightarrow> jsval \<Rightarrow> jsval list option" where
  "patch_message_created prev data = do {
     known \<leftarrow> js_some (\<lambda>m. same_id m data) prev;
     Some (if known then prev else prev @ [data]) }"

definition patch_conversation_message :: "jsval list \<Rightarrow> jsval \<Rightarrow> ws_store \<Rightarrow> jsval list option" where
  "patch_conversation_message prev data st = do {
     conv \<leftarrow> get data ''conversation_id'';
     let conv_str = js_string conv;
     let active = st ActiveConversationIdAtom;
     let current_user = st CurrentUserAtom;
     js_map (\<lambda>c. do {
       i \<leftarrow> get c ''id'';
       Some (if js_string i = conv_str then obj_with c
         [(''last_message'', data),
          (''unread_count'',
            if \<not> strict_eq (JStr conv_str) active \<and> js_string (fld data ''sender_id'') \<noteq> key_of current_user
            then js_plus (js_coalesce (fld c ''unread_count'') (JNum 0)) 1
            else if strict_eq (JStr conv_str) active then JNum 0
            else fld c ''unread_count'')]
         else c) }) prev }"

text \<open>\<open>String(data?.k ?? "")\<close>.\<close>

definition text_field :: "jsval \<Rightarrow> string \<Rightarrow> string" where
  "text_field data k = js_string (js_coalesce (fld data k) (JStr []))"

definition message_from_current_user :: "jsval \<Rightarrow> ws_store \<Rightarrow> bool" where
  "message_from_current_user data st = (text_field data ''sender_id'' = key_of (st CurrentUserAtom))"

definition message_in_active :: "jsval \<Rightarrow> ws_store \<Rightarrow> bool" where
  "message_in_active data st =
     (text_field data ''conversation_id'' \<noteq> [] \<and>
      text_field data ''conversation_id'' = js_string (st ActiveConversationIdAtom))"

definition patch_inbox_unread :: patch_fn where
  "patch_inbox_unread prev data st =
     (if \<not> message_in_active data st \<and> \<not> message_from_current_user data st
      then Some (js_plus prev 1) else Some prev)"

definition patch_inbox_message :: "jsval list \<Rightarrow> jsval \<Rightarrow> ws_store \<Rightarrow> jsval list option" where
  "patch_inbox_message prev data st =
     (let conv_id = text_field data ''conversation_id'' in
      if conv_id = [] then Some prev
      else js_map (\<lambda>c. do {
        i \<leftarrow> get c ''id'';
        Some (if js_string i = conv_id then obj_with c
          [(''last_message'', data),
           (''unread_count'',
             if message_in_active data st \<or> message_from_current_user data st
             then (if message_in_active data st then JNum 0 else fld c ''unread_count'')
             else js_plus (js_coalesce (fld c ''unread_count'') (JNum 0)) 1)]
          else c) }) prev)"

definition inbox_registrations :: "registration list" where
  "inbox_registrations =
     [(''inbox:update:conversation_created'', InboxConversationsAtom,
         arr_patch (\<lambda>p d st. patch_conversation_created p d)),
      (''inbox:update:conversation_deleted'', InboxConversationsAtom,
         arr_patch (\<lambda>p d st. patch_conversation_deleted p d)),
      (''inbox:update:conversation_deleted'', ActiveConversationIdAtom, patch_active_conversation_deleted),
      (''inbox:update:participant_removed'', InboxConversationsAtom,
         arr_patch (\<lambda>p d st. patch_participant_removed p d)),
      (''inbox:update:participant_added'', InboxConversationsAtom,
         arr_patch (\<lambda>p d st. patch_participant_added p d)),
      (''inbox:update:participant_muted'', InboxConversationsAtom,
         arr_patch (\<lambda>p d st. patch_participant_muted p d)),
      (''inbox:update:participant_role_changed'', InboxConversationsAtom,
         arr_patch (\<lambda>p d st. patch_participant_role_changed p d)),
      (''inbox:update:conversation_locked'', InboxConversationsAtom,
         arr_patch (\<lambda>p d st. patch_conversation_locked p d)),
      (''inbox:update:message_created'', InboxMessagesAtom,
         arr_patch (\<lambda>p d st. patch_message_created p d)),
      (''inbox:update:message_created'', InboxConversationsAtom, arr_patch patch_conversation_message),
      (''inbox:message'', InboxUnreadCountAtom, patch_inbox_unread),
      (''inbox:message'', InboxConversationsAtom, arr_patch patch_inbox_message)]"

section \<open>The collections\<close>

interpretation message_insert: keyed_insert entity_ok key_of patch_message_created
  by (rule standard_insert) (simp_all add: patch_message_created_def some_same_id)

interpretation conversation_insert: keyed_insert entity_ok key_of patch_conversation_created
  by (rule standard_insert) (simp_all add: patch_conversation_created_def some_same_id)

interpretation conversation_set: keyed_set entity_ok key_of patch_conversation_created
    patch_conversation_deleted
  by (unfold_locales) (simp add: patch_conversation_deleted_def remove_with_id_eq)

section \<open>Well-formed inbox state\<close>

definition conversation_ok :: "jsval \<Rightarrow> bool" where
  "conversation_ok c = (entity_ok c \<and>
     (nullish (fld c ''participants'') \<or> keyed_list entity_ok (fld c ''participants'')))"

definition inbox_type :: "atom \<Rightarrow> jsval \<Rightarrow> bool" where
  "inbox_type a v =
     (if a = InboxConversationsAtom then keyed_list conversation_ok v
      else if a = InboxMessagesAtom then keyed_list entity_ok v
      else if a = InboxUnreadCountAtom then numeric v
      else True)"

definition inbox_payload :: "string \<Rightarrow> jsval \<Rightarrow> bool" where
  "inbox_payload ty d =
     (if ty = ''inbox:update:conversation_created'' then conversation_ok d
      else if ty \<in> {''inbox:update:conversation_deleted'', ''inbox:message''} then True
      else if ty = ''inbox:update:participant_added'' then \<not> nullish d \<and> entity_ok (fld d ''participant'')
      else if ty = ''inbox:update:message_created'' then entity_ok d
      else \<not> nullish d)"

lemma conversation_entity: "conversation_ok c \<Longrightarrow> entity_ok c"
  by (simp add: conversation_ok_def)

lemma conversation_with:
  assumes "conversation_ok c" "wf_props kvs" "''id'' \<notin> set (map fst kvs)"
    and "\<And>v. map_of kvs ''participants'' = Some v \<Longrightarrow> nullish v \<or> keyed_list entity_ok v"
  shows "conversation_ok (obj_with c kvs) \<and> key_of (obj_with c kvs) = key_of c"
  using assms entity_with [of c kvs] entity_ok_obj [of c]
  by (auto simp: conversation_ok_def split: option.splits)

lemma edit_participants:
  assumes "nullish v \<or> keyed_list entity_ok v"
    and "\<And>ps. feed_inv entity_ok key_of ps \<Longrightarrow> \<exists>qs. f ps = Some qs \<and> feed_inv entity_ok key_of qs"
  shows "\<exists>w. opt_array f v = Some w \<and> (nullish w \<or> keyed_list entity_ok w)"
proof (cases "nullish v")
  case False
  with assms(1) obtain ps where "v = JArr ps" "feed_inv entity_ok key_of ps" by (auto elim: keyed_listE)
  with assms(2) [of ps] show ?thesis by (auto simp: opt_array_def)
qed (simp add: opt_array_def)

lemma filter_participants:
  assumes "feed_inv entity_ok key_of ps" "\<not> nullish d"
  shows "\<exists>qs. js_filter (\<lambda>p. do { same \<leftarrow> same_key p ''id'' d k; Some (\<not> same) }) ps = Some qs
    \<and> feed_inv entity_ok key_of qs"
proof -
  have "js_filter (\<lambda>p. do { same \<leftarrow> same_key p ''id'' d k; Some (\<not> same) }) ps =
      Some (filter (\<lambda>p. key_of p \<noteq> js_string (fld d k)) ps)"
    using assms by (intro js_filter_total)
      (auto simp: feed_inv_def list_all_iff same_key_total entity_readable key_of_def)
  then show ?thesis using assms(1) by (simp add: feed_inv_filter)
qed

lemma map_participants:
  assumes "feed_inv entity_ok key_of ps" "\<not> nullish d" "k \<noteq> ''id''"
  shows "\<exists>qs. js_map (\<lambda>p. do { same \<leftarrow> same_key p ''id'' d ''user_id'';
      Some (if same then obj_with p [(k, fld d k)] else p) }) ps = Some qs \<and> feed_inv entity_ok key_of qs"
proof (rule feed_inv_mapI [OF assms(1)])
  fix p assume "entity_ok p"
  then show "\<exists>y. do { same \<leftarrow> same_key p ''id'' d ''user_id'';
      Some (if same then obj_with p [(k, fld d k)] else p) } = Some y \<and> entity_ok y \<and> key_of y = key_of p"
    using assms(2,3) entity_with [of p "[(k, fld d k)]"] by (simp add: same_key_total entity_readable)
qed

lemma conversation_edit:
  assumes "feed_inv conversation_ok key_of xs" "\<not> nullish d"
    and "\<And>c. conversation_ok c \<Longrightarrow> \<exists>y. g c = Some y \<and> conversation_ok y \<and> key_of y = key_of c"
  shows "\<exists>ys. js_map (\<lambda>c. do { b \<leftarrow> same_key c ''id'' d k; if b then g c else Some c }) xs = Some ys
    \<and> feed_inv conversation_ok key_of ys"
proof (rule feed_inv_mapI [OF assms(1)])
  fix c assume c: "conversation_ok c"
  then show "\<exists>y. do { b \<leftarrow> same_key c ''id'' d k; if b then g c else Some c } = Some y
      \<and> conversation_ok y \<and> key_of y = key_of c"
    using assms(2) assms(3) [OF c] by (simp add: same_key_total entity_readable conversation_entity)
qed

lemma participants_value: "conversation_ok c \<Longrightarrow>
  nullish (fld c ''participants'') \<or> keyed_list entity_ok (fld c ''participants'')"
  by (simp add: conversation_ok_def)

lemma with_participants:
  assumes "conversation_ok c"
    and "\<And>ps. feed_inv entity_ok key_of ps \<Longrightarrow> \<exists>qs. f ps = Some qs \<and> feed_inv entity_ok key_of qs"
  shows "\<exists>y. do { ps \<leftarrow> opt_array f (fld c ''participants'');
      Some (obj_with c [(''participants'', ps)]) } = Some y \<and> conversation_ok y \<and> key_of y = key_of c"
proof -
  have "\<exists>w. opt_array f (fld c ''participants'') = Some w \<and> (nullish w \<or> keyed_list entity_ok w)"
    by (rule edit_participants [OF participants_value [OF assms(1)]]) (rule assms(2))
  then obtain w where "opt_array f (fld c ''participants'') = Some w" "nullish w \<or> keyed_list entity_ok w"
    by blast
  then show ?thesis using conversation_with [OF assms(1), of "[(''participants'', w)]"] by simp
qed

lemma participant_patches_ok:
  assumes "feed_inv conversation_ok key_of xs" "\<not> nullish d"
  shows "\<exists>ys. patch_participant_removed xs d = Some ys \<and> feed_inv conversation_ok key_of ys"
    and "\<exists>ys. patch_participant_muted xs d = Some ys \<and> feed_inv conversation_ok key_of ys"
    and "\<exists>ys. patch_participant_role_changed xs d = Some ys \<and> feed_inv conversation_ok key_of ys"
    and "\<exists>ys. patch_conversation_locked xs d = Some ys \<and> feed_inv conversation_ok key_of ys"
proof -
  have set: "\<exists>ys. set_participant_field k xs d = Some ys \<and> feed_inv conversation_ok key_of ys"
    if "k \<noteq> ''id''" for k
    unfolding set_participant_field_def
    by (rule conversation_edit [OF assms], rule with_participants, assumption,
        rule map_participants [OF _ assms(2) that])
  show "\<exists>ys. patch_participant_muted xs d = Some ys \<and> feed_inv conversation_ok key_of ys"
    "\<exists>ys. patch_participant_role_changed xs d = Some ys \<and> feed_inv conversation_ok key_of ys"
    unfolding patch_participant_muted_def patch_participant_role_changed_def by (rule set; simp)+
  show "\<exists>ys. patch_participant_removed xs d = Some ys \<and> feed_inv conversation_ok key_of ys"
    unfolding patch_participant_removed_def
    by (rule conversation_edit [OF assms], rule with_participants, assumption,
        rule filter_participants [OF _ assms(2)])
  have eq: "patch_conversation_locked xs d = js_map (\<lambda>c. do { b \<leftarrow> same_key c ''id'' d ''conversation_id'';
        if b then Some (obj_with c [(''is_locked'', fld d ''is_locked'')]) else Some c }) xs"
    by (simp add: patch_conversation_locked_def if_distrib cong: if_cong)
  show "\<exists>ys. patch_conversation_locked xs d = Some ys \<and> feed_inv conversation_ok key_of ys"
    unfolding eq
  proof (rule conversation_edit [OF assms])
    fix c assume "conversation_ok c"
    from conversation_with [OF this, of "[(''is_locked'', fld d ''is_locked'')]"]
    show "\<exists>y. Some (obj_with c [(''is_locked'', fld d ''is_locked'')]) = Some y
      \<and> conversation_ok y \<and> key_of y = key_of c" by simp
  qed
qed

lemma participant_added_ok:
  assumes "feed_inv conversation_ok key_of xs" "\<not> nullish d" "entity_ok (fld d ''participant'')"
  shows "\<exists>ys. patch_participant_added xs d = Some ys \<and> feed_inv conversation_ok key_of ys"
  unfolding patch_participant_added_def
proof (rule feed_inv_mapI [OF assms(1)])
  fix c assume c: "conversation_ok c"
  let ?q = "fld d ''participant''"
  show "\<exists>y. do { b \<leftarrow> same_key c ''id'' d ''conversation_id'';
     if \<not> b then Some c
     else do {
       existing \<leftarrow> (if nullish (fld c ''participants'') then Some None
         else case fld c ''participants'' of JArr ps \<Rightarrow> js_find (\<lambda>p. same_id p ?q) ps | _ \<Rightarrow> None);
       if (case existing of Some p \<Rightarrow> truthy p | None \<Rightarrow> False) then Some c
       else do { ps \<leftarrow> list_or_empty (fld c ''participants'');
         Some (obj_with c [(''participants'', JArr (ps @ [?q]))]) } } } = Some y
     \<and> conversation_ok y \<and> key_of y = key_of c"
  proof (cases "nullish (fld c ''participants'')")
    case True
    then have "list_or_empty (fld c ''participants'') = Some []"
      by (auto simp: nullish_def list_or_empty_def)
    with True c assms(2,3) conversation_with [OF c, of "[(''participants'', JArr [?q])]"] show ?thesis
      by (simp add: same_key_total entity_readable conversation_entity feed_inv_def)
  next
    case False
    with participants_value [OF c] obtain ps where ps: "fld c ''participants'' = JArr ps"
      "feed_inv entity_ok key_of ps" by (auto elim: keyed_listE)
    have find: "js_find (\<lambda>p. same_id p ?q) ps = Some (find (\<lambda>p. key_of p = key_of ?q) ps)"
      using ps(2) assms(3)
      by (intro js_find_total) (auto simp: feed_inv_def list_all_iff same_id_entities)
    show ?thesis
    proof (cases "find (\<lambda>p. key_of p = key_of ?q) ps")
      case None
      then have "feed_inv entity_ok key_of (ps @ [?q])"
        using ps(2) assms(3) by (auto simp: feed_inv_def find_None_iff)
      with None find ps c assms(2) conversation_with [OF c, of "[(''participants'', JArr (ps @ [?q]))]"]
      show ?thesis by (simp add: same_key_total entity_readable conversation_entity list_or_empty_def)
    next
      case (Some p)
      then have "truthy p" using ps(2) by (auto simp: find_Some_iff feed_inv_def list_all_iff entity_truthy)
      with Some find ps c assms(2) show ?thesis
        by (simp add: same_key_total entity_readable conversation_entity)
    qed
  qed
qed

lemma message_patches_ok:
  assumes "feed_inv conversation_ok key_of xs"
  shows "\<not> nullish d \<Longrightarrow> \<exists>ys. patch_conversation_message xs d st = Some ys \<and> feed_inv conversation_ok key_of ys"
    and "\<exists>ys. patch_inbox_message xs d st = Some ys \<and> feed_inv conversation_ok key_of ys"
proof -
  have step: "\<exists>y. do { i \<leftarrow> get c ''id'';
      Some (if js_string i = k then obj_with c [(''last_message'', m), (''unread_count'', n c)] else c) } =
      Some y \<and> conversation_ok y \<and> key_of y = key_of c" if "conversation_ok c" for c m k n
    using that conversation_with [OF that, of "[(''last_message'', m), (''unread_count'', n c)]"]
    by (simp add: entity_readable conversation_entity)
  show "\<exists>ys. patch_conversation_message xs d st = Some ys \<and> feed_inv conversation_ok key_of ys"
    if "\<not> nullish d"
    unfolding patch_conversation_message_def Let_def get_total [OF that] bind.bind_lunit
    by (rule feed_inv_mapI [OF assms], erule step)
  show "\<exists>ys. patch_inbox_message xs d st = Some ys \<and> feed_inv conversation_ok key_of ys"
  proof (cases "text_field d ''conversation_id'' = []")
    case True
    with assms show ?thesis by (simp add: patch_inbox_message_def)
  next
    case False
    show ?thesis unfolding patch_inbox_message_def Let_def if_not_P [OF False]
      by (rule feed_inv_mapI [OF assms], erule step)
  qed
qed

lemma collection_patches_ok:
  shows "feed_inv conversation_ok key_of xs \<Longrightarrow> conversation_ok d \<Longrightarrow>
      \<exists>ys. patch_conversation_created xs d = Some ys \<and> feed_inv conversation_ok key_of ys"
    and "feed_inv conversation_ok key_of xs \<Longrightarrow>
      \<exists>ys. patch_conversation_deleted xs d = Some ys \<and> feed_inv conversation_ok key_of ys"
    and "feed_inv entity_ok key_of ms \<Longrightarrow> entity_ok d \<Longrightarrow>
      \<exists>ys. patch_message_created ms d = Some ys \<and> feed_inv entity_ok key_of ys"
proof -
  have entities: "list_all entity_ok xs" if "feed_inv conversation_ok key_of xs" for xs
    using that by (simp add: feed_inv_def list_all_iff conversation_entity)
  show "\<exists>ys. patch_conversation_created xs d = Some ys \<and> feed_inv conversation_ok key_of ys"
    if "feed_inv conversation_ok key_of xs" "conversation_ok d"
    using that entities [OF that(1)]
    by (auto simp: patch_conversation_created_def some_same_id conversation_entity feed_inv_def)
  show "\<exists>ys. patch_conversation_deleted xs d = Some ys \<and> feed_inv conversation_ok key_of ys"
    if "feed_inv conversation_ok key_of xs"
    using that filter_by_key [OF entities [OF that], of "key_of d"]
    by (auto simp: patch_conversation_deleted_def remove_with_id_def key_of_def [symmetric] feed_inv_filter)
  show "\<exists>ys. patch_message_created ms d = Some ys \<and> feed_inv entity_ok key_of ys"
    if "feed_inv entity_ok key_of ms" "entity_ok d"
    using that by (auto simp: patch_message_created_def some_same_id feed_inv_def)
qed

lemma inbox_list_step:
  assumes "types_ok inbox_type st"
    and "(a, P) \<in> {(InboxConversationsAtom, conversation_ok), (InboxMessagesAtom, entity_ok)}"
    and "\<And>xs. feed_inv P key_of xs \<Longrightarrow> \<exists>ys. f xs d st = Some ys \<and> feed_inv P key_of ys"
  shows "\<exists>v. arr_patch f (st a) d st = Some v \<and> inbox_type a v"
proof -
  have "keyed_list P (st a)" using assms(2) types_okD [OF assms(1), of a] by (auto simp: inbox_type_def)
  from arr_patch_keyed [where f = f and d = d and st = st, OF this] assms(2,3) show ?thesis
    by (auto simp: inbox_type_def)
qed

lemmas inbox_list_steps =
  inbox_list_step [where a = InboxConversationsAtom and P = conversation_ok, simplified]
  inbox_list_step [where a = InboxMessagesAtom and P = entity_ok, simplified]

lemma inbox_value_steps:
  assumes "types_ok inbox_type st"
  shows "\<exists>v. patch_active_conversation_deleted (st ActiveConversationIdAtom) d st = Some v
      \<and> inbox_type ActiveConversationIdAtom v"
    and "\<exists>v. patch_inbox_unread (st InboxUnreadCountAtom) d st = Some v \<and> inbox_type InboxUnreadCountAtom v"
  using types_okD [OF assms, of InboxUnreadCountAtom]
  by (auto simp: inbox_type_def patch_active_conversation_deleted_def patch_inbox_unread_def)

lemma inbox_payload_simps:
  "inbox_payload ''inbox:update:conversation_created'' d \<longleftrightarrow> conversation_ok d"
  "inbox_payload ''inbox:update:conversation_deleted'' d \<longleftrightarrow> True"
  "inbox_payload ''inbox:update:participant_removed'' d \<longleftrightarrow> \<not> nullish d"
  "inbox_payload ''inbox:update:participant_added'' d \<longleftrightarrow> \<not> nullish d \<and> entity_ok (fld d ''participant'')"
  "inbox_payload ''inbox:update:participant_muted'' d \<longleftrightarrow> \<not> nullish d"
  "inbox_payload ''inbox:update:participant_role_changed'' d \<longleftrightarrow> \<not> nullish d"
  "inbox_payload ''inbox:update:conversation_locked'' d \<longleftrightarrow> \<not> nullish d"
  "inbox_payload ''inbox:update:message_created'' d \<longleftrightarrow> entity_ok d"
  "inbox_payload ''inbox:message'' d \<longleftrightarrow> True"
  by (simp_all add: inbox_payload_def)

lemmas inbox_patches_ok = collection_patches_ok participant_patches_ok participant_added_ok message_patches_ok

lemma inbox_handles: "handles (types_ok inbox_type) inbox_payload inbox_registrations"
  unfolding inbox_registrations_def
  by (rule types_handles, unfold list.pred_inject prod.case, intro conjI allI impI list.pred_inject(1))
     (simp_all only: inbox_payload_simps,
      ((rule inbox_value_steps; assumption)
       | (rule inbox_list_steps, assumption, rule inbox_patches_ok;
          (assumption | simp add: entity_readable)))+)

section \<open>Counting unread messages\<close>

lemma handlers_inbox_message:
  "handlers_for inbox_registrations ''inbox:message'' =
     [\<lparr>h_atom = InboxUnreadCountAtom, h_patch = patch_inbox_unread\<rparr>,
      \<lparr>h_atom = InboxConversationsAtom, h_patch = arr_patch patch_inbox_message\<rparr>]"
  by (simp add: inbox_registrations_def)

lemma handlers_message_created:
  "handlers_for inbox_registrations ''inbox:update:message_created'' =
     [\<lparr>h_atom = InboxMessagesAtom, h_patch = arr_patch (\<lambda>p d st. patch_message_created p d)\<rparr>,
      \<lparr>h_atom = InboxConversationsAtom, h_patch = arr_patch patch_conversation_message\<rparr>]"
  by (simp add: inbox_registrations_def)

text \<open>The unread counter of a conversation after one of its messages.\<close>

definition unread_after :: "bool \<Rightarrow> bool \<Rightarrow> jsval \<Rightarrow> jsval" where
  "unread_after active own n =
     (if active then JNum 0 else if own then n else js_plus (js_coalesce n (JNum 0)) 1)"

definition message_merged :: "string \<Rightarrow> jsval \<Rightarrow> bool \<Rightarrow> bool \<Rightarrow> jsval \<Rightarrow> jsval" where
  "message_merged k d active own c =
     (if key_of c = k then obj_with c
        [(''last_message'', d), (''unread_count'', unread_after active own (fld c ''unread_count''))]
      else c)"

lemma patch_inbox_message_eq:
  assumes "list_all entity_ok xs" "text_field d ''conversation_id'' \<noteq> []"
  shows "patch_inbox_message xs d st = Some (map (message_merged (text_field d ''conversation_id'') d
    (message_in_active d st) (message_from_current_user d st)) xs)"
  unfolding patch_inbox_message_def Let_def if_not_P [OF assms(2)]
  using assms(1) by (intro js_map_total)
    (auto simp: list_all_iff entity_readable message_merged_def unread_after_def key_of_def)

lemma patch_conversation_message_eq:
  assumes "list_all entity_ok xs" "\<not> nullish d"
  shows "patch_conversation_message xs d st =
    Some (map (message_merged (js_string (fld d ''conversation_id'')) d
      (strict_eq (JStr (js_string (fld d ''conversation_id''))) (st ActiveConversationIdAtom))
      (js_string (fld d ''sender_id'') = key_of (st CurrentUserAtom))) xs)"
  unfolding patch_conversation_message_def Let_def get_total [OF assms(2)] bind.bind_lunit
  using assms(1) by (intro js_map_total)
    (auto simp: list_all_iff entity_readable message_merged_def unread_after_def key_of_def)

lemma inbox_conversations:
  assumes "types_ok inbox_type st"
  obtains xs where "st InboxConversationsAtom = JArr xs" "list_all entity_ok xs"
proof -
  from types_okD [OF assms, of InboxConversationsAtom]
  obtain xs where "st InboxConversationsAtom = JArr xs" "feed_inv conversation_ok key_of xs"
    by (auto simp: inbox_type_def elim: keyed_listE)
  then show ?thesis using that by (simp add: feed_inv_def list_all_iff conversation_entity)
qed

section \<open>Properties\<close>

text \<open>
  Every inbox message with the payload the server sends is handled without throwing, and leaves
  the inbox well formed: no conversation, no message and no participant of a conversation is there
  twice, and the total of unread messages stays a number.
\<close>

lemma inbox_message_handled:
  assumes "types_ok inbox_type st" "inbox_payload ty d" "handlers_for inbox_registrations ty \<noteq> []"
  shows "snd (apply_ws_update (register_all inbox_registrations []) ty d st) = Handled
    \<and> types_ok inbox_type (fst (apply_ws_update (register_all inbox_registrations []) ty d st))"
  by (rule handles_run [OF inbox_handles assms])

lemma inbox_message_handled_witness:
  "snd (apply_ws_update (register_all inbox_registrations []) ''inbox:update:participant_added''
     (JObj [(''conversation_id'', JNum 1), (''participant'', JObj [(''id'', JNum 2)])])
     (\<lambda>a. if a = InboxUnreadCountAtom then JNum 0 else if a = InboxConversationsAtom
        then JArr [JObj [(''id'', JNum 1)]] else JArr [])) = Handled"
proof -
  have "types_ok inbox_type (\<lambda>a. if a = InboxUnreadCountAtom then JNum 0 else if a = InboxConversationsAtom
      then JArr [JObj [(''id'', JNum 1)]] else JArr [])"
    by (simp add: types_ok_def inbox_type_def feed_inv_def conversation_ok_def entity_ok_def)
  moreover have "inbox_payload ''inbox:update:participant_added''
      (JObj [(''conversation_id'', JNum 1), (''participant'', JObj [(''id'', JNum 2)])])"
    by (simp add: inbox_payload_simps entity_ok_def)
  moreover have "handlers_for inbox_registrations ''inbox:update:participant_added'' \<noteq> []"
    by (simp add: inbox_registrations_def)
  ultimately show ?thesis using inbox_message_handled by blast
qed

text \<open>
  A direct message counts exactly once: \<open>inbox:message\<close> raises the total, and the counter of
  the message's conversation, by one unless the conversation is being viewed (its counter becomes
  0) or the message is the user's own (both stay); every other conversation is untouched.
\<close>

lemma inbox_message_counts:
  assumes "types_ok inbox_type st" "text_field d ''conversation_id'' \<noteq> []"
    and "st' = fst (apply_ws_update (register_all inbox_registrations []) ''inbox:message'' d st)"
  shows "\<exists>xs. st InboxConversationsAtom = JArr xs
    \<and> st' InboxConversationsAtom = JArr (map (message_merged (text_field d ''conversation_id'') d
        (message_in_active d st) (message_from_current_user d st)) xs)
    \<and> st' InboxUnreadCountAtom =
        (if message_in_active d st \<or> message_from_current_user d st then st InboxUnreadCountAtom
         else js_plus (st InboxUnreadCountAtom) 1)
    \<and> st' InboxMessagesAtom = st InboxMessagesAtom"
proof -
  obtain xs where xs: "st InboxConversationsAtom = JArr xs" "list_all entity_ok xs"
    using inbox_conversations [OF assms(1)] by blast
  have "message_in_active d (st(InboxUnreadCountAtom := v)) = message_in_active d st"
    "message_from_current_user d (st(InboxUnreadCountAtom := v)) = message_from_current_user d st" for v
    by (simp_all add: message_in_active_def message_from_current_user_def)
  with xs show ?thesis
    by (simp add: assms(3) apply_registered handlers_inbox_message patch_inbox_unread_def
        patch_inbox_message_eq [OF _ assms(2)])
qed

text \<open>
  While a conversation that is not being viewed is subscribed to, the two messages the server
  sends for one new message of another user (\<open>inbox:update:message_created\<close> to the subscribers and
  \<open>inbox:message\<close> to the participants) raise the conversation's counter by two and the total by
  one.
\<close>

lemma subscribed_message_counts_twice:
  assumes "types_ok inbox_type st" "entity_ok d"
    and "fld d ''conversation_id'' = JStr k" "k \<noteq> []" "st ActiveConversationIdAtom = JNull" "k \<noteq> ''null''"
    and "fld d ''sender_id'' = JStr s" "s \<noteq> key_of (st CurrentUserAtom)"
    and "st InboxConversationsAtom = JArr [c]" "key_of c = k" "fld c ''unread_count'' = JNum n"
    and "st InboxUnreadCountAtom = JNum m"
    and "st1 = fst (apply_ws_update (register_all inbox_registrations []) ''inbox:update:message_created'' d st)"
    and "st2 = fst (apply_ws_update (register_all inbox_registrations []) ''inbox:message'' d st1)"
  shows "\<exists>c'. st2 InboxConversationsAtom = JArr [c'] \<and> key_of c' = k \<and> fld c' ''unread_count'' = JNum (n + 2)
    \<and> st2 InboxUnreadCountAtom = JNum (m + 1)"
proof -
  from types_okD [OF assms(1), of InboxMessagesAtom] obtain ms where
    ms: "st InboxMessagesAtom = JArr ms" "feed_inv entity_ok key_of ms"
    by (auto simp: inbox_type_def elim: keyed_listE)
  from collection_patches_ok(3) [OF ms(2) assms(2)] obtain ms' where
    ms': "patch_message_created ms d = Some ms'" by blast
  have c: "entity_ok c" using types_okD [OF assms(1), of InboxConversationsAtom] assms(9)
    by (simp add: inbox_type_def feed_inv_def conversation_entity)
  let ?c1 = "obj_with c [(''last_message'', d), (''unread_count'', JNum (n + 1))]"
  have c1: "entity_ok ?c1" "key_of ?c1 = k" "fld ?c1 ''unread_count'' = JNum (n + 1)"
    using entity_with [OF c, of "[(''last_message'', d), (''unread_count'', JNum (n + 1))]"] assms(10)
    by simp_all
  have st1: "st1 = st(InboxMessagesAtom := JArr ms', InboxConversationsAtom := JArr [?c1])"
    using assms(2-12) ms ms' c
    by (simp add: assms(13) apply_registered handlers_message_created patch_conversation_message_eq
        entity_readable message_merged_def unread_after_def js_coalesce_def)
  let ?c2 = "obj_with ?c1 [(''last_message'', d), (''unread_count'', JNum (2 + n))]"
  have tf: "text_field d ''conversation_id'' = k" "text_field d ''sender_id'' = s"
    using assms(3,7) by (simp_all add: text_field_def js_coalesce_def)
  have "st2 = st1(InboxUnreadCountAtom := JNum (m + 1), InboxConversationsAtom := JArr [?c2])"
    using assms(2-12) tf c1
    by (simp add: assms(14) st1 apply_registered handlers_inbox_message patch_inbox_unread_def
        message_in_active_def message_from_current_user_def patch_inbox_message_eq message_merged_def
        unread_after_def js_coalesce_def del: fld_obj_with)
  then show ?thesis
    using entity_with [OF c1(1), of "[(''last_message'', d), (''unread_count'', JNum (2 + n))]"] c1(2)
    by (simp add: add.commute)
qed

text \<open>
  Closing a deleted conversation: after \<open>conversation_deleted\<close> no conversation with its id is
  left, all the others are, and if it was the one being viewed then none is viewed any more.
\<close>

lemma conversation_deleted_closed:
  assumes "types_ok inbox_type st" "entity_ok d"
    and "st' = fst (apply_ws_update (register_all inbox_registrations []) ''inbox:update:conversation_deleted'' d st)"
  shows "\<exists>xs. st InboxConversationsAtom = JArr xs
    \<and> st' InboxConversationsAtom = JArr (filter (\<lambda>c. key_of c \<noteq> key_of d) xs)
    \<and> (truthy (st' ActiveConversationIdAtom) \<longrightarrow> js_string (st' ActiveConversationIdAtom) \<noteq> key_of d)
    \<and> (js_string (st ActiveConversationIdAtom) \<noteq> key_of d \<longrightarrow>
        st' ActiveConversationIdAtom = st ActiveConversationIdAtom)"
proof -
  obtain xs where xs: "st InboxConversationsAtom = JArr xs" "list_all entity_ok xs"
    using inbox_conversations [OF assms(1)] by blast
  have "truthy (fld d ''id'')" using entity_ok_obj [OF assms(2)] by auto
  with xs assms(2) show ?thesis
    by (simp add: assms(3) apply_registered inbox_registrations_def patch_conversation_deleted_def
        remove_with_id_eq patch_active_conversation_deleted_def)
qed

text \<open>
  A message of another conversation is shown in the one being viewed: the message list takes
  every new message that is broadcast, whichever conversation it belongs to.
\<close>

lemma foreign_message_is_listed:
  assumes "types_ok inbox_type st" "entity_ok d"
    and "st InboxMessagesAtom = JArr ms" "key_of d \<notin> key_of ` set ms"
    and "fld d ''conversation_id'' = JStr k" "st ActiveConversationIdAtom = JStr active" "k \<noteq> active"
  shows "fst (apply_ws_update (register_all inbox_registrations []) ''inbox:update:message_created'' d st)
    InboxMessagesAtom = JArr (ms @ [d])"
proof -
  have "list_all entity_ok ms" using types_okD [OF assms(1), of InboxMessagesAtom] assms(3)
    by (simp add: inbox_type_def feed_inv_def)
  moreover obtain xs where "st InboxConversationsAtom = JArr xs" "list_all entity_ok xs"
    using inbox_conversations [OF assms(1)] by blast
  ultimately show ?thesis using assms
    by (simp add: apply_registered handlers_message_created patch_message_created_def some_same_id
        patch_conversation_message_eq entity_readable)
qed

section \<open>Witnesses\<close>

text \<open>An inbox with one conversation, of which nothing is being viewed.\<close>

definition sample_inbox :: "jsval \<Rightarrow> ws_store" where
  "sample_inbox active = (\<lambda>a.
     if a = InboxConversationsAtom then JArr [JObj [(''id'', JStr ''7''), (''unread_count'', JNum 0)]]
     else if a = InboxMessagesAtom then JArr []
     else if a = InboxUnreadCountAtom then JNum 0
     else if a = ActiveConversationIdAtom then active
     else JNull)"

definition sample_message :: jsval where
  "sample_message =
     JObj [(''id'', JNum 1), (''conversation_id'', JStr ''7''), (''sender_id'', JStr ''5'')]"

lemma sample_inbox_ok: "types_ok inbox_type (sample_inbox active)"
  by (simp add: types_ok_def inbox_type_def sample_inbox_def feed_inv_def conversation_ok_def entity_ok_def)

lemma sample_message_ok: "entity_ok sample_message"
  by (simp add: sample_message_def entity_ok_def)

lemma inbox_message_counts_witness:
  "fst (apply_ws_update (register_all inbox_registrations []) ''inbox:message'' sample_message
     (sample_inbox JNull)) InboxUnreadCountAtom = JNum 1"
proof -
  have "text_field sample_message ''conversation_id'' \<noteq> []"
    by (simp add: text_field_def sample_message_def js_coalesce_def)
  from inbox_message_counts [OF sample_inbox_ok this refl, of JNull]
  show ?thesis
    by (auto simp: message_in_active_def message_from_current_user_def text_field_def sample_message_def
        js_coalesce_def sample_inbox_def key_of_def fld_nullish)
qed

lemma subscribed_message_counts_twice_witness:
  "\<exists>c. fst (apply_ws_update (register_all inbox_registrations []) ''inbox:message'' sample_message
      (fst (apply_ws_update (register_all inbox_registrations []) ''inbox:update:message_created''
        sample_message (sample_inbox JNull)))) InboxConversationsAtom = JArr [c]
    \<and> fld c ''unread_count'' = JNum 2"
  using subscribed_message_counts_twice [OF sample_inbox_ok sample_message_ok, of "''7''" JNull "''5''"
      "JObj [(''id'', JStr ''7''), (''unread_count'', JNum 0)]" 0 0, OF _ _ _ _ _ _ _ _ _ _ refl refl]
  by (fastforce simp: sample_message_def sample_inbox_def key_of_def fld_nullish)

lemma conversation_deleted_closed_witness:
  "\<not> truthy (fst (apply_ws_update (register_all inbox_registrations []) ''inbox:update:conversation_deleted''
     (JObj [(''id'', JStr ''7'')]) (sample_inbox (JStr ''7''))) ActiveConversationIdAtom)
   \<or> js_string (fst (apply_ws_update (register_all inbox_registrations []) ''inbox:update:conversation_deleted''
     (JObj [(''id'', JStr ''7'')]) (sample_inbox (JStr ''7''))) ActiveConversationIdAtom) \<noteq> ''7''"
proof -
  have "entity_ok (JObj [(''id'', JStr ''7'')])" by (simp add: entity_ok_def)
  from conversation_deleted_closed [OF sample_inbox_ok this refl, of "JStr ''7''"]
  show ?thesis by (auto simp: key_of_def)
qed

lemma foreign_message_is_listed_witness:
  "fst (apply_ws_update (register_all inbox_registrations []) ''inbox:update:message_created''
     sample_message (sample_inbox (JStr ''8''))) InboxMessagesAtom = JArr [sample_message]"
  using foreign_message_is_listed [OF sample_inbox_ok sample_message_ok, of "JStr ''8''" "[]" "''7''" "''8''"]
  by (simp add: sample_message_def sample_inbox_def)

end
