(* ===== verification/SocialAtoms.thy ===== *)
theory SocialAtoms
  imports AuthAtoms
begin

text \<open>
  The smaller live modules: \<open>atoms/notifications.ts\<close>, \<open>chat.ts\<close>, \<open>presence.ts\<close>, \<open>voice.ts\<close>,
  \<open>events.ts\<close>, \<open>media.ts\<close> and \<open>config.ts\<close>, each with its interfaces, its patches and their
  registration. \<open>now\<close> is what \<open>Date.now()\<close> returns while a message is handled.
\<close>

section \<open>Interfaces\<close>

definition NotificationType :: tsty where
  "NotificationType = literals
     [''comment_on_thread'', ''thread_liked'', ''thread_deleted'', ''thread_edited'',
      ''comment_deleted'', ''comment_liked'', ''profile_viewed'', ''suspended'', ''unsuspended'',
      ''banned'', ''direct_message'', ''mentioned'', ''store_order'']"

definition AppNotification :: fields where
  "AppNotification =
     [req ''id'' TString, req ''user_id'' TString, req ''type'' NotificationType,
      req ''message'' TString, req ''route'' TString, req ''is_read'' TBoolean,
      req ''created_at'' TString]"

definition GlobalChatMessage :: fields where
  "GlobalChatMessage =
     [req ''id'' TNumber, req ''user_id'' TNumber, req ''user_name'' TString, req ''avatar'' TString,
      opt ''roles'' (TArray TString), req ''content'' TString, req ''created_at'' TString,
      req ''is_guest'' TBoolean, opt ''kind'' TString, opt ''guest_session_id'' TString]"

definition OnlineUser :: fields where
  "OnlineUser =
     [req ''user_id'' TNumber, req ''user_name'' TString, req ''avatar'' TString,
      opt ''roles'' (TArray TString), req ''route'' TString, opt ''is_muted'' TBoolean,
      opt ''guest_session_id'' TString]"

definition CursorPosition :: fields where
  "CursorPosition =
     [req ''user_id'' TNumber, req ''user_name'' TString, req ''avatar'' TString,
      req ''x'' TNumber, req ''y'' TNumber, req ''updatedAt'' TNumber]"

definition VoicePermissions :: fields where
  "VoicePermissions =
     [req ''route'' TString, req ''voiceEnabled'' TBoolean, req ''guestsAllowed'' TBoolean,
      req ''mutedUsers'' (TDict TBoolean), req ''kickedUsers'' (TDict TBoolean),
      req ''canManage'' TBoolean, req ''useLiveKit'' TBoolean, opt ''ownerId'' TNumber]"

definition ActivityEvent :: fields where
  "ActivityEvent =
     [req ''id'' TNumber, opt ''user_id'' TNumber, opt ''username'' TString, opt ''avatar_url'' TString,
      req ''activity'' TString, opt ''resource'' TString, opt ''resource_id'' TNumber,
      opt ''meta'' (TDict TAny), req ''created_at'' TString]"

definition MediaItem :: fields where
  "MediaItem =
     [req ''id'' TString, req ''video_id'' TString, req ''added_by'' TNumber,
      req ''user_name'' TString, req ''loop'' TBoolean, req ''created_at'' TString]"

definition MediaPlaylist :: fields where
  "MediaPlaylist =
     [req ''id'' TString, req ''start_time'' TString, req ''items'' (TArray (TShape MediaItem))]"

definition MediaState :: fields where
  "MediaState =
     [req ''route'' TString, req ''queue'' (TArray (TShape MediaItem)),
      req ''history'' (TArray (TShape MediaItem)), req ''playlists'' (TArray (TShape MediaPlaylist)),
      req ''is_paused'' TBoolean, req ''current_position'' TNumber, req ''updated_at'' TString,
      opt ''transitioning_item_id'' TString]"

section \<open>Notifications\<close>

definition unread_notif_count :: "jsval list \<Rightarrow> nat option" where
  "unread_notif_count ns =
     map_option length (js_filter (\<lambda>n. do { r \<leftarrow> get n ''is_read''; Some (\<not> truthy r) }) ns)"

definition patch_notification :: "jsval list \<Rightarrow> jsval \<Rightarrow> jsval list option" where
  "patch_notification prev data = Some (data # prev)"

definition patch_notification_sync :: "jsval list \<Rightarrow> jsval \<Rightarrow> jsval list option" where
  "patch_notification_sync prev data =
     (case fld data ''notifications'' of
        JArr ns \<Rightarrow> if length prev = 0 then Some ns else Some prev
      | _ \<Rightarrow> Some prev)"

definition patch_notification_read :: "jsval list \<Rightarrow> jsval \<Rightarrow> jsval list option" where
  "patch_notification_read prev data =
     (if truthy (fld data ''id'')
      then js_map (\<lambda>n. do {
        i \<leftarrow> get n ''id'';
        Some (if js_string i = js_string (fld data ''id'')
          then obj_with n [(''is_read'', JBool True)] else n) }) prev
      else Some prev)"

definition patch_notification_all_read :: "jsval list \<Rightarrow> jsval list option" where
  "patch_notification_all_read prev = Some (map (\<lambda>n. obj_with n [(''is_read'', JBool True)]) prev)"

definition patch_notification_deleted :: "jsval list \<Rightarrow> jsval \<Rightarrow> jsval list option" where
  "patch_notification_deleted prev data = remove_with_id prev data"

definition notification_registrations :: "registration list" where
  "notification_registrations =
     [(''notification'', NotificationsAtom, arr_patch (\<lambda>p d st. patch_notification p d)),
      (''notification:sync'', NotificationsAtom, arr_patch (\<lambda>p d st. patch_notification_sync p d)),
      (''notification:update:notification_read'', NotificationsAtom,
         arr_patch (\<lambda>p d st. patch_notification_read p d)),
      (''notification:update:notification_all_read'', NotificationsAtom,
         arr_patch (\<lambda>p d st. patch_notification_all_read p)),
      (''notification:update:notification_deleted'', NotificationsAtom,
         arr_patch (\<lambda>p d st. patch_notification_deleted p d)),
      (''notification:update:notification_all_deleted'', NotificationsAtom, \<lambda>p d st. Some (JArr []))]"

section \<open>Global chat\<close>

definition patch_global_chat :: "jsval list \<Rightarrow> jsval \<Rightarrow> jsval list option" where
  "patch_global_chat prev data = Some (last_n 100 (prev @ [data]))"

definition patch_chat_history :: patch_fn where
  "patch_chat_history prev data st =
     (case fld data ''messages'' of JArr ms \<Rightarrow> Some (JArr ms) | _ \<Rightarrow> Some prev)"

definition chat_registrations :: "registration list" where
  "chat_registrations =
     [(''global:chat'', GlobalChatMessagesAtom, arr_patch (\<lambda>p d st. patch_global_chat p d)),
      (''global:chat:history'', GlobalChatMessagesAtom, patch_chat_history)]"

section \<open>Presence\<close>

definition patch_presence :: patch_fn where
  "patch_presence prev data st = (case data of JArr us \<Rightarrow> Some data | _ \<Rightarrow> Some prev)"

definition patch_cursor :: "int \<Rightarrow> patch_fn" where
  "patch_cursor now prev data st =
     (if \<not> truthy data then Some prev
      else case fld data ''user_id'' of
        JNum n \<Rightarrow> (case prev of
            JMap m \<Rightarrow> Some (JMap (map_set (JNum n) (obj_with data [(''updatedAt'', JNum now)]) m))
          | _ \<Rightarrow> None)
      | JNaN \<Rightarrow> (case prev of
            JMap m \<Rightarrow> Some (JMap (map_set JNaN (obj_with data [(''updatedAt'', JNum now)]) m))
          | _ \<Rightarrow> None)
      | _ \<Rightarrow> Some prev)"

definition presence_registrations :: "int \<Rightarrow> registration list" where
  "presence_registrations now =
     [(''presence:update'', OnlineUsersAtom, patch_presence),
      (''cursor:update'', CursorPositionsAtom, patch_cursor now)]"

section \<open>Voice permissions\<close>

definition voice_initial :: jsval where
  "voice_initial = JObj
     [(''route'', JStr []), (''voiceEnabled'', JBool True), (''guestsAllowed'', JBool False),
      (''mutedUsers'', JObj []), (''kickedUsers'', JObj []), (''canManage'', JBool False),
      (''useLiveKit'', JBool True)]"

definition obj_delete :: "string \<Rightarrow> jsval \<Rightarrow> jsval" where
  "obj_delete k v = JObj (filter (\<lambda>(k', x). k' \<noteq> k) (own_props v))"

definition assign_if :: "bool \<Rightarrow> (string \<times> jsval) list \<Rightarrow> jsval \<Rightarrow> jsval" where
  "assign_if b kvs v = (if b then obj_with v kvs else v)"

text \<open>The body of the patch after the route check; \<open>target\<close> is \<open>data.target_user_id\<close>.\<close>

definition voice_action :: "jsval \<Rightarrow> jsval \<Rightarrow> jsval \<Rightarrow> jsval" where
  "voice_action action target next0 =
     (let is = (\<lambda>s. action = JStr s);
          k = js_string target;
          next1 = assign_if (is ''enable'') [(''voiceEnabled'', JBool True)] next0;
          next2 = assign_if (is ''disable'') [(''voiceEnabled'', JBool False)] next1;
          next3 = assign_if (is ''allow_guests'') [(''guestsAllowed'', JBool True)] next2;
          next4 = assign_if (is ''deny_guests'') [(''guestsAllowed'', JBool False)] next3;
          next5 = assign_if (is ''use_livekit'') [(''useLiveKit'', JBool True)] next4;
          next6 = assign_if (is ''use_p2p'') [(''useLiveKit'', JBool False)] next5;
          next7 = assign_if (is ''mute'' \<and> truthy target)
            [(''mutedUsers'', obj_with (fld next6 ''mutedUsers'') [(k, JBool True)])] next6;
          next8 = assign_if (is ''unmute'' \<and> truthy target)
            [(''mutedUsers'', obj_delete k (fld next7 ''mutedUsers''))] next7;
          next9 = assign_if (is ''kick'' \<and> truthy target)
            [(''kickedUsers'', obj_with (fld next8 ''kickedUsers'') [(k, JBool True)]),
             (''mutedUsers'', obj_with (fld next8 ''mutedUsers'') [(k, JBool True)])] next8
      in next9)"

definition patch_voice_control :: patch_fn where
  "patch_voice_control prev data st = do {
     old_route \<leftarrow> get prev ''route'';
     new_route \<leftarrow> get data ''route'';
     let next0 = obj_with prev [];
     let next1 = assign_if (\<not> strict_eq old_route new_route)
       [(''route'', new_route), (''mutedUsers'', JObj []), (''kickedUsers'', JObj []),
        (''voiceEnabled'', JBool True), (''guestsAllowed'', JBool False),
        (''canManage'', JBool False), (''useLiveKit'', JBool True), (''ownerId'', JUndef)] next0;
     Some (voice_action (fld data ''action'') (fld data ''target_user_id'') next1) }"

definition voice_registrations :: "registration list" where
  "voice_registrations = [(''voice:control'', VoicePermissionsAtom, patch_voice_control)]"

section \<open>Activity, media and configuration\<close>

definition patch_event :: "jsval list \<Rightarrow> jsval \<Rightarrow> jsval list option" where
  "patch_event prev data =
     (if truthy data then do {
        known \<leftarrow> js_some (\<lambda>e. do { i \<leftarrow> get e ''id''; Some (strict_eq i (fld data ''id'')) }) prev;
        Some (if known then prev else prev @ [data]) }
      else Some prev)"

definition events_registrations :: "registration list" where
  "events_registrations = [(''events:update'', ActivityEventsAtom, arr_patch (\<lambda>p d st. patch_event p d))]"

definition replace_patch :: patch_fn where
  "replace_patch prev data st = Some data"

definition media_registrations :: "registration list" where
  "media_registrations = [(''media:sync'', MediaStateAtom, replace_patch)]"

definition config_registrations :: "registration list" where
  "config_registrations =
     [(''config:update:branding_updated'', BrandingAtom, replace_patch),
      (''config:update:seo_updated'', SeoAtom, replace_patch),
      (''config:update:footer_updated'', FooterConfigAtom, replace_patch)]"

section \<open>Voice permissions as a state machine\<close>

text \<open>What the permissions say, without the representation.\<close>

record voice_view =
  vv_route :: string
  vv_enabled :: bool
  vv_guests :: bool
  vv_livekit :: bool
  vv_muted :: "string set"
  vv_kicked :: "string set"

definition prop_names :: "jsval \<Rightarrow> string set" where
  "prop_names v = set (map fst (own_props v))"

definition str_of :: "jsval \<Rightarrow> string" where
  "str_of v = (case v of JStr s \<Rightarrow> s | _ \<Rightarrow> [])"

definition voice_view_of :: "jsval \<Rightarrow> voice_view" where
  "voice_view_of v =
     \<lparr>vv_route = str_of (fld v ''route''), vv_enabled = (fld v ''voiceEnabled'' = JBool True),
      vv_guests = (fld v ''guestsAllowed'' = JBool True), vv_livekit = (fld v ''useLiveKit'' = JBool True),
      vv_muted = prop_names (fld v ''mutedUsers''), vv_kicked = prop_names (fld v ''kickedUsers'')\<rparr>"

definition enter_route :: "string \<Rightarrow> voice_view \<Rightarrow> voice_view" where
  "enter_route r vv =
     (if vv_route vv = r then vv
      else \<lparr>vv_route = r, vv_enabled = True, vv_guests = False, vv_livekit = True, vv_muted = {}, vv_kicked = {}\<rparr>)"

definition voice_step :: "string \<Rightarrow> string \<Rightarrow> voice_view \<Rightarrow> voice_view" where
  "voice_step action k vv =
     (if action = ''enable'' then vv\<lparr>vv_enabled := True\<rparr>
      else if action = ''disable'' then vv\<lparr>vv_enabled := False\<rparr>
      else if action = ''allow_guests'' then vv\<lparr>vv_guests := True\<rparr>
      else if action = ''deny_guests'' then vv\<lparr>vv_guests := False\<rparr>
      else if action = ''use_livekit'' then vv\<lparr>vv_livekit := True\<rparr>
      else if action = ''use_p2p'' then vv\<lparr>vv_livekit := False\<rparr>
      else if action = ''mute'' then vv\<lparr>vv_muted := insert k (vv_muted vv)\<rparr>
      else if action = ''unmute'' then vv\<lparr>vv_muted := vv_muted vv - {k}\<rparr>
      else if action = ''kick'' then vv\<lparr>vv_kicked := insert k (vv_kicked vv), vv_muted := insert k (vv_muted vv)\<rparr>
      else vv)"

definition voice_ok :: "jsval \<Rightarrow> bool" where
  "voice_ok v = (is_obj v \<and> (\<exists>r. fld v ''route'' = JStr r))"

lemma prop_names_with [simp]: "prop_names (obj_with v kvs) = prop_names v \<union> set (map fst kvs)"
proof -
  have "set (map fst (props_merge (own_props v) kvs)) = set (map fst (own_props v)) \<union> set (map fst kvs)"
    unfolding map_fst_merge by (force simp: map_of_eq_None_iff)
  then show ?thesis by (simp add: prop_names_def)
qed

lemma prop_names_delete [simp]: "prop_names (obj_delete k v) = prop_names v - {k}"
  by (force simp: prop_names_def obj_delete_def)

lemma prop_names_empty [simp]: "prop_names (JObj []) = {}"
  by (simp add: prop_names_def)

lemma is_obj_with [simp]: "is_obj (obj_with v kvs)"
  by (simp add: obj_with_def)

lemma voice_enter:
  assumes "voice_ok v"
  shows "voice_view_of (assign_if (\<not> strict_eq (fld v ''route'') (JStr r))
      [(''route'', JStr r), (''mutedUsers'', JObj []), (''kickedUsers'', JObj []),
       (''voiceEnabled'', JBool True), (''guestsAllowed'', JBool False),
       (''canManage'', JBool False), (''useLiveKit'', JBool True), (''ownerId'', JUndef)] v) =
    enter_route r (voice_view_of v)"
  using assms by (auto simp: voice_ok_def assign_if_def voice_view_of_def enter_route_def str_of_def)

lemma voice_action_step:
  assumes "is_obj v" "truthy target"
  shows "voice_view_of (voice_action (JStr action) target v) = voice_step action (js_string target) (voice_view_of v)"
proof -
  note acts = voice_action_def voice_step_def assign_if_def Let_def voice_view_of_def fld_with_obj [OF assms(1)]
  consider "action = ''enable''" | "action = ''disable''" | "action = ''allow_guests''"
    | "action = ''deny_guests''" | "action = ''use_livekit''" | "action = ''use_p2p''"
    | "action = ''mute''" | "action = ''unmute''" | "action = ''kick''"
    | "action \<notin> {''enable'', ''disable'', ''allow_guests'', ''deny_guests'', ''use_livekit'',
        ''use_p2p'', ''mute'', ''unmute'', ''kick''}" by auto
  then show ?thesis
    by cases (simp_all add: acts assms del: fld_obj_with)
qed

lemma voice_action_obj:
  assumes "is_obj v" "fld v ''route'' = JStr r"
  shows "is_obj (voice_action a target v) \<and> fld (voice_action a target v) ''route'' = JStr r"
proof -
  have keep: "is_obj (assign_if b kvs w) \<and> fld (assign_if b kvs w) ''route'' = JStr r"
    if "is_obj w \<and> fld w ''route'' = JStr r" "''route'' \<notin> set (map fst kvs)" for b kvs w
  proof -
    from that(2) have "map_of kvs ''route'' = None" by (simp add: map_of_eq_None_iff)
    with that(1) show ?thesis by (simp add: assign_if_def fld_with_obj del: fld_obj_with)
  qed
  show ?thesis unfolding voice_action_def Let_def by (intro keep conjI assms; simp)
qed



section \<open>Properties of the other modules\<close>

text \<open>
  The global chat is a ring of one hundred messages: after any run of messages it holds exactly
  the last hundred of what it held and what arrived, in order, and never more.
\<close>

lemma chat_is_ring:
  assumes "length history \<le> 100"
  shows "js_reduce patch_global_chat history msgs = Some (last_n 100 (history @ msgs))
    \<and> length (last_n 100 (history @ msgs)) = min 100 (length history + length msgs)"
proof -
  have "js_reduce patch_global_chat (last_n 100 h) msgs = Some (last_n 100 (h @ msgs))" for h
    by (induction msgs arbitrary: h) (simp_all add: patch_global_chat_def last_n_app)
  from this [of history] assms show ?thesis by (simp add: last_n_id length_last_n)
qed

lemma chat_is_ring_witness:
  "js_reduce patch_global_chat [JNum 1] [JNum 2, JNum 3] = Some [JNum 1, JNum 2, JNum 3]"
  using chat_is_ring [of "[JNum 1]" "[JNum 2, JNum 3]"] by (simp add: last_n_id)

text \<open>Whether a notification counts as unread, and how many do.\<close>

definition is_unread :: "jsval \<Rightarrow> bool" where
  "is_unread n = (\<not> truthy (fld n ''is_read''))"

lemma unread_notif_count_eq:
  "list_all entity_ok ns \<Longrightarrow> unread_notif_count ns = Some (length (filter is_unread ns))"
  using js_filter_total [of ns "\<lambda>n. do { r \<leftarrow> get n ''is_read''; Some (\<not> truthy r) }" is_unread]
  by (auto simp: unread_notif_count_def list_all_iff entity_readable is_unread_def)

lemma mark_read:
  assumes "entity_ok n"
  shows "entity_ok (obj_with n [(''is_read'', JBool True)])"
    "\<not> is_unread (obj_with n [(''is_read'', JBool True)])"
  using entity_with [OF assms, of "[(''is_read'', JBool True)]"] by (simp_all add: is_unread_def)

lemma notification_read_eq:
  assumes "list_all entity_ok ns" "entity_ok d"
  shows "patch_notification_read ns d = Some (map (\<lambda>n. if key_of n = key_of d
    then obj_with n [(''is_read'', JBool True)] else n) ns)"
proof -
  have "truthy (fld d ''id'')" using entity_ok_obj [OF assms(2)] by auto
  with assms(1) show ?thesis unfolding patch_notification_read_def key_of_def
    by (simp add: js_map_total list_all_iff entity_readable)
qed

text \<open>
  The unread badge is exact: a new unread notification adds one and a read one nothing; marking
  one as read, or deleting it, leaves exactly the unread ones of the others; marking all leaves
  none; and a sync replaces an empty list only, so it never resurrects what was deleted.
\<close>

lemma unread_badge_exact:
  assumes "list_all entity_ok ns" "entity_ok d"
  shows "\<exists>a b c e. patch_notification ns d = Some a \<and> patch_notification_read ns d = Some b
    \<and> patch_notification_all_read ns = Some c \<and> patch_notification_deleted ns d = Some e
    \<and> unread_notif_count a = Some (length (filter is_unread ns) + (if is_unread d then 1 else 0))
    \<and> unread_notif_count b = Some (length (filter (\<lambda>n. key_of n \<noteq> key_of d \<and> is_unread n) ns))
    \<and> unread_notif_count c = Some 0
    \<and> unread_notif_count e = unread_notif_count b
    \<and> (ns \<noteq> [] \<longrightarrow> patch_notification_sync ns d = Some ns)"
proof -
  let ?r = "\<lambda>n. if key_of n = key_of d then obj_with n [(''is_read'', JBool True)] else n"
  have ok: "list_all entity_ok (map ?r ns)"
    "list_all entity_ok (map (\<lambda>n. obj_with n [(''is_read'', JBool True)]) ns)"
    "list_all entity_ok (filter (\<lambda>n. key_of n \<noteq> key_of d) ns)"
    using assms(1) by (auto simp: list_all_iff mark_read)
  have b: "filter is_unread (map ?r ns) = filter (\<lambda>n. key_of n \<noteq> key_of d \<and> is_unread n) ns"
    using assms(1) by (induction ns) (auto simp: mark_read)
  have c: "filter is_unread (map (\<lambda>n. obj_with n [(''is_read'', JBool True)]) ns) = []"
    using assms(1) by (induction ns) (auto simp: mark_read)
  have "patch_notification_sync ns d = Some ns" if "ns \<noteq> []"
    using that by (auto simp: patch_notification_sync_def split: jsval.splits)
  with assms ok show ?thesis
    by (simp add: patch_notification_def notification_read_eq patch_notification_all_read_def
        patch_notification_deleted_def remove_with_id_eq unread_notif_count_eq b c)
qed

lemma unread_badge_exact_witness:
  "unread_notif_count [JObj [(''id'', JNum 2), (''is_read'', JBool False)], JObj [(''id'', JNum 1)]] = Some 2"
proof -
  let ?n = "JObj [(''id'', JNum 1)]" and ?d = "JObj [(''id'', JNum 2), (''is_read'', JBool False)]"
  have "list_all entity_ok [?n]" "entity_ok ?d" by (simp_all add: entity_ok_def)
  from unread_badge_exact [OF this] show ?thesis
    by (auto simp: patch_notification_def is_unread_def)
qed

text \<open>The activity feed compares its numeric ids with \<open>===\<close>.\<close>

definition event_ok :: "jsval \<Rightarrow> bool" where
  "event_ok e = (is_obj e \<and> is_number (fld e ''id''))"

lemma event_ok_readable: "event_ok e \<Longrightarrow> \<not> nullish e \<and> truthy e \<and> (\<exists>n. fld e ''id'' = JNum n)"
  by (auto simp: event_ok_def is_obj_iff dest: is_numberD)

lemma event_ids_eq: "event_ok a \<Longrightarrow> event_ok b \<Longrightarrow>
  strict_eq (fld a ''id'') (fld b ''id'') \<longleftrightarrow> num_of (fld a ''id'') = num_of (fld b ''id'')"
  by (auto dest!: event_ok_readable)

lemma patch_event_eq:
  assumes "list_all event_ok xs" "event_ok e"
  shows "patch_event xs e = Some (if num_of (fld e ''id'') \<in> (\<lambda>x. num_of (fld x ''id'')) ` set xs
    then xs else xs @ [e])"
proof -
  have "js_some (\<lambda>x. do { i \<leftarrow> get x ''id''; Some (strict_eq i (fld e ''id'')) }) xs =
      Some (\<exists>x \<in> set xs. num_of (fld x ''id'') = num_of (fld e ''id''))"
    using assms by (intro js_some_total) (auto simp: list_all_iff event_ok_readable event_ids_eq)
  then show ?thesis using event_ok_readable [OF assms(2)]
    by (auto simp: patch_event_def intro: rev_image_eqI)
qed

interpretation event_insert: keyed_insert event_ok "\<lambda>e. num_of (fld e ''id'')" patch_event
proof (unfold_locales, goal_cases)
  case (1 xs e)
  then show ?case by (simp add: patch_event_eq)
next
  case (2 xs e)
  then show ?case by (auto simp: patch_event_eq)
qed

text \<open>
  The activity feed holds each event once however often it is broadcast: after any run of
  events its ids are pairwise different, and they are those it had and those that arrived.
\<close>

lemma activity_feed_once:
  assumes "feed_inv event_ok (\<lambda>e. num_of (fld e ''id'')) xs" "list_all event_ok es"
  shows "\<exists>ys. js_reduce patch_event xs es = Some ys \<and> feed_inv event_ok (\<lambda>e. num_of (fld e ''id'')) ys
    \<and> (\<lambda>e. num_of (fld e ''id'')) ` set ys =
      (\<lambda>e. num_of (fld e ''id'')) ` set xs \<union> (\<lambda>e. num_of (fld e ''id'')) ` set es"
  by (rule event_insert.add_run [OF assms])

lemma activity_feed_once_witness:
  "\<exists>ys. js_reduce patch_event [] [JObj [(''id'', JNum 4)], JObj [(''id'', JNum 4)]] = Some ys
    \<and> distinct (map (\<lambda>e. num_of (fld e ''id'')) ys)"
  using activity_feed_once [of "[]" "[JObj [(''id'', JNum 4)], JObj [(''id'', JNum 4)]]"]
  by (auto simp: feed_inv_def event_ok_def)

section \<open>Every message of these modules is handled\<close>

definition social_registrations :: "int \<Rightarrow> registration list" where
  "social_registrations now =
     chat_registrations @ config_registrations @ events_registrations @ media_registrations
     @ notification_registrations @ presence_registrations now @ voice_registrations"

definition is_map :: "jsval \<Rightarrow> bool" where
  "is_map v = (case v of JMap _ \<Rightarrow> True | _ \<Rightarrow> False)"

definition social_type :: "atom \<Rightarrow> jsval \<Rightarrow> bool" where
  "social_type a v =
     (if a = NotificationsAtom then list_of entity_ok v
      else if a = GlobalChatMessagesAtom then list_of (\<lambda>_. True) v
      else if a = CursorPositionsAtom then is_map v
      else if a = VoicePermissionsAtom then voice_ok v
      else if a = ActivityEventsAtom then list_of event_ok v
      else True)"

definition social_payload :: "string \<Rightarrow> jsval \<Rightarrow> bool" where
  "social_payload ty d =
     (if ty = ''notification'' then entity_ok d
      else if ty = ''notification:sync'' then
        (case fld d ''notifications'' of JArr ns \<Rightarrow> list_all entity_ok ns | _ \<Rightarrow> True)
      else if ty = ''events:update'' then \<not> truthy d \<or> event_ok d
      else if ty = ''voice:control'' then \<exists>r. fld d ''route'' = JStr r
      else True)"

lemma social_payload_simps:
  "social_payload ''notification'' d \<longleftrightarrow> entity_ok d"
  "social_payload ''notification:sync'' d \<longleftrightarrow>
     (case fld d ''notifications'' of JArr ns \<Rightarrow> list_all entity_ok ns | _ \<Rightarrow> True)"
  "social_payload ''events:update'' d \<longleftrightarrow> \<not> truthy d \<or> event_ok d"
  "social_payload ''voice:control'' d \<longleftrightarrow> (\<exists>r. fld d ''route'' = JStr r)"
  by (simp_all add: social_payload_def)

lemma notification_patches_ok:
  assumes "list_all entity_ok ns"
  shows "entity_ok d \<Longrightarrow> \<exists>ys. patch_notification ns d = Some ys \<and> list_all entity_ok ys"
    and "(case fld d ''notifications'' of JArr ns \<Rightarrow> list_all entity_ok ns | _ \<Rightarrow> True) \<Longrightarrow>
      \<exists>ys. patch_notification_sync ns d = Some ys \<and> list_all entity_ok ys"
    and "\<exists>ys. patch_notification_read ns d = Some ys \<and> list_all entity_ok ys"
    and "\<exists>ys. patch_notification_all_read ns = Some ys \<and> list_all entity_ok ys"
    and "\<exists>ys. patch_notification_deleted ns d = Some ys \<and> list_all entity_ok ys"
proof -
  show "\<exists>ys. patch_notification_sync ns d = Some ys \<and> list_all entity_ok ys"
    if "case fld d ''notifications'' of JArr ns \<Rightarrow> list_all entity_ok ns | _ \<Rightarrow> True"
    using that assms by (auto simp: patch_notification_sync_def split: jsval.splits)
  show "\<exists>ys. patch_notification_read ns d = Some ys \<and> list_all entity_ok ys"
    unfolding patch_notification_read_def using assms
    by (auto simp: list_all_iff entity_readable mark_read intro!: js_map_all [unfolded list_all_iff])
  show "\<exists>ys. patch_notification_deleted ns d = Some ys \<and> list_all entity_ok ys"
    using assms filter_by_key [OF assms, of "key_of d"]
    by (auto simp: patch_notification_deleted_def remove_with_id_def key_of_def [symmetric] list_all_iff)
qed (use assms in \<open>auto simp: patch_notification_def patch_notification_all_read_def list_all_iff mark_read\<close>)

lemma voice_ok_action: "voice_ok v \<Longrightarrow> voice_ok (voice_action a t v)"
  using voice_action_obj by (auto simp: voice_ok_def)

lemma voice_ok_assign:
  "voice_ok v \<Longrightarrow> map_of kvs ''route'' = None \<or> map_of kvs ''route'' = Some (JStr r) \<Longrightarrow>
   voice_ok (assign_if b kvs v)"
  by (auto simp: voice_ok_def assign_if_def fld_with_obj simp del: fld_obj_with)

lemma patch_voice_control_ok:
  assumes "voice_ok prev" "fld data ''route'' = JStr r"
  shows "\<exists>v. patch_voice_control prev data st = Some v \<and> voice_ok v"
proof -
  have "voice_ok (obj_with prev [])" using voice_ok_assign [OF assms(1), of "[]" r True]
    by (simp add: assign_if_def)
  moreover have "\<not> nullish data" "\<not> nullish prev"
    using assms by (auto simp: fld_nullish voice_ok_def is_obj_iff)
  ultimately show ?thesis using assms(2)
    by (auto simp: patch_voice_control_def intro!: voice_ok_action voice_ok_assign)
qed

lemma social_values_ok:
  assumes "types_ok social_type st"
  shows "\<exists>v. patch_chat_history (st GlobalChatMessagesAtom) d st = Some v \<and> social_type GlobalChatMessagesAtom v"
    and "\<exists>v. patch_presence (st OnlineUsersAtom) d st = Some v \<and> social_type OnlineUsersAtom v"
    and "\<exists>v. patch_cursor now (st CursorPositionsAtom) d st = Some v \<and> social_type CursorPositionsAtom v"
    and "\<exists>r. fld d ''route'' = JStr r \<Longrightarrow>
      \<exists>v. patch_voice_control (st VoicePermissionsAtom) d st = Some v \<and> social_type VoicePermissionsAtom v"
    and "a \<in> {MediaStateAtom, BrandingAtom, SeoAtom, FooterConfigAtom} \<Longrightarrow>
      \<exists>v. replace_patch (st a) d st = Some v \<and> social_type a v"
    and "\<exists>v. Some (JArr []) = Some v \<and> social_type NotificationsAtom v"
proof -
  from types_okD [OF assms, of GlobalChatMessagesAtom]
  show "\<exists>v. patch_chat_history (st GlobalChatMessagesAtom) d st = Some v \<and> social_type GlobalChatMessagesAtom v"
    by (auto simp: social_type_def patch_chat_history_def list_all_iff split: jsval.splits)
  show "\<exists>v. patch_presence (st OnlineUsersAtom) d st = Some v \<and> social_type OnlineUsersAtom v"
    by (auto simp: social_type_def patch_presence_def split: jsval.splits)
  from types_okD [OF assms, of CursorPositionsAtom]
  show "\<exists>v. patch_cursor now (st CursorPositionsAtom) d st = Some v \<and> social_type CursorPositionsAtom v"
    by (auto simp: social_type_def patch_cursor_def is_map_def split: jsval.splits)
  from types_okD [OF assms, of VoicePermissionsAtom]
  show "\<exists>v. patch_voice_control (st VoicePermissionsAtom) d st = Some v \<and> social_type VoicePermissionsAtom v"
    if "\<exists>r. fld d ''route'' = JStr r"
    using that patch_voice_control_ok by (auto simp: social_type_def)
qed (auto simp: social_type_def replace_patch_def)

lemma social_list_step:
  assumes "types_ok social_type st"
    and "(a, P) \<in> {(NotificationsAtom, entity_ok), (GlobalChatMessagesAtom, \<lambda>_. True), (ActivityEventsAtom, event_ok)}"
    and "\<And>xs. list_all P xs \<Longrightarrow> \<exists>ys. f xs d st = Some ys \<and> list_all P ys"
  shows "\<exists>v. arr_patch f (st a) d st = Some v \<and> social_type a v"
proof -
  have "list_of P (st a)" using assms(2) types_okD [OF assms(1), of a] by (auto simp: social_type_def)
  from arr_patch_types [where f = f and d = d and st = st, OF this] assms(2,3) show ?thesis
    by (auto simp: social_type_def)
qed

lemma list_all_True: "list_all (\<lambda>_. True) xs"
  by (simp add: list_all_iff)

lemmas social_list_steps =
  social_list_step [where a = NotificationsAtom and P = entity_ok, simplified]
  social_list_step [where a = GlobalChatMessagesAtom and P = "\<lambda>_. True", simplified]
  social_list_step [where a = ActivityEventsAtom and P = event_ok, simplified]

lemma social_lists_ok:
  "\<exists>ys. patch_global_chat xs d = Some ys \<and> list_all (\<lambda>_. True) ys"
  "list_all event_ok es \<Longrightarrow> \<not> truthy d \<or> event_ok d \<Longrightarrow>
    \<exists>ys. patch_event es d = Some ys \<and> list_all event_ok ys"
  by (auto simp: patch_global_chat_def list_all_True patch_event_eq)
     (auto simp: patch_event_def)

lemma social_handles: "handles (types_ok social_type) social_payload (social_registrations now)"
  unfolding social_registrations_def chat_registrations_def config_registrations_def
    events_registrations_def media_registrations_def notification_registrations_def
    presence_registrations_def voice_registrations_def append.simps
  by (rule types_handles, unfold list.pred_inject prod.case, intro conjI allI impI list.pred_inject(1))
     (simp_all only: social_payload_simps,
      ((rule social_values_ok; (assumption | simp))
       | (rule social_list_steps, assumption,
          (rule notification_patches_ok social_lists_ok; assumption)))+)

end
