(* ===== verification/ClientRegistry.thy ===== *)
theory ClientRegistry
  imports ForumTypes StoreAtoms InboxAtoms SocialAtoms
begin

text \<open>
  The whole registry: \<open>utils/wsResources.ts\<close> imports every module of atoms once, in this order, so
  that their registrations run before the first message. The theorems are about any message the
  client may receive over the WebSocket, through \<open>applyMessageUpdate\<close>.
\<close>

definition client_registrations :: "string \<Rightarrow> int \<Rightarrow> registration list" where
  "client_registrations now_iso now =
     chat_registrations @ config_registrations @ events_registrations
     @ forum_registrations now_iso @ inbox_registrations @ media_registrations
     @ notification_registrations @ presence_registrations now @ store_registrations
     @ voice_registrations"

definition client_registry :: "string \<Rightarrow> int \<Rightarrow> ws_registry" where
  "client_registry now_iso now = register_all (client_registrations now_iso now) []"

section \<open>Composing the modules\<close>

definition registered_atoms :: "registration list \<Rightarrow> atom set" where
  "registered_atoms rs = (\<lambda>r. fst (snd r)) ` set rs"

definition registered_types :: "registration list \<Rightarrow> string set" where
  "registered_types rs = fst ` set rs"

lemma registered_simps [simp]:
  "registered_atoms [] = {}" "registered_atoms ((ty, a, p) # rs) = insert a (registered_atoms rs)"
  "registered_atoms (rs @ qs) = registered_atoms rs \<union> registered_atoms qs"
  "registered_types [] = {}" "registered_types ((ty, a, p) # rs) = insert ty (registered_types rs)"
  "registered_types (rs @ qs) = registered_types rs \<union> registered_types qs"
  by (simp_all add: registered_atoms_def registered_types_def image_Un)

lemma handles_with:
  assumes "handles (types_ok T) pay rs" "\<And>a v. a \<in> registered_atoms rs \<Longrightarrow> U a v"
  shows "handles (types_ok (\<lambda>a v. T a v \<and> U a v)) (\<lambda>ty d. ty \<in> registered_types rs \<longrightarrow> pay ty d) rs"
proof (rule types_handles, rule list_all_iff [THEN iffD2], rule ballI, clarify)
  fix ty a p d st
  assume r: "(ty, a, p) \<in> set rs" and st: "types_ok (\<lambda>a v. T a v \<and> U a v) st"
    and pay: "ty \<in> registered_types rs \<longrightarrow> pay ty d"
  from r have "ty \<in> registered_types rs" "a \<in> registered_atoms rs"
    by (force simp: registered_types_def registered_atoms_def)+
  with r st pay assms(1) obtain v where "p (st a) d st = Some v" "types_ok T (st(a := v))"
    by (fastforce simp: handles_def list_all_iff types_ok_def)
  with assms(2) [OF \<open>a \<in> registered_atoms rs\<close>] show "\<exists>v. p (st a) d st = Some v \<and> T a v \<and> U a v"
    by (auto simp: types_ok_def split: if_splits)
qed

lemma handles_mono:
  "handles I pay rs \<Longrightarrow> (\<And>ty d. pay' ty d \<Longrightarrow> pay ty d) \<Longrightarrow> handles I pay' rs"
  by (fastforce simp: handles_def list_all_iff)

lemma handles_append: "handles I pay (rs @ qs) \<longleftrightarrow> handles I pay rs \<and> handles I pay qs"
  by (simp add: handles_def)

lemma handles_cong: "handles (types_ok T) pay rs \<Longrightarrow> (\<And>a v. T a v \<longleftrightarrow> U a v) \<Longrightarrow> handles (types_ok U) pay rs"
  by (simp add: handles_def types_ok_def)

definition client_type :: "atom \<Rightarrow> jsval \<Rightarrow> bool" where
  "client_type a v = (forum_type a v \<and> store_type a v \<and> inbox_type a v \<and> social_type a v)"

definition client_payload :: "string \<Rightarrow> jsval \<Rightarrow> bool" where
  "client_payload ty d =
     ((ty \<in> registered_types (forum_registrations []) \<longrightarrow> forum_typed_payload ty d)
      \<and> (ty \<in> registered_types store_registrations \<longrightarrow> store_payload ty d)
      \<and> (ty \<in> registered_types inbox_registrations \<longrightarrow> inbox_payload ty d)
      \<and> (ty \<in> registered_types (social_registrations 0) \<longrightarrow> social_payload ty d))"

lemma types_indep:
  "registered_types (forum_registrations now_iso) = registered_types (forum_registrations [])"
  "registered_types (social_registrations now) = registered_types (social_registrations 0)"
  by (simp_all add: forum_registrations_def social_registrations_def presence_registrations_def)

lemma forum_atoms: "a \<in> registered_atoms (forum_registrations now) \<Longrightarrow>
    store_type a v \<and> inbox_type a v \<and> social_type a v"
  by (auto simp: forum_registrations_def store_type_def inbox_type_def social_type_def)

lemma store_atoms: "a \<in> registered_atoms store_registrations \<Longrightarrow>
    forum_type a v \<and> inbox_type a v \<and> social_type a v"
  by (auto simp: store_registrations_def forum_type_def inbox_type_def social_type_def)

lemma inbox_atoms: "a \<in> registered_atoms inbox_registrations \<Longrightarrow>
    forum_type a v \<and> store_type a v \<and> social_type a v"
  by (auto simp: inbox_registrations_def forum_type_def store_type_def social_type_def)

lemma social_atoms: "a \<in> registered_atoms (social_registrations now) \<Longrightarrow>
    forum_type a v \<and> store_type a v \<and> inbox_type a v"
  by (auto simp: social_registrations_def chat_registrations_def config_registrations_def
      events_registrations_def media_registrations_def notification_registrations_def
      presence_registrations_def voice_registrations_def forum_type_def store_type_def inbox_type_def)

lemma client_handles:
  "handles (types_ok client_type) client_payload (forum_registrations now_iso)"
  "handles (types_ok client_type) client_payload store_registrations"
  "handles (types_ok client_type) client_payload inbox_registrations"
  "handles (types_ok client_type) client_payload (social_registrations now)"
proof -
  show "handles (types_ok client_type) client_payload (forum_registrations now_iso)"
    by (rule handles_mono [OF handles_cong [OF handles_with [OF forum_type_handles forum_atoms]]])
       (auto simp: client_type_def client_payload_def types_indep(1) [of now_iso])
  show "handles (types_ok client_type) client_payload store_registrations"
    by (rule handles_mono [OF handles_cong [OF handles_with [OF store_handles store_atoms]]])
       (auto simp: client_type_def client_payload_def)
  show "handles (types_ok client_type) client_payload inbox_registrations"
    by (rule handles_mono [OF handles_cong [OF handles_with [OF inbox_handles inbox_atoms]]])
       (auto simp: client_type_def client_payload_def)
  show "handles (types_ok client_type) client_payload (social_registrations now)"
    by (rule handles_mono [OF handles_cong [OF handles_with [OF social_handles social_atoms]]])
       (auto simp: client_type_def client_payload_def types_indep(2) [of now])
qed

lemma client_registrations_handle:
  "handles (types_ok client_type) client_payload (client_registrations now_iso now)"
  using client_handles(1) [of now_iso] client_handles(2,3) client_handles(4) [of now]
  by (simp add: client_registrations_def social_registrations_def handles_append)

lemma handles_dispatch:
  assumes "handles I pay rs" "I st" "pay ty d"
  shows "snd (apply_ws_update (register_all rs []) ty d st) \<in> {Handled, Unhandled}
    \<and> I (fst (apply_ws_update (register_all rs []) ty d st))"
proof (cases "handlers_for rs ty = []")
  case True
  with assms(2) show ?thesis by (simp add: apply_registered)
next
  case False
  from handles_run [of I pay rs st ty d, OF assms False] show ?thesis by simp
qed

text \<open>The key under which \<open>applyMessageUpdate\<close> looks up a message.\<close>

definition message_key :: "string \<Rightarrow> jsval \<Rightarrow> string" where
  "message_key type payload =
     (if type = ''voice:control'' \<or> starts_with ''voice:'' type then type else registry_key type payload)"

lemma apply_message_key:
  "apply_message_update registry type payload st =
   apply_ws_update registry (message_key type payload) (registry_payload payload) st"
  by (simp add: apply_message_update_def message_key_def)

section \<open>Shapes that no message can break\<close>

definition is_arr :: "jsval \<Rightarrow> bool" where
  "is_arr v = (case v of JArr _ \<Rightarrow> True | _ \<Rightarrow> False)"

definition list_atoms :: "atom list" where
  "list_atoms =
     [ForumCategoriesAtom, ThreadCommentsAtom, CategoryFeedThreadsAtom, UserFeedThreadsAtom,
      AllFeedThreadsAtom, ProductsAtom, ProductCategoriesAtom, OrdersAtom, StoreCartItemsAtom,
      InboxConversationsAtom, InboxMessagesAtom, NotificationsAtom, GlobalChatMessagesAtom,
      OnlineUsersAtom, ActivityEventsAtom]"

definition arrays_ok :: "ws_store \<Rightarrow> bool" where
  "arrays_ok st = list_all (\<lambda>a. is_arr (st a)) list_atoms"

text \<open>A patch that gives an array whenever it gives a value at all.\<close>

definition keeps_array :: "patch_fn \<Rightarrow> bool" where
  "keeps_array p = (\<forall>prev d st v. is_arr prev \<longrightarrow> p prev d st = Some v \<longrightarrow> is_arr v)"

lemma keeps_array_simps [simp]:
  "keeps_array (arr_patch f)" "keeps_array patch_cart_updated" "keeps_array patch_chat_history"
  "keeps_array patch_presence" "keeps_array (\<lambda>p d st. Some (JArr []))"
  by (auto simp: keeps_array_def arr_patch_def patch_cart_updated_def patch_chat_history_def
      patch_presence_def is_arr_def split: jsval.splits)

lemma registrations_keep_arrays:
  "list_all (\<lambda>(ty, a, p). a \<in> set list_atoms \<longrightarrow> keeps_array p) (client_registrations now_iso now)"
  by (simp add: client_registrations_def chat_registrations_def config_registrations_def
      events_registrations_def forum_registrations_def inbox_registrations_def media_registrations_def
      notification_registrations_def presence_registrations_def store_registrations_def
      voice_registrations_def list_atoms_def)

lemma apply_inv:
  assumes "I st"
    and "\<And>ty' a p st v. (ty', a, p) \<in> set rs \<Longrightarrow> I st \<Longrightarrow> p (st a) d st = Some v \<Longrightarrow> I (st(a := v))"
  shows "I (fst (apply_ws_update (register_all rs []) ty d st))"
proof (cases "handlers_for rs ty = []")
  case True
  with assms(1) show ?thesis by (simp add: apply_registered)
next
  case False
  have "I (fst (run_handlers (handlers_for rs ty) d st))"
    by (rule run_handlers_inv [of I, OF assms(1)]) (auto simp: in_handlers_for intro: assms(2))
  with False show ?thesis by (simp add: apply_registered)
qed

definition identity_atoms :: "atom list" where
  "identity_atoms =
     [CurrentUserAtom, GuestSandboxAtom, ActiveCategoryFeedIdAtom, ActiveUserFeedIdAtom,
      ActiveAllFeedIdAtom, SelectedCategoryIdAtom]"

lemma registry_keeps_arrays:
  assumes "arrays_ok st"
  shows "arrays_ok (fst (apply_ws_update (client_registry now_iso now) ty d st))"
  unfolding client_registry_def
proof (rule apply_inv [of arrays_ok, OF assms])
  fix ty a p st v d
  assume "(ty, a, p) \<in> set (client_registrations now_iso now)" "arrays_ok st" "p (st a) d st = Some v"
  with registrations_keep_arrays [of now_iso now] show "arrays_ok (st(a := v))"
    by (fastforce simp: arrays_ok_def list_all_iff keeps_array_def)
qed

lemma registry_keeps_identity:
  assumes "a \<in> set identity_atoms"
  shows "fst (apply_ws_update (client_registry now_iso now) ty d st) a = st a"
  unfolding client_registry_def
proof (rule apply_inv [where I = "\<lambda>st'. st' a = st a" and st = st])
  fix ty' a' p st' v d
  assume r: "(ty', a', p) \<in> set (client_registrations now_iso now)" and "st' a = st a"
  have "a' \<noteq> a" using r assms unfolding identity_atoms_def
    by (auto simp: client_registrations_def chat_registrations_def config_registrations_def
        events_registrations_def forum_registrations_def inbox_registrations_def media_registrations_def
        notification_registrations_def presence_registrations_def store_registrations_def
        voice_registrations_def)
  with \<open>st' a = st a\<close> show "(st'(a' := v)) a = st a" by simp
qed simp

section \<open>Properties\<close>


text \<open>
  However malformed a payload is, and even when a patch throws on it, every list the
  components map over is still an array afterwards: lists start as arrays and no registered patch
  can put anything else in their atoms.
\<close>

lemma arrays_survive_any_message:
  assumes "arrays_ok st"
  shows "arrays_ok (fst (apply_message_update (client_registry now_iso now) type payload st))"
  unfolding apply_message_key by (rule registry_keeps_arrays [OF assms])

text \<open>
  No message of the server, well formed or not, writes through the registry who the current user
  is, whether the guest sandbox is on, which feeds are being viewed, or which category is selected.
\<close>

lemma registry_never_writes_identity:
  assumes "a \<in> set identity_atoms"
  shows "fst (apply_message_update (client_registry now_iso now) type payload st) a = st a"
  unfolding apply_message_key by (rule registry_keeps_identity [OF assms])

section \<open>Witnesses\<close>

text \<open>The store as the modules initialise it.\<close>

definition initial_store :: ws_store where
  "initial_store a =
     (if a \<in> set list_atoms then JArr []
      else if a = CursorPositionsAtom then JMap []
      else if a = VoicePermissionsAtom then voice_initial
      else if a = InboxUnreadCountAtom then JNum 0
      else if a = GuestSandboxAtom then JBool False
      else JNull)"

lemma initial_store_ok: "types_ok client_type initial_store" "arrays_ok initial_store"
  by (simp_all add: types_ok_def client_type_def forum_type_def store_type_def inbox_type_def
      social_type_def initial_store_def list_atoms_def feed_inv_def is_map_def voice_ok_def
      voice_initial_def arrays_ok_def is_arr_def)


lemma arrays_survive_any_message_witness:
  "arrays_ok (fst (apply_message_update (client_registry [] 0) ''inbox:update''
     (JObj [(''action'', JStr ''message_created''), (''data'', JNull)]) initial_store))"
  by (rule arrays_survive_any_message [OF initial_store_ok(2)])

lemma registry_never_writes_identity_witness:
  "fst (apply_message_update (client_registry [] 0) ''user:update'' JNull initial_store) CurrentUserAtom = JNull"
  using registry_never_writes_identity [of CurrentUserAtom "[]" 0 "''user:update''" JNull initial_store]
  by (simp add: initial_store_def list_atoms_def identity_atoms_def)

end
