(* ===== verification/GuestSession.thy ===== *)
theory GuestSession
  imports JsValue
begin

text \<open>
  \<open>utils/guestSession.ts\<close>: the identity of a guest's browser and the pending recovery request that
  lets a guest take over an account once. Browser storage may refuse any access; a refused access
  throws, which the code catches.
\<close>

section \<open>The browser\<close>

text \<open>What \<open>crypto\<close> offers; the argument counts the calls, so that every call may give another value.\<close>

datatype crypto =
    RandomUUID "nat \<Rightarrow> string"
  | RandomBytes "nat \<Rightarrow> nat list"
  | NoCrypto

text \<open>A text in storage: one that \<open>JSON.parse\<close> reads, or one that it rejects.\<close>

datatype stored_text = JsonText jsval | OtherText string

record guest_env =
  local_read_ok :: bool
  local_write_ok :: bool
  local_items :: "(string, string) jsmap"
  session_read_ok :: bool
  session_write_ok :: bool
  session_items :: "(string, stored_text) jsmap"
  memory_guest_id :: "string option"
  browser_crypto :: crypto
  crypto_calls :: nat

definition guest_session_key :: string where
  "guest_session_key = ''skaia.guestSessionId''"

definition pending_recovery_key :: string where
  "pending_recovery_key = ''skaia.pendingRecoveryRequest''"

section \<open>The guest session id\<close>

definition hex_lower :: "nat \<Rightarrow> char" where
  "hex_lower n = ''0123456789abcdef'' ! (n mod 16)"

text \<open>\<open>byte.toString(16).padStart(2, "0")\<close> for a byte.\<close>

definition hex_byte :: "nat \<Rightarrow> string" where
  "hex_byte b = [hex_lower (b div 16), hex_lower (b mod 16)]"

definition hex_bytes :: "nat list \<Rightarrow> string" where
  "hex_bytes bs = concat (map hex_byte bs)"

definition generate_guest_session_id :: "guest_env \<Rightarrow> string option \<times> guest_env" where
  "generate_guest_session_id env =
     (let env' = env\<lparr>crypto_calls := Suc (crypto_calls env)\<rparr> in
      case browser_crypto env of
        RandomUUID uuid \<Rightarrow> (Some (uuid (crypto_calls env)), env')
      | RandomBytes bytes \<Rightarrow> (Some (hex_bytes (bytes (crypto_calls env))), env')
      | NoCrypto \<Rightarrow> (None, env))"

text \<open>The \<open>catch\<close> branch: \<open>memoryGuestSessionId ??= generateGuestSessionId()\<close>.\<close>

definition memory_session_id :: "guest_env \<Rightarrow> string option \<times> guest_env" where
  "memory_session_id env =
     (case memory_guest_id env of
        Some i \<Rightarrow> (Some i, env)
      | None \<Rightarrow> (case generate_guest_session_id env of
            (Some i, env') \<Rightarrow> (Some i, env'\<lparr>memory_guest_id := Some i\<rparr>)
          | (None, env') \<Rightarrow> (None, env')))"

definition get_guest_session_id :: "guest_env \<Rightarrow> string option \<times> guest_env" where
  "get_guest_session_id env =
     (if \<not> local_read_ok env then memory_session_id env
      else case map_get (local_items env) guest_session_key of
        Some (c # cs) \<Rightarrow> (Some (c # cs), env)
      | _ \<Rightarrow> (case generate_guest_session_id env of
            (None, env') \<Rightarrow> memory_session_id env'
          | (Some i, env') \<Rightarrow>
              if local_write_ok env'
              then (Some i, env'\<lparr>local_items := map_set guest_session_key i (local_items env')\<rparr>)
              else memory_session_id env'))"

section \<open>The pending recovery request\<close>

definition remember_pending_recovery :: "jsval \<Rightarrow> jsval \<Rightarrow> guest_env \<Rightarrow> guest_env" where
  "remember_pending_recovery request_id guest_id env =
     (if \<not> truthy request_id \<or> \<not> truthy guest_id then env
      else if session_write_ok env
      then env\<lparr>session_items := map_set pending_recovery_key
        (JsonText (JObj [(''requestId'', request_id), (''guestSessionId'', guest_id)])) (session_items env)\<rparr>
      else env)"

definition consume_pending_recovery :: "jsval \<Rightarrow> jsval \<Rightarrow> guest_env \<Rightarrow> bool \<times> guest_env" where
  "consume_pending_recovery request_id guest_id env =
     (if \<not> truthy request_id \<or> \<not> truthy guest_id \<or> \<not> session_read_ok env then (False, env)
      else case map_get (session_items env) pending_recovery_key of
        Some (JsonText pending) \<Rightarrow>
          if nullish pending then (False, env)
          else if \<not> strict_eq (fld pending ''requestId'') request_id
            \<or> \<not> strict_eq (fld pending ''guestSessionId'') guest_id then (False, env)
          else if session_write_ok env
          then (True, env\<lparr>session_items := map_delete pending_recovery_key (session_items env)\<rparr>)
          else (False, env)
      | _ \<Rightarrow> (False, env))"

section \<open>Identifiers\<close>

lemma hex_lower_inject: "hex_lower m = hex_lower n \<longleftrightarrow> m mod 16 = n mod 16"
proof -
  have d: "distinct ''0123456789abcdef''" by simp
  show ?thesis unfolding hex_lower_def
    by (subst nth_eq_iff_index_eq [OF d]) simp_all
qed

lemma hex_byte_inject: "a < 256 \<Longrightarrow> b < 256 \<Longrightarrow> hex_byte a = hex_byte b \<longleftrightarrow> a = b"
proof
  assume ab: "a < 256" "b < 256" and eq: "hex_byte a = hex_byte b"
  then have "a div 16 mod 16 = b div 16 mod 16" "a mod 16 = b mod 16"
    by (simp_all add: hex_byte_def hex_lower_inject)
  moreover from ab have "a div 16 < 16" "b div 16 < 16" by simp_all
  ultimately have "a div 16 = b div 16" "a mod 16 = b mod 16" by simp_all
  then show "a = b" by (metis div_mult_mod_eq)
qed simp

lemma hex_bytes_simps [simp]:
  "hex_bytes [] = []" "hex_bytes (b # bs) = hex_byte b @ hex_bytes bs"
  by (simp_all add: hex_bytes_def)

lemma length_hex_byte [simp]: "length (hex_byte b) = 2"
  by (simp add: hex_byte_def)

lemma length_hex_bytes: "length (hex_bytes bs) = 2 * length bs"
  by (induction bs) simp_all

lemma generate_keeps:
  "generate_guest_session_id env = (r, env') \<Longrightarrow>
   local_read_ok env' = local_read_ok env \<and> local_write_ok env' = local_write_ok env
   \<and> local_items env' = local_items env \<and> browser_crypto env' = browser_crypto env
   \<and> memory_guest_id env' = memory_guest_id env"
  by (auto simp: generate_guest_session_id_def Let_def split: crypto.splits)

lemma generate_none:
  "generate_guest_session_id env = (r, env') \<Longrightarrow> r = None \<longleftrightarrow> browser_crypto env = NoCrypto"
  by (auto simp: generate_guest_session_id_def Let_def split: crypto.splits)

lemma memory_session_known: "memory_guest_id env = Some i \<Longrightarrow> memory_session_id env = (Some i, env)"
  by (simp add: memory_session_id_def)

lemma memory_session_keeps:
  assumes "memory_session_id env = (Some i, env')"
  shows "local_read_ok env' = local_read_ok env \<and> local_write_ok env' = local_write_ok env
   \<and> local_items env' = local_items env \<and> browser_crypto env' = browser_crypto env
   \<and> memory_guest_id env' = Some i"
proof (cases "memory_guest_id env")
  case None
  obtain r env1 where "generate_guest_session_id env = (r, env1)" by (cases "generate_guest_session_id env")
  with None assms generate_keeps [OF this] show ?thesis
    by (auto simp: memory_session_id_def split: option.splits)
qed (use assms in \<open>simp add: memory_session_id_def\<close>)

lemma get_unknown:
  assumes "local_read_ok env" "map_get (local_items env) guest_session_key \<in> {None, Some []}"
    and "generate_guest_session_id env = (r, env1)"
  shows "get_guest_session_id env = (case r of None \<Rightarrow> memory_session_id env1
      | Some j \<Rightarrow> if local_write_ok env1
          then (Some j, env1\<lparr>local_items := map_set guest_session_key j (local_items env1)\<rparr>)
          else memory_session_id env1)"
  using assms by (auto simp: get_guest_session_id_def split: option.splits)

section \<open>Properties\<close>

text \<open>
  Guest ids made from random bytes are as unique as the bytes: sixteen bytes give thirty-two
  hexadecimal digits, and different byte sequences give different ids (the zero padding keeps the
  encoding unambiguous).
\<close>

lemma guest_ids_faithful:
  assumes "list_all (\<lambda>b. b < 256) xs" "list_all (\<lambda>b. b < 256) ys"
  shows "(hex_bytes xs = hex_bytes ys \<longleftrightarrow> xs = ys) \<and> length (hex_bytes xs) = 2 * length xs"
proof -
  have "hex_bytes xs = hex_bytes ys \<Longrightarrow> xs = ys"
    using assms
  proof (induction xs arbitrary: ys)
    case Nil
    then show ?case by (cases ys) (auto simp: hex_byte_def)
  next
    case (Cons x xs)
    then obtain y zs where "ys = y # zs" by (cases ys) (auto simp: hex_byte_def)
    with Cons show ?case by (simp add: hex_byte_inject)
  qed
  then show ?thesis by (auto simp: length_hex_bytes)
qed

lemma guest_ids_faithful_witness:
  "hex_bytes [1, 16] \<noteq> hex_bytes [17, 0] \<and> length (hex_bytes [1, 16]) = 4"
  using guest_ids_faithful [of "[1, 16]" "[17, 0]"] by simp

text \<open>
  A browser keeps its guest id: once an id was handed out every later call gives the same id,
  whether storage works, refuses reading or refuses writing.
\<close>

lemma guest_session_id_stable:
  assumes "get_guest_session_id env = (Some i, env')" "i \<noteq> []"
  shows "fst (get_guest_session_id env') = Some i"
proof (cases "local_read_ok env \<and> map_get (local_items env) guest_session_key \<in> {None, Some []}")
  case False
  show ?thesis
  proof (cases "local_read_ok env")
    case True
    with False obtain c cs where "map_get (local_items env) guest_session_key = Some (c # cs)"
      by (metis insertCI list.exhaust option.exhaust)
    with True assms(1) show ?thesis by (auto simp: get_guest_session_id_def)
  next
    case False
    with assms(1) have m: "memory_session_id env = (Some i, env')" by (simp add: get_guest_session_id_def)
    with False show ?thesis using memory_session_keeps [OF m]
      by (simp add: get_guest_session_id_def memory_session_known)
  qed
next
  case True
  obtain r env1 where g: "generate_guest_session_id env = (r, env1)" by (cases "generate_guest_session_id env")
  note keep = generate_keeps [OF g]
  have unfold_get: "get_guest_session_id env = (case r of None \<Rightarrow> memory_session_id env1
      | Some j \<Rightarrow> if local_write_ok env1
          then (Some j, env1\<lparr>local_items := map_set guest_session_key j (local_items env1)\<rparr>)
          else memory_session_id env1)"
    using True by (intro get_unknown g) simp_all
  show ?thesis
  proof (cases "r \<noteq> None \<and> local_write_ok env1")
    case True
    with unfold_get assms keep \<open>local_read_ok env \<and> _\<close> show ?thesis
      by (cases i) (auto simp: get_guest_session_id_def)
  next
    case False
    with unfold_get assms(1) have m: "memory_session_id env1 = (Some i, env')"
      by (cases r) auto
    note mk = memory_session_keeps [OF m]
    obtain r2 env2 where g2: "generate_guest_session_id env' = (r2, env2)"
      by (cases "generate_guest_session_id env'")
    note keep2 = generate_keeps [OF g2]
    have "r2 = None \<longleftrightarrow> r = None"
      using generate_none [OF g] generate_none [OF g2] keep mk by simp
    with False keep mk keep2 have "r2 = None \<or> \<not> local_write_ok env2" by simp
    moreover have "memory_session_id env2 = (Some i, env2)"
      by (rule memory_session_known) (use keep2 mk in simp)
    moreover have "local_read_ok env'" "map_get (local_items env') guest_session_key \<in> {None, Some []}"
      using True keep mk by simp_all
    ultimately show ?thesis using get_unknown [OF _ _ g2] by (cases r2) simp_all
  qed
qed

lemma guest_session_id_stable_witness:
  "fst (get_guest_session_id (snd (get_guest_session_id
     \<lparr>local_read_ok = True, local_write_ok = False, local_items = [], session_read_ok = True,
      session_write_ok = True, session_items = [], memory_guest_id = None,
      browser_crypto = RandomBytes (\<lambda>n. [n + 10]), crypto_calls = 0\<rparr>))) = Some ''0b''"
proof -
  let ?env = "\<lparr>local_read_ok = True, local_write_ok = False, local_items = [], session_read_ok = True,
    session_write_ok = True, session_items = [], memory_guest_id = None,
    browser_crypto = RandomBytes (\<lambda>n. [n + 10]), crypto_calls = 0\<rparr>"
  have "get_guest_session_id ?env = (Some ''0b'', snd (get_guest_session_id ?env))"
    by (simp add: get_guest_session_id_def generate_guest_session_id_def memory_session_id_def
        hex_byte_def hex_lower_def Let_def)
  then show ?thesis by (rule guest_session_id_stable) simp
qed

text \<open>
  A recovery is accepted at most once and only for the pair that was remembered: consuming
  succeeds exactly when the remembered request and session are the ones asked for and storage
  works, a second attempt fails, and another pair leaves the pending request in place.
\<close>

lemma recovery_consumed_once:
  assumes "session_read_ok env" "session_write_ok env" "request = JStr r" "r \<noteq> []" "guest = JStr g" "g \<noteq> []"
  shows "fst (consume_pending_recovery request guest (remember_pending_recovery request guest env))
    \<and> \<not> fst (consume_pending_recovery request guest
        (snd (consume_pending_recovery request guest (remember_pending_recovery request guest env))))
    \<and> ((r', g') \<noteq> (r, g) \<longrightarrow>
        consume_pending_recovery (JStr r') (JStr g') (remember_pending_recovery request guest env) =
          (False, remember_pending_recovery request guest env))"
  using assms by (auto simp: consume_pending_recovery_def remember_pending_recovery_def)

lemma recovery_consumed_once_witness:
  "fst (consume_pending_recovery (JStr ''17'') (JStr ''g'') (remember_pending_recovery (JStr ''17'') (JStr ''g'')
     \<lparr>local_read_ok = True, local_write_ok = True, local_items = [], session_read_ok = True,
      session_write_ok = True, session_items = [], memory_guest_id = None,
      browser_crypto = NoCrypto, crypto_calls = 0\<rparr>))"
  using recovery_consumed_once [of "\<lparr>local_read_ok = True, local_write_ok = True, local_items = [],
      session_read_ok = True, session_write_ok = True, session_items = [], memory_guest_id = None,
      browser_crypto = NoCrypto, crypto_calls = 0\<rparr>" "JStr ''17''" "''17''" "JStr ''g''" "''g''"]
  by simp

end
