(* ===== verification/MessageHandlers.thy ===== *)
theory MessageHandlers
  imports ClientRegistry GuestSession
begin

text \<open>
  \<open>hooks/handlers.ts\<close> and the dispatch of \<open>ws.onmessage\<close> in \<open>hooks/useWebSocketSync.ts\<close>: what a
  message does beyond the registry. A handler is an action on the client's state; its flag says
  whether it ran to its end or threw, and what it did before it threw stays done. What leaves the
  model (events of the window, toasts, sounds, frames sent) is recorded, latest last.
\<close>

section \<open>State and actions\<close>

datatype toast_kind = PlainToast | SuccessToast | ErrorToast
datatype sound = ChatSound | MessageSound | NotificationSound

datatype effect =
    DispatchEvent string jsval
  | ShowToast toast_kind jsval jsval
  | PlaySound sound
  | SendFrame string jsval
  | ApiResponse "nat list"
  | LogError

record client_state =
  cl_store :: ws_store
  cl_access :: jsval
  cl_refresh :: jsval
  cl_user_id :: jsval
  cl_tp_route :: jsval
  cl_tp_user :: jsval
  cl_subs :: "string list"
  cl_guest :: guest_env
  cl_effects :: "effect list"

text \<open>A client that has just been loaded: every atom at its initial value and an empty browser storage.\<close>

definition fresh_client :: client_state where
  "fresh_client = \<lparr>cl_store = initial_store, cl_access = JNull, cl_refresh = JNull, cl_user_id = JUndef,
     cl_tp_route = JUndef, cl_tp_user = JUndef, cl_subs = [],
     cl_guest = \<lparr>local_read_ok = True, local_write_ok = True, local_items = [], session_read_ok = True,
       session_write_ok = True, session_items = [], memory_guest_id = None, browser_crypto = NoCrypto, crypto_calls = 0\<rparr>,
     cl_effects = []\<rparr>"

type_synonym action = "client_state \<Rightarrow> client_state \<times> bool"

definition skip :: action where
  "skip s = (s, True)"

definition throw :: action where
  "throw s = (s, False)"

definition and_then :: "action \<Rightarrow> action \<Rightarrow> action" where
  "and_then f g s = (case f s of (s', ok) \<Rightarrow> if ok then g s' else (s', False))"

definition do_if :: "bool \<Rightarrow> action \<Rightarrow> action" where
  "do_if b f = (if b then f else skip)"

fun run_all :: "action list \<Rightarrow> action" where
  "run_all [] = skip"
| "run_all (f # fs) = and_then f (run_all fs)"

lemma do_if_app: "do_if b f s = (if b then f s else (s, True))"
  by (simp add: do_if_def skip_def)

definition emit :: "effect \<Rightarrow> action" where
  "emit e s = (s\<lparr>cl_effects := cl_effects s @ [e]\<rparr>, True)"

definition dispatch_event :: "string \<Rightarrow> (string \<times> jsval) list \<Rightarrow> action" where
  "dispatch_event ty detail = emit (DispatchEvent ty (JObj detail))"

definition set_atom :: "atom \<Rightarrow> jsval \<Rightarrow> action" where
  "set_atom a v s = (s\<lparr>cl_store := (cl_store s)(a := v)\<rparr>, True)"

definition set_current_user :: "jsval \<Rightarrow> action" where
  "set_current_user v = set_atom CurrentUserAtom v"

definition set_access_token :: "jsval \<Rightarrow> action" where
  "set_access_token v s = (s\<lparr>cl_access := v\<rparr>, True)"

definition set_refresh_token :: "jsval \<Rightarrow> action" where
  "set_refresh_token v s = (s\<lparr>cl_refresh := v\<rparr>, True)"

text \<open>\<open>applyWsUpdate\<close> and \<open>applyMessageUpdate\<close>, which throw if a patch throws.\<close>

definition apply_update :: "ws_registry \<Rightarrow> string \<Rightarrow> jsval \<Rightarrow> action" where
  "apply_update registry type data s =
     (case apply_ws_update registry type data (cl_store s) of
        (st, outcome) \<Rightarrow> (s\<lparr>cl_store := st\<rparr>, outcome \<noteq> Threw))"

definition apply_message :: "ws_registry \<Rightarrow> string \<Rightarrow> jsval \<Rightarrow> action" where
  "apply_message registry type payload s =
     (case apply_message_update registry type payload (cl_store s) of
        (st, outcome) \<Rightarrow> (s\<lparr>cl_store := st\<rparr>, outcome \<noteq> Threw))"

section \<open>The event bus\<close>

definition event_bus_types :: "string list" where
  "event_bus_types =
     [''mediascraper:result'', ''mediascraper:started'', ''mediascraper:dropped'',
      ''grengo:job_update'', ''grengo:action_ack'', ''grengo:stats_update'',
      ''grengo:storage_update'', ''grengo:hardware_update'', ''logs:stream'',
      ''provisioning:progress'', ''provisioning:status'', ''recovery_request:update'',
      ''voice:signal'']"

text \<open>Whether \<open>dispatchEventBusMessage\<close> claims the type, and what it then does.\<close>

definition on_event_bus :: "string \<Rightarrow> bool" where
  "on_event_bus type = (type \<in> set ([''mediascraper:jobs'', ''media:sfx'', ''page:update''] @ event_bus_types))"

definition dispatch_event_bus_message :: "string \<Rightarrow> jsval \<Rightarrow> action" where
  "dispatch_event_bus_message type payload =
     (if type = ''mediascraper:jobs'' then
        (if nullish payload then throw
         else do_if (fld payload ''active_jobs'' \<noteq> JUndef) (dispatch_event ''mediascraper:jobs''
           [(''active_jobs'', fld payload ''active_jobs''), (''cache_hits_1h'', fld payload ''cache_hits_1h''),
            (''new_scrapes_1h'', fld payload ''new_scrapes_1h'')]))
      else if type = ''media:sfx'' then emit (DispatchEvent ''media:sfx'' (fld payload ''sfx_type''))
      else if type = ''page:update'' then dispatch_event ''page:live:event''
        [(''action'', fld payload ''action''), (''data'', fld payload ''data'')]
      else if type \<in> set event_bus_types then emit (DispatchEvent type payload)
      else skip)"

section \<open>The handlers\<close>

definition subscribe_to_forum_category :: "bool \<Rightarrow> jsval \<Rightarrow> action" where
  "subscribe_to_forum_category ws_open category_id = run_all
     [\<lambda>s. (s\<lparr>cl_subs := List.insert (''forum_category:'' @ js_string category_id) (cl_subs s)\<rparr>, True),
      do_if ws_open (emit (SendFrame ''subscribe''
        (JObj [(''resource_type'', JStr ''forum_category''), (''resource_id'', category_id)])))]"

text \<open>\<open>myId && String(v.id) === String(myId)\<close>.\<close>

definition is_me :: "jsval \<Rightarrow> jsval \<Rightarrow> bool" where
  "is_me my_id v = (truthy my_id \<and> js_string (fld v ''id'') = js_string my_id)"

definition handle_permissions_changed :: "jsval \<Rightarrow> action" where
  "handle_permissions_changed data s = run_all
     [do_if (is_me (cl_user_id s) data) (run_all
        [\<lambda>s. set_current_user (let prev = cl_store s CurrentUserAtom in
           if \<not> truthy prev then prev
           else obj_with prev
             [(''roles'', js_coalesce (fld data ''roles'') (fld prev ''roles'')),
              (''permissions'', js_coalesce (fld data ''permissions'') (fld prev ''permissions''))]) s,
         do_if (truthy (fld data ''new_token'')) (set_access_token (fld data ''new_token''))]),
      dispatch_event ''user:profile:updated''
        [(''userId'', JStr (js_string (fld data ''id''))),
         (''user'', JObj [(''roles'', fld data ''roles''), (''permissions'', fld data ''permissions'')])]] s"

definition handle_user_changed :: "jsval \<Rightarrow> action" where
  "handle_user_changed data s =
     (let updated = fld data ''user'';
          new_token = fld data ''new_token'';
          me = is_me (cl_user_id s) updated
      in run_all
       [do_if (truthy (fld data ''mfa_challenge_triggered'') \<and> me)
          (dispatch_event ''auth:mfa-required'' [(''reasonCode'', fld data ''mfa_reason_code'')]),
        dispatch_event ''user:profile:updated''
          [(''userId'', JStr (js_string (fld updated ''id''))), (''user'', updated)],
        do_if me (run_all
          [set_current_user updated,
           do_if (truthy new_token) (set_access_token new_token),
           do_if (truthy (fld updated ''is_suspended'')) (run_all
             [set_access_token JNull, set_refresh_token JNull, set_current_user JNull])])] s)"

definition handle_user_update :: "jsval \<Rightarrow> action" where
  "handle_user_update payload =
     (if nullish payload then throw
      else
        let user_action = fld payload ''action'';
            user_data = fld payload ''data''
        in run_all
         [do_if (user_action = JStr ''permissions_changed'' \<and> truthy user_data)
            (handle_permissions_changed user_data),
          do_if (truthy (fld user_data ''user'')) (handle_user_changed user_data),
          do_if (user_action = JStr ''user_updated'' \<and> fld user_data ''action'' = JStr ''uploads_changed'')
            (dispatch_event ''user:uploads:changed''
              [(''userId'', JStr (js_string (js_coalesce (fld payload ''id'') (JNum 0))))])])"

text \<open>The preview in the toast of a new comment: at most 80 characters.\<close>

definition comment_preview :: "jsval \<Rightarrow> jsval" where
  "comment_preview content =
     (case content of
        JStr s \<Rightarrow> if length s > 80 then JStr (take 80 s @ ''...'') else content
      | JArr xs \<Rightarrow> if length xs > 80 then JStr (js_string (JArr (take 80 xs)) @ ''...'') else content
      | _ \<Rightarrow> content)"

definition handle_comment_toast :: "jsval \<Rightarrow> action" where
  "handle_comment_toast data s =
     (let new_comment = fld data ''new_comment'';
          is_owner = (\<not> nullish (cl_user_id s) \<and>
            js_string (fld new_comment ''user_id'') = js_string (cl_user_id s))
      in do_if (truthy new_comment \<and> \<not> is_owner) (emit (ShowToast PlainToast
           (JStr (js_string (js_or (fld new_comment ''author_name'') (JStr ''Someone'')) @ '' commented''))
           (comment_preview (fld new_comment ''content'')))) s)"

definition handle_forum_update :: "ws_registry \<Rightarrow> bool \<Rightarrow> jsval \<Rightarrow> action" where
  "handle_forum_update registry ws_open payload =
     (if nullish payload then throw
      else
        let act = fld payload ''action'';
            data = fld payload ''data''
        in run_all
         [do_if (act = JStr ''category_created'' \<and> truthy (fld data ''id''))
            (subscribe_to_forum_category ws_open (fld data ''id'')),
          apply_message registry ''forum:update'' payload,
          do_if (act = JStr ''comment_created'') (handle_comment_toast data)])"

text \<open>\<open>formatCents\<close> of \<open>utils/money.ts\<close> on whole cents.\<close>

definition two_digits :: "nat \<Rightarrow> string" where
  "two_digits n = [digit_char (n div 10 mod 10), digit_char (n mod 10)]"

definition format_cents :: "int \<Rightarrow> string" where
  "format_cents cents =
     ''$'' @ (if cents < 0 then ''-'' else [])
     @ dec_nat (nat \<bar>cents\<bar> div 100) @ ''.'' @ two_digits (nat \<bar>cents\<bar> mod 100)"

definition format_amount :: "jsval \<Rightarrow> string" where
  "format_amount v = (case js_number (js_or v (JNum 0)) of JNum n \<Rightarrow> format_cents n | _ \<Rightarrow> ''$NaN'')"

definition handle_store_update :: "ws_registry \<Rightarrow> jsval \<Rightarrow> action" where
  "handle_store_update registry payload =
     (let act = fld payload ''action'';
          resp = fld payload ''data''
      in run_all
       [apply_message registry ''store:update'' payload,
        do_if (act = JStr ''purchase_success'') (emit (ShowToast SuccessToast (JStr ''Payment successful!'')
          (JStr (''Order #'' @ js_string (fld (fld resp ''order'') ''id'') @ '' - ''
            @ format_amount (fld (fld resp ''order'') ''total_price''))))),
        do_if (act = JStr ''purchase_failure'') (emit (ShowToast ErrorToast (JStr ''Payment failed'')
          (js_coalesce (fld resp ''message'') (JStr ''Please try again.''))))])"

definition handle_notification :: "ws_registry \<Rightarrow> jsval \<Rightarrow> action" where
  "handle_notification registry payload = run_all
     [apply_update registry ''notification'' payload,
      emit (PlaySound NotificationSound),
      (if nullish payload then throw
       else emit (ShowToast PlainToast (fld payload ''message'') (fld payload ''route'')))]"

definition handle_global_chat :: "ws_registry \<Rightarrow> jsval \<Rightarrow> action" where
  "handle_global_chat registry payload = run_all
     [apply_update registry ''global:chat'' payload,
      (if nullish payload then throw
       else (\<lambda>s. do_if (js_string (fld payload ''user_id'') \<noteq> js_string (cl_user_id s))
         (emit (PlaySound ChatSound)) s))]"

definition handle_inbox_update :: "ws_registry \<Rightarrow> jsval \<Rightarrow> jsval \<Rightarrow> action" where
  "handle_inbox_update registry active payload =
     (let was_active_deleted =
        (fld payload ''action'' = JStr ''conversation_deleted''
         \<and> truthy (fld (fld payload ''data'') ''id'')
         \<and> js_string active = key_of (fld payload ''data''))
      in run_all
       [apply_message registry ''inbox:update'' payload,
        do_if was_active_deleted (emit (ShowToast ErrorToast
          (JStr ''You are no longer in this conversation'') JUndef))])"

definition handle_inbox_message :: "ws_registry \<Rightarrow> jsval \<Rightarrow> action" where
  "handle_inbox_message registry payload = run_all
     [apply_update registry ''inbox:message'' payload,
      (\<lambda>s. do_if (text_field payload ''sender_id'' \<noteq> js_string (cl_user_id s))
        (emit (PlaySound MessageSound)) s)]"

definition handle_config_update :: "ws_registry \<Rightarrow> jsval \<Rightarrow> action" where
  "handle_config_update registry payload = run_all
     [apply_message registry ''config:update'' payload,
      dispatch_event ''config:live:event''
        [(''action'', fld payload ''action''), (''data'', fld payload ''data'')]]"

text \<open>What an accepted recovery does to the session.\<close>

definition take_over :: "jsval \<Rightarrow> jsval \<Rightarrow> action" where
  "take_over auth payload = run_all
     [set_access_token (fld auth ''access_token''),
      do_if (truthy (fld auth ''refresh_token'')) (set_refresh_token (fld auth ''refresh_token'')),
      set_current_user (fld auth ''user''),
      emit (ShowToast SuccessToast (JStr ''Your recovery request was accepted'') JUndef),
      emit (DispatchEvent ''recovery_request:accepted'' payload)]"

text \<open>
  The checks run in the order of the code: reading the browser's session id may create it, and
  consuming the pending request is the last check.
\<close>

definition handle_recovery_accepted :: "jsval \<Rightarrow> action" where
  "handle_recovery_accepted payload s =
     (let request = fld (fld payload ''data'') ''request'';
          auth = fld (fld payload ''data'') ''auth'';
          rid = fld request ''id'';
          gid = fld request ''guest_session_id''
      in if \<not> truthy (fld auth ''access_token'') \<or> \<not> truthy (fld auth ''user'') then skip s
         else if \<not> truthy rid \<or> \<not> truthy gid then skip s
         else case get_guest_session_id (cl_guest s) of
           (None, g) \<Rightarrow> (s\<lparr>cl_guest := g\<rparr>, False)
         | (Some i, g) \<Rightarrow>
             if gid \<noteq> JStr i then (s\<lparr>cl_guest := g\<rparr>, True)
             else (case consume_pending_recovery rid gid g of
               (accepted, g') \<Rightarrow>
                 if \<not> accepted then (s\<lparr>cl_guest := g'\<rparr>, True)
                 else take_over auth payload (s\<lparr>cl_guest := g'\<rparr>)))"

section \<open>Dispatch of a message\<close>

text \<open>A decoded frame: \<open>decodeWebSocketProto\<close> gives the type, the user id and the payload.\<close>

record ws_message =
  m_type :: string
  m_user_id :: int
  m_payload :: jsval
  m_raw :: "nat list option"

definition handle_teleport :: "ws_message \<Rightarrow> action" where
  "handle_teleport m =
     (case fld (m_payload m) ''route'' of
        JStr (c # cs) \<Rightarrow> run_all
          [\<lambda>s. (s\<lparr>cl_tp_route := JStr (c # cs)\<rparr>, True),
           do_if (m_user_id m \<noteq> 0) (\<lambda>s. (s\<lparr>cl_tp_user := JNum (m_user_id m)\<rparr>, True))]
      | _ \<Rightarrow> skip)"

definition dispatch_message :: "ws_registry \<Rightarrow> bool \<Rightarrow> jsval \<Rightarrow> ws_message \<Rightarrow> action" where
  "dispatch_message registry ws_open active_conversation m =
     (let type = m_type m; payload = m_payload m in
      if type = ''error'' then
        (if nullish payload then throw
         else do_if (truthy (fld payload ''message'')) (emit (ShowToast ErrorToast (fld payload ''message'') JUndef)))
      else if type = ''api:response'' then
        (case m_raw m of Some bytes \<Rightarrow> emit (ApiResponse bytes) | None \<Rightarrow> skip)
      else if type = ''user:update'' then handle_user_update payload
      else if type = ''tp'' then handle_teleport m
      else if type = ''mfa:required'' then dispatch_event ''auth:mfa-required''
        [(''reasonCode'', fld payload ''reason_code''), (''action'', fld payload ''action'')]
      else if type = ''forum:update'' then run_all
        [handle_forum_update registry ws_open payload, emit (DispatchEvent ''forum:updated'' payload)]
      else if type = ''global:chat'' then handle_global_chat registry payload
      else if type = ''store:update'' then run_all
        [handle_store_update registry payload, emit (DispatchEvent ''store:updated'' payload)]
      else if type = ''notification'' then handle_notification registry payload
      else if type = ''inbox:update'' then handle_inbox_update registry active_conversation payload
      else if type = ''inbox:message'' then handle_inbox_message registry payload
      else if type = ''config:update'' then handle_config_update registry payload
      else if type = ''trash:update'' then run_all
        [emit (DispatchEvent ''trash:updated'' payload),
         do_if (starts_with ''documentation'' (text_field payload ''resource''))
           (emit (DispatchEvent ''documentation:updated'' payload))]
      else if type = ''documentation:update'' then emit (DispatchEvent ''documentation:updated'' payload)
      else if type = ''recovery_request:accepted'' then handle_recovery_accepted payload
      else if on_event_bus type then dispatch_event_bus_message type payload
      else apply_message registry type payload)"

text \<open>
  \<open>ws.onmessage\<close>: a frame that cannot be decoded, and any exception of a handler, is logged.
\<close>

definition on_message :: "ws_registry \<Rightarrow> bool \<Rightarrow> jsval \<Rightarrow> ws_message option \<Rightarrow> client_state \<Rightarrow> client_state" where
  "on_message registry ws_open active frame s =
     (case frame of
        None \<Rightarrow> fst (emit LogError s)
      | Some m \<Rightarrow> (case dispatch_message registry ws_open active m s of
            (s', ok) \<Rightarrow> if ok then s' else fst (emit LogError s')))"

section \<open>Reasoning about actions\<close>

text \<open>\<open>leaves R f\<close>: whether \<open>f\<close> ends or throws, the state after it is related to the one before.\<close>

definition leaves :: "(client_state \<Rightarrow> client_state \<Rightarrow> bool) \<Rightarrow> action \<Rightarrow> bool" where
  "leaves R f = (\<forall>s. R s (fst (f s)))"

definition same_identity :: "client_state \<Rightarrow> client_state \<Rightarrow> bool" where
  "same_identity s s' =
     (cl_access s' = cl_access s \<and> cl_refresh s' = cl_refresh s
      \<and> cl_store s' CurrentUserAtom = cl_store s CurrentUserAtom)"

definition same_arrays :: "client_state \<Rightarrow> client_state \<Rightarrow> bool" where
  "same_arrays s s' = (arrays_ok (cl_store s) \<longrightarrow> arrays_ok (cl_store s'))"

locale action_relation =
  fixes R :: "client_state \<Rightarrow> client_state \<Rightarrow> bool"
  assumes reflexive: "R s s"
    and transitive: "R s s' \<Longrightarrow> R s' s'' \<Longrightarrow> R s s''"
    and effects: "R s s' \<Longrightarrow> R s (s'\<lparr>cl_effects := es\<rparr>)"
begin

lemma leaves_skip: "leaves R skip" "leaves R throw"
  by (simp_all add: leaves_def skip_def throw_def reflexive)

lemma leaves_emit: "leaves R (emit e)" "leaves R (dispatch_event ty detail)"
  by (simp_all add: leaves_def dispatch_event_def emit_def effects reflexive)

lemma leaves_then:
  assumes "leaves R f" "leaves R g"
  shows "leaves R (and_then f g)"
proof -
  have "R s (fst (and_then f g s))" for s
  proof -
    obtain s' ok where f: "f s = (s', ok)" by (cases "f s")
    with assms(1) have "R s s'" by (metis fst_conv leaves_def)
    moreover have "R s' (fst (g s'))" using assms(2) by (simp add: leaves_def)
    ultimately show ?thesis using f transitive by (auto simp: and_then_def)
  qed
  then show ?thesis by (simp add: leaves_def)
qed

lemma leaves_run: "list_all (leaves R) fs \<Longrightarrow> leaves R (run_all fs)"
  by (induction fs) (simp_all add: leaves_skip leaves_then)

lemma leaves_if: "(b \<Longrightarrow> leaves R f) \<Longrightarrow> leaves R (do_if b f)"
  by (simp add: do_if_def leaves_skip)

end

locale state_relation = action_relation +
  assumes teleport: "R s s' \<Longrightarrow> R s (s'\<lparr>cl_tp_route := v\<rparr>) \<and> R s (s'\<lparr>cl_tp_user := w\<rparr>)"
    and subscriptions: "R s s' \<Longrightarrow> R s (s'\<lparr>cl_subs := ks\<rparr>)"
    and guest: "R s s' \<Longrightarrow> R s (s'\<lparr>cl_guest := g\<rparr>)"
    and registry: "R s (s\<lparr>cl_store := fst (apply_ws_update (client_registry now_iso now) ty d (cl_store s))\<rparr>)"
begin

lemma leaves_apply:
  "leaves R (apply_update (client_registry now_iso now) ty d)"
  "leaves R (apply_message (client_registry now_iso now) ty d)"
proof -
  have "R s (fst (apply_update (client_registry now_iso now) ty d s))" for s ty d
    using registry [of s now_iso now ty d]
    by (cases "apply_ws_update (client_registry now_iso now) ty d (cl_store s)") (simp add: apply_update_def)
  moreover have "apply_message (client_registry now_iso now) ty d s =
      apply_update (client_registry now_iso now) (message_key ty d) (registry_payload d) s" for s
    by (simp add: apply_message_def apply_update_def apply_message_key)
  ultimately show "leaves R (apply_update (client_registry now_iso now) ty d)"
    "leaves R (apply_message (client_registry now_iso now) ty d)"
    by (simp_all add: leaves_def)
qed

lemmas leaves_rules = leaves_skip leaves_emit leaves_run leaves_if leaves_apply

lemma leaves_handlers:
  "leaves R (dispatch_event_bus_message type payload)"
  "leaves R (handle_forum_update (client_registry now_iso now) ws_open payload)"
  "leaves R (handle_store_update (client_registry now_iso now) payload)"
  "leaves R (handle_notification (client_registry now_iso now) payload)"
  "leaves R (handle_global_chat (client_registry now_iso now) payload)"
  "leaves R (handle_inbox_update (client_registry now_iso now) active payload)"
  "leaves R (handle_inbox_message (client_registry now_iso now) payload)"
  "leaves R (handle_config_update (client_registry now_iso now) payload)"
  "leaves R (handle_teleport m)"
proof -
  have subs: "leaves R (\<lambda>s. (s\<lparr>cl_subs := f s\<rparr>, True))" for f
    by (simp add: leaves_def subscriptions reflexive)
  have tp: "leaves R (\<lambda>s. (s\<lparr>cl_tp_route := v\<rparr>, True))" "leaves R (\<lambda>s. (s\<lparr>cl_tp_user := v\<rparr>, True))" for v
    using teleport reflexive by (simp_all add: leaves_def)
  have comment: "leaves R (handle_comment_toast data)" for data
    by (simp add: leaves_def handle_comment_toast_def Let_def do_if_def emit_def skip_def effects reflexive)
  have subscribe: "leaves R (subscribe_to_forum_category b c)" for b c
    unfolding subscribe_to_forum_category_def by (rule leaves_run) (simp add: subs leaves_if leaves_emit)
  have cond: "leaves R (\<lambda>s. do_if (b s) (emit e) s)" for b e
    by (simp add: leaves_def do_if_def emit_def skip_def effects reflexive)
  show "leaves R (dispatch_event_bus_message type payload)"
    by (simp add: dispatch_event_bus_message_def leaves_skip leaves_emit leaves_if)
  show "leaves R (handle_forum_update (client_registry now_iso now) ws_open payload)"
    by (simp add: handle_forum_update_def leaves_skip Let_def leaves_then leaves_if subscribe leaves_apply comment)
  show "leaves R (handle_store_update (client_registry now_iso now) payload)"
    by (simp add: handle_store_update_def Let_def leaves_then leaves_if leaves_emit leaves_apply leaves_skip)
  show "leaves R (handle_inbox_update (client_registry now_iso now) active payload)"
    by (simp add: handle_inbox_update_def Let_def leaves_then leaves_if leaves_emit leaves_apply leaves_skip)
  show "leaves R (handle_config_update (client_registry now_iso now) payload)"
    by (simp add: handle_config_update_def leaves_then leaves_emit leaves_apply leaves_skip)
  show "leaves R (handle_notification (client_registry now_iso now) payload)"
    by (simp add: handle_notification_def leaves_then leaves_emit leaves_apply leaves_skip)
  show "leaves R (handle_global_chat (client_registry now_iso now) payload)"
    by (simp add: handle_global_chat_def leaves_then leaves_apply leaves_skip cond)
  show "leaves R (handle_inbox_message (client_registry now_iso now) payload)"
    by (simp add: handle_inbox_message_def leaves_then leaves_apply leaves_skip cond)
  show "leaves R (handle_teleport m)"
    by (simp add: handle_teleport_def leaves_then leaves_skip leaves_if tp split: jsval.split list.split)
qed

lemma leaves_dispatch:
  assumes "m_type m = ''user:update'' \<Longrightarrow> leaves R (handle_user_update (m_payload m))"
    and "m_type m = ''recovery_request:accepted'' \<Longrightarrow> leaves R (handle_recovery_accepted (m_payload m))"
  shows "leaves R (dispatch_message (client_registry now_iso now) ws_open active m)"
  using assms unfolding dispatch_message_def Let_def
  by (simp add: leaves_handlers leaves_skip leaves_emit leaves_apply leaves_if leaves_then split: option.split)

lemma leaves_on_message:
  assumes "\<And>m. frame = Some m \<Longrightarrow> m_type m = ''user:update'' \<Longrightarrow> leaves R (handle_user_update (m_payload m))"
    and "\<And>m. frame = Some m \<Longrightarrow> m_type m = ''recovery_request:accepted'' \<Longrightarrow>
      leaves R (handle_recovery_accepted (m_payload m))"
  shows "R s (on_message (client_registry now_iso now) ws_open active frame s)"
proof (cases frame)
  case None
  then show ?thesis by (simp add: on_message_def emit_def effects reflexive)
next
  case (Some m)
  have "leaves R (dispatch_message (client_registry now_iso now) ws_open active m)"
    by (rule leaves_dispatch) (use assms Some in auto)
  moreover obtain s' ok where
    "dispatch_message (client_registry now_iso now) ws_open active m s = (s', ok)" by fastforce
  ultimately show ?thesis using Some
    by (auto simp: on_message_def emit_def leaves_def effects split: prod.splits dest!: spec [of _ s])
qed

end

definition same_lists :: "client_state \<Rightarrow> client_state \<Rightarrow> bool" where
  "same_lists s s' = (\<forall>a \<in> set list_atoms. cl_store s' a = cl_store s a)"

interpretation lists: action_relation same_lists
  by unfold_locales (simp_all add: same_lists_def)

interpretation identity: state_relation same_identity
  by unfold_locales (simp_all add: same_identity_def registry_keeps_identity identity_atoms_def)

interpretation arrays: state_relation same_arrays
  by unfold_locales (simp_all add: same_arrays_def registry_keeps_arrays)

lemma lists_setters:
  "leaves same_lists (set_current_user v)" "leaves same_lists (set_access_token v)"
  "leaves same_lists (set_refresh_token v)" "leaves same_lists (\<lambda>s. set_current_user (h s) s)"
  by (simp_all add: leaves_def same_lists_def set_current_user_def set_atom_def set_access_token_def
      set_refresh_token_def list_atoms_def)

lemma leaves_here: "(\<And>s. leaves R (f s)) \<Longrightarrow> leaves R (\<lambda>s. f s s)"
  by (simp add: leaves_def)

lemma lists_user_update: "leaves same_lists (handle_user_update payload)"
proof -
  note rules = lists.leaves_skip lists.leaves_emit lists.leaves_then lists.leaves_if lists_setters
  have "leaves same_lists (handle_permissions_changed data)" for data
    unfolding handle_permissions_changed_def by (rule leaves_here) (simp add: rules)
  moreover have "leaves same_lists (handle_user_changed data)" for data
    unfolding handle_user_changed_def Let_def by (rule leaves_here) (simp add: rules)
  ultimately show ?thesis by (simp add: handle_user_update_def Let_def rules)
qed

lemma recovery_cases:
  fixes payload defines "rid \<equiv> fld (fld (fld payload ''data'') ''request'') ''id''"
    and "gid \<equiv> fld (fld (fld payload ''data'') ''request'') ''guest_session_id''"
    and "auth \<equiv> fld (fld payload ''data'') ''auth''"
  obtains (refused) g where "fst (handle_recovery_accepted payload s) = s\<lparr>cl_guest := g\<rparr>"
  | (accepted) i g g' where "get_guest_session_id (cl_guest s) = (Some i, g)"
      "consume_pending_recovery rid gid g = (True, g')"
      "handle_recovery_accepted payload s = take_over auth payload (s\<lparr>cl_guest := g'\<rparr>)"
proof -
  obtain r g where get: "get_guest_session_id (cl_guest s) = (r, g)" by fastforce
  obtain ok g' where consume: "consume_pending_recovery rid gid g = (ok, g')" by fastforce
  have same: "\<exists>g. s = s\<lparr>cl_guest := g\<rparr>" by (rule exI [of _ "cl_guest s"]) simp
  show thesis
  proof (cases "truthy (fld auth ''access_token'') \<and> truthy (fld auth ''user'') \<and> truthy rid \<and> truthy gid")
    case False
    then have "handle_recovery_accepted payload s = (s, True)"
      unfolding handle_recovery_accepted_def Let_def skip_def rid_def gid_def auth_def by auto
    then show thesis using refused same by auto
  next
    case True
    then have h: "handle_recovery_accepted payload s = (case r of None \<Rightarrow> (s\<lparr>cl_guest := g\<rparr>, False)
        | Some i \<Rightarrow> if gid \<noteq> JStr i then (s\<lparr>cl_guest := g\<rparr>, True)
          else if \<not> ok then (s\<lparr>cl_guest := g'\<rparr>, True) else take_over auth payload (s\<lparr>cl_guest := g'\<rparr>))"
      unfolding handle_recovery_accepted_def Let_def get
      using consume unfolding rid_def gid_def auth_def by (cases r) auto
    show thesis
    proof (cases "\<exists>i. r = Some i \<and> gid = JStr i \<and> ok")
      case True
      then show thesis using accepted get consume h by auto
    next
      case False
      then show thesis using refused [of g] refused [of g'] h by (cases r) (auto split: if_splits)
    qed
  qed
qed

lemma take_over_fields:
  "cl_guest (fst (take_over auth payload s)) = cl_guest s"
  "a \<noteq> CurrentUserAtom \<Longrightarrow> cl_store (fst (take_over auth payload s)) a = cl_store s a"
  "snd (take_over auth payload s)"
  by (simp_all add: take_over_def and_then_def skip_def do_if_def emit_def set_access_token_def
      set_refresh_token_def set_current_user_def set_atom_def)

lemma lists_recovery: "leaves same_lists (handle_recovery_accepted payload)"
proof -
  have "same_lists s (fst (handle_recovery_accepted payload s))" for s
    by (cases rule: recovery_cases [of payload s])
       (auto simp: same_lists_def take_over_fields list_atoms_def)
  then show ?thesis by (simp add: leaves_def)
qed

lemma lists_arrays: "leaves same_lists f \<Longrightarrow> leaves same_arrays f"
  by (auto simp: leaves_def same_lists_def same_arrays_def arrays_ok_def list_all_iff)

lemma get_id_keeps_session:
  assumes "get_guest_session_id env = (r, env')"
  shows "session_items env' = session_items env \<and> session_read_ok env' = session_read_ok env"
  using assms
  by (auto simp: get_guest_session_id_def memory_session_id_def generate_guest_session_id_def Let_def
      split: if_splits option.splits list.splits crypto.splits)

lemma consume_accepted:
  assumes "consume_pending_recovery rid gid env = (True, env')"
  shows "\<exists>pending. map_get (session_items env) pending_recovery_key = Some (JsonText pending)
    \<and> strict_eq (fld pending ''requestId'') rid \<and> strict_eq (fld pending ''guestSessionId'') gid"
    and "map_get (session_items env') pending_recovery_key = None"
  using assms
  by (auto simp: consume_pending_recovery_def split: if_splits option.splits stored_text.splits)

section \<open>Updates about users\<close>

text \<open>An action that only emits effects.\<close>

definition quiet :: "action \<Rightarrow> client_state \<Rightarrow> bool" where
  "quiet f s = (\<exists>es. f s = (s\<lparr>cl_effects := es\<rparr>, True))"

lemma quiet_skip: "quiet skip s"
  by (rule exI [of _ "cl_effects s", THEN quiet_def [THEN iffD2]]) (simp add: skip_def)

lemma quiet_emit: "quiet (emit e) s" "quiet (dispatch_event ty detail) s"
  by (auto simp: quiet_def dispatch_event_def emit_def)

lemma quiet_if: "(b \<Longrightarrow> quiet f s) \<Longrightarrow> quiet (do_if b f) s"
  by (simp add: do_if_def quiet_skip)

lemma quiet_then:
  assumes "quiet f s" "\<And>es. quiet g (s\<lparr>cl_effects := es\<rparr>)"
  shows "quiet (and_then f g) s"
proof -
  from assms(1) obtain es where "f s = (s\<lparr>cl_effects := es\<rparr>, True)" by (auto simp: quiet_def)
  moreover from assms(2) [of es] obtain es' where
    "g (s\<lparr>cl_effects := es\<rparr>) = (s\<lparr>cl_effects := es'\<rparr>, True)" by (auto simp: quiet_def)
  ultimately show ?thesis by (auto simp: quiet_def and_then_def)
qed

lemma and_then_ok: "f s = (s', True) \<Longrightarrow> and_then f g s = g s'"
  by (simp add: and_then_def)

lemma quiet_run: "(\<And>f es. f \<in> set fs \<Longrightarrow> quiet f (s\<lparr>cl_effects := es\<rparr>)) \<Longrightarrow> quiet (run_all fs) s"
proof (induction fs arbitrary: s)
  case (Cons f fs)
  have "quiet f s" using Cons.prems [of f "cl_effects s"] by simp
  moreover have "quiet (run_all fs) (s\<lparr>cl_effects := es\<rparr>)" for es
    by (rule Cons.IH) (use Cons.prems in simp)
  ultimately show ?case by (simp add: quiet_then)
qed (simp add: quiet_skip)

lemma others_are_quiet:
  assumes "\<not> is_me (cl_user_id s) (fld payload ''data'')"
    and "\<not> is_me (cl_user_id s) (fld (fld payload ''data'') ''user'')" "\<not> nullish payload"
  shows "quiet (handle_user_update payload) s"
proof -
  have "quiet (handle_permissions_changed (fld payload ''data'')) t" if "cl_user_id t = cl_user_id s" for t
    using assms(1) that unfolding quiet_def handle_permissions_changed_def
    by (simp add: do_if_app skip_def and_then_def dispatch_event_def emit_def) (rule exI, rule refl)
  moreover have "quiet (handle_user_changed (fld payload ''data'')) t" if "cl_user_id t = cl_user_id s" for t
    using assms(2) that unfolding quiet_def handle_user_changed_def
    by (simp add: do_if_app skip_def and_then_def dispatch_event_def emit_def Let_def) (rule exI, rule refl)
  ultimately show ?thesis
    using assms(3) unfolding handle_user_update_def Let_def
    by (auto intro!: quiet_then quiet_if quiet_emit quiet_skip)
qed

lemma permissions_changed_ok:
  "\<exists>s1. handle_permissions_changed d s = (s1, True) \<and> cl_user_id s1 = cl_user_id s"
  by (simp add: do_if_app skip_def handle_permissions_changed_def and_then_def dispatch_event_def
      emit_def set_current_user_def set_atom_def set_access_token_def Let_def)

lemma user_changed_suspended:
  assumes "is_me (cl_user_id s) (fld d ''user'')" "truthy (fld (fld d ''user'') ''is_suspended'')"
  shows "\<exists>s'. handle_user_changed d s = (s', True) \<and> cl_access s' = JNull
    \<and> cl_refresh s' = JNull \<and> cl_store s' CurrentUserAtom = JNull"
  using assms
  by (cases "truthy (fld d ''mfa_challenge_triggered'')"; cases "truthy (fld d ''new_token'')")
     (simp_all add: do_if_def skip_def handle_user_changed_def and_then_def dispatch_event_def emit_def
        set_current_user_def set_atom_def set_access_token_def set_refresh_token_def Let_def)

lemma suspended_logged_out:
  assumes "is_me (cl_user_id s) (fld (fld payload ''data'') ''user'')"
    and "truthy (fld (fld (fld payload ''data'') ''user'') ''is_suspended'')"
    and "fst (handle_user_update payload s) = s'"
  shows "cl_access s' = JNull \<and> cl_refresh s' = JNull \<and> cl_store s' CurrentUserAtom = JNull"
proof -
  let ?d = "fld payload ''data''"
  have p: "\<not> nullish payload" using assms(2) by (auto simp: fld_nullish)
  have u: "truthy (fld ?d ''user'')" using assms(2) by (cases "fld ?d ''user''") (auto simp: fld_def)
  obtain s1 where s1: "do_if (fld payload ''action'' = JStr ''permissions_changed'' \<and> truthy ?d)
      (handle_permissions_changed ?d) s = (s1, True)" "cl_user_id s1 = cl_user_id s"
    using permissions_changed_ok [of ?d s]
    by (cases "fld payload ''action'' = JStr ''permissions_changed'' \<and> truthy ?d") (auto simp: do_if_app)
  obtain s2 where s2: "handle_user_changed ?d s1 = (s2, True)" "cl_access s2 = JNull"
    "cl_refresh s2 = JNull" "cl_store s2 CurrentUserAtom = JNull"
    using user_changed_suspended [of s1 ?d] assms(1,2) s1(2) by auto
  have s2': "do_if (truthy (fld ?d ''user'')) (handle_user_changed ?d) s1 = (s2, True)"
    using u s2(1) by (simp add: do_if_app)
  have "quiet (and_then (do_if (fld payload ''action'' = JStr ''user_updated''
        \<and> fld ?d ''action'' = JStr ''uploads_changed'')
      (dispatch_event ''user:uploads:changed''
        [(''userId'', JStr (js_string (js_coalesce (fld payload ''id'') (JNum 0))))])) skip) s2"
    by (intro quiet_then quiet_if quiet_emit quiet_skip)
  then have "\<exists>es. handle_user_update payload s = (s2\<lparr>cl_effects := es\<rparr>, True)"
    using p by (simp add: handle_user_update_def Let_def and_then_ok s1(1) s2' quiet_def)
  then show ?thesis using assms(3) s2 by auto
qed

section \<open>Properties\<close>

text \<open>
  Only two kinds of message can change who is logged in: whatever other frame arrives, decoded
  or not, well formed or not, the access token, the refresh token and the current user stay as they
  were.
\<close>

lemma identity_needs_user_message:
  assumes "\<And>m. frame = Some m \<Longrightarrow> m_type m \<notin> {''user:update'', ''recovery_request:accepted''}"
  shows "same_identity s (on_message (client_registry now_iso now) ws_open active frame s)"
  by (rule identity.leaves_on_message) (use assms in auto)

lemma identity_needs_user_message_witness:
  "same_identity fresh_client (on_message (client_registry [] 0) True JNull
     (Some \<lparr>m_type = ''forum:update'', m_user_id = 0, m_payload = JNull, m_raw = None\<rparr>) fresh_client)"
  by (rule identity_needs_user_message) auto

text \<open>
  A \<open>user:update\<close> about somebody else changes nothing of the session: neither the tokens, nor
  the current user, nor any other atom.
\<close>

lemma update_of_others_ignored:
  assumes "\<not> is_me (cl_user_id s) (fld (m_payload m) ''data'')"
    and "\<not> is_me (cl_user_id s) (fld (fld (m_payload m) ''data'') ''user'')"
    and "m_type m = ''user:update''"
  shows "\<exists>es. on_message (client_registry now_iso now) ws_open active (Some m) s = s\<lparr>cl_effects := es\<rparr>"
proof (cases "nullish (m_payload m)")
  case True
  with assms(3) show ?thesis
    by (auto simp: on_message_def dispatch_message_def handle_user_update_def throw_def emit_def Let_def)
next
  case False
  with others_are_quiet [OF assms(1,2)] assms(3) show ?thesis
    by (auto simp: on_message_def dispatch_message_def quiet_def Let_def)
qed

lemma update_of_others_ignored_witness:
  "\<exists>es. on_message (client_registry [] 0) True JNull
     (Some \<lparr>m_type = ''user:update'', m_user_id = 0,
        m_payload = JObj [(''data'', JObj [(''user'', JObj [(''id'', JStr ''8''), (''is_suspended'', JBool True)])])],
        m_raw = None\<rparr>)
     (fresh_client\<lparr>cl_user_id := JStr ''7''\<rparr>) = fresh_client\<lparr>cl_user_id := JStr ''7'', cl_effects := es\<rparr>"
  using update_of_others_ignored [of "fresh_client\<lparr>cl_user_id := JStr ''7''\<rparr>"
    "\<lparr>m_type = ''user:update'', m_user_id = 0, m_payload = JObj [(''data'', JObj [(''user'',
       JObj [(''id'', JStr ''8''), (''is_suspended'', JBool True)])])], m_raw = None\<rparr>" "[]" 0 True JNull]
  by (simp add: is_me_def)

text \<open>
  A suspended user is logged out at once: an update of the current user that says they are
  suspended clears both tokens and the current user, whatever else the message carries, a fresh
  token included.
\<close>

lemma suspension_logs_out:
  assumes "is_me (cl_user_id s) (fld (fld (m_payload m) ''data'') ''user'')"
    and "truthy (fld (fld (fld (m_payload m) ''data'') ''user'') ''is_suspended'')"
    and "m_type m = ''user:update''"
    and "s' = on_message (client_registry now_iso now) ws_open active (Some m) s"
  shows "cl_access s' = JNull \<and> cl_refresh s' = JNull \<and> cl_store s' CurrentUserAtom = JNull"
  using suspended_logged_out [OF assms(1,2) refl] assms(3,4)
  by (auto simp: on_message_def dispatch_message_def Let_def emit_def split: prod.splits)

lemma suspension_logs_out_witness:
  "cl_access (on_message (client_registry [] 0) True JNull
     (Some \<lparr>m_type = ''user:update'', m_user_id = 0, m_payload = JObj [(''data'',
        JObj [(''user'', JObj [(''id'', JStr ''7''), (''is_suspended'', JBool True)]), (''new_token'', JStr ''t'')])],
        m_raw = None\<rparr>)
     (fresh_client\<lparr>cl_user_id := JStr ''7''\<rparr>)) = JNull"
  using suspension_logs_out [of "fresh_client\<lparr>cl_user_id := JStr ''7''\<rparr>"
    "\<lparr>m_type = ''user:update'', m_user_id = 0, m_payload = JObj [(''data'',
        JObj [(''user'', JObj [(''id'', JStr ''7''), (''is_suspended'', JBool True)]), (''new_token'', JStr ''t'')])],
      m_raw = None\<rparr>", OF _ _ _ refl, of "[]" 0 True JNull]
  by (simp add: is_me_def)

text \<open>A guest who asked for account recovery, and the message that grants it.\<close>

definition recovery_frame :: ws_message where
  "recovery_frame = \<lparr>m_type = ''recovery_request:accepted'', m_user_id = 0,
     m_payload = JObj [(''data'', JObj
       [(''request'', JObj [(''id'', JStr ''r1''), (''guest_session_id'', JStr ''g1'')]),
        (''auth'', JObj [(''access_token'', JStr ''t''), (''user'', JObj [(''id'', JStr ''7'')])])])],
     m_raw = None\<rparr>"

definition guest_state :: "client_state \<Rightarrow> client_state" where
  "guest_state s = s\<lparr>cl_access := JNull, cl_guest :=
     \<lparr>local_read_ok = True, local_write_ok = True, local_items = [(''skaia.guestSessionId'', ''g1'')],
      session_read_ok = True, session_write_ok = True,
      session_items = [(''skaia.pendingRecoveryRequest'', JsonText (JObj
        [(''requestId'', JStr ''r1''), (''guestSessionId'', JStr ''g1'')]))],
      memory_guest_id = None, browser_crypto = NoCrypto, crypto_calls = 0\<rparr>\<rparr>"

text \<open>
  C21. An account is handed over only to the browser that asked for it: when a recovery message
  changes the session, the browser had remembered a request with exactly the message's request id
  and guest session id, and that request is gone afterwards, so a replay finds nothing.
\<close>

theorem recovery_needs_pending_request:
  assumes "m_type m = ''recovery_request:accepted''"
    and "s' = on_message (client_registry now_iso now) ws_open active (Some m) s"
    and "\<not> same_identity s s'"
  shows "(\<exists>pending. map_get (session_items (cl_guest s)) pending_recovery_key = Some (JsonText pending)
      \<and> strict_eq (fld pending ''requestId'') (fld (fld (fld (m_payload m) ''data'') ''request'') ''id'')
      \<and> strict_eq (fld pending ''guestSessionId'')
          (fld (fld (fld (m_payload m) ''data'') ''request'') ''guest_session_id''))
    \<and> map_get (session_items (cl_guest s')) pending_recovery_key = None"
proof -
  let ?r = "handle_recovery_accepted (m_payload m) s"
  have dispatch: "same_identity s (fst ?r) = same_identity s s'" "cl_guest s' = cl_guest (fst ?r)"
    using assms(1,2) by (cases ?r; auto simp: on_message_def dispatch_message_def Let_def emit_def same_identity_def)+
  show ?thesis
  proof (cases rule: recovery_cases [of "m_payload m" s])
    case (refused g)
    with dispatch(1) assms(3) show ?thesis by (simp add: same_identity_def)
  next
    case (accepted i g g')
    have "session_items g = session_items (cl_guest s)" using get_id_keeps_session [OF accepted(1)] by simp
    with consume_accepted [OF accepted(2)] accepted(3) dispatch(2) take_over_fields(1)
    show ?thesis by simp
  qed
qed

lemma recovery_needs_pending_request_witness:
  "map_get (session_items (cl_guest (on_message (client_registry [] 0) True JNull (Some recovery_frame)
     (guest_state fresh_client)))) pending_recovery_key = None"
proof -
  have "\<not> same_identity (guest_state fresh_client)
      (on_message (client_registry [] 0) True JNull (Some recovery_frame) (guest_state fresh_client))"
    by (simp add: same_identity_def guest_state_def recovery_frame_def on_message_def dispatch_message_def
        handle_recovery_accepted_def take_over_def and_then_def skip_def do_if_def emit_def
        set_access_token_def set_refresh_token_def set_current_user_def set_atom_def
        get_guest_session_id_def consume_pending_recovery_def pending_recovery_key_def guest_session_key_def Let_def
        map_get_def)
  from recovery_needs_pending_request [OF _ refl this] show ?thesis by (simp add: recovery_frame_def)
qed

text \<open>
  No sequence of frames, decodable or not, well formed or not, turns a list the client keeps
  into something else: every list atom stays an array, which is what the pages map over.
\<close>

lemma lists_survive_session:
  assumes "arrays_ok (cl_store s)"
  shows "arrays_ok (cl_store (foldl (\<lambda>s frame. on_message (client_registry now_iso now) ws_open active frame s) s frames))"
proof -
  have "same_arrays s (on_message (client_registry now_iso now) ws_open active frame s)" for frame s
    by (rule arrays.leaves_on_message) (simp_all add: lists_arrays lists_user_update lists_recovery)
  then show ?thesis using assms
    by (induction frames arbitrary: s) (simp_all add: same_arrays_def)
qed

lemma lists_survive_session_witness:
  "arrays_ok (cl_store (foldl (\<lambda>s frame. on_message (client_registry [] 0) True JNull frame s)
     (guest_state fresh_client\<lparr>cl_store := initial_store\<rparr>)
     [None, Some \<lparr>m_type = ''notification'', m_user_id = 0, m_payload = JNull, m_raw = None\<rparr>, Some recovery_frame]))"
  by (rule lists_survive_session) (simp add: initial_store_ok(2))

end
