(* ===== verification/PendingTable.thy ===== *)
theory PendingTable
  imports JsPrelude "HOL-Library.Multiset"
begin

text \<open>
  The idiom \<open>Map<K, { promise, resolve, reject }>\<close> that the request batcher and the WebSocket API
  bridge share: promises that were handed out and wait to be settled. A promise is the number of its
  creation; the table also records how promises were settled, which the program itself cannot see
  but its callers can.
\<close>

record ('k, 'r) pending_table =
  pt_pending :: "('k, nat) jsmap"
  pt_settled :: "(nat \<times> 'r) list"
  pt_next :: nat

definition pt_empty :: "('k, 'r) pending_table" where
  "pt_empty = \<lparr>pt_pending = [], pt_settled = [], pt_next = 0\<rparr>"

definition pt_lookup :: "'k \<Rightarrow> ('k, 'r) pending_table \<Rightarrow> nat option" where
  "pt_lookup key t = map_get (pt_pending t) key"

text \<open>A new promise under a key, and the promise of a key settled and forgotten.\<close>

definition pt_open :: "'k \<Rightarrow> ('k, 'r) pending_table \<Rightarrow> ('k, 'r) pending_table" where
  "pt_open key t = t\<lparr>pt_pending := map_set key (pt_next t) (pt_pending t), pt_next := Suc (pt_next t)\<rparr>"

definition pt_settle :: "'k \<Rightarrow> 'r \<Rightarrow> ('k, 'r) pending_table \<Rightarrow> ('k, 'r) pending_table" where
  "pt_settle key result t =
     (case pt_lookup key t of
        None \<Rightarrow> t
      | Some promise \<Rightarrow> t\<lparr>pt_settled := pt_settled t @ [(promise, result)],
          pt_pending := map_delete key (pt_pending t)\<rparr>)"

definition pt_settle_all :: "('k \<Rightarrow> 'r) \<Rightarrow> 'k list \<Rightarrow> ('k, 'r) pending_table \<Rightarrow> ('k, 'r) pending_table" where
  "pt_settle_all result keys t = fold (\<lambda>k. pt_settle k (result k)) keys t"

definition pt_keys :: "('k, 'r) pending_table \<Rightarrow> 'k list" where
  "pt_keys t = map_keys (pt_pending t)"

section \<open>Every promise is open or settled, once\<close>

definition pt_promises :: "('k, 'r) pending_table \<Rightarrow> nat list" where
  "pt_promises t = map snd (pt_pending t) @ map fst (pt_settled t)"

definition pt_ok :: "('k, 'r) pending_table \<Rightarrow> bool" where
  "pt_ok t = (distinct (pt_keys t) \<and> mset (pt_promises t) = mset [0..<pt_next t])"

lemma pt_ok_empty: "pt_ok pt_empty"
  by (simp add: pt_ok_def pt_empty_def pt_keys_def pt_promises_def map_keys_def)

lemma map_get_split:
  assumes "map_get m k = Some v"
  obtains xs ys where "m = xs @ (k, v) # ys" "map_delete k m = xs @ map_delete k ys" "k \<notin> fst ` set xs"
  using assms
proof (induction m arbitrary: thesis)
  case (Cons p m)
  obtain k' v' where p: "p = (k', v')" by fastforce
  show ?case
  proof (cases "k' = k")
    case True
    with Cons.prems(2) p show thesis
      by (intro Cons.prems(1) [of "[]" m]) (auto simp: map_get_def map_delete_def)
  next
    case False
    with Cons.prems(2) p have "map_get m k = Some v" by (simp add: map_get_def)
    with Cons.IH obtain xs ys where "m = xs @ (k, v) # ys" "map_delete k m = xs @ map_delete k ys"
      "k \<notin> fst ` set xs" by blast
    with False p show thesis by (intro Cons.prems(1) [of "p # xs" ys]) (auto simp: map_delete_def)
  qed
qed (simp add: map_get_def)

lemma map_delete_absent: "k \<notin> fst ` set m \<Longrightarrow> map_delete k m = m"
  by (simp add: map_delete_def delete_id)

lemma mset_map_delete:
  assumes "distinct (map_keys m)" "map_get m k = Some v"
  shows "mset m = add_mset (k, v) (mset (map_delete k m))"
proof -
  from assms(2) obtain xs ys where m: "m = xs @ (k, v) # ys" "map_delete k m = xs @ map_delete k ys"
    by (rule map_get_split)
  with assms(1) have "k \<notin> fst ` set ys" by (auto simp: map_keys_def)
  with m show ?thesis by (simp add: map_delete_absent)
qed

lemma pt_settle_ok:
  assumes "pt_ok t"
  shows "pt_ok (pt_settle key result t)"
proof (cases "pt_lookup key t")
  case (Some promise)
  with assms have "mset (pt_pending t) = add_mset (key, promise) (mset (map_delete key (pt_pending t)))"
    by (intro mset_map_delete) (simp_all add: pt_ok_def pt_keys_def pt_lookup_def)
  with assms Some show ?thesis
    by (simp add: pt_ok_def pt_keys_def pt_promises_def pt_settle_def distinct_map_keys_delete)
qed (use assms in \<open>simp add: pt_settle_def\<close>)

lemma absent_key: "map_get m k = None \<longleftrightarrow> k \<notin> fst ` set m"
  by (simp add: map_get_def map_of_eq_None_iff)

lemma pt_open_ok:
  assumes "pt_ok t" "pt_lookup key t = None"
  shows "pt_ok (pt_open key t)"
proof -
  from assms(2) have "map_set key (pt_next t) (pt_pending t) = pt_pending t @ [(key, pt_next t)]"
    by (intro map_set_absent) (simp add: pt_lookup_def absent_key)
  with assms show ?thesis
    by (simp add: pt_ok_def pt_keys_def pt_promises_def pt_open_def pt_lookup_def absent_key
        distinct_map_keys_set map_keys_def)
qed

lemma pt_settle_all_ok: "pt_ok t \<Longrightarrow> pt_ok (pt_settle_all result keys t)"
  unfolding pt_settle_all_def by (induction keys arbitrary: t) (simp_all add: pt_settle_ok)

section \<open>Keys\<close>

lemma pt_keys_open: "pt_lookup key t = None \<Longrightarrow> pt_keys (pt_open key t) = pt_keys t @ [key]"
  by (simp add: pt_keys_def pt_open_def pt_lookup_def map_keys_set_fresh)

lemma pt_keys_settle: "pt_keys (pt_settle key result t) = filter (\<lambda>k. k \<noteq> key) (pt_keys t)"
  by (auto simp: pt_keys_def pt_settle_def pt_lookup_def map_keys_delete set_map_keys
      split: option.split intro!: filter_True [symmetric])

lemma pt_keys_settle_all: "pt_keys (pt_settle_all result keys t) = filter (\<lambda>k. k \<notin> set keys) (pt_keys t)"
  unfolding pt_settle_all_def
  by (induction keys arbitrary: t) (simp_all add: pt_keys_settle conj_commute cong: filter_cong)

lemma pt_lookup_iff: "pt_lookup key t \<noteq> None \<longleftrightarrow> key \<in> set (pt_keys t)"
  by (simp add: pt_lookup_def pt_keys_def set_map_keys)

lemma pt_lookup_settle: "pt_lookup k (pt_settle key result t) = (if k = key then None else pt_lookup k t)"
  by (simp add: pt_settle_def pt_lookup_def split: option.split)

lemma pt_lookup_settle_all:
  "pt_lookup k (pt_settle_all result keys t) = (if k \<in> set keys then None else pt_lookup k t)"
  unfolding pt_settle_all_def by (induction keys arbitrary: t) (auto simp: pt_lookup_settle)

lemma pt_next_settle [simp]: "pt_next (pt_settle key result t) = pt_next t"
  by (simp add: pt_settle_def split: option.split)

lemma pt_next_settle_all [simp]: "pt_next (pt_settle_all result keys t) = pt_next t"
  unfolding pt_settle_all_def by (induction keys arbitrary: t) simp_all

section \<open>Settlements\<close>

text \<open>What was settled stays settled, and the result is the one given for the key.\<close>

lemma pt_settle_grows: "set (pt_settled t) \<subseteq> set (pt_settled (pt_settle key result t))"
  by (auto simp: pt_settle_def split: option.split)

lemma pt_settle_all_grows: "set (pt_settled t) \<subseteq> set (pt_settled (pt_settle_all result keys t))"
proof -
  have "set (pt_settled t) \<subseteq> set (pt_settled (fold (\<lambda>k. pt_settle k (result k)) keys t))"
  proof (induction keys arbitrary: t)
    case (Cons k keys)
    from Cons.IH [of "pt_settle k (result k) t"] pt_settle_grows [of t k "result k"]
    show ?case by auto
  qed simp
  then show ?thesis by (simp add: pt_settle_all_def)
qed

lemma pt_settle_all_result:
  assumes "key \<in> set keys" "pt_lookup key t = Some promise"
  shows "(promise, result key) \<in> set (pt_settled (pt_settle_all result keys t))"
  using assms unfolding pt_settle_all_def
proof (induction keys arbitrary: t)
  case (Cons k keys)
  show ?case
  proof (cases "k = key")
    case True
    have "(promise, result key) \<in> set (pt_settled (pt_settle key (result key) t))"
      using Cons.prems(2) by (simp add: pt_settle_def)
    with pt_settle_all_grows [of "pt_settle key (result key) t" result keys] True
    show ?thesis by (auto simp: pt_settle_all_def)
  next
    case False
    with Cons.prems Cons.IH [of "pt_settle k (result k) t"] show ?thesis by (simp add: pt_lookup_settle)
  qed
qed simp

definition pt_outcomes :: "nat \<Rightarrow> ('k, 'r) pending_table \<Rightarrow> 'r list" where
  "pt_outcomes promise t = map snd (filter (\<lambda>p. fst p = promise) (pt_settled t))"

lemma count_occurrences: "count (mset (map fst xs)) x = length (filter (\<lambda>p. fst p = x) xs)"
  by (induction xs) auto

lemma pt_outcomes_at_most_once:
  assumes "pt_ok t"
  shows "length (pt_outcomes promise t) \<le> 1"
proof -
  have "count (mset (map fst (pt_settled t))) promise \<le> count (mset (pt_promises t)) promise"
    by (simp add: pt_promises_def)
  also have "\<dots> = count (mset [0..<pt_next t]) promise" using assms by (simp add: pt_ok_def)
  also have "\<dots> \<le> 1" by (metis count_mset_0_iff distinct_count_atmost_1 distinct_upt le_numeral_extra(4) not_one_le_zero nle_le)
  finally show ?thesis using count_occurrences [of "pt_settled t" promise] by (simp add: pt_outcomes_def)
qed

lemma pt_promise_cases:
  assumes "pt_ok t" "promise < pt_next t"
  shows "(\<exists>key. pt_lookup key t = Some promise) \<noteq> (pt_outcomes promise t \<noteq> [])"
proof -
  let ?open = "mset (map snd (pt_pending t))" and ?done = "mset (map fst (pt_settled t))"
  have one: "count ?open promise + count ?done promise = 1"
  proof -
    have "count (mset (pt_promises t)) promise = count (mset [0..<pt_next t]) promise"
      using assms(1) by (simp add: pt_ok_def)
    also have "\<dots> = 1" using assms(2) by (simp add: distinct_count_atmost_1 [THEN iffD1, rule_format])
    finally show ?thesis by (simp add: pt_promises_def)
  qed
  have "(\<exists>key. pt_lookup key t = Some promise) \<longleftrightarrow> promise \<in># ?open"
  proof -
    have "distinct (map fst (pt_pending t))" using assms(1) by (simp add: pt_ok_def pt_keys_def map_keys_def)
    then have "pt_lookup key t = Some promise \<longleftrightarrow> (key, promise) \<in> set (pt_pending t)" for key
      by (simp add: pt_lookup_def map_get_def)
    then show ?thesis by (auto simp: image_iff) force
  qed
  moreover have "pt_outcomes promise t \<noteq> [] \<longleftrightarrow> promise \<in># ?done"
    by (auto simp: pt_outcomes_def filter_empty_conv)
  ultimately show ?thesis using one
    by (metis One_nat_def add_is_1 count_greater_zero_iff not_gr_zero zero_less_one)
qed

end
