(* ===== verification/RequestBatcher.thy ===== *)
theory RequestBatcher
  imports PendingTable
begin

text \<open>
  \<open>utils/requestBatcher.ts\<close>: reads by key collected into small sequential batches. The points where the code gives up control
  (the timer, the awaited batch) are the steps of a transition relation; everything between two such
  points is one step.
\<close>

section \<open>State\<close>

datatype 'e batch_error = BatchFailed 'e | Omitted

record ('k, 'v, 'e) batcher =
  rb_requests :: "('k, 'e batch_error + 'v) pending_table"
  rb_queue :: "'k list"
  rb_timer :: bool
  rb_batch :: "'k list option"

text \<open>\<open>flushing\<close> holds from the start of \<open>flush\<close> to its end; in between a batch is awaited.\<close>

definition flushing :: "('k, 'v, 'e) batcher \<Rightarrow> bool" where
  "flushing s = (rb_batch s \<noteq> None)"

definition create_batcher :: "nat \<Rightarrow> ('k, 'v, 'e) batcher option" where
  "create_batcher max_batch =
     (if max_batch < 1 then None
      else Some \<lparr>rb_requests = pt_empty, rb_queue = [], rb_timer = False, rb_batch = None\<rparr>)"

section \<open>Operations\<close>

definition schedule :: "('k, 'v, 'e) batcher \<Rightarrow> ('k, 'v, 'e) batcher" where
  "schedule s = (if rb_timer s \<or> flushing s \<or> rb_queue s = [] then s else s\<lparr>rb_timer := True\<rparr>)"

definition load :: "'k \<Rightarrow> ('k, 'v, 'e) batcher \<Rightarrow> nat \<times> ('k, 'v, 'e) batcher" where
  "load key s =
     (case pt_lookup key (rb_requests s) of
        Some promise \<Rightarrow> (promise, s)
      | None \<Rightarrow> (pt_next (rb_requests s),
          schedule (s\<lparr>rb_requests := pt_open key (rb_requests s), rb_queue := rb_queue s @ [key]\<rparr>)))"

text \<open>The head of the loop: take the next batch, or leave the loop through \<open>finally\<close>.\<close>

definition next_batch :: "nat \<Rightarrow> ('k, 'v, 'e) batcher \<Rightarrow> ('k, 'v, 'e) batcher" where
  "next_batch max_batch s =
     (if rb_queue s \<noteq> [] then s\<lparr>rb_batch := Some (take max_batch (rb_queue s)),
        rb_queue := drop max_batch (rb_queue s)\<rparr>
      else schedule (s\<lparr>rb_batch := None\<rparr>))"

definition flush :: "nat \<Rightarrow> ('k, 'v, 'e) batcher \<Rightarrow> ('k, 'v, 'e) batcher" where
  "flush max_batch s = (if flushing s then s else next_batch max_batch s)"

definition timer_fires :: "nat \<Rightarrow> ('k, 'v, 'e) batcher \<Rightarrow> ('k, 'v, 'e) batcher" where
  "timer_fires max_batch s = flush max_batch (s\<lparr>rb_timer := False\<rparr>)"

text \<open>How the promise of a key of the batch is settled.\<close>

fun batch_result :: "'e + ('k, 'v) jsmap \<Rightarrow> 'k \<Rightarrow> 'e batch_error + 'v" where
  "batch_result (Inl e) key = Inl (BatchFailed e)"
| "batch_result (Inr results) key =
     (case map_get results key of Some v \<Rightarrow> Inr v | None \<Rightarrow> Inl Omitted)"

definition batch_done :: "nat \<Rightarrow> 'e + ('k, 'v) jsmap \<Rightarrow> ('k, 'v, 'e) batcher \<Rightarrow> ('k, 'v, 'e) batcher" where
  "batch_done max_batch answer s =
     (case rb_batch s of
        None \<Rightarrow> s
      | Some keys \<Rightarrow> next_batch max_batch
          (s\<lparr>rb_requests := pt_settle_all (batch_result answer) keys (rb_requests s)\<rparr>))"

inductive batcher_step :: "nat \<Rightarrow> ('k, 'v, 'e) batcher \<Rightarrow> ('k, 'v, 'e) batcher \<Rightarrow> bool"
  for max_batch where
    step_load: "batcher_step max_batch s (snd (load key s))"
  | step_timer: "rb_timer s \<Longrightarrow> batcher_step max_batch s (timer_fires max_batch s)"
  | step_answer: "flushing s \<Longrightarrow> batcher_step max_batch s (batch_done max_batch answer s)"

inductive batcher_reachable :: "nat \<Rightarrow> ('k, 'v, 'e) batcher \<Rightarrow> bool" for max_batch where
    reach_start: "create_batcher max_batch = Some s \<Longrightarrow> batcher_reachable max_batch s"
  | reach_step: "batcher_reachable max_batch s \<Longrightarrow> batcher_step max_batch s s' \<Longrightarrow>
      batcher_reachable max_batch s'"

section \<open>The invariant\<close>

definition in_flight :: "('k, 'v, 'e) batcher \<Rightarrow> 'k list" where
  "in_flight s = (case rb_batch s of Some keys \<Rightarrow> keys | None \<Rightarrow> [])"

text \<open>
  The open requests are exactly the keys in flight and in the queue, each once; every promise handed
  out is open or settled, once; a batch is not too long; work that waits has a timer or a flush.
\<close>

definition batcher_ok :: "nat \<Rightarrow> ('k, 'v, 'e) batcher \<Rightarrow> bool" where
  "batcher_ok max_batch s =
     (0 < max_batch
      \<and> pt_ok (rb_requests s)
      \<and> distinct (in_flight s @ rb_queue s)
      \<and> set (pt_keys (rb_requests s)) = set (in_flight s @ rb_queue s)
      \<and> length (in_flight s) \<le> max_batch \<and> rb_batch s \<noteq> Some []
      \<and> (rb_queue s \<noteq> [] \<longrightarrow> rb_timer s \<or> flushing s))"

named_theorems batcher_defs
declare batcher_ok_def [batcher_defs] in_flight_def [batcher_defs] flushing_def [batcher_defs]

lemma schedule_ok:
  assumes "0 < max_batch" "pt_ok (rb_requests s)" "distinct (in_flight s @ rb_queue s)"
    and "set (pt_keys (rb_requests s)) = set (in_flight s @ rb_queue s)" "length (in_flight s) \<le> max_batch"
    and "rb_batch s \<noteq> Some []"
  shows "batcher_ok max_batch (schedule s)"
  using assms by (auto simp: schedule_def batcher_defs)

lemma load_ok:
  assumes "batcher_ok max_batch s"
  shows "batcher_ok max_batch (snd (load key s))"
proof (cases "pt_lookup key (rb_requests s)")
  case None
  then have "key \<notin> set (in_flight s @ rb_queue s)"
    using assms pt_lookup_iff [of key "rb_requests s"] by (simp add: batcher_ok_def)
  with None assms have "batcher_ok max_batch
      (schedule (s\<lparr>rb_requests := pt_open key (rb_requests s), rb_queue := rb_queue s @ [key]\<rparr>))"
    by (intro schedule_ok) (auto simp: batcher_defs pt_open_ok pt_keys_open)
  with None show ?thesis by (simp add: load_def)
qed (use assms in \<open>simp add: load_def\<close>)

lemma next_batch_ok:
  assumes "0 < max_batch" "pt_ok (rb_requests s)" "distinct (rb_queue s)"
    and "set (pt_keys (rb_requests s)) = set (rb_queue s)"
  shows "batcher_ok max_batch (next_batch max_batch s)"
proof (cases "rb_queue s = []")
  case True
  with assms show ?thesis by (simp add: next_batch_def schedule_def batcher_defs)
next
  case False
  have "distinct (take max_batch (rb_queue s) @ drop max_batch (rb_queue s))"
    "set (take max_batch (rb_queue s) @ drop max_batch (rb_queue s)) = set (rb_queue s)"
    using assms(3) by (simp_all only: append_take_drop_id)
  with False assms show ?thesis by (simp add: next_batch_def batcher_defs)
qed

lemma timer_ok:
  assumes "batcher_ok max_batch s"
  shows "batcher_ok max_batch (timer_fires max_batch s)"
proof (cases "flushing s")
  case True
  with assms show ?thesis by (simp add: timer_fires_def flush_def batcher_defs)
next
  case False
  have "batcher_ok max_batch (next_batch max_batch (s\<lparr>rb_timer := False\<rparr>))"
    by (rule next_batch_ok) (use assms False in \<open>simp_all add: batcher_defs\<close>)
  with False show ?thesis by (simp add: timer_fires_def flush_def flushing_def)
qed

lemma answer_ok:
  assumes "batcher_ok max_batch s"
  shows "batcher_ok max_batch (batch_done max_batch answer s)"
proof (cases "rb_batch s")
  case (Some keys)
  let ?s = "s\<lparr>rb_requests := pt_settle_all (batch_result answer) keys (rb_requests s)\<rparr>"
  have "set (pt_keys (rb_requests ?s)) = set (rb_queue ?s)"
    using assms Some by (auto simp: pt_keys_settle_all batcher_defs)
  then have "batcher_ok max_batch (next_batch max_batch ?s)"
    by (intro next_batch_ok) (use assms in \<open>simp_all add: batcher_ok_def pt_settle_all_ok\<close>)
  with Some show ?thesis by (simp add: batch_done_def)
qed (use assms in \<open>simp add: batch_done_def\<close>)

lemma step_ok: "batcher_step max_batch s s' \<Longrightarrow> batcher_ok max_batch s \<Longrightarrow> batcher_ok max_batch s'"
  by (induction rule: batcher_step.induct)
     (simp_all add: load_ok timer_ok answer_ok)

lemma reachable_ok: "batcher_reachable max_batch s \<Longrightarrow> batcher_ok max_batch s"
proof (induction rule: batcher_reachable.induct)
  case (reach_start s)
  then show ?case
    by (auto simp: create_batcher_def batcher_defs pt_ok_empty split: if_splits)
      (auto simp: pt_empty_def pt_keys_def map_keys_def)
qed (rule step_ok)

section \<open>Running to the end\<close>

text \<open>
  One possible future: no further loads, the timer fires and every batch is answered by \<open>answers\<close>.
\<close>

fun drain :: "nat \<Rightarrow> nat \<Rightarrow> ('k list \<Rightarrow> 'e + ('k, 'v) jsmap) \<Rightarrow> ('k, 'v, 'e) batcher \<Rightarrow> ('k, 'v, 'e) batcher" where
  "drain 0 max_batch answers s = s"
| "drain (Suc fuel) max_batch answers s =
     (case rb_batch s of
        Some keys \<Rightarrow> drain fuel max_batch answers (batch_done max_batch (answers keys) s)
      | None \<Rightarrow> if rb_timer s then drain fuel max_batch answers (timer_fires max_batch s) else s)"

definition batcher_work :: "('k, 'v, 'e) batcher \<Rightarrow> nat" where
  "batcher_work s = 2 * (length (in_flight s) + length (rb_queue s))
     + (if rb_timer s \<and> \<not> flushing s then 1 else 0)"

lemma next_batch_simps [simp]:
  "rb_requests (next_batch max_batch s) = rb_requests s"
  "rb_timer s \<Longrightarrow> rb_timer (next_batch max_batch s)"
  "\<not> rb_timer s \<Longrightarrow> \<not> rb_timer (next_batch max_batch s)"
  by (auto simp: next_batch_def schedule_def)

lemma work_next_batch:
  "length (in_flight (next_batch max_batch s)) + length (rb_queue (next_batch max_batch s)) = length (rb_queue s)"
  by (auto simp: next_batch_def schedule_def in_flight_def)

lemma work_decreases:
  assumes "batcher_ok max_batch s"
  shows "rb_batch s = Some keys \<Longrightarrow> batcher_work (batch_done max_batch answer s) < batcher_work s"
    and "rb_batch s = None \<Longrightarrow> rb_timer s \<Longrightarrow> batcher_work (timer_fires max_batch s) < batcher_work s"
proof -
  assume k: "rb_batch s = Some keys"
  with assms have "keys \<noteq> []" by (simp add: batcher_ok_def)
  then obtain x xs where "keys = x # xs" by (cases keys) auto
  with k work_next_batch [of max_batch
      "s\<lparr>rb_requests := pt_settle_all (batch_result answer) keys (rb_requests s)\<rparr>"]
  show "batcher_work (batch_done max_batch answer s) < batcher_work s"
    by (auto simp: batcher_work_def batch_done_def in_flight_def flushing_def)
next
  assume "rb_batch s = None" "rb_timer s"
  with work_next_batch [of max_batch "s\<lparr>rb_timer := False\<rparr>"]
  show "batcher_work (timer_fires max_batch s) < batcher_work s"
    by (auto simp: batcher_work_def timer_fires_def flush_def flushing_def in_flight_def)
qed

lemma idle_has_no_keys:
  assumes "batcher_ok max_batch s" "rb_batch s = None" "\<not> rb_timer s"
  shows "pt_keys (rb_requests s) = []"
  using assms by (auto simp: batcher_defs)

text \<open>Batches that are answered key by key by \<open>f\<close>, and what a caller then gets for a key.\<close>

definition answer_each :: "('k \<Rightarrow> 'v option) \<Rightarrow> 'k list \<Rightarrow> 'e + ('k, 'v) jsmap" where
  "answer_each f keys = Inr (map (\<lambda>k. (k, the (f k))) (filter (\<lambda>k. f k \<noteq> None) keys))"

definition direct :: "('k \<Rightarrow> 'v option) \<Rightarrow> 'k \<Rightarrow> 'e batch_error + 'v" where
  "direct f key = (case f key of Some v \<Rightarrow> Inr v | None \<Rightarrow> Inl Omitted)"

lemma batch_result_each: "key \<in> set keys \<Longrightarrow> batch_result (answer_each f keys) key = direct f key"
proof -
  have "map_of (map (\<lambda>k. (k, the (f k))) (filter (\<lambda>k. f k \<noteq> None) ks)) key =
      (if key \<in> set ks then f key else None)" for ks
    by (induction ks) auto
  then show "key \<in> set keys \<Longrightarrow> ?thesis" by (simp add: answer_each_def direct_def map_get_def)
qed

lemma drain_settles:
  assumes "batcher_ok max_batch s" "batcher_work s \<le> fuel"
  shows "pt_keys (rb_requests (drain fuel max_batch (answer_each f) s)) = []
    \<and> set (pt_settled (rb_requests s)) \<subseteq> set (pt_settled (rb_requests (drain fuel max_batch (answer_each f) s)))
    \<and> (\<forall>key promise. pt_lookup key (rb_requests s) = Some promise \<longrightarrow>
        (promise, direct f key) \<in> set (pt_settled (rb_requests (drain fuel max_batch (answer_each f) s))))"
  using assms
proof (induction fuel arbitrary: s)
  case 0
  then have "rb_batch s = None" "\<not> rb_timer s"
    by (cases "rb_batch s"; auto simp: batcher_work_def batcher_defs split: if_splits)+
  with idle_has_no_keys [OF 0(1)] have "pt_keys (rb_requests s) = []" by simp
  with pt_lookup_iff [of _ "rb_requests s"] show ?case by auto
next
  case (Suc fuel)
  show ?case
  proof (cases "rb_batch s")
    case (Some keys)
    let ?s = "batch_done max_batch (answer_each f keys) s"
    have ok: "batcher_ok max_batch ?s" by (rule answer_ok) (rule Suc.prems(1))
    have "batcher_work ?s \<le> fuel" using work_decreases(1) [OF Suc.prems(1) Some] Suc.prems(2)
      by (metis le_trans less_Suc_eq_le order_less_le_trans)
    note IH = Suc.IH [OF ok this]
    have r: "rb_requests ?s = pt_settle_all (batch_result (answer_each f keys)) keys (rb_requests s)"
      using Some by (simp add: batch_done_def)
    have d: "drain (Suc fuel) max_batch (answer_each f) s = drain fuel max_batch (answer_each f) ?s"
      using Some by simp
    have "(promise, direct f key) \<in> set (pt_settled (rb_requests (drain fuel max_batch (answer_each f) ?s)))"
      if "pt_lookup key (rb_requests s) = Some promise" for key promise
    proof (cases "key \<in> set keys")
      case True
      have "(promise, batch_result (answer_each f keys) key) \<in> set (pt_settled (rb_requests ?s))"
        unfolding r by (rule pt_settle_all_result) (use True that in auto)
      with IH True show ?thesis by (auto simp: batch_result_each)
    next
      case False
      with that have "pt_lookup key (rb_requests ?s) = Some promise"
        unfolding r pt_settle_all_def by (simp add: pt_lookup_settle_all [unfolded pt_settle_all_def])
      with IH show ?thesis by blast
    qed
    moreover have "set (pt_settled (rb_requests s)) \<subseteq> set (pt_settled (rb_requests ?s))"
      unfolding r by (rule pt_settle_all_grows)
    ultimately show ?thesis using IH unfolding d by auto
  next
    case None
    show ?thesis
    proof (cases "rb_timer s")
      case True
      let ?s = "timer_fires max_batch s"
      have "batcher_ok max_batch ?s" by (rule timer_ok) (rule Suc.prems(1))
      moreover have "batcher_work ?s \<le> fuel" using work_decreases(2) [OF Suc.prems(1) None True] Suc.prems(2)
        by simp
      moreover have "rb_requests ?s = rb_requests s" using None by (simp add: timer_fires_def flush_def flushing_def)
      ultimately show ?thesis using Suc.IH [of ?s] None True by simp
    next
      case False
      with idle_has_no_keys [OF Suc.prems(1) None] have "pt_keys (rb_requests s) = []" by simp
      with None False pt_lookup_iff [of _ "rb_requests s"] show ?thesis by auto
    qed
  qed
qed

lemma batcher_work_bound:
  assumes "batcher_ok max_batch s"
  shows "batcher_work s \<le> 2 * length (pt_keys (rb_requests s)) + 1"
proof -
  have "length (pt_keys (rb_requests s)) = card (set (in_flight s @ rb_queue s))"
    using assms by (metis batcher_ok_def distinct_card pt_ok_def)
  also have "\<dots> = length (in_flight s @ rb_queue s)"
    using assms by (intro distinct_card) (simp add: batcher_ok_def)
  finally show ?thesis by (simp add: batcher_work_def)
qed

section \<open>Properties\<close>

text \<open>Two loads of a key that is still open share one promise and one request.\<close>

lemma load_shares: "load key (snd (load key s)) = (fst (load key s), snd (load key s))"
  by (cases "pt_lookup key (rb_requests s)") (auto simp: load_def schedule_def pt_lookup_def pt_open_def)

text \<open>
  C14. In every state the batcher can reach, each promise it handed out is either still open under a
  key that is queued or in flight, or settled exactly once, never both; no batch is longer than
  \<open>maxBatchSize\<close>; and queued keys always have a timer or a running flush to take them.
\<close>

theorem batcher_settles_once:
  assumes "batcher_reachable max_batch s" "promise < pt_next (rb_requests s)"
  shows "(\<exists>key \<in> set (in_flight s @ rb_queue s). pt_lookup key (rb_requests s) = Some promise)
      \<noteq> (length (pt_outcomes promise (rb_requests s)) = 1)
    \<and> length (in_flight s) \<le> max_batch
    \<and> (rb_queue s \<noteq> [] \<longrightarrow> rb_timer s \<or> flushing s)"
proof -
  from assms(1) have ok: "batcher_ok max_batch s" by (rule reachable_ok)
  then have t: "pt_ok (rb_requests s)" by (simp add: batcher_ok_def)
  have "length (pt_outcomes promise (rb_requests s)) = 1 \<longleftrightarrow> pt_outcomes promise (rb_requests s) \<noteq> []"
    using pt_outcomes_at_most_once [OF t, of promise]
    by (cases "pt_outcomes promise (rb_requests s)") auto
  moreover have "(\<exists>key \<in> set (in_flight s @ rb_queue s). pt_lookup key (rb_requests s) = Some promise)
      \<longleftrightarrow> (\<exists>key. pt_lookup key (rb_requests s) = Some promise)"
    using ok pt_lookup_iff [of _ "rb_requests s"] by (auto simp: batcher_ok_def)
  ultimately show ?thesis using pt_promise_cases [OF t assms(2)] ok by (auto simp: batcher_ok_def)
qed

text \<open>Three loads, two keys, batches of one key.\<close>

definition sample_batcher :: "(string, nat, unit) batcher" where
  "sample_batcher = snd (load ''a'' (snd (load ''b'' (snd (load ''a''
     \<lparr>rb_requests = pt_empty, rb_queue = [], rb_timer = False, rb_batch = None\<rparr>)))))"

lemma sample_batcher_reachable: "batcher_reachable 1 sample_batcher"
  unfolding sample_batcher_def
  by (intro reach_step [OF _ step_load] reach_start) (simp add: create_batcher_def)

lemma sample_batcher_state:
  "sample_batcher = \<lparr>rb_requests = \<lparr>pt_pending = [(''a'', 0), (''b'', 1)], pt_settled = [], pt_next = 2\<rparr>,
     rb_queue = [''a'', ''b''], rb_timer = True, rb_batch = None\<rparr>"
  by (simp add: sample_batcher_def load_def schedule_def pt_lookup_def pt_open_def pt_empty_def
      map_get_def map_set_def flushing_def)

lemma batcher_settles_once_witness:
  "(\<exists>key \<in> {''a'', ''b''}. pt_lookup key (rb_requests sample_batcher) = Some 1)
    \<noteq> (length (pt_outcomes 1 (rb_requests sample_batcher)) = 1)"
  using batcher_settles_once [OF sample_batcher_reachable, of 1]
  by (simp add: sample_batcher_state in_flight_def)

text \<open>
  C2. Batching is invisible: from every reachable state, once the open batches are answered (each
  answer giving \<open>f\<close> of its keys), nothing is open any more, every promise that was open got exactly what
  a request for its key alone would have given (\<open>f\<close> of the key, or the rejection of an omitted key),
  and twice the number of open keys plus one steps are enough.
\<close>

theorem batched_loads_refine_direct:
  assumes "batcher_reachable max_batch s" "2 * length (pt_keys (rb_requests s)) < fuel"
    and "s' = drain fuel max_batch (answer_each f) s"
  shows "pt_keys (rb_requests s') = []
    \<and> (\<forall>key promise. pt_lookup key (rb_requests s) = Some promise \<longrightarrow>
        (promise, direct f key) \<in> set (pt_settled (rb_requests s')))"
proof -
  from assms(1) have ok: "batcher_ok max_batch s" by (rule reachable_ok)
  with batcher_work_bound assms(2) have "batcher_work s \<le> fuel" by (metis Suc_eq_plus1 Suc_leI le_trans)
  with drain_settles [OF ok] assms(3) show ?thesis by blast
qed

lemma batched_loads_refine_direct_witness:
  "(1, Inr 7) \<in> set (pt_settled (rb_requests (drain 5 1 (answer_each (\<lambda>k. if k = ''b'' then Some 7 else None))
     sample_batcher)))"
  using batched_loads_refine_direct [OF sample_batcher_reachable _ refl, of 5 "\<lambda>k. if k = ''b'' then Some 7 else None"]
  by (auto simp: sample_batcher_state pt_keys_def map_keys_def pt_lookup_def map_get_def direct_def
      dest!: spec [of _ "''b''"])

end
