(* ===== verification/UserRequests.thy ===== *)
theory UserRequests
  imports RequestBatcher Entities
begin

text \<open>
  \<open>utils/userRequests.ts\<close> and \<open>apiRequestLazy\<close> of \<open>utils/api.ts\<close>: profiles loaded through the batcher,
  with one retry, and published to the listeners of a user. The listener sets are shared, mutable
  objects that the map and the unsubscribe closures both refer to, so they live in a heap here.
\<close>

section \<open>Loading\<close>

text \<open>
  \<open>loadBatch\<close> of a lazy request: the items of the response by their key, the last of equal keys
  winning; \<open>None\<close> for an exception, which rejects the whole batch.
\<close>

definition lazy_answer ::
  "('r \<Rightarrow> 'v list option) \<Rightarrow> ('v \<Rightarrow> 'k option) \<Rightarrow> 'e \<Rightarrow> 'e + 'r \<Rightarrow> 'e + ('k, 'v) jsmap" where
  "lazy_answer select_items key_of_item type_error response =
     (case response of
        Inl e \<Rightarrow> Inl e
      | Inr r \<Rightarrow> (case Option.bind (select_items r)
            (js_map (\<lambda>item. map_option (\<lambda>k. (k, item)) (key_of_item item))) of
            None \<Rightarrow> Inl type_error
          | Some pairs \<Rightarrow> Inr (fold (\<lambda>(k, v). map_set k v) pairs [])))"

text \<open>The batch of \<open>/users/batch\<close>.\<close>

definition users_of_response :: "jsval \<Rightarrow> jsval list option" where
  "users_of_response response = Option.bind (get response ''users'')
     (\<lambda>users. if nullish users then Some [] else case users of JArr xs \<Rightarrow> Some xs | _ \<Rightarrow> None)"

definition user_key :: "jsval \<Rightarrow> string option" where
  "user_key user = map_option js_string (get user ''id'')"

definition user_batch_body :: "string list \<Rightarrow> jsval" where
  "user_batch_body ids = JObj [(''ids'', JArr (map (\<lambda>i. js_number (JStr i)) ids))]"

definition user_batch :: "'e \<Rightarrow> 'e + jsval \<Rightarrow> 'e + (string, jsval) jsmap" where
  "user_batch = lazy_answer users_of_response user_key"

section \<open>Listeners\<close>

record 'l profile_listeners =
  pl_sets :: "(string, nat) jsmap"
  pl_heap :: "nat \<Rightarrow> 'l list"
  pl_fresh :: nat

definition no_listeners :: "'l profile_listeners" where
  "no_listeners = \<lparr>pl_sets = [], pl_heap = (\<lambda>_. []), pl_fresh = 0\<rparr>"

definition listeners_of :: "'l profile_listeners \<Rightarrow> string \<Rightarrow> 'l list" where
  "listeners_of s key = (case map_get (pl_sets s) key of None \<Rightarrow> [] | Some a \<Rightarrow> pl_heap s a)"

text \<open>What the unsubscribe closure has captured: the key, the set it was added to, the listener.\<close>

type_synonym 'l subscription = "string \<times> nat \<times> 'l"

definition subscribe_user_profile :: "jsval \<Rightarrow> 'l \<Rightarrow> 'l profile_listeners \<Rightarrow> 'l subscription \<times> 'l profile_listeners" where
  "subscribe_user_profile user_id listener s =
     (let key = js_string user_id;
          (a, heap, fresh) = (case map_get (pl_sets s) key of
              Some a \<Rightarrow> (a, pl_heap s, pl_fresh s)
            | None \<Rightarrow> (pl_fresh s, (pl_heap s)(pl_fresh s := []), Suc (pl_fresh s)))
      in ((key, a, listener),
          \<lparr>pl_sets = map_set key a (pl_sets s), pl_heap = heap(a := set_add listener (heap a)), pl_fresh = fresh\<rparr>))"

definition unsubscribe :: "'l subscription \<Rightarrow> 'l profile_listeners \<Rightarrow> 'l profile_listeners" where
  "unsubscribe h s =
     (case h of (key, a, listener) \<Rightarrow>
        let left = set_delete listener (pl_heap s a);
            s' = s\<lparr>pl_heap := (pl_heap s)(a := left)\<rparr>
        in if left = [] then s'\<lparr>pl_sets := map_delete key (pl_sets s)\<rparr> else s')"

text \<open>
  Listeners are called in the order of the set until one throws; the answer is who was called and
  whether all returned.
\<close>

fun call_listeners :: "('l \<Rightarrow> bool) \<Rightarrow> 'l list \<Rightarrow> 'l list \<times> bool" where
  "call_listeners returns [] = ([], True)"
| "call_listeners returns (l # ls) =
     (if returns l then (case call_listeners returns ls of (called, ok) \<Rightarrow> (l # called, ok)) else ([l], False))"

definition publish_user_profile :: "('l \<Rightarrow> bool) \<Rightarrow> 'l profile_listeners \<Rightarrow> jsval \<Rightarrow> ('l list \<times> bool) option" where
  "publish_user_profile returns s user =
     map_option (\<lambda>key. call_listeners returns (listeners_of s key)) (user_key user)"

section \<open>Loading a profile, with one retry\<close>

definition valid_user_id :: "string \<Rightarrow> bool" where
  "valid_user_id key = (case key of
      [] \<Rightarrow> False
    | c # cs \<Rightarrow> is_digit c \<and> c \<noteq> CHR ''0'' \<and> list_all is_digit cs)"

datatype 'e load_error = InvalidUserId string | LoadFailed 'e

text \<open>
  The \<open>for\<close> loop from an attempt on: \<open>request n\<close> is what the batcher answers to the attempt \<open>n\<close>, and a
  listener that throws counts as a failed attempt. The list collects who was called.
\<close>

fun load_attempts ::
  "('l \<Rightarrow> bool) \<Rightarrow> 'e \<Rightarrow> 'l profile_listeners \<Rightarrow> (nat \<Rightarrow> 'e + jsval) \<Rightarrow> nat \<Rightarrow> nat \<Rightarrow> 'e
   \<Rightarrow> ('e + jsval) \<times> 'l list" where
  "load_attempts returns thrown s request attempt 0 last_error = (Inl last_error, [])"
| "load_attempts returns thrown s request attempt (Suc left) last_error =
     (case request attempt of
        Inl e \<Rightarrow> load_attempts returns thrown s request (Suc attempt) left e
      | Inr user \<Rightarrow> (case publish_user_profile returns s user of
            Some (called, True) \<Rightarrow> (Inr user, called)
          | Some (called, False) \<Rightarrow>
              (case load_attempts returns thrown s request (Suc attempt) left thrown of
                 (r, again) \<Rightarrow> (r, called @ again))
          | None \<Rightarrow> load_attempts returns thrown s request (Suc attempt) left thrown))"

definition load_user_profile ::
  "('l \<Rightarrow> bool) \<Rightarrow> 'e \<Rightarrow> 'l profile_listeners \<Rightarrow> (nat \<Rightarrow> 'e + jsval) \<Rightarrow> jsval
   \<Rightarrow> ('e load_error + jsval) \<times> 'l list" where
  "load_user_profile returns thrown s request user_id =
     (let key = js_string user_id in
      if \<not> valid_user_id key then (Inl (InvalidUserId key), [])
      else case load_attempts returns thrown s request 0 2 thrown of
          (Inl e, called) \<Rightarrow> (Inl (LoadFailed e), called)
        | (Inr user, called) \<Rightarrow> (Inr user, called))"

section \<open>Subscriptions that are ended at most once\<close>

text \<open>
  The runs in which a listener is subscribed while it is not active, and a subscription is ended
  while it is active; the list holds the active subscriptions, oldest first.
\<close>

inductive listener_run :: "'l profile_listeners \<Rightarrow> 'l subscription list \<Rightarrow> bool" where
    run_start: "listener_run no_listeners []"
  | run_subscribe: "listener_run s active \<Longrightarrow> listener \<notin> set (map (snd \<circ> snd) active) \<Longrightarrow>
      subscribe_user_profile user_id listener s = (h, s') \<Longrightarrow> listener_run s' (active @ [h])"
  | run_unsubscribe: "listener_run s active \<Longrightarrow> h \<in> set active \<Longrightarrow>
      listener_run (unsubscribe h s) (filter (\<lambda>h'. h' \<noteq> h) active)"

definition of_key :: "string \<Rightarrow> 'l subscription list \<Rightarrow> 'l subscription list" where
  "of_key key active = filter (\<lambda>h. fst h = key) active"

text \<open>
  The invariant: a set in the map belongs to one key only and holds exactly the listeners of the
  active subscriptions of its key, which all captured this set; a key without a set has none.
\<close>

definition set_ok :: "'l profile_listeners \<Rightarrow> 'l subscription list \<Rightarrow> string \<Rightarrow> bool" where
  "set_ok s active key =
     (case map_get (pl_sets s) key of
        None \<Rightarrow> of_key key active = []
      | Some a \<Rightarrow> of_key key active \<noteq> [] \<and> a < pl_fresh s
          \<and> (\<forall>h \<in> set (of_key key active). fst (snd h) = a)
          \<and> pl_heap s a = map (snd \<circ> snd) (of_key key active))"

definition sets_separate :: "'l profile_listeners \<Rightarrow> bool" where
  "sets_separate s =
     (\<forall>k k' a. map_get (pl_sets s) k = Some a \<longrightarrow> map_get (pl_sets s) k' = Some a \<longrightarrow> k = k')"

definition listeners_ok :: "'l profile_listeners \<Rightarrow> 'l subscription list \<Rightarrow> bool" where
  "listeners_ok s active =
     (distinct (map (snd \<circ> snd) active) \<and> (\<forall>key. set_ok s active key) \<and> sets_separate s)"

lemma of_key_append [simp]:
  "of_key key (active @ [h]) = of_key key active @ (if fst h = key then [h] else [])"
  by (simp add: of_key_def)

lemma of_key_subset: "set (of_key key active) \<subseteq> set active"
  by (auto simp: of_key_def)

lemma subscribe_ok:
  assumes ok: "listeners_ok s active" and new: "listener \<notin> set (map (snd \<circ> snd) active)"
    and sub: "subscribe_user_profile user_id listener s = (h, s')"
  shows "listeners_ok s' (active @ [h])"
proof (cases "map_get (pl_sets s) (js_string user_id)")
  case None
  let ?key = "js_string user_id"
  have h: "h = (?key, pl_fresh s, listener)"
    "s' = \<lparr>pl_sets = map_set ?key (pl_fresh s) (pl_sets s),
       pl_heap = (pl_heap s)(pl_fresh s := [listener]), pl_fresh = Suc (pl_fresh s)\<rparr>"
    using sub None by (auto simp: subscribe_user_profile_def Let_def set_add_def)
  have less: "a < pl_fresh s" if "map_get (pl_sets s) k = Some a" for k a
    using ok that by (auto simp: listeners_ok_def set_ok_def dest!: spec [of _ k])
  have "set_ok s' (active @ [h]) k" for k
  proof (cases "k = ?key")
    case True
    have "of_key ?key active = []" using ok None by (auto simp: listeners_ok_def set_ok_def dest!: spec [of _ ?key])
    with True h show ?thesis by (simp add: set_ok_def)
  next
    case False
    with h ok show ?thesis
      by (auto dest: less simp: listeners_ok_def set_ok_def split: option.splits dest!: spec [of _ k])
  qed
  moreover have "sets_separate s'"
    using ok less h by (fastforce simp: listeners_ok_def sets_separate_def)
  ultimately show ?thesis using ok new h by (simp add: listeners_ok_def)
next
  case (Some a)
  let ?key = "js_string user_id"
  have at: "pl_heap s a = map (snd \<circ> snd) (of_key ?key active)" "a < pl_fresh s"
    "\<forall>h \<in> set (of_key ?key active). fst (snd h) = a"
    using ok Some unfolding listeners_ok_def set_ok_def by (auto simp only: option.case dest!: spec [of _ ?key])
  then have "listener \<notin> set (pl_heap s a)" using new of_key_subset [of ?key active] by auto
  with sub Some have h: "h = (?key, a, listener)"
    "s' = \<lparr>pl_sets = map_set ?key a (pl_sets s),
       pl_heap = (pl_heap s)(a := pl_heap s a @ [listener]), pl_fresh = pl_fresh s\<rparr>"
    by (auto simp: subscribe_user_profile_def Let_def set_add_def)
  have "set_ok s' (active @ [h]) k" for k
  proof (cases "k = ?key")
    case True
    with h at show ?thesis by (simp add: set_ok_def)
  next
    case False
    with ok Some have "map_get (pl_sets s) k \<noteq> Some a" by (auto simp: listeners_ok_def sets_separate_def)
    with False h ok show ?thesis
      by (auto simp: listeners_ok_def set_ok_def split: option.splits dest!: spec [of _ k])
  qed
  moreover have "sets_separate s'"
    using ok h Some by (auto simp: listeners_ok_def sets_separate_def)
  ultimately show ?thesis using ok new h by (simp add: listeners_ok_def)
qed

lemma of_key_remove: "of_key key (filter (\<lambda>h'. h' \<noteq> h) active) = filter (\<lambda>h'. h' \<noteq> h) (of_key key active)"
  by (simp add: of_key_def conj_commute)

lemma listeners_remove:
  assumes "distinct (map (snd \<circ> snd) active)" "h \<in> set active"
  shows "set_delete (snd (snd h)) (map (snd \<circ> snd) (of_key key active))
    = map (snd \<circ> snd) (filter (\<lambda>h'. h' \<noteq> h) (of_key key active))"
proof -
  have "snd (snd h') = snd (snd h) \<longleftrightarrow> h' = h" if "h' \<in> set (of_key key active)" for h'
    using assms that of_key_subset [of key active] by (auto simp: distinct_map inj_on_def)
  then show ?thesis by (auto simp: set_delete_def filter_map o_def intro!: arg_cong [of _ _ "map _"] filter_cong)
qed

lemma unsubscribe_ok:
  assumes ok: "listeners_ok s active" and h: "h \<in> set active"
  shows "listeners_ok (unsubscribe h s) (filter (\<lambda>h'. h' \<noteq> h) active)"
proof -
  obtain key a l where hd: "h = (key, a, l)" by (cases h) auto
  have "h \<in> set (of_key key active)" using h hd by (simp add: of_key_def)
  moreover from this obtain y where "map_get (pl_sets s) key = Some y" "y < pl_fresh s"
    "pl_heap s y = map (snd \<circ> snd) (of_key key active)" "\<forall>h \<in> set (of_key key active). fst (snd h) = y"
    using ok by (auto simp: listeners_ok_def set_ok_def split: option.splits dest!: spec [of _ key])
  ultimately have at: "map_get (pl_sets s) key = Some a" "a < pl_fresh s"
    "pl_heap s a = map (snd \<circ> snd) (of_key key active)" "\<forall>h \<in> set (of_key key active). fst (snd h) = a"
    using hd by auto
  let ?left = "filter (\<lambda>h'. h' \<noteq> h) (of_key key active)"
  have left: "set_delete l (pl_heap s a) = map (snd \<circ> snd) ?left"
    using listeners_remove [of active h key] ok h hd at(3) by (simp add: listeners_ok_def)
  have s': "unsubscribe h s = (if ?left = [] then
      s\<lparr>pl_heap := (pl_heap s)(a := []), pl_sets := map_delete key (pl_sets s)\<rparr>
      else s\<lparr>pl_heap := (pl_heap s)(a := map (snd \<circ> snd) ?left)\<rparr>)"
    using left by (simp add: unsubscribe_def hd Let_def)
  have "set_ok (unsubscribe h s) (filter (\<lambda>h'. h' \<noteq> h) active) k" for k
  proof (cases "k = key")
    case True
    show ?thesis
    proof (cases "?left = []")
      case True
      with \<open>k = key\<close> s' show ?thesis by (simp add: set_ok_def of_key_remove)
    next
      case False
      with \<open>k = key\<close> s' at show ?thesis by (simp add: set_ok_def of_key_remove)
    qed
  next
    case False
    have same: "of_key k (filter (\<lambda>h'. h' \<noteq> h) active) = of_key k active"
      using False hd by (auto simp: of_key_def intro!: filter_cong)
    have "map_get (pl_sets s) k \<noteq> Some a" using False ok at(1) by (auto simp: listeners_ok_def sets_separate_def)
    with False s' ok show ?thesis unfolding set_ok_def same
      by (auto simp: listeners_ok_def set_ok_def split: option.splits dest!: spec [of _ k])
  qed
  moreover have "sets_separate (unsubscribe h s)"
    using ok unfolding s' by (simp add: listeners_ok_def sets_separate_def)
  moreover have "distinct (map (snd \<circ> snd) (filter (\<lambda>h'. h' \<noteq> h) active))"
    using ok by (simp add: listeners_ok_def distinct_map_filter)
  ultimately show ?thesis by (simp add: listeners_ok_def)
qed

lemma listener_run_ok: "listener_run s active \<Longrightarrow> listeners_ok s active"
proof (induction rule: listener_run.induct)
  case run_start
  then show ?case by (simp add: listeners_ok_def no_listeners_def of_key_def set_ok_def sets_separate_def)
qed (simp_all only: subscribe_ok unsubscribe_ok)

lemma run_listeners_of: "listener_run s active \<Longrightarrow> listeners_of s key = map (snd \<circ> snd) (of_key key active)"
  by (drule listener_run_ok)
     (auto simp: listeners_ok_def set_ok_def listeners_of_def split: option.splits dest!: spec [of _ key])

lemma call_listeners_all: "list_all returns ls \<Longrightarrow> call_listeners returns ls = (ls, True)"
  by (induction ls) simp_all

section \<open>Properties\<close>

text \<open>
  A published profile reaches exactly the components that watch its user: however components
  came and went, as long as each ends its subscription at most once, a profile is delivered to the
  active subscriptions of its user id, each once, in the order they subscribed.
\<close>

lemma profile_reaches_subscribers:
  assumes "listener_run s active" "user_key user = Some key" "\<And>l. returns l"
  shows "publish_user_profile returns s user = Some (map (snd \<circ> snd) (filter (\<lambda>h. fst h = key) active), True)"
  using assms by (simp add: publish_user_profile_def run_listeners_of of_key_def call_listeners_all list_all_iff)

lemma profile_reaches_subscribers_witness:
  "publish_user_profile (\<lambda>_. True)
     (snd (subscribe_user_profile (JStr ''7'') ''card'' no_listeners)) (JObj [(''id'', JStr ''7'')]) = Some ([''card''], True)"
proof -
  have "listener_run (snd (subscribe_user_profile (JStr ''7'') ''card'' no_listeners)) ([] @ [(''7'', 0, ''card'')])"
    by (rule run_subscribe [OF run_start, of "''card''" "JStr ''7''"])
       (simp_all add: subscribe_user_profile_def no_listeners_def Let_def set_add_def)
  from profile_reaches_subscribers [OF this, of "JObj [(''id'', JStr ''7'')]" "''7''" "\<lambda>_. True"]
  show ?thesis by (simp add: user_key_def)
qed

text \<open>
  The restriction matters: the closure refers to the set it was added to and to its key, so ending a
  subscription twice also silences who subscribed to the same user in between.
\<close>

lemma ending_twice_silences_others:
  assumes "map_get (pl_sets s) (js_string user_id) = None" "l \<noteq> l'"
    and "subscribe_user_profile user_id l s = (h, s1)"
    and "subscribe_user_profile user_id l' (unsubscribe h s1) = (h', s2)"
  shows "listeners_of s2 (js_string user_id) = [l'] \<and> listeners_of (unsubscribe h s2) (js_string user_id) = []"
  using assms
  by (auto simp: subscribe_user_profile_def unsubscribe_def listeners_of_def Let_def set_add_def set_delete_def)

text \<open>
  Loading a profile makes at most two attempts and answers as soon as one succeeds: an id that is
  no positive decimal number is refused without any request, a first failure is retried once, and the
  error of the last attempt is the one the caller sees.
\<close>

lemma profile_load_retries_once:
  assumes "\<And>n user. request n = Inr user \<Longrightarrow> user_key user \<noteq> None" "\<And>l. returns l"
  shows "fst (load_user_profile returns thrown s request user_id) =
    (if \<not> valid_user_id (js_string user_id) then Inl (InvalidUserId (js_string user_id))
     else case request 0 of Inr user \<Rightarrow> Inr user
       | Inl _ \<Rightarrow> (case request 1 of Inr user \<Rightarrow> Inr user | Inl e \<Rightarrow> Inl (LoadFailed e)))"
proof -
  have publish: "\<exists>called. publish_user_profile returns s user = Some (called, True)" if "request n = Inr user" for n user
    using assms(1) [OF that] assms(2)
    by (auto simp: publish_user_profile_def call_listeners_all list_all_iff)
  show ?thesis
    by (cases "request 0"; cases "request 1")
       (auto simp: load_user_profile_def Let_def numeral_2_eq_2 dest!: publish)
qed

lemma profile_load_retries_once_witness:
  "fst (load_user_profile (\<lambda>_. True) () (no_listeners :: string profile_listeners)
     (\<lambda>n. if n = 0 then Inl () else Inr (JObj [(''id'', JStr ''7'')])) (JStr ''7'')) = Inr (JObj [(''id'', JStr ''7'')])"
proof -
  let ?request = "\<lambda>n::nat. if n = 0 then Inl () else Inr (JObj [(''id'', JStr ''7'')]) :: unit + jsval"
  have "fst (load_user_profile (\<lambda>_. True) () (no_listeners :: string profile_listeners) ?request (JStr ''7'')) =
    (if \<not> valid_user_id (js_string (JStr ''7'')) then Inl (InvalidUserId (js_string (JStr ''7'')))
     else case ?request 0 of Inr user \<Rightarrow> Inr user
       | Inl _ \<Rightarrow> (case ?request 1 of Inr user \<Rightarrow> Inr user | Inl e \<Rightarrow> Inl (LoadFailed e)))"
    by (rule profile_load_retries_once [where request = ?request]) (auto simp: user_key_def split: if_splits)
  then show ?thesis by (simp add: valid_user_id_def is_digit_def)
qed

end
