(* ===== verification/JsText.thy ===== *)
theory JsText
  imports Entities "HOL-Library.List_Lexorder" "HOL-Library.Char_ord"
begin

text \<open>
  Strings as the code handles them beyond \<open>JsValue\<close>: letter case, \<open>slice\<close>, \<open>split\<close>, \<open>parseInt\<close>,
  \<open>JSON.stringify\<close>, the sorting of string arrays, and the \<open>Headers\<close> of an HTTP request. Characters are
  those below 256; letter case is that of ASCII.
\<close>

section \<open>Letter case and parts of a string\<close>

definition lower_char :: "char \<Rightarrow> char" where
  "lower_char c = (let n = (of_char c :: nat) in if 65 \<le> n \<and> n \<le> 90 then char_of (n + 32) else c)"

definition upper_char :: "char \<Rightarrow> char" where
  "upper_char c = (let n = (of_char c :: nat) in if 97 \<le> n \<and> n \<le> 122 then char_of (n - 32) else c)"

definition to_lower :: "string \<Rightarrow> string" where
  "to_lower = map lower_char"

definition to_upper :: "string \<Rightarrow> string" where
  "to_upper = map upper_char"

lemma to_lower_simps: "to_lower [] = []" "to_lower (c # s) = lower_char c # to_lower s"
  by (simp_all add: to_lower_def)

lemma lower_char_idem [simp]: "lower_char (lower_char c) = lower_char c"
  by (simp add: lower_char_def Let_def)

lemma to_lower_idem [simp]: "to_lower (to_lower s) = to_lower s"
  by (simp add: to_lower_def)

definition ends_with :: "string \<Rightarrow> string \<Rightarrow> bool" where
  "ends_with suffix s = starts_with (rev suffix) (rev s)"

text \<open>\<open>s.includes(pat)\<close>.\<close>

fun str_includes :: "string \<Rightarrow> string \<Rightarrow> bool" where
  "str_includes [] pat = (pat = [])"
| "str_includes (c # cs) pat = (take (length pat) (c # cs) = pat \<or> str_includes cs pat)"

text \<open>\<open>s.split(sep)\<close> for a separator of one character.\<close>

fun split_at :: "char \<Rightarrow> string \<Rightarrow> string list" where
  "split_at sep [] = [[]]"
| "split_at sep (c # cs) =
     (if c = sep then [] # split_at sep cs
      else case split_at sep cs of
          part # parts \<Rightarrow> (c # part) # parts
        | [] \<Rightarrow> [[c]])"

lemma split_at_nonempty [simp]: "split_at sep s \<noteq> []"
  by (induction s) (auto split: list.split)

lemma split_at_hd: "hd (split_at sep s) = takeWhile (\<lambda>c. c \<noteq> sep) s"
  by (induction s) (auto split: list.split)

lemma split_at_plain: "sep \<notin> set s \<Longrightarrow> split_at sep s = [s]"
  by (induction s) auto

lemma split_at_join: "js_join [sep] (split_at sep s) = s"
proof (induction s)
  case (Cons c s)
  show ?case
  proof (cases "split_at sep s")
    case (Cons part parts)
    with Cons.IH show ?thesis by (cases parts) auto
  qed (use split_at_nonempty in blast)
qed simp

section \<open>\<open>parseInt(s, 10)\<close>\<close>

definition parse_int :: "string \<Rightarrow> int option" where
  "parse_int s =
     (let t = dropWhile is_space s;
          (sign, u) = (case t of
              c # cs \<Rightarrow> if c = CHR ''-'' then (-1, cs) else if c = CHR ''+'' then (1, cs) else (1, t)
            | [] \<Rightarrow> (1, t));
          digits = takeWhile is_digit u
      in if digits = [] then None else Some (sign * int (parse_nat digits)))"

section \<open>\<open>JSON.stringify\<close>\<close>

definition json_escape_char :: "char \<Rightarrow> string" where
  "json_escape_char c =
     (if c = CHR 0x22 then [CHR 0x5C, CHR 0x22]
      else if c = CHR 0x5C then [CHR 0x5C, CHR 0x5C]
      else if c = CHR 0x08 then [CHR 0x5C, CHR ''b'']
      else if c = CHR 0x0C then [CHR 0x5C, CHR ''f'']
      else if c = CHR 0x0A then [CHR 0x5C, CHR ''n'']
      else if c = CHR 0x0D then [CHR 0x5C, CHR ''r'']
      else if c = CHR 0x09 then [CHR 0x5C, CHR ''t'']
      else if (of_char c :: nat) < 32
      then [CHR 0x5C, CHR ''u'', CHR ''0'', CHR ''0'', ''0123456789abcdef'' ! ((of_char c :: nat) div 16),
        ''0123456789abcdef'' ! ((of_char c :: nat) mod 16)]
      else [c])"

definition json_string :: "string \<Rightarrow> string" where
  "json_string s = [CHR 0x22] @ concat (map json_escape_char s) @ [CHR 0x22]"

text \<open>\<open>undefined\<close> has no text: a property with it is left out, an element of an array becomes \<open>null\<close>.\<close>

fun json_text :: "jsval \<Rightarrow> string option" where
  "json_text JUndef = None"
| "json_text JNull = Some ''null''"
| "json_text (JBool b) = Some (if b then ''true'' else ''false'')"
| "json_text (JNum n) = Some (dec_int n)"
| "json_text JNaN = Some ''null''"
| "json_text (JStr s) = Some (json_string s)"
| "json_text (JArr xs) = Some (''['' @ js_join '',''
     (map (\<lambda>x. case json_text x of Some t \<Rightarrow> t | None \<Rightarrow> ''null'') xs) @ '']'')"
| "json_text (JObj ps) = Some (''{'' @ js_join '',''
     (concat (map (\<lambda>p. case json_text (snd p) of Some t \<Rightarrow> [json_string (fst p) @ '':'' @ t] | None \<Rightarrow> []) ps)) @ ''}'')"
| "json_text (JMap _) = Some ''{}''"

definition json_stringify :: "jsval \<Rightarrow> string" where
  "json_stringify v = (case json_text v of Some t \<Rightarrow> t | None \<Rightarrow> ''undefined'')"

section \<open>HTTP headers\<close>

text \<open>
  \<open>Headers\<close>: names are compared without case, a value is trimmed, appending to a present name joins
  the values, and \<open>forEach\<close> visits the names in order. Names are taken to be valid.
\<close>

type_synonym headers = "(string, string) jsmap"

definition headers_set :: "string \<Rightarrow> string \<Rightarrow> headers \<Rightarrow> headers" where
  "headers_set name v hs = map_set (to_lower name) (js_trim v) hs"

definition headers_append :: "string \<times> string \<Rightarrow> headers \<Rightarrow> headers" where
  "headers_append h hs =
     (case map_get hs (to_lower (fst h)) of
        None \<Rightarrow> headers_set (fst h) (snd h) hs
      | Some v \<Rightarrow> map_set (to_lower (fst h)) (v @ '', '' @ js_trim (snd h)) hs)"

definition new_headers :: "(string \<times> string) list \<Rightarrow> headers" where
  "new_headers init = fold headers_append init []"

definition headers_entries :: "headers \<Rightarrow> (string \<times> string) list" where
  "headers_entries hs = sort_key fst hs"

definition headers_has :: "headers \<Rightarrow> string \<Rightarrow> bool" where
  "headers_has hs name = map_has hs (to_lower name)"

definition headers_get :: "headers \<Rightarrow> string \<Rightarrow> string option" where
  "headers_get hs name = map_get hs (to_lower name)"

lemma headers_get_set:
  "map_get (headers_set name v hs) k = (if k = to_lower name then Some (js_trim v) else map_get hs k)"
  by (simp add: headers_set_def)

lemma set_headers_entries [simp]: "set (headers_entries hs) = set hs"
  by (simp add: headers_entries_def)

lemma distinct_headers_set: "distinct (map_keys hs) \<Longrightarrow> distinct (map_keys (headers_set n v hs))"
  by (simp add: headers_set_def distinct_map_keys_set)

lemma distinct_new_headers: "distinct (map_keys (new_headers init))"
proof -
  have "distinct (map_keys hs) \<Longrightarrow> distinct (map_keys (fold headers_append init hs))" for hs
  proof (induction init arbitrary: hs)
    case (Cons h init)
    then have "distinct (map_keys (headers_append h hs))"
      by (auto simp: headers_append_def distinct_headers_set distinct_map_keys_set split: option.split)
    with Cons.IH show ?case by simp
  qed simp
  then show ?thesis by (simp add: new_headers_def map_keys_def)
qed

text \<open>Headers whose names and values satisfy \<open>P\<close> and \<open>Q\<close> character by character.\<close>

definition headers_within :: "(char \<Rightarrow> bool) \<Rightarrow> (char \<Rightarrow> bool) \<Rightarrow> (string \<times> string) list \<Rightarrow> bool" where
  "headers_within P Q hs = (\<forall>(k, v) \<in> set hs. list_all P k \<and> list_all Q v)"

lemma trim_subset: "set (js_trim s) \<subseteq> set s"
  by (auto simp: js_trim_def dest!: set_dropWhileD)

lemma set_update_subset: "set (map_set k v m) \<subseteq> insert (k, v) (set m)"
  by (induction m) (auto simp: map_set_def)

lemma within_map_set:
  assumes "headers_within P Q hs" "list_all P k" "list_all Q v"
  shows "headers_within P Q (map_set k v hs)"
  using assms set_update_subset [of k v hs] by (fastforce simp: headers_within_def)

lemma within_set:
  assumes "headers_within P Q hs" "list_all P (to_lower k)" "list_all Q v"
  shows "headers_within P Q (headers_set k v hs)"
proof -
  have "list_all Q (js_trim v)" using assms(3) trim_subset [of v] by (auto simp: list_all_iff)
  with assms show ?thesis by (simp add: headers_set_def within_map_set)
qed

lemma within_append:
  assumes "headers_within P Q hs" "list_all P (to_lower k)" "list_all Q v" "list_all Q '', ''"
  shows "headers_within P Q (headers_append (k, v) hs)"
proof (cases "map_get hs (to_lower k)")
  case None
  with assms show ?thesis by (simp add: headers_append_def within_set)
next
  case (Some u)
  then have "list_all Q u" using assms(1) by (auto simp: headers_within_def map_get_def dest!: map_of_SomeD)
  moreover have "list_all Q (js_trim v)" using assms(3) trim_subset [of v] by (auto simp: list_all_iff)
  ultimately show ?thesis using Some assms by (simp add: headers_append_def within_map_set)
qed

lemma within_new:
  assumes "\<forall>(k, v) \<in> set init. list_all P (to_lower k) \<and> list_all Q v" "list_all Q '', ''"
  shows "headers_within P Q (new_headers init)"
proof -
  have "headers_within P Q hs \<Longrightarrow> headers_within P Q (fold headers_append init hs)" for hs
    using assms by (induction init arbitrary: hs) (auto simp: within_append)
  from this [of "[]"] show ?thesis by (simp add: new_headers_def headers_within_def)
qed

lemma new_headers_lower: "(k, v) \<in> set (new_headers init) \<Longrightarrow> to_lower k = k"
proof -
  have step: "to_lower k = k" if "(k, v) \<in> set (headers_append h hs)" "\<And>k v. (k, v) \<in> set hs \<Longrightarrow> to_lower k = k"
    for k v h and hs :: headers
    using that set_update_subset [of "to_lower (fst h)" _ hs]
    by (fastforce simp: headers_append_def headers_set_def split: option.splits)
  have "(k, v) \<in> set (fold headers_append init hs) \<Longrightarrow> (\<And>k v. (k, v) \<in> set hs \<Longrightarrow> to_lower k = k) \<Longrightarrow> to_lower k = k" for hs
    by (induction init arbitrary: hs) (auto dest: step)
  from this [of "[]"] show "(k, v) \<in> set (new_headers init) \<Longrightarrow> to_lower k = k" by (simp add: new_headers_def)
qed

section \<open>Joining is unambiguous\<close>

lemma takeWhile_join:
  "sep \<notin> set x \<Longrightarrow> split_at sep (x @ sep # rest) = x # split_at sep rest"
  by (induction x) auto

lemma split_join:
  "xs \<noteq> [] \<Longrightarrow> (\<And>x. x \<in> set xs \<Longrightarrow> sep \<notin> set x) \<Longrightarrow> split_at sep (js_join [sep] xs) = xs"
proof (induction xs)
  case (Cons x xs)
  then show ?case by (cases xs) (simp_all add: takeWhile_join split_at_plain)
qed simp

lemma join_inject:
  assumes "xs \<noteq> []" "ys \<noteq> []" "\<And>x. x \<in> set xs \<union> set ys \<Longrightarrow> sep \<notin> set x"
    and "js_join [sep] xs = js_join [sep] ys"
  shows "xs = ys"
proof -
  have "split_at sep (js_join [sep] xs) = xs" by (rule split_join [OF assms(1)]) (rule assms(3), simp)
  moreover have "split_at sep (js_join [sep] ys) = ys" by (rule split_join [OF assms(2)]) (rule assms(3), simp)
  ultimately show ?thesis by (metis assms(4))
qed

end
