(* ===== verification/ApiClient.thy ===== *)
theory ApiClient
  imports JsText TsTypes AuthAtoms
begin

text \<open>
  \<open>utils/api.ts\<close>, the HTTP half: the headers of a request, one request with its error handling and the
  refresh of an expired token, and the calls of the API. What the network answers and what other code
  does to \<open>localStorage\<close> while a request waits are parameters.
\<close>

section \<open>Interfaces\<close>

definition RateLimitDefconInfo :: fields where
  "RateLimitDefconInfo =
     [opt ''ips_jailed'' TNumber, opt ''distinct_ips_tracked'' TNumber, opt ''citizens'' TNumber,
      opt ''limiter_state'' (TUnion [TNumber, TString])]"

definition MFAChallengeReason :: tsty where
  "MFAChallengeReason = literals [''authentication_required'', ''ip_changed'', ''suspicious_activity'',
     ''sensitive_action'', ''session_expired'']"

definition ApiError :: fields where
  "ApiError =
     [req ''error'' TString, opt ''message'' TString, opt ''challenge'' TString,
      opt ''reason_code'' (TUnion [MFAChallengeReason, literals [''account_provisional'', ''action_rate_limited'']]),
      opt ''action'' TString, opt ''defcon_info'' (TShape RateLimitDefconInfo), opt ''retry_after'' TNumber,
      opt ''unlock_at'' TString, opt ''remaining_seconds'' TNumber, opt ''totp_setup_route'' TString]"

definition AuthResponse :: fields where
  "AuthResponse =
     [req ''access_token'' TString, opt ''refresh_token'' TString, req ''user'' (TShape User),
      opt ''expires_in'' TNumber, opt ''requires_totp'' TBoolean, opt ''totp_token'' TString]"

definition RecoveryRequest :: fields where
  "RecoveryRequest =
     [req ''id'' TString, req ''email'' TString, req ''user_id'' TNumber, req ''username'' TString,
      req ''display_name'' TString, req ''status'' TString, opt ''guest_session_id'' TString,
      req ''created_at'' TString, req ''expires_at'' TString]"

section \<open>Requests\<close>

datatype body = NoBody | TextBody string | BytesBody "nat list" | FormBody | BlobBody | BufferBody

record request_init =
  ri_method :: "string option"
  ri_headers :: "(string \<times> string) list"
  ri_body :: body
  ri_signal :: bool

text \<open>\<open>!options.body\<close>: the empty text is falsy too.\<close>

definition no_body :: "body \<Rightarrow> bool" where
  "no_body b = (b = NoBody \<or> b = TextBody [])"

type_synonym storage = "(string, string) jsmap"

text \<open>The stored token without the quotes an old version wrote around it; \<open>slice(1, -1)\<close>.\<close>

definition bearer_token :: "storage \<Rightarrow> string option" where
  "bearer_token st =
     (case map_get st ''auth.accessToken'' of
        Some t \<Rightarrow> Some (if quoted t then butlast (tl t) else t)
      | None \<Rightarrow> None)"

definition get_auth_headers :: "bool \<Rightarrow> storage \<Rightarrow> (string \<times> string) list" where
  "get_auth_headers include_content_type st =
     (if include_content_type then [(''Content-Type'', ''application/json'')] else [])
     @ (case bearer_token st of
          Some (c # cs) \<Rightarrow> [(''Authorization'', ''Bearer '' @ c # cs)]
        | _ \<Rightarrow> [])"

definition merge_headers :: "(string \<times> string) list \<Rightarrow> (string \<times> string) list \<Rightarrow> headers" where
  "merge_headers base extra =
     fold (\<lambda>(k, v). headers_set k v) (headers_entries (new_headers extra)) (new_headers base)"

definition normalized_method :: "request_init \<Rightarrow> string" where
  "normalized_method opts = to_upper (case ri_method opts of Some (c # cs) \<Rightarrow> c # cs | _ \<Rightarrow> ''GET'')"

definition should_coalesce_read :: "request_init \<Rightarrow> bool" where
  "should_coalesce_read opts =
     ((normalized_method opts = ''GET'' \<or> normalized_method opts = ''HEAD'')
      \<and> no_body (ri_body opts) \<and> \<not> ri_signal opts)"

definition headers_key :: "headers \<Rightarrow> string" where
  "headers_key hs = js_join ''|'' (sort (map (\<lambda>(k, v). k @ '':'' @ v) (headers_entries hs)))"

definition request_coalesce_key :: "string \<Rightarrow> request_init \<Rightarrow> storage \<Rightarrow> string" where
  "request_coalesce_key endpoint opts st =
     js_join '' '' [normalized_method opts, endpoint,
       headers_key (merge_headers (get_auth_headers False st) (ri_headers opts))]"

section \<open>The network and the page\<close>

record http_request =
  rq_url :: string
  rq_method :: string
  rq_headers :: headers
  rq_body :: body

record http_response =
  rs_status :: nat
  rs_status_text :: string
  rs_headers :: headers
  rs_json :: "jsval option"

definition rs_ok :: "http_response \<Rightarrow> bool" where
  "rs_ok r = (200 \<le> rs_status r \<and> rs_status r < 300)"

text \<open>
  The answer to the \<open>n\<close>-th request (\<open>None\<close>: \<open>fetch\<close> rejects), and what \<open>localStorage\<close> has become when
  the code goes on after waiting for it.
\<close>

record world =
  w_http :: "nat \<Rightarrow> http_request \<Rightarrow> http_response option"
  w_meanwhile :: "nat \<Rightarrow> storage \<Rightarrow> storage"

datatype api_event =
    ToastErr string
  | RateLimited jsval string jsval jsval
  | AccountProvisional jsval jsval
  | SiteArmed
  | MfaRequired jsval jsval
  | Unauthorized jsval

record api_state =
  as_storage :: storage
  as_events :: "api_event list"
  as_sent :: "http_request list"

text \<open>A plain \<open>Error\<close>, an HTTP error with its extra fields, a failed \<open>fetch\<close>, a
  \<open>TypeError\<close>, a body that is no JSON.\<close>

datatype api_failure =
    PlainFailure string
  | HttpFailure string nat jsval jsval
  | FetchFailure
  | TypeFailure
  | SyntaxFailure

definition fetch :: "world \<Rightarrow> http_request \<Rightarrow> api_state \<Rightarrow> http_response option \<times> api_state" where
  "fetch w rq s =
     (let n = length (as_sent s) in
      (w_http w n rq, s\<lparr>as_sent := as_sent s @ [rq], as_storage := w_meanwhile w n (as_storage s)\<rparr>))"

definition api_emit :: "api_event \<Rightarrow> api_state \<Rightarrow> api_state" where
  "api_emit e s = s\<lparr>as_events := as_events s @ [e]\<rparr>"

definition api_base_url :: string where
  "api_base_url = ''/api''"

text \<open>The request itself: \<open>{ ...options, headers: mergeHeaders(getAuthHeaders(!isFormData), options.headers) }\<close>.\<close>

definition api_fetch :: "world \<Rightarrow> string \<Rightarrow> request_init \<Rightarrow> api_state \<Rightarrow> http_response option \<times> api_state" where
  "api_fetch w endpoint opts s =
     fetch w \<lparr>rq_url = api_base_url @ endpoint,
       rq_method = (case ri_method opts of Some m \<Rightarrow> m | None \<Rightarrow> ''GET''),
       rq_headers = merge_headers (get_auth_headers (ri_body opts \<noteq> FormBody) (as_storage s)) (ri_headers opts),
       rq_body = ri_body opts\<rparr> s"

section \<open>Reading an error\<close>

definition error_data :: "http_response \<Rightarrow> jsval" where
  "error_data r = (case rs_json r of Some v \<Rightarrow> v | None \<Rightarrow> JNull)"

definition error_message :: "http_response \<Rightarrow> jsval" where
  "error_message r =
     js_or (js_or (fld (error_data r) ''error'') (fld (error_data r) ''message''))
       (JStr (''HTTP '' @ dec_nat (rs_status r)))"

definition retry_after :: "http_response \<Rightarrow> jsval" where
  "retry_after r =
     (let from_header = (case headers_get (rs_headers r) ''Retry-After'' of
          Some (c # cs) \<Rightarrow> (case parse_int (c # cs) of Some n \<Rightarrow> JNum n | None \<Rightarrow> JUndef)
        | _ \<Rightarrow> JUndef)
      in if from_header = JUndef \<and> is_number (fld (error_data r) ''retry_after'')
         then fld (error_data r) ''retry_after'' else from_header)"

definition auth_failure_texts :: "string list" where
  "auth_failure_texts = [''invalid session'', ''session expired'', ''invalid token'', ''token parsing'',
     ''missing or malformed jwt'', ''unauthorized'']"

definition is_auth_failure :: "jsval \<Rightarrow> bool" where
  "is_auth_failure message = list_ex (\<lambda>t. substring_of t (to_lower (js_string message))) auth_failure_texts"

definition is_mfa_challenge :: "http_response \<Rightarrow> bool" where
  "is_mfa_challenge r = (rs_status_text r = ''MFA Required'' \<or> error_message r = JStr ''MFA Required'')"

definition note_rate_limit :: "string \<Rightarrow> request_init \<Rightarrow> http_response \<Rightarrow> api_state \<Rightarrow> api_state" where
  "note_rate_limit url opts r s =
     (if rs_status r = 429 \<and> \<not> headers_has (new_headers (ri_headers opts)) ''X-TOTP-Code''
      then api_emit (RateLimited (retry_after r) url (fld (error_data r) ''challenge'') (fld (error_data r) ''defcon_info''))
        (api_emit (ToastErr (js_string (error_message r)
           @ (if truthy (retry_after r) then '' - retry after '' @ js_string (retry_after r) @ ''s'' else []))) s)
      else s)"

definition note_provisional :: "http_response \<Rightarrow> api_state \<Rightarrow> api_state" where
  "note_provisional r s =
     (if rs_status r = 403 \<and> fld (error_data r) ''reason_code'' = JStr ''account_provisional''
      then api_emit (AccountProvisional (fld (error_data r) ''unlock_at'') (fld (error_data r) ''remaining_seconds'')) s
      else s)"

text \<open>\<open>response.json()\<close> of a good response, or \<open>null\<close>.\<close>

definition json_or_null :: "http_response \<Rightarrow> jsval" where
  "json_or_null r = (case rs_json r of Some v \<Rightarrow> v | None \<Rightarrow> JNull)"

section \<open>Refreshing the token\<close>

definition set_item :: "string \<Rightarrow> string \<Rightarrow> api_state \<Rightarrow> api_state" where
  "set_item k v s = s\<lparr>as_storage := map_set k v (as_storage s)\<rparr>"

definition store_refreshed :: "jsval \<Rightarrow> api_state \<Rightarrow> api_state" where
  "store_refreshed data s =
     (let s1 = set_item ''auth.accessToken'' (js_string (fld data ''access_token'')) s;
          s2 = (if truthy (fld data ''refresh_token'')
            then set_item ''auth.refreshToken'' (js_string (fld data ''refresh_token'')) s1 else s1)
      in if truthy (fld data ''user'')
         then set_item ''auth.user'' (json_stringify (fld data ''user'')) s2 else s2)"

text \<open>
  The \<open>try\<close> block: the result of the retried request when it is good; otherwise, and on any
  exception, the code falls through to the logout.
\<close>

definition refresh_and_retry ::
  "world \<Rightarrow> string \<Rightarrow> request_init \<Rightarrow> string \<Rightarrow> api_state \<Rightarrow> jsval option \<times> api_state" where
  "refresh_and_retry w endpoint opts refresh_token s =
     (case fetch w \<lparr>rq_url = api_base_url @ ''/auth/refresh'', rq_method = ''POST'',
          rq_headers = new_headers [(''Content-Type'', ''application/json'')],
          rq_body = TextBody (json_stringify (JObj [(''refresh_token'', JStr refresh_token)]))\<rparr> s of
        (None, s1) \<Rightarrow> (None, s1)
      | (Some refreshed, s1) \<Rightarrow>
          if \<not> rs_ok refreshed then (None, s1)
          else (case rs_json refreshed of
              None \<Rightarrow> (None, s1)
            | Some data \<Rightarrow>
                if nullish data then (None, s1)
                else (case api_fetch w endpoint opts (store_refreshed data s1) of
                    (None, s2) \<Rightarrow> (None, s2)
                  | (Some retried, s2) \<Rightarrow>
                      if rs_ok retried then (Some (json_or_null retried), s2) else (None, s2))))"

definition auth_keys :: "string list" where
  "auth_keys = [''auth.accessToken'', ''auth.refreshToken'', ''auth.user'', ''auth.isAuthenticated'']"

definition clear_auth :: "jsval \<Rightarrow> api_state \<Rightarrow> api_state" where
  "clear_auth message s =
     api_emit (Unauthorized message) (s\<lparr>as_storage := fold map_delete auth_keys (as_storage s)\<rparr>)"

definition http_failure :: "http_response \<Rightarrow> api_failure" where
  "http_failure r = HttpFailure (js_string (error_message r)) (rs_status r) (retry_after r) (error_data r)"

text \<open>The branch of status 401.\<close>

definition handle_unauthorized ::
  "world \<Rightarrow> string \<Rightarrow> request_init \<Rightarrow> http_response \<Rightarrow> api_state \<Rightarrow> (api_failure + jsval) \<times> api_state" where
  "handle_unauthorized w endpoint opts r s =
     (if is_mfa_challenge r then
        (Inl (PlainFailure ''MFA Required''),
         api_emit (MfaRequired (fld (error_data r) ''reason_code'') (fld (error_data r) ''action'')) s)
      else if \<not> is_auth_failure (error_message r) then (Inl (http_failure r), s)
      else
        let (retried, s1) = (case map_get (as_storage s) ''auth.refreshToken'' of
            Some (c # cs) \<Rightarrow>
              if substring_of ''/auth/refresh'' endpoint then (None, s)
              else refresh_and_retry w endpoint opts (c # cs) s
          | _ \<Rightarrow> (None, s))
        in case retried of
             Some v \<Rightarrow> (Inr v, s1)
           | None \<Rightarrow> (Inl (http_failure r), clear_auth (error_message r) s1))"

definition is_text :: "jsval \<Rightarrow> bool" where
  "is_text v = (case v of JStr _ \<Rightarrow> True | _ \<Rightarrow> False)"

text \<open>\<open>errorMessage.toLowerCase()\<close> exists for strings only.\<close>

definition handle_failed ::
  "world \<Rightarrow> string \<Rightarrow> request_init \<Rightarrow> http_response \<Rightarrow> api_state \<Rightarrow> (api_failure + jsval) \<times> api_state" where
  "handle_failed w endpoint opts r s0 =
     (let s = note_provisional r (note_rate_limit (api_base_url @ endpoint) opts r s0) in
      if rs_status r = 503 \<and> \<not> is_text (error_message r) then (Inl TypeFailure, s)
      else if rs_status r = 503 \<and> substring_of ''armed'' (to_lower (js_string (error_message r)))
      then (Inl (PlainFailure (js_string (error_message r))), api_emit SiteArmed s)
      else if rs_status r = 401 then handle_unauthorized w endpoint opts r s
      else (Inl (http_failure r), s))"

definition perform_api_request ::
  "world \<Rightarrow> string \<Rightarrow> request_init \<Rightarrow> api_state \<Rightarrow> (api_failure + jsval) \<times> api_state" where
  "perform_api_request w endpoint opts s =
     (case api_fetch w endpoint opts s of
        (None, s1) \<Rightarrow> (Inl FetchFailure, s1)
      | (Some r, s1) \<Rightarrow>
          if rs_ok r then (Inr (json_or_null r), s1) else handle_failed w endpoint opts r s1)"

definition upload_file :: "world \<Rightarrow> string \<Rightarrow> api_state \<Rightarrow> (api_failure + jsval) \<times> api_state" where
  "upload_file w endpoint s =
     (case fetch w \<lparr>rq_url = api_base_url @ endpoint, rq_method = ''POST'',
          rq_headers = merge_headers (get_auth_headers False (as_storage s)) [], rq_body = FormBody\<rparr> s of
        (None, s1) \<Rightarrow> (Inl FetchFailure, s1)
      | (Some r, s1) \<Rightarrow>
          if \<not> rs_ok r then (Inl (PlainFailure ''File upload failed''), s1)
          else (case rs_json r of Some v \<Rightarrow> (Inr v, s1) | None \<Rightarrow> (Inl SyntaxFailure, s1)))"

section \<open>The calls of the API\<close>

type_synonym api_call = "string \<times> request_init"

definition api_get :: "string \<Rightarrow> api_call" where
  "api_get endpoint = (endpoint, \<lparr>ri_method = None, ri_headers = [], ri_body = NoBody, ri_signal = False\<rparr>)"

definition api_post :: "string \<Rightarrow> api_call" where
  "api_post endpoint = (endpoint, \<lparr>ri_method = Some ''POST'', ri_headers = [], ri_body = NoBody, ri_signal = False\<rparr>)"

definition api_post_json :: "string \<Rightarrow> (string \<times> jsval) list \<Rightarrow> api_call" where
  "api_post_json endpoint props = (endpoint,
     \<lparr>ri_method = Some ''POST'', ri_headers = [], ri_body = TextBody (json_stringify (JObj props)), ri_signal = False\<rparr>)"

definition admin_enable_totp :: "string \<Rightarrow> string \<Rightarrow> string \<Rightarrow> api_call" where
  "admin_enable_totp user_id secret code =
     api_post_json (''/auth/admin/totp/'' @ user_id @ ''/enable'') [(''secret'', JStr secret), (''code'', JStr code)]"

definition admin_disable_totp :: "string \<Rightarrow> api_call" where
  "admin_disable_totp user_id = api_post (''/auth/admin/totp/'' @ user_id @ ''/disable'')"

definition admin_trigger_mfa_challenge :: "string \<Rightarrow> api_call" where
  "admin_trigger_mfa_challenge user_id = api_post (''/auth/admin/totp/'' @ user_id @ ''/challenge'')"

definition admin_generate_backup_codes :: "string \<Rightarrow> api_call" where
  "admin_generate_backup_codes user_id = api_post (''/auth/admin/totp/'' @ user_id @ ''/generate-backup-codes'')"

definition login_user :: "string \<Rightarrow> string \<Rightarrow> api_call" where
  "login_user email password = api_post_json ''/auth/login'' [(''email'', JStr email), (''password'', JStr password)]"

definition register_user :: "string \<Rightarrow> string \<Rightarrow> string \<Rightarrow> api_call" where
  "register_user username email password =
     api_post_json ''/auth/register'' [(''username'', JStr username), (''email'', JStr email),
       (''password'', JStr password), (''display_name'', JStr username)]"

definition refresh_access_token :: "string \<Rightarrow> api_call" where
  "refresh_access_token refresh_token = api_post_json ''/auth/refresh'' [(''refresh_token'', JStr refresh_token)]"

definition get_current_user :: api_call where
  "get_current_user =
     (''/users/profile'', \<lparr>ri_method = Some ''GET'', ri_headers = [], ri_body = NoBody, ri_signal = False\<rparr>)"

definition verify_email :: "string \<Rightarrow> api_call" where
  "verify_email token = api_post_json ''/auth/verify-email'' [(''token'', JStr token)]"

definition resend_verification_email :: api_call where
  "resend_verification_email = api_post ''/auth/resend-verification''"

definition forgot_password :: "string \<Rightarrow> jsval \<Rightarrow> api_call" where
  "forgot_password email guest_session_id =
     api_post_json ''/auth/forgot-password'' [(''email'', JStr email), (''guest_session_id'', guest_session_id)]"

definition list_recovery_requests :: api_call where
  "list_recovery_requests = api_get ''/auth/admin/recovery-requests''"

definition accept_recovery_request :: "string \<Rightarrow> api_call" where
  "accept_recovery_request request_id = api_post (''/auth/admin/recovery-requests/'' @ request_id @ ''/accept'')"

definition reject_recovery_request :: "string \<Rightarrow> api_call" where
  "reject_recovery_request request_id = api_post (''/auth/admin/recovery-requests/'' @ request_id @ ''/reject'')"

definition reset_password :: "string \<Rightarrow> string \<Rightarrow> api_call" where
  "reset_password token new_password =
     api_post_json ''/auth/reset-password'' [(''token'', JStr token), (''new_password'', JStr new_password)]"

definition login_totp :: "string \<Rightarrow> jsval \<Rightarrow> jsval \<Rightarrow> api_call" where
  "login_totp totp_token totp_code backup_code =
     api_post_json ''/auth/login/totp'' [(''totp_token'', JStr totp_token), (''totp_code'', totp_code),
       (''backup_code'', backup_code)]"

definition totp_setup :: api_call where
  "totp_setup = api_post ''/auth/totp/setup''"

definition totp_enable :: "string \<Rightarrow> api_call" where
  "totp_enable code = api_post_json ''/auth/totp/enable'' [(''code'', JStr code)]"

definition totp_status :: "string option \<Rightarrow> api_call" where
  "totp_status user_id = api_get (case user_id of Some (c # cs) \<Rightarrow> ''/auth/totp/'' @ c # cs | _ \<Rightarrow> ''/auth/totp'')"

definition totp_disable :: "string \<Rightarrow> api_call" where
  "totp_disable password = api_post_json ''/auth/totp/disable'' [(''password'', JStr password)]"

definition verify_mfa_challenge :: "jsval \<Rightarrow> jsval \<Rightarrow> api_call" where
  "verify_mfa_challenge totp_code backup_code =
     api_post_json ''/auth/mfa-challenge'' [(''totp_code'', totp_code), (''backup_code'', backup_code)]"

section \<open>What a request does to the page\<close>

lemma fetch_fields [simp]:
  "as_sent (snd (fetch w rq s)) = as_sent s @ [rq]"
  "as_storage (snd (fetch w rq s)) = w_meanwhile w (length (as_sent s)) (as_storage s)"
  "as_events (snd (fetch w rq s)) = as_events s"
  "fst (fetch w rq s) = w_http w (length (as_sent s)) rq"
  by (simp_all add: fetch_def Let_def)

lemma notes_fields [simp]:
  "as_sent (note_rate_limit url opts r s) = as_sent s" "as_storage (note_rate_limit url opts r s) = as_storage s"
  "as_sent (note_provisional r s) = as_sent s" "as_storage (note_provisional r s) = as_storage s"
  by (simp_all add: note_rate_limit_def note_provisional_def api_emit_def)

lemma store_refreshed_sent [simp]: "as_sent (store_refreshed data s) = as_sent s"
  by (simp add: store_refreshed_def set_item_def Let_def)

lemma store_refreshed_events [simp]: "as_events (store_refreshed data s) = as_events s"
  by (simp add: store_refreshed_def set_item_def Let_def)

lemma store_refreshed_frame: "k \<notin> set auth_keys \<Longrightarrow> map_get (as_storage (store_refreshed data s)) k = map_get (as_storage s) k"
  by (auto simp: store_refreshed_def set_item_def Let_def auth_keys_def)

lemma clear_auth_fields [simp]:
  "as_sent (clear_auth m s) = as_sent s"
  "map_get (as_storage (clear_auth m s)) k = (if k \<in> set auth_keys then None else map_get (as_storage s) k)"
  by (auto simp: clear_auth_def api_emit_def auth_keys_def)

lemma fetch_result:
  "fetch w rq s = (r, s') \<Longrightarrow> as_sent s' = as_sent s @ [rq] \<and> as_events s' = as_events s
    \<and> as_storage s' = w_meanwhile w (length (as_sent s)) (as_storage s) \<and> r = w_http w (length (as_sent s)) rq"
  by (auto simp: fetch_def Let_def)

lemma refresh_sends:
  assumes "refresh_and_retry w endpoint opts t s = (v, s')"
  shows "length (as_sent s') \<le> length (as_sent s) + 2"
  using assms
  by (auto simp: refresh_and_retry_def api_fetch_def split: prod.splits option.splits if_splits dest!: fetch_result)

text \<open>No other code touches the storage while the request waits.\<close>

definition undisturbed :: "world \<Rightarrow> bool" where
  "undisturbed w = (w_meanwhile w = (\<lambda>_ st. st))"

lemma refresh_frame:
  assumes "refresh_and_retry w endpoint opts t s = (v, s')" "undisturbed w" "k \<notin> set auth_keys"
  shows "map_get (as_storage s') k = map_get (as_storage s) k"
  using assms
  by (auto simp: refresh_and_retry_def api_fetch_def undisturbed_def store_refreshed_frame
      split: prod.splits option.splits if_splits dest!: fetch_result)

lemma unauthorized_sends:
  assumes "handle_unauthorized w endpoint opts r s = (v, s')"
  shows "length (as_sent s') \<le> length (as_sent s) + (if substring_of ''/auth/refresh'' endpoint then 0 else 2)"
  using assms
  by (auto simp: handle_unauthorized_def api_emit_def Let_def split: if_splits option.splits prod.splits list.splits
      dest: refresh_sends)

lemma failed_sends:
  assumes "handle_failed w endpoint opts r s = (v, s')"
  shows "length (as_sent s') \<le> length (as_sent s) + (if substring_of ''/auth/refresh'' endpoint then 0 else 2)"
  using assms unfolding handle_failed_def Let_def
  by (auto simp: api_emit_def split: if_splits dest!: unauthorized_sends)

lemma unauthorized_frame:
  assumes "handle_unauthorized w endpoint opts r s = (v, s')" "undisturbed w"
    and "map_get (as_storage s') k \<noteq> map_get (as_storage s) k"
  shows "k \<in> set auth_keys \<and> is_auth_failure (error_message r) \<and> \<not> is_mfa_challenge r"
proof -
  have changed: "is_auth_failure (error_message r) \<and> \<not> is_mfa_challenge r"
    using assms(1,3) by (auto simp: handle_unauthorized_def api_emit_def split: if_splits)
  obtain retried s1 where r: "(case map_get (as_storage s) ''auth.refreshToken'' of
      Some (c # cs) \<Rightarrow> if substring_of ''/auth/refresh'' endpoint then (None, s)
        else refresh_and_retry w endpoint opts (c # cs) s | _ \<Rightarrow> (None, s)) = (retried, s1)" by fastforce
  have "map_get (as_storage s1) k = map_get (as_storage s) k" if "k \<notin> set auth_keys"
    using r refresh_frame [OF _ assms(2) that] by (auto split: option.splits list.splits if_splits)
  with assms(1,3) changed r show ?thesis
    by (auto simp: handle_unauthorized_def split: option.splits if_splits)
qed

lemma failed_frame:
  assumes "handle_failed w endpoint opts r s = (v, s')" "undisturbed w"
    and "map_get (as_storage s') k \<noteq> map_get (as_storage s) k"
  shows "k \<in> set auth_keys \<and> rs_status r = 401 \<and> is_auth_failure (error_message r) \<and> \<not> is_mfa_challenge r"
  using assms unfolding handle_failed_def Let_def
  by (auto simp: api_emit_def split: if_splits dest: unauthorized_frame)

section \<open>Merged headers\<close>

definition names_header :: "(string \<times> string) list \<Rightarrow> string \<Rightarrow> bool" where
  "names_header init name = headers_has (new_headers init) name"

lemma fold_set_get:
  assumes "\<forall>(k', v) \<in> set es. to_lower k' \<noteq> k"
  shows "map_get (fold (\<lambda>(k, v). headers_set k v) es hs) k = map_get hs k"
  using assms by (induction es arbitrary: hs) (auto simp: headers_get_set)

lemma merge_headers_base:
  assumes "\<not> names_header extra name"
  shows "map_get (merge_headers base extra) (to_lower name) = map_get (new_headers base) (to_lower name)"
proof -
  have "\<forall>(k, v) \<in> set (headers_entries (new_headers extra)). to_lower k \<noteq> to_lower name"
    using assms new_headers_lower [of _ _ extra]
    by (fastforce simp: names_header_def headers_has_def map_has_def map_of_eq_None_iff image_iff)
  then show ?thesis by (simp add: merge_headers_def fold_set_get)
qed

lemma lower_names [simp]:
  "to_lower ''Authorization'' = ''authorization''" "to_lower ''Content-Type'' = ''content-type''"
  by code_simp+

lemma auth_header:
  assumes "bearer_token st = Some t" "t \<noteq> []" "\<not> names_header extra ''Authorization''"
  shows "map_get (merge_headers (get_auth_headers ct st) extra) ''authorization'' = Some (js_trim (''Bearer '' @ t))"
proof -
  obtain c cs where "t = c # cs" using assms(2) by (cases t) auto
  with assms merge_headers_base [of extra "''Authorization''"] show ?thesis
    by (simp add: get_auth_headers_def new_headers_def headers_append_def headers_get_set)
qed

lemma distinct_merge: "distinct (map_keys (merge_headers base extra))"
proof -
  have "distinct (map_keys hs) \<Longrightarrow> distinct (map_keys (fold (\<lambda>(k, v). headers_set k v) es hs))" for hs es
    by (induction es arbitrary: hs) (auto simp: distinct_headers_set)
  then show ?thesis by (simp add: merge_headers_def distinct_new_headers)
qed

section \<open>Properties\<close>

text \<open>
  C24. A call of the API can never loop: however the server answers, it sends at most three requests
  (the call, one refresh, one retry), and a call to the refresh endpoint sends just one.
\<close>

theorem api_request_bounded:
  "length (as_sent (snd (perform_api_request w endpoint opts s)))
     \<le> length (as_sent s) + (if substring_of ''/auth/refresh'' endpoint then 1 else 3)"
proof -
  obtain r s1 where f: "api_fetch w endpoint opts s = (r, s1)" by fastforce
  then have s1: "length (as_sent s1) = Suc (length (as_sent s))"
    by (auto simp: api_fetch_def dest!: fetch_result)
  show ?thesis
  proof (cases r)
    case (Some resp)
    obtain v s2 where "handle_failed w endpoint opts resp s1 = (v, s2)" by fastforce
    with failed_sends [OF this] Some f s1 show ?thesis by (auto simp: perform_api_request_def)
  qed (use f s1 in \<open>simp add: perform_api_request_def\<close>)
qed

text \<open>
  C20. A call touches nothing in the browser's storage but the four entries of the session, and those
  only when the server answered 401 with one of the messages of a broken session: any other failure (no
  network, 403, 429, 500, a wrong password answered with 401, an MFA challenge) leaves the user logged in.
\<close>

theorem session_survives_other_failures:
  assumes "undisturbed w" "perform_api_request w endpoint opts s = (v, s')"
    and "map_get (as_storage s') k \<noteq> map_get (as_storage s) k"
  shows "k \<in> {''auth.accessToken'', ''auth.refreshToken'', ''auth.user'', ''auth.isAuthenticated''}
    \<and> (\<exists>rq r. w_http w (length (as_sent s)) rq = Some r \<and> rs_status r = 401
        \<and> is_auth_failure (error_message r) \<and> \<not> is_mfa_challenge r)"
proof -
  obtain r s1 where f: "api_fetch w endpoint opts s = (r, s1)" by fastforce
  then have s1: "as_storage s1 = as_storage s" "\<exists>rq. w_http w (length (as_sent s)) rq = r"
    using assms(1) by (auto simp: api_fetch_def undisturbed_def dest!: fetch_result)
  with f assms(2,3) obtain resp where resp: "r = Some resp" "handle_failed w endpoint opts resp s1 = (v, s')"
    by (cases r) (auto simp: perform_api_request_def split: if_splits)
  with assms(3) s1 failed_frame [OF resp(2) assms(1), of k] show ?thesis by (auto simp: auth_keys_def)
qed

text \<open>A server that rejects the token \<open>old\<close>, and refreshes it once.\<close>

definition json_response :: "nat \<Rightarrow> jsval \<Rightarrow> http_response" where
  "json_response status v = \<lparr>rs_status = status, rs_status_text = [], rs_headers = [], rs_json = Some v\<rparr>"

definition expired_world :: world where
  "expired_world = \<lparr>w_http = (\<lambda>n rq. Some (
       if n = 0 then json_response 401 (JObj [(''error'', JStr ''Invalid token'')])
       else if n = 1 then json_response 200 (JObj [(''access_token'', JStr ''fresh'')])
       else json_response 200 (JNum 42))),
     w_meanwhile = (\<lambda>_ st. st)\<rparr>"

definition logged_in :: api_state where
  "logged_in = \<lparr>as_storage = [(''auth.accessToken'', ''old''), (''auth.refreshToken'', ''r'')],
     as_events = [], as_sent = []\<rparr>"

lemma response_fields [simp]:
  "rs_status (json_response n v) = n" "rs_json (json_response n v) = Some v"
  "rs_ok (json_response 200 v)" "error_data (json_response n v) = v"
  by (simp_all add: json_response_def rs_ok_def error_data_def)

lemma lower_invalid_token: "to_lower ''Invalid token'' = ''invalid token''"
  by code_simp

lemma refused_is_auth_failure:
  "is_auth_failure (error_message (json_response 401 (JObj [(''error'', JStr ''Invalid token'')])))"
  "\<not> is_mfa_challenge (json_response 401 (JObj [(''error'', JStr ''Invalid token'')]))"
  by (simp_all add: is_auth_failure_def error_message_def auth_failure_texts_def is_mfa_challenge_def
      lower_invalid_token json_response_def error_data_def js_or_def starts_with_def)

lemma store_refreshed_token:
  "map_get (as_storage (store_refreshed data s)) ''auth.accessToken'' = Some (js_string (fld data ''access_token''))"
  by (simp add: store_refreshed_def set_item_def Let_def)

lemma unauthorized_refreshes:
  assumes "is_auth_failure (error_message r)" "\<not> is_mfa_challenge r"
    and "map_get (as_storage s) ''auth.refreshToken'' = Some t" "t \<noteq> []" "\<not> substring_of ''/auth/refresh'' endpoint"
    and "refresh_and_retry w endpoint opts t s = (Some v, s')"
  shows "handle_unauthorized w endpoint opts r s = (Inr v, s')"
proof -
  obtain c cs where "t = c # cs" using assms(4) by (cases t) auto
  with assms show ?thesis by (simp add: handle_unauthorized_def)
qed

lemma failed_401: "rs_status r = 401 \<Longrightarrow> handle_failed w endpoint opts r s = handle_unauthorized w endpoint opts r s"
  by (simp add: handle_failed_def note_rate_limit_def note_provisional_def)

text \<open>
  C19. An expired token is invisible to the caller: when the server rejects the token, a refresh token is
  at hand, the refresh answers with a new one and the retry succeeds, the caller gets the retry's answer,
  the retry carried the new token, the new token is what the browser stores, and nobody is told of a
  logout.
\<close>

theorem expired_token_is_refreshed:
  assumes "undisturbed w" "n = length (as_sent s)"
    and "\<And>rq. w_http w n rq = Some r" "rs_status r = 401" "is_auth_failure (error_message r)" "\<not> is_mfa_challenge r"
    and "map_get (as_storage s) ''auth.refreshToken'' = Some refresh" "refresh \<noteq> []"
    and "\<not> substring_of ''/auth/refresh'' endpoint"
    and "\<And>rq. w_http w (Suc n) rq = Some (json_response 200 (JObj data))"
    and "fld (JObj data) ''access_token'' = JStr token" "token \<noteq> []" "\<not> quoted token"
    and "\<And>rq. w_http w (Suc (Suc n)) rq = Some retried" "rs_ok retried"
    and "\<not> names_header (ri_headers opts) ''Authorization''"
    and "perform_api_request w endpoint opts s = (v, s')"
  shows "v = Inr (json_or_null retried)
    \<and> map_get (rq_headers (last (as_sent s'))) ''authorization'' = Some (js_trim (''Bearer '' @ token))
    \<and> map_get (as_storage s') ''auth.accessToken'' = Some token \<and> as_events s' = as_events s"
proof -
  obtain s1 where s1: "api_fetch w endpoint opts s = (Some r, s1)" "as_storage s1 = as_storage s"
    "length (as_sent s1) = Suc n" "as_events s1 = as_events s"
  proof -
    obtain x s1 where "api_fetch w endpoint opts s = (x, s1)" by fastforce
    with that assms(1-3) show thesis by (auto simp: api_fetch_def undisturbed_def dest!: fetch_result)
  qed
  define refreshing where "refreshing = \<lparr>rq_url = api_base_url @ ''/auth/refresh'', rq_method = ''POST'',
    rq_headers = new_headers [(''Content-Type'', ''application/json'')],
    rq_body = TextBody (json_stringify (JObj [(''refresh_token'', JStr refresh)]))\<rparr>"
  obtain s2 where s2: "fetch w refreshing s1 = (Some (json_response 200 (JObj data)), s2)"
    "length (as_sent s2) = Suc (Suc n)" "as_events s2 = as_events s"
  proof -
    obtain x s2 where "fetch w refreshing s1 = (x, s2)" by fastforce
    with that s1 assms(10) show thesis by (auto dest!: fetch_result)
  qed
  let ?s2 = "store_refreshed (JObj data) s2"
  have token: "bearer_token (as_storage ?s2) = Some token"
    using assms(11,13) by (simp add: bearer_token_def store_refreshed_token)
  obtain s3 where s3: "api_fetch w endpoint opts ?s2 = (Some retried, s3)" "as_storage s3 = as_storage ?s2"
    "as_events s3 = as_events s"
    "rq_headers (last (as_sent s3)) = merge_headers (get_auth_headers (ri_body opts \<noteq> FormBody) (as_storage ?s2)) (ri_headers opts)"
  proof -
    obtain x s3 where "api_fetch w endpoint opts ?s2 = (x, s3)" by fastforce
    with that s2 assms(1,14) show thesis by (auto simp: api_fetch_def undisturbed_def dest!: fetch_result)
  qed
  have "refresh_and_retry w endpoint opts refresh s1 = (Some (json_or_null retried), s3)"
    using s2(1) s3(1) assms(15) by (simp add: refresh_and_retry_def refreshing_def [symmetric] nullish_def)
  then have "handle_failed w endpoint opts r s1 = (Inr (json_or_null retried), s3)"
    using failed_401 [OF assms(4)] unauthorized_refreshes [OF assms(5,6) _ assms(8,9)] assms(7) s1(2) by simp
  then have v: "v = Inr (json_or_null retried)" "s' = s3"
    using assms(4,17) s1(1) by (auto simp: perform_api_request_def rs_ok_def)
  show ?thesis
    using v s3 auth_header [OF token assms(12,16)] assms(11) by (simp add: store_refreshed_token)
qed

lemma expired_token_is_refreshed_witness:
  "fst (perform_api_request expired_world ''/users/profile'' (snd get_current_user) logged_in) = Inr (JNum 42)"
proof -
  obtain v s' where r: "perform_api_request expired_world ''/users/profile'' (snd get_current_user) logged_in = (v, s')"
    by fastforce
  have "v = Inr (json_or_null (json_response 200 (JNum 42)))
    \<and> map_get (rq_headers (last (as_sent s'))) ''authorization'' = Some (js_trim (''Bearer '' @ ''fresh''))
    \<and> map_get (as_storage s') ''auth.accessToken'' = Some ''fresh'' \<and> as_events s' = as_events logged_in"
    by (rule expired_token_is_refreshed [where w = expired_world and n = 0 and s = logged_in
          and r = "json_response 401 (JObj [(''error'', JStr ''Invalid token'')])" and refresh = "''r''"
          and data = "[(''access_token'', JStr ''fresh'')]"])
       (use r in \<open>simp_all add: undisturbed_def expired_world_def logged_in_def refused_is_auth_failure
          names_header_def new_headers_def get_current_user_def quoted_def headers_has_def map_has_def starts_with_def map_get_def\<close>)
  with r show ?thesis by (simp add: json_or_null_def)
qed

text \<open>The same world without a refresh token: the session ends.\<close>

lemma session_survives_other_failures_witness:
  "\<exists>rq r. w_http expired_world 0 rq = Some r \<and> rs_status r = 401"
proof -
  let ?s = "\<lparr>as_storage = [(''auth.accessToken'', ''old'')], as_events = [], as_sent = []\<rparr>"
  obtain v s' where r: "perform_api_request expired_world ''/users/profile'' (snd get_current_user) ?s = (v, s')"
    by fastforce
  have "handle_failed expired_world ''/users/profile'' (snd get_current_user)
      (json_response 401 (JObj [(''error'', JStr ''Invalid token'')])) s1
    = (Inl (http_failure (json_response 401 (JObj [(''error'', JStr ''Invalid token'')]))),
       clear_auth (error_message (json_response 401 (JObj [(''error'', JStr ''Invalid token'')]))) s1)"
    if "as_storage s1 = [(''auth.accessToken'', ''old'')]" for s1
    using that by (simp add: failed_401 handle_unauthorized_def refused_is_auth_failure map_get_def)
  with r have "map_get (as_storage s') ''auth.accessToken'' = None"
    by (auto simp: perform_api_request_def api_fetch_def fetch_def expired_world_def Let_def rs_ok_def auth_keys_def)
  then have "map_get (as_storage s') ''auth.accessToken'' \<noteq> map_get (as_storage ?s) ''auth.accessToken''"
    by (simp add: map_get_def)
  from session_survives_other_failures [OF _ r this] show ?thesis
    by (auto simp: undisturbed_def expired_world_def)
qed

text \<open>Names and values that a header may have, and that keep the parts of a key apart.\<close>

definition name_char :: "char \<Rightarrow> bool" where
  "name_char c = (c \<noteq> CHR '':'' \<and> c \<noteq> CHR ''|'')"

definition value_char :: "char \<Rightarrow> bool" where
  "value_char c = (c \<noteq> CHR ''|'')"

lemma name_char_lower: "name_char (lower_char c) = name_char c"
proof -
  have "of_char (char_of n :: char) = n" if "n < 256" for n :: nat using that by simp
  then have "lower_char c = d \<longleftrightarrow> c = d" if "(of_char d :: nat) < 65 \<or> 122 < (of_char d :: nat)" for d
    using that by (auto simp: lower_char_def Let_def)
  then show ?thesis by (simp add: name_char_def)
qed

lemma names_lower: "list_all name_char (to_lower k) = list_all name_char k"
  by (simp add: to_lower_def list.pred_map o_def name_char_lower)

definition plain_headers :: "(string \<times> string) list \<Rightarrow> bool" where
  "plain_headers hs = headers_within name_char value_char hs"

lemma plain_merge:
  assumes "plain_headers base" "plain_headers extra"
  shows "plain_headers (merge_headers base extra)"
proof -
  have new: "plain_headers (new_headers init)" if "plain_headers init" for init
    using that unfolding plain_headers_def
    by (intro within_new) (auto simp: headers_within_def names_lower value_char_def)
  have "plain_headers hs \<Longrightarrow> plain_headers es \<Longrightarrow> plain_headers (fold (\<lambda>(k, v). headers_set k v) es hs)" for es hs
  proof (induction es arbitrary: hs)
    case (Cons e es)
    obtain k v where e: "e = (k, v)" by fastforce
    have "plain_headers (headers_set k v hs)"
      using Cons.prems unfolding plain_headers_def e
      by (intro within_set) (auto simp: headers_within_def names_lower)
    moreover have "plain_headers es" using Cons.prems by (simp add: plain_headers_def headers_within_def)
    ultimately show ?case using Cons.IH e by simp
  qed simp
  moreover have "plain_headers (headers_entries (new_headers extra))"
    using new [OF assms(2)] by (simp add: plain_headers_def headers_within_def)
  ultimately show ?thesis using new [OF assms(1)] by (simp add: merge_headers_def)
qed

lemma headers_key_auth:
  assumes "headers_key hs = headers_key hs'" "plain_headers hs" "plain_headers hs'"
    and "map_get hs ''authorization'' = Some v" "map_get hs' ''authorization'' = Some v'" "distinct (map_keys hs')"
  shows "v = v'"
proof -
  let ?lines = "\<lambda>hs. map (\<lambda>(k, v). k @ '':'' @ v) (headers_entries hs)"
  have plain: "CHR ''|'' \<notin> set x" if "x \<in> set (sort (?lines hs))" "plain_headers hs" for x hs
  proof -
    from that(1) obtain k v where x: "(k, v) \<in> set hs" "x = k @ '':'' @ v" by auto
    with that(2) have "list_all name_char k" "list_all value_char v"
      by (auto simp: plain_headers_def headers_within_def)
    then have "CHR ''|'' \<notin> set k" "CHR ''|'' \<notin> set v" by (auto simp: list_all_iff name_char_def value_char_def)
    with x(2) show ?thesis by simp
  qed
  have member: "''authorization'' @ '':'' @ v \<in> set (sort (?lines hs))" if "map_get hs ''authorization'' = Some v" for hs v
    using that by (force simp: map_get_def dest!: map_of_SomeD)
  have "sort (?lines hs) \<noteq> []" "sort (?lines hs') \<noteq> []"
    using member [OF assms(4)] member [OF assms(5)] by (metis empty_iff list.set(1))+
  moreover have "CHR ''|'' \<notin> set x" if "x \<in> set (sort (?lines hs)) \<union> set (sort (?lines hs'))" for x
    using that plain assms(2,3) by blast
  ultimately have "sort (?lines hs) = sort (?lines hs')"
    using assms(1) unfolding headers_key_def by (rule join_inject)
  with member [OF assms(4)] have "''authorization'' @ '':'' @ v \<in> set (sort (?lines hs'))" by (simp only:)
  then obtain k u where ku: "(k, u) \<in> set hs'" "''authorization'' @ '':'' @ v = k @ '':'' @ u" by auto
  with assms(3) have "list_all name_char k" by (auto simp: plain_headers_def headers_within_def)
  then have "CHR '':'' \<notin> set k" by (auto simp: list_all_iff name_char_def)
  then have "takeWhile (\<lambda>c. c \<noteq> CHR '':'') (k @ '':'' @ u) = k" by (induction k) auto
  moreover have "takeWhile (\<lambda>c. c \<noteq> CHR '':'') (''authorization'' @ '':'' @ v) = ''authorization''" by simp
  ultimately have "k = ''authorization''" using ku(2) by metis
  with ku have "(''authorization'', v) \<in> set hs'" by simp
  with assms(5,6) show ?thesis by (auto simp: map_get_def map_keys_def)
qed

text \<open>
  Reads of two sessions are never merged: when the same read is made with two different tokens, the
  keys under which running reads are shared differ, so no user can be handed the answer that was
  fetched for another.
\<close>

lemma sessions_never_share_a_read:
  assumes "bearer_token st = Some t" "bearer_token st' = Some t'" "t \<noteq> []" "t' \<noteq> []"
    and "js_trim (''Bearer '' @ t) \<noteq> js_trim (''Bearer '' @ t')" "CHR ''|'' \<notin> set t \<union> set t'"
    and "plain_headers (ri_headers opts)" "\<not> names_header (ri_headers opts) ''Authorization''"
  shows "request_coalesce_key endpoint opts st \<noteq> request_coalesce_key endpoint opts st'"
proof
  assume "request_coalesce_key endpoint opts st = request_coalesce_key endpoint opts st'"
  then have "headers_key (merge_headers (get_auth_headers False st) (ri_headers opts))
      = headers_key (merge_headers (get_auth_headers False st') (ri_headers opts))"
    by (simp add: request_coalesce_key_def)
  moreover have plain: "plain_headers (merge_headers (get_auth_headers False st) (ri_headers opts))"
    if "bearer_token st = Some t" "CHR ''|'' \<notin> set t" for st t
  proof -
    have "plain_headers (get_auth_headers False st)"
      using that by (cases t) (auto simp: get_auth_headers_def plain_headers_def headers_within_def name_char_def
          value_char_def list_all_iff)
    then show ?thesis using assms(7) by (rule plain_merge)
  qed
  moreover have bars: "CHR ''|'' \<notin> set t" "CHR ''|'' \<notin> set t'" using assms(6) by auto
  ultimately show False
    using headers_key_auth [OF _ plain [OF assms(1) bars(1)] plain [OF assms(2) bars(2)]
        auth_header [OF assms(1,3,8)] auth_header [OF assms(2,4,8)] distinct_merge] assms(5) by blast
qed

lemma sessions_never_share_a_read_witness:
  "request_coalesce_key ''/users/profile'' (snd get_current_user) [(''auth.accessToken'', ''a'')]
     \<noteq> request_coalesce_key ''/users/profile'' (snd get_current_user) [(''auth.accessToken'', ''b'')]"
proof (rule sessions_never_share_a_read [where t = "''a''" and t' = "''b''"])
  show "js_trim (''Bearer '' @ ''a'') \<noteq> js_trim (''Bearer '' @ ''b'')" by code_simp
qed (simp_all add: bearer_token_def map_get_def quoted_def get_current_user_def plain_headers_def
    headers_within_def names_header_def new_headers_def headers_has_def map_has_def)

text \<open>
  Of the calls of the module only the three reads can be shared or repeated; whatever changes something
  on the server is sent on its own.
\<close>

lemma only_reads_coalesce:
  "\<not> should_coalesce_read (snd (api_post endpoint))" "\<not> should_coalesce_read (snd (api_post_json endpoint props))"
  "should_coalesce_read (snd (api_get endpoint))" "should_coalesce_read (snd get_current_user)"
  unfolding should_coalesce_read_def normalized_method_def api_post_def api_post_json_def api_get_def get_current_user_def
  by (simp_all add: no_body_def to_upper_def upper_char_def)

end
