(* ===== verification/ApiBridge.thy ===== *)
theory ApiBridge
  imports ApiClient PendingTable "HOL-Library.Word"
begin

text \<open>
  \<open>utils/api.ts\<close>, the other half: requests of the API carried over the open WebSocket and answered by
  \<open>api:response\<close> frames, and the short window in which equal reads share one request.
\<close>

section \<open>Requests waiting for a frame\<close>

text \<open>What a caller gets: a value, a plain error, or an HTTP error with its status and extra fields.\<close>

datatype ws_outcome = WsValue jsval | WsError string | WsHttpError string int jsval "int option"

text \<open>Every waiting request has a running timer; a timer is known by the promise it was set for.\<close>

record bridge =
  br_requests :: "(int, ws_outcome) pending_table"
  br_timers :: "(nat \<times> int) list"

definition new_bridge :: bridge where
  "new_bridge = \<lparr>br_requests = pt_empty, br_timers = []\<rparr>"

definition taken :: "bridge \<Rightarrow> int \<Rightarrow> bool" where
  "taken b i = (i = 0 \<or> pt_lookup i (br_requests b) \<noteq> None)"

text \<open>
  \<open>random n\<close> is the \<open>n\<close>-th value the browser draws; the loop draws until a value is free, and the second
  component counts on from the value used.
\<close>

partial_function (option) allocate_ws_request_id ::
  "bridge \<Rightarrow> (nat \<Rightarrow> 32 word) \<Rightarrow> nat \<Rightarrow> (int \<times> nat) option" where
  "allocate_ws_request_id b random n =
     (if taken b (uint (random n)) then allocate_ws_request_id b random (Suc n)
      else Some (uint (random n), Suc n))"

definition clear_timer :: "nat option \<Rightarrow> bridge \<Rightarrow> bridge" where
  "clear_timer promise b = b\<lparr>br_timers := filter (\<lambda>t. Some (fst t) \<noteq> promise) (br_timers b)\<rparr>"

text \<open>Taking a request out of the table, stopping its timer and settling its promise.\<close>

definition finish_request :: "int \<Rightarrow> ws_outcome \<Rightarrow> bridge \<Rightarrow> bridge" where
  "finish_request i outcome b =
     clear_timer (pt_lookup i (br_requests b)) (b\<lparr>br_requests := pt_settle i outcome (br_requests b)\<rparr>)"

definition reject_all_ws_api_requests :: "string \<Rightarrow> bridge \<Rightarrow> bridge" where
  "reject_all_ws_api_requests reason b =
     fold (\<lambda>i. finish_request i (WsError reason)) (pt_keys (br_requests b)) b"

section \<open>Responses\<close>

text \<open>The body of a response: no text, a text that is JSON, or any other text.\<close>

datatype body_text = EmptyText | JsonBody jsval | PlainBody string

record api_response =
  ar_request_id :: int
  ar_status :: int
  ar_headers :: "(string, string) jsmap"
  ar_body :: body_text

definition response_error :: "api_response \<Rightarrow> ws_outcome" where
  "response_error r =
     (let details = (case ar_body r of JsonBody v \<Rightarrow> v | _ \<Rightarrow> JUndef);
          message = js_or (js_or (fld details ''error'') (fld details ''message''))
            (JStr (''HTTP '' @ dec_int (ar_status r)));
          retry = (case map_get (ar_headers r) ''Retry-After'' of
              Some v \<Rightarrow> Some v | None \<Rightarrow> map_get (ar_headers r) ''retry-after'')
      in WsHttpError (js_string message) (ar_status r) details
           (case retry of Some (c # cs) \<Rightarrow> parse_int (c # cs) | _ \<Rightarrow> None))"

definition response_outcome :: "api_response \<Rightarrow> ws_outcome" where
  "response_outcome r =
     (if 400 \<le> ar_status r then response_error r
      else WsValue (case ar_body r of EmptyText \<Rightarrow> JNull | JsonBody v \<Rightarrow> v | PlainBody t \<Rightarrow> JStr t))"

text \<open>
  \<open>resolveWsApiResponse\<close> on the decoded frame; \<open>None\<close> for a frame that cannot be decoded. The answer says
  whether a request was waiting.
\<close>

definition resolve_ws_api_response :: "api_response option \<Rightarrow> bridge \<Rightarrow> bool \<times> bridge" where
  "resolve_ws_api_response frame b =
     (case frame of
        None \<Rightarrow> (False, b)
      | Some r \<Rightarrow> (case pt_lookup (ar_request_id r) (br_requests b) of
            None \<Rightarrow> (False, b)
          | Some _ \<Rightarrow> (True, finish_request (ar_request_id r) (response_outcome r) b)))"

definition queue_ws_request :: "bool \<Rightarrow> int \<Rightarrow> bridge \<Rightarrow> nat \<times> bridge" where
  "queue_ws_request ws_open i b =
     (let promise = pt_next (br_requests b);
          queued = b\<lparr>br_requests := pt_open i (br_requests b), br_timers := br_timers b @ [(promise, i)]\<rparr>
      in (promise, if ws_open then queued else finish_request i (WsError ''WebSocket disconnected'') queued))"

text \<open>A timer that goes off, after 15 seconds.\<close>

definition timer_expires :: "nat \<times> int \<Rightarrow> bridge \<Rightarrow> bridge" where
  "timer_expires t b =
     (let b' = b\<lparr>br_timers := filter (\<lambda>u. u \<noteq> t) (br_timers b)\<rparr> in
      case pt_lookup (snd t) (br_requests b) of
        None \<Rightarrow> b'
      | Some _ \<Rightarrow> finish_request (snd t) (WsError ''Timed out waiting for WebSocket API response'') b')"

inductive bridge_step :: "bridge \<Rightarrow> bridge \<Rightarrow> bool" where
    step_request: "\<not> taken b i \<Longrightarrow> bridge_step b (snd (queue_ws_request ws_open i b))"
  | step_response: "bridge_step b (snd (resolve_ws_api_response frame b))"
  | step_timer: "t \<in> set (br_timers b) \<Longrightarrow> bridge_step b (timer_expires t b)"
  | step_disconnect: "bridge_step b (reject_all_ws_api_requests reason b)"

inductive bridge_reachable :: "bridge \<Rightarrow> bool" where
    bridge_start: "bridge_reachable new_bridge"
  | bridge_next: "bridge_reachable b \<Longrightarrow> bridge_step b b' \<Longrightarrow> bridge_reachable b'"

section \<open>The invariant\<close>

text \<open>The running timers are those of the waiting requests, one each, and no request has the id 0.\<close>

definition bridge_ok :: "bridge \<Rightarrow> bool" where
  "bridge_ok b =
     (pt_ok (br_requests b) \<and> pt_lookup 0 (br_requests b) = None
      \<and> distinct (br_timers b)
      \<and> set (br_timers b) = {(p, i). pt_lookup i (br_requests b) = Some p})"

lemma pt_promise_inject:
  assumes "pt_ok t" "pt_lookup k t = Some p" "pt_lookup k' t = Some p"
  shows "k = k'"
proof -
  have "distinct (pt_promises t)" using assms(1)
    by (metis distinct_upt pt_ok_def set_mset_mset mset_eq_imp_distinct_iff)
  then have "distinct (map snd (pt_pending t))" by (simp add: pt_promises_def)
  moreover have "(k, p) \<in> set (pt_pending t)" "(k', p) \<in> set (pt_pending t)"
    using assms(2,3) by (auto simp: pt_lookup_def map_get_def dest: map_of_SomeD)
  ultimately show ?thesis by (metis distinct_map inj_on_def prod.inject snd_conv)
qed

lemma finish_ok:
  assumes "bridge_ok b"
  shows "bridge_ok (finish_request i outcome b)"
proof -
  let ?left = "filter (\<lambda>t. Some (fst t) \<noteq> pt_lookup i (br_requests b)) (br_timers b)"
  have "Some p \<noteq> pt_lookup i (br_requests b) \<longleftrightarrow> j \<noteq> i" if "pt_lookup j (br_requests b) = Some p" for p j
    using assms that pt_promise_inject unfolding bridge_ok_def by metis
  then have "set ?left = {(p, j). pt_lookup j (pt_settle i outcome (br_requests b)) = Some p}"
    using assms by (auto simp: bridge_ok_def pt_lookup_settle split: if_splits)
  moreover have "pt_lookup 0 (pt_settle i outcome (br_requests b)) = None"
    using assms by (simp add: bridge_ok_def pt_lookup_settle)
  moreover have "pt_ok (pt_settle i outcome (br_requests b))" "distinct ?left"
    using assms by (simp_all add: bridge_ok_def pt_settle_ok)
  ultimately show ?thesis by (simp add: bridge_ok_def finish_request_def clear_timer_def)
qed

lemma pt_fresh_promise:
  assumes "pt_ok t"
  shows "pt_lookup k t \<noteq> Some (pt_next t)"
proof
  assume "pt_lookup k t = Some (pt_next t)"
  then have "pt_next t \<in> set (pt_promises t)"
    by (force simp: pt_lookup_def map_get_def pt_promises_def dest!: map_of_SomeD)
  then show False using assms by (metis atLeastLessThan_upt atLeastLessThan_iff less_irrefl mset_eq_setD pt_ok_def)
qed

lemma pt_lookup_open: "pt_lookup k (pt_open key t) = (if k = key then Some (pt_next t) else pt_lookup k t)"
  by (simp add: pt_lookup_def pt_open_def)

lemma queue_ok:
  assumes "bridge_ok b" "\<not> taken b i"
  shows "bridge_ok (snd (queue_ws_request ws_open i b))"
proof -
  let ?q = "b\<lparr>br_requests := pt_open i (br_requests b), br_timers := br_timers b @ [(pt_next (br_requests b), i)]\<rparr>"
  have fresh: "pt_lookup k (br_requests b) \<noteq> Some (pt_next (br_requests b))" for k
    by (rule pt_fresh_promise) (use assms(1) in \<open>simp add: bridge_ok_def\<close>)
  have free: "pt_lookup i (br_requests b) = None" "i \<noteq> 0" using assms(2) by (auto simp: taken_def)
  have "set (br_timers ?q) = {(p, j). pt_lookup j (pt_open i (br_requests b)) = Some p}"
    using assms(1) free by (auto simp: bridge_ok_def pt_lookup_open)
  moreover have "distinct (br_timers ?q)" using assms(1) free by (simp add: bridge_ok_def)
  ultimately have "bridge_ok ?q" using assms(1) free by (simp add: bridge_ok_def pt_open_ok pt_lookup_open)
  then show ?thesis by (simp add: queue_ws_request_def Let_def finish_ok)
qed

lemma expire_ok:
  assumes "bridge_ok b" "t \<in> set (br_timers b)"
  shows "bridge_ok (timer_expires t b)"
proof -
  obtain p i where t: "t = (p, i)" by fastforce
  have "pt_lookup i (br_requests b) = Some p" using assms t by (simp add: bridge_ok_def)
  moreover have "filter (\<lambda>x. x \<noteq> (p, i) \<and> fst x \<noteq> p) (br_timers b) = filter (\<lambda>t. fst t \<noteq> p) (br_timers b)"
    by (rule filter_cong) auto
  ultimately have "timer_expires t b = finish_request i (WsError ''Timed out waiting for WebSocket API response'') b"
    using t by (simp add: timer_expires_def finish_request_def clear_timer_def)
  then show ?thesis using finish_ok [OF assms(1)] by simp
qed

lemma reject_all_ok: "bridge_ok b \<Longrightarrow> bridge_ok (reject_all_ws_api_requests reason b)"
proof -
  have "bridge_ok b \<Longrightarrow> bridge_ok (fold (\<lambda>i. finish_request i (WsError reason)) ks b)" for ks
    by (induction ks arbitrary: b) (simp_all add: finish_ok)
  then show "bridge_ok b \<Longrightarrow> ?thesis" by (simp add: reject_all_ws_api_requests_def)
qed

lemma response_ok: "bridge_ok b \<Longrightarrow> bridge_ok (snd (resolve_ws_api_response frame b))"
  by (simp add: resolve_ws_api_response_def finish_ok split: option.split)

lemma bridge_step_ok: "bridge_step b b' \<Longrightarrow> bridge_ok b \<Longrightarrow> bridge_ok b'"
  by (induction rule: bridge_step.induct) (simp_all add: queue_ok response_ok expire_ok reject_all_ok)

lemma bridge_reachable_ok: "bridge_reachable b \<Longrightarrow> bridge_ok b"
proof (induction rule: bridge_reachable.induct)
  case bridge_start
  then show ?case by (simp add: bridge_ok_def new_bridge_def pt_ok_empty) (simp add: pt_empty_def pt_lookup_def)
qed (rule bridge_step_ok)

section \<open>Reads that share a request\<close>

text \<open>
  A promise of the module: of a request carried over the socket, of a read that waits for its window, or
  of a request sent at once. \<open>ac_windows\<close> are the running window timers, \<open>ac_started\<close> the HTTP requests
  that \<open>performApiRequest\<close> has started.
\<close>

datatype promise_ref = WsCall nat | HttpRead nat | HttpCall nat

record api_client =
  ac_bridge :: bridge
  ac_reads :: "(string, promise_ref) jsmap"
  ac_windows :: "(string \<times> promise_ref) list"
  ac_started :: "promise_ref list"
  ac_next :: nat
  ac_draws :: nat

definition use_ws :: "bool \<Rightarrow> bool \<Rightarrow> request_init \<Rightarrow> bool" where
  "use_ws enabled ws_open opts =
     (enabled \<and> ws_open \<and> \<not> ri_signal opts \<and> ri_body opts \<notin> {FormBody, BlobBody, BufferBody})"

text \<open>A read that is shared: the running one under its key, or a new one that is entered.\<close>

definition share_read :: "string \<Rightarrow> promise_ref \<Rightarrow> api_client \<Rightarrow> api_client" where
  "share_read key ref c =
     c\<lparr>ac_reads := map_set key ref (ac_reads c), ac_windows := ac_windows c @ [(key, ref)]\<rparr>"

definition start_ws :: "int \<Rightarrow> bool \<Rightarrow> api_client \<Rightarrow> promise_ref \<times> api_client" where
  "start_ws i ws_open c =
     (case queue_ws_request ws_open i (ac_bridge c) of (p, b) \<Rightarrow> (WsCall p, c\<lparr>ac_bridge := b\<rparr>))"

text \<open>\<open>apiRequest\<close>; \<open>None\<close> if no free request id is ever drawn.\<close>

definition api_request ::
  "bool \<Rightarrow> bool \<Rightarrow> (nat \<Rightarrow> 32 word) \<Rightarrow> storage \<Rightarrow> string \<Rightarrow> request_init \<Rightarrow> api_client
   \<Rightarrow> (promise_ref \<times> api_client) option" where
  "api_request enabled ws_open random st endpoint opts c =
     (let key = request_coalesce_key endpoint opts st in
      if use_ws enabled ws_open opts then
        (case allocate_ws_request_id (ac_bridge c) random (ac_draws c) of
           None \<Rightarrow> None
         | Some (i, draws) \<Rightarrow>
             let c1 = c\<lparr>ac_draws := draws\<rparr> in
             if should_coalesce_read opts then
               (case map_get (ac_reads c1) key of
                  Some ref \<Rightarrow> Some (ref, c1)
                | None \<Rightarrow> (case start_ws i ws_open c1 of (ref, c2) \<Rightarrow> Some (ref, share_read key ref c2)))
             else Some (start_ws i ws_open c1))
      else if should_coalesce_read opts then
        (case map_get (ac_reads c) key of
           Some ref \<Rightarrow> Some (ref, c)
         | None \<Rightarrow> let ref = HttpRead (ac_next c) in
             Some (ref, share_read key ref (c\<lparr>ac_next := Suc (ac_next c)\<rparr>)))
      else let ref = HttpCall (ac_next c) in
        Some (ref, c\<lparr>ac_next := Suc (ac_next c), ac_started := ac_started c @ [ref]\<rparr>))"

text \<open>The window of a read ends: later reads start anew, and an HTTP read is sent now.\<close>

definition window_ends :: "string \<times> promise_ref \<Rightarrow> api_client \<Rightarrow> api_client" where
  "window_ends t c =
     c\<lparr>ac_reads := map_delete (fst t) (ac_reads c),
       ac_windows := remove1 t (ac_windows c),
       ac_started := ac_started c @ (case snd t of HttpRead n \<Rightarrow> [HttpRead n] | _ \<Rightarrow> [])\<rparr>"

text \<open>A shared request over the socket has settled.\<close>

definition read_settles :: "string \<Rightarrow> api_client \<Rightarrow> api_client" where
  "read_settles key c = c\<lparr>ac_reads := map_delete key (ac_reads c)\<rparr>"

section \<open>Ending every request\<close>

lemma finish_lookup:
  "pt_lookup j (br_requests (finish_request i outcome b)) = (if j = i then None else pt_lookup j (br_requests b))"
  by (simp add: finish_request_def clear_timer_def pt_lookup_settle)

lemma finish_grows: "set (pt_settled (br_requests b)) \<subseteq> set (pt_settled (br_requests (finish_request i outcome b)))"
  using pt_settle_grows by (fastforce simp: finish_request_def clear_timer_def)

lemma finish_settles:
  "pt_lookup i (br_requests b) = Some p \<Longrightarrow> (p, outcome) \<in> set (pt_settled (br_requests (finish_request i outcome b)))"
  by (simp add: finish_request_def clear_timer_def pt_settle_def)

lemma finish_all:
  fixes b ks reason defines "b' \<equiv> fold (\<lambda>i. finish_request i (WsError reason)) ks b"
  shows "pt_lookup j (br_requests b') = (if j \<in> set ks then None else pt_lookup j (br_requests b))"
    and "set (pt_settled (br_requests b)) \<subseteq> set (pt_settled (br_requests b'))"
    and "j \<in> set ks \<Longrightarrow> pt_lookup j (br_requests b) = Some p \<Longrightarrow> (p, WsError reason) \<in> set (pt_settled (br_requests b'))"
  unfolding b'_def
proof (induction ks arbitrary: b)
  case (Cons k ks)
  {
    case 1
    then show ?case by (simp add: Cons.IH(1) finish_lookup)
  next
    case 2
    then show ?case using Cons.IH(2) [of "finish_request k (WsError reason) b"] finish_grows by fastforce
  next
    case 3
    then show ?case
      using Cons.IH(2,3) [of "finish_request k (WsError reason) b"] finish_settles [of k b p "WsError reason"]
      by (cases "j = k") (auto simp: finish_lookup)
  }
qed simp_all

lemma disconnect_empties:
  assumes "bridge_ok b"
  shows "pt_lookup j (br_requests (reject_all_ws_api_requests reason b)) = None"
    "br_timers (reject_all_ws_api_requests reason b) = []"
proof -
  show none: "pt_lookup j (br_requests (reject_all_ws_api_requests reason b)) = None" for j
    using finish_all(1) [of j reason "pt_keys (br_requests b)" b] pt_lookup_iff [of j "br_requests b"]
    by (auto simp: reject_all_ws_api_requests_def)
  have "set (br_timers (reject_all_ws_api_requests reason b)) = {}"
    using reject_all_ok [OF assms, of reason] none by (simp add: bridge_ok_def)
  then show "br_timers (reject_all_ws_api_requests reason b) = []" by simp
qed

section \<open>Properties\<close>

text \<open>
  C6. Every request over the socket ends exactly once: in each state the client can reach, a promise it
  handed out is either still waiting under its id with its own timer running, or settled with exactly one
  outcome, never both; so responses, timeouts and disconnects cannot compete for one request, and a late
  or repeated frame cannot settle a promise again.
\<close>

theorem ws_request_settles_once:
  assumes "bridge_reachable b" "promise < pt_next (br_requests b)"
  shows "(\<exists>i. pt_lookup i (br_requests b) = Some promise \<and> (promise, i) \<in> set (br_timers b))
    \<noteq> (length (pt_outcomes promise (br_requests b)) = 1)"
proof -
  have ok: "bridge_ok b" using assms(1) by (rule bridge_reachable_ok)
  then have t: "pt_ok (br_requests b)" by (simp add: bridge_ok_def)
  have "length (pt_outcomes promise (br_requests b)) = 1 \<longleftrightarrow> pt_outcomes promise (br_requests b) \<noteq> []"
    using pt_outcomes_at_most_once [OF t, of promise] by (cases "pt_outcomes promise (br_requests b)") auto
  with pt_promise_cases [OF t assms(2)] ok show ?thesis by (auto simp: bridge_ok_def)
qed

definition one_request :: bridge where
  "one_request = snd (queue_ws_request True 7 new_bridge)"

lemma one_request_state:
  "one_request = \<lparr>br_requests = \<lparr>pt_pending = [(7, 0)], pt_settled = [], pt_next = 1\<rparr>, br_timers = [(0, 7)]\<rparr>"
  by (simp add: one_request_def queue_ws_request_def new_bridge_def pt_open_def pt_empty_def map_set_def Let_def)

lemma one_request_reachable: "bridge_reachable one_request"
  unfolding one_request_def
  by (intro bridge_next [OF bridge_start] step_request) (simp add: taken_def new_bridge_def pt_empty_def pt_lookup_def)

lemma ws_request_settles_once_witness:
  "(\<exists>i. pt_lookup i (br_requests one_request) = Some 0 \<and> (0, i) \<in> set (br_timers one_request))
    \<noteq> (length (pt_outcomes 0 (br_requests one_request)) = 1)"
  by (rule ws_request_settles_once [OF one_request_reachable]) (simp add: one_request_state)

text \<open>
  Losing the connection leaves nobody waiting: afterwards no request and no timer is left, and every
  promise that was waiting is rejected with the reason.
\<close>

lemma disconnect_rejects_everything:
  assumes "bridge_reachable b" "b' = reject_all_ws_api_requests reason b"
  shows "br_timers b' = [] \<and> (\<forall>i. pt_lookup i (br_requests b') = None)
    \<and> (\<forall>i p. pt_lookup i (br_requests b) = Some p \<longrightarrow> (p, WsError reason) \<in> set (pt_settled (br_requests b')))"
proof -
  have ok: "bridge_ok b" using assms(1) by (rule bridge_reachable_ok)
  have "(p, WsError reason) \<in> set (pt_settled (br_requests b'))" if "pt_lookup i (br_requests b) = Some p" for i p
  proof -
    have "i \<in> set (pt_keys (br_requests b))" using that pt_lookup_iff [of i "br_requests b"] by simp
    from finish_all(3) [OF this that] show ?thesis by (simp add: assms(2) reject_all_ws_api_requests_def)
  qed
  with disconnect_empties [OF ok] assms(2) show ?thesis by simp
qed

lemma disconnect_rejects_everything_witness:
  "(0, WsError ''gone'') \<in> set (pt_settled (br_requests (reject_all_ws_api_requests ''gone'' one_request)))"
  using disconnect_rejects_everything [OF one_request_reachable refl, of "''gone''"]
  by (auto simp: one_request_state pt_lookup_def map_get_def)

text \<open>
  The search for a request id ends: if any of the values the browser goes on to draw is free, the loop
  returns, and the id it returns is not 0 and not in use.
\<close>

lemma request_id_is_found:
  assumes "\<not> taken b (uint (random (n + k)))"
  shows "\<exists>i m. allocate_ws_request_id b random n = Some (i, m) \<and> \<not> taken b i"
  using assms
proof (induction k arbitrary: n)
  case 0
  then show ?case by (subst allocate_ws_request_id.simps) simp
next
  case (Suc k)
  show ?case
  proof (cases "taken b (uint (random n))")
    case True
    from Suc.prems have "\<not> taken b (uint (random (Suc n + k)))" by simp
    from Suc.IH [OF this] True show ?thesis by (subst allocate_ws_request_id.simps) simp
  next
    case False
    then show ?thesis by (subst allocate_ws_request_id.simps) simp
  qed
qed

lemma request_id_is_found_witness:
  "\<exists>i m. allocate_ws_request_id one_request (\<lambda>n. if n = 0 then 0 else if n = 1 then 7 else 9) 0 = Some (i, m)
     \<and> \<not> taken one_request i"
  by (rule request_id_is_found [where k = 2]) (simp add: taken_def one_request_state pt_lookup_def map_get_def)

text \<open>
  Equal reads inside the window share one request: repeating a read at once gives the same promise,
  sends nothing over the socket and starts no HTTP request.
\<close>

lemma repeated_read_is_shared:
  assumes "should_coalesce_read opts" "api_request enabled ws_open random st endpoint opts c = Some (ref, c1)"
    and "api_request enabled ws_open random st endpoint opts c1 = Some (ref', c2)"
  shows "ref' = ref \<and> ac_bridge c2 = ac_bridge c1 \<and> ac_started c2 = ac_started c1
    \<and> ac_reads c2 = ac_reads c1"
proof -
  have "map_get (ac_reads c1) (request_coalesce_key endpoint opts st) = Some ref"
    using assms(1,2)
    by (auto simp: api_request_def share_read_def Let_def split: if_splits option.splits prod.splits)
  with assms(1,3) show ?thesis
    by (auto simp: api_request_def Let_def split: if_splits option.splits prod.splits)
qed

lemma repeated_read_is_shared_witness:
  "\<exists>ref c1. api_request False True (\<lambda>_. 9) [] ''/time'' (snd (api_get ''/time''))
      \<lparr>ac_bridge = new_bridge, ac_reads = [], ac_windows = [], ac_started = [], ac_next = 0, ac_draws = 0\<rparr> = Some (ref, c1)
    \<and> (\<forall>ref' c2. api_request False True (\<lambda>_. 9) [] ''/time'' (snd (api_get ''/time'')) c1 = Some (ref', c2) \<longrightarrow> ref' = ref)"
proof -
  let ?c = "\<lparr>ac_bridge = new_bridge, ac_reads = [], ac_windows = [], ac_started = [], ac_next = 0, ac_draws = 0\<rparr>"
  have "api_request False True (\<lambda>_. 9) [] ''/time'' (snd (api_get ''/time'')) ?c \<noteq> None"
    by (simp add: api_request_def use_ws_def Let_def)
  then obtain ref c1 where first:
    "api_request False True (\<lambda>_. 9) [] ''/time'' (snd (api_get ''/time'')) ?c = Some (ref, c1)" by auto
  have "ref' = ref" if "api_request False True (\<lambda>_. 9) [] ''/time'' (snd (api_get ''/time'')) c1 = Some (ref', c2)" for ref' c2
    using repeated_read_is_shared [OF only_reads_coalesce(3) first that] by simp
  with first show ?thesis by blast
qed

end
