(* ===== verification/WsConnection.thy ===== *)
theory WsConnection
  imports MessageHandlers ApiBridge
begin

text \<open>
  \<open>hooks/useWebSocketSync.ts\<close> around \<open>onmessage\<close>: the one connection of the browser, shared by every
  component that uses the hook, its reconnects, its subscriptions and its authentication. The state
  holds the module's variables, the sockets ever made, the mounted hooks with their refs, and the
  running retry timers; each callback of the browser or of React is one step.
\<close>

section \<open>State\<close>

datatype ready_state = Connecting | Open | Closing | Closed

text \<open>
  A socket knows the hook whose closures handle its events; \<open>so_active\<close> is the conversation id those
  closures captured.
\<close>

record socket =
  so_state :: ready_state
  so_url :: string
  so_owner :: nat
  so_active :: jsval

text \<open>
  A hook: \<open>accessTokenRef\<close>, \<open>prevAccessTokenRef\<close>, \<open>prevAuthRef\<close>, and the \<open>activeConversationId\<close> of its
  first render, which is the one \<open>setupWebSocket\<close> keeps because it is no dependency of the callback.
\<close>

record hook =
  hk_mounted :: bool
  hk_token :: "string option"
  hk_prev_token :: "string option"
  hk_prev_auth :: bool
  hk_active :: jsval

record connection =
  cn_sockets :: "socket list"
  cn_global :: "nat option"
  cn_connecting :: bool
  cn_has_opened :: bool
  cn_subs :: "string list"
  cn_hooks :: "hook list"
  cn_retries :: "nat list"
  cn_bridge :: bridge
  cn_sent :: "(nat \<times> string \<times> jsval) list"
  cn_reconnected :: nat
  cn_token :: "string option"
  cn_active :: jsval

text \<open>What the environment fixes: the base URL, and whether the constructor accepts a URL.\<close>

record ws_env =
  we_url :: string
  we_accepts :: "string \<Rightarrow> bool"

definition initial_connection :: "string option \<Rightarrow> connection" where
  "initial_connection token =
     \<lparr>cn_sockets = [], cn_global = None, cn_connecting = False, cn_has_opened = False, cn_subs = [],
      cn_hooks = [], cn_retries = [], cn_bridge = new_bridge, cn_sent = [], cn_reconnected = 0,
      cn_token = token, cn_active = JNull\<rparr>"

definition state_of :: "connection \<Rightarrow> nat \<Rightarrow> ready_state" where
  "state_of c n = (if n < length (cn_sockets c) then so_state (cn_sockets c ! n) else Closed)"

definition set_state :: "nat \<Rightarrow> ready_state \<Rightarrow> connection \<Rightarrow> connection" where
  "set_state n r c = c\<lparr>cn_sockets := (cn_sockets c)[n := (cn_sockets c ! n)\<lparr>so_state := r\<rparr>]\<rparr>"

section \<open>Connecting\<close>

definition append_ws_param :: "string \<Rightarrow> string \<Rightarrow> string \<Rightarrow> string" where
  "append_ws_param url key v =
     url @ (if CHR ''?'' \<in> set url then ''&'' else ''?'') @ key @ ''='' @ encode_uri_component v"

definition ws_url_for :: "ws_env \<Rightarrow> string option \<Rightarrow> string" where
  "ws_url_for env token =
     (case token of Some (c # cs) \<Rightarrow> append_ws_param (we_url env) ''token'' (c # cs) | _ \<Rightarrow> we_url env)"

definition setup_websocket :: "ws_env \<Rightarrow> nat \<Rightarrow> connection \<Rightarrow> connection" where
  "setup_websocket env i c =
     (if (case cn_global c of Some n \<Rightarrow> state_of c n \<noteq> Closed | None \<Rightarrow> False) then c
      else if cn_connecting c then c
      else
        let h = cn_hooks c ! i;
            url = ws_url_for env (hk_token h)
        in if we_accepts env url
           then c\<lparr>cn_connecting := True, cn_sockets := cn_sockets c @
             [\<lparr>so_state = Connecting, so_url = url, so_owner = i, so_active = hk_active h\<rparr>]\<rparr>
           else c\<lparr>cn_retries := cn_retries c @ [i]\<rparr>)"

definition ws_send :: "nat \<Rightarrow> string \<Rightarrow> jsval \<Rightarrow> connection \<Rightarrow> connection" where
  "ws_send n type payload c = c\<lparr>cn_sent := cn_sent c @ [(n, type, payload)]\<rparr>"

definition subscription_payload :: "jsval \<Rightarrow> jsval \<Rightarrow> jsval" where
  "subscription_payload resource_type resource_id =
     JObj [(''resource_type'', resource_type), (''resource_id'', resource_id)]"

text \<open>\<open>const [resourceType, resourceId] = key.split(":")\<close>.\<close>

definition key_payload :: "string \<Rightarrow> jsval" where
  "key_payload key =
     (case split_at CHR '':'' key of
        [] \<Rightarrow> subscription_payload JUndef JUndef
      | [t] \<Rightarrow> subscription_payload (JStr t) JUndef
      | t # i # _ \<Rightarrow> subscription_payload (JStr t) (JStr i))"

definition on_open :: "nat \<Rightarrow> connection \<Rightarrow> connection" where
  "on_open n c0 =
     (let c = set_state n Open c0;
          c1 = c\<lparr>cn_has_opened := True, cn_connecting := False, cn_global := Some n\<rparr>;
          c2 = fold (\<lambda>key. ws_send n ''subscribe'' (key_payload key)) (cn_subs c1) c1
      in if cn_has_opened c0 then c2\<lparr>cn_reconnected := Suc (cn_reconnected c2)\<rparr> else c2)"

definition on_error :: "connection \<Rightarrow> connection" where
  "on_error c = c\<lparr>cn_connecting := False\<rparr>"

definition on_close :: "nat \<Rightarrow> connection \<Rightarrow> connection" where
  "on_close n c0 =
     (let c = set_state n Closed c0 in
      c\<lparr>cn_bridge := reject_all_ws_api_requests ''WebSocket disconnected'' (cn_bridge c),
        cn_connecting := False, cn_global := None,
        cn_retries := cn_retries c @ [so_owner (cn_sockets c ! n)]\<rparr>)"

section \<open>Components that use the hook\<close>

definition close_global :: "connection \<Rightarrow> connection" where
  "close_global c =
     (case cn_global c of
        None \<Rightarrow> c
      | Some n \<Rightarrow> if state_of c n \<in> {Connecting, Open} then set_state n Closing c else c)"

definition is_auth :: "connection \<Rightarrow> bool" where
  "is_auth c = is_authenticated (cn_token c)"

text \<open>The effect on \<open>[accessToken, isAuthenticated]\<close> of one hook.\<close>

definition auth_effect :: "nat \<Rightarrow> connection \<Rightarrow> connection" where
  "auth_effect i c =
     (let h = cn_hooks c ! i;
          changed = (hk_prev_auth h \<noteq> is_auth c \<or> hk_prev_token h \<noteq> cn_token c);
          c1 = c\<lparr>cn_hooks := (cn_hooks c)[i := h\<lparr>hk_prev_auth := is_auth c, hk_prev_token := cn_token c\<rparr>]\<rparr>
      in if changed then close_global c1 else c1)"

definition mounted_hooks :: "connection \<Rightarrow> nat list" where
  "mounted_hooks c = filter (\<lambda>i. hk_mounted (cn_hooks c ! i)) [0..<length (cn_hooks c)]"

text \<open>A new token: every mounted hook renders, which updates its ref, and then its effect runs.\<close>

definition render_token :: "string option \<Rightarrow> connection \<Rightarrow> connection" where
  "render_token token c =
     c\<lparr>cn_token := token,
       cn_hooks := map (\<lambda>h. if hk_mounted h then h\<lparr>hk_token := token\<rparr> else h) (cn_hooks c)\<rparr>"

definition token_changes :: "string option \<Rightarrow> connection \<Rightarrow> connection" where
  "token_changes token c =
     (let c1 = render_token token c in fold auth_effect (mounted_hooks c1) c1)"

definition conversation_changes :: "jsval \<Rightarrow> connection \<Rightarrow> connection" where
  "conversation_changes active c = c\<lparr>cn_active := active\<rparr>"

definition mount_hook :: "ws_env \<Rightarrow> connection \<Rightarrow> connection" where
  "mount_hook env c =
     setup_websocket env (length (cn_hooks c))
       (c\<lparr>cn_hooks := cn_hooks c @ [\<lparr>hk_mounted = True, hk_token = cn_token c, hk_prev_token = cn_token c,
           hk_prev_auth = is_auth c, hk_active = cn_active c\<rparr>]\<rparr>)"

definition unmount_hook :: "nat \<Rightarrow> connection \<Rightarrow> connection" where
  "unmount_hook i c = c\<lparr>cn_hooks := (cn_hooks c)[i := (cn_hooks c ! i)\<lparr>hk_mounted := False\<rparr>]\<rparr>"

definition heartbeat :: "ws_env \<Rightarrow> nat \<Rightarrow> connection \<Rightarrow> connection" where
  "heartbeat env i c =
     (case cn_global c of
        Some n \<Rightarrow> if state_of c n = Open then ws_send n ''ping'' JUndef c
          else if state_of c n = Closed then setup_websocket env i c else c
      | None \<Rightarrow> setup_websocket env i c)"

definition retry :: "ws_env \<Rightarrow> nat \<Rightarrow> connection \<Rightarrow> connection" where
  "retry env i c = setup_websocket env i (c\<lparr>cn_retries := remove1 i (cn_retries c)\<rparr>)"

definition subscription_key :: "string \<Rightarrow> jsval \<Rightarrow> string" where
  "subscription_key resource_type resource_id = resource_type @ '':'' @ js_string resource_id"

definition subscribe :: "string \<Rightarrow> jsval \<Rightarrow> connection \<Rightarrow> connection" where
  "subscribe resource_type resource_id c =
     (let key = subscription_key resource_type resource_id;
          c1 = c\<lparr>cn_subs := (if key \<in> set (cn_subs c) then cn_subs c else cn_subs c @ [key])\<rparr>
      in case cn_global c of
           Some n \<Rightarrow> if state_of c n = Open
             then ws_send n ''subscribe'' (subscription_payload (JStr resource_type) resource_id) c1 else c1
         | None \<Rightarrow> c1)"

definition unsubscribe_resource :: "string \<Rightarrow> jsval \<Rightarrow> connection \<Rightarrow> connection" where
  "unsubscribe_resource resource_type resource_id c =
     (let c1 = c\<lparr>cn_subs := filter (\<lambda>k. k \<noteq> subscription_key resource_type resource_id) (cn_subs c)\<rparr>
      in case cn_global c of
           Some n \<Rightarrow> if state_of c n = Open
             then ws_send n ''unsubscribe'' (subscription_payload (JStr resource_type) resource_id) c1 else c1
         | None \<Rightarrow> c1)"

section \<open>Steps\<close>

text \<open>
  What can happen between two tasks of the browser. The browser opens a connecting socket, or closes one
  that is not closed yet (when the connection failed the \<open>error\<close> event comes first, in the same task); a
  socket that is open may start closing.
\<close>

inductive connection_step :: "ws_env \<Rightarrow> connection \<Rightarrow> connection \<Rightarrow> bool" for env where
    step_opens: "state_of c n = Connecting \<Longrightarrow> connection_step env c (on_open n c)"
  | step_closing: "state_of c n = Open \<Longrightarrow> connection_step env c (set_state n Closing c)"
  | step_closed: "state_of c n \<noteq> Closed \<Longrightarrow> connection_step env c (on_close n c)"
  | step_failed: "state_of c n \<noteq> Closed \<Longrightarrow> connection_step env c (on_close n (on_error c))"
  | step_mount: "connection_step env c (mount_hook env c)"
  | step_unmount: "i < length (cn_hooks c) \<Longrightarrow> connection_step env c (unmount_hook i c)"
  | step_token: "connection_step env c (token_changes token c)"
  | step_conversation: "connection_step env c (conversation_changes active c)"
  | step_heartbeat: "i \<in> set (mounted_hooks c) \<Longrightarrow> connection_step env c (heartbeat env i c)"
  | step_retry: "i \<in> set (cn_retries c) \<Longrightarrow> connection_step env c (retry env i c)"
  | step_subscribe: "connection_step env c (subscribe resource_type resource_id c)"
  | step_unsubscribe: "connection_step env c (unsubscribe_resource resource_type resource_id c)"
  | step_bridge: "bridge_step (cn_bridge c) b \<Longrightarrow> connection_step env c (c\<lparr>cn_bridge := b\<rparr>)"

inductive connection_reachable :: "ws_env \<Rightarrow> connection \<Rightarrow> bool" for env where
    conn_start: "connection_reachable env (initial_connection token)"
  | conn_next: "connection_reachable env c \<Longrightarrow> connection_step env c c' \<Longrightarrow> connection_reachable env c'"

section \<open>The invariant of the singleton\<close>

text \<open>
  The module's variables know every socket that is not closed: \<open>_globalWs\<close> is the one that is open or
  closing, \<open>_globalConnecting\<close> says that one is connecting, and never both.
\<close>

definition singleton_ok :: "connection \<Rightarrow> bool" where
  "singleton_ok c =
     ((\<forall>n. state_of c n \<in> {Open, Closing} \<longleftrightarrow> cn_global c = Some n)
      \<and> (cn_connecting c \<longleftrightarrow> (\<exists>n. state_of c n = Connecting))
      \<and> (\<forall>m n. state_of c m = Connecting \<longrightarrow> state_of c n = Connecting \<longrightarrow> m = n)
      \<and> (cn_connecting c \<longrightarrow> cn_global c = None))"

lemma state_of_set_state:
  "n < length (cn_sockets c) \<Longrightarrow> state_of (set_state n r c) m = (if m = n then r else state_of c m)"
  by (auto simp: state_of_def set_state_def nth_list_update)

lemma state_of_live: "state_of c n \<noteq> Closed \<Longrightarrow> n < length (cn_sockets c)"
  by (auto simp: state_of_def split: if_splits)

lemma state_of_frame [simp]:
  "state_of (c\<lparr>cn_has_opened := a\<rparr>) n = state_of c n" "state_of (c\<lparr>cn_connecting := b\<rparr>) n = state_of c n"
  "state_of (c\<lparr>cn_global := g\<rparr>) n = state_of c n" "state_of (c\<lparr>cn_retries := rs\<rparr>) n = state_of c n"
  "state_of (c\<lparr>cn_bridge := br\<rparr>) n = state_of c n" "state_of (c\<lparr>cn_hooks := hs\<rparr>) n = state_of c n"
  "state_of (c\<lparr>cn_subs := ks\<rparr>) n = state_of c n" "state_of (c\<lparr>cn_sent := fs\<rparr>) n = state_of c n"
  "state_of (c\<lparr>cn_reconnected := k\<rparr>) n = state_of c n" "state_of (c\<lparr>cn_token := t\<rparr>) n = state_of c n"
  "state_of (c\<lparr>cn_active := v\<rparr>) n = state_of c n"
  by (simp_all add: state_of_def)

lemma state_of_append:
  "state_of (c\<lparr>cn_sockets := cn_sockets c @ [so]\<rparr>) n =
     (if n = length (cn_sockets c) then so_state so else state_of c n)"
  by (auto simp: state_of_def nth_append)

lemma set_state_frame [simp]:
  "cn_global (set_state n r c) = cn_global c" "cn_connecting (set_state n r c) = cn_connecting c"
  "cn_hooks (set_state n r c) = cn_hooks c" "cn_subs (set_state n r c) = cn_subs c"
  "cn_sent (set_state n r c) = cn_sent c" "length (cn_sockets (set_state n r c)) = length (cn_sockets c)"
  by (simp_all add: set_state_def)

text \<open>\<open>singleton_ok\<close> looks at the sockets, \<open>_globalWs\<close> and \<open>_globalConnecting\<close> only.\<close>

lemma singleton_cong:
  assumes "\<And>n. state_of c' n = state_of c n" "cn_global c' = cn_global c" "cn_connecting c' = cn_connecting c"
  shows "singleton_ok c' = singleton_ok c"
  by (simp add: singleton_ok_def assms)

lemma singleton_frame [simp]:
  "singleton_ok (c\<lparr>cn_hooks := hs\<rparr>) = singleton_ok c" "singleton_ok (c\<lparr>cn_subs := ks\<rparr>) = singleton_ok c"
  "singleton_ok (c\<lparr>cn_sent := fs\<rparr>) = singleton_ok c" "singleton_ok (c\<lparr>cn_token := t\<rparr>) = singleton_ok c"
  "singleton_ok (c\<lparr>cn_active := v\<rparr>) = singleton_ok c" "singleton_ok (c\<lparr>cn_bridge := br\<rparr>) = singleton_ok c"
  "singleton_ok (c\<lparr>cn_retries := rs\<rparr>) = singleton_ok c"
  by (rule singleton_cong; simp)+

lemma sends_frame:
  "state_of (fold (\<lambda>k. ws_send n ty (p k)) ks c) m = state_of c m"
  "cn_global (fold (\<lambda>k. ws_send n ty (p k)) ks c) = cn_global c"
  "cn_connecting (fold (\<lambda>k. ws_send n ty (p k)) ks c) = cn_connecting c"
  "cn_sent (fold (\<lambda>k. ws_send n ty (p k)) ks c) = cn_sent c @ map (\<lambda>k. (n, ty, p k)) ks"
  "cn_hooks (fold (\<lambda>k. ws_send n ty (p k)) ks c) = cn_hooks c"
  "cn_token (fold (\<lambda>k. ws_send n ty (p k)) ks c) = cn_token c"
  "cn_sockets (fold (\<lambda>k. ws_send n ty (p k)) ks c) = cn_sockets c"
  by (induction ks arbitrary: c) (simp_all add: ws_send_def)

lemma global_live: "singleton_ok c \<Longrightarrow> cn_global c = Some n \<Longrightarrow> state_of c n = Open \<or> state_of c n = Closing"
  unfolding singleton_ok_def by blast

lemma live_unique:
  assumes "singleton_ok c" "state_of c m \<noteq> Closed" "state_of c n \<noteq> Closed"
  shows "m = n"
proof -
  have "state_of c k = Connecting \<or> cn_global c = Some k" if "state_of c k \<noteq> Closed" for k
    using assms(1) that by (cases "state_of c k") (auto simp: singleton_ok_def)
  with assms show ?thesis unfolding singleton_ok_def by (metis option.distinct(1) option.inject)
qed

lemma setup_ok:
  assumes "singleton_ok c"
  shows "singleton_ok (setup_websocket env i c)"
proof (cases "cn_global c = None \<and> \<not> cn_connecting c")
  case False
  then have "setup_websocket env i c = c"
    using global_live [OF assms] by (auto simp: setup_websocket_def split: option.split)
  with assms show ?thesis by simp
next
  case True
  let ?url = "ws_url_for env (hk_token (cn_hooks c ! i))"
  let ?so = "\<lparr>so_state = Connecting, so_url = ?url, so_owner = i, so_active = hk_active (cn_hooks c ! i)\<rparr>"
  have closed: "state_of c n = Closed" for n using assms True
    by (cases "state_of c n") (auto simp: singleton_ok_def)
  have new: "state_of (c\<lparr>cn_connecting := True, cn_sockets := cn_sockets c @ [?so]\<rparr>) n =
      (if n = length (cn_sockets c) then Connecting else Closed)" for n
    using state_of_append [of "c\<lparr>cn_connecting := True\<rparr>" ?so n] closed by simp
  show ?thesis
    using True assms by (auto simp: setup_websocket_def Let_def singleton_ok_def new closed split: if_splits)
qed

lemma open_ok:
  assumes "singleton_ok c" "state_of c n = Connecting"
  shows "singleton_ok (on_open n c)"
proof -
  have live: "n < length (cn_sockets c)" by (rule state_of_live) (simp add: assms(2))
  have none: "cn_global c = None" "\<And>m. state_of c m = Connecting \<Longrightarrow> m = n" "\<And>m. state_of c m \<notin> {Open, Closing}"
    using assms by (auto simp: singleton_ok_def)
  have s: "state_of (on_open n c) m = (if m = n then Open else state_of c m)"
    "cn_global (on_open n c) = Some n" "\<not> cn_connecting (on_open n c)" for m
    using live by (simp_all add: on_open_def Let_def sends_frame state_of_set_state)
  then show ?thesis using none by (auto simp: singleton_ok_def)
qed

lemma close_ok:
  assumes "singleton_ok c" "state_of c n \<noteq> Closed"
  shows "singleton_ok (on_close n c)"
proof -
  have live: "n < length (cn_sockets c)" using assms(2) by (rule state_of_live)
  have s: "state_of (on_close n c) m = (if m = n then Closed else state_of c m)"
    "cn_global (on_close n c) = None" "\<not> cn_connecting (on_close n c)" for m
    using live by (simp_all add: on_close_def Let_def state_of_set_state)
  then show ?thesis using live_unique [OF assms(1) _ assms(2)] by (auto simp: singleton_ok_def)
qed

lemma error_close: "on_close n (on_error c) = on_close n c"
  by (simp add: on_close_def on_error_def set_state_def Let_def)

lemma closing_ok:
  assumes "singleton_ok c" "state_of c n = Open"
  shows "singleton_ok (set_state n Closing c)"
proof -
  have "n < length (cn_sockets c)" by (rule state_of_live) (simp add: assms(2))
  then have s: "state_of (set_state n Closing c) m = (if m = n then Closing else state_of c m)" for m
    by (rule state_of_set_state)
  show ?thesis unfolding singleton_ok_def s using assms by (auto simp: singleton_ok_def)
qed

lemma close_global_ok:
  assumes "singleton_ok c"
  shows "singleton_ok (close_global c)"
proof (cases "cn_global c")
  case (Some n)
  with global_live [OF assms] consider "state_of c n = Open" | "state_of c n = Closing" by blast
  then show ?thesis using Some assms by cases (simp_all add: close_global_def closing_ok)
qed (use assms in \<open>simp add: close_global_def\<close>)

lemma auth_effect_ok: "singleton_ok c \<Longrightarrow> singleton_ok (auth_effect i c)"
proof -
  assume "singleton_ok c"
  then show ?thesis by (simp add: auth_effect_def Let_def close_global_ok)
qed

lemma effects_ok: "singleton_ok c \<Longrightarrow> singleton_ok (fold auth_effect is c)"
  by (induction "is" arbitrary: c) (simp_all add: auth_effect_ok)

lemma connection_step_ok: "connection_step env c c' \<Longrightarrow> singleton_ok c \<Longrightarrow> singleton_ok c'"
proof (induction rule: connection_step.induct)
  case (step_token c token)
  then have "singleton_ok (render_token token c)" by (simp add: render_token_def)
  then show ?case by (simp add: token_changes_def Let_def effects_ok)
next
  case (step_mount c)
  then show ?case unfolding mount_hook_def by (intro setup_ok) simp
next
  case (step_heartbeat i c)
  then show ?case
    by (auto simp: heartbeat_def setup_ok ws_send_def split: option.split)
next
  case (step_retry i c)
  then show ?case unfolding retry_def by (intro setup_ok) simp
next
  case (step_subscribe c resource_type resource_id)
  then show ?case
    by (auto simp: subscribe_def Let_def ws_send_def split: option.split)
next
  case (step_unsubscribe c resource_type resource_id)
  then show ?case
    by (auto simp: unsubscribe_resource_def Let_def ws_send_def split: option.split)
qed (simp_all add: open_ok close_ok closing_ok error_close unmount_hook_def conversation_changes_def)

lemma connection_reachable_ok: "connection_reachable env c \<Longrightarrow> singleton_ok c"
proof (induction rule: connection_reachable.induct)
  case (conn_start token)
  then show ?case by (simp add: singleton_ok_def initial_connection_def state_of_def)
qed (rule connection_step_ok)

section \<open>What the effects do\<close>

definition tags :: "connection \<Rightarrow> (string \<times> nat \<times> jsval) list" where
  "tags c = map (\<lambda>so. (so_url so, so_owner so, so_active so)) (cn_sockets c)"

lemma tags_nth: "n < length (cn_sockets c) \<Longrightarrow> tags c ! n = (so_url (cn_sockets c ! n), so_owner (cn_sockets c ! n), so_active (cn_sockets c ! n))"
  by (simp add: tags_def)

lemma tags_set_state [simp]: "tags (set_state n r c) = tags c"
proof (rule nth_equalityI)
  show "length (tags (set_state n r c)) = length (tags c)" by (simp add: tags_def)
next
  fix m assume "m < length (tags (set_state n r c))"
  then have "m < length (cn_sockets c)" by (simp add: tags_def)
  then show "tags (set_state n r c) ! m = tags c ! m"
    by (cases "m = n") (simp_all add: tags_def set_state_def)
qed

lemma set_state_more [simp]:
  "cn_token (set_state n r c) = cn_token c" "cn_retries (set_state n r c) = cn_retries c"
  by (simp_all add: set_state_def)

lemma tags_frame [simp]: "tags (c\<lparr>cn_hooks := hs\<rparr>) = tags c" "tags (c\<lparr>cn_token := t\<rparr>) = tags c"
  by (simp_all add: tags_def)

lemma sockets_close_global [simp]: "length (cn_sockets (close_global c)) = length (cn_sockets c)"
  by (simp add: close_global_def split: option.split)

lemma close_global_frame [simp]:
  "cn_global (close_global c) = cn_global c" "cn_hooks (close_global c) = cn_hooks c"
  "cn_token (close_global c) = cn_token c" "cn_retries (close_global c) = cn_retries c"
  "cn_connecting (close_global c) = cn_connecting c" "tags (close_global c) = tags c"
  by (auto simp: close_global_def split: option.split)

lemma auth_effect_frame [simp]:
  "cn_global (auth_effect i c) = cn_global c" "cn_token (auth_effect i c) = cn_token c"
  "cn_retries (auth_effect i c) = cn_retries c" "cn_connecting (auth_effect i c) = cn_connecting c"
  "tags (auth_effect i c) = tags c" "length (cn_hooks (auth_effect i c)) = length (cn_hooks c)"
  "j \<noteq> i \<Longrightarrow> cn_hooks (auth_effect i c) ! j = cn_hooks c ! j"
  by (simp_all add: auth_effect_def Let_def)

lemma sockets_auth_effect [simp]: "length (cn_sockets (auth_effect i c)) = length (cn_sockets c)"
  by (simp add: auth_effect_def Let_def)

lemma sockets_effects [simp]: "length (cn_sockets (fold auth_effect is c)) = length (cn_sockets c)"
  by (induction "is" arbitrary: c) simp_all

lemma auth_effect_hook:
  "hk_token (cn_hooks (auth_effect i c) ! j) = hk_token (cn_hooks c ! j)"
  "hk_mounted (cn_hooks (auth_effect i c) ! j) = hk_mounted (cn_hooks c ! j)"
proof -
  have "hk_token ((cn_hooks c)[i := (cn_hooks c ! i)\<lparr>hk_prev_auth := a, hk_prev_token := t\<rparr>] ! j) = hk_token (cn_hooks c ! j)
    \<and> hk_mounted ((cn_hooks c)[i := (cn_hooks c ! i)\<lparr>hk_prev_auth := a, hk_prev_token := t\<rparr>] ! j) = hk_mounted (cn_hooks c ! j)"
    for a t
    by (cases "i < length (cn_hooks c)"; cases "j = i") (simp_all add: linorder_not_less list_update_beyond)
  then show "hk_token (cn_hooks (auth_effect i c) ! j) = hk_token (cn_hooks c ! j)"
    "hk_mounted (cn_hooks (auth_effect i c) ! j) = hk_mounted (cn_hooks c ! j)"
    by (simp_all add: auth_effect_def Let_def)
qed

lemma effects_frame:
  "cn_global (fold auth_effect is c) = cn_global c" "cn_token (fold auth_effect is c) = cn_token c"
  "cn_retries (fold auth_effect is c) = cn_retries c" "cn_connecting (fold auth_effect is c) = cn_connecting c"
  "tags (fold auth_effect is c) = tags c" "length (cn_hooks (fold auth_effect is c)) = length (cn_hooks c)"
  "hk_token (cn_hooks (fold auth_effect is c) ! j) = hk_token (cn_hooks c ! j)"
  "hk_mounted (cn_hooks (fold auth_effect is c) ! j) = hk_mounted (cn_hooks c ! j)"
  "j \<notin> set is \<Longrightarrow> cn_hooks (fold auth_effect is c) ! j = cn_hooks c ! j"
  by (induction "is" arbitrary: c) (simp_all add: auth_effect_hook)

lemma mounted_effects [simp]: "mounted_hooks (fold auth_effect is c) = mounted_hooks c"
  by (simp add: mounted_hooks_def effects_frame)

lemma mounted_render [simp]: "mounted_hooks (render_token token c) = mounted_hooks c"
  unfolding mounted_hooks_def render_token_def by (rule filter_cong [THEN trans]) (auto intro: filter_cong)

lemma live_after_effect:
  assumes "cn_global c = Some n" "n < length (cn_sockets c)" "state_of c n = Open \<or> state_of c n = Closing"
  shows "state_of (auth_effect i c) n = Open \<and> state_of c n = Open \<or> state_of (auth_effect i c) n = Closing"
proof -
  have "n < length (cn_sockets (c\<lparr>cn_hooks := hs\<rparr>))" for hs using assms(2) by simp
  then show ?thesis using assms
    by (auto simp: auth_effect_def Let_def close_global_def state_of_set_state)
qed

lemma live_after_effects:
  assumes "cn_global c = Some n" "n < length (cn_sockets c)" "state_of c n = Open \<or> state_of c n = Closing"
  shows "state_of (fold auth_effect is c) n = Open \<and> state_of c n = Open \<or> state_of (fold auth_effect is c) n = Closing"
  using assms
proof (induction "is" arbitrary: c)
  case (Cons i "is")
  from live_after_effect [OF Cons.prems, of i] show ?case
    using Cons.IH [of "auth_effect i c"] Cons.prems by auto
qed simp

lemma changed_hook_closes:
  assumes "cn_global c = Some n" "n < length (cn_sockets c)" "state_of c n = Open \<or> state_of c n = Closing"
    and "hk_prev_token (cn_hooks c ! i) \<noteq> cn_token c"
  shows "state_of (auth_effect i c) n = Closing"
proof -
  have "n < length (cn_sockets (c\<lparr>cn_hooks := hs\<rparr>))" for hs using assms(2) by simp
  then show ?thesis using assms
    by (auto simp: auth_effect_def Let_def close_global_def state_of_set_state)
qed

lemma token_change_closes:
  assumes "singleton_ok c" "cn_global c = Some n" "i \<in> set (mounted_hooks c)"
    and "hk_prev_token (cn_hooks c ! i) \<noteq> token"
  shows "state_of (token_changes token c) n = Closing"
proof -
  let ?c = "render_token token c"
  have live: "state_of c n = Open \<or> state_of c n = Closing" by (rule global_live [OF assms(1,2)])
  then have n: "n < length (cn_sockets c)" by (intro state_of_live) auto
  from assms(3) obtain xs ys where split: "mounted_hooks c = xs @ i # ys" "i \<notin> set xs"
    by (meson split_list_first)
  let ?d = "fold auth_effect xs ?c"
  have "i < length (cn_hooks c)" using assms(3) by (simp add: mounted_hooks_def)
  then have "hk_prev_token (cn_hooks ?d ! i) = hk_prev_token (cn_hooks c ! i)"
    using split(2) by (simp add: effects_frame render_token_def)
  moreover have "cn_token ?d = token" by (simp add: effects_frame render_token_def)
  moreover have c0: "cn_global ?c = Some n" "n < length (cn_sockets ?c)"
    "state_of ?c n = Open \<or> state_of ?c n = Closing"
    using assms(2) n live by (auto simp: render_token_def)
  ultimately have "state_of (auth_effect i ?d) n = Closing"
    using assms(4) live_after_effects [OF c0, of xs]
    by (intro changed_hook_closes) (auto simp: effects_frame)
  moreover have "n < length (cn_sockets (auth_effect i ?d))" using c0(2) by simp
  ultimately have "state_of (fold auth_effect ys (auth_effect i ?d)) n = Closing"
    using live_after_effects [of "auth_effect i ?d" n ys] c0(1) by (simp add: effects_frame)
  then show ?thesis by (simp add: token_changes_def Let_def split(1))
qed

lemma retry_connects:
  assumes "cn_global c = None" "\<not> cn_connecting c" "we_accepts env (ws_url_for env (hk_token (cn_hooks c ! i)))"
  shows "cn_sockets (retry env i c) = cn_sockets c @
    [\<lparr>so_state = Connecting, so_url = ws_url_for env (hk_token (cn_hooks c ! i)), so_owner = i,
      so_active = hk_active (cn_hooks c ! i)\<rparr>]"
  using assms by (simp add: retry_def setup_websocket_def Let_def)

lemma close_fields [simp]:
  "cn_global (on_close n c) = None" "\<not> cn_connecting (on_close n c)" "cn_hooks (on_close n c) = cn_hooks c"
  by (simp_all add: on_close_def Let_def)

lemma token_changes_hook:
  "hk_token (cn_hooks (token_changes token c) ! i) =
     (if i < length (cn_hooks c) \<and> hk_mounted (cn_hooks c ! i) then token else hk_token (cn_hooks c ! i))
   \<or> \<not> i < length (cn_hooks c)"
  by (auto simp: token_changes_def Let_def effects_frame) (auto simp: render_token_def)

lemma effect_without_socket:
  assumes "cn_global c = None"
  shows "cn_sockets (auth_effect i c) = cn_sockets c"
  using assms by (simp add: auth_effect_def close_global_def Let_def)

lemma effects_without_socket: "cn_global c = None \<Longrightarrow> cn_sockets (fold auth_effect is c) = cn_sockets c"
  by (induction "is" arbitrary: c) (simp_all add: effect_without_socket)

text \<open>A hook that has seen the token; its effect does nothing more.\<close>

definition seen :: "connection \<Rightarrow> nat \<Rightarrow> bool" where
  "seen c i = (hk_prev_token (cn_hooks c ! i) = cn_token c \<and> hk_prev_auth (cn_hooks c ! i) = is_auth c)"

lemma is_auth_effect [simp]: "is_auth (auth_effect i c) = is_auth c"
  by (simp add: is_auth_def)

lemma effect_seen: "i < length (cn_hooks c) \<Longrightarrow> seen (auth_effect i c) i"
  by (simp add: seen_def) (simp add: auth_effect_def Let_def is_auth_def)

lemma seen_kept:
  assumes "seen c i" "i < length (cn_hooks c)"
  shows "seen (auth_effect j c) i"
  using assms effect_seen by (cases "j = i") (auto simp: seen_def)

lemma effects_seen:
  assumes "i < length (cn_hooks c)" "i \<in> set is \<or> seen c i"
  shows "seen (fold auth_effect is c) i"
  using assms
proof (induction "is" arbitrary: c)
  case (Cons j "is")
  then have "i \<in> set is \<or> seen (auth_effect j c) i" using effect_seen [of i c] seen_kept by auto
  with Cons show ?case by simp
qed simp

lemma seen_effect:
  assumes "seen c i"
  shows "auth_effect i c = c"
proof -
  have "(cn_hooks c ! i)\<lparr>hk_prev_auth := is_auth c, hk_prev_token := cn_token c\<rparr> = cn_hooks c ! i"
    using assms by (cases "cn_hooks c ! i") (simp add: seen_def)
  then have "c\<lparr>cn_hooks := (cn_hooks c)[i := (cn_hooks c ! i)\<lparr>hk_prev_auth := is_auth c, hk_prev_token := cn_token c\<rparr>]\<rparr> = c"
    by (simp only: list_update_id) simp
  moreover have "hk_prev_token (cn_hooks c ! i) = cn_token c" "hk_prev_auth (cn_hooks c ! i) = is_auth c"
    using assms by (simp_all add: seen_def)
  ultimately show ?thesis by (simp only: auth_effect_def Let_def simp_thms if_False refl)
qed

lemma seen_effects: "(\<And>i. i \<in> set is \<Longrightarrow> seen c i) \<Longrightarrow> fold auth_effect is c = c"
  by (induction "is") (simp_all add: seen_effect)

lemma open_fields:
  "cn_hooks (on_open n c) = cn_hooks c" "cn_token (on_open n c) = cn_token c"
  "cn_sockets (on_open n c) = (cn_sockets c)[n := (cn_sockets c ! n)\<lparr>so_state := Open\<rparr>]"
  by (simp_all add: on_open_def Let_def sends_frame set_state_def)

section \<open>Properties\<close>

text \<open>
  C7. There is at most one connection: in every reachable state, whatever components mount, retry timers
  and heartbeats fire and tokens change, two sockets that are not closed are the same socket, and when it
  is open it is the one that the module's \<open>_globalWs\<close> names.
\<close>

theorem at_most_one_connection:
  assumes "connection_reachable env c" "state_of c m \<noteq> Closed" "state_of c n \<noteq> Closed"
  shows "m = n \<and> (state_of c n = Open \<longrightarrow> cn_global c = Some n)"
proof -
  have ok: "singleton_ok c" using assms(1) by (rule connection_reachable_ok)
  then show ?thesis using live_unique [OF ok assms(2,3)] by (auto simp: singleton_ok_def)
qed

definition plain_env :: ws_env where
  "plain_env = \<lparr>we_url = ''ws://h/ws'', we_accepts = (\<lambda>_. True)\<rparr>"

definition connecting_state :: connection where
  "connecting_state = mount_hook plain_env (initial_connection (Some ''t''))"

lemma connecting_reachable: "connection_reachable plain_env connecting_state"
  unfolding connecting_state_def by (rule conn_next [OF conn_start step_mount])

lemma connecting_fields:
  "state_of connecting_state 0 = Connecting" "cn_global connecting_state = None"
  "cn_sockets connecting_state = [\<lparr>so_state = Connecting, so_url = ''ws://h/ws?token=t'', so_owner = 0, so_active = JNull\<rparr>]"
  "cn_hooks connecting_state = [\<lparr>hk_mounted = True, hk_token = Some ''t'', hk_prev_token = Some ''t'',
     hk_prev_auth = True, hk_active = JNull\<rparr>]"
proof -
  have "encode_uri_component ''t'' = ''t''" by code_simp
  then show "cn_sockets connecting_state = [\<lparr>so_state = Connecting, so_url = ''ws://h/ws?token=t'', so_owner = 0, so_active = JNull\<rparr>]"
    "cn_global connecting_state = None" "state_of connecting_state 0 = Connecting"
    "cn_hooks connecting_state = [\<lparr>hk_mounted = True, hk_token = Some ''t'', hk_prev_token = Some ''t'',
     hk_prev_auth = True, hk_active = JNull\<rparr>]"
    by (simp_all add: connecting_state_def mount_hook_def initial_connection_def setup_websocket_def plain_env_def
        ws_url_for_def append_ws_param_def state_of_def is_auth_def is_authenticated_def Let_def)
qed

lemma at_most_one_connection_witness:
  "state_of (on_open 0 connecting_state) 0 = Open \<and> cn_global (on_open 0 connecting_state) = Some 0"
proof -
  have r: "connection_reachable plain_env (on_open 0 connecting_state)"
    by (rule conn_next [OF connecting_reachable step_opens]) (rule connecting_fields)
  have s: "state_of (on_open 0 connecting_state) 0 = Open"
    by (simp add: state_of_def open_fields connecting_fields)
  from at_most_one_connection [OF r, of 0 0] s show ?thesis by simp
qed

text \<open>
  A reconnect restores every subscription: when the new socket opens, exactly the tracked
  subscriptions are sent over it, each once and in the order they were made, and the frame names the
  resource that was subscribed to, provided neither its type nor its id contains a colon.
\<close>

lemma reconnect_replays_subscriptions:
  assumes "CHR '':'' \<notin> set resource_type" "CHR '':'' \<notin> set (js_string resource_id)"
    and "c' = subscribe resource_type resource_id c"
  shows "cn_sent (on_open n c') = cn_sent c' @ map (\<lambda>key. (n, ''subscribe'', key_payload key)) (cn_subs c')
    \<and> (n, ''subscribe'', subscription_payload (JStr resource_type) (JStr (js_string resource_id)))
        \<in> set (cn_sent (on_open n c'))"
proof -
  have split: "split_at CHR '':'' (subscription_key resource_type resource_id) = [resource_type, js_string resource_id]"
    using assms(1,2) by (simp add: subscription_key_def takeWhile_join split_at_plain)
  have "subscription_key resource_type resource_id \<in> set (cn_subs c')"
    by (simp add: assms(3) subscribe_def Let_def ws_send_def split: option.split)
  moreover have sent: "cn_sent (on_open n c') = cn_sent c' @ map (\<lambda>key. (n, ''subscribe'', key_payload key)) (cn_subs c')"
    by (simp add: on_open_def Let_def sends_frame)
  ultimately show ?thesis using split by (force simp: key_payload_def)
qed

lemma reconnect_replays_subscriptions_witness:
  "(0, ''subscribe'', subscription_payload (JStr ''thread'') (JStr ''9''))
     \<in> set (cn_sent (on_open 0 (subscribe ''thread'' (JStr ''9'') connecting_state)))"
proof -
  have "(0, ''subscribe'', subscription_payload (JStr ''thread'') (JStr (js_string (JStr ''9''))))
     \<in> set (cn_sent (on_open 0 (subscribe ''thread'' (JStr ''9'') connecting_state)))"
    by (rule reconnect_replays_subscriptions [THEN conjunct2]) simp_all
  then show ?thesis by (simp only: js_string.simps)
qed

text \<open>
  A new token reaches the server: when the token changes while the connection is open, the
  connection is closed, and when it has closed, the retry of the component that made it (if that is still
  mounted) connects with the new token.
\<close>

lemma token_change_reconnects:
  assumes "connection_reachable env c" "cn_global c = Some n"
    and "i \<in> set (mounted_hooks c)" "hk_prev_token (cn_hooks c ! i) \<noteq> token"
    and "owner \<in> set (mounted_hooks c)" "we_accepts env (ws_url_for env token)"
    and "closing = token_changes token c"
  shows "state_of closing n = Closing
    \<and> so_url (last (cn_sockets (retry env owner (on_close n closing)))) = ws_url_for env token"
proof -
  have "state_of closing n = Closing"
    using token_change_closes [OF connection_reachable_ok [OF assms(1)] assms(2-4)] assms(7) by simp
  moreover have "owner < length (cn_hooks c)" "hk_mounted (cn_hooks c ! owner)"
    using assms(5) by (auto simp: mounted_hooks_def)
  then have "hk_token (cn_hooks (on_close n closing) ! owner) = token"
    using token_changes_hook [of token c owner] assms(7) by simp
  ultimately show ?thesis using retry_connects [of "on_close n closing" env owner] assms(6) by simp
qed

text \<open>The same without the component: a retry that belongs to a hook that was unmounted.\<close>

text \<open>
  A reconnect can carry a stale token: the retry belongs to the component whose hook made the lost
  connection, and when that component has been unmounted its ref no longer follows the token, so the new
  connection is made with the token the component last saw, not with the current one.
\<close>

lemma reconnect_keeps_stale_token:
  assumes "i < length (cn_hooks c)" "\<not> hk_mounted (cn_hooks c ! i)"
    and "we_accepts env (ws_url_for env (hk_token (cn_hooks c ! i)))"
    and "c' = retry env i (on_close n (token_changes token c))"
  shows "so_url (last (cn_sockets c')) = ws_url_for env (hk_token (cn_hooks c ! i)) \<and> so_state (last (cn_sockets c')) = Connecting"
proof -
  have "hk_token (cn_hooks (on_close n (token_changes token c)) ! i) = hk_token (cn_hooks c ! i)"
    using token_changes_hook [of token c i] assms(1,2) by simp
  then show ?thesis using retry_connects [of "on_close n (token_changes token c)" env i] assms(3,4) by simp
qed

text \<open>
  A token change while connecting is lost: the effect finds no open connection to close, but marks
  the change as seen; the socket opens with the old token in its URL, and no later run of the effects
  closes it.
\<close>

lemma token_change_while_connecting_is_lost:
  assumes "connection_reachable env c" "state_of c n = Connecting" "c' = on_open n (token_changes token c)"
  shows "state_of c' n = Open \<and> so_url (cn_sockets c' ! n) = so_url (cn_sockets c ! n)
    \<and> fold auth_effect (mounted_hooks c') c' = c'"
proof -
  let ?c = "token_changes token c"
  have ok: "singleton_ok c" by (rule connection_reachable_ok [OF assms(1)])
  then have none: "cn_global c = None" using assms(2) by (auto simp: singleton_ok_def)
  have n: "n < length (cn_sockets c)" by (rule state_of_live) (simp add: assms(2))
  have "cn_sockets ?c = cn_sockets (render_token token c)"
    unfolding token_changes_def Let_def by (rule effects_without_socket) (simp add: render_token_def none)
  then have sockets: "cn_sockets ?c = cn_sockets c" by (simp add: render_token_def)
  have mounted: "mounted_hooks c' = mounted_hooks (render_token token c)"
    unfolding assms(3) by (simp add: mounted_hooks_def open_fields token_changes_def Let_def effects_frame)
  have "seen c' i" if "i \<in> set (mounted_hooks c')" for i
  proof -
    from that mounted have i: "i \<in> set (mounted_hooks (render_token token c))" by simp
    then have "i < length (cn_hooks (render_token token c))" by (simp add: mounted_hooks_def)
    with i have "seen ?c i"
      unfolding token_changes_def Let_def by (simp add: effects_seen effects_frame)
    then show ?thesis by (simp add: assms(3) seen_def open_fields is_auth_def)
  qed
  then have "fold auth_effect (mounted_hooks c') c' = c'" by (rule seen_effects)
  then show ?thesis using n sockets by (simp add: assms(3) state_of_def open_fields)
qed

lemma token_change_while_connecting_is_lost_witness:
  "so_url (cn_sockets (on_open 0 (token_changes (Some ''new'') connecting_state)) ! 0) = ''ws://h/ws?token=t''"
  using token_change_while_connecting_is_lost [OF connecting_reachable connecting_fields(1) refl, of "Some ''new''"]
  by (simp add: connecting_fields)

text \<open>A page mounts before the layout, its hook connects without a token, the page is left, the user logs in.\<close>

definition page_left :: connection where
  "page_left = unmount_hook 0 (on_open 0 (mount_hook plain_env (mount_hook plain_env (initial_connection None))))"

lemma page_left_hooks:
  "cn_hooks page_left =
    [\<lparr>hk_mounted = False, hk_token = None, hk_prev_token = None, hk_prev_auth = False, hk_active = JNull\<rparr>,
     \<lparr>hk_mounted = True, hk_token = None, hk_prev_token = None, hk_prev_auth = False, hk_active = JNull\<rparr>]"
  by (simp add: page_left_def unmount_hook_def open_fields mount_hook_def setup_websocket_def initial_connection_def
      plain_env_def is_auth_def is_authenticated_def Let_def)

lemma reconnect_keeps_stale_token_witness:
  "so_url (last (cn_sockets (retry plain_env 0 (on_close 0 (token_changes (Some ''new'') page_left))))) = ''ws://h/ws''"
  using reconnect_keeps_stale_token [of 0 page_left plain_env, OF _ _ _ refl, of 0 "Some ''new''"]
  by (simp add: page_left_hooks plain_env_def ws_url_for_def)

definition open_state :: connection where
  "open_state = on_open 0 connecting_state"

lemma token_change_reconnects_witness:
  "state_of (token_changes None open_state) 0 = Closing"
proof -
  have "connection_reachable plain_env open_state"
    unfolding open_state_def by (intro conn_next [OF connecting_reachable] step_opens) (simp add: connecting_fields)
  moreover have "cn_global open_state = Some 0"
    by (simp add: open_state_def on_open_def Let_def sends_frame)
  ultimately show ?thesis
    by (intro token_change_reconnects [where i = 0 and owner = 0 and env = plain_env, THEN conjunct1])
       (simp_all add: open_state_def mounted_hooks_def open_fields connecting_fields plain_env_def)
qed

text \<open>
  Who is put out of the conversation they are reading is not told: the closures of a socket keep the
  conversation id of their component's first render, so when that component mounted with no conversation
  open, no later deletion shows the message, whichever conversation is open by then.
\<close>

lemma leaving_is_not_announced:
  assumes "hk_active (cn_hooks c ! i) = JNull" "c' = setup_websocket env i c" "cn_sockets c' \<noteq> cn_sockets c"
    and "m_type m = ''inbox:update''" "key_of (fld (m_payload m) ''data'') \<noteq> ''null''"
  shows "cl_effects (on_message registry ws_open (so_active (last (cn_sockets c'))) (Some m) s)
    \<in> {cl_effects s, cl_effects s @ [LogError]}"
proof -
  have "so_active (last (cn_sockets c')) = JNull"
    using assms(1-3) by (auto simp: setup_websocket_def Let_def split: option.splits if_splits)
  moreover obtain s' ok where a: "apply_message registry ''inbox:update'' (m_payload m) s = (s', ok)" by fastforce
  then have "cl_effects s' = cl_effects s" by (auto simp: apply_message_def split: prod.splits)
  ultimately show ?thesis
    using assms(4,5) a
    by (auto simp: on_message_def dispatch_message_def handle_inbox_update_def and_then_def do_if_def skip_def
        emit_def Let_def split: prod.splits)
qed

lemma leaving_is_not_announced_witness:
  "cl_effects (on_message (client_registry [] 0) True
     (so_active (last (cn_sockets (mount_hook plain_env (initial_connection None)))))
     (Some \<lparr>m_type = ''inbox:update'', m_user_id = 0, m_payload = JObj [(''action'', JStr ''conversation_deleted''),
        (''data'', JObj [(''id'', JStr ''9'')])], m_raw = None\<rparr>) fresh_client) \<in> {cl_effects fresh_client, cl_effects fresh_client @ [LogError]}"
proof -
  let ?c = "(initial_connection None)\<lparr>cn_hooks := [\<lparr>hk_mounted = True, hk_token = None, hk_prev_token = None,
    hk_prev_auth = False, hk_active = JNull\<rparr>]\<rparr>"
  have m: "mount_hook plain_env (initial_connection None) = setup_websocket plain_env 0 ?c"
    by (simp add: mount_hook_def initial_connection_def is_auth_def is_authenticated_def)
  show ?thesis unfolding m
    by (rule leaving_is_not_announced [OF _ refl])
       (simp_all add: setup_websocket_def initial_connection_def plain_env_def ws_url_for_def Let_def key_of_def)
qed

section \<open>\<open>sendGrengoJobAction\<close>\<close>

text \<open>
  The frame sent, or the acknowledgement the code makes itself when there is no connection, and the
  promise: the first acknowledgement with the request's id decides, others are passed over, and if none
  comes within the time limit the promise is rejected.
\<close>

datatype ack_result = Accepted jsval | Refused jsval

definition grengo_action ::
  "bool \<Rightarrow> string \<Rightarrow> string \<Rightarrow> jsval \<Rightarrow> jsval \<Rightarrow> jsval \<Rightarrow> (string \<times> jsval) list \<times> jsval list" where
  "grengo_action ws_open request_id act name command args =
     (if ws_open then ([(''grengo:action'', JObj [(''request_id'', JStr request_id), (''action'', JStr act),
        (''name'', name), (''command'', command), (''args'', args)])], [])
      else ([], [JObj [(''request_id'', JStr request_id), (''accepted'', JBool False),
        (''error'', JStr ''WebSocket not connected, cannot send grengo action'')]]))"

fun wait_for_ack :: "string \<Rightarrow> jsval list \<Rightarrow> ack_result" where
  "wait_for_ack request_id [] = Refused (JStr ''Timed out waiting for grengo action acknowledgement'')"
| "wait_for_ack request_id (detail # details) =
     (if \<not> truthy detail \<or> fld detail ''request_id'' \<noteq> JStr request_id then wait_for_ack request_id details
      else if \<not> truthy (fld detail ''accepted'')
      then Refused (js_or (fld detail ''error'') (JStr ''Grengo action was rejected''))
      else Accepted (fld detail ''job_id''))"

lemma wait_ignores_others:
  "(\<And>d. d \<in> set ds \<Longrightarrow> fld d ''request_id'' \<noteq> JStr request_id) \<Longrightarrow>
   wait_for_ack request_id (ds @ rest) = wait_for_ack request_id rest"
  by (induction ds) auto

lemma action_without_connection:
  "wait_for_ack request_id (snd (grengo_action False request_id act name command args) @ rest)
    = Refused (JStr ''WebSocket not connected, cannot send grengo action'')"
  by (simp add: grengo_action_def js_or_def)

end
