(* ===== verification/UploadQueue.thy ===== *)
theory UploadQueue
  imports JsText
begin

text \<open>
  \<open>atoms/uploadAtom.ts\<close>: the upload manager. Jobs are objects that the queue, the runs of
  \<open>processQueue\<close> and their workers share, so they live in a list of objects and are referred to by index;
  a run is one call of \<open>processQueue\<close> that found a job, and its worker is either waiting for a chunk
  request or has ended. Every answer of the server and every action of the user is one step. The speed
  and time estimates are left out: they are floating point numbers that nothing reads back.
\<close>

section \<open>State\<close>

datatype upload_status = Queued | Initializing | Uploading | Rebuilding | Complete | Errored | Paused
datatype chunk_status = ChunkUploading | ChunkErrored

record upload_file =
  uf_name :: string
  uf_type :: string
  uf_modified :: nat
  uf_bytes :: "nat list"

record upload_job =
  jb_id :: string
  jb_file :: "upload_file option"
  jb_filename :: string
  jb_size :: nat
  jb_total :: nat
  jb_uploaded :: nat
  jb_status :: upload_status
  jb_error :: "string option"
  jb_type :: string
  jb_inbox :: "string option"
  jb_completed :: "nat list"
  jb_active :: "(nat \<times> chunk_status) list"

datatype run_phase = Initiating | Working | Completing | Messaging | Finished

text \<open>A worker of a run waits for the request of a chunk (\<open>Some\<close> its index) or has ended.\<close>

record upload_run =
  rn_job :: nat
  rn_phase :: run_phase
  rn_upload_id :: string
  rn_next :: nat
  rn_workers :: "nat option list"
  rn_result :: jsval

datatype upload_request =
    InitRequest string nat nat string string
  | ChunkRequest string nat "nat list"
  | CompleteRequest string
  | MessageRequest string string string jsval nat string
  | DeleteRequest string

datatype upload_outcome = Uploaded jsval | UploadFailed string

record uploader =
  up_jobs :: "upload_job list"
  up_queue :: "nat list"
  up_active :: nat
  up_runs :: "upload_run list"
  up_resolvers :: "string list"
  up_settled :: "(string \<times> upload_outcome) list"
  up_cleanups :: "nat list"
  up_sent :: "upload_request list"
  up_stored :: "(string \<times> nat) list"

definition empty_uploader :: uploader where
  "empty_uploader = \<lparr>up_jobs = [], up_queue = [], up_active = 0, up_runs = [], up_resolvers = [],
     up_settled = [], up_cleanups = [], up_sent = [], up_stored = []\<rparr>"

definition max_concurrent_uploads :: nat where "max_concurrent_uploads = 1"
definition worker_count :: nat where "worker_count = 4"

definition set_job :: "nat \<Rightarrow> (upload_job \<Rightarrow> upload_job) \<Rightarrow> uploader \<Rightarrow> uploader" where
  "set_job j f u = u\<lparr>up_jobs := (up_jobs u)[j := f (up_jobs u ! j)]\<rparr>"

definition set_run :: "nat \<Rightarrow> (upload_run \<Rightarrow> upload_run) \<Rightarrow> uploader \<Rightarrow> uploader" where
  "set_run r f u = u\<lparr>up_runs := (up_runs u)[r := f (up_runs u ! r)]\<rparr>"

definition send :: "upload_request \<Rightarrow> uploader \<Rightarrow> uploader" where
  "send q u = u\<lparr>up_sent := up_sent u @ [q]\<rparr>"

definition job_status :: "uploader \<Rightarrow> nat \<Rightarrow> upload_status" where
  "job_status u j = jb_status (up_jobs u ! j)"

section \<open>Chunks of a file\<close>

text \<open>\<open>Math.ceil(file.size / CHUNK_SIZE) || 1\<close>.\<close>

definition total_chunks :: "nat \<Rightarrow> nat \<Rightarrow> nat" where
  "total_chunks chunk_size n = max 1 ((n + chunk_size - 1) div chunk_size)"

text \<open>\<open>file.slice(start, end)\<close> with \<open>end = Math.min(start + CHUNK_SIZE, size)\<close>.\<close>

definition file_chunk :: "nat \<Rightarrow> nat list \<Rightarrow> nat \<Rightarrow> nat list" where
  "file_chunk chunk_size bytes i =
     (let start = i * chunk_size; end' = min (start + chunk_size) (length bytes)
      in take (end' - start) (drop start bytes))"

definition upload_chunk_size :: nat where "upload_chunk_size = 5 * 1024 * 1024"

definition media_kind :: "string \<Rightarrow> string" where
  "media_kind mime =
     (if starts_with ''image/'' mime then ''image'' else if starts_with ''video/'' mime then ''video'' else ''file'')"

definition message_kind :: "string \<Rightarrow> string" where
  "message_kind mime =
     (if starts_with ''image/'' mime then ''image'' else if starts_with ''video/'' mime then ''video''
      else if starts_with ''audio/'' mime then ''audio'' else ''file'')"

section \<open>Starting a job\<close>

text \<open>The text whose base64 form is the fingerprint of a file; the encoding itself is left out.\<close>

definition fingerprint_text :: "upload_job \<Rightarrow> upload_file \<Rightarrow> string" where
  "fingerprint_text job file =
     jb_filename job @ ''-'' @ dec_nat (jb_size job) @ ''-'' @ dec_nat (uf_modified file)"

text \<open>
  \<open>processQueue\<close> up to its first \<open>await\<close>: the oldest queued job gets a run, unless one is active. A job
  without its file fails before anything is sent.
\<close>

definition next_queued :: "uploader \<Rightarrow> nat option" where
  "next_queued u = List.find (\<lambda>j. job_status u j = Queued) (up_queue u)"

definition fail_job :: "nat \<Rightarrow> string \<Rightarrow> uploader \<Rightarrow> uploader" where
  "fail_job j message u =
     (let u1 = set_job j (\<lambda>job. job\<lparr>jb_status := Errored, jb_error := Some message\<rparr>) u;
          i = jb_id (up_jobs u ! j)
      in if i \<in> set (up_resolvers u1) then u1\<lparr>up_settled := up_settled u1 @ [(i, UploadFailed message)]\<rparr> else u1)"

definition start_run :: "nat \<Rightarrow> upload_file \<Rightarrow> uploader \<Rightarrow> uploader" where
  "start_run j file u =
     (let u1 = set_job j (\<lambda>job. job\<lparr>jb_status := Initializing\<rparr>) (u\<lparr>up_active := Suc (up_active u)\<rparr>);
          job = up_jobs u1 ! j
      in send (InitRequest (jb_filename job) (jb_total job) (jb_size job) (jb_type job) (fingerprint_text job file))
           (u1\<lparr>up_runs := up_runs u1 @
             [\<lparr>rn_job = j, rn_phase = Initiating, rn_upload_id = [], rn_next = 0, rn_workers = [],
              rn_result = JUndef\<rparr>]\<rparr>))"

text \<open>
  A job without its file fails at once and the next one is tried; each such turn takes a job out of the
  queued ones, so the length of the queue is enough fuel.
\<close>

fun process_fuel :: "nat \<Rightarrow> uploader \<Rightarrow> uploader" where
  "process_fuel 0 u = u"
| "process_fuel (Suc fuel) u =
     (if max_concurrent_uploads \<le> up_active u then u
      else case next_queued u of
        None \<Rightarrow> u
      | Some j \<Rightarrow> (case jb_file (up_jobs u ! j) of
            Some file \<Rightarrow> start_run j file u
          | None \<Rightarrow> process_fuel fuel (fail_job j ''TypeError'' u)))"

definition process_queue :: "uploader \<Rightarrow> uploader" where
  "process_queue u = process_fuel (Suc (length (up_queue u))) u"

section \<open>The end of a run\<close>

text \<open>\<open>finally\<close>: the place is free again, a finished job is to be cleaned up, the next job starts.\<close>

definition finish_run :: "nat \<Rightarrow> uploader \<Rightarrow> uploader" where
  "finish_run r u =
     (let j = rn_job (up_runs u ! r);
          u1 = set_run r (\<lambda>run. run\<lparr>rn_phase := Finished\<rparr>) (u\<lparr>up_active := up_active u - 1\<rparr>);
          u2 = (if job_status u1 j \<noteq> Errored \<and> job_status u1 j \<noteq> Paused
            then u1\<lparr>up_cleanups := up_cleanups u1 @ [j]\<rparr> else u1)
      in process_queue u2)"

definition fail_run :: "nat \<Rightarrow> string \<Rightarrow> uploader \<Rightarrow> uploader" where
  "fail_run r message u = finish_run r (fail_job (rn_job (up_runs u ! r)) message u)"

definition complete_run :: "nat \<Rightarrow> jsval \<Rightarrow> uploader \<Rightarrow> uploader" where
  "complete_run r result u =
     (let j = rn_job (up_runs u ! r);
          u1 = set_job j (\<lambda>job. job\<lparr>jb_status := Complete\<rparr>) u;
          i = jb_id (up_jobs u ! j)
      in finish_run r (if i \<in> set (up_resolvers u1)
           then u1\<lparr>up_settled := up_settled u1 @ [(i, Uploaded result)]\<rparr> else u1))"

section \<open>Workers\<close>

text \<open>
  The loop of a worker up to its next \<open>await\<close>: it stops when the job is paused or failed or no index is
  left, passes over the chunks that are complete, and otherwise takes the next index. The result is the
  index it waits for and the shared \<open>currentIndex\<close>.
\<close>

function next_chunk :: "upload_status \<Rightarrow> nat \<Rightarrow> nat list \<Rightarrow> nat \<Rightarrow> nat option \<times> nat" where
  "next_chunk status chunks completed i =
     (if status = Paused \<or> status = Errored then (None, i)
      else if chunks \<le> i then (None, Suc i)
      else if i \<in> set completed then next_chunk status chunks completed (Suc i)
      else (Some i, Suc i))"
  by pat_completeness auto
termination by (relation "measure (\<lambda>(status, chunks, completed, i). chunks - i)") auto

declare next_chunk.simps [simp del]

definition chunk_bytes :: "upload_job \<Rightarrow> nat \<Rightarrow> nat list" where
  "chunk_bytes job i = (case jb_file job of Some f \<Rightarrow> file_chunk upload_chunk_size (uf_bytes f) i | None \<Rightarrow> [])"

text \<open>The worker \<open>w\<close> of the run \<open>r\<close> goes round its loop.\<close>

definition worker_turn :: "nat \<Rightarrow> nat \<Rightarrow> uploader \<Rightarrow> uploader" where
  "worker_turn r w u =
     (let run = up_runs u ! r; j = rn_job run; job = up_jobs u ! j in
      case next_chunk (jb_status job) (jb_total job) (jb_completed job) (rn_next run) of
        (None, n) \<Rightarrow> set_run r (\<lambda>run. run\<lparr>rn_next := n, rn_workers := (rn_workers run)[w := None]\<rparr>) u
      | (Some i, n) \<Rightarrow>
          send (ChunkRequest (rn_upload_id run) i (chunk_bytes job i))
            (set_job j (\<lambda>job. job\<lparr>jb_active := jb_active job @ [(i, ChunkUploading)]\<rparr>)
              (set_run r (\<lambda>run. run\<lparr>rn_next := n, rn_workers := (rn_workers run)[w := Some i]\<rparr>) u)))"

text \<open>
  After \<open>await Promise.all(workers)\<close>, once every worker of a run has ended without throwing.
\<close>

definition workers_done :: "nat \<Rightarrow> uploader \<Rightarrow> bool" where
  "workers_done r u = (rn_phase (up_runs u ! r) = Working \<and> list_all (\<lambda>w. w = None) (rn_workers (up_runs u ! r)))"

definition join_workers :: "nat \<Rightarrow> uploader \<Rightarrow> uploader" where
  "join_workers r u =
     (if \<not> workers_done r u then u
      else
        let j = rn_job (up_runs u ! r) in
        if job_status u j = Paused then finish_run r u
        else if job_status u j = Errored then fail_run r ''Upload failed'' u
        else send (CompleteRequest (rn_upload_id (up_runs u ! r)))
          (set_job j (\<lambda>job. job\<lparr>jb_status := Rebuilding\<rparr>)
            (set_run r (\<lambda>run. run\<lparr>rn_phase := Completing\<rparr>) u)))"

section \<open>Answers of the server\<close>

text \<open>\<open>None\<close> for a request that failed; otherwise the id of the upload and the chunks the server has.\<close>

definition init_answered :: "nat \<Rightarrow> (string \<times> nat list) option \<Rightarrow> uploader \<Rightarrow> uploader" where
  "init_answered r answer u =
     (case answer of
        None \<Rightarrow> fail_run r ''Failed to init chunked upload'' u
      | Some (upload_id, chunks) \<Rightarrow>
          let j = rn_job (up_runs u ! r);
              u1 = set_job j (\<lambda>job. job\<lparr>jb_completed := remdups chunks, jb_uploaded := length chunks,
                jb_active := [], jb_status := Uploading\<rparr>) u;
              u2 = set_run r (\<lambda>run. run\<lparr>rn_phase := Working, rn_upload_id := upload_id, rn_next := 0,
                rn_workers := replicate worker_count None\<rparr>) u1
          in join_workers r (fold (worker_turn r) [0..<worker_count] u2))"

definition drop_active :: "nat \<Rightarrow> upload_job \<Rightarrow> upload_job" where
  "drop_active i job = job\<lparr>jb_active := filter (\<lambda>c. fst c \<noteq> i) (jb_active job)\<rparr>"

text \<open>The request of chunk \<open>i\<close> that the worker \<open>w\<close> waits for succeeded; the server has stored the chunk.\<close>

definition chunk_stored :: "nat \<Rightarrow> nat \<Rightarrow> nat \<Rightarrow> uploader \<Rightarrow> uploader" where
  "chunk_stored r w i u0 =
     (let u = u0\<lparr>up_stored := up_stored u0 @ [(rn_upload_id (up_runs u0 ! r), i)]\<rparr>;
          j = rn_job (up_runs u ! r)
      in join_workers r (worker_turn r w
           (if job_status u j = Paused then set_job j (drop_active i) u
            else set_job j (\<lambda>job. (drop_active i job)\<lparr>
                jb_completed := List.insert i (jb_completed job), jb_uploaded := Suc (jb_uploaded job)\<rparr>) u)))"

text \<open>It failed: the job has failed, and the run too unless it is over already.\<close>

definition mark_error :: "nat \<Rightarrow> upload_job \<Rightarrow> upload_job" where
  "mark_error i job = job\<lparr>jb_status := Errored,
     jb_active := map (\<lambda>c. if fst c = i then (i, ChunkErrored) else c) (jb_active job)\<rparr>"

definition chunk_failed :: "nat \<Rightarrow> nat \<Rightarrow> nat \<Rightarrow> string \<Rightarrow> uploader \<Rightarrow> uploader" where
  "chunk_failed r w i message u =
     (let j = rn_job (up_runs u ! r);
          u1 = set_job j (mark_error i) (set_run r (\<lambda>run. run\<lparr>rn_workers := (rn_workers run)[w := None]\<rparr>) u)
      in if rn_phase (up_runs u1 ! r) = Working then fail_run r message u1 else u1)"

definition complete_answered :: "nat \<Rightarrow> jsval option \<Rightarrow> string \<Rightarrow> uploader \<Rightarrow> uploader" where
  "complete_answered r answer message u =
     (case answer of
        None \<Rightarrow> fail_run r message u
      | Some result \<Rightarrow>
          let job = up_jobs u ! rn_job (up_runs u ! r) in
          (case (jb_inbox job, jb_file job, get result ''url'') of
             (Some (c # cs), Some file, Some url) \<Rightarrow>
               send (MessageRequest (c # cs) (jb_filename job) (message_kind (uf_type file)) url (jb_size job) (uf_type file))
                 (set_run r (\<lambda>run. run\<lparr>rn_phase := Messaging, rn_result := result\<rparr>) u)
           | _ \<Rightarrow> complete_run r result u))"

text \<open>The message about the upload was sent, or could not be; the upload is complete either way.\<close>

definition message_answered :: "nat \<Rightarrow> uploader \<Rightarrow> uploader" where
  "message_answered r u = complete_run r (rn_result (up_runs u ! r)) u"

text \<open>The timer three seconds after a finished job.\<close>

definition without_id :: "string \<Rightarrow> uploader \<Rightarrow> uploader" where
  "without_id i u = u\<lparr>up_queue := filter (\<lambda>j. jb_id (up_jobs u ! j) \<noteq> i) (up_queue u),
     up_resolvers := filter (\<lambda>k. k \<noteq> i) (up_resolvers u)\<rparr>"

definition cleanup :: "nat \<Rightarrow> uploader \<Rightarrow> uploader" where
  "cleanup j u = without_id (jb_id (up_jobs u ! j)) (u\<lparr>up_cleanups := remove1 j (up_cleanups u)\<rparr>)"

section \<open>Actions of the user\<close>

definition new_job :: "string \<Rightarrow> upload_file \<Rightarrow> string option \<Rightarrow> string option \<Rightarrow> upload_job" where
  "new_job i file upload_type inbox =
     \<lparr>jb_id = i, jb_file = Some file, jb_filename = uf_name file, jb_size = length (uf_bytes file),
      jb_total = total_chunks upload_chunk_size (length (uf_bytes file)), jb_uploaded = 0, jb_status = Queued,
      jb_error = None,
      jb_type = (case upload_type of Some (c # cs) \<Rightarrow> c # cs | _ \<Rightarrow> media_kind (uf_type file)),
      jb_inbox = inbox, jb_completed = [], jb_active = []\<rparr>"

definition add_job :: "upload_job \<Rightarrow> uploader \<Rightarrow> uploader" where
  "add_job job u = u\<lparr>up_jobs := up_jobs u @ [job], up_queue := up_queue u @ [length (up_jobs u)]\<rparr>"

definition upload :: "string \<Rightarrow> upload_file \<Rightarrow> string option \<Rightarrow> string option \<Rightarrow> uploader \<Rightarrow> uploader" where
  "upload i file upload_type inbox u =
     process_queue (add_job (new_job i file upload_type inbox) (u\<lparr>up_resolvers := List.insert i (up_resolvers u)\<rparr>))"

definition find_job :: "string \<Rightarrow> uploader \<Rightarrow> nat option" where
  "find_job i u = List.find (\<lambda>j. jb_id (up_jobs u ! j) = i) (up_queue u)"

definition do_retry :: "nat \<Rightarrow> uploader \<Rightarrow> uploader" where
  "do_retry j u = process_queue (set_job j (\<lambda>job. job\<lparr>jb_status := Queued, jb_error := None\<rparr>) u)"

text \<open>\<open>retryUpload\<close>; \<open>chosen\<close> is the file the user picks when the job has none.\<close>

definition retry_upload :: "string \<Rightarrow> upload_file option \<Rightarrow> uploader \<Rightarrow> uploader" where
  "retry_upload i chosen u =
     (case find_job i u of
        None \<Rightarrow> u
      | Some j \<Rightarrow>
          if job_status u j \<noteq> Errored then u
          else (case jb_file (up_jobs u ! j) of
              Some _ \<Rightarrow> do_retry j u
            | None \<Rightarrow> (case chosen of
                  None \<Rightarrow> u
                | Some file \<Rightarrow>
                    if uf_name file \<noteq> jb_filename (up_jobs u ! j) \<or> length (uf_bytes file) \<noteq> jb_size (up_jobs u ! j)
                    then u else do_retry j (set_job j (\<lambda>job. job\<lparr>jb_file := Some file\<rparr>) u))))"

definition remove_upload :: "string \<Rightarrow> uploader \<Rightarrow> uploader" where
  "remove_upload i u = send (DeleteRequest i) (without_id i u)"

definition may_pause :: "upload_status \<Rightarrow> bool" where
  "may_pause st = (st \<in> {Queued, Initializing, Uploading})"

definition pause_upload :: "string \<Rightarrow> uploader \<Rightarrow> uploader" where
  "pause_upload i u =
     (case find_job i u of
        None \<Rightarrow> u
      | Some j \<Rightarrow> if may_pause (job_status u j) then set_job j (\<lambda>job. job\<lparr>jb_status := Paused\<rparr>) u else u)"

definition file_missing_text :: string where
  "file_missing_text = ''File missing. Click Retry to re-select it.''"

definition resume_upload :: "string \<Rightarrow> uploader \<Rightarrow> uploader" where
  "resume_upload i u =
     (case find_job i u of
        None \<Rightarrow> u
      | Some j \<Rightarrow>
          if job_status u j \<noteq> Paused then u
          else if jb_file (up_jobs u ! j) = None
          then set_job j (\<lambda>job. job\<lparr>jb_status := Errored, jb_error := Some file_missing_text\<rparr>) u
          else do_retry j u)"

definition pause_all :: "uploader \<Rightarrow> uploader" where
  "pause_all u = fold (\<lambda>j u. if may_pause (job_status u j)
     then set_job j (\<lambda>job. job\<lparr>jb_status := Paused\<rparr>) u else u) (up_queue u) u"

definition resume_one :: "nat \<Rightarrow> uploader \<Rightarrow> uploader" where
  "resume_one j u =
     (let job = up_jobs u ! j in
      if jb_status job = Paused \<or> jb_status job = Errored then
        if jb_file job \<noteq> None then set_job j (\<lambda>job. job\<lparr>jb_status := Queued, jb_error := None\<rparr>) u
        else if jb_status job = Paused
        then set_job j (\<lambda>job. job\<lparr>jb_status := Errored, jb_error := Some file_missing_text\<rparr>) u
        else u
      else u)"

definition resumable :: "upload_job \<Rightarrow> bool" where
  "resumable job = (jb_status job = Paused \<or> jb_status job = Errored \<and> jb_file job \<noteq> None)"

definition resume_all :: "uploader \<Rightarrow> uploader" where
  "resume_all u =
     (let u1 = fold resume_one (up_queue u) u in
      if list_ex (\<lambda>j. resumable (up_jobs u ! j)) (up_queue u) then process_queue u1 else u1)"

record incomplete_upload =
  iu_upload_id :: string
  iu_filename :: string
  iu_total_chunks :: nat
  iu_total_size :: nat
  iu_completed_chunks :: "nat list"
  iu_upload_type :: string

definition incomplete_job :: "incomplete_upload \<Rightarrow> upload_job" where
  "incomplete_job inc =
     \<lparr>jb_id = iu_upload_id inc, jb_file = None, jb_filename = iu_filename inc, jb_size = iu_total_size inc,
      jb_total = iu_total_chunks inc, jb_uploaded = length (iu_completed_chunks inc), jb_status = Errored,
      jb_error = Some ''Incomplete upload. Click Retry and select the original file to resume.'',
      jb_type = iu_upload_type inc, jb_inbox = None, jb_completed = remdups (iu_completed_chunks inc), jb_active = []\<rparr>"

definition load_incomplete_uploads :: "incomplete_upload list \<Rightarrow> uploader \<Rightarrow> uploader" where
  "load_incomplete_uploads incs u =
     fold (\<lambda>inc u. if find_job (iu_upload_id inc) u \<noteq> None then u else add_job (incomplete_job inc) u) incs u"

section \<open>Steps\<close>

text \<open>
  The server is taken to recognise a file: every \<open>init\<close> of one job object is answered with the same
  upload id \<open>uid\<close>, and the chunks it reports as complete are stored under that id.
\<close>

definition waits_for :: "uploader \<Rightarrow> nat \<Rightarrow> nat \<Rightarrow> nat \<Rightarrow> bool" where
  "waits_for u r w i =
     (r < length (up_runs u) \<and> w < length (rn_workers (up_runs u ! r)) \<and> rn_workers (up_runs u ! r) ! w = Some i)"

definition in_phase :: "uploader \<Rightarrow> nat \<Rightarrow> run_phase \<Rightarrow> bool" where
  "in_phase u r phase = (r < length (up_runs u) \<and> rn_phase (up_runs u ! r) = phase)"

definition server_answer :: "(nat \<Rightarrow> string) \<Rightarrow> uploader \<Rightarrow> nat \<Rightarrow> (string \<times> nat list) option \<Rightarrow> bool" where
  "server_answer uid u j answer =
     (case answer of None \<Rightarrow> True
      | Some (i, chunks) \<Rightarrow> i = uid j \<and> (\<forall>k \<in> set chunks. (uid j, k) \<in> set (up_stored u)))"

inductive upload_step :: "(nat \<Rightarrow> string) \<Rightarrow> uploader \<Rightarrow> uploader \<Rightarrow> bool" for uid where
    us_upload: "i \<notin> set (map jb_id (up_jobs u)) \<Longrightarrow> upload_step uid u (upload i file ty inbox u)"
  | us_init: "in_phase u r Initiating \<Longrightarrow> server_answer uid u (rn_job (up_runs u ! r)) answer \<Longrightarrow>
      upload_step uid u (init_answered r answer u)"
  | us_stored: "waits_for u r w i \<Longrightarrow> upload_step uid u (chunk_stored r w i u)"
  | us_failed: "waits_for u r w i \<Longrightarrow> upload_step uid u (chunk_failed r w i message u)"
  | us_complete: "in_phase u r Completing \<Longrightarrow> upload_step uid u (complete_answered r result message u)"
  | us_message: "in_phase u r Messaging \<Longrightarrow> upload_step uid u (message_answered r u)"
  | us_cleanup: "j \<in> set (up_cleanups u) \<Longrightarrow> upload_step uid u (cleanup j u)"
  | us_retry: "upload_step uid u (retry_upload i chosen u)"
  | us_remove: "upload_step uid u (remove_upload i u)"
  | us_pause: "upload_step uid u (pause_upload i u)"
  | us_resume: "upload_step uid u (resume_upload i u)"
  | us_pause_all: "upload_step uid u (pause_all u)"
  | us_resume_all: "upload_step uid u (resume_all u)"
  | us_load: "upload_step uid u (load_incomplete_uploads incs u)"

inductive upload_reachable :: "(nat \<Rightarrow> string) \<Rightarrow> uploader \<Rightarrow> bool" for uid where
    upload_start: "upload_reachable uid empty_uploader"
  | upload_next: "upload_reachable uid u \<Longrightarrow> upload_step uid u u' \<Longrightarrow> upload_reachable uid u'"

section \<open>The invariant\<close>

definition live_runs :: "uploader \<Rightarrow> nat" where
  "live_runs u = length (filter (\<lambda>run. rn_phase run \<noteq> Finished) (up_runs u))"

definition has_chunk :: "uploader \<Rightarrow> string \<Rightarrow> nat \<Rightarrow> bool" where
  "has_chunk u i k = ((i, k) \<in> set (up_stored u))"

text \<open>
  What a run knows: it speaks of the upload of its job; while it works, every index it has taken is stored
  or being sent, and what the job holds as complete is stored; and once it asks the server to put the file
  together, every chunk is stored.
\<close>

definition run_ok :: "(nat \<Rightarrow> string) \<Rightarrow> uploader \<Rightarrow> upload_run \<Rightarrow> bool" where
  "run_ok uid u run =
     (rn_job run < length (up_jobs u)
      \<and> (rn_phase run \<in> {Working, Completing, Messaging} \<or> rn_workers run \<noteq> [] \<longrightarrow> rn_upload_id run = uid (rn_job run))
      \<and> (rn_phase run = Working \<longrightarrow>
          (\<forall>k \<in> set (jb_completed (up_jobs u ! rn_job run)). has_chunk u (uid (rn_job run)) k)
          \<and> (\<forall>k < rn_next run. k < jb_total (up_jobs u ! rn_job run) \<longrightarrow>
              has_chunk u (uid (rn_job run)) k \<or> Some k \<in> set (rn_workers run)))
      \<and> (rn_phase run \<in> {Completing, Messaging} \<longrightarrow>
          (\<forall>k < jb_total (up_jobs u ! rn_job run). has_chunk u (uid (rn_job run)) k)))"

definition uploader_ok :: "(nat \<Rightarrow> string) \<Rightarrow> uploader \<Rightarrow> bool" where
  "uploader_ok uid u =
     (up_active u = live_runs u \<and> up_active u \<le> max_concurrent_uploads
      \<and> (\<forall>j \<in> set (up_queue u). j < length (up_jobs u))
      \<and> (\<forall>run \<in> set (up_runs u). run_ok uid u run))"

text \<open>Changes that leave every run as good as it was.\<close>

definition keeps_plan :: "(nat \<Rightarrow> string) \<Rightarrow> uploader \<Rightarrow> uploader \<Rightarrow> bool" where
  "keeps_plan uid u u' =
     (length (up_jobs u) \<le> length (up_jobs u') \<and> set (up_stored u) \<subseteq> set (up_stored u')
      \<and> (\<forall>j < length (up_jobs u). jb_total (up_jobs u' ! j) = jb_total (up_jobs u ! j)
          \<and> (\<forall>k \<in> set (jb_completed (up_jobs u' ! j)). k \<in> set (jb_completed (up_jobs u ! j)) \<or> has_chunk u' (uid j) k)))"

lemma run_ok_keeps:
  assumes "run_ok uid u run" "keeps_plan uid u u'"
  shows "run_ok uid u' run"
proof -
  have j: "rn_job run < length (up_jobs u)" using assms(1) by (simp add: run_ok_def)
  have t: "jb_total (up_jobs u' ! rn_job run) = jb_total (up_jobs u ! rn_job run)"
    using assms(2) j by (simp add: keeps_plan_def)
  have d: "k \<in> set (jb_completed (up_jobs u ! rn_job run)) \<or> has_chunk u' (uid (rn_job run)) k"
      if "k \<in> set (jb_completed (up_jobs u' ! rn_job run))" for k
    using assms(2) j that by (simp_all add: keeps_plan_def)
  have l: "rn_job run < length (up_jobs u')" using j assms(2) by (simp add: keeps_plan_def)
  have mono: "has_chunk u i k \<Longrightarrow> has_chunk u' i k" for i k
    using assms(2) by (auto simp: keeps_plan_def has_chunk_def)
  have c: "has_chunk u' (uid (rn_job run)) k"
    if "k \<in> set (jb_completed (up_jobs u' ! rn_job run))" "rn_phase run = Working" for k
    using d [OF that(1)] that(2) assms(1) mono by (auto simp: run_ok_def)
  have n: "has_chunk u' (uid (rn_job run)) k \<or> Some k \<in> set (rn_workers run)"
    if "rn_phase run = Working" "k < rn_next run" "k < jb_total (up_jobs u ! rn_job run)" for k
    using assms(1) that mono by (auto simp: run_ok_def)
  have f: "has_chunk u' (uid (rn_job run)) k"
    if "rn_phase run \<in> {Completing, Messaging}" "k < jb_total (up_jobs u ! rn_job run)" for k
    using assms(1) that mono by (auto simp: run_ok_def)
  have i: "rn_phase run \<in> {Working, Completing, Messaging} \<or> rn_workers run \<noteq> [] \<longrightarrow> rn_upload_id run = uid (rn_job run)"
    using assms(1) by (simp add: run_ok_def)
  show ?thesis unfolding run_ok_def t using l c n f i by blast
qed

lemma keeps_refl [simp]: "keeps_plan uid u u"
  by (simp add: keeps_plan_def)

lemma keeps_trans:
  assumes "keeps_plan uid u v" "keeps_plan uid v w"
  shows "keeps_plan uid u w"
proof -
  have mono: "has_chunk v i k \<Longrightarrow> has_chunk w i k" for i k
    using assms(2) by (auto simp: keeps_plan_def has_chunk_def)
  show ?thesis unfolding keeps_plan_def
  proof (intro conjI allI impI ballI)
    fix j k assume j: "j < length (up_jobs u)" and k: "k \<in> set (jb_completed (up_jobs w ! j))"
    from j assms(1) have "j < length (up_jobs v)" by (simp add: keeps_plan_def)
    with k assms(2) have "k \<in> set (jb_completed (up_jobs v ! j)) \<or> has_chunk w (uid j) k"
      by (simp add: keeps_plan_def)
    with j assms(1) mono show "k \<in> set (jb_completed (up_jobs u ! j)) \<or> has_chunk w (uid j) k"
      unfolding keeps_plan_def by blast
  qed (use assms in \<open>auto simp: keeps_plan_def\<close>)
qed

lemma set_job_fields [simp]:
  "up_runs (set_job j f u) = up_runs u" "up_active (set_job j f u) = up_active u"
  "up_queue (set_job j f u) = up_queue u" "up_stored (set_job j f u) = up_stored u"
  "length (up_jobs (set_job j f u)) = length (up_jobs u)"
  "up_resolvers (set_job j f u) = up_resolvers u" "up_settled (set_job j f u) = up_settled u"
  "up_jobs (set_job j f u) ! i = (if i = j \<and> i < length (up_jobs u) then f (up_jobs u ! i) else up_jobs u ! i)"
  by (cases "j < length (up_jobs u)"; auto simp: set_job_def nth_list_update list_update_beyond not_less)+

lemma set_run_fields [simp]:
  "up_jobs (set_run r f u) = up_jobs u" "up_active (set_run r f u) = up_active u"
  "up_queue (set_run r f u) = up_queue u" "up_stored (set_run r f u) = up_stored u"
  "length (up_runs (set_run r f u)) = length (up_runs u)"
  "up_runs (set_run r f u) ! i = (if i = r \<and> i < length (up_runs u) then f (up_runs u ! i) else up_runs u ! i)"
  by (cases "r < length (up_runs u)"; auto simp: set_run_def nth_list_update list_update_beyond not_less)+

lemma send_fields [simp]:
  "up_jobs (send q u) = up_jobs u" "up_runs (send q u) = up_runs u" "up_active (send q u) = up_active u"
  "up_queue (send q u) = up_queue u" "up_stored (send q u) = up_stored u"
  by (simp_all add: send_def)

lemma keeps_set_job:
  assumes "\<And>job. jb_total (f job) = jb_total job"
    and "\<And>job k. k \<in> set (jb_completed (f job)) \<Longrightarrow> k \<in> set (jb_completed job) \<or> has_chunk u (uid j) k"
  shows "keeps_plan uid u (set_job j f u)"
  using assms by (auto simp: keeps_plan_def has_chunk_def)

lemma ok_frame:
  assumes "uploader_ok uid u" "keeps_plan uid u u'"
    and "up_runs u' = up_runs u" "up_active u' = up_active u" "\<forall>j \<in> set (up_queue u'). j < length (up_jobs u')"
  shows "uploader_ok uid u'"
  using assms run_ok_keeps [of uid u _ u'] by (auto simp: uploader_ok_def live_runs_def)

lemma queue_valid: "uploader_ok uid u \<Longrightarrow> \<forall>j \<in> set (up_queue u). j < length (up_jobs u)"
  by (simp add: uploader_ok_def)

lemma ok_set_job:
  assumes "uploader_ok uid u" "\<And>job. jb_total (f job) = jb_total job"
    and "\<And>job k. k \<in> set (jb_completed (f job)) \<Longrightarrow> k \<in> set (jb_completed job) \<or> has_chunk u (uid j) k"
  shows "uploader_ok uid (set_job j f u)"
proof (rule ok_frame [OF assms(1) keeps_set_job])
  show "\<forall>i \<in> set (up_queue (set_job j f u)). i < length (up_jobs (set_job j f u))"
    using queue_valid [OF assms(1)] by simp
qed (use assms(2,3) in auto)

lemma ok_fail_job [simp]: "uploader_ok uid u \<Longrightarrow> uploader_ok uid (fail_job j m u)"
proof -
  assume u: "uploader_ok uid u"
  have "uploader_ok uid (set_job j (\<lambda>job. job\<lparr>jb_status := Errored, jb_error := Some m\<rparr>) u)" (is "uploader_ok uid ?u")
    by (rule ok_set_job [OF u]) auto
  moreover have "uploader_ok uid (?u\<lparr>up_settled := x\<rparr>)" for x
  proof (rule ok_frame [OF calculation])
    show "\<forall>i \<in> set (up_queue (?u\<lparr>up_settled := x\<rparr>)). i < length (up_jobs (?u\<lparr>up_settled := x\<rparr>))"
      using queue_valid [OF u] by simp
  qed (auto simp: keeps_plan_def)
  ultimately show ?thesis by (simp add: fail_job_def Let_def)
qed

lemma fail_job_fields [simp]:
  "up_runs (fail_job j m u) = up_runs u" "up_active (fail_job j m u) = up_active u"
  "up_queue (fail_job j m u) = up_queue u" "up_stored (fail_job j m u) = up_stored u"
  "length (up_jobs (fail_job j m u)) = length (up_jobs u)"
  by (auto simp: fail_job_def Let_def)

lemma ok_start_run:
  assumes "uploader_ok uid u" "up_active u < max_concurrent_uploads" "j < length (up_jobs u)"
  shows "uploader_ok uid (start_run j file u)"
proof -
  let ?u = "start_run j file u"
  have jobs: "up_jobs ?u = (up_jobs u)[j := (up_jobs u ! j)\<lparr>jb_status := Initializing\<rparr>]"
    and runs: "up_runs ?u = up_runs u @ [\<lparr>rn_job = j, rn_phase = Initiating, rn_upload_id = [], rn_next = 0,
      rn_workers = [], rn_result = JUndef\<rparr>]"
    and rest: "up_active ?u = Suc (up_active u)" "up_queue ?u = up_queue u" "up_stored ?u = up_stored u"
    by (simp_all add: start_run_def Let_def set_job_def)
  have k: "keeps_plan uid u ?u" using assms(3) by (auto simp: keeps_plan_def jobs rest nth_list_update)
  have "run_ok uid ?u run" if "run \<in> set (up_runs u)" for run
    by (rule run_ok_keeps [OF _ k]) (use assms that in \<open>simp add: uploader_ok_def\<close>)
  moreover have "run_ok uid ?u (last (up_runs ?u))"
    using assms(3) by (simp add: run_ok_def runs jobs)
  ultimately show ?thesis using assms
    by (auto simp: uploader_ok_def runs rest jobs live_runs_def)
qed

lemma next_queued_member: "next_queued u = Some j \<Longrightarrow> j \<in> set (up_queue u) \<and> job_status u j = Queued"
  by (auto simp: next_queued_def find_Some_iff)

lemma ok_process_fuel: "uploader_ok uid u \<Longrightarrow> uploader_ok uid (process_fuel n u)"
proof (induction n arbitrary: u)
  case (Suc n)
  show ?case
  proof (cases "next_queued u")
    case (Some j)
    with Suc.prems have "j < length (up_jobs u)" by (auto simp: uploader_ok_def dest!: next_queued_member)
    then have "uploader_ok uid (start_run j f u)" if "\<not> max_concurrent_uploads \<le> up_active u" for f
      using Suc.prems that by (simp add: ok_start_run)
    then show ?thesis using Suc Some by (simp split: option.split)
  next
    case None
    then show ?thesis using Suc.prems by simp
  qed
qed simp

lemma ok_process_queue: "uploader_ok uid u \<Longrightarrow> uploader_ok uid (process_queue u)"
  unfolding process_queue_def by (rule ok_process_fuel)

subsection \<open>Runs\<close>

lemma length_filter_update:
  "r < length xs \<Longrightarrow> length (filter P (xs[r := x])) + (if P (xs ! r) then 1 else 0)
     = length (filter P xs) + (if P x then 1 else 0)"
proof (induction xs arbitrary: r)
  case (Cons y xs)
  show ?case
  proof (cases r)
    case (Suc k)
    with Cons.prems Cons.IH [of k] show ?thesis by (auto split: if_splits)
  qed simp
qed simp

lemma run_ok_of: "uploader_ok uid u \<Longrightarrow> r < length (up_runs u) \<Longrightarrow> run_ok uid u (up_runs u ! r)"
  by (simp add: uploader_ok_def)

lemma run_ok_cong: "up_jobs u' = up_jobs u \<Longrightarrow> up_stored u' = up_stored u \<Longrightarrow> run_ok uid u' = run_ok uid u"
  by (simp add: run_ok_def has_chunk_def fun_eq_iff)

lemma all_update: "\<forall>x \<in> set xs. P x \<Longrightarrow> P y \<Longrightarrow> \<forall>x \<in> set (xs[r := y]). P x"
  using set_update_subset_insert [of xs r y] by blast

lemma ok_set_run:
  assumes "uploader_ok uid u" "r < length (up_runs u)"
    and "(rn_phase (f (up_runs u ! r)) = Finished) = (rn_phase (up_runs u ! r) = Finished)"
    and "run_ok uid u (f (up_runs u ! r))"
  shows "uploader_ok uid (set_run r f u)"
proof -
  have "live_runs (set_run r f u) = live_runs u"
    using length_filter_update [OF assms(2), of "\<lambda>run. rn_phase run \<noteq> Finished" "f (up_runs u ! r)"] assms(3)
    by (auto simp: live_runs_def set_run_def split: if_splits)
  moreover have "\<forall>run \<in> set (up_runs (set_run r f u)). run_ok uid (set_run r f u) run"
  proof -
    have "\<forall>run \<in> set (up_runs u). run_ok uid u run" using assms(1) by (simp add: uploader_ok_def)
    from all_update [OF this assms(4)] show ?thesis
      unfolding run_ok_cong [OF set_run_fields(1) set_run_fields(4)] by (simp add: set_run_def)
  qed
  ultimately show ?thesis using assms(1) by (simp add: uploader_ok_def)
qed

lemma ok_ignores [simp]:
  "uploader_ok uid (send q u) = uploader_ok uid u"
  "uploader_ok uid (u\<lparr>up_cleanups := a\<rparr>) = uploader_ok uid u"
  "uploader_ok uid (u\<lparr>up_settled := b\<rparr>) = uploader_ok uid u"
  "uploader_ok uid (u\<lparr>up_resolvers := c\<rparr>) = uploader_ok uid u"
  by (simp_all add: uploader_ok_def live_runs_def run_ok_def has_chunk_def send_def)

text \<open>A run may end whatever it knew of its chunks.\<close>

lemma ok_finish_changed:
  assumes ok: "uploader_ok uid u" and r: "r < length (up_runs u)" and live: "rn_phase (up_runs u ! r) \<noteq> Finished"
    and g: "\<And>run. rn_phase (g run) = rn_phase run" "\<And>run. rn_job (g run) = rn_job run"
      "\<And>run. rn_upload_id (g run) = rn_upload_id run" "\<And>run. rn_workers (g run) \<noteq> [] \<Longrightarrow> rn_workers run \<noteq> []"
  shows "uploader_ok uid (finish_run r (set_run r g u))"
proof -
  let ?run = "(g (up_runs u ! r))\<lparr>rn_phase := Finished\<rparr>"
  let ?u = "set_run r (\<lambda>run. run\<lparr>rn_phase := Finished\<rparr>) ((set_run r g u)\<lparr>up_active := up_active u - 1\<rparr>)"
  have runs: "up_runs ?u = (up_runs u)[r := ?run]" using r by (simp add: set_run_def)
  have "live_runs ?u = live_runs u - 1" unfolding live_runs_def runs
    using length_filter_update [OF r, of "\<lambda>run. rn_phase run \<noteq> Finished" ?run] live by simp
  moreover have "\<forall>run \<in> set (up_runs ?u). run_ok uid u run"
  proof -
    have "run_ok uid u ?run" using run_ok_of [OF ok r] g by (auto simp: run_ok_def)
    moreover have "\<forall>run \<in> set (up_runs u). run_ok uid u run" using ok by (simp add: uploader_ok_def)
    ultimately show ?thesis unfolding runs by (intro all_update)
  qed
  moreover have "run_ok uid ?u = run_ok uid u" by (rule run_ok_cong) simp_all
  moreover have "live_runs u - 1 \<le> max_concurrent_uploads" using ok unfolding uploader_ok_def by linarith
  ultimately have "uploader_ok uid ?u" using ok by (simp add: uploader_ok_def)
  then show ?thesis by (simp add: finish_run_def Let_def ok_process_queue)
qed

lemma ok_finish_run:
  assumes "uploader_ok uid u" "r < length (up_runs u)" "rn_phase (up_runs u ! r) \<noteq> Finished"
  shows "uploader_ok uid (finish_run r u)"
  using ok_finish_changed [OF assms, of "\<lambda>run. run"] by (simp add: set_run_def)

lemma ok_fail_run:
  "uploader_ok uid u \<Longrightarrow> r < length (up_runs u) \<Longrightarrow> rn_phase (up_runs u ! r) \<noteq> Finished \<Longrightarrow> uploader_ok uid (fail_run r m u)"
  by (simp add: fail_run_def ok_finish_run)

lemma ok_complete_run:
  assumes "uploader_ok uid u" "r < length (up_runs u)" "rn_phase (up_runs u ! r) \<noteq> Finished"
  shows "uploader_ok uid (complete_run r result u)"
proof -
  have "uploader_ok uid (set_job (rn_job (up_runs u ! r)) (\<lambda>job. job\<lparr>jb_status := Complete\<rparr>) u)"
    by (rule ok_set_job [OF assms(1)]) auto
  then show ?thesis using assms by (auto simp: complete_run_def Let_def intro!: ok_finish_run)
qed

subsection \<open>Workers\<close>

lemma next_chunk_spec:
  "next_chunk st n C i = (res, i') \<Longrightarrow>
     (\<forall>k < i'. k < n \<longrightarrow> k < i \<or> k \<in> set C \<or> res = Some k)
     \<and> (res = None \<and> st \<noteq> Paused \<and> st \<noteq> Errored \<longrightarrow> n \<le> i')"
proof (induction st n C i rule: next_chunk.induct)
  case (1 st n C i)
  show ?case
  proof (cases "st \<noteq> Paused \<and> st \<noteq> Errored \<and> i < n \<and> i \<in> set C")
    case True
    then have "next_chunk st n C (Suc i) = (res, i')" using "1.prems" by (subst (asm) next_chunk.simps) simp
    from "1.IH" [OF _ _ _ this] True show ?thesis by (auto simp: less_Suc_eq)
  next
    case False
    then show ?thesis using "1.prems" by (subst (asm) next_chunk.simps) (auto simp: less_Suc_eq split: if_splits)
  qed
qed

lemma worker_turn_fields:
  assumes "next_chunk (job_status u j) (jb_total (up_jobs u ! j)) (jb_completed (up_jobs u ! j)) (rn_next (up_runs u ! r))
      = (res, n)" "j = rn_job (up_runs u ! r)"
  shows "worker_turn r w u =
      (let u1 = set_run r (\<lambda>run. run\<lparr>rn_next := n, rn_workers := (rn_workers run)[w := res]\<rparr>) u in
       case res of None \<Rightarrow> u1
       | Some i \<Rightarrow> send (ChunkRequest (rn_upload_id (up_runs u ! r)) i (chunk_bytes (up_jobs u ! j) i))
           (set_job j (\<lambda>job. job\<lparr>jb_active := jb_active job @ [(i, ChunkUploading)]\<rparr>) u1))"
  using assms by (simp add: worker_turn_def job_status_def Let_def split: option.split)

lemma ok_worker_turn:
  assumes ok: "uploader_ok uid u" and r: "r < length (up_runs u)"
    and slot: "\<And>i. rn_workers (up_runs u ! r) ! w = Some i \<Longrightarrow> has_chunk u (uid (rn_job (up_runs u ! r))) i"
    and w: "w < length (rn_workers (up_runs u ! r))"
  shows "uploader_ok uid (worker_turn r w u)"
proof -
  define run where "run = up_runs u ! r"
  define j where "j = rn_job run"
  obtain res n where nc: "next_chunk (job_status u j) (jb_total (up_jobs u ! j)) (jb_completed (up_jobs u ! j)) (rn_next run)
      = (res, n)" by fastforce
  note spec = next_chunk_spec [OF nc]
  have run: "run_ok uid u run" using run_ok_of [OF ok r] by (simp add: run_def)
  let ?f = "\<lambda>run. run\<lparr>rn_next := n, rn_workers := (rn_workers run)[w := res]\<rparr>"
  have taken: "has_chunk u (uid j) k \<or> Some k \<in> set ((rn_workers run)[w := res])"
    if "rn_phase run = Working" "k < n" "k < jb_total (up_jobs u ! j)" for k
  proof -
    from spec that have "k < rn_next run \<or> k \<in> set (jb_completed (up_jobs u ! j)) \<or> res = Some k" by blast
    then have "has_chunk u (uid j) k \<or> Some k \<in> set (rn_workers run) \<or> res = Some k"
      using run that by (auto simp: run_ok_def j_def)
    moreover have "Some k \<in> set ((rn_workers run)[w := res])"
      if "Some k \<in> set (rn_workers run)" "rn_workers run ! w \<noteq> Some k"
    proof -
      from that(1) obtain v where "v < length (rn_workers run)" "rn_workers run ! v = Some k"
        by (auto simp: in_set_conv_nth)
      with that(2) show ?thesis by (metis length_list_update nth_list_update_neq nth_mem)
    qed
    moreover have "Some k \<in> set ((rn_workers run)[w := res])" if "res = Some k"
      using w that by (auto simp: run_def set_update_memI)
    moreover have "rn_workers run ! w = Some k \<Longrightarrow> has_chunk u (uid j) k"
      using slot by (simp add: run_def j_def)
    ultimately show ?thesis by blast
  qed
  have "run_ok uid u (?f run)" using run taken w
    by (auto simp: run_ok_def j_def run_def)
  then have "uploader_ok uid (set_run r ?f u)"
    by (intro ok_set_run [OF ok r]) (simp_all add: run_def)
  then show ?thesis unfolding worker_turn_fields [OF nc [unfolded run_def] j_def [unfolded run_def]] Let_def
    by (auto split: option.split intro!: ok_set_job)
qed

subsection \<open>Joining the workers\<close>

lemma worker_turn_keeps [simp]:
  "length (up_runs (worker_turn r w u)) = length (up_runs u)"
  "up_stored (worker_turn r w u) = up_stored u"
  "length (up_jobs (worker_turn r w u)) = length (up_jobs u)"
  "jb_total (up_jobs (worker_turn r w u) ! j) = jb_total (up_jobs u ! j)"
  "jb_completed (up_jobs (worker_turn r w u) ! j) = jb_completed (up_jobs u ! j)"
  "job_status (worker_turn r w u) j = job_status u j"
  by (auto simp: worker_turn_def Let_def job_status_def split: prod.split option.split)

lemma worker_turn_run:
  assumes "r < length (up_runs u)"
  shows "rn_phase (up_runs (worker_turn r w u) ! r) = rn_phase (up_runs u ! r)"
    and "rn_job (up_runs (worker_turn r w u) ! r) = rn_job (up_runs u ! r)"
    and "rn_upload_id (up_runs (worker_turn r w u) ! r) = rn_upload_id (up_runs u ! r)"
    and "\<exists>x. rn_workers (up_runs (worker_turn r w u) ! r) = (rn_workers (up_runs u ! r))[w := x]"
  using assms by (auto simp: worker_turn_def Let_def split: prod.split option.split)

text \<open>The worker that ends last has found the job stopped or no index left.\<close>

lemma last_turn:
  assumes r: "r < length (up_runs u)" and w: "w < length (rn_workers (up_runs u ! r))"
    and ended: "workers_done r (worker_turn r w u)"
    and status: "job_status u j \<noteq> Paused" "job_status u j \<noteq> Errored" and j: "j = rn_job (up_runs u ! r)"
  shows "jb_total (up_jobs u ! j) \<le> rn_next (up_runs (worker_turn r w u) ! r)"
proof -
  obtain res n where nc: "next_chunk (job_status u j) (jb_total (up_jobs u ! j)) (jb_completed (up_jobs u ! j))
      (rn_next (up_runs u ! r)) = (res, n)" by fastforce
  note turn = worker_turn_fields [OF nc j, of w]
  have ws: "rn_workers (up_runs (worker_turn r w u) ! r) = (rn_workers (up_runs u ! r))[w := res]"
    and nx: "rn_next (up_runs (worker_turn r w u) ! r) = n"
    using r by (simp_all add: turn Let_def split: option.split)
  have "rn_workers (up_runs (worker_turn r w u) ! r) ! w = None"
    using ended w by (auto simp: workers_done_def list_all_length ws)
  then have "res = None" unfolding ws using w by (simp only: nth_list_update_eq)
  with next_chunk_spec [OF nc] status show ?thesis by (simp add: nx)
qed

lemma ok_join:
  assumes ok: "uploader_ok uid u" and r: "r < length (up_runs u)"
    and last: "workers_done r u \<Longrightarrow> job_status u (rn_job (up_runs u ! r)) \<notin> {Paused, Errored} \<Longrightarrow>
      jb_total (up_jobs u ! rn_job (up_runs u ! r)) \<le> rn_next (up_runs u ! r)"
  shows "uploader_ok uid (join_workers r u)"
proof (cases "workers_done r u")
  case True
  define j where "j = rn_job (up_runs u ! r)"
  have phase: "rn_phase (up_runs u ! r) = Working" and ended: "Some k \<notin> set (rn_workers (up_runs u ! r))" for k
    using True by (auto simp: workers_done_def list_all_iff)
  show ?thesis
  proof (cases "job_status u j \<in> {Paused, Errored}")
    case True
    then show ?thesis using \<open>workers_done r u\<close> phase ok r
      by (auto simp: join_workers_def j_def Let_def intro: ok_finish_run ok_fail_run)
  next
    case False
    have run: "run_ok uid u (up_runs u ! r)" using run_ok_of [OF ok r] .
    have "has_chunk u (uid j) k" if "k < jb_total (up_jobs u ! j)" for k
      using run phase ended [of k] that last [OF \<open>workers_done r u\<close>] False
      by (auto simp: run_ok_def j_def dest: order_less_le_trans)
    then have "run_ok uid u ((up_runs u ! r)\<lparr>rn_phase := Completing\<rparr>)"
      using run phase by (simp add: run_ok_def j_def)
    then have "uploader_ok uid (set_run r (\<lambda>run. run\<lparr>rn_phase := Completing\<rparr>) u)"
      by (intro ok_set_run [OF ok r]) (simp_all add: phase)
    then have "uploader_ok uid (set_job j (\<lambda>job. job\<lparr>jb_status := Rebuilding\<rparr>)
        (set_run r (\<lambda>run. run\<lparr>rn_phase := Completing\<rparr>) u))"
      by (rule ok_set_job) auto
    then show ?thesis using \<open>workers_done r u\<close> False by (simp add: join_workers_def j_def Let_def)
  qed
qed (use ok in \<open>simp add: join_workers_def\<close>)

lemma ok_turn_join:
  assumes ok: "uploader_ok uid u" and r: "r < length (up_runs u)" and w: "w < length (rn_workers (up_runs u ! r))"
    and slot: "\<And>i. rn_workers (up_runs u ! r) ! w = Some i \<Longrightarrow> has_chunk u (uid (rn_job (up_runs u ! r))) i"
  shows "uploader_ok uid (join_workers r (worker_turn r w u))"
proof (rule ok_join)
  show "uploader_ok uid (worker_turn r w u)" by (rule ok_worker_turn [OF ok r slot w])
qed (use r w in \<open>auto simp: worker_turn_run intro: last_turn\<close>)

subsection \<open>Answers\<close>

lemma ok_chunk_stored:
  assumes ok: "uploader_ok uid u" and w: "waits_for u r w i"
  shows "uploader_ok uid (chunk_stored r w i u)"
proof -
  define run where "run = up_runs u ! r"
  define j where "j = rn_job run"
  let ?v = "u\<lparr>up_stored := up_stored u @ [(rn_upload_id run, i)]\<rparr>"
  have r: "r < length (up_runs u)" and slot: "w < length (rn_workers run)" "rn_workers run ! w = Some i"
    using w by (auto simp: waits_for_def run_def)
  then have "rn_workers run \<noteq> []" by auto
  then have id: "rn_upload_id run = uid j" using run_ok_of [OF ok r] by (simp add: run_ok_def run_def j_def)
  have v: "uploader_ok uid ?v"
    by (rule ok_frame [OF ok]) (use queue_valid [OF ok] in \<open>auto simp: keeps_plan_def\<close>)
  have st: "has_chunk ?v (uid j) i" by (simp add: has_chunk_def id)
  define x where "x = (if job_status ?v j = Paused then set_job j (drop_active i) ?v
    else set_job j (\<lambda>job. (drop_active i job)\<lparr>jb_completed := List.insert i (jb_completed job),
      jb_uploaded := Suc (jb_uploaded job)\<rparr>) ?v)"
  have eq: "chunk_stored r w i u = join_workers r (worker_turn r w x)"
    by (simp add: chunk_stored_def Let_def x_def j_def run_def)
  have ok': "uploader_ok uid x" unfolding x_def
    by (auto simp: drop_active_def split: if_splits intro!: ok_set_job [OF v]) (use st in \<open>auto split: if_splits\<close>)
  have same: "up_runs x = up_runs u" by (simp add: x_def)
  have stx: "has_chunk x (uid j) i" using st by (simp add: x_def has_chunk_def)
  show ?thesis unfolding eq
    by (rule ok_turn_join [OF ok']) (use r slot stx in \<open>simp_all add: same run_def j_def\<close>)
qed

lemma set_job_run: "set_job j f (set_run r g u) = set_run r g (set_job j f u)"
  by (simp add: set_job_def set_run_def)

lemma fail_job_run: "fail_job j m (set_run r g u) = set_run r g (fail_job j m u)"
  by (simp add: fail_job_def Let_def set_job_run) (simp add: set_run_def set_job_def)

lemma ok_chunk_failed:
  assumes ok: "uploader_ok uid u" and w: "waits_for u r w i"
  shows "uploader_ok uid (chunk_failed r w i m u)"
proof -
  define j where "j = rn_job (up_runs u ! r)"
  let ?g = "\<lambda>run. run\<lparr>rn_workers := (rn_workers run)[w := None]\<rparr>"
  have r: "r < length (up_runs u)" using w by (simp add: waits_for_def)
  define v where "v = set_job j (mark_error i) u"
  have v: "uploader_ok uid v" unfolding v_def by (rule ok_set_job [OF ok]) (auto simp: mark_error_def)
  have runs: "up_runs v = up_runs u" by (simp add: v_def)
  have eq: "chunk_failed r w i m u = (if rn_phase (up_runs u ! r) = Working
      then finish_run r (set_run r ?g (fail_job j m v)) else set_run r ?g v)"
    using r by (simp add: chunk_failed_def Let_def fail_run_def set_job_run fail_job_run v_def j_def)
  show ?thesis
  proof (cases "rn_phase (up_runs u ! r) = Working")
    case True
    then show ?thesis using r ok_finish_changed [where r = r and g = ?g, OF ok_fail_job [OF v]] by (simp add: eq runs)
  next
    case False
    have "run_ok uid v (up_runs u ! r)" using run_ok_of [OF v, of r] r by (simp add: runs)
    with False have "uploader_ok uid (set_run r ?g v)"
      using r by (intro ok_set_run [OF v]) (auto simp: runs run_ok_def)
    with False show ?thesis by (simp add: eq)
  qed
qed

lemma ok_init_answered:
  assumes ok: "uploader_ok uid u" and ph: "in_phase u r Initiating"
    and srv: "server_answer uid u (rn_job (up_runs u ! r)) answer"
  shows "uploader_ok uid (init_answered r answer u)"
proof (cases answer)
  case None
  then show ?thesis using ok ph by (simp add: init_answered_def in_phase_def ok_fail_run)
next
  case (Some a)
  obtain i chunks where a: "a = (i, chunks)" by fastforce
  define j where "j = rn_job (up_runs u ! r)"
  have r: "r < length (up_runs u)" and live: "rn_phase (up_runs u ! r) = Initiating" using ph by (auto simp: in_phase_def)
  have i: "i = uid j" and ch: "\<forall>k \<in> set chunks. has_chunk u (uid j) k"
    using srv Some a by (auto simp: server_answer_def j_def has_chunk_def)
  define v where "v = set_job j (\<lambda>job. job\<lparr>jb_completed := remdups chunks, jb_uploaded := length chunks,
      jb_active := [], jb_status := Uploading\<rparr>) u"
  have v: "uploader_ok uid v" unfolding v_def by (rule ok_set_job [OF ok]) (use ch in auto)
  have vr: "up_runs v = up_runs u" by (simp add: v_def)
  define x where "x = set_run r (\<lambda>run. run\<lparr>rn_phase := Working, rn_upload_id := i, rn_next := 0,
      rn_workers := replicate worker_count None\<rparr>) v"
  have jl: "j < length (up_jobs u)" using run_ok_of [OF ok r] by (simp add: run_ok_def j_def)
  have x: "uploader_ok uid x" unfolding x_def
    by (rule ok_set_run [OF v]) (use r live jl ch in \<open>auto simp: vr run_ok_def i j_def v_def has_chunk_def\<close>)
  have xr: "r < length (up_runs x)" "rn_workers (up_runs x ! r) = replicate worker_count None"
    using r by (simp_all add: x_def vr)
  have turns: "uploader_ok uid (fold (worker_turn r) [0..<n] x)
      \<and> r < length (up_runs (fold (worker_turn r) [0..<n] x))
      \<and> length (rn_workers (up_runs (fold (worker_turn r) [0..<n] x) ! r)) = worker_count
      \<and> (\<forall>w \<ge> n. w < worker_count \<longrightarrow> rn_workers (up_runs (fold (worker_turn r) [0..<n] x) ! r) ! w = None)"
    if "n \<le> worker_count" for n using that
  proof (induction n)
    case 0
    then show ?case using x xr by simp
  next
    case (Suc n)
    let ?y = "fold (worker_turn r) [0..<n] x"
    from Suc have y: "uploader_ok uid ?y" "r < length (up_runs ?y)" "length (rn_workers (up_runs ?y ! r)) = worker_count"
      "rn_workers (up_runs ?y ! r) ! n = None" "\<forall>w \<ge> n. w < worker_count \<longrightarrow> rn_workers (up_runs ?y ! r) ! w = None" by auto
    have "uploader_ok uid (worker_turn r n ?y)" by (rule ok_worker_turn) (use y Suc.prems in auto)
    moreover obtain res where "rn_workers (up_runs (worker_turn r n ?y) ! r) = (rn_workers (up_runs ?y ! r))[n := res]"
      using worker_turn_run(4) [OF y(2)] by blast
    ultimately show ?case using y by simp
  qed
  have "init_answered r answer u = join_workers r (worker_turn r 3 (fold (worker_turn r) [0..<3] x))"
    by (simp add: init_answered_def Some a x_def v_def j_def Let_def worker_count_def upt_rec numeral_3_eq_3)
  moreover have "uploader_ok uid (join_workers r (worker_turn r 3 (fold (worker_turn r) [0..<3] x)))"
    by (rule ok_turn_join) (use turns [of 3] in \<open>auto simp: worker_count_def\<close>)
  ultimately show ?thesis by simp
qed

lemma ok_complete_answered:
  assumes ok: "uploader_ok uid u" and ph: "in_phase u r Completing"
  shows "uploader_ok uid (complete_answered r answer m u)"
proof -
  have r: "r < length (up_runs u)" and live: "rn_phase (up_runs u ! r) = Completing" using ph by (auto simp: in_phase_def)
  have "uploader_ok uid (fail_run r m u)" "uploader_ok uid (complete_run r v u)" for v
    using r live by (simp_all add: ok_fail_run [OF ok] ok_complete_run [OF ok])
  moreover have "uploader_ok uid (set_run r (\<lambda>run. run\<lparr>rn_phase := Messaging, rn_result := v\<rparr>) u)" for v
    using run_ok_of [OF ok r] live by (intro ok_set_run [OF ok r]) (simp_all add: run_ok_def)
  ultimately show ?thesis
    by (auto simp: complete_answered_def Let_def split: option.splits list.splits)
qed

lemma ok_add_job:
  assumes "uploader_ok uid u"
  shows "uploader_ok uid (add_job job u)"
proof (rule ok_frame [OF assms])
  show "keeps_plan uid u (add_job job u)"
    by (auto simp: keeps_plan_def add_job_def nth_append has_chunk_def)
  show "\<forall>j \<in> set (up_queue (add_job job u)). j < length (up_jobs (add_job job u))"
    using queue_valid [OF assms] by (auto simp: add_job_def)
qed (simp_all add: add_job_def)

lemma ok_without_id:
  assumes "uploader_ok uid u"
  shows "uploader_ok uid (without_id i u)"
  by (rule ok_frame [OF assms]) (use queue_valid [OF assms] in \<open>auto simp: without_id_def keeps_plan_def\<close>)

lemma ok_status:
  "uploader_ok uid u \<Longrightarrow> uploader_ok uid (set_job j (\<lambda>job. job\<lparr>jb_status := st\<rparr>) u)"
  "uploader_ok uid u \<Longrightarrow> uploader_ok uid (set_job j (\<lambda>job. job\<lparr>jb_status := st, jb_error := e\<rparr>) u)"
  "uploader_ok uid u \<Longrightarrow> uploader_ok uid (set_job j (\<lambda>job. job\<lparr>jb_file := f\<rparr>) u)"
  by (auto intro!: ok_set_job)

lemma ok_do_retry: "uploader_ok uid u \<Longrightarrow> uploader_ok uid (do_retry j u)"
  by (simp add: do_retry_def ok_process_queue ok_status)

lemma fold_keeps: "(\<And>x u. P u \<Longrightarrow> P (f x u)) \<Longrightarrow> P u \<Longrightarrow> P (fold f xs u)"
  by (induction xs arbitrary: u) auto

lemma ok_user_actions:
  assumes "uploader_ok uid u"
  shows "uploader_ok uid (upload i file ty inbox u)" "uploader_ok uid (retry_upload i chosen u)"
    "uploader_ok uid (remove_upload i u)" "uploader_ok uid (pause_upload i u)" "uploader_ok uid (resume_upload i u)"
    "uploader_ok uid (pause_all u)" "uploader_ok uid (resume_all u)" "uploader_ok uid (load_incomplete_uploads incs u)"
    "uploader_ok uid (cleanup j u)"
proof -
  note ok [simp] = assms ok_status ok_do_retry ok_process_queue ok_add_job ok_without_id
  show "uploader_ok uid (upload i file ty inbox u)" "uploader_ok uid (remove_upload i u)" "uploader_ok uid (cleanup j u)"
    by (simp_all add: upload_def remove_upload_def cleanup_def)
  show "uploader_ok uid (retry_upload i chosen u)" by (simp add: retry_upload_def split: option.split)
  show "uploader_ok uid (pause_upload i u)" by (simp add: pause_upload_def split: option.split)
  show "uploader_ok uid (resume_upload i u)" by (simp add: resume_upload_def split: option.split)
  show "uploader_ok uid (pause_all u)" unfolding pause_all_def by (rule fold_keeps) simp_all
  have "uploader_ok uid (fold resume_one (up_queue u) u)"
    by (rule fold_keeps) (simp_all add: resume_one_def Let_def)
  then show "uploader_ok uid (resume_all u)" by (simp add: resume_all_def Let_def)
  show "uploader_ok uid (load_incomplete_uploads incs u)" unfolding load_incomplete_uploads_def
    by (rule fold_keeps) simp_all
qed

lemma upload_step_ok: "upload_step uid u u' \<Longrightarrow> uploader_ok uid u \<Longrightarrow> uploader_ok uid u'"
proof (induction rule: upload_step.induct)
  case (us_message u r)
  then show ?case by (simp add: message_answered_def in_phase_def ok_complete_run)
qed (simp_all add: ok_user_actions ok_init_answered ok_chunk_stored ok_chunk_failed ok_complete_answered)

lemma upload_reachable_ok: "upload_reachable uid u \<Longrightarrow> uploader_ok uid u"
proof (induction rule: upload_reachable.induct)
  case upload_start
  then show ?case by (simp add: uploader_ok_def empty_uploader_def live_runs_def)
qed (rule upload_step_ok)

section \<open>Properties\<close>

text \<open>
  One upload at a time: whatever the user does and the server answers, at most one job is between
  its start and its end, and the counter of active uploads is exactly the number of those jobs.
\<close>

lemma one_upload_at_a_time:
  assumes "upload_reachable uid u"
  shows "up_active u = live_runs u \<and> live_runs u \<le> max_concurrent_uploads"
  using upload_reachable_ok [OF assms] by (auto simp: uploader_ok_def)

text \<open>
  C5. The server is asked to put a file together only when it has it all: whenever a run has sent the
  request to complete its upload, every chunk of the job has been stored under the id of that upload,
  whatever chunks failed, whoever paused, resumed or retried the job in between, and even if workers of
  an earlier attempt were still sending.
\<close>

theorem completed_uploads_are_whole:
  assumes "upload_reachable uid u" "run \<in> set (up_runs u)" "rn_phase run \<in> {Completing, Messaging}"
    and "k < jb_total (up_jobs u ! rn_job run)"
  shows "(rn_upload_id run, k) \<in> set (up_stored u)"
  using upload_reachable_ok [OF assms(1)] assms(2-) by (auto simp: uploader_ok_def run_ok_def has_chunk_def)

lemma file_chunks_prefix: "concat (map (file_chunk c bytes) [0..<n]) = take (n * c) bytes"
proof (induction n)
  case (Suc n)
  have "file_chunk c bytes n = take c (drop (n * c) bytes)"
    by (cases "n * c + c \<le> length bytes") (auto simp: file_chunk_def Let_def min_def)
  moreover have "take (Suc n * c) bytes = take (n * c) bytes @ take c (drop (n * c) bytes)"
    by (metis add.commute mult_Suc take_add)
  ultimately show ?case using Suc by simp
qed simp

text \<open>
  The chunks of a file are the file: cut into \<open>total_chunks\<close> slices and put together again in the
  order of their indices, they give the bytes of the file, for every size including the empty file.
\<close>

lemma file_chunks_round_trip:
  assumes "0 < c"
  shows "concat (map (file_chunk c bytes) [0..<total_chunks c (length bytes)]) = bytes"
proof -
  let ?m = "length bytes + c - 1"
  have "?m div c * c + ?m mod c = ?m" "?m mod c < c" using assms by simp_all
  then have "length bytes \<le> ?m div c * c" using assms by linarith
  also have "\<dots> \<le> total_chunks c (length bytes) * c" unfolding total_chunks_def by (intro mult_le_mono1) simp
  finally have "length bytes \<le> total_chunks c (length bytes) * c" .
  then show ?thesis by (simp add: file_chunks_prefix)
qed

lemma worker_turn_sends:
  assumes "next_chunk (job_status u j) (jb_total (up_jobs u ! j)) (jb_completed (up_jobs u ! j)) (rn_next (up_runs u ! r))
      = (Some i, n)" "j = rn_job (up_runs u ! r)"
  shows "\<exists>b. ChunkRequest (rn_upload_id (up_runs u ! r)) i b \<in> set (up_sent (worker_turn r w u))"
  by (auto simp: worker_turn_fields [OF assms] Let_def send_def)

lemma worker_turn_sent: "set (up_sent u) \<subseteq> set (up_sent (worker_turn r w u))"
  by (auto simp: worker_turn_def Let_def send_def set_job_def set_run_def split: prod.split option.split)

text \<open>
  A job that is paused while its upload is being initialised does not stay paused: the answer of the
  server sets it to uploading, and its first chunk is sent all the same.
\<close>

theorem pause_while_initializing_is_lost:
  assumes "find_job i u = Some j" "job_status u j = Initializing" "in_phase u r Initiating" "rn_job (up_runs u ! r) = j"
    and "j < length (up_jobs u)" "0 < jb_total (up_jobs u ! j)"
  shows "job_status (pause_upload i u) j = Paused
    \<and> job_status (init_answered r (Some (upload_id, [])) (pause_upload i u)) j = Uploading
    \<and> (\<exists>b. ChunkRequest upload_id 0 b \<in> set (up_sent (init_answered r (Some (upload_id, [])) (pause_upload i u))))"
proof -
  define p where "p = set_job j (\<lambda>job. job\<lparr>jb_status := Paused\<rparr>) u"
  have p: "pause_upload i u = p" using assms(1,2) by (simp add: pause_upload_def may_pause_def p_def)
  have r: "r < length (up_runs u)" using assms(3) by (simp add: in_phase_def)
  define x where "x = set_run r (\<lambda>run. run\<lparr>rn_phase := Working, rn_upload_id := upload_id, rn_next := 0,
      rn_workers := replicate worker_count None\<rparr>) (set_job j (\<lambda>job. job\<lparr>jb_completed := [], jb_uploaded := 0,
      jb_active := [], jb_status := Uploading\<rparr>) p)"
  have x: "job_status x j = Uploading" "jb_total (up_jobs x ! j) = jb_total (up_jobs u ! j)" "jb_completed (up_jobs x ! j) = []"
    "up_runs x ! r = (up_runs u ! r)\<lparr>rn_phase := Working, rn_upload_id := upload_id, rn_next := 0,
      rn_workers := replicate worker_count None\<rparr>" "r < length (up_runs x)"
    using assms(5) r by (simp_all add: x_def p_def job_status_def)
  have "next_chunk Uploading (jb_total (up_jobs u ! j)) [] 0 = (Some 0, 1)"
    using assms(6) by (simp add: next_chunk.simps)
  then have nc: "next_chunk (job_status x j) (jb_total (up_jobs x ! j)) (jb_completed (up_jobs x ! j)) (rn_next (up_runs x ! r))
      = (Some 0, 1)" and jx: "j = rn_job (up_runs x ! r)"
    using assms(4) by (simp_all add: x)
  let ?y = "worker_turn r 0 x"
  have y: "rn_workers (up_runs ?y ! r) ! 0 = Some 0" "length (rn_workers (up_runs ?y ! r)) = worker_count" "r < length (up_runs ?y)"
    using x(4,5) by (simp_all add: worker_turn_fields [OF nc jx] Let_def worker_count_def)
  have more: "rn_workers (up_runs (fold (worker_turn r) ws ?y) ! r) ! 0 = Some 0
      \<and> length (rn_workers (up_runs (fold (worker_turn r) ws ?y) ! r)) = worker_count
      \<and> set (up_sent ?y) \<subseteq> set (up_sent (fold (worker_turn r) ws ?y))
      \<and> job_status (fold (worker_turn r) ws ?y) j = Uploading \<and> r < length (up_runs (fold (worker_turn r) ws ?y))"
    if "0 \<notin> set ws" for ws using that
  proof (induction ws rule: rev_induct)
    case Nil
    then show ?case using y x(1) by simp
  next
    case (snoc w ws)
    let ?z = "fold (worker_turn r) ws ?y"
    from snoc have z: "rn_workers (up_runs ?z ! r) ! 0 = Some 0" "length (rn_workers (up_runs ?z ! r)) = worker_count"
      "set (up_sent ?y) \<subseteq> set (up_sent ?z)" "job_status ?z j = Uploading" "r < length (up_runs ?z)" "w \<noteq> 0" by auto
    obtain res where "rn_workers (up_runs (worker_turn r w ?z) ! r) = (rn_workers (up_runs ?z ! r))[w := res]"
      using worker_turn_run(4) [OF z(5)] by blast
    then show ?case using z worker_turn_sent [of ?z r w] by auto
  qed
  let ?z = "fold (worker_turn r) [1..<worker_count] ?y"
  have "fold (worker_turn r) [0..<worker_count] x = ?z" by (simp add: worker_count_def upt_rec)
  moreover have "\<not> workers_done r ?z"
    using more [of "[1..<worker_count]"] unfolding workers_done_def list_all_length
    by (auto simp: worker_count_def intro!: exI [of _ "0::nat"])
  ultimately have z: "init_answered r (Some (upload_id, [])) p = ?z"
    using assms(4) by (simp add: init_answered_def Let_def x_def p_def join_workers_def)
  obtain b where "ChunkRequest upload_id 0 b \<in> set (up_sent ?y)"
    using worker_turn_sends [OF nc jx, of 0] by (auto simp: x(4))
  then show ?thesis unfolding p z using more [of "[1..<worker_count]"] assms(5) by (auto simp: p_def job_status_def)
qed

text \<open>
  A worker of an attempt that has failed goes on after the retry: its answer counts for the attempt
  that has replaced it, also when that attempt has the chunk already, so that more chunks can be counted
  as uploaded than the file has.
\<close>

lemma late_chunk_counts_again:
  assumes "waits_for u r w i" "rn_phase (up_runs u ! r) = Finished" "rn_job (up_runs u ! r) = j" "j < length (up_jobs u)"
    and "job_status u j \<noteq> Paused" "i \<in> set (jb_completed (up_jobs u ! j))"
  shows "jb_completed (up_jobs (chunk_stored r w i u) ! j) = jb_completed (up_jobs u ! j)
    \<and> jb_uploaded (up_jobs (chunk_stored r w i u) ! j) = Suc (jb_uploaded (up_jobs u ! j))"
proof -
  define x where "x = set_job j (\<lambda>job. (drop_active i job)\<lparr>jb_completed := List.insert i (jb_completed job),
      jb_uploaded := Suc (jb_uploaded job)\<rparr>) (u\<lparr>up_stored := up_stored u @ [(rn_upload_id (up_runs u ! r), i)]\<rparr>)"
  have "chunk_stored r w i u = join_workers r (worker_turn r w x)"
    using assms by (simp add: chunk_stored_def Let_def x_def job_status_def)
  moreover have "\<not> workers_done r (worker_turn r w x)"
    using assms(1,2) worker_turn_run(1) [of r x w] by (simp add: workers_done_def waits_for_def x_def)
  moreover have "jb_uploaded (up_jobs (worker_turn r w x) ! j) = jb_uploaded (up_jobs x ! j)"
    by (auto simp: worker_turn_def Let_def split: prod.split option.split)
  ultimately show ?thesis using assms(4,6) by (simp add: join_workers_def x_def drop_active_def)
qed

section \<open>Witnesses\<close>

lemma next_chunk_cases:
  "st = Paused \<or> st = Errored \<Longrightarrow> next_chunk st n C i = (None, i)"
  "st \<noteq> Paused \<Longrightarrow> st \<noteq> Errored \<Longrightarrow> n \<le> i \<Longrightarrow> next_chunk st n C i = (None, Suc i)"
  "st \<noteq> Paused \<Longrightarrow> st \<noteq> Errored \<Longrightarrow> i < n \<Longrightarrow> i \<notin> set C \<Longrightarrow> next_chunk st n C i = (Some i, Suc i)"
  by (subst next_chunk.simps; simp)+

definition sample_file :: upload_file where
  "sample_file = \<lparr>uf_name = ''f'', uf_type = ''image/png'', uf_modified = 0, uf_bytes = [7]\<rparr>"

definition sample_upload :: uploader where
  "sample_upload = upload ''j'' sample_file None None empty_uploader"

lemmas upload_eval = upload_def new_job_def add_job_def process_queue_def next_queued_def start_run_def find_job_def
  job_status_def set_job_def send_def Let_def max_concurrent_uploads_def sample_file_def empty_uploader_def

lemma sample_total: "total_chunks upload_chunk_size (Suc 0) = 1"
  by (simp add: total_chunks_def upload_chunk_size_def)

lemma sample_upload_fields:
  "up_active sample_upload = 1" "length (up_jobs sample_upload) = 1" "jb_total (up_jobs sample_upload ! 0) = 1"
  "job_status sample_upload 0 = Initializing" "find_job ''j'' sample_upload = Some 0"
  "length (up_runs sample_upload) = 1" "rn_phase (up_runs sample_upload ! 0) = Initiating"
  "rn_job (up_runs sample_upload ! 0) = 0" "jb_completed (up_jobs sample_upload ! 0) = []"
  by (simp_all add: sample_upload_def upload_eval sample_total)

lemma sample_upload_reachable: "upload_reachable uid sample_upload"
  unfolding sample_upload_def
  by (rule upload_next [OF upload_start us_upload]) (simp add: empty_uploader_def)

lemma one_upload_at_a_time_witness: "live_runs sample_upload = 1"
  using one_upload_at_a_time [OF sample_upload_reachable] by (simp add: sample_upload_fields)

lemma file_chunks_round_trip_witness:
  "concat (map (file_chunk 2 [7, 8, 9]) [0..<total_chunks 2 (Suc (Suc (Suc 0)))]) = [7, 8, 9]"
  using file_chunks_round_trip [of 2 "[7, 8, 9]"] by simp

lemma pause_while_initializing_is_lost_witness:
  "job_status (pause_upload ''j'' sample_upload) 0 = Paused
    \<and> job_status (init_answered 0 (Some (''s'', [])) (pause_upload ''j'' sample_upload)) 0 = Uploading"
  using pause_while_initializing_is_lost [of "''j''" sample_upload 0 0 "''s''"]
  by (simp add: sample_upload_fields in_phase_def)

lemma four_workers: "[0..<worker_count] = [0, 1, 2, 3]" "replicate worker_count x = [x, x, x, x]"
  by (simp_all add: worker_count_def numeral_eq_Suc)

definition sending_sample :: uploader where
  "sending_sample = init_answered 0 (Some (''s'', [])) sample_upload"

lemmas turn_eval = worker_turn_def next_chunk_cases set_run_def upload_eval

lemma sending_sample_eq:
  "sending_sample = sending_sample\<lparr>
     up_jobs := [\<lparr>jb_id = ''j'', jb_file = Some sample_file, jb_filename = ''f'', jb_size = 1, jb_total = 1,
       jb_uploaded = 0, jb_status = Uploading, jb_error = None, jb_type = media_kind ''image/png'', jb_inbox = None,
       jb_completed = [], jb_active = [(0, ChunkUploading)]\<rparr>],
     up_queue := [0], up_active := 1,
     up_runs := [\<lparr>rn_job = 0, rn_phase = Working, rn_upload_id = ''s'', rn_next = 4,
       rn_workers = [Some 0, None, None, None], rn_result = JUndef\<rparr>], up_stored := []\<rparr>"
  unfolding sending_sample_def
  apply (simp add: sample_upload_def upload_eval sample_total init_answered_def four_workers set_run_def)
  apply (simp add: turn_eval)
  apply (simp add: join_workers_def workers_done_def)
  done

definition stored_sample :: uploader where
  "stored_sample = chunk_stored 0 0 0 sending_sample"

lemma stored_sample_fields:
  "up_runs stored_sample = [\<lparr>rn_job = 0, rn_phase = Completing, rn_upload_id = ''s'', rn_next = 5,
     rn_workers = [None, None, None, None], rn_result = JUndef\<rparr>]"
  "jb_total (up_jobs stored_sample ! 0) = 1"
  unfolding stored_sample_def
   apply (subst sending_sample_eq, simp add: chunk_stored_def drop_active_def upload_eval, simp add: turn_eval,
       simp add: join_workers_def workers_done_def turn_eval)
  apply (subst sending_sample_eq, simp add: chunk_stored_def drop_active_def upload_eval, simp add: turn_eval,
       simp add: join_workers_def workers_done_def turn_eval)
  done

lemma stored_sample_reachable: "upload_reachable (\<lambda>_. ''s'') stored_sample"
proof -
  have "upload_reachable (\<lambda>_. ''s'') sending_sample" unfolding sending_sample_def
    by (rule upload_next [OF sample_upload_reachable us_init])
      (simp_all add: in_phase_def sample_upload_fields server_answer_def)
  moreover have "waits_for sending_sample 0 0 0" by (subst sending_sample_eq) (simp add: waits_for_def)
  ultimately show ?thesis unfolding stored_sample_def by (rule upload_next [OF _ us_stored])
qed

lemma completed_uploads_are_whole_witness: "(''s'', 0) \<in> set (up_stored stored_sample)"
  using completed_uploads_are_whole [OF stored_sample_reachable, of "hd (up_runs stored_sample)" 0]
  by (simp add: stored_sample_fields)

definition late_sample :: uploader where
  "late_sample = empty_uploader\<lparr>up_jobs := [(new_job ''j'' sample_file None None)\<lparr>jb_completed := [0], jb_uploaded := 1\<rparr>],
     up_runs := [\<lparr>rn_job = 0, rn_phase = Finished, rn_upload_id = ''s'', rn_next = 1, rn_workers = [Some 0], rn_result = JUndef\<rparr>]\<rparr>"

lemma late_chunk_counts_again_witness:
  "jb_uploaded (up_jobs (chunk_stored 0 0 0 late_sample) ! 0) = 2 \<and> jb_total (up_jobs late_sample ! 0) = 1"
  using late_chunk_counts_again [of late_sample 0 0 0 0] sample_total
  by (simp add: late_sample_def empty_uploader_def waits_for_def job_status_def new_job_def sample_file_def)

end
