(* ===== verification/UrlText.thy ===== *)
theory UrlText
  imports JsText AuthAtoms
begin

text \<open>
  URLs as the browser's library handles them: \<open>decodeURIComponent\<close>, \<open>URLSearchParams\<close>, and the path and
  the search of a URL. Texts hold the characters below 256; a percent-encoded character beyond them, and
  the replacement character of a malformed one, is read as the unused character \<open>0x7F\<close>.
\<close>

section \<open>Percent-encoded characters\<close>

definition hex_val :: "char \<Rightarrow> nat option" where
  "hex_val c =
     (let n = (of_char c :: nat) in
      if 48 \<le> n \<and> n \<le> 57 then Some (n - 48)
      else if 65 \<le> n \<and> n \<le> 70 then Some (n - 55)
      else if 97 \<le> n \<and> n \<le> 102 then Some (n - 87)
      else None)"

text \<open>A \<open>%XX\<close> at the head of a text, with what follows it.\<close>

fun read_byte :: "string \<Rightarrow> (nat \<times> string) option" where
  "read_byte (p # a # b # rest) =
     (if p = CHR ''%'' then
        (case (hex_val a, hex_val b) of (Some m, Some n) \<Rightarrow> Some (16 * m + n, rest) | _ \<Rightarrow> None)
      else None)"
| "read_byte _ = None"

fun read_tail :: "nat \<Rightarrow> nat \<Rightarrow> string \<Rightarrow> (nat \<times> string) option" where
  "read_tail 0 acc s = Some (acc, s)"
| "read_tail (Suc n) acc s =
     (case read_byte s of
        Some (b, rest) \<Rightarrow> if 128 \<le> b \<and> b < 192 then read_tail n (acc * 64 + (b - 128)) rest else None
      | None \<Rightarrow> None)"

text \<open>A whole character in UTF-8, its code point and what follows it.\<close>

definition read_code :: "string \<Rightarrow> (nat \<times> string) option" where
  "read_code s =
     (case read_byte s of
        None \<Rightarrow> None
      | Some (b, rest) \<Rightarrow>
          if b < 128 then Some (b, rest)
          else if 194 \<le> b \<and> b < 224 then read_tail 1 (b - 192) rest
          else if 224 \<le> b \<and> b < 240 then
            (case read_tail 2 (b - 224) rest of
               Some (code, r) \<Rightarrow> if 2048 \<le> code \<and> \<not> (55296 \<le> code \<and> code \<le> 57343) then Some (code, r) else None
             | None \<Rightarrow> None)
          else if 240 \<le> b \<and> b < 245 then
            (case read_tail 3 (b - 240) rest of
               Some (code, r) \<Rightarrow> if 65536 \<le> code \<and> code \<le> 1114111 then Some (code, r) else None
             | None \<Rightarrow> None)
          else None)"

definition code_char :: "nat \<Rightarrow> char" where
  "code_char n = (if n < 256 then char_of n else CHR 0x7F)"

lemma read_byte_length: "read_byte s = Some (b, r) \<Longrightarrow> length r < length s"
  by (induction s rule: read_byte.induct) (auto split: if_splits option.splits)

lemma read_tail_length: "read_tail n acc s = Some (c, r) \<Longrightarrow> length r \<le> length s"
proof (induction n arbitrary: acc s)
  case (Suc n)
  then obtain b rest where "read_byte s = Some (b, rest)" "read_tail n (acc * 64 + (b - 128)) rest = Some (c, r)"
    by (auto split: option.splits if_splits)
  with Suc.IH read_byte_length show ?case by fastforce
qed simp

lemma read_code_length: "read_code s = Some (c, r) \<Longrightarrow> length r < length s"
  by (fastforce simp: read_code_def dest: read_byte_length read_tail_length split: option.splits if_splits)

text \<open>\<open>decodeURIComponent\<close>; \<open>None\<close> for the \<open>URIError\<close>.\<close>

function decode_uri_component :: "string \<Rightarrow> string option" where
  "decode_uri_component [] = Some []"
| "decode_uri_component (c # cs) =
     (if c \<noteq> CHR ''%'' then map_option (Cons c) (decode_uri_component cs)
      else case read_code (c # cs) of
        None \<Rightarrow> None
      | Some (code, rest) \<Rightarrow> map_option (Cons (code_char code)) (decode_uri_component rest))"
  by pat_completeness auto
termination
  by (relation "measure length") (auto dest: read_code_length)

section \<open>\<open>URLSearchParams\<close>\<close>

definition form_safe :: "char \<Rightarrow> bool" where
  "form_safe c =
     (let n = (of_char c :: nat) in
      65 \<le> n \<and> n \<le> 90 \<or> 97 \<le> n \<and> n \<le> 122 \<or> 48 \<le> n \<and> n \<le> 57
      \<or> c \<in> set [CHR ''*'', CHR ''-'', CHR ''.'', CHR ''_''])"

definition percent_char :: "char \<Rightarrow> string" where
  "percent_char c =
     (let n = (of_char c :: nat) in
      if n < 128 then percent n else percent (192 + n div 64) @ percent (128 + n mod 64))"

definition form_encode_char :: "char \<Rightarrow> string" where
  "form_encode_char c = (if c = CHR '' '' then ''+'' else if form_safe c then [c] else percent_char c)"

definition form_encode :: "string \<Rightarrow> string" where
  "form_encode s = concat (map form_encode_char s)"

function form_decode :: "string \<Rightarrow> string" where
  "form_decode [] = []"
| "form_decode (c # cs) =
     (if c = CHR ''+'' then CHR '' '' # form_decode cs
      else if c \<noteq> CHR ''%'' then c # form_decode cs
      else case read_code (c # cs) of
        Some (code, rest) \<Rightarrow> code_char code # form_decode rest
      | None \<Rightarrow> (case read_byte (c # cs) of
            Some (_, rest) \<Rightarrow> CHR 0x7F # form_decode rest
          | None \<Rightarrow> c # form_decode cs))"
  by pat_completeness auto
termination
  by (relation "measure length") (auto dest: read_code_length read_byte_length)

type_synonym search_params = "(string \<times> string) list"

definition params_string :: "search_params \<Rightarrow> string" where
  "params_string ps = js_join ''&'' (map (\<lambda>(k, v). form_encode k @ ''='' @ form_encode v) ps)"

definition param_pair :: "string \<Rightarrow> string \<times> string" where
  "param_pair s = (form_decode (takeWhile (\<lambda>c. c \<noteq> CHR ''='') s), form_decode (tl (dropWhile (\<lambda>c. c \<noteq> CHR ''='') s)))"

definition parse_params :: "string \<Rightarrow> search_params" where
  "parse_params s =
     (let t = (case s of c # cs \<Rightarrow> if c = CHR ''?'' then cs else s | [] \<Rightarrow> [])
      in map param_pair (filter (\<lambda>p. p \<noteq> []) (split_at (CHR ''&'') t)))"

definition param_get :: "search_params \<Rightarrow> string \<Rightarrow> string option" where
  "param_get ps k = map_of ps k"

section \<open>Parts of a URL\<close>

definition url_path :: "string \<Rightarrow> string" where
  "url_path url = takeWhile (\<lambda>c. c \<noteq> CHR ''?'') url"

definition url_search :: "string \<Rightarrow> string" where
  "url_search url = dropWhile (\<lambda>c. c \<noteq> CHR ''?'') url"

section \<open>Encoding and decoding\<close>

lemma hex_val_digit [simp]: "hex_val (hex_digit n) = Some (n mod 16)"
proof -
  have "\<forall>m < 16. hex_val (''0123456789ABCDEF'' ! m) = Some m"
    by code_simp
  then show ?thesis by (simp add: hex_digit_def)
qed

lemma read_percent [simp]: "b < 256 \<Longrightarrow> read_byte (percent b @ rest) = Some (b, rest)"
  by (simp add: percent_def)

lemma read_percent_char [simp]: "read_code (percent_char c @ rest) = Some (of_char c, rest)"
proof (cases "(of_char c :: nat) < 128")
  case True
  then show ?thesis by (simp add: read_code_def percent_char_def Let_def)
next
  case False
  let ?n = "of_char c :: nat"
  have n: "?n < 256" by (rule nat_of_char_less_256)
  with False have d: "2 \<le> ?n div 64" "?n div 64 < 4" by (simp_all add: div_less_iff_less_mult)
  then have "(128 + ?n mod 64) < (256::nat)" "192 + ?n div 64 < 256" by auto
  then have "read_byte (percent_char c @ rest) = Some (192 + ?n div 64, percent (128 + ?n mod 64) @ rest)"
    "read_byte (percent (128 + ?n mod 64) @ rest) = Some (128 + ?n mod 64, rest)"
    using False by (simp_all add: percent_char_def Let_def)
  moreover have "?n div 64 * 64 + ?n mod 64 = ?n" by simp
  ultimately show ?thesis using d by (simp add: read_code_def)
qed

lemma code_char_of [simp]: "code_char (of_char c) = c"
  by (simp add: code_char_def)

lemma percent_char_cons: "\<exists>s. percent_char c = CHR ''%'' # s"
  by (auto simp: percent_char_def percent_def Let_def)

lemma decode_percent_char:
  "decode_uri_component (percent_char c @ s) = map_option (Cons c) (decode_uri_component s)"
  "form_decode (percent_char c @ s) = c # form_decode s"
proof -
  obtain t where t: "percent_char c = CHR ''%'' # t" using percent_char_cons by blast
  have "read_code (CHR ''%'' # t @ s) = Some (of_char c, s)" using read_percent_char [of c s] by (simp add: t)
  then show "decode_uri_component (percent_char c @ s) = map_option (Cons c) (decode_uri_component s)"
    "form_decode (percent_char c @ s) = c # form_decode s" by (simp_all add: t)
qed

lemma encode_uri_cons:
  "encode_uri_component (c # s) = (if uri_unreserved c then [c] else percent_char c) @ encode_uri_component s"
  by (simp add: encode_uri_component_def percent_char_def Let_def)

lemma decode_encode_uri [simp]: "decode_uri_component (encode_uri_component s) = Some s"
proof (induction s)
  case Nil
  then show ?case by (simp add: encode_uri_component_def)
next
  case (Cons c s)
  have "uri_unreserved c \<Longrightarrow> c \<noteq> CHR ''%''" by (auto simp: uri_unreserved_def Let_def)
  with Cons show ?case by (simp add: encode_uri_cons decode_percent_char)
qed

lemma form_decode_encode [simp]: "form_decode (form_encode s) = s"
proof (induction s)
  case (Cons c s)
  have "form_safe c \<Longrightarrow> c \<noteq> CHR ''%'' \<and> c \<noteq> CHR ''+''" by (auto simp: form_safe_def Let_def)
  with Cons show ?case by (auto simp: form_encode_def form_encode_char_def decode_percent_char)
qed (simp add: form_encode_def)

text \<open>The characters of encoded texts.\<close>

definition url_char :: "char \<Rightarrow> bool" where
  "url_char c = (c \<notin> set [CHR ''&'', CHR ''='', CHR ''?'', CHR ''/'', CHR ''#''])"

lemma hex_digit_url [simp]: "url_char (hex_digit n)"
proof -
  have "\<forall>m < 16. url_char (''0123456789ABCDEF'' ! m)" by code_simp
  then show ?thesis by (simp add: hex_digit_def)
qed

lemma percent_url: "list_all url_char (percent n)"
  by (simp add: percent_def) (simp add: url_char_def)

lemma encoded_url: "list_all url_char (encode_uri_component s)" "list_all url_char (form_encode s)"
proof -
  have u: "list_all url_char (percent_char c)" for c
    using percent_url by (simp add: percent_char_def Let_def)
  have "uri_unreserved c \<Longrightarrow> url_char c" for c by (auto simp: uri_unreserved_def url_char_def Let_def)
  with u show "list_all url_char (encode_uri_component s)"
    by (induction s) (auto simp: encode_uri_cons, simp add: encode_uri_component_def)
  have "form_safe c \<Longrightarrow> url_char c" for c by (auto simp: form_safe_def url_char_def Let_def)
  moreover have "url_char CHR ''+''" by (simp add: url_char_def)
  ultimately show "list_all url_char (form_encode s)"
    using u by (induction s) (auto simp: form_encode_def form_encode_char_def)
qed

lemma encoded_chars:
  "c \<in> set (encode_uri_component s) \<Longrightarrow> url_char c" "c \<in> set (form_encode s) \<Longrightarrow> url_char c"
  using encoded_url by (auto simp: list_all_iff)

lemma param_pair_encoded: "param_pair (form_encode k @ ''='' @ form_encode v) = (k, v)"
proof -
  have "CHR ''='' \<notin> set (form_encode k)" using encoded_chars(2) [of "CHR ''=''" k] by (auto simp: url_char_def)
  then have "takeWhile (\<lambda>c. c \<noteq> CHR ''='') (form_encode k @ ''='' @ form_encode v) = form_encode k"
    "dropWhile (\<lambda>c. c \<noteq> CHR ''='') (form_encode k @ ''='' @ form_encode v) = ''='' @ form_encode v"
    by (auto simp: takeWhile_append dropWhile_append) 
  then show ?thesis by (simp add: param_pair_def)
qed

lemma parse_params_string: "parse_params (CHR ''?'' # params_string ps) = ps"
proof (cases "ps = []")
  case False
  have "CHR ''&'' \<notin> set (form_encode k @ ''='' @ form_encode v)" for k v
    using encoded_chars(2) [of "CHR ''&''"] by (auto simp: url_char_def)
  then have "split_at (CHR ''&'') (params_string ps) = map (\<lambda>(k, v). form_encode k @ ''='' @ form_encode v) ps"
    unfolding params_string_def using False by (intro split_join) auto
  moreover have "filter (\<lambda>p. p \<noteq> []) (map (\<lambda>(k, v). form_encode k @ ''='' @ form_encode v) ps)
      = map (\<lambda>(k, v). form_encode k @ ''='' @ form_encode v) ps"
    by (rule filter_True) auto
  moreover have "map param_pair (map (\<lambda>(k, v). form_encode k @ ''='' @ form_encode v) ps) = ps"
    by (induction ps) (auto simp: param_pair_encoded [simplified])
  ultimately show ?thesis by (simp add: parse_params_def del: map_map)
qed (simp add: parse_params_def params_string_def)

end
