(* ===== verification/BibleReader.thy ===== *)
theory BibleReader
  imports JsText AuthAtoms
begin

text \<open>
  The Bible reader: its interfaces (\<open>components/bible/types.ts\<close>), the movement from verse to verse
  (\<open>components/bible/navigation.ts\<close>), which is shown to be movement in the list of all verses, and the
  cache of books (\<open>components/bible/api.ts\<close>), which holds the books used last.
\<close>

section \<open>Interfaces\<close>

record bible_book_summary =
  sm_title :: string
  sm_slug :: string
  sm_testament :: string
  sm_division :: string
  sm_canonical_order :: int
  sm_division_order :: int
  sm_book_order :: int
  sm_chapter_count :: int
  sm_verse_count :: int

record bible_text_span =
  sp_start :: int
  sp_end :: int

record bible_verse_markers =
  vm_paragraph_start :: bool
  vm_added_words :: "bible_text_span list"
  vm_words_of_christ :: "bible_text_span list"

record bible_book_markers =
  bm_schema_version :: int
  bm_book :: string
  bm_chapters :: "(string, (string, bible_verse_markers) jsmap) jsmap"

text \<open>A \<open>Record<string, Record<string, string>>\<close>: its own properties in their order.\<close>

type_synonym bible_chapters = "(string, (string, string) jsmap) jsmap"

record bible_book =
  bk_translation :: string
  bk_title :: string
  bk_slug :: string
  bk_chapters :: bible_chapters
  bk_markers :: bible_book_markers

text \<open>The verse is \<open>None\<close> when it is \<open>undefined\<close>, as it becomes in a chapter without verses.\<close>

record bible_selection =
  bs_book_slug :: string
  bs_chapter :: string
  bs_verse :: "string option"
  bs_is_open :: bool

section \<open>Navigation\<close>

definition chapter_of :: "bible_chapters \<Rightarrow> string \<Rightarrow> (string, string) jsmap" where
  "chapter_of chs c = (case map_get chs c of Some vs \<Rightarrow> vs | None \<Rightarrow> [])"

text \<open>The keys are decimal numbers, so that \<open>Number(a) - Number(b)\<close> orders them by value.\<close>

definition numeric_keys :: "(string, 'a) jsmap \<Rightarrow> string list" where
  "numeric_keys m = sort_key parse_nat (map_keys m)"

text \<open>\<open>xs.indexOf(x)\<close> and \<open>xs[i]\<close>, with \<open>None\<close> for \<open>undefined\<close>.\<close>

fun js_index_of :: "'a list \<Rightarrow> 'a \<Rightarrow> int" where
  "js_index_of [] x = -1"
| "js_index_of (y # ys) x = (if y = x then 0 else let i = js_index_of ys x in if i = -1 then -1 else i + 1)"

definition js_at :: "'a list \<Rightarrow> int \<Rightarrow> 'a option" where
  "js_at xs i = (if 0 \<le> i \<and> nat i < length xs then Some (xs ! nat i) else None)"

definition verse_index :: "string list \<Rightarrow> string option \<Rightarrow> int" where
  "verse_index vs v = (case v of Some s \<Rightarrow> js_index_of vs s | None \<Rightarrow> -1)"

definition verse_text :: "bible_chapters \<Rightarrow> string \<times> string option \<Rightarrow> string option" where
  "verse_text chs p = (case snd p of Some v \<Rightarrow> map_get (chapter_of chs (fst p)) v | None \<Rightarrow> None)"

definition is_valid_bible_selection :: "bible_book \<Rightarrow> bible_selection \<Rightarrow> bool" where
  "is_valid_bible_selection book sel =
     (case verse_text (bk_chapters book) (bs_chapter sel, bs_verse sel) of Some (c # cs) \<Rightarrow> True | _ \<Rightarrow> False)"

text \<open>One turn of the loop: the neighbouring verse, or the first or last one of the neighbouring chapter.\<close>

definition neighbour :: "int \<Rightarrow> bible_chapters \<Rightarrow> string \<times> string option \<Rightarrow> (string \<times> string option) option" where
  "neighbour direction chs p =
     (let vs = numeric_keys (chapter_of chs (fst p)) in
      case js_at vs (verse_index vs (snd p) + direction) of
        Some (v # v') \<Rightarrow> Some (fst p, Some (v # v'))
      | _ \<Rightarrow>
          (let cs = numeric_keys chs in
           case js_at cs (js_index_of cs (fst p) + direction) of
             Some (c # c') \<Rightarrow>
               (let ws = numeric_keys (chapter_of chs (c # c'))
                in Some (c # c', js_at ws (if 0 < direction then 0 else int (length ws) - 1)))
           | _ \<Rightarrow> None))"

fun walk :: "int \<Rightarrow> bible_chapters \<Rightarrow> nat \<Rightarrow> string \<times> string option \<Rightarrow> (string \<times> string option) option" where
  "walk direction chs 0 p = Some p"
| "walk direction chs (Suc remaining) p =
     (case neighbour direction chs p of None \<Rightarrow> None | Some q \<Rightarrow> walk direction chs remaining q)"

definition adjacent_bible_selection :: "bible_book \<Rightarrow> bible_selection \<Rightarrow> int \<Rightarrow> bible_selection option" where
  "adjacent_bible_selection book sel offset =
     (if \<not> is_valid_bible_selection book sel \<or> offset = 0 then Some sel
      else map_option (\<lambda>p. sel\<lparr>bs_chapter := fst p, bs_verse := snd p\<rparr>)
        (walk (if 0 < offset then 1 else -1) (bk_chapters book) (nat \<bar>offset\<bar>) (bs_chapter sel, bs_verse sel)))"

record bible_verse_slice =
  sl_chapter :: string
  sl_verse :: "string option"
  sl_text :: string

text \<open>\<open>bibleVerseSlice\<close>; the first argument is \<open>count - result.length\<close>.\<close>

fun slice_from :: "nat \<Rightarrow> bible_book \<Rightarrow> bible_selection option \<Rightarrow> bible_verse_slice list" where
  "slice_from 0 book current = []"
| "slice_from (Suc n) book None = []"
| "slice_from (Suc n) book (Some sel) =
     (case verse_text (bk_chapters book) (bs_chapter sel, bs_verse sel) of
        Some (c # cs) \<Rightarrow> \<lparr>sl_chapter = bs_chapter sel, sl_verse = bs_verse sel, sl_text = c # cs\<rparr>
          # slice_from n book (adjacent_bible_selection book sel 1)
      | _ \<Rightarrow> [])"

definition bible_verse_slice :: "bible_book \<Rightarrow> bible_selection \<Rightarrow> nat \<Rightarrow> bible_verse_slice list" where
  "bible_verse_slice book sel n = slice_from n book (Some sel)"

section \<open>The list of all verses\<close>

definition verses :: "bible_chapters \<Rightarrow> (string \<times> string) list" where
  "verses chs = concat (map (\<lambda>c. map (Pair c) (numeric_keys (chapter_of chs c))) (numeric_keys chs))"

definition at_verse :: "string \<times> string \<Rightarrow> string \<times> string option" where
  "at_verse p = (fst p, Some (snd p))"

lemma at_verse_pair [simp]: "at_verse (c, v) = (c, Some v)"
  by (simp add: at_verse_def)

definition chapters_ok :: "bible_chapters \<Rightarrow> bool" where
  "chapters_ok chs =
     (distinct (map_keys chs)
      \<and> list_all (\<lambda>(c, vs). c \<noteq> [] \<and> vs \<noteq> [] \<and> distinct (map_keys vs) \<and> list_all (\<lambda>(v, t). v \<noteq> [] \<and> t \<noteq> []) vs) chs)"

lemma concat_index:
  "i < length (concat xss) \<Longrightarrow> \<exists>a b. a < length xss \<and> b < length (xss ! a) \<and> i = length (concat (take a xss)) + b"
proof (induction xss arbitrary: i)
  case (Cons xs xss)
  show ?case
  proof (cases "i < length xs")
    case True
    then show ?thesis by (intro exI [of _ 0] exI [of _ i]) simp
  next
    case False
    then have "i - length xs < length (concat xss)" using Cons.prems by auto
    from Cons.IH [OF this] obtain a b where
      "a < length xss" "b < length (xss ! a)" "i - length xs = length (concat (take a xss)) + b" by blast
    with False show ?thesis by (intro exI [of _ "Suc a"] exI [of _ b]) auto
  qed
qed simp

lemma concat_at:
  assumes "a < length xss" "b < length (xss ! a)"
  shows "length (concat (take a xss)) + b < length (concat xss) \<and> concat xss ! (length (concat (take a xss)) + b) = xss ! a ! b"
proof -
  have "concat xss = concat (take a xss) @ xss ! a @ concat (drop (Suc a) xss)"
    by (metis assms(1) append_take_drop_id concat.simps(2) concat_append id_take_nth_drop)
  then show ?thesis using assms(2) by (simp add: nth_append)
qed

lemma concat_take_Suc: "a < length xss \<Longrightarrow> length (concat (take (Suc a) xss)) = length (concat (take a xss)) + length (xss ! a)"
  by (simp add: take_Suc_conv_app_nth)

lemma js_index_nth: "distinct xs \<Longrightarrow> i < length xs \<Longrightarrow> js_index_of xs (xs ! i) = int i"
proof (induction xs arbitrary: i)
  case (Cons x xs)
  then show ?case by (cases i) auto
qed simp

text \<open>The neighbour of the verse at \<open>i\<close> is the verse at \<open>i + 1\<close> or \<open>i - 1\<close>.\<close>

lemma numeric_keys_simps [simp]:
  "distinct (numeric_keys m) = distinct (map_keys m)" "set (numeric_keys m) = set (map_keys m)"
  "length (numeric_keys m) = length m"
  by (simp_all add: numeric_keys_def map_keys_def)

lemma chapter_facts:
  assumes "chapters_ok chs" "c \<in> set (numeric_keys chs)"
  shows "c \<noteq> []" "chapter_of chs c \<noteq> []" "distinct (map_keys (chapter_of chs c))"
    "v \<in> set (map_keys (chapter_of chs c)) \<Longrightarrow> v \<noteq> []"
    "v \<in> set (map_keys (chapter_of chs c)) \<Longrightarrow> \<exists>t ts. map_get (chapter_of chs c) v = Some (t # ts)"
proof -
  from assms(2) obtain vs where vs: "(c, vs) \<in> set chs" by (auto simp: map_keys_def)
  then have "map_of chs c = Some vs" using assms(1) by (simp add: chapters_ok_def map_keys_def)
  then have ch: "chapter_of chs c = vs" by (simp add: chapter_of_def map_get_def)
  have ok: "c \<noteq> []" "vs \<noteq> []" "distinct (map_keys vs)" "\<forall>(v, t) \<in> set vs. v \<noteq> [] \<and> t \<noteq> []"
    using assms(1) vs by (auto simp: chapters_ok_def list_all_iff)
  then show "c \<noteq> []" "chapter_of chs c \<noteq> []" "distinct (map_keys (chapter_of chs c))" by (simp_all add: ch)
  show "v \<noteq> []" if "v \<in> set (map_keys (chapter_of chs c))" using that ok(4) by (auto simp: ch map_keys_def)
  show "\<exists>t ts. map_get (chapter_of chs c) v = Some (t # ts)" if v: "v \<in> set (map_keys (chapter_of chs c))"
  proof -
    obtain t where t: "map_of vs v = Some t"
      using v by (auto simp: ch map_keys_def map_of_eq_None_iff [symmetric] dest: weak_map_of_SomeI)
    then have "t \<noteq> []" using ok(4) by (auto dest!: map_of_SomeD)
    with t show ?thesis by (cases t) (auto simp: ch map_get_def)
  qed
qed

lemma neighbour_next:
  assumes ok: "chapters_ok chs" and i: "i < length (verses chs)" and p: "verses chs ! i = (c, v)"
  shows "neighbour 1 chs (c, Some v) =
      (if Suc i < length (verses chs) then Some (at_verse (verses chs ! Suc i)) else None)"
    and "neighbour (-1) chs (c, Some v) =
      (if i = 0 then None else Some (at_verse (verses chs ! (i - 1))))"
proof -
  define cs where "cs = numeric_keys chs"
  define ks where "ks = (\<lambda>c. numeric_keys (chapter_of chs c))"
  define xss where "xss = map (\<lambda>c. map (Pair c) (ks c)) cs"
  have vs: "verses chs = concat xss" by (simp add: verses_def xss_def cs_def ks_def)
  define off where "off = (\<lambda>a. length (concat (take a xss)))"
  have dcs: "distinct cs" using ok by (simp add: cs_def chapters_ok_def)
  have cs_ok: "d \<noteq> []" "distinct (ks d)" "0 < length (ks d)" "w \<in> set (ks d) \<Longrightarrow> w \<noteq> []" if "d \<in> set cs" for d w
    using chapter_facts [OF ok, of d] that by (auto simp: cs_def ks_def)
  from concat_index [of i xss] i obtain a b where
    a: "a < length cs" and b: "b < length (ks (cs ! a))" and iab: "i = off a + b"
    by (auto simp: vs off_def xss_def)
  have at: "verses chs ! (off a' + b') = (cs ! a', ks (cs ! a') ! b')" "off a' + b' < length (verses chs)"
    if "a' < length cs" "b' < length (ks (cs ! a'))" for a' b'
    using concat_at [of a' xss b'] that by (auto simp: vs off_def xss_def)
  have off_Suc: "off (Suc a') = off a' + length (ks (cs ! a'))" if "a' < length cs" for a'
    using concat_take_Suc [of a' xss] that by (simp add: off_def xss_def)
  have off_end: "off (length cs) = length (verses chs)" by (simp add: off_def vs xss_def)
  have c: "c = cs ! a" and v: "v = ks c ! b" using at [OF a b] p iab by auto
  have mem: "cs ! a' \<in> set cs" if "a' < length cs" for a' using that by simp
  have ci: "js_index_of cs c = int a" using js_index_nth [OF dcs a] by (simp add: c)
  have vi: "js_index_of (ks c) v = int b" using js_index_nth [OF cs_ok(2) [OF mem [OF a]] b] by (simp add: c v)
  have key: "ks (cs ! a') ! b' \<noteq> []" if "a' < length cs" "b' < length (ks (cs ! a'))" for a' b'
    using cs_ok(4) [OF mem [OF that(1)]] that(2) by simp
  have nb: "neighbour d chs (c, Some v) =
      (case js_at (ks c) (int b + d) of
         Some (w # w') \<Rightarrow> Some (c, Some (w # w'))
       | _ \<Rightarrow> (case js_at cs (int a + d) of
           Some (e # e') \<Rightarrow> Some (e # e', js_at (ks (e # e')) (if 0 < d then 0 else int (length (ks (e # e'))) - 1))
         | _ \<Rightarrow> None))" for d
    by (simp add: neighbour_def verse_index_def Let_def vi [unfolded ks_def] ci [unfolded cs_def] ks_def cs_def
        del: numeric_keys_simps split: option.split list.split)
  show "neighbour 1 chs (c, Some v) =
      (if Suc i < length (verses chs) then Some (at_verse (verses chs ! Suc i)) else None)"
  proof (cases "Suc b < length (ks c)")
    case True
    then have "verses chs ! Suc i = (c, ks c ! Suc b)" "Suc i < length (verses chs)"
      using at [OF a, of "Suc b"] by (simp_all add: c iab)
    moreover from True have "js_at (ks c) (int b + 1) = Some (ks c ! Suc b)" by (simp add: js_at_def nat_add_distrib)
    ultimately show ?thesis using key [OF a, of "Suc b", folded c] True
      by (simp add: nb split: list.split)
  next
    case False
    with b have bl: "length (ks c) = Suc b" by (simp add: c)
    then have none: "js_at (ks c) (int b + 1) = None" by (simp add: js_at_def)
    show ?thesis
    proof (cases "Suc a < length cs")
      case True
      let ?d = "cs ! Suc a"
      from True have d: "0 < length (ks ?d)" "?d \<noteq> []" using cs_ok mem by auto
      have "Suc i = off (Suc a) + 0" using off_Suc [OF a] bl by (simp add: iab c)
      then have "verses chs ! Suc i = (?d, ks ?d ! 0)" "Suc i < length (verses chs)"
        using at [OF True d(1)] by simp_all
      moreover have "js_at cs (int a + 1) = Some ?d" using True by (simp add: js_at_def nat_add_distrib)
      moreover have "js_at (ks ?d) 0 = Some (ks ?d ! 0)" using d by (simp add: js_at_def)
      ultimately show ?thesis using d by (auto simp: nb none split: list.split)
    next
      case False
      with a have "Suc a = length cs" by simp
      with off_Suc [OF a] off_end bl have "Suc i = length (verses chs)" by (simp add: iab c)
      moreover have "js_at cs (int a + 1) = None" using False by (simp add: js_at_def)
      ultimately show ?thesis by (simp add: nb none)
    qed
  qed
  show "neighbour (-1) chs (c, Some v) =
      (if i = 0 then None else Some (at_verse (verses chs ! (i - 1))))"
  proof (cases b)
    case (Suc b')
    with b have b': "b' < length (ks c)" by (simp add: c)
    then have "verses chs ! (i - 1) = (c, ks c ! b')" using at [OF a, of b'] by (simp add: c iab Suc)
    moreover have "js_at (ks c) (int b + - 1) = Some (ks c ! b')" using b' by (simp add: js_at_def Suc)
    ultimately show ?thesis using key [OF a, of b', folded c] b' iab Suc
      by (simp add: nb split: list.split)
  next
    case 0
    have none: "js_at (ks c) (int b + - 1) = None" by (simp add: js_at_def 0)
    show ?thesis
    proof (cases a)
      case 0
      then have "i = 0" using iab \<open>b = 0\<close> by (simp add: off_def)
      moreover have "js_at cs (int a + - 1) = None" by (simp add: js_at_def 0)
      ultimately show ?thesis using none by (simp add: nb)
    next
      case (Suc a')
      let ?d = "cs ! a'"
      from Suc a have a': "a' < length cs" by simp
      have d: "0 < length (ks ?d)" "?d \<noteq> []" using cs_ok mem [OF a'] by auto
      have "i = off a' + length (ks ?d)" using off_Suc [OF a'] by (simp add: iab Suc \<open>b = 0\<close>)
      with d(1) have "i - 1 = off a' + (length (ks ?d) - 1)" "i \<noteq> 0" by linarith+
      moreover then have "verses chs ! (i - 1) = (?d, ks ?d ! (length (ks ?d) - 1))"
        using at [OF a', of "length (ks ?d) - 1"] d by simp
      moreover have "js_at cs (int a + - 1) = Some ?d" using a' by (simp add: js_at_def Suc)
      moreover have "js_at (ks ?d) (int (length (ks ?d)) - 1) = Some (ks ?d ! (length (ks ?d) - 1))"
      proof -
        obtain m where "length (ks ?d) = Suc m" using d(1) by (cases "length (ks ?d)") auto
        then show ?thesis by (simp add: js_at_def)
      qed
      moreover note none
      ultimately show ?thesis using d by (auto simp: nb none split: list.split)
    qed
  qed
qed

lemma walk_verses:
  assumes ok: "chapters_ok chs" and i: "i < length (verses chs)" and p: "verses chs ! i = (c, v)"
  shows "walk 1 chs n (c, Some v) =
      (if i + n < length (verses chs) then Some (at_verse (verses chs ! (i + n))) else None)"
    and "walk (-1) chs n (c, Some v) =
      (if n \<le> i then Some (at_verse (verses chs ! (i - n))) else None)"
proof -
  show "walk 1 chs n (c, Some v) =
      (if i + n < length (verses chs) then Some (at_verse (verses chs ! (i + n))) else None)"
    using i p
  proof (induction n arbitrary: i c v)
    case (Suc n)
    obtain c' v' where nx: "verses chs ! Suc i = (c', v')" by fastforce
    show ?case using neighbour_next(1) [OF ok Suc.prems] Suc.IH [OF _ nx] by (simp add: nx)
  qed simp
  show "walk (-1) chs n (c, Some v) = (if n \<le> i then Some (at_verse (verses chs ! (i - n))) else None)"
    using i p
  proof (induction n arbitrary: i c v)
    case (Suc n)
    obtain d w where prev: "verses chs ! (i - Suc 0) = (d, w)" by fastforce
    have l: "i - Suc 0 < length (verses chs)" using Suc.prems by simp
    from Suc.IH [OF l prev] show ?case using neighbour_next(2) [OF ok Suc.prems]
      by (cases "i = 0") (auto simp: prev)
  qed simp
qed

lemma verse_is_valid:
  assumes "chapters_ok chs" "(c, v) \<in> set (verses chs)"
  shows "\<exists>t ts. verse_text chs (c, Some v) = Some (t # ts)"
  using assms chapter_facts(5) [OF assms(1), of c v] by (auto simp: verses_def verse_text_def)

text \<open>The selection of the verse at index \<open>i\<close>.\<close>

definition select :: "bible_selection \<Rightarrow> string \<times> string \<Rightarrow> bible_selection" where
  "select sel p = sel\<lparr>bs_chapter := fst p, bs_verse := Some (snd p)\<rparr>"

lemma select_adjacent:
  assumes ok: "chapters_ok (bk_chapters book)" and i: "i < length (verses (bk_chapters book))"
  shows "adjacent_bible_selection book (select sel (verses (bk_chapters book) ! i)) k =
      (if 0 \<le> int i + k \<and> int i + k < int (length (verses (bk_chapters book)))
       then Some (select sel (verses (bk_chapters book) ! nat (int i + k))) else None)"
proof -
  let ?V = "verses (bk_chapters book)"
  obtain c v where p: "?V ! i = (c, v)" by fastforce
  have valid: "is_valid_bible_selection book (select sel (?V ! i))"
    using verse_is_valid [OF ok, of c v] nth_mem [OF i] p
    by (auto simp: is_valid_bible_selection_def select_def)
  note w = walk_verses [OF ok i p, of "nat \<bar>k\<bar>"]
  have s: "sel\<lparr>bs_chapter := c, bs_verse := Some v\<rparr>\<lparr>bs_chapter := fst (at_verse q), bs_verse := snd (at_verse q)\<rparr>
      = select sel q" for q by (cases q) (simp add: select_def)
  consider (zero) "k = 0" | (pos) "0 < k" | (neg) "k < 0" by linarith
  then show ?thesis
  proof cases
    case zero
    with i show ?thesis by (simp add: adjacent_bible_selection_def)
  next
    case pos
    then have "i + nat \<bar>k\<bar> = nat (int i + k)" by simp
    with pos valid w(1) show ?thesis
      by (auto simp: adjacent_bible_selection_def p select_def at_verse_def)
  next
    case neg
    then have "nat \<bar>k\<bar> \<le> i \<longleftrightarrow> 0 \<le> int i + k" "0 \<le> int i + k \<Longrightarrow> i - nat \<bar>k\<bar> = nat (int i + k)" by auto
    with neg valid w(2) i show ?thesis
      by (auto simp: adjacent_bible_selection_def p select_def at_verse_def)
  qed
qed

section \<open>The cache of books\<close>

text \<open>
  \<open>bookCache\<close>, a \<open>Map\<close> in the order of use, the requests that are under way, and the requests sent.
  \<open>encodeURIComponent\<close> of the name is taken when the request is sent.
\<close>

record bible_cache =
  bc_books :: "(string, bible_book) jsmap"
  bc_pending :: "string list"
  bc_catalog :: bool
  bc_sent :: "string list"

definition max_book_cache_size :: nat where "max_book_cache_size = 8"

definition move_to_end :: "string \<Rightarrow> bible_book \<Rightarrow> (string, bible_book) jsmap \<Rightarrow> (string, bible_book) jsmap" where
  "move_to_end k book m = map_set k book (map_delete k m)"

text \<open>The loop that evicts the oldest books; each turn removes one, so the size is enough fuel.\<close>

fun evict :: "(string, bible_book) jsmap \<Rightarrow> (string, bible_book) jsmap" where
  "evict [] = []"
| "evict ((k, book) # m) = (if max_book_cache_size < length ((k, book) # m) then evict m else (k, book) # m)"

definition remember_book :: "bible_book \<Rightarrow> bible_cache \<Rightarrow> bible_cache" where
  "remember_book book c = c\<lparr>bc_books := evict (move_to_end (bk_slug book) book (bc_books c))\<rparr>"

text \<open>What a caller gets: the book at once, or a share of the request under that key.\<close>

datatype book_promise = BookNow bible_book | BookRequest string

definition fetch_bible_book :: "string \<Rightarrow> bible_cache \<Rightarrow> book_promise \<times> bible_cache" where
  "fetch_bible_book name c =
     (let key = to_lower (js_trim name) in
      case map_get (bc_books c) key of
        Some book \<Rightarrow> (BookNow book, c\<lparr>bc_books := move_to_end key book (bc_books c)\<rparr>)
      | None \<Rightarrow>
          if key \<in> set (bc_pending c) then (BookRequest key, c)
          else (BookRequest key, c\<lparr>bc_pending := bc_pending c @ [key],
            bc_sent := bc_sent c @ [''/bible/kjv/books/'' @ encode_uri_component name]\<rparr>))"

text \<open>The answer to the request under a key; \<open>None\<close> when it failed.\<close>

definition book_answered :: "string \<Rightarrow> bible_book option \<Rightarrow> bible_cache \<Rightarrow> bible_cache" where
  "book_answered key answer c =
     (let c1 = (case answer of Some book \<Rightarrow> remember_book book c | None \<Rightarrow> c)
      in c1\<lparr>bc_pending := remove1 key (bc_pending c1)\<rparr>)"

definition fetch_bible_catalog :: "bible_cache \<Rightarrow> bible_cache" where
  "fetch_bible_catalog c =
     (if bc_catalog c then c else c\<lparr>bc_catalog := True, bc_sent := bc_sent c @ [''/bible/kjv/books'']\<rparr>)"

definition catalog_failed :: "bible_cache \<Rightarrow> bible_cache" where
  "catalog_failed c = c\<lparr>bc_catalog := False\<rparr>"

definition empty_bible_cache :: bible_cache where
  "empty_bible_cache = \<lparr>bc_books = [], bc_pending = [], bc_catalog = False, bc_sent = []\<rparr>"

text \<open>A run of the cache, with the books in the order in which they were used.\<close>

inductive cache_run :: "string list \<Rightarrow> bible_cache \<Rightarrow> bool" where
    run_start: "cache_run [] empty_bible_cache"
  | run_hit: "cache_run ks c \<Longrightarrow> fetch_bible_book name c = (BookNow book, c') \<Longrightarrow>
      cache_run (ks @ [to_lower (js_trim name)]) c'"
  | run_miss: "cache_run ks c \<Longrightarrow> fetch_bible_book name c = (BookRequest key, c') \<Longrightarrow> cache_run ks c'"
  | run_answer: "cache_run ks c \<Longrightarrow> key \<in> set (bc_pending c) \<Longrightarrow>
      cache_run (ks @ [bk_slug book]) (book_answered key (Some book) c)"
  | run_failed: "cache_run ks c \<Longrightarrow> key \<in> set (bc_pending c) \<Longrightarrow> cache_run ks (book_answered key None c)"
  | run_catalog: "cache_run ks c \<Longrightarrow> cache_run ks (fetch_bible_catalog c)"
  | run_catalog_failed: "cache_run ks c \<Longrightarrow> cache_run ks (catalog_failed c)"

text \<open>The books used, each at the place of its last use.\<close>

definition recency :: "string list \<Rightarrow> string list" where
  "recency ks = foldl (\<lambda>r k. filter (\<lambda>x. x \<noteq> k) r @ [k]) [] ks"

lemma recency_snoc: "recency (ks @ [k]) = filter (\<lambda>x. x \<noteq> k) (recency ks) @ [k]"
  by (simp add: recency_def)

lemma recency_distinct: "distinct (recency ks)"
proof (induction ks rule: rev_induct)
  case Nil
  show ?case by (simp add: recency_def)
qed (simp add: recency_snoc)

lemma map_keys_move: "map_keys (move_to_end k b m) = filter (\<lambda>x. x \<noteq> k) (map_keys m) @ [k]"
  by (simp add: move_to_end_def map_keys_set_fresh map_keys_delete)

lemma evict_last: "evict m = last_n max_book_cache_size m"
proof (induction m rule: evict.induct)
  case (2 k book m)
  show ?case
  proof (cases "max_book_cache_size \<le> length m")
    case True
    then show ?thesis using 2 by (simp add: last_n_def Suc_diff_le)
  qed (simp add: last_n_def)
qed (simp add: last_n_def)

lemma length_filter_ne: "distinct ys \<Longrightarrow> length ys \<le> Suc (length (filter (\<lambda>x. x \<noteq> k) ys))"
  by (induction ys) (auto simp: filter_ne_same)

lemma map_keys_last: "map_keys (last_n n m) = last_n n (map_keys m)"
  by (simp add: last_n_def map_keys_def drop_map)

lemma last_n_suffix: "n \<le> length ys \<Longrightarrow> last_n n (xs @ ys) = last_n n ys"
  by (simp add: last_n_def)

lemma last_n_touch:
  assumes "distinct r" "0 < n"
  shows "last_n n (filter (\<lambda>x. x \<noteq> k) (last_n n r) @ [k]) = last_n n (filter (\<lambda>x. x \<noteq> k) r @ [k])"
proof (cases "length r \<le> n")
  case False
  define xs where "xs = take (length r - n) r"
  define ys where "ys = last_n n r"
  have r: "r = xs @ ys" by (simp add: xs_def ys_def last_n_def)
  have "length ys = n" using False by (simp add: ys_def length_last_n)
  moreover have "distinct ys" using assms(1) by (simp add: r)
  then have "length ys \<le> Suc (length (filter (\<lambda>x. x \<noteq> k) ys))"
    by (rule length_filter_ne)
  ultimately have "last_n n (filter (\<lambda>x. x \<noteq> k) xs @ (filter (\<lambda>x. x \<noteq> k) ys @ [k])) = last_n n (filter (\<lambda>x. x \<noteq> k) ys @ [k])"
    by (intro last_n_suffix) simp
  then show ?thesis unfolding ys_def [symmetric] by (simp add: r)
qed (simp add: last_n_id)


text \<open>
  The cache holds the eight books that were used last: after any run of requests, answers and
  failures, its keys are, in this order, the last eight of all books used, each at the place of its
  last use.
\<close>

lemma book_cache_holds_recent:
  assumes "cache_run ks c"
  shows "map_keys (bc_books c) = last_n max_book_cache_size (recency ks)"
proof -
  have n: "0 < max_book_cache_size" by (simp add: max_book_cache_size_def)
  note touch = last_n_touch [OF recency_distinct n]
  show ?thesis using assms
  proof (induction rule: cache_run.induct)
    case run_start
    then show ?case by (simp add: empty_bible_cache_def recency_def last_n_def map_keys_def)
  next
    case (run_hit ks c name book c')
    define k where "k = to_lower (js_trim name)"
    have hit: "map_get (bc_books c) k = Some book" and c': "bc_books c' = move_to_end k book (bc_books c)"
      using run_hit.hyps(2) by (auto simp: fetch_bible_book_def k_def Let_def split: option.splits if_splits)
    then have "k \<in> set (map_keys (bc_books c))" by (simp add: set_map_keys)
    moreover have "distinct (map_keys (bc_books c))" "length (map_keys (bc_books c)) \<le> max_book_cache_size"
      using recency_distinct [of ks] by (simp_all add: run_hit.IH length_last_n last_n_def distinct_drop)
    ultimately have "length (filter (\<lambda>x. x \<noteq> k) (map_keys (bc_books c))) < max_book_cache_size"
      by (metis (mono_tags, lifting) length_filter_less order_less_le_trans)
    then have "map_keys (bc_books c') = last_n max_book_cache_size (map_keys (bc_books c'))"
      by (simp add: c' map_keys_move last_n_id)
    also have "\<dots> = last_n max_book_cache_size (recency (ks @ [k]))"
      by (simp add: c' map_keys_move run_hit.IH touch recency_snoc)
    finally show ?case by (simp add: k_def)
  next
    case (run_miss ks c name key c')
    then have "bc_books c' = bc_books c"
      by (auto simp: fetch_bible_book_def Let_def split: option.splits if_splits)
    with run_miss.IH show ?case by simp
  next
    case (run_answer ks c key book)
    then show ?case
      by (simp add: book_answered_def remember_book_def Let_def evict_last map_keys_last map_keys_move touch recency_snoc)
  qed (simp_all add: book_answered_def fetch_bible_catalog_def catalog_failed_def)
qed

section \<open>Properties of the navigation\<close>

text \<open>
  C16. Moving is arithmetic on the list of all verses: from the verse at index \<open>i\<close>, an offset of \<open>k\<close>
  leads to the verse at \<open>i + k\<close>, across chapters and in either direction, and to nothing when there is no
  such verse.
\<close>

theorem adjacent_is_offset:
  assumes "chapters_ok (bk_chapters book)" "i < length (verses (bk_chapters book))"
  shows "adjacent_bible_selection book (select sel (verses (bk_chapters book) ! i)) k =
      (if 0 \<le> int i + k \<and> int i + k < int (length (verses (bk_chapters book)))
       then Some (select sel (verses (bk_chapters book) ! nat (int i + k))) else None)"
  using assms by (rule select_adjacent)

definition slice_entry :: "bible_chapters \<Rightarrow> string \<times> string \<Rightarrow> bible_verse_slice" where
  "slice_entry chs p = \<lparr>sl_chapter = fst p, sl_verse = Some (snd p),
     sl_text = (case verse_text chs (at_verse p) of Some t \<Rightarrow> t | None \<Rightarrow> [])\<rparr>"

lemma slice_from_verses:
  assumes ok: "chapters_ok (bk_chapters book)" and i: "i < length (verses (bk_chapters book))"
  shows "slice_from n book (Some (select sel (verses (bk_chapters book) ! i)))
    = map (slice_entry (bk_chapters book)) (take n (drop i (verses (bk_chapters book))))"
  using i
proof (induction n arbitrary: i)
  case (Suc n)
  let ?V = "verses (bk_chapters book)"
  obtain c v where p: "?V ! i = (c, v)" by fastforce
  then obtain t ts where t: "verse_text (bk_chapters book) (c, Some v) = Some (t # ts)"
    using verse_is_valid [OF ok, of c v] nth_mem [OF Suc.prems] by auto
  have d: "drop i ?V = (c, v) # drop (Suc i) ?V" using Suc.prems p by (metis Cons_nth_drop_Suc)
  have adj: "adjacent_bible_selection book (select sel (?V ! i)) 1
      = (if Suc i < length ?V then Some (select sel (?V ! Suc i)) else None)"
    using select_adjacent [OF ok Suc.prems, of sel 1] by (simp add: nat_add_distrib)
  have none: "slice_from n book None = []" by (cases n) simp_all
  have e: "slice_entry (bk_chapters book) (c, v) = \<lparr>sl_chapter = c, sl_verse = Some v, sl_text = t # ts\<rparr>"
    by (simp add: slice_entry_def t)
  show ?case
  proof (cases "Suc i < length ?V")
    case True
    with Suc.IH [OF True] adj show ?thesis by (simp add: d p t e select_def)
  next
    case False
    with adj none show ?thesis by (simp add: d p t e select_def)
  qed
qed simp

text \<open>
  A slice of verses is that part of the book: starting at the verse at index \<open>i\<close> it lists the next
  \<open>n\<close> verses with their texts in order, fewer only at the end of the book.
\<close>

lemma slice_is_part_of_book:
  assumes "chapters_ok (bk_chapters book)" "i < length (verses (bk_chapters book))"
  shows "bible_verse_slice book (select sel (verses (bk_chapters book) ! i)) n
    = map (slice_entry (bk_chapters book)) (take n (drop i (verses (bk_chapters book))))"
  unfolding bible_verse_slice_def using assms by (rule slice_from_verses)

section \<open>Witnesses\<close>

definition sample_book :: bible_book where
  "sample_book = \<lparr>bk_translation = ''KJV'', bk_title = ''Example'', bk_slug = ''example'',
     bk_chapters = [(''2'', [(''1'', ''d'')]), (''1'', [(''1'', ''a''), (''2'', ''b'')])],
     bk_markers = \<lparr>bm_schema_version = 1, bm_book = ''Example'', bm_chapters = []\<rparr>\<rparr>"

definition sample_selection :: bible_selection where
  "sample_selection = \<lparr>bs_book_slug = ''example'', bs_chapter = ''1'', bs_verse = Some ''2'', bs_is_open = True\<rparr>"

lemma sample_book_ok: "chapters_ok (bk_chapters sample_book)" "verses (bk_chapters sample_book) = [(''1'', ''1''), (''1'', ''2''), (''2'', ''1'')]"
  by code_simp+

lemma adjacent_is_offset_witness:
  "adjacent_bible_selection sample_book sample_selection 1
     = Some (sample_selection\<lparr>bs_chapter := ''2'', bs_verse := Some ''1''\<rparr>)"
  using adjacent_is_offset [OF sample_book_ok(1), of 1 sample_selection 1]
  by (simp add: sample_book_ok(2) select_def sample_selection_def nat_add_distrib)

lemma slice_is_part_of_book_witness:
  "length (bible_verse_slice sample_book sample_selection 5) = 2"
  using slice_is_part_of_book [OF sample_book_ok(1), of 1 sample_selection 5]
  by (simp add: sample_book_ok(2) select_def sample_selection_def)

lemma book_cache_holds_recent_witness:
  "map_keys (bc_books (book_answered ''example'' (Some sample_book) (snd (fetch_bible_book ''example'' empty_bible_cache))))
     = [''example'']"
proof -
  have f: "fetch_bible_book ''example'' empty_bible_cache
      = (BookRequest ''example'', snd (fetch_bible_book ''example'' empty_bible_cache))"
    "''example'' \<in> set (bc_pending (snd (fetch_bible_book ''example'' empty_bible_cache)))"
    by code_simp+
  from book_cache_holds_recent [OF run_answer [OF run_miss [OF run_start f(1)] f(2), of sample_book]]
  show ?thesis by (simp add: recency_def last_n_def sample_book_def max_book_cache_size_def)
qed

end
