(* ===== verification/BibleLocation.thy ===== *)
theory BibleLocation
  imports UrlText BibleReader
begin

text \<open>
  Links into the Bible reader: \<open>components/bible/location.ts\<close> parses and prints them, in the form of a
  path and in the form of a query, and finds the book of a link; \<open>atoms/bible.ts\<close> brings the stored
  preferences into their declared form. Chapter and verse numbers stay below the integers that a
  floating point number holds exactly.
\<close>

section \<open>Links\<close>

datatype bible_url_mode = QueryMode | PathMode

record bible_location_input =
  li_book :: string
  li_chapter :: string
  li_verse :: string
  li_is_open :: bool

record parsed_bible_location =
  pl_mode :: bible_url_mode
  pl_input :: "bible_location_input option"
  pl_error :: "string option"

record resolved_bible_location =
  rl_book_slug :: string
  rl_chapter :: string
  rl_verse :: string
  rl_is_open :: bool
  rl_book_title :: string
  rl_mode :: bible_url_mode

definition positive_integer :: "string option \<Rightarrow> string option" where
  "positive_integer v =
     (case v of
        Some s \<Rightarrow> if all_digits s \<and> 0 < parse_nat s then Some (dec_nat (parse_nat s)) else None
      | None \<Rightarrow> None)"

text \<open>\<open>s.replace(/X+/g, "-")\<close> for a class of characters \<open>X\<close>.\<close>

fun dash_runs :: "(char \<Rightarrow> bool) \<Rightarrow> string \<Rightarrow> string" where
  "dash_runs P [] = []"
| "dash_runs P [c] = (if P c then ''-'' else [c])"
| "dash_runs P (c # d # s) =
     (if P c then if P d then dash_runs P (d # s) else CHR ''-'' # dash_runs P (d # s)
      else c # dash_runs P (d # s))"

definition strip_dash :: "string \<Rightarrow> string" where
  "strip_dash s =
     (let t = (case s of c # cs \<Rightarrow> if c = CHR ''-'' then cs else s | [] \<Rightarrow> [])
      in if t \<noteq> [] \<and> last t = CHR ''-'' then butlast t else t)"

definition normalize_book_lookup :: "string \<Rightarrow> string" where
  "normalize_book_lookup v =
     strip_dash (dash_runs (\<lambda>c. c = CHR ''-'') (dash_runs (\<lambda>c. c = CHR ''_'' \<or> is_space c) (to_lower (js_trim v))))"

text \<open>The four parts of a path \<open>/kjv/book/chapter/verse/state\<close>, with or without a final slash.\<close>

definition path_match :: "string \<Rightarrow> (string \<times> string \<times> string \<times> string) option" where
  "path_match path =
     (case split_at (CHR ''/'') path of
        [root, kjv, book, chapter, verse, state] \<Rightarrow>
          if root = [] \<and> to_lower kjv = ''kjv'' \<and> book \<noteq> [] \<and> chapter \<noteq> [] \<and> verse \<noteq> [] \<and> state \<noteq> []
          then Some (book, chapter, verse, state) else None
      | [root, kjv, book, chapter, verse, state, end'] \<Rightarrow>
          if root = [] \<and> to_lower kjv = ''kjv'' \<and> book \<noteq> [] \<and> chapter \<noteq> [] \<and> verse \<noteq> [] \<and> state \<noteq> [] \<and> end' = []
          then Some (book, chapter, verse, state) else None
      | _ \<Rightarrow> None)"

definition malformed_book :: parsed_bible_location where
  "malformed_book = \<lparr>pl_mode = PathMode, pl_input = None,
     pl_error = Some ''The book name in this Bible link is malformed.''\<rparr>"

definition invalid_path :: parsed_bible_location where
  "invalid_path = \<lparr>pl_mode = PathMode, pl_input = None,
     pl_error = Some ''This Bible path must include a valid chapter, verse, and open or closed state.''\<rparr>"

definition parse_path :: "string \<times> string \<times> string \<times> string \<Rightarrow> parsed_bible_location" where
  "parse_path parts =
     (case parts of (b, c, v, st) \<Rightarrow>
        (case decode_uri_component b of
           None \<Rightarrow> malformed_book
         | Some book \<Rightarrow>
             (case (positive_integer (Some c), positive_integer (Some v)) of
                (Some chapter, Some verse) \<Rightarrow>
                  if to_lower st \<noteq> ''open'' \<and> to_lower st \<noteq> ''closed'' then invalid_path
                  else \<lparr>pl_mode = PathMode, pl_input = Some \<lparr>li_book = book, li_chapter = chapter, li_verse = verse,
                    li_is_open = (to_lower st = ''open'')\<rparr>, pl_error = None\<rparr>
              | _ \<Rightarrow> invalid_path)))"

definition query_error :: "string \<Rightarrow> parsed_bible_location" where
  "query_error message = \<lparr>pl_mode = QueryMode, pl_input = None, pl_error = Some message\<rparr>"

definition parse_query :: "search_params \<Rightarrow> parsed_bible_location" where
  "parse_query ps =
     (case (param_get ps ''bt'', param_get ps ''c'', param_get ps ''v'', param_get ps ''o'') of
        (None, None, None, None) \<Rightarrow> \<lparr>pl_mode = QueryMode, pl_input = None, pl_error = None\<rparr>
      | (Some book, Some c, Some v, Some st) \<Rightarrow>
          (case (positive_integer (Some c), positive_integer (Some v)) of
             (Some chapter, Some verse) \<Rightarrow>
               if book = [] \<or> st \<noteq> ''0'' \<and> st \<noteq> ''1''
               then query_error ''This Bible link contains an invalid book, chapter, verse, or reader state.''
               else \<lparr>pl_mode = QueryMode, pl_input = Some \<lparr>li_book = book, li_chapter = chapter, li_verse = verse,
                 li_is_open = (st = ''1'')\<rparr>, pl_error = None\<rparr>
           | _ \<Rightarrow> query_error ''This Bible link contains an invalid book, chapter, verse, or reader state.'')
      | _ \<Rightarrow> query_error ''This Bible link is incomplete. It needs book, chapter, verse, and reader state.'')"

definition parse_bible_location :: "string \<Rightarrow> string \<Rightarrow> parsed_bible_location" where
  "parse_bible_location pathname search =
     (case path_match pathname of
        Some parts \<Rightarrow> parse_path parts
      | None \<Rightarrow> parse_query (parse_params search))"

definition resolve_book_summary :: "bible_book_summary list \<Rightarrow> string \<Rightarrow> bible_book_summary option" where
  "resolve_book_summary books v =
     (let n = normalize_book_lookup v; name = (if n = ''psalm'' then ''psalms'' else n)
      in List.find (\<lambda>book. normalize_book_lookup (sm_slug book) = name \<or> normalize_book_lookup (sm_title book) = name) books)"

definition resolve_bible_location ::
  "bible_book_summary list \<Rightarrow> parsed_bible_location \<Rightarrow> resolved_bible_location option" where
  "resolve_bible_location books parsed =
     (case pl_input parsed of
        None \<Rightarrow> None
      | Some input \<Rightarrow>
          map_option (\<lambda>book. \<lparr>rl_book_slug = sm_slug book, rl_chapter = li_chapter input, rl_verse = li_verse input,
            rl_is_open = li_is_open input, rl_book_title = sm_title book, rl_mode = pl_mode parsed\<rparr>)
            (resolve_book_summary books (li_book input)))"

definition bible_location_url :: "resolved_bible_location \<Rightarrow> bible_url_mode \<Rightarrow> string" where
  "bible_location_url loc mode =
     (case mode of
        PathMode \<Rightarrow> ''/kjv/'' @ encode_uri_component (rl_book_slug loc) @ ''/'' @ rl_chapter loc @ ''/'' @ rl_verse loc @ ''/''
          @ (if rl_is_open loc then ''open'' else ''closed'')
      | QueryMode \<Rightarrow> ''/kjv?'' @ params_string
          [(''bt'', rl_book_title loc), (''c'', rl_chapter loc), (''v'', rl_verse loc), (''o'', if rl_is_open loc then ''1'' else ''0'')])"

section \<open>Round trips\<close>

text \<open>What every location that the reader prints has: canonical numbers and a named book.\<close>

definition canonical_number :: "string \<Rightarrow> bool" where
  "canonical_number s = (\<exists>n > 0. s = dec_nat n)"

definition location_ok :: "resolved_bible_location \<Rightarrow> bool" where
  "location_ok loc = (canonical_number (rl_chapter loc) \<and> canonical_number (rl_verse loc)
     \<and> rl_book_slug loc \<noteq> [] \<and> rl_book_title loc \<noteq> [])"

lemma positive_canonical: "canonical_number s \<Longrightarrow> positive_integer (Some s) = Some s"
  using dec_nat_digits by (auto simp: canonical_number_def positive_integer_def all_digits_def)

lemma positive_integer_canonical: "positive_integer v = Some s \<Longrightarrow> canonical_number s"
  by (auto simp: canonical_number_def positive_integer_def split: option.splits if_splits)

lemma canonical_nonempty: "canonical_number s \<Longrightarrow> s \<noteq> []"
  by (auto simp: canonical_number_def)

lemma canonical_no_slash: "canonical_number s \<Longrightarrow> c \<in> set s \<Longrightarrow> is_digit c"
  using dec_nat_digits by (auto simp: canonical_number_def list_all_iff)

lemma digit_url: "is_digit c \<Longrightarrow> url_char c"
  by (auto simp: is_digit_def url_char_def)

lemma encode_nonempty: "s \<noteq> [] \<Longrightarrow> encode_uri_component s \<noteq> []"
  by (cases s) (auto simp: encode_uri_cons percent_char_def percent_def Let_def)

definition state_text :: "bool \<Rightarrow> string" where
  "state_text b = (if b then ''open'' else ''closed'')"

lemma state_text_simps: "to_lower (state_text b) = state_text b" "state_text b \<noteq> []" "list_all url_char (state_text b)"
  "(state_text b = ''open'') = b" "(state_text b = ''closed'') = (\<not> b)"
proof -
  have "to_lower ''open'' = ''open''" "to_lower ''closed'' = ''closed''" by code_simp+
  then show "to_lower (state_text b) = state_text b" by (simp add: state_text_def)
qed (simp_all add: state_text_def url_char_def)

lemma path_url_join:
  "bible_location_url loc PathMode = js_join ''/''
     [[], ''kjv'', encode_uri_component (rl_book_slug loc), rl_chapter loc, rl_verse loc, state_text (rl_is_open loc)]"
  by (simp add: bible_location_url_def state_text_def)

lemma path_parts_url:
  assumes "location_ok loc" "x \<in> set [[], ''kjv'', encode_uri_component (rl_book_slug loc), rl_chapter loc, rl_verse loc,
    state_text (rl_is_open loc)]" "c \<in> set x"
  shows "url_char c"
proof -
  have "url_char c" if "c \<in> set (rl_chapter loc) \<union> set (rl_verse loc)"
    using that assms(1) canonical_no_slash digit_url by (auto simp: location_ok_def)
  moreover have "url_char c" if "c \<in> set (state_text (rl_is_open loc))"
    using that state_text_simps(3) by (auto simp: list_all_iff)
  moreover have "url_char c" if "c \<in> set ''kjv''" using that by (auto simp: url_char_def)
  moreover have "url_char c" if "c \<in> set (encode_uri_component (rl_book_slug loc))" using that encoded_chars by blast
  ultimately show ?thesis using assms(2,3) by auto
qed

lemma lower_kjv: "to_lower ''kjv'' = ''kjv''"
  by code_simp

lemma path_match_parts:
  assumes "split_at (CHR ''/'') path = [[], kjv, b, c, v, st]" "to_lower kjv = ''kjv''"
    and "b \<noteq> []" "c \<noteq> []" "v \<noteq> []" "st \<noteq> []"
  shows "path_match path = Some (b, c, v, st)"
  unfolding path_match_def assms(1) using assms(2-) by simp

lemma path_of_url:
  assumes ok: "location_ok loc"
  shows "path_match (bible_location_url loc PathMode) =
    Some (encode_uri_component (rl_book_slug loc), rl_chapter loc, rl_verse loc, state_text (rl_is_open loc))"
proof -
  have "split_at (CHR ''/'') (bible_location_url loc PathMode) =
    [[], ''kjv'', encode_uri_component (rl_book_slug loc), rl_chapter loc, rl_verse loc, state_text (rl_is_open loc)]"
    unfolding path_url_join
  proof (rule split_join)
    fix x assume "x \<in> set [[], ''kjv'', encode_uri_component (rl_book_slug loc), rl_chapter loc, rl_verse loc,
      state_text (rl_is_open loc)]"
    from path_parts_url [OF ok this, of "CHR ''/''"] show "CHR ''/'' \<notin> set x" by (auto simp: url_char_def)
  qed simp
  then show ?thesis
    by (rule path_match_parts [OF _ lower_kjv])
      (use ok in \<open>auto simp: location_ok_def canonical_nonempty state_text_simps encode_nonempty\<close>)
qed

lemma url_parts:
  "location_ok loc \<Longrightarrow> url_path (bible_location_url loc PathMode) = bible_location_url loc PathMode"
  "url_path (bible_location_url loc QueryMode) = ''/kjv''"
  "url_search (bible_location_url loc QueryMode) = CHR ''?'' # params_string [(''bt'', rl_book_title loc),
     (''c'', rl_chapter loc), (''v'', rl_verse loc), (''o'', if rl_is_open loc then ''1'' else ''0'')]"
proof -
  assume ok: "location_ok loc"
  have "CHR ''?'' \<notin> set (bible_location_url loc PathMode)"
  proof
    assume "CHR ''?'' \<in> set (bible_location_url loc PathMode)"
    then obtain x where "x \<in> set [[], ''kjv'', encode_uri_component (rl_book_slug loc), rl_chapter loc, rl_verse loc,
        state_text (rl_is_open loc)]" "CHR ''?'' \<in> set x"
      unfolding path_url_join by auto
    from path_parts_url [OF ok this] show False by (simp add: url_char_def)
  qed
  then show "url_path (bible_location_url loc PathMode) = bible_location_url loc PathMode"
    unfolding url_path_def takeWhile_eq_all_conv by blast
next
  show "url_path (bible_location_url loc QueryMode) = ''/kjv''"
    by (simp add: url_path_def bible_location_url_def)
  show "url_search (bible_location_url loc QueryMode) = CHR ''?'' # params_string [(''bt'', rl_book_title loc),
     (''c'', rl_chapter loc), (''v'', rl_verse loc), (''o'', if rl_is_open loc then ''1'' else ''0'')]"
    by (simp add: url_search_def bible_location_url_def)
qed

definition printed_input :: "resolved_bible_location \<Rightarrow> bible_url_mode \<Rightarrow> bible_location_input" where
  "printed_input loc mode = \<lparr>li_book = (case mode of PathMode \<Rightarrow> rl_book_slug loc | QueryMode \<Rightarrow> rl_book_title loc),
     li_chapter = rl_chapter loc, li_verse = rl_verse loc, li_is_open = rl_is_open loc\<rparr>"

lemma parse_printed:
  assumes ok: "location_ok loc"
  shows "parse_bible_location (url_path (bible_location_url loc mode)) (url_search (bible_location_url loc mode)) =
    \<lparr>pl_mode = mode, pl_input = Some (printed_input loc mode), pl_error = None\<rparr>"
proof -
  have num: "positive_integer (Some (rl_chapter loc)) = Some (rl_chapter loc)"
    "positive_integer (Some (rl_verse loc)) = Some (rl_verse loc)" "rl_book_title loc \<noteq> []"
    using ok by (auto simp: location_ok_def positive_canonical)
  show ?thesis
  proof (cases mode)
    case PathMode
    then show ?thesis
      by (simp add: parse_bible_location_def url_parts(1) [OF ok] path_of_url [OF ok] parse_path_def num
          state_text_simps printed_input_def)
  next
    case QueryMode
    have "path_match ''/kjv'' = None" by (simp add: path_match_def)
    with QueryMode num show ?thesis
      by (simp add: parse_bible_location_def url_parts(2,3) parse_params_string parse_query_def param_get_def printed_input_def)
  qed
qed

text \<open>The numbers of a parsed link are canonical.\<close>

lemma parsed_numbers:
  "pl_input (parse_bible_location path search) = Some input \<Longrightarrow>
     canonical_number (li_chapter input) \<and> canonical_number (li_verse input)"
  by (auto simp: parse_bible_location_def parse_path_def parse_query_def malformed_book_def invalid_path_def query_error_def
      split: option.splits prod.splits if_splits dest: positive_integer_canonical)

text \<open>A catalogue in which every book is found by its slug and by its title.\<close>

definition catalogue_ok :: "bible_book_summary list \<Rightarrow> bool" where
  "catalogue_ok books = list_all (\<lambda>b. sm_slug b \<noteq> [] \<and> sm_title b \<noteq> []
     \<and> resolve_book_summary books (sm_slug b) = Some b \<and> resolve_book_summary books (sm_title b) = Some b) books"


definition sample_books :: "bible_book_summary list" where
  "sample_books = [\<lparr>sm_title = ''Ab C'', sm_slug = ''ab-c'', sm_testament = ''Old Testament'',
     sm_division = ''Wisdom Books'', sm_canonical_order = 22, sm_division_order = 8, sm_book_order = 5,
     sm_chapter_count = 8, sm_verse_count = 117\<rparr>]"

definition sample_location :: resolved_bible_location where
  "sample_location = \<lparr>rl_book_slug = ''ab-c'', rl_chapter = ''2'', rl_verse = ''3'', rl_is_open = False,
     rl_book_title = ''Ab C'', rl_mode = PathMode\<rparr>"


section \<open>Preferences\<close>

record bible_favorite =
  fv_book_slug :: string
  fv_book_title :: string
  fv_chapter :: string
  fv_verse :: string
  fv_is_open :: bool
  fv_title :: string

record bible_preferences =
  bp_book_slug :: string
  bp_chapter :: string
  bp_verse :: string
  bp_is_open :: bool
  bp_speech_enabled :: bool
  bp_voice :: string
  bp_favorites :: "bible_favorite list"

definition default_bible_preferences :: bible_preferences where
  "default_bible_preferences = \<lparr>bp_book_slug = [], bp_chapter = ''1'', bp_verse = ''1'', bp_is_open = False,
     bp_speech_enabled = False, bp_voice = [], bp_favorites = []\<rparr>"

definition string_value :: "jsval \<Rightarrow> string \<Rightarrow> nat \<Rightarrow> string" where
  "string_value v fallback max_length = (case v of JStr s \<Rightarrow> take max_length (js_trim s) | _ \<Rightarrow> fallback)"

definition positive_integer_string :: "jsval \<Rightarrow> string" where
  "positive_integer_string v =
     (let candidate = string_value v ''1'' 12
      in if all_digits candidate \<and> 0 < parse_nat candidate then dec_nat (parse_nat candidate) else ''1'')"

definition boolean_value :: "jsval \<Rightarrow> bool \<Rightarrow> bool" where
  "boolean_value v fallback = (case v of JBool b \<Rightarrow> b | _ \<Rightarrow> fallback)"

text \<open>\<open>typeof v === "object"\<close> for a value that is not \<open>null\<close>.\<close>

definition is_object :: "jsval \<Rightarrow> bool" where
  "is_object v = (case v of JObj _ \<Rightarrow> True | JArr _ \<Rightarrow> True | JMap _ \<Rightarrow> True | _ \<Rightarrow> False)"

definition normalize_favorite :: "jsval \<Rightarrow> bible_favorite" where
  "normalize_favorite v = \<lparr>fv_book_slug = string_value (fld v ''bookSlug'') [] 200,
     fv_book_title = string_value (fld v ''bookTitle'') [] 200,
     fv_chapter = positive_integer_string (fld v ''chapter''), fv_verse = positive_integer_string (fld v ''verse''),
     fv_is_open = boolean_value (fld v ''isOpen'') True, fv_title = string_value (fld v ''title'') [] 200\<rparr>"

definition named_favorite :: "bible_favorite \<Rightarrow> bool" where
  "named_favorite f = (fv_book_slug f \<noteq> [] \<and> fv_book_title f \<noteq> [] \<and> fv_title f \<noteq> [])"

definition normalize_bible_preferences :: "jsval \<Rightarrow> bible_preferences" where
  "normalize_bible_preferences v =
     (if \<not> is_object v then default_bible_preferences
      else
        let sel = (if is_object (fld v ''selection'') then fld v ''selection'' else JObj []);
            raw = (case fld v ''favorites'' of JArr xs \<Rightarrow> xs | _ \<Rightarrow> [])
        in \<lparr>bp_book_slug = string_value (fld sel ''bookSlug'') [] 200,
            bp_chapter = positive_integer_string (fld sel ''chapter''),
            bp_verse = positive_integer_string (fld sel ''verse''),
            bp_is_open = boolean_value (fld sel ''isOpen'') False,
            bp_speech_enabled = boolean_value (fld v ''speechEnabled'') False,
            bp_voice = string_value (fld v ''selectedVoiceURI'') [] 512,
            bp_favorites = filter named_favorite (map normalize_favorite (filter is_object (take 500 raw)))\<rparr>)"

text \<open>The preferences as the atom stores them, and the atom's writer.\<close>

definition favorite_value :: "bible_favorite \<Rightarrow> jsval" where
  "favorite_value f = JObj [(''bookSlug'', JStr (fv_book_slug f)), (''bookTitle'', JStr (fv_book_title f)),
     (''chapter'', JStr (fv_chapter f)), (''verse'', JStr (fv_verse f)), (''isOpen'', JBool (fv_is_open f)),
     (''title'', JStr (fv_title f))]"

definition preferences_value :: "bible_preferences \<Rightarrow> jsval" where
  "preferences_value p = JObj [
     (''selection'', JObj [(''bookSlug'', JStr (bp_book_slug p)), (''chapter'', JStr (bp_chapter p)),
        (''verse'', JStr (bp_verse p)), (''isOpen'', JBool (bp_is_open p))]),
     (''speechEnabled'', JBool (bp_speech_enabled p)), (''selectedVoiceURI'', JStr (bp_voice p)),
     (''favorites'', JArr (map favorite_value (bp_favorites p)))]"

definition write_bible_preferences :: "(bible_preferences \<Rightarrow> bible_preferences) \<Rightarrow> jsval \<Rightarrow> jsval" where
  "write_bible_preferences update stored =
     preferences_value (normalize_bible_preferences (preferences_value (update (normalize_bible_preferences stored))))"

definition short_number :: "string \<Rightarrow> bool" where
  "short_number s = (canonical_number s \<and> length s \<le> 12)"

definition favorite_ok :: "bible_favorite \<Rightarrow> bool" where
  "favorite_ok f = (named_favorite f \<and> short_number (fv_chapter f) \<and> short_number (fv_verse f)
     \<and> length (fv_book_slug f) \<le> 200 \<and> length (fv_book_title f) \<le> 200 \<and> length (fv_title f) \<le> 200)"

definition preferences_ok :: "bible_preferences \<Rightarrow> bool" where
  "preferences_ok p = (short_number (bp_chapter p) \<and> short_number (bp_verse p) \<and> length (bp_book_slug p) \<le> 200
     \<and> length (bp_voice p) \<le> 512 \<and> length (bp_favorites p) \<le> 500 \<and> list_all favorite_ok (bp_favorites p))"

lemma string_value_length: "length fallback \<le> n \<Longrightarrow> length (string_value v fallback n) \<le> n"
  by (simp add: string_value_def split: jsval.split)

lemma dec_nat_length: "n < 10 ^ k \<Longrightarrow> 0 < k \<Longrightarrow> length (dec_nat n) \<le> k"
proof (induction k arbitrary: n)
  case (Suc k)
  show ?case
  proof (cases "n < 10")
    case True
    then show ?thesis by (simp add: dec_nat_small)
  next
    case False
    then have "n div 10 < 10 ^ k" using Suc.prems by (simp add: div_less_iff_less_mult)
    moreover have "0 < k" using False Suc.prems by (cases k) simp_all
    ultimately
    show ?thesis using Suc.IH [of "n div 10"] False by (simp add: dec_nat.simps [of n])
  qed
qed simp

lemma parse_nat_bound: "list_all is_digit s \<Longrightarrow> parse_nat s < 10 ^ length s"
proof (induction s rule: rev_induct)
  case (snoc c s)
  then have "digit_val c < 10" by (auto simp: is_digit_def digit_val_def)
  moreover have "parse_nat (s @ [c]) = 10 * parse_nat s + digit_val c" by (simp add: parse_nat_def)
  ultimately show ?case using snoc by simp
qed (simp add: parse_nat_def)

lemma short_positive: "short_number (positive_integer_string v)"
proof -
  have one: "''1'' = dec_nat 1" by code_simp
  let ?c = "string_value v ''1'' 12"
  have l: "length ?c \<le> 12" by (rule string_value_length) simp
  have "length (dec_nat (parse_nat ?c)) \<le> 12" if "all_digits ?c"
  proof (rule dec_nat_length)
    have "parse_nat ?c < 10 ^ length ?c" using that by (intro parse_nat_bound) (simp add: all_digits_def)
    also have "\<dots> \<le> 10 ^ 12" using l by (intro power_increasing) simp_all
    finally show "parse_nat ?c < 10 ^ 12" .
  qed simp
  then show ?thesis
    by (auto simp: positive_integer_string_def Let_def short_number_def canonical_number_def one dec_nat_small
        intro: exI [of _ "1::nat"])
qed

text \<open>
  Whatever a browser has stored, the preferences the reader works with are well formed: positive
  decimal chapter and verse numbers of at most twelve digits, texts within their lengths, and at most
  500 favorites, each with a book, a title and valid numbers.
\<close>

lemma preferences_well_formed: "preferences_ok (normalize_bible_preferences v)"
proof -
  have fav: "favorite_ok (normalize_favorite x)" if "named_favorite (normalize_favorite x)" for x
    using that by (simp add: favorite_ok_def normalize_favorite_def short_positive string_value_length)
  have len: "length (filter named_favorite (map normalize_favorite (filter is_object (take 500 xs)))) \<le> 500" for xs
    by (rule order_trans [OF length_filter_le]) (simp add: order_trans [OF length_filter_le])
  have "positive_integer_string JUndef = ''1''" by code_simp
  then have one: "short_number ''1''" using short_positive [of JUndef] by simp
  show ?thesis
    using fav len one
    by (auto simp: normalize_bible_preferences_def preferences_ok_def default_bible_preferences_def Let_def short_positive
        string_value_length list_all_iff)
qed

definition trimmed :: "string \<Rightarrow> bool" where
  "trimmed s = (js_trim s = s)"

definition trimmed_preferences :: "bible_preferences \<Rightarrow> bool" where
  "trimmed_preferences p = (trimmed (bp_book_slug p) \<and> trimmed (bp_voice p)
     \<and> list_all (\<lambda>f. trimmed (fv_book_slug f) \<and> trimmed (fv_book_title f) \<and> trimmed (fv_title f)) (bp_favorites p))"

lemma string_value_id: "trimmed s \<Longrightarrow> length s \<le> n \<Longrightarrow> string_value (JStr s) fallback n = s"
  by (simp add: string_value_def trimmed_def)

lemma positive_value_id: "short_number s \<Longrightarrow> positive_integer_string (JStr s) = s"
  using dec_nat_digits
  by (auto simp: positive_integer_string_def string_value_def short_number_def canonical_number_def all_digits_def
      js_trim_digits Let_def)

lemma favorite_value_id:
  assumes "favorite_ok f" "trimmed (fv_book_slug f)" "trimmed (fv_book_title f)" "trimmed (fv_title f)"
  shows "normalize_favorite (favorite_value f) = f" "named_favorite f" "is_object (favorite_value f)"
  using assms
  by (simp_all add: favorite_value_def normalize_favorite_def favorite_ok_def string_value_id positive_value_id
      boolean_value_def is_object_def)

text \<open>
  What the reader writes is what it reads back: well formed preferences whose texts have no
  surrounding space survive being stored.
\<close>

lemma preferences_round_trip:
  assumes "preferences_ok p" "trimmed_preferences p"
  shows "normalize_bible_preferences (preferences_value p) = p"
proof -
  have fav: "normalize_favorite (favorite_value f) = f" "named_favorite f" "is_object (favorite_value f)"
    if "f \<in> set (bp_favorites p)" for f
    using that assms favorite_value_id [of f] by (auto simp: preferences_ok_def trimmed_preferences_def list_all_iff)
  have "filter is_object (take 500 (map favorite_value (bp_favorites p))) = map favorite_value (bp_favorites p)"
    using assms(1) fav(3) by (auto simp: preferences_ok_def intro!: filter_True)
  moreover have "map normalize_favorite (map favorite_value (bp_favorites p)) = bp_favorites p"
    using fav(1) by (simp add: map_idI)
  moreover have "filter named_favorite (bp_favorites p) = bp_favorites p"
    using fav(2) by (simp add: filter_True)
  ultimately show ?thesis using assms
    by (simp add: normalize_bible_preferences_def preferences_value_def is_object_def string_value_id positive_value_id
        boolean_value_def preferences_ok_def trimmed_preferences_def del: map_map)
qed

lemma preferences_round_trip_witness:
  "normalize_bible_preferences (preferences_value default_bible_preferences) = default_bible_preferences"
proof (rule preferences_round_trip)
  show "preferences_ok default_bible_preferences"
    using preferences_well_formed [of JNull] by (simp add: normalize_bible_preferences_def is_object_def)
  show "trimmed_preferences default_bible_preferences" by code_simp
qed

end
