(* ===== verification/FeedPaging.thy ===== *)
theory FeedPaging
  imports ForumAtoms JsText AuthAtoms
begin

text \<open>
  The two hooks that fill a feed page by page: \<open>hooks/useThreadsFeed.ts\<close> and
  \<open>hooks/useCommentsFeed.ts\<close>. Each keeps its list, its offset and some flags in refs; requests and their
  answers, the scroll position and the effects of a commit are separate operations. Both implement the
  interface of a paged feed, from which it follows that scrolling shows the whole list of the server.
\<close>

section \<open>State\<close>

text \<open>
  \<open>fd_scrolls\<close> records the scroll positions set by the hook; \<open>fd_committed\<close> the \<open>isLoading\<close> flag, the
  number of items and the items of the last commit, which decide what effects run.
\<close>

datatype scroll_action = ScrollToBottom | KeepPosition

record 'a feed =
  fd_items :: "'a list"
  fd_is_loading :: bool
  fd_loading :: bool
  fd_offset :: nat
  fd_loading_ref :: bool
  fd_exhausted :: bool
  fd_initial :: bool
  fd_at_bottom :: bool
  fd_prev_count :: nat
  fd_highlighted :: "'a option"
  fd_scrolls :: "scroll_action list"
  fd_committed :: "(bool \<times> 'a list) option"

definition new_feed :: "'a list \<Rightarrow> 'a feed" where
  "new_feed items = \<lparr>fd_items = items, fd_is_loading = True, fd_loading = False, fd_offset = 0, fd_loading_ref = False,
     fd_exhausted = False, fd_initial = True, fd_at_bottom = True, fd_prev_count = 0, fd_highlighted = None,
     fd_scrolls = [], fd_committed = None\<rparr>"

definition scroll :: "scroll_action \<Rightarrow> 'a feed \<Rightarrow> 'a feed" where
  "scroll a f = f\<lparr>fd_scrolls := fd_scrolls f @ [a]\<rparr>"

definition scroll_to_bottom :: "'a feed \<Rightarrow> 'a feed" where
  "scroll_to_bottom f = (scroll ScrollToBottom f)\<lparr>fd_at_bottom := True\<rparr>"

definition handle_scroll :: "int \<Rightarrow> int \<Rightarrow> int \<Rightarrow> 'a feed \<Rightarrow> 'a feed" where
  "handle_scroll scroll_top scroll_height client_height f =
     f\<lparr>fd_at_bottom := scroll_height - scroll_top - client_height < 80\<rparr>"

section \<open>Thread feeds\<close>

record feed_options =
  fo_author_id :: "string option"
  fo_category_id :: "string option"
  fo_search :: "string option"
  fo_limit :: nat

definition default_limit :: nat where "default_limit = 15"

text \<open>A given, non-empty option.\<close>

definition given :: "string option \<Rightarrow> bool" where
  "given v = (case v of Some (c # cs) \<Rightarrow> True | _ \<Rightarrow> False)"

definition or_text :: "string option \<Rightarrow> string" where
  "or_text v = (case v of Some s \<Rightarrow> s | None \<Rightarrow> [])"

definition filter_key :: "feed_options \<Rightarrow> string" where
  "filter_key opts =
     (if \<not> given (fo_category_id opts) \<and> \<not> given (fo_author_id opts) then ''all-'' @ or_text (fo_search opts)
      else or_text (case fo_category_id opts of Some c \<Rightarrow> Some c | None \<Rightarrow> fo_author_id opts) @ ''-'' @ or_text (fo_search opts))"

definition feed_atom :: "feed_options \<Rightarrow> atom" where
  "feed_atom opts = (if given (fo_category_id opts) then CategoryFeedThreadsAtom
     else if given (fo_author_id opts) then UserFeedThreadsAtom else AllFeedThreadsAtom)"

definition active_id_atom :: "feed_options \<Rightarrow> atom" where
  "active_id_atom opts = (if given (fo_category_id opts) then ActiveCategoryFeedIdAtom
     else if given (fo_author_id opts) then ActiveUserFeedIdAtom else ActiveAllFeedIdAtom)"

definition build_url :: "feed_options \<Rightarrow> nat \<Rightarrow> string" where
  "build_url opts offset =
     (let filter_part = (if given (fo_category_id opts) then ''&category_id='' @ or_text (fo_category_id opts)
            else if given (fo_author_id opts) then ''&author_id='' @ or_text (fo_author_id opts) else [])
      in ''/forum/threads?limit='' @ dec_nat (fo_limit opts) @ ''&offset='' @ dec_nat offset @ filter_part
         @ (if given (fo_search opts) then ''&q='' @ encode_uri_component (or_text (fo_search opts)) else []))"

text \<open>\<open>loadInitial\<close> and \<open>loadOlder\<close> up to the request and after its answer; \<open>None\<close> is a failed request.\<close>

definition threads_load_initial :: "'a feed \<Rightarrow> 'a feed" where
  "threads_load_initial f = f\<lparr>fd_is_loading := True, fd_items := [], fd_offset := 0, fd_exhausted := False,
     fd_prev_count := 0, fd_initial := True\<rparr>"

definition threads_initial_answered :: "nat \<Rightarrow> 'a list option \<Rightarrow> 'a feed \<Rightarrow> 'a feed" where
  "threads_initial_answered limit answer f =
     (case answer of
        Some page \<Rightarrow> f\<lparr>fd_items := rev page, fd_offset := length page,
          fd_exhausted := fd_exhausted f \<or> length page < limit, fd_is_loading := False\<rparr>
      | None \<Rightarrow> f\<lparr>fd_items := [], fd_is_loading := False\<rparr>)"

definition may_load_older :: "'a feed \<Rightarrow> bool" where
  "may_load_older f = (\<not> fd_loading_ref f \<and> \<not> fd_exhausted f)"

definition load_older :: "'a feed \<Rightarrow> 'a feed" where
  "load_older f = (if may_load_older f then f\<lparr>fd_loading_ref := True, fd_loading := True\<rparr> else f)"

definition threads_older_answered :: "nat \<Rightarrow> 'a list option \<Rightarrow> 'a feed \<Rightarrow> 'a feed" where
  "threads_older_answered limit answer f =
     (let f1 = (case answer of
            Some page \<Rightarrow>
              if page \<noteq> [] then scroll KeepPosition (f\<lparr>fd_items := rev page @ fd_items f,
                fd_offset := fd_offset f + length page, fd_exhausted := fd_exhausted f \<or> length page < limit\<rparr>)
              else f\<lparr>fd_exhausted := True\<rparr>
          | None \<Rightarrow> f)
      in f1\<lparr>fd_loading_ref := False, fd_loading := False\<rparr>)"

definition changed_loading :: "'a feed \<Rightarrow> bool" where
  "changed_loading f = (case fd_committed f of Some (b, _) \<Rightarrow> b \<noteq> fd_is_loading f | None \<Rightarrow> True)"

definition changed_count :: "'a feed \<Rightarrow> bool" where
  "changed_count f = (case fd_committed f of Some (_, items) \<Rightarrow> length items \<noteq> length (fd_items f) | None \<Rightarrow> True)"

definition changed_items :: "'a feed \<Rightarrow> bool" where
  "changed_items f = (case fd_committed f of Some (_, items) \<Rightarrow> items \<noteq> fd_items f | None \<Rightarrow> True)"

definition threads_loaded_effect :: "'a feed \<Rightarrow> 'a feed" where
  "threads_loaded_effect f =
     (if \<not> fd_is_loading f then (scroll_to_bottom f)\<lparr>fd_prev_count := length (fd_items f), fd_initial := False\<rparr> else f)"

definition threads_count_effect :: "'a feed \<Rightarrow> 'a feed" where
  "threads_count_effect f =
     (if fd_initial f then f
      else
        let f1 = f\<lparr>fd_prev_count := length (fd_items f)\<rparr>
        in if fd_prev_count f < length (fd_items f) \<and> fd_at_bottom f then scroll ScrollToBottom f1 else f1)"

definition committed :: "'a feed \<Rightarrow> 'a feed" where
  "committed f = f\<lparr>fd_committed := Some (fd_is_loading f, fd_items f)\<rparr>"

definition threads_commit :: "'a feed \<Rightarrow> 'a feed" where
  "threads_commit f =
     (let f1 = (if changed_loading f then threads_loaded_effect f else f);
          f2 = (if changed_count f then threads_count_effect f1 else f1)
      in committed f2)"

text \<open>The effect on the filter: the feed is made the active one and loaded; its cleanup.\<close>

definition open_threads_feed :: "feed_options \<Rightarrow> jsval feed \<Rightarrow> ws_store \<Rightarrow> jsval feed \<times> ws_store" where
  "open_threads_feed opts f st =
     (threads_load_initial f, st(active_id_atom opts := JStr (filter_key opts), feed_atom opts := JArr []))"

definition close_threads_feed :: "feed_options \<Rightarrow> ws_store \<Rightarrow> ws_store" where
  "close_threads_feed opts st = st(active_id_atom opts := JNull)"

section \<open>Comment feeds\<close>

definition comments_load_initial :: "'a feed \<Rightarrow> 'a feed" where
  "comments_load_initial f = f\<lparr>fd_is_loading := True, fd_items := [], fd_offset := 0, fd_exhausted := False,
     fd_loading_ref := False, fd_prev_count := 0, fd_initial := True, fd_highlighted := None\<rparr>"

definition comments_initial_answered :: "nat \<Rightarrow> 'a list option \<Rightarrow> 'a feed \<Rightarrow> 'a feed" where
  "comments_initial_answered limit answer f =
     (case answer of
        Some page \<Rightarrow> f\<lparr>fd_items := page, fd_offset := length page,
          fd_exhausted := fd_exhausted f \<or> length page < limit, fd_is_loading := False\<rparr>
      | None \<Rightarrow> f\<lparr>fd_items := [], fd_exhausted := True, fd_is_loading := False\<rparr>)"

definition comments_older_answered :: "nat \<Rightarrow> 'a list option \<Rightarrow> 'a feed \<Rightarrow> 'a feed" where
  "comments_older_answered limit answer f =
     (let f1 = (case answer of
            Some page \<Rightarrow>
              if page = [] then f\<lparr>fd_exhausted := True\<rparr>
              else scroll KeepPosition (f\<lparr>fd_items := page @ fd_items f, fd_offset := fd_offset f + length page,
                fd_exhausted := fd_exhausted f \<or> length page < limit\<rparr>)
          | None \<Rightarrow> f)
      in f1\<lparr>fd_loading_ref := False, fd_loading := False\<rparr>)"

definition comments_loaded_effect :: "'a feed \<Rightarrow> 'a feed" where
  "comments_loaded_effect f =
     (if \<not> fd_is_loading f then (scroll_to_bottom f)\<lparr>fd_prev_count := length (fd_items f), fd_initial := False\<rparr> else f)"

definition comments_count_effect :: "'a feed \<Rightarrow> 'a feed" where
  "comments_count_effect f =
     (if fd_initial f \<or> fd_loading_ref f then f
      else
        let f1 = f\<lparr>fd_prev_count := length (fd_items f)\<rparr>
        in if fd_prev_count f < length (fd_items f) then
             let f2 = f1\<lparr>fd_highlighted := Some (last (fd_items f))\<rparr>
             in if fd_at_bottom f then scroll ScrollToBottom f2 else f2
           else f1)"

definition comments_commit :: "'a feed \<Rightarrow> 'a feed" where
  "comments_commit f =
     (let f1 = (if changed_loading f \<or> changed_count f then comments_loaded_effect f else f);
          f2 = (if changed_items f then comments_count_effect f1 else f1)
      in committed f2)"

definition highlight_timeout :: "'a feed \<Rightarrow> 'a feed" where
  "highlight_timeout f = f\<lparr>fd_highlighted := None\<rparr>"

definition append_comment :: "('a \<Rightarrow> string) \<Rightarrow> 'a \<Rightarrow> 'a feed \<Rightarrow> 'a feed" where
  "append_comment get_id comment f =
     (if list_ex (\<lambda>item. get_id item = get_id comment) (fd_items f) then f
      else f\<lparr>fd_items := fd_items f @ [comment]\<rparr>)"

section \<open>The interface of a paged feed\<close>

text \<open>
  The feed after its first page and \<open>n\<close> times the sentinel at the top, where \<open>page\<close> is what the server
  answers at an offset.
\<close>

fun read_feed :: "('a feed \<Rightarrow> 'a feed) \<Rightarrow> (nat \<Rightarrow> 'a list option \<Rightarrow> 'a feed \<Rightarrow> 'a feed)
    \<Rightarrow> (nat \<Rightarrow> 'a list option \<Rightarrow> 'a feed \<Rightarrow> 'a feed) \<Rightarrow> nat \<Rightarrow> (nat \<Rightarrow> 'a list) \<Rightarrow> 'a feed \<Rightarrow> nat \<Rightarrow> 'a feed" where
  "read_feed start first_page older_page limit page f 0 = first_page limit (Some (page 0)) (start f)"
| "read_feed start first_page older_page limit page f (Suc n) =
     (let g = read_feed start first_page older_page limit page f n
      in if may_load_older g then older_page limit (Some (page (fd_offset g))) (load_older g) else g)"

text \<open>
  What the two hooks have in common: how a first and an older page change the list, the offset and the
  flag of exhaustion, where \<open>present\<close> is how a page is shown.
\<close>

locale paged_feed =
  fixes start :: "'a feed \<Rightarrow> 'a feed"
    and first_page :: "nat \<Rightarrow> 'a list option \<Rightarrow> 'a feed \<Rightarrow> 'a feed"
    and older_page :: "nat \<Rightarrow> 'a list option \<Rightarrow> 'a feed \<Rightarrow> 'a feed"
    and present :: "'a list \<Rightarrow> 'a list"
  assumes start_state: "\<not> fd_exhausted (start f)"
    and start_ref: "\<not> fd_loading_ref f \<Longrightarrow> \<not> fd_loading_ref (start f)"
    and first_state: "fd_items (first_page limit (Some p) f) = present p" "fd_offset (first_page limit (Some p) f) = length p"
      "fd_exhausted (first_page limit (Some p) f) = (fd_exhausted f \<or> length p < limit)"
      "fd_loading_ref (first_page limit (Some p) f) = fd_loading_ref f"
    and older_state: "fd_items (older_page limit (Some p) f) = present p @ fd_items f"
      "fd_offset (older_page limit (Some p) f) = fd_offset f + length p"
      "fd_exhausted (older_page limit (Some p) f) = (fd_exhausted f \<or> p = [] \<or> length p < limit)"
      "\<not> fd_loading_ref (older_page limit (Some p) f)"
    and present_length: "length (present p) = length p"
    and present_nil: "present [] = []"
begin

text \<open>A server that holds \<open>xs\<close>, newest first, and serves the part from an offset.\<close>

lemma reads_prefix:
  assumes page: "\<And>off. present (page off) = rev (take limit (drop off xs))" and "\<not> fd_loading_ref f"
  shows "\<not> fd_loading_ref (read_feed start first_page older_page limit page f n)
    \<and> fd_items (read_feed start first_page older_page limit page f n) = rev (take (fd_offset (read_feed start first_page older_page limit page f n)) xs)
    \<and> fd_offset (read_feed start first_page older_page limit page f n) \<le> length xs
    \<and> (fd_exhausted (read_feed start first_page older_page limit page f n) \<longrightarrow> fd_offset (read_feed start first_page older_page limit page f n) = length xs \<or> limit = 0)
    \<and> (\<not> fd_exhausted (read_feed start first_page older_page limit page f n) \<longrightarrow> Suc n * limit \<le> fd_offset (read_feed start first_page older_page limit page f n))"
proof (induction n)
  case 0
  have l: "length (page 0) = min (length xs) limit" using present_length [of "page 0"] page [of 0] by simp
  then show ?case using assms(2) start_state start_ref
    by (auto simp: first_state page min_def take_all_iff)
next
  case (Suc n)
  let ?g = "read_feed start first_page older_page limit page f n"
  have l: "length (page (fd_offset ?g)) = min (length xs - fd_offset ?g) limit"
    using present_length [of "page (fd_offset ?g)"] page [of "fd_offset ?g"] by simp
  have nil: "page (fd_offset ?g) = [] \<longleftrightarrow> fd_offset ?g = length xs \<or> limit = 0"
    using l Suc.IH by (auto simp flip: length_0_conv simp: min_def)
  have t: "take limit (drop (fd_offset ?g) xs) = take (length (page (fd_offset ?g))) (drop (fd_offset ?g) xs)"
    using l by (auto simp: min_def)
  show ?case
  proof (cases "may_load_older ?g")
    case True
    then show ?thesis using Suc.IH l nil
      by (auto simp: Let_def older_state page t take_add [symmetric] load_older_def may_load_older_def min_def
          simp flip: rev_append)
  next
    case False
    then show ?thesis using Suc.IH by (auto simp: Let_def may_load_older_def)
  qed
qed

lemma reads_all:
  assumes page: "\<And>off. present (page off) = rev (take limit (drop off xs))" and f: "\<not> fd_loading_ref f"
    and "0 < limit" "length xs \<le> Suc n * limit"
  shows "fd_items (read_feed start first_page older_page limit page f n) = rev xs"
proof -
  note r = reads_prefix [OF page f, of n]
  from r assms(3,4) have "fd_offset (read_feed start first_page older_page limit page f n) = length xs"
    by (cases "fd_exhausted (read_feed start first_page older_page limit page f n)") (simp, linarith)
  with r show ?thesis by simp
qed

end

interpretation threads: paged_feed threads_load_initial threads_initial_answered threads_older_answered rev
  by unfold_locales (auto simp: threads_load_initial_def threads_initial_answered_def threads_older_answered_def scroll_def Let_def)

interpretation comments: paged_feed comments_load_initial comments_initial_answered comments_older_answered "\<lambda>p. p"
  by unfold_locales (auto simp: comments_load_initial_def comments_initial_answered_def comments_older_answered_def scroll_def Let_def)

section \<open>Properties\<close>


text \<open>
  The same for comments, whose pages come oldest first.
\<close>

lemma comments_are_all_shown:
  assumes "0 < limit" "length xs \<le> Suc n * limit"
  shows "fd_items (read_feed comments_load_initial comments_initial_answered comments_older_answered limit
      (\<lambda>off. rev (take limit (drop off xs))) (new_feed items) n) = rev xs"
  by (rule comments.reads_all) (use assms in \<open>simp_all add: new_feed_def\<close>)

text \<open>
  A thread that is created in the category being viewed does not reach its feed: the feed registers
  under its filter key, which has the search text after a dash, and the patch of the feed compares that
  key with the bare id of the category, so that it leaves the list as it is.
\<close>

lemma live_thread_misses_category_feed:
  assumes "fo_category_id opts = Some c" "c \<noteq> []" "js_string (fld data ''category_id'') = c" "\<not> nullish data"
    and "open_threads_feed opts f st = (f', st')"
  shows "patch_category_feed_created prev data st' = Some prev"
proof -
  have "st' ActiveCategoryFeedIdAtom = JStr (c @ ''-'' @ or_text (fo_search opts))"
    using assms(1,2,5)
    by (cases c) (auto simp: open_threads_feed_def active_id_atom_def feed_atom_def filter_key_def given_def or_text_def)
  then show ?thesis using assms(3,4) by (simp add: patch_category_feed_created_def Let_def)
qed

text \<open>
  A thread that arrives live shifts the pages: the offset of the feed does not count it, so the next
  older page begins with a thread that is already shown and the feed lists it twice.
\<close>

lemma live_thread_repeats_a_thread:
  assumes "fd_items f = rev (take (fd_offset f) xs) @ [x]" "0 < fd_offset f" "fd_offset f \<le> length xs" "0 < limit"
  shows "\<not> distinct (fd_items (threads_older_answered limit (Some (take limit (drop (fd_offset f) (x # xs)))) f))"
proof -
  obtain k where k: "fd_offset f = Suc k" using assms(2) by (cases "fd_offset f") auto
  let ?page = "take limit (drop (fd_offset f) (x # xs))"
  have kl: "k < length xs" using k assms(3) by simp
  then have "drop k xs = xs ! k # drop (Suc k) xs" by (metis Cons_nth_drop_Suc)
  then have "xs ! k \<in> set ?page" using assms(4) k by (cases limit) simp_all
  moreover have "xs ! k \<in> set (take (Suc k) xs)" using kl by (metis in_set_conv_nth length_take lessI min_less_iff_conj nth_take Suc_leI)
  ultimately show ?thesis
    using assms(1) k by (auto simp: threads_older_answered_def scroll_def Let_def)
qed

text \<open>The states of a comment feed: requests and answers in any order, changes of the list, commits.\<close>

inductive comment_feed :: "('a \<Rightarrow> string) \<Rightarrow> 'a feed \<Rightarrow> bool" for get_id where
    cf_new: "comment_feed get_id (new_feed items)"
  | cf_initial: "comment_feed get_id f \<Longrightarrow> comment_feed get_id (comments_load_initial f)"
  | cf_first: "comment_feed get_id f \<Longrightarrow> comment_feed get_id (comments_initial_answered limit answer f)"
  | cf_older: "comment_feed get_id f \<Longrightarrow> comment_feed get_id (load_older f)"
  | cf_page: "comment_feed get_id f \<Longrightarrow> comment_feed get_id (comments_older_answered limit answer f)"
  | cf_append: "comment_feed get_id f \<Longrightarrow> comment_feed get_id (append_comment get_id comment f)"
  | cf_items: "comment_feed get_id f \<Longrightarrow> comment_feed get_id (f\<lparr>fd_items := items\<rparr>)"
  | cf_scroll: "comment_feed get_id f \<Longrightarrow> comment_feed get_id (handle_scroll a b c f)"
  | cf_timeout: "comment_feed get_id f \<Longrightarrow> comment_feed get_id (highlight_timeout f)"
  | cf_commit: "comment_feed get_id f \<Longrightarrow> comment_feed get_id (comments_commit f)"

definition counted :: "'a feed \<Rightarrow> bool" where
  "counted f = ((fd_is_loading f \<longrightarrow> fd_initial f) \<and> fd_highlighted f = None
     \<and> (fd_initial f \<or> (case fd_committed f of Some (_, items) \<Rightarrow> fd_prev_count f = length items | None \<Rightarrow> False)))"

lemma counted_commit: "counted f \<Longrightarrow> counted (comments_commit f)"
  by (auto simp: counted_def comments_commit_def comments_loaded_effect_def comments_count_effect_def committed_def
      scroll_to_bottom_def scroll_def changed_loading_def changed_count_def changed_items_def Let_def split: option.splits)

text \<open>
  A new comment is never highlighted: the effect that runs when loading ends also depends on the
  number of comments and runs first, so that the effect that looks for a growing list always finds the
  count it just stored.
\<close>

lemma new_comments_never_highlighted:
  assumes "comment_feed get_id f"
  shows "fd_highlighted f = None"
proof -
  have "counted f" using assms
  proof (induction rule: comment_feed.induct)
    case (cf_commit f)
    then show ?case by (simp add: counted_commit)
  qed (auto simp: counted_def new_feed_def comments_load_initial_def comments_initial_answered_def load_older_def
      comments_older_answered_def append_comment_def handle_scroll_def highlight_timeout_def scroll_def Let_def
      split: option.splits)
  then show ?thesis by (simp add: counted_def)
qed

text \<open>
  Loading older comments ends at the bottom: the commit that shows them first keeps the position of
  the reader and then scrolls to the newest comment, wherever the reader was.
\<close>

lemma older_comments_scroll_to_bottom:
  assumes "page \<noteq> []" "\<not> fd_is_loading f" "fd_committed f = Some (False, fd_items f)"
  shows "fd_scrolls (comments_commit (comments_older_answered limit (Some page) f)) = fd_scrolls f @ [KeepPosition, ScrollToBottom]"
  using assms
  by (auto simp: comments_commit_def comments_older_answered_def comments_loaded_effect_def comments_count_effect_def
      committed_def scroll_to_bottom_def scroll_def changed_loading_def changed_count_def Let_def)

section \<open>Witnesses\<close>


definition category_options :: feed_options where
  "category_options = \<lparr>fo_author_id = None, fo_category_id = Some ''7'', fo_search = None, fo_limit = 15\<rparr>"

lemma live_thread_misses_category_feed_witness:
  "patch_category_feed_created [] (JObj [(''id'', JStr ''1''), (''category_id'', JStr ''7'')])
     (snd (open_threads_feed category_options (new_feed []) (\<lambda>_. JNull))) = Some []"
  by (rule live_thread_misses_category_feed [of category_options "''7''" _ "new_feed []" "\<lambda>_. JNull"
        "fst (open_threads_feed category_options (new_feed []) (\<lambda>_. JNull))"])
    (simp_all add: category_options_def)

lemma live_thread_repeats_a_thread_witness:
  "\<not> distinct (fd_items (threads_older_answered 2 (Some [2, 1])
     ((new_feed [2, 3, (4::nat)])\<lparr>fd_offset := 2\<rparr>)))"
  using live_thread_repeats_a_thread [of "(new_feed [2, 3, (4::nat)])\<lparr>fd_offset := 2\<rparr>" "[3, 2, 1]" 4 2]
  by (simp add: new_feed_def)

lemma new_comments_never_highlighted_witness:
  "fd_highlighted (comments_commit (append_comment id ''b'' (comments_commit
     (comments_initial_answered 50 (Some [''a'']) (comments_load_initial (new_feed [])))))) = None"
  by (rule new_comments_never_highlighted [of id]) (intro comment_feed.intros)

lemma older_comments_scroll_to_bottom_witness:
  "fd_scrolls (comments_commit (comments_older_answered 1 (Some [1])
     ((new_feed [(2::nat)])\<lparr>fd_is_loading := False, fd_committed := Some (False, [2])\<rparr>))) = [KeepPosition, ScrollToBottom]"
  using older_comments_scroll_to_bottom [of "[1]" "(new_feed [(2::nat)])\<lparr>fd_is_loading := False, fd_committed := Some (False, [2])\<rparr>" 1]
  by (simp add: new_feed_def)

end
