(* ===== verification/JsonParse.thy ===== *)
theory JsonParse
  imports UrlText
begin

text \<open>
  \<open>JSON.parse\<close>, by recursive descent, and its agreement with \<open>JSON.stringify\<close>. The fuel is the length
  of the text, which is enough because every nested call has read a character. Numbers are the integers
  of \<open>JsValue\<close>, so that a number with a fraction or an exponent is outside the model.
\<close>

section \<open>The parser\<close>

definition json_space :: "char \<Rightarrow> bool" where
  "json_space c = ((of_char c :: nat) \<in> {9, 10, 13, 32})"

text \<open>The next character after white space, if it is the one that is expected.\<close>

definition expect :: "char \<Rightarrow> string \<Rightarrow> string option" where
  "expect c s = (case dropWhile json_space s of d # r \<Rightarrow> if d = c then Some r else None | [] \<Rightarrow> None)"

definition unescape :: "char \<Rightarrow> char option" where
  "unescape e =
     (if e = CHR 0x22 \<or> e = CHR 0x5C \<or> e = CHR ''/'' then Some e
      else if e = CHR ''b'' then Some (CHR 0x08) else if e = CHR ''f'' then Some (CHR 0x0C)
      else if e = CHR ''n'' then Some (CHR 0x0A) else if e = CHR ''r'' then Some (CHR 0x0D)
      else if e = CHR ''t'' then Some (CHR 0x09) else None)"

fun hex_code :: "string \<Rightarrow> nat option" where
  "hex_code [] = Some 0"
| "hex_code (c # cs) =
     (case (hex_val c, hex_code cs) of (Some n, Some m) \<Rightarrow> Some (n * 16 ^ length cs + m) | _ \<Rightarrow> None)"

text \<open>A string after its opening quote, with what follows its closing quote.\<close>

function json_chars :: "string \<Rightarrow> (string \<times> string) option" where
  "json_chars [] = None"
| "json_chars (c # cs) =
     (if c = CHR 0x22 then Some ([], cs)
      else if (of_char c :: nat) < 32 then None
      else if c \<noteq> CHR 0x5C then map_option (apfst (Cons c)) (json_chars cs)
      else if cs = [] then None
      else if hd cs = CHR ''u'' then
        (case hex_code (take 4 (tl cs)) of
           Some n \<Rightarrow> if length (tl cs) < 4 then None else map_option (apfst (Cons (code_char n))) (json_chars (drop 4 (tl cs)))
         | None \<Rightarrow> None)
      else (case unescape (hd cs) of
          Some x \<Rightarrow> map_option (apfst (Cons x)) (json_chars (tl cs))
        | None \<Rightarrow> None))"
  by pat_completeness auto
termination by (relation "measure length") auto

declare json_chars.simps(2) [simp del]

definition json_number :: "string \<Rightarrow> (jsval \<times> string) option" where
  "json_number s =
     (let neg = (s \<noteq> [] \<and> hd s = CHR ''-''); u = (if neg then tl s else s);
          ds = takeWhile is_digit u; r = dropWhile is_digit u
      in if ds = [] \<or> hd ds = CHR ''0'' \<and> tl ds \<noteq> [] \<or> r \<noteq> [] \<and> hd r \<in> set ''.eE'' then None
         else Some (JNum (if neg then - int (parse_nat ds) else int (parse_nat ds)), r))"

text \<open>Later properties of the same name replace earlier ones.\<close>

definition json_object :: "(string \<times> jsval) list \<Rightarrow> jsval" where
  "json_object ps = JObj (fold (\<lambda>(k, v). map_set k v) ps [])"

fun json_value :: "nat \<Rightarrow> string \<Rightarrow> (jsval \<times> string) option"
  and json_elems :: "nat \<Rightarrow> string \<Rightarrow> (jsval list \<times> string) option"
  and json_props :: "nat \<Rightarrow> string \<Rightarrow> ((string \<times> jsval) list \<times> string) option" where
  "json_value 0 s = None"
| "json_value (Suc k) s =
     (case dropWhile json_space s of
        [] \<Rightarrow> None
      | c # r \<Rightarrow>
          if c = CHR 0x22 then map_option (apfst JStr) (json_chars r)
          else if c = CHR ''['' then
            (case expect (CHR '']'') r of
               Some r' \<Rightarrow> Some (JArr [], r')
             | None \<Rightarrow> map_option (apfst JArr) (json_elems k r))
          else if c = CHR ''{'' then
            (case expect (CHR ''}'') r of
               Some r' \<Rightarrow> Some (JObj [], r')
             | None \<Rightarrow> map_option (apfst json_object) (json_props k r))
          else if starts_with ''null'' (c # r) then Some (JNull, drop 4 (c # r))
          else if starts_with ''true'' (c # r) then Some (JBool True, drop 4 (c # r))
          else if starts_with ''false'' (c # r) then Some (JBool False, drop 5 (c # r))
          else json_number (c # r))"
| "json_elems 0 s = None"
| "json_elems (Suc k) s =
     (case json_value k s of
        None \<Rightarrow> None
      | Some (v, r) \<Rightarrow>
          (case expect (CHR '','') r of
             Some r' \<Rightarrow> map_option (apfst (Cons v)) (json_elems k r')
           | None \<Rightarrow> map_option (\<lambda>r'. ([v], r')) (expect (CHR '']'') r)))"
| "json_props 0 s = None"
| "json_props (Suc k) s =
     (case expect (CHR 0x22) s of
        None \<Rightarrow> None
      | Some r \<Rightarrow>
          (case json_chars r of
             None \<Rightarrow> None
           | Some (key, r1) \<Rightarrow>
               (case expect (CHR '':'') r1 of
                  None \<Rightarrow> None
                | Some r2 \<Rightarrow>
                    (case json_value k r2 of
                       None \<Rightarrow> None
                     | Some (v, r3) \<Rightarrow>
                         (case expect (CHR '','') r3 of
                            Some r4 \<Rightarrow> map_option (apfst (Cons (key, v))) (json_props k r4)
                          | None \<Rightarrow> map_option (\<lambda>r4. ([(key, v)], r4)) (expect (CHR ''}'') r3))))))"

text \<open>\<open>JSON.parse(s)\<close>; \<open>None\<close> for the \<open>SyntaxError\<close>.\<close>

definition json_parse :: "string \<Rightarrow> jsval option" where
  "json_parse s =
     (case json_value (Suc (length s)) s of
        Some (v, r) \<Rightarrow> if dropWhile json_space r = [] then Some v else None
      | None \<Rightarrow> None)"

section \<open>Parsing what was printed\<close>

text \<open>Values that have a text and are all of it.\<close>

fun jsonable :: "jsval \<Rightarrow> bool" where
  "jsonable JNull = True"
| "jsonable (JBool b) = True"
| "jsonable (JNum n) = True"
| "jsonable (JStr s) = True"
| "jsonable (JArr xs) = list_all jsonable xs"
| "jsonable (JObj ps) = (wf_props ps \<and> list_all (\<lambda>p. jsonable (snd p)) ps)"
| "jsonable _ = False"

lemma hex_val_lower: "n < 16 \<Longrightarrow> hex_val (''0123456789abcdef'' ! n) = Some n"
proof -
  have "\<forall>m < 16. hex_val (''0123456789abcdef'' ! m) = Some m" by code_simp
  then show "n < 16 \<Longrightarrow> hex_val (''0123456789abcdef'' ! n) = Some n" by simp
qed

lemma json_chars_escape:
  "json_chars (json_escape_char c @ r) = map_option (apfst (Cons c)) (json_chars r)"
proof -
  let ?n = "of_char c :: nat"
  consider (named) "c \<in> set [CHR 0x22, CHR 0x5C, CHR 0x08, CHR 0x0C, CHR 0x0A, CHR 0x0D, CHR 0x09]"
    | (control) "c \<notin> set [CHR 0x22, CHR 0x5C, CHR 0x08, CHR 0x0C, CHR 0x0A, CHR 0x0D, CHR 0x09]" "?n < 32"
    | (plain) "c \<notin> set [CHR 0x22, CHR 0x5C, CHR 0x08, CHR 0x0C, CHR 0x0A, CHR 0x0D, CHR 0x09]" "\<not> ?n < 32" by blast
  then show ?thesis
  proof cases
    case named
    then show ?thesis by (auto simp: json_escape_char_def json_chars.simps(2) unescape_def)
  next
    case control
    have "hex_val (''0123456789abcdef'' ! (?n div 16)) = Some (?n div 16)"
      "hex_val (''0123456789abcdef'' ! (?n mod 16)) = Some (?n mod 16)"
      using control(2) by (auto intro!: hex_val_lower simp: div_less_iff_less_mult)
    moreover have "hex_val CHR ''0'' = Some 0" by code_simp
    moreover have "?n div 16 * 16 + ?n mod 16 = ?n" by simp
    ultimately show ?thesis using control
      by (simp add: json_escape_char_def json_chars.simps(2))
  next
    case plain
    then show ?thesis by (simp add: json_escape_char_def json_chars.simps(2))
  qed
qed

lemma json_chars_string: "json_chars (concat (map json_escape_char s) @ CHR 0x22 # r) = Some (s, r)"
  by (induction s) (simp_all add: json_chars_escape json_chars.simps(2))

definition text_of :: "jsval \<Rightarrow> string" where
  "text_of v = json_stringify v"

lemma jsonable_text: "jsonable v \<Longrightarrow> json_text v = Some (text_of v)"
  by (cases v) (simp_all add: text_of_def json_stringify_def)

lemma text_of_simps:
  "text_of JNull = ''null''" "text_of (JBool b) = (if b then ''true'' else ''false'')" "text_of (JNum n) = dec_int n"
  "text_of (JStr s) = json_string s"
  "list_all jsonable xs \<Longrightarrow> text_of (JArr xs) = ''['' @ js_join '','' (map text_of xs) @ '']''"
  "list_all (\<lambda>p. jsonable (snd p)) ps \<Longrightarrow>
     text_of (JObj ps) = ''{'' @ js_join '','' (map (\<lambda>p. json_string (fst p) @ '':'' @ text_of (snd p)) ps) @ ''}''"
proof -
  show "text_of (JArr xs) = ''['' @ js_join '','' (map text_of xs) @ '']''" if "list_all jsonable xs"
  proof -
    have "map (\<lambda>x. case json_text x of Some t \<Rightarrow> t | None \<Rightarrow> ''null'') xs = map text_of xs"
      using that by (auto simp: list_all_iff jsonable_text)
    moreover have "text_of (JArr xs) = ''['' @ js_join '',''
        (map (\<lambda>x. case json_text x of Some t \<Rightarrow> t | None \<Rightarrow> ''null'') xs) @ '']''"
      by (simp add: text_of_def json_stringify_def)
    ultimately show ?thesis by (simp only:)
  qed
  show "text_of (JObj ps) = ''{'' @ js_join '','' (map (\<lambda>p. json_string (fst p) @ '':'' @ text_of (snd p)) ps) @ ''}''"
    if "list_all (\<lambda>p. jsonable (snd p)) ps"
  proof -
    have "concat (map (\<lambda>p. case json_text (snd p) of Some t \<Rightarrow> [json_string (fst p) @ '':'' @ t] | None \<Rightarrow> []) ps)
        = map (\<lambda>p. json_string (fst p) @ '':'' @ text_of (snd p)) ps"
      using that by (induction ps) (auto simp: jsonable_text)
    then show ?thesis by (simp add: text_of_def json_stringify_def)
  qed
qed (simp_all add: text_of_def json_stringify_def)

text \<open>What may follow a number.\<close>

definition ends_number :: "string \<Rightarrow> bool" where
  "ends_number r = (r = [] \<or> \<not> is_digit (hd r) \<and> hd r \<notin> set ''.eE'')"

lemma ends_number_simps [simp]:
  "ends_number []" "ends_number (CHR '','' # r)" "ends_number (CHR '']'' # r)" "ends_number (CHR ''}'' # r)"
  by (simp_all add: ends_number_def is_digit_def)

lemma dec_nat_leading: "hd (dec_nat n) = CHR ''0'' \<Longrightarrow> tl (dec_nat n) = []"
proof (induction n rule: dec_nat.induct)
  case (1 n)
  show ?case
  proof (cases "n < 10")
    case False
    have "hd (dec_nat (n div 10)) = CHR ''0''" using "1.prems" False by (simp add: dec_nat.simps [of n])
    with "1.IH" [OF False] have "dec_nat (n div 10) = ''0''"
      by (metis dec_nat_nonempty list.collapse)
    then have "parse_nat (dec_nat (n div 10)) = 0" by (simp add: parse_nat_def digit_val_def)
    with False show ?thesis by simp
  qed (simp add: dec_nat_small)
qed

lemma take_digits:
  assumes "ends_number r"
  shows "takeWhile is_digit (dec_nat n @ r) = dec_nat n" "dropWhile is_digit (dec_nat n @ r) = r"
proof -
  have "\<forall>c \<in> set (dec_nat n). is_digit c" using dec_nat_digits by (simp add: list_all_iff)
  moreover have "takeWhile is_digit r = []" "dropWhile is_digit r = r"
    using assms by (cases r; auto simp: ends_number_def)+
  ultimately show "takeWhile is_digit (dec_nat n @ r) = dec_nat n" "dropWhile is_digit (dec_nat n @ r) = r"
    by (simp_all add: takeWhile_append2 dropWhile_append2)
qed

lemma dec_nat_first: "\<exists>c s. dec_nat n = c # s \<and> is_digit c"
  using dec_nat_digits [of n] by (cases "dec_nat n") auto

lemma json_number_dec:
  assumes "ends_number r"
  shows "json_number (dec_int i @ r) = Some (JNum i, r)"
proof -
  have r: "\<not> (r \<noteq> [] \<and> hd r \<in> set ''.eE'')" using assms by (auto simp: ends_number_def)
  have lead: "\<not> (dec_nat n = [] \<or> hd (dec_nat n) = CHR ''0'' \<and> tl (dec_nat n) \<noteq> [])" for n
    using dec_nat_leading by auto
  obtain c s where c: "dec_nat (nat i) = c # s" "is_digit c" using dec_nat_first by blast
  then have nc: "c \<noteq> CHR ''-''" by (auto simp: is_digit_def)
  show ?thesis
  proof (cases "i < 0")
    case True
    then have d: "dec_int i @ r = CHR ''-'' # dec_nat (nat (- i)) @ r" by (simp add: dec_int_def)
    show ?thesis unfolding d json_number_def Let_def using True r lead
      by (simp add: take_digits [OF assms] del: dropWhile_eq_Nil_conv)
  next
    case False
    then have d: "dec_int i = dec_nat (nat i)" by (simp add: dec_int_def)
    have neg: "\<not> (dec_nat (nat i) @ r \<noteq> [] \<and> hd (dec_nat (nat i) @ r) = CHR ''-'')" using c nc by simp
    show ?thesis unfolding d json_number_def Let_def using neg r lead take_digits [OF assms] False by simp
  qed
qed

lemma dec_int_first: "\<exists>c s. dec_int i = c # s \<and> (is_digit c \<or> c = CHR ''-'')"
  using dec_nat_first [of "nat i"] by (auto simp: dec_int_def)

text \<open>The first character of a text is none of those that end or separate.\<close>

lemma text_first: "jsonable v \<Longrightarrow> \<exists>c s. text_of v = c # s \<and> \<not> json_space c \<and> c \<notin> set '',]}:''"
proof (cases v)
  case (JNum n)
  then show ?thesis using dec_int_first [of n]
    by (auto simp: text_of_simps json_space_def is_digit_def)
qed (auto simp: text_of_simps json_string_def json_space_def)

lemma expect_simps:
  "\<not> json_space c \<Longrightarrow> expect d (c # r) = (if c = d then Some r else None)"
  by (simp add: expect_def)

lemma json_value_number:
  assumes "ends_number r" "0 < k"
  shows "json_value k (dec_int i @ r) = Some (JNum i, r)"
proof -
  obtain c s where c: "dec_int i = c # s" "is_digit c \<or> c = CHR ''-''" using dec_int_first by blast
  then have "\<not> json_space c" "c \<noteq> CHR 0x22" "c \<noteq> CHR ''[''" "c \<noteq> CHR ''{''" "c \<noteq> CHR ''n''" "c \<noteq> CHR ''t''" "c \<noteq> CHR ''f''"
    by (auto simp: json_space_def is_digit_def)
  then show ?thesis using json_number_dec [OF assms(1), of i] assms(2) by (cases k) (simp_all add: c(1) starts_with_def)
qed

lemma json_value_string:
  "0 < k \<Longrightarrow> json_value k (json_string s @ r) = Some (JStr s, r)"
  by (cases k) (simp_all add: json_string_def json_space_def json_chars_string)

lemma json_value_words:
  "0 < k \<Longrightarrow> json_value k (''null'' @ r) = Some (JNull, r)"
  "0 < k \<Longrightarrow> json_value k (''true'' @ r) = Some (JBool True, r)"
  "0 < k \<Longrightarrow> json_value k (''false'' @ r) = Some (JBool False, r)"
  by (cases k; simp add: json_space_def starts_with_def)+

definition reads :: "jsval \<Rightarrow> bool" where
  "reads v = (\<forall>k r. length (text_of v) \<le> k \<longrightarrow> ends_number r \<longrightarrow> json_value k (text_of v @ r) = Some (v, r))"

lemma comma_space [simp]: "\<not> json_space (CHR '','')" "\<not> json_space (CHR '']'')" "\<not> json_space (CHR ''}'')"
  "\<not> json_space (CHR '':'')" "\<not> json_space (CHR 0x22)" "\<not> json_space (CHR ''['')" "\<not> json_space (CHR ''{'')"
  by (simp_all add: json_space_def)

lemma json_elems_join:
  assumes "xs \<noteq> []" "\<forall>x \<in> set xs. reads x" "length (js_join '','' (map text_of xs)) < k"
  shows "json_elems k (js_join '','' (map text_of xs) @ CHR '']'' # r) = Some (xs, r)"
  using assms
proof (induction xs arbitrary: k)
  case (Cons x xs)
  obtain k' where k: "k = Suc k'" using Cons.prems(3) by (cases k) auto
  show ?case
  proof (cases xs)
    case Nil
    then have "json_value k' (text_of x @ CHR '']'' # r) = Some (x, CHR '']'' # r)"
      using Cons.prems k by (simp add: reads_def)
    then show ?thesis by (simp add: k Nil expect_simps)
  next
    case (Cons y ys)
    let ?rest = "js_join '','' (map text_of xs) @ CHR '']'' # r"
    have "json_value k' (text_of x @ CHR '','' # ?rest) = Some (x, CHR '','' # ?rest)"
      using Cons.prems k Cons by (simp add: reads_def)
    moreover have "json_elems k' ?rest = Some (xs, r)"
      by (rule Cons.IH) (use Cons.prems k Cons in auto)
    ultimately show ?thesis by (simp add: k Cons expect_simps)
  qed
qed simp

definition prop_text :: "string \<times> jsval \<Rightarrow> string" where
  "prop_text p = json_string (fst p) @ '':'' @ text_of (snd p)"

lemma json_props_join:
  assumes "ps \<noteq> []" "\<forall>p \<in> set ps. reads (snd p)" "length (js_join '','' (map prop_text ps)) < k"
  shows "json_props k (js_join '','' (map prop_text ps) @ CHR ''}'' # r) = Some (ps, r)"
  using assms
proof (induction ps arbitrary: k)
  case (Cons p ps)
  obtain key v where p: "p = (key, v)" by fastforce
  obtain k' where k: "k = Suc k'" using Cons.prems(3) by (cases k) auto
  have step: "json_props k (prop_text p @ c # rest) =
      (case expect (CHR '','') (c # rest) of
         Some r4 \<Rightarrow> map_option (apfst (Cons (key, v))) (json_props k' r4)
       | None \<Rightarrow> map_option (\<lambda>r4. ([(key, v)], r4)) (expect (CHR ''}'') (c # rest)))"
    if "ends_number (c # rest)" for c rest
  proof -
    have "length (text_of v) \<le> k'"
      using Cons.prems(3) by (cases ps) (auto simp: k p prop_text_def)
    then have "json_value k' (text_of v @ c # rest) = Some (v, c # rest)"
      using Cons.prems(2) that by (simp add: reads_def p)
    then show ?thesis by (simp add: k p prop_text_def json_string_def expect_simps json_chars_string)
  qed
  show ?case
  proof (cases ps)
    case Nil
    then show ?thesis using step [of "CHR ''}''" r] by (simp add: p expect_simps)
  next
    case (Cons q qs)
    let ?rest = "js_join '','' (map prop_text ps) @ CHR ''}'' # r"
    have "json_props k' ?rest = Some (ps, r)"
      by (rule Cons.IH) (use Cons.prems k Cons in auto)
    then show ?thesis using step [of "CHR '',''" ?rest] by (simp add: p Cons expect_simps)
  qed
qed simp

lemma json_object_wf: "wf_props ps \<Longrightarrow> json_object ps = JObj ps"
proof -
  have "fold (\<lambda>(k, v). map_set k v) ps m = m @ ps" if "distinct (map fst (m @ ps))" for m
    using that
  proof (induction ps arbitrary: m)
    case (Cons p ps)
    obtain k v where p: "p = (k, v)" by fastforce
    have "map_set k v m = m @ [(k, v)]"
      using Cons.prems by (intro map_set_absent) (simp add: p)
    with Cons.IH [of "m @ [(k, v)]"] Cons.prems show ?case by (simp add: p)
  qed simp
  from this [of "[]"] show "wf_props ps \<Longrightarrow> json_object ps = JObj ps" by (simp add: wf_props_def json_object_def)
qed

lemma jsonable_reads: "jsonable v \<Longrightarrow> reads v"
proof (induction v)
  case (JArr xs)
  have xs: "list_all jsonable xs" "\<forall>x \<in> set xs. reads x" using JArr by (auto simp: list_all_iff)
  show ?case
  proof (cases "xs = []")
    case True
    then show ?thesis by (auto simp: reads_def text_of_simps expect_simps gr0_conv_Suc Suc_le_eq elim!: less_natE)
  next
    case False
    then obtain x xs' where x: "xs = x # xs'" by (cases xs) auto
    then obtain c s where "text_of x = c # s" "\<not> json_space c" "c \<noteq> CHR '']''"
      using text_first [of x] xs(1) by auto
    then have first: "expect (CHR '']'') (js_join '','' (map text_of xs) @ r) = None" for r
      by (cases xs') (simp_all add: x expect_simps)
    have "json_value k (text_of (JArr xs) @ r) = Some (JArr xs, r)" if l: "length (text_of (JArr xs)) \<le> k" for k r
    proof -
      obtain k' where k: "k = Suc k'" using l by (cases k) (auto simp: text_of_simps(5) [OF xs(1)])
      with l have "json_elems k' (js_join '','' (map text_of xs) @ CHR '']'' # r) = Some (xs, r)"
        by (intro json_elems_join [OF False xs(2)]) (simp add: text_of_simps(5) [OF xs(1)])
      then show ?thesis by (simp add: text_of_simps(5) [OF xs(1)] k first)
    qed
    then show ?thesis by (simp add: reads_def)
  qed
next
  case (JObj ps)
  have ps: "list_all (\<lambda>p. jsonable (snd p)) ps" "\<forall>p \<in> set ps. reads (snd p)" "wf_props ps"
    using JObj by (auto simp: list_all_iff)
  have t: "text_of (JObj ps) = ''{'' @ js_join '','' (map prop_text ps) @ ''}''"
    using text_of_simps(6) [OF ps(1)] by (simp add: prop_text_def [abs_def])
  show ?case
  proof (cases "ps = []")
    case True
    then show ?thesis by (auto simp: reads_def text_of_simps expect_simps gr0_conv_Suc Suc_le_eq elim!: less_natE)
  next
    case False
    then obtain p ps' where p: "ps = p # ps'" by (cases ps) auto
    then have first: "expect (CHR ''}'') (js_join '','' (map prop_text ps) @ r) = None" for r
      by (cases ps') (simp_all add: expect_simps prop_text_def json_string_def)
    have "json_value k (text_of (JObj ps) @ r) = Some (JObj ps, r)" if l: "length (text_of (JObj ps)) \<le> k" for k r
    proof -
      obtain k' where k: "k = Suc k'" using l by (cases k) (auto simp: t)
      with l have "json_props k' (js_join '','' (map prop_text ps) @ CHR ''}'' # r) = Some (ps, r)"
        by (intro json_props_join [OF False ps(2)]) (simp add: t)
      then show ?thesis by (simp add: t k first json_object_wf [OF ps(3)])
    qed
    then show ?thesis by (simp add: reads_def)
  qed
next
  case JNull
  show ?case unfolding reads_def text_of_simps by (intro allI impI json_value_words) simp
next
  case (JBool b)
  show ?case unfolding reads_def text_of_simps by (cases b) (simp_all only: if_True if_False json_value_words, auto intro!: json_value_words [simplified])
next
  case (JNum n)
  have "0 < length (dec_int n)" using dec_int_first [of n] by auto
  then show ?case unfolding reads_def text_of_simps by (intro allI impI json_value_number) (assumption | linarith)+
next
  case (JStr s)
  show ?case unfolding reads_def text_of_simps by (intro allI impI json_value_string) (simp add: json_string_def)
qed simp_all

lemma json_parse_stringify:
  assumes "jsonable v"
  shows "json_parse (json_stringify v) = Some v"
proof -
  have "json_value (Suc (length (json_stringify v))) (json_stringify v @ []) = Some (v, [])"
    using jsonable_reads [OF assms] unfolding reads_def text_of_def by (meson ends_number_simps(1) le_SucI order_refl)
  then show ?thesis unfolding json_parse_def append_Nil2 by simp
qed

end
