(* ===== verification/PageSections.thy ===== *)
theory PageSections
  imports JsonParse
begin

text \<open>
  The sections of a page (\<open>components/page\<close>): the registry of section types, the shell that every
  section shares with its two encodings (\<open>sectionAdapter.ts\<close>), rows of a data source as items
  (\<open>mapRows.ts\<close>), and forms, polls and votes (\<open>interactiveTypes.ts\<close>). Configurations are JSON texts or
  objects. Numbers are integers, so that a content scale is 1 or 2.
\<close>

section \<open>Section types\<close>

definition section_types :: "string list" where
  "section_types = [''hero'', ''card_group'', ''stat_cards'', ''social_links'', ''image_gallery'', ''feature_grid'',
     ''cta'', ''event_highlights'', ''profile_card'', ''rich_text'', ''code_editor'', ''data_sources'',
     ''derived_section'', ''custom_section'', ''form'', ''qa'', ''survey'', ''poll'', ''vote'', ''resource_embed'']"

definition legacy_section_type_aliases :: "(string \<times> string) list" where
  "legacy_section_type_aliases = [(''features'', ''feature_grid'')]"

definition canonical_section_type :: "string \<Rightarrow> string option" where
  "canonical_section_type ty = (if ty \<in> set section_types then Some ty else map_of legacy_section_type_aliases ty)"

definition section_type_labels :: "(string \<times> string) list" where
  "section_type_labels =
     [(''hero'', ''Hero Banner''), (''card_group'', ''Card Group''), (''stat_cards'', ''Stat Cards (icon + text)''),
      (''social_links'', ''Social Links''), (''image_gallery'', ''Image Gallery''),
      (''feature_grid'', ''Feature Grid (icon tiles)''), (''cta'', ''Call to Action''),
      (''event_highlights'', ''Event Highlights''), (''profile_card'', ''Profile Card''), (''rich_text'', ''Rich Text''),
      (''code_editor'', ''Code Editor''), (''data_sources'', ''Data Sources''), (''derived_section'', ''Derived Section''),
      (''custom_section'', ''Custom Section''), (''form'', ''Form''), (''qa'', ''Questions & Answers''),
      (''survey'', ''Survey''), (''poll'', ''Poll''), (''vote'', ''Voting''), (''resource_embed'', ''Resource Embed'')]"

definition is_generated_section_heading :: "string \<Rightarrow> string \<Rightarrow> bool" where
  "is_generated_section_heading heading ty =
     (case canonical_section_type ty of
        None \<Rightarrow> False
      | Some t \<Rightarrow> Some (js_trim heading) = map_of section_type_labels t)"

text \<open>The groups in which the builder offers them.\<close>

definition section_type_groups :: "(string \<times> string list) list" where
  "section_type_groups =
     [(''featured'', [''hero'', ''cta'', ''event_highlights'', ''profile_card'']),
      (''content'', [''card_group'', ''stat_cards'', ''social_links'', ''image_gallery'', ''feature_grid'']),
      (''rich'', [''rich_text'', ''code_editor'', ''data_sources'', ''derived_section'', ''custom_section'']),
      (''interactive'', [''form'', ''qa'', ''survey'', ''poll'', ''vote'']),
      (''embeds'', [''resource_embed''])]"

section \<open>The shared shell\<close>

datatype color_source = Inherit | Literal string

record section_shell =
  sh_layout :: string
  sh_container_width :: string
  sh_margin_top :: int
  sh_margin_right :: int
  sh_margin_bottom :: int
  sh_margin_left :: int
  sh_padding_top :: int
  sh_padding_right :: int
  sh_padding_bottom :: int
  sh_padding_left :: int
  sh_animation :: string
  sh_animation_intensity :: string
  sh_background_color :: color_source
  sh_text_color :: color_source
  sh_h1_color :: color_source
  sh_h2_color :: color_source
  sh_h3_color :: color_source
  sh_content_scale :: int
  sh_collapsible :: bool
  sh_default_collapsed :: bool

definition default_section_shell :: section_shell where
  "default_section_shell = \<lparr>sh_layout = ''center'', sh_container_width = ''content'',
     sh_margin_top = 0, sh_margin_right = 0, sh_margin_bottom = 0, sh_margin_left = 0,
     sh_padding_top = 0, sh_padding_right = 0, sh_padding_bottom = 0, sh_padding_left = 0,
     sh_animation = ''none'', sh_animation_intensity = ''normal'',
     sh_background_color = Inherit, sh_text_color = Inherit, sh_h1_color = Inherit, sh_h2_color = Inherit,
     sh_h3_color = Inherit, sh_content_scale = 1, sh_collapsible = False, sh_default_collapsed = False\<rparr>"

definition object_value :: "jsval \<Rightarrow> jsval option" where
  "object_value v = (case v of JObj ps \<Rightarrow> Some v | JMap m \<Rightarrow> Some v | _ \<Rightarrow> None)"

definition decode_config :: "jsval \<Rightarrow> jsval option" where
  "decode_config v =
     (case v of
        JStr s \<Rightarrow>
          if js_trim s = [] then Some (JObj [])
          else (case json_parse s of Some w \<Rightarrow> object_value w | None \<Rightarrow> None)
      | JUndef \<Rightarrow> Some (JObj [])
      | _ \<Rightarrow> object_value v)"

definition bounded :: "jsval \<Rightarrow> int \<Rightarrow> int \<Rightarrow> int \<Rightarrow> int" where
  "bounded v lo hi fallback = (case v of JNum n \<Rightarrow> if lo \<le> n \<and> n \<le> hi then n else fallback | _ \<Rightarrow> fallback)"

definition color :: "jsval \<Rightarrow> color_source" where
  "color v =
     (case v of
        JStr s \<Rightarrow> if s \<noteq> [] then Literal s else Inherit
      | _ \<Rightarrow>
          (case object_value v of
             None \<Rightarrow> Inherit
           | Some source \<Rightarrow>
               (case (fld source ''mode'', fld source ''value'') of
                  (JStr m, JStr s) \<Rightarrow> if m = ''literal'' then Literal s else Inherit
                | _ \<Rightarrow> Inherit)))"

definition layouts :: "string list" where "layouts = [''left'', ''center'', ''right'', ''wide'']"
definition container_widths :: "string list" where "container_widths = [''narrow'', ''content'', ''wide'', ''full'']"
definition animations :: "string list" where
  "animations = [''none'', ''fade-in'', ''slide-up'', ''slide-left'', ''slide-right'', ''zoom-in'', ''bounce'']"
definition intensities :: "string list" where "intensities = [''subtle'', ''normal'', ''dramatic'']"

text \<open>A value whose text is one of the given; it is kept as that text.\<close>

definition one_of :: "string list \<Rightarrow> jsval \<Rightarrow> string \<Rightarrow> string" where
  "one_of names v fallback = (if js_string v \<in> set names then js_string v else fallback)"

definition flag :: "jsval \<Rightarrow> bool \<Rightarrow> bool" where
  "flag v fallback = (case v of JBool b \<Rightarrow> b | _ \<Rightarrow> fallback)"

text \<open>\<open>config[canonical] ?? config[legacy]\<close>.\<close>

definition either :: "jsval \<Rightarrow> string \<Rightarrow> string \<Rightarrow> jsval" where
  "either config canonical legacy = js_coalesce (fld config canonical) (fld config legacy)"

definition adapt_config :: "jsval \<Rightarrow> section_shell" where
  "adapt_config config =
     (let unified = bounded (fld config ''padding'') 0 512 0;
          pad = (if fld config ''padding'' = JUndef then 0 else unified)
      in \<lparr>sh_layout = one_of layouts (fld config ''layout'') (if truthy (fld config ''wide'') then ''wide'' else ''center''),
          sh_container_width = one_of container_widths (either config ''container_width'' ''containerWidth'') ''content'',
          sh_margin_top = bounded (either config ''margin_top'' ''marginTop'') (-512) 512 0,
          sh_margin_right = bounded (either config ''margin_right'' ''marginRight'') (-512) 512 0,
          sh_margin_bottom = bounded (either config ''margin_bottom'' ''marginBottom'') (-512) 512 0,
          sh_margin_left = bounded (either config ''margin_left'' ''marginLeft'') (-512) 512 0,
          sh_padding_top = bounded (either config ''padding_top'' ''paddingTop'') 0 512 pad,
          sh_padding_right = bounded (either config ''padding_right'' ''paddingRight'') 0 512 pad,
          sh_padding_bottom = bounded (either config ''padding_bottom'' ''paddingBottom'') 0 512 pad,
          sh_padding_left = bounded (either config ''padding_left'' ''paddingLeft'') 0 512 pad,
          sh_animation = one_of animations (fld config ''animation'') ''none'',
          sh_animation_intensity = one_of intensities (either config ''animation_intensity'' ''animationIntensity'') ''normal'',
          sh_background_color = color (either config ''background_color'' ''bg_color''),
          sh_text_color = color (fld config ''text_color''),
          sh_h1_color = color (fld config ''h1_color''), sh_h2_color = color (fld config ''h2_color''),
          sh_h3_color = color (fld config ''h3_color''),
          sh_content_scale = bounded (either config ''content_scale'' ''contentScale'') 1 2 1,
          sh_collapsible = flag (fld config ''collapsible'') False,
          sh_default_collapsed = flag (either config ''default_collapsed'' ''defaultCollapsed'') False\<rparr>)"

definition adapt_legacy_section_shell :: "jsval \<Rightarrow> section_shell" where
  "adapt_legacy_section_shell v =
     (case decode_config v of None \<Rightarrow> default_section_shell | Some config \<Rightarrow> adapt_config config)"

definition color_value :: "color_source \<Rightarrow> jsval" where
  "color_value c = (case c of Inherit \<Rightarrow> JObj [(''mode'', JStr ''inherit'')]
     | Literal s \<Rightarrow> JObj [(''mode'', JStr ''literal''), (''value'', JStr s)])"

definition legacy_color :: "color_source \<Rightarrow> string" where
  "legacy_color c = (case c of Literal s \<Rightarrow> s | Inherit \<Rightarrow> [])"

definition shell_props :: "section_shell \<Rightarrow> (string \<times> jsval) list" where
  "shell_props s =
     [(''layout'', JStr (sh_layout s)), (''container_width'', JStr (sh_container_width s)),
      (''marginTop'', JNum (sh_margin_top s)), (''marginRight'', JNum (sh_margin_right s)),
      (''marginBottom'', JNum (sh_margin_bottom s)), (''marginLeft'', JNum (sh_margin_left s)),
      (''paddingTop'', JNum (sh_padding_top s)), (''paddingRight'', JNum (sh_padding_right s)),
      (''paddingBottom'', JNum (sh_padding_bottom s)), (''paddingLeft'', JNum (sh_padding_left s)),
      (''animation'', JStr (sh_animation s)), (''animationIntensity'', JStr (sh_animation_intensity s)),
      (''background_color'', color_value (sh_background_color s)), (''bg_color'', JStr (legacy_color (sh_background_color s))),
      (''text_color'', color_value (sh_text_color s)), (''h1_color'', color_value (sh_h1_color s)),
      (''h2_color'', color_value (sh_h2_color s)), (''h3_color'', color_value (sh_h3_color s)),
      (''content_scale'', JNum (sh_content_scale s)), (''collapsible'', JBool (sh_collapsible s)),
      (''default_collapsed'', JBool (sh_default_collapsed s))]"

definition project_shared_shell_to_legacy_config :: "jsval \<Rightarrow> section_shell \<Rightarrow> string" where
  "project_shared_shell_to_legacy_config v s =
     json_stringify (obj_with (case decode_config v of Some config \<Rightarrow> config | None \<Rightarrow> JObj []) (shell_props s))"

section \<open>Rows as items\<close>

definition row_key :: "jsval \<Rightarrow> nat \<Rightarrow> string option \<Rightarrow> string" where
  "row_key row i key_column =
     (case key_column of
        Some (c # cs) \<Rightarrow> if nullish (fld row (c # cs)) then dec_nat i else js_string (fld row (c # cs))
      | _ \<Rightarrow> dec_nat i)"

definition blank_item :: "jsval \<Rightarrow> nat \<Rightarrow> jsval" where
  "blank_item section_id i = JObj
     [(''id'', JNum (- (int i + 1))), (''section_id'', section_id), (''display_order'', JNum (int i + 1)),
      (''icon'', JStr []), (''heading'', JStr []), (''subheading'', JStr []), (''image_url'', JStr []),
      (''link_url'', JStr []), (''config'', JStr ''{}'')]"

text \<open>\<open>Object.entries\<close> of the column map, whose values are texts, and of the overrides of a row.\<close>

definition map_column :: "jsval \<Rightarrow> string \<times> string \<Rightarrow> jsval \<Rightarrow> jsval" where
  "map_column row entry item =
     (if snd entry \<noteq> [] \<and> \<not> nullish (fld row (snd entry))
      then obj_with item [(fst entry, JStr (js_string (fld row (snd entry))))] else item)"

definition override_field :: "string \<times> jsval \<Rightarrow> jsval \<Rightarrow> jsval" where
  "override_field entry item = (if nullish (snd entry) then item else obj_with item [entry])"

definition map_single_row ::
  "jsval \<Rightarrow> (string \<times> string) list \<Rightarrow> jsval \<Rightarrow> nat \<Rightarrow> (string \<times> jsval) list option \<Rightarrow> jsval" where
  "map_single_row row column_map section_id i override =
     (let item = fold (map_column row) column_map (blank_item section_id i)
      in case override of Some fs \<Rightarrow> fold override_field fs item | None \<Rightarrow> item)"

definition map_rows_to_items ::
  "jsval list \<Rightarrow> (string \<times> string) list \<Rightarrow> jsval \<Rightarrow> (string \<times> (string \<times> jsval) list) list \<Rightarrow> string option \<Rightarrow> jsval list" where
  "map_rows_to_items rows column_map section_id overrides key_column =
     map (\<lambda>i. map_single_row (rows ! i) column_map section_id i (map_of overrides (row_key (rows ! i) i key_column)))
       [0..<length rows]"

definition detect_columns :: "(string \<times> jsval) list list \<Rightarrow> string list" where
  "detect_columns rows = fold (\<lambda>row keys. fold (\<lambda>p ks. if fst p \<in> set ks then ks else ks @ [fst p]) row keys) rows []"

section \<open>Interactive sections\<close>

definition interactive_section_types :: "string list" where
  "interactive_section_types = [''form'', ''qa'', ''survey'', ''poll'', ''vote'']"

definition is_interactive_section_type :: "string \<Rightarrow> bool" where
  "is_interactive_section_type ty = (ty \<in> set interactive_section_types)"

record interactive_field =
  if_key :: string
  if_type :: string
  if_label :: string
  if_required :: bool
  if_options :: "(string \<times> string) list"

definition option_value :: "string \<Rightarrow> string \<Rightarrow> jsval" where
  "option_value key label = JObj [(''key'', JStr key), (''label'', JStr label)]"

definition field_value :: "string \<Rightarrow> string \<Rightarrow> string \<Rightarrow> bool \<Rightarrow> (string \<times> jsval) list \<Rightarrow> jsval" where
  "field_value key ty label required more_props = JObj
     ([(''key'', JStr key), (''type'', JStr ty), (''label'', JStr label), (''required'', JBool required)] @ more_props)"

definition shared_config :: jsval where
  "shared_config = JObj [(''status'', JStr ''open''),
     (''success_text'', JStr ''Thank you. Your response has been recorded.''), (''result_visibility'', JStr ''never''),
     (''response_limit'', JNum 0), (''records'', JArr [])]"

definition once_only :: "string \<Rightarrow> jsval list \<Rightarrow> jsval" where
  "once_only label field_list = obj_with shared_config [(''submit_label'', JStr label),
     (''result_visibility'', JStr ''after_participation''), (''response_limit'', JNum 1), (''fields'', JArr field_list)]"

definition default_interactive_config :: "string \<Rightarrow> jsval" where
  "default_interactive_config ty =
     (if ty = ''qa'' then
        obj_with shared_config [(''submit_label'', JStr ''Ask question''), (''moderation'', JBool True),
          (''fields'', JArr [field_value ''question'' ''textarea'' ''Your question'' True []])]
      else if ty = ''survey'' then
        once_only ''Complete survey''
          [field_value ''satisfaction'' ''scale'' ''How satisfied are you?'' True [(''min'', JNum 1), (''max'', JNum 5)],
           field_value ''feedback'' ''textarea'' ''Tell us more'' False []]
      else if ty = ''poll'' then
        once_only ''Submit vote'' [field_value ''choice'' ''radio'' ''Choose one'' True
          [(''options'', JArr [option_value ''option-1'' ''Option one'', option_value ''option-2'' ''Option two''])]]
      else if ty = ''vote'' then
        once_only ''Confirm ballot'' [field_value ''candidate'' ''radio'' ''Select a candidate'' True
          [(''options'', JArr [option_value ''candidate-1'' ''Candidate one'', option_value ''candidate-2'' ''Candidate two''])]]
      else
        obj_with shared_config [(''submit_label'', JStr ''Submit form''),
          (''fields'', JArr [field_value ''name'' ''text'' ''Full name'' True [],
             field_value ''email'' ''email'' ''Email'' True [], field_value ''message'' ''textarea'' ''Message'' True []])])"

definition config_for_new_section :: "string \<Rightarrow> string" where
  "config_for_new_section ty =
     (if is_interactive_section_type ty then json_stringify (default_interactive_config ty) else ''{}'')"

definition interactive_response_limit_reached :: "string \<Rightarrow> int \<Rightarrow> int \<Rightarrow> bool" where
  "interactive_response_limit_reached ty response_limit own_responses =
     (let limit = (if ty = ''poll'' \<or> ty = ''vote'' then 1 else max 0 response_limit)
      in 0 < limit \<and> limit \<le> own_responses)"

definition array_or :: "jsval \<Rightarrow> jsval \<Rightarrow> jsval" where
  "array_or v fallback = (case v of JArr xs \<Rightarrow> v | _ \<Rightarrow> fallback)"

text \<open>\<open>None\<close> when the configuration is \<open>null\<close>, whose fields cannot be read.\<close>

definition parse_interactive_config :: "jsval \<Rightarrow> string \<Rightarrow> jsval option" where
  "parse_interactive_config raw ty =
     (let parsed = (case raw of
            JStr s \<Rightarrow> if s = [] then JObj [] else (case json_parse s of Some v \<Rightarrow> v | None \<Rightarrow> JObj [])
          | _ \<Rightarrow> raw);
          defaults = default_interactive_config ty
      in if nullish parsed then None
         else Some (obj_with (obj_spread defaults parsed)
           [(''fields'', array_or (fld parsed ''fields'') (fld defaults ''fields'')),
            (''records'', array_or (fld parsed ''records'') (JArr []))]))"

definition clear_interactive_records :: "jsval \<Rightarrow> string" where
  "clear_interactive_records raw =
     (let parsed = (case raw of JStr s \<Rightarrow> json_parse (if s = [] then ''{}'' else s) | _ \<Rightarrow> Some raw)
      in case parsed of
           Some v \<Rightarrow> json_stringify (obj_with v [(''records'', JArr []), (''result_summary'', JUndef)])
         | None \<Rightarrow> json_stringify (JObj [(''records'', JArr [])]))"

definition section_for_clipboard :: "jsval \<Rightarrow> jsval" where
  "section_for_clipboard sec =
     (if \<not> is_interactive_section_type (js_string (fld sec ''section_type'')) then sec
      else obj_with sec [(''config'', JStr (clear_interactive_records (fld sec ''config'')))])"

definition initial_interactive_values :: "interactive_field list \<Rightarrow> (string, jsval) jsmap" where
  "initial_interactive_values fs =
     fold (\<lambda>f. map_set (if_key f)
       (if if_type f = ''checkbox'' \<or> if_type f = ''consent'' then JBool False
        else if if_type f = ''multi_select'' then JArr [] else JStr [])) fs []"

definition value_of :: "(string, jsval) jsmap \<Rightarrow> string \<Rightarrow> jsval" where
  "value_of vs k = (case map_get vs k of Some v \<Rightarrow> v | None \<Rightarrow> JUndef)"

definition no_answer :: "jsval \<Rightarrow> bool" where
  "no_answer v = (nullish v \<or> v = JStr [] \<or> v = JArr [])"

definition numeric_field :: "string \<Rightarrow> bool" where
  "numeric_field ty = (ty \<in> set [''number'', ''rating'', ''scale'', ''nps''])"

definition normalize_interactive_answers :: "interactive_field list \<Rightarrow> (string, jsval) jsmap \<Rightarrow> (string, jsval) jsmap" where
  "normalize_interactive_answers fs vs =
     fold (\<lambda>f answers. let v = value_of vs (if_key f) in
       if no_answer v then answers
       else map_set (if_key f) (if numeric_field (if_type f) then js_number v else v) answers) fs []"

definition interactive_result_entries :: "interactive_field \<Rightarrow> (string, int) jsmap \<Rightarrow> (string \<times> string) list" where
  "interactive_result_entries f counts =
     (if if_type f \<in> set [''radio'', ''select'', ''multi_select''] then if_options f
      else if if_type f \<in> set [''checkbox'', ''consent''] then [(''true'', ''Yes''), (''false'', ''No'')]
      else if if_type f \<in> set [''rating'', ''scale'', ''nps'']
      then map (\<lambda>k. (k, k)) (sort_key parse_nat (map_keys counts)) else [])"

text \<open>\<open>/^\S+@\S+\.\S+$/\<close>.\<close>

definition email_like :: "string \<Rightarrow> bool" where
  "email_like s =
     (list_all (\<lambda>c. \<not> is_space c) s
      \<and> list_ex (\<lambda>i. 0 < i \<and> s ! i = CHR ''@''
          \<and> list_ex (\<lambda>j. i + 1 < j \<and> j + 1 < length s \<and> s ! j = CHR ''.'') [0..<length s]) [0..<length s])"

text \<open>\<open>valid_url\<close> is whether \<open>new URL(value)\<close> accepts a text.\<close>

definition field_errors ::
  "(string \<Rightarrow> bool) \<Rightarrow> (string, jsval) jsmap \<Rightarrow> interactive_field \<Rightarrow> (string, string) jsmap \<Rightarrow> (string, string) jsmap" where
  "field_errors valid_url vs f errors =
     (let v = value_of vs (if_key f);
          e1 = (if if_required f \<and> (no_answer v \<or> v = JBool False)
            then map_set (if_key f) (if_label f @ '' is required'') errors else errors);
          e2 = (case v of JStr (c # cs) \<Rightarrow>
              if if_type f = ''email'' \<and> \<not> email_like (c # cs)
              then map_set (if_key f) ''Enter a valid email address'' e1 else e1 | _ \<Rightarrow> e1)
      in case v of JStr (c # cs) \<Rightarrow>
          if if_type f = ''url'' \<and> \<not> valid_url (c # cs) then map_set (if_key f) ''Enter a valid URL'' e2 else e2 | _ \<Rightarrow> e2)"

definition validate_interactive_values ::
  "(string \<Rightarrow> bool) \<Rightarrow> interactive_field list \<Rightarrow> (string, jsval) jsmap \<Rightarrow> (string, string) jsmap" where
  "validate_interactive_values valid_url fs vs = fold (field_errors valid_url vs) fs []"

section \<open>Configurations as texts\<close>

text \<open>The builder offers every section type in exactly one group, and every type has a label.\<close>

lemma groups_cover_types:
  "mset (concat (map snd section_type_groups)) = mset section_types \<and> map fst section_type_labels = section_types"
  by code_simp

lemma json_object_text: "json_stringify (JObj ps) \<noteq> []"
  by (simp add: json_stringify_def)

lemma object_text_trim: "js_trim (json_stringify (JObj ps)) \<noteq> []"
proof -
  obtain s where "json_stringify (JObj ps) = CHR ''{'' # s @ ''}''" by (simp add: json_stringify_def)
  then show ?thesis by (simp add: js_trim_id is_space_def)
qed

lemma decode_text: "jsonable (JObj ps) \<Longrightarrow> decode_config (JStr (json_stringify (JObj ps))) = Some (JObj ps)"
  using object_text_trim [of ps] json_parse_stringify [of "JObj ps"]
  by (simp add: decode_config_def object_value_def)

lemma jsonable_merge:
  assumes "jsonable (JObj ps)" "jsonable (JObj qs)"
  shows "jsonable (JObj (props_merge ps qs))"
proof -
  have "\<forall>p \<in> set (props_merge ps qs). jsonable (snd p)"
    using assms by (fastforce simp: props_merge_def list_all_iff split: option.splits dest!: map_of_SomeD)
  then show ?thesis using assms by (simp add: wf_props_merge list_all_iff)
qed

lemma jsonable_shell: "jsonable (JObj (shell_props s))"
  by (simp add: shell_props_def wf_props_def color_value_def split: color_source.split)

definition shell_ok :: "section_shell \<Rightarrow> bool" where
  "shell_ok s = (sh_layout s \<in> set layouts \<and> sh_container_width s \<in> set container_widths
     \<and> list_all (\<lambda>m. -512 \<le> m \<and> m \<le> 512) [sh_margin_top s, sh_margin_right s, sh_margin_bottom s, sh_margin_left s]
     \<and> list_all (\<lambda>m. 0 \<le> m \<and> m \<le> 512) [sh_padding_top s, sh_padding_right s, sh_padding_bottom s, sh_padding_left s]
     \<and> sh_animation s \<in> set animations \<and> sh_animation_intensity s \<in> set intensities
     \<and> 1 \<le> sh_content_scale s \<and> sh_content_scale s \<le> 2)"

text \<open>The canonical names that a projection does not write.\<close>

definition unprojected_names :: "string list" where
  "unprojected_names = [''margin_top'', ''margin_right'', ''margin_bottom'', ''margin_left'', ''padding_top'',
     ''padding_right'', ''padding_bottom'', ''padding_left'', ''animation_intensity'']"

lemma color_value_id [simp]: "color (color_value c) = c"
  by (cases c) (simp_all add: color_def color_value_def object_value_def)

lemma adapted_projection:
  assumes "decode_config v = Some (JObj ps)" "jsonable (JObj ps)"
  shows "adapt_legacy_section_shell (JStr (project_shared_shell_to_legacy_config v s))
    = adapt_config (JObj (props_merge ps (shell_props s)))"
  using decode_text [OF jsonable_merge [OF assms(2) jsonable_shell]]
  by (simp add: adapt_legacy_section_shell_def project_shared_shell_to_legacy_config_def assms(1) obj_with_def)

lemma fld_merged: "fld (JObj (props_merge ps qs)) k = (case map_of qs k of Some x \<Rightarrow> x | None \<Rightarrow> fld (JObj ps) k)"
  by (simp split: option.split)

definition projected_names :: "string list" where
  "projected_names = map fst (shell_props default_section_shell)"

lemma shell_names: "map fst (shell_props s) = projected_names"
  by (simp add: shell_props_def projected_names_def)

lemma names_apart: "list_all (\<lambda>k. k \<notin> set projected_names) unprojected_names"
  by code_simp

lemma unprojected: "k \<in> set unprojected_names \<Longrightarrow> map_of (shell_props s) k = None"
  using names_apart by (simp add: list_all_iff map_of_eq_None_iff flip: shell_names [of s])

lemma adapt_merged:
  assumes ok: "shell_ok s" and legacy: "list_all (\<lambda>k. nullish (fld (JObj ps) k)) unprojected_names"
  shows "adapt_config (JObj (props_merge ps (shell_props s))) = s"
proof -
  let ?w = "JObj (props_merge ps (shell_props s))"
  note merged = fld_merged [of ps "shell_props s"]
  have named: "nullish (fld ?w k)" if "k \<in> set unprojected_names" for k
  proof -
    note unprojected [OF that]
    with legacy that show ?thesis unfolding merged by (simp only: list_all_iff option.case)
  qed
  have written: "fld ?w ''layout'' = JStr (sh_layout s)" "fld ?w ''container_width'' = JStr (sh_container_width s)"
    "fld ?w ''marginTop'' = JNum (sh_margin_top s)" "fld ?w ''marginRight'' = JNum (sh_margin_right s)"
    "fld ?w ''marginBottom'' = JNum (sh_margin_bottom s)" "fld ?w ''marginLeft'' = JNum (sh_margin_left s)"
    "fld ?w ''paddingTop'' = JNum (sh_padding_top s)" "fld ?w ''paddingRight'' = JNum (sh_padding_right s)"
    "fld ?w ''paddingBottom'' = JNum (sh_padding_bottom s)" "fld ?w ''paddingLeft'' = JNum (sh_padding_left s)"
    "fld ?w ''animation'' = JStr (sh_animation s)" "fld ?w ''animationIntensity'' = JStr (sh_animation_intensity s)"
    "fld ?w ''background_color'' = color_value (sh_background_color s)" "fld ?w ''text_color'' = color_value (sh_text_color s)"
    "fld ?w ''h1_color'' = color_value (sh_h1_color s)" "fld ?w ''h2_color'' = color_value (sh_h2_color s)"
    "fld ?w ''h3_color'' = color_value (sh_h3_color s)" "fld ?w ''content_scale'' = JNum (sh_content_scale s)"
    "fld ?w ''collapsible'' = JBool (sh_collapsible s)" "fld ?w ''default_collapsed'' = JBool (sh_default_collapsed s)"
    unfolding merged by (simp_all add: shell_props_def)
  have coal: "either ?w c l = fld ?w l" if "c \<in> set unprojected_names" for c l
    using named [OF that] by (simp only: either_def js_coalesce_def if_True)
  have canon: "\<not> nullish (fld ?w c) \<Longrightarrow> either ?w c l = fld ?w c" for c l by (simp only: either_def js_coalesce_def if_False)
  have color_some: "\<not> nullish (color_value c)" for c by (cases c) (simp_all add: color_value_def)
  have eithers: "either ?w ''margin_top'' ''marginTop'' = JNum (sh_margin_top s)"
    "either ?w ''margin_right'' ''marginRight'' = JNum (sh_margin_right s)"
    "either ?w ''margin_bottom'' ''marginBottom'' = JNum (sh_margin_bottom s)"
    "either ?w ''margin_left'' ''marginLeft'' = JNum (sh_margin_left s)"
    "either ?w ''padding_top'' ''paddingTop'' = JNum (sh_padding_top s)"
    "either ?w ''padding_right'' ''paddingRight'' = JNum (sh_padding_right s)"
    "either ?w ''padding_bottom'' ''paddingBottom'' = JNum (sh_padding_bottom s)"
    "either ?w ''padding_left'' ''paddingLeft'' = JNum (sh_padding_left s)"
    "either ?w ''animation_intensity'' ''animationIntensity'' = JStr (sh_animation_intensity s)"
    by (simp_all only: coal written unprojected_names_def list.set insert_iff simp_thms)
  have eithers': "either ?w ''container_width'' ''containerWidth'' = JStr (sh_container_width s)"
    "either ?w ''background_color'' ''bg_color'' = color_value (sh_background_color s)"
    "either ?w ''content_scale'' ''contentScale'' = JNum (sh_content_scale s)"
    "either ?w ''default_collapsed'' ''defaultCollapsed'' = JBool (sh_default_collapsed s)"
    by (simp_all only: canon written nullish_simps simp_thms color_some)
  show ?thesis using ok
    unfolding adapt_config_def Let_def eithers eithers' written
    by (simp add: shell_ok_def one_of_def bounded_def flag_def)
qed

text \<open>
  C18. The shell of a section survives its legacy encoding: written into a configuration as text and
  read back through \<open>JSON.parse\<close>, a valid shell is the same shell, whatever else the configuration holds,
  as long as it has none of the canonical names that the projection leaves out.
\<close>

theorem section_shell_round_trip:
  assumes "decode_config v = Some (JObj ps)" "jsonable (JObj ps)" "shell_ok s"
    and "list_all (\<lambda>k. nullish (fld (JObj ps) k)) unprojected_names"
  shows "adapt_legacy_section_shell (JStr (project_shared_shell_to_legacy_config v s)) = s"
  by (simp only: adapted_projection [OF assms(1,2)] adapt_merged [OF assms(3,4)])

theorem section_shell_round_trip_witness:
  "decode_config (JStr ''{\"title\":\"T\"}'') = Some (JObj [(''title'', JStr ''T'')])
   \<and> adapt_legacy_section_shell (JStr (project_shared_shell_to_legacy_config (JStr ''{\"title\":\"T\"}'')
        (default_section_shell\<lparr>sh_margin_top := 12, sh_text_color := Literal ''red''\<rparr>)))
      = default_section_shell\<lparr>sh_margin_top := 12, sh_text_color := Literal ''red''\<rparr>"
proof -
  have "decode_config (JStr ''{\"title\":\"T\"}'') = Some (JObj [(''title'', JStr ''T'')])" by code_simp
  moreover have "jsonable (JObj [(''title'', JStr ''T'')])" by (simp add: wf_props_def)
  moreover have "shell_ok (default_section_shell\<lparr>sh_margin_top := 12, sh_text_color := Literal ''red''\<rparr>)"
    by (simp add: shell_ok_def default_section_shell_def layouts_def container_widths_def animations_def intensities_def)
  moreover have "list_all (\<lambda>k. nullish (fld (JObj [(''title'', JStr ''T'')]) k)) unprojected_names" by code_simp
  ultimately show ?thesis using section_shell_round_trip by blast
qed

text \<open>
  A configuration that uses the canonical names loses the edits of its margins: the projection
  writes the legacy name, and the reader prefers the canonical one, which still has the old value.
\<close>

lemma canonical_margin_is_never_edited:
  assumes "decode_config v = Some (JObj ps)" "jsonable (JObj ps)"
    and "map_of ps ''margin_top'' = Some (JNum m)" "-512 \<le> m" "m \<le> 512"
  shows "sh_margin_top (adapt_legacy_section_shell (JStr (project_shared_shell_to_legacy_config v s))) = m"
proof -
  have "fld (JObj (props_merge ps (shell_props s))) ''margin_top'' = JNum m"
    using assms(3) by (simp add: shell_props_def)
  then have "either (JObj (props_merge ps (shell_props s))) ''margin_top'' ''marginTop'' = JNum m"
    by (simp only: either_def js_coalesce_def nullish_simps if_False)
  then show ?thesis unfolding adapted_projection [OF assms(1,2)] adapt_config_def Let_def
    using assms(4,5) by (simp only: section_shell.simps bounded_def jsval.case simp_thms if_True)
qed

theorem canonical_margin_is_never_edited_witness:
  "sh_margin_top (adapt_legacy_section_shell (JStr (project_shared_shell_to_legacy_config
     (JObj [(''margin_top'', JNum 8)]) (default_section_shell\<lparr>sh_margin_top := 24\<rparr>)))) = 8"
  by (rule canonical_margin_is_never_edited [where ps = "[(''margin_top'', JNum 8)]"])
    (simp_all add: decode_config_def object_value_def wf_props_def)

section \<open>Items and interactive sections\<close>

definition mappable_fields :: "string list" where
  "mappable_fields = [''heading'', ''subheading'', ''icon'', ''image_url'', ''link_url'']"

lemma keeps_id:
  "fst e \<noteq> k \<Longrightarrow> fld (map_column row e item) k = fld (JObj (own_props item)) k \<or> map_column row e item = item"
  "fst f \<noteq> k \<Longrightarrow> fld (override_field f item) k = fld (JObj (own_props item)) k \<or> override_field f item = item"
  by (auto simp: map_column_def override_field_def)

lemma fold_keeps_field:
  assumes "\<And>e item. e \<in> set es \<Longrightarrow> is_obj item \<Longrightarrow> is_obj (f e item) \<and> fld (f e item) k = fld item k"
  shows "is_obj item \<Longrightarrow> is_obj (fold f es item) \<and> fld (fold f es item) k = fld item k"
  using assms by (induction es arbitrary: item) auto

text \<open>
  Generated items never take the place of stored ones: under a column map and overrides of the
  mappable fields, the items of \<open>n\<close> rows have the ids \<open>-1\<close> to \<open>-n\<close> in order, whatever the rows hold.
\<close>

lemma generated_items_have_own_ids:
  assumes "set (map fst column_map) \<subseteq> set mappable_fields"
    and "\<forall>(k, fs) \<in> set overrides. set (map fst fs) \<subseteq> set mappable_fields"
  shows "map (\<lambda>item. fld item ''id'') (map_rows_to_items rows column_map section_id overrides key_column)
    = map (\<lambda>i. JNum (- (int i + 1))) [0..<length rows]"
proof -
  have other: "k \<in> set mappable_fields \<Longrightarrow> k \<noteq> ''id''" for k by (auto simp: mappable_fields_def)
  have col: "is_obj (map_column row e item) \<and> fld (map_column row e item) ''id'' = fld item ''id''"
    if "e \<in> set column_map" "is_obj item" for row e item
    using that assms(1) other [of "fst e"] by (cases item) (auto simp: map_column_def obj_with_def is_obj_iff)
  have over: "is_obj (override_field e item) \<and> fld (override_field e item) ''id'' = fld item ''id''"
    if "e \<in> set fs" "map_of overrides k = Some fs" "is_obj item" for e fs k item
    using that assms(2) other [of "fst e"]
    by (cases item; cases e) (fastforce simp: override_field_def obj_with_def is_obj_iff dest!: map_of_SomeD)+
  have "fld (map_single_row row column_map section_id i (map_of overrides key)) ''id'' = JNum (- (int i + 1))" for row i key
  proof -
    let ?item = "fold (map_column row) column_map (blank_item section_id i)"
    have item: "is_obj ?item \<and> fld ?item ''id'' = JNum (- (int i + 1))"
      using fold_keeps_field [of column_map "map_column row" "''id''" "blank_item section_id i"] col
      by (simp add: blank_item_def is_obj_iff)
    show ?thesis
    proof (cases "map_of overrides key")
      case (Some fs)
      with fold_keeps_field [of fs override_field "''id''" ?item] over item show ?thesis
        by (simp add: map_single_row_def)
    qed (use item in \<open>simp add: map_single_row_def\<close>)
  qed
  then show ?thesis by (simp add: map_rows_to_items_def)
qed

theorem generated_items_have_own_ids_witness:
  "map (\<lambda>item. fld item ''id'') (map_rows_to_items [JObj [(''id'', JNum 7), (''name'', JStr ''A'')], JObj [(''id'', JNum 9)]]
     [(''heading'', ''name'')] (JNum 1) [(''9'', [(''icon'', JStr ''star'')])] (Some ''id'')) = [JNum (-1), JNum (-2)]"
  using generated_items_have_own_ids [of "[(''heading'', ''name'')]" "[(''9'', [(''icon'', JStr ''star'')])]"
    "[JObj [(''id'', JNum 7), (''name'', JStr ''A'')], JObj [(''id'', JNum 9)]]" "JNum 1" "Some ''id''"]
  by (simp add: mappable_fields_def upt_rec)

lemma answers_lookup:
  "map_get (fold (\<lambda>f answers. let v = value_of vs (if_key f) in
       if no_answer v then answers
       else map_set (if_key f) (if numeric_field (if_type f) then js_number v else v) answers) fs m) k \<noteq> None
   \<longleftrightarrow> map_get m k \<noteq> None \<or> k \<in> if_key ` set fs \<and> \<not> no_answer (value_of vs k)"
  by (induction fs arbitrary: m) (auto simp: Let_def)

lemma field_errors_grow: "map_get es k \<noteq> None \<Longrightarrow> map_get (field_errors u vs f es) k \<noteq> None"
  by (auto simp: field_errors_def Let_def split: jsval.split list.split)

lemma errors_grow: "map_get es k \<noteq> None \<Longrightarrow> map_get (fold (field_errors u vs) fs es) k \<noteq> None"
proof (induction fs arbitrary: es)
  case (Cons f fs)
  show ?case using Cons.IH [OF field_errors_grow [OF Cons.prems]] by simp
qed simp

lemma field_error_found:
  "if_required f \<Longrightarrow> no_answer (value_of vs (if_key f)) \<Longrightarrow> map_get (field_errors u vs f es) (if_key f) \<noteq> None"
  by (auto simp: field_errors_def Let_def split: jsval.split list.split)

lemma required_is_found:
  "f \<in> set fs \<Longrightarrow> if_required f \<Longrightarrow> no_answer (value_of vs (if_key f)) \<Longrightarrow>
     map_get (fold (field_errors u vs) fs es) (if_key f) \<noteq> None"
proof (induction fs arbitrary: es)
  case (Cons g fs)
  show ?case
  proof (cases "f = g")
    case True
    with errors_grow [OF field_error_found [OF Cons.prems(2,3)], where fs = fs] show ?thesis by simp
  next
    case False
    with Cons.prems(1) have "f \<in> set fs" by simp
    from Cons.IH [OF this Cons.prems(2,3)] show ?thesis by simp
  qed
qed simp

text \<open>
  A form that validates is submitted whole: when no field has an error, the normalised answers have
  an entry for every required field, and only for fields of the form that were filled in.
\<close>

lemma valid_form_is_complete:
  assumes "validate_interactive_values valid_url fs vs = []"
  shows "(\<forall>f \<in> set fs. if_required f \<longrightarrow> map_get (normalize_interactive_answers fs vs) (if_key f) \<noteq> None)
    \<and> (\<forall>k. map_get (normalize_interactive_answers fs vs) k \<noteq> None \<longrightarrow> k \<in> if_key ` set fs \<and> \<not> no_answer (value_of vs k))"
proof -
  have "\<not> no_answer (value_of vs (if_key f))" if "f \<in> set fs" "if_required f" for f
    using required_is_found [OF that, where vs = vs and u = valid_url and es = "[]"] assms
    by (auto simp: validate_interactive_values_def map_get_def)
  moreover have "map_get (normalize_interactive_answers fs vs) k \<noteq> None \<longleftrightarrow> k \<in> if_key ` set fs \<and> \<not> no_answer (value_of vs k)" for k
    unfolding normalize_interactive_answers_def answers_lookup by simp
  ultimately show ?thesis by blast
qed

theorem valid_form_is_complete_witness:
  "map_get (normalize_interactive_answers [\<lparr>if_key = ''name'', if_type = ''text'', if_label = ''Name'', if_required = True, if_options = []\<rparr>]
     [(''name'', JStr ''Ann'')]) ''name'' \<noteq> None"
  using valid_form_is_complete [of "\<lambda>_. True"
    "[\<lparr>if_key = ''name'', if_type = ''text'', if_label = ''Name'', if_required = True, if_options = []\<rparr>]" "[(''name'', JStr ''Ann'')]"]
  by (simp add: validate_interactive_values_def field_errors_def value_of_def map_get_def no_answer_def)

text \<open>Properties that are \<open>undefined\<close> leave no trace in a text.\<close>

lemma stringify_undefined:
  "json_stringify (JObj ps) = json_stringify (JObj (filter (\<lambda>p. snd p \<noteq> JUndef) ps))"
proof -
  have "concat (map (\<lambda>p. case json_text (snd p) of Some t \<Rightarrow> [json_string (fst p) @ '':'' @ t] | None \<Rightarrow> []) ps)
      = concat (map (\<lambda>p. case json_text (snd p) of Some t \<Rightarrow> [json_string (fst p) @ '':'' @ t] | None \<Rightarrow> [])
          (filter (\<lambda>p. snd p \<noteq> JUndef) ps))"
    by (induction ps) auto
  then show ?thesis by (simp add: json_stringify_def)
qed

lemma map_of_filter_value:
  "wf_props ps \<Longrightarrow> map_of (filter (\<lambda>p. P (snd p)) ps) k =
     (case map_of ps k of Some v \<Rightarrow> if P v then Some v else None | None \<Rightarrow> None)"
  by (induction ps) (auto simp: wf_props_def map_of_eq_None_iff image_iff split: option.split)

lemma jsonable_default: "jsonable (default_interactive_config ty)"
  by (simp add: default_interactive_config_def once_only_def shared_config_def field_value_def option_value_def
      obj_with_def props_merge_def wf_props_def)

lemma merged_with_itself:
  assumes "fld (JObj ds) ''fields'' = JArr xs" "fld (JObj ds) ''records'' = JArr []"
  shows "fld (obj_with (obj_spread (JObj ds) (JObj ds)) [(''fields'', array_or (fld (JObj ds) ''fields'') (fld (JObj ds) ''fields'')),
    (''records'', array_or (fld (JObj ds) ''records'') (JArr []))]) k = fld (JObj ds) k"
  unfolding assms using assms by (auto simp: obj_spread_def array_or_def split: option.split option.split_asm)

text \<open>
  A new interactive section opens with its defaults: the text it is stored with parses back to
  the default configuration of its type, in every field.
\<close>

lemma new_section_has_defaults:
  assumes "is_interactive_section_type ty"
  shows "\<exists>config. parse_interactive_config (JStr (config_for_new_section ty)) ty = Some config
    \<and> (\<forall>k. fld config k = fld (default_interactive_config ty) k)"
proof -
  let ?d = "default_interactive_config ty"
  have "?d = JObj (own_props ?d)" by (simp add: default_interactive_config_def once_only_def obj_with_def)
  then obtain ds where shape: "?d = JObj ds" ..
  have stored: "config_for_new_section ty \<noteq> []" "json_parse (config_for_new_section ty) = Some ?d"
    using assms json_parse_stringify [OF jsonable_default [of ty]] json_object_text [of ds]
    by (simp_all add: config_for_new_section_def shape)
  have "\<exists>xs. fld ?d ''fields'' = JArr xs" "fld ?d ''records'' = JArr []"
    by (simp_all add: default_interactive_config_def once_only_def shared_config_def)
  then obtain xs where "fld (JObj ds) ''fields'' = JArr xs" "fld (JObj ds) ''records'' = JArr []" by (auto simp only: shape)
  note same = merged_with_itself [OF this]
  show ?thesis
    unfolding parse_interactive_config_def Let_def using stored same by (simp add: shape del: fld_obj fld_obj_with)
qed

theorem new_section_has_defaults_witness:
  "\<exists>config. parse_interactive_config (JStr (config_for_new_section ''poll'')) ''poll'' = Some config
    \<and> (\<forall>k. fld config k = fld (default_interactive_config ''poll'') k)"
  by (rule new_section_has_defaults) (simp add: is_interactive_section_type_def interactive_section_types_def)

text \<open>
  A copied section carries no responses: the configuration that goes to the clipboard parses to an
  object with an empty list of records and no result summary, and with everything else it had.
\<close>

lemma clipboard_has_no_records:
  assumes "json_parse raw = Some (JObj ps)" "jsonable (JObj ps)" "raw \<noteq> []"
  shows "\<exists>qs. json_parse (clear_interactive_records (JStr raw)) = Some (JObj qs)
    \<and> map_of qs ''records'' = Some (JArr []) \<and> map_of qs ''result_summary'' = None
    \<and> (\<forall>k. k \<noteq> ''records'' \<longrightarrow> k \<noteq> ''result_summary'' \<longrightarrow> map_of qs k = map_of ps k)"
proof -
  define kvs where "kvs = [(''records'', JArr []), (''result_summary'', JUndef)]"
  define qs where "qs = filter (\<lambda>p. snd p \<noteq> JUndef) (props_merge ps kvs)"
  have el: "jsonable (snd p)" if "p \<in> set ps" for p using that assms(2) by (simp add: list_all_iff)
  have wf: "wf_props (props_merge ps kvs)" using assms(2) by (intro wf_props_merge) (simp_all add: wf_props_def kvs_def)
  have "jsonable (snd p)" if "p \<in> set qs" for p
    using that el by (fastforce simp: qs_def props_merge_def kvs_def split: if_splits)
  then have js: "jsonable (JObj qs)"
    using wf by (simp add: list_all_iff qs_def wf_props_def distinct_map_filter)
  have "clear_interactive_records (JStr raw) = json_stringify (JObj (props_merge ps kvs))"
    using assms(1,3) by (simp add: clear_interactive_records_def obj_with_def kvs_def)
  then have "clear_interactive_records (JStr raw) = json_stringify (JObj qs)"
    by (simp only: qs_def stringify_undefined [of "props_merge ps kvs"])
  then have "json_parse (clear_interactive_records (JStr raw)) = Some (JObj qs)" using json_parse_stringify [OF js] by simp
  moreover have "map_of qs k = (case map_of (props_merge ps kvs) k of Some v \<Rightarrow> if v \<noteq> JUndef then Some v else None | None \<Rightarrow> None)" for k
    unfolding qs_def by (rule map_of_filter_value [OF wf])
  moreover have "map_of ps k \<noteq> Some JUndef" for k using el by (fastforce dest!: map_of_SomeD)
  ultimately show ?thesis by (auto simp: kvs_def split: option.splits)
qed

theorem clipboard_has_no_records_witness:
  "\<exists>qs. json_parse (clear_interactive_records (JStr ''{\"status\":\"open\",\"records\":[1]}'')) = Some (JObj qs)
    \<and> map_of qs ''records'' = Some (JArr []) \<and> map_of qs ''status'' = Some (JStr ''open'')"
proof -
  have "json_parse ''{\"status\":\"open\",\"records\":[1]}'' = Some (JObj [(''status'', JStr ''open''), (''records'', JArr [JNum 1])])"
    by code_simp
  moreover have "jsonable (JObj [(''status'', JStr ''open''), (''records'', JArr [JNum 1])])" by (simp add: wf_props_def)
  ultimately obtain qs where "json_parse (clear_interactive_records (JStr ''{\"status\":\"open\",\"records\":[1]}'')) = Some (JObj qs)"
    "map_of qs ''records'' = Some (JArr [])" "map_of qs ''status'' = Some (JStr ''open'')"
    using clipboard_has_no_records [of "''{\"status\":\"open\",\"records\":[1]}''"] by fastforce
  then show ?thesis by blast
qed

end
