(* ===== verification/PageData.thy ===== *)
theory PageData
  imports JsText
begin

text \<open>
  The page a builder shows (\<open>hooks/usePageData.ts\<close>): it is fetched by its slug or as the landing page,
  changed by answers to updates and by live events, and held back while somebody edits. Requests and their
  answers are separate steps, so that answers may come in any order. The state is that of the hook, with
  the requests under way.
\<close>

section \<open>State\<close>

text \<open>What a failed request throws: an error with a message, a status and a time to wait, or anything else.\<close>

datatype page_failure = PageError string jsval jsval | NotAnError

datatype page_request = LandingSlug nat | FetchPage nat string | PutPage string

record page_data =
  pd_page :: jsval
  pd_loading :: bool
  pd_error :: string
  pd_status :: jsval
  pd_retry_after :: jsval
  pd_pending_incoming :: bool
  pd_current_slug :: jsval
  pd_requested_slug :: jsval
  pd_request_id :: nat
  pd_suppress :: bool
  pd_pending_data :: jsval
  pd_requests :: "page_request list"

definition new_page_data :: "bool \<Rightarrow> page_data" where
  "new_page_data suppress = \<lparr>pd_page = JNull, pd_loading = True, pd_error = [], pd_status = JUndef, pd_retry_after = JUndef,
     pd_pending_incoming = False, pd_current_slug = JNull, pd_requested_slug = JUndef, pd_request_id = 0,
     pd_suppress = suppress, pd_pending_data = JNull, pd_requests = []\<rparr>"

section \<open>Loading\<close>

text \<open>A slug is a text or \<open>undefined\<close>.\<close>

definition refresh :: "jsval \<Rightarrow> page_data \<Rightarrow> page_data" where
  "refresh slug d =
     (let i = Suc (pd_request_id d);
          d1 = d\<lparr>pd_request_id := i, pd_requested_slug := slug, pd_loading := True, pd_error := [], pd_status := JUndef,
            pd_retry_after := JUndef\<rparr>;
          d2 = (if slug \<noteq> pd_requested_slug d then d1\<lparr>pd_page := JNull, pd_current_slug := JNull\<rparr> else d1)
      in d2\<lparr>pd_requests := pd_requests d2 @
           [if truthy slug then FetchPage i (''/pages/'' @ js_string slug) else LandingSlug i]\<rparr>)"

definition answered :: "page_request \<Rightarrow> page_data \<Rightarrow> page_data" where
  "answered r d = d\<lparr>pd_requests := remove1 r (pd_requests d)\<rparr>"

definition page_failed :: "nat \<Rightarrow> page_failure \<Rightarrow> page_data \<Rightarrow> page_data" where
  "page_failed i e d =
     (if i \<noteq> pd_request_id d then d
      else (case e of
          PageError message status retry \<Rightarrow>
            d\<lparr>pd_page := JNull, pd_error := message, pd_status := status, pd_retry_after := retry, pd_loading := False\<rparr>
        | NotAnError \<Rightarrow>
            d\<lparr>pd_page := JNull, pd_error := ''Failed to load page'', pd_status := JUndef, pd_retry_after := JUndef, pd_loading := False\<rparr>))"

text \<open>The slug of nothing cannot be read; \<open>type_error\<close> is the message of the browser.\<close>

definition landing_answered :: "string \<Rightarrow> nat \<Rightarrow> page_failure + jsval \<Rightarrow> page_data \<Rightarrow> page_data" where
  "landing_answered type_error i answer d0 =
     (let d = answered (LandingSlug i) d0 in
      case answer of
        Inl e \<Rightarrow> page_failed i e d
      | Inr cfg \<Rightarrow>
          if i \<noteq> pd_request_id d then d
          else (case get cfg ''slug'' of
              None \<Rightarrow> page_failed i (PageError type_error JUndef JUndef) d
            | Some slug \<Rightarrow> d\<lparr>pd_requests := pd_requests d @ [FetchPage i (''/pages/'' @ js_string slug)]\<rparr>))"

definition slug_or_null :: "jsval \<Rightarrow> jsval" where
  "slug_or_null page = js_coalesce (fld page ''slug'') JNull"

definition page_answered :: "nat \<Rightarrow> string \<Rightarrow> page_failure + jsval \<Rightarrow> page_data \<Rightarrow> page_data" where
  "page_answered i endpoint answer d0 =
     (let d = answered (FetchPage i endpoint) d0 in
      case answer of
        Inl e \<Rightarrow> page_failed i e d
      | Inr page \<Rightarrow>
          if i \<noteq> pd_request_id d then d
          else d\<lparr>pd_page := page, pd_current_slug := slug_or_null page, pd_loading := False\<rparr>)"

section \<open>Changes\<close>

definition put_page :: "string \<Rightarrow> page_data \<Rightarrow> page_data" where
  "put_page endpoint d = d\<lparr>pd_requests := pd_requests d @ [PutPage endpoint]\<rparr>"

definition update_page :: "jsval \<Rightarrow> page_data \<Rightarrow> page_data" where
  "update_page p = put_page (''/pages/'' @ js_string (fld p ''id''))"

definition update_page_seo :: "jsval \<Rightarrow> page_data \<Rightarrow> page_data" where
  "update_page_seo page_id = put_page (''/pages/'' @ js_string page_id @ ''/seo'')"

text \<open>The answer to \<open>updatePage\<close> or \<open>updatePageSEO\<close>; an error goes to the caller.\<close>

definition put_answered :: "string \<Rightarrow> page_failure + jsval \<Rightarrow> page_data \<Rightarrow> page_data" where
  "put_answered endpoint answer d0 =
     (let d = answered (PutPage endpoint) d0 in
      case answer of Inr updated \<Rightarrow> if truthy updated then d\<lparr>pd_page := updated\<rparr> else d | Inl e \<Rightarrow> d)"

text \<open>
  \<open>fetch\<close> is \<open>apiRequest\<close> with a method, a path and a body; the answer of \<open>createPage\<close> with the
  requests it makes.
\<close>

definition create_page :: "(string \<Rightarrow> string \<Rightarrow> jsval \<Rightarrow> page_failure + jsval) \<Rightarrow> (string \<Rightarrow> string) \<Rightarrow> jsval \<Rightarrow> page_failure + jsval" where
  "create_page fetch encode p =
     (case fetch ''POST'' ''/pages'' p of
        Inr created \<Rightarrow> Inr created
      | Inl (PageError m s r) \<Rightarrow>
          if s = JNum 409 then fetch ''GET'' (''/pages/'' @ encode (js_string (fld p ''slug''))) JUndef else Inl (PageError m s r)
      | Inl NotAnError \<Rightarrow> Inl NotAnError)"

definition delete_page :: "(string \<Rightarrow> string \<Rightarrow> jsval \<Rightarrow> page_failure + jsval) \<Rightarrow> jsval \<Rightarrow> page_failure + jsval" where
  "delete_page fetch page_id = fetch ''DELETE'' (''/pages/'' @ js_string page_id) JUndef"

definition duplicate_page ::
  "(string \<Rightarrow> string \<Rightarrow> jsval \<Rightarrow> page_failure + jsval) \<Rightarrow> jsval \<Rightarrow> string \<Rightarrow> jsval \<Rightarrow> page_failure + jsval" where
  "duplicate_page fetch page_id new_slug new_title =
     fetch ''POST'' (''/pages/'' @ js_string page_id @ ''/duplicate'') (JObj [(''slug'', JStr new_slug), (''title'', new_title)])"

section \<open>Live events\<close>

definition apply_incoming_data :: "jsval \<Rightarrow> page_data \<Rightarrow> page_data" where
  "apply_incoming_data data d =
     (if \<not> truthy (pd_page d) \<or> \<not> truthy data then d
      else d\<lparr>pd_page := obj_with (obj_spread (pd_page d) data)
        [(''is_liked'', fld (pd_page d) ''is_liked''), (''can_delete'', fld (pd_page d) ''can_delete'')]\<rparr>)"

text \<open>The effect that runs when the flag of the caller changes.\<close>

definition suppression_changes :: "bool \<Rightarrow> page_data \<Rightarrow> page_data" where
  "suppression_changes suppress d0 =
     (let d = d0\<lparr>pd_suppress := suppress\<rparr> in
      if \<not> suppress \<and> pd_pending_incoming d then
        let pending = pd_pending_data d; d1 = d\<lparr>pd_pending_incoming := False, pd_pending_data := JNull\<rparr>
        in if truthy pending then apply_incoming_data pending d1
           else if truthy (pd_current_slug d1) then refresh (pd_current_slug d1) d1 else d1
      else d)"

definition reconnected :: "page_data \<Rightarrow> page_data" where
  "reconnected d =
     (if \<not> truthy (pd_current_slug d) then d
      else if pd_suppress d then d\<lparr>pd_pending_data := JNull, pd_pending_incoming := True\<rparr>
      else refresh (pd_current_slug d) d)"

definition page_updated :: "jsval \<Rightarrow> page_data \<Rightarrow> page_data" where
  "page_updated data d =
     (if truthy (fld data ''partial'') then
        (if pd_suppress d then d\<lparr>pd_pending_data := JNull, pd_pending_incoming := True\<rparr> else refresh (pd_current_slug d) d)
      else if pd_suppress d then d\<lparr>pd_pending_data := data, pd_pending_incoming := True\<rparr>
      else apply_incoming_data data d)"

definition page_live_event :: "string \<Rightarrow> jsval \<Rightarrow> page_data \<Rightarrow> page_data" where
  "page_live_event action data d =
     (if action = ''landing_page_changed'' \<and> truthy data \<and> \<not> truthy (pd_requested_slug d) then
        (if truthy (fld data ''partial'') then refresh JUndef (d\<lparr>pd_current_slug := slug_or_null data\<rparr>)
         else d\<lparr>pd_page := data, pd_current_slug := slug_or_null data\<rparr>)
      else if \<not> truthy (pd_current_slug d) then d
      else if action = ''page_updated''
        \<and> (strict_eq (fld data ''slug'') (pd_current_slug d) \<or> strict_eq (fld data ''id'') (fld (pd_page d) ''id'')) then
        page_updated data d
      else if action = ''page_deleted'' \<and> strict_eq (fld data ''id'') (fld (pd_page d) ''id'') then
        (if pd_suppress d then d\<lparr>pd_pending_incoming := True\<rparr> else refresh (pd_current_slug d) d)
      else d)"

definition rate_limit_cleared :: "page_data \<Rightarrow> page_data" where
  "rate_limit_cleared d = (if pd_status d = JNum 429 then refresh (pd_requested_slug d) d else d)"

section \<open>Who may edit\<close>

definition same_number :: "jsval \<Rightarrow> jsval \<Rightarrow> bool" where
  "same_number a b = strict_eq (js_number a) (js_number b)"

definition is_owner :: "jsval \<Rightarrow> jsval \<Rightarrow> bool" where
  "is_owner user page =
     (truthy (fld page ''owner_id'') \<and> truthy user \<and> same_number (fld page ''owner_id'') (fld user ''id''))"

definition is_page_editor :: "jsval \<Rightarrow> jsval \<Rightarrow> bool" where
  "is_page_editor user page =
     (case fld page ''editors'' of
        JArr es \<Rightarrow> list_ex (\<lambda>e. truthy user \<and> same_number (fld e ''id'') (fld user ''id'')) es
      | _ \<Rightarrow> False)"

definition is_editable :: "bool \<Rightarrow> jsval \<Rightarrow> jsval \<Rightarrow> bool" where
  "is_editable is_admin user page = (is_admin \<or> is_owner user page \<or> is_page_editor user page)"

section \<open>What can happen\<close>

inductive page_step :: "page_data \<Rightarrow> page_data \<Rightarrow> bool" where
    step_refresh: "page_step d (refresh slug d)"
  | step_landing: "LandingSlug i \<in> set (pd_requests d) \<Longrightarrow> page_step d (landing_answered type_error i answer d)"
  | step_page: "FetchPage i e \<in> set (pd_requests d) \<Longrightarrow> page_step d (page_answered i e answer d)"
  | step_put: "page_step d (put_page e d)"
  | step_put_answer: "PutPage e \<in> set (pd_requests d) \<Longrightarrow> page_step d (put_answered e answer d)"
  | step_suppress: "page_step d (suppression_changes suppress d)"
  | step_reconnect: "page_step d (reconnected d)"
  | step_event: "page_step d (page_live_event action data d)"
  | step_cleared: "page_step d (rate_limit_cleared d)"

inductive page_reachable :: "page_data \<Rightarrow> bool" where
    page_start: "page_reachable (new_page_data suppress)"
  | page_next: "page_reachable d \<Longrightarrow> page_step d d' \<Longrightarrow> page_reachable d'"

section \<open>The invariant\<close>

definition load_of :: "page_request \<Rightarrow> nat list" where
  "load_of r = (case r of LandingSlug i \<Rightarrow> [i] | FetchPage i _ \<Rightarrow> [i] | PutPage _ \<Rightarrow> [])"

definition loads :: "page_data \<Rightarrow> nat list" where
  "loads d = concat (map load_of (pd_requests d))"

text \<open>
  At most one request of each refresh is under way, none of a later one; the page is loading exactly
  while the request of the latest refresh is, or before the first.
\<close>

definition page_ok :: "page_data \<Rightarrow> bool" where
  "page_ok d = (distinct (loads d) \<and> (\<forall>i \<in> set (loads d). 0 < i \<and> i \<le> pd_request_id d)
     \<and> (pd_loading d \<longleftrightarrow> pd_request_id d = 0 \<or> pd_request_id d \<in> set (loads d)))"

lemma page_ok_cong:
  "pd_requests d' = pd_requests d \<Longrightarrow> pd_request_id d' = pd_request_id d \<Longrightarrow> pd_loading d' = pd_loading d \<Longrightarrow> page_ok d' = page_ok d"
  by (simp add: page_ok_def loads_def)

lemma page_ok_fields [simp]:
  "page_ok (d\<lparr>pd_page := v\<rparr>) = page_ok d" "page_ok (d\<lparr>pd_current_slug := v\<rparr>) = page_ok d"
  "page_ok (d\<lparr>pd_page := v, pd_current_slug := w\<rparr>) = page_ok d" "page_ok (d\<lparr>pd_suppress := b\<rparr>) = page_ok d"
  "page_ok (d\<lparr>pd_pending_incoming := b\<rparr>) = page_ok d" "page_ok (d\<lparr>pd_pending_data := v\<rparr>) = page_ok d"
  "page_ok (d\<lparr>pd_pending_incoming := b, pd_pending_data := v\<rparr>) = page_ok d"
  "page_ok (d\<lparr>pd_suppress := a, pd_pending_incoming := b, pd_pending_data := v\<rparr>) = page_ok d"
  by (rule page_ok_cong; simp)+

lemma apply_incoming_ok [simp]: "page_ok (apply_incoming_data data d) = page_ok d"
  by (simp add: apply_incoming_data_def)

lemma loads_answered:
  assumes "r \<in> set (pd_requests d)"
  shows "mset (loads d) = mset (load_of r) + mset (loads (answered r d))"
proof -
  have "r \<in> set rs \<Longrightarrow> mset (concat (map load_of rs)) = mset (load_of r) + mset (concat (map load_of (remove1 r rs)))" for rs
    by (induction rs) auto
  then show ?thesis using assms by (simp add: loads_def answered_def)
qed

lemma answered_loads:
  assumes "r \<in> set (pd_requests d)" "load_of r = [i]" "page_ok d"
  shows "set (loads d) = insert i (set (loads (answered r d)))" "i \<notin> set (loads (answered r d))" "distinct (loads (answered r d))"
proof -
  have ms: "mset (loads d) = mset (i # loads (answered r d))" using loads_answered [OF assms(1)] assms(2) by simp
  have "distinct (i # loads (answered r d))" using mset_eq_imp_distinct_iff [OF ms] assms(3) by (simp add: page_ok_def)
  then show "i \<notin> set (loads (answered r d))" "distinct (loads (answered r d))" by simp_all
  show "set (loads d) = insert i (set (loads (answered r d)))" using mset_eq_setD [OF ms] by simp
qed

lemma refresh_loads: "loads (refresh slug d) = loads d @ [Suc (pd_request_id d)]"
  "pd_request_id (refresh slug d) = Suc (pd_request_id d)" "pd_loading (refresh slug d)"
  by (simp_all add: refresh_def Let_def loads_def load_of_def)

lemma refresh_ok: "page_ok d \<Longrightarrow> page_ok (refresh slug d)"
  by (auto simp: page_ok_def refresh_loads le_Suc_eq)

lemma failed_simps:
  "pd_requests (page_failed i e d) = pd_requests d" "pd_request_id (page_failed i e d) = pd_request_id d"
  "pd_loading (page_failed i e d) = (if i = pd_request_id d then False else pd_loading d)"
  by (auto simp: page_failed_def split: page_failure.split)

lemma answered_simps [simp]:
  "pd_request_id (answered r d) = pd_request_id d" "pd_loading (answered r d) = pd_loading d"
  by (simp_all add: answered_def)

text \<open>A load that is over: the page stops loading when it was the latest.\<close>

lemma over_ok:
  assumes "page_ok d" "r \<in> set (pd_requests d)" "load_of r = [i]" "pd_requests d' = pd_requests (answered r d)"
    and "pd_request_id d' = pd_request_id d" "pd_loading d' = (if i = pd_request_id d then False else pd_loading d)"
  shows "page_ok d'"
proof -
  have l: "loads d' = loads (answered r d)" using assms(4) by (simp add: loads_def)
  show ?thesis unfolding page_ok_def l using answered_loads [OF assms(2,3,1)] assms(1,5,6) by (auto simp: page_ok_def)
qed

lemma landing_ok:
  assumes "page_ok d" "LandingSlug i \<in> set (pd_requests d)"
  shows "page_ok (landing_answered type_error i answer d)"
proof -
  let ?r = "LandingSlug i" and ?d = "landing_answered type_error i answer d"
  have n: "load_of ?r = [i]" by (simp add: load_of_def)
  have "pd_requests ?d = pd_requests (answered ?r d) \<and> pd_request_id ?d = pd_request_id d
      \<and> pd_loading ?d = (if i = pd_request_id d then False else pd_loading d)
    \<or> (\<exists>e. ?d = (answered ?r d)\<lparr>pd_requests := pd_requests (answered ?r d) @ [FetchPage i e]\<rparr>)"
    by (cases answer) (auto simp: landing_answered_def Let_def failed_simps split: option.split)
  then consider (over) "pd_requests ?d = pd_requests (answered ?r d)" "pd_request_id ?d = pd_request_id d"
      "pd_loading ?d = (if i = pd_request_id d then False else pd_loading d)"
    | (goes_on) e where "?d = (answered ?r d)\<lparr>pd_requests := pd_requests (answered ?r d) @ [FetchPage i e]\<rparr>" by blast
  then show ?thesis
  proof cases
    case over
    then show ?thesis by (rule over_ok [OF assms n])
  next
    case goes_on
    then have "loads ?d = loads (answered ?r d) @ [i]" by (simp add: loads_def load_of_def)
    with goes_on answered_loads [OF assms(2) n assms(1)] assms(1) show ?thesis by (auto simp: page_ok_def)
  qed
qed

lemma fetched_ok:
  assumes "page_ok d" "FetchPage i e \<in> set (pd_requests d)"
  shows "page_ok (page_answered i e answer d)"
  by (rule over_ok [OF assms, of i])
    (auto simp: load_of_def page_answered_def Let_def failed_simps split: sum.split)

lemma put_answered_ok:
  assumes "page_ok d" "PutPage e \<in> set (pd_requests d)"
  shows "page_ok (put_answered e answer d)"
proof -
  have "mset (loads (answered (PutPage e) d)) = mset (loads d)" using loads_answered [OF assms(2)] by (simp add: load_of_def)
  from mset_eq_imp_distinct_iff [OF this] mset_eq_setD [OF this] have "page_ok (answered (PutPage e) d)"
    using assms(1) by (simp add: page_ok_def)
  then show ?thesis by (auto simp: put_answered_def Let_def split: sum.split)
qed

lemma page_step_ok: "page_step d d' \<Longrightarrow> page_ok d \<Longrightarrow> page_ok d'"
proof (induction rule: page_step.induct)
  case (step_put d e)
  then show ?case by (simp add: put_page_def page_ok_def loads_def load_of_def)
next
  case (step_suppress d b)
  then show ?case by (simp add: suppression_changes_def Let_def refresh_ok)
next
  case (step_reconnect d)
  then show ?case by (simp add: reconnected_def refresh_ok)
next
  case (step_event d action data)
  then have "page_ok (page_updated data d)" by (simp add: page_updated_def refresh_ok)
  with step_event show ?case by (simp add: page_live_event_def refresh_ok)
next
  case (step_cleared d)
  then show ?case by (simp add: rate_limit_cleared_def refresh_ok)
qed (simp_all add: refresh_ok landing_ok fetched_ok put_answered_ok)

lemma page_reachable_ok: "page_reachable d \<Longrightarrow> page_ok d"
  by (induction rule: page_reachable.induct) (simp add: page_ok_def new_page_data_def loads_def, rule page_step_ok)

section \<open>Properties\<close>

text \<open>
  C10. Only the latest refresh counts: in every reachable state the page is loading exactly while its
  latest load is under way (or none has begun), the answer to an earlier load, whether a page, a landing
  slug or an error, changes nothing at all, and the answer to the latest one ends the loading.
\<close>

theorem latest_refresh_counts:
  assumes "page_reachable d"
  shows "(pd_loading d \<longleftrightarrow> pd_request_id d = 0 \<or> pd_request_id d \<in> set (loads d))
    \<and> (\<forall>i e answer. FetchPage i e \<in> set (pd_requests d) \<longrightarrow>
        (if i = pd_request_id d then \<not> pd_loading (page_answered i e answer d)
         else page_answered i e answer d = answered (FetchPage i e) d))
    \<and> (\<forall>i type_error answer. LandingSlug i \<in> set (pd_requests d) \<longrightarrow> i \<noteq> pd_request_id d \<longrightarrow>
        landing_answered type_error i answer d = answered (LandingSlug i) d)"
  using page_reachable_ok [OF assms]
  by (auto simp: page_ok_def page_answered_def landing_answered_def page_failed_def Let_def split: sum.split page_failure.split)

definition two_refreshes :: page_data where
  "two_refreshes = refresh (JStr ''b'') (refresh (JStr ''a'') (new_page_data False))"

theorem latest_refresh_counts_witness:
  "page_answered 1 ''/pages/a'' (Inr (JObj [(''slug'', JStr ''a'')])) two_refreshes = answered (FetchPage 1 ''/pages/a'') two_refreshes
   \<and> pd_loading two_refreshes"
proof -
  have "page_reachable two_refreshes" unfolding two_refreshes_def by (intro page_start page_next [OF _ step_refresh])
  moreover have "FetchPage 1 ''/pages/a'' \<in> set (pd_requests two_refreshes)" "1 \<noteq> pd_request_id two_refreshes"
    "pd_loading two_refreshes" by code_simp+
  ultimately show ?thesis using latest_refresh_counts [of two_refreshes] by auto
qed

text \<open>
  A live update brings the fields it carries and keeps those that belong to the viewer: after an
  update of the page shown, held back or not, every field of the update has its new value, the like and
  the right to delete are those of before, and so is every field the update does not carry.
\<close>

lemma live_update_keeps_own_fields:
  assumes "pd_page d = JObj ps" "truthy (JObj qs)" "\<not> truthy (fld (JObj qs) ''partial'')"
    and "pd_current_slug d = JStr s" "s \<noteq> []" "map_of qs ''slug'' = Some (JStr s)"
  shows "fld (pd_page (suppression_changes False (page_live_event ''page_updated'' (JObj qs)
      (suppression_changes held (d\<lparr>pd_pending_incoming := False\<rparr>))))) k
    = (if k \<in> {''is_liked'', ''can_delete''} then fld (JObj ps) k
       else case map_of qs k of Some v \<Rightarrow> v | None \<Rightarrow> fld (JObj ps) k)"
proof -
  let ?d = "suppression_changes held (d\<lparr>pd_pending_incoming := False\<rparr>)"
  have slug: "strict_eq (fld (JObj qs) ''slug'') (pd_current_slug d)" using assms(4,6) by simp
  have d: "?d = d\<lparr>pd_pending_incoming := False, pd_suppress := held\<rparr>" by (simp add: suppression_changes_def)
  have upd: "page_live_event ''page_updated'' (JObj qs) ?d = page_updated (JObj qs) ?d"
    using slug assms(4,5) unfolding d by (simp add: page_live_event_def)
  have "pd_page (suppression_changes False (page_updated (JObj qs) ?d)) = pd_page (apply_incoming_data (JObj qs) d)"
    using assms(2,3) unfolding d by (cases held) (simp_all add: page_updated_def suppression_changes_def apply_incoming_data_def Let_def)
  then show ?thesis
    unfolding upd by (simp add: apply_incoming_data_def assms(1) obj_spread_def split: option.split)
qed

definition shown_page :: page_data where
  "shown_page = page_answered 1 ''/pages/a''
     (Inr (JObj [(''id'', JNum 1), (''slug'', JStr ''a''), (''title'', JStr ''old''), (''is_liked'', JBool True)]))
     (refresh (JStr ''a'') (new_page_data False))"

definition a_live_update :: "(string \<times> jsval) list" where
  "a_live_update = [(''id'', JNum 1), (''slug'', JStr ''a''), (''title'', JStr ''new''), (''is_liked'', JBool False)]"

theorem live_update_keeps_own_fields_witness:
  "fld (pd_page (suppression_changes False (page_live_event ''page_updated'' (JObj a_live_update)
     (suppression_changes True (shown_page\<lparr>pd_pending_incoming := False\<rparr>))))) ''is_liked'' = JBool True"
proof -
  have "pd_page shown_page = JObj [(''id'', JNum 1), (''slug'', JStr ''a''), (''title'', JStr ''old''), (''is_liked'', JBool True)]"
    "truthy (JObj a_live_update)" "\<not> truthy (fld (JObj a_live_update) ''partial'')" "pd_current_slug shown_page = JStr ''a''"
    "map_of a_live_update ''slug'' = Some (JStr ''a'')" by code_simp+
  from live_update_keeps_own_fields [OF this(1,2,3,4) _ this(5), of True "''is_liked''"] show ?thesis by code_simp
qed

section \<open>What goes wrong\<close>

text \<open>
  A page deleted while somebody edits stays: a live update held back before is not forgotten, and when the
  editing ends it is applied instead of asking for the page again.
\<close>

definition deleted_while_held :: page_data where
  "deleted_while_held = page_live_event ''page_deleted'' (JObj [(''id'', JNum 1)])
     (page_live_event ''page_updated'' (JObj a_live_update) (suppression_changes True shown_page))"

lemma deleted_page_stays_shown:
  "fld (pd_page (suppression_changes False deleted_while_held)) ''title'' = JStr ''new''
   \<and> pd_requests (suppression_changes False deleted_while_held) = []
   \<and> pd_requests (suppression_changes False (page_live_event ''page_deleted'' (JObj [(''id'', JNum 1)]) (suppression_changes True shown_page)))
     = [FetchPage 2 ''/pages/a'']"
  by code_simp

text \<open>The answer to an update that comes after the reader has gone to another page shows the old one there.\<close>

definition update_then_leave :: page_data where
  "update_then_leave = page_answered 2 ''/pages/b'' (Inr (JObj [(''id'', JNum 2), (''slug'', JStr ''b'')]))
     (refresh (JStr ''b'') (update_page (pd_page shown_page) shown_page))"

lemma late_update_replaces_page:
  "fld (pd_page update_then_leave) ''id'' = JNum 2
   \<and> (let d = put_answered ''/pages/1'' (Inr (JObj [(''id'', JNum 1), (''slug'', JStr ''a'')])) update_then_leave
      in fld (pd_page d) ''id'' = JNum 1 \<and> pd_current_slug d = JStr ''b'')"
  by code_simp

end
