(* ===== verification/PageEditor.thy ===== *)
theory PageEditor
  imports PageData JsonParse
begin

text \<open>
  The sections of a page while they are edited (\<open>components/page/PageBuilder.tsx\<close>): their order, how
  incoming ones are merged, the changes the blocks make, and the pipeline that saves them. Sections are
  objects as JSON brings them, with a number as their order. A render, an effect, a timer, an answer and
  a change are separate steps; \<open>sectionsRef\<close> and \<open>pageRef\<close> hold what the last render saw.
\<close>

section \<open>Sections\<close>

definition section_order :: "jsval \<Rightarrow> int" where
  "section_order s = num_of (fld s ''display_order'')"

definition sort_sections :: "jsval list \<Rightarrow> jsval list" where
  "sort_sections = sort_key section_order"

text \<open>The value that the replacer of \<open>stableStringify\<close> makes: every object with its keys in order.\<close>

fun stable_value :: "jsval \<Rightarrow> jsval" where
  "stable_value (JArr xs) = JArr (map stable_value xs)"
| "stable_value (JObj ps) = JObj (sort_key fst (map (\<lambda>p. (fst p, stable_value (snd p))) ps))"
| "stable_value (JMap m) = JObj []"
| "stable_value v = v"

definition stable_stringify :: "jsval \<Rightarrow> string" where
  "stable_stringify v = json_stringify (stable_value v)"

definition section_text :: "jsval \<Rightarrow> string" where
  "section_text s = stable_stringify (obj_with s [(''items'', js_coalesce (fld s ''items'') (JArr []))])"

text \<open>The map by id keeps the last of several; a section that is not there is \<open>None\<close>.\<close>

definition section_with_id :: "jsval list \<Rightarrow> jsval \<Rightarrow> jsval option" where
  "section_with_id ss i = List.find (\<lambda>s. strict_eq (fld s ''id'') i) (rev ss)"

definition unchanged_section :: "jsval list \<Rightarrow> jsval \<Rightarrow> jsval option" where
  "unchanged_section current inc =
     (case section_with_id current (fld inc ''id'') of
        Some s \<Rightarrow> if section_text s = section_text inc then Some s else None
      | None \<Rightarrow> None)"

definition merge_sections :: "jsval list \<Rightarrow> jsval list \<Rightarrow> jsval list" where
  "merge_sections current incoming =
     (if current = [] then incoming
      else if length current \<noteq> length incoming \<or> list_ex (\<lambda>inc. unchanged_section current inc = None) incoming then
        map (\<lambda>inc. case unchanged_section current inc of Some s \<Rightarrow> s | None \<Rightarrow> inc) incoming
      else current)"

text \<open>Sorting what is sorted changes nothing.\<close>

lemma sort_sorted: "sorted (map f xs) \<Longrightarrow> sort_key f xs = xs"
  by (induction xs) (auto simp: insort_is_Cons)

lemma sort_sections_twice [simp]: "sort_sections (sort_sections ss) = sort_sections ss"
  unfolding sort_sections_def by (rule sort_sorted) simp

lemma merged_sections_same:
  assumes "list_all (\<lambda>s. strict_eq (fld s ''id'') (fld s ''id'')) ss" "distinct (map (\<lambda>s. fld s ''id'') ss)"
  shows "merge_sections ss ss = ss"
proof -
  have "unchanged_section ss s = Some s" if "s \<in> set ss" for s
  proof -
    have "\<exists>s'. section_with_id ss (fld s ''id'') = Some s'" unfolding section_with_id_def
      using that assms(1) by (auto simp: list_all_iff find_None_iff not_None_eq [symmetric] simp del: not_None_eq)
    then obtain s' where s': "section_with_id ss (fld s ''id'') = Some s'" by blast
    then have "s' \<in> set ss" "fld s' ''id'' = fld s ''id''" using strict_eq_eq by (auto simp: section_with_id_def dest!: find_SomeD)
    with assms(2) that have "s' = s" by (metis distinct_map inj_on_def)
    with s' show ?thesis by (simp add: unchanged_section_def)
  qed
  then show ?thesis by (auto simp: merge_sections_def list_ex_iff intro!: map_idI)
qed

section \<open>Changes of the sections\<close>

definition stamped_section :: "jsval option \<Rightarrow> jsval \<Rightarrow> jsval" where
  "stamped_section stamp s = (case stamp of Some e \<Rightarrow> obj_with s [(''last_edited_by'', e)] | None \<Rightarrow> s)"

definition has_same_id :: "jsval \<Rightarrow> jsval \<Rightarrow> bool" where
  "has_same_id a b = strict_eq (fld a ''id'') (fld b ''id'')"

definition section_updated :: "jsval option \<Rightarrow> jsval \<Rightarrow> jsval list \<Rightarrow> jsval list" where
  "section_updated stamp s ss =
     (let new = stamped_section stamp s in sort_sections (map (\<lambda>sec. if has_same_id sec new then new else sec) ss))"

definition splice_in :: "nat \<Rightarrow> 'a \<Rightarrow> 'a list \<Rightarrow> 'a list" where
  "splice_in i x xs = take i xs @ [x] @ drop i xs"

definition numbered :: "jsval list \<Rightarrow> jsval list" where
  "numbered ss = map (\<lambda>(k, s). obj_with s [(''display_order'', JNum (int k + 1))]) (enumerate 0 ss)"

lemma length_numbered [simp]: "length (numbered ss) = length ss"
  by (simp add: numbered_def)

lemma numbered_nth: "k < length ss \<Longrightarrow> numbered ss ! k = obj_with (ss ! k) [(''display_order'', JNum (int k + 1))]"
  by (simp add: numbered_def nth_enumerate_eq)

lemma numbered_order: "map section_order (numbered ss) = map (\<lambda>k. int k + 1) [0..<length ss]"
  by (rule nth_equalityI) (simp_all add: numbered_nth section_order_def)

lemma numbered_fields: "list_all plain_object ss \<Longrightarrow> k \<noteq> ''display_order'' \<Longrightarrow> map (\<lambda>s. fld s k) (numbered ss) = map (\<lambda>s. fld s k) ss"
  by (rule nth_equalityI) (auto simp: numbered_nth object_fields list_all_length)

lemma numbered_sorted [simp]: "sort_sections (numbered ss) = numbered ss"
  unfolding sort_sections_def by (rule sort_sorted) (auto simp: numbered_order sorted_iff_nth_mono)

definition section_created :: "int \<Rightarrow> jsval \<Rightarrow> jsval list \<Rightarrow> jsval list" where
  "section_created now s ss =
     (let sorted = sort_sections ss; n = int (length sorted);
          i = max 0 (min n (case fld s ''display_order'' of JNum d \<Rightarrow> d - 1 | JNaN \<Rightarrow> 0 | _ \<Rightarrow> n))
      in numbered (splice_in (nat i) (obj_with s [(''id'', JNum now)]) sorted))"

definition section_deleted :: "jsval \<Rightarrow> jsval list \<Rightarrow> jsval list" where
  "section_deleted i ss = sort_sections (filter (\<lambda>s. \<not> strict_eq (fld s ''id'') i) ss)"

definition items_of :: "jsval \<Rightarrow> jsval list" where
  "items_of s = (case fld s ''items'' of JArr xs \<Rightarrow> xs | _ \<Rightarrow> [])"

definition item_created :: "int \<Rightarrow> jsval \<Rightarrow> jsval \<Rightarrow> jsval list \<Rightarrow> jsval list" where
  "item_created now section_id item ss = sort_sections (map (\<lambda>s.
     if strict_eq (fld s ''id'') section_id
     then obj_with s [(''items'', JArr (items_of s @ [obj_with item [(''id'', JNum now)]]))] else s) ss)"

definition item_updated :: "jsval option \<Rightarrow> jsval \<Rightarrow> jsval list \<Rightarrow> jsval list" where
  "item_updated stamp item ss = sort_sections (map (\<lambda>s.
     if \<not> truthy (fld s ''items'') \<or> \<not> list_ex (\<lambda>it. has_same_id it item) (items_of s) then s
     else obj_with s ((case stamp of Some e \<Rightarrow> [(''last_edited_by'', e)] | None \<Rightarrow> []) @
       [(''items'', JArr (map (\<lambda>it. if has_same_id it item then item else it) (items_of s)))])) ss)"

definition item_deleted :: "jsval \<Rightarrow> jsval list \<Rightarrow> jsval list" where
  "item_deleted i ss = sort_sections (map (\<lambda>s.
     if \<not> truthy (fld s ''items'') then s
     else obj_with s [(''items'', JArr (filter (\<lambda>it. \<not> strict_eq (fld it ''id'') i) (items_of s)))]) ss)"

fun find_index :: "('a \<Rightarrow> bool) \<Rightarrow> 'a list \<Rightarrow> nat option" where
  "find_index P [] = None"
| "find_index P (x # xs) = (if P x then Some 0 else map_option Suc (find_index P xs))"

definition section_moved :: "jsval \<Rightarrow> jsval \<Rightarrow> jsval list \<Rightarrow> jsval list option" where
  "section_moved source target ss =
     (let sorted = sort_sections ss in
      case (find_index (\<lambda>s. strict_eq (fld s ''id'') source) sorted, find_index (\<lambda>s. strict_eq (fld s ''id'') target) sorted) of
        (Some i, Some j) \<Rightarrow>
          if i = j then None
          else Some (numbered (splice_in j (sorted ! i) (take i sorted @ drop (Suc i) sorted)))
      | _ \<Rightarrow> None)"

lemma find_index_SomeD: "find_index P xs = Some i \<Longrightarrow> i < length xs \<and> P (xs ! i)"
  by (induction xs arbitrary: i) (auto split: if_splits)

lemma splice_in_nth: "i \<le> length xs \<Longrightarrow> splice_in i x xs ! i = x"
  by (simp add: splice_in_def nth_append)

lemma mset_splice_out: "i < length xs \<Longrightarrow> mset (splice_in j (xs ! i) (take i xs @ drop (Suc i) xs)) = mset xs"
proof -
  assume i: "i < length xs"
  have "mset (splice_in j x ys) = add_mset x (mset ys)" for x and ys :: "'a list"
    unfolding splice_in_def by (metis append_take_drop_id mset.simps(2) mset_append append_Cons append_Nil union_mset_add_mset_right)
  then show ?thesis using id_take_nth_drop [OF i] by (metis mset.simps(2) mset_append union_mset_add_mset_right)
qed

section \<open>State\<close>

datatype save_status = Idle | Waiting | Saving | Saved | SaveError

text \<open>A save under way: a change of the page, its creation with the slug to load then, that load, or nothing to do.\<close>

datatype save_call = Updating string jsval | Creating jsval jsval | Reloading nat | Kept

text \<open>
  Of the timers, each with its handle, its delay and whether it resets the count of changes, \<open>pb_timer\<close> is
  the handle kept. \<open>pb_sent\<close> records the saves begun, with their sections.
\<close>

record page_builder =
  pb_data :: page_data
  pb_slug :: jsval
  pb_sections :: "jsval list"
  pb_sourced :: bool
  pb_sections_ref :: "jsval list"
  pb_page_ref :: jsval
  pb_editing :: nat
  pb_pending :: "jsval list option"
  pb_timer :: "nat option"
  pb_timers :: "(nat \<times> int \<times> bool) list"
  pb_next_timer :: nat
  pb_change_count :: int
  pb_last_change :: int
  pb_status :: save_status
  pb_status_timers :: "save_status list"
  pb_saves :: "save_call list"
  pb_toasts :: "string list"
  pb_mounted :: bool
  pb_sent :: "(jsval list \<times> save_call) list"

definition new_page_builder :: "jsval \<Rightarrow> page_builder" where
  "new_page_builder slug = \<lparr>pb_data = refresh slug (new_page_data False), pb_slug = slug, pb_sections = [], pb_sourced = False,
     pb_sections_ref = [], pb_page_ref = JNull, pb_editing = 0, pb_pending = None, pb_timer = None, pb_timers = [],
     pb_next_timer = 0, pb_change_count = 0, pb_last_change = 0, pb_status = Idle, pb_status_timers = [], pb_saves = [],
     pb_toasts = [], pb_mounted = True, pb_sent = []\<rparr>"

section \<open>Rendering\<close>

definition render :: "page_builder \<Rightarrow> page_builder" where
  "render p = p\<lparr>pb_sections_ref := pb_sections p, pb_page_ref := pd_page (pb_data p),
     pb_data := if (0 < pb_editing p) = pd_suppress (pb_data p) then pb_data p
       else suppression_changes (0 < pb_editing p) (pb_data p)\<rparr>"

text \<open>The effect that shows the content of the page; \<open>d\<close> is the page data of the render.\<close>

definition parsed_content :: "jsval \<Rightarrow> jsval list option" where
  "parsed_content page =
     (if truthy (fld page ''content'') then
        (case json_parse (js_string (fld page ''content'')) of Some (JArr ss) \<Rightarrow> Some ss | _ \<Rightarrow> None)
      else None)"

definition sync_sections :: "page_data \<Rightarrow> page_builder \<Rightarrow> page_builder" where
  "sync_sections d p =
     (if pb_pending p \<noteq> None then p
      else if 0 < pb_editing p then p
      else if \<not> truthy (pd_page d) \<and> pd_error d \<noteq> [] then p\<lparr>pb_sections := [], pb_sourced := True\<rparr>
      else (case parsed_content (pd_page d) of
          Some ss \<Rightarrow> p\<lparr>pb_sections := merge_sections (pb_sections p) (sort_sections ss), pb_sourced := True\<rparr>
        | None \<Rightarrow> if pd_loading d then p else p\<lparr>pb_sections := [], pb_sourced := True\<rparr>))"

text \<open>A render, and the effect if the page, its error or the loading flag has changed since the last.\<close>

definition commit :: "bool \<Rightarrow> page_builder \<Rightarrow> page_builder" where
  "commit changed p = (if changed then sync_sections (pb_data p) (render p) else render p)"

definition slug_changes :: "jsval \<Rightarrow> page_builder \<Rightarrow> page_builder" where
  "slug_changes slug p =
     (let q = render (p\<lparr>pb_slug := slug\<rparr>)
      in q\<lparr>pb_sections := [], pb_sourced := False, pb_data := refresh slug (pb_data q)\<rparr>)"

definition config_event :: "string \<Rightarrow> page_builder \<Rightarrow> page_builder" where
  "config_event action p =
     (if action = ''landing_page_updated'' \<and> \<not> truthy (pb_slug p) \<and> pb_editing p = 0
      then p\<lparr>pb_data := refresh JUndef (pb_data p)\<rparr> else p)"

section \<open>Saving\<close>

definition begin_call :: "jsval list \<Rightarrow> save_call \<Rightarrow> page_builder \<Rightarrow> page_builder" where
  "begin_call ss c p = p\<lparr>pb_saves := pb_saves p @ [c], pb_sent := pb_sent p @ [(ss, c)]\<rparr>"

definition content_text :: "jsval list \<Rightarrow> jsval" where
  "content_text ss = JStr (json_stringify (JArr ss))"

definition created_page :: "jsval \<Rightarrow> jsval list \<Rightarrow> jsval" where
  "created_page slug ss = JObj
     [(''slug'', js_or slug (JStr ''landing'')), (''title'', js_or slug (JStr ''Landing'')), (''description'', JStr []),
      (''seo_title'', JStr []), (''seo_description'', JStr []), (''seo_image'', JStr []), (''content'', content_text ss),
      (''view_count'', JNum 0), (''likes'', JNum 0), (''is_liked'', JBool False), (''comment_count'', JNum 0)]"

definition ensure_page :: "jsval list \<Rightarrow> page_builder \<Rightarrow> page_builder" where
  "ensure_page ss p =
     (if truthy (pb_page_ref p) then begin_call ss Kept p
      else begin_call ss (Creating (pb_slug p) (created_page (pb_slug p) ss)) p)"

definition save_page_content :: "jsval list \<Rightarrow> page_builder \<Rightarrow> page_builder" where
  "save_page_content ss p =
     (if \<not> truthy (pb_page_ref p) \<or> nullish (fld (pb_page_ref p) ''id'') then ensure_page ss p
      else let body = obj_with (pb_page_ref p) [(''content'', content_text ss)]
        in begin_call ss (Updating (''/pages/'' @ js_string (fld body ''id'')) body) (p\<lparr>pb_data := update_page body (pb_data p)\<rparr>))"

definition run_save :: "page_builder \<Rightarrow> page_builder" where
  "run_save p =
     (case pb_pending p of
        None \<Rightarrow> p
      | Some ss \<Rightarrow> save_page_content ss (p\<lparr>pb_pending := None, pb_status := Saving\<rparr>))"

definition clear_save_timer :: "page_builder \<Rightarrow> page_builder" where
  "clear_save_timer p =
     (case pb_timer p of
        Some h \<Rightarrow> p\<lparr>pb_timers := filter (\<lambda>t. fst t \<noteq> h) (pb_timers p), pb_timer := None\<rparr>
      | None \<Rightarrow> p)"

definition set_save_timer :: "int \<Rightarrow> bool \<Rightarrow> page_builder \<Rightarrow> page_builder" where
  "set_save_timer delay resets p = p\<lparr>pb_timers := pb_timers p @ [(pb_next_timer p, delay, resets)],
     pb_timer := Some (pb_next_timer p), pb_next_timer := Suc (pb_next_timer p)\<rparr>"

definition save_timer_fires :: "nat \<times> int \<times> bool \<Rightarrow> page_builder \<Rightarrow> page_builder" where
  "save_timer_fires t p =
     (let q = p\<lparr>pb_timers := remove1 t (pb_timers p)\<rparr>
      in run_save (if snd (snd t) then q\<lparr>pb_change_count := 0\<rparr> else q))"

definition enter_edit :: "page_builder \<Rightarrow> page_builder" where
  "enter_edit p = clear_save_timer (p\<lparr>pb_editing := Suc (pb_editing p)\<rparr>)"

definition leave_edit :: "page_builder \<Rightarrow> page_builder" where
  "leave_edit p =
     (let q = p\<lparr>pb_editing := pb_editing p - 1\<rparr>
      in if pb_editing q = 0 \<and> pb_pending q \<noteq> None then set_save_timer 800 False q else q)"

definition schedule_save :: "int \<Rightarrow> jsval list \<Rightarrow> page_builder \<Rightarrow> page_builder" where
  "schedule_save now ss p0 =
     (let p = p0\<lparr>pb_pending := Some ss, pb_status := Waiting\<rparr> in
      if 0 < pb_editing p then p
      else let rapid = now - pb_last_change p < 1200;
          n = (if rapid then min (pb_change_count p + 1) 10 else 0)
        in set_save_timer (min (800 + n * 200) 3500) True
             (clear_save_timer (p\<lparr>pb_last_change := now, pb_change_count := n\<rparr>)))"

definition immediate_save :: "jsval list \<Rightarrow> page_builder \<Rightarrow> page_builder" where
  "immediate_save ss p = save_page_content ss ((clear_save_timer p)\<lparr>pb_pending := None, pb_status := Saving\<rparr>)"

text \<open>\<open>message\<close> and status of an error decide what the user is told.\<close>

definition mutation_failure_message :: "page_failure \<Rightarrow> string" where
  "mutation_failure_message e =
     (case e of
        PageError _ status _ \<Rightarrow>
          if status = JNum 409 then ''This section changed in another editor. The latest version has been reloaded.''
          else ''Failed to save changes - reloading page''
      | NotAnError \<Rightarrow> ''Failed to save changes - reloading page'')"

definition save_succeeded :: "save_call \<Rightarrow> page_builder \<Rightarrow> page_builder" where
  "save_succeeded c p = p\<lparr>pb_saves := remove1 c (pb_saves p), pb_status := Saved, pb_status_timers := pb_status_timers p @ [Saved]\<rparr>"

definition save_failed :: "page_failure \<Rightarrow> save_call \<Rightarrow> page_builder \<Rightarrow> page_builder" where
  "save_failed e c p = p\<lparr>pb_saves := remove1 c (pb_saves p), pb_status := SaveError, pb_toasts := pb_toasts p @ [mutation_failure_message e],
     pb_data := refresh (pb_slug p) (pb_data p), pb_status_timers := pb_status_timers p @ [SaveError]\<rparr>"

definition update_answered :: "string \<Rightarrow> jsval \<Rightarrow> page_failure + jsval \<Rightarrow> page_builder \<Rightarrow> page_builder" where
  "update_answered endpoint body answer p =
     (let q = p\<lparr>pb_data := put_answered endpoint answer (pb_data p)\<rparr> in
      case answer of
        Inl e \<Rightarrow> save_failed e (Updating endpoint body) q
      | Inr saved \<Rightarrow> save_succeeded (Updating endpoint body) (if truthy saved then q\<lparr>pb_page_ref := saved\<rparr> else q))"

definition create_answered :: "jsval \<Rightarrow> jsval \<Rightarrow> page_failure + jsval \<Rightarrow> page_builder \<Rightarrow> page_builder" where
  "create_answered slug body answer p =
     (case answer of
        Inl e \<Rightarrow> save_failed e (Creating slug body) p
      | Inr _ \<Rightarrow>
          let d = refresh slug (pb_data p)
          in p\<lparr>pb_data := d, pb_saves := remove1 (Creating slug body) (pb_saves p) @ [Reloading (pd_request_id d)]\<rparr>)"

definition status_timer_fires :: "save_status \<Rightarrow> page_builder \<Rightarrow> page_builder" where
  "status_timer_fires st p = p\<lparr>pb_status_timers := remove1 st (pb_status_timers p),
     pb_status := if pb_status p = st then Idle else pb_status p\<rparr>"

definition unmount :: "page_builder \<Rightarrow> page_builder" where
  "unmount p0 =
     (let p = (clear_save_timer p0)\<lparr>pb_mounted := False\<rparr> in
      case pb_pending p of Some ss \<Rightarrow> save_page_content ss p | None \<Rightarrow> p)"

definition factory_reset :: "page_builder \<Rightarrow> page_builder" where
  "factory_reset p = (clear_save_timer p)\<lparr>pb_pending := None\<rparr>"

definition factory_reset_done :: "page_builder \<Rightarrow> page_builder" where
  "factory_reset_done p = p\<lparr>pb_sections := [], pb_sourced := False\<rparr>"

section \<open>What the blocks call\<close>

definition save_later :: "int \<Rightarrow> jsval list \<Rightarrow> page_builder \<Rightarrow> page_builder" where
  "save_later now ss p = schedule_save now ss (p\<lparr>pb_sections := ss\<rparr>)"

definition save_now :: "jsval list \<Rightarrow> page_builder \<Rightarrow> page_builder" where
  "save_now ss p = immediate_save ss (p\<lparr>pb_sections := ss\<rparr>)"

definition update_section :: "jsval option \<Rightarrow> int \<Rightarrow> jsval \<Rightarrow> page_builder \<Rightarrow> page_builder" where
  "update_section stamp now s p = save_later now (section_updated stamp s (pb_sections_ref p)) p"

definition create_section :: "int \<Rightarrow> jsval \<Rightarrow> page_builder \<Rightarrow> page_builder" where
  "create_section now s p = save_now (section_created now s (pb_sections_ref p)) p"

definition delete_section :: "jsval \<Rightarrow> page_builder \<Rightarrow> page_builder" where
  "delete_section i p = save_now (section_deleted i (pb_sections_ref p)) p"

definition create_item :: "int \<Rightarrow> jsval \<Rightarrow> jsval \<Rightarrow> page_builder \<Rightarrow> page_builder" where
  "create_item now section_id item p = save_now (item_created now section_id item (pb_sections_ref p)) p"

definition update_item :: "jsval option \<Rightarrow> int \<Rightarrow> jsval \<Rightarrow> page_builder \<Rightarrow> page_builder" where
  "update_item stamp now item p = save_later now (item_updated stamp item (pb_sections_ref p)) p"

definition delete_item :: "jsval \<Rightarrow> page_builder \<Rightarrow> page_builder" where
  "delete_item i p = save_now (item_deleted i (pb_sections_ref p)) p"

definition move_section :: "jsval \<Rightarrow> jsval \<Rightarrow> page_builder \<Rightarrow> page_builder" where
  "move_section source target p =
     (case section_moved source target (pb_sections_ref p) of Some ss \<Rightarrow> save_now ss p | None \<Rightarrow> p)"

section \<open>What can happen\<close>

text \<open>What the user or the blocks do, with the sections it leaves to be saved (\<open>None\<close>: none).\<close>

inductive user_step :: "page_builder \<Rightarrow> jsval list option \<Rightarrow> page_builder \<Rightarrow> jsval list option \<Rightarrow> bool" where
    user_update: "user_step p l (update_section stamp now s p) (Some (section_updated stamp s (pb_sections_ref p)))"
  | user_create: "user_step p l (create_section now s p) (Some (section_created now s (pb_sections_ref p)))"
  | user_delete: "user_step p l (delete_section i p) (Some (section_deleted i (pb_sections_ref p)))"
  | user_create_item: "user_step p l (create_item now i item p) (Some (item_created now i item (pb_sections_ref p)))"
  | user_update_item: "user_step p l (update_item stamp now item p) (Some (item_updated stamp item (pb_sections_ref p)))"
  | user_delete_item: "user_step p l (delete_item i p) (Some (item_deleted i (pb_sections_ref p)))"
  | user_move: "section_moved a b (pb_sections_ref p) = Some ss \<Longrightarrow> user_step p l (move_section a b p) (Some ss)"
  | user_move_nowhere: "section_moved a b (pb_sections_ref p) = None \<Longrightarrow> user_step p l (move_section a b p) l"
  | user_enter: "user_step p l (enter_edit p) l"
  | user_leave: "user_step p l (leave_edit p) l"
  | user_goes: "user_step p l (slug_changes slug p) l"
  | user_unmount: "user_step p l (unmount p) l"
  | user_reset: "user_step p l (factory_reset p) None"
  | user_reset_done: "user_step p l (factory_reset_done p) l"

text \<open>Everything else: renders, timers, answers, live events.\<close>

inductive background_step :: "page_builder \<Rightarrow> page_builder \<Rightarrow> bool" where
    bg_commit: "background_step p (commit changed p)"
  | bg_data: "page_step (pb_data p) d \<Longrightarrow> background_step p (p\<lparr>pb_data := d\<rparr>)"
  | bg_config: "background_step p (config_event action p)"
  | bg_timer: "t \<in> set (pb_timers p) \<Longrightarrow> background_step p (save_timer_fires t p)"
  | bg_updated: "Updating e body \<in> set (pb_saves p) \<Longrightarrow> background_step p (update_answered e body answer p)"
  | bg_created: "Creating slug body \<in> set (pb_saves p) \<Longrightarrow> background_step p (create_answered slug body answer p)"
  | bg_reloaded: "Reloading i \<in> set (pb_saves p) \<Longrightarrow> i \<notin> set (loads (pb_data p)) \<Longrightarrow> background_step p (save_succeeded (Reloading i) p)"
  | bg_kept: "Kept \<in> set (pb_saves p) \<Longrightarrow> background_step p (save_succeeded Kept p)"
  | bg_status: "st \<in> set (pb_status_timers p) \<Longrightarrow> background_step p (status_timer_fires st p)"

inductive builds :: "page_builder \<Rightarrow> jsval list option \<Rightarrow> bool" where
    builds_start: "builds (new_page_builder slug) None"
  | builds_user: "builds p l \<Longrightarrow> pb_mounted p \<Longrightarrow> user_step p l p' l' \<Longrightarrow> builds p' l'"
  | builds_background: "builds p l \<Longrightarrow> pb_mounted p \<Longrightarrow> background_step p p' \<Longrightarrow> builds p' l"

section \<open>No change is forgotten\<close>

definition carries :: "jsval list \<Rightarrow> save_call \<Rightarrow> bool" where
  "carries ss c =
     (sort_sections ss = ss \<and> (case c of
        Updating e body \<Rightarrow> e = ''/pages/'' @ js_string (fld body ''id'') \<and> fld body ''content'' = content_text ss
      | Creating slug body \<Rightarrow> fld body ''content'' = content_text ss
      | Reloading _ \<Rightarrow> False
      | Kept \<Rightarrow> True))"

text \<open>The changes last made are waiting, held by an editor or with a timer that runs, or were the last sent.\<close>

definition change_kept :: "page_builder \<Rightarrow> jsval list option \<Rightarrow> bool" where
  "change_kept p l =
     ((\<forall>(ss, c) \<in> set (pb_sent p). carries ss c)
      \<and> (\<forall>ss. pb_mounted p \<longrightarrow> pb_pending p = Some ss \<longrightarrow> l = Some ss \<and> sort_sections ss = ss \<and> (0 < pb_editing p \<or> pb_timer p \<in> Some ` fst ` set (pb_timers p)))
      \<and> (\<forall>ss. l = Some ss \<longrightarrow> pb_mounted p \<and> pb_pending p = Some ss \<or> pb_sent p \<noteq> [] \<and> fst (last (pb_sent p)) = ss))"

definition delays_ok :: "page_builder \<Rightarrow> bool" where
  "delays_ok p = (0 \<le> pb_change_count p \<and> pb_change_count p \<le> 10 \<and> (\<forall>(h, d, r) \<in> set (pb_timers p). 800 \<le> d \<and> d \<le> 2800))"

lemma save_simps [simp]:
  "pb_mounted (save_page_content ss p) = pb_mounted p" "pb_pending (save_page_content ss p) = pb_pending p"
  "pb_editing (save_page_content ss p) = pb_editing p" "pb_timer (save_page_content ss p) = pb_timer p"
  "pb_timers (save_page_content ss p) = pb_timers p" "pb_sections (save_page_content ss p) = pb_sections p"
  "pb_change_count (save_page_content ss p) = pb_change_count p"
  by (simp_all add: save_page_content_def ensure_page_def begin_call_def Let_def)

lemma save_sends: "sort_sections ss = ss \<Longrightarrow> \<exists>c. carries ss c \<and> pb_sent (save_page_content ss p) = pb_sent p @ [(ss, c)]"
  by (auto simp: save_page_content_def ensure_page_def begin_call_def created_page_def carries_def update_page_def Let_def)

lemma timer_simps [simp]:
  "pb_mounted (clear_save_timer p) = pb_mounted p" "pb_pending (clear_save_timer p) = pb_pending p"
  "pb_editing (clear_save_timer p) = pb_editing p" "pb_sent (clear_save_timer p) = pb_sent p"
  "pb_sections (clear_save_timer p) = pb_sections p" "pb_change_count (clear_save_timer p) = pb_change_count p"
  "pb_next_timer (clear_save_timer p) = pb_next_timer p" "set (pb_timers (clear_save_timer p)) \<subseteq> set (pb_timers p)"
  "pb_mounted (set_save_timer d r p) = pb_mounted p" "pb_pending (set_save_timer d r p) = pb_pending p"
  "pb_editing (set_save_timer d r p) = pb_editing p" "pb_sent (set_save_timer d r p) = pb_sent p"
  "pb_sections (set_save_timer d r p) = pb_sections p" "pb_change_count (set_save_timer d r p) = pb_change_count p"
  "pb_timer (set_save_timer d r p) = Some (pb_next_timer p)"
  "set (pb_timers (set_save_timer d r p)) = insert (pb_next_timer p, d, r) (set (pb_timers p))"
  by (auto simp: clear_save_timer_def set_save_timer_def split: option.split)

lemma render_simps [simp]:
  "pb_sections (render p) = pb_sections p" "pb_editing (render p) = pb_editing p" "pb_pending (render p) = pb_pending p"
  by (simp_all add: render_def)

text \<open>What is kept depends only on these.\<close>

lemma change_kept_cong:
  assumes "pb_mounted q = pb_mounted p" "pb_pending q = pb_pending p" "pb_editing q = pb_editing p" "pb_timer q = pb_timer p"
    and "pb_timers q = pb_timers p" "pb_sent q = pb_sent p"
  shows "change_kept q l = change_kept p l"
  using assms by (simp add: change_kept_def)

lemma save_keeps:
  assumes "change_kept p l" "sort_sections ss = ss" "\<forall>ss'. l' = Some ss' \<longrightarrow> ss' = ss" "\<not> pb_mounted q \<or> pb_pending q = None" "pb_sent q = pb_sent p"
  shows "change_kept (save_page_content ss q) l'"
proof -
  obtain c where c: "carries ss c" "pb_sent (save_page_content ss q) = pb_sent q @ [(ss, c)]"
    using save_sends [OF assms(2)] by blast
  show ?thesis unfolding change_kept_def c(2) using assms c(1) by (auto simp: change_kept_def)
qed

lemma run_save_keeps:
  assumes "change_kept p l" "pb_mounted p" "pb_mounted q" "pb_pending q = pb_pending p" "pb_sent q = pb_sent p"
  shows "change_kept (run_save q) l"
proof (cases "pb_pending p")
  case None
  with assms show ?thesis by (auto simp: run_save_def change_kept_def)
next
  case (Some ss)
  with assms(1,2) have "sort_sections ss = ss" "\<forall>ss'. l = Some ss' \<longrightarrow> ss' = ss" by (auto simp: change_kept_def)
  with Some assms show ?thesis unfolding run_save_def by (auto intro!: save_keeps [OF assms(1)])
qed

lemma save_now_keeps: "sort_sections ss = ss \<Longrightarrow> change_kept p l \<Longrightarrow> change_kept (save_now ss p) (Some ss)"
  unfolding save_now_def immediate_save_def by (rule save_keeps) auto

lemma save_later_keeps: "sort_sections ss = ss \<Longrightarrow> change_kept p l \<Longrightarrow> pb_mounted p \<Longrightarrow> change_kept (save_later now ss p) (Some ss)"
  unfolding save_later_def schedule_save_def change_kept_def by (auto simp: Let_def image_iff)

lemma changes_sorted [simp]:
  "sort_sections (section_updated stamp s ss) = section_updated stamp s ss" "sort_sections (section_created now s ss) = section_created now s ss"
  "sort_sections (section_deleted i ss) = section_deleted i ss" "sort_sections (item_created now i item ss) = item_created now i item ss"
  "sort_sections (item_updated stamp item ss) = item_updated stamp item ss" "sort_sections (item_deleted i ss) = item_deleted i ss"
  by (simp_all add: section_updated_def section_created_def section_deleted_def item_created_def item_updated_def item_deleted_def Let_def)

lemma moved_sorted: "section_moved a b ss = Some ss' \<Longrightarrow> sort_sections ss' = ss'"
  by (auto simp: section_moved_def Let_def split: option.splits if_splits)

lemma user_step_keeps: "user_step p l p' l' \<Longrightarrow> change_kept p l \<Longrightarrow> pb_mounted p \<Longrightarrow> change_kept p' l'"
proof (induction rule: user_step.induct)
  case (user_enter p l)
  then show ?case by (auto simp: enter_edit_def change_kept_def)
next
  case (user_leave p l)
  then show ?case by (auto simp: leave_edit_def change_kept_def Let_def)
next
  case (user_goes p l slug)
  moreover have "change_kept (slug_changes slug p) l = change_kept p l"
    by (rule change_kept_cong) (simp_all add: slug_changes_def render_def Let_def)
  ultimately show ?case by simp
next
  case (user_unmount p l)
  show ?case
  proof (cases "pb_pending p")
    case None
    with user_unmount show ?thesis by (auto simp: unmount_def change_kept_def Let_def)
  next
    case (Some ss)
    with user_unmount have "sort_sections ss = ss" "\<forall>ss'. l = Some ss' \<longrightarrow> ss' = ss" by (auto simp: change_kept_def)
    with Some show ?thesis by (auto simp: unmount_def Let_def intro!: save_keeps [OF user_unmount(1)])
  qed
next
  case (user_reset p l)
  then show ?case by (auto simp: factory_reset_def change_kept_def)
next
  case (user_reset_done p l)
  moreover have "change_kept (factory_reset_done p) l = change_kept p l" by (rule change_kept_cong) (simp_all add: factory_reset_done_def)
  ultimately show ?case by simp
qed (auto simp: update_section_def create_section_def delete_section_def create_item_def update_item_def delete_item_def
    move_section_def intro: save_now_keeps save_later_keeps moved_sorted)

lemma sync_simps [simp]:
  "pb_mounted (sync_sections d p) = pb_mounted p" "pb_pending (sync_sections d p) = pb_pending p"
  "pb_editing (sync_sections d p) = pb_editing p" "pb_timer (sync_sections d p) = pb_timer p"
  "pb_timers (sync_sections d p) = pb_timers p" "pb_sent (sync_sections d p) = pb_sent p"
  "pb_change_count (sync_sections d p) = pb_change_count p"
  by (simp_all add: sync_sections_def split: option.split)

lemma background_step_keeps: "background_step p p' \<Longrightarrow> change_kept p l \<Longrightarrow> pb_mounted p \<Longrightarrow> change_kept p' l"
proof (induction rule: background_step.induct)
  case (bg_timer t p)
  then show ?case unfolding save_timer_fires_def Let_def by (intro run_save_keeps [of p]) auto
next
  case (bg_commit p changed)
  moreover have "change_kept (commit changed p) l = change_kept p l"
    by (rule change_kept_cong) (simp_all add: commit_def render_def)
  ultimately show ?case by simp
qed (auto simp: change_kept_def config_event_def update_answered_def create_answered_def save_succeeded_def save_failed_def
    status_timer_fires_def Let_def split: sum.splits)

lemma builds_keeps: "builds p l \<Longrightarrow> change_kept p l"
  by (induction rule: builds.induct)
    (simp add: change_kept_def new_page_builder_def, erule (2) user_step_keeps, erule (2) background_step_keeps)

lemma delays_less:
  "delays_ok p \<Longrightarrow> pb_change_count q = pb_change_count p \<Longrightarrow> set (pb_timers q) \<subseteq> set (pb_timers p) \<Longrightarrow> delays_ok q"
  by (auto simp: delays_ok_def)

lemma delays_set: "delays_ok p \<Longrightarrow> 800 \<le> d \<Longrightarrow> d \<le> 2800 \<Longrightarrow> delays_ok (set_save_timer d r p)"
  by (auto simp: delays_ok_def)

lemma delays_clear: "delays_ok p \<Longrightarrow> delays_ok (clear_save_timer p)"
  by (erule delays_less) simp_all

lemma delays_save: "delays_ok p \<Longrightarrow> delays_ok (save_page_content ss p)"
  by (erule delays_less) simp_all

lemma delays_run: "delays_ok p \<Longrightarrow> delays_ok (run_save p)"
  by (auto simp: run_save_def split: option.split intro!: delays_save elim: delays_less)

lemma delays_now: "delays_ok p \<Longrightarrow> delays_ok (save_now ss p)"
  unfolding save_now_def immediate_save_def
  by (rule delays_save, rule delays_less [OF delays_clear [of "p\<lparr>pb_sections := ss\<rparr>"]]) (simp_all add: delays_ok_def)

lemma delays_later:
  assumes "delays_ok p"
  shows "delays_ok (save_later now ss p)"
proof -
  define n where "n = (if now - pb_last_change p < 1200 then min (pb_change_count p + 1) 10 else 0)"
  define q where "q = p\<lparr>pb_sections := ss, pb_pending := Some ss, pb_status := Waiting\<rparr>"
  have n: "0 \<le> n" "n \<le> 10" using assms by (auto simp: n_def delays_ok_def)
  have "delays_ok (q\<lparr>pb_last_change := now, pb_change_count := n\<rparr>)" "delays_ok q" using assms n by (simp_all add: delays_ok_def q_def)
  moreover have "save_later now ss p = (if 0 < pb_editing p then q
      else set_save_timer (min (800 + n * 200) 3500) True (clear_save_timer (q\<lparr>pb_last_change := now, pb_change_count := n\<rparr>)))"
    by (simp add: save_later_def schedule_save_def n_def q_def Let_def)
  ultimately show ?thesis using n by (simp add: delays_set delays_clear)
qed

lemma user_step_delays: "user_step p l p' l' \<Longrightarrow> delays_ok p \<Longrightarrow> delays_ok p'"
proof (induction rule: user_step.induct)
  case (user_enter p l)
  then show ?case unfolding enter_edit_def by (intro delays_clear) (simp add: delays_ok_def)
next
  case (user_leave p l)
  then have "delays_ok (p\<lparr>pb_editing := n\<rparr>)" for n by (simp add: delays_ok_def)
  then show ?case by (simp add: leave_edit_def Let_def delays_set)
next
  case (user_unmount p l)
  then have "delays_ok ((clear_save_timer p)\<lparr>pb_mounted := False\<rparr>)" by (intro delays_less [OF delays_clear [OF user_unmount]]) simp_all
  then show ?case by (simp add: unmount_def Let_def delays_save split: option.split)
next
  case (user_reset p l)
  then show ?case unfolding factory_reset_def by (intro delays_less [OF delays_clear [OF user_reset]]) simp_all
next
  case (user_goes p l slug)
  then show ?case by (rule delays_less) (simp_all add: slug_changes_def render_def Let_def)
next
  case (user_reset_done p l)
  then show ?case by (rule delays_less) (simp_all add: factory_reset_done_def)
qed (simp_all add: update_section_def create_section_def delete_section_def create_item_def update_item_def delete_item_def
    move_section_def delays_later delays_now)

lemma background_step_delays: "background_step p p' \<Longrightarrow> delays_ok p \<Longrightarrow> delays_ok p'"
proof (induction rule: background_step.induct)
  case (bg_timer t p)
  then show ?case unfolding save_timer_fires_def Let_def
    by (intro delays_run) (use set_remove1_subset [of t "pb_timers p"] in \<open>auto simp: delays_ok_def\<close>)
qed (erule delays_less, auto simp: commit_def render_def config_event_def update_answered_def create_answered_def save_succeeded_def
    save_failed_def status_timer_fires_def Let_def split: sum.splits)+

lemma builds_delays: "builds p l \<Longrightarrow> delays_ok p"
  by (induction rule: builds.induct)
    (simp add: delays_ok_def new_page_builder_def, erule (1) user_step_delays, erule (1) background_step_delays)

section \<open>A page with two sections\<close>

definition a_section :: "int \<Rightarrow> int \<Rightarrow> string \<Rightarrow> jsval" where
  "a_section i n h = JObj [(''id'', JNum i), (''display_order'', JNum n), (''heading'', JStr h)]"

definition two_sections :: "jsval list" where
  "two_sections = [a_section 1 1 ''a'', a_section 2 2 ''b'']"

definition two_section_page :: jsval where
  "two_section_page = JObj [(''id'', JNum 7), (''slug'', JStr ''p''), (''content'', content_text two_sections)]"

definition loaded_builder :: page_builder where
  "loaded_builder = (let p = new_page_builder (JStr ''p'')
     in commit False (commit True (p\<lparr>pb_data := page_answered 1 ''/pages/p'' (Inr two_section_page) (pb_data p)\<rparr>)))"

definition edited_builder :: page_builder where
  "edited_builder = update_section None 5000 (a_section 1 1 ''new'') loaded_builder"

lemma loaded_builds: "builds loaded_builder None"
proof -
  let ?p = "new_page_builder (JStr ''p'')"
  have "FetchPage 1 ''/pages/p'' \<in> set (pd_requests (pb_data ?p))" by code_simp
  then have "background_step ?p (?p\<lparr>pb_data := page_answered 1 ''/pages/p'' (Inr two_section_page) (pb_data ?p)\<rparr>)"
    by (intro bg_data step_page)
  from builds_background [OF builds_start _ this] have "builds (?p\<lparr>pb_data := page_answered 1 ''/pages/p'' (Inr two_section_page) (pb_data ?p)\<rparr>) None"
    by (simp add: new_page_builder_def)
  then show ?thesis unfolding loaded_builder_def Let_def
    by (intro builds_background [OF _ _ bg_commit]) (simp_all add: commit_def render_def new_page_builder_def)
qed

lemma loaded_sections: "pb_sections_ref loaded_builder = two_sections" "pb_mounted loaded_builder"
  by code_simp+

lemma edited_builds: "builds edited_builder (Some [a_section 1 1 ''new'', a_section 2 2 ''b''])"
proof -
  have "section_updated None (a_section 1 1 ''new'') (pb_sections_ref loaded_builder) = [a_section 1 1 ''new'', a_section 2 2 ''b'']"
    by code_simp
  with builds_user [OF loaded_builds loaded_sections(2) user_update, of None 5000 "a_section 1 1 ''new''"]
  show ?thesis by (simp add: edited_builder_def)
qed

section \<open>Properties\<close>



text \<open>
  Saves are neither immediate nor put off for long: in every reachable state a timer of the pipeline
  waits between 0.8 and 2.8 seconds, however many changes came before.
\<close>

lemma save_delay_bounds:
  assumes "builds p l"
  shows "\<forall>(h, d, r) \<in> set (pb_timers p). 800 \<le> d \<and> d \<le> 2800"
  using builds_delays [OF assms] by (simp add: delays_ok_def)

theorem save_delay_bounds_witness:
  "\<exists>h d r. pb_timers edited_builder = [(h, d, r)] \<and> 800 \<le> d \<and> d \<le> 2800"
proof -
  have "pb_timers edited_builder = [(0, 800, True)]" by code_simp
  with save_delay_bounds [OF edited_builds] show ?thesis by simp
qed

text \<open>
  C12. Nobody's work is disturbed: while an editor is open, whatever happens besides the user's own actions,
  live events, loads, answers and failures of saves, renders, timers, and in whatever order, the sections
  shown stay as the user left them.
\<close>

theorem editor_is_not_disturbed:
  assumes "background_step\<^sup>*\<^sup>* p p'" "0 < pb_editing p"
  shows "pb_sections p' = pb_sections p \<and> pb_editing p' = pb_editing p"
proof -
  have "background_step p p' \<Longrightarrow> 0 < pb_editing p \<Longrightarrow> pb_sections p' = pb_sections p \<and> pb_editing p' = pb_editing p" for p p'
    by (induction rule: background_step.induct)
      (auto simp: commit_def sync_sections_def config_event_def save_timer_fires_def run_save_def update_answered_def
        create_answered_def save_succeeded_def save_failed_def status_timer_fires_def Let_def split: sum.splits option.splits)
  with assms show ?thesis by (induction rule: rtranclp_induct) auto
qed

theorem editor_is_not_disturbed_witness:
  "pb_sections (commit True ((enter_edit loaded_builder)\<lparr>pb_data :=
     page_live_event ''landing_page_changed'' (JObj []) (pb_data (enter_edit loaded_builder))\<rparr>)) = two_sections"
proof -
  let ?p = "enter_edit loaded_builder"
  let ?q = "?p\<lparr>pb_data := page_live_event ''landing_page_changed'' (JObj []) (pb_data ?p)\<rparr>"
  have "background_step ?p ?q" by (rule bg_data) (rule step_event)
  moreover have "background_step ?q (commit True ?q)" by (rule bg_commit)
  ultimately have "background_step\<^sup>*\<^sup>* ?p (commit True ?q)" by simp
  moreover have "0 < pb_editing ?p" "pb_sections ?p = two_sections" by code_simp+
  ultimately show ?thesis using editor_is_not_disturbed [of ?p "commit True ?q"] by simp
qed

text \<open>
  Merging shows what came in: the merged sections have the contents of the incoming ones, no more and
  no fewer, whatever was shown before; and where something has changed they have them in the same order.
\<close>

lemma merged_sections_are_the_incoming:
  assumes "list_all (\<lambda>s. strict_eq (fld s ''id'') (fld s ''id'')) incoming" "distinct (map (\<lambda>s. fld s ''id'') incoming)"
  shows "mset (map section_text (merge_sections current incoming)) = mset (map section_text incoming)
    \<and> (merge_sections current incoming \<noteq> current \<longrightarrow> map section_text (merge_sections current incoming) = map section_text incoming)"
proof -
  have found: "s \<in> set current \<and> fld s ''id'' = fld inc ''id'' \<and> section_text s = section_text inc"
    if "unchanged_section current inc = Some s" for inc s
    using that strict_eq_eq by (auto simp: unchanged_section_def section_with_id_def dest!: find_SomeD split: option.splits if_splits)
  show ?thesis
  proof (cases "current = [] \<or> length current \<noteq> length incoming \<or> list_ex (\<lambda>inc. unchanged_section current inc = None) incoming")
    case True
    have "map section_text (map (\<lambda>inc. case unchanged_section current inc of Some s \<Rightarrow> s | None \<Rightarrow> inc) incoming) = map section_text incoming"
      using found by (auto split: option.split)
    with True have "map section_text (merge_sections current incoming) = map section_text incoming"
      unfolding merge_sections_def by auto
    then show ?thesis by simp
  next
    case False
    define old where "old inc = the (unchanged_section current inc)" for inc
    have old: "old inc \<in> set current \<and> fld (old inc) ''id'' = fld inc ''id'' \<and> section_text (old inc) = section_text inc"
      if "inc \<in> set incoming" for inc
      using that False found unfolding old_def by (fastforce simp: list_ex_iff)
    have "map (\<lambda>s. fld s ''id'') (map old incoming) = map (\<lambda>s. fld s ''id'') incoming" using old by simp
    with assms(2) have "distinct (map old incoming)" by (metis distinct_map)
    moreover have "set (map old incoming) \<subseteq> set current" using old by auto
    moreover have "length (map old incoming) = length current" using False by simp
    ultimately have "mset (map old incoming) = mset current"
      by (metis card_distinct card_length card_mono card_subset_eq distinct_card finite_set le_antisym set_eq_iff_mset_eq_distinct)
    then have "mset (map section_text (map old incoming)) = mset (map section_text current)" by (simp only: mset_map)
    moreover have "map section_text (map old incoming) = map section_text incoming" using old by simp
    moreover have "merge_sections current incoming = current" using False by (auto simp: merge_sections_def)
    ultimately show ?thesis by metis
  qed
qed

theorem merged_sections_are_the_incoming_witness:
  "mset (map section_text (merge_sections two_sections [a_section 2 1 ''b'', a_section 1 2 ''a'']))
   = mset (map section_text [a_section 2 1 ''b'', a_section 1 2 ''a''])"
proof -
  have "list_all (\<lambda>s. strict_eq (fld s ''id'') (fld s ''id'')) [a_section 2 1 ''b'', a_section 1 2 ''a'']"
    "distinct (map (\<lambda>s. fld s ''id'') [a_section 2 1 ''b'', a_section 1 2 ''a''])" by code_simp+
  from merged_sections_are_the_incoming [OF this] show ?thesis by simp
qed

text \<open>
  Moving a section puts it at the place of the other and numbers the sections from 1: the orders are
  then 1, 2, 3 and so on, the list is sorted, no section is lost or changed in any other field, and the moved one
  is where the other was.
\<close>

lemma moved_section_takes_the_place:
  assumes "section_moved source target ss = Some ss'" "list_all plain_object ss"
  shows "map section_order ss' = map (\<lambda>k. int k + 1) [0..<length ss] \<and> sort_sections ss' = ss'
    \<and> (\<forall>k. k \<noteq> ''display_order'' \<longrightarrow> mset (map (\<lambda>s. fld s k) ss') = mset (map (\<lambda>s. fld s k) ss))
    \<and> (\<exists>j < length ss. strict_eq (fld (ss' ! j) ''id'') source \<and> strict_eq (fld (sort_sections ss ! j) ''id'') target)"
proof -
  define sorted where "sorted = sort_sections ss"
  obtain i j where ij: "find_index (\<lambda>s. strict_eq (fld s ''id'') source) sorted = Some i"
      "find_index (\<lambda>s. strict_eq (fld s ''id'') target) sorted = Some j" "i \<noteq> j"
    and ss': "ss' = numbered (splice_in j (sorted ! i) (take i sorted @ drop (Suc i) sorted))"
    using assms(1) by (auto simp: section_moved_def sorted_def Let_def split: option.splits if_splits)
  define m where "m = splice_in j (sorted ! i) (take i sorted @ drop (Suc i) sorted)"
  have len: "length sorted = length ss" and set: "mset sorted = mset ss" by (simp_all add: sorted_def sort_sections_def)
  have i: "i < length sorted" "strict_eq (fld (sorted ! i) ''id'') source" using find_index_SomeD [OF ij(1)] by simp_all
  have j: "j < length sorted" "strict_eq (fld (sorted ! j) ''id'') target" using find_index_SomeD [OF ij(2)] by simp_all
  have n: "ss' = numbered m" by (simp add: ss' m_def)
  have m: "mset m = mset ss" "length m = length ss" using mset_splice_out [OF i(1), of j] set len j i by (simp_all add: m_def splice_in_def)
  have at: "m ! j = sorted ! i" unfolding m_def using j(1) i(1) by (intro splice_in_nth) simp
  from assms(2) m(1) have obj: "list_all plain_object m" by (metis list.pred_set mset_eq_setD)
  have fields: "mset (map (\<lambda>s. fld s k) ss') = mset (map (\<lambda>s. fld s k) ss)" if "k \<noteq> ''display_order''" for k
    unfolding n numbered_fields [OF obj that] by (metis m(1) mset_map)
  have "map (\<lambda>s. fld s ''id'') ss' = map (\<lambda>s. fld s ''id'') m" unfolding n by (rule numbered_fields [OF obj]) simp
  then have "fld (ss' ! j) ''id'' = fld (m ! j) ''id''" using j(1) len m(2) by (simp add: n list_eq_iff_nth_eq)
  then have "strict_eq (fld (ss' ! j) ''id'') source" using at i(2) by metis
  moreover have "j < length ss" "strict_eq (fld (sort_sections ss ! j) ''id'') target" using j len unfolding sorted_def by metis+
  moreover have "map section_order ss' = map (\<lambda>k. int k + 1) [0..<length ss]" unfolding n numbered_order m(2) ..
  moreover have "sort_sections ss' = ss'" unfolding n by (rule numbered_sorted)
  ultimately show ?thesis using fields by blast
qed

theorem moved_section_takes_the_place_witness:
  "section_moved (JNum 1) (JNum 2) two_sections = Some [a_section 2 1 ''b'', a_section 1 2 ''a'']
   \<and> map section_order [a_section 2 1 ''b'', a_section 1 2 ''a''] = map (\<lambda>k. int k + 1) [0..<length two_sections]"
proof -
  have m: "section_moved (JNum 1) (JNum 2) two_sections = Some [a_section 2 1 ''b'', a_section 1 2 ''a'']"
    "list_all plain_object two_sections" by code_simp+
  from moved_section_takes_the_place [OF m] m(1) show ?thesis by blast
qed

text \<open>
  C11. What is saved is what a reader sees: when one session has sent sections whose ids are all different, and
  another session (or the same, after a reload) is given that page, its next render with its effect shows
  exactly those sections in that order.
\<close>

theorem saved_sections_reload:
  assumes "builds p l" "(ss, Updating e body) \<in> set (pb_sent p)" "list_all jsonable ss"
    and "list_all (\<lambda>s. strict_eq (fld s ''id'') (fld s ''id'')) ss" "distinct (map (\<lambda>s. fld s ''id'') ss)"
    and "pb_pending q = None" "pb_editing q = 0" "pb_sections q = [] \<or> pb_sections q = ss"
  shows "pb_sections (commit True (q\<lparr>pb_data := page_answered (pd_request_id (pb_data q)) path (Inr body) (pb_data q)\<rparr>)) = ss"
proof -
  from builds_keeps [OF assms(1)] assms(2) have "carries ss (Updating e body)" by (auto simp: change_kept_def)
  then have body: "fld body ''content'' = content_text ss" "sort_sections ss = ss" by (simp_all add: carries_def)
  have "json_stringify (JArr ss) \<noteq> []" by (simp add: json_stringify_def)
  then have c: "parsed_content body = Some ss"
    using assms(3) json_parse_stringify [of "JArr ss"] by (simp add: parsed_content_def body content_text_def)
  have t: "truthy body" using body(1) by (cases body) (auto simp: content_text_def fld_def split: if_splits)
  have merge: "merge_sections (pb_sections q) ss = ss"
    using assms(8) merged_sections_same [OF assms(4,5)] by (auto simp: merge_sections_def)
  show ?thesis using assms(6,7) t c merge body(2)
    by (simp add: commit_def sync_sections_def page_answered_def answered_def Let_def)
qed

theorem saved_sections_reload_witness:
  "\<exists>e body. (two_sections, Updating e body) \<in> set (pb_sent (create_item 1 (JNum 9) (JObj []) loaded_builder))
   \<and> pb_sections (commit True ((new_page_builder JUndef)\<lparr>pb_data :=
       page_answered (pd_request_id (pb_data (new_page_builder JUndef))) [] (Inr body) (pb_data (new_page_builder JUndef))\<rparr>)) = two_sections"
proof -
  let ?p = "create_item 1 (JNum 9) (JObj []) loaded_builder" and ?r = "new_page_builder JUndef"
  have b: "builds ?p (Some (item_created 1 (JNum 9) (JObj []) (pb_sections_ref loaded_builder)))"
    by (rule builds_user [OF loaded_builds loaded_sections(2) user_create_item])
  have sent: "(two_sections, Updating ''/pages/7'' two_section_page) \<in> set (pb_sent ?p)" by code_simp
  have "list_all jsonable two_sections" "list_all (\<lambda>s. strict_eq (fld s ''id'') (fld s ''id'')) two_sections"
    "distinct (map (\<lambda>s. fld s ''id'') two_sections)" "pb_pending ?r = None" "pb_editing ?r = 0" "pb_sections ?r = []" by code_simp+
  from saved_sections_reload [OF b sent this(1-5) disjI1 [OF this(6)]] sent show ?thesis by blast
qed

section \<open>What goes wrong\<close>

text \<open>
  A change still waiting when the reader goes to another page is saved there: the timer is not stopped and
  the page to save is the one shown then, so that the sections of the old page replace those of the new.
\<close>

definition gone_to_other_page :: page_builder where
  "gone_to_other_page = (let p = slug_changes (JStr ''q'') edited_builder
     in commit True (p\<lparr>pb_data := page_answered 2 ''/pages/q'' (Inr (JObj [(''id'', JNum 8), (''content'', JStr ''[]'')])) (pb_data p)\<rparr>))"

lemma change_saved_to_other_page:
  "pb_sent (save_timer_fires (0, 800, True) gone_to_other_page)
   = [([a_section 1 1 ''new'', a_section 2 2 ''b''], Updating ''/pages/8''
       (JObj [(''id'', JNum 8), (''content'', content_text [a_section 1 1 ''new'', a_section 2 2 ''b''])]))]"
  by code_simp

text \<open>
  The answer to a save shows its sections even when later ones have been sent meanwhile: the editor falls
  back to the older ones, and a change made then is built on them.
\<close>

definition first_save :: jsval where
  "first_save = obj_with two_section_page [(''content'', content_text [a_section 1 1 ''new'', a_section 2 2 ''b''])]"

definition two_saves :: page_builder where
  "two_saves = save_timer_fires (1, 1000, True) (update_section None 6000 (a_section 1 1 ''newer'')
     (commit False (save_timer_fires (0, 800, True) edited_builder)))"

lemma late_answer_shows_older_sections:
  "map (\<lambda>s. fld s ''heading'') (pb_sections two_saves) = [JStr ''newer'', JStr ''b'']
   \<and> map (\<lambda>s. fld s ''heading'') (pb_sections (commit True (update_answered ''/pages/7'' first_save (Inr first_save) two_saves)))
     = [JStr ''new'', JStr ''b'']"
  by code_simp

text \<open>Two changes between renders: the second starts from the sections of the last render, and the first is lost.\<close>

lemma change_before_render_is_lost:
  "map (\<lambda>s. fld s ''heading'') (pb_sections (update_section None 5001 (a_section 2 2 ''c'') edited_builder)) = [JStr ''a'', JStr ''c'']"
  by code_simp

end
