(* ===== verification/FlowEditor.thy ===== *)
theory FlowEditor
  imports JsonParse
begin

text \<open>
  The flow editor (\<open>components/flow\<close>, \<open>atoms/flow.ts\<close>): the stored flow and the copies the canvas works
  on, its nodes and edges, the logical flow that is exported, and the import of other flows. Nodes and edges
  are objects of a library, of which the code reads the identifier, the type, the position, the data and
  the ends. What the library does to nodes and edges when they change is a parameter.
\<close>

section \<open>The stored flow\<close>

record flow_state =
  fs_name :: jsval
  fs_editor :: jsval
  fs_nodes :: "jsval list"
  fs_edges :: "jsval list"

definition default_flow_state :: flow_state where
  "default_flow_state = \<lparr>fs_name = JStr ''New Flow'',
     fs_editor = JObj [(''designer'', JStr ''sk-designer''), (''version'', JStr ''1.0''), (''panelExtended'', JBool True),
       (''maxPanelSize'', JNum 400), (''minPanelSize'', JNum 400), (''displayMiniMap'', JBool True)],
     fs_nodes = [], fs_edges = []\<rparr>"

definition nodes_written :: "(jsval list \<Rightarrow> jsval list) \<Rightarrow> flow_state \<Rightarrow> flow_state" where
  "nodes_written f s = s\<lparr>fs_nodes := f (fs_nodes s)\<rparr>"

definition edges_written :: "(jsval list \<Rightarrow> jsval list) \<Rightarrow> flow_state \<Rightarrow> flow_state" where
  "edges_written f s = s\<lparr>fs_edges := f (fs_edges s)\<rparr>"

definition flow_id_is :: "jsval \<Rightarrow> jsval \<Rightarrow> bool" where
  "flow_id_is i n = strict_eq (fld n ''id'') i"

definition handle_node_delete :: "jsval \<Rightarrow> flow_state \<Rightarrow> flow_state" where
  "handle_node_delete i s = s\<lparr>fs_nodes := filter (\<lambda>n. \<not> flow_id_is i n) (fs_nodes s),
     fs_edges := filter (\<lambda>e. \<not> strict_eq (fld e ''source'') i \<and> \<not> strict_eq (fld e ''target'') i) (fs_edges s)\<rparr>"

definition update_node :: "jsval \<Rightarrow> string \<Rightarrow> jsval \<Rightarrow> flow_state \<Rightarrow> flow_state" where
  "update_node i property v s = s\<lparr>fs_nodes := map (\<lambda>n.
     if flow_id_is i n then
       (if property = ''data'' then obj_with n [(''data'', obj_spread (fld n ''data'') v)] else obj_with n [(property, v)])
     else n) (fs_nodes s)\<rparr>"

definition toggle_panel :: "flow_state \<Rightarrow> flow_state" where
  "toggle_panel s = s\<lparr>fs_editor := obj_with (fs_editor s)
     [(''panelExtended'', JBool (\<not> truthy (fld (fs_editor s) ''panelExtended'')))]\<rparr>"

section \<open>New nodes\<close>

text \<open>Identifiers are strings; the loop tries the numbers from \<open>k\<close>, and its fuel is the number of nodes.\<close>

definition node_id :: "nat \<Rightarrow> jsval" where
  "node_id k = JStr (''node-'' @ dec_nat k)"

fun unused_id :: "nat \<Rightarrow> jsval list \<Rightarrow> nat \<Rightarrow> jsval option" where
  "unused_id fuel used k =
     (if node_id k \<notin> set used then Some (node_id k)
      else case fuel of 0 \<Rightarrow> None | Suc fuel' \<Rightarrow> unused_id fuel' used (Suc k))"

declare unused_id.simps [simp del]

definition get_unique_id :: "flow_state \<Rightarrow> jsval option" where
  "get_unique_id s = unused_id (length (fs_nodes s)) (map (\<lambda>n. fld n ''id'') (fs_nodes s)) (length (fs_nodes s) + 1)"

definition flow_position :: "jsval \<Rightarrow> jsval" where
  "flow_position n = js_or (fld n ''position'') (JObj [(''x'', JNum 0), (''y'', JNum 0)])"

definition handle_create :: "string \<Rightarrow> flow_state \<Rightarrow> flow_state option" where
  "handle_create ty s =
     (let p = flow_position (if fs_nodes s = [] then JUndef else last (fs_nodes s)) in
      case get_unique_id s of
        None \<Rightarrow> None
      | Some i \<Rightarrow> Some (s\<lparr>fs_nodes := fs_nodes s @ [JObj [(''id'', i),
          (''position'', JObj [(''x'', js_plus (fld p ''x'') 200), (''y'', js_plus (fld p ''y'') 200)]),
          (''type'', JStr ty), (''data'', JObj [(''label'', JStr [])])]]\<rparr>))"

section \<open>The logical flow\<close>

definition trimmed_node :: "jsval \<Rightarrow> jsval" where
  "trimmed_node n = JObj [(''id'', fld n ''id''), (''data'', fld n ''data''), (''type'', fld n ''type''), (''position'', fld n ''position'')]"

definition trimmed_edge :: "jsval \<Rightarrow> jsval" where
  "trimmed_edge e = JObj [(''id'', fld e ''id''), (''source'', fld e ''source''), (''target'', fld e ''target'')]"

record trimmed_flow =
  tf_name :: jsval
  tf_nodes :: "jsval list"
  tf_edges :: "jsval list"

definition get_trimmed_state :: "flow_state \<Rightarrow> trimmed_flow" where
  "get_trimmed_state s = \<lparr>tf_name = fs_name s, tf_nodes = map trimmed_node (fs_nodes s), tf_edges = map trimmed_edge (fs_edges s)\<rparr>"

datatype logical_node = LogicalNode (ln_id: jsval) (ln_type: jsval) (ln_label: jsval) (ln_expression: jsval) (ln_next: "logical_node list")

text \<open>\<open>getChildren\<close> with a bound on the depth of its calls: \<open>None\<close> is a call deeper than the stack.\<close>

definition target_node :: "jsval list \<Rightarrow> jsval \<Rightarrow> jsval option" where
  "target_node nodes e = List.find (\<lambda>n. strict_eq (fld n ''id'') (fld e ''target'')) nodes"

fun get_children :: "nat \<Rightarrow> jsval list \<Rightarrow> jsval list \<Rightarrow> jsval \<Rightarrow> logical_node list option" where
  "get_children 0 nodes edges i = None"
| "get_children (Suc depth) nodes edges i =
     map_option concat (js_map (\<lambda>e. case target_node nodes e of
         None \<Rightarrow> Some []
       | Some t \<Rightarrow> map_option (\<lambda>next_nodes. [LogicalNode (fld t ''id'') (js_or (fld t ''type'') (JStr ''unknown''))
           (fld (fld t ''data'') ''label'') (fld (fld t ''data'') ''expression'') next_nodes]) (get_children depth nodes edges (fld t ''id'')))
       (filter (\<lambda>e. strict_eq (fld e ''source'') i) edges))"

definition entry_node :: "jsval list \<Rightarrow> jsval option" where
  "entry_node nodes = List.find (\<lambda>n. strict_eq (fld n ''type'') (JStr ''entry'')) nodes"

text \<open>The start of the logical flow: \<open>None\<close> a stack overflow, \<open>Some None\<close> a flow without an entry.\<close>

definition get_logical_flow :: "nat \<Rightarrow> trimmed_flow \<Rightarrow> logical_node option option" where
  "get_logical_flow depth f =
     (case entry_node (tf_nodes f) of
        None \<Rightarrow> Some None
      | Some n \<Rightarrow> map_option (\<lambda>next_nodes. Some (LogicalNode (fld n ''id'') (js_or (fld n ''type'') (JStr ''entry''))
          (fld (fld n ''data'') ''label'') JUndef next_nodes)) (get_children depth (tf_nodes f) (tf_edges f) (fld n ''id'')))"

section \<open>Importing flows\<close>

text \<open>The map by identifier; reading the identifier of nothing throws.\<close>

definition put_by_id :: "(jsval \<Rightarrow> jsval option \<Rightarrow> jsval) \<Rightarrow> (jsval, jsval) jsmap \<Rightarrow> jsval \<Rightarrow> (jsval, jsval) jsmap option" where
  "put_by_id f m item = (case get item ''id'' of None \<Rightarrow> None | Some i \<Rightarrow> Some (map_set i (f item (map_get m i)) m))"

definition merge_unique_by_id :: "jsval list \<Rightarrow> jsval list \<Rightarrow> jsval list option" where
  "merge_unique_by_id base incoming =
     (case js_reduce (put_by_id (\<lambda>item _. item)) [] base of
        None \<Rightarrow> None
      | Some m \<Rightarrow> map_option (map snd) (js_reduce (put_by_id (\<lambda>item old. obj_spread (case old of Some v \<Rightarrow> v | None \<Rightarrow> JUndef) item)) m incoming))"

definition is_valid_flow_state :: "jsval \<Rightarrow> bool option" where
  "is_valid_flow_state json =
     (if nullish json then None
      else Some ((case fld json ''nodes'' of JArr _ \<Rightarrow> True | _ \<Rightarrow> False) \<and> (case fld json ''edges'' of JArr _ \<Rightarrow> True | _ \<Rightarrow> False)
        \<and> (case fld json ''editor'' of JNull \<Rightarrow> True | JObj _ \<Rightarrow> True | JArr _ \<Rightarrow> True | JMap _ \<Rightarrow> True | _ \<Rightarrow> False)))"

definition merge_flow_states :: "flow_state \<Rightarrow> jsval list \<Rightarrow> jsval list \<Rightarrow> jsval \<Rightarrow> flow_state option" where
  "merge_flow_states base nodes edges editor =
     (case (merge_unique_by_id (fs_nodes base) nodes, merge_unique_by_id (fs_edges base) edges) of
        (Some ns, Some es) \<Rightarrow> Some (base\<lparr>fs_nodes := ns, fs_edges := es, fs_editor := obj_spread (fs_editor base) editor\<rparr>)
      | _ \<Rightarrow> None)"

definition elements :: "jsval \<Rightarrow> jsval list" where
  "elements v = (case v of JArr xs \<Rightarrow> xs | _ \<Rightarrow> [])"

text \<open>A file is read to its text or not at all; the result says whether it failed.\<close>

definition pull_file :: "string option \<Rightarrow> flow_state \<Rightarrow> flow_state option" where
  "pull_file content s =
     (case content of None \<Rightarrow> None | Some t \<Rightarrow>
      (case json_parse t of None \<Rightarrow> None | Some json \<Rightarrow>
       (case is_valid_flow_state json of
          Some True \<Rightarrow> merge_flow_states s (elements (fld json ''nodes'')) (elements (fld json ''edges'')) (fld json ''editor'')
        | _ \<Rightarrow> None)))"

fun pull_files :: "(string \<times> string option) list \<Rightarrow> flow_state \<times> string list \<Rightarrow> flow_state \<times> string list" where
  "pull_files [] r = r"
| "pull_files ((name, content) # fs) (s, failures) =
     pull_files fs (case pull_file content s of Some s' \<Rightarrow> (s', failures) | None \<Rightarrow> (s, failures @ [name]))"

definition open_and_pull_differences :: "(string \<times> string option) list \<Rightarrow> flow_state \<Rightarrow> flow_state option" where
  "open_and_pull_differences fs current =
     (let m = fst (pull_files fs (current, [])) in merge_flow_states current (fs_nodes m) (fs_edges m) (fs_editor m))"

section \<open>The canvas\<close>

text \<open>
  The canvas works on copies of the nodes and edges and writes both back 100 ms after the last change;
  \<open>fc_pending\<close> is what the debounced call will write. Handlers see the copies of the last render, here the
  present ones. \<open>change\<close> is what the library makes of a list of changes.
\<close>

record flow_canvas =
  fc_store :: flow_state
  fc_nodes :: "jsval list"
  fc_edges :: "jsval list"
  fc_pending :: "(jsval list \<times> jsval list) option"

definition new_flow_canvas :: "flow_state \<Rightarrow> flow_canvas" where
  "new_flow_canvas s = \<lparr>fc_store = s, fc_nodes = fs_nodes s, fc_edges = fs_edges s, fc_pending = None\<rparr>"

definition on_nodes_change :: "(jsval list \<Rightarrow> jsval list) \<Rightarrow> flow_canvas \<Rightarrow> flow_canvas" where
  "on_nodes_change change c = (let updated = change (fc_nodes c) in c\<lparr>fc_nodes := updated, fc_pending := Some (updated, fc_edges c)\<rparr>)"

definition on_edges_change :: "(jsval list \<Rightarrow> jsval list) \<Rightarrow> flow_canvas \<Rightarrow> flow_canvas" where
  "on_edges_change change c = (let updated = change (fc_edges c) in c\<lparr>fc_edges := updated, fc_pending := Some (fc_nodes c, updated)\<rparr>)"

definition on_connect :: "jsval \<Rightarrow> flow_canvas \<Rightarrow> flow_canvas" where
  "on_connect params c = on_edges_change (\<lambda>es. es @ [obj_with params
     [(''id'', JStr (js_string (fld params ''source'') @ ''-'' @ js_string (fld params ''target''))), (''animated'', JBool True)]]) c"

text \<open>The effect of the stored nodes and edges.\<close>

definition show_flow :: "flow_canvas \<Rightarrow> flow_canvas" where
  "show_flow c = c\<lparr>fc_nodes := fs_nodes (fc_store c), fc_edges := fs_edges (fc_store c)\<rparr>"

definition store_written :: "(flow_state \<Rightarrow> flow_state) \<Rightarrow> flow_canvas \<Rightarrow> flow_canvas" where
  "store_written f c = show_flow (c\<lparr>fc_store := f (fc_store c)\<rparr>)"

definition debounced_sync :: "flow_canvas \<Rightarrow> flow_canvas" where
  "debounced_sync c =
     (case fc_pending c of
        None \<Rightarrow> c
      | Some (ns, es) \<Rightarrow> store_written (\<lambda>s. s\<lparr>fs_nodes := ns, fs_edges := es\<rparr>) (c\<lparr>fc_pending := None\<rparr>))"

text \<open>The panels write the store: a node is created, deleted or changed, a flow imported, or the canvas reset.\<close>

inductive canvas_step :: "flow_canvas \<Rightarrow> flow_canvas \<Rightarrow> bool" where
    canvas_nodes: "canvas_step c (on_nodes_change change c)"
  | canvas_edges: "canvas_step c (on_edges_change change c)"
  | canvas_connect: "canvas_step c (on_connect params c)"
  | canvas_sync: "canvas_step c (debounced_sync c)"
  | canvas_store: "canvas_step c (store_written f c)"

section \<open>New identifiers are found\<close>

lemma node_id_inject [simp]: "node_id j = node_id k \<longleftrightarrow> j = k"
  by (simp add: node_id_def)

lemma unused_id_None: "unused_id fuel used k = None \<Longrightarrow> j \<le> fuel \<Longrightarrow> node_id (k + j) \<in> set used"
proof (induction fuel arbitrary: k j)
  case 0
  then show ?case by (simp add: unused_id.simps split: if_splits)
next
  case (Suc fuel)
  then have "node_id k \<in> set used" "unused_id fuel used (Suc k) = None" by (simp_all add: unused_id.simps [of "Suc fuel"] split: if_splits)
  with Suc.IH [of "Suc k" "j - 1"] Suc.prems(2) show ?case by (cases j) simp_all
qed

lemma unused_id_Some: "unused_id fuel used k = Some i \<Longrightarrow> i \<notin> set used \<and> (\<exists>j \<le> fuel. i = node_id (k + j))"
proof (induction fuel arbitrary: k)
  case 0
  then show ?case by (auto simp: unused_id.simps split: if_splits)
next
  case (Suc fuel)
  show ?case
  proof (cases "node_id k \<in> set used")
    case True
    with Suc.prems have "unused_id fuel used (Suc k) = Some i" by (simp add: unused_id.simps [of "Suc fuel"])
    from Suc.IH [OF this] obtain j where "i \<notin> set used" "j \<le> fuel" "i = node_id (k + Suc j)" by auto
    then show ?thesis using Suc_le_mono by blast
  next
    case False
    with Suc.prems show ?thesis by (auto simp: unused_id.simps [of "Suc fuel"] intro: exI [of _ 0])
  qed
qed

lemma unused_id_total: "length used \<le> fuel \<Longrightarrow> \<exists>i. unused_id fuel used k = Some i"
proof (rule ccontr)
  assume len: "length used \<le> fuel" and "\<nexists>i. unused_id fuel used k = Some i"
  then have "unused_id fuel used k = None" by simp
  then have "(\<lambda>j. node_id (k + j)) ` {..fuel} \<subseteq> set used" using unused_id_None by auto
  then have "card ((\<lambda>j. node_id (k + j)) ` {..fuel}) \<le> card (set used)" by (rule card_mono [rotated]) simp
  moreover have "card ((\<lambda>j. node_id (k + j)) ` {..fuel}) = Suc fuel" by (subst card_image) (auto simp: inj_on_def)
  ultimately show False using len card_length [of used] by linarith
qed

section \<open>The logical flow and the graph\<close>

text \<open>An edge leads from its source to the node that is found for its target.\<close>

definition flow_edge :: "jsval list \<Rightarrow> jsval list \<Rightarrow> (jsval \<times> jsval) set" where
  "flow_edge nodes edges = {(i, fld t ''id'') | i e t. e \<in> set edges \<and> strict_eq (fld e ''source'') i \<and> target_node nodes e = Some t}"

lemma get_children_None:
  "get_children depth nodes edges i = None \<longleftrightarrow> (\<exists>j. (i, j) \<in> flow_edge nodes edges ^^ depth)"
proof (induction depth arbitrary: i)
  case (Suc depth)
  have "get_children (Suc depth) nodes edges i = None
      \<longleftrightarrow> (\<exists>e t. e \<in> set edges \<and> strict_eq (fld e ''source'') i \<and> target_node nodes e = Some t \<and> get_children depth nodes edges (fld t ''id'') = None)"
    by (auto simp: js_map_None split: option.splits)
  also have "\<dots> \<longleftrightarrow> (\<exists>x j. (i, x) \<in> flow_edge nodes edges \<and> (x, j) \<in> flow_edge nodes edges ^^ depth)"
    unfolding Suc.IH flow_edge_def by blast
  also have "\<dots> \<longleftrightarrow> (\<exists>j. (i, j) \<in> flow_edge nodes edges ^^ Suc depth)" by (metis relpow_Suc_D2 relpow_Suc_I2)
  finally show ?case .
qed simp

lemma flow_edge_range: "(i, j) \<in> flow_edge nodes edges \<Longrightarrow> j \<in> set (map (\<lambda>n. fld n ''id'') nodes)"
  by (auto simp: flow_edge_def target_node_def find_Some_iff)

text \<open>A path longer than the number of nodes goes round a cycle.\<close>

lemma long_path_cycles:
  assumes "(i, j) \<in> R ^^ d" "\<And>a b. (a, b) \<in> R \<Longrightarrow> b \<in> A" "finite A" "card A < d"
  shows "\<exists>x. (i, x) \<in> R\<^sup>* \<and> (x, x) \<in> R\<^sup>+"
proof -
  from assms(1) obtain f where f: "f 0 = i" "\<And>k. k < d \<Longrightarrow> (f k, f (Suc k)) \<in> R" by (auto simp: relpow_fun_conv)
  have steps: "(f a, f (a + n)) \<in> R ^^ n" if "a + n \<le> d" for a n
    using that
  proof (induction n)
    case (Suc n)
    then show ?case using f(2) [of "a + n"] by auto
  qed simp
  have "f ` {1..d} \<subseteq> A"
  proof
    fix x assume "x \<in> f ` {1..d}"
    then obtain k where "x = f k" "1 \<le> k" "k \<le> d" by auto
    then have "(f (k - 1), x) \<in> R" using f(2) [of "k - 1"] by simp
    then show "x \<in> A" by (rule assms(2))
  qed
  then have "card (f ` {1..d}) < card {1..d}" using card_mono [OF assms(3)] assms(4) by (metis card_atLeastAtMost diff_Suc_1 le_less_trans)
  then have "\<not> inj_on f {1..d}" by (rule pigeonhole)
  then obtain a b where ab: "a < b" "b \<le> d" "f a = f b" unfolding inj_on_def
    by (metis atLeastAtMost_iff linorder_neq_iff)
  have "(i, f a) \<in> R\<^sup>*" using steps [of 0 a] ab f(1) by (auto simp: relpow_imp_rtrancl)
  moreover have "(f a, f b) \<in> R ^^ (b - a)" using steps [of a "b - a"] ab by simp
  with ab have "(f a, f b) \<in> R\<^sup>+" using trancl_power by (metis zero_less_diff)
  ultimately show ?thesis using ab(3) by auto
qed

lemma cycle_has_long_paths:
  assumes "(i, x) \<in> R\<^sup>*" "(x, x) \<in> R\<^sup>+"
  shows "\<exists>j. (i, j) \<in> R ^^ d"
proof -
  from assms(2) obtain y where "(x, y) \<in> R" "(y, x) \<in> R\<^sup>*" by (auto dest: tranclD)
  have "\<exists>z. (a, z) \<in> R \<and> (z, x) \<in> R\<^sup>*" if "(a, x) \<in> R\<^sup>*" for a
    using that \<open>(x, y) \<in> R\<close> \<open>(y, x) \<in> R\<^sup>*\<close> by (metis converse_rtranclE)
  then have "(a, x) \<in> R\<^sup>* \<Longrightarrow> \<exists>j. (a, j) \<in> R ^^ d" for a
  proof (induction d arbitrary: a)
    case (Suc d)
    then show ?case by (metis relpow_Suc_I2)
  qed auto
  with assms(1) show ?thesis by blast
qed

text \<open>The paths of a logical node down to any of the nodes below it.\<close>

fun tree_paths :: "logical_node \<Rightarrow> jsval list list" where
  "tree_paths (LogicalNode i ty l ex ns) = [i] # map ((#) i) (concat (map tree_paths ns))"

definition flow_path :: "jsval list \<Rightarrow> jsval list \<Rightarrow> jsval list \<Rightarrow> bool" where
  "flow_path nodes edges p = successively (\<lambda>a b. (a, b) \<in> flow_edge nodes edges) p"

text \<open>What \<open>getChildren\<close> makes of one edge.\<close>

lemma get_children_set:
  assumes "get_children (Suc depth) nodes edges i = Some cs"
  shows "set cs = {LogicalNode (fld t ''id'') (js_or (fld t ''type'') (JStr ''unknown'')) (fld (fld t ''data'') ''label'')
      (fld (fld t ''data'') ''expression'') ns | e t ns.
    e \<in> set edges \<and> strict_eq (fld e ''source'') i \<and> target_node nodes e = Some t \<and> get_children depth nodes edges (fld t ''id'') = Some ns}"
proof -
  let ?f = "\<lambda>e. case target_node nodes e of None \<Rightarrow> Some []
     | Some t \<Rightarrow> map_option (\<lambda>next_nodes. [LogicalNode (fld t ''id'') (js_or (fld t ''type'') (JStr ''unknown''))
         (fld (fld t ''data'') ''label'') (fld (fld t ''data'') ''expression'') next_nodes]) (get_children depth nodes edges (fld t ''id''))"
  obtain css where css: "js_map ?f (filter (\<lambda>e. strict_eq (fld e ''source'') i) edges) = Some css" "cs = concat css"
    using assms by auto
  have "set css = {ns. \<exists>e \<in> set (filter (\<lambda>e. strict_eq (fld e ''source'') i) edges). ?f e = Some ns}"
    by (rule js_map_Some_set [OF css(1)])
  then have "set cs = {c. \<exists>e \<in> set (filter (\<lambda>e. strict_eq (fld e ''source'') i) edges). \<exists>ns. ?f e = Some ns \<and> c \<in> set ns}"
    unfolding css(2) by (simp only: set_concat) blast
  moreover have "(\<exists>ns. ?f e = Some ns \<and> c \<in> set ns) \<longleftrightarrow> (\<exists>t ns. target_node nodes e = Some t \<and> get_children depth nodes edges (fld t ''id'') = Some ns
      \<and> c = LogicalNode (fld t ''id'') (js_or (fld t ''type'') (JStr ''unknown'')) (fld (fld t ''data'') ''label'') (fld (fld t ''data'') ''expression'') ns)"
    for e c
    by (cases "target_node nodes e") auto
  ultimately show ?thesis by (simp only:) fastforce
qed

lemma children_paths:
  "get_children depth nodes edges i = Some cs \<Longrightarrow>
     (\<Union>c \<in> set cs. set (tree_paths c)) = {p. p \<noteq> [] \<and> flow_path nodes edges (i # p)}"
proof (induction depth arbitrary: i cs)
  case (Suc depth)
  let ?R = "flow_edge nodes edges"
  have child: "set (tree_paths (LogicalNode j ty l ex ns)) = {p. p \<noteq> [] \<and> hd p = j \<and> flow_path nodes edges p}"
    if "get_children depth nodes edges j = Some ns" for j ty l ex ns
  proof -
    have "set (tree_paths (LogicalNode j ty l ex ns)) = insert [j] ((#) j ` (\<Union>c \<in> set ns. set (tree_paths c)))" by auto
    also have "\<dots> = insert [j] ((#) j ` {p. p \<noteq> [] \<and> flow_path nodes edges (j # p)})" unfolding Suc.IH [OF that] ..
    also have "\<dots> = {p. p \<noteq> [] \<and> hd p = j \<and> flow_path nodes edges p}"
      by (auto simp: flow_path_def image_iff neq_Nil_conv)
    finally show ?thesis .
  qed
  have down: "\<exists>ns. get_children depth nodes edges j = Some ns" if "(i, j) \<in> ?R" for j
  proof -
    have "get_children (Suc depth) nodes edges i \<noteq> None" using Suc.prems by (simp del: get_children.simps)
    then have "get_children depth nodes edges j \<noteq> None" using that unfolding get_children_None by (meson relpow_Suc_I2)
    then show ?thesis by blast
  qed
  have "(\<Union>c \<in> set cs. set (tree_paths c)) = {p. p \<noteq> [] \<and> (i, hd p) \<in> ?R \<and> flow_path nodes edges p}" (is "?l = ?r")
  proof (intro equalityI subsetI)
    fix p assume "p \<in> ?l"
    then obtain c where c: "c \<in> set cs" "p \<in> set (tree_paths c)" by blast
    from c(1) obtain e t ns ty l ex where e: "c = LogicalNode (fld t ''id'') ty l ex ns" "e \<in> set edges" "strict_eq (fld e ''source'') i"
        "target_node nodes e = Some t" "get_children depth nodes edges (fld t ''id'') = Some ns"
      unfolding get_children_set [OF Suc.prems] by blast
    from e(2-4) have "(i, fld t ''id'') \<in> ?R" by (auto simp: flow_edge_def)
    moreover from c(2) have "p \<noteq> []" "hd p = fld t ''id''" "flow_path nodes edges p" unfolding e(1) child [OF e(5)] by simp_all
    ultimately show "p \<in> ?r" by simp
  next
    fix p assume "p \<in> ?r"
    then have p: "p \<noteq> []" "(i, hd p) \<in> ?R" "flow_path nodes edges p" by simp_all
    from p(2) obtain e t where e: "e \<in> set edges" "strict_eq (fld e ''source'') i" "target_node nodes e = Some t" "hd p = fld t ''id''"
      by (auto simp: flow_edge_def)
    obtain ns where ns: "get_children depth nodes edges (fld t ''id'') = Some ns" using down [OF p(2)] e(4) by auto
    let ?c = "LogicalNode (fld t ''id'') (js_or (fld t ''type'') (JStr ''unknown'')) (fld (fld t ''data'') ''label'') (fld (fld t ''data'') ''expression'') ns"
    have "?c \<in> set cs" unfolding get_children_set [OF Suc.prems] using e ns by blast
    moreover have "p \<in> set (tree_paths ?c)" unfolding child [OF ns] using p e(4) by simp
    ultimately show "p \<in> ?l" by blast
  qed
  also have "\<dots> = {p. p \<noteq> [] \<and> flow_path nodes edges (i # p)}" by (auto simp: flow_path_def neq_Nil_conv)
  finally show ?case .
qed simp

section \<open>Imported flows\<close>

text \<open>Properties that begin with those of an object, with any values, and go on with others.\<close>

definition extends_props :: "(string \<times> jsval) list \<Rightarrow> (string \<times> jsval) list \<Rightarrow> bool" where
  "extends_props ps ns \<longleftrightarrow> (\<exists>xs ys. ns = xs @ ys \<and> map fst xs = map fst ps \<and> set (map fst ys) \<inter> set (map fst ps) = {})"

lemma extends_refl: "extends_props ps ps"
  by (simp add: extends_props_def exI [of _ ps])

lemma extends_merge:
  assumes "extends_props ps ns"
  shows "extends_props ps (props_merge ns qs)"
proof -
  from assms obtain xs ys where n: "ns = xs @ ys" "map fst xs = map fst ps" "set (map fst ys) \<inter> set (map fst ps) = {}"
    by (auto simp: extends_props_def)
  let ?v = "\<lambda>(k, v). (k, case map_of qs k of Some w \<Rightarrow> w | None \<Rightarrow> v)"
  have "props_merge ns qs = map ?v xs @ (map ?v ys @ filter (\<lambda>(k, v). map_of ns k = None) qs)" by (simp add: props_merge_def n(1))
  moreover have "map fst (map ?v xs) = map fst ps" by (simp add: n(2) [symmetric] comp_def case_prod_unfold)
  moreover have "set (map fst (map ?v ys @ filter (\<lambda>(k, v). map_of ns k = None) qs)) \<inter> set (map fst ps) = {}"
    using n(3) by (auto simp: n(1) n(2) [symmetric] map_of_eq_None_iff comp_def case_prod_unfold image_iff)
  ultimately show ?thesis unfolding extends_props_def by blast
qed

lemma extends_absorbs:
  assumes "wf_props ps" "extends_props ps ns"
  shows "props_merge ps ns = ns"
proof -
  from assms(2) obtain xs ys where n: "ns = xs @ ys" "map fst xs = map fst ps" "set (map fst ys) \<inter> set (map fst ps) = {}"
    by (auto simp: extends_props_def)
  have len: "length xs = length ps" using n(2) by (metis length_map)
  have d: "distinct (map fst xs)" using assms(1) n(2) by (simp add: wf_props_def)
  have "map (\<lambda>(k, v). (k, case map_of ns k of Some w \<Rightarrow> w | None \<Rightarrow> v)) ps = xs"
  proof (rule nth_equalityI)
    fix k assume "k < length (map (\<lambda>(k, v). (k, case map_of ns k of Some w \<Rightarrow> w | None \<Rightarrow> v)) ps)"
    then have k: "k < length ps" "k < length xs" using len by simp_all
    then have key: "fst (ps ! k) = fst (xs ! k)" using n(2) by (metis nth_map)
    have "map_of xs (fst (xs ! k)) = Some (snd (xs ! k))" using d k by (simp add: map_of_eq_Some_iff)
    then have "map_of ns (fst (xs ! k)) = Some (snd (xs ! k))" by (simp add: n(1))
    then show "map (\<lambda>(k, v). (k, case map_of ns k of Some w \<Rightarrow> w | None \<Rightarrow> v)) ps ! k = xs ! k"
      using k key by (simp add: case_prod_unfold)
  qed (simp add: len)
  moreover have "filter (\<lambda>(k, v). map_of ps k = None) ns = ys"
  proof -
    have "filter (\<lambda>(k, v). map_of ps k = None) xs = []"
      using n(2) by (auto simp: filter_empty_conv map_of_eq_None_iff) (metis image_eqI fst_conv list.set_map)
    moreover have "filter (\<lambda>(k, v). map_of ps k = None) ys = ys" using n(3) by (force simp: filter_id_conv map_of_eq_None_iff)
    ultimately show ?thesis by (simp add: n(1))
  qed
  ultimately show ?thesis by (simp add: props_merge_def n(1))
qed

text \<open>No index is the name \<open>id\<close>, so that a value that is no object has none.\<close>

lemma own_id: "map_of (own_props v) ''id'' = Some w \<Longrightarrow> fld v ''id'' = w" "map_of (own_props v) ''id'' = None \<Longrightarrow> fld v ''id'' = JUndef"
proof -
  have "dec_nat n \<noteq> ''id''" for n using dec_nat_digits [of n] by (auto simp: is_digit_def)
  then show "map_of (own_props v) ''id'' = Some w \<Longrightarrow> fld v ''id'' = w" "map_of (own_props v) ''id'' = None \<Longrightarrow> fld v ''id'' = JUndef"
    by (cases v; auto simp: own_props_def fld_def dest!: map_of_SomeD)+
qed

lemma spread_id: "fld old ''id'' = fld item ''id'' \<or> old = JUndef \<Longrightarrow> fld (obj_spread old item) ''id'' = fld item ''id''"
  by (auto simp: obj_spread_fld own_props_def [of JUndef] own_id split: option.split)

text \<open>
  The items of a map in order: the first are those of \<open>cur\<close>, perhaps with new values and more properties, and
  each is an object under its own identifier.
\<close>

definition keeps_items :: "jsval list \<Rightarrow> (jsval, jsval) jsmap \<Rightarrow> bool" where
  "keeps_items cur m \<longleftrightarrow> distinct (map fst m) \<and> (\<forall>(k, v) \<in> set m. fld v ''id'' = k \<and> plain_object v)
     \<and> length cur \<le> length m \<and> (\<forall>j < length cur. fst (m ! j) = fld (cur ! j) ''id'' \<and> extends_props (own_props (cur ! j)) (own_props (snd (m ! j))))"

definition items_ok :: "jsval list \<Rightarrow> bool" where
  "items_ok ns \<longleftrightarrow> list_all (\<lambda>n. plain_object n \<and> wf_props (own_props n)) ns \<and> distinct (map (\<lambda>n. fld n ''id'') ns)"

abbreviation keyed :: "jsval list \<Rightarrow> (jsval, jsval) jsmap" where
  "keyed ns \<equiv> map (\<lambda>n. (fld n ''id'', n)) ns"

abbreviation put_item :: "(jsval, jsval) jsmap \<Rightarrow> jsval \<Rightarrow> (jsval, jsval) jsmap option" where
  "put_item \<equiv> put_by_id (\<lambda>item old. obj_spread (case old of Some v \<Rightarrow> v | None \<Rightarrow> JUndef) item)"

lemma object_readable: "plain_object v \<Longrightarrow> get v k = Some (fld v k)"
  by (cases v) (simp_all add: plain_object_def)

lemma put_base:
  "list_all plain_object base \<Longrightarrow> distinct (map fst m @ map (\<lambda>n. fld n ''id'') base)
   \<Longrightarrow> js_reduce (put_by_id (\<lambda>item _. item)) m base = Some (m @ keyed base)"
proof (induction base arbitrary: m)
  case (Cons b base)
  then have "map_set (fld b ''id'') b m = m @ [(fld b ''id'', b)]" by (intro map_set_absent) auto
  with Cons show ?case by (simp add: put_by_id_def object_readable)
qed simp

lemma keeps_items_start: "items_ok cur \<Longrightarrow> keeps_items cur (keyed cur)"
  by (auto simp: keeps_items_def items_ok_def list_all_iff comp_def extends_refl)

lemma keeps_items_keyed: "keeps_items cur m \<Longrightarrow> keyed (map snd m) = m"
  by (auto simp: keeps_items_def intro!: map_idI)

lemma map_set_cases:
  assumes "distinct (map fst m)"
  shows "map_get m k = None \<and> map_set k v m = m @ [(k, v)] \<or> (\<exists>i < length m. fst (m ! i) = k \<and> map_get m k = Some (snd (m ! i)) \<and> map_set k v m = m[i := (k, v)])"
proof (cases "k \<in> fst ` set m")
  case False
  then show ?thesis by (simp add: map_set_absent map_get_def map_of_eq_None_iff)
next
  case True
  then obtain i where i: "i < length m" "fst (m ! i) = k" by (metis in_set_conv_nth image_iff)
  have "map_get m k = Some (snd (m ! i))" using i assms by (auto simp: map_get_def map_of_eq_Some_iff intro: nth_mem)
  moreover have "map_set k v m = m[i := (k, v)]" using i assms
    unfolding map_set_def
  proof (induction m arbitrary: i)
    case (Cons p m)
    show ?case
    proof (cases i)
      case (Suc i')
      with Cons.prems have "fst p \<noteq> k" by (auto simp: image_iff)
      with Suc Cons show ?thesis by (cases p) simp
    qed (use Cons.prems in \<open>cases p, simp\<close>)
  qed simp
  ultimately show ?thesis using i by blast
qed

lemma put_item_keeps:
  assumes "keeps_items cur m" "put_item m item = Some m'"
  shows "keeps_items cur m'"
proof -
  define i where "i = fld item ''id''"
  define old where "old = (case map_get m i of Some v \<Rightarrow> v | None \<Rightarrow> JUndef)"
  have m': "m' = map_set i (obj_spread old item) m"
    using assms(2) by (cases "nullish item") (simp_all add: put_by_id_def i_def old_def)
  have d: "distinct (map fst m)" and own: "\<forall>(k, v) \<in> set m. fld v ''id'' = k \<and> plain_object v" using assms(1) by (simp_all add: keeps_items_def)
  have new: "fld (obj_spread old item) ''id'' = i \<and> plain_object (obj_spread old item)"
  proof -
    have "fld old ''id'' = i \<or> old = JUndef" using own by (auto simp: old_def map_get_def dest: map_of_SomeD split: option.split)
    then show ?thesis using spread_id [of old item] by (simp add: i_def plain_object_def obj_spread_def)
  qed
  from map_set_cases [OF d, of i "obj_spread old item"] show ?thesis
  proof
    assume "map_get m i = None \<and> map_set i (obj_spread old item) m = m @ [(i, obj_spread old item)]"
    then have m: "m' = m @ [(i, obj_spread old item)]" "i \<notin> fst ` set m" by (simp_all add: m' map_get_def map_of_eq_None_iff)
    with assms(1) new show ?thesis by (auto simp: keeps_items_def nth_append)
  next
    assume "\<exists>j < length m. fst (m ! j) = i \<and> map_get m i = Some (snd (m ! j)) \<and> map_set i (obj_spread old item) m = m[j := (i, obj_spread old item)]"
    then obtain j where j: "j < length m" "fst (m ! j) = i" "old = snd (m ! j)" "m' = m[j := (i, obj_spread old item)]"
      by (auto simp: m' old_def)
    have keys: "map fst m' = map fst m" using j by (simp add: map_update) (metis length_map list_update_id nth_map)
    have "\<forall>(k, v) \<in> set m'. fld v ''id'' = k \<and> plain_object v" using own new set_update_subset_insert [of m j "(i, obj_spread old item)"] j(4) by auto
    moreover have "extends_props (own_props (cur ! k)) (own_props (snd (m' ! k)))" if "k < length cur" for k
      using that assms(1) j extends_merge [of "own_props (cur ! k)" "own_props old" "own_props item"]
      by (auto simp: keeps_items_def nth_list_update obj_spread_def)
    moreover have "fst (m' ! k) = fld (cur ! k) ''id''" if "k < length cur" for k
    proof -
      from that assms(1) have k: "k < length m" by (simp add: keeps_items_def)
      with keys j(4) have "fst (m' ! k) = fst (m ! k)" using nth_map [of k m fst] nth_map [of k m' fst] by simp
      with that assms(1) show ?thesis by (simp add: keeps_items_def)
    qed
    ultimately show ?thesis using assms(1) keys j(4) by (simp add: keeps_items_def)
  qed
qed

lemma reduce_keeps: "keeps_items cur m \<Longrightarrow> js_reduce put_item m items = Some m' \<Longrightarrow> keeps_items cur m'"
  by (induction items arbitrary: m) (auto simp: bind_eq_Some_conv intro: put_item_keeps)

lemma merge_unique_keyed:
  assumes "keeps_items cur (keyed ns)"
  shows "merge_unique_by_id ns items = map_option (map snd) (js_reduce put_item (keyed ns) items)"
proof -
  have "list_all plain_object ns" "distinct (map (\<lambda>n. fld n ''id'') ns)" using assms by (auto simp: keeps_items_def list_all_iff comp_def)
  then have "js_reduce (put_by_id (\<lambda>item _. item)) [] ns = Some (keyed ns)" using put_base [of ns "[]"] by simp
  then show ?thesis by (simp add: merge_unique_by_id_def)
qed

lemma merge_keeps:
  assumes "keeps_items cur (keyed ns)" "merge_unique_by_id ns items = Some out"
  shows "keeps_items cur (keyed out)"
proof -
  obtain m where m: "js_reduce put_item (keyed ns) items = Some m" "out = map snd m"
    using assms(2) unfolding merge_unique_keyed [OF assms(1)] by auto
  from reduce_keeps [OF assms(1) m(1)] have "keeps_items cur m" .
  with keeps_items_keyed [OF this] show ?thesis by (simp add: m(2))
qed

lemma put_absent:
  "plain_object n \<Longrightarrow> fld n ''id'' \<notin> fst ` set m \<Longrightarrow> obj_spread JUndef n = n \<Longrightarrow> put_item m n = Some (m @ [(fld n ''id'', n)])"
  using map_of_eq_None_iff [of m "fld n ''id''"] by (simp add: put_by_id_def object_readable map_get_def map_set_absent)

lemma js_reduce_snoc: "js_reduce f m xs = Some m' \<Longrightarrow> js_reduce f m (xs @ [x]) = f m' x"
  by (induction xs arbitrary: m) (auto simp: bind_eq_Some_conv)

text \<open>Merging such items into the first ones gives just them.\<close>

lemma merge_absorbs:
  assumes "items_ok cur" "keeps_items cur (keyed ns)"
  shows "merge_unique_by_id cur ns = Some ns"
proof -
  let ?ids = "map (\<lambda>n. fld n ''id'')"
  have len: "length cur \<le> length ns" and d: "distinct (?ids ns)" and plain: "\<forall>n \<in> set ns. plain_object n"
    using assms(2) by (auto simp: keeps_items_def comp_def)
  have c: "fld (ns ! j) ''id'' = fld (cur ! j) ''id'' \<and> extends_props (own_props (cur ! j)) (own_props (ns ! j))" if "j < length cur" for j
    using that assms(2) len by (auto simp: keeps_items_def)
  have "j \<le> length ns \<Longrightarrow> js_reduce put_item (keyed cur) (take j ns) = Some (keyed (take j ns @ drop j cur))" for j
  proof (induction j)
    case (Suc j)
    let ?m = "keyed (take j ns @ drop j cur)" and ?n = "ns ! j"
    have j: "j < length ns" and n: "plain_object ?n" using Suc.prems plain by simp_all
    obtain ps where ps: "?n = JObj ps" using n by (cases ?n) (simp_all add: plain_object_def)
    have "?ids (take j ns @ drop j cur) = take j (?ids ns) @ drop j (?ids cur)" by (simp add: take_map drop_map)
    have step: "js_reduce put_item (keyed cur) (take (Suc j) ns) = put_item ?m ?n"
      using js_reduce_snoc [OF Suc.IH] Suc.prems j by (simp add: take_Suc_conv_app_nth)
    show ?case
    proof (cases "j < length cur")
      case True
      have ids: "?ids (take j ns @ drop j cur) = ?ids cur"
        by (rule nth_equalityI) (use True c len in \<open>auto simp: nth_append\<close>)
      have dm: "distinct (map fst ?m)" using ids assms(1) by (simp add: items_ok_def comp_def)
      have lm: "length ?m = length cur" using True len by simp
      have at: "?m ! j = (fld ?n ''id'', cur ! j)" using True c [OF True] len by (simp add: nth_append)
      have get: "map_get ?m (fld ?n ''id'') = Some (cur ! j)"
        unfolding map_get_def by (rule map_of_is_SomeI [OF dm], subst at [symmetric], rule nth_mem, simp only: lm True)
      have spread: "obj_spread (cur ! j) ?n = ?n"
        using assms(1) True c [OF True] extends_absorbs [of "own_props (cur ! j)" ps]
        by (simp add: obj_spread_def ps items_ok_def list_all_length)
      from map_set_cases [OF dm, of "fld ?n ''id''" ?n] get obtain k where k: "k < length ?m" "fst (?m ! k) = fld ?n ''id''" "map_set (fld ?n ''id'') ?n ?m = ?m[k := (fld ?n ''id'', ?n)]"
        by auto
      have "k = j" using nth_eq_iff_index_eq [OF dm, of k j] k(1,2) at True lm by (simp only: length_map nth_map fst_conv simp_thms)
      then have "put_item ?m ?n = Some (?m[j := (fld ?n ''id'', ?n)])" using get spread k(3) object_readable [OF n] by (simp add: put_by_id_def)
      moreover have "?m[j := (fld ?n ''id'', ?n)] = keyed (take (Suc j) ns @ drop (Suc j) cur)"
        by (rule nth_equalityI) (use True len j in \<open>auto simp: nth_append nth_list_update take_Suc_conv_app_nth\<close>)
      ultimately show ?thesis using step by simp
    next
      case False
      then have m: "?m = keyed (take j ns)" "drop (Suc j) cur = []" by simp_all
      have "fld ?n ''id'' \<notin> set (?ids (take j ns))" 
      proof
        assume "fld ?n ''id'' \<in> set (?ids (take j ns))"
        then obtain k where "k < j" "fld (ns ! k) ''id'' = fld ?n ''id''" using j by (auto simp: in_set_conv_nth)
        with nth_eq_iff_index_eq [OF d, of k j] j show False by simp
      qed
      then have "fld ?n ''id'' \<notin> fst ` set ?m" unfolding m(1) by (simp add: image_image)
      moreover have "obj_spread JUndef ?n = ?n" by (simp add: obj_spread_def ps own_props_def [of JUndef] props_merge_def)
      ultimately have "put_item ?m ?n = Some (?m @ [(fld ?n ''id'', ?n)])"
        using put_absent [OF n] by blast
      then show ?thesis using step j m by (simp add: take_Suc_conv_app_nth)
    qed
  qed simp
  from this [of "length ns"] len have "js_reduce put_item (keyed cur) ns = Some (keyed ns)" by simp
  then show ?thesis unfolding merge_unique_keyed [OF keeps_items_start [OF assms(1)]] by (simp add: comp_def)
qed

definition flow_ok :: "flow_state \<Rightarrow> bool" where
  "flow_ok s \<longleftrightarrow> items_ok (fs_nodes s) \<and> items_ok (fs_edges s) \<and> wf_props (own_props (fs_editor s))"

text \<open>A flow that has grown out of another by imports.\<close>

definition grown_from :: "flow_state \<Rightarrow> flow_state \<Rightarrow> bool" where
  "grown_from cur s \<longleftrightarrow> keeps_items (fs_nodes cur) (keyed (fs_nodes s)) \<and> keeps_items (fs_edges cur) (keyed (fs_edges s))
     \<and> plain_object (fs_editor s) \<and> extends_props (own_props (fs_editor cur)) (own_props (fs_editor s)) \<and> fs_name s = fs_name cur"

lemma merge_grows:
  assumes "grown_from cur s" "merge_flow_states s ns es ed = Some s'"
  shows "grown_from cur s'"
  using assms merge_keeps by (auto simp: grown_from_def merge_flow_states_def obj_spread_def plain_object_def extends_merge split: option.splits)

lemma pull_files_grow: "grown_from cur s \<Longrightarrow> grown_from cur (fst (pull_files files (s, failures)))"
proof (induction files arbitrary: s failures)
  case (Cons f files)
  obtain name content where f: "f = (name, content)" by (cases f)
  show ?case
  proof (cases "pull_file content s")
    case (Some s')
    then have "grown_from cur s'" using Cons.prems merge_grows by (auto simp: pull_file_def split: option.splits bool.splits)
    with Some Cons.IH show ?thesis by (simp add: f)
  qed (use Cons in \<open>simp add: f\<close>)
qed simp

section \<open>Properties\<close>

text \<open>
  The search for the identifier of a new node ends: creating a node never fails, and the new one, put behind
  the others, has an identifier that none of them has, with a number of at most twice theirs and one.
\<close>

lemma new_node_is_fresh:
  "\<exists>s' n k. handle_create ty s = Some s' \<and> fs_nodes s' = fs_nodes s @ [n] \<and> fs_edges s' = fs_edges s
    \<and> fld n ''id'' = node_id k \<and> length (fs_nodes s) < k \<and> k \<le> 2 * length (fs_nodes s) + 1
    \<and> node_id k \<notin> set (map (\<lambda>m. fld m ''id'') (fs_nodes s))"
proof -
  obtain i where i: "get_unique_id s = Some i" unfolding get_unique_id_def using unused_id_total by fastforce
  from unused_id_Some [OF i [unfolded get_unique_id_def]] obtain j where "j \<le> length (fs_nodes s)"
    "i = node_id (length (fs_nodes s) + 1 + j)" "i \<notin> set (map (\<lambda>m. fld m ''id'') (fs_nodes s))" by auto
  with i show ?thesis
    by (intro exI [of _ "the (handle_create ty s)"] exI [of _ "last (fs_nodes (the (handle_create ty s)))"]
        exI [of _ "length (fs_nodes s) + 1 + j"]) (simp add: handle_create_def Let_def)
qed

text \<open>
  The canvas and the stored flow agree whenever nothing waits to be written: in every state reached from
  a stored flow by changes on the canvas, writes of the panels and the debounced write, in any order, without
  a waiting write the copies are the stored nodes and edges, and the debounced write leaves none waiting.
\<close>

lemma canvas_settles:
  assumes "canvas_step\<^sup>*\<^sup>* (new_flow_canvas s) c"
  shows "(fc_pending c = None \<longrightarrow> fc_nodes c = fs_nodes (fc_store c) \<and> fc_edges c = fs_edges (fc_store c))
    \<and> fc_pending (debounced_sync c) = None"
proof
  show "fc_pending (debounced_sync c) = None" by (auto simp: debounced_sync_def store_written_def show_flow_def split: option.split)
  from assms show "fc_pending c = None \<longrightarrow> fc_nodes c = fs_nodes (fc_store c) \<and> fc_edges c = fs_edges (fc_store c)"
  proof (induction rule: rtranclp_induct)
    case (step c c')
    from step.hyps(2) step.IH show ?case
      by cases (auto simp: on_nodes_change_def on_edges_change_def on_connect_def debounced_sync_def store_written_def show_flow_def
          Let_def split: option.split)
  qed (simp add: new_flow_canvas_def)
qed

text \<open>
  C26. The export of the logical flow overflows the stack exactly when the entry reaches a cycle: with a stack
  deeper than the number of nodes there is a result when there is no cycle ahead, and with any stack, however
  deep, there is none when there is one.
\<close>

theorem logical_flow_fails_on_cycles:
  assumes "length (tf_nodes f) < depth"
  shows "get_logical_flow depth f = None \<longleftrightarrow>
    (\<exists>n x. entry_node (tf_nodes f) = Some n \<and> (fld n ''id'', x) \<in> (flow_edge (tf_nodes f) (tf_edges f))\<^sup>*
      \<and> (x, x) \<in> (flow_edge (tf_nodes f) (tf_edges f))\<^sup>+)"
proof -
  let ?R = "flow_edge (tf_nodes f) (tf_edges f)" and ?A = "set (map (\<lambda>n. fld n ''id'') (tf_nodes f))"
  have c: "card ?A < depth" using card_length [of "map (\<lambda>n. fld n ''id'') (tf_nodes f)"] assms by simp
  have "(\<exists>j. (i, j) \<in> ?R ^^ depth) \<longleftrightarrow> (\<exists>x. (i, x) \<in> ?R\<^sup>* \<and> (x, x) \<in> ?R\<^sup>+)" for i
  proof
    assume "\<exists>j. (i, j) \<in> ?R ^^ depth"
    then obtain j where "(i, j) \<in> ?R ^^ depth" ..
    then show "\<exists>x. (i, x) \<in> ?R\<^sup>* \<and> (x, x) \<in> ?R\<^sup>+"
      by (rule long_path_cycles [OF _ _ _ c]) (rule flow_edge_range, assumption, rule List.finite_set)
  next
    assume "\<exists>x. (i, x) \<in> ?R\<^sup>* \<and> (x, x) \<in> ?R\<^sup>+"
    then show "\<exists>j. (i, j) \<in> ?R ^^ depth" using cycle_has_long_paths by metis
  qed
  then show ?thesis by (auto simp: get_logical_flow_def get_children_None split: option.split)
qed

text \<open>
  C27. The logical flow is the flow as seen from its entry: the paths of the tree from its root down are exactly
  the paths that the edges of the flow make from the entry node.
\<close>

theorem logical_flow_is_all_paths:
  assumes "get_logical_flow depth f = Some (Some start)"
  shows "set (tree_paths start) = {p. p \<noteq> [] \<and> hd p = ln_id start \<and> flow_path (tf_nodes f) (tf_edges f) p}
    \<and> entry_node (tf_nodes f) \<noteq> None \<and> ln_id start = fld (the (entry_node (tf_nodes f))) ''id''"
proof -
  from assms obtain n ns where n: "entry_node (tf_nodes f) = Some n" "get_children depth (tf_nodes f) (tf_edges f) (fld n ''id'') = Some ns"
    "start = LogicalNode (fld n ''id'') (js_or (fld n ''type'') (JStr ''entry'')) (fld (fld n ''data'') ''label'') JUndef ns"
    by (auto simp: get_logical_flow_def split: option.splits)
  have "set (tree_paths start) = insert [fld n ''id''] ((#) (fld n ''id'') ` (\<Union>c \<in> set ns. set (tree_paths c)))" by (auto simp: n(3))
  also have "\<dots> = insert [fld n ''id''] ((#) (fld n ''id'') ` {p. p \<noteq> [] \<and> flow_path (tf_nodes f) (tf_edges f) (fld n ''id'' # p)})"
    unfolding children_paths [OF n(2)] ..
  also have "\<dots> = {p. p \<noteq> [] \<and> hd p = fld n ''id'' \<and> flow_path (tf_nodes f) (tf_edges f) p}"
    by (auto simp: flow_path_def image_iff neq_Nil_conv)
  finally show ?thesis using n by simp
qed


section \<open>A small flow\<close>

definition a_node :: "string \<Rightarrow> string \<Rightarrow> jsval" where
  "a_node i ty = JObj [(''id'', JStr i), (''type'', JStr ty), (''data'', JObj [(''label'', JStr i)])]"

definition an_edge :: "string \<Rightarrow> string \<Rightarrow> jsval" where
  "an_edge i j = JObj [(''id'', JStr (i @ ''-'' @ j)), (''source'', JStr i), (''target'', JStr j)]"

definition a_flow :: "(string \<times> string) list \<Rightarrow> trimmed_flow" where
  "a_flow es = \<lparr>tf_name = JStr ''f'', tf_nodes = [a_node ''a'' ''entry'', a_node ''b'' ''process''], tf_edges = map (\<lambda>(i, j). an_edge i j) es\<rparr>"

theorem canvas_settles_witness:
  "let c = debounced_sync (on_connect (JObj [(''source'', JStr ''b''), (''target'', JStr ''a'')]) (new_flow_canvas default_flow_state))
   in fc_edges c = fs_edges (fc_store c)"
proof -
  let ?c = "on_connect (JObj [(''source'', JStr ''b''), (''target'', JStr ''a'')]) (new_flow_canvas default_flow_state)"
  have "canvas_step (new_flow_canvas default_flow_state) ?c" by (rule canvas_connect)
  moreover have "canvas_step ?c (debounced_sync ?c)" by (rule canvas_sync)
  ultimately have "canvas_step\<^sup>*\<^sup>* (new_flow_canvas default_flow_state) (debounced_sync ?c)" by simp
  moreover have "fc_pending (debounced_sync ?c) = None" by code_simp
  ultimately show ?thesis using canvas_settles by (simp add: Let_def)
qed

theorem logical_flow_fails_on_cycles_witness:
  "get_logical_flow 3 (a_flow [(''a'', ''b''), (''b'', ''a'')]) = None \<and> get_logical_flow 3 (a_flow [(''a'', ''b'')]) \<noteq> None
   \<and> (\<nexists>n x. entry_node (tf_nodes (a_flow [(''a'', ''b'')])) = Some n
      \<and> (fld n ''id'', x) \<in> (flow_edge (tf_nodes (a_flow [(''a'', ''b'')])) (tf_edges (a_flow [(''a'', ''b'')])))\<^sup>*
      \<and> (x, x) \<in> (flow_edge (tf_nodes (a_flow [(''a'', ''b'')])) (tf_edges (a_flow [(''a'', ''b'')])))\<^sup>+)"
proof -
  have "length (tf_nodes (a_flow [(''a'', ''b'')])) < 3" "get_logical_flow 3 (a_flow [(''a'', ''b'')]) \<noteq> None"
    "get_logical_flow 3 (a_flow [(''a'', ''b''), (''b'', ''a'')]) = None" by code_simp+
  then show ?thesis using logical_flow_fails_on_cycles [of "a_flow [(''a'', ''b'')]" 3] by metis
qed

theorem logical_flow_is_all_paths_witness:
  "flow_path (tf_nodes (a_flow [(''a'', ''b'')])) (tf_edges (a_flow [(''a'', ''b'')])) [JStr ''a'', JStr ''b'']"
proof -
  let ?s = "the (the (get_logical_flow 3 (a_flow [(''a'', ''b'')])))"
  have s: "get_logical_flow 3 (a_flow [(''a'', ''b'')]) = Some (Some ?s)" by code_simp
  have "[JStr ''a'', JStr ''b''] \<in> set (tree_paths ?s)" by code_simp
  with logical_flow_is_all_paths [OF s] show ?thesis by blast
qed

text \<open>
  Importing never fails and never drops anything: whatever the files contain, the import gives a flow, the
  one that merging the readable files one after the other gives (the last merge with the current flow
  changes nothing); its identifiers are all different, and it begins with the nodes and edges of the current
  flow, each with all its properties, before any new ones.
\<close>

lemma import_keeps_the_flow:
  assumes "flow_ok cur" "plain_object (fs_editor cur)"
  shows "\<exists>s. open_and_pull_differences files cur = Some s \<and> s = fst (pull_files files (cur, []))
    \<and> distinct (map (\<lambda>n. fld n ''id'') (fs_nodes s)) \<and> distinct (map (\<lambda>e. fld e ''id'') (fs_edges s))
    \<and> take (length (fs_nodes cur)) (map (\<lambda>n. fld n ''id'') (fs_nodes s)) = map (\<lambda>n. fld n ''id'') (fs_nodes cur)
    \<and> take (length (fs_edges cur)) (map (\<lambda>e. fld e ''id'') (fs_edges s)) = map (\<lambda>e. fld e ''id'') (fs_edges cur)
    \<and> (\<forall>k < length (fs_nodes cur). extends_props (own_props (fs_nodes cur ! k)) (own_props (fs_nodes s ! k)))"
proof -
  let ?s = "fst (pull_files files (cur, []))"
  have "grown_from cur cur" using assms keeps_items_start by (simp add: grown_from_def flow_ok_def extends_refl)
  then have g: "grown_from cur ?s" by (rule pull_files_grow)
  have ok: "items_ok (fs_nodes cur)" "items_ok (fs_edges cur)" "wf_props (own_props (fs_editor cur))" using assms by (simp_all add: flow_ok_def)
  have k: "keeps_items (fs_nodes cur) (keyed (fs_nodes ?s))" "keeps_items (fs_edges cur) (keyed (fs_edges ?s))" using g by (simp_all add: grown_from_def)
  have "obj_spread (fs_editor cur) (fs_editor ?s) = fs_editor ?s"
    using g extends_absorbs [OF ok(3)] by (cases "fs_editor ?s") (simp_all add: grown_from_def plain_object_def obj_spread_def)
  then have "open_and_pull_differences files cur = Some ?s"
    using merge_absorbs [OF ok(1) k(1)] merge_absorbs [OF ok(2) k(2)] g
    by (simp add: open_and_pull_differences_def merge_flow_states_def Let_def grown_from_def)
  moreover have "take (length cs) (map (\<lambda>n. fld n ''id'') ns) = map (\<lambda>n. fld n ''id'') cs" if "keeps_items cs (keyed ns)" for cs ns
    by (rule nth_equalityI) (use that in \<open>auto simp: keeps_items_def\<close>)
  ultimately show ?thesis using k by (intro exI [of _ ?s]) (auto simp: keeps_items_def comp_def)
qed

theorem import_keeps_the_flow_witness:
  "\<exists>s. open_and_pull_differences [(''x'', Some ''null''), (''y'', None)] default_flow_state = Some s
     \<and> distinct (map (\<lambda>n. fld n ''id'') (fs_nodes s))"
proof -
  have "flow_ok default_flow_state" "plain_object (fs_editor default_flow_state)"
    by (simp_all add: flow_ok_def items_ok_def default_flow_state_def plain_object_def)
  from import_keeps_the_flow [OF this] show ?thesis by blast
qed

section \<open>What goes wrong\<close>

text \<open>
  A node deleted in the panel less than 100 ms after a change on the canvas comes back: the debounced write
  still holds the nodes and edges of before.
\<close>

definition two_node_flow :: flow_state where
  "two_node_flow = default_flow_state\<lparr>fs_nodes := [a_node ''a'' ''entry'', a_node ''b'' ''process''], fs_edges := [an_edge ''a'' ''b'']\<rparr>"

lemma deleted_node_comes_back:
  "let c = store_written (handle_node_delete (JStr ''b'')) (on_nodes_change (\<lambda>ns. ns) (new_flow_canvas two_node_flow))
   in fs_nodes (fc_store c) = [a_node ''a'' ''entry''] \<and> fs_nodes (fc_store (debounced_sync c)) = [a_node ''a'' ''entry'', a_node ''b'' ''process'']"
  by code_simp

text \<open>Connecting two nodes a second time gives a second edge with the identifier of the first.\<close>

lemma second_connection_has_same_id:
  "let p = JObj [(''source'', JStr ''b''), (''target'', JStr ''a'')]
   in map (\<lambda>e. fld e ''id'') (fc_edges (on_connect p (on_connect p (new_flow_canvas two_node_flow)))) = [JStr ''a-b'', JStr ''b-a'', JStr ''b-a'']"
  by code_simp

end
