(* ===== verification/UserData.thy ===== *)
theory UserData
  imports JsText
begin

text \<open>
  A user as the profile, the settings and the managers of permissions see it (\<open>components/user/useUserData.ts\<close>),
  and the editing of a profile with its images (\<open>components/user/useProfileEdit.ts\<close>). Requests and their answers
  are separate steps. A toggle is shown at once and taken back when its request fails; the handlers for
  permissions and for roles differ only in the field they change.
\<close>

section \<open>State\<close>

text \<open>Requests under way; a toggle has its field, its name and whether the user had it.\<close>

datatype profile_call = LoadCall string | ToggleCall string string bool | SuspendCall string | UnsuspendCall

record user_data =
  ud_user :: jsval
  ud_loading :: bool
  ud_error :: "string option"
  ud_all_permissions :: jsval
  ud_all_roles :: jsval
  ud_toggling :: "(string \<times> string) list"
  ud_suspend_open :: bool
  ud_suspend_reason :: string
  ud_suspend_loading :: bool
  ud_calls :: "profile_call list"
  ud_toasts :: "string list"

definition new_user_data :: user_data where
  "new_user_data = \<lparr>ud_user = JNull, ud_loading = True, ud_error = None, ud_all_permissions = JArr [], ud_all_roles = JArr [],
     ud_toggling = [], ud_suspend_open = False, ud_suspend_reason = [], ud_suspend_loading = False, ud_calls = [], ud_toasts = []\<rparr>"

definition called :: "profile_call \<Rightarrow> user_data \<Rightarrow> user_data" where
  "called c u = u\<lparr>ud_calls := ud_calls u @ [c]\<rparr>"

definition call_over :: "profile_call \<Rightarrow> user_data \<Rightarrow> user_data" where
  "call_over c u = u\<lparr>ud_calls := remove1 c (ud_calls u)\<rparr>"

section \<open>Loading\<close>

definition fetch_user :: "string option \<Rightarrow> user_data \<Rightarrow> user_data" where
  "fetch_user user_id u =
     (case user_id of
        None \<Rightarrow> u
      | Some i \<Rightarrow> if i = [] then u else called (LoadCall i) (u\<lparr>ud_loading := True\<rparr>))"

text \<open>\<open>None\<close> is a failed request.\<close>

definition user_fetched :: "string \<Rightarrow> jsval option \<Rightarrow> user_data \<Rightarrow> user_data" where
  "user_fetched i answer u0 =
     (let u = (call_over (LoadCall i) u0)\<lparr>ud_loading := False\<rparr> in
      case answer of
        None \<Rightarrow> u\<lparr>ud_error := Some ''Failed to load user profile''\<rparr>
      | Some data \<Rightarrow>
          if truthy data then
            u\<lparr>ud_user := obj_with data [(''roles'', js_coalesce (fld data ''roles'') (JArr [])), (''permissions'', js_coalesce (fld data ''permissions'') (JArr []))]\<rparr>
          else u\<lparr>ud_error := Some ''User not found''\<rparr>)"

text \<open>The catalogues; one that fails counts as empty.\<close>

definition catalogues_fetched :: "jsval option \<Rightarrow> jsval option \<Rightarrow> user_data \<Rightarrow> user_data" where
  "catalogues_fetched perms roles u =
     u\<lparr>ud_all_permissions := (case perms of Some v \<Rightarrow> js_coalesce v (JArr []) | None \<Rightarrow> JArr []),
       ud_all_roles := (case roles of Some v \<Rightarrow> js_coalesce v (JArr []) | None \<Rightarrow> JArr [])\<rparr>"

text \<open>The live update of a profile.\<close>

definition profile_updated :: "string \<Rightarrow> jsval \<Rightarrow> jsval \<Rightarrow> user_data \<Rightarrow> user_data" where
  "profile_updated user_id updated_id updated u =
     (if js_string updated_id = user_id \<and> truthy (ud_user u) then
        u\<lparr>ud_user := obj_with (obj_spread (ud_user u) updated)
          [(''roles'', js_coalesce (fld updated ''roles'') (fld (ud_user u) ''roles'')),
           (''permissions'', js_coalesce (fld updated ''permissions'') (fld (ud_user u) ''permissions''))]\<rparr>
      else u)"

section \<open>Toggles\<close>

definition names_of :: "string \<Rightarrow> jsval \<Rightarrow> jsval list" where
  "names_of key user = (case js_coalesce (fld user key) (JArr []) of JArr xs \<Rightarrow> xs | _ \<Rightarrow> [])"

definition has_name :: "string \<Rightarrow> string \<Rightarrow> jsval \<Rightarrow> bool" where
  "has_name key name user = list_ex (\<lambda>v. strict_eq v (JStr name)) (names_of key user)"

definition without_name :: "string \<Rightarrow> string \<Rightarrow> jsval \<Rightarrow> jsval" where
  "without_name key name user = obj_with user [(key, JArr (filter (\<lambda>v. \<not> strict_eq v (JStr name)) (names_of key user)))]"

definition plus_name :: "string \<Rightarrow> string \<Rightarrow> jsval \<Rightarrow> jsval" where
  "plus_name key name user = obj_with user [(key, JArr (names_of key user @ [JStr name]))]"

definition handle_toggle :: "bool \<Rightarrow> string \<Rightarrow> string \<Rightarrow> user_data \<Rightarrow> user_data" where
  "handle_toggle can_manage key name u =
     (if \<not> truthy (ud_user u) \<or> \<not> can_manage \<or> (key, name) \<in> set (ud_toggling u) then u
      else let has = has_name key name (ud_user u)
        in called (ToggleCall key name has)
             (u\<lparr>ud_toggling := ud_toggling u @ [(key, name)],
                ud_user := (if has then without_name key name (ud_user u) else plus_name key name (ud_user u))\<rparr>))"

definition toggle_failure_message :: "string \<Rightarrow> bool \<Rightarrow> string" where
  "toggle_failure_message key has =
     ''Failed to '' @ (if has then ''remove'' else ''add'') @
     (if key = ''permissions'' then '' permission''
      else '' role. Make sure you have sufficient permissions and power level to manage this role.'')"

definition toggle_answered :: "string \<Rightarrow> string \<Rightarrow> bool \<Rightarrow> bool \<Rightarrow> user_data \<Rightarrow> user_data" where
  "toggle_answered key name has ok u0 =
     (let u = (call_over (ToggleCall key name has) u0)\<lparr>ud_toggling := filter (\<lambda>b. b \<noteq> (key, name)) (ud_toggling u0)\<rparr> in
      if ok then u
      else u\<lparr>ud_user := (if \<not> truthy (ud_user u) then ud_user u
                else if has then plus_name key name (ud_user u) else without_name key name (ud_user u)),
             ud_toasts := ud_toasts u @ [toggle_failure_message key has]\<rparr>)"

section \<open>Suspension\<close>

definition handle_suspend :: "user_data \<Rightarrow> user_data" where
  "handle_suspend u = (if \<not> truthy (ud_user u) then u else called (SuspendCall (ud_suspend_reason u)) (u\<lparr>ud_suspend_loading := True\<rparr>))"

definition suspend_answered :: "string \<Rightarrow> bool \<Rightarrow> user_data \<Rightarrow> user_data" where
  "suspend_answered reason ok u0 =
     (let u = (call_over (SuspendCall reason) u0)\<lparr>ud_suspend_loading := False\<rparr> in
      if ok then u\<lparr>ud_user := (if truthy (ud_user u) then obj_with (ud_user u) [(''is_suspended'', JBool True), (''suspended_reason'', JStr reason)] else ud_user u),
          ud_suspend_open := False, ud_suspend_reason := []\<rparr>
      else u\<lparr>ud_toasts := ud_toasts u @ [''Failed to suspend user'']\<rparr>)"

definition handle_unsuspend :: "user_data \<Rightarrow> user_data" where
  "handle_unsuspend u = (if \<not> truthy (ud_user u) then u else called UnsuspendCall (u\<lparr>ud_suspend_loading := True\<rparr>))"

definition unsuspend_answered :: "bool \<Rightarrow> user_data \<Rightarrow> user_data" where
  "unsuspend_answered ok u0 =
     (let u = (call_over UnsuspendCall u0)\<lparr>ud_suspend_loading := False\<rparr> in
      if ok then u\<lparr>ud_user := (if truthy (ud_user u) then obj_with (ud_user u) [(''is_suspended'', JBool False), (''suspended_reason'', JUndef)] else ud_user u)\<rparr>
      else u\<lparr>ud_toasts := ud_toasts u @ [''Failed to unsuspend user'']\<rparr>)"

section \<open>Editing a profile\<close>

text \<open>The images of a profile. A file is its name; object URLs are numbered in the order in which the browser makes them.\<close>

datatype image_slot = AvatarSlot | BannerSlot | BackgroundImageSlot | BackgroundVideoSlot | CardArtSlot

definition image_slots :: "image_slot list" where
  "image_slots = [AvatarSlot, BannerSlot, BackgroundImageSlot, BackgroundVideoSlot, CardArtSlot]"

record profile_edit =
  pe_open :: bool
  pe_bio :: string
  pe_display_name :: string
  pe_urls :: "image_slot \<Rightarrow> string"
  pe_position :: string
  pe_font :: string
  pe_files :: "image_slot \<Rightarrow> string option"
  pe_previews :: "image_slot \<Rightarrow> nat option"
  pe_saving :: bool
  pe_error :: "string option"
  pe_live_urls :: "nat list"
  pe_next_url :: nat

definition slot_field :: "image_slot \<Rightarrow> string" where
  "slot_field k = (case k of AvatarSlot \<Rightarrow> ''avatar_url'' | BannerSlot \<Rightarrow> ''banner_url'' | BackgroundImageSlot \<Rightarrow> ''background_image_url''
     | BackgroundVideoSlot \<Rightarrow> ''background_video_url'' | CardArtSlot \<Rightarrow> ''profile_card_art_url'')"

text \<open>Texts of a user are strings or missing.\<close>

definition text_or_empty :: "jsval \<Rightarrow> string" where
  "text_or_empty v = (if nullish v then [] else js_string v)"

definition sync_profile_fields :: "jsval \<Rightarrow> profile_edit \<Rightarrow> profile_edit" where
  "sync_profile_fields user e =
     (if \<not> truthy user then e
      else e\<lparr>pe_bio := text_or_empty (fld user ''bio''), pe_display_name := text_or_empty (fld user ''display_name''),
        pe_urls := (\<lambda>k. text_or_empty (fld user (slot_field k))), pe_position := text_or_empty (fld user ''background_position''),
        pe_font := text_or_empty (fld user ''font_family'')\<rparr>)"

definition new_profile_edit :: "jsval \<Rightarrow> profile_edit" where
  "new_profile_edit user = sync_profile_fields user
     \<lparr>pe_open = False, pe_bio = [], pe_display_name = [], pe_urls = (\<lambda>_. []), pe_position = [], pe_font = [], pe_files = (\<lambda>_. None),
      pe_previews = (\<lambda>_. None), pe_saving = False, pe_error = None, pe_live_urls = [], pe_next_url = 0\<rparr>"

definition revoke :: "nat option \<Rightarrow> profile_edit \<Rightarrow> profile_edit" where
  "revoke p e = (case p of Some n \<Rightarrow> e\<lparr>pe_live_urls := filter (\<lambda>m. m \<noteq> n) (pe_live_urls e)\<rparr> | None \<Rightarrow> e)"

definition handle_image_change :: "image_slot \<Rightarrow> string option \<Rightarrow> profile_edit \<Rightarrow> profile_edit" where
  "handle_image_change k chosen e0 =
     (let e = (revoke (pe_previews e0 k) e0)\<lparr>pe_files := (pe_files e0)(k := chosen)\<rparr> in
      case chosen of
        None \<Rightarrow> e\<lparr>pe_previews := (pe_previews e)(k := None)\<rparr>
      | Some _ \<Rightarrow> e\<lparr>pe_previews := (pe_previews e)(k := Some (pe_next_url e)), pe_live_urls := pe_live_urls e @ [pe_next_url e],
          pe_next_url := Suc (pe_next_url e)\<rparr>)"

text \<open>Revoking the previews that a render had, and forgetting all that are kept.\<close>

definition drop_images :: "(image_slot \<Rightarrow> nat option) \<Rightarrow> profile_edit \<Rightarrow> profile_edit" where
  "drop_images previews e = (fold (\<lambda>k. revoke (previews k)) image_slots e)\<lparr>pe_files := (\<lambda>_. None), pe_previews := (\<lambda>_. None)\<rparr>"

definition set_edit_open :: "bool \<Rightarrow> profile_edit \<Rightarrow> profile_edit" where
  "set_edit_open b e = (if b then e\<lparr>pe_open := True\<rparr> else drop_images (pe_previews e) (e\<lparr>pe_open := False\<rparr>))"

text \<open>
  The addresses a save sends: \<open>upload\<close> gives the address of an uploaded file, or the empty text; \<open>None\<close> is
  an upload that fails.
\<close>

definition final_url :: "(string \<Rightarrow> string option) \<Rightarrow> profile_edit \<Rightarrow> image_slot \<Rightarrow> string option" where
  "final_url upload e k =
     (case pe_files e k of
        None \<Rightarrow> Some (pe_urls e k)
      | Some name \<Rightarrow> map_option (\<lambda>url. if url = [] then pe_urls e k else url) (upload name))"

fun final_urls :: "(string \<Rightarrow> string option) \<Rightarrow> profile_edit \<Rightarrow> image_slot list \<Rightarrow> (string \<times> jsval) list option" where
  "final_urls upload e [] = Some []"
| "final_urls upload e (k # ks) =
     (case final_url upload e k of
        None \<Rightarrow> None
      | Some url \<Rightarrow> map_option (\<lambda>r. (slot_field k, JStr url) # r) (final_urls upload e ks))"

definition profile_body :: "profile_edit \<Rightarrow> (string \<times> jsval) list \<Rightarrow> jsval" where
  "profile_body e urls = JObj ([(''display_name'', JStr (pe_display_name e)), (''bio'', JStr (pe_bio e))] @ take 4 urls @
     [(''background_position'', JStr (pe_position e)), (''font_family'', JStr (pe_font e))] @ drop 4 urls)"

definition begin_save :: "profile_edit \<Rightarrow> profile_edit" where
  "begin_save e = e\<lparr>pe_saving := True, pe_error := None\<rparr>"

text \<open>
  The rest of \<open>handleSave\<close>, called in the render \<open>c\<close>: \<open>put\<close> is the request, with the message of its error;
  the result is what \<open>onSaved\<close> is given.
\<close>

definition end_save ::
  "(string \<Rightarrow> string option) \<Rightarrow> (jsval \<Rightarrow> string + jsval) \<Rightarrow> string \<Rightarrow> profile_edit \<Rightarrow> profile_edit \<Rightarrow> jsval option \<times> profile_edit" where
  "end_save upload put upload_error c e =
     (case final_urls upload c image_slots of
        None \<Rightarrow> (None, drop_images (pe_previews c) (e\<lparr>pe_error := Some upload_error, pe_saving := False\<rparr>))
      | Some urls \<Rightarrow>
          (case put (profile_body c urls) of
             Inl message \<Rightarrow> (None, drop_images (pe_previews c) (e\<lparr>pe_error := Some message, pe_saving := False\<rparr>))
           | Inr updated \<Rightarrow> (Some (obj_with (js_coalesce updated (JObj [])) (take 2 urls)),
               drop_images (pe_previews c) (e\<lparr>pe_open := False, pe_saving := False\<rparr>))))"

section \<open>Toggles and the server\<close>

text \<open>What is shown to the user beside what the server has, as pairs of a field and a name.\<close>

inductive toggle_step :: "user_data \<times> (string \<times> string) set \<Rightarrow> user_data \<times> (string \<times> string) set \<Rightarrow> bool" where
    toggle_click: "toggle_step (u, S) (handle_toggle can_manage key name u, S)"
  | toggle_granted: "ToggleCall key name has \<in> set (ud_calls u) \<Longrightarrow>
      toggle_step (u, S) (toggle_answered key name has True u, if has then S - {(key, name)} else insert (key, name) S)"
  | toggle_refused: "ToggleCall key name has \<in> set (ud_calls u) \<Longrightarrow> toggle_step (u, S) (toggle_answered key name has False u, S)"

definition toggle_of :: "profile_call \<Rightarrow> (string \<times> string) list" where
  "toggle_of c = (case c of ToggleCall key name _ \<Rightarrow> [(key, name)] | _ \<Rightarrow> [])"

definition toggles_of :: "user_data \<Rightarrow> (string \<times> string) list" where
  "toggles_of u = concat (map toggle_of (ud_calls u))"

definition toggles_ok :: "user_data \<Rightarrow> (string \<times> string) set \<Rightarrow> bool" where
  "toggles_ok u S \<longleftrightarrow> plain_object (ud_user u) \<and> distinct (toggles_of u) \<and> set (toggles_of u) = set (ud_toggling u)
     \<and> (\<forall>key name has. ToggleCall key name has \<in> set (ud_calls u) \<longrightarrow> has = ((key, name) \<in> S))
     \<and> (\<forall>key name. has_name key name (ud_user u) \<longleftrightarrow> ((key, name) \<in> S) \<noteq> ((key, name) \<in> set (ud_toggling u)))"

lemma plain_with [simp]: "plain_object (obj_with v kvs)" "plain_object v \<Longrightarrow> truthy v"
  by (simp_all add: plain_object_def obj_with_def split: jsval.splits)

lemma names_with:
  "plain_object v \<Longrightarrow> names_of key (obj_with v [(k, JArr xs)]) = (if key = k then xs else names_of key v)"
  by (simp add: names_of_def object_fields js_coalesce_def)

lemma has_name_changes:
  assumes "plain_object v"
  shows "has_name key name (without_name k n v) \<longleftrightarrow> has_name key name v \<and> (key, name) \<noteq> (k, n)"
    and "has_name key name (plus_name k n v) \<longleftrightarrow> has_name key name v \<or> (key, name) = (k, n)"
proof -
  have "strict_eq x (JStr n) \<longleftrightarrow> x = JStr n" for x n using strict_eq_eq by auto
  then show "has_name key name (without_name k n v) \<longleftrightarrow> has_name key name v \<and> (key, name) \<noteq> (k, n)"
    "has_name key name (plus_name k n v) \<longleftrightarrow> has_name key name v \<or> (key, name) = (k, n)"
    using assms by (auto simp: has_name_def without_name_def plus_name_def names_with list_ex_iff)
qed

lemma call_answered:
  assumes "toggles_ok u S" "ToggleCall key name has \<in> set (ud_calls u)"
  shows "distinct (toggles_of (call_over (ToggleCall key name has) u))"
    and "set (toggles_of (call_over (ToggleCall key name has) u)) = set (ud_toggling u) - {(key, name)}"
proof -
  have "c \<in> set cs \<Longrightarrow> mset (concat (map toggle_of cs)) = mset (toggle_of c) + mset (concat (map toggle_of (remove1 c cs)))" for c cs
    by (induction cs) auto
  from this [OF assms(2)] have m: "mset (toggles_of u) = mset ((key, name) # toggles_of (call_over (ToggleCall key name has) u))"
    by (simp add: toggles_of_def toggle_of_def call_over_def)
  have d: "distinct ((key, name) # toggles_of (call_over (ToggleCall key name has) u))"
    using mset_eq_imp_distinct_iff [OF m] assms(1) by (simp add: toggles_ok_def)
  then show "distinct (toggles_of (call_over (ToggleCall key name has) u))" by simp
  show "set (toggles_of (call_over (ToggleCall key name has) u)) = set (ud_toggling u) - {(key, name)}"
    using mset_eq_setD [OF m] d assms(1) by (auto simp: toggles_ok_def)
qed

lemma flipped_name:
  assumes "plain_object v" "has = has_name k n v"
  defines "w \<equiv> (if has then without_name k n v else plus_name k n v)"
  shows "plain_object w" "has_name key name w \<longleftrightarrow> has_name key name v \<noteq> ((key, name) = (k, n))"
  using assms by (auto simp: w_def has_name_changes) (simp_all add: without_name_def plus_name_def)

lemma click_ok:
  assumes "toggles_ok u S"
  shows "toggles_ok (handle_toggle can_manage key name u) S"
proof (cases "\<not> can_manage \<or> (key, name) \<in> set (ud_toggling u)")
  case False
  let ?has = "has_name key name (ud_user u)"
  let ?w = "if ?has then without_name key name (ud_user u) else plus_name key name (ud_user u)"
  have p: "plain_object (ud_user u)" using assms by (simp add: toggles_ok_def)
  note w = flipped_name [OF p refl, where k = key and n = name]
  have "ud_user (handle_toggle can_manage key name u) = ?w" "ud_toggling (handle_toggle can_manage key name u) = ud_toggling u @ [(key, name)]"
    "ud_calls (handle_toggle can_manage key name u) = ud_calls u @ [ToggleCall key name ?has]"
    using False p by (simp_all add: handle_toggle_def called_def Let_def)
  then show ?thesis using assms False w unfolding toggles_ok_def toggles_of_def by (auto simp: toggle_of_def)
qed (use assms in \<open>auto simp: handle_toggle_def\<close>)

lemma answered_ok:
  assumes "toggles_ok u S" "ToggleCall key name has \<in> set (ud_calls u)"
  shows "toggles_ok (toggle_answered key name has True u) (if has then S - {(key, name)} else insert (key, name) S)"
    and "toggles_ok (toggle_answered key name has False u) S"
proof -
  note c = call_answered [OF assms]
  have has: "has \<longleftrightarrow> (key, name) \<in> S" and p: "plain_object (ud_user u)" using assms by (auto simp: toggles_ok_def)
  have busy: "(key, name) \<in> set (ud_toggling u)" using assms by (force simp: toggles_ok_def toggles_of_def toggle_of_def)
  have calls: "set (ud_calls (call_over (ToggleCall key name has) u)) \<subseteq> set (ud_calls u)"
    by (simp add: call_over_def set_remove1_subset)
  have gone: "ToggleCall key name h \<notin> set (ud_calls (call_over (ToggleCall key name has) u))" for h
  proof
    assume "ToggleCall key name h \<in> set (ud_calls (call_over (ToggleCall key name has) u))"
    then have "(key, name) \<in> set (toggles_of (call_over (ToggleCall key name has) u))" by (force simp: toggles_of_def toggle_of_def)
    then show False using c(2) by simp
  qed
  have u: "toggles_of (toggle_answered key name has ok u) = toggles_of (call_over (ToggleCall key name has) u)"
    "ud_calls (toggle_answered key name has ok u) = ud_calls (call_over (ToggleCall key name has) u)"
    "set (ud_toggling (toggle_answered key name has ok u)) = set (ud_toggling u) - {(key, name)}" for ok
    by (auto simp: toggle_answered_def toggles_of_def Let_def)
  have call: "ToggleCall k n h \<in> set (ud_calls (call_over (ToggleCall key name has) u)) \<Longrightarrow> (k, n) \<noteq> (key, name) \<and> h = ((k, n) \<in> S)" for k n h
    using assms(1) calls gone by (auto simp: toggles_ok_def)
  have shown: "has_name k n (ud_user u) \<longleftrightarrow> ((k, n) \<in> S) \<noteq> ((k, n) \<in> set (ud_toggling u))" for k n using assms(1) by (simp add: toggles_ok_def)
  have same: "ud_user (toggle_answered key name has True u) = ud_user u" by (simp add: toggle_answered_def call_over_def Let_def)
  show "toggles_ok (toggle_answered key name has True u) (if has then S - {(key, name)} else insert (key, name) S)"
    unfolding toggles_ok_def u same using p c call gone shown has busy by auto
  have undone: "ud_user (toggle_answered key name has False u)
      = (if \<not> has then without_name key name (ud_user u) else plus_name key name (ud_user u))"
    using p by (simp add: toggle_answered_def call_over_def Let_def)
  have "\<not> has \<longleftrightarrow> has_name key name (ud_user u)" using shown has busy by simp
  note w = flipped_name [OF p this]
  show "toggles_ok (toggle_answered key name has False u) S"
    unfolding toggles_ok_def u undone using w c call shown has busy by auto
qed

section \<open>Properties\<close>


definition a_managed_user :: user_data where
  "a_managed_user = new_user_data\<lparr>ud_user := JObj [(''id'', JStr ''7''), (''permissions'', JArr [JStr ''p'']), (''roles'', JArr [])]\<rparr>"


section \<open>Previews\<close>

text \<open>A save ends with the images it began with: no file is chosen meanwhile.\<close>

inductive edit_step :: "profile_edit \<Rightarrow> profile_edit \<Rightarrow> bool" where
    edit_sync: "edit_step e (sync_profile_fields user e)"
  | edit_image: "edit_step e (handle_image_change k chosen e)"
  | edit_opens: "edit_step e (set_edit_open b e)"
  | edit_saves: "edit_step e (begin_save e)"
  | edit_saved: "pe_previews c = pe_previews e \<Longrightarrow> edit_step e (snd (end_save upload put upload_error c e))"

definition previews_ok :: "profile_edit \<Rightarrow> bool" where
  "previews_ok e \<longleftrightarrow> (\<forall>n. n \<in> set (pe_live_urls e) \<longleftrightarrow> (\<exists>k. pe_previews e k = Some n)) \<and> (\<forall>n \<in> set (pe_live_urls e). n < pe_next_url e)
     \<and> (\<forall>j k n. pe_previews e j = Some n \<longrightarrow> pe_previews e k = Some n \<longrightarrow> j = k)"

lemma revoke_simps [simp]:
  "pe_previews (revoke p e) = pe_previews e" "pe_next_url (revoke p e) = pe_next_url e"
  "set (pe_live_urls (revoke p e)) = {n \<in> set (pe_live_urls e). p \<noteq> Some n}"
  by (auto simp: revoke_def split: option.split)

lemma image_slots_all: "set image_slots = UNIV"
  unfolding image_slots_def by (auto, case_tac x) auto

lemma revoked_all: "set (pe_live_urls (fold (\<lambda>k. revoke (p k)) ks e)) = {n \<in> set (pe_live_urls e). \<forall>k \<in> set ks. p k \<noteq> Some n}"
  by (induction ks arbitrary: e) auto

lemma dropped_ok: "previews_ok e \<Longrightarrow> pe_previews e = p \<Longrightarrow> previews_ok (drop_images p e) \<and> pe_live_urls (drop_images p e) = []"
proof -
  assume e: "previews_ok e" "pe_previews e = p"
  have "set (pe_live_urls (drop_images p e)) = {}"
    using e by (auto simp: drop_images_def revoked_all image_slots_all previews_ok_def)
  then show ?thesis by (simp add: previews_ok_def drop_images_def)
qed

lemma previews_ok_cong:
  "pe_live_urls e' = pe_live_urls e \<Longrightarrow> pe_previews e' = pe_previews e \<Longrightarrow> pe_next_url e' = pe_next_url e \<Longrightarrow> previews_ok e' = previews_ok e"
  by (simp add: previews_ok_def)

lemma changed_ok:
  assumes "previews_ok e"
  shows "previews_ok (handle_image_change k chosen e)"
proof (cases chosen)
  case None
  with assms show ?thesis by (auto simp: handle_image_change_def previews_ok_def Let_def split: if_splits)
next
  case (Some f)
  let ?e = "handle_image_change k chosen e"
  have "pe_previews ?e = (pe_previews e)(k := Some (pe_next_url e))" "pe_next_url ?e = Suc (pe_next_url e)"
    "set (pe_live_urls ?e) = insert (pe_next_url e) {n \<in> set (pe_live_urls e). pe_previews e k \<noteq> Some n}"
    using Some by (auto simp: handle_image_change_def Let_def)
  with assms show ?thesis unfolding previews_ok_def by (auto simp: less_Suc_eq)
qed

lemma edit_step_ok: "edit_step e e' \<Longrightarrow> previews_ok e \<Longrightarrow> previews_ok e'"
proof (induction rule: edit_step.induct)
  case (edit_sync e user)
  moreover have "previews_ok (sync_profile_fields user e) = previews_ok e" by (rule previews_ok_cong) (simp_all add: sync_profile_fields_def)
  ultimately show ?case by simp
next
  case (edit_image e k chosen)
  then show ?case by (rule changed_ok)
next
  case (edit_opens e b)
  have "previews_ok (e\<lparr>pe_open := v\<rparr>) = previews_ok e" for v by (rule previews_ok_cong) simp_all
  with edit_opens dropped_ok show ?case by (simp add: set_edit_open_def)
next
  case (edit_saves e)
  moreover have "previews_ok (begin_save e) = previews_ok e" by (rule previews_ok_cong) (simp_all add: begin_save_def)
  ultimately show ?case by simp
next
  case (edit_saved c e upload put upload_error)
  have "previews_ok (e\<lparr>pe_error := x, pe_saving := y\<rparr>) = previews_ok e" "previews_ok (e\<lparr>pe_open := z, pe_saving := y\<rparr>) = previews_ok e" for x y z
    by (rule previews_ok_cong; simp)+
  with edit_saved dropped_ok show ?case by (auto simp: end_save_def split: option.split sum.split)
qed

text \<open>
  The previews of chosen images are released: in every state of the editing of a profile the object URLs that
  live are those of the previews shown, each of one image; closing the dialog, or the end of a save during
  which nothing was chosen, releases them all.
\<close>

lemma previews_are_released:
  assumes "edit_step\<^sup>*\<^sup>* (new_profile_edit user) e"
  shows "(\<forall>n. n \<in> set (pe_live_urls e) \<longleftrightarrow> (\<exists>k. pe_previews e k = Some n))
    \<and> pe_live_urls (set_edit_open False e) = [] \<and> pe_live_urls (snd (end_save upload put upload_error e e)) = []"
proof -
  have ok: "previews_ok e" using assms
  proof (induction rule: rtranclp_induct)
    case base
    then show ?case by (simp add: previews_ok_def new_profile_edit_def sync_profile_fields_def)
  next
    case (step v w)
    then show ?case by (blast intro: edit_step_ok)
  qed
  have same: "previews_ok (e\<lparr>pe_error := x, pe_saving := y\<rparr>) = previews_ok e" "previews_ok (e\<lparr>pe_open := z, pe_saving := y\<rparr>) = previews_ok e"
    "previews_ok (e\<lparr>pe_open := z\<rparr>) = previews_ok e" for x y z
    by (rule previews_ok_cong; simp)+
  then have "pe_live_urls (set_edit_open False e) = []" "pe_live_urls (snd (end_save upload put upload_error e e)) = []"
    using ok dropped_ok by (auto simp: set_edit_open_def end_save_def split: option.split sum.split)
  with ok show ?thesis by (simp add: previews_ok_def)
qed

theorem previews_are_released_witness:
  "pe_live_urls (set_edit_open False (handle_image_change AvatarSlot (Some ''f'') (new_profile_edit JNull))) = []"
proof -
  have "edit_step\<^sup>*\<^sup>* (new_profile_edit JNull) (handle_image_change AvatarSlot (Some ''f'') (new_profile_edit JNull))"
    by (rule r_into_rtranclp) (rule edit_image)
  from previews_are_released [OF this] show ?thesis by blast
qed

section \<open>What goes wrong\<close>

text \<open>The answer for a user who was shown before replaces the one shown now.\<close>

lemma late_user_replaces_shown:
  "let u = user_fetched ''1'' (Some (JObj [(''id'', JStr ''1'')])) (user_fetched ''2'' (Some (JObj [(''id'', JStr ''2'')]))
       (fetch_user (Some ''2'') (fetch_user (Some ''1'') new_user_data)))
   in fld (ud_user u) ''id'' = JStr ''1''"
  by code_simp

text \<open>After a user that could not be loaded, one that is loaded is shown with the error.\<close>

lemma error_outlives_the_next_user:
  "let u = user_fetched ''2'' (Some (JObj [(''id'', JStr ''2'')])) (fetch_user (Some ''2'') (user_fetched ''1'' None (fetch_user (Some ''1'') new_user_data)))
   in fld (ud_user u) ''id'' = JStr ''2'' \<and> ud_error u = Some ''Failed to load user profile''"
  by code_simp

text \<open>A refused removal gives a permission back that a live update has brought back already: it is there twice.\<close>

lemma refused_removal_gives_it_twice:
  "names_of ''permissions'' (ud_user (toggle_answered ''permissions'' ''p'' True False
     (profile_updated ''7'' (JStr ''7'') (JObj [(''permissions'', JArr [JStr ''p''])]) (handle_toggle True ''permissions'' ''p'' a_managed_user))))
   = [JStr ''p'', JStr ''p'']"
  by code_simp

text \<open>An image chosen while a save is under way is forgotten when it ends, and its preview is never released.\<close>

lemma image_chosen_while_saving_is_lost:
  "let c = begin_save (new_profile_edit JNull);
       e = snd (end_save Some Inr [] c (handle_image_change AvatarSlot (Some ''f'') c))
   in pe_files e AvatarSlot = None \<and> pe_previews e AvatarSlot = None \<and> pe_live_urls e = [0]"
  by code_simp

end
