(* ===== verification/PeerNegotiation.thy ===== *)
theory PeerNegotiation
  imports JsPrelude
begin

text \<open>
  The voice channel between two users (\<open>lib/webrtc/PeerSession.ts\<close>, \<open>SignalQueue.ts\<close>): each side has a
  peer connection and a queue of tasks that run one after the other, and exchanges offers, answers and
  candidates over the socket, which keeps the order. One side is polite: it gives way when both make an
  offer at once. What a session uses of \<open>RTCPeerConnection\<close> (signalling state, current and pending
  descriptions, candidates) follows the WebRTC standard; a description is the number of the
  description its connection created. Shown is that the negotiation never fails, ends, and leaves both sides
  stable with the same pair of descriptions, however the tasks and deliveries interleave.
\<close>

section \<open>The peer connection\<close>

type_synonym sdp = nat
type_synonym candidate = string

datatype signaling_state = Stable | HaveLocalOffer | HaveRemoteOffer | SignalingClosed

record rtc =
  rtc_signaling :: signaling_state
  rtc_current_local :: "sdp option"
  rtc_current_remote :: "sdp option"
  rtc_pending_local :: "sdp option"
  rtc_pending_remote :: "sdp option"
  rtc_created :: nat
  rtc_gathered :: "candidate list"
  rtc_added :: "candidate list"

definition new_rtc :: rtc where
  "new_rtc = \<lparr>rtc_signaling = Stable, rtc_current_local = None, rtc_current_remote = None, rtc_pending_local = None,
     rtc_pending_remote = None, rtc_created = 0, rtc_gathered = [], rtc_added = []\<rparr>"

text \<open>\<open>None\<close> is a rejected promise. Without an argument \<open>setLocalDescription\<close> makes the description that fits.\<close>

definition set_local_description :: "rtc \<Rightarrow> rtc option" where
  "set_local_description pc =
     (let sdp = rtc_created pc; pc1 = pc\<lparr>rtc_created := Suc sdp\<rparr> in
      case rtc_signaling pc of
        Stable \<Rightarrow> Some (pc1\<lparr>rtc_signaling := HaveLocalOffer, rtc_pending_local := Some sdp\<rparr>)
      | HaveLocalOffer \<Rightarrow> Some (pc1\<lparr>rtc_pending_local := Some sdp\<rparr>)
      | HaveRemoteOffer \<Rightarrow> Some (pc1\<lparr>rtc_signaling := Stable, rtc_current_local := Some sdp,
          rtc_current_remote := rtc_pending_remote pc, rtc_pending_local := None, rtc_pending_remote := None\<rparr>)
      | SignalingClosed \<Rightarrow> None)"

definition rollback :: "rtc \<Rightarrow> rtc option" where
  "rollback pc =
     (if rtc_signaling pc = HaveLocalOffer \<or> rtc_signaling pc = HaveRemoteOffer
      then Some (pc\<lparr>rtc_signaling := Stable, rtc_pending_local := None, rtc_pending_remote := None\<rparr>) else None)"

definition set_remote_offer :: "sdp \<Rightarrow> rtc \<Rightarrow> rtc option" where
  "set_remote_offer sdp pc =
     (if rtc_signaling pc = SignalingClosed then None
      else Some (pc\<lparr>rtc_signaling := HaveRemoteOffer, rtc_pending_local := None, rtc_pending_remote := Some sdp\<rparr>))"

definition set_remote_answer :: "sdp \<Rightarrow> rtc \<Rightarrow> rtc option" where
  "set_remote_answer sdp pc =
     (if rtc_signaling pc = HaveLocalOffer
      then Some (pc\<lparr>rtc_signaling := Stable, rtc_current_local := rtc_pending_local pc, rtc_current_remote := Some sdp,
        rtc_pending_local := None, rtc_pending_remote := None\<rparr>) else None)"

definition local_description :: "rtc \<Rightarrow> sdp option" where
  "local_description pc = (case rtc_pending_local pc of None \<Rightarrow> rtc_current_local pc | d \<Rightarrow> d)"

definition remote_description :: "rtc \<Rightarrow> sdp option" where
  "remote_description pc = (case rtc_pending_remote pc of None \<Rightarrow> rtc_current_remote pc | d \<Rightarrow> d)"

definition add_ice_candidate :: "candidate \<Rightarrow> rtc \<Rightarrow> rtc" where
  "add_ice_candidate c pc = pc\<lparr>rtc_added := rtc_added pc @ [c]\<rparr>"

section \<open>Sessions\<close>

datatype signal_payload = Offer "sdp option" | Answer "sdp option" | Candidate "candidate option" | Leave | Hello

text \<open>A task of the queue of a session: it starts when the one before it has ended, even with an error.\<close>

datatype task = Negotiate | HandleSignal signal_payload

record peer_session =
  ps_pc :: rtc
  ps_queue :: "task list"
  ps_making_offer :: bool
  ps_ignore_offer :: bool
  ps_needs_negotiation :: bool
  ps_pending_candidates :: "candidate list"
  ps_polite :: bool
  ps_sent :: "signal_payload list"
  ps_errors :: nat

definition new_peer_session :: "bool \<Rightarrow> peer_session" where
  "new_peer_session polite = \<lparr>ps_pc = new_rtc, ps_queue = [], ps_making_offer = False, ps_ignore_offer = False,
     ps_needs_negotiation = False, ps_pending_candidates = [], ps_polite = polite, ps_sent = [], ps_errors = 0\<rparr>"

definition enqueue :: "task \<Rightarrow> peer_session \<Rightarrow> peer_session" where
  "enqueue t s = s\<lparr>ps_queue := ps_queue s @ [t]\<rparr>"

definition send_signal :: "signal_payload \<Rightarrow> peer_session \<Rightarrow> peer_session" where
  "send_signal m s = s\<lparr>ps_sent := ps_sent s @ [m]\<rparr>"

definition log_error :: "peer_session \<Rightarrow> peer_session" where
  "log_error s = s\<lparr>ps_errors := Suc (ps_errors s)\<rparr>"

definition on_ice_candidate :: "candidate \<Rightarrow> peer_session \<Rightarrow> peer_session" where
  "on_ice_candidate c s =
     send_signal (Candidate (Some c)) (s\<lparr>ps_pc := (ps_pc s)\<lparr>rtc_gathered := rtc_gathered (ps_pc s) @ [c]\<rparr>\<rparr>)"

definition trigger_negotiation :: "peer_session \<Rightarrow> peer_session" where
  "trigger_negotiation s = enqueue Negotiate s"

definition negotiate :: "peer_session \<Rightarrow> peer_session" where
  "negotiate s = trigger_negotiation (s\<lparr>ps_needs_negotiation := True\<rparr>)"

definition run_negotiation :: "peer_session \<Rightarrow> peer_session" where
  "run_negotiation s =
     (if \<not> ps_needs_negotiation s then s
      else if rtc_signaling (ps_pc s) \<noteq> Stable then s
      else
        let s1 = s\<lparr>ps_needs_negotiation := False, ps_making_offer := True\<rparr>;
            s2 = (case set_local_description (ps_pc s1) of
                Some pc \<Rightarrow> send_signal (Offer (local_description pc)) (s1\<lparr>ps_pc := pc\<rparr>)
              | None \<Rightarrow> log_error s1)
        in s2\<lparr>ps_making_offer := False\<rparr>)"

definition flush_candidates :: "peer_session \<Rightarrow> peer_session" where
  "flush_candidates s = s\<lparr>ps_pending_candidates := [], ps_pc := fold add_ice_candidate (ps_pending_candidates s) (ps_pc s)\<rparr>"

definition renegotiate :: "peer_session \<Rightarrow> peer_session" where
  "renegotiate s = (if ps_needs_negotiation s then trigger_negotiation s else s)"

text \<open>After the offer has been accepted as the remote description.\<close>

definition answer_offer :: "peer_session \<Rightarrow> peer_session" where
  "answer_offer s =
     (let s1 = flush_candidates s in
      case set_local_description (ps_pc s1) of
        None \<Rightarrow> log_error s1
      | Some pc \<Rightarrow> renegotiate (send_signal (Answer (local_description pc)) (s1\<lparr>ps_pc := pc\<rparr>)))"

definition accept_offer :: "sdp \<Rightarrow> peer_session \<Rightarrow> peer_session" where
  "accept_offer sdp s =
     (case set_remote_offer sdp (ps_pc s) of None \<Rightarrow> log_error s | Some pc \<Rightarrow> answer_offer (s\<lparr>ps_pc := pc\<rparr>))"

definition handle_offer :: "sdp \<Rightarrow> peer_session \<Rightarrow> peer_session" where
  "handle_offer sdp s0 =
     (let collision = (ps_making_offer s0 \<or> rtc_signaling (ps_pc s0) \<noteq> Stable);
          s = s0\<lparr>ps_ignore_offer := \<not> ps_polite s0 \<and> collision\<rparr>
      in if ps_ignore_offer s then s
         else if collision then
           (let s1 = s\<lparr>ps_needs_negotiation := True\<rparr> in
            case rollback (ps_pc s1) of None \<Rightarrow> log_error s1 | Some pc \<Rightarrow> accept_offer sdp (s1\<lparr>ps_pc := pc\<rparr>))
         else accept_offer sdp s)"

definition handle_answer :: "sdp \<Rightarrow> peer_session \<Rightarrow> peer_session" where
  "handle_answer sdp s =
     (case set_remote_answer sdp (ps_pc s) of
        None \<Rightarrow> log_error s
      | Some pc \<Rightarrow> renegotiate (flush_candidates (s\<lparr>ps_pc := pc\<rparr>)))"

definition handle_candidate :: "candidate \<Rightarrow> peer_session \<Rightarrow> peer_session" where
  "handle_candidate c s =
     (if remote_description (ps_pc s) = None
      then s\<lparr>ps_pending_candidates := ps_pending_candidates s @ [c]\<rparr>
      else s\<lparr>ps_pc := add_ice_candidate c (ps_pc s)\<rparr>)"

fun handle_signal :: "signal_payload \<Rightarrow> peer_session \<Rightarrow> peer_session" where
  "handle_signal (Offer (Some sdp)) s = handle_offer sdp s"
| "handle_signal (Answer (Some sdp)) s = handle_answer sdp s"
| "handle_signal (Candidate (Some c)) s = handle_candidate c s"
| "handle_signal _ s = s"

fun run_task :: "task \<Rightarrow> peer_session \<Rightarrow> peer_session" where
  "run_task Negotiate s = run_negotiation s"
| "run_task (HandleSignal m) s = handle_signal m s"

definition close_session :: "peer_session \<Rightarrow> peer_session" where
  "close_session s = s\<lparr>ps_pc := (ps_pc s)\<lparr>rtc_signaling := SignalingClosed\<rparr>\<rparr>"

section \<open>Two sessions\<close>

text \<open>
  A polite and an impolite session; what one has sent and the other has not received is still in
  \<open>ps_sent\<close>. A pair moves when a task runs or a signal is delivered (\<open>pair_step\<close>); from outside, a
  negotiation is asked for (tracks are published or removed) or a candidate is found (\<open>pair_event\<close>).
\<close>

type_synonym pair = "peer_session \<times> peer_session"

definition run_next :: "peer_session \<Rightarrow> peer_session" where
  "run_next s = (case ps_queue s of [] \<Rightarrow> s | t # ts \<Rightarrow> run_task t (s\<lparr>ps_queue := ts\<rparr>))"

inductive pair_step :: "pair \<Rightarrow> pair \<Rightarrow> bool" where
    polite_runs: "ps_queue p \<noteq> [] \<Longrightarrow> pair_step (p, i) (run_next p, i)"
  | impolite_runs: "ps_queue i \<noteq> [] \<Longrightarrow> pair_step (p, i) (p, run_next i)"
  | to_impolite: "ps_sent p = m # ms \<Longrightarrow> pair_step (p, i) (p\<lparr>ps_sent := ms\<rparr>, enqueue (HandleSignal m) i)"
  | to_polite: "ps_sent i = m # ms \<Longrightarrow> pair_step (p, i) (enqueue (HandleSignal m) p, i\<lparr>ps_sent := ms\<rparr>)"

inductive pair_event :: "pair \<Rightarrow> pair \<Rightarrow> bool" where
    polite_negotiates: "pair_event (p, i) (negotiate p, i)"
  | impolite_negotiates: "pair_event (p, i) (p, negotiate i)"
  | polite_candidate: "pair_event (p, i) (on_ice_candidate c p, i)"
  | impolite_candidate: "pair_event (p, i) (p, on_ice_candidate c i)"

inductive pair_reachable :: "pair \<Rightarrow> bool" where
    pair_start: "pair_reachable (new_peer_session True, new_peer_session False)"
  | pair_steps: "pair_reachable s \<Longrightarrow> pair_step s s' \<Longrightarrow> pair_reachable s'"
  | pair_events: "pair_reachable s \<Longrightarrow> pair_event s s' \<Longrightarrow> pair_reachable s'"

section \<open>The protocol in the abstract\<close>

text \<open>
  Between its tasks a session is idle or waits for the answer to an offer. Eleven constellations of two
  such phases, of the agreed descriptions and of the offers and answers under way are all there are; the
  first is the only one with nothing under way.
\<close>

datatype phase = Idle | Offering sdp

type_synonym agreement = "sdp option \<times> sdp option"

inductive shape :: "phase \<Rightarrow> agreement \<Rightarrow> phase \<Rightarrow> agreement \<Rightarrow> signal_payload list \<Rightarrow> signal_payload list \<Rightarrow> bool" where
    agreed: "shape Idle (a, b) Idle (b, a) [] []"
  | polite_offered: "shape (Offering x) (a, b) Idle (b, a) [Offer (Some x)] []"
  | impolite_answered: "shape (Offering x) c Idle (Some y, Some x) [] [Answer (Some y)]"
  | impolite_went_on: "shape (Offering x) c (Offering z) (Some y, Some x) [] [Answer (Some y), Offer (Some z)]"
  | impolite_offered: "shape Idle (a, b) (Offering z) (b, a) [] [Offer (Some z)]"
  | polite_answered: "shape Idle (Some y, Some z) (Offering z) c [Answer (Some y)] []"
  | polite_went_on: "shape (Offering x) (Some y, Some z) (Offering z) c [Answer (Some y), Offer (Some x)] []"
  | collided: "shape (Offering x) (a, b) (Offering z) (b, a) [Offer (Some x)] [Offer (Some z)]"
  | gave_way: "shape Idle (Some y, Some z) (Offering z) c [Offer (Some w), Answer (Some y)] []"
  | gave_way_went_on: "shape (Offering x) (Some y, Some z) (Offering z) c [Offer (Some w), Answer (Some y), Offer (Some x)] []"
  | ignored: "shape (Offering x) (a, b) (Offering z) (b, a) [] [Offer (Some z)]"

inductive_cases shapeE: "shape ph c ph' c' ms ms'"

lemma polite_offers: "shape Idle c ph d ms ns \<Longrightarrow> shape (Offering x) c ph d (ms @ [Offer (Some x)]) ns"
  by (erule shapeE) (auto intro: shape.intros)

lemma impolite_offers: "shape ph c Idle d ms ns \<Longrightarrow> shape ph c (Offering x) d ms (ns @ [Offer (Some x)])"
  by (erule shapeE) (auto intro: shape.intros)

lemma polite_takes_offer:
  "shape ph c ph' d ms (Offer r # ns) \<Longrightarrow> \<exists>z. r = Some z \<and> shape Idle (Some y, Some z) ph' d (ms @ [Answer (Some y)]) ns"
  by (erule shapeE) (auto intro: shape.intros)

lemma impolite_takes_offer: "shape ph c Idle d (Offer r # ms) ns \<Longrightarrow> \<exists>z. r = Some z \<and> shape ph c Idle (Some y, Some z) ms (ns @ [Answer (Some y)])"
  by (erule shapeE) (auto intro: shape.intros)

lemma impolite_ignores_offer:
  "shape ph c (Offering x) d (Offer r # ms) ns \<Longrightarrow> (\<exists>z. r = Some z) \<and> shape ph c (Offering x) d ms ns"
  by (erule shapeE) (auto intro: shape.intros)

lemma polite_takes_answer: "shape ph c ph' d ms (Answer r # ns) \<Longrightarrow> \<exists>x y. ph = Offering x \<and> r = Some y \<and> shape Idle (Some x, Some y) ph' d ms ns"
  by (erule shapeE) (auto intro: shape.intros)

lemma impolite_takes_answer: "shape ph c ph' d (Answer r # ms) ns \<Longrightarrow> \<exists>x y. ph' = Offering x \<and> r = Some y \<and> shape ph c Idle (Some x, Some y) ms ns"
  by (erule shapeE) (auto intro: shape.intros)

section \<open>Sessions implement the protocol\<close>

definition phase_of :: "peer_session \<Rightarrow> phase" where
  "phase_of s = (case rtc_pending_local (ps_pc s) of None \<Rightarrow> Idle | Some x \<Rightarrow> Offering x)"

definition agreement_of :: "peer_session \<Rightarrow> agreement" where
  "agreement_of s = (rtc_current_local (ps_pc s), rtc_current_remote (ps_pc s))"

definition signals :: "task list \<Rightarrow> signal_payload list" where
  "signals ts = concat (map (\<lambda>t. case t of HandleSignal m \<Rightarrow> [m] | Negotiate \<Rightarrow> []) ts)"

fun is_description :: "signal_payload \<Rightarrow> bool" where
  "is_description (Offer _) = True" | "is_description (Answer _) = True" | "is_description _ = False"

fun candidate_of :: "signal_payload \<Rightarrow> candidate list" where
  "candidate_of (Candidate (Some c)) = [c]" | "candidate_of _ = []"

text \<open>What a session has been sent and has not handled, and the candidates it knows or will know.\<close>

definition inbound :: "peer_session \<Rightarrow> peer_session \<Rightarrow> signal_payload list" where
  "inbound s from_peer = signals (ps_queue s) @ ps_sent from_peer"

definition known_candidates :: "peer_session \<Rightarrow> peer_session \<Rightarrow> candidate list" where
  "known_candidates s from_peer =
     rtc_added (ps_pc s) @ ps_pending_candidates s @ concat (map candidate_of (inbound s from_peer))"

definition session_ok :: "peer_session \<Rightarrow> bool" where
  "session_ok s =
     (rtc_pending_remote (ps_pc s) = None
      \<and> rtc_signaling (ps_pc s) = (if rtc_pending_local (ps_pc s) = None then Stable else HaveLocalOffer)
      \<and> \<not> ps_making_offer s \<and> ps_errors s = 0
      \<and> (ps_needs_negotiation s \<longrightarrow> Negotiate \<in> set (ps_queue s) \<or> rtc_pending_local (ps_pc s) \<noteq> None)
      \<and> (rtc_current_remote (ps_pc s) \<noteq> None \<longrightarrow> ps_pending_candidates s = []))"

definition pair_ok :: "pair \<Rightarrow> bool" where
  "pair_ok = (\<lambda>(p, i). ps_polite p \<and> \<not> ps_polite i \<and> session_ok p \<and> session_ok i
     \<and> shape (phase_of p) (agreement_of p) (phase_of i) (agreement_of i)
         (filter is_description (inbound i p)) (filter is_description (inbound p i))
     \<and> known_candidates p i = rtc_gathered (ps_pc i) \<and> known_candidates i p = rtc_gathered (ps_pc p))"

named_theorems session_defs
declare phase_of_def [session_defs] agreement_of_def [session_defs] session_ok_def [session_defs]
  trigger_negotiation_def [session_defs] enqueue_def [session_defs] send_signal_def [session_defs]
  set_local_description_def [session_defs] set_remote_offer_def [session_defs] set_remote_answer_def [session_defs]
  rollback_def [session_defs] local_description_def [session_defs] remote_description_def [session_defs]
  flush_candidates_def [session_defs] renegotiate_def [session_defs] answer_offer_def [session_defs]
  accept_offer_def [session_defs]

lemma fold_add_ice [simp]: "fold add_ice_candidate cs pc = pc\<lparr>rtc_added := rtc_added pc @ cs\<rparr>"
  by (induction cs arbitrary: pc) (simp_all add: add_ice_candidate_def)

lemma signals_simps [simp]:
  "signals [] = []" "signals (HandleSignal m # ts) = m # signals ts" "signals (Negotiate # ts) = signals ts"
  "signals (ts @ us) = signals ts @ signals us"
  by (simp_all add: signals_def)

text \<open>What a session does and what it leaves alone, for every kind of task.\<close>

definition same_peer :: "peer_session \<Rightarrow> peer_session \<Rightarrow> bool" where
  "same_peer s s' = (ps_polite s' = ps_polite s \<and> rtc_gathered (ps_pc s') = rtc_gathered (ps_pc s)
     \<and> signals (ps_queue s') = signals (ps_queue s))"

lemma accepts_offer:
  fixes s x
  defines "s' \<equiv> handle_offer x s"
  assumes "session_ok (s\<lparr>ps_queue := t # ps_queue s\<rparr>)" "ps_polite s \<or> phase_of s = Idle"
  shows "session_ok s' \<and> same_peer s s' \<and> phase_of s' = Idle
    \<and> (\<exists>y. agreement_of s' = (Some y, Some x) \<and> ps_sent s' = ps_sent s @ [Answer (Some y)])
    \<and> rtc_added (ps_pc s') @ ps_pending_candidates s' = rtc_added (ps_pc s) @ ps_pending_candidates s"
  using assms(2,3) unfolding s'_def
  by (auto simp: handle_offer_def same_peer_def session_defs Let_def split: option.splits if_splits)

lemma ignores_offer:
  fixes s x
  defines "s' \<equiv> handle_offer x s"
  assumes "session_ok (s\<lparr>ps_queue := HandleSignal m # ps_queue s\<rparr>)" "\<not> ps_polite s" "phase_of s = Offering y"
  shows "session_ok s' \<and> same_peer s s' \<and> phase_of s' = phase_of s \<and> agreement_of s' = agreement_of s
    \<and> ps_sent s' = ps_sent s \<and> rtc_added (ps_pc s') @ ps_pending_candidates s' = rtc_added (ps_pc s) @ ps_pending_candidates s"
  using assms(2-) unfolding s'_def
  by (auto simp: handle_offer_def same_peer_def session_defs Let_def split: option.splits if_splits)

lemma accepts_answer:
  fixes s x
  defines "s' \<equiv> handle_answer x s"
  assumes "session_ok (s\<lparr>ps_queue := t # ps_queue s\<rparr>)" "phase_of s = Offering y"
  shows "session_ok s' \<and> same_peer s s' \<and> phase_of s' = Idle \<and> agreement_of s' = (Some y, Some x)
    \<and> ps_sent s' = ps_sent s \<and> rtc_added (ps_pc s') @ ps_pending_candidates s' = rtc_added (ps_pc s) @ ps_pending_candidates s"
  using assms(2-) unfolding s'_def
  by (auto simp: handle_answer_def same_peer_def session_defs Let_def split: option.splits if_splits)

lemma handles_candidate:
  fixes s c
  defines "s' \<equiv> handle_candidate c s"
  assumes "session_ok (s\<lparr>ps_queue := HandleSignal m # ps_queue s\<rparr>)"
  shows "session_ok s' \<and> same_peer s s' \<and> phase_of s' = phase_of s \<and> agreement_of s' = agreement_of s
    \<and> ps_sent s' = ps_sent s \<and> rtc_added (ps_pc s') @ ps_pending_candidates s' = rtc_added (ps_pc s) @ ps_pending_candidates s @ [c]"
  using assms(2-) unfolding s'_def
  by (auto simp: handle_candidate_def add_ice_candidate_def same_peer_def session_defs split: option.splits if_splits)

lemma runs_negotiation:
  fixes s
  defines "s' \<equiv> run_negotiation s"
  assumes "session_ok (s\<lparr>ps_queue := Negotiate # ps_queue s\<rparr>)"
  shows "session_ok s' \<and> same_peer s s' \<and> agreement_of s' = agreement_of s
    \<and> (phase_of s' = phase_of s \<and> ps_sent s' = ps_sent s
       \<or> (\<exists>x. phase_of s = Idle \<and> phase_of s' = Offering x \<and> ps_sent s' = ps_sent s @ [Offer (Some x)]))
    \<and> rtc_added (ps_pc s') @ ps_pending_candidates s' = rtc_added (ps_pc s) @ ps_pending_candidates s"
  using assms(2) unfolding s'_def
  by (auto simp: run_negotiation_def same_peer_def session_defs Let_def split: option.splits if_splits)

lemma popped:
  assumes "ps_queue s = t # ts"
  defines "s0 \<equiv> s\<lparr>ps_queue := ts\<rparr>"
  shows "s = s0\<lparr>ps_queue := t # ps_queue s0\<rparr>" "run_next s = run_task t s0" "phase_of s = phase_of s0"
    "agreement_of s = agreement_of s0" "inbound s q = signals [t] @ inbound s0 q" "inbound q s = inbound q s0"
    "ps_polite s = ps_polite s0" "rtc_gathered (ps_pc s) = rtc_gathered (ps_pc s0)"
    "rtc_added (ps_pc s) @ ps_pending_candidates s = rtc_added (ps_pc s0) @ ps_pending_candidates s0"
  using assms(1) by (simp_all add: s0_def run_next_def phase_of_def agreement_of_def inbound_def signals_def)

text \<open>One side runs a task; \<open>rest\<close> is what it still has to handle, \<open>out\<close> what it sends.\<close>

lemma after_task:
  assumes "same_peer s s'" "ps_sent s' = ps_sent s @ out"
  shows "inbound s' q = inbound s q" "inbound q s' = inbound q s @ out"
    "ps_polite s' = ps_polite s" "rtc_gathered (ps_pc s') = rtc_gathered (ps_pc s)"
  using assms by (simp_all add: same_peer_def inbound_def)

lemma known_after_task:
  assumes "same_peer s s'" "ps_sent s' = ps_sent s @ out" "concat (map candidate_of out) = []"
    and "rtc_added (ps_pc s') @ ps_pending_candidates s' = rtc_added (ps_pc s) @ ps_pending_candidates s @ cs"
  shows "known_candidates s' q = rtc_added (ps_pc s) @ ps_pending_candidates s @ cs @ concat (map candidate_of (inbound s q))"
    "known_candidates q s' = known_candidates q s"
  using after_task [OF assms(1,2)] assms(3,4) by (auto simp: known_candidates_def)

definition leads :: "peer_session \<Rightarrow> peer_session \<Rightarrow> signal_payload list \<Rightarrow> candidate list \<Rightarrow> bool" where
  "leads s s' out cs = (session_ok s' \<and> same_peer s s' \<and> ps_sent s' = ps_sent s @ out \<and> concat (map candidate_of out) = []
     \<and> rtc_added (ps_pc s') @ ps_pending_candidates s' = rtc_added (ps_pc s) @ ps_pending_candidates s @ cs)"

lemma leads_facts:
  assumes q: "ps_queue s = t # ts" and leads: "leads (s\<lparr>ps_queue := ts\<rparr>) s' out (concat (map candidate_of (signals [t])))"
  shows "session_ok s'" "inbound s' u = inbound (s\<lparr>ps_queue := ts\<rparr>) u" "inbound u s' = inbound u s @ out"
    "ps_polite s' = ps_polite s" "rtc_gathered (ps_pc s') = rtc_gathered (ps_pc s)"
    "known_candidates s' u = known_candidates s u" "known_candidates u s' = known_candidates u s"
proof -
  let ?s0 = "s\<lparr>ps_queue := ts\<rparr>" and ?cs = "concat (map candidate_of (signals [t]))"
  note pop = popped [OF q]
  from leads have l: "session_ok s'" "same_peer ?s0 s'" "ps_sent s' = ps_sent ?s0 @ out" "concat (map candidate_of out) = []"
    "rtc_added (ps_pc s') @ ps_pending_candidates s' = rtc_added (ps_pc ?s0) @ ps_pending_candidates ?s0 @ ?cs"
    by (simp_all add: leads_def)
  note aft = after_task [OF l(2,3)] and kn = known_after_task [OF l(2-5)]
  have "known_candidates s u = (rtc_added (ps_pc s) @ ps_pending_candidates s) @ ?cs @ concat (map candidate_of (inbound ?s0 u))"
    by (simp add: known_candidates_def pop(5))
  then show "known_candidates s' u = known_candidates s u" unfolding kn pop(9) by simp
  show "known_candidates u s' = known_candidates u s" unfolding kn by (simp add: known_candidates_def inbound_def)
  show "session_ok s'" by (rule l(1))
  show "inbound s' u = inbound ?s0 u" by (rule aft)
  show "inbound u s' = inbound u s @ out" unfolding aft by (simp add: inbound_def)
  show "ps_polite s' = ps_polite s" "rtc_gathered (ps_pc s') = rtc_gathered (ps_pc s)" by (simp_all add: aft)
qed

text \<open>A side that runs a task keeps the pair in order when the abstract protocol has the move.\<close>

lemma polite_leads:
  assumes ok: "pair_ok (p, i)" and q: "ps_queue p = t # ts"
    and leads: "leads (p\<lparr>ps_queue := ts\<rparr>) (run_next p) out (concat (map candidate_of (signals [t])))"
    and shape: "shape (phase_of (run_next p)) (agreement_of (run_next p)) (phase_of i) (agreement_of i)
      (filter is_description (inbound i p) @ filter is_description out) (filter is_description (inbound (p\<lparr>ps_queue := ts\<rparr>) i))"
  shows "pair_ok (run_next p, i)"
  using ok shape leads_facts [OF q leads] by (simp add: pair_ok_def)

lemma impolite_leads:
  assumes ok: "pair_ok (p, i)" and q: "ps_queue i = t # ts"
    and leads: "leads (i\<lparr>ps_queue := ts\<rparr>) (run_next i) out (concat (map candidate_of (signals [t])))"
    and shape: "shape (phase_of p) (agreement_of p) (phase_of (run_next i)) (agreement_of (run_next i))
      (filter is_description (inbound (i\<lparr>ps_queue := ts\<rparr>) p)) (filter is_description (inbound p i) @ filter is_description out)"
  shows "pair_ok (p, run_next i)"
  using ok shape leads_facts [OF q leads] by (simp add: pair_ok_def)

text \<open>The moves of a session on its next task, when it is polite or idle, or waits for an answer.\<close>

lemma negotiation_leads:
  assumes "session_ok s" "ps_queue s = Negotiate # ts"
  shows "\<exists>out. leads (s\<lparr>ps_queue := ts\<rparr>) (run_next s) out [] \<and> agreement_of (run_next s) = agreement_of s
    \<and> (phase_of (run_next s) = phase_of s \<and> out = []
      \<or> (\<exists>x. phase_of s = Idle \<and> phase_of (run_next s) = Offering x \<and> out = [Offer (Some x)]))"
proof -
  note pop = popped [OF assms(2)]
  have "session_ok ((s\<lparr>ps_queue := ts\<rparr>)\<lparr>ps_queue := Negotiate # ps_queue (s\<lparr>ps_queue := ts\<rparr>)\<rparr>)" using assms(1) pop(1) by simp
  from runs_negotiation [OF this] show ?thesis unfolding pop(2-4) leads_def by force
qed

lemma offer_leads:
  assumes "session_ok s" "ps_queue s = HandleSignal (Offer (Some x)) # ts" "ps_polite s \<or> phase_of s = Idle"
  shows "\<exists>y. leads (s\<lparr>ps_queue := ts\<rparr>) (run_next s) [Answer (Some y)] []
    \<and> phase_of (run_next s) = Idle \<and> agreement_of (run_next s) = (Some y, Some x)"
proof -
  note pop = popped [OF assms(2)]
  have "session_ok ((s\<lparr>ps_queue := ts\<rparr>)\<lparr>ps_queue := HandleSignal (Offer (Some x)) # ps_queue (s\<lparr>ps_queue := ts\<rparr>)\<rparr>)"
    using assms(1) pop(1) by simp
  moreover have "ps_polite (s\<lparr>ps_queue := ts\<rparr>) \<or> phase_of (s\<lparr>ps_queue := ts\<rparr>) = Idle" using assms(3) pop(3) by simp
  ultimately have "session_ok (run_next s) \<and> same_peer (s\<lparr>ps_queue := ts\<rparr>) (run_next s) \<and> phase_of (run_next s) = Idle
    \<and> (\<exists>y. agreement_of (run_next s) = (Some y, Some x) \<and> ps_sent (run_next s) = ps_sent (s\<lparr>ps_queue := ts\<rparr>) @ [Answer (Some y)])
    \<and> rtc_added (ps_pc (run_next s)) @ ps_pending_candidates (run_next s)
      = rtc_added (ps_pc (s\<lparr>ps_queue := ts\<rparr>)) @ ps_pending_candidates (s\<lparr>ps_queue := ts\<rparr>)"
    unfolding pop(2) run_task.simps handle_signal.simps by (rule accepts_offer)
  then show ?thesis by (auto simp: leads_def)
qed

lemma ignored_offer_leads:
  assumes "session_ok s" "ps_queue s = HandleSignal (Offer (Some x)) # ts" "\<not> ps_polite s" "phase_of s = Offering y"
  shows "leads (s\<lparr>ps_queue := ts\<rparr>) (run_next s) [] [] \<and> phase_of (run_next s) = phase_of s \<and> agreement_of (run_next s) = agreement_of s"
proof -
  note pop = popped [OF assms(2)]
  have "session_ok ((s\<lparr>ps_queue := ts\<rparr>)\<lparr>ps_queue := HandleSignal (Offer (Some x)) # ps_queue (s\<lparr>ps_queue := ts\<rparr>)\<rparr>)"
    using assms(1) pop(1) by simp
  from ignores_offer [OF this, of y x] show ?thesis using assms(3,4) unfolding pop(2-4) leads_def by simp
qed

lemma answer_leads:
  assumes "session_ok s" "ps_queue s = HandleSignal (Answer (Some y)) # ts" "phase_of s = Offering x"
  shows "leads (s\<lparr>ps_queue := ts\<rparr>) (run_next s) [] [] \<and> phase_of (run_next s) = Idle \<and> agreement_of (run_next s) = (Some x, Some y)"
proof -
  note pop = popped [OF assms(2)]
  have "session_ok ((s\<lparr>ps_queue := ts\<rparr>)\<lparr>ps_queue := HandleSignal (Answer (Some y)) # ps_queue (s\<lparr>ps_queue := ts\<rparr>)\<rparr>)"
    using assms(1) pop(1) by simp
  from accepts_answer [OF this, of x y] show ?thesis using assms(3) unfolding pop(2-4) leads_def by simp
qed

lemma other_leads:
  assumes "session_ok s" "ps_queue s = HandleSignal m # ts" "\<not> is_description m"
  shows "leads (s\<lparr>ps_queue := ts\<rparr>) (run_next s) [] (candidate_of m) \<and> phase_of (run_next s) = phase_of s
    \<and> agreement_of (run_next s) = agreement_of s"
proof -
  note pop = popped [OF assms(2)]
  have ok: "session_ok ((s\<lparr>ps_queue := ts\<rparr>)\<lparr>ps_queue := HandleSignal m # ps_queue (s\<lparr>ps_queue := ts\<rparr>)\<rparr>)" using assms(1) pop(1) by simp
  show ?thesis
  proof (cases "\<exists>c. m = Candidate (Some c)")
    case True
    with handles_candidate [OF ok] show ?thesis unfolding pop(2-4) leads_def by auto
  next
    case False
    then have "handle_signal m = (\<lambda>s. s)" "candidate_of m = []" using assms(3) by (cases m rule: candidate_of.cases; simp add: fun_eq_iff)+
    moreover have "session_ok (s\<lparr>ps_queue := ts\<rparr>)" using assms(1,2) by (auto simp: session_ok_def)
    ultimately show ?thesis unfolding pop(2-4) leads_def by (simp add: same_peer_def)
  qed
qed

lemma task_cases:
  obtains "t = Negotiate" | r where "t = HandleSignal (Offer r)" | r where "t = HandleSignal (Answer r)"
    | m where "t = HandleSignal m" "\<not> is_description m"
proof (cases t)
  case (HandleSignal m)
  with that show ?thesis by (cases m) auto
qed (use that in blast)

lemma pair_okD:
  assumes "pair_ok (p, i)"
  shows "session_ok p" "session_ok i" "ps_polite p" "\<not> ps_polite i"
    "shape (phase_of p) (agreement_of p) (phase_of i) (agreement_of i)
       (filter is_description (inbound i p)) (filter is_description (inbound p i))"
  using assms by (simp_all add: pair_ok_def)

lemma polite_run_ok:
  assumes ok: "pair_ok (p, i)" and q: "ps_queue p = t # ts"
  shows "pair_ok (run_next p, i)"
proof -
  note d = pair_okD [OF ok] and sh = pair_okD(5) [OF ok, unfolded popped(5) [OF q, of i]]
  consider "t = Negotiate" | r where "t = HandleSignal (Offer r)" | r where "t = HandleSignal (Answer r)"
    | m where "t = HandleSignal m" "\<not> is_description m" by (rule task_cases)
  then show ?thesis
  proof cases
    case 1
    with negotiation_leads [OF d(1)] q obtain out where "leads (p\<lparr>ps_queue := ts\<rparr>) (run_next p) out []"
      "agreement_of (run_next p) = agreement_of p" and out: "phase_of (run_next p) = phase_of p \<and> out = []
        \<or> (\<exists>x. phase_of p = Idle \<and> phase_of (run_next p) = Offering x \<and> out = [Offer (Some x)])" by blast
    with sh 1 show ?thesis by (intro polite_leads [OF ok q, where out = out]) (auto intro: polite_offers)
  next
    case (2 r)
    with sh have "shape (phase_of p) (agreement_of p) (phase_of i) (agreement_of i) (filter is_description (inbound i p))
        (Offer r # filter is_description (inbound (p\<lparr>ps_queue := ts\<rparr>) i))" by simp
    from polite_takes_offer [OF this] obtain z where z: "r = Some z" and
      sh': "\<And>y. shape Idle (Some y, Some z) (phase_of i) (agreement_of i) (filter is_description (inbound i p) @ [Answer (Some y)])
        (filter is_description (inbound (p\<lparr>ps_queue := ts\<rparr>) i))" by blast
    with offer_leads [OF d(1)] q 2 d(3) obtain y where "leads (p\<lparr>ps_queue := ts\<rparr>) (run_next p) [Answer (Some y)] []"
      "phase_of (run_next p) = Idle" "agreement_of (run_next p) = (Some y, Some z)" by blast
    with sh' [of y] 2 show ?thesis by (intro polite_leads [OF ok q, where out = "[Answer (Some y)]"]) simp_all
  next
    case (3 r)
    with sh have "shape (phase_of p) (agreement_of p) (phase_of i) (agreement_of i) (filter is_description (inbound i p))
        (Answer r # filter is_description (inbound (p\<lparr>ps_queue := ts\<rparr>) i))" by simp
    from polite_takes_answer [OF this] obtain x y where "phase_of p = Offering x" "r = Some y" and
      sh': "shape Idle (Some x, Some y) (phase_of i) (agreement_of i) (filter is_description (inbound i p))
        (filter is_description (inbound (p\<lparr>ps_queue := ts\<rparr>) i))" by blast
    with answer_leads [OF d(1), of y ts x] q 3 sh' show ?thesis by (intro polite_leads [OF ok q, where out = "[]"]) simp_all
  next
    case (4 m)
    with other_leads [OF d(1), of m ts] q sh show ?thesis by (intro polite_leads [OF ok q, where out = "[]"]) simp_all
  qed
qed

lemma impolite_run_ok:
  assumes ok: "pair_ok (p, i)" and q: "ps_queue i = t # ts"
  shows "pair_ok (p, run_next i)"
proof -
  note d = pair_okD [OF ok] and sh = pair_okD(5) [OF ok, unfolded popped(5) [OF q, of p]]
  consider "t = Negotiate" | r where "t = HandleSignal (Offer r)" | r where "t = HandleSignal (Answer r)"
    | m where "t = HandleSignal m" "\<not> is_description m" by (rule task_cases)
  then show ?thesis
  proof cases
    case 1
    with negotiation_leads [OF d(2)] q obtain out where "leads (i\<lparr>ps_queue := ts\<rparr>) (run_next i) out []"
      "agreement_of (run_next i) = agreement_of i" and out: "phase_of (run_next i) = phase_of i \<and> out = []
        \<or> (\<exists>x. phase_of i = Idle \<and> phase_of (run_next i) = Offering x \<and> out = [Offer (Some x)])" by blast
    with sh 1 show ?thesis by (intro impolite_leads [OF ok q, where out = out]) (auto intro: impolite_offers)
  next
    case (2 r)
    with sh have sh1: "shape (phase_of p) (agreement_of p) (phase_of i) (agreement_of i)
        (Offer r # filter is_description (inbound (i\<lparr>ps_queue := ts\<rparr>) p)) (filter is_description (inbound p i))" by simp
    show ?thesis
    proof (cases "phase_of i")
      case Idle
      with sh1 impolite_takes_offer obtain z where z: "r = Some z" and
        sh': "\<And>y. shape (phase_of p) (agreement_of p) Idle (Some y, Some z) (filter is_description (inbound (i\<lparr>ps_queue := ts\<rparr>) p))
          (filter is_description (inbound p i) @ [Answer (Some y)])" by (metis option.inject)
      with offer_leads [OF d(2)] q 2 Idle obtain y where "leads (i\<lparr>ps_queue := ts\<rparr>) (run_next i) [Answer (Some y)] []"
        "phase_of (run_next i) = Idle" "agreement_of (run_next i) = (Some y, Some z)" by blast
      with sh' [of y] 2 show ?thesis by (intro impolite_leads [OF ok q, where out = "[Answer (Some y)]"]) simp_all
    next
      case (Offering x)
      with sh1 have "(\<exists>z. r = Some z) \<and> shape (phase_of p) (agreement_of p) (Offering x) (agreement_of i)
          (filter is_description (inbound (i\<lparr>ps_queue := ts\<rparr>) p)) (filter is_description (inbound p i))"
        by (intro impolite_ignores_offer) simp
      with ignored_offer_leads [OF d(2), of "the r" ts x] q 2 d(4) Offering show ?thesis
        by (intro impolite_leads [OF ok q, where out = "[]"]) auto
    qed
  next
    case (3 r)
    with sh have "shape (phase_of p) (agreement_of p) (phase_of i) (agreement_of i)
        (Answer r # filter is_description (inbound (i\<lparr>ps_queue := ts\<rparr>) p)) (filter is_description (inbound p i))" by simp
    from impolite_takes_answer [OF this] obtain x y where "phase_of i = Offering x" "r = Some y" and
      sh': "shape (phase_of p) (agreement_of p) Idle (Some x, Some y) (filter is_description (inbound (i\<lparr>ps_queue := ts\<rparr>) p))
        (filter is_description (inbound p i))" by blast
    with answer_leads [OF d(2), of y ts x] q 3 sh' show ?thesis by (intro impolite_leads [OF ok q, where out = "[]"]) simp_all
  next
    case (4 m)
    with other_leads [OF d(2), of m ts] q sh show ?thesis by (intro impolite_leads [OF ok q, where out = "[]"]) simp_all
  qed
qed

section \<open>Every pair stays in order\<close>

lemma delivered_ok: "session_ok s \<Longrightarrow> session_ok (enqueue t s)" "session_ok s \<Longrightarrow> session_ok (s\<lparr>ps_sent := ms\<rparr>)"
  by (auto simp: session_ok_def enqueue_def)

lemma delivery_simps:
  assumes "ps_sent s = m # ms"
  shows "inbound (enqueue (HandleSignal m) r) (s\<lparr>ps_sent := ms\<rparr>) = inbound r s"
    "inbound (s\<lparr>ps_sent := ms\<rparr>) u = inbound s u" "inbound u (enqueue t r) = inbound u r"
  using assms by (simp_all add: inbound_def enqueue_def)

lemma enqueue_simps:
  "phase_of (enqueue t s) = phase_of s" "agreement_of (enqueue t s) = agreement_of s" "ps_pc (enqueue t s) = ps_pc s"
  "ps_polite (enqueue t s) = ps_polite s" "ps_pending_candidates (enqueue t s) = ps_pending_candidates s"
  "phase_of (s\<lparr>ps_sent := ms\<rparr>) = phase_of s" "agreement_of (s\<lparr>ps_sent := ms\<rparr>) = agreement_of s"
  by (simp_all add: enqueue_def phase_of_def agreement_of_def)

lemma pair_step_ok: "pair_step s s' \<Longrightarrow> pair_ok s \<Longrightarrow> pair_ok s'"
proof (induction rule: pair_step.induct)
  case (polite_runs p i)
  then show ?case by (cases "ps_queue p") (auto intro: polite_run_ok)
next
  case (impolite_runs i p)
  then show ?case by (cases "ps_queue i") (auto intro: impolite_run_ok)
next
  case (to_impolite p m ms i)
  then show ?case by (simp add: pair_ok_def delivered_ok delivery_simps enqueue_simps known_candidates_def)
next
  case (to_polite i m ms p)
  then show ?case by (simp add: pair_ok_def delivered_ok delivery_simps enqueue_simps known_candidates_def)
qed

lemma negotiate_ok: "session_ok s \<Longrightarrow> session_ok (negotiate s)"
  by (auto simp: negotiate_def session_ok_def trigger_negotiation_def enqueue_def)

lemma event_simps:
  "phase_of (negotiate s) = phase_of s" "agreement_of (negotiate s) = agreement_of s" "ps_pc (negotiate s) = ps_pc s"
  "ps_polite (negotiate s) = ps_polite s" "ps_pending_candidates (negotiate s) = ps_pending_candidates s"
  "inbound (negotiate s) u = inbound s u" "inbound u (negotiate s) = inbound u s"
  "phase_of (on_ice_candidate c s) = phase_of s" "agreement_of (on_ice_candidate c s) = agreement_of s"
  "ps_polite (on_ice_candidate c s) = ps_polite s" "session_ok (on_ice_candidate c s) = session_ok s"
  "ps_pending_candidates (on_ice_candidate c s) = ps_pending_candidates s"
  "inbound (on_ice_candidate c s) u = inbound s u" "inbound u (on_ice_candidate c s) = inbound u s @ [Candidate (Some c)]"
  "rtc_added (ps_pc (on_ice_candidate c s)) = rtc_added (ps_pc s)"
  "rtc_gathered (ps_pc (on_ice_candidate c s)) = rtc_gathered (ps_pc s) @ [c]"
  by (simp_all add: negotiate_def trigger_negotiation_def enqueue_def on_ice_candidate_def send_signal_def phase_of_def
      agreement_of_def inbound_def session_ok_def)

lemma pair_event_ok: "pair_event s s' \<Longrightarrow> pair_ok s \<Longrightarrow> pair_ok s'"
  by (induction rule: pair_event.induct) (auto simp: pair_ok_def negotiate_ok event_simps known_candidates_def)

lemma pair_reachable_ok: "pair_reachable s \<Longrightarrow> pair_ok s"
proof (induction rule: pair_reachable.induct)
  case pair_start
  show ?case by (auto simp: pair_ok_def new_peer_session_def new_rtc_def session_ok_def phase_of_def agreement_of_def
      inbound_def known_candidates_def intro: shape.intros)
qed (auto intro: pair_step_ok pair_event_ok)

section \<open>The negotiation ends\<close>

text \<open>
  What remains to be done, as a bound on the number of steps. An offer of the impolite side can make the
  polite side offer again, but never the other way round.
\<close>

fun signal_work :: "nat \<Rightarrow> signal_payload \<Rightarrow> nat" where
  "signal_work n (Offer _) = n" | "signal_work n (Answer _) = 2" | "signal_work n _ = 1"

fun task_work :: "nat \<Rightarrow> task \<Rightarrow> nat" where
  "task_work n Negotiate = 1" | "task_work n (HandleSignal m) = signal_work n m"

definition session_work :: "nat \<Rightarrow> nat \<Rightarrow> nat \<Rightarrow> peer_session \<Rightarrow> nat" where
  "session_work need offer_in offer_out s =
     (if ps_needs_negotiation s then need else 0) + sum_list (map (task_work offer_in) (ps_queue s))
     + sum_list (map (\<lambda>m. Suc (signal_work offer_out m)) (ps_sent s))"

definition pair_work :: "pair \<Rightarrow> nat" where
  "pair_work = (\<lambda>(p, i). session_work 6 11 5 p + session_work 12 5 11 i)"

named_theorems work_defs
declare session_work_def [work_defs] trigger_negotiation_def [work_defs] enqueue_def [work_defs] send_signal_def [work_defs]
  log_error_def [work_defs] flush_candidates_def [work_defs] renegotiate_def [work_defs] answer_offer_def [work_defs]
  accept_offer_def [work_defs]

lemma offer_work: "session_work n a b (handle_offer x s) \<le> session_work n a b s + (if ps_polite s then n else 0) + 4"
  by (auto simp: handle_offer_def work_defs Let_def split: option.split)

lemma answer_work: "session_work n a b (handle_answer x s) \<le> Suc (session_work n a b s)"
  by (auto simp: handle_answer_def work_defs split: option.split)

lemma negotiation_work: "b < n \<Longrightarrow> session_work n a b (run_negotiation s) \<le> session_work n a b s"
  by (auto simp: run_negotiation_def work_defs Let_def split: option.split)

lemma signal_handled_work:
  assumes "(if ps_polite s then n else 0) + 4 < a"
  shows "session_work n a b (handle_signal m s) < session_work n a b s + signal_work a m"
proof (cases m)
  case (Offer r)
  with assms show ?thesis by (cases r) (auto intro: le_less_trans [OF offer_work])
next
  case (Answer r)
  then show ?thesis by (cases r) (auto simp: less_Suc_eq_le answer_work)
next
  case (Candidate r)
  then show ?thesis by (cases r) (auto simp: handle_candidate_def session_work_def)
qed (use assms in simp_all)

lemma run_next_work:
  assumes "ps_queue s \<noteq> []" "b < n" "(if ps_polite s then n else 0) + 4 < a"
  shows "session_work n a b (run_next s) < session_work n a b s"
proof -
  from assms(1) obtain t ts where q: "ps_queue s = t # ts" by (cases "ps_queue s") auto
  have "session_work n a b s = task_work a t + session_work n a b (s\<lparr>ps_queue := ts\<rparr>)" using q by (simp add: session_work_def)
  moreover have "session_work n a b (run_task t (s\<lparr>ps_queue := ts\<rparr>)) < task_work a t + session_work n a b (s\<lparr>ps_queue := ts\<rparr>)"
    using negotiation_work [OF assms(2), of a "s\<lparr>ps_queue := ts\<rparr>"] signal_handled_work [of "s\<lparr>ps_queue := ts\<rparr>" n a b] assms(3)
    by (cases t) (simp_all add: add.commute)
  ultimately show ?thesis using q by (simp add: run_next_def)
qed

lemma delivery_work:
  assumes "ps_sent s = m # ms"
  shows "session_work n a b (s\<lparr>ps_sent := ms\<rparr>) + session_work n' b b' (enqueue (HandleSignal m) r)
    < session_work n a b s + session_work n' b b' r"
  using assms by (simp add: session_work_def enqueue_def)

lemma pair_step_work: "pair_step s s' \<Longrightarrow> pair_ok s \<Longrightarrow> pair_work s' < pair_work s"
proof (induction rule: pair_step.induct)
  case (to_impolite p m ms i)
  then show ?case using delivery_work [of p m ms 6 11 5 12 11 i] by (simp add: pair_work_def)
next
  case (to_polite i m ms p)
  then show ?case using delivery_work [of i m ms 12 5 11 6 5 p] by (simp add: pair_work_def)
qed (simp_all add: pair_work_def pair_okD run_next_work)

section \<open>Properties\<close>

text \<open>Scenarios: a list of moves, where a move that is not possible changes nothing.\<close>

datatype move = PoliteAsks | ImpoliteAsks | PoliteFinds candidate | ImpoliteFinds candidate
  | PoliteRuns | ImpoliteRuns | ToImpolite | ToPolite

fun pair_move :: "move \<Rightarrow> pair \<Rightarrow> pair" where
  "pair_move PoliteAsks (p, i) = (negotiate p, i)"
| "pair_move ImpoliteAsks (p, i) = (p, negotiate i)"
| "pair_move (PoliteFinds c) (p, i) = (on_ice_candidate c p, i)"
| "pair_move (ImpoliteFinds c) (p, i) = (p, on_ice_candidate c i)"
| "pair_move PoliteRuns (p, i) = (run_next p, i)"
| "pair_move ImpoliteRuns (p, i) = (p, run_next i)"
| "pair_move ToImpolite (p, i) =
     (case ps_sent p of [] \<Rightarrow> (p, i) | m # ms \<Rightarrow> (p\<lparr>ps_sent := ms\<rparr>, enqueue (HandleSignal m) i))"
| "pair_move ToPolite (p, i) =
     (case ps_sent i of [] \<Rightarrow> (p, i) | m # ms \<Rightarrow> (enqueue (HandleSignal m) p, i\<lparr>ps_sent := ms\<rparr>))"

definition scenario :: "move list \<Rightarrow> pair" where
  "scenario ms = fold pair_move ms (new_peer_session True, new_peer_session False)"

lemma move_reachable:
  assumes "pair_reachable s"
  shows "pair_reachable (pair_move m s)"
proof -
  obtain p i where s: "s = (p, i)" by fastforce
  have idle: "ps_queue u = [] \<Longrightarrow> run_next u = u" for u by (simp add: run_next_def)
  have "pair_reachable (run_next p, i)"
    using assms s pair_steps [OF _ polite_runs] by (cases "ps_queue p = []") (auto simp: idle)
  moreover have "pair_reachable (p, run_next i)"
    using assms s pair_steps [OF _ impolite_runs] by (cases "ps_queue i = []") (auto simp: idle)
  ultimately show ?thesis
    using assms unfolding s
    by (cases m) (auto split: list.split intro: pair_event.intros pair_step.intros pair_steps pair_events)
qed

lemma scenario_reachable: "pair_reachable (scenario ms)"
proof -
  have "pair_reachable s \<Longrightarrow> pair_reachable (fold pair_move ms s)" for s
    by (induction ms arbitrary: s) (simp_all add: move_reachable)
  then show ?thesis by (simp add: scenario_def pair_start)
qed

inductive_cases pair_stepE: "pair_step (p, i) s'"

definition settled :: "pair \<Rightarrow> bool" where
  "settled = (\<lambda>(p, i). ps_queue p = [] \<and> ps_queue i = [] \<and> ps_sent p = [] \<and> ps_sent i = [])"

lemma settled_no_step: "settled (p, i) \<Longrightarrow> \<not> (\<exists>s'. pair_step (p, i) s')"
  by (auto simp: settled_def elim: pair_stepE)

text \<open>Both sides make an offer at once; the polite one gives way, answers, and offers again.\<close>

definition collision_scenario :: "move list" where
  "collision_scenario = [PoliteAsks, ImpoliteAsks, PoliteRuns, ImpoliteRuns, ImpoliteFinds ''c'', ToImpolite, ToPolite, ToPolite,
     ImpoliteRuns, PoliteRuns, PoliteRuns, PoliteRuns, ToImpolite, ToImpolite, ImpoliteRuns, ImpoliteRuns, ToPolite, PoliteRuns]"

text \<open>
  No signal is ever handled in a state in which the connection refuses it: whatever the order in which
  two sessions run their tasks, receive signals and are asked to negotiate, no error is logged.
\<close>

lemma negotiation_never_fails:
  assumes "pair_reachable (p, i)"
  shows "ps_errors p = 0 \<and> ps_errors i = 0"
  using pair_reachable_ok [OF assms] by (simp add: pair_ok_def session_ok_def)

theorem negotiation_never_fails_witness:
  "ps_errors (fst (scenario collision_scenario)) = 0 \<and> ps_errors (snd (scenario collision_scenario)) = 0"
  using negotiation_never_fails [of "fst (scenario collision_scenario)" "snd (scenario collision_scenario)"]
    scenario_reachable [of collision_scenario] by simp

text \<open>
  C1. When nothing is left to do, the two sessions agree: both are stable, no request to negotiate is
  forgotten, each has as its remote description the local one of the other, and the candidates added to a
  connection with a remote description are all those that the other side found, in order.
\<close>

theorem settled_pair_agrees:
  assumes "pair_reachable (p, i)" "\<not> (\<exists>s'. pair_step (p, i) s')"
  shows "rtc_signaling (ps_pc p) = Stable \<and> rtc_signaling (ps_pc i) = Stable
    \<and> \<not> ps_needs_negotiation p \<and> \<not> ps_needs_negotiation i
    \<and> rtc_current_remote (ps_pc p) = rtc_current_local (ps_pc i) \<and> rtc_current_remote (ps_pc i) = rtc_current_local (ps_pc p)
    \<and> (rtc_current_remote (ps_pc p) \<noteq> None \<longrightarrow> rtc_added (ps_pc p) = rtc_gathered (ps_pc i))
    \<and> (rtc_current_remote (ps_pc i) \<noteq> None \<longrightarrow> rtc_added (ps_pc i) = rtc_gathered (ps_pc p))"
proof -
  have ok: "pair_ok (p, i)" using assms(1) by (rule pair_reachable_ok)
  have "ps_queue p = []" "ps_queue i = []" using assms(2) by (auto intro: pair_step.intros)
  moreover have "ps_sent p = []" "ps_sent i = []" using assms(2) by (cases "ps_sent p"; cases "ps_sent i"; auto intro: pair_step.intros)+
  ultimately have none: "ps_queue p = []" "ps_queue i = []" "inbound p i = []" "inbound i p = []" by (simp_all add: inbound_def)
  then have "shape (phase_of p) (agreement_of p) (phase_of i) (agreement_of i) [] []" using pair_okD(5) [OF ok] by simp
  then have "phase_of p = Idle" "phase_of i = Idle" "agreement_of p = prod.swap (agreement_of i)" by (auto elim: shapeE)
  then show ?thesis using ok none
    by (auto simp: pair_ok_def session_ok_def phase_of_def agreement_of_def known_candidates_def split: option.splits)
qed

theorem settled_pair_agrees_witness:
  "settled (scenario collision_scenario)
   \<and> rtc_current_remote (ps_pc (fst (scenario collision_scenario))) = Some 1
   \<and> rtc_current_local (ps_pc (snd (scenario collision_scenario))) = Some 1
   \<and> rtc_added (ps_pc (fst (scenario collision_scenario))) = rtc_gathered (ps_pc (snd (scenario collision_scenario)))"
proof -
  obtain p i where s: "scenario collision_scenario = (p, i)" by fastforce
  have "settled (scenario collision_scenario)" "rtc_current_remote (ps_pc (fst (scenario collision_scenario))) = Some 1" by code_simp+
  with s have "settled (p, i)" "rtc_current_remote (ps_pc p) = Some 1" by simp_all
  moreover have "pair_reachable (p, i)" using scenario_reachable [of collision_scenario] s by simp
  ultimately show ?thesis using settled_pair_agrees [of p i] settled_no_step [of p i] s by auto
qed

text \<open>
  C4. A negotiation ends: from a reachable state every run of tasks and deliveries has at most \<open>pair_work\<close>
  steps, and it can always be continued to a state in which nothing is left to do.
\<close>

theorem negotiation_ends:
  assumes "pair_reachable s"
  shows "(\<forall>n s'. (pair_step ^^ n) s s' \<longrightarrow> n \<le> pair_work s)
    \<and> (\<exists>s'. pair_step\<^sup>*\<^sup>* s s' \<and> \<not> (\<exists>t. pair_step s' t))"
proof -
  have "pair_ok s" using assms by (rule pair_reachable_ok)
  have bound: "pair_ok s \<Longrightarrow> (pair_step ^^ n) s s' \<Longrightarrow> n \<le> pair_work s" for n s s'
  proof (induction n arbitrary: s)
    case (Suc n)
    from Suc.prems(2) obtain t where t: "pair_step s t" "(pair_step ^^ n) t s'" by (meson relpowp_Suc_E2)
    from Suc.IH [OF pair_step_ok [OF t(1) Suc.prems(1)] t(2)] pair_step_work [OF t(1) Suc.prems(1)] show ?case by simp
  qed simp
  have "\<exists>s'. pair_step\<^sup>*\<^sup>* s s' \<and> \<not> (\<exists>t. pair_step s' t)" using \<open>pair_ok s\<close>
  proof (induction "pair_work s" arbitrary: s rule: less_induct)
    case less
    show ?case
    proof (cases "\<exists>t. pair_step s t")
      case True
      then obtain t where t: "pair_step s t" ..
      from less.hyps [OF pair_step_work [OF t less.prems] pair_step_ok [OF t less.prems]] t show ?thesis
        by (meson converse_rtranclp_into_rtranclp)
    qed blast
  qed
  with bound [OF \<open>pair_ok s\<close>] show ?thesis by blast
qed

theorem negotiation_ends_witness:
  "\<exists>s'. pair_step\<^sup>*\<^sup>* (scenario [PoliteAsks, ImpoliteAsks, PoliteRuns]) s' \<and> \<not> (\<exists>t. pair_step s' t)"
  using negotiation_ends [OF scenario_reachable] by blast

end
