(* ===== verification/PeerManager.thy ===== *)
theory PeerManager
  imports PeerNegotiation JsText
begin

text \<open>
  The connections of a user to the others on a page (\<open>lib/webrtc/WebRTCManager.ts\<close>), the tracks a session
  publishes (\<open>PeerSession.ts\<close>) and the detector of voices (\<open>VoiceActivityDetector.ts\<close>). A peer is named by
  its user id, which the code keeps as a text (\<open>String(peerId)\<close>, read back with \<open>Number\<close>); guests have
  negative ids. The objects of the browser that the code shares and changes are kept in the state: the
  connections ever made, the tracks of each media stream, and the running timers.
\<close>

section \<open>State\<close>

datatype connection_state = PcNew | PcConnecting | PcConnected | PcDisconnected | PcFailed | PcClosed

datatype direction = SendRecv | SendOnly | RecvOnly | Inactive

record transceiver =
  tr_track :: "string option"
  tr_direction :: direction

record peer_connection =
  co_peer :: int
  co_session :: peer_session
  co_state :: connection_state
  co_transceivers :: "transceiver list"

record media_track =
  mt_id :: string
  mt_audio :: bool
  mt_ended :: bool

record remote_stream =
  rs_peer :: int
  rs_stream :: string
  rs_started :: string

record audio_element =
  au_source :: "string option"
  au_volume :: int
  au_muted :: bool

datatype peer_timer = FailedCheck int nat | PendingClose int

record detector =
  vd_keys :: "string list"
  vd_speaking :: "(string, bool) jsmap"
  vd_context :: bool
  vd_loop :: bool

record manager =
  mg_user :: "int option"
  mg_sessions :: "(int, nat) jsmap"
  mg_states :: "(int, connection_state) jsmap"
  mg_times :: "(int, connection_state \<times> int) jsmap"
  mg_failed :: "(int, nat) jsmap"
  mg_pending :: "(int, nat) jsmap"
  mg_remote :: "remote_stream list"
  mg_audio :: "(string, audio_element) jsmap"
  mg_vad :: detector
  mg_volume :: int
  mg_muted :: bool
  mg_conns :: "peer_connection list"
  mg_media :: "string \<Rightarrow> media_track list"
  mg_timers :: "(nat \<times> peer_timer) list"
  mg_next_timer :: nat
  mg_sent :: "(int \<times> signal_payload) list"
  mg_shown_streams :: "remote_stream list"
  mg_shown_mics :: "string list"
  mg_shown_states :: "(int, connection_state) jsmap"

definition new_manager :: "int option \<Rightarrow> manager" where
  "new_manager user = \<lparr>mg_user = user, mg_sessions = [], mg_states = [], mg_times = [], mg_failed = [], mg_pending = [],
     mg_remote = [], mg_audio = [], mg_vad = \<lparr>vd_keys = [], vd_speaking = [], vd_context = False, vd_loop = False\<rparr>, mg_volume = 1, mg_muted = False, mg_conns = [], mg_media = (\<lambda>_. []),
     mg_timers = [], mg_next_timer = 1, mg_sent = [], mg_shown_streams = [], mg_shown_mics = [], mg_shown_states = []\<rparr>"

section \<open>Published tracks\<close>

text \<open>
  \<open>addTrack\<close>: the browser may reuse a transceiver without a track, at the index that \<open>reuse\<close> names.
\<close>

definition sending :: "direction \<Rightarrow> direction" where
  "sending d = (case d of RecvOnly \<Rightarrow> SendRecv | Inactive \<Rightarrow> SendOnly | _ \<Rightarrow> d)"

definition not_sending :: "direction \<Rightarrow> direction" where
  "not_sending d = (case d of SendRecv \<Rightarrow> RecvOnly | SendOnly \<Rightarrow> Inactive | _ \<Rightarrow> d)"

definition add_track :: "(transceiver list \<Rightarrow> nat option) \<Rightarrow> string \<Rightarrow> transceiver list \<Rightarrow> transceiver list" where
  "add_track reuse t trs =
     (case reuse trs of
        Some j \<Rightarrow> trs[j := (trs ! j)\<lparr>tr_track := Some t, tr_direction := sending (tr_direction (trs ! j))\<rparr>]
      | None \<Rightarrow> trs @ [\<lparr>tr_track = Some t, tr_direction = SendRecv\<rparr>])"

definition publish_track :: "(transceiver list \<Rightarrow> nat option) \<Rightarrow> string \<Rightarrow> transceiver list \<Rightarrow> transceiver list" where
  "publish_track reuse t trs = (if list_ex (\<lambda>r. tr_track r = Some t) trs then trs else add_track reuse t trs)"

definition allow_sending :: "transceiver \<Rightarrow> transceiver" where
  "allow_sending r = (if tr_track r \<noteq> None then r\<lparr>tr_direction := sending (tr_direction r)\<rparr> else r)"

text \<open>The argument is the list of the tracks of the streams, in order.\<close>

definition publish_tracks :: "(transceiver list \<Rightarrow> nat option) \<Rightarrow> string list \<Rightarrow> transceiver list \<Rightarrow> transceiver list" where
  "publish_tracks reuse tracks trs = map allow_sending (fold (publish_track reuse) tracks trs)"

definition unpublish_tracks :: "string list \<Rightarrow> transceiver list \<Rightarrow> transceiver list" where
  "unpublish_tracks tracks trs =
     map (\<lambda>r. case tr_track r of
         Some t \<Rightarrow> if t \<in> set tracks then \<lparr>tr_track = None, tr_direction = not_sending (tr_direction r)\<rparr> else r
       | None \<Rightarrow> r) trs"

section \<open>The detector of voices\<close>

definition media_key :: "int \<Rightarrow> string \<Rightarrow> string \<Rightarrow> string" where
  "media_key peer stream track = dec_int peer @ ''-'' @ stream @ ''-'' @ track"

text \<open>A key of a source is a key of an analyser, so that one list holds both.\<close>

definition track_audio :: "int \<Rightarrow> string \<Rightarrow> string \<Rightarrow> detector \<Rightarrow> detector" where
  "track_audio peer track stream v =
     (let key = media_key peer stream track
      in v\<lparr>vd_keys := (if key \<in> set (vd_keys v) then vd_keys v else vd_keys v @ [key]), vd_context := True, vd_loop := True\<rparr>)"

definition untrack_audio :: "string \<Rightarrow> string \<Rightarrow> string \<Rightarrow> detector \<Rightarrow> detector" where
  "untrack_audio peer track stream v =
     (let key = peer @ ''-'' @ stream @ ''-'' @ track;
          v1 = v\<lparr>vd_keys := filter (\<lambda>k. k \<noteq> key) (vd_keys v), vd_speaking := map_delete key (vd_speaking v)\<rparr>
      in if vd_keys v1 = [] \<and> vd_context v1 then v1\<lparr>vd_context := False, vd_loop := False\<rparr> else v1)"

definition key_parts :: "string \<Rightarrow> string \<times> string" where
  "key_parts key = (case split_at CHR ''-'' key of _ # s # t # _ \<Rightarrow> (s, t) | [_, s] \<Rightarrow> (s, ''undefined'') | _ \<Rightarrow> (''undefined'', ''undefined''))"

definition untrack_peer :: "int \<Rightarrow> detector \<Rightarrow> detector" where
  "untrack_peer peer v =
     fold (\<lambda>key. if take (length (dec_int peer @ ''-'')) key = dec_int peer @ ''-''
         then untrack_audio (dec_int peer) (snd (key_parts key)) (fst (key_parts key)) else (\<lambda>v. v)) (vd_keys v) v"

text \<open>The peer that is said to speak when the analyser of a key is loud.\<close>

definition speaker_of :: "string \<Rightarrow> string" where
  "speaker_of key = hd (split_at CHR ''-'' key)"

text \<open>
  One turn of the loop, where \<open>levels\<close> gives the frequency data of an analyser: the peers said to speak
  (one who starts is named twice) and the new state; the average of no data is not above 10.
\<close>

definition analyse :: "(string \<Rightarrow> nat list) \<Rightarrow> string \<Rightarrow> string list \<times> detector \<Rightarrow> string list \<times> detector" where
  "analyse levels key = (\<lambda>(said, v).
     (let now = 10 * length (levels key) < sum_list (levels key);
          before = (map_get (vd_speaking v) key = Some True)
      in (said @ (if now \<and> \<not> before then [speaker_of key] else []) @ (if now then [speaker_of key] else []),
          v\<lparr>vd_speaking := map_set key now (vd_speaking v)\<rparr>)))"

definition detector_turn :: "(string \<Rightarrow> nat list) \<Rightarrow> detector \<Rightarrow> string list \<times> detector" where
  "detector_turn levels v =
     (if vd_keys v = [] then ([], v\<lparr>vd_loop := False\<rparr>) else fold (analyse levels) (vd_keys v) ([], v))"

section \<open>Small operations\<close>

definition update_conn :: "nat \<Rightarrow> (peer_connection \<Rightarrow> peer_connection) \<Rightarrow> manager \<Rightarrow> manager" where
  "update_conn n f m = m\<lparr>mg_conns := (mg_conns m)[n := f (mg_conns m ! n)]\<rparr>"

definition notify_connection_states :: "manager \<Rightarrow> manager" where
  "notify_connection_states m = m\<lparr>mg_shown_states := mg_states m\<rparr>"

definition audio_key :: "int \<Rightarrow> string \<Rightarrow> string" where
  "audio_key peer track = dec_int peer @ ''-'' @ track"

text \<open>\<open>new Set\<close> of the owners of the audio elements, in order.\<close>

definition mic_users :: "(string, audio_element) jsmap \<Rightarrow> string list" where
  "mic_users audio = fold (\<lambda>k us. if hd (split_at CHR ''-'' k) \<in> set us then us else us @ [hd (split_at CHR ''-'' k)]) (map_keys audio) []"

definition update_mic_users :: "manager \<Rightarrow> manager" where
  "update_mic_users m = m\<lparr>mg_shown_mics := mic_users (mg_audio m)\<rparr>"

definition show_streams :: "manager \<Rightarrow> manager" where
  "show_streams m = m\<lparr>mg_shown_streams := mg_remote m\<rparr>"

definition send_peer :: "int \<Rightarrow> signal_payload \<Rightarrow> manager \<Rightarrow> manager" where
  "send_peer peer p m = m\<lparr>mg_sent := mg_sent m @ [(peer, p)]\<rparr>"

definition clear_timer_id :: "nat \<Rightarrow> manager \<Rightarrow> manager" where
  "clear_timer_id i m = m\<lparr>mg_timers := filter (\<lambda>t. fst t \<noteq> i) (mg_timers m)\<rparr>"

definition clear_failed :: "int \<Rightarrow> manager \<Rightarrow> manager" where
  "clear_failed peer m =
     (case map_get (mg_failed m) peer of
        Some i \<Rightarrow> clear_timer_id i (m\<lparr>mg_failed := map_delete peer (mg_failed m)\<rparr>)
      | None \<Rightarrow> m)"

definition clear_pending :: "int \<Rightarrow> manager \<Rightarrow> manager" where
  "clear_pending peer m =
     (case map_get (mg_pending m) peer of
        Some i \<Rightarrow> clear_timer_id i (m\<lparr>mg_pending := map_delete peer (mg_pending m)\<rparr>)
      | None \<Rightarrow> m)"

definition start_timer :: "peer_timer \<Rightarrow> manager \<Rightarrow> nat \<times> manager" where
  "start_timer t m = (mg_next_timer m, m\<lparr>mg_timers := mg_timers m @ [(mg_next_timer m, t)], mg_next_timer := Suc (mg_next_timer m)\<rparr>)"

text \<open>The audio elements of the tracks that a stream still has.\<close>

definition audio_keys_of :: "manager \<Rightarrow> int \<Rightarrow> string \<Rightarrow> string list" where
  "audio_keys_of m peer stream = map (\<lambda>t. audio_key peer (mt_id t)) (filter mt_audio (mg_media m stream))"

definition drop_audio :: "string list \<Rightarrow> manager \<Rightarrow> manager" where
  "drop_audio keys m = m\<lparr>mg_audio := fold map_delete keys (mg_audio m)\<rparr>"

section \<open>Connections\<close>

definition close_peer :: "int \<Rightarrow> bool \<Rightarrow> manager \<Rightarrow> manager" where
  "close_peer peer notify m =
     (let m1 = (case map_get (mg_sessions m) peer of
            Some n \<Rightarrow> notify_connection_states ((update_conn n (\<lambda>c. c\<lparr>co_session := close_session (co_session c), co_state := PcClosed\<rparr>) m)
              \<lparr>mg_sessions := map_delete peer (mg_sessions m), mg_states := map_delete peer (mg_states m),
               mg_times := map_delete peer (mg_times m)\<rparr>)
          | None \<Rightarrow> m);
          m2 = clear_pending peer (clear_failed peer m1);
          m3 = m2\<lparr>mg_vad := untrack_peer peer (mg_vad m2)\<rparr>;
          gone = filter (\<lambda>s. rs_peer s = peer) (mg_remote m3);
          m4 = drop_audio (concat (map (\<lambda>s. audio_keys_of m3 peer (rs_stream s)) gone)) m3;
          m5 = (if gone \<noteq> [] then update_mic_users (show_streams (m4\<lparr>mg_remote := filter (\<lambda>s. rs_peer s \<noteq> peer) (mg_remote m4)\<rparr>)) else m4)
      in if notify then send_peer peer Leave m5 else m5)"

text \<open>\<open>Number(this.myUserId) < peerId\<close>, where the number of \<open>null\<close> is 0.\<close>

definition polite_towards :: "int option \<Rightarrow> int \<Rightarrow> bool" where
  "polite_towards user peer = ((case user of Some u \<Rightarrow> u | None \<Rightarrow> 0) < peer)"

text \<open>Publishing is awaited before the negotiation is asked for; nothing else runs in between.\<close>

definition publish_and_negotiate :: "(transceiver list \<Rightarrow> nat option) \<Rightarrow> string list \<Rightarrow> peer_connection \<Rightarrow> peer_connection" where
  "publish_and_negotiate reuse tracks c =
     c\<lparr>co_transceivers := publish_tracks reuse tracks (co_transceivers c), co_session := negotiate (co_session c)\<rparr>"

definition unpublish_and_negotiate :: "string list \<Rightarrow> peer_connection \<Rightarrow> peer_connection" where
  "unpublish_and_negotiate tracks c =
     c\<lparr>co_transceivers := unpublish_tracks tracks (co_transceivers c), co_session := negotiate (co_session c)\<rparr>"

text \<open>
  Local streams are a list of streams or \<open>null\<close>; a stream is the list of its tracks. The index of the new
  or known connection is returned.
\<close>

definition ensure_connection ::
  "(transceiver list \<Rightarrow> nat option) \<Rightarrow> int \<Rightarrow> int \<Rightarrow> bool \<Rightarrow> string list option list \<Rightarrow> manager \<Rightarrow> nat \<times> manager" where
  "ensure_connection reuse now peer broadcast_hello local_streams m =
     (case map_get (mg_sessions m) peer of
        Some n \<Rightarrow> (n, m)
      | None \<Rightarrow>
          let n = length (mg_conns m);
              c = \<lparr>co_peer = peer, co_session = new_peer_session (polite_towards (mg_user m) peer), co_state = PcNew, co_transceivers = []\<rparr>;
              m1 = m\<lparr>mg_conns := mg_conns m @ [c], mg_sessions := map_set peer n (mg_sessions m),
                mg_states := map_set peer PcNew (mg_states m)\<rparr>;
              m2 = (if broadcast_hello then send_peer peer Hello m1 else m1);
              m3 = notify_connection_states (m2\<lparr>mg_times := map_set peer (PcNew, now) (mg_times m2)\<rparr>);
              m4 = (if list_ex (\<lambda>s. s \<noteq> None) local_streams
                then update_conn n (publish_and_negotiate reuse (concat (map the (filter (\<lambda>s. s \<noteq> None) local_streams)))) m3 else m3)
          in (n, m4))"

definition receive_signal ::
  "(transceiver list \<Rightarrow> nat option) \<Rightarrow> int \<Rightarrow> int \<Rightarrow> signal_payload \<Rightarrow> string list option list \<Rightarrow> manager \<Rightarrow> manager" where
  "receive_signal reuse now peer p local_streams m =
     (if p = Leave then close_peer peer False m
      else
        let (n, m1) = ensure_connection reuse now peer False local_streams m
        in if p = Hello then update_conn n (\<lambda>c. c\<lparr>co_session := negotiate (co_session c)\<rparr>) m1
           else update_conn n (\<lambda>c. c\<lparr>co_session := enqueue (HandleSignal p) (co_session c)\<rparr>) m1)"

definition connection_state_changes :: "int \<Rightarrow> nat \<Rightarrow> connection_state \<Rightarrow> manager \<Rightarrow> manager" where
  "connection_state_changes now n state m =
     (let peer = co_peer (mg_conns m ! n);
          m1 = update_conn n (\<lambda>c. c\<lparr>co_state := state\<rparr>) m;
          m2 = notify_connection_states (m1\<lparr>mg_states := map_set peer state (mg_states m1), mg_times := map_set peer (state, now) (mg_times m1)\<rparr>)
      in if state = PcFailed then
           (case start_timer (FailedCheck peer n) m2 of (i, m3) \<Rightarrow> m3\<lparr>mg_failed := map_set peer i (mg_failed m3)\<rparr>)
         else if state = PcConnected then clear_failed peer m2
         else if state = PcClosed then close_peer peer False m2
         else m2)"

definition peer_timer_fires :: "nat \<times> peer_timer \<Rightarrow> manager \<Rightarrow> manager" where
  "peer_timer_fires t m0 =
     (let m = clear_timer_id (fst t) m0 in
      case snd t of
        FailedCheck peer n \<Rightarrow> if co_state (mg_conns m ! n) = PcFailed then close_peer peer False m else m
      | PendingClose peer \<Rightarrow>
          let m1 = close_peer peer False m in m1\<lparr>mg_pending := map_delete peer (mg_pending m1)\<rparr>)"

section \<open>Keeping the connections to those present\<close>

definition needs_heal :: "int \<Rightarrow> manager \<Rightarrow> int \<Rightarrow> bool" where
  "needs_heal now m peer =
     (case map_get (mg_sessions m) peer of
        None \<Rightarrow> False
      | Some n \<Rightarrow>
          (case co_state (mg_conns m ! n) of
             PcFailed \<Rightarrow> True
           | PcClosed \<Rightarrow> True
           | PcConnecting \<Rightarrow> (case map_get (mg_times m) peer of Some (_, t) \<Rightarrow> now - t > 5000 | None \<Rightarrow> False)
           | PcNew \<Rightarrow> (case map_get (mg_times m) peer of Some (_, t) \<Rightarrow> now - t > 2000 | None \<Rightarrow> False)
           | _ \<Rightarrow> False))"

definition sync_peer ::
  "(transceiver list \<Rightarrow> nat option) \<Rightarrow> int \<Rightarrow> int list \<Rightarrow> string list option list \<Rightarrow> int \<Rightarrow> manager \<Rightarrow> manager" where
  "sync_peer reuse now valid_peers local_streams peer m =
     (if peer \<notin> set valid_peers then
        (if map_has (mg_pending m) peer then m
         else (case start_timer (PendingClose peer) m of (i, m1) \<Rightarrow> m1\<lparr>mg_pending := map_set peer i (mg_pending m1)\<rparr>))
      else
        let m1 = clear_pending peer m
        in if needs_heal now m1 peer then snd (ensure_connection reuse now peer True local_streams (close_peer peer False m1))
           else m1)"

text \<open>
  The loop runs over the live keys of \<open>peerSessions\<close>: a peer that is closed and connected again comes once
  more, at the end. \<open>None\<close> when the fuel is used up.
\<close>

fun sync_loop ::
  "nat \<Rightarrow> (transceiver list \<Rightarrow> nat option) \<Rightarrow> int \<Rightarrow> int list \<Rightarrow> string list option list \<Rightarrow> int list \<Rightarrow> manager \<Rightarrow> manager option" where
  "sync_loop fuel reuse now valid_peers local_streams [] m = Some m"
| "sync_loop 0 reuse now valid_peers local_streams (peer # peers) m = None"
| "sync_loop (Suc fuel) reuse now valid_peers local_streams (peer # peers) m =
     sync_loop fuel reuse now valid_peers local_streams
       (if peer \<in> set valid_peers \<and> needs_heal now m peer then peers @ [peer] else peers)
       (sync_peer reuse now valid_peers local_streams peer m)"

definition sync_active_peers ::
  "(transceiver list \<Rightarrow> nat option) \<Rightarrow> int \<Rightarrow> int list \<Rightarrow> string list option list \<Rightarrow> manager \<Rightarrow> manager option" where
  "sync_active_peers reuse now valid_peers local_streams m =
     sync_loop (2 * length (mg_sessions m)) reuse now valid_peers local_streams (map_keys (mg_sessions m)) m"

section \<open>Tracks of the others\<close>

definition has_video :: "manager \<Rightarrow> string \<Rightarrow> bool" where
  "has_video m stream = list_ex (\<lambda>t. \<not> mt_audio t) (mg_media m stream)"

definition set_audio_state :: "int \<Rightarrow> bool \<Rightarrow> manager \<Rightarrow> manager" where
  "set_audio_state volume muted m =
     m\<lparr>mg_volume := volume, mg_muted := muted,
       mg_audio := map (\<lambda>(k, a). (k, case au_source a of
           Some stream \<Rightarrow> a\<lparr>au_volume := volume, au_muted := has_video m stream \<or> muted\<rparr>
         | None \<Rightarrow> a\<lparr>au_volume := volume\<rparr>)) (mg_audio m)\<rparr>"

definition tracks_of_peer :: "int \<Rightarrow> manager \<Rightarrow> nat" where
  "tracks_of_peer peer m =
     sum_list (map (\<lambda>s. length (mg_media m (rs_stream s))) (filter (\<lambda>s. rs_peer s = peer) (mg_remote m)))"

definition listen_to :: "int \<Rightarrow> string \<Rightarrow> media_track \<Rightarrow> manager \<Rightarrow> manager" where
  "listen_to peer stream track m0 =
     (let m = m0\<lparr>mg_vad := track_audio peer (mt_id track) stream (mg_vad m0)\<rparr>;
          key = audio_key peer (mt_id track);
          m1 = (if map_has (mg_audio m) key then m
            else update_mic_users (m\<lparr>mg_audio := map_set key \<lparr>au_source = None, au_volume = mg_volume m, au_muted = False\<rparr> (mg_audio m)\<rparr>))
      in case map_get (mg_audio m1) key of
           Some a \<Rightarrow> m1\<lparr>mg_audio := map_set key (a\<lparr>au_source := Some stream, au_muted := has_video m1 stream \<or> mg_muted m1\<rparr>) (mg_audio m1)\<rparr>
         | None \<Rightarrow> m1)"

text \<open>The event has its streams and its track; a fourth track of a peer is turned away.\<close>

definition handle_track :: "string \<Rightarrow> int \<Rightarrow> string list \<Rightarrow> media_track \<Rightarrow> manager \<Rightarrow> manager" where
  "handle_track now_iso peer event_streams track m =
     (case event_streams of
        [] \<Rightarrow> m
      | stream # _ \<Rightarrow>
          if 3 \<le> tracks_of_peer peer m then
            m\<lparr>mg_media := (mg_media m)(stream := filter (\<lambda>t. mt_id t \<noteq> mt_id track) (mg_media m stream))\<rparr>
          else
            let m1 = (if list_ex (\<lambda>s. rs_stream s = stream \<and> rs_peer s = peer) (mg_remote m) then m
                  else show_streams (m\<lparr>mg_remote := mg_remote m @ [\<lparr>rs_peer = peer, rs_stream = stream, rs_started = now_iso\<rparr>]\<rparr>))
            in if mt_audio track then listen_to peer stream track m1 else m1)"

definition cleanup_ended_stream :: "int \<Rightarrow> string \<Rightarrow> manager \<Rightarrow> manager" where
  "cleanup_ended_stream peer stream m =
     (if list_all mt_ended (mg_media m stream) then
        update_mic_users (drop_audio (audio_keys_of m peer stream)
          (show_streams (m\<lparr>mg_remote := filter (\<lambda>s. rs_stream s \<noteq> stream) (mg_remote m)\<rparr>)))
      else show_streams m)"

text \<open>The browser takes a track out of a stream, or ends it, and the listeners run.\<close>

definition track_removed :: "int \<Rightarrow> string \<Rightarrow> string \<Rightarrow> manager \<Rightarrow> manager" where
  "track_removed peer stream track_id m =
     cleanup_ended_stream peer stream
       (m\<lparr>mg_media := (mg_media m)(stream := filter (\<lambda>t. mt_id t \<noteq> track_id) (mg_media m stream))\<rparr>)"

definition track_ended :: "int \<Rightarrow> string \<Rightarrow> string \<Rightarrow> manager \<Rightarrow> manager" where
  "track_ended peer stream track_id m =
     (let m1 = m\<lparr>mg_media := (mg_media m)(stream := map (\<lambda>t. if mt_id t = track_id then t\<lparr>mt_ended := True\<rparr> else t) (mg_media m stream)),
            mg_vad := untrack_audio (dec_int peer) track_id stream (mg_vad m)\<rparr>
      in cleanup_ended_stream peer stream m1)"

section \<open>All connections\<close>

definition on_all :: "(peer_connection \<Rightarrow> peer_connection) \<Rightarrow> manager \<Rightarrow> manager" where
  "on_all f m = fold (\<lambda>e. update_conn (snd e) f) (mg_sessions m) m"

definition broadcast_tracks :: "(transceiver list \<Rightarrow> nat option) \<Rightarrow> string list option list \<Rightarrow> manager \<Rightarrow> manager" where
  "broadcast_tracks reuse local_streams =
     on_all (publish_and_negotiate reuse (concat (map the (filter (\<lambda>s. s \<noteq> None) local_streams))))"

definition remove_tracks :: "string list option list \<Rightarrow> manager \<Rightarrow> manager" where
  "remove_tracks local_streams = on_all (unpublish_and_negotiate (concat (map the (filter (\<lambda>s. s \<noteq> None) local_streams))))"

definition close_all :: "manager \<Rightarrow> manager" where
  "close_all m =
     (fold (\<lambda>peer. close_peer peer False) (map_keys (mg_sessions m)) m)\<lparr>mg_remote := [], mg_shown_streams := [], mg_shown_mics := []\<rparr>"

section \<open>What can happen\<close>

text \<open>Events reach the handlers of a connection only until it is closed.\<close>

definition open_conn :: "manager \<Rightarrow> nat \<Rightarrow> bool" where
  "open_conn m n = (n < length (mg_conns m) \<and> co_state (mg_conns m ! n) \<noteq> PcClosed)"

inductive manager_step :: "manager \<Rightarrow> manager \<Rightarrow> bool" where
    closes: "manager_step m (close_peer peer notify m)"
  | ensures: "manager_step m (snd (ensure_connection reuse now peer hello streams m))"
  | receives: "manager_step m (receive_signal reuse now peer p streams m)"
  | changes: "open_conn m n \<Longrightarrow> manager_step m (connection_state_changes now n state m)"
  | fires: "t \<in> set (mg_timers m) \<Longrightarrow> manager_step m (peer_timer_fires t m)"
  | syncs: "sync_active_peers reuse now peers streams m = Some m' \<Longrightarrow> manager_step m m'"
  | tracks: "open_conn m n \<Longrightarrow> manager_step m (handle_track stamp (co_peer (mg_conns m ! n)) event_streams track m)"
  | removes: "manager_step m (track_removed peer stream track_id m)"
  | ends: "manager_step m (track_ended peer stream track_id m)"
  | broadcasts: "manager_step m (broadcast_tracks reuse streams m)"
  | withdraws: "manager_step m (remove_tracks streams m)"
  | sets_audio: "manager_step m (set_audio_state volume muted m)"
  | closes_all: "manager_step m (close_all m)"

inductive manager_reachable :: "manager \<Rightarrow> bool" where
    manager_start: "manager_reachable (new_manager user)"
  | manager_next: "manager_reachable m \<Longrightarrow> manager_step m m' \<Longrightarrow> manager_reachable m'"
  | media_added: "manager_reachable m \<Longrightarrow> manager_reachable (m\<lparr>mg_media := media\<rparr>)"

section \<open>The invariant\<close>

text \<open>
  The sessions are exactly the open connections, at most one for each peer; states, timestamps, timers and
  remote streams are only kept for peers that have a session.
\<close>

definition manager_ok :: "manager \<Rightarrow> bool" where
  "manager_ok m =
     (distinct (map_keys (mg_sessions m))
      \<and> (\<forall>k n. map_get (mg_sessions m) k = Some n \<longleftrightarrow> open_conn m n \<and> co_peer (mg_conns m ! n) = k)
      \<and> (\<forall>k. map_get (mg_states m) k = map_option (\<lambda>n. co_state (mg_conns m ! n)) (map_get (mg_sessions m) k))
      \<and> (\<forall>k. map_get (mg_times m) k = None \<longleftrightarrow> map_get (mg_sessions m) k = None)
      \<and> (\<forall>k. map_get (mg_pending m) k \<noteq> None \<longrightarrow> map_get (mg_sessions m) k \<noteq> None)
      \<and> (\<forall>k. map_get (mg_failed m) k \<noteq> None \<longrightarrow> map_get (mg_sessions m) k \<noteq> None)
      \<and> (\<forall>s \<in> set (mg_remote m). map_get (mg_sessions m) (rs_peer s) \<noteq> None))"

text \<open>What the invariant is about.\<close>

definition core :: "manager \<Rightarrow> (int, nat) jsmap \<times> (int, connection_state) jsmap \<times> (int, connection_state \<times> int) jsmap
    \<times> (int, nat) jsmap \<times> (int, nat) jsmap \<times> remote_stream list \<times> (int \<times> connection_state) list" where
  "core m = (mg_sessions m, mg_states m, mg_times m, mg_failed m, mg_pending m, mg_remote m,
     map (\<lambda>c. (co_peer c, co_state c)) (mg_conns m))"

lemma core_conns:
  assumes "core m' = core m"
  shows "length (mg_conns m') = length (mg_conns m)"
    "n < length (mg_conns m) \<Longrightarrow> co_peer (mg_conns m' ! n) = co_peer (mg_conns m ! n)"
    "n < length (mg_conns m) \<Longrightarrow> co_state (mg_conns m' ! n) = co_state (mg_conns m ! n)"
proof -
  from assms have eq: "map (\<lambda>c. (co_peer c, co_state c)) (mg_conns m') = map (\<lambda>c. (co_peer c, co_state c)) (mg_conns m)"
    by (simp add: core_def)
  then show len: "length (mg_conns m') = length (mg_conns m)" by (rule map_eq_imp_length_eq)
  show "n < length (mg_conns m) \<Longrightarrow> co_peer (mg_conns m' ! n) = co_peer (mg_conns m ! n)"
    "n < length (mg_conns m) \<Longrightarrow> co_state (mg_conns m' ! n) = co_state (mg_conns m ! n)"
    using arg_cong [OF eq, of "\<lambda>xs. xs ! n"] len by simp_all
qed

lemma manager_ok_core:
  assumes "core m' = core m" "manager_ok m"
  shows "manager_ok m'"
proof -
  note c = core_conns [OF assms(1)]
  have "mg_sessions m' = mg_sessions m" "mg_states m' = mg_states m" "mg_times m' = mg_times m" "mg_failed m' = mg_failed m"
    "mg_pending m' = mg_pending m" "mg_remote m' = mg_remote m" using assms(1) by (simp_all add: core_def)
  moreover have op: "open_conn m' n = open_conn m n" for n using c by (auto simp: open_conn_def)
  moreover have "open_conn m n \<Longrightarrow> co_peer (mg_conns m' ! n) = co_peer (mg_conns m ! n) \<and> co_state (mg_conns m' ! n) = co_state (mg_conns m ! n)" for n
    using c by (simp add: open_conn_def)
  ultimately show ?thesis using assms(2) unfolding manager_ok_def
    by (auto intro!: option.map_cong0 simp: option.map_comp) 
qed

lemma manager_okD:
  assumes "manager_ok m"
  shows "map_get (mg_sessions m) k = Some n \<longleftrightarrow> open_conn m n \<and> co_peer (mg_conns m ! n) = k"
    "map_get (mg_states m) k = map_option (\<lambda>n. co_state (mg_conns m ! n)) (map_get (mg_sessions m) k)"
    "map_get (mg_times m) k = None \<longleftrightarrow> map_get (mg_sessions m) k = None"
    "map_get (mg_sessions m) k = None \<Longrightarrow> map_get (mg_pending m) k = None"
    "map_get (mg_sessions m) k = None \<Longrightarrow> map_get (mg_failed m) k = None"
    "s \<in> set (mg_remote m) \<Longrightarrow> map_get (mg_sessions m) (rs_peer s) \<noteq> None"
    "distinct (map_keys (mg_sessions m))"
  using assms by (auto simp: manager_ok_def)

named_theorems manager_ops
declare update_conn_def [manager_ops] notify_connection_states_def [manager_ops] update_mic_users_def [manager_ops]
  show_streams_def [manager_ops] send_peer_def [manager_ops] clear_timer_id_def [manager_ops] start_timer_def [manager_ops]
  drop_audio_def [manager_ops]

lemma clear_simps [simp]:
  "mg_sessions (clear_failed k m) = mg_sessions m" "mg_sessions (clear_pending k m) = mg_sessions m"
  "mg_states (clear_failed k m) = mg_states m" "mg_states (clear_pending k m) = mg_states m"
  "mg_times (clear_failed k m) = mg_times m" "mg_times (clear_pending k m) = mg_times m"
  "mg_remote (clear_failed k m) = mg_remote m" "mg_remote (clear_pending k m) = mg_remote m"
  "mg_conns (clear_failed k m) = mg_conns m" "mg_conns (clear_pending k m) = mg_conns m"
  "mg_pending (clear_failed k m) = mg_pending m" "mg_failed (clear_pending k m) = mg_failed m"
  "map_get (mg_failed (clear_failed k m)) j = (if j = k then None else map_get (mg_failed m) j)"
  "map_get (mg_pending (clear_pending k m)) j = (if j = k then None else map_get (mg_pending m) j)"
  by (auto simp: clear_failed_def clear_pending_def clear_timer_id_def split: option.split)

lemma close_peer_simps:
  "mg_sessions (close_peer k b m) = (if map_get (mg_sessions m) k = None then mg_sessions m else map_delete k (mg_sessions m))"
  "mg_states (close_peer k b m) = (if map_get (mg_sessions m) k = None then mg_states m else map_delete k (mg_states m))"
  "mg_times (close_peer k b m) = (if map_get (mg_sessions m) k = None then mg_times m else map_delete k (mg_times m))"
  "map_get (mg_failed (close_peer k b m)) j = (if j = k then None else map_get (mg_failed m) j)"
  "map_get (mg_pending (close_peer k b m)) j = (if j = k then None else map_get (mg_pending m) j)"
  "mg_remote (close_peer k b m) = filter (\<lambda>s. rs_peer s \<noteq> k) (mg_remote m)"
  "mg_conns (close_peer k b m) = (case map_get (mg_sessions m) k of None \<Rightarrow> mg_conns m
     | Some n \<Rightarrow> (mg_conns m)[n := (mg_conns m ! n)\<lparr>co_session := close_session (co_session (mg_conns m ! n)), co_state := PcClosed\<rparr>])"
  by (auto simp: close_peer_def manager_ops Let_def filter_empty_conv filter_id_conv split: option.split)

lemma map_get_deleted: "map_get (if map_get m k = None then m else map_delete k m) j = (if j = k then None else map_get m j)"
  by auto

lemma close_peer_conn:
  assumes "manager_ok m"
  shows "open_conn (close_peer k b m) n \<longleftrightarrow> open_conn m n \<and> co_peer (mg_conns m ! n) \<noteq> k"
    "open_conn (close_peer k b m) n \<Longrightarrow> mg_conns (close_peer k b m) ! n = mg_conns m ! n"
    "map_get (mg_sessions (close_peer k b m)) j = (if j = k then None else map_get (mg_sessions m) j)"
proof -
  have "(open_conn (close_peer k b m) n \<longleftrightarrow> open_conn m n \<and> co_peer (mg_conns m ! n) \<noteq> k)
    \<and> (open_conn (close_peer k b m) n \<longrightarrow> mg_conns (close_peer k b m) ! n = mg_conns m ! n)"
  proof (cases "map_get (mg_sessions m) k")
    case None
    with manager_okD(1) [OF assms, of k n] show ?thesis by (auto simp: open_conn_def close_peer_simps)
  next
    case (Some i)
    with manager_okD(1) [OF assms, of k n] manager_okD(1) [OF assms, of k i] show ?thesis
      by (cases "n = i") (auto simp: open_conn_def close_peer_simps)
  qed
  then show "open_conn (close_peer k b m) n \<longleftrightarrow> open_conn m n \<and> co_peer (mg_conns m ! n) \<noteq> k"
    "open_conn (close_peer k b m) n \<Longrightarrow> mg_conns (close_peer k b m) ! n = mg_conns m ! n" by blast+
  show "map_get (mg_sessions (close_peer k b m)) j = (if j = k then None else map_get (mg_sessions m) j)"
    by (simp add: close_peer_simps)
qed

lemma close_peer_ok:
  assumes "manager_ok m"
  shows "manager_ok (close_peer k b m)"
  unfolding manager_ok_def
proof (intro conjI allI ballI)
  note c = close_peer_conn [OF assms] and ok = manager_okD [OF assms]
  show "distinct (map_keys (mg_sessions (close_peer k b m)))"
    using ok(7) by (simp add: close_peer_simps distinct_map_keys_delete)
  show sess: "map_get (mg_sessions (close_peer k b m)) j = Some n
      \<longleftrightarrow> open_conn (close_peer k b m) n \<and> co_peer (mg_conns (close_peer k b m) ! n) = j" for j n
    using c(1,2) [of k b n] ok(1) [of j n] by (auto simp: c(3))
  show "map_get (mg_states (close_peer k b m)) j
      = map_option (\<lambda>n. co_state (mg_conns (close_peer k b m) ! n)) (map_get (mg_sessions (close_peer k b m)) j)" for j
  proof (cases "map_get (mg_sessions (close_peer k b m)) j")
    case (Some n)
    with sess have "mg_conns (close_peer k b m) ! n = mg_conns m ! n" using c(2) by blast
    then show ?thesis using Some ok(2) [of j] by (auto simp: c(3) close_peer_simps split: if_splits)
  qed (use ok(2) [of j] in \<open>auto simp: c(3) close_peer_simps split: if_splits\<close>)
  show "map_get (mg_times (close_peer k b m)) j = None \<longleftrightarrow> map_get (mg_sessions (close_peer k b m)) j = None" for j
    using ok(3) [of j] by (auto simp: close_peer_simps)
qed (use assms in \<open>auto simp: manager_ok_def close_peer_conn(3) [OF assms] close_peer_simps(4-6) split: if_splits\<close>)

lemma ensure_connection_core:
  assumes "map_get (mg_sessions m) k = None"
  shows "core (snd (ensure_connection reuse now k hello streams m)) = (let n = length (mg_conns m) in
    (map_set k n (mg_sessions m), map_set k PcNew (mg_states m), map_set k (PcNew, now) (mg_times m), mg_failed m, mg_pending m,
     mg_remote m, map (\<lambda>c. (co_peer c, co_state c)) (mg_conns m) @ [(k, PcNew)]))"
  using assms by (simp add: ensure_connection_def core_def manager_ops Let_def publish_and_negotiate_def list_update_append)

lemma ensure_connection_ok:
  assumes "manager_ok m"
  shows "manager_ok (snd (ensure_connection reuse now k hello streams m))"
proof (cases "map_get (mg_sessions m) k")
  case None
  let ?n = "length (mg_conns m)"
  define m' where "m' = m\<lparr>mg_sessions := map_set k ?n (mg_sessions m), mg_states := map_set k PcNew (mg_states m),
    mg_times := map_set k (PcNew, now) (mg_times m),
    mg_conns := mg_conns m @ [\<lparr>co_peer = k, co_session = new_peer_session True, co_state = PcNew, co_transceivers = []\<rparr>]\<rparr>"
  have op: "open_conn m' n \<longleftrightarrow> open_conn m n \<or> n = ?n" for n
    by (auto simp: m'_def open_conn_def nth_append)
  have sess: "map_get (mg_sessions m) j = Some n \<Longrightarrow> n < ?n" for j n using manager_okD(1) [OF assms, of j n] by (simp add: open_conn_def)
  have "manager_ok m'"
    unfolding manager_ok_def
  proof (intro conjI allI ballI)
    show "distinct (map_keys (mg_sessions m'))" using manager_okD(7) [OF assms] by (simp add: m'_def distinct_map_keys_set)
    show "map_get (mg_sessions m') j = Some n \<longleftrightarrow> open_conn m' n \<and> co_peer (mg_conns m' ! n) = j" for j n
      using manager_okD(1) [OF assms, of j n] manager_okD(1) [OF assms, of k n] None unfolding op
      by (auto simp: m'_def nth_append open_conn_def)
    show "map_get (mg_states m') j = map_option (\<lambda>n. co_state (mg_conns m' ! n)) (map_get (mg_sessions m') j)" for j
      using manager_okD(2) [OF assms, of j] sess by (cases "map_get (mg_sessions m) j") (auto simp: m'_def nth_append)
  qed (use assms in \<open>auto simp: m'_def manager_ok_def\<close>)
  moreover have "core (snd (ensure_connection reuse now k hello streams m)) = core m'"
    unfolding ensure_connection_core [OF None] by (simp add: core_def m'_def Let_def)
  ultimately show ?thesis by (rule manager_ok_core [rotated])
qed (use assms in \<open>simp add: ensure_connection_def\<close>)

lemma map_same_at: "(map f xs)[n := f (xs ! n)] = map f xs"
  by (metis list_update_beyond list_update_id length_map linorder_not_less nth_map)

lemma core_update:
  assumes "co_peer (f (mg_conns m ! n)) = co_peer (mg_conns m ! n)" "co_state (f (mg_conns m ! n)) = co_state (mg_conns m ! n)"
  shows "core (update_conn n f m) = core m"
  using map_same_at [of "\<lambda>c. (co_peer c, co_state c)" "mg_conns m" n] assms
  by (simp add: core_def update_conn_def map_update)

lemma same_core_ops [simp]:
  "core (m\<lparr>mg_media := media\<rparr>) = core m" "core (m\<lparr>mg_vad := v\<rparr>) = core m" "core (m\<lparr>mg_audio := a\<rparr>) = core m"
  "core (update_mic_users m) = core m" "core (show_streams m) = core m" "core (drop_audio ks m) = core m"
  "core (clear_timer_id i m) = core m" "core (set_audio_state vol muted m) = core m"
  "core (notify_connection_states m) = core m"
  by (simp_all add: core_def manager_ops set_audio_state_def) 

lemma manager_ok_timers:
  assumes "manager_ok m" "core m' = core (m\<lparr>mg_failed := fs, mg_pending := ps, mg_remote := rs\<rparr>)"
    and "\<And>k. map_get fs k \<noteq> None \<Longrightarrow> map_get (mg_sessions m) k \<noteq> None"
    and "\<And>k. map_get ps k \<noteq> None \<Longrightarrow> map_get (mg_sessions m) k \<noteq> None"
    and "\<And>s. s \<in> set rs \<Longrightarrow> map_get (mg_sessions m) (rs_peer s) \<noteq> None"
  shows "manager_ok m'"
  by (rule manager_ok_core [OF assms(2)]) (use assms(1,3-) in \<open>simp add: manager_ok_def open_conn_def\<close>)

lemma manager_ok_keys:
  assumes "manager_ok m"
  shows "map_get (mg_pending m) k = Some i \<Longrightarrow> \<exists>n. map_get (mg_sessions m) k = Some n"
    "map_get (mg_failed m) k = Some i \<Longrightarrow> \<exists>n. map_get (mg_sessions m) k = Some n"
    "s \<in> set (mg_remote m) \<Longrightarrow> \<exists>n. map_get (mg_sessions m) (rs_peer s) = Some n"
  using assms unfolding manager_ok_def not_None_eq by blast+

lemma clear_ok:
  assumes "manager_ok m"
  shows "manager_ok (clear_failed k m)" "manager_ok (clear_pending k m)"
proof -
  note keys = manager_ok_keys [OF assms]
  show "manager_ok (clear_failed k m)"
    by (rule manager_ok_timers [OF assms, where fs = "mg_failed (clear_failed k m)" and ps = "mg_pending m" and rs = "mg_remote m"])
      (auto simp: core_def keys split: if_splits)
  show "manager_ok (clear_pending k m)"
    by (rule manager_ok_timers [OF assms, where fs = "mg_failed m" and ps = "mg_pending (clear_pending k m)" and rs = "mg_remote m"])
      (auto simp: core_def keys split: if_splits)
qed

lemma delete_set: "map_delete k (map_set k v m) = map_delete k m"
  by (induction m) (auto simp: map_delete_def map_set_def)

lemma receive_signal_ok: "manager_ok m \<Longrightarrow> manager_ok (receive_signal reuse now k p streams m)"
  using ensure_connection_ok [of m reuse now k False streams]
  by (auto simp: receive_signal_def close_peer_ok split: prod.split intro!: manager_ok_core [OF core_update])

lemma close_peer_timers:
  "mg_failed (close_peer k b m) = (if map_get (mg_failed m) k = None then mg_failed m else map_delete k (mg_failed m))"
  "mg_pending (close_peer k b m) = (if map_get (mg_pending m) k = None then mg_pending m else map_delete k (mg_pending m))"
  by (auto simp: close_peer_def clear_failed_def clear_pending_def manager_ops Let_def split: option.split)

definition noted :: "int \<Rightarrow> nat \<Rightarrow> connection_state \<Rightarrow> manager \<Rightarrow> manager" where
  "noted now n state m =
     (let peer = co_peer (mg_conns m ! n); m1 = update_conn n (\<lambda>c. c\<lparr>co_state := state\<rparr>) m
      in m1\<lparr>mg_states := map_set peer state (mg_states m1), mg_times := map_set peer (state, now) (mg_times m1)\<rparr>)"

lemma noted_ok:
  assumes "manager_ok m" "open_conn m n" "state \<noteq> PcClosed"
  shows "manager_ok (noted now n state m)"
  unfolding manager_ok_def
proof (intro conjI allI ballI)
  let ?m = "noted now n state m" and ?k = "co_peer (mg_conns m ! n)"
  have n: "n < length (mg_conns m)" using assms(2) by (simp add: open_conn_def)
  have f: "mg_sessions ?m = mg_sessions m" "mg_conns ?m = (mg_conns m)[n := (mg_conns m ! n)\<lparr>co_state := state\<rparr>]"
    "mg_states ?m = map_set ?k state (mg_states m)" "mg_times ?m = map_set ?k (state, now) (mg_times m)"
    by (simp_all add: noted_def update_conn_def Let_def)
  have k: "map_get (mg_sessions m) ?k = Some n" using manager_okD(1) [OF assms(1)] assms(2) by blast
  have op: "open_conn ?m i = open_conn m i" "co_peer (mg_conns ?m ! i) = co_peer (mg_conns m ! i)" for i
    using n assms(2,3) by (auto simp: f open_conn_def nth_list_update)
  show "distinct (map_keys (mg_sessions ?m))" using manager_okD(7) [OF assms(1)] f by simp
  show "map_get (mg_sessions ?m) j = Some i \<longleftrightarrow> open_conn ?m i \<and> co_peer (mg_conns ?m ! i) = j" for j i
    unfolding op f(1) by (rule manager_okD(1) [OF assms(1)])
  show "map_get (mg_states ?m) j = map_option (\<lambda>i. co_state (mg_conns ?m ! i)) (map_get (mg_sessions ?m) j)" for j
  proof (cases "j = ?k")
    case True
    then show ?thesis using k n by (simp add: f)
  next
    case False
    have "map_get (mg_sessions m) j = Some i \<Longrightarrow> i \<noteq> n" for i using manager_okD(1) [OF assms(1), of j i] False by auto
    then show ?thesis using False manager_okD(2) [OF assms(1), of j] by (cases "map_get (mg_sessions m) j") (simp_all add: f)
  qed
  show "map_get (mg_times ?m) j = None \<longleftrightarrow> map_get (mg_sessions ?m) j = None" for j
    using k manager_okD(3) [OF assms(1), of j] by (auto simp: f)
qed (use assms in \<open>auto simp: manager_ok_def noted_def update_conn_def Let_def\<close>)

lemma state_changes_ok:
  assumes "manager_ok m" "open_conn m n"
  shows "manager_ok (connection_state_changes now n state m)"
proof (cases "state = PcClosed")
  case True
  let ?k = "co_peer (mg_conns m ! n)"
  have n: "n < length (mg_conns m)" using assms(2) by (simp add: open_conn_def)
  have k: "map_get (mg_sessions m) ?k = Some n" using manager_okD(1) [OF assms(1)] assms(2) by blast
  have "connection_state_changes now n state m = close_peer ?k False (notify_connection_states (noted now n state m))"
    using True by (simp add: connection_state_changes_def noted_def notify_connection_states_def Let_def)
  moreover have "core (close_peer ?k False (notify_connection_states (noted now n state m))) = core (close_peer ?k False m)"
    using k n by (simp add: core_def close_peer_simps(1-3,6,7) close_peer_timers noted_def notify_connection_states_def
        update_conn_def Let_def map_update delete_set)
  ultimately show ?thesis using close_peer_ok [OF assms(1)] manager_ok_core by metis
next
  case False
  let ?m = "notify_connection_states (noted now n state m)"
  have ok: "manager_ok ?m" using noted_ok [OF assms False] by (rule manager_ok_core [rotated]) simp
  have k: "map_get (mg_sessions ?m) (co_peer (mg_conns m ! n)) = Some n"
    using manager_okD(1) [OF assms(1)] assms(2) by (simp add: noted_def update_conn_def notify_connection_states_def Let_def)
  have eq: "connection_state_changes now n state m = (if state = PcFailed then
        (case start_timer (FailedCheck (co_peer (mg_conns m ! n)) n) ?m of (i, m3) \<Rightarrow> m3\<lparr>mg_failed := map_set (co_peer (mg_conns m ! n)) i (mg_failed m3)\<rparr>)
      else if state = PcConnected then clear_failed (co_peer (mg_conns m ! n)) ?m else ?m)"
    using False by (simp add: connection_state_changes_def noted_def notify_connection_states_def Let_def)
  have "manager_ok (case start_timer (FailedCheck (co_peer (mg_conns m ! n)) n) ?m of (i, m3) \<Rightarrow> m3\<lparr>mg_failed := map_set (co_peer (mg_conns m ! n)) i (mg_failed m3)\<rparr>)"
    by (rule manager_ok_timers [OF ok, where fs = "map_set (co_peer (mg_conns m ! n)) (mg_next_timer ?m) (mg_failed ?m)"
        and ps = "mg_pending ?m" and rs = "mg_remote ?m"])
      (use k ok in \<open>auto simp: core_def start_timer_def dest: manager_okD split: if_splits\<close>)
  with ok clear_ok(1) [OF ok] show ?thesis unfolding eq by (auto simp only: split: if_splits)
qed

section \<open>Synchronising\<close>

lemma core_fields:
  assumes "core m' = (ses, sts, tms, fs, ps, rs, cs)"
  shows "mg_sessions m' = ses" "mg_times m' = tms" "mg_failed m' = fs" "mg_pending m' = ps" "mg_remote m' = rs"
    "length (mg_conns m') = length cs" "n < length cs \<Longrightarrow> co_state (mg_conns m' ! n) = snd (cs ! n)"
  using assms by (auto simp: core_def)

text \<open>A peer that is closed and connected again is as good as new; the others do not notice.\<close>

lemma reconnected:
  fixes reuse now peer streams m
  defines "m' \<equiv> snd (ensure_connection reuse now peer True streams (close_peer peer False m))"
  assumes ok: "manager_ok m" and session: "map_get (mg_sessions m) peer \<noteq> None"
  shows "manager_ok m'" "map_get (mg_sessions m') j = None \<longleftrightarrow> map_get (mg_sessions m) j = None"
    "map_get (mg_pending m') j = (if j = peer then None else map_get (mg_pending m) j)"
    "needs_heal t m' j = (if j = peer then t - now > 2000 else needs_heal t m j)"
proof -
  let ?c = "close_peer peer False m"
  have okc: "manager_ok ?c" by (rule close_peer_ok [OF ok])
  have none: "map_get (mg_sessions ?c) peer = None" using close_peer_conn(3) [OF ok] by simp
  note core = ensure_connection_core [OF none, of reuse now True streams, unfolded Let_def, folded m'_def]
  note f = core_fields [OF core]
  show "manager_ok m'" unfolding m'_def by (rule ensure_connection_ok [OF okc])
  show "map_get (mg_sessions m') j = None \<longleftrightarrow> map_get (mg_sessions m) j = None"
    using session by (auto simp: f(1) close_peer_conn(3) [OF ok])
  show "map_get (mg_pending m') j = (if j = peer then None else map_get (mg_pending m) j)"
    by (simp add: f(4) close_peer_simps(5))
  show "needs_heal t m' j = (if j = peer then t - now > 2000 else needs_heal t m j)"
  proof (cases "j = peer")
    case True
    have "co_state (mg_conns m' ! length (mg_conns ?c)) = PcNew" by (simp add: f(7) nth_append)
    then show ?thesis using True by (simp add: needs_heal_def f(1,2))
  next
    case False
    show ?thesis
    proof (cases "map_get (mg_sessions m) j")
      case None
      then show ?thesis using False by (simp add: needs_heal_def f(1) close_peer_conn(3) [OF ok])
    next
      case (Some n)
      then have c: "map_get (mg_sessions ?c) j = Some n" using False by (simp add: close_peer_conn(3) [OF ok])
      then have op: "open_conn ?c n" using manager_okD(1) [OF okc] by blast
      then have "co_state (mg_conns m' ! n) = co_state (mg_conns ?c ! n)" by (simp add: open_conn_def f(7) nth_append)
      also have "... = co_state (mg_conns m ! n)" using close_peer_conn(2) [OF ok op] by simp
      finally have "co_state (mg_conns m' ! n) = co_state (mg_conns m ! n)" .
      moreover have "map_get (mg_times m') j = map_get (mg_times m) j" using False by (simp add: f(2) close_peer_simps(3))
      moreover have "map_get (mg_sessions m') j = Some n" using False c by (simp add: f(1))
      ultimately show ?thesis using False Some by (simp add: needs_heal_def split: connection_state.split)
    qed
  qed
qed

lemma needs_heal_cong:
  "mg_sessions m' = mg_sessions m \<Longrightarrow> mg_times m' = mg_times m \<Longrightarrow> mg_conns m' = mg_conns m \<Longrightarrow> needs_heal t m' k = needs_heal t m k"
  by (simp only: needs_heal_def)

text \<open>What a synchronisation promises for a peer.\<close>

definition in_sync :: "int \<Rightarrow> int list \<Rightarrow> int \<Rightarrow> manager \<Rightarrow> bool" where
  "in_sync now valid_peers k m =
     (if k \<in> set valid_peers then \<not> needs_heal now m k \<and> map_get (mg_pending m) k = None else map_get (mg_pending m) k \<noteq> None)"

lemma sync_peer_effect:
  fixes reuse now valid_peers streams peer m
  defines "m' \<equiv> sync_peer reuse now valid_peers streams peer m"
  assumes ok: "manager_ok m" and session: "map_get (mg_sessions m) peer \<noteq> None"
  shows "manager_ok m' \<and> (\<forall>j. map_get (mg_sessions m') j = None \<longleftrightarrow> map_get (mg_sessions m) j = None)
    \<and> in_sync now valid_peers peer m'
    \<and> (\<forall>j. j \<noteq> peer \<longrightarrow> map_get (mg_pending m') j = map_get (mg_pending m) j \<and> needs_heal now m' j = needs_heal now m j)"
proof (cases "peer \<in> set valid_peers")
  case True
  let ?c = "clear_pending peer m"
  have okc: "manager_ok ?c" by (rule clear_ok [OF ok])
  have heal: "needs_heal now ?c j = needs_heal now m j" for j by (rule needs_heal_cong) simp_all
  have sess: "map_get (mg_sessions ?c) peer \<noteq> None" using session by simp
  show ?thesis
  proof (cases "needs_heal now m peer")
    case heals: True
    then have "m' = snd (ensure_connection reuse now peer True streams (close_peer peer False ?c))"
      using True heal by (simp add: m'_def sync_peer_def)
    then show ?thesis using reconnected [OF okc sess, where reuse = reuse and now = now and streams = streams] True by (simp add: in_sync_def heal)
  next
    case False
    then have "m' = ?c" using True heal by (simp add: m'_def sync_peer_def)
    then show ?thesis using okc True False by (simp add: in_sync_def heal)
  qed
next
  case False
  show ?thesis
  proof (cases "map_has (mg_pending m) peer")
    case True
    then have "m' = m" using False by (simp add: m'_def sync_peer_def)
    then show ?thesis using ok True False by (simp add: in_sync_def map_has_iff)
  next
    case new: False
    let ?i = "mg_next_timer m"
    have m': "m' = (snd (start_timer (PendingClose peer) m))\<lparr>mg_pending := map_set peer ?i (mg_pending m)\<rparr>"
      using False new by (simp add: m'_def sync_peer_def start_timer_def)
    have "manager_ok m'"
      by (rule manager_ok_timers [OF ok, where fs = "mg_failed m" and ps = "map_set peer ?i (mg_pending m)" and rs = "mg_remote m"])
        (use session in \<open>auto simp: m' start_timer_def core_def manager_ok_keys [OF ok] split: if_splits\<close>)
    moreover have "needs_heal now m' j = needs_heal now m j" for j by (rule needs_heal_cong) (simp_all add: m' start_timer_def)
    ultimately show ?thesis using False by (simp add: in_sync_def m' start_timer_def)
  qed
qed

lemma sync_loop_effect:
  assumes "manager_ok m" "\<forall>k \<in> set ks. map_get (mg_sessions m) k \<noteq> None"
    and "length ks + length (filter (\<lambda>k. k \<in> set valid_peers \<and> needs_heal now m k) ks) \<le> fuel"
  shows "\<exists>m'. sync_loop fuel reuse now valid_peers streams ks m = Some m' \<and> manager_ok m'
    \<and> (\<forall>j. map_get (mg_sessions m') j = None \<longleftrightarrow> map_get (mg_sessions m) j = None)
    \<and> (\<forall>k. k \<in> set ks \<or> in_sync now valid_peers k m \<longrightarrow> in_sync now valid_peers k m')"
  using assms
proof (induction fuel arbitrary: ks m)
  case 0
  then show ?case by auto
next
  case (Suc fuel)
  show ?case
  proof (cases ks)
    case (Cons peer peers)
    let ?m = "sync_peer reuse now valid_peers streams peer m"
    let ?heals = "peer \<in> set valid_peers \<and> needs_heal now m peer"
    let ?ks = "if ?heals then peers @ [peer] else peers"
    have eff: "manager_ok ?m" "map_get (mg_sessions ?m) j = None \<longleftrightarrow> map_get (mg_sessions m) j = None"
      "in_sync now valid_peers peer ?m"
      "j \<noteq> peer \<Longrightarrow> map_get (mg_pending ?m) j = map_get (mg_pending m) j"
      "j \<noteq> peer \<Longrightarrow> needs_heal now ?m j = needs_heal now m j" for j
      using sync_peer_effect [where m = m and peer = peer and reuse = reuse and now = now and valid_peers = valid_peers and streams = streams] Suc.prems(1,2) Cons by auto
    have kept: "in_sync now valid_peers k m \<Longrightarrow> in_sync now valid_peers k ?m" for k
      using eff(3) eff(4,5) [of k] by (cases "k = peer") (auto simp: in_sync_def)
    have "length (filter (\<lambda>k. k \<in> set valid_peers \<and> needs_heal now ?m k) peers)
        \<le> length (filter (\<lambda>k. k \<in> set valid_peers \<and> needs_heal now m k) peers)"
    proof (induction peers)
      case (Cons k ks)
      then show ?case using eff(3) eff(5) [of k] by (cases "k = peer") (auto simp: in_sync_def)
    qed simp
    moreover have "\<not> (peer \<in> set valid_peers \<and> needs_heal now ?m peer)" using eff(3) by (auto simp: in_sync_def)
    ultimately have fuel: "length ?ks + length (filter (\<lambda>k. k \<in> set valid_peers \<and> needs_heal now ?m k) ?ks) \<le> fuel"
      using Suc.prems(3) Cons by auto
    have sessions: "\<forall>k \<in> set ?ks. map_get (mg_sessions ?m) k \<noteq> None" using Suc.prems(2) Cons by (auto simp: eff(2))
    from Suc.IH [OF eff(1) sessions fuel] obtain m' where
      m': "sync_loop fuel reuse now valid_peers streams ?ks ?m = Some m'" "manager_ok m'"
        "\<forall>j. map_get (mg_sessions m') j = None \<longleftrightarrow> map_get (mg_sessions ?m) j = None"
        "\<forall>k. k \<in> set ?ks \<or> in_sync now valid_peers k ?m \<longrightarrow> in_sync now valid_peers k m'" by blast
    show ?thesis
    proof (intro exI conjI allI impI)
      show "sync_loop (Suc fuel) reuse now valid_peers streams ks m = Some m'" using m'(1) Cons by simp
      show "map_get (mg_sessions m') j = None \<longleftrightarrow> map_get (mg_sessions m) j = None" for j using m'(3) eff(2) by simp
      show "in_sync now valid_peers k m'" if "k \<in> set ks \<or> in_sync now valid_peers k m" for k
        using that m'(4) eff(3) kept Cons by (cases "k = peer") auto
    qed (rule m'(2))
  qed (use Suc.prems in simp)
qed

section \<open>Every reachable manager is in order\<close>

lemma listen_core: "core (listen_to peer stream track m) = core m"
  by (simp add: listen_to_def Let_def core_def update_mic_users_def split: option.split)

lemma remote_ok:
  assumes "manager_ok m" "core m' = core (m\<lparr>mg_remote := rs\<rparr>)"
    and "\<And>s. s \<in> set rs \<Longrightarrow> \<exists>n. map_get (mg_sessions m) (rs_peer s) = Some n"
  shows "manager_ok m'"
  by (rule manager_ok_timers [OF assms(1), where fs = "mg_failed m" and ps = "mg_pending m" and rs = rs])
    (use assms(2,3) manager_ok_keys [OF assms(1)] in \<open>auto simp: core_def\<close>)

lemma handle_track_ok:
  assumes "manager_ok m" "open_conn m n"
  shows "manager_ok (handle_track stamp (co_peer (mg_conns m ! n)) event_streams track m)"
proof -
  let ?k = "co_peer (mg_conns m ! n)"
  have k: "map_get (mg_sessions m) ?k = Some n" using manager_okD(1) [OF assms(1)] assms(2) by blast
  have shown: "manager_ok (show_streams (m\<lparr>mg_remote := mg_remote m @ [\<lparr>rs_peer = ?k, rs_stream = stream, rs_started = stamp\<rparr>]\<rparr>))" for stream
    by (rule remote_ok [OF assms(1), where rs = "mg_remote m @ [\<lparr>rs_peer = ?k, rs_stream = stream, rs_started = stamp\<rparr>]"])
      (use k manager_ok_keys(3) [OF assms(1)] in auto)
  have listened: "manager_ok u \<Longrightarrow> manager_ok (listen_to ?k stream track u)" for u stream
    by (rule manager_ok_core [OF listen_core])
  have media: "manager_ok (m\<lparr>mg_media := media\<rparr>)" for media using assms(1) by (rule manager_ok_core [rotated]) simp
  show ?thesis using shown listened media assms(1) by (auto simp: handle_track_def Let_def split: list.split)
qed

lemma cleanup_ok:
  assumes "manager_ok m"
  shows "manager_ok (cleanup_ended_stream peer stream m)"
proof (cases "list_all mt_ended (mg_media m stream)")
  case True
  then show ?thesis
    by (intro remote_ok [OF assms, where rs = "filter (\<lambda>s. rs_stream s \<noteq> stream) (mg_remote m)"])
      (auto simp: cleanup_ended_stream_def manager_ok_keys [OF assms])
next
  case False
  then show ?thesis using assms by (auto simp: cleanup_ended_stream_def intro: manager_ok_core)
qed

lemma on_all_core:
  assumes "\<And>c. co_peer (f c) = co_peer c" "\<And>c. co_state (f c) = co_state c"
  shows "core (on_all f m) = core m"
proof -
  have "core (fold (\<lambda>e. update_conn (snd e) f) es m) = core m" for es :: "(int \<times> nat) list"
    by (induction es arbitrary: m) (simp_all add: core_update assms)
  then show ?thesis by (simp add: on_all_def)
qed

lemma peer_timer_ok: "manager_ok m \<Longrightarrow> manager_ok (peer_timer_fires t m)"
proof -
  assume ok: "manager_ok m"
  have c: "manager_ok (clear_timer_id i m)" for i using ok by (rule manager_ok_core [rotated]) simp
  have p: "manager_ok u \<Longrightarrow> manager_ok (u\<lparr>mg_pending := map_delete k (mg_pending u)\<rparr>)" for u k
    by (rule manager_ok_timers [where fs = "mg_failed u" and ps = "map_delete k (mg_pending u)" and rs = "mg_remote u"])
      (auto simp: core_def dest: manager_ok_keys split: if_splits)
  show ?thesis using c close_peer_ok p by (simp add: peer_timer_fires_def Let_def split: peer_timer.split)
qed

lemma sync_ok: "manager_ok m \<Longrightarrow> \<exists>m'. sync_active_peers reuse now valid_peers streams m = Some m' \<and> manager_ok m'
    \<and> (\<forall>j. map_get (mg_sessions m') j = None \<longleftrightarrow> map_get (mg_sessions m) j = None)
    \<and> (\<forall>k. map_get (mg_sessions m) k \<noteq> None \<longrightarrow> in_sync now valid_peers k m')"
  using sync_loop_effect [of m "map_keys (mg_sessions m)" valid_peers now "2 * length (mg_sessions m)" reuse streams]
    length_filter_le [of "\<lambda>k. k \<in> set valid_peers \<and> needs_heal now m k" "map_keys (mg_sessions m)"]
  by (auto simp: sync_active_peers_def set_map_keys) (auto simp: map_keys_def)

lemma close_all_ok: "manager_ok m \<Longrightarrow> manager_ok (close_all m)"
proof -
  have closed: "manager_ok m \<Longrightarrow> manager_ok (fold (\<lambda>peer. close_peer peer False) ks m)" for ks m
    by (induction ks arbitrary: m) (simp_all add: close_peer_ok)
  show "manager_ok m \<Longrightarrow> ?thesis"
    by (rule remote_ok [OF closed, where rs = "[]"]) (simp_all add: close_all_def core_def)
qed

lemma manager_step_ok: "manager_step m m' \<Longrightarrow> manager_ok m \<Longrightarrow> manager_ok m'"
proof (induction rule: manager_step.induct)
  case (syncs reuse now peers streams m m')
  then show ?case using sync_ok [of m reuse now peers streams] by auto
next
  case (removes m peer stream track_id)
  then show ?case unfolding track_removed_def by (intro cleanup_ok manager_ok_core [OF same_core_ops(1)])
next
  case (ends m peer stream track_id)
  have "manager_ok (m\<lparr>mg_media := media, mg_vad := v\<rparr>)" for media v using ends by (rule manager_ok_core [rotated]) (simp add: core_def)
  then show ?case unfolding track_ended_def Let_def by (rule cleanup_ok)
next
  case (broadcasts m reuse streams)
  then show ?case unfolding broadcast_tracks_def by (rule manager_ok_core [rotated]) (simp add: on_all_core publish_and_negotiate_def)
next
  case (withdraws m streams)
  then show ?case unfolding remove_tracks_def by (rule manager_ok_core [rotated]) (simp add: on_all_core unpublish_and_negotiate_def)
next
  case (sets_audio m volume muted)
  then show ?case by (rule manager_ok_core [rotated]) simp
qed (simp_all add: close_peer_ok ensure_connection_ok receive_signal_ok state_changes_ok peer_timer_ok handle_track_ok close_all_ok)

lemma manager_reachable_ok: "manager_reachable m \<Longrightarrow> manager_ok m"
proof (induction rule: manager_reachable.induct)
  case (manager_start user)
  show ?case by (simp add: manager_ok_def new_manager_def open_conn_def map_keys_def)
next
  case (media_added m media)
  then show ?case using manager_ok_core [OF same_core_ops(1)] by blast
qed (rule manager_step_ok)

section \<open>Properties\<close>

text \<open>
  C9. There is never a second connection to the same user, and none is lost: in every reachable state the
  open connections are exactly those registered under their peer, at most one for each, and remote streams
  are only shown for peers that have one.
\<close>

theorem one_connection_per_peer:
  assumes "manager_reachable m"
  shows "(\<forall>k n. map_get (mg_sessions m) k = Some n \<longleftrightarrow> open_conn m n \<and> co_peer (mg_conns m ! n) = k)
    \<and> (\<forall>a b. open_conn m a \<longrightarrow> open_conn m b \<longrightarrow> co_peer (mg_conns m ! a) = co_peer (mg_conns m ! b) \<longrightarrow> a = b)
    \<and> (\<forall>s \<in> set (mg_remote m). \<exists>n. open_conn m n \<and> co_peer (mg_conns m ! n) = rs_peer s)"
proof -
  note ok = manager_reachable_ok [OF assms]
  have "a = b" if "open_conn m a" "open_conn m b" "co_peer (mg_conns m ! a) = co_peer (mg_conns m ! b)" for a b
    using that manager_okD(1) [OF ok, of "co_peer (mg_conns m ! a)" a] manager_okD(1) [OF ok, of "co_peer (mg_conns m ! b)" b] by simp
  moreover have "\<exists>n. open_conn m n \<and> co_peer (mg_conns m ! n) = rs_peer s" if "s \<in> set (mg_remote m)" for s
    using manager_ok_keys(3) [OF ok that] manager_okD(1) [OF ok] by blast
  ultimately show ?thesis using manager_okD(1) [OF ok] by blast
qed

theorem one_connection_per_peer_witness:
  "\<not> (open_conn (receive_signal (\<lambda>_. None) 0 7 Hello [] (new_manager (Some 1))) 0
     \<and> open_conn (receive_signal (\<lambda>_. None) 0 7 Hello [] (new_manager (Some 1))) 1
     \<and> co_peer (mg_conns (receive_signal (\<lambda>_. None) 0 7 Hello [] (new_manager (Some 1))) ! 0)
        = co_peer (mg_conns (receive_signal (\<lambda>_. None) 0 7 Hello [] (new_manager (Some 1))) ! 1))"
  using one_connection_per_peer [OF manager_next [OF manager_start receives [of _ "\<lambda>_. None" 0 7 Hello "[]"]], of "Some 1"] by fastforce

text \<open>
  Synchronising with the users present ends, although it changes the map it runs over, and brings every
  session in order: a session of a user who is present is not failed, stuck or about to be closed, and one
  of a user who has gone is about to be closed; no session appears or disappears.
\<close>

lemma sync_ends_in_order:
  assumes "manager_reachable m"
  shows "\<exists>m'. sync_active_peers reuse now valid_peers streams m = Some m'
    \<and> (\<forall>k. map_get (mg_sessions m') k = None \<longleftrightarrow> map_get (mg_sessions m) k = None)
    \<and> (\<forall>k. map_get (mg_sessions m) k \<noteq> None \<longrightarrow>
         (if k \<in> set valid_peers then \<not> needs_heal now m' k \<and> map_get (mg_pending m') k = None
          else map_get (mg_pending m') k \<noteq> None))"
  using sync_ok [OF manager_reachable_ok [OF assms], of reuse now valid_peers streams] unfolding in_sync_def by blast

theorem sync_ends_in_order_witness:
  "\<exists>m'. sync_active_peers (\<lambda>_. None) 9000 [7] [] (receive_signal (\<lambda>_. None) 0 7 Hello [] (new_manager (Some 1))) = Some m'
    \<and> \<not> needs_heal 9000 m' 7"
proof -
  let ?m = "receive_signal (\<lambda>_. None) 0 7 Hello [] (new_manager (Some 1))"
  have "manager_reachable ?m" by (rule manager_next [OF manager_start receives])
  moreover have "map_get (mg_sessions ?m) 7 \<noteq> None" by code_simp
  ultimately show ?thesis using sync_ends_in_order [of ?m "\<lambda>_. None" 9000 "[7]" "[]"] by fastforce
qed

text \<open>
  C25. Two users who connect to each other take the two roles of the negotiation, whatever streams they start
  with: the sessions that their managers create for each other form a reachable pair of a polite and an
  impolite session, so that everything shown of such pairs holds for them.
\<close>

theorem managers_form_pair:
  assumes "mg_user ma = Some a" "mg_user mb = Some b" "a < b"
    and "map_get (mg_sessions ma) b = None" "map_get (mg_sessions mb) a = None"
  shows "(let (n, ma') = ensure_connection reuse now b hello streams ma;
      (k, mb') = ensure_connection reuse' now' a hello' streams' mb
    in pair_reachable (co_session (mg_conns ma' ! n), co_session (mg_conns mb' ! k)))"
proof -
  have session: "co_session (mg_conns (snd (ensure_connection reuse now peer hello streams m)) ! fst (ensure_connection reuse now peer hello streams m))
      = (let s = new_peer_session (polite_towards (mg_user m) peer) in if list_ex (\<lambda>s. s \<noteq> None) streams then negotiate s else s)"
    if "map_get (mg_sessions m) peer = None" for m peer reuse now hello streams
    using that by (simp add: ensure_connection_def manager_ops publish_and_negotiate_def Let_def)
  have "pair_reachable (if p then negotiate (new_peer_session True) else new_peer_session True,
      if i then negotiate (new_peer_session False) else new_peer_session False)" for p i
  proof -
    note p_asks = pair_events [OF pair_start polite_negotiates]
    show ?thesis using pair_start p_asks pair_events [OF pair_start impolite_negotiates] pair_events [OF p_asks impolite_negotiates]
      by (cases p; cases i) simp_all
  qed
  from this [of "list_ex (\<lambda>s. s \<noteq> None) streams" "list_ex (\<lambda>s. s \<noteq> None) streams'"]
  have "pair_reachable (co_session (mg_conns (snd (ensure_connection reuse now b hello streams ma)) ! fst (ensure_connection reuse now b hello streams ma)),
      co_session (mg_conns (snd (ensure_connection reuse' now' a hello' streams' mb)) ! fst (ensure_connection reuse' now' a hello' streams' mb)))"
    using assms(1-3) by (simp only: session [OF assms(4)] session [OF assms(5)]) (simp add: polite_towards_def Let_def)
  then show ?thesis by (simp add: case_prod_unfold)
qed

theorem managers_form_pair_witness:
  "pair_reachable (co_session (mg_conns (snd (ensure_connection (\<lambda>_. None) 0 2 True [Some [''mic'']] (new_manager (Some 1)))) ! 0),
     co_session (mg_conns (snd (ensure_connection (\<lambda>_. None) 5 1 False [] (new_manager (Some 2)))) ! 0))"
  using managers_form_pair [of "new_manager (Some 1)" 1 "new_manager (Some 2)" 2 "\<lambda>_. None" 0 True "[Some [''mic'']]" "\<lambda>_. None" 5 False "[]"]
  by (simp add: new_manager_def ensure_connection_def Let_def)

text \<open>The tracks that a list of transceivers sends.\<close>

definition sent_tracks :: "transceiver list \<Rightarrow> string list" where
  "sent_tracks trs = concat (map (\<lambda>r. case tr_track r of Some t \<Rightarrow> [t] | None \<Rightarrow> []) trs)"

definition reuse_ok :: "(transceiver list \<Rightarrow> nat option) \<Rightarrow> bool" where
  "reuse_ok reuse = (\<forall>trs j. reuse trs = Some j \<longrightarrow> j < length trs \<and> tr_track (trs ! j) = None)"

lemma sent_append [simp]: "sent_tracks (xs @ ys) = sent_tracks xs @ sent_tracks ys" "sent_tracks [] = []"
  "sent_tracks (r # rs) = (case tr_track r of Some t \<Rightarrow> [t] | None \<Rightarrow> []) @ sent_tracks rs"
  by (simp_all add: sent_tracks_def)

lemma sent_iff: "t \<in> set (sent_tracks trs) \<longleftrightarrow> list_ex (\<lambda>r. tr_track r = Some t) trs"
  by (induction trs) (auto split: option.split)

lemma add_track_sent:
  assumes "reuse_ok reuse"
  shows "mset (sent_tracks (add_track reuse t trs)) = add_mset t (mset (sent_tracks trs))"
proof (cases "reuse trs")
  case (Some j)
  then have j: "j < length trs" "tr_track (trs ! j) = None" using assms by (auto simp: reuse_ok_def)
  let ?r = "(trs ! j)\<lparr>tr_track := Some t, tr_direction := sending (tr_direction (trs ! j))\<rparr>"
  have "sent_tracks (trs[j := ?r]) = sent_tracks (take j trs) @ t # sent_tracks (drop (Suc j) trs)"
    using j by (simp add: upd_conv_take_nth_drop)
  moreover have "sent_tracks trs = sent_tracks (take j trs) @ sent_tracks (drop (Suc j) trs)"
    using j by (subst id_take_nth_drop [OF j(1)]) simp
  ultimately show ?thesis using Some by (simp add: add_track_def)
qed (simp add: add_track_def)

lemma publish_fold:
  assumes "reuse_ok reuse" "distinct (sent_tracks trs)"
  shows "distinct (sent_tracks (fold (publish_track reuse) ts trs))
    \<and> set (sent_tracks (fold (publish_track reuse) ts trs)) = set (sent_tracks trs) \<union> set ts"
  using assms(2)
proof (induction ts arbitrary: trs)
  case (Cons t ts)
  have "distinct (sent_tracks (publish_track reuse t trs)) \<and> set (sent_tracks (publish_track reuse t trs)) = insert t (set (sent_tracks trs))"
  proof (cases "list_ex (\<lambda>r. tr_track r = Some t) trs")
    case True
    then show ?thesis using Cons.prems sent_iff [of t trs] by (auto simp: publish_track_def)
  next
    case False
    then have new: "t \<notin> set (sent_tracks trs)" by (simp add: sent_iff)
    have ms: "mset (sent_tracks (add_track reuse t trs)) = mset (t # sent_tracks trs)" using add_track_sent [OF assms(1)] by simp
    show ?thesis using False new Cons.prems mset_eq_imp_distinct_iff [OF ms] mset_eq_setD [OF ms] by (simp add: publish_track_def)
  qed
  with Cons.IH [of "publish_track reuse t trs"] show ?case by auto
qed simp

lemma sent_map:
  assumes "\<And>r. tr_track (f r) = tr_track r"
  shows "sent_tracks (map f trs) = sent_tracks trs"
  by (induction trs) (simp_all add: assms)

text \<open>
  Publishing sends every track of the local streams, each through one transceiver only and in a
  direction that sends, beside what was sent before; withdrawing them again leaves the other tracks sent.
\<close>

lemma published_tracks_are_sent:
  assumes "reuse_ok reuse" "distinct (sent_tracks trs)"
  shows "distinct (sent_tracks (publish_tracks reuse ts trs))
    \<and> set (sent_tracks (publish_tracks reuse ts trs)) = set (sent_tracks trs) \<union> set ts
    \<and> (\<forall>r \<in> set (publish_tracks reuse ts trs). tr_track r \<noteq> None \<longrightarrow> tr_direction r \<in> {SendRecv, SendOnly})
    \<and> set (sent_tracks (unpublish_tracks ts (publish_tracks reuse ts trs))) = set (sent_tracks trs) - set ts"
proof -
  have allow: "tr_track (allow_sending r) = tr_track r" for r by (simp add: allow_sending_def)
  have sent: "sent_tracks (publish_tracks reuse ts trs) = sent_tracks (fold (publish_track reuse) ts trs)"
    by (simp add: publish_tracks_def sent_map [OF allow])
  have un: "set (sent_tracks (unpublish_tracks ts rs)) = set (sent_tracks rs) - set ts" for rs
    by (induction rs) (auto simp: unpublish_tracks_def split: option.split)
  have "tr_direction r \<in> {SendRecv, SendOnly}" if "r \<in> set (publish_tracks reuse ts trs)" "tr_track r \<noteq> None" for r
    using that by (auto simp: publish_tracks_def allow_sending_def sending_def split: direction.splits if_splits)
  with publish_fold [OF assms, of ts] un sent show ?thesis by auto
qed

theorem published_tracks_are_sent_witness:
  "distinct (sent_tracks (publish_tracks (\<lambda>_. None) [''mic'', ''cam'', ''mic''] [\<lparr>tr_track = None, tr_direction = RecvOnly\<rparr>]))
   \<and> set (sent_tracks (publish_tracks (\<lambda>_. None) [''mic'', ''cam'', ''mic''] [\<lparr>tr_track = None, tr_direction = RecvOnly\<rparr>])) = {''mic'', ''cam''}"
proof -
  have "reuse_ok (\<lambda>_. None)" by (simp add: reuse_ok_def)
  from published_tracks_are_sent [OF this, of "[\<lparr>tr_track = None, tr_direction = RecvOnly\<rparr>]" "[''mic'', ''cam'', ''mic'']"]
  show ?thesis by auto
qed

section \<open>Microphones and voices\<close>

text \<open>The owner of an audio element is read back from its key, which works for members only.\<close>

lemma dec_nat_plain: "\<forall>c \<in> set (dec_nat n). c \<noteq> CHR ''-''"
  using dec_nat_digits [of n] by (auto simp: list_all_iff is_digit_def)

lemma member_owner:
  assumes "0 \<le> peer"
  shows "hd (split_at CHR ''-'' (audio_key peer t)) = dec_int peer"
proof -
  have "takeWhile (\<lambda>c. c \<noteq> CHR ''-'') (dec_nat (nat peer) @ CHR ''-'' # t) = dec_nat (nat peer)"
    using dec_nat_plain [of "nat peer"] by (subst takeWhile_append2) auto
  with assms show ?thesis by (simp add: split_at_hd audio_key_def dec_int_def)
qed

lemma guest_owner: "peer < 0 \<Longrightarrow> hd (split_at CHR ''-'' (audio_key peer t)) = []"
  by (simp add: split_at_hd audio_key_def dec_int_def)

lemma mic_users_set: "set (mic_users audio) = (\<lambda>k. hd (split_at CHR ''-'' k)) ` set (map_keys audio)"
proof -
  have "set (fold (\<lambda>k us. if f k \<in> set us then us else us @ [f k]) ks us) = set us \<union> f ` set ks" for f :: "string \<Rightarrow> string" and ks us
    by (induction ks arbitrary: us) auto
  from this [of "\<lambda>k. hd (split_at CHR ''-'' k)" "map_keys audio" "[]"] show ?thesis by (simp add: mic_users_def)
qed

text \<open>A guest with a microphone is listed under the empty name.\<close>

lemma guest_microphone_is_anonymous:
  "peer < 0 \<Longrightarrow> mic_users [(audio_key peer t, a)] = [[]]"
  by (simp add: mic_users_def map_keys_def guest_owner)

text \<open>A stream id with a dash, as browsers make them, hides its analyser from \<open>untrackPeer\<close>.\<close>

lemma dashed_stream_stays_tracked:
  "vd_keys (untrack_peer 5 \<lparr>vd_keys = [media_key 5 ''a-b'' ''t''], vd_speaking = [], vd_context = True, vd_loop = True\<rparr>) = [media_key 5 ''a-b'' ''t'']"
  by code_simp

text \<open>The audio element of a track that is removed from its stream is not found any more.\<close>

lemma removed_track_leaves_microphone:
  "mg_shown_mics (track_removed 5 ''s'' ''t'' (new_manager (Some 1)
     \<lparr>mg_media := (\<lambda>_. [])(''s'' := [\<lparr>mt_id = ''t'', mt_audio = True, mt_ended = True\<rparr>]),
      mg_remote := [\<lparr>rs_peer = 5, rs_stream = ''s'', rs_started = []\<rparr>],
      mg_audio := [(audio_key 5 ''t'', \<lparr>au_source = Some ''s'', au_volume = 1, au_muted = False\<rparr>)]\<rparr>)) = [''5'']"
  by code_simp

end
