(* ===== verification/RtcMedia.thy ===== *)
theory RtcMedia
  imports PeerManager
begin

text \<open>
  The media of the second voice client (\<open>lib/webrtc/v2\<close>): the tracks and streams of the peers
  (\<open>TrackManager.ts\<close>), and what follows them over the event bus (\<open>events.ts\<close>), the audio elements
  (\<open>PlaybackManager.ts\<close>) and the detector of voices (\<open>VoiceActivityManager.ts\<close>). An event is a call of its
  listeners in the order of their registration: playback before the detector. Volumes are integers, so that
  one within 0 and 1 is 0 or 1. The tracks that the browser holds in a stream and the listeners on tracks and
  streams are part of the state.
\<close>

section \<open>State\<close>

text \<open>A listener stands for a peer, its track and the stream: it waits for the end of the track and for a track that leaves the stream.\<close>

record rtc_media =
  rm_tracks :: "(int, (string, media_track) jsmap) jsmap"
  rm_streams :: "(int, (string, string) jsmap) jsmap"
  rm_audio :: "(string, audio_element) jsmap"
  rm_voices :: detector
  rm_volume :: int
  rm_muted :: bool
  rm_held :: "string \<Rightarrow> media_track list"
  rm_listeners :: "(int \<times> media_track \<times> string) list"
  rm_shown_streams :: "(int \<times> string \<times> string) list"
  rm_shown_mics :: "string list"

definition new_rtc_media :: rtc_media where
  "new_rtc_media = \<lparr>rm_tracks = [], rm_streams = [], rm_audio = [],
     rm_voices = \<lparr>vd_keys = [], vd_speaking = [], vd_context = False, vd_loop = False\<rparr>, rm_volume = 1, rm_muted = False,
     rm_held = (\<lambda>_. []), rm_listeners = [], rm_shown_streams = [], rm_shown_mics = []\<rparr>"

definition emit_streams_changed :: "rtc_media \<Rightarrow> rtc_media" where
  "emit_streams_changed r = r\<lparr>rm_shown_streams :=
     concat (map (\<lambda>(peer, streams). map (\<lambda>(stream, started). (peer, stream, started)) streams) (rm_streams r))\<rparr>"

definition emit_mic_users_changed :: "rtc_media \<Rightarrow> rtc_media" where
  "emit_mic_users_changed r = r\<lparr>rm_shown_mics := mic_users (rm_audio r)\<rparr>"

section \<open>Playback\<close>

definition with_video :: "rtc_media \<Rightarrow> string \<Rightarrow> bool" where
  "with_video r stream = list_ex (\<lambda>t. \<not> mt_audio t) (rm_held r stream)"

definition playback_audio_state :: "int \<Rightarrow> bool \<Rightarrow> rtc_media \<Rightarrow> rtc_media" where
  "playback_audio_state volume muted r =
     (let v = max 0 (min 1 volume)
      in r\<lparr>rm_volume := v, rm_muted := muted,
           rm_audio := map (\<lambda>(k, a). (k, case au_source a of
               Some stream \<Rightarrow> a\<lparr>au_volume := v, au_muted := with_video r stream \<or> muted\<rparr>
             | None \<Rightarrow> a\<lparr>au_volume := v\<rparr>)) (rm_audio r)\<rparr>)"

definition handle_audio_track :: "int \<Rightarrow> media_track \<Rightarrow> string \<Rightarrow> rtc_media \<Rightarrow> rtc_media" where
  "handle_audio_track peer track stream r =
     (let key = audio_key peer (mt_id track);
          r1 = (if map_has (rm_audio r) key then r
            else emit_mic_users_changed (r\<lparr>rm_audio := map_set key \<lparr>au_source = None, au_volume = rm_volume r, au_muted = False\<rparr> (rm_audio r)\<rparr>))
      in case map_get (rm_audio r1) key of
           Some a \<Rightarrow> r1\<lparr>rm_audio := map_set key (a\<lparr>au_source := Some stream, au_muted := with_video r1 stream \<or> rm_muted r1\<rparr>) (rm_audio r1)\<rparr>
         | None \<Rightarrow> r1)"

definition cleanup_audio_track :: "int \<Rightarrow> media_track \<Rightarrow> rtc_media \<Rightarrow> rtc_media" where
  "cleanup_audio_track peer track r =
     (let key = audio_key peer (mt_id track)
      in if map_has (rm_audio r) key then emit_mic_users_changed (r\<lparr>rm_audio := map_delete key (rm_audio r)\<rparr>) else r)"

definition key_of_peer :: "int \<Rightarrow> string \<Rightarrow> bool" where
  "key_of_peer peer key = (take (length (dec_int peer @ ''-'')) key = dec_int peer @ ''-'')"

definition playback_remove_peer :: "int \<Rightarrow> rtc_media \<Rightarrow> rtc_media" where
  "playback_remove_peer peer r = emit_mic_users_changed (r\<lparr>rm_audio := filter (\<lambda>e. \<not> key_of_peer peer (fst e)) (rm_audio r)\<rparr>)"

section \<open>The events\<close>

definition emit_track_added :: "int \<Rightarrow> media_track \<Rightarrow> string \<Rightarrow> rtc_media \<Rightarrow> rtc_media" where
  "emit_track_added peer track stream r =
     (if mt_audio track then
        let r1 = handle_audio_track peer track stream r
        in r1\<lparr>rm_voices := track_audio peer (mt_id track) stream (rm_voices r1)\<rparr>
      else r)"

definition emit_track_removed :: "int \<Rightarrow> media_track \<Rightarrow> string \<Rightarrow> rtc_media \<Rightarrow> rtc_media" where
  "emit_track_removed peer track stream r =
     (if mt_audio track then
        let r1 = cleanup_audio_track peer track r
        in r1\<lparr>rm_voices := untrack_audio (dec_int peer) (mt_id track) stream (rm_voices r1)\<rparr>
      else r)"

section \<open>Tracks\<close>

definition entry_of :: "int \<Rightarrow> (int, ('k, 'v) jsmap) jsmap \<Rightarrow> ('k, 'v) jsmap" where
  "entry_of peer m = (case map_get m peer of Some e \<Rightarrow> e | None \<Rightarrow> [])"

text \<open>A fourth track of a peer is taken out of its stream and stopped; by then its stream has been noted.\<close>

definition handle_track_event :: "string \<Rightarrow> int \<Rightarrow> string list \<Rightarrow> media_track \<Rightarrow> rtc_media \<Rightarrow> rtc_media" where
  "handle_track_event now peer event_streams track r =
     (case event_streams of
        [] \<Rightarrow> r
      | stream # _ \<Rightarrow>
          let streams = entry_of peer (rm_streams r);
              streams' = (if map_has streams stream then streams else map_set stream now streams);
              tracks = entry_of peer (rm_tracks r);
              r1 = r\<lparr>rm_streams := map_set peer streams' (rm_streams r), rm_tracks := map_set peer tracks (rm_tracks r)\<rparr>
          in if 3 \<le> length tracks then
               r1\<lparr>rm_held := (rm_held r1)(stream := filter (\<lambda>t. mt_id t \<noteq> mt_id track) (rm_held r1 stream))\<rparr>
             else
               let r2 = r1\<lparr>rm_tracks := map_set peer (map_set (mt_id track) track tracks) (rm_tracks r1)\<rparr>;
                   r3 = emit_streams_changed (emit_track_added peer track stream r2)
               in r3\<lparr>rm_listeners := rm_listeners r3 @ [(peer, track, stream)]\<rparr>)"

definition cleanup_track :: "int \<times> media_track \<times> string \<Rightarrow> rtc_media \<Rightarrow> rtc_media" where
  "cleanup_track = (\<lambda>(peer, track, stream) r.
     let r1 = (case map_get (rm_tracks r) peer of
            None \<Rightarrow> r
          | Some tracks \<Rightarrow>
              let tracks' = map_delete (mt_id track) tracks
              in if tracks' = [] then r\<lparr>rm_tracks := map_delete peer (rm_tracks r), rm_streams := map_delete peer (rm_streams r)\<rparr>
                 else r\<lparr>rm_tracks := map_set peer tracks' (rm_tracks r)\<rparr>);
         r2 = (case map_get (rm_streams r1) peer of
            None \<Rightarrow> r1
          | Some streams \<Rightarrow>
              if list_all mt_ended (rm_held r1 stream) then
                let streams' = map_delete stream streams
                in if streams' = [] then r1\<lparr>rm_streams := map_delete peer (rm_streams r1)\<rparr>
                   else r1\<lparr>rm_streams := map_set peer streams' (rm_streams r1)\<rparr>
              else r1)
     in emit_streams_changed (emit_track_removed peer track stream r2))"

definition track_remove_peer :: "int \<Rightarrow> rtc_media \<Rightarrow> rtc_media" where
  "track_remove_peer peer r = emit_streams_changed (r\<lparr>rm_tracks := map_delete peer (rm_tracks r), rm_streams := map_delete peer (rm_streams r)\<rparr>)"

text \<open>What \<open>closePeer\<close> does to the media: playback, tracks, voices.\<close>

definition media_remove_peer :: "int \<Rightarrow> rtc_media \<Rightarrow> rtc_media" where
  "media_remove_peer peer r =
     (let r1 = track_remove_peer peer (playback_remove_peer peer r)
      in r1\<lparr>rm_voices := untrack_peer peer (rm_voices r1)\<rparr>)"

definition media_dispose :: "rtc_media \<Rightarrow> rtc_media" where
  "media_dispose r = emit_mic_users_changed (emit_streams_changed (r\<lparr>rm_tracks := [], rm_streams := []\<rparr>)\<lparr>rm_audio := []\<rparr>)"

section \<open>The browser\<close>

text \<open>A track ends and its listeners run; a track leaves its stream and the listeners on the stream run.\<close>

definition rtc_track_ends :: "string \<Rightarrow> rtc_media \<Rightarrow> rtc_media" where
  "rtc_track_ends track_id r =
     fold cleanup_track (filter (\<lambda>(_, t, _). mt_id t = track_id) (rm_listeners r))
       (r\<lparr>rm_held := (\<lambda>stream. map (\<lambda>t. if mt_id t = track_id then t\<lparr>mt_ended := True\<rparr> else t) (rm_held r stream))\<rparr>)"

definition rtc_track_leaves :: "string \<Rightarrow> string \<Rightarrow> rtc_media \<Rightarrow> rtc_media" where
  "rtc_track_leaves stream track_id r =
     fold cleanup_track (filter (\<lambda>(_, _, s). s = stream) (rm_listeners r))
       (r\<lparr>rm_held := (rm_held r)(stream := filter (\<lambda>t. mt_id t \<noteq> track_id) (rm_held r stream))\<rparr>)"

text \<open>A track joins its stream: the elements that play it are muted when it has a video track.\<close>

definition update_mute :: "int \<times> media_track \<times> string \<Rightarrow> rtc_media \<Rightarrow> rtc_media" where
  "update_mute = (\<lambda>(peer, track, stream) r.
     case map_get (rm_audio r) (audio_key peer (mt_id track)) of
       Some a \<Rightarrow> r\<lparr>rm_audio := map_set (audio_key peer (mt_id track)) (a\<lparr>au_muted := with_video r stream \<or> rm_muted r\<rparr>) (rm_audio r)\<rparr>
     | None \<Rightarrow> r)"

definition rtc_track_joins :: "string \<Rightarrow> media_track \<Rightarrow> rtc_media \<Rightarrow> rtc_media" where
  "rtc_track_joins stream track r =
     fold update_mute (filter (\<lambda>(_, t, s). mt_audio t \<and> s = stream) (rm_listeners r))
       (r\<lparr>rm_held := (rm_held r)(stream := rm_held r stream @ [track])\<rparr>)"

text \<open>\<open>kind\<close> says whether the track of an identifier is audio.\<close>

inductive media_step :: "(string \<Rightarrow> bool) \<Rightarrow> rtc_media \<Rightarrow> rtc_media \<Rightarrow> bool" for kind :: "string \<Rightarrow> bool" where
    media_track_event: "mt_audio track = kind (mt_id track) \<Longrightarrow> media_step kind r (handle_track_event now peer event_streams track r)"
  | media_held: "media_step kind r (r\<lparr>rm_held := held\<rparr>)"
  | media_ends: "media_step kind r (rtc_track_ends track_id r)"
  | media_leaves: "media_step kind r (rtc_track_leaves stream track_id r)"
  | media_joins: "media_step kind r (rtc_track_joins stream track r)"
  | media_peer: "media_step kind r (media_remove_peer peer r)"
  | media_audio: "media_step kind r (playback_audio_state volume muted r)"
  | media_disposed: "media_step kind r (media_dispose r)"

section \<open>Keys\<close>

lemma digits_prefix: "dec_nat m @ CHR ''-'' # r = dec_nat n @ CHR ''-'' # r' \<Longrightarrow> m = n"
proof -
  assume e: "dec_nat m @ CHR ''-'' # r = dec_nat n @ CHR ''-'' # r'"
  have "takeWhile (\<lambda>c. c \<noteq> CHR ''-'') (dec_nat k @ CHR ''-'' # s) = dec_nat k" for k s
    using dec_nat_plain [of k] by (simp add: takeWhile_append2)
  with e have "dec_nat m = dec_nat n" by metis
  then show "m = n" by simp
qed

lemma number_prefix:
  assumes "dec_int p @ CHR ''-'' # r = dec_int q @ CHR ''-'' # r'"
  shows "p = q"
proof -
  have neq: "CHR ''-'' # x \<noteq> dec_nat n @ y" for x n y using dec_nat_plain [of n] dec_nat_nonempty [of n] by (cases "dec_nat n") auto
  consider "p < 0" "q < 0" | "p < 0" "0 \<le> q" | "0 \<le> p" "q < 0" | "0 \<le> p" "0 \<le> q" by linarith
  then show ?thesis
  proof cases
    case 1
    with assms have "nat (- p) = nat (- q)" by (intro digits_prefix [of _ r _ r']) (simp add: dec_int_def)
    with 1 show ?thesis by simp
  next
    case 4
    with assms have "nat p = nat q" by (intro digits_prefix [of _ r _ r']) (simp add: dec_int_def)
    with 4 show ?thesis by simp
  qed (use assms neq neq [symmetric] in \<open>simp_all add: dec_int_def\<close>)
qed

lemma key_of_peer_iff [simp]: "key_of_peer peer (audio_key q t) \<longleftrightarrow> q = peer"
proof
  assume "key_of_peer peer (audio_key q t)"
  then have "audio_key q t = (dec_int peer @ ''-'') @ drop (length (dec_int peer @ ''-'')) (audio_key q t)"
    unfolding key_of_peer_def by (metis append_take_drop_id)
  then show "q = peer" by (auto simp: audio_key_def dest!: number_prefix)
qed (simp add: key_of_peer_def audio_key_def)

lemma audio_key_inject [simp]: "audio_key p t = audio_key q u \<longleftrightarrow> p = q \<and> t = u"
proof
  assume e: "audio_key p t = audio_key q u"
  then have "p = q" using key_of_peer_iff [of p p t] by simp
  with e show "p = q \<and> t = u" by (simp add: audio_key_def)
qed simp

section \<open>The invariant\<close>

text \<open>
  Audio is played for exactly the audio tracks that are kept, of which a peer has at most three.
\<close>

definition peer_tracks_ok :: "(string \<Rightarrow> bool) \<Rightarrow> (string, media_track) jsmap \<Rightarrow> bool" where
  "peer_tracks_ok kind tracks = (length tracks \<le> 3 \<and> distinct (map_keys tracks) \<and> (\<forall>(i, t) \<in> set tracks. mt_id t = i \<and> mt_audio t = kind i))"

definition media_ok :: "(string \<Rightarrow> bool) \<Rightarrow> rtc_media \<Rightarrow> bool" where
  "media_ok kind r =
     ((\<forall>key. map_has (rm_audio r) key \<longleftrightarrow> (\<exists>peer i. key = audio_key peer i \<and> kind i \<and> map_has (entry_of peer (rm_tracks r)) i))
      \<and> (\<forall>peer. peer_tracks_ok kind (entry_of peer (rm_tracks r)))
      \<and> (\<forall>(peer, t, s) \<in> set (rm_listeners r). mt_audio t = kind (mt_id t)))"

lemma media_ok_cong:
  assumes "\<And>key. map_has (rm_audio r') key = map_has (rm_audio r) key" "rm_tracks r' = rm_tracks r" "rm_listeners r' = rm_listeners r"
  shows "media_ok kind r' = media_ok kind r"
  using assms by (simp add: media_ok_def)

lemma emit_simps [simp]:
  "rm_tracks (emit_streams_changed r) = rm_tracks r" "rm_audio (emit_streams_changed r) = rm_audio r" "rm_listeners (emit_streams_changed r) = rm_listeners r"
  "rm_tracks (emit_mic_users_changed r) = rm_tracks r" "rm_audio (emit_mic_users_changed r) = rm_audio r" "rm_listeners (emit_mic_users_changed r) = rm_listeners r"
  "rm_streams (emit_mic_users_changed r) = rm_streams r"
  by (simp_all add: emit_streams_changed_def emit_mic_users_changed_def)

lemma map_has_simps [simp]:
  "map_has (map_set k v m) j \<longleftrightarrow> j = k \<or> map_has m j" "map_has (map_delete k m) j \<longleftrightarrow> j \<noteq> k \<and> map_has m j" "\<not> map_has [] j"
  by (simp_all add: map_has_iff)

lemma map_delete_Nil [simp]: "map_delete k [] = []"
  by (simp add: map_delete_def)

lemma entry_of_simps [simp]:
  "entry_of p (map_set q e m) = (if p = q then e else entry_of p m)" "entry_of p (map_delete q m) = (if p = q then [] else entry_of p m)"
  "entry_of p [] = []"
  by (simp_all add: entry_of_def)

lemma added_simps [simp]:
  "rm_tracks (emit_track_added peer t s r) = rm_tracks r" "rm_listeners (emit_track_added peer t s r) = rm_listeners r"
  "map_has (rm_audio (emit_track_added peer t s r)) key \<longleftrightarrow> map_has (rm_audio r) key \<or> mt_audio t \<and> key = audio_key peer (mt_id t)"
  by (auto simp: emit_track_added_def handle_audio_track_def Let_def map_has_iff split: option.split)

lemma removed_simps [simp]:
  "rm_tracks (emit_track_removed peer t s r) = rm_tracks r" "rm_listeners (emit_track_removed peer t s r) = rm_listeners r"
  "map_has (rm_audio (emit_track_removed peer t s r)) key \<longleftrightarrow> map_has (rm_audio r) key \<and> \<not> (mt_audio t \<and> key = audio_key peer (mt_id t))"
  by (auto simp: emit_track_removed_def cleanup_audio_track_def Let_def)

lemma tracks_set_ok:
  assumes "peer_tracks_ok kind tracks" "length tracks < 3" "mt_audio t = kind (mt_id t)"
  shows "peer_tracks_ok kind (map_set (mt_id t) t tracks)"
proof -
  have "length (map_set k v m) \<le> Suc (length m)" for k v and m :: "(string, media_track) jsmap"
    unfolding map_set_def by (induction m) auto
  from this [of "mt_id t" t tracks] set_update_subset [of "mt_id t" t tracks] show ?thesis
    using assms distinct_map_keys_set [of tracks "mt_id t" t] by (auto simp: peer_tracks_ok_def)
qed

lemma tracks_delete_ok: "peer_tracks_ok kind tracks \<Longrightarrow> peer_tracks_ok kind (map_delete k tracks)"
  using distinct_map_keys_delete [of tracks k]
  by (auto simp: peer_tracks_ok_def map_delete_def AList.delete_eq intro: le_trans [OF length_filter_le])

lemma event_ok:
  assumes "media_ok kind r" "mt_audio track = kind (mt_id track)"
  shows "media_ok kind (handle_track_event now peer event_streams track r)"
proof (cases event_streams)
  case (Cons stream rest)
  let ?tracks = "entry_of peer (rm_tracks r)"
  show ?thesis
  proof (cases "3 \<le> length ?tracks")
    case True
    with assms Cons show ?thesis by (auto simp: handle_track_event_def media_ok_def Let_def)
  next
    case False
    with assms have "peer_tracks_ok kind (map_set (mt_id track) track ?tracks)" by (intro tracks_set_ok) (auto simp: media_ok_def)
    with assms Cons False show ?thesis by (auto simp: handle_track_event_def media_ok_def Let_def)
  qed
qed (simp add: handle_track_event_def assms)

lemma cleanup_tracks:
  "entry_of p (rm_tracks (cleanup_track (peer, t, s) r)) = (if p = peer then map_delete (mt_id t) (entry_of p (rm_tracks r)) else entry_of p (rm_tracks r))"
  "rm_listeners (cleanup_track (peer, t, s) r) = rm_listeners r"
  "map_has (rm_audio (cleanup_track (peer, t, s) r)) key \<longleftrightarrow> map_has (rm_audio r) key \<and> \<not> (mt_audio t \<and> key = audio_key peer (mt_id t))"
  by (auto simp: cleanup_track_def Let_def entry_of_def split: option.split)

lemma track_cleanup_ok: "media_ok kind r \<Longrightarrow> l \<in> set (rm_listeners r) \<Longrightarrow> media_ok kind (cleanup_track l r)"
proof -
  assume r: "media_ok kind r" "l \<in> set (rm_listeners r)"
  obtain peer t s where l: "l = (peer, t, s)" by (cases l)
  have k: "mt_audio t = kind (mt_id t)" using r by (auto simp: media_ok_def l)
  show ?thesis using r(1) k unfolding media_ok_def l cleanup_tracks by (auto simp: tracks_delete_ok split: if_splits)
qed

lemma cleanups_ok: "media_ok kind r \<Longrightarrow> set ls \<subseteq> set (rm_listeners r) \<Longrightarrow> media_ok kind (fold cleanup_track ls r)"
proof (induction ls arbitrary: r)
  case (Cons l ls)
  have "rm_listeners (cleanup_track l r) = rm_listeners r" by (cases l) (simp add: cleanup_tracks)
  with Cons track_cleanup_ok [of kind r l] show ?case by simp
qed simp

lemma joins_ok: "media_ok kind r \<Longrightarrow> media_ok kind (fold update_mute ls r)"
proof (induction ls arbitrary: r)
  case (Cons l ls)
  have "media_ok kind (update_mute l r) = media_ok kind r"
    by (cases l, rule media_ok_cong) (auto simp: update_mute_def map_has_iff split: option.split)
  with Cons show ?case by simp
qed simp

lemma map_has_filter:
  "map_has (filter (\<lambda>e. \<not> key_of_peer peer (fst e)) m) k \<longleftrightarrow> \<not> key_of_peer peer k \<and> map_has m k"
  unfolding map_has_def by (induction m) auto

lemma map_has_map:
  assumes "\<And>k v. fst (f (k, v)) = k"
  shows "map_has (map f m) k = map_has m k"
proof -
  have "fst \<circ> f = fst" by (rule ext) (metis assms comp_apply prod.collapse)
  then have "fst ` set (map f m) = fst ` set m" by (metis image_comp list.set_map)
  then show ?thesis unfolding map_has_def map_of_eq_None_iff by (rule arg_cong)
qed

lemma media_step_ok: "media_step kind r r' \<Longrightarrow> media_ok kind r \<Longrightarrow> media_ok kind r'"
proof (induction rule: media_step.induct)
  case (media_track_event track r now peer event_streams)
  then show ?case by (simp add: event_ok)
next
  case (media_held r held)
  then show ?case by (simp add: media_ok_def)
next
  case (media_ends r track_id)
  then show ?case unfolding rtc_track_ends_def by (intro cleanups_ok) (auto simp: media_ok_def)
next
  case (media_leaves r stream track_id)
  then show ?case unfolding rtc_track_leaves_def by (intro cleanups_ok) (auto simp: media_ok_def)
next
  case (media_joins r stream track)
  then show ?case unfolding rtc_track_joins_def by (intro joins_ok) (simp add: media_ok_def)
next
  case (media_peer r peer)
  have "peer_tracks_ok kind []" by (simp add: peer_tracks_ok_def map_keys_def)
  with media_peer show ?case
    by (auto simp: media_remove_peer_def track_remove_peer_def playback_remove_peer_def media_ok_def Let_def map_has_filter)
next
  case (media_audio r volume muted)
  have "media_ok kind (playback_audio_state volume muted r) = media_ok kind r"
    by (rule media_ok_cong) (simp_all add: playback_audio_state_def Let_def map_has_map)
  with media_audio show ?case by simp
next
  case (media_disposed r)
  then show ?case by (simp add: media_dispose_def media_ok_def peer_tracks_ok_def map_keys_def)
qed

lemma media_reachable_ok: "(media_step kind)\<^sup>*\<^sup>* new_rtc_media r \<Longrightarrow> media_ok kind r"
  by (induction rule: rtranclp_induct)
    (simp add: media_ok_def new_rtc_media_def peer_tracks_ok_def map_keys_def, rule media_step_ok)

section \<open>Properties\<close>

text \<open>
  Playback follows the tracks: whatever events come over the bus and in whatever order, the audio
  elements are exactly those of the audio tracks that are kept, no peer has more than three tracks, and of
  a peer that is removed no track, no stream and no audio element remains.
\<close>

lemma playback_follows_tracks:
  assumes "(media_step kind)\<^sup>*\<^sup>* new_rtc_media r"
  shows "(\<forall>peer i. map_has (rm_audio r) (audio_key peer i) \<longleftrightarrow> kind i \<and> map_has (entry_of peer (rm_tracks r)) i)
    \<and> (\<forall>peer. length (entry_of peer (rm_tracks r)) \<le> 3)
    \<and> (\<forall>peer. let q = media_remove_peer peer r in
        entry_of peer (rm_tracks q) = [] \<and> entry_of peer (rm_streams q) = [] \<and> (\<forall>i. \<not> map_has (rm_audio q) (audio_key peer i)))"
proof -
  have ok: "media_ok kind r" using assms by (rule media_reachable_ok)
  then show ?thesis
    by (auto simp: media_ok_def peer_tracks_ok_def media_remove_peer_def track_remove_peer_def playback_remove_peer_def
        emit_streams_changed_def Let_def map_has_filter)
qed

definition voice_track :: media_track where
  "voice_track = \<lparr>mt_id = ''v'', mt_audio = True, mt_ended = False\<rparr>"

definition screen_track :: media_track where
  "screen_track = \<lparr>mt_id = ''s'', mt_audio = False, mt_ended = False\<rparr>"

definition talking_and_sharing :: rtc_media where
  "talking_and_sharing = handle_track_event ''t'' 5 [''m''] screen_track (handle_track_event ''t'' 5 [''m''] voice_track
     (new_rtc_media\<lparr>rm_held := (\<lambda>_. [])(''m'' := [voice_track, screen_track])\<rparr>))"

theorem playback_follows_tracks_witness:
  "map_has (rm_audio talking_and_sharing) (audio_key 5 ''v'') \<and> \<not> map_has (rm_audio talking_and_sharing) (audio_key 5 ''s'')"
proof -
  let ?r = "new_rtc_media\<lparr>rm_held := (\<lambda>_. [])(''m'' := [voice_track, screen_track])\<rparr>" and ?k = "\<lambda>i. i = ''v''"
  have "media_step ?k new_rtc_media ?r" by (rule media_held)
  moreover have "media_step ?k ?r (handle_track_event ''t'' 5 [''m''] voice_track ?r)" by (rule media_track_event) (simp add: voice_track_def)
  moreover have "media_step ?k (handle_track_event ''t'' 5 [''m''] voice_track ?r) talking_and_sharing"
    unfolding talking_and_sharing_def by (rule media_track_event) (simp add: screen_track_def)
  ultimately have "(media_step ?k)\<^sup>*\<^sup>* new_rtc_media talking_and_sharing" by (meson converse_rtranclp_into_rtranclp rtranclp.rtrancl_refl)
  from playback_follows_tracks [OF this] show ?thesis
    by (simp add: talking_and_sharing_def handle_track_event_def voice_track_def screen_track_def new_rtc_media_def emit_track_added_def
        handle_audio_track_def map_has_def map_set_def entry_of_def map_get_def Let_def)
qed

section \<open>What goes wrong\<close>

text \<open>
  Every track listens to its stream and takes any track that leaves for itself: when a peer stops sharing its
  screen, its microphone, in the same stream, is no longer played.
\<close>

lemma stopping_screen_silences_microphone:
  "let r = rtc_track_leaves ''m'' ''s'' talking_and_sharing
   in map_has (rm_audio talking_and_sharing) (audio_key 5 ''v'') \<and> rm_held r ''m'' = [voice_track] \<and> rm_audio r = [] \<and> rm_tracks r = []"
  by code_simp

text \<open>A fourth track is turned away, but its stream is noted before and shown with the next change.\<close>

definition extra_track :: "string \<Rightarrow> media_track" where
  "extra_track i = \<lparr>mt_id = i, mt_audio = False, mt_ended = False\<rparr>"

lemma refused_track_leaves_its_stream:
  "rm_shown_streams (emit_streams_changed (handle_track_event ''u'' 5 [''n''] (extra_track ''d'')
     (fold (\<lambda>i. handle_track_event ''t'' 5 [''m''] (extra_track i)) [''a'', ''b'', ''c''] new_rtc_media)))
   = [(5, ''m'', ''t''), (5, ''n'', ''u'')]"
  by code_simp

end
