(* ===== verification/RtcConnections.thy ===== *)
theory RtcConnections
  imports RtcMedia
begin

text \<open>
  The connections of the second voice client (\<open>lib/webrtc/v2\<close>): the sessions and the closing of those who have left
  (\<open>PeerManager.ts\<close>), the states, the timers of failures and the check of health (\<open>ConnectionManager.ts\<close>), together
  with the media of \<open>RtcMedia\<close>, as \<open>SkaiaRTC.ts\<close> puts them together. Its connections behave as those of the
  first client: \<open>as_manager\<close> reads them as a manager, whose invariant carries over.
\<close>

section \<open>State\<close>

text \<open>\<open>rc_shown_states\<close> is what the hook shows: it reads all states when one of them changes.\<close>

record rtc_client =
  rc_user :: "int option"
  rc_sessions :: "(int, nat) jsmap"
  rc_pending :: "(int, nat) jsmap"
  rc_states :: "(int, connection_state) jsmap"
  rc_times :: "(int, connection_state \<times> int) jsmap"
  rc_failed :: "(int, nat) jsmap"
  rc_conns :: "peer_connection list"
  rc_timers :: "(nat \<times> peer_timer) list"
  rc_next_timer :: nat
  rc_sent :: "(int \<times> signal_payload) list"
  rc_shown_states :: "(int, connection_state) jsmap"
  rc_media :: rtc_media

definition new_rtc_client :: "int option \<Rightarrow> rtc_client" where
  "new_rtc_client user = \<lparr>rc_user = user, rc_sessions = [], rc_pending = [], rc_states = [], rc_times = [], rc_failed = [],
     rc_conns = [], rc_timers = [], rc_next_timer = 1, rc_sent = [], rc_shown_states = [], rc_media = new_rtc_media\<rparr>"

definition rtc_update :: "nat \<Rightarrow> (peer_connection \<Rightarrow> peer_connection) \<Rightarrow> rtc_client \<Rightarrow> rtc_client" where
  "rtc_update n f c = c\<lparr>rc_conns := (rc_conns c)[n := f (rc_conns c ! n)]\<rparr>"

definition rtc_send :: "int \<Rightarrow> signal_payload \<Rightarrow> rtc_client \<Rightarrow> rtc_client" where
  "rtc_send peer p c = c\<lparr>rc_sent := rc_sent c @ [(peer, p)]\<rparr>"

definition rtc_stop_timer :: "nat \<Rightarrow> rtc_client \<Rightarrow> rtc_client" where
  "rtc_stop_timer i c = c\<lparr>rc_timers := filter (\<lambda>t. fst t \<noteq> i) (rc_timers c)\<rparr>"

definition rtc_start_timer :: "peer_timer \<Rightarrow> rtc_client \<Rightarrow> nat \<times> rtc_client" where
  "rtc_start_timer t c = (rc_next_timer c, c\<lparr>rc_timers := rc_timers c @ [(rc_next_timer c, t)], rc_next_timer := Suc (rc_next_timer c)\<rparr>)"

section \<open>The states of the connections\<close>

definition emit_connection_state :: "rtc_client \<Rightarrow> rtc_client" where
  "emit_connection_state c = c\<lparr>rc_shown_states := rc_states c\<rparr>"

definition rtc_clear_failed :: "int \<Rightarrow> rtc_client \<Rightarrow> rtc_client" where
  "rtc_clear_failed peer c =
     (case map_get (rc_failed c) peer of
        Some i \<Rightarrow> rtc_stop_timer i (c\<lparr>rc_failed := map_delete peer (rc_failed c)\<rparr>)
      | None \<Rightarrow> c)"

definition rtc_note_state :: "int \<Rightarrow> int \<Rightarrow> connection_state \<Rightarrow> rtc_client \<Rightarrow> rtc_client" where
  "rtc_note_state now peer state c =
     emit_connection_state (c\<lparr>rc_states := map_set peer state (rc_states c), rc_times := map_set peer (state, now) (rc_times c)\<rparr>)"

definition monitor_session :: "int \<Rightarrow> int \<Rightarrow> nat \<Rightarrow> rtc_client \<Rightarrow> rtc_client" where
  "monitor_session now peer n c = rtc_note_state now peer (co_state (rc_conns c ! n)) c"

definition connection_remove_peer :: "int \<Rightarrow> rtc_client \<Rightarrow> rtc_client" where
  "connection_remove_peer peer c =
     rtc_clear_failed peer (c\<lparr>rc_states := map_delete peer (rc_states c), rc_times := map_delete peer (rc_times c)\<rparr>)"

definition connection_remove_all :: "rtc_client \<Rightarrow> rtc_client" where
  "connection_remove_all c =
     (fold (\<lambda>e. rtc_stop_timer (snd e)) (rc_failed c) c)\<lparr>rc_failed := [], rc_states := [], rc_times := []\<rparr>"

section \<open>Sessions\<close>

definition rtc_clear_pending :: "int \<Rightarrow> rtc_client \<Rightarrow> rtc_client" where
  "rtc_clear_pending peer c =
     (case map_get (rc_pending c) peer of
        Some i \<Rightarrow> rtc_stop_timer i (c\<lparr>rc_pending := map_delete peer (rc_pending c)\<rparr>)
      | None \<Rightarrow> c)"

definition rtc_close_peer :: "int \<Rightarrow> bool \<Rightarrow> rtc_client \<Rightarrow> rtc_client" where
  "rtc_close_peer peer notify c =
     (let c1 = (case map_get (rc_sessions c) peer of
            Some n \<Rightarrow> (rtc_update n (\<lambda>p. p\<lparr>co_session := close_session (co_session p), co_state := PcClosed\<rparr>) c)
              \<lparr>rc_sessions := map_delete peer (rc_sessions c)\<rparr>
          | None \<Rightarrow> c);
          c2 = connection_remove_peer peer (rtc_clear_pending peer c1);
          c3 = c2\<lparr>rc_media := media_remove_peer peer (rc_media c2)\<rparr>
      in if notify then rtc_send peer Leave c3 else c3)"

text \<open>Local streams are lists of tracks. The index of the new or known connection is returned.\<close>

definition rtc_ensure_connection ::
  "(transceiver list \<Rightarrow> nat option) \<Rightarrow> int \<Rightarrow> int \<Rightarrow> bool \<Rightarrow> string list list \<Rightarrow> rtc_client \<Rightarrow> nat \<times> rtc_client" where
  "rtc_ensure_connection reuse now peer broadcast_hello local_streams c =
     (case map_get (rc_sessions c) peer of
        Some n \<Rightarrow> (n, c)
      | None \<Rightarrow>
          let n = length (rc_conns c);
              p = \<lparr>co_peer = peer, co_session = new_peer_session (polite_towards (rc_user c) peer), co_state = PcNew, co_transceivers = []\<rparr>;
              c1 = c\<lparr>rc_conns := rc_conns c @ [p], rc_sessions := map_set peer n (rc_sessions c)\<rparr>;
              c2 = (if broadcast_hello then rtc_send peer Hello c1 else c1);
              c3 = monitor_session now peer n c2;
              c4 = (if local_streams \<noteq> []
                then rtc_update n (\<lambda>p. p\<lparr>co_transceivers := publish_tracks reuse (concat local_streams) (co_transceivers p)\<rparr>) c3 else c3)
          in (n, c4))"

definition rtc_receive_signal ::
  "(transceiver list \<Rightarrow> nat option) \<Rightarrow> int \<Rightarrow> int \<Rightarrow> signal_payload \<Rightarrow> string list list \<Rightarrow> rtc_client \<Rightarrow> rtc_client" where
  "rtc_receive_signal reuse now peer p local_streams c =
     (if p = Leave then rtc_close_peer peer False c
      else
        let (n, c1) = rtc_ensure_connection reuse now peer False local_streams c
        in if p = Hello then rtc_update n (\<lambda>q. q\<lparr>co_session := negotiate (co_session q)\<rparr>) c1
           else rtc_update n (\<lambda>q. q\<lparr>co_session := enqueue (HandleSignal p) (co_session q)\<rparr>) c1)"

definition rtc_on_all :: "(peer_connection \<Rightarrow> peer_connection) \<Rightarrow> rtc_client \<Rightarrow> rtc_client" where
  "rtc_on_all f c = fold (\<lambda>e. rtc_update (snd e) f) (rc_sessions c) c"

definition rtc_broadcast_tracks :: "(transceiver list \<Rightarrow> nat option) \<Rightarrow> string list option list \<Rightarrow> rtc_client \<Rightarrow> rtc_client" where
  "rtc_broadcast_tracks reuse local_streams =
     rtc_on_all (publish_and_negotiate reuse (concat (map the (filter (\<lambda>s. s \<noteq> None) local_streams))))"

definition rtc_remove_tracks :: "string list option list \<Rightarrow> rtc_client \<Rightarrow> rtc_client" where
  "rtc_remove_tracks local_streams = rtc_on_all (unpublish_and_negotiate (concat (map the (filter (\<lambda>s. s \<noteq> None) local_streams))))"

text \<open>\<open>onconnectionstatechange\<close> of the connection \<open>n\<close>, and the two kinds of timers.\<close>

definition rtc_state_changes :: "int \<Rightarrow> nat \<Rightarrow> connection_state \<Rightarrow> rtc_client \<Rightarrow> rtc_client" where
  "rtc_state_changes now n state c =
     (let peer = co_peer (rc_conns c ! n);
          c1 = rtc_note_state now peer state (rtc_update n (\<lambda>p. p\<lparr>co_state := state\<rparr>) c)
      in if state = PcFailed then
           (case rtc_start_timer (FailedCheck peer n) c1 of (i, c2) \<Rightarrow> c2\<lparr>rc_failed := map_set peer i (rc_failed c2)\<rparr>)
         else if state = PcConnected then rtc_clear_failed peer c1
         else if state = PcClosed then rtc_close_peer peer False c1
         else c1)"

definition rtc_timer_fires :: "nat \<times> peer_timer \<Rightarrow> rtc_client \<Rightarrow> rtc_client" where
  "rtc_timer_fires t c0 =
     (let c = rtc_stop_timer (fst t) c0 in
      case snd t of
        FailedCheck peer n \<Rightarrow> if co_state (rc_conns c ! n) = PcFailed then rtc_close_peer peer False c else c
      | PendingClose peer \<Rightarrow> let c1 = rtc_close_peer peer False c in c1\<lparr>rc_pending := map_delete peer (rc_pending c1)\<rparr>)"

section \<open>Keeping the connections to those present\<close>

definition rtc_needs_heal :: "int \<Rightarrow> rtc_client \<Rightarrow> int \<Rightarrow> bool" where
  "rtc_needs_heal now c peer =
     (let since = (case map_get (rc_times c) peer of Some (_, t) \<Rightarrow> Some (now - t) | None \<Rightarrow> None) in
      case map_get (rc_states c) peer of
        None \<Rightarrow> False
      | Some state \<Rightarrow>
          state = PcFailed \<or> state = PcClosed
          \<or> state = PcConnecting \<and> (case since of Some d \<Rightarrow> 5000 < d | None \<Rightarrow> False)
          \<or> state = PcNew \<and> (case since of Some d \<Rightarrow> 2000 < d | None \<Rightarrow> False))"

definition reconnect_peer :: "(transceiver list \<Rightarrow> nat option) \<Rightarrow> int \<Rightarrow> string list list \<Rightarrow> int \<Rightarrow> rtc_client \<Rightarrow> rtc_client" where
  "reconnect_peer reuse now local_streams peer c =
     snd (rtc_ensure_connection reuse now peer True local_streams (rtc_close_peer peer False c))"

text \<open>
  The check of health runs over the live keys of the states: a peer that is connected again comes once more,
  at the end. \<open>None\<close> when the fuel is used up.
\<close>

fun health_loop ::
  "nat \<Rightarrow> (transceiver list \<Rightarrow> nat option) \<Rightarrow> int \<Rightarrow> int list \<Rightarrow> string list list \<Rightarrow> int list \<Rightarrow> rtc_client \<Rightarrow> rtc_client option" where
  "health_loop fuel reuse now valid_peers local_streams [] c = Some c"
| "health_loop 0 reuse now valid_peers local_streams (peer # peers) c = None"
| "health_loop (Suc fuel) reuse now valid_peers local_streams (peer # peers) c =
     (if peer \<in> set valid_peers \<and> rtc_needs_heal now c peer
      then health_loop fuel reuse now valid_peers local_streams (peers @ [peer]) (reconnect_peer reuse now local_streams peer c)
      else health_loop fuel reuse now valid_peers local_streams peers c)"

definition check_health ::
  "(transceiver list \<Rightarrow> nat option) \<Rightarrow> int \<Rightarrow> int list \<Rightarrow> string list list \<Rightarrow> rtc_client \<Rightarrow> rtc_client option" where
  "check_health reuse now valid_peers local_streams c =
     health_loop (2 * length (rc_states c)) reuse now valid_peers local_streams (map_keys (rc_states c)) c"

definition mark_absent :: "int list \<Rightarrow> int \<Rightarrow> rtc_client \<Rightarrow> rtc_client" where
  "mark_absent valid_peers peer c =
     (if peer \<in> set valid_peers then rtc_clear_pending peer c
      else if map_has (rc_pending c) peer then c
      else (case rtc_start_timer (PendingClose peer) c of (i, c1) \<Rightarrow> c1\<lparr>rc_pending := map_set peer i (rc_pending c1)\<rparr>))"

definition rtc_sync_active_peers ::
  "(transceiver list \<Rightarrow> nat option) \<Rightarrow> int \<Rightarrow> int list \<Rightarrow> string list list \<Rightarrow> rtc_client \<Rightarrow> rtc_client option" where
  "rtc_sync_active_peers reuse now valid_peers local_streams c =
     check_health reuse now valid_peers local_streams (fold (mark_absent valid_peers) (map_keys (rc_sessions c)) c)"

definition rtc_close_all :: "rtc_client \<Rightarrow> rtc_client" where
  "rtc_close_all c =
     (let c1 = connection_remove_all (fold (\<lambda>peer. rtc_close_peer peer False) (map_keys (rc_sessions c)) c)
      in c1\<lparr>rc_media := media_dispose (rc_media c1)\<rparr>)"

section \<open>What can happen\<close>

text \<open>Events reach the handlers of a connection only until it is closed.\<close>

definition rtc_open :: "rtc_client \<Rightarrow> nat \<Rightarrow> bool" where
  "rtc_open c n = (n < length (rc_conns c) \<and> co_state (rc_conns c ! n) \<noteq> PcClosed)"

inductive rtc_step :: "(string \<Rightarrow> bool) \<Rightarrow> rtc_client \<Rightarrow> rtc_client \<Rightarrow> bool" for kind :: "string \<Rightarrow> bool" where
    rtc_closes: "rtc_step kind c (rtc_close_peer peer notify c)"
  | rtc_ensures: "rtc_step kind c (snd (rtc_ensure_connection reuse now peer hello streams c))"
  | rtc_receives: "rtc_step kind c (rtc_receive_signal reuse now peer p streams c)"
  | rtc_changes: "rtc_open c n \<Longrightarrow> rtc_step kind c (rtc_state_changes now n state c)"
  | rtc_fires: "t \<in> set (rc_timers c) \<Longrightarrow> rtc_step kind c (rtc_timer_fires t c)"
  | rtc_syncs: "rtc_sync_active_peers reuse now peers streams c = Some c' \<Longrightarrow> rtc_step kind c c'"
  | rtc_broadcasts: "rtc_step kind c (rtc_broadcast_tracks reuse optional_streams c)"
  | rtc_withdraws: "rtc_step kind c (rtc_remove_tracks optional_streams c)"
  | rtc_closes_all: "rtc_step kind c (rtc_close_all c)"
  | rtc_session: "f \<in> {run_next, negotiate, on_ice_candidate candidate} \<Longrightarrow>
      rtc_step kind c (rtc_update n (\<lambda>p. p\<lparr>co_session := f (co_session p)\<rparr>) c)"
  | rtc_tracks: "rtc_open c n \<Longrightarrow> mt_audio track = kind (mt_id track) \<Longrightarrow>
      rtc_step kind c (c\<lparr>rc_media := handle_track_event stamp (co_peer (rc_conns c ! n)) event_streams track (rc_media c)\<rparr>)"
  | rtc_media: "r \<in> {(rc_media c)\<lparr>rm_held := held\<rparr>, rtc_track_ends track_id (rc_media c), rtc_track_leaves stream track_id (rc_media c),
        rtc_track_joins stream track (rc_media c), playback_audio_state volume muted (rc_media c)} \<Longrightarrow> rtc_step kind c (c\<lparr>rc_media := r\<rparr>)"

inductive rtc_reachable :: "(string \<Rightarrow> bool) \<Rightarrow> rtc_client \<Rightarrow> bool" for kind :: "string \<Rightarrow> bool" where
    rtc_start: "rtc_reachable kind (new_rtc_client user)"
  | rtc_next: "rtc_reachable kind c \<Longrightarrow> rtc_step kind c c' \<Longrightarrow> rtc_reachable kind c'"


section \<open>As connections of the first client\<close>

definition as_manager :: "rtc_client \<Rightarrow> manager" where
  "as_manager c = (new_manager (rc_user c))\<lparr>mg_sessions := rc_sessions c, mg_states := rc_states c, mg_times := rc_times c,
     mg_failed := rc_failed c, mg_pending := rc_pending c, mg_conns := rc_conns c\<rparr>"

lemma as_manager_simps [simp]:
  "mg_sessions (as_manager c) = rc_sessions c" "mg_states (as_manager c) = rc_states c" "mg_times (as_manager c) = rc_times c"
  "mg_failed (as_manager c) = rc_failed c" "mg_pending (as_manager c) = rc_pending c" "mg_conns (as_manager c) = rc_conns c"
  "mg_remote (as_manager c) = []" "mg_user (as_manager c) = rc_user c"
  by (simp_all add: as_manager_def new_manager_def)

lemma open_as_manager [simp]: "open_conn (as_manager c) n = rtc_open c n"
  by (simp add: open_conn_def rtc_open_def)

named_theorems rtc_ops
declare rtc_update_def [rtc_ops] rtc_send_def [rtc_ops] rtc_stop_timer_def [rtc_ops] rtc_start_timer_def [rtc_ops]
  emit_connection_state_def [rtc_ops] rtc_note_state_def [rtc_ops] monitor_session_def [rtc_ops]

lemma rtc_clear_simps [simp]:
  "rc_sessions (rtc_clear_failed k c) = rc_sessions c" "rc_sessions (rtc_clear_pending k c) = rc_sessions c"
  "rc_states (rtc_clear_failed k c) = rc_states c" "rc_states (rtc_clear_pending k c) = rc_states c"
  "rc_times (rtc_clear_failed k c) = rc_times c" "rc_times (rtc_clear_pending k c) = rc_times c"
  "rc_conns (rtc_clear_failed k c) = rc_conns c" "rc_conns (rtc_clear_pending k c) = rc_conns c"
  "rc_media (rtc_clear_failed k c) = rc_media c" "rc_media (rtc_clear_pending k c) = rc_media c"
  "rc_pending (rtc_clear_failed k c) = rc_pending c" "rc_failed (rtc_clear_pending k c) = rc_failed c"
  "rc_failed (rtc_clear_failed k c) = mg_failed (clear_failed k (as_manager c))"
  "rc_pending (rtc_clear_pending k c) = mg_pending (clear_pending k (as_manager c))"
  by (auto simp: rtc_clear_failed_def rtc_clear_pending_def clear_failed_def clear_pending_def rtc_ops manager_ops split: option.split)

lemma map_delete_missing: "map_get m k = None \<Longrightarrow> map_delete k m = m"
  by (induction m) (auto simp: map_get_def map_delete_def split: if_splits)

lemma rtc_close_fields:
  "rc_sessions (rtc_close_peer k b c) = (if map_get (rc_sessions c) k = None then rc_sessions c else map_delete k (rc_sessions c))"
  "rc_states (rtc_close_peer k b c) = map_delete k (rc_states c)"
  "rc_times (rtc_close_peer k b c) = map_delete k (rc_times c)"
  "rc_failed (rtc_close_peer k b c) = (if map_get (rc_failed c) k = None then rc_failed c else map_delete k (rc_failed c))"
  "rc_pending (rtc_close_peer k b c) = (if map_get (rc_pending c) k = None then rc_pending c else map_delete k (rc_pending c))"
  "rc_conns (rtc_close_peer k b c) = (case map_get (rc_sessions c) k of None \<Rightarrow> rc_conns c
     | Some n \<Rightarrow> (rc_conns c)[n := (rc_conns c ! n)\<lparr>co_session := close_session (co_session (rc_conns c ! n)), co_state := PcClosed\<rparr>])"
  "rc_media (rtc_close_peer k b c) = media_remove_peer k (rc_media c)"
  by (auto simp: rtc_close_peer_def connection_remove_peer_def rtc_clear_failed_def rtc_clear_pending_def rtc_ops Let_def split: option.split)

text \<open>Closing, connecting and noting a state are what they are in the first client.\<close>

lemma close_as_manager:
  assumes "manager_ok (as_manager c)"
  shows "core (as_manager (rtc_close_peer k b c)) = core (close_peer k b (as_manager c))"
proof -
  have "map_get (rc_sessions c) k = None \<Longrightarrow> map_get (rc_states c) k = None \<and> map_get (rc_times c) k = None"
    using manager_okD(2,3) [OF assms, of k] by simp
  then show ?thesis
    by (auto simp: core_def close_peer_simps(1-3,6,7) close_peer_timers rtc_close_fields map_delete_missing split: option.split)
qed

lemma ensure_as_manager:
  "core (as_manager (snd (rtc_ensure_connection reuse now k hello streams c)))
     = core (snd (ensure_connection reuse now k hello [] (as_manager c)))"
proof (cases "map_get (rc_sessions c) k")
  case None
  then have none: "map_get (mg_sessions (as_manager c)) k = None" by simp
  show ?thesis unfolding ensure_connection_core [OF none]
    using None by (simp add: rtc_ensure_connection_def core_def rtc_ops Let_def list_update_append)
qed (simp add: rtc_ensure_connection_def ensure_connection_def)

lemma update_as_manager:
  assumes "co_peer (f (rc_conns c ! n)) = co_peer (rc_conns c ! n)" "co_state (f (rc_conns c ! n)) = co_state (rc_conns c ! n)"
  shows "core (as_manager (rtc_update n f c)) = core (as_manager c)"
  using core_update [of f "as_manager c" n] assms by (simp add: core_def rtc_update_def update_conn_def)

lemma changes_as_manager:
  assumes "manager_ok (as_manager c)" "rtc_open c n"
  shows "manager_ok (as_manager (rtc_state_changes now n state c))"
proof -
  let ?k = "co_peer (rc_conns c ! n)"
  have n: "n < length (rc_conns c)" using assms(2) by (simp add: rtc_open_def)
  have k: "map_get (rc_sessions c) ?k = Some n" using manager_okD(1) [OF assms(1), of ?k n] assms(2) by simp
  have close: "core (as_manager (rtc_close_peer ?k False (rtc_note_state now ?k PcClosed (rtc_update n (\<lambda>p. p\<lparr>co_state := PcClosed\<rparr>) c))))
      = core (as_manager (rtc_close_peer ?k False c))"
    using k n by (simp add: core_def rtc_close_fields rtc_ops map_update delete_set)
  show ?thesis
  proof (cases "state = PcClosed")
    case True
    then show ?thesis using close close_as_manager [OF assms(1), of ?k False] close_peer_ok [OF assms(1), of ?k False]
      by (simp add: rtc_state_changes_def Let_def) (metis manager_ok_core)
  next
    case False
    let ?c = "rtc_note_state now ?k state (rtc_update n (\<lambda>p. p\<lparr>co_state := state\<rparr>) c)"
    have "core (as_manager ?c) = core (noted now n state (as_manager c))"
      by (simp add: core_def noted_def rtc_ops update_conn_def Let_def)
    with noted_ok [OF assms(1) _ False, of n now] assms(2) have ok: "manager_ok (as_manager ?c)" by (metis manager_ok_core open_as_manager)
    have sess: "map_get (rc_sessions ?c) ?k = Some n" using k by (simp add: rtc_ops)
    have "manager_ok (as_manager (case rtc_start_timer (FailedCheck ?k n) ?c of (i, c2) \<Rightarrow> c2\<lparr>rc_failed := map_set ?k i (rc_failed c2)\<rparr>))"
      by (rule manager_ok_timers [OF ok, where fs = "map_set ?k (rc_next_timer ?c) (rc_failed ?c)" and ps = "rc_pending ?c" and rs = "[]"])
        (use sess manager_ok_keys [OF ok] in \<open>auto simp: core_def rtc_start_timer_def split: if_splits\<close>)
    moreover have "manager_ok (as_manager (rtc_clear_failed ?k ?c))"
      by (rule manager_ok_core [OF _ clear_ok(1) [OF ok, of ?k]]) (simp add: core_def)
    ultimately show ?thesis using ok False by (auto simp: rtc_state_changes_def Let_def split: connection_state.split)
  qed
qed


section \<open>The invariant\<close>

text \<open>
  The connections are in order as those of the first client; a timer that closes a peer who has left runs for
  exactly the peers noted as pending; and media are kept of peers with a session only.
\<close>

definition timers_ok :: "rtc_client \<Rightarrow> bool" where
  "timers_ok c =
     (distinct (map fst (rc_timers c))
      \<and> (\<forall>i k. (i, PendingClose k) \<in> set (rc_timers c) \<longleftrightarrow> map_get (rc_pending c) k = Some i)
      \<and> (\<forall>i t. (i, t) \<in> set (rc_timers c) \<longrightarrow> i < rc_next_timer c)
      \<and> (\<forall>i k n. (i, FailedCheck k n) \<in> set (rc_timers c) \<longrightarrow> n < length (rc_conns c))
      \<and> (\<forall>i k. map_get (rc_failed c) k = Some i \<longrightarrow> i < rc_next_timer c \<and> (\<forall>j. map_get (rc_pending c) j \<noteq> Some i)))"

definition media_of_sessions :: "rtc_client \<Rightarrow> bool" where
  "media_of_sessions c =
     (\<forall>k. map_get (rc_sessions c) k = None \<longrightarrow> map_get (rm_tracks (rc_media c)) k = None \<and> map_get (rm_streams (rc_media c)) k = None)"

definition rtc_ok :: "(string \<Rightarrow> bool) \<Rightarrow> rtc_client \<Rightarrow> bool" where
  "rtc_ok kind c = (manager_ok (as_manager c) \<and> timers_ok c \<and> media_of_sessions c \<and> media_ok kind (rc_media c))"

lemma rtc_okD:
  assumes "rtc_ok kind c"
  shows "manager_ok (as_manager c)" "timers_ok c" "media_of_sessions c" "media_ok kind (rc_media c)"
  using assms by (simp_all add: rtc_ok_def)

lemma timers_ok_cong:
  assumes "timers_ok c" "rc_timers c' = rc_timers c" "\<And>k. map_get (rc_pending c') k = map_get (rc_pending c) k"
    "\<And>k. map_get (rc_failed c') k = map_get (rc_failed c) k" "rc_next_timer c' = rc_next_timer c" "length (rc_conns c) \<le> length (rc_conns c')"
  shows "timers_ok c'"
  using assms by (force simp: timers_ok_def)

lemma pending_inject:
  assumes "timers_ok c" "map_get (rc_pending c) j = Some i" "map_get (rc_pending c) k = Some i"
  shows "j = k"
proof -
  have "(i, PendingClose j) \<in> set (rc_timers c)" "(i, PendingClose k) \<in> set (rc_timers c)" "distinct (map fst (rc_timers c))"
    using assms by (auto simp: timers_ok_def)
  then show ?thesis using eq_key_imp_eq_value by fastforce
qed

text \<open>What stopping a timer needs: it closes nobody.\<close>

lemma timers_ok_stop:
  assumes "timers_ok c" "\<forall>j. map_get (rc_pending c) j \<noteq> Some i"
  shows "timers_ok (rtc_stop_timer i c)"
  using assms by (auto simp: timers_ok_def rtc_stop_timer_def distinct_map_filter)

lemma timers_ok_clear:
  assumes "timers_ok c"
  shows "timers_ok (rtc_clear_failed k c)" "timers_ok (rtc_clear_pending k c)"
proof -
  show "timers_ok (rtc_clear_failed k c)"
  proof (cases "map_get (rc_failed c) k")
    case (Some i)
    have "timers_ok (c\<lparr>rc_failed := map_delete k (rc_failed c)\<rparr>)" using assms by (auto simp: timers_ok_def)
    moreover have "\<forall>j. map_get (rc_pending c) j \<noteq> Some i" using assms Some by (auto simp: timers_ok_def)
    ultimately show ?thesis using Some timers_ok_stop [of "c\<lparr>rc_failed := map_delete k (rc_failed c)\<rparr>" i] by (simp add: rtc_clear_failed_def)
  qed (use assms in \<open>simp add: rtc_clear_failed_def\<close>)
  show "timers_ok (rtc_clear_pending k c)"
  proof (cases "map_get (rc_pending c) k")
    case (Some i)
    have only: "map_get (rc_pending c) j = Some i \<longleftrightarrow> j = k" for j using pending_inject [OF assms _ Some] Some by blast
    let ?c = "rtc_clear_pending k c"
    have e: "?c = rtc_stop_timer i (c\<lparr>rc_pending := map_delete k (rc_pending c)\<rparr>)" using Some by (simp add: rtc_clear_pending_def)
    have t: "(j, x) \<in> set (rc_timers ?c) \<longleftrightarrow> (j, x) \<in> set (rc_timers c) \<and> j \<noteq> i" for j x unfolding e by (auto simp: rtc_stop_timer_def)
    have p: "map_get (rc_pending ?c) j = (if j = k then None else map_get (rc_pending c) j)" for j unfolding e by (simp add: rtc_stop_timer_def)
    have "distinct (map fst (rc_timers ?c))" using assms unfolding e by (simp add: timers_ok_def rtc_stop_timer_def distinct_map_filter)
    moreover have "(j, PendingClose l) \<in> set (rc_timers ?c) \<longleftrightarrow> map_get (rc_pending ?c) l = Some j" for j l
      using assms only [of l] unfolding t p timers_ok_def by (cases "l = k") auto
    moreover have "rc_failed ?c = rc_failed c" "rc_conns ?c = rc_conns c" "rc_next_timer ?c = rc_next_timer c"
      unfolding e by (simp_all add: rtc_stop_timer_def)
    ultimately show ?thesis using assms unfolding timers_ok_def by (auto simp: t p)
  qed (use assms in \<open>simp add: rtc_clear_pending_def\<close>)
qed

lemma timers_ok_start_failed:
  assumes "timers_ok c" "n < length (rc_conns c)"
  shows "timers_ok (case rtc_start_timer (FailedCheck k n) c of (i, c2) \<Rightarrow> c2\<lparr>rc_failed := map_set k i (rc_failed c2)\<rparr>)"
proof -
  have "map_get (rc_pending c) j = Some i \<Longrightarrow> i < rc_next_timer c" for i j using assms(1) by (auto simp: timers_ok_def)
  then show ?thesis using assms by (fastforce simp: timers_ok_def rtc_start_timer_def split: if_splits)
qed

lemma timers_ok_start_pending:
  assumes "timers_ok c" "map_get (rc_pending c) k = None"
  shows "timers_ok (case rtc_start_timer (PendingClose k) c of (i, c1) \<Rightarrow> c1\<lparr>rc_pending := map_set k i (rc_pending c1)\<rparr>)"
  using assms by (fastforce simp: timers_ok_def rtc_start_timer_def split: if_splits)


lemma close_timers:
  "rc_timers (rtc_close_peer k b c) = rc_timers (rtc_clear_failed k (rtc_clear_pending k c))"
  "rc_next_timer (rtc_close_peer k b c) = rc_next_timer c"
  "length (rc_conns (rtc_close_peer k b c)) = length (rc_conns c)"
  by (auto simp: rtc_close_peer_def connection_remove_peer_def rtc_clear_failed_def rtc_clear_pending_def rtc_ops Let_def split: option.split)

lemma clear_next [simp]:
  "rc_next_timer (rtc_clear_failed k c) = rc_next_timer c" "rc_next_timer (rtc_clear_pending k c) = rc_next_timer c"
  by (auto simp: rtc_clear_failed_def rtc_clear_pending_def rtc_stop_timer_def split: option.split)

lemma close_timers_ok:
  assumes "timers_ok c"
  shows "timers_ok (rtc_close_peer k b c)"
  by (rule timers_ok_cong [OF timers_ok_clear(1) [OF timers_ok_clear(2) [OF assms]], of _ k k]) (auto simp: close_timers rtc_close_fields split: option.split)

lemma ensure_timers_ok:
  assumes "timers_ok c"
  shows "timers_ok (snd (rtc_ensure_connection reuse now k hello streams c))"
  by (rule timers_ok_cong [OF assms]) (auto simp: rtc_ensure_connection_def rtc_ops Let_def split: option.split)

lemma update_timers_ok: "timers_ok c \<Longrightarrow> timers_ok (rtc_update n f c)"
  by (rule timers_ok_cong [where c = c]) (simp_all add: rtc_update_def)

lemma changes_timers_ok:
  assumes "timers_ok c" "rtc_open c n"
  shows "timers_ok (rtc_state_changes now n state c)"
proof -
  let ?c = "rtc_note_state now (co_peer (rc_conns c ! n)) state (rtc_update n (\<lambda>p. p\<lparr>co_state := state\<rparr>) c)"
  have ok: "timers_ok ?c" by (rule timers_ok_cong [OF assms(1)]) (simp_all add: rtc_ops)
  have "n < length (rc_conns ?c)" using assms(2) by (simp add: rtc_ops rtc_open_def)
  from timers_ok_start_failed [OF ok this] ok show ?thesis
    by (auto simp: rtc_state_changes_def Let_def timers_ok_clear close_timers_ok)
qed

lemma fires_timers_ok:
  assumes "timers_ok c" "t \<in> set (rc_timers c)"
  shows "timers_ok (rtc_timer_fires t c)"
proof (cases t)
  case (Pair i p)
  show ?thesis
  proof (cases p)
    case (FailedCheck k n)
    have "map_get (rc_pending c) j \<noteq> Some i" for j
    proof
      assume "map_get (rc_pending c) j = Some i"
      then have "(i, PendingClose j) \<in> set (rc_timers c)" "distinct (map fst (rc_timers c))" using assms(1) by (auto simp: timers_ok_def)
      with assms(2) show False unfolding Pair FailedCheck using eq_key_imp_eq_value by fastforce
    qed
    with timers_ok_stop [OF assms(1)] show ?thesis by (simp add: rtc_timer_fires_def Pair FailedCheck Let_def close_timers_ok)
  next
    case (PendingClose k)
    have k: "map_get (rc_pending c) k = Some i" using assms by (auto simp: timers_ok_def Pair PendingClose)
    show ?thesis
      by (rule timers_ok_cong [OF close_timers_ok [OF assms(1), of k False]])
        (use k in \<open>auto simp: rtc_timer_fires_def Pair PendingClose Let_def rtc_close_fields close_timers rtc_clear_failed_def
            rtc_clear_pending_def rtc_stop_timer_def split: option.split\<close>)
  qed
qed

lemma mark_absent_ok: "timers_ok c \<Longrightarrow> timers_ok (mark_absent valid_peers k c)"
  using timers_ok_start_pending [of c k] by (simp add: mark_absent_def timers_ok_clear map_has_iff)


section \<open>Every reachable client is in order\<close>

lemma remove_peer_maps:
  "map_get (rm_tracks (media_remove_peer k r)) j = (if j = k then None else map_get (rm_tracks r) j)"
  "map_get (rm_streams (media_remove_peer k r)) j = (if j = k then None else map_get (rm_streams r) j)"
  by (simp_all add: media_remove_peer_def track_remove_peer_def playback_remove_peer_def emit_streams_changed_def emit_mic_users_changed_def Let_def)

lemma media_of_sessions_mono:
  assumes "media_of_sessions c" "\<And>k. map_get (rc_sessions c') k = None \<Longrightarrow> map_get (rc_sessions c) k = None"
    "\<And>k. map_get (rm_tracks (rc_media c)) k = None \<Longrightarrow> map_get (rm_tracks (rc_media c')) k = None"
    "\<And>k. map_get (rm_streams (rc_media c)) k = None \<Longrightarrow> map_get (rm_streams (rc_media c')) k = None"
  shows "media_of_sessions c'"
  using assms by (simp add: media_of_sessions_def)

lemma rtc_close_ok:
  assumes "rtc_ok kind c"
  shows "rtc_ok kind (rtc_close_peer k b c)"
  unfolding rtc_ok_def
proof (intro conjI)
  note ok = rtc_okD [OF assms]
  show "manager_ok (as_manager (rtc_close_peer k b c))" by (rule manager_ok_core [OF close_as_manager [OF ok(1)] close_peer_ok [OF ok(1)]])
  show "timers_ok (rtc_close_peer k b c)" by (rule close_timers_ok [OF ok(2)])
  show "media_of_sessions (rtc_close_peer k b c)"
    using ok(3) by (auto simp: media_of_sessions_def rtc_close_fields remove_peer_maps split: if_splits)
  show "media_ok kind (rc_media (rtc_close_peer k b c))" unfolding rtc_close_fields by (rule media_step_ok [OF media_peer ok(4)])
qed

text \<open>What neither touches connections nor media keeps them in order.\<close>

lemma rtc_ok_same:
  assumes "rtc_ok kind c" "manager_ok (as_manager c')" "timers_ok c'" "rc_media c' = rc_media c"
    "\<And>k. map_get (rc_sessions c') k = None \<Longrightarrow> map_get (rc_sessions c) k = None"
  shows "rtc_ok kind c'"
  using assms by (auto simp: rtc_ok_def media_of_sessions_def)

lemma ensure_ok:
  assumes "rtc_ok kind c"
  shows "rtc_ok kind (snd (rtc_ensure_connection reuse now k hello streams c))"
proof (rule rtc_ok_same [OF assms])
  note ok = rtc_okD [OF assms]
  show "manager_ok (as_manager (snd (rtc_ensure_connection reuse now k hello streams c)))"
    by (rule manager_ok_core [OF ensure_as_manager ensure_connection_ok [OF ok(1)]])
  show "timers_ok (snd (rtc_ensure_connection reuse now k hello streams c))" by (rule ensure_timers_ok [OF ok(2)])
qed (auto simp: rtc_ensure_connection_def rtc_ops Let_def split: option.splits if_splits)

lemma update_ok:
  assumes "rtc_ok kind c" "\<And>p. co_peer (f p) = co_peer p" "\<And>p. co_state (f p) = co_state p"
  shows "rtc_ok kind (rtc_update n f c)"
proof (rule rtc_ok_same [OF assms(1)])
  show "manager_ok (as_manager (rtc_update n f c))"
    by (rule manager_ok_core [OF update_as_manager rtc_okD(1) [OF assms(1)]]) (simp_all add: assms)
  show "timers_ok (rtc_update n f c)" by (rule update_timers_ok [OF rtc_okD(2) [OF assms(1)]])
qed (simp_all add: rtc_update_def)

lemma receive_ok: "rtc_ok kind c \<Longrightarrow> rtc_ok kind (rtc_receive_signal reuse now k p streams c)"
  using ensure_ok [of kind c reuse now k False streams]
  by (auto simp: rtc_receive_signal_def rtc_close_ok split: prod.split intro!: update_ok)

lemma on_all_ok:
  assumes "\<And>p. co_peer (f p) = co_peer p" "\<And>p. co_state (f p) = co_state p"
  shows "rtc_ok kind c \<Longrightarrow> rtc_ok kind (rtc_on_all f c)"
proof -
  have "rtc_ok kind c \<Longrightarrow> rtc_ok kind (fold (\<lambda>e. rtc_update (snd e) f) es c)" for es :: "(int \<times> nat) list"
    by (induction es arbitrary: c) (simp_all add: update_ok assms)
  then show "rtc_ok kind c \<Longrightarrow> rtc_ok kind (rtc_on_all f c)" by (simp add: rtc_on_all_def)
qed

lemma changes_ok:
  assumes "rtc_ok kind c" "rtc_open c n"
  shows "rtc_ok kind (rtc_state_changes now n state c)"
  unfolding rtc_ok_def
proof (intro conjI)
  note ok = rtc_okD [OF assms(1)]
  show "manager_ok (as_manager (rtc_state_changes now n state c))" by (rule changes_as_manager [OF ok(1) assms(2)])
  show "timers_ok (rtc_state_changes now n state c)" by (rule changes_timers_ok [OF ok(2) assms(2)])
  let ?k = "co_peer (rc_conns c ! n)"
  let ?c = "rtc_note_state now ?k state (rtc_update n (\<lambda>p. p\<lparr>co_state := state\<rparr>) c)"
  have c: "rc_media ?c = rc_media c" "rc_sessions ?c = rc_sessions c" by (simp_all add: rtc_ops)
  show "media_ok kind (rc_media (rtc_state_changes now n state c))"
    using ok(4) media_step_ok [OF media_peer ok(4), of ?k] c
    by (auto simp: rtc_state_changes_def Let_def rtc_start_timer_def rtc_close_fields)
  show "media_of_sessions (rtc_state_changes now n state c)"
    using ok(3) c by (auto simp: rtc_state_changes_def Let_def rtc_start_timer_def rtc_close_fields media_of_sessions_def remove_peer_maps split: if_splits)
qed

lemma stop_timer_ok:
  assumes "rtc_ok kind c" "timers_ok (rtc_stop_timer i c)"
  shows "rtc_ok kind (rtc_stop_timer i c)"
  by (rule rtc_ok_same [OF assms(1) _ assms(2)])
    (use rtc_okD(1) [OF assms(1)] in \<open>simp_all add: rtc_stop_timer_def as_manager_def\<close>)


lemma fires_ok:
  assumes "rtc_ok kind c" "t \<in> set (rc_timers c)"
  shows "rtc_ok kind (rtc_timer_fires t c)"
  unfolding rtc_ok_def
proof (intro conjI)
  note ok = rtc_okD [OF assms(1)]
  let ?s = "rtc_stop_timer (fst t) c"
  have s: "rc_sessions ?s = rc_sessions c" "rc_media ?s = rc_media c" "as_manager ?s = as_manager c"
    by (simp_all add: rtc_stop_timer_def as_manager_def)
  have del: "(rtc_close_peer k b u)\<lparr>rc_pending := map_delete k (rc_pending (rtc_close_peer k b u))\<rparr> = rtc_close_peer k b u" for k b u
    by (simp add: map_delete_missing rtc_close_fields)
  have cases: "rtc_timer_fires t c = ?s \<or> (\<exists>k. rtc_timer_fires t c = rtc_close_peer k False ?s)"
    by (auto simp: rtc_timer_fires_def Let_def del split: peer_timer.split)
  show "timers_ok (rtc_timer_fires t c)" by (rule fires_timers_ok [OF ok(2) assms(2)])
  have "manager_ok (as_manager ?s)" using ok(1) s(3) by simp
  from cases manager_ok_core [OF close_as_manager [OF this] close_peer_ok [OF this]] this
  show "manager_ok (as_manager (rtc_timer_fires t c))" by metis
  from cases s media_step_ok [OF media_peer ok(4)] ok(4) show "media_ok kind (rc_media (rtc_timer_fires t c))"
    by (auto simp: rtc_close_fields)
  from cases s ok(3) show "media_of_sessions (rtc_timer_fires t c)"
    by (auto simp: media_of_sessions_def rtc_close_fields remove_peer_maps split: if_splits)
qed

lemma mark_ok:
  assumes "rtc_ok kind c" "map_get (rc_sessions c) k \<noteq> None"
  shows "rtc_ok kind (mark_absent valid_peers k c)"
proof (rule rtc_ok_same [OF assms(1)])
  note ok = rtc_okD [OF assms(1)]
  show "timers_ok (mark_absent valid_peers k c)" by (rule mark_absent_ok [OF ok(2)])
  have "manager_ok (as_manager (rtc_clear_pending k c))"
    by (rule manager_ok_core [OF _ clear_ok(2) [OF ok(1), of k]]) (simp add: core_def)
  moreover have "manager_ok (as_manager (case rtc_start_timer (PendingClose k) c of (i, c1) \<Rightarrow> c1\<lparr>rc_pending := map_set k i (rc_pending c1)\<rparr>))"
    by (rule manager_ok_timers [OF ok(1), where fs = "rc_failed c" and ps = "map_set k (rc_next_timer c) (rc_pending c)" and rs = "[]"])
      (use assms(2) manager_ok_keys [OF ok(1)] in \<open>auto simp: core_def rtc_start_timer_def split: if_splits\<close>)
  ultimately show "manager_ok (as_manager (mark_absent valid_peers k c))" using ok(1) by (simp add: mark_absent_def)
qed (auto simp: mark_absent_def rtc_start_timer_def split: if_splits)

lemma mark_sessions [simp]:
  "rc_sessions (mark_absent valid_peers k c) = rc_sessions c" "rc_states (mark_absent valid_peers k c) = rc_states c"
  "rc_times (mark_absent valid_peers k c) = rc_times c" "rc_conns (mark_absent valid_peers k c) = rc_conns c"
  by (simp_all add: mark_absent_def rtc_start_timer_def)

lemma marks_ok:
  "rtc_ok kind c \<Longrightarrow> \<forall>k \<in> set ks. map_get (rc_sessions c) k \<noteq> None \<Longrightarrow>
     rtc_ok kind (fold (mark_absent valid_peers) ks c)
     \<and> rc_sessions (fold (mark_absent valid_peers) ks c) = rc_sessions c \<and> rc_states (fold (mark_absent valid_peers) ks c) = rc_states c
     \<and> (\<forall>k. map_get (rc_pending (fold (mark_absent valid_peers) ks c)) k = None \<longleftrightarrow>
           (if k \<in> set ks then k \<in> set valid_peers else map_get (rc_pending c) k = None))"
proof (induction ks arbitrary: c)
  case (Cons k ks)
  have p: "map_get (rc_pending (mark_absent valid_peers k c)) j = None \<longleftrightarrow> (if j = k then k \<in> set valid_peers else map_get (rc_pending c) j = None)" for j
    by (auto simp: mark_absent_def rtc_start_timer_def map_has_iff)
  have ok: "rtc_ok kind (mark_absent valid_peers k c)" using Cons.prems by (intro mark_ok) simp_all
  from Cons.IH [OF ok] Cons.prems(2) p show ?case by auto
qed simp

lemma closes_fold:
  "rtc_ok kind c \<Longrightarrow> rtc_ok kind (fold (\<lambda>peer. rtc_close_peer peer False) ks c)
     \<and> (\<forall>j. map_get (rc_sessions (fold (\<lambda>peer. rtc_close_peer peer False) ks c)) j = (if j \<in> set ks then None else map_get (rc_sessions c) j))"
proof (induction ks arbitrary: c)
  case (Cons k ks)
  from Cons.IH [OF rtc_close_ok [OF Cons.prems, of k False]] show ?case by (simp add: rtc_close_fields)
qed simp

lemma map_empty:
  assumes "\<And>k. map_get m k = None"
  shows "m = []"
proof (cases m)
  case (Cons e es)
  then have "map_get m (fst e) \<noteq> None" by (simp add: map_get_def)
  with assms show ?thesis by simp
qed simp

lemma stops_fold:
  "fold (\<lambda>e. rtc_stop_timer (snd e)) es c = c\<lparr>rc_timers := filter (\<lambda>t. fst t \<notin> snd ` set es) (rc_timers c)\<rparr>"
  by (induction es arbitrary: c) (auto simp: rtc_stop_timer_def intro!: filter_cong)

lemma close_all_state:
  fixes c
  defines "c1 \<equiv> fold (\<lambda>peer. rtc_close_peer peer False) (map_keys (rc_sessions c)) c"
  assumes "rtc_ok kind c"
  shows "rc_sessions (rtc_close_all c) = []" "rc_pending (rtc_close_all c) = []" "rc_states (rtc_close_all c) = []"
    "rc_conns (rtc_close_all c) = rc_conns c1" "\<not> rtc_open (rtc_close_all c) n" "rtc_ok kind (rtc_close_all c)"
proof -
  have fold: "rtc_ok kind c1" and none: "map_get (rc_sessions c1) k = None" for k
    using closes_fold [OF assms(2), of "map_keys (rc_sessions c)"] by (auto simp: c1_def set_map_keys split: if_splits)
  note ok = rtc_okD [OF fold]
  from none have e: "rc_sessions c1 = []" by (rule map_empty)
  have p: "rc_pending c1 = []" and f: "rc_failed c1 = []"
    by (rule map_empty, use manager_okD(4,5) [OF ok(1)] none in simp)+
  let ?c = "rtc_close_all c"
  have all: "?c = c1\<lparr>rc_failed := [], rc_states := [], rc_times := [], rc_media := media_dispose (rc_media c1)\<rparr>"
    by (simp add: rtc_close_all_def connection_remove_all_def Let_def c1_def [symmetric] f)
  from e p show "rc_sessions ?c = []" "rc_pending ?c = []" "rc_states ?c = []" "rc_conns ?c = rc_conns c1" by (simp_all add: all)
  have closed: "\<not> rtc_open c1 n" for n using manager_okD(1) [OF ok(1), of "co_peer (rc_conns c1 ! n)" n] e by simp
  then show "\<not> rtc_open ?c n" by (simp add: all rtc_open_def)
  have "manager_ok (as_manager ?c)" using closed by (simp add: manager_ok_def all e p map_keys_def rtc_open_def)
  moreover have "timers_ok ?c" using ok(2) by (simp add: all timers_ok_def)
  moreover have "media_of_sessions ?c" by (simp add: all media_of_sessions_def media_dispose_def emit_streams_changed_def emit_mic_users_changed_def)
  moreover have "media_ok kind (rc_media ?c)" using media_step_ok [OF media_disposed ok(4)] by (simp add: all)
  ultimately show "rtc_ok kind ?c" by (simp add: rtc_ok_def)
qed

section \<open>The check of health\<close>

lemma ensure_core_cong:
  assumes "core m' = core m"
  shows "core (snd (ensure_connection reuse now k hello streams m')) = core (snd (ensure_connection reuse' now k hello' streams' m))"
proof (cases "map_get (mg_sessions m) k")
  case None
  have s: "mg_sessions m' = mg_sessions m" using assms by (simp add: core_def)
  have l: "length (mg_conns m') = length (mg_conns m)" by (rule core_conns(1) [OF assms])
  from None s have "map_get (mg_sessions m') k = None" by simp
  from ensure_connection_core [OF None] ensure_connection_core [OF this] show ?thesis
    using assms l by (simp add: core_def Let_def)
next
  case (Some n)
  moreover have "mg_sessions m' = mg_sessions m" using assms by (simp add: core_def)
  ultimately show ?thesis using assms by (simp add: ensure_connection_def)
qed

lemma needs_heal_core:
  assumes "core m' = core m" "manager_ok m"
  shows "needs_heal t m' k = needs_heal t m k"
proof (cases "map_get (mg_sessions m) k")
  case (Some n)
  then have "n < length (mg_conns m)" using manager_okD(1) [OF assms(2), of k n] by (simp add: open_conn_def)
  note n = core_conns(3) [OF assms(1) this]
  have "mg_times m' = mg_times m" "mg_sessions m' = mg_sessions m" using assms(1) by (simp_all add: core_def)
  then show ?thesis unfolding needs_heal_def by (simp only: Some n option.case)
qed (use assms(1) in \<open>simp add: needs_heal_def core_def\<close>)

lemma needs_heal_as_manager:
  assumes "manager_ok (as_manager c)"
  shows "rtc_needs_heal now c k = needs_heal now (as_manager c) k"
proof -
  have "map_get (rc_states c) k = map_option (\<lambda>n. co_state (rc_conns c ! n)) (map_get (rc_sessions c) k)"
    using manager_okD(2) [OF assms, of k] by simp
  then show ?thesis
    by (auto simp: rtc_needs_heal_def needs_heal_def Let_def split: option.split connection_state.split)
qed

lemma reconnect_effect:
  fixes reuse now streams k c
  defines "c' \<equiv> reconnect_peer reuse now streams k c"
  assumes ok: "rtc_ok kind c" and session: "map_get (rc_sessions c) k \<noteq> None"
  shows "rtc_ok kind c'" "map_get (rc_sessions c') j = None \<longleftrightarrow> map_get (rc_sessions c) j = None"
    "map_get (rc_pending c') j = (if j = k then None else map_get (rc_pending c) j)"
    "rtc_needs_heal now c' j = (if j = k then False else rtc_needs_heal now c j)"
proof -
  note m = rtc_okD(1) [OF ok]
  let ?m = "snd (ensure_connection reuse now k True [] (close_peer k False (as_manager c)))"
  show okc: "rtc_ok kind c'" unfolding c'_def reconnect_peer_def by (rule ensure_ok [OF rtc_close_ok [OF ok]])
  have core: "core (as_manager c') = core ?m"
    unfolding c'_def reconnect_peer_def ensure_as_manager by (rule ensure_core_cong [OF close_as_manager [OF m]])
  then have fields: "rc_sessions c' = mg_sessions ?m" "rc_pending c' = mg_pending ?m" by (simp_all add: core_def)
  have s: "map_get (mg_sessions (as_manager c)) k \<noteq> None" using session by simp
  note r = reconnected [OF m s, where reuse = reuse and now = now and streams = "[]"]
  from r(2) [of j] show "map_get (rc_sessions c') j = None \<longleftrightarrow> map_get (rc_sessions c) j = None" by (simp add: fields)
  from r(3) [of j] show "map_get (rc_pending c') j = (if j = k then None else map_get (rc_pending c) j)" by (simp add: fields)
  from r(4) [of now j] needs_heal_core [OF core r(1)] show "rtc_needs_heal now c' j = (if j = k then False else rtc_needs_heal now c j)"
    by (simp add: needs_heal_as_manager [OF rtc_okD(1) [OF okc]] needs_heal_as_manager [OF m])
qed


lemma health_loop_effect:
  assumes "rtc_ok kind c" "\<forall>k \<in> set ks. map_get (rc_sessions c) k \<noteq> None"
    and "length ks + length (filter (\<lambda>k. k \<in> set valid_peers \<and> rtc_needs_heal now c k) ks) \<le> fuel"
  shows "\<exists>c'. health_loop fuel reuse now valid_peers streams ks c = Some c' \<and> rtc_ok kind c'
    \<and> (\<forall>j. map_get (rc_sessions c') j = None \<longleftrightarrow> map_get (rc_sessions c) j = None)
    \<and> (\<forall>j. map_get (rc_pending c') j = None \<longleftrightarrow> map_get (rc_pending c) j = None \<or> j \<in> set ks \<and> j \<in> set valid_peers \<and> rtc_needs_heal now c j)
    \<and> (\<forall>k. k \<in> set valid_peers \<and> rtc_needs_heal now c' k \<longrightarrow> rtc_needs_heal now c k \<and> k \<notin> set ks)"
  using assms
proof (induction fuel arbitrary: ks c)
  case 0
  then show ?case by auto
next
  case (Suc fuel)
  show ?case
  proof (cases ks)
    case (Cons peer peers)
    show ?thesis
    proof (cases "peer \<in> set valid_peers \<and> rtc_needs_heal now c peer")
      case True
      let ?c = "reconnect_peer reuse now streams peer c"
      have sess: "map_get (rc_sessions c) peer \<noteq> None" using Suc.prems(2) Cons by simp
      note r = reconnect_effect [OF Suc.prems(1) sess, where reuse = reuse and now = now and streams = streams]
      have "length (filter (\<lambda>k. k \<in> set valid_peers \<and> rtc_needs_heal now ?c k) ps)
          \<le> length (filter (\<lambda>k. k \<in> set valid_peers \<and> rtc_needs_heal now c k) ps)" for ps
        by (induction ps) (auto simp: r(4))
      from this [of peers] Suc.prems(3) Cons True
      have fuel: "length (peers @ [peer]) + length (filter (\<lambda>k. k \<in> set valid_peers \<and> rtc_needs_heal now ?c k) (peers @ [peer])) \<le> fuel"
        by (simp add: r(4))
      have "\<forall>k \<in> set (peers @ [peer]). map_get (rc_sessions ?c) k \<noteq> None" using Suc.prems(2) Cons by (auto simp: r(2))
      from Suc.IH [OF r(1) this fuel] show ?thesis using Cons True by (auto simp: r(2-4))
    next
      case False
      have "length peers + length (filter (\<lambda>k. k \<in> set valid_peers \<and> rtc_needs_heal now c k) peers) \<le> fuel"
        using Suc.prems(3) Cons False by simp
      from Suc.IH [OF Suc.prems(1) _ this] Suc.prems(2) Cons False show ?thesis by auto
    qed
  qed (use Suc.prems in simp)
qed

lemma sync_effect:
  assumes "rtc_ok kind c"
  shows "\<exists>c'. rtc_sync_active_peers reuse now valid_peers streams c = Some c' \<and> rtc_ok kind c'
    \<and> (\<forall>j. map_get (rc_sessions c') j = None \<longleftrightarrow> map_get (rc_sessions c) j = None)
    \<and> (\<forall>k. map_get (rc_sessions c) k \<noteq> None \<longrightarrow>
          (if k \<in> set valid_peers then map_get (rc_pending c') k = None \<and> \<not> rtc_needs_heal now c' k
           else map_get (rc_pending c') k \<noteq> None))"
proof -
  let ?c = "fold (mark_absent valid_peers) (map_keys (rc_sessions c)) c"
  from marks_ok [OF assms, of "map_keys (rc_sessions c)" valid_peers]
  have ok: "rtc_ok kind ?c" and ses: "rc_sessions ?c = rc_sessions c"
    and pen: "map_get (rc_sessions c) k \<noteq> None \<Longrightarrow> map_get (rc_pending ?c) k = None \<longleftrightarrow> k \<in> set valid_peers" for k
    by (auto simp: set_map_keys)
  have keys: "k \<in> set (map_keys (rc_states ?c)) \<longleftrightarrow> map_get (rc_sessions ?c) k \<noteq> None" for k
    using manager_okD(2) [OF rtc_okD(1) [OF ok], of k] by (simp add: set_map_keys)
  have "length (filter P ks) \<le> length ks" for P and ks :: "int list" by simp
  then have "length (map_keys (rc_states ?c)) + length (filter (\<lambda>k. k \<in> set valid_peers \<and> rtc_needs_heal now ?c k) (map_keys (rc_states ?c)))
      \<le> 2 * length (rc_states ?c)" by (simp add: map_keys_def mult_2)
  from health_loop_effect [OF ok _ this, where reuse = reuse and streams = streams] keys obtain c' where
    c': "check_health reuse now valid_peers streams ?c = Some c'" "rtc_ok kind c'"
      "\<forall>j. map_get (rc_sessions c') j = None \<longleftrightarrow> map_get (rc_sessions ?c) j = None"
      "\<forall>j. map_get (rc_pending c') j = None \<longleftrightarrow> map_get (rc_pending ?c) j = None
        \<or> j \<in> set (map_keys (rc_states ?c)) \<and> j \<in> set valid_peers \<and> rtc_needs_heal now ?c j"
      "\<forall>k. k \<in> set valid_peers \<and> rtc_needs_heal now c' k \<longrightarrow> rtc_needs_heal now ?c k \<and> k \<notin> set (map_keys (rc_states ?c))"
    by (auto simp: check_health_def)
  show ?thesis
  proof (intro exI conjI allI impI)
    show "rtc_sync_active_peers reuse now valid_peers streams c = Some c'" using c'(1) by (simp add: rtc_sync_active_peers_def)
    show "map_get (rc_sessions c') j = None \<longleftrightarrow> map_get (rc_sessions c) j = None" for j using c'(3) ses by simp
    show "if k \<in> set valid_peers then map_get (rc_pending c') k = None \<and> \<not> rtc_needs_heal now c' k else map_get (rc_pending c') k \<noteq> None"
      if "map_get (rc_sessions c) k \<noteq> None" for k
      using c'(4,5) keys [of k] pen [OF that] ses that by auto
  qed (rule c'(2))
qed


section \<open>Steps\<close>

text \<open>Only a track event adds an entry to the tracks and streams.\<close>

definition no_new_peer :: "rtc_media \<Rightarrow> rtc_media \<Rightarrow> bool" where
  "no_new_peer r r' = (\<forall>k. (map_get (rm_tracks r) k = None \<longrightarrow> map_get (rm_tracks r') k = None)
     \<and> (map_get (rm_streams r) k = None \<longrightarrow> map_get (rm_streams r') k = None))"

lemma no_new_peer_same: "rm_tracks r' = rm_tracks r \<Longrightarrow> rm_streams r' = rm_streams r \<Longrightarrow> no_new_peer r r'"
  by (simp add: no_new_peer_def)

lemma removed_streams [simp]: "rm_streams (emit_track_removed peer t s r) = rm_streams r" "rm_streams (emit_track_added peer t s r) = rm_streams r"
  by (auto simp: emit_track_removed_def cleanup_audio_track_def emit_track_added_def handle_audio_track_def Let_def split: option.split)

lemma shown_streams [simp]: "rm_streams (emit_streams_changed r) = rm_streams r"
  by (simp add: emit_streams_changed_def)

lemma cleanup_no_new_peer: "no_new_peer r (cleanup_track l r)"
  by (cases l) (auto simp: no_new_peer_def cleanup_track_def Let_def split: option.split)

lemma fold_no_new_peer:
  assumes "\<And>l r. no_new_peer r (f l r)"
  shows "no_new_peer r (fold f ls r)"
proof (induction ls arbitrary: r)
  case (Cons l ls)
  from assms [of r l] Cons.IH [of "f l r"] show ?case by (simp add: no_new_peer_def)
qed (simp add: no_new_peer_def)

lemma browser_no_new_peer:
  "no_new_peer r (rtc_track_ends i r)" "no_new_peer r (rtc_track_leaves s i r)" "no_new_peer r (rtc_track_joins s t r)"
  "no_new_peer r (playback_audio_state volume muted r)" "no_new_peer r (r\<lparr>rm_held := held\<rparr>)"
proof -
  have held: "no_new_peer (r\<lparr>rm_held := held\<rparr>) q = no_new_peer r q" for held q by (simp add: no_new_peer_def)
  have mute: "no_new_peer r (update_mute l r)" for l r by (cases l) (auto simp: update_mute_def no_new_peer_def split: option.split)
  show "no_new_peer r (rtc_track_ends i r)" "no_new_peer r (rtc_track_leaves s i r)" "no_new_peer r (rtc_track_joins s t r)"
    unfolding rtc_track_ends_def rtc_track_leaves_def rtc_track_joins_def
    by (subst held [symmetric], rule fold_no_new_peer, (rule cleanup_no_new_peer | rule mute))+
qed (simp_all add: no_new_peer_def playback_audio_state_def Let_def)

lemma event_peers:
  "k \<noteq> peer \<Longrightarrow> map_get (rm_tracks (handle_track_event now peer ss track r)) k = map_get (rm_tracks r) k"
  "k \<noteq> peer \<Longrightarrow> map_get (rm_streams (handle_track_event now peer ss track r)) k = map_get (rm_streams r) k"
  by (cases ss; simp add: handle_track_event_def Let_def)+

lemma as_manager_media [simp]: "as_manager (c\<lparr>rc_media := r\<rparr>) = as_manager c" "timers_ok (c\<lparr>rc_media := r\<rparr>) = timers_ok c"
  by (simp_all add: as_manager_def timers_ok_def)

lemma rtc_step_ok: "rtc_step kind c c' \<Longrightarrow> rtc_ok kind c \<Longrightarrow> rtc_ok kind c'"
proof (induction rule: rtc_step.induct)
  case (rtc_syncs reuse now peers streams c c')
  then show ?case using sync_effect [of kind c reuse now peers streams] by auto
next
  case (rtc_broadcasts c reuse optional_streams)
  then show ?case unfolding rtc_broadcast_tracks_def by (intro on_all_ok) (simp_all add: publish_and_negotiate_def)
next
  case (rtc_withdraws c optional_streams)
  then show ?case unfolding rtc_remove_tracks_def by (intro on_all_ok) (simp_all add: unpublish_and_negotiate_def)
next
  case (rtc_session f candidate c n)
  then show ?case by (intro update_ok) simp_all
next
  case (rtc_tracks c n track stamp event_streams)
  let ?k = "co_peer (rc_conns c ! n)"
  note ok = rtc_okD [OF rtc_tracks(3)]
  have k: "map_get (rc_sessions c) ?k = Some n" using manager_okD(1) [OF ok(1), of ?k n] rtc_tracks(1) by simp
  then have "map_get (rc_sessions c) j = None \<Longrightarrow> j \<noteq> ?k" for j by auto
  then have "media_of_sessions (c\<lparr>rc_media := handle_track_event stamp ?k event_streams track (rc_media c)\<rparr>)"
    using ok(3) by (simp add: media_of_sessions_def event_peers)
  then show ?case using ok event_ok [OF ok(4) rtc_tracks(2)] by (simp add: rtc_ok_def)
next
  case (rtc_media r held c track_id stream track volume muted)
  note ok = rtc_okD [OF rtc_media(2)]
  from rtc_media(1) have "media_step kind (rc_media c) r"
    using media_held media_ends media_leaves media_joins media_audio by auto
  moreover from rtc_media(1) have "no_new_peer (rc_media c) r" using browser_no_new_peer by auto
  ultimately show ?case using ok media_step_ok by (auto simp: rtc_ok_def media_of_sessions_def no_new_peer_def)
qed (simp_all add: rtc_close_ok ensure_ok receive_ok changes_ok fires_ok close_all_state(6))

lemma rtc_reachable_ok: "rtc_reachable kind c \<Longrightarrow> rtc_ok kind c"
proof (induction rule: rtc_reachable.induct)
  case (rtc_start user)
  have "media_ok kind new_rtc_media" by (rule media_reachable_ok) simp
  then show ?case
    by (simp add: rtc_ok_def new_rtc_client_def manager_ok_def timers_ok_def media_of_sessions_def rtc_open_def map_keys_def new_rtc_media_def)
qed (rule rtc_step_ok)


section \<open>Properties\<close>

text \<open>
  C28. The second client keeps its parts in step: in every reachable state the open connections are exactly the
  sessions, one for a peer; the states that are watched are those of the connections; and tracks, streams and audio
  elements are only kept of peers that have a session.
\<close>

theorem second_client_in_order:
  assumes "rtc_reachable kind c"
  shows "(\<forall>k n. map_get (rc_sessions c) k = Some n \<longleftrightarrow> rtc_open c n \<and> co_peer (rc_conns c ! n) = k)
    \<and> (\<forall>k. map_get (rc_states c) k = map_option (\<lambda>n. co_state (rc_conns c ! n)) (map_get (rc_sessions c) k))
    \<and> (\<forall>k. map_get (rc_sessions c) k = None \<longrightarrow>
          map_get (rm_tracks (rc_media c)) k = None \<and> map_get (rm_streams (rc_media c)) k = None
          \<and> (\<forall>i. \<not> map_has (rm_audio (rc_media c)) (audio_key k i)))"
proof -
  have ok: "rtc_ok kind c" using assms by (rule rtc_reachable_ok)
  note m = rtc_okD [OF ok]
  have "\<not> map_has (rm_audio (rc_media c)) (audio_key k i)" if "map_get (rc_sessions c) k = None" for k i
  proof -
    have "map_get (rm_tracks (rc_media c)) k = None" using m(3) that by (simp add: media_of_sessions_def)
    then show ?thesis using m(4) by (auto simp: media_ok_def entry_of_def)
  qed
  with manager_okD(1,2) [OF m(1)] m(3) show ?thesis by (simp add: media_of_sessions_def)
qed

definition met :: rtc_client where
  "met = snd (rtc_ensure_connection (\<lambda>_. None) 0 5 True [] (new_rtc_client (Some 2)))"

lemma met_reachable: "rtc_reachable kind met"
  unfolding met_def by (rule rtc_next [OF rtc_start rtc_ensures])

lemma met_state: "map_get (rc_sessions met) k = (if k = 5 then Some 0 else None)" "rc_sessions met = [(5, 0)]"
  by (simp_all add: met_def rtc_ensure_connection_def new_rtc_client_def rtc_ops Let_def map_set_def map_get_def)

theorem second_client_in_order_witness:
  "rtc_open met 0 \<and> co_peer (rc_conns met ! 0) = 5 \<and> map_get (rc_states met) 7 = None"
proof -
  note m = second_client_in_order [OF met_reachable]
  have "map_get (rc_sessions met) 5 = Some 0" "map_get (rc_sessions met) 7 = None" by (simp_all add: met_state(1))
  with m [THEN conjunct1] m [THEN conjunct2, THEN conjunct1] show ?thesis by simp
qed

text \<open>
  C29. Who leaves is given five seconds: a synchronisation always ends, closes nobody, and leaves nobody who is present
  with a connection that should be replaced or with a timer that would close it, and everybody who is absent with
  exactly one such timer; when it fires, the session of that peer ends, and of no other.
\<close>

theorem absent_peers_are_given_time:
  assumes "rtc_reachable kind c"
  shows "\<exists>c'. rtc_sync_active_peers reuse now valid_peers streams c = Some c'
    \<and> (\<forall>k. map_get (rc_sessions c') k = None \<longleftrightarrow> map_get (rc_sessions c) k = None)
    \<and> (\<forall>k. map_get (rc_sessions c) k \<noteq> None \<longrightarrow>
          (if k \<in> set valid_peers then \<not> rtc_needs_heal now c' k \<and> (\<forall>i. (i, PendingClose k) \<notin> set (rc_timers c'))
           else (\<exists>!i. (i, PendingClose k) \<in> set (rc_timers c'))))
    \<and> (\<forall>i k. map_get (rc_sessions (rtc_timer_fires (i, PendingClose k) c')) = (map_get (rc_sessions c'))(k := None))"
proof -
  from sync_effect [OF rtc_reachable_ok [OF assms], of reuse now valid_peers streams] obtain c' where
    c': "rtc_sync_active_peers reuse now valid_peers streams c = Some c'" "rtc_ok kind c'"
      "\<forall>j. map_get (rc_sessions c') j = None \<longleftrightarrow> map_get (rc_sessions c) j = None"
      "\<forall>k. map_get (rc_sessions c) k \<noteq> None \<longrightarrow> (if k \<in> set valid_peers then map_get (rc_pending c') k = None \<and> \<not> rtc_needs_heal now c' k
           else map_get (rc_pending c') k \<noteq> None)" by blast
  have t: "(i, PendingClose k) \<in> set (rc_timers c') \<longleftrightarrow> map_get (rc_pending c') k = Some i" for i k
    using rtc_okD(2) [OF c'(2)] by (simp add: timers_ok_def)
  have "map_get (rc_sessions (rtc_timer_fires (i, PendingClose k) c')) = (map_get (rc_sessions c'))(k := None)" for i k
    by (rule ext) (simp add: rtc_timer_fires_def rtc_stop_timer_def rtc_close_fields Let_def)
  with c' show ?thesis by (intro exI [of _ c'] conjI) (auto simp: t)
qed

theorem absent_peers_are_given_time_witness:
  "\<exists>c'. rtc_sync_active_peers (\<lambda>_. None) 100 [] [] met = Some c' \<and> (\<exists>i. (i, PendingClose 5) \<in> set (rc_timers c'))"
proof -
  have s: "map_get (rc_sessions met) 5 \<noteq> None" by (simp add: met_state(1))
  from absent_peers_are_given_time [OF met_reachable, where reuse = "\<lambda>_. None" and now = 100 and valid_peers = "[]" and streams = "[]"] s
  show ?thesis by (simp split: if_splits) blast
qed

text \<open>
  Closing everything leaves nothing behind: no session, no open connection, no state, no track, stream or
  audio element, and no timer of a peer who has left; a timer of a failure that is left changes nothing when it fires.
\<close>

lemma closing_all_leaves_nothing:
  assumes "rtc_reachable kind c"
  shows "let c' = rtc_close_all c; r = rc_media c' in
    rc_sessions c' = [] \<and> rc_states c' = [] \<and> (\<forall>n. \<not> rtc_open c' n)
    \<and> rm_tracks r = [] \<and> rm_streams r = [] \<and> rm_audio r = [] \<and> rm_shown_streams r = [] \<and> rm_shown_mics r = []
    \<and> (\<forall>t \<in> set (rc_timers c'). (\<forall>k. snd t \<noteq> PendingClose k) \<and> rtc_timer_fires t c' = rtc_stop_timer (fst t) c')"
proof -
  note all = close_all_state [OF rtc_reachable_ok [OF assms]]
  let ?c = "rtc_close_all c"
  note t = rtc_okD(2) [OF all(6)]
  have "(\<forall>k. snd t \<noteq> PendingClose k) \<and> rtc_timer_fires t ?c = rtc_stop_timer (fst t) ?c" if "t \<in> set (rc_timers ?c)" for t
  proof (cases t)
    case (Pair i p)
    show ?thesis
    proof (cases p)
      case (FailedCheck k n)
      then have "n < length (rc_conns ?c)" using t that by (auto simp: timers_ok_def Pair)
      with all(5) [of n] have "co_state (rc_conns ?c ! n) = PcClosed" by (simp add: rtc_open_def)
      then show ?thesis by (simp add: Pair FailedCheck rtc_timer_fires_def rtc_stop_timer_def Let_def)
    next
      case (PendingClose k)
      then have "map_get (rc_pending ?c) k = Some i" using t that by (auto simp: timers_ok_def Pair)
      then show ?thesis by (simp add: all(2))
    qed
  qed
  moreover have "rm_tracks (rc_media ?c) = [] \<and> rm_streams (rc_media ?c) = [] \<and> rm_audio (rc_media ?c) = []
      \<and> rm_shown_streams (rc_media ?c) = [] \<and> rm_shown_mics (rc_media ?c) = []"
    by (simp add: rtc_close_all_def Let_def media_dispose_def emit_streams_changed_def emit_mic_users_changed_def mic_users_def map_keys_def)
  ultimately show ?thesis using all by (simp add: Let_def)
qed

theorem closing_all_leaves_nothing_witness:
  "rc_sessions met \<noteq> [] \<and> rc_sessions (rtc_close_all met) = []"
  using closing_all_leaves_nothing [OF met_reachable] by (simp add: met_state(2) Let_def)

section \<open>What goes wrong\<close>

text \<open>The hook reads the states when one of them changes; that of a peer who is closed is taken out without an event and stays on show.\<close>

lemma closed_peer_stays_shown:
  "let c = rtc_close_peer 5 False met in rc_states c = [] \<and> rc_shown_states c = [(5, PcNew)]"
  by code_simp

text \<open>
  A second failure starts a second timer and forgets the first, which then closes the connection before its ten seconds
  are over.
\<close>

lemma second_failure_is_not_given_time:
  "let c = fold (\<lambda>(now, state). rtc_state_changes now 0 state) [(0, PcFailed), (9000, PcConnecting), (9500, PcFailed)] met
   in map fst (rc_timers c) = [1, 2] \<and> rc_failed c = [(5, 2)] \<and> rc_sessions (rtc_timer_fires (hd (rc_timers c)) c) = []"
  by code_simp

end
