(* ===== verification/MediaDevices.thy ===== *)
theory MediaDevices
  imports JsText
begin

text \<open>
  Microphone, camera and screen of the voice panel (\<open>components/page/layout/voice/useMediaDevices.ts\<close>) and the recording
  of a meeting in the browser (\<open>useLocalRecording.ts\<close>). Asking the browser for a stream and publishing it are awaited,
  so that each is a request that ends in a later step. A media stream is a number; it is live until its tracks are
  stopped.
\<close>

section \<open>State\<close>

datatype device = Microphone | Camera | Screen

text \<open>\<open>Ask d change\<close> waits for a stream, for a device that is switched on or, with \<open>change\<close>, replaced; \<open>Publish d\<close> for its publication.\<close>

datatype device_request = Ask device bool | Publish device

record device_info =
  di_audio :: bool
  di_video :: bool
  di_id :: string

record media_devices =
  md_stream :: "device \<Rightarrow> nat option"
  md_active :: "device \<Rightarrow> bool"
  md_selected_audio :: string
  md_selected_video :: string
  md_audio_devices :: "device_info list"
  md_video_devices :: "device_info list"
  md_live :: "nat list"
  md_published :: "nat list"
  md_requests :: "(nat \<times> device_request) list"
  md_next_stream :: nat
  md_toasts :: "string list"

definition new_media_devices :: media_devices where
  "new_media_devices = \<lparr>md_stream = (\<lambda>_. None), md_active = (\<lambda>_. False), md_selected_audio = [], md_selected_video = [],
     md_audio_devices = [], md_video_devices = [], md_live = [], md_published = [], md_requests = [], md_next_stream = 0, md_toasts = []\<rparr>"

section \<open>Errors\<close>

text \<open>An \<open>Error\<close> with its message; a \<open>DOMException\<close>, which is an \<open>Error\<close> too, has a name; any other value.\<close>

datatype media_error = PlainError string | DomError string string | OtherError

definition mentions :: "string \<Rightarrow> string \<Rightarrow> bool" where
  "mentions needle s = list_ex (\<lambda>n. starts_with needle (drop n s)) [0..<Suc (length s)]"

definition voice_server_error :: "media_error \<Rightarrow> bool" where
  "voice_server_error e =
     (case (case e of PlainError m \<Rightarrow> Some m | DomError _ m \<Rightarrow> Some m | OtherError \<Rightarrow> None) of
        None \<Rightarrow> False
      | Some m \<Rightarrow> list_ex (\<lambda>w. mentions w (to_lower m)) [''livekit'', ''signal connection'', ''failed to fetch'', ''transport''])"

definition get_microphone_error_message :: "media_error \<Rightarrow> string" where
  "get_microphone_error_message e =
     (if voice_server_error e then ''Could not connect to the voice server.''
      else case e of
        DomError name _ \<Rightarrow>
          if name = ''NotAllowedError'' \<or> name = ''SecurityError''
          then ''Microphone access was blocked. Allow microphone permissions and try again.''
          else if name = ''NotFoundError'' \<or> name = ''DevicesNotFoundError'' then ''No microphone was found for this device.''
          else if name = ''NotReadableError'' \<or> name = ''TrackStartError'' then ''Your microphone is already in use by another app.''
          else ''Could not access microphone.''
      | _ \<Rightarrow> ''Could not access microphone.'')"

definition get_camera_error_message :: "media_error \<Rightarrow> string" where
  "get_camera_error_message e = (if voice_server_error e then ''Could not connect to the voice server.'' else ''Could not access camera.'')"

definition get_screen_share_error_message :: "media_error \<Rightarrow> string" where
  "get_screen_share_error_message e = (if voice_server_error e then ''Could not connect to the voice server.'' else ''Could not share screen.'')"

definition device_error :: "device \<Rightarrow> media_error \<Rightarrow> string" where
  "device_error d = (case d of Microphone \<Rightarrow> get_microphone_error_message | Camera \<Rightarrow> get_camera_error_message | Screen \<Rightarrow> get_screen_share_error_message)"

section \<open>Operations\<close>

definition device_toast :: "string \<Rightarrow> media_devices \<Rightarrow> media_devices" where
  "device_toast m s = s\<lparr>md_toasts := md_toasts s @ [m]\<rparr>"

definition update_devices :: "device_info list \<Rightarrow> media_devices \<Rightarrow> media_devices" where
  "update_devices devices s =
     (let audios = filter di_audio devices; videos = filter di_video devices
      in s\<lparr>md_audio_devices := audios, md_video_devices := videos,
           md_selected_audio := (if audios \<noteq> [] \<and> md_selected_audio s = [] then di_id (hd audios) else md_selected_audio s),
           md_selected_video := (if videos \<noteq> [] \<and> md_selected_video s = [] then di_id (hd videos) else md_selected_video s)\<rparr>)"

text \<open>The stream of the reference is withdrawn, stopped and forgotten; or only stopped and forgotten.\<close>

definition withdraw_stream :: "device \<Rightarrow> media_devices \<Rightarrow> media_devices" where
  "withdraw_stream d s =
     (case md_stream s d of
        Some i \<Rightarrow> s\<lparr>md_published := removeAll i (md_published s), md_live := removeAll i (md_live s), md_stream := (md_stream s)(d := None)\<rparr>
      | None \<Rightarrow> s)"

definition stop_stream :: "device \<Rightarrow> media_devices \<Rightarrow> media_devices" where
  "stop_stream d s =
     (case md_stream s d of
        Some i \<Rightarrow> s\<lparr>md_live := removeAll i (md_live s), md_stream := (md_stream s)(d := None)\<rparr>
      | None \<Rightarrow> s)"

definition set_active :: "device \<Rightarrow> bool \<Rightarrow> media_devices \<Rightarrow> media_devices" where
  "set_active d b s = s\<lparr>md_active := (md_active s)(d := b)\<rparr>"

definition request_number :: "media_devices \<Rightarrow> nat" where
  "request_number s = Suc (fold max (map fst (md_requests s)) 0)"

definition ask_device :: "device \<Rightarrow> bool \<Rightarrow> media_devices \<Rightarrow> media_devices" where
  "ask_device d change s = s\<lparr>md_requests := md_requests s @ [(request_number s, Ask d change)]\<rparr>"

definition toggle_device :: "device \<Rightarrow> media_devices \<Rightarrow> media_devices" where
  "toggle_device d s = (if md_active s d then set_active d False (withdraw_stream d s) else ask_device d False s)"

definition toggle_mic :: "bool \<Rightarrow> bool \<Rightarrow> bool \<Rightarrow> media_devices \<Rightarrow> media_devices" where
  "toggle_mic can_speak secure has_webrtc s =
     (if md_active s Microphone then toggle_device Microphone s
      else if \<not> can_speak then device_toast ''You cannot use the microphone on this route right now.'' s
      else if \<not> secure then device_toast ''Microphone access requires a secure browser context.'' s
      else if \<not> has_webrtc then device_toast ''This browser cannot use WebRTC voice chat.'' s
      else toggle_device Microphone s)"

text \<open>Only microphone and camera can be chosen.\<close>

definition select_device :: "device \<Rightarrow> string \<Rightarrow> media_devices \<Rightarrow> media_devices" where
  "select_device d i s = (case d of Microphone \<Rightarrow> s\<lparr>md_selected_audio := i\<rparr> | Camera \<Rightarrow> s\<lparr>md_selected_video := i\<rparr> | Screen \<Rightarrow> s)"

definition handle_device_change :: "device \<Rightarrow> string \<Rightarrow> media_devices \<Rightarrow> media_devices" where
  "handle_device_change d i s =
     (let s1 = select_device d i s in if md_active s1 d then ask_device d True (withdraw_stream d s1) else s1)"

definition end_request :: "nat \<Rightarrow> media_devices \<Rightarrow> media_devices" where
  "end_request n s = s\<lparr>md_requests := filter (\<lambda>r. fst r \<noteq> n) (md_requests s)\<rparr>"

text \<open>The browser gives a stream; \<open>setMicActive(true)\<close> and its like are called when a device is switched on.\<close>

definition stream_granted :: "nat \<Rightarrow> device \<Rightarrow> bool \<Rightarrow> media_devices \<Rightarrow> media_devices" where
  "stream_granted n d change s0 =
     (let s = end_request n s0; i = md_next_stream s;
          s1 = s\<lparr>md_next_stream := Suc i, md_live := md_live s @ [i], md_stream := (md_stream s)(d := Some i)\<rparr>;
          s2 = (if change then s1 else set_active d True s1)
      in s2\<lparr>md_published := md_published s2 @ [i], md_requests := md_requests s2 @ [(request_number s2, Publish d)]\<rparr>)"

text \<open>The \<open>catch\<close> of a request.\<close>

definition request_failed :: "nat \<Rightarrow> device \<Rightarrow> media_error \<Rightarrow> media_devices \<Rightarrow> media_devices" where
  "request_failed n d e s = device_toast (device_error d e) (set_active d False (stop_stream d (end_request n s)))"

text \<open>The user stops sharing in the browser, which ends the stream \<open>i\<close> by itself.\<close>

definition screen_ended :: "nat \<Rightarrow> media_devices \<Rightarrow> media_devices" where
  "screen_ended i s0 =
     (let s = s0\<lparr>md_live := removeAll i (md_live s0)\<rparr>;
          s1 = (case md_stream s Screen of Some j \<Rightarrow> s\<lparr>md_published := removeAll j (md_published s)\<rparr> | None \<Rightarrow> s)
      in set_active Screen False (s1\<lparr>md_stream := (md_stream s1)(Screen := None)\<rparr>))"

definition stop_live :: "device \<Rightarrow> media_devices \<Rightarrow> media_devices" where
  "stop_live d s = (case md_stream s d of Some i \<Rightarrow> s\<lparr>md_live := removeAll i (md_live s)\<rparr> | None \<Rightarrow> s)"

definition devices_unmount :: "media_devices \<Rightarrow> media_devices" where
  "devices_unmount s = stop_live Screen (stop_live Camera (stop_live Microphone s))"

section \<open>What can happen\<close>

definition request_device :: "device_request \<Rightarrow> device" where
  "request_device r = (case r of Ask d _ \<Rightarrow> d | Publish d \<Rightarrow> d)"

definition device_waits :: "media_devices \<Rightarrow> device \<Rightarrow> bool" where
  "device_waits s d = list_ex (\<lambda>r. request_device (snd r) = d) (md_requests s)"

text \<open>
  A run is patient when nobody touches the switch or the choice of a device whose request is under way, and the user
  does not end the shared screen before it is published.
\<close>

inductive patient_step :: "media_devices \<Rightarrow> media_devices \<Rightarrow> bool" where
    lists_devices: "patient_step s (update_devices devices s)"
  | toggles: "\<not> device_waits s d \<Longrightarrow> patient_step s (toggle_device d s)"
  | toggles_mic: "\<not> device_waits s Microphone \<Longrightarrow> patient_step s (toggle_mic can_speak secure has_webrtc s)"
  | changes_device: "\<not> device_waits s d \<Longrightarrow> patient_step s (handle_device_change d i s)"
  | grants: "(n, Ask d change) \<in> set (md_requests s) \<Longrightarrow> patient_step s (stream_granted n d change s)"
  | publishes: "(n, Publish d) \<in> set (md_requests s) \<Longrightarrow> patient_step s (end_request n s)"
  | refuses: "(n, r) \<in> set (md_requests s) \<Longrightarrow> patient_step s (request_failed n (request_device r) e s)"
  | ends_screen: "md_stream s Screen = Some i \<Longrightarrow> \<not> device_waits s Screen \<Longrightarrow> patient_step s (screen_ended i s)"

section \<open>The invariant\<close>

text \<open>
  One request at most for each device; the live streams are those of the references, a device has one only if
  it is active, and an active one without a stream is being replaced.
\<close>

definition devices_ok :: "media_devices \<Rightarrow> bool" where
  "devices_ok s =
     (distinct (map fst (md_requests s)) \<and> distinct (map (request_device \<circ> snd) (md_requests s))
      \<and> (\<forall>i. i \<in> set (md_live s) \<longleftrightarrow> (\<exists>d. md_stream s d = Some i))
      \<and> (\<forall>i \<in> set (md_live s) \<union> set (md_published s). i < md_next_stream s)
      \<and> (\<forall>d e i. md_stream s d = Some i \<and> md_stream s e = Some i \<longrightarrow> d = e)
      \<and> set (md_live s) \<subseteq> set (md_published s)
      \<and> (\<forall>d. md_active s d \<longleftrightarrow> md_stream s d \<noteq> None \<or> (\<exists>n. (n, Ask d True) \<in> set (md_requests s)))
      \<and> (\<forall>n d c. (n, Ask d c) \<in> set (md_requests s) \<longrightarrow> md_stream s d = None))"


lemma request_number_fresh: "r \<in> set (md_requests s) \<Longrightarrow> fst r < request_number s"
proof -
  have "x \<in> set xs \<Longrightarrow> x \<le> fold max xs a" "a \<le> fold max xs a" for x a and xs :: "nat list"
    by (induction xs arbitrary: a) (auto intro: le_trans [OF max.cobounded2] le_trans [OF max.cobounded1])
  then show "r \<in> set (md_requests s) \<Longrightarrow> fst r < request_number s" by (simp add: request_number_def less_Suc_eq_le)
qed

lemma devices_okD:
  assumes "devices_ok s"
  shows "distinct (map fst (md_requests s))" "distinct (map (request_device \<circ> snd) (md_requests s))"
    "i \<in> set (md_live s) \<longleftrightarrow> (\<exists>d. md_stream s d = Some i)" "i \<in> set (md_live s) \<Longrightarrow> i < md_next_stream s"
    "i \<in> set (md_published s) \<Longrightarrow> i < md_next_stream s"
    "md_stream s d = Some i \<Longrightarrow> md_stream s e = Some i \<Longrightarrow> d = e" "i \<in> set (md_live s) \<Longrightarrow> i \<in> set (md_published s)"
    "md_active s d \<longleftrightarrow> md_stream s d \<noteq> None \<or> (\<exists>n. (n, Ask d True) \<in> set (md_requests s))"
    "(n, Ask d c) \<in> set (md_requests s) \<Longrightarrow> md_stream s d = None"
  using assms unfolding devices_ok_def by blast+

text \<open>What the invariant reads of the state.\<close>

lemma devices_ok_cong:
  assumes "devices_ok s" "md_stream s' = md_stream s" "md_active s' = md_active s" "md_live s' = md_live s"
    "md_published s' = md_published s" "md_requests s' = md_requests s" "md_next_stream s' = md_next_stream s"
  shows "devices_ok s'"
  using assms by (simp add: devices_ok_def)

lemma request_device_simps [simp]: "request_device (Ask d c) = d" "request_device (Publish d) = d"
  by (simp_all add: request_device_def)

lemma device_waits_iff: "device_waits s d \<longleftrightarrow> (\<exists>n r. (n, r) \<in> set (md_requests s) \<and> request_device r = d)"
proof
  assume "device_waits s d"
  then obtain r where "r \<in> set (md_requests s)" "request_device (snd r) = d" by (auto simp: device_waits_def list_ex_iff)
  then show "\<exists>n r. (n, r) \<in> set (md_requests s) \<and> request_device r = d" by (metis prod.collapse)
qed (force simp: device_waits_def list_ex_iff)

lemma number_unused: "request_number s \<notin> fst ` set (md_requests s)"
  using request_number_fresh [of _ s] by fastforce

lemma withdraw_ok:
  assumes "devices_ok s" "\<not> device_waits s d"
  shows "devices_ok (set_active d False (withdraw_stream d s))"
proof (cases "md_stream s d")
  case None
  have "(n, Ask d True) \<notin> set (md_requests s)" for n using assms(2) by (auto simp: device_waits_iff request_device_def split: device_request.splits)
  then show ?thesis using assms(1) None by (auto simp: devices_ok_def withdraw_stream_def set_active_def)
next
  case (Some i)
  note ok = devices_okD [OF assms(1)]
  have n: "(n, Ask d c) \<notin> set (md_requests s)" for n c using assms(2) by (auto simp: device_waits_iff request_device_def split: device_request.splits)
  have i: "md_stream s e = Some i \<longleftrightarrow> e = d" for e using ok(6) Some by blast
  let ?s = "set_active d False (withdraw_stream d s)"
  have s: "md_stream ?s = (md_stream s)(d := None)" "md_live ?s = removeAll i (md_live s)" "md_published ?s = removeAll i (md_published s)"
    "md_requests ?s = md_requests s" "md_active ?s = (md_active s)(d := False)" "md_next_stream ?s = md_next_stream s"
    using Some by (simp_all add: withdraw_stream_def set_active_def)
  have live: "j \<in> set (md_live ?s) \<longleftrightarrow> (\<exists>e. md_stream ?s e = Some j)" for j
  proof (cases "j = i")
    case True
    with i show ?thesis unfolding s by auto
  next
    case False
    then have "md_stream ?s e = Some j \<longleftrightarrow> md_stream s e = Some j" for e using Some unfolding s by auto
    with False ok(3) [of j] show ?thesis unfolding s by simp
  qed
  show ?thesis unfolding devices_ok_def
  proof (intro conjI allI)
    show "md_active ?s e \<longleftrightarrow> md_stream ?s e \<noteq> None \<or> (\<exists>n. (n, Ask e True) \<in> set (md_requests ?s))" for e
      using ok(8) [of e] n unfolding s by (cases "e = d") auto
  qed (use live ok(1,2,4,5,6,7,9) s in auto)
qed

lemma distinct_snoc: "distinct (map f (xs @ [x])) \<longleftrightarrow> distinct (map f xs) \<and> f x \<notin> f ` set xs"
  by auto

lemma ask_ok:
  assumes "devices_ok s" "\<not> device_waits s d" "md_stream s d = None" "change \<or> \<not> md_active s d"
  shows "devices_ok ((if change then set_active d True else (\<lambda>s. s)) (ask_device d change s))"
proof -
  note ok = devices_okD [OF assms(1)]
  let ?s = "(if change then set_active d True else (\<lambda>s. s)) (ask_device d change s)"
  have s: "md_requests ?s = md_requests s @ [(request_number s, Ask d change)]" "md_stream ?s = md_stream s" "md_live ?s = md_live s"
    "md_published ?s = md_published s" "md_next_stream ?s = md_next_stream s"
    "md_active ?s e = (if e = d \<and> change then True else md_active s e)" for e
    by (simp_all add: ask_device_def set_active_def)
  have n: "(n, Ask d c) \<notin> set (md_requests s)" for n c using assms(2) by (auto simp: device_waits_iff request_device_def split: device_request.splits)
  have f: "request_number s \<notin> fst ` set (md_requests s)" by (rule number_unused)
  have w: "d \<notin> (request_device \<circ> snd) ` set (md_requests s)" using assms(2) by (force simp: device_waits_def list_ex_iff)
  show ?thesis unfolding devices_ok_def s(1-5)
  proof (intro conjI allI)
    show "distinct (map fst (md_requests s @ [(request_number s, Ask d change)]))" using ok(1) f by (simp add: distinct_snoc)
    show "distinct (map (request_device \<circ> snd) (md_requests s @ [(request_number s, Ask d change)]))"
      using ok(2) w by (simp add: request_device_def)
    show "md_active ?s e \<longleftrightarrow> md_stream s e \<noteq> None \<or> (\<exists>n. (n, Ask e True) \<in> set (md_requests s @ [(request_number s, Ask d change)]))" for e
      using ok(8) [of e] assms(3,4) n unfolding s(6) by (cases "e = d") auto
  qed (use ok assms(3) in auto)
qed


lemma end_request_simps [simp]:
  "md_stream (end_request n s) = md_stream s" "md_live (end_request n s) = md_live s" "md_published (end_request n s) = md_published s"
  "md_active (end_request n s) = md_active s" "md_next_stream (end_request n s) = md_next_stream s"
  "md_requests (end_request n s) = filter (\<lambda>r. fst r \<noteq> n) (md_requests s)"
  by (simp_all add: end_request_def)

lemma same_request:
  assumes "devices_ok s" "(n, r) \<in> set (md_requests s)" "(n, r') \<in> set (md_requests s)"
  shows "r' = r"
  using devices_okD(1) [OF assms(1)] assms(2,3) by (metis eq_key_imp_eq_value)

lemma one_request:
  assumes "devices_ok s" "(n, r) \<in> set (md_requests s)" "(m, r') \<in> set (md_requests s)" "request_device r' = request_device r"
  shows "m = n \<and> r' = r"
proof -
  from assms obtain i j where "i < length (md_requests s)" "md_requests s ! i = (n, r)" "j < length (md_requests s)" "md_requests s ! j = (m, r')"
    by (auto simp: in_set_conv_nth)
  moreover from this assms(4) have "map (request_device \<circ> snd) (md_requests s) ! i = map (request_device \<circ> snd) (md_requests s) ! j" by simp
  ultimately have "i = j" using nth_eq_iff_index_eq [OF devices_okD(2) [OF assms(1)], of i j] by simp
  then show ?thesis using \<open>md_requests s ! i = (n, r)\<close> \<open>md_requests s ! j = (m, r')\<close> by simp
qed

text \<open>Without its request a device waits for nothing.\<close>

lemma ended_request:
  assumes "devices_ok s" "(n, r) \<in> set (md_requests s)"
  shows "\<not> device_waits (end_request n s) (request_device r)"
  using one_request [OF assms] by (auto simp: device_waits_iff)

lemma distinct_map_filtered: "distinct (map f xs) \<Longrightarrow> distinct (map f (filter P xs))"
  by (simp add: distinct_map inj_on_def)

lemma publish_done_ok:
  assumes "devices_ok s" "(n, Publish d) \<in> set (md_requests s)"
  shows "devices_ok (end_request n s)"
proof -
  note ok = devices_okD [OF assms(1)]
  have k: "(m, Ask e c) \<in> set (md_requests s) \<Longrightarrow> m \<noteq> n" for m e c using same_request [OF assms] by auto
  show ?thesis unfolding devices_ok_def end_request_simps
  proof (intro conjI allI)
    show "md_active s e \<longleftrightarrow> md_stream s e \<noteq> None \<or> (\<exists>m. (m, Ask e True) \<in> set (filter (\<lambda>r. fst r \<noteq> n) (md_requests s)))" for e
      using ok(8) [of e] k by auto
  qed (use ok distinct_map_filtered in auto)
qed

lemma grant_ok:
  assumes "devices_ok s" "(n, Ask d change) \<in> set (md_requests s)"
  shows "devices_ok (stream_granted n d change s)"
proof -
  note ok = devices_okD [OF assms(1)]
  let ?i = "md_next_stream s" and ?e = "end_request n s" and ?s = "stream_granted n d change s"
  obtain k where k: "k \<notin> fst ` set (md_requests ?e)"
    and s: "md_requests ?s = md_requests ?e @ [(k, Publish d)]" "md_stream ?s = (md_stream s)(d := Some ?i)" "md_live ?s = md_live s @ [?i]"
      "md_published ?s = md_published s @ [?i]" "md_next_stream ?s = Suc ?i"
      "md_active ?s e = (if e = d \<and> \<not> change then True else md_active s e)" for e
  proof
    show "request_number ?e \<notin> fst ` set (md_requests ?e)" by (rule number_unused)
    show "md_requests ?s = md_requests ?e @ [(request_number ?e, Publish d)]" 
      by (simp add: stream_granted_def set_active_def Let_def request_number_def)
  qed (simp_all add: stream_granted_def set_active_def Let_def)
  have none: "md_stream s d = None" by (rule ok(9) [OF assms(2)])
  have free: "(m, r) \<in> set (md_requests ?e) \<Longrightarrow> request_device r \<noteq> d" for m r
    using ended_request [OF assms] by (auto simp: device_waits_iff request_device_def)
  have unset: "d \<notin> (request_device \<circ> snd) ` set (md_requests ?e)" using ended_request [OF assms] by (force simp: device_waits_def list_ex_iff)
  have fresh: "md_stream s e \<noteq> Some ?i" for e using ok(3) [of ?i] ok(4) [of ?i] by auto
  have live: "j \<in> set (md_live ?s) \<longleftrightarrow> (\<exists>e. md_stream ?s e = Some j)" for j
  proof (cases "j = ?i")
    case False
    then have "md_stream ?s e = Some j \<longleftrightarrow> md_stream s e = Some j" for e using none unfolding s by auto
    with False ok(3) [of j] show ?thesis unfolding s by simp
  qed (auto simp: s)
  show ?thesis unfolding devices_ok_def
  proof (intro conjI allI impI)
    show "distinct (map fst (md_requests ?s))" using ok(1) k unfolding s by (simp add: distinct_snoc distinct_map_filtered)
    show "distinct (map (request_device \<circ> snd) (md_requests ?s))"
      using ok(2) unset unfolding s by (simp add: distinct_snoc distinct_map_filtered)
    show "e = f" if "md_stream ?s e = Some j \<and> md_stream ?s f = Some j" for e f j
      using that ok(6) fresh unfolding s by (auto split: if_splits)
    show "md_active ?s e \<longleftrightarrow> md_stream ?s e \<noteq> None \<or> (\<exists>m. (m, Ask e True) \<in> set (md_requests ?s))" for e
    proof (cases "e = d")
      case True
      have "change \<Longrightarrow> md_active s d" using ok(8) [of d] assms(2) by auto
      with True show ?thesis unfolding s by simp
    next
      case False
      have "(m, Ask e True) \<in> set (md_requests s) \<Longrightarrow> m \<noteq> n" for m
        using same_request [OF assms, of "Ask e True"] False by auto
      with False ok(8) [of e] show ?thesis unfolding s by auto
    qed
    show "md_stream ?s e = None" if "(m, Ask e c) \<in> set (md_requests ?s)" for m e c
      using that free [of m "Ask e c"] ok(9) [of m e c] unfolding s by (auto simp: request_device_def)
  qed (use live ok(4,5,7) s in \<open>auto intro: less_SucI\<close>)
qed


lemma stop_fields:
  "md_requests (set_active d False (stop_stream d s)) = md_requests s" "md_next_stream (set_active d False (stop_stream d s)) = md_next_stream s"
  "md_published (set_active d False (stop_stream d s)) = md_published s"
  "md_stream (set_active d False (stop_stream d s)) = (md_stream s)(d := None)"
  "md_live (set_active d False (stop_stream d s)) = (case md_stream s d of Some i \<Rightarrow> removeAll i (md_live s) | None \<Rightarrow> md_live s)"
  "md_active (set_active d False (stop_stream d s)) = (md_active s)(d := False)"
  by (auto simp: stop_stream_def set_active_def split: option.split)

lemma failed_ok:
  assumes "devices_ok s" "(n, r) \<in> set (md_requests s)"
  shows "devices_ok (request_failed n (request_device r) e s)"
proof -
  note ok = devices_okD [OF assms(1)]
  let ?d = "request_device r" and ?t = "set_active (request_device r) False (stop_stream (request_device r) (end_request n s))"
  have free: "(m, q) \<in> set (md_requests s) \<Longrightarrow> m \<noteq> n \<Longrightarrow> request_device q \<noteq> ?d" for m q using one_request [OF assms, of m q] by auto
  have live: "j \<in> set (md_live ?t) \<longleftrightarrow> (\<exists>f. md_stream ?t f = Some j)" for j
  proof (cases "md_stream s ?d = Some j")
    case True
    have "md_stream ?t f \<noteq> Some j" for f using ok(6) [OF True, of f] by (simp add: stop_fields) metis
    moreover have "j \<notin> set (md_live ?t)" using True by (simp add: stop_fields)
    ultimately show ?thesis by blast
  next
    case False
    then have e: "md_stream ?t f = Some j \<longleftrightarrow> md_stream s f = Some j" for f by (auto simp: stop_fields)
    have "j \<in> set (md_live ?t) \<longleftrightarrow> j \<in> set (md_live s)" using False by (auto simp: stop_fields split: option.split)
    then show ?thesis by (simp only: e ok(3))
  qed
  have sub: "set (md_live ?t) \<subseteq> set (md_live s)" by (auto simp: stop_fields split: option.split)
  have "devices_ok ?t" unfolding devices_ok_def
  proof (intro conjI allI)
    show "md_active ?t f \<longleftrightarrow> md_stream ?t f \<noteq> None \<or> (\<exists>m. (m, Ask f True) \<in> set (md_requests ?t))" for f
    proof (cases "f = ?d")
      case True
      have "(m, Ask f True) \<notin> set (md_requests ?t)" for m using free [of m "Ask f True"] True by (auto simp: stop_fields request_device_def)
      with True show ?thesis by (simp add: stop_fields)
    next
      case False
      have "(m, Ask f True) \<in> set (md_requests s) \<Longrightarrow> m \<noteq> n" for m
        using same_request [OF assms, of "Ask f True"] False by (auto simp: request_device_def)
      with False ok(8) [of f] show ?thesis by (auto simp: stop_fields)
    qed
    show "\<forall>i \<in> set (md_live ?t) \<union> set (md_published ?t). i < md_next_stream ?t" using sub ok(4,5) by (auto simp: stop_fields)
    show "set (md_live ?t) \<subseteq> set (md_published ?t)" using sub ok(7) by (auto simp: stop_fields)
  qed (use live ok(1,2,6,9) distinct_map_filtered in \<open>auto simp: stop_fields split: if_splits\<close>)
  then show ?thesis by (rule devices_ok_cong) (simp_all add: request_failed_def device_toast_def)
qed

lemma screen_ended_withdraws:
  assumes "md_stream s Screen = Some i"
  shows "screen_ended i s = set_active Screen False (withdraw_stream Screen s)"
  using assms by (cases s) (simp add: screen_ended_def withdraw_stream_def set_active_def Let_def)

lemma toggle_ok:
  assumes "devices_ok s" "\<not> device_waits s d"
  shows "devices_ok (toggle_device d s)"
proof (cases "md_active s d")
  case False
  then have "md_stream s d = None" using devices_okD(8) [OF assms(1), of d] by simp
  from ask_ok [OF assms this, of False] False show ?thesis by (simp add: toggle_device_def)
qed (simp add: toggle_device_def withdraw_ok assms)

lemma waits_simps [simp]:
  "device_waits (set_active e b s) d = device_waits s d" "device_waits (withdraw_stream e s) d = device_waits s d" "device_waits (select_device e i s) d = device_waits s d"
  by (auto simp: device_waits_def set_active_def withdraw_stream_def select_device_def split: option.split device.split)

lemma select_ok: "devices_ok s \<Longrightarrow> devices_ok (select_device d i s)"
  by (rule devices_ok_cong [where s = s]) (auto simp: select_device_def split: device.split)

lemma change_ok:
  assumes "devices_ok s" "\<not> device_waits s d"
  shows "devices_ok (handle_device_change d i s)"
proof (cases "md_active (select_device d i s) d")
  case True
  let ?s = "select_device d i s" and ?w = "set_active d False (withdraw_stream d (select_device d i s))"
  have "devices_ok ?w" using withdraw_ok [OF select_ok [OF assms(1)], of d] assms(2) by simp
  moreover have "md_stream ?w d = None" by (auto simp: set_active_def withdraw_stream_def split: option.split)
  ultimately have "devices_ok (set_active d True (ask_device d True ?w))" using ask_ok [of ?w d True] assms(2) by simp
  then have "devices_ok (ask_device d True (withdraw_stream d ?s))"
    by (rule devices_ok_cong)
      (use True in \<open>auto simp: set_active_def ask_device_def withdraw_stream_def request_number_def fun_upd_idem split: option.split\<close>)
  then show ?thesis using True by (simp add: handle_device_change_def)
qed (simp add: handle_device_change_def select_ok assms(1))

lemma patient_step_ok: "patient_step s s' \<Longrightarrow> devices_ok s \<Longrightarrow> devices_ok s'"
proof (induction rule: patient_step.induct)
  case (lists_devices s devices)
  then show ?case by (rule devices_ok_cong) (simp_all add: update_devices_def Let_def)
next
  case (toggles_mic s can_speak secure has_webrtc)
  have "devices_ok (device_toast m s)" for m by (rule devices_ok_cong [OF toggles_mic(2)]) (simp_all add: device_toast_def)
  with toggles_mic toggle_ok show ?case by (simp add: toggle_mic_def)
next
  case (ends_screen s i)
  then show ?case using withdraw_ok by (simp add: screen_ended_withdraws)
qed (simp_all add: toggle_ok change_ok grant_ok publish_done_ok failed_ok)

lemma patient_ok: "patient_step\<^sup>*\<^sup>* new_media_devices s \<Longrightarrow> devices_ok s"
  by (induction rule: rtranclp_induct) (simp add: devices_ok_def new_media_devices_def, rule patient_step_ok)


section \<open>The recording of a meeting\<close>

text \<open>
  The meeting is recorded from the shared screen and the voices. A voice is a source that is connected to the
  recorder, known by a name; \<open>lr_connected\<close> has the sources that are connected, each with its stream.
\<close>

record local_recording =
  lr_recorder :: bool
  lr_context :: bool
  lr_sources :: "(string, nat) jsmap"
  lr_connected :: "(nat \<times> nat) list"
  lr_next :: nat
  lr_camera :: bool
  lr_stopped :: "string list"
  lr_saved :: "string list"
  lr_errors :: nat

definition new_local_recording :: local_recording where
  "new_local_recording = \<lparr>lr_recorder = False, lr_context = False, lr_sources = [], lr_connected = [], lr_next = 0, lr_camera = False,
     lr_stopped = [], lr_saved = [], lr_errors = 0\<rparr>"

text \<open>A voice: its name, its stream and whether that has an audio track.\<close>

type_synonym voice = "string \<times> nat \<times> bool"

definition connect_stream :: "(string, nat) jsmap \<Rightarrow> voice \<Rightarrow> (string, nat) jsmap \<times> local_recording \<Rightarrow> (string, nat) jsmap \<times> local_recording" where
  "connect_stream current = (\<lambda>(name, stream, audible) (chosen, s).
     (if \<not> audible then (chosen, s)
      else case map_get current name of
        Some source \<Rightarrow> (map_set name source chosen, s)
      | None \<Rightarrow> (map_set name (lr_next s) chosen, s\<lparr>lr_connected := lr_connected s @ [(lr_next s, stream)], lr_next := Suc (lr_next s)\<rparr>)))"

definition voices_of :: "(nat \<times> bool) option \<Rightarrow> (int \<times> nat \<times> bool) list \<Rightarrow> voice list" where
  "voices_of mic remotes =
     (case mic of Some (stream, audible) \<Rightarrow> [(''local-mic'', stream, audible)] | None \<Rightarrow> [])
     @ map (\<lambda>(peer, stream, audible). (''remote-'' @ dec_int peer, stream, audible)) remotes"

text \<open>The effect that runs when the recording, the microphone or the remote streams change.\<close>

definition connect_voices :: "bool \<Rightarrow> (nat \<times> bool) option \<Rightarrow> (int \<times> nat \<times> bool) list \<Rightarrow> local_recording \<Rightarrow> local_recording" where
  "connect_voices is_recording mic remotes s =
     (if \<not> is_recording \<or> \<not> lr_context s then s
      else
        let (chosen, s1) = fold (connect_stream (lr_sources s)) (voices_of mic remotes) ([], s);
            gone = map snd (filter (\<lambda>(name, _). \<not> map_has chosen name) (lr_sources s))
        in s1\<lparr>lr_connected := filter (\<lambda>(source, _). source \<notin> set gone) (lr_connected s1), lr_sources := chosen\<rparr>)"

text \<open>The effect that runs when the recording or the screen changes.\<close>

definition record_screen :: "bool \<Rightarrow> bool \<Rightarrow> local_recording \<Rightarrow> local_recording" where
  "record_screen is_recording screen s =
     (if is_recording \<and> screen \<and> \<not> lr_recorder s then s\<lparr>lr_recorder := True, lr_context := True\<rparr>
      else if \<not> is_recording \<and> lr_recorder s then
        s\<lparr>lr_recorder := False, lr_stopped := lr_stopped s @ [''meeting-recording''],
          lr_connected := filter (\<lambda>(source, _). source \<notin> snd ` set (lr_sources s)) (lr_connected s), lr_sources := [], lr_context := False\<rparr>
      else s)"

definition record_camera :: "bool \<Rightarrow> bool \<Rightarrow> local_recording \<Rightarrow> local_recording" where
  "record_camera is_recording camera s =
     (if is_recording \<and> camera \<and> \<not> lr_camera s then s\<lparr>lr_camera := True\<rparr>
      else if (\<not> is_recording \<or> \<not> camera) \<and> lr_camera s then s\<lparr>lr_camera := False, lr_stopped := lr_stopped s @ [''camera-recording'']\<rparr>
      else s)"

text \<open>
  A recorder has stopped, and its file is saved: where the browser can, in a place the user picks, which may be
  called off or fail; else by a link.
\<close>

datatype save_outcome = Saved | SaveAborted | SaveFailed

definition save_recording :: "bool \<Rightarrow> save_outcome \<Rightarrow> string \<Rightarrow> local_recording \<Rightarrow> local_recording" where
  "save_recording picker outcome name s =
     s\<lparr>lr_stopped := remove1 name (lr_stopped s),
       lr_saved := (if picker \<and> outcome \<noteq> Saved then lr_saved s else lr_saved s @ [name]),
       lr_errors := (if picker \<and> outcome = SaveFailed then Suc (lr_errors s) else lr_errors s)\<rparr>"

definition recording_unmount :: "local_recording \<Rightarrow> local_recording" where
  "recording_unmount s =
     s\<lparr>lr_context := False, lr_stopped := lr_stopped s @ (if lr_recorder s then [''meeting-recording''] else []) @ (if lr_camera s then [''camera-recording''] else [])\<rparr>"

section \<open>Sources\<close>

text \<open>The effects in any order, where every peer has one stream.\<close>

inductive recording_step :: "local_recording \<Rightarrow> local_recording \<Rightarrow> bool" where
    voices_change: "distinct (map fst remotes) \<Longrightarrow> recording_step s (connect_voices is_recording mic remotes s)"
  | screen_changes: "recording_step s (record_screen is_recording screen s)"
  | camera_changes: "recording_step s (record_camera is_recording camera s)"
  | recorder_stopped: "name \<in> set (lr_stopped s) \<Longrightarrow> recording_step s (save_recording picker outcome name s)"

text \<open>The sources that are known are those that are connected, and each has one name.\<close>

definition recording_ok :: "local_recording \<Rightarrow> bool" where
  "recording_ok s =
     ((\<forall>n. n \<in> fst ` set (lr_connected s) \<longleftrightarrow> (\<exists>name. map_get (lr_sources s) name = Some n))
      \<and> (\<forall>a b n. map_get (lr_sources s) a = Some n \<and> map_get (lr_sources s) b = Some n \<longrightarrow> a = b)
      \<and> (\<forall>name n. map_get (lr_sources s) name = Some n \<longrightarrow> n < lr_next s)
      \<and> distinct (map_keys (lr_sources s)))"

text \<open>While the voices are gone through: \<open>old\<close> are the sources known before, \<open>n\<close> the first new one, \<open>cs\<close> those connected.\<close>

definition choosing :: "(string, nat) jsmap \<Rightarrow> nat \<Rightarrow> nat set \<Rightarrow> (string, nat) jsmap \<times> local_recording \<Rightarrow> bool" where
  "choosing old n cs = (\<lambda>(chosen, s).
     n \<le> lr_next s \<and> distinct (map_keys chosen)
     \<and> (\<forall>name v. map_get chosen name = Some v \<longrightarrow> (case map_get old name of Some w \<Rightarrow> v = w | None \<Rightarrow> n \<le> v \<and> v < lr_next s))
     \<and> (\<forall>a b v. (map_get chosen a = Some v \<and> map_get old a = None) \<and> (map_get chosen b = Some v \<and> map_get old b = None) \<longrightarrow> a = b)
     \<and> (\<forall>v. v \<in> fst ` set (lr_connected s) \<longleftrightarrow> v \<in> cs \<or> (\<exists>name. map_get chosen name = Some v \<and> map_get old name = None)))"

lemma choosing_next:
  assumes "choosing old n cs (chosen, s)" "map_get chosen name = None"
  shows "choosing old n cs (connect_stream old (name, stream, audible) (chosen, s))"
proof (cases "audible \<and> map_get old name = None")
  case True
  then have e: "connect_stream old (name, stream, audible) (chosen, s)
      = (map_set name (lr_next s) chosen, s\<lparr>lr_connected := lr_connected s @ [(lr_next s, stream)], lr_next := Suc (lr_next s)\<rparr>)"
    by (simp add: connect_stream_def)
  have fresh: "map_get chosen a = Some v \<Longrightarrow> map_get old a = None \<Longrightarrow> v < lr_next s" for a v
    using assms(1) by (fastforce simp: choosing_def)
  let ?c = "map_set name (lr_next s) chosen" and ?s = "s\<lparr>lr_connected := lr_connected s @ [(lr_next s, stream)], lr_next := Suc (lr_next s)\<rparr>"
  have new: "(map_get ?c a = Some v \<and> map_get old a = None) \<longleftrightarrow> a = name \<and> v = lr_next s \<or> (map_get chosen a = Some v \<and> map_get old a = None)" for a v
    using assms(2) True by auto
  have n: "n \<le> lr_next s" using assms(1) by (simp add: choosing_def)
  then have "n \<le> lr_next ?s" "distinct (map_keys ?c)" using assms(1) by (simp_all add: choosing_def distinct_map_keys_set)
  moreover have "case map_get old a of Some w \<Rightarrow> v = w | None \<Rightarrow> n \<le> v \<and> v < lr_next ?s" if "map_get ?c a = Some v" for a v
  proof (cases "a = name")
    case False
    with that have "map_get chosen a = Some v" by simp
    with assms(1) have "case map_get old a of Some w \<Rightarrow> v = w | None \<Rightarrow> n \<le> v \<and> v < lr_next s" by (auto simp: choosing_def)
    then show ?thesis by (auto split: option.splits)
  qed (use that True n in simp)
  moreover have "a = b" if "map_get ?c a = Some v \<and> map_get old a = None" "map_get ?c b = Some v \<and> map_get old b = None" for a b v
    using that fresh assms(1) unfolding new by (auto simp: choosing_def)
  moreover have "v \<in> fst ` set (lr_connected ?s) \<longleftrightarrow> v \<in> cs \<or> (\<exists>a. map_get ?c a = Some v \<and> map_get old a = None)" for v
    using assms(1) unfolding new choosing_def by (auto simp: image_Un)
  ultimately show ?thesis unfolding e choosing_def prod.case by blast
next
  case False
  then have "connect_stream old (name, stream, audible) (chosen, s) = (chosen, s)
    \<or> (\<exists>w. map_get old name = Some w \<and> connect_stream old (name, stream, audible) (chosen, s) = (map_set name w chosen, s))"
    by (auto simp: connect_stream_def)
  then show ?thesis
  proof
    assume "\<exists>w. map_get old name = Some w \<and> connect_stream old (name, stream, audible) (chosen, s) = (map_set name w chosen, s)"
    then obtain w where w: "map_get old name = Some w" "connect_stream old (name, stream, audible) (chosen, s) = (map_set name w chosen, s)" by blast
    have new: "map_get (map_set name w chosen) a = Some v \<and> map_get old a = None \<longleftrightarrow> map_get chosen a = Some v \<and> map_get old a = None" for a v
      using w(1) by auto
    have "map_get (map_set name w chosen) a = Some v \<Longrightarrow> (case map_get old a of Some w \<Rightarrow> v = w | None \<Rightarrow> n \<le> v \<and> v < lr_next s)" for a v
      using assms(1) w(1) by (cases "a = name") (auto simp: choosing_def)
    moreover have "distinct (map_keys (map_set name w chosen))" using assms(1) by (simp add: choosing_def distinct_map_keys_set)
    ultimately show ?thesis using assms(1) unfolding w(2) choosing_def prod.case new by blast
  qed (simp add: assms(1))
qed

lemma connect_keys:
  "map_get (fst (connect_stream old (name, stream, audible) p)) a \<noteq> None \<longleftrightarrow> map_get (fst p) a \<noteq> None \<or> a = name \<and> audible"
  by (cases p) (auto simp: connect_stream_def split: option.split)

lemma choosing_all:
  "choosing old n cs p \<Longrightarrow> distinct (map fst vs) \<Longrightarrow> \<forall>v \<in> set vs. map_get (fst p) (fst v) = None \<Longrightarrow>
     choosing old n cs (fold (connect_stream old) vs p)
     \<and> (\<forall>a. map_get (fst (fold (connect_stream old) vs p)) a \<noteq> None \<longleftrightarrow> map_get (fst p) a \<noteq> None \<or> (\<exists>stream. (a, stream, True) \<in> set vs))"
proof (induction vs arbitrary: p)
  case (Cons v vs)
  obtain name stream audible where v: "v = (name, stream, audible)" by (cases v)
  let ?p = "connect_stream old v p"
  have "choosing old n cs ?p" using choosing_next [of old n cs "fst p" "snd p"] Cons.prems unfolding v by simp
  moreover have "\<forall>w \<in> set vs. map_get (fst ?p) (fst w) = None"
  proof
    fix w assume w: "w \<in> set vs"
    then have "fst w \<noteq> name" using Cons.prems(2) v by force
    moreover have "map_get (fst p) (fst w) = None" using Cons.prems(3) w by simp
    ultimately show "map_get (fst ?p) (fst w) = None" using connect_keys [of old name stream audible p "fst w"] unfolding v by blast
  qed
  ultimately have "choosing old n cs (fold (connect_stream old) vs ?p)
      \<and> (\<forall>a. map_get (fst (fold (connect_stream old) vs ?p)) a \<noteq> None \<longleftrightarrow> map_get (fst ?p) a \<noteq> None \<or> (\<exists>stream. (a, stream, True) \<in> set vs))"
    using Cons.IH [of ?p] Cons.prems(2) by simp
  then show ?case using connect_keys [of old name stream audible p] unfolding v by auto
qed simp

lemma connect_sources:
  assumes ok: "recording_ok s" and ctx: "lr_context s" and names: "distinct (map fst (voices_of mic remotes))"
  defines "s' \<equiv> connect_voices True mic remotes s"
  shows "recording_ok s'" "map_get (lr_sources s') a \<noteq> None \<longleftrightarrow> (\<exists>stream. (a, stream, True) \<in> set (voices_of mic remotes))"
proof -
  let ?old = "lr_sources s" and ?cs = "fst ` set (lr_connected s)"
  obtain chosen s1 where f: "fold (connect_stream ?old) (voices_of mic remotes) ([], s) = (chosen, s1)" by (metis prod.collapse)
  have "choosing ?old (lr_next s) ?cs ([], s)" by (simp add: choosing_def map_keys_def)
  from choosing_all [OF this names] f have c: "choosing ?old (lr_next s) ?cs (chosen, s1)"
    and keys: "map_get chosen a \<noteq> None \<longleftrightarrow> (\<exists>stream. (a, stream, True) \<in> set (voices_of mic remotes))" for a
    by simp_all
  let ?gone = "map snd (filter (\<lambda>(name, _). \<not> map_has chosen name) ?old)"
  have s': "s' = s1\<lparr>lr_connected := filter (\<lambda>(source, _). source \<notin> set ?gone) (lr_connected s1), lr_sources := chosen\<rparr>"
    using ctx f by (simp add: s'_def connect_voices_def)
  then show "map_get (lr_sources s') a \<noteq> None \<longleftrightarrow> (\<exists>stream. (a, stream, True) \<in> set (voices_of mic remotes))"
    using keys [of a] by simp
  have old: "map_get ?old a = Some n \<Longrightarrow> n \<in> ?cs" "map_get ?old a = Some n \<Longrightarrow> n < lr_next s"
    "map_get ?old a = Some n \<Longrightarrow> map_get ?old b = Some n \<Longrightarrow> a = b" "n \<in> ?cs \<Longrightarrow> \<exists>a. map_get ?old a = Some n" for a b n
    using ok unfolding recording_ok_def by blast+
  have dist: "distinct (map fst ?old)" using ok by (simp add: recording_ok_def map_keys_def)
  have gone: "n \<in> set ?gone \<longleftrightarrow> (\<exists>a. map_get ?old a = Some n \<and> map_get chosen a = None)" for n
    using dist by (force simp: map_get_def map_has_iff image_iff)
  note c' = c [unfolded choosing_def prod.case]
  have val0: "case map_get ?old a of Some w \<Rightarrow> v = w | None \<Rightarrow> lr_next s \<le> v \<and> v < lr_next s1" if "map_get chosen a = Some v" for a v
    using c' that by blast
  have val1: "v = w" if "map_get chosen a = Some v" "map_get ?old a = Some w" for a v w using val0 [OF that(1)] that(2) by simp
  have val2: "lr_next s \<le> v \<and> v < lr_next s1" if "map_get chosen a = Some v" "map_get ?old a = None" for a v
    using val0 [OF that(1)] that(2) by simp
  have val3: "a = b" if "map_get chosen a = Some v" "map_get ?old a = None" "map_get chosen b = Some v" "map_get ?old b = None" for a b v
    using c' that by blast
  have val4: "v \<in> fst ` set (lr_connected s1) \<longleftrightarrow> v \<in> ?cs \<or> (\<exists>a. map_get chosen a = Some v \<and> map_get ?old a = None)" for v
    using c' by blast
  have val5: "lr_next s \<le> lr_next s1" "distinct (map_keys chosen)" using c' by blast+
  have inj: "a = b" if "map_get chosen a = Some v" "map_get chosen b = Some v" for a b v
    using that val1 val2 val3 old(2,3) by (metis not_less option.exhaust)
  have bound: "v < lr_next s1" if "map_get chosen a = Some v" for a v
    using that val1 val2 val5(1) old(2) by (metis less_le_trans option.exhaust)
  have kept: "(map_get chosen a = Some v \<and> map_get ?old a \<noteq> None) \<Longrightarrow> v \<in> ?cs \<and> v \<notin> set ?gone" for a v
    using val1 old(1,3) unfolding gone by (metis option.distinct(1) option.exhaust)
  have con: "v \<in> fst ` set (lr_connected s') \<longleftrightarrow> v \<in> fst ` set (lr_connected s1) \<and> v \<notin> set ?gone" for v
    unfolding s' by force
  have "v \<in> fst ` set (lr_connected s') \<longleftrightarrow> (\<exists>a. map_get chosen a = Some v)" for v
  proof
    assume "v \<in> fst ` set (lr_connected s')"
    then have v: "v \<in> ?cs \<or> (\<exists>a. map_get chosen a = Some v \<and> map_get ?old a = None)" "v \<notin> set ?gone" unfolding con val4 by blast+
    then show "\<exists>a. map_get chosen a = Some v" using old(4) val1 unfolding gone by (metis option.exhaust)
  next
    assume "\<exists>a. map_get chosen a = Some v"
    then obtain a where a: "map_get chosen a = Some v" by blast
    show "v \<in> fst ` set (lr_connected s')"
    proof (cases "map_get ?old a")
      case None
      then have "v \<notin> set ?gone" using val2 [OF a] old(2) unfolding gone by (metis not_less)
      with a None show ?thesis unfolding con val4 by blast
    qed (use kept [of a v] a con val4 in blast)
  qed
  then show "recording_ok s'" using inj bound val5(2) by (simp add: recording_ok_def s')
qed

section \<open>Properties\<close>

lemma all_device: "(\<forall>d. P d) \<longleftrightarrow> P Microphone \<and> P Camera \<and> P Screen"
  by (metis device.exhaust)

text \<open>
  C31. Nothing is captured that is not shown: as long as nobody touches a device while it is being asked for, the live
  streams are exactly those of the devices, all of them are published, a device that waits for nothing is shown as on
  if and only if it has a stream, and leaving the page stops them all.
\<close>

theorem devices_follow_the_switch:
  assumes "patient_step\<^sup>*\<^sup>* new_media_devices s"
  shows "(\<forall>i. i \<in> set (md_live s) \<longleftrightarrow> (\<exists>d. md_stream s d = Some i)) \<and> set (md_live s) \<subseteq> set (md_published s)
    \<and> (\<forall>d. \<not> device_waits s d \<longrightarrow> (md_active s d \<longleftrightarrow> md_stream s d \<noteq> None))
    \<and> md_live (devices_unmount s) = []"
proof -
  have good: "devices_ok s" using assms by (rule patient_ok)
  note ok = devices_okD [OF good]
  have shown: "md_active s d \<longleftrightarrow> md_stream s d \<noteq> None" if "\<not> device_waits s d" for d
    using ok(8) [of d] that request_device_simps(1) [of d True] unfolding device_waits_iff by blast
  have stop: "i \<in> set (md_live (stop_live d u)) \<longleftrightarrow> i \<in> set (md_live u) \<and> md_stream u d \<noteq> Some i" "md_stream (stop_live d u) = md_stream u" for i d u
    by (auto simp: stop_live_def split: option.split)
  have "i \<notin> set (md_live (devices_unmount s))" for i
  proof
    assume "i \<in> set (md_live (devices_unmount s))"
    then have "i \<in> set (md_live s)" "\<forall>d. md_stream s d \<noteq> Some i" by (auto simp: devices_unmount_def stop all_device)
    with ok(3) show False by blast
  qed
  then have "md_live (devices_unmount s) = []" by (metis last_in_set)
  with ok(3,7) shown show ?thesis by blast
qed

definition mic_on :: media_devices where
  "mic_on = end_request 1 (stream_granted 1 Microphone False (toggle_mic True True True new_media_devices))"

theorem devices_follow_the_switch_witness:
  "md_live mic_on = [0] \<and> md_active mic_on Microphone \<and> md_live (devices_unmount mic_on) = []"
proof -
  let ?a = "toggle_mic True True True new_media_devices"
  let ?b = "stream_granted 1 Microphone False ?a"
  have a: "md_requests ?a = [(1, Ask Microphone False)]" by code_simp
  have b: "md_requests ?b = [(1, Publish Microphone)]" by code_simp
  have "patient_step new_media_devices ?a" by (rule toggles_mic) (simp add: device_waits_def new_media_devices_def)
  moreover have "patient_step ?a ?b" by (rule grants) (simp add: a)
  moreover have "patient_step ?b mic_on" unfolding mic_on_def by (rule publishes [where d = Microphone]) (simp add: b del: One_nat_def)
  ultimately have "patient_step\<^sup>*\<^sup>* new_media_devices mic_on" by (meson converse_rtranclp_into_rtranclp rtranclp.rtrancl_refl)
  from devices_follow_the_switch [OF this] have "md_live (devices_unmount mic_on) = []" by blast
  moreover have "md_live mic_on = [0]" "md_active mic_on Microphone" by code_simp+
  ultimately show ?thesis by simp
qed


lemma voice_names: "distinct (map fst remotes) \<Longrightarrow> distinct (map fst (voices_of mic remotes))"
proof -
  assume d: "distinct (map fst remotes)"
  have n: "map fst (voices_of mic remotes) = (if mic = None then [] else [''local-mic'']) @ map (\<lambda>p. ''remote-'' @ dec_int p) (map fst remotes)"
    by (auto simp: voices_of_def split: option.split)
  have "inj_on (\<lambda>p. ''remote-'' @ dec_int p) (set (map fst remotes))" by (simp add: inj_on_def)
  with d have "distinct (map (\<lambda>p. ''remote-'' @ dec_int p) (map fst remotes))" by (simp only: distinct_map simp_thms)
  then show ?thesis unfolding n by (cases mic) (auto simp del: map_map)
qed

lemma stopped_sources:
  assumes "recording_ok s"
  shows "filter (\<lambda>(source, _). source \<notin> snd ` set (lr_sources s)) (lr_connected s) = []"
proof -
  have "fst c \<in> snd ` set (lr_sources s)" if "c \<in> set (lr_connected s)" for c
  proof -
    from that assms obtain name where "map_get (lr_sources s) name = Some (fst c)" unfolding recording_ok_def by (metis image_eqI)
    then have "(name, fst c) \<in> set (lr_sources s)" by (simp add: map_get_def map_of_SomeD)
    then show ?thesis by force
  qed
  then show ?thesis by (simp add: filter_empty_conv split_beta)
qed

lemma recording_step_ok: "recording_step s s' \<Longrightarrow> recording_ok s \<Longrightarrow> recording_ok s'"
proof (induction rule: recording_step.induct)
  case (voices_change remotes s is_recording mic)
  then show ?case using connect_sources(1) [OF _ _ voice_names] by (auto simp: connect_voices_def)
next
  case (screen_changes s is_recording screen)
  have "recording_ok (s\<lparr>lr_recorder := False, lr_stopped := saved, lr_connected := [], lr_sources := [], lr_context := False\<rparr>)" for saved
    by (simp add: recording_ok_def map_keys_def)
  with screen_changes show ?case by (simp add: record_screen_def stopped_sources [OF screen_changes]) (simp add: recording_ok_def)
next
  case (camera_changes s is_recording camera)
  then show ?case by (simp add: record_camera_def recording_ok_def)
next
  case (recorder_stopped name s picker outcome)
  then show ?case by (simp add: save_recording_def recording_ok_def)
qed

lemma recording_runs_ok: "recording_step\<^sup>*\<^sup>* new_local_recording s \<Longrightarrow> recording_ok s"
  by (induction rule: rtranclp_induct) (simp add: recording_ok_def new_local_recording_def map_keys_def, rule recording_step_ok)

text \<open>
  Every voice is recorded once: when each peer has one stream, a run of the effect while the recording has its
  mixer leaves exactly one source for each voice that is present, and connects exactly the sources it knows; when
  the recording stops, nothing stays connected.
\<close>

lemma voices_are_recorded_once:
  assumes "recording_step\<^sup>*\<^sup>* new_local_recording s" "distinct (map fst remotes)" "lr_context s"
  shows "let s' = connect_voices True mic remotes s in
    (\<forall>a. map_get (lr_sources s') a \<noteq> None \<longleftrightarrow> (\<exists>stream. (a, stream, True) \<in> set (voices_of mic remotes)))
    \<and> (\<forall>n. n \<in> fst ` set (lr_connected s') \<longleftrightarrow> (\<exists>a. map_get (lr_sources s') a = Some n))
    \<and> (\<forall>a b n. map_get (lr_sources s') a = Some n \<and> map_get (lr_sources s') b = Some n \<longrightarrow> a = b)
    \<and> (lr_recorder s' \<longrightarrow> lr_connected (record_screen False screen s') = [])"
proof -
  let ?s = "connect_voices True mic remotes s"
  note ok = recording_runs_ok [OF assms(1)]
  note c = connect_sources [OF ok assms(3) voice_names [OF assms(2)], where mic = mic]
  have "lr_recorder ?s \<Longrightarrow> lr_connected (record_screen False screen ?s) = []"
    by (simp add: record_screen_def stopped_sources [OF c(1)])
  with c show ?thesis unfolding Let_def recording_ok_def by blast
qed

theorem voices_are_recorded_once_witness:
  "lr_connected (connect_voices True (Some (7, True)) [(5, 8, True), (6, 9, False)] (record_screen True True new_local_recording)) = [(0, 7), (1, 8)]
   \<and> (\<forall>a b n. let m = lr_sources (connect_voices True (Some (7, True)) [(5, 8, True), (6, 9, False)] (record_screen True True new_local_recording))
        in \<not> (map_get m a = Some n \<and> map_get m b = Some n \<and> a \<noteq> b))"
proof -
  let ?s = "record_screen True True new_local_recording"
  have "recording_step\<^sup>*\<^sup>* new_local_recording ?s" using screen_changes by blast
  moreover have "distinct (map fst [(5::int, 8::nat, True), (6, 9, False)])" by simp
  moreover have "lr_context ?s" by code_simp
  ultimately have "\<forall>a b n. let m = lr_sources (connect_voices True (Some (7, True)) [(5, 8, True), (6, 9, False)] ?s)
      in \<not> (map_get m a = Some n \<and> map_get m b = Some n \<and> a \<noteq> b)"
    using voices_are_recorded_once [of ?s "[(5, 8, True), (6, 9, False)]" "Some (7, True)"] unfolding Let_def by blast
  moreover have "lr_connected (connect_voices True (Some (7, True)) [(5, 8, True), (6, 9, False)] ?s) = [(0, 7), (1, 8)]" by code_simp
  ultimately show ?thesis by blast
qed

section \<open>What goes wrong\<close>

text \<open>
  The switch is not locked while the browser asks: two clicks ask twice, the second stream takes the place of the
  first, and after the microphone is switched off the first still runs and is still published.
\<close>

lemma second_click_leaves_microphone_on:
  "let s = toggle_mic True True True (toggle_mic True True True new_media_devices);
       t = toggle_mic True True True (stream_granted 2 Microphone False (stream_granted 1 Microphone False s))
   in md_live t = [0] \<and> md_published t = [0] \<and> \<not> md_active t Microphone \<and> md_stream t Microphone = None"
  by code_simp

text \<open>A device that is switched off while its replacement is being asked for is on again when that comes, and shown as off.\<close>

lemma replaced_microphone_is_on_while_off:
  "let s = toggle_device Microphone (handle_device_change Microphone ''b'' mic_on);
       t = stream_granted 1 Microphone True s
   in md_live t = [1] \<and> \<not> md_active t Microphone"
  by code_simp

text \<open>A stream that is granted after the page has been left is not stopped.\<close>

lemma late_stream_outlives_the_page:
  "md_live (stream_granted 1 Microphone False (devices_unmount (toggle_mic True True True new_media_devices))) = [0]"
  by code_simp

text \<open>
  The effect that connects the voices comes before the one that makes the mixer: the voices that are there when the
  recording starts are not in it until one of them changes.
\<close>

lemma first_voices_are_not_recorded:
  "lr_connected (record_screen True True (connect_voices True (Some (7, True)) [(5, 8, True)] new_local_recording)) = []"
  by code_simp

text \<open>Two streams of a peer have one name: the source of the first stays connected after the peer has left.\<close>

lemma first_stream_stays_connected:
  "let s = record_screen True True new_local_recording
   in lr_connected (connect_voices True None [] (connect_voices True None [(5, 8, True), (5, 9, True)] s)) = [(0, 8)]"
  by code_simp

end
