(* ===== verification/InboxPage.thy ===== *)
theory InboxPage
  imports WsConnection
begin

text \<open>
  \<open>components/inbox/InboxPage.tsx\<close>: the page of the conversations. It loads them, keeps a subscription
  to each, shows the messages of the one that is open, and keeps the unread badge; its state lives in
  the atoms of \<open>InboxAtoms\<close>, which the socket changes at any time. An event is one callback followed by
  the effects of the render that it causes; an answer of the server is an event of its own.
\<close>

section \<open>State\<close>

text \<open>
  The requests that wait for their answer, with what their callbacks captured: the mount, the run of
  the effect of \<open>activeId\<close> (its \<open>cancelled\<close> flag), the conversation, the unread count before reading.
\<close>

datatype inbox_request =
    LoadConversations nat "string option"
  | CreateConversationWith nat jsval
  | LoadMessages nat jsval
  | MarkRead jsval jsval
  | StartConversation "jsval list" jsval
  | DeleteConversation jsval
  | BlockUser jsval bool
  | LockConversation jsval bool
  | RemoveParticipant jsval string bool

record inbox_page =
  ib_store :: ws_store
  ib_conn :: connection
  ib_mounted :: bool
  ib_mount :: nat
  ib_subscribed :: "int option list"
  ib_visits :: nat
  ib_visit :: "nat option"
  ib_seen :: "jsval option"
  ib_waiting :: "inbox_request list"
  ib_loading_convs :: bool
  ib_loading_msgs :: bool
  ib_new_dm :: bool
  ib_selected :: "jsval list"
  ib_title :: string
  ib_toasts :: "(toast_kind \<times> jsval) list"

text \<open>
  \<open>ib_visit\<close> is the run of the effect of \<open>activeId\<close> that has not been cleaned up, \<open>ib_seen\<close> the id it
  ran for; \<open>ib_subscribed\<close> is \<open>subscribedConvsRef\<close>, a set of numbers in which \<open>NaN\<close> (here \<open>None\<close>)
  equals itself.
\<close>

definition put_atom :: "atom \<Rightarrow> jsval \<Rightarrow> inbox_page \<Rightarrow> inbox_page" where
  "put_atom a v p = p\<lparr>ib_store := (ib_store p)(a := v)\<rparr>"

abbreviation active_id :: "inbox_page \<Rightarrow> jsval" where
  "active_id p \<equiv> ib_store p ActiveConversationIdAtom"

definition array_of :: "jsval \<Rightarrow> jsval list option" where
  "array_of v = (case v of JArr xs \<Rightarrow> Some xs | _ \<Rightarrow> None)"

text \<open>\<open>setConversations(prev => ...)\<close>; an update that throws leaves the atom.\<close>

definition edit_conversations :: "(jsval list \<Rightarrow> jsval list option) \<Rightarrow> inbox_page \<Rightarrow> inbox_page option" where
  "edit_conversations f p = do {
     cs \<leftarrow> array_of (ib_store p InboxConversationsAtom);
     cs' \<leftarrow> f cs;
     Some (put_atom InboxConversationsAtom (JArr cs') p) }"

definition ask :: "inbox_request \<Rightarrow> inbox_page \<Rightarrow> inbox_page" where
  "ask r p = p\<lparr>ib_waiting := ib_waiting p @ [r]\<rparr>"

definition say :: "toast_kind \<Rightarrow> jsval \<Rightarrow> inbox_page \<Rightarrow> inbox_page" where
  "say k m p = p\<lparr>ib_toasts := ib_toasts p @ [(k, m)]\<rparr>"

section \<open>The effects\<close>

text \<open>
  The effect of \<open>conversations\<close>. It subscribes to what the ref does not hold yet, so that running it
  again for the same list changes nothing.
\<close>

fun subscribe_listed :: "jsval list \<Rightarrow> inbox_page \<Rightarrow> inbox_page option" where
  "subscribe_listed [] p = Some p"
| "subscribe_listed (c # cs) p = do {
     i \<leftarrow> get c ''id'';
     let k = parse_int (js_string i);
     subscribe_listed cs
       (if k \<in> set (ib_subscribed p) then p
        else p\<lparr>ib_conn := subscribe ''inbox_conversation'' i (ib_conn p),
          ib_subscribed := ib_subscribed p @ [k]\<rparr>) }"

text \<open>The effect of \<open>activeId\<close> and its cleanup.\<close>

definition leave_conversation :: "inbox_page \<Rightarrow> inbox_page" where
  "leave_conversation p =
     (case (ib_visit p, ib_seen p) of
        (Some v, Some a) \<Rightarrow> p\<lparr>ib_visit := None,
          ib_conn := unsubscribe_resource ''inbox_conversation'' a (ib_conn p)\<rparr>
      | _ \<Rightarrow> p)"

definition previous_unread :: "jsval list \<Rightarrow> jsval \<Rightarrow> jsval option" where
  "previous_unread cs a = do {
     found \<leftarrow> js_find (\<lambda>c. do { i \<leftarrow> get c ''id''; Some (strict_eq i a) }) cs;
     Some (js_coalesce (case found of None \<Rightarrow> JUndef | Some c \<Rightarrow> fld c ''unread_count'') (JNum 0)) }"

definition open_conversation :: "jsval list \<Rightarrow> inbox_page \<Rightarrow> inbox_page option" where
  "open_conversation cs p =
     (let a = active_id p; p1 = (put_atom InboxMessagesAtom (JArr []) p)\<lparr>ib_seen := Some a\<rparr> in
      if \<not> truthy a then Some p1
      else do {
        n \<leftarrow> previous_unread cs a;
        Some (ask (MarkRead a n) (ask (LoadMessages (ib_visits p) a)
          (p1\<lparr>ib_loading_msgs := True, ib_visit := Some (ib_visits p), ib_visits := Suc (ib_visits p),
             ib_conn := subscribe ''inbox_conversation'' a (ib_conn p)\<rparr>))) })"

text \<open>
  A render: React runs the cleanups of the effects whose dependencies changed, then those effects in
  their order. An effect that throws takes the page down (\<open>None\<close>).
\<close>

definition same_value :: "jsval \<Rightarrow> jsval \<Rightarrow> bool" where
  "same_value a b = (strict_eq a b \<or> (a = JNaN \<and> b = JNaN))"

definition run_effects :: "inbox_page \<Rightarrow> inbox_page option" where
  "run_effects p =
     (let changed = (case ib_seen p of None \<Rightarrow> True | Some a \<Rightarrow> \<not> same_value (active_id p) a);
          p1 = (if changed then leave_conversation p else p)
      in do {
        cs \<leftarrow> array_of (ib_store p InboxConversationsAtom);
        p2 \<leftarrow> subscribe_listed cs p1;
        if changed then open_conversation cs p2 else Some p2 })"

definition after_render :: "inbox_page \<Rightarrow> inbox_page option" where
  "after_render p = (if ib_mounted p then run_effects p else Some p)"

section \<open>Mounting and leaving\<close>

definition mount_page :: "string option \<Rightarrow> inbox_page \<Rightarrow> inbox_page option" where
  "mount_page with_user p =
     (let m = Suc (ib_mount p)
      in run_effects (ask (LoadConversations m with_user)
        (p\<lparr>ib_mounted := True, ib_mount := m, ib_subscribed := [], ib_visit := None, ib_seen := None,
          ib_loading_convs := True, ib_loading_msgs := False, ib_new_dm := False, ib_selected := [],
          ib_title := []\<rparr>)))"

definition number_value :: "int option \<Rightarrow> jsval" where
  "number_value k = (case k of Some n \<Rightarrow> JNum n | None \<Rightarrow> JNaN)"

definition leave_page :: "inbox_page \<Rightarrow> inbox_page" where
  "leave_page p =
     (let p1 = put_atom ActiveConversationIdAtom JNull p;
          c1 = fold (\<lambda>k. unsubscribe_resource ''inbox_conversation'' (number_value k))
            (ib_subscribed p) (ib_conn p)
      in (leave_conversation (p1\<lparr>ib_conn := c1, ib_subscribed := []\<rparr>))\<lparr>ib_mounted := False\<rparr>)"

section \<open>Answers\<close>

text \<open>\<open>convs.reduce((s, c) => s + (c.unread_count ?? 0), 0)\<close>.\<close>

definition unread_total :: "jsval list \<Rightarrow> jsval option" where
  "unread_total cs = js_reduce (\<lambda>s c. do {
     n \<leftarrow> get c ''unread_count''; Some (js_add s (js_coalesce n (JNum 0))) }) (JNum 0) cs"

definition conversations_settle :: "nat \<Rightarrow> inbox_page \<Rightarrow> inbox_page" where
  "conversations_settle m p =
     (if ib_mounted p \<and> ib_mount p = m then p\<lparr>ib_loading_convs := False\<rparr> else p)"

definition with_conversation :: "string \<Rightarrow> jsval list \<Rightarrow> jsval option option" where
  "with_conversation w cs = js_find (\<lambda>c. do {
     u \<leftarrow> get c ''other_user''; Some (js_string (fld u ''id'') = w) }) cs"

definition conversations_answer :: "nat \<Rightarrow> string option \<Rightarrow> jsval \<Rightarrow> inbox_page \<Rightarrow> inbox_page" where
  "conversations_answer m with_user data p =
     (let convs = js_coalesce data (JArr []); p1 = put_atom InboxConversationsAtom convs p in
      case do { cs \<leftarrow> array_of convs; n \<leftarrow> unread_total cs; Some (cs, n) } of
        None \<Rightarrow> conversations_settle m p1
      | Some (cs, n) \<Rightarrow>
          let p2 = put_atom InboxUnreadCountAtom n p1 in
          (case with_user of
             Some (ch # w) \<Rightarrow>
               (case with_conversation (ch # w) cs of
                  None \<Rightarrow> conversations_settle m p2
                | Some (Some c) \<Rightarrow> conversations_settle m (put_atom ActiveConversationIdAtom (fld c ''id'') p2)
                | Some None \<Rightarrow> ask (CreateConversationWith m (js_number (JStr (ch # w)))) p2)
           | _ \<Rightarrow> conversations_settle m p2))"

text \<open>\<open>prev.some(c => c.id === conv.id) ? prev : [conv, ...prev]\<close>.\<close>

definition add_conversation :: "jsval \<Rightarrow> jsval list \<Rightarrow> jsval list option" where
  "add_conversation conv cs = do {
     known \<leftarrow> js_some (\<lambda>c. do { i \<leftarrow> get c ''id''; Some (strict_eq i (fld conv ''id'')) }) cs;
     Some (if known then cs else conv # cs) }"

definition created_answer :: "nat \<Rightarrow> jsval \<Rightarrow> inbox_page \<Rightarrow> inbox_page" where
  "created_answer m conv p =
     conversations_settle m
       (if truthy conv
        then (case edit_conversations (add_conversation conv) p of
                None \<Rightarrow> p
              | Some p1 \<Rightarrow> put_atom ActiveConversationIdAtom (fld conv ''id'') p1)
        else p)"

definition messages_settle :: "nat \<Rightarrow> inbox_page \<Rightarrow> inbox_page" where
  "messages_settle v p = (if ib_visit p = Some v then p\<lparr>ib_loading_msgs := False\<rparr> else p)"

text \<open>
  \<open>time\<close> is \<open>new Date(v).getTime()\<close> on the dates of the server. Reading \<open>created_at\<close> of \<open>null\<close> throws.
\<close>

definition sort_messages :: "(jsval \<Rightarrow> int) \<Rightarrow> jsval list \<Rightarrow> jsval list option" where
  "sort_messages time ms =
     (if length ms > 1 \<and> list_ex nullish ms then None
      else Some (sort_key (\<lambda>m. time (fld m ''created_at'')) ms))"

definition messages_answer :: "(jsval \<Rightarrow> int) \<Rightarrow> nat \<Rightarrow> jsval \<Rightarrow> inbox_page \<Rightarrow> inbox_page" where
  "messages_answer time v data p =
     (if ib_visit p \<noteq> Some v then p
      else messages_settle v
        (case do { ms \<leftarrow> array_of (js_coalesce data (JArr [])); sort_messages time ms } of
           None \<Rightarrow> p
         | Some ms \<Rightarrow> put_atom InboxMessagesAtom (JArr ms) p))"

text \<open>\<open>prev.map(c => (c.id === a ? { ...c, ...kvs } : c))\<close>.\<close>

definition patch_by_id :: "jsval \<Rightarrow> (string \<times> jsval) list \<Rightarrow> jsval list \<Rightarrow> jsval list option" where
  "patch_by_id a kvs = js_map (\<lambda>c. do {
     i \<leftarrow> get c ''id''; Some (if strict_eq i a then obj_with c kvs else c) })"

definition read_answer :: "jsval \<Rightarrow> jsval \<Rightarrow> inbox_page \<Rightarrow> inbox_page" where
  "read_answer a n p =
     (case edit_conversations (patch_by_id a [(''unread_count'', JNum 0)]) p of
        None \<Rightarrow> p
      | Some p1 \<Rightarrow> put_atom InboxUnreadCountAtom
          (js_max0 (js_arith (-) (ib_store p1 InboxUnreadCountAtom) n)) p1)"

section \<open>Actions of the user\<close>

definition choose_conversation :: "jsval \<Rightarrow> inbox_page \<Rightarrow> inbox_page" where
  "choose_conversation c = put_atom ActiveConversationIdAtom (fld c ''id'')"

definition close_new_dm :: "inbox_page \<Rightarrow> inbox_page" where
  "close_new_dm p = p\<lparr>ib_new_dm := False, ib_selected := [], ib_title := []\<rparr>"

definition toggle_new_dm :: "inbox_page \<Rightarrow> inbox_page" where
  "toggle_new_dm p = (if ib_new_dm p then close_new_dm p else p\<lparr>ib_new_dm := True\<rparr>)"

definition select_user :: "jsval \<Rightarrow> inbox_page \<Rightarrow> inbox_page" where
  "select_user user p =
     (if list_ex (\<lambda>u. strict_eq (fld u ''id'') (fld user ''id'')) (ib_selected p) then p
      else p\<lparr>ib_selected := ib_selected p @ [user]\<rparr>)"

definition unselect_user :: "jsval \<Rightarrow> inbox_page \<Rightarrow> inbox_page" where
  "unselect_user user p =
     p\<lparr>ib_selected := filter (\<lambda>x. \<not> strict_eq (fld x ''id'') (fld user ''id'')) (ib_selected p)\<rparr>"

text \<open>The body of the request of \<open>startConversation\<close>: a direct message, or a group.\<close>

definition start_body :: "jsval list \<Rightarrow> string \<Rightarrow> jsval" where
  "start_body users title =
     (case users of
        [u] \<Rightarrow> if js_trim title = [] then JObj [(''target_user_id'', js_number (fld u ''id''))]
          else JObj [(''participant_ids'', JArr [js_number (fld u ''id'')]), (''title'', JStr (js_trim title))]
      | _ \<Rightarrow> JObj [(''participant_ids'', JArr (map (\<lambda>u. js_number (fld u ''id'')) users)),
          (''title'', JStr (js_trim title))])"

definition start_conversation :: "inbox_page \<Rightarrow> inbox_page" where
  "start_conversation p =
     (if ib_selected p = [] then close_new_dm p
      else ask (StartConversation (ib_selected p) (start_body (ib_selected p) (ib_title p))) p)"

text \<open>\<open>conv\<close> as the callback completes it: the server may leave out the other user of a direct message.\<close>

definition completed :: "jsval list \<Rightarrow> jsval \<Rightarrow> jsval" where
  "completed users conv =
     (if \<not> truthy (fld conv ''is_group'') \<and> \<not> truthy (fld conv ''other_user'') \<and> length users = 1
      then obj_with conv [(''other_user'', hd users)] else conv)"

definition merge_started :: "jsval \<Rightarrow> jsval list \<Rightarrow> jsval list option" where
  "merge_started conv cs = do {
     existing \<leftarrow> js_find (\<lambda>c. do { i \<leftarrow> get c ''id''; Some (strict_eq i (fld conv ''id'')) }) cs;
     if existing \<noteq> None
     then patch_by_id (fld conv ''id'') [(''other_user'', fld conv ''other_user'')] cs
     else Some (conv # cs) }"

definition started_answer :: "jsval list \<Rightarrow> jsval \<Rightarrow> inbox_page \<Rightarrow> inbox_page" where
  "started_answer users answered p =
     close_new_dm
       (if \<not> truthy answered then p
        else let conv = completed users answered in
          (case edit_conversations (merge_started conv) p of
             None \<Rightarrow> say ErrorToast (JStr ''Cannot start conversation.'') p
           | Some p1 \<Rightarrow> put_atom ActiveConversationIdAtom (fld conv ''id'') p1))"

text \<open>
  The handlers of the menu, once the user has confirmed: \<open>handleDeleteConversation\<close>, \<open>handleBlockUser\<close>
  and \<open>handleUnblockUser\<close> (\<open>BlockUser a True\<close> and \<open>BlockUser a False\<close>), \<open>handleLock\<close> and \<open>handleKick\<close>. Each
  keeps the id of the conversation that was open.
\<close>

definition delete_conversation :: "inbox_page \<Rightarrow> inbox_page" where
  "delete_conversation p = (if truthy (active_id p) then ask (DeleteConversation (active_id p)) p else p)"

definition without_conversation :: "jsval \<Rightarrow> jsval list \<Rightarrow> jsval list option" where
  "without_conversation a = js_filter (\<lambda>c. do { i \<leftarrow> get c ''id''; Some (\<not> strict_eq i a) })"

definition deleted_answer :: "jsval \<Rightarrow> inbox_page \<Rightarrow> inbox_page" where
  "deleted_answer a p =
     (case edit_conversations (without_conversation a) p of
        None \<Rightarrow> say ErrorToast (JStr ''Failed to delete conversation'') p
      | Some p1 \<Rightarrow> say SuccessToast (JStr ''Conversation deleted'')
          (put_atom InboxMessagesAtom (JArr []) (put_atom ActiveConversationIdAtom JNull p1)))"

definition block_user :: "bool \<Rightarrow> jsval \<Rightarrow> inbox_page \<Rightarrow> inbox_page" where
  "block_user blocked active_conv p =
     (if truthy (fld (fld active_conv ''other_user'') ''id'') then ask (BlockUser (active_id p) blocked) p else p)"

definition blocked_answer :: "jsval \<Rightarrow> bool \<Rightarrow> inbox_page \<Rightarrow> inbox_page" where
  "blocked_answer a blocked p =
     (let p1 = say SuccessToast (JStr (if blocked then ''User blocked'' else ''User unblocked'')) p in
      case edit_conversations (patch_by_id a
          (if blocked then [(''blocked_by_current_user'', JBool True), (''blocked_by_other_user'', JBool False)]
           else [(''blocked_by_current_user'', JBool False)])) p1 of
        None \<Rightarrow> say ErrorToast (JStr (if blocked then ''Failed to block user'' else ''Failed to unblock user'')) p1
      | Some p2 \<Rightarrow> p2)"

definition lock_conversation :: "bool \<Rightarrow> inbox_page \<Rightarrow> inbox_page" where
  "lock_conversation locked p =
     (if truthy (active_id p) then ask (LockConversation (active_id p) locked) p else p)"

text \<open>\<open>c.id.toString() === a\<close>; \<open>toString\<close> of a missing id throws.\<close>

definition text_is :: "jsval \<Rightarrow> jsval \<Rightarrow> bool option" where
  "text_is c a = do {
     i \<leftarrow> get c ''id'';
     if nullish i then None else Some (strict_eq (JStr (js_string i)) a) }"

definition locked_answer :: "jsval \<Rightarrow> bool \<Rightarrow> inbox_page \<Rightarrow> inbox_page" where
  "locked_answer a locked p =
     (case edit_conversations (js_map (\<lambda>c. do {
          b \<leftarrow> text_is c a; Some (if b then obj_with c [(''is_locked'', JBool locked)] else c) })) p of
        None \<Rightarrow> say ErrorToast (JStr ''Failed to update lock state'') p
      | Some p1 \<Rightarrow> say SuccessToast
          (JStr (if locked then ''Conversation locked'' else ''Conversation unlocked'')) p1)"

definition remove_participant :: "string \<Rightarrow> inbox_page \<Rightarrow> inbox_page" where
  "remove_participant user p =
     (if truthy (active_id p)
      then ask (RemoveParticipant (active_id p) user
        (\<not> nullish (fld (ib_store p CurrentUserAtom) ''id'') \<and> user = key_of (ib_store p CurrentUserAtom))) p
      else p)"

definition without_participant :: "string \<Rightarrow> jsval \<Rightarrow> jsval option" where
  "without_participant user c = do {
     ps \<leftarrow> opt_array (js_filter (\<lambda>q. do { same \<leftarrow> text_is q (JStr user); Some (\<not> same) }))
       (fld c ''participants'');
     Some (obj_with c [(''participants'', ps)]) }"

definition removed_answer :: "jsval \<Rightarrow> string \<Rightarrow> bool \<Rightarrow> inbox_page \<Rightarrow> inbox_page" where
  "removed_answer a user oneself p =
     (case (if oneself
            then map_option (put_atom ActiveConversationIdAtom JNull)
              (edit_conversations (js_filter (\<lambda>c. do { b \<leftarrow> text_is c a; Some (\<not> b) })) p)
            else edit_conversations (js_map (\<lambda>c. do {
              b \<leftarrow> text_is c a; if b then without_participant user c else Some c })) p) of
        None \<Rightarrow> say ErrorToast (JStr ''Failed to remove participant'') p
      | Some p1 \<Rightarrow> say SuccessToast (JStr (if oneself then ''You left the group'' else ''Participant removed'')) p1)"

section \<open>The menus of a group and the composer\<close>

text \<open>
  What a group member may do to another: the buttons of the list in the chat menu, and the options of the
  menu that opens on the title. \<open>me\<close> is the id of the current user as a text.
\<close>

datatype participant_act = ChangeRole string string | MuteParticipant string bool | RemoveFromGroup string

definition my_participant :: "jsval \<Rightarrow> string option \<Rightarrow> jsval option" where
  "my_participant conv me =
     (if \<not> truthy (fld conv ''is_group'') then Some JNull
      else if nullish (fld conv ''participants'') then Some JUndef
      else do {
        ps \<leftarrow> array_of (fld conv ''participants'');
        found \<leftarrow> js_find (\<lambda>q. text_is q (case me of Some m \<Rightarrow> JStr m | None \<Rightarrow> JUndef)) ps;
        Some (case found of Some q \<Rightarrow> q | None \<Rightarrow> JUndef) })"

definition has_role_text :: "string \<Rightarrow> jsval \<Rightarrow> bool" where
  "has_role_text r q = strict_eq (fld q ''role'') (JStr r)"

definition is_group_owner :: "jsval \<Rightarrow> bool" where
  "is_group_owner mine = has_role_text ''owner'' mine"

definition is_group_manager :: "jsval \<Rightarrow> bool" where
  "is_group_manager mine = (has_role_text ''manager'' mine \<or> is_group_owner mine)"

definition participant_menu :: "jsval \<Rightarrow> string \<Rightarrow> jsval \<Rightarrow> participant_act list" where
  "participant_menu mine me q =
     (let target_owner = has_role_text ''owner'' q; target_manager = has_role_text ''manager'' q; i = key_of q in
      if i \<noteq> me \<and> is_group_manager mine
      then (if is_group_owner mine \<and> \<not> target_owner
            then [ChangeRole i (if target_manager then ''member'' else ''manager'')] else [])
        @ (if \<not> target_owner \<and> (\<not> target_manager \<or> is_group_owner mine)
           then [MuteParticipant i (\<not> truthy (fld q ''is_muted'')), RemoveFromGroup i] else [])
      else [])"

definition participant_buttons :: "jsval \<Rightarrow> string \<Rightarrow> jsval \<Rightarrow> participant_act list" where
  "participant_buttons mine me q =
     (if is_group_manager mine \<and> key_of q \<noteq> me \<and> \<not> has_role_text ''owner'' q
      then [MuteParticipant (key_of q) (\<not> truthy (fld q ''is_muted''))]
        @ (if is_group_owner mine \<and> \<not> has_role_text ''owner'' q
           then [ChangeRole (key_of q) (if has_role_text ''manager'' q then ''member'' else ''manager'')] else [])
        @ [RemoveFromGroup (key_of q)]
      else [])"

text \<open>Whether the composer is disabled, and whether a text is sent from it.\<close>

definition composer_disabled :: "jsval \<Rightarrow> string option \<Rightarrow> bool option" where
  "composer_disabled conv me =
     (if truthy (fld conv ''blocked_by_current_user'') \<or> truthy (fld conv ''blocked_by_other_user'')
        \<or> truthy (fld conv ''is_locked'') then Some True
      else if \<not> truthy (fld conv ''is_group'') \<or> nullish (fld conv ''participants'') then Some False
      else do {
        ps \<leftarrow> array_of (fld conv ''participants'');
        found \<leftarrow> js_find (\<lambda>q. do {
          mine \<leftarrow> text_is q (case me of Some m \<Rightarrow> JStr m | None \<Rightarrow> JUndef);
          Some (mine \<and> truthy (fld q ''is_muted'')) }) ps;
        Some (found \<noteq> None) })"

definition sends_text :: "string \<Rightarrow> inbox_page \<Rightarrow> bool" where
  "sends_text msg p = (js_trim msg \<noteq> [] \<and> truthy (active_id p))"

text \<open>The kind of a file that is attached, and what a phone shows: the list or the open conversation.\<close>

definition attachment_kind :: "string \<Rightarrow> string" where
  "attachment_kind mime =
     (if starts_with ''image/'' mime then ''image''
      else if starts_with ''video/'' mime then ''video''
      else if starts_with ''audio/'' mime then ''audio'' else ''file'')"

datatype mobile_view = ListView | ChatView

definition view_on_resize :: "bool \<Rightarrow> jsval \<Rightarrow> mobile_view \<Rightarrow> mobile_view" where
  "view_on_resize mobile a view =
     (if \<not> mobile then ChatView else if \<not> truthy a then ListView else view)"

definition view_effect :: "bool \<Rightarrow> jsval \<Rightarrow> mobile_view \<Rightarrow> mobile_view" where
  "view_effect mobile a view = (if \<not> mobile then view else if truthy a then ChatView else ListView)"

definition conversation_name :: "jsval \<Rightarrow> jsval" where
  "conversation_name c =
     (if truthy (fld c ''is_group'')
      then js_or (fld c ''title'') (JStr (''Group Chat ('' @ dec_nat
        (case fld c ''participants'' of JArr ps \<Rightarrow> length ps | _ \<Rightarrow> 0) @ '')''))
      else js_or (fld (fld c ''other_user'') ''display_name'')
        (js_or (fld (fld c ''other_user'') ''username'') (JStr ''Unknown'')))"

section \<open>Steps\<close>

text \<open>
  \<open>Inl e\<close> is a request that failed with the error \<open>e\<close>: the loads of the page ignore it, the handlers say
  it (those that show \<open>e.message\<close> fall back to their own text).
\<close>

definition message_or :: "string \<Rightarrow> jsval \<Rightarrow> jsval" where
  "message_or s e = js_or (fld e ''message'') (JStr s)"

fun inbox_answer :: "(jsval \<Rightarrow> int) \<Rightarrow> inbox_request \<Rightarrow> jsval + jsval \<Rightarrow> inbox_page \<Rightarrow> inbox_page" where
  "inbox_answer time (LoadConversations m w) (Inr d) p = conversations_answer m w d p"
| "inbox_answer time (LoadConversations m w) (Inl e) p = conversations_settle m p"
| "inbox_answer time (CreateConversationWith m n) (Inr d) p = created_answer m d p"
| "inbox_answer time (CreateConversationWith m n) (Inl e) p = conversations_settle m p"
| "inbox_answer time (LoadMessages v a) (Inr d) p = messages_answer time v d p"
| "inbox_answer time (LoadMessages v a) (Inl e) p = messages_settle v p"
| "inbox_answer time (MarkRead a n) (Inr d) p = read_answer a n p"
| "inbox_answer time (MarkRead a n) (Inl e) p = p"
| "inbox_answer time (StartConversation us b) (Inr d) p = started_answer us d p"
| "inbox_answer time (StartConversation us b) (Inl e) p =
     close_new_dm (say ErrorToast (JStr ''Cannot start conversation.'') p)"
| "inbox_answer time (DeleteConversation a) (Inr d) p = deleted_answer a p"
| "inbox_answer time (DeleteConversation a) (Inl e) p = say ErrorToast (JStr ''Failed to delete conversation'') p"
| "inbox_answer time (BlockUser a b) (Inr d) p = blocked_answer a b p"
| "inbox_answer time (BlockUser a b) (Inl e) p =
     say ErrorToast (JStr (if b then ''Failed to block user'' else ''Failed to unblock user'')) p"
| "inbox_answer time (LockConversation a b) (Inr d) p = locked_answer a b p"
| "inbox_answer time (LockConversation a b) (Inl e) p =
     say ErrorToast (message_or ''Failed to update lock state'' e) p"
| "inbox_answer time (RemoveParticipant a u me) (Inr d) p = removed_answer a u me p"
| "inbox_answer time (RemoveParticipant a u me) (Inl e) p =
     say ErrorToast (message_or ''Failed to remove participant'' e) p"

text \<open>A frame of the socket for one of the atoms of the inbox, and what the page's own clicks do.\<close>

definition inbox_live :: "string \<Rightarrow> jsval \<Rightarrow> inbox_page \<Rightarrow> inbox_page" where
  "inbox_live ty data p =
     p\<lparr>ib_store := fst (apply_ws_update (register_all inbox_registrations []) ty data (ib_store p))\<rparr>"

inductive page_action :: "inbox_page \<Rightarrow> inbox_page \<Rightarrow> bool" where
    act_choose: "array_of (ib_store p InboxConversationsAtom) = Some cs \<Longrightarrow> c \<in> set cs \<Longrightarrow>
      page_action p (choose_conversation c p)"
  | act_toggle: "page_action p (toggle_new_dm p)"
  | act_select: "page_action p (select_user u p)"
  | act_unselect: "page_action p (unselect_user u p)"
  | act_title: "page_action p (p\<lparr>ib_title := s\<rparr>)"
  | act_start: "page_action p (start_conversation p)"
  | act_delete: "page_action p (delete_conversation p)"
  | act_block: "page_action p (block_user b c p)"
  | act_lock: "page_action p (lock_conversation b p)"
  | act_remove: "page_action p (remove_participant u p)"

definition same_inbox :: "inbox_page \<Rightarrow> inbox_page \<Rightarrow> bool" where
  "same_inbox p q =
     (\<forall>a \<in> {InboxConversationsAtom, InboxMessagesAtom, ActiveConversationIdAtom, InboxUnreadCountAtom}.
        ib_store q a = ib_store p a)"

definition inbox_keys :: "connection \<Rightarrow> string list" where
  "inbox_keys c = filter (starts_with ''inbox_conversation:'') (cn_subs c)"

text \<open>
  The rest of the program changes other atoms and the connection, where it subscribes to other resources
  only.
\<close>

inductive inbox_step :: "(jsval \<Rightarrow> int) \<Rightarrow> inbox_page \<Rightarrow> inbox_page \<Rightarrow> bool" for time where
    page_mount: "\<not> ib_mounted p \<Longrightarrow> mount_page w p = Some q \<Longrightarrow> inbox_step time p q"
  | page_leave: "ib_mounted p \<Longrightarrow> inbox_step time p (leave_page p)"
  | page_act: "ib_mounted p \<Longrightarrow> page_action p p1 \<Longrightarrow> after_render p1 = Some q \<Longrightarrow> inbox_step time p q"
  | page_answer: "r \<in> set (ib_waiting p) \<Longrightarrow>
      after_render (inbox_answer time r resp (p\<lparr>ib_waiting := remove1 r (ib_waiting p)\<rparr>)) = Some q \<Longrightarrow>
      inbox_step time p q"
  | page_live: "after_render (inbox_live ty data p) = Some q \<Longrightarrow> inbox_step time p q"
  | page_elsewhere: "same_inbox p (p\<lparr>ib_store := st\<rparr>) \<Longrightarrow> inbox_keys c = inbox_keys (ib_conn p) \<Longrightarrow>
      inbox_step time p (p\<lparr>ib_store := st, ib_conn := c\<rparr>)"

inductive inbox_reachable :: "(jsval \<Rightarrow> int) \<Rightarrow> inbox_page \<Rightarrow> bool" for time where
    page_start: "\<not> ib_mounted p \<Longrightarrow> ib_waiting p = [] \<Longrightarrow> ib_visit p = None \<Longrightarrow> ib_subscribed p = [] \<Longrightarrow>
      inbox_keys (ib_conn p) = [] \<Longrightarrow> inbox_reachable time p"
  | page_next: "inbox_reachable time p \<Longrightarrow> inbox_step time p q \<Longrightarrow> inbox_reachable time q"


section \<open>The subscriptions of the page\<close>

lemma takeWhile_digits: "list_all is_digit ds \<Longrightarrow> takeWhile is_digit ds = ds"
  by (induction ds) simp_all

lemma parse_int_dec [simp]: "parse_int (dec_int n) = Some n"
proof -
  have nat: "dec_nat m \<noteq> []" "takeWhile is_digit (dec_nat m) = dec_nat m"
    "parse_nat (dec_nat m) = m" "\<not> is_space (hd (dec_nat m))" "hd (dec_nat m) \<noteq> CHR ''-''"
    "hd (dec_nat m) \<noteq> CHR ''+''" for m
  proof -
    show "dec_nat m \<noteq> []" "takeWhile is_digit (dec_nat m) = dec_nat m" "parse_nat (dec_nat m) = m"
      by (simp_all add: takeWhile_digits dec_nat_digits)
    have d: "is_digit (hd (dec_nat m))"
      using dec_nat_digits [of m] \<open>dec_nat m \<noteq> []\<close> by (cases "dec_nat m") simp_all
    then show "\<not> is_space (hd (dec_nat m))" by (rule digit_not_space)
    show "hd (dec_nat m) \<noteq> CHR ''-''" "hd (dec_nat m) \<noteq> CHR ''+''" using d by (auto simp: is_digit_def)
  qed
  have minus_space: "\<not> is_space CHR ''-''" by (simp add: is_space_def)
  show ?thesis
  proof (cases "n < 0")
    case True
    then show ?thesis by (simp add: parse_int_def dec_int_def minus_space Let_def nat)
  next
    case False
    obtain d ds where d: "dec_nat (nat n) = d # ds" using nat(1) by (cases "dec_nat (nat n)") auto
    with False show ?thesis using nat [of "nat n"]
      by (auto simp: parse_int_def dec_int_def)
  qed
qed

definition inbox_key :: "int \<Rightarrow> string" where
  "inbox_key n = subscription_key ''inbox_conversation'' (JNum n)"

lemma inbox_key_iff [simp]: "subscription_key ''inbox_conversation'' i = inbox_key n \<longleftrightarrow> js_string i = dec_int n"
  by (simp add: inbox_key_def subscription_key_def)

lemma inbox_key_iff' [simp]: "inbox_key n = subscription_key ''inbox_conversation'' i \<longleftrightarrow> js_string i = dec_int n"
  by (auto simp: inbox_key_def subscription_key_def)

lemma subs_subscribe: "set (cn_subs (subscribe ty i c)) = insert (subscription_key ty i) (set (cn_subs c))"
  by (auto simp: subscribe_def ws_send_def Let_def split: option.splits)

lemma subs_unsubscribe: "set (cn_subs (unsubscribe_resource ty i c)) = set (cn_subs c) - {subscription_key ty i}"
  by (auto simp: unsubscribe_resource_def ws_send_def Let_def split: option.splits)

lemma subs_unsubscribe_all:
  "set (cn_subs (fold (\<lambda>k. unsubscribe_resource ty (f k)) ks c)) =
   set (cn_subs c) - (\<lambda>k. subscription_key ty (f k)) ` set ks"
  by (induction ks arbitrary: c) (auto simp: subs_unsubscribe)

text \<open>
  What holds between the parts of the page at any moment of a callback: a subscription of a conversation
  with a number as id is recorded in the ref, or is that of the open conversation; a request for messages
  knows its run of the effect, and the run that is not cleaned up belongs to the id the effect ran for.
\<close>

definition page_core :: "inbox_page \<Rightarrow> bool" where
  "page_core p =
     ((\<forall>n. inbox_key n \<in> set (cn_subs (ib_conn p)) \<longrightarrow>
         Some n \<in> set (ib_subscribed p) \<or> (ib_visit p \<noteq> None \<and> (\<exists>a. ib_seen p = Some a \<and> js_string a = dec_int n)))
      \<and> (\<not> ib_mounted p \<longrightarrow> ib_subscribed p = [] \<and> ib_visit p = None)
      \<and> (\<forall>v. ib_visit p = Some v \<longrightarrow> v < ib_visits p \<and> ib_seen p \<noteq> None)
      \<and> (\<forall>v a. LoadMessages v a \<in> set (ib_waiting p) \<longrightarrow>
           v < ib_visits p \<and> (ib_visit p = Some v \<longrightarrow> ib_seen p = Some a)))"

text \<open>Between two events the effects have run, too.\<close>

definition effects_ran :: "inbox_page \<Rightarrow> bool" where
  "effects_ran p =
     ((\<forall>v. ib_visit p = Some v \<longrightarrow> ib_seen p = Some (active_id p))
      \<and> (\<exists>cs. ib_store p InboxConversationsAtom = JArr cs
           \<and> (\<forall>c \<in> set cs. parse_int (key_of c) \<in> set (ib_subscribed p))))"

definition page_inv :: "inbox_page \<Rightarrow> bool" where
  "page_inv p = (page_core p \<and> (ib_mounted p \<longrightarrow> effects_ran p))"

lemma page_coreD:
  assumes "page_core p"
  shows "inbox_key n \<in> set (cn_subs (ib_conn p)) \<Longrightarrow> Some n \<in> set (ib_subscribed p) \<or>
      (ib_visit p \<noteq> None \<and> (\<exists>a. ib_seen p = Some a \<and> js_string a = dec_int n))"
    and "\<not> ib_mounted p \<Longrightarrow> ib_subscribed p = []" "\<not> ib_mounted p \<Longrightarrow> ib_visit p = None"
    and "ib_visit p = Some v \<Longrightarrow> v < ib_visits p" "ib_visit p = Some v \<Longrightarrow> ib_seen p \<noteq> None"
    and "LoadMessages v a \<in> set (ib_waiting p) \<Longrightarrow> v < ib_visits p"
    and "LoadMessages v a \<in> set (ib_waiting p) \<Longrightarrow> ib_visit p = Some v \<Longrightarrow> ib_seen p = Some a"
  using assms unfolding page_core_def by blast+

text \<open>Callbacks write atoms, toasts and their own state; subscriptions belong to the effects.\<close>

definition same_page :: "inbox_page \<Rightarrow> inbox_page \<Rightarrow> bool" where
  "same_page p q =
     (ib_conn q = ib_conn p \<and> ib_mounted q = ib_mounted p \<and> ib_subscribed q = ib_subscribed p
      \<and> ib_visits q = ib_visits p \<and> ib_visit q = ib_visit p \<and> ib_seen q = ib_seen p
      \<and> (\<forall>v a. LoadMessages v a \<in> set (ib_waiting q) \<longrightarrow> LoadMessages v a \<in> set (ib_waiting p)))"

lemma same_page_core: "page_core p \<Longrightarrow> same_page p q \<Longrightarrow> page_core q"
  unfolding page_core_def same_page_def by (elim conjE, simp only:) blast

lemma same_page_refl [simp]: "same_page p p"
  by (simp add: same_page_def)

lemma same_page_trans: "same_page p q \<Longrightarrow> same_page q r \<Longrightarrow> same_page p r"
  by (simp add: same_page_def)

lemma same_page_simps [simp]:
  "same_page p (put_atom a v q) = same_page p q" "same_page p (say k m q) = same_page p q"
  "same_page p (close_new_dm q) = same_page p q" "same_page p (conversations_settle i q) = same_page p q"
  "same_page p (messages_settle j q) = same_page p q" "same_page p (inbox_live ty d q) = same_page p q"
  by (simp_all add: same_page_def put_atom_def say_def close_new_dm_def conversations_settle_def
      messages_settle_def inbox_live_def)

lemma same_page_ask: "same_page p q \<Longrightarrow> (\<And>v a. r \<noteq> LoadMessages v a) \<Longrightarrow> same_page p (ask r q)"
  by (auto simp: same_page_def ask_def)

lemma same_page_edit: "edit_conversations f p = Some q \<Longrightarrow> same_page p q"
  by (auto simp: edit_conversations_def array_of_def split: jsval.splits bind_splits)

lemma same_page_read: "same_page p (read_answer a n p)"
  by (auto simp: read_answer_def dest: same_page_edit split: option.split)

lemma same_page_loads: "same_page p (conversations_answer m w d p)"
  by (auto simp: conversations_answer_def Let_def intro: same_page_ask split: option.split list.split prod.split)

lemma same_page_answers:
  "same_page p (created_answer m c p)" "same_page p (messages_answer time v d p)"
  "same_page p (started_answer us d p)" "same_page p (deleted_answer a p)"
  "same_page p (blocked_answer a b p)" "same_page p (locked_answer a b p)"
proof -
  show "same_page p (created_answer m c p)" "same_page p (messages_answer time v d p)"
    "same_page p (started_answer us d p)" "same_page p (deleted_answer a p)" "same_page p (locked_answer a b p)"
    by (auto simp: created_answer_def messages_answer_def started_answer_def deleted_answer_def
        locked_answer_def Let_def dest: same_page_edit split: option.split)
  have "same_page p (say k m p)" for k m by simp
  from same_page_trans [OF this same_page_edit] show "same_page p (blocked_answer a b p)"
    by (auto simp: blocked_answer_def Let_def split: option.split)
qed

lemma same_page_removed: "same_page p (removed_answer a u me p)"
  by (auto simp: removed_answer_def dest: same_page_edit split: option.split)

lemma same_page_answer: "same_page p (inbox_answer time r resp p)"
  by (cases r; cases resp)
    (simp_all add: same_page_read same_page_loads same_page_answers same_page_removed)

lemma same_page_action: "page_action p q \<Longrightarrow> same_page p q"
  by (induction rule: page_action.induct)
    (auto simp: choose_conversation_def toggle_new_dm_def select_user_def unselect_user_def start_conversation_def
      delete_conversation_def block_user_def lock_conversation_def remove_participant_def intro: same_page_ask,
     simp_all add: same_page_def)

text \<open>The effects.\<close>

lemma subscribe_listed_effect:
  assumes "subscribe_listed cs p = Some q"
  shows "q = p\<lparr>ib_conn := ib_conn q, ib_subscribed := ib_subscribed q\<rparr>
    \<and> set (ib_subscribed p) \<subseteq> set (ib_subscribed q)
    \<and> (\<forall>c \<in> set cs. parse_int (key_of c) \<in> set (ib_subscribed q))
    \<and> (\<forall>n. inbox_key n \<in> set (cn_subs (ib_conn q)) \<longrightarrow>
         inbox_key n \<in> set (cn_subs (ib_conn p)) \<or> Some n \<in> set (ib_subscribed q))"
  using assms
proof (induction cs arbitrary: p)
  case Nil
  then show ?case by simp
next
  case (Cons c cs)
  obtain i where i: "get c ''id'' = Some i" using Cons.prems by (cases "get c ''id''") simp_all
  then have key: "js_string i = key_of c" by (auto simp: get_def key_of_def split: if_splits)
  define p1 where "p1 = (if parse_int (js_string i) \<in> set (ib_subscribed p) then p
    else p\<lparr>ib_conn := subscribe ''inbox_conversation'' i (ib_conn p),
      ib_subscribed := ib_subscribed p @ [parse_int (js_string i)]\<rparr>)"
  have "subscribe_listed cs p1 = Some q" using Cons.prems i by (simp add: p1_def Let_def)
  from Cons.IH [OF this] have IH: "q = p1\<lparr>ib_conn := ib_conn q, ib_subscribed := ib_subscribed q\<rparr>"
    "set (ib_subscribed p1) \<subseteq> set (ib_subscribed q)"
    "\<forall>c \<in> set cs. parse_int (key_of c) \<in> set (ib_subscribed q)"
    "\<forall>n. inbox_key n \<in> set (cn_subs (ib_conn q)) \<longrightarrow>
       inbox_key n \<in> set (cn_subs (ib_conn p1)) \<or> Some n \<in> set (ib_subscribed q)" by blast+
  have p1: "p1\<lparr>ib_conn := c', ib_subscribed := s\<rparr> = p\<lparr>ib_conn := c', ib_subscribed := s\<rparr>" for c' s
    by (simp add: p1_def)
  have new: "inbox_key n \<in> set (cn_subs (ib_conn p1)) \<Longrightarrow>
      inbox_key n \<in> set (cn_subs (ib_conn p)) \<or> Some n \<in> set (ib_subscribed p1)" for n
    by (auto simp: p1_def subs_subscribe split: if_splits)
  have "set (ib_subscribed p) \<subseteq> set (ib_subscribed p1)" "parse_int (key_of c) \<in> set (ib_subscribed p1)"
    by (auto simp: p1_def key)
  with IH(2,3) have "set (ib_subscribed p) \<subseteq> set (ib_subscribed q)"
    "\<forall>c' \<in> set (c # cs). parse_int (key_of c') \<in> set (ib_subscribed q)" by auto
  moreover have "\<forall>n. inbox_key n \<in> set (cn_subs (ib_conn q)) \<longrightarrow>
       inbox_key n \<in> set (cn_subs (ib_conn p)) \<or> Some n \<in> set (ib_subscribed q)"
    using IH(2,4) new by blast
  moreover have "q = p\<lparr>ib_conn := ib_conn q, ib_subscribed := ib_subscribed q\<rparr>" using IH(1) unfolding p1 .
  ultimately show ?case by blast
qed

lemma leave_conversation_core:
  assumes "page_core p"
  shows "page_core (leave_conversation p)" "ib_visit (leave_conversation p) = None"
proof (atomize (full), cases "ib_visit p")
  case None
  with assms show "page_core (leave_conversation p) \<and> ib_visit (leave_conversation p) = None"
    by (simp add: leave_conversation_def)
next
  case (Some v)
  then obtain a where a: "ib_seen p = Some a" using page_coreD(5) [OF assms Some] by blast
  let ?q = "p\<lparr>ib_visit := None, ib_conn := unsubscribe_resource ''inbox_conversation'' a (ib_conn p)\<rparr>"
  have q: "leave_conversation p = ?q" by (simp add: leave_conversation_def Some a)
  have keys: "Some n \<in> set (ib_subscribed p)" if "inbox_key n \<in> set (cn_subs (ib_conn ?q))" for n
    using that page_coreD(1) [OF assms, of n] a by (auto simp: subs_unsubscribe)
  have "page_core ?q" unfolding page_core_def
    using keys page_coreD(2,6) [OF assms] by auto
  then show "page_core (leave_conversation p) \<and> ib_visit (leave_conversation p) = None" by (simp add: q)
qed

lemma leave_conversation_simps [simp]:
  "ib_store (leave_conversation p) = ib_store p" "ib_subscribed (leave_conversation p) = ib_subscribed p"
  "ib_mounted (leave_conversation p) = ib_mounted p" "ib_seen (leave_conversation p) = ib_seen p"
  by (simp_all add: leave_conversation_def split: option.split)

lemma open_conversation_ok:
  assumes core: "page_core p" and none: "ib_visit p = None" and mounted: "ib_mounted p"
    and q: "open_conversation cs p = Some q"
  shows "page_core q \<and> (\<forall>v. ib_visit q = Some v \<longrightarrow> ib_seen q = Some (active_id q))
    \<and> ib_store q InboxConversationsAtom = ib_store p InboxConversationsAtom
    \<and> ib_subscribed q = ib_subscribed p \<and> ib_mounted q"
proof (cases "truthy (active_id p)")
  case False
  with q have "q = (put_atom InboxMessagesAtom (JArr []) p)\<lparr>ib_seen := Some (active_id p)\<rparr>"
    by (simp add: open_conversation_def)
  moreover have "page_core ((put_atom InboxMessagesAtom (JArr []) p)\<lparr>ib_seen := Some (active_id p)\<rparr>)"
    unfolding page_core_def put_atom_def using page_coreD(1,6) [OF core] none mounted by auto
  ultimately show ?thesis using none mounted by (simp add: put_atom_def)
next
  case True
  with q obtain n where "q = ask (MarkRead (active_id p) n) (ask (LoadMessages (ib_visits p) (active_id p))
      ((put_atom InboxMessagesAtom (JArr []) p)\<lparr>ib_seen := Some (active_id p), ib_loading_msgs := True,
        ib_visit := Some (ib_visits p), ib_visits := Suc (ib_visits p),
        ib_conn := subscribe ''inbox_conversation'' (active_id p) (ib_conn p)\<rparr>))"
    by (auto simp: open_conversation_def Let_def split: bind_splits)
  moreover have "page_core (ask (MarkRead (active_id p) n) (ask (LoadMessages (ib_visits p) (active_id p))
      ((put_atom InboxMessagesAtom (JArr []) p)\<lparr>ib_seen := Some (active_id p), ib_loading_msgs := True,
        ib_visit := Some (ib_visits p), ib_visits := Suc (ib_visits p),
        ib_conn := subscribe ''inbox_conversation'' (active_id p) (ib_conn p)\<rparr>)))"
    unfolding page_core_def put_atom_def ask_def using page_coreD(1,6) [OF core] none mounted
    by (fastforce simp: subs_subscribe less_Suc_eq)
  ultimately show ?thesis using mounted by (simp add: put_atom_def ask_def)
qed

lemma same_value_eq: "same_value a b \<Longrightarrow> a = b"
  by (auto simp: same_value_def dest: strict_eq_eq)

lemma subscribe_listed_core:
  assumes "page_core p" "ib_mounted p" "subscribe_listed cs p = Some q"
  shows "page_core q \<and> ib_mounted q \<and> ib_visit q = ib_visit p \<and> ib_seen q = ib_seen p
    \<and> ib_store q = ib_store p \<and> (\<forall>c \<in> set cs. parse_int (key_of c) \<in> set (ib_subscribed q))"
proof -
  note effect = subscribe_listed_effect [OF assms(3)]
  then obtain c s where "q = p\<lparr>ib_conn := c, ib_subscribed := s\<rparr>" by blast
  then have same: "ib_mounted q = ib_mounted p" "ib_visit q = ib_visit p" "ib_seen q = ib_seen p"
    "ib_store q = ib_store p" "ib_visits q = ib_visits p" "ib_waiting q = ib_waiting p"
    by simp_all
  have "page_core q" unfolding page_core_def same
    using effect page_coreD(1,4-7) [OF assms(1)] assms(2) by blast
  with same effect assms(2) show ?thesis by simp
qed

lemma run_effects_inv:
  assumes core: "page_core p" and mounted: "ib_mounted p" and q: "run_effects p = Some q"
  shows "page_inv q \<and> ib_mounted q"
proof -
  define changed where "changed = (case ib_seen p of None \<Rightarrow> True | Some a \<Rightarrow> \<not> same_value (active_id p) a)"
  define p1 where "p1 = (if changed then leave_conversation p else p)"
  from q obtain cs p2 where cs: "ib_store p InboxConversationsAtom = JArr cs" and p2: "subscribe_listed cs p1 = Some p2"
    and last: "(if changed then open_conversation cs p2 else Some p2) = Some q"
    by (auto simp: run_effects_def changed_def [symmetric] p1_def [symmetric] array_of_def Let_def
        split: bind_splits jsval.splits)
  have p1_core: "page_core p1" "ib_mounted p1" "ib_store p1 = ib_store p"
    using leave_conversation_core [OF core] core mounted by (simp_all add: p1_def)
  note p2_core = subscribe_listed_core [OF p1_core(1,2) p2]
  show ?thesis
  proof (cases changed)
    case True
    then have "ib_visit p2 = None" using p2_core leave_conversation_core(2) [OF core] by (simp add: p1_def)
    from open_conversation_ok [OF _ this, of cs q] last True p2_core p1_core(3) cs show ?thesis
      by (auto simp: page_inv_def effects_ran_def)
  next
    case False
    then have "\<exists>a. ib_seen p = Some a \<and> active_id p = a"
      by (auto simp: changed_def dest: same_value_eq split: option.splits)
    with False last p2_core p1_core(3) cs show ?thesis
      by (auto simp: page_inv_def effects_ran_def p1_def)
  qed
qed

lemma after_render_inv: "page_core p \<Longrightarrow> after_render p = Some q \<Longrightarrow> page_inv q"
  using run_effects_inv [of p q] by (auto simp: after_render_def page_inv_def split: if_splits)

lemma leave_page_core:
  assumes core: "page_core p"
  shows "page_core (leave_page p)" "inbox_key n \<notin> set (cn_subs (ib_conn (leave_page p)))"
proof -
  let ?c = "fold (\<lambda>k. unsubscribe_resource ''inbox_conversation'' (number_value k)) (ib_subscribed p) (ib_conn p)"
  let ?p = "(put_atom ActiveConversationIdAtom JNull p)\<lparr>ib_conn := ?c, ib_subscribed := []\<rparr>"
  have rest: "ib_visit p \<noteq> None \<and> (\<exists>a. ib_seen p = Some a \<and> js_string a = dec_int m)"
    if key: "inbox_key m \<in> set (cn_subs ?c)" for m
  proof -
    from key have "Some m \<notin> set (ib_subscribed p)" "inbox_key m \<in> set (cn_subs (ib_conn p))"
      by (force simp: subs_unsubscribe_all number_value_def inbox_key_def)+
    with page_coreD(1) [OF core, of m] show ?thesis by blast
  qed
  have "page_core ?p" unfolding page_core_def put_atom_def
    using rest page_coreD(3,4,5,6,7) [OF core] by auto
  note left = leave_conversation_core [OF this]
  have page: "leave_page p = (leave_conversation ?p)\<lparr>ib_mounted := False\<rparr>" by (simp add: leave_page_def Let_def)
  have none: "inbox_key m \<notin> set (cn_subs (ib_conn (leave_conversation ?p)))" for m
    using page_coreD(1) [OF left(1), of m] left(2) by auto
  then show "inbox_key n \<notin> set (cn_subs (ib_conn (leave_page p)))" by (simp add: page)
  show "page_core (leave_page p)" unfolding page_core_def
    using none left(2) page_coreD(6) [OF left(1)] by (simp add: page)
qed

lemma mount_page_inv:
  assumes "page_inv p" "\<not> ib_mounted p" "mount_page w p = Some q"
  shows "page_inv q"
proof -
  have core: "page_core p" using assms(1) by (simp add: page_inv_def)
  have no_keys: "inbox_key n \<notin> set (cn_subs (ib_conn p))" for n
    using page_coreD(1-3) [OF core] assms(2) by fastforce
  show ?thesis
    using assms(3) unfolding mount_page_def Let_def
    by (elim run_effects_inv [THEN conjunct1, rotated 2])
      (use no_keys page_coreD(6) [OF core] in \<open>auto simp: page_core_def ask_def\<close>)
qed

lemma inbox_keys_cong:
  assumes "inbox_keys c = inbox_keys d"
  shows "inbox_key n \<in> set (cn_subs c) \<longleftrightarrow> inbox_key n \<in> set (cn_subs d)"
proof -
  have "inbox_key n \<in> set (cn_subs c) \<longleftrightarrow> inbox_key n \<in> set (inbox_keys c)" for c
    by (auto simp: inbox_keys_def inbox_key_def subscription_key_def starts_with_def)
  with assms show ?thesis by simp
qed

lemma inbox_step_inv:
  assumes "inbox_step time p q" "page_inv p"
  shows "page_inv q"
  using assms
proof cases
  case (page_mount w)
  with assms(2) show ?thesis by (rule_tac mount_page_inv)
next
  case page_leave
  with assms(2) leave_page_core [of p] show ?thesis by (auto simp: page_inv_def leave_page_def Let_def)
next
  case (page_act p1)
  from assms(2) have "page_core p" by (simp add: page_inv_def)
  from after_render_inv [OF same_page_core [OF this same_page_action [OF page_act(2)]] page_act(3)] show ?thesis .
next
  case (page_answer r resp)
  have "same_page p (p\<lparr>ib_waiting := remove1 r (ib_waiting p)\<rparr>)"
    using set_remove1_subset [of r "ib_waiting p"] by (auto simp: same_page_def)
  note same = same_page_trans [OF this same_page_answer]
  from assms(2) have "page_core p" by (simp add: page_inv_def)
  from after_render_inv [OF same_page_core [OF this same] page_answer(2)] show ?thesis .
next
  case (page_live ty data)
  have same: "same_page p (inbox_live ty data p)" by simp
  from assms(2) have "page_core p" by (simp add: page_inv_def)
  from after_render_inv [OF same_page_core [OF this same] page_live] show ?thesis .
next
  case (page_elsewhere st c)
  have "page_core q" unfolding page_elsewhere(1)
    using assms(2) inbox_keys_cong [OF page_elsewhere(3)]
    unfolding page_inv_def page_core_def by simp
  moreover have "effects_ran p \<Longrightarrow> effects_ran q" using page_elsewhere by (simp add: effects_ran_def same_inbox_def)
  ultimately show ?thesis using assms(2) page_elsewhere(1) by (simp add: page_inv_def)
qed

lemma inbox_reachable_inv: "inbox_reachable time p \<Longrightarrow> page_inv p"
proof (induction rule: inbox_reachable.induct)
  case (page_start p)
  then have "inbox_key n \<notin> set (cn_subs (ib_conn p))" for n
    by (auto simp: inbox_keys_def inbox_key_def subscription_key_def starts_with_def filter_empty_conv)
  with page_start show ?case by (simp add: page_inv_def page_core_def)
next
  case (page_next p q)
  then show ?case by (blast intro: inbox_step_inv)
qed

section \<open>The unread badge\<close>

definition unread_of :: "jsval \<Rightarrow> int" where
  "unread_of c = num_of (js_coalesce (fld c ''unread_count'') (JNum 0))"

definition unread_sum :: "jsval list \<Rightarrow> int" where
  "unread_sum cs = sum_list (map unread_of cs)"

text \<open>A conversation as the server sends it: its id is a text or a number, its counter a number if any.\<close>

definition counted_conversation :: "jsval \<Rightarrow> bool" where
  "counted_conversation c =
     (entity_ok c \<and> (case fld c ''id'' of JStr _ \<Rightarrow> True | JNum _ \<Rightarrow> True | _ \<Rightarrow> False)
      \<and> (case fld c ''unread_count'' of JUndef \<Rightarrow> True | JNum n \<Rightarrow> 0 \<le> n | _ \<Rightarrow> False))"

definition badge_ok :: "inbox_page \<Rightarrow> bool" where
  "badge_ok p =
     (case ib_store p InboxConversationsAtom of
        JArr cs \<Rightarrow> feed_inv counted_conversation key_of cs
          \<and> ib_store p InboxUnreadCountAtom = JNum (unread_sum cs)
      | _ \<Rightarrow> False)"

text \<open>Messages that arrive one after the other, each followed by a render.\<close>

primrec receive_messages :: "jsval list \<Rightarrow> inbox_page \<Rightarrow> inbox_page option" where
  "receive_messages [] p = Some p"
| "receive_messages (d # ds) p = after_render (inbox_live ''inbox:message'' d p) \<bind> receive_messages ds"

lemma counted_facts:
  assumes "counted_conversation c"
  shows "entity_ok c" "strict_eq (fld c ''id'') (fld c ''id'')" "0 \<le> unread_of c" "key_of c \<noteq> []"
    "truthy (fld c ''id'')" "js_coalesce (fld c ''unread_count'') (JNum 0) = JNum (unread_of c)"
proof -
  obtain ps where c: "c = JObj ps" "truthy (fld c ''id'')"
    using assms entity_ok_obj by (auto simp: counted_conversation_def)
  then show "entity_ok c" "truthy (fld c ''id'')" using assms by (simp_all add: counted_conversation_def)
  show "strict_eq (fld c ''id'') (fld c ''id'')" "0 \<le> unread_of c"
    "js_coalesce (fld c ''unread_count'') (JNum 0) = JNum (unread_of c)"
    using assms by (auto simp: counted_conversation_def unread_of_def js_coalesce_def num_of_def nullish_def
        split: jsval.splits)
  show "key_of c \<noteq> []"
    using assms c(2) dec_nat_nonempty by (auto simp: counted_conversation_def key_of_def dec_int_def split: jsval.splits)
qed

lemma unread_total_sum:
  assumes "list_all counted_conversation cs"
  shows "unread_total cs = Some (JNum (unread_sum cs))"
proof -
  have "js_reduce (\<lambda>s c. do { n \<leftarrow> get c ''unread_count''; Some (js_add s (js_coalesce n (JNum 0))) }) (JNum t) cs =
      Some (JNum (t + unread_sum cs))" for t
    using assms
  proof (induction cs arbitrary: t)
    case Nil
    then show ?case by (simp add: unread_sum_def)
  next
    case (Cons c cs)
    then have "counted_conversation c" by simp
    note c = counted_facts [OF this]
    show ?case using Cons c(1,6) by (simp add: entity_readable unread_sum_def)
  qed
  from this [of 0] show ?thesis by (simp add: unread_total_def)
qed

text \<open>What the badge must be while one conversation, of key \<open>k\<close>, is being read.\<close>

definition unread_elsewhere :: "string \<Rightarrow> jsval list \<Rightarrow> int" where
  "unread_elsewhere k cs = unread_sum (filter (\<lambda>c. key_of c \<noteq> k) cs)"

lemma unread_elsewhere_nonneg: "list_all counted_conversation cs \<Longrightarrow> 0 \<le> unread_elsewhere k cs"
  by (auto simp: unread_elsewhere_def unread_sum_def list_all_iff counted_facts intro!: sum_list_nonneg)

lemma unread_split:
  assumes "distinct (map key_of cs)" "c \<in> set cs"
  shows "unread_sum cs = unread_elsewhere (key_of c) cs + unread_of c"
  using assms
proof (induction cs)
  case Nil
  then show ?case by simp
next
  case (Cons x cs)
  have none: "filter (\<lambda>y. key_of y \<noteq> k) ys = ys" if "k \<notin> key_of ` set ys" for k ys
    using that by (intro filter_True) auto
  show ?case
  proof (cases "key_of x = key_of c")
    case True
    with Cons.prems have "x = c" by auto
    with Cons.prems show ?thesis by (simp add: unread_sum_def unread_elsewhere_def none)
  next
    case False
    with Cons show ?thesis by (auto simp: unread_sum_def unread_elsewhere_def)
  qed
qed

lemma raise_one:
  fixes f :: "'c \<Rightarrow> int"
  assumes "distinct (map key xs)" "k \<in> key ` set xs"
  shows "(\<Sum>x\<leftarrow>xs. f x + (if key x = k then 1 else 0)) = (\<Sum>x\<leftarrow>xs. f x) + 1"
  using assms
proof (induction xs)
  case Nil
  then show ?case by simp
next
  case (Cons x xs)
  have none: "k \<notin> key ` set ys \<Longrightarrow> (\<Sum>y\<leftarrow>ys. f y + (if key y = k then 1 else 0)) = (\<Sum>y\<leftarrow>ys. f y)" for ys
    by (induction ys) auto
  show ?case
  proof (cases "key x = k")
    case True
    with Cons.prems none [of xs] show ?thesis by auto
  next
    case False
    with Cons show ?thesis by auto
  qed
qed

lemma merged_counts:
  assumes "counted_conversation c"
  shows "counted_conversation (message_merged k d act own c)" "key_of (message_merged k d act own c) = key_of c"
    "fld (message_merged k d act own c) ''id'' = fld c ''id''"
    "unread_of (message_merged k d act own c) =
       (if key_of c \<noteq> k then unread_of c else if act then 0 else if own then unread_of c else unread_of c + 1)"
proof -
  note c = counted_facts [OF assms]
  let ?n = "unread_after act own (fld c ''unread_count'')"
  have "plain_object c" using entity_ok_obj [OF c(1)] by (auto simp: plain_object_def)
  note object = object_fields [OF this]
  have n: "?n = (if act then JNum 0 else if own then fld c ''unread_count'' else JNum (unread_of c + 1))"
    by (simp add: unread_after_def c(6))
  have "entity_ok (obj_with c [(''last_message'', d), (''unread_count'', ?n)])
      \<and> key_of (obj_with c [(''last_message'', d), (''unread_count'', ?n)]) = key_of c"
    using entity_with [OF c(1), of "[(''last_message'', d), (''unread_count'', ?n)]"] by simp
  with assms c(3) n show "counted_conversation (message_merged k d act own c)"
    "key_of (message_merged k d act own c) = key_of c"
    "fld (message_merged k d act own c) ''id'' = fld c ''id''"
    "unread_of (message_merged k d act own c) =
       (if key_of c \<noteq> k then unread_of c else if act then 0 else if own then unread_of c else unread_of c + 1)"
    by (auto simp: message_merged_def counted_conversation_def unread_of_def js_coalesce_def object)
qed

text \<open>One message: the counters of the rows and the total change together.\<close>

lemma live_message:
  assumes "ib_store p InboxConversationsAtom = JArr cs" "ib_store p InboxUnreadCountAtom = JNum t"
    and "list_all counted_conversation cs" "text_field d ''conversation_id'' \<noteq> []"
  defines "act \<equiv> message_in_active d (ib_store p)" and "own \<equiv> message_from_current_user d (ib_store p)"
  shows "ib_store (inbox_live ''inbox:message'' d p) = (ib_store p)
    (InboxUnreadCountAtom := JNum (if \<not> act \<and> \<not> own then t + 1 else t),
     InboxConversationsAtom := JArr (map (message_merged (text_field d ''conversation_id'') d act own) cs))"
proof -
  have entities: "list_all entity_ok cs" using assms(3) by (auto simp: list_all_iff dest: counted_facts)
  let ?st = "(ib_store p)(InboxUnreadCountAtom := JNum (if \<not> act \<and> \<not> own then t + 1 else t))"
  have frame: "message_in_active d ?st = act" "message_from_current_user d ?st = own"
    by (simp_all add: act_def own_def message_in_active_def message_from_current_user_def)
  have "patch_inbox_unread (JNum t) d (ib_store p) = Some (?st InboxUnreadCountAtom)"
    by (simp add: patch_inbox_unread_def act_def own_def)
  then show ?thesis
    using assms(1,2) patch_inbox_message_eq [OF entities assms(4), of ?st]
    by (simp add: inbox_live_def apply_registered handlers_inbox_message frame)
qed

text \<open>The invariant of a visit to the conversation \<open>a\<close>, opened with \<open>u\<close> unread messages.\<close>

definition being_read :: "jsval \<Rightarrow> int \<Rightarrow> string list \<Rightarrow> inbox_page \<Rightarrow> bool" where
  "being_read a u keys p =
     (ib_mounted p \<and> ib_seen p = Some a \<and> active_id p = a \<and> strict_eq a a \<and> 0 \<le> u \<and>
      (case ib_store p InboxConversationsAtom of
         JArr cs \<Rightarrow> feed_inv counted_conversation key_of cs \<and> map key_of cs = keys
           \<and> (\<forall>c \<in> set cs. key_of c = js_string a \<longrightarrow> fld c ''id'' = a)
           \<and> ib_store p InboxUnreadCountAtom = JNum (unread_elsewhere (js_string a) cs + u)
       | _ \<Rightarrow> False))"

lemma being_readE:
  assumes "being_read a u keys p"
  obtains cs where "ib_store p InboxConversationsAtom = JArr cs" "list_all counted_conversation cs"
    "distinct keys" "map key_of cs = keys" "\<And>c. c \<in> set cs \<Longrightarrow> key_of c = js_string a \<Longrightarrow> fld c ''id'' = a"
    "ib_store p InboxUnreadCountAtom = JNum (unread_elsewhere (js_string a) cs + u)"
    "ib_mounted p" "ib_seen p = Some a" "active_id p = a" "strict_eq a a" "0 \<le> u"
  using assms by (auto simp: being_read_def feed_inv_def split: jsval.splits)

lemma elsewhere_merged:
  assumes "list_all counted_conversation cs" "distinct (map key_of cs)" "k \<in> key_of ` set cs" "act \<longleftrightarrow> k = a"
  shows "unread_elsewhere a (map (message_merged k d act own) cs) =
    unread_elsewhere a cs + (if \<not> act \<and> \<not> own then 1 else 0)"
proof -
  let ?others = "filter (\<lambda>c. key_of c \<noteq> a) cs" and ?g = "message_merged k d act own"
  have counted: "\<And>c. c \<in> set cs \<Longrightarrow> counted_conversation c" using assms(1) by (simp add: list_all_iff)
  have "filter (\<lambda>c. key_of c \<noteq> a) (map ?g cs) = map ?g ?others"
    unfolding filter_map by (rule arg_cong [where f = "map ?g"], rule filter_cong)
      (simp_all add: merged_counts(2) [OF counted])
  then have "unread_elsewhere a (map ?g cs) = (\<Sum>c\<leftarrow>?others. unread_of (?g c))"
    by (simp add: unread_elsewhere_def unread_sum_def o_def)
  also have "\<dots> = (\<Sum>c\<leftarrow>?others. unread_of c + (if key_of c = k then if \<not> act \<and> \<not> own then 1 else 0 else 0))"
    by (rule arg_cong [where f = sum_list], rule map_cong)
      (use assms(4) in \<open>auto simp: merged_counts(4) [OF counted]\<close>)
  also have "\<dots> = (\<Sum>c\<leftarrow>?others. unread_of c) + (if \<not> act \<and> \<not> own then 1 else 0)"
  proof (cases "act \<or> own")
    case True
    then show ?thesis by (auto simp: if_distrib cong: if_cong)
  next
    case False
    have "distinct (map key_of ?others)" by (rule distinct_map_filter) (rule assms(2))
    moreover have "k \<in> key_of ` set ?others" using assms(3,4) False by auto
    ultimately show ?thesis using raise_one [of key_of ?others k unread_of] False by simp
  qed
  finally show ?thesis by (simp add: unread_elsewhere_def unread_sum_def)
qed

lemma run_effects_again:
  assumes "ib_seen p = Some (active_id p)" "strict_eq (active_id p) (active_id p)" "ib_mounted p" "after_render p = Some q"
  shows "ib_store q = ib_store p \<and> ib_seen q = ib_seen p \<and> ib_mounted q"
proof -
  from assms obtain cs where "subscribe_listed cs p = Some q"
    by (auto simp: after_render_def run_effects_def same_value_def Let_def split: bind_splits)
  from subscribe_listed_effect [OF this] obtain c s where "q = p\<lparr>ib_conn := c, ib_subscribed := s\<rparr>" by blast
  with assms(3) show ?thesis by simp
qed

lemma being_read_step:
  assumes read: "being_read a u keys p" and listed: "text_field d ''conversation_id'' \<in> set keys"
    and q: "after_render (inbox_live ''inbox:message'' d p) = Some q"
  shows "being_read a u keys q"
proof -
  obtain cs where cs: "ib_store p InboxConversationsAtom = JArr cs" "list_all counted_conversation cs"
    "distinct keys" "map key_of cs = keys" "\<And>c. c \<in> set cs \<Longrightarrow> key_of c = js_string a \<Longrightarrow> fld c ''id'' = a"
    "ib_store p InboxUnreadCountAtom = JNum (unread_elsewhere (js_string a) cs + u)"
    "ib_mounted p" "ib_seen p = Some a" "active_id p = a" "strict_eq a a" "0 \<le> u"
    using being_readE [OF read] by blast
  let ?k = "text_field d ''conversation_id''"
  have in_cs: "?k \<in> key_of ` set cs" using listed cs(4) by (metis list.set_map)
  then obtain c where "c \<in> set cs" "key_of c = ?k" by auto
  then have k: "?k \<noteq> []" using cs(2) counted_facts(4) [of c] by (simp add: list_all_iff)
  let ?act = "message_in_active d (ib_store p)" and ?own = "message_from_current_user d (ib_store p)"
  let ?g = "message_merged ?k d ?act ?own"
  have act: "?act \<longleftrightarrow> ?k = js_string a" using k cs(9) by (simp add: message_in_active_def)
  note store = live_message [OF cs(1,6,2) k]
  have live: "ib_seen (inbox_live ''inbox:message'' d p) = Some a" "ib_mounted (inbox_live ''inbox:message'' d p)"
    "active_id (inbox_live ''inbox:message'' d p) = a"
    using cs(7,8,9) store by (simp_all add: inbox_live_def)
  have "ib_store q = ib_store (inbox_live ''inbox:message'' d p) \<and> ib_seen q = Some a \<and> ib_mounted q"
    using run_effects_again [OF _ _ live(2) q] live cs(10) by simp
  moreover have "map (key_of \<circ> ?g) cs = keys"
    using cs(2,4) by (auto simp: list_all_iff merged_counts(2) o_def cong: map_cong)
  moreover have "list_all counted_conversation (map ?g cs)"
    using cs(2) by (auto simp: list_all_iff merged_counts(1))
  moreover have "\<forall>c \<in> set (map ?g cs). key_of c = js_string a \<longrightarrow> fld c ''id'' = a"
    using cs(2,5) by (auto simp: list_all_iff merged_counts)
  ultimately show ?thesis
    using store cs(3,9,10,11) elsewhere_merged [OF cs(2) _ in_cs act, of d ?own] cs(4)
    by (simp add: being_read_def feed_inv_def)
qed

lemma being_read_run:
  assumes "being_read a u keys p" "\<forall>d \<in> set ds. text_field d ''conversation_id'' \<in> set keys"
    and "receive_messages ds p = Some q"
  shows "being_read a u keys q"
  using assms by (induction ds arbitrary: p) (auto split: bind_splits dest: being_read_step)

lemma opening_reads:
  assumes p: "ib_mounted p" "badge_ok p" "ib_store p InboxConversationsAtom = JArr cs" "c \<in> set cs"
    and other: "ib_seen p \<noteq> Some (fld c ''id'')"
    and q: "after_render (choose_conversation c p) = Some q"
  shows "being_read (fld c ''id'') (unread_of c) (map key_of cs) q
    \<and> last (ib_waiting q) = MarkRead (fld c ''id'') (JNum (unread_of c))"
proof -
  let ?a = "fld c ''id''" and ?p = "choose_conversation c p"
  have cs: "list_all counted_conversation cs" "distinct (map key_of cs)"
    "ib_store p InboxUnreadCountAtom = JNum (unread_sum cs)"
    using p(2,3) by (simp_all add: badge_ok_def feed_inv_def)
  have c: "counted_conversation c" using cs(1) p(4) by (simp add: list_all_iff)
  note facts = counted_facts [OF c]
  have active: "active_id ?p = ?a" "ib_store ?p InboxConversationsAtom = JArr cs" "ib_mounted ?p"
    "ib_store ?p InboxUnreadCountAtom = JNum (unread_sum cs)" "ib_seen ?p = ib_seen p"
    using p(1,3) cs(3) by (simp_all add: choose_conversation_def put_atom_def)
  have "(case ib_seen ?p of None \<Rightarrow> True | Some b \<Rightarrow> \<not> same_value (active_id ?p) b)"
    using other active(1,5) same_value_eq [of ?a] by (auto split: option.splits)
  with q active(1-3) obtain p2 where p2: "subscribe_listed cs (leave_conversation ?p) = Some p2"
    "open_conversation cs p2 = Some q"
    by (auto simp: after_render_def run_effects_def array_of_def Let_def split: bind_splits)
  from subscribe_listed_effect [OF p2(1)] obtain x s
    where x: "p2 = (leave_conversation ?p)\<lparr>ib_conn := x, ib_subscribed := s\<rparr>" by blast
  have unique: "x \<in> set cs \<Longrightarrow> key_of x = key_of c \<Longrightarrow> x = c" for x
    using cs(2) p(4) by (auto simp: distinct_map dest: inj_onD)
  have "find (\<lambda>x. strict_eq (fld x ''id'') ?a) cs = Some c"
  proof -
    have "\<exists>x. find (\<lambda>x. strict_eq (fld x ''id'') ?a) cs = Some x"
      using p(4) facts(2) by (metis find_None_iff option.exhaust)
    then obtain x where "find (\<lambda>x. strict_eq (fld x ''id'') ?a) cs = Some x" by blast
    with find_SomeD [OF this] show ?thesis using unique [of x] by (auto simp: key_of_def dest: strict_eq_eq)
  qed
  moreover have "js_find (\<lambda>x. do { i \<leftarrow> get x ''id''; Some (strict_eq i ?a) }) cs =
      Some (find (\<lambda>x. strict_eq (fld x ''id'') ?a) cs)"
    using cs(1) by (intro js_find_total) (simp add: list_all_iff entity_readable counted_facts(1))
  ultimately have "previous_unread cs ?a = Some (JNum (unread_of c))"
    by (simp add: previous_unread_def facts(6))
  with p2(2) active facts(5) x have "q = ask (MarkRead ?a (JNum (unread_of c))) (ask (LoadMessages (ib_visits p2) ?a)
      ((put_atom InboxMessagesAtom (JArr []) p2)\<lparr>ib_seen := Some ?a, ib_loading_msgs := True,
        ib_visit := Some (ib_visits p2), ib_visits := Suc (ib_visits p2),
        ib_conn := subscribe ''inbox_conversation'' ?a (ib_conn p2)\<rparr>))"
    by (auto simp: open_conversation_def Let_def)
  with x active cs facts(2,3) unread_split [OF cs(2) p(4)] unique show ?thesis
    by (auto simp: being_read_def ask_def put_atom_def feed_inv_def key_of_def)
qed

lemma read_counts:
  assumes "list_all counted_conversation cs" "strict_eq a a"
    and "\<And>c. c \<in> set cs \<Longrightarrow> key_of c = js_string a \<Longrightarrow> fld c ''id'' = a"
  defines "g \<equiv> (\<lambda>c. if key_of c = js_string a then obj_with c [(''unread_count'', JNum 0)] else c)"
  shows "patch_by_id a [(''unread_count'', JNum 0)] cs = Some (map g cs)"
    and "list_all counted_conversation (map g cs)" "map key_of (map g cs) = map key_of cs"
    and "unread_sum (map g cs) = unread_elsewhere (js_string a) cs"
proof -
  have counted: "counted_conversation c" if "c \<in> set cs" for c using assms(1) that by (simp add: list_all_iff)
  have same: "strict_eq (fld c ''id'') a \<longleftrightarrow> key_of c = js_string a" if "c \<in> set cs" for c
    using assms(2,3) that by (auto simp: key_of_def dest: strict_eq_eq)
  show "patch_by_id a [(''unread_count'', JNum 0)] cs = Some (map g cs)"
    unfolding patch_by_id_def
    by (rule js_map_total) (auto simp: entity_readable counted_facts(1) [OF counted] same g_def)
  have g: "counted_conversation (g c)" "key_of (g c) = key_of c"
    "unread_of (g c) = (if key_of c = js_string a then 0 else unread_of c)" if "c \<in> set cs" for c
  proof -
    note facts = counted_facts [OF counted [OF that]]
    have "plain_object c" using entity_ok_obj [OF facts(1)] by (auto simp: plain_object_def)
    note object = object_fields [OF this]
    show "counted_conversation (g c)" "key_of (g c) = key_of c"
      "unread_of (g c) = (if key_of c = js_string a then 0 else unread_of c)"
      using counted [OF that] entity_with [OF facts(1), of "[(''unread_count'', JNum 0)]"]
      by (auto simp: g_def counted_conversation_def unread_of_def js_coalesce_def object)
  qed
  show "list_all counted_conversation (map g cs)" "map key_of (map g cs) = map key_of cs"
    using g by (auto simp: list_all_iff)
  have "(\<Sum>c\<leftarrow>xs. unread_of (g c)) = (\<Sum>c\<leftarrow>filter (\<lambda>c. key_of c \<noteq> js_string a) xs. unread_of c)"
    if "set xs \<subseteq> set cs" for xs
    using that by (induction xs) (auto simp: g)
  from this [of cs] show "unread_sum (map g cs) = unread_elsewhere (js_string a) cs"
    by (simp add: unread_sum_def unread_elsewhere_def o_def)
qed

section \<open>A page with two conversations\<close>

definition conversation_row :: "string \<Rightarrow> int \<Rightarrow> jsval" where
  "conversation_row i n = JObj [(''id'', JStr i), (''unread_count'', JNum n)]"

definition idle_page :: inbox_page where
  "idle_page =
     \<lparr>ib_store = (\<lambda>_. JNull)
        (InboxConversationsAtom := JArr [conversation_row ''5'' 2, conversation_row ''6'' 0],
         InboxMessagesAtom := JArr [], InboxUnreadCountAtom := JNum 2),
      ib_conn = initial_connection None, ib_mounted = False, ib_mount = 0, ib_subscribed = [], ib_visits = 0,
      ib_visit = None, ib_seen = None, ib_waiting = [], ib_loading_convs = False, ib_loading_msgs = False,
      ib_new_dm = False, ib_selected = [], ib_title = [], ib_toasts = []\<rparr>"

definition listed_page :: inbox_page where
  "listed_page = the (mount_page None idle_page)"

definition go_to :: "string \<Rightarrow> int \<Rightarrow> inbox_page \<Rightarrow> inbox_page" where
  "go_to i n p = the (after_render (choose_conversation (conversation_row i n) p))"

lemma shown_reachable: "inbox_reachable time listed_page" "ib_mounted listed_page"
proof -
  have mounted: "mount_page None idle_page = Some listed_page"
  proof -
    have "\<not> Option.is_none (mount_page None idle_page)" by code_simp
    then show ?thesis by (simp add: listed_page_def Option.is_none_def)
  qed
  have "inbox_reachable time idle_page"
    by (rule page_start) (simp_all add: idle_page_def inbox_keys_def initial_connection_def)
  then show "inbox_reachable time listed_page"
    by (rule page_next) (rule page_mount [OF _ mounted], simp add: idle_page_def)
  show "ib_mounted listed_page" by code_simp
qed

lemma shown_rows: "ib_store listed_page InboxConversationsAtom =
    JArr [conversation_row ''5'' 2, conversation_row ''6'' 0]"
  by code_simp

lemma go_to_five: "after_render (choose_conversation (conversation_row ''5'' 2) listed_page) = Some (go_to ''5'' 2 listed_page)"
proof -
  have "\<not> Option.is_none (after_render (choose_conversation (conversation_row ''5'' 2) listed_page))" by code_simp
  then show ?thesis by (simp add: go_to_def Option.is_none_def)
qed

section \<open>Properties\<close>

text \<open>
  While the page is shown every listed conversation has been subscribed to on this visit, and leaving
  the page leaves no subscription of a conversation with a number as id, whatever was opened, answered or
  pushed before.
\<close>

lemma leaving_page_unsubscribes:
  assumes "inbox_reachable time p" "ib_mounted p"
  shows "(\<exists>cs. ib_store p InboxConversationsAtom = JArr cs
      \<and> (\<forall>c \<in> set cs. parse_int (key_of c) \<in> set (ib_subscribed p)))
    \<and> subscription_key ''inbox_conversation'' (JNum n) \<notin> set (cn_subs (ib_conn (leave_page p)))"
  using inbox_reachable_inv [OF assms(1)] assms(2) leave_page_core(2) [of p n]
  by (simp add: page_inv_def effects_ran_def inbox_key_def)

lemma leaving_page_unsubscribes_witness:
  "subscription_key ''inbox_conversation'' (JNum 5) \<in> set (cn_subs (ib_conn listed_page))
   \<and> subscription_key ''inbox_conversation'' (JNum 5) \<notin> set (cn_subs (ib_conn (leave_page listed_page)))"
proof
  show "subscription_key ''inbox_conversation'' (JNum 5) \<in> set (cn_subs (ib_conn listed_page))" by code_simp
  show "subscription_key ''inbox_conversation'' (JNum 5) \<notin> set (cn_subs (ib_conn (leave_page listed_page)))"
    using leaving_page_unsubscribes [OF shown_reachable, of 5] by blast
qed

text \<open>
  C33. An answer to a request for messages is shown only if the conversation it was asked for is the open
  one, and then it replaces the messages shown by those of the answer, in the order of their dates.
\<close>

theorem messages_reach_their_conversation:
  assumes "inbox_reachable time p" "LoadMessages v a \<in> set (ib_waiting p)"
    and "ib_store (inbox_answer time (LoadMessages v a) (Inr d) p) InboxMessagesAtom \<noteq> ib_store p InboxMessagesAtom"
  shows "ib_mounted p \<and> active_id p = a
    \<and> (\<exists>ds ms. js_coalesce d (JArr []) = JArr ds
         \<and> ib_store (inbox_answer time (LoadMessages v a) (Inr d) p) InboxMessagesAtom = JArr ms
         \<and> mset ms = mset ds \<and> sorted (map (\<lambda>m. time (fld m ''created_at'')) ms))"
proof -
  have inv: "page_core p" "ib_mounted p \<Longrightarrow> effects_ran p"
    using inbox_reachable_inv [OF assms(1)] by (simp_all add: page_inv_def)
  have visit: "ib_visit p = Some v" using assms(3) by (auto simp: messages_answer_def split: if_splits)
  then have mounted: "ib_mounted p" using page_coreD(3) [OF inv(1)] by fastforce
  have "ib_seen p = Some a" using page_coreD(7) [OF inv(1) assms(2) visit] .
  with inv(2) [OF mounted] visit have "active_id p = a" by (simp add: effects_ran_def)
  moreover obtain ms where ms: "do { ms \<leftarrow> array_of (js_coalesce d (JArr [])); sort_messages time ms } = Some ms"
    using assms(3) visit by (cases "do { ms \<leftarrow> array_of (js_coalesce d (JArr [])); sort_messages time ms }")
      (simp_all add: messages_answer_def messages_settle_def)
  moreover have "ib_store (inbox_answer time (LoadMessages v a) (Inr d) p) InboxMessagesAtom = JArr ms"
    using visit ms by (simp add: messages_answer_def messages_settle_def put_atom_def)
  ultimately show ?thesis using mounted
    by (auto simp: array_of_def sort_messages_def split: bind_splits jsval.splits if_splits)
qed

lemma messages_reach_their_conversation_witness:
  "active_id (go_to ''5'' 2 listed_page) = JStr ''5''
   \<and> array_of (ib_store (inbox_answer num_of (LoadMessages 0 (JStr ''5''))
        (Inr (JArr [JObj [(''created_at'', JNum 2)], JObj [(''created_at'', JNum 1)]]))
        (go_to ''5'' 2 listed_page)) InboxMessagesAtom)
     = Some [JObj [(''created_at'', JNum 1)], JObj [(''created_at'', JNum 2)]]"
proof -
  let ?p = "go_to ''5'' 2 listed_page" and ?d = "JArr [JObj [(''created_at'', JNum 2)], JObj [(''created_at'', JNum 1)]]"
  have reach: "inbox_reachable num_of ?p"
    by (rule page_next [OF shown_reachable(1)], rule page_act [OF shown_reachable(2) _ go_to_five],
        rule act_choose [where cs = "[conversation_row ''5'' 2, conversation_row ''6'' 0]"])
      (simp_all add: shown_rows array_of_def)
  have asked: "LoadMessages 0 (JStr ''5'') \<in> set (ib_waiting ?p)" by code_simp
  have shown: "array_of (ib_store (inbox_answer num_of (LoadMessages 0 (JStr ''5'')) (Inr ?d) ?p) InboxMessagesAtom) =
      Some [JObj [(''created_at'', JNum 1)], JObj [(''created_at'', JNum 2)]]"
    "array_of (ib_store ?p InboxMessagesAtom) = Some []" by code_simp+
  then have "ib_store (inbox_answer num_of (LoadMessages 0 (JStr ''5'')) (Inr ?d) ?p) InboxMessagesAtom \<noteq>
      ib_store ?p InboxMessagesAtom" by auto
  from messages_reach_their_conversation [OF reach asked this] shown(1) show ?thesis by blast
qed



section \<open>What the page gets wrong\<close>

text \<open>
  Closing a conversation unsubscribes it although it stays in the list, and the ref keeps it, so that it is
  never subscribed to again and its row gets no update.
\<close>

lemma left_conversation_gets_no_updates:
  "let p = go_to ''6'' 0 (go_to ''5'' 2 listed_page) in
   Some 5 \<in> set (ib_subscribed p) \<and> inbox_key 5 \<notin> set (cn_subs (ib_conn p)) \<and> inbox_key 6 \<in> set (cn_subs (ib_conn p))"
  by code_simp

text \<open>
  Leaving the conversation before the server has marked it as read, while another message arrives: its
  counter drops to zero, but the badge by the old counter only.
\<close>

lemma badge_counts_read_messages:
  "let p = inbox_answer (\<lambda>_. 0) (MarkRead (JStr ''5'') (JNum 2)) (Inr JNull)
     (inbox_live ''inbox:message'' (JObj [(''conversation_id'', JStr ''5''), (''sender_id'', JStr ''9'')])
       (go_to ''6'' 0 (go_to ''5'' 2 listed_page)))
   in num_of (ib_store p InboxUnreadCountAtom) = 1
     \<and> (case ib_store p InboxConversationsAtom of JArr cs \<Rightarrow> unread_sum cs = 0 | _ \<Rightarrow> False)"
  by code_simp

text \<open>A message that arrives before the answer of the load, and that the answer does not hold, is lost.\<close>

lemma live_message_is_overwritten:
  "let p = inbox_live ''inbox:update:message_created''
         (JObj [(''id'', JStr ''7''), (''conversation_id'', JStr ''5'')]) (go_to ''5'' 2 listed_page)
   in array_of (ib_store p InboxMessagesAtom) \<noteq> Some []
     \<and> array_of (ib_store (inbox_answer (\<lambda>_. 0) (LoadMessages 0 (JStr ''5'')) (Inr (JArr [])) p) InboxMessagesAtom) = Some []"
  by code_simp

text \<open>A deletion that is answered late closes the conversation that the user has opened meanwhile.\<close>

lemma late_deletion_closes_another:
  "let p = deleted_answer (JStr ''5'') (go_to ''6'' 0 (go_to ''5'' 2 listed_page))
   in active_id p = JNull"
  by code_simp

text \<open>The answer to \<open>?with=\<close> that arrives after the page was left opens a conversation that nobody sees.\<close>

lemma conversation_opens_without_page:
  "let p = created_answer 1 (conversation_row ''8'' 0) (leave_page listed_page)
   in \<not> ib_mounted p \<and> active_id p = JStr ''8''"
  by code_simp

text \<open>
  \<open>c.id.toString() === activeId\<close> never holds when the ids are numbers, as the server sends them: the lock is
  said to be set, and the list is not changed.
\<close>

lemma number_ids_are_not_locked:
  assumes "ib_store p InboxConversationsAtom = JArr cs" "list_all counted_conversation cs"
  shows "ib_store (locked_answer (JNum n) locked p) = ib_store p
    \<and> ib_toasts (locked_answer (JNum n) locked p) =
      ib_toasts p @ [(SuccessToast, JStr (if locked then ''Conversation locked'' else ''Conversation unlocked''))]"
proof -
  have "js_map (\<lambda>c. do { b \<leftarrow> text_is c (JNum n);
      Some (if b then obj_with c [(''is_locked'', JBool locked)] else c) }) cs = Some (map (\<lambda>c. c) cs)"
    by (rule js_map_total) (use assms(2) truthy_not_nullish in \<open>auto simp: list_all_iff text_is_def
      entity_readable counted_facts(1,5)\<close>)
  then show ?thesis using assms(1)
    by (auto simp: locked_answer_def edit_conversations_def array_of_def put_atom_def say_def)
qed

text \<open>
  The two menus agree except on a manager looking at another manager, whom the list lets mute and remove
  and the menu does not.
\<close>

lemma menus_agree:
  assumes "is_group_owner mine \<or> \<not> has_role_text ''manager'' q"
  shows "set (participant_buttons mine me q) = set (participant_menu mine me q)"
  using assms by (auto simp: participant_buttons_def participant_menu_def Let_def)

lemma manager_may_remove_manager:
  "let mine = JObj [(''id'', JStr ''1''), (''role'', JStr ''manager'')];
       q = JObj [(''id'', JStr ''2''), (''role'', JStr ''manager'')]
   in RemoveFromGroup ''2'' \<in> set (participant_buttons mine ''1'' q) \<and> participant_menu mine ''1'' q = []"
  by code_simp

end
