(* ===== verification/LiveKitClient.thy ===== *)
theory LiveKitClient
  imports PeerManager
begin

text \<open>
  \<open>lib/webrtc/livekit/LiveKitRTC.ts\<close> and \<open>lib/webrtc/useWebRTCManager.ts\<close>: the client that meets the others in
  a room of the LiveKit server, and the hook that chooses between the three clients. The library of LiveKit
  is the environment: its rooms change their state, and its events and promises come in any order. An
  \<open>async\<close> function runs up to its next \<open>await\<close> in one step. Volumes are integers, as in \<open>RtcMedia\<close>.
\<close>

section \<open>State\<close>

datatype room_state = RoomDisconnected | RoomConnecting | RoomConnected | RoomReconnecting | RoomSignalReconnecting

datatype source = Microphone | Camera | ScreenShare | ScreenShareAudio

text \<open>
  A call of \<open>connect()\<close> waits for the request of a token, by its number, or for its room, or its promise is
  settled. The callers of \<open>ensureConnected\<close> wait for an attempt, with what they publish afterwards; a job is
  the loop of \<open>broadcastTracks\<close> in a room, or that of \<open>removeTracks\<close>, with a flag for a request under way.
\<close>

datatype attempt = NeedsToken nat | Joins nat | Joined | NotJoined

type_synonym publishing = "(media_track \<times> source) list"

datatype track_job = Publishing nat bool publishing | Removing bool "string list"

record remote_entry =
  le_peer :: string
  le_stream :: nat
  le_started :: string
  le_track :: string

record room_audio =
  ra_stream :: "nat option"
  ra_volume :: int
  ra_muted :: bool

record livekit =
  lk_room :: "nat option"
  lk_token :: "nat option"
  lk_connect :: "nat option"
  lk_rooms :: "room_state list"
  lk_tokens :: "bool option list"
  lk_attempts :: "attempt list"
  lk_callers :: "(nat \<times> publishing) list"
  lk_jobs :: "track_job list"
  lk_published :: "string list"
  lk_sent :: "(nat \<times> string \<times> source) list"
  lk_remote :: "(string, remote_entry) jsmap"
  lk_audio :: "(string, room_audio) jsmap"
  lk_states :: "(string, connection_state) jsmap"
  lk_volume :: int
  lk_muted :: bool
  lk_streams :: nat
  lk_shown_streams :: "remote_entry list"
  lk_shown_mics :: "string list"
  lk_shown_states :: "(string, connection_state) jsmap"
  lk_spoken :: "string list"

text \<open>
  \<open>lk_rooms\<close>, \<open>lk_tokens\<close> and \<open>lk_sent\<close> are the environment's: the rooms ever made with their states, the
  requests for a token with their outcomes, and the tracks that were published in each room.
\<close>

definition new_livekit :: livekit where
  "new_livekit =
     \<lparr>lk_room = None, lk_token = None, lk_connect = None, lk_rooms = [], lk_tokens = [], lk_attempts = [],
      lk_callers = [], lk_jobs = [], lk_published = [], lk_sent = [], lk_remote = [], lk_audio = [],
      lk_states = [], lk_volume = 1, lk_muted = False, lk_streams = 0, lk_shown_streams = [],
      lk_shown_mics = [], lk_shown_states = [], lk_spoken = []\<rparr>"

section \<open>What is shown\<close>

definition room_key :: "string \<Rightarrow> string \<Rightarrow> string" where
  "room_key peer sid = peer @ '':'' @ sid"

definition key_owner :: "string \<Rightarrow> string" where
  "key_owner key = hd (split_at CHR '':'' key)"

definition room_mics :: "(string, room_audio) jsmap \<Rightarrow> string list" where
  "room_mics audio =
     fold (\<lambda>(key, a) us. if ra_stream a \<noteq> None \<and> key_owner key \<notin> set us then us @ [key_owner key] else us) audio []"

definition emit_room_streams :: "livekit \<Rightarrow> livekit" where
  "emit_room_streams s = s\<lparr>lk_shown_streams := map snd (lk_remote s)\<rparr>"

definition emit_room_mics :: "livekit \<Rightarrow> livekit" where
  "emit_room_mics s = s\<lparr>lk_shown_mics := room_mics (lk_audio s)\<rparr>"

definition emit_room_states :: "livekit \<Rightarrow> livekit" where
  "emit_room_states s = s\<lparr>lk_shown_states := lk_states s\<rparr>"

definition to_peer_state :: "room_state \<Rightarrow> connection_state" where
  "to_peer_state r =
     (case r of
        RoomConnected \<Rightarrow> PcConnected
      | RoomConnecting \<Rightarrow> PcConnecting
      | RoomReconnecting \<Rightarrow> PcConnecting
      | RoomSignalReconnecting \<Rightarrow> PcConnecting
      | RoomDisconnected \<Rightarrow> PcDisconnected)"

definition room_audio_state :: "int \<Rightarrow> bool \<Rightarrow> livekit \<Rightarrow> livekit" where
  "room_audio_state volume muted s =
     (let v = max 0 (min 1 volume)
      in s\<lparr>lk_volume := v, lk_muted := muted,
         lk_audio := map (\<lambda>(key, a). (key, a\<lparr>ra_volume := v, ra_muted := muted\<rparr>)) (lk_audio s)\<rparr>)"

section \<open>Connecting\<close>

definition get_token :: "livekit \<Rightarrow> nat \<times> livekit" where
  "get_token s =
     (case lk_token s of
        Some t \<Rightarrow> (t, s)
      | None \<Rightarrow> (length (lk_tokens s),
          s\<lparr>lk_token := Some (length (lk_tokens s)), lk_tokens := lk_tokens s @ [None]\<rparr>))"

definition start_connect :: "livekit \<Rightarrow> livekit" where
  "start_connect s =
     (let (t, s1) = get_token s
      in s1\<lparr>lk_attempts := lk_attempts s1 @ [NeedsToken t], lk_connect := Some (length (lk_attempts s1))\<rparr>)"

definition room_is_connected :: "livekit \<Rightarrow> bool" where
  "room_is_connected s = (case lk_room s of Some r \<Rightarrow> lk_rooms s ! r = RoomConnected | None \<Rightarrow> False)"

definition start_job :: "nat \<Rightarrow> publishing \<Rightarrow> livekit \<Rightarrow> livekit" where
  "start_job r items s = s\<lparr>lk_jobs := lk_jobs s @ [Publishing r False items]\<rparr>"

text \<open>
  \<open>ensureConnected\<close> up to its \<open>await\<close>, for a caller who publishes \<open>items\<close> afterwards (none for \<open>handleSignal\<close>
  and \<open>ensureConnection\<close>), and the caller when the attempt it waits for is settled.
\<close>

definition ensure_connected :: "publishing \<Rightarrow> livekit \<Rightarrow> livekit" where
  "ensure_connected items s =
     (if room_is_connected s then start_job (the (lk_room s)) items s
      else let s1 = (if lk_connect s = None then start_connect s else s)
        in s1\<lparr>lk_callers := lk_callers s1 @ [(the (lk_connect s1), items)]\<rparr>)"

definition caller_goes_on :: "nat \<times> publishing \<Rightarrow> livekit \<Rightarrow> livekit" where
  "caller_goes_on c s =
     (let s1 = s\<lparr>lk_callers := remove1 c (lk_callers s)\<rparr>
      in case lk_attempts s ! fst c of
           NotJoined \<Rightarrow> s1\<lparr>lk_connect := None, lk_token := None, lk_room := None\<rparr>
         | _ \<Rightarrow> (case lk_room s of Some r \<Rightarrow> start_job r (snd c) s1 | None \<Rightarrow> s1))"

text \<open>\<open>connect()\<close> after the token, which makes the room, and after the room.\<close>

definition token_answered :: "nat \<Rightarrow> bool \<Rightarrow> livekit \<Rightarrow> livekit" where
  "token_answered t ok s = s\<lparr>lk_tokens := (lk_tokens s)[t := Some ok]\<rparr>"

definition attempt_goes_on :: "nat \<Rightarrow> livekit \<Rightarrow> livekit" where
  "attempt_goes_on i s =
     (case lk_attempts s ! i of
        NeedsToken t \<Rightarrow>
          (case lk_tokens s ! t of
             Some True \<Rightarrow> s\<lparr>lk_rooms := lk_rooms s @ [RoomDisconnected], lk_room := Some (length (lk_rooms s)),
               lk_attempts := (lk_attempts s)[i := Joins (length (lk_rooms s))]\<rparr>
           | Some False \<Rightarrow> s\<lparr>lk_attempts := (lk_attempts s)[i := NotJoined]\<rparr>
           | None \<Rightarrow> s)
      | _ \<Rightarrow> s)"

definition room_answers :: "nat \<Rightarrow> bool \<Rightarrow> livekit \<Rightarrow> livekit" where
  "room_answers i ok s = s\<lparr>lk_attempts := (lk_attempts s)[i := if ok then Joined else NotJoined]\<rparr>"

section \<open>Tracks of the user\<close>

record local_stream =
  ls_tracks :: "media_track list"
  ls_screen :: bool

text \<open>\<open>ls_screen\<close>: some video track of the stream has a display surface.\<close>

definition source_for_track :: "media_track \<Rightarrow> local_stream \<Rightarrow> source" where
  "source_for_track track st =
     (if mt_audio track then (if ls_screen st then ScreenShareAudio else Microphone)
      else if ls_screen st then ScreenShare else Camera)"

definition to_publish :: "local_stream option list \<Rightarrow> publishing" where
  "to_publish streams = concat (map (\<lambda>st. case st of None \<Rightarrow> []
     | Some st \<Rightarrow> map (\<lambda>t. (t, source_for_track t st)) (ls_tracks st)) streams)"

definition room_broadcast :: "local_stream option list \<Rightarrow> livekit \<Rightarrow> livekit" where
  "room_broadcast streams = ensure_connected (to_publish streams)"

definition room_remove_tracks :: "local_stream option list \<Rightarrow> livekit \<Rightarrow> livekit" where
  "room_remove_tracks streams s =
     (if lk_room s = None then s
      else s\<lparr>lk_jobs := lk_jobs s @ [Removing False (map (mt_id \<circ> fst) (to_publish streams))]\<rparr>)"

definition known_track :: "string \<Rightarrow> livekit \<Rightarrow> livekit" where
  "known_track i s = s\<lparr>lk_published := (if i \<in> set (lk_published s) then lk_published s else lk_published s @ [i])\<rparr>"

text \<open>
  A turn of a job: the loop runs to its next request, or the answer to the request comes and is noted. The
  loop that publishes goes over what has ended or is known; the loop that removes reads \<open>this.room\<close> anew.
\<close>

definition skips :: "livekit \<Rightarrow> media_track \<times> source \<Rightarrow> bool" where
  "skips s item = (mt_ended (fst item) \<or> mt_id (fst item) \<in> set (lk_published s))"

definition job_turn :: "nat \<Rightarrow> livekit \<Rightarrow> livekit" where
  "job_turn j s =
     (case lk_jobs s ! j of
        Publishing r True (item # items) \<Rightarrow> known_track (mt_id (fst item))
          (s\<lparr>lk_jobs := (lk_jobs s)[j := Publishing r False items]\<rparr>)
      | Publishing r _ items \<Rightarrow>
          (case dropWhile (skips s) items of
             [] \<Rightarrow> s\<lparr>lk_jobs := (lk_jobs s)[j := Publishing r False []]\<rparr>
           | item # rest \<Rightarrow> s\<lparr>lk_jobs := (lk_jobs s)[j := Publishing r True (item # rest)],
               lk_sent := lk_sent s @ [(r, mt_id (fst item), snd item)]\<rparr>)
      | Removing True (i # is) \<Rightarrow> s\<lparr>lk_jobs := (lk_jobs s)[j := Removing False is],
          lk_published := filter (\<lambda>k. k \<noteq> i) (lk_published s)\<rparr>
      | Removing _ [] \<Rightarrow> s
      | Removing False (i # is) \<Rightarrow>
          (case lk_room s of
             None \<Rightarrow> s\<lparr>lk_jobs := (lk_jobs s)[j := Removing False []]\<rparr>
           | Some r \<Rightarrow> s\<lparr>lk_jobs := (lk_jobs s)[j := Removing True (i # is)],
               lk_sent := filter (\<lambda>(q, k, _). \<not> (q = r \<and> k = i)) (lk_sent s)\<rparr>))"

section \<open>Events of a room\<close>

definition attach_room_audio :: "string \<Rightarrow> nat \<Rightarrow> livekit \<Rightarrow> livekit" where
  "attach_room_audio key stream s =
     s\<lparr>lk_audio := map_set key \<lparr>ra_stream = Some stream, ra_volume = lk_volume s, ra_muted = lk_muted s\<rparr> (lk_audio s)\<rparr>"

definition detach_room_audio :: "string \<Rightarrow> livekit \<Rightarrow> livekit" where
  "detach_room_audio key s = s\<lparr>lk_audio := map_delete key (lk_audio s)\<rparr>"

definition track_subscribed :: "string \<Rightarrow> string \<Rightarrow> string \<Rightarrow> media_track \<Rightarrow> livekit \<Rightarrow> livekit" where
  "track_subscribed now peer sid track s =
     (let key = room_key peer sid; n = lk_streams s;
          s1 = s\<lparr>lk_streams := Suc n, lk_remote := map_set key
            \<lparr>le_peer = peer, le_stream = n, le_started = now, le_track = mt_id track\<rparr> (lk_remote s)\<rparr>;
          s2 = (if mt_audio track then attach_room_audio key n s1 else s1);
          s3 = s2\<lparr>lk_states := map_set peer PcConnected (lk_states s2)\<rparr>
      in emit_room_states (emit_room_mics (emit_room_streams s3)))"

definition remove_remote_track :: "string \<Rightarrow> string \<Rightarrow> livekit \<Rightarrow> livekit" where
  "remove_remote_track peer sid s =
     emit_room_mics (emit_room_streams (detach_room_audio (room_key peer sid)
       (s\<lparr>lk_remote := map_delete (room_key peer sid) (lk_remote s)\<rparr>)))"

definition participant_connected :: "string \<Rightarrow> livekit \<Rightarrow> livekit" where
  "participant_connected peer s = emit_room_states (s\<lparr>lk_states := map_set peer PcConnected (lk_states s)\<rparr>)"

definition participant_disconnected :: "string \<Rightarrow> livekit \<Rightarrow> livekit" where
  "participant_disconnected peer s =
     (let gone = filter (starts_with (peer @ '':'')) (map_keys (lk_remote s));
          s1 = fold (\<lambda>key s. detach_room_audio key (s\<lparr>lk_remote := map_delete key (lk_remote s)\<rparr>)) gone s
      in emit_room_states (emit_room_mics (emit_room_streams (s1\<lparr>lk_states := map_delete peer (lk_states s1)\<rparr>))))"

text \<open>\<open>others\<close> are the participants of \<open>this.room\<close>, when there is one.\<close>

definition connection_changes :: "nat \<Rightarrow> room_state \<Rightarrow> string list \<Rightarrow> livekit \<Rightarrow> livekit" where
  "connection_changes r state others s =
     (let s1 = s\<lparr>lk_rooms := (lk_rooms s)[r := state]\<rparr>;
          s2 = (if lk_room s = None then s1 else s1\<lparr>lk_states :=
            fold (\<lambda>peer. map_set peer (to_peer_state state)) others (lk_states s1)\<rparr>);
          s3 = emit_room_states s2
      in if state = RoomDisconnected then s3\<lparr>lk_connect := None\<rparr> else s3)"

definition room_sync_peers :: "string list \<Rightarrow> livekit \<Rightarrow> livekit" where
  "room_sync_peers others s =
     (case lk_room s of
        None \<Rightarrow> s
      | Some r \<Rightarrow> emit_room_states (s\<lparr>lk_states :=
          fold (\<lambda>peer. map_set peer (to_peer_state (lk_rooms s ! r))) others []\<rparr>))"

definition active_speakers :: "string \<Rightarrow> string list \<Rightarrow> livekit \<Rightarrow> livekit" where
  "active_speakers me speakers s =
     s\<lparr>lk_spoken := lk_spoken s @ filter (\<lambda>p. lk_room s = None \<or> p \<noteq> me) speakers\<rparr>"

definition livekit_close_all :: "livekit \<Rightarrow> livekit" where
  "livekit_close_all s =
     emit_room_states (emit_room_mics (emit_room_streams
       (s\<lparr>lk_rooms := (case lk_room s of Some r \<Rightarrow> (lk_rooms s)[r := RoomDisconnected] | None \<Rightarrow> lk_rooms s),
          lk_room := None, lk_audio := [], lk_remote := [], lk_states := [], lk_published := [],
          lk_token := None, lk_connect := None\<rparr>)))"

definition job_fails :: "nat \<Rightarrow> livekit \<Rightarrow> livekit" where
  "job_fails j s = s\<lparr>lk_jobs := (lk_jobs s)[j := Publishing 0 False []]\<rparr>"

section \<open>Steps\<close>

text \<open>Identities are the numbers that the server puts in the tokens, so that they hold no colon.\<close>

definition peer_identity :: "string \<Rightarrow> bool" where
  "peer_identity peer = (CHR '':'' \<notin> set peer)"

inductive livekit_step :: "livekit \<Rightarrow> livekit \<Rightarrow> bool" where
    lk_connects: "livekit_step s (ensure_connected [] s)"
  | lk_broadcasts: "livekit_step s (room_broadcast streams s)"
  | lk_removes: "livekit_step s (room_remove_tracks streams s)"
  | lk_audible: "livekit_step s (room_audio_state volume muted s)"
  | lk_syncs: "livekit_step s (room_sync_peers others s)"
  | lk_closes: "livekit_step s (livekit_close_all s)"
  | lk_token_comes: "t < length (lk_tokens s) \<Longrightarrow> lk_tokens s ! t = None \<Longrightarrow> livekit_step s (token_answered t ok s)"
  | lk_goes_on: "i < length (lk_attempts s) \<Longrightarrow> livekit_step s (attempt_goes_on i s)"
  | lk_room_answers: "i < length (lk_attempts s) \<Longrightarrow> lk_attempts s ! i = Joins r \<Longrightarrow> livekit_step s (room_answers i ok s)"
  | lk_caller: "c \<in> set (lk_callers s) \<Longrightarrow> lk_attempts s ! fst c \<in> {Joined, NotJoined} \<Longrightarrow>
      livekit_step s (caller_goes_on c s)"
  | lk_job: "j < length (lk_jobs s) \<Longrightarrow> livekit_step s (job_turn j s)"
  | lk_job_fails: "j < length (lk_jobs s) \<Longrightarrow> livekit_step s (job_fails j s)"
  | lk_subscribed: "peer_identity peer \<Longrightarrow> livekit_step s (track_subscribed now peer sid track s)"
  | lk_unsubscribed: "livekit_step s (remove_remote_track peer sid s)"
  | lk_enters: "livekit_step s (participant_connected peer s)"
  | lk_leaves: "livekit_step s (participant_disconnected peer s)"
  | lk_changes: "livekit_step s (connection_changes r state others s)"
  | lk_speaks: "livekit_step s (active_speakers me speakers s)"

inductive livekit_reachable :: "livekit \<Rightarrow> bool" where
    livekit_start: "livekit_reachable new_livekit"
  | livekit_next: "livekit_reachable s \<Longrightarrow> livekit_step s s' \<Longrightarrow> livekit_reachable s'"

section \<open>What is shown and heard\<close>

definition livekit_ok :: "livekit \<Rightarrow> bool" where
  "livekit_ok s =
     (lk_shown_streams s = map snd (lk_remote s) \<and> lk_shown_mics s = room_mics (lk_audio s)
      \<and> lk_shown_states s = lk_states s \<and> distinct (map_keys (lk_remote s))
      \<and> (\<forall>(key, e) \<in> set (lk_remote s). peer_identity (le_peer e) \<and> (\<exists>sid. key = room_key (le_peer e) sid))
      \<and> (\<forall>(key, a) \<in> set (lk_audio s). key \<in> set (map_keys (lk_remote s))
           \<and> ra_stream a \<noteq> None \<and> ra_volume a = lk_volume s \<and> ra_muted a = lk_muted s))"

lemma livekit_okD:
  assumes "livekit_ok s"
  shows "lk_shown_streams s = map snd (lk_remote s)" "lk_shown_mics s = room_mics (lk_audio s)"
    "lk_shown_states s = lk_states s" "distinct (map_keys (lk_remote s))"
    "(key, e) \<in> set (lk_remote s) \<Longrightarrow> peer_identity (le_peer e)"
    "(key, e) \<in> set (lk_remote s) \<Longrightarrow> \<exists>sid. key = room_key (le_peer e) sid"
    "(key, a) \<in> set (lk_audio s) \<Longrightarrow> key \<in> set (map_keys (lk_remote s))"
    "(key, a) \<in> set (lk_audio s) \<Longrightarrow> ra_stream a \<noteq> None"
    "(key, a) \<in> set (lk_audio s) \<Longrightarrow> ra_volume a = lk_volume s"
    "(key, a) \<in> set (lk_audio s) \<Longrightarrow> ra_muted a = lk_muted s"
  using assms unfolding livekit_ok_def by blast+

text \<open>Most operations change connections and jobs only.\<close>

definition same_view :: "livekit \<Rightarrow> livekit \<Rightarrow> bool" where
  "same_view s s' =
     (lk_shown_streams s' = lk_shown_streams s \<and> lk_shown_mics s' = lk_shown_mics s
      \<and> lk_shown_states s' = lk_shown_states s \<and> lk_states s' = lk_states s \<and> lk_remote s' = lk_remote s
      \<and> lk_audio s' = lk_audio s \<and> lk_volume s' = lk_volume s \<and> lk_muted s' = lk_muted s)"

lemma same_view_ok: "livekit_ok s \<Longrightarrow> same_view s s' \<Longrightarrow> livekit_ok s'"
  by (simp add: livekit_ok_def same_view_def)

lemma same_view_connecting:
  "same_view s (ensure_connected items s)" "same_view s (room_broadcast streams s)"
  "same_view s (caller_goes_on c s)" "same_view s (attempt_goes_on i s)"
  "same_view s (token_answered t ok s)" "same_view s (room_answers i ok s)"
  by (auto simp: same_view_def ensure_connected_def room_broadcast_def start_job_def start_connect_def
      get_token_def caller_goes_on_def attempt_goes_on_def token_answered_def room_answers_def Let_def
      split: option.split attempt.split bool.split)

lemma same_view_jobs:
  "same_view s (room_remove_tracks streams s)" "same_view s (job_turn j s)" "same_view s (job_fails j s)"
  "same_view s (active_speakers me speakers s)"
  by (auto simp: same_view_def room_remove_tracks_def job_turn_def known_track_def job_fails_def
      active_speakers_def split: track_job.split list.split bool.split option.split)

lemma set_map_delete: "set (map_delete k m) = {(k', w) \<in> set m. k' \<noteq> k}"
  by (auto simp: map_delete_def AList.delete_eq)

lemma map_keys_after_set: "set (map_keys (map_set k v m)) = insert k (set (map_keys m))"
  by (auto simp: set_map_keys split: if_splits)

lemma subscribed_ok:
  assumes ok: "livekit_ok s" and peer: "peer_identity peer"
  shows "livekit_ok (track_subscribed now peer sid track s)"
proof -
  let ?k = "room_key peer sid" and ?s = "track_subscribed now peer sid track s"
  let ?e = "\<lparr>le_peer = peer, le_stream = lk_streams s, le_started = now, le_track = mt_id track\<rparr>"
    and ?a = "\<lparr>ra_stream = Some (lk_streams s), ra_volume = lk_volume s, ra_muted = lk_muted s\<rparr>"
  have fields: "lk_remote ?s = map_set ?k ?e (lk_remote s)"
    "lk_audio ?s = (if mt_audio track then map_set ?k ?a (lk_audio s) else lk_audio s)"
    "lk_volume ?s = lk_volume s" "lk_muted ?s = lk_muted s" "lk_shown_streams ?s = map snd (lk_remote ?s)"
    "lk_shown_mics ?s = room_mics (lk_audio ?s)" "lk_shown_states ?s = lk_states ?s"
    by (simp_all add: track_subscribed_def attach_room_audio_def emit_room_streams_def emit_room_mics_def
        emit_room_states_def Let_def)
  have audio: "(key, a) = (?k, ?a) \<or> (key, a) \<in> set (lk_audio s)" if "(key, a) \<in> set (lk_audio ?s)" for key a
    using that set_map_set_subset [of ?k ?a "lk_audio s"] by (auto simp: fields split: if_splits)
  have remote: "(key, e) = (?k, ?e) \<or> (key, e) \<in> set (lk_remote s)" if "(key, e) \<in> set (lk_remote ?s)" for key e
    using that set_map_set_subset [of ?k ?e "lk_remote s"] by (auto simp: fields)
  show ?thesis unfolding livekit_ok_def
  proof (intro conjI)
    show "\<forall>(key, e) \<in> set (lk_remote ?s). peer_identity (le_peer e) \<and> (\<exists>sid. key = room_key (le_peer e) sid)"
      using remote livekit_okD(5,6) [OF ok] peer by fastforce
    show "\<forall>(key, a) \<in> set (lk_audio ?s). key \<in> set (map_keys (lk_remote ?s)) \<and> ra_stream a \<noteq> None
        \<and> ra_volume a = lk_volume ?s \<and> ra_muted a = lk_muted ?s"
      using audio livekit_okD(7,8,9,10) [OF ok] by (fastforce simp: fields(1,3,4) map_keys_after_set)
    show "distinct (map_keys (lk_remote ?s))"
      using livekit_okD(4) [OF ok] by (simp add: fields distinct_map_keys_set)
  qed (simp_all add: fields(5-7))
qed

lemma removed_ok:
  assumes "livekit_ok s"
  shows "livekit_ok (remove_remote_track peer sid s)"
  using assms
  by (auto simp: livekit_ok_def remove_remote_track_def detach_room_audio_def emit_room_streams_def
      emit_room_mics_def set_map_delete distinct_map_keys_delete map_keys_delete)

text \<open>Removing a list of keys from a map.\<close>

lemma delete_keys:
  "fold map_delete ks m = filter (\<lambda>(k, v). k \<notin> set ks) m"
  by (induction ks arbitrary: m) (auto simp: map_delete_def AList.delete_eq intro!: filter_cong)

lemma fold_detach:
  "fold (\<lambda>key s. detach_room_audio key (s\<lparr>lk_remote := map_delete key (lk_remote s)\<rparr>)) ks s =
   s\<lparr>lk_remote := fold map_delete ks (lk_remote s), lk_audio := fold map_delete ks (lk_audio s)\<rparr>"
  by (induction ks arbitrary: s) (simp_all add: detach_room_audio_def)

lemma departed_fields:
  defines "gone s peer \<equiv> set (filter (starts_with (peer @ '':'')) (map_keys (lk_remote s)))"
  shows "lk_remote (participant_disconnected peer s) = filter (\<lambda>(k, e). k \<notin> gone s peer) (lk_remote s)"
    "lk_audio (participant_disconnected peer s) = filter (\<lambda>(k, a). k \<notin> gone s peer) (lk_audio s)"
    "lk_shown_streams (participant_disconnected peer s) = map snd (lk_remote (participant_disconnected peer s))"
    "lk_shown_mics (participant_disconnected peer s) = room_mics (lk_audio (participant_disconnected peer s))"
    "lk_shown_states (participant_disconnected peer s) = lk_states (participant_disconnected peer s)"
    "lk_volume (participant_disconnected peer s) = lk_volume s"
    "lk_muted (participant_disconnected peer s) = lk_muted s"
  by (simp_all add: participant_disconnected_def Let_def fold_detach delete_keys emit_room_streams_def
      emit_room_mics_def emit_room_states_def gone_def)

lemma departed_ok:
  assumes "livekit_ok s"
  shows "livekit_ok (participant_disconnected peer s)"
proof -
  have "distinct (map_keys (filter P (lk_remote s)))" for P
    using livekit_okD(4) [OF assms] by (simp add: map_keys_def distinct_map_filter)
  note keys = this
  have left: "set (map_keys (filter (\<lambda>(k, v). k \<notin> G) m)) = set (map_keys m) - G" for G and m :: "(string, remote_entry) jsmap"
    by (auto simp: map_keys_def)
  show ?thesis unfolding livekit_ok_def
  proof (intro conjI)
    show "\<forall>(key, e) \<in> set (lk_remote (participant_disconnected peer s)).
        peer_identity (le_peer e) \<and> (\<exists>sid. key = room_key (le_peer e) sid)"
      using livekit_okD(5,6) [OF assms] by (auto simp: departed_fields(1))
    show "\<forall>(key, a) \<in> set (lk_audio (participant_disconnected peer s)).
        key \<in> set (map_keys (lk_remote (participant_disconnected peer s))) \<and> ra_stream a \<noteq> None
        \<and> ra_volume a = lk_volume (participant_disconnected peer s)
        \<and> ra_muted a = lk_muted (participant_disconnected peer s)"
      unfolding departed_fields(1,2,6,7) left using livekit_okD(7-10) [OF assms] by auto
  qed (simp_all add: departed_fields keys)
qed

lemma others_ok:
  assumes "livekit_ok s"
  shows "livekit_ok (room_audio_state volume muted s)" "livekit_ok (room_sync_peers others s)"
    "livekit_ok (livekit_close_all s)" "livekit_ok (participant_connected peer s)"
    "livekit_ok (connection_changes r state others s)"
proof -
  have "room_mics (map (\<lambda>(key, a). (key, a\<lparr>ra_volume := v, ra_muted := b\<rparr>)) audio) = room_mics audio" for v b audio
  proof -
    have "fold (\<lambda>(key, a) us. if ra_stream a \<noteq> None \<and> key_owner key \<notin> set us
          then us @ [key_owner key] else us)
        (map (\<lambda>(key, a). (key, a\<lparr>ra_volume := v, ra_muted := b\<rparr>)) audio) us =
      fold (\<lambda>(key, a) us. if ra_stream a \<noteq> None \<and> key_owner key \<notin> set us
          then us @ [key_owner key] else us) audio us" for us
      by (induction audio arbitrary: us) auto
    then show ?thesis by (simp add: room_mics_def)
  qed
  with assms show "livekit_ok (room_audio_state volume muted s)"
    by (fastforce simp: livekit_ok_def room_audio_state_def Let_def)
  show "livekit_ok (room_sync_peers others s)" "livekit_ok (participant_connected peer s)"
    "livekit_ok (connection_changes r state others s)"
    using assms by (auto simp: livekit_ok_def room_sync_peers_def participant_connected_def
        connection_changes_def emit_room_states_def Let_def split: option.split)
  show "livekit_ok (livekit_close_all s)"
    by (simp add: livekit_ok_def livekit_close_all_def emit_room_states_def emit_room_mics_def
        emit_room_streams_def room_mics_def map_keys_def)
qed

lemma livekit_reachable_ok: "livekit_reachable s \<Longrightarrow> livekit_ok s"
proof (induction rule: livekit_reachable.induct)
  case livekit_start
  then show ?case by (simp add: livekit_ok_def new_livekit_def room_mics_def map_keys_def)
next
  case (livekit_next s s')
  from livekit_next(2,3) show ?case
    by (induction rule: livekit_step.induct)
      (blast intro: same_view_ok same_view_connecting same_view_jobs others_ok subscribed_ok removed_ok departed_ok)+
qed

section \<open>Owners of keys\<close>

lemma owner_of_key: "peer_identity peer \<Longrightarrow> key_owner (room_key peer sid) = peer"
proof -
  have "CHR '':'' \<notin> set peer \<Longrightarrow> takeWhile (\<lambda>c. c \<noteq> CHR '':'') (peer @ CHR '':'' # sid) = peer"
    by (induction peer) auto
  then show "peer_identity peer \<Longrightarrow> key_owner (room_key peer sid) = peer"
    by (simp add: key_owner_def room_key_def peer_identity_def split_at_hd)
qed

lemma prefix_owner:
  assumes "peer_identity p" "peer_identity q"
  shows "starts_with (p @ '':'') (room_key q sid) \<longleftrightarrow> q = p"
proof
  assume "starts_with (p @ '':'') (room_key q sid)"
  then have "room_key q sid = (p @ '':'') @ drop (length (p @ '':'')) (room_key q sid)"
    unfolding starts_with_def by (metis append_take_drop_id)
  then have "room_key q sid = room_key p (drop (length (p @ '':'')) (room_key q sid))"
    by (simp add: room_key_def)
  with owner_of_key [OF assms(1)] owner_of_key [OF assms(2)] show "q = p" by metis
qed (simp add: starts_with_def room_key_def)

lemma room_mics_set:
  "u \<in> set (room_mics audio) \<longleftrightarrow> (\<exists>(key, a) \<in> set audio. ra_stream a \<noteq> None \<and> key_owner key = u)"
  "distinct (room_mics audio)"
proof -
  let ?f = "\<lambda>(key, a) us. if ra_stream a \<noteq> None \<and> key_owner key \<notin> set us then us @ [key_owner key] else us"
  have "u \<in> set (fold ?f audio us) \<longleftrightarrow> u \<in> set us \<or> (\<exists>(key, a) \<in> set audio. ra_stream a \<noteq> None \<and> key_owner key = u)" for us
    by (induction audio arbitrary: us) (auto split: if_splits)
  from this [of "[]"]
  show "u \<in> set (room_mics audio) \<longleftrightarrow> (\<exists>(key, a) \<in> set audio. ra_stream a \<noteq> None \<and> key_owner key = u)"
    by (simp add: room_mics_def)
  have "distinct us \<Longrightarrow> distinct (fold ?f audio us)" for us
    by (induction audio arbitrary: us) auto
  from this [of "[]"] show "distinct (room_mics audio)" by (simp add: room_mics_def)
qed

lemma room_mics_without:
  "room_mics (filter (\<lambda>(key, a). key_owner key \<noteq> p) audio) = filter (\<lambda>u. u \<noteq> p) (room_mics audio)"
proof -
  let ?f = "\<lambda>(key, a) us. if ra_stream a \<noteq> None \<and> key_owner key \<notin> set us then us @ [key_owner key] else us"
  have "fold ?f (filter (\<lambda>(key, a). key_owner key \<noteq> p) audio) (filter (\<lambda>u. u \<noteq> p) us) =
      filter (\<lambda>u. u \<noteq> p) (fold ?f audio us)" for us
  proof (induction audio arbitrary: us)
    case Nil
    then show ?case by simp
  next
    case (Cons x audio)
    obtain key a where x: "x = (key, a)" by (cases x)
    show ?case
    proof (cases "key_owner key = p")
      case True
      with Cons.IH [of us] Cons.IH [of "us @ [key_owner key]"] show ?thesis by (simp add: x)
    next
      case False
      with Cons.IH [of us] Cons.IH [of "us @ [key_owner key]"] show ?thesis by (simp add: x)
    qed
  qed
  from this [of "[]"] show ?thesis by (simp add: room_mics_def)
qed

section \<open>Properties\<close>

text \<open>
  Whatever the room reports, what is shown is in step with what plays: every user said to have a microphone
  on has a stream that is shown, none is named twice, and every audio element has the volume that was set.
\<close>

theorem room_view_in_step:
  assumes "livekit_reachable s"
  shows "set (lk_shown_mics s) \<subseteq> le_peer ` set (lk_shown_streams s) \<and> distinct (lk_shown_mics s)
    \<and> (\<forall>(key, a) \<in> set (lk_audio s). ra_volume a = lk_volume s \<and> ra_muted a = lk_muted s)"
proof -
  have ok: "livekit_ok s" by (rule livekit_reachable_ok) (rule assms)
  have "key_owner key \<in> le_peer ` set (lk_shown_streams s)" if a: "(key, a) \<in> set (lk_audio s)" for key a
  proof -
    from livekit_okD(7) [OF ok a] obtain e where e: "(key, e) \<in> set (lk_remote s)"
      by (auto simp: map_keys_def)
    from livekit_okD(6) [OF ok e] obtain sid where "key = room_key (le_peer e) sid" by blast
    then have "key_owner key = le_peer e" using owner_of_key livekit_okD(5) [OF ok e] by simp
    with e show ?thesis by (force simp: livekit_okD(1) [OF ok])
  qed
  then show ?thesis using livekit_okD(9,10) [OF ok]
    by (auto simp: livekit_okD(2) [OF ok] room_mics_set)
qed

text \<open>
  C34. When a participant leaves, exactly its streams and its microphone disappear from what is shown: those
  of all others stay, in their order.
\<close>

theorem departure_removes_one_peer:
  assumes "livekit_reachable s" "peer_identity p"
  shows "lk_shown_streams (participant_disconnected p s) = filter (\<lambda>e. le_peer e \<noteq> p) (lk_shown_streams s)
    \<and> lk_shown_mics (participant_disconnected p s) = filter (\<lambda>u. u \<noteq> p) (lk_shown_mics s)"
proof -
  have ok: "livekit_ok s" by (rule livekit_reachable_ok) (rule assms(1))
  let ?gone = "set (filter (starts_with (p @ '':'')) (map_keys (lk_remote s)))"
  have remote: "key \<notin> ?gone \<longleftrightarrow> le_peer e \<noteq> p" "key_owner key = le_peer e" if e: "(key, e) \<in> set (lk_remote s)" for key e
  proof -
    from livekit_okD(6) [OF ok e] obtain sid where key: "key = room_key (le_peer e) sid" by blast
    have "key \<in> set (map_keys (lk_remote s))" using e by (force simp: map_keys_def)
    with key show "key \<notin> ?gone \<longleftrightarrow> le_peer e \<noteq> p" using prefix_owner [OF assms(2) livekit_okD(5) [OF ok e]] by auto
    show "key_owner key = le_peer e" using key owner_of_key livekit_okD(5) [OF ok e] by simp
  qed
  have audio: "key \<notin> ?gone \<longleftrightarrow> key_owner key \<noteq> p" if a: "(key, a) \<in> set (lk_audio s)" for key a
  proof -
    from livekit_okD(7) [OF ok a] obtain e where "(key, e) \<in> set (lk_remote s)" by (auto simp: map_keys_def)
    from remote [OF this] show ?thesis by simp
  qed
  have "filter (\<lambda>(k, e). k \<notin> ?gone) (lk_remote s) = filter (\<lambda>(k, e). le_peer e \<noteq> p) (lk_remote s)"
    "filter (\<lambda>(k, a). k \<notin> ?gone) (lk_audio s) = filter (\<lambda>(k, a). key_owner k \<noteq> p) (lk_audio s)"
    using remote(1) audio by (auto intro!: filter_cong)
  moreover have "map snd (filter (\<lambda>(k, e). le_peer e \<noteq> p) m) = filter (\<lambda>e. le_peer e \<noteq> p) (map snd m)"
    for m :: "(string, remote_entry) jsmap" by (induction m) auto
  ultimately show ?thesis
    by (simp only: departed_fields livekit_okD(1,2) [OF ok] room_mics_without)
qed

definition spoken_track :: "string \<Rightarrow> media_track" where
  "spoken_track i = \<lparr>mt_id = i, mt_audio = True, mt_ended = False\<rparr>"

definition two_voices :: livekit where
  "two_voices = track_subscribed ''t'' ''2'' ''b'' (spoken_track ''y'')
     (track_subscribed ''t'' ''1'' ''a'' (spoken_track ''x'') new_livekit)"

lemma two_voices_reachable: "livekit_reachable two_voices"
  unfolding two_voices_def
  by (rule livekit_next [OF livekit_next [OF livekit_start lk_subscribed] lk_subscribed]) (simp_all add: peer_identity_def)

lemma room_view_in_step_witness:
  "set (lk_shown_mics two_voices) \<subseteq> le_peer ` set (lk_shown_streams two_voices) \<and> lk_shown_mics two_voices = [''1'', ''2'']"
proof
  show "set (lk_shown_mics two_voices) \<subseteq> le_peer ` set (lk_shown_streams two_voices)"
    using room_view_in_step [OF two_voices_reachable] by blast
  show "lk_shown_mics two_voices = [''1'', ''2'']" by code_simp
qed

lemma departure_removes_one_peer_witness:
  "lk_shown_mics (participant_disconnected ''1'' two_voices) = [''2'']"
proof -
  have "lk_shown_mics two_voices = [''1'', ''2'']" by code_simp
  with departure_removes_one_peer [OF two_voices_reachable, of "''1''"] show ?thesis by (simp add: peer_identity_def)
qed

text \<open>A failed attempt is forgotten by its caller, so that the next call asks for a new token.\<close>

lemma failed_connection_is_retried:
  assumes "lk_attempts s ! fst c = NotJoined"
  shows "lk_tokens (ensure_connected items (caller_goes_on c s)) = lk_tokens s @ [None]
    \<and> lk_attempts (ensure_connected items (caller_goes_on c s)) = lk_attempts s @ [NeedsToken (length (lk_tokens s))]"
  using assms by (simp add: caller_goes_on_def ensure_connected_def room_is_connected_def start_connect_def
      get_token_def Let_def)

section \<open>The choice of the client\<close>

text \<open>
  \<open>useWebRTCManager\<close>: the clients that were made, by number, those that were closed, the one that the hook
  uses with the key it was made for, and the one whose handlers are set.
\<close>

datatype voice_mode = LiveKitMode | SkaiaMode | MeshMode

definition voice_mode_of :: "bool \<Rightarrow> bool \<Rightarrow> voice_mode" where
  "voice_mode_of use_livekit use_v2 = (if use_livekit then LiveKitMode else if use_v2 then SkaiaMode else MeshMode)"

record voice_hook =
  vh_made :: "voice_mode list"
  vh_key :: "(voice_mode \<times> string \<times> int) option"
  vh_closed :: "nat set"
  vh_listening :: "nat option"

definition new_voice_hook :: voice_hook where
  "new_voice_hook = \<lparr>vh_made = [], vh_key = None, vh_closed = {}, vh_listening = None\<rparr>"

text \<open>A render closes the client of another key and makes a new one; then the effects change over.\<close>

definition hook_render :: "voice_mode \<Rightarrow> string \<Rightarrow> int \<Rightarrow> voice_hook \<Rightarrow> voice_hook" where
  "hook_render mode route user h =
     (if vh_key h = Some (mode, route, user) then h
      else h\<lparr>vh_closed := (if vh_key h = None then vh_closed h else insert (length (vh_made h) - 1) (vh_closed h)),
        vh_made := vh_made h @ [mode], vh_key := Some (mode, route, user)\<rparr>)"

definition hook_cleanup :: "voice_hook \<Rightarrow> voice_hook" where
  "hook_cleanup h = (case vh_listening h of None \<Rightarrow> h
     | Some n \<Rightarrow> h\<lparr>vh_listening := None, vh_closed := insert n (vh_closed h)\<rparr>)"

definition hook_effects :: "voice_hook \<Rightarrow> voice_hook" where
  "hook_effects h =
     (let n = length (vh_made h) - 1
      in if vh_listening h = Some n then h else (hook_cleanup h)\<lparr>vh_listening := Some n\<rparr>)"

definition hook_shows :: "voice_mode \<Rightarrow> string \<Rightarrow> int \<Rightarrow> voice_hook \<Rightarrow> voice_hook" where
  "hook_shows mode route user h = hook_effects (hook_render mode route user h)"

text \<open>What the methods of the hook call for each client; nothing, where a client has no such method.\<close>

datatype client_call = CallHandleSignal | CallEnsureConnection | CallClosePeer | CallSync | CallSendSignal | CallTracks

definition forwards :: "voice_mode \<Rightarrow> client_call \<Rightarrow> bool" where
  "forwards mode c =
     (case c of
        CallHandleSignal \<Rightarrow> mode \<noteq> LiveKitMode
      | CallClosePeer \<Rightarrow> mode \<noteq> LiveKitMode
      | CallSendSignal \<Rightarrow> mode = MeshMode
      | _ \<Rightarrow> True)"

text \<open>After any renders, the only client that is not closed is the one in use, and its handlers are set.\<close>

definition current_client :: "voice_hook \<Rightarrow> voice_mode \<times> string \<times> int \<Rightarrow> nat \<Rightarrow> bool" where
  "current_client h key n =
     (length (vh_made h) = Suc n \<and> vh_made h ! n = fst key \<and> vh_key h = Some key
      \<and> vh_listening h = Some n \<and> vh_closed h = {..<n})"

lemma shows_next:
  assumes "current_client h key n"
  shows "\<exists>m. current_client (hook_shows mode route user h) (mode, route, user) m"
proof (cases "key = (mode, route, user)")
  case True
  with assms have "hook_shows mode route user h = h"
    by (simp add: current_client_def hook_shows_def hook_render_def hook_effects_def)
  with assms True show ?thesis by auto
next
  case False
  with assms have "current_client (hook_shows mode route user h) (mode, route, user) (Suc n)"
    by (simp add: current_client_def hook_shows_def hook_render_def hook_effects_def hook_cleanup_def
        nth_append Let_def lessThan_Suc)
  then show ?thesis by blast
qed

lemma only_current_client_open:
  assumes "renders \<noteq> []"
  shows "\<exists>n. current_client (fold (\<lambda>(mode, route, user). hook_shows mode route user) renders new_voice_hook) (last renders) n"
  using assms
proof (induction renders rule: rev_induct)
  case Nil
  then show ?case by simp
next
  case (snoc r renders)
  obtain mode route user where r: "r = (mode, route, user)" by (cases r)
  show ?case
  proof (cases "renders = []")
    case True
    then have "current_client (fold (\<lambda>(mode, route, user). hook_shows mode route user) (renders @ [r]) new_voice_hook) r 0"
      by (simp add: r current_client_def hook_shows_def hook_render_def hook_effects_def hook_cleanup_def
          new_voice_hook_def Let_def)
    then show ?thesis by auto
  next
    case False
    from snoc.IH [OF this] obtain n where
      "current_client (fold (\<lambda>(mode, route, user). hook_shows mode route user) renders new_voice_hook) (last renders) n"
      by blast
    from shows_next [OF this, of mode route user] show ?thesis by (simp add: r)
  qed
qed

lemma unmount_closes_all:
  assumes "current_client h key n"
  shows "vh_closed (hook_cleanup h) = {..<length (vh_made h)} \<and> vh_listening (hook_cleanup h) = None"
  using assms by (simp add: current_client_def hook_cleanup_def lessThan_Suc)

section \<open>Behaviour to know of\<close>

text \<open>Closing while the token is on its way does not stop the attempt: it joins a room that nobody leaves.\<close>

lemma closed_client_joins_room:
  "let s = attempt_goes_on 0 (token_answered 0 True (livekit_close_all (ensure_connected [] new_livekit)))
   in lk_room s = Some 0 \<and> lk_attempts s = [Joins 0]"
  by code_simp

text \<open>
  After the server has ended the connection the next call joins a new room, with the old token, and publishes
  nothing of what was published in the old one.
\<close>

definition joined_publishing :: livekit where
  "joined_publishing =
     job_turn 0 (job_turn 0 (caller_goes_on (0, [(spoken_track ''x'', Microphone)]) (room_answers 0 True
       (connection_changes 0 RoomConnected [] (attempt_goes_on 0 (token_answered 0 True
         (ensure_connected [(spoken_track ''x'', Microphone)] new_livekit)))))))"

lemma reconnect_publishes_nothing:
  "let s = job_turn 1 (caller_goes_on (1, [(spoken_track ''x'', Microphone)]) (room_answers 1 True
     (connection_changes 1 RoomConnected [] (attempt_goes_on 1
       (ensure_connected [(spoken_track ''x'', Microphone)] (connection_changes 0 RoomDisconnected [] joined_publishing))))))
   in lk_room s = Some 1 \<and> lk_sent s = [(0, ''x'', Microphone)] \<and> length (lk_tokens s) = 1"
  by code_simp

text \<open>Two calls that overlap publish the same track twice: it is noted only once its request is answered.\<close>

lemma overlapping_calls_publish_twice:
  "let s = connection_changes 0 RoomConnected [] (attempt_goes_on 0 (token_answered 0 True (ensure_connected [] new_livekit)));
       t = job_turn 1 (job_turn 0 (ensure_connected [(spoken_track ''x'', Microphone)]
         (ensure_connected [(spoken_track ''x'', Microphone)] s)))
   in lk_sent t = [(0, ''x'', Microphone), (0, ''x'', Microphone)]"
  by code_simp

text \<open>A caller of an attempt that failed forgets the room that a later attempt has joined.\<close>

lemma late_failure_forgets_new_room:
  "let s = token_answered 0 False (livekit_close_all (ensure_connected [] new_livekit));
       t = connection_changes 0 RoomConnected [] (attempt_goes_on 1 (token_answered 1 True
         (ensure_connected [] (attempt_goes_on 0 s))))
   in lk_room t = Some 0 \<and> lk_room (caller_goes_on (0, []) t) = None
     \<and> lk_rooms (caller_goes_on (0, []) t) = [RoomConnected]"
  by code_simp

end
