(* ===== verification/ClientTools.thy ===== *)
theory ClientTools
  imports Complex_Main JsText
begin

text \<open>
  Small tools of the client: the clock that follows that of the server (\<open>utils/serverTime.ts\<close>), the names of
  routes (\<open>utils/route.ts\<close>), the place of the presence launcher (\<open>components/page/layout/presenceLauncher.ts\<close>),
  the headings of a document (\<open>components/documentation/headings.ts\<close>) and the age of a cache
  (\<open>utils/cache.ts\<close>). Times are in milliseconds; half of a round trip may be no integer, so that the offset is
  a rational number. Pixels are integers.
\<close>

section \<open>The clock of the server\<close>

text \<open>
  The answer of the server, or \<open>None\<close> when the request fails, is refused or carries no time; \<open>before\<close> and
  \<open>after\<close> are the client's clock.
\<close>

definition sync_server_time :: "int \<Rightarrow> int option \<Rightarrow> int \<Rightarrow> rat \<Rightarrow> rat" where
  "sync_server_time client_before answer client_after offset =
     (case answer of
        None \<Rightarrow> offset
      | Some server_ms \<Rightarrow> of_int server_ms + of_int (client_after - client_before) / 2 - of_int client_after)"

definition get_server_now :: "rat \<Rightarrow> int \<Rightarrow> rat" where
  "get_server_now offset now = of_int now + offset"

definition relative_time :: "rat \<Rightarrow> int \<Rightarrow> int \<Rightarrow> string" where
  "relative_time offset now t =
     (let mins = \<lfloor>(get_server_now offset now - of_int t) / 60000\<rfloor> in
      if mins < 1 then ''just now''
      else if mins < 60 then dec_int mins @ ''m''
      else let hours = mins div 60 in
        if hours < 24 then dec_int hours @ ''h'' else dec_int (hours div 24) @ ''d'')"

definition relative_time_ago :: "rat \<Rightarrow> int \<Rightarrow> int \<Rightarrow> string" where
  "relative_time_ago offset now t = (let r = relative_time offset now t in if r = ''just now'' then r else r @ '' ago'')"

definition format_time_ago :: "int \<Rightarrow> int \<Rightarrow> string" where
  "format_time_ago now t =
     (let seconds = (now - t) div 1000 in
      if seconds < 5 then ''just now''
      else if seconds < 60 then dec_int seconds @ ''s ago''
      else let minutes = seconds div 60 in
        if minutes < 60 then dec_int minutes @ ''m ago''
        else dec_int (minutes div 60) @ ''h '' @ dec_int (minutes mod 60) @ ''m ago'')"

definition cache_ttl_options :: "(int \<times> string) list" where
  "cache_ttl_options = [(0, ''None''), (1800, ''30 min''), (3600, ''1 hour''), (14400, ''4 hours''), (43200, ''12 hours''), (86400, ''24 hours'')]"

definition cache_ttl_label :: "int \<Rightarrow> string" where
  "cache_ttl_label ttl = (case map_of cache_ttl_options ttl of Some l \<Rightarrow> l | None \<Rightarrow> dec_int ttl @ ''s'')"

section \<open>Routes\<close>

definition strip_slashes :: "string \<Rightarrow> string" where
  "strip_slashes s = rev (dropWhile (\<lambda>c. c = CHR ''/'') (rev s))"

definition normalize_route :: "string option \<Rightarrow> string" where
  "normalize_route route =
     (case route of
        None \<Rightarrow> ''/''
      | Some r \<Rightarrow>
          if r = [] then ''/''
          else let n = strip_slashes (hd (split_at CHR ''#'' (hd (split_at CHR ''?'' r))))
            in to_lower (if n = [] then ''/'' else n))"

section \<open>The presence launcher\<close>

record launcher_position =
  lp_x :: int
  lp_y :: int

record launcher_size =
  ls_width :: int
  ls_height :: int

definition launcher_viewport_margin :: int where
  "launcher_viewport_margin = 8"

definition clamp_presence_launcher_position :: "launcher_position \<Rightarrow> launcher_size \<Rightarrow> launcher_size \<Rightarrow> launcher_position" where
  "clamp_presence_launcher_position p launcher viewport =
     (let max_x = max launcher_viewport_margin (ls_width viewport - ls_width launcher - launcher_viewport_margin);
          max_y = max launcher_viewport_margin (ls_height viewport - ls_height launcher - launcher_viewport_margin)
      in \<lparr>lp_x = min (max (lp_x p) launcher_viewport_margin) max_x, lp_y = min (max (lp_y p) launcher_viewport_margin) max_y\<rparr>)"

section \<open>Headings\<close>

definition slug_char :: "char \<Rightarrow> bool" where
  "slug_char c = (CHR ''a'' \<le> c \<and> c \<le> CHR ''z'' \<or> is_digit c)"

text \<open>Runs of other characters become one dash.\<close>

fun dashed :: "bool \<Rightarrow> string \<Rightarrow> string" where
  "dashed run [] = []"
| "dashed run (c # s) = (if slug_char c then c # dashed False s else (if run then [] else [CHR ''-'']) @ dashed True s)"

definition trim_dashes :: "string \<Rightarrow> string" where
  "trim_dashes s = (let t = (case s of CHR ''-'' # r \<Rightarrow> r | _ \<Rightarrow> s) in if t \<noteq> [] \<and> last t = CHR ''-'' then butlast t else t)"

definition slugify_heading :: "string \<Rightarrow> string" where
  "slugify_heading v = (let s = trim_dashes (dashed False (js_trim (to_lower v))) in if s = [] then ''section'' else s)"

definition is_letter :: "char \<Rightarrow> bool" where
  "is_letter c = (CHR ''a'' \<le> c \<and> c \<le> CHR ''z'' \<or> CHR ''A'' \<le> c \<and> c \<le> CHR ''Z'')"

definition authored_id :: "string \<Rightarrow> bool" where
  "authored_id s = (case s of [] \<Rightarrow> False
     | c # r \<Rightarrow> is_letter c \<and> list_all (\<lambda>d. is_letter d \<or> is_digit d \<or> d \<in> set ''_:.-'') r)"

record heading_element =
  he_text :: string
  he_id :: string
  he_level :: nat

record document_heading =
  dh_id :: string
  dh_text :: string
  dh_level :: nat

definition heading_text :: "heading_element \<Rightarrow> string" where
  "heading_text e = (if js_trim (he_text e) = [] then ''Section'' else js_trim (he_text e))"

definition heading_base :: "heading_element \<Rightarrow> string" where
  "heading_base e = (if authored_id (js_trim (he_id e)) then js_trim (he_id e) else slugify_heading (heading_text e))"

definition numbered_id :: "string \<Rightarrow> nat \<Rightarrow> string" where
  "numbered_id base n = (if n = 0 then base else base @ ''-'' @ dec_nat (n + 1))"

definition heading_count :: "(string, nat) jsmap \<Rightarrow> string \<Rightarrow> nat" where
  "heading_count counts base = (case map_get counts base of Some k \<Rightarrow> k | None \<Rightarrow> 0)"

text \<open>The headings in order, with the counts of the bases so far.\<close>

fun index_headings :: "(string, nat) jsmap \<Rightarrow> heading_element list \<Rightarrow> document_heading list" where
  "index_headings counts [] = []"
| "index_headings counts (e # es) =
     (let base = heading_base e; n = heading_count counts base
      in \<lparr>dh_id = numbered_id base n, dh_text = heading_text e, dh_level = he_level e\<rparr>
           # index_headings (map_set base (n + 1) counts) es)"

section \<open>Properties\<close>

text \<open>
  The clock that the client keeps is off by at most half a round trip, however wrong its own is: when the
  server is \<open>skew\<close> ahead and reads its clock at some moment of the request, the time taken for the server's
  differs from it by no more than half of the time the request took, and not at all when the moment was the middle.
\<close>

lemma server_clock_error_bounded:
  assumes "client_before \<le> m" "m \<le> client_after"
  shows "let offset = sync_server_time client_before (Some (m + skew)) client_after 0; off_by = get_server_now offset now - of_int (now + skew)
    in \<bar>off_by\<bar> \<le> of_int (client_after - client_before) / 2 \<and> (2 * m = client_before + client_after \<longrightarrow> off_by = 0)"
proof -
  define a b c :: rat where "a = of_int client_before" "b = of_int client_after" "c = of_int m"
  have o: "get_server_now (sync_server_time client_before (Some (m + skew)) client_after 0) now - of_int (now + skew) = c - (a + b) / 2"
    by (simp add: get_server_now_def sync_server_time_def a_b_c_def field_simps)
  have "a \<le> c" "c \<le> b" using assms by (simp_all add: a_b_c_def)
  then have "\<bar>c - (a + b) / 2\<bar> \<le> (b - a) / 2" by (simp add: abs_le_iff field_simps)
  moreover have "2 * m = client_before + client_after \<Longrightarrow> 2 * c = a + b"
    unfolding a_b_c_def by (metis of_int_add of_int_mult of_int_numeral)
  ultimately show ?thesis unfolding Let_def o by (auto simp: a_b_c_def)
qed

theorem server_clock_error_bounded_witness:
  "get_server_now (sync_server_time 100 (Some 1150) 200 0) 300 = 1300"
proof -
  have "(100::int) \<le> 150" "(150::int) \<le> 200" by simp_all
  from server_clock_error_bounded [OF this, of 1000 300] show ?thesis by (simp add: Let_def)
qed

lemma strip_slashes_last: "strip_slashes s \<noteq> [] \<Longrightarrow> last (strip_slashes s) \<noteq> CHR ''/''"
  unfolding strip_slashes_def by (metis (mono_tags, lifting) hd_dropWhile last_rev rev.simps(1) rev_rev_ident)

lemma strip_slashes_id: "s = [] \<or> last s \<noteq> CHR ''/'' \<Longrightarrow> strip_slashes s = s"
  unfolding strip_slashes_def by (cases s rule: rev_cases) auto

lemma strip_slashes_subset: "set (strip_slashes s) \<subseteq> set s"
  by (auto simp: strip_slashes_def dest: set_dropWhileD)

lemma of_char_lower: "(of_char (lower_char d) :: nat) = (if 65 \<le> (of_char d :: nat) \<and> (of_char d :: nat) \<le> 90 then of_char d + 32 else of_char d)"
  by (simp add: lower_char_def Let_def of_char_of)

lemma lower_char_eq: "lower_char d = CHR ''/'' \<longleftrightarrow> d = CHR ''/''" "lower_char d = CHR ''?'' \<longleftrightarrow> d = CHR ''?''" "lower_char d = CHR ''#'' \<longleftrightarrow> d = CHR ''#''"
proof -
  have "lower_char d = c \<longleftrightarrow> d = c" if "(of_char c :: nat) < 65" for c
  proof
    assume "lower_char d = c"
    with of_char_lower [of d] that have "(of_char d :: nat) = of_char c" by (auto split: if_splits)
    then show "d = c" by simp
  next
    assume "d = c"
    with that show "lower_char d = c" by (simp add: lower_char_def)
  qed
  then show "lower_char d = CHR ''/'' \<longleftrightarrow> d = CHR ''/''" "lower_char d = CHR ''?'' \<longleftrightarrow> d = CHR ''?''" "lower_char d = CHR ''#'' \<longleftrightarrow> d = CHR ''#''"
    by simp_all
qed

text \<open>
  A normalised route is canonical: it is never empty, holds no query and no hash, does not end in a slash
  unless it is just one, has no capital letters, and normalising it again changes nothing.
\<close>

lemma normalized_route_is_canonical:
  "normalize_route r \<noteq> [] \<and> CHR ''?'' \<notin> set (normalize_route r) \<and> CHR ''#'' \<notin> set (normalize_route r)
    \<and> (normalize_route r = ''/'' \<or> last (normalize_route r) \<noteq> CHR ''/'')
    \<and> to_lower (normalize_route r) = normalize_route r \<and> normalize_route (Some (normalize_route r)) = normalize_route r"
proof -
  define n where "n = (case r of None \<Rightarrow> ''/'' | Some t \<Rightarrow> strip_slashes (hd (split_at CHR ''#'' (hd (split_at CHR ''?'' t)))))"
  define m where "m = (if n = [] then ''/'' else n)"
  have slash: "lower_char CHR ''/'' = CHR ''/''" by (simp add: lower_char_eq)
  have r: "normalize_route r = to_lower m"
  proof (cases r)
    case (Some t)
    then show ?thesis by (cases "t = []") (simp_all add: normalize_route_def n_def m_def strip_slashes_def to_lower_def split_at_hd slash Let_def)
  qed (simp add: normalize_route_def n_def m_def to_lower_def slash)
  have "CHR ''?'' \<notin> set n \<and> CHR ''#'' \<notin> set n"
  proof (cases r)
    case (Some t)
    then have n: "set n \<subseteq> set (takeWhile (\<lambda>d. d \<noteq> CHR ''#'') (takeWhile (\<lambda>d. d \<noteq> CHR ''?'') t))"
      by (simp add: n_def split_at_hd strip_slashes_subset)
    have "d \<noteq> CHR ''#'' \<and> d \<noteq> CHR ''?''" if "d \<in> set n" for d
    proof -
      have "d \<in> set (takeWhile (\<lambda>d. d \<noteq> CHR ''#'') (takeWhile (\<lambda>d. d \<noteq> CHR ''?'') t))" using n that by (rule subsetD)
      note d = set_takeWhileD [OF this]
      then show ?thesis using set_takeWhileD [OF d [THEN conjunct1]] by simp
    qed
    then show ?thesis by fast
  qed (simp add: n_def)
  moreover have "n = [] \<or> n = ''/'' \<or> last n \<noteq> CHR ''/''" using strip_slashes_last by (auto simp: n_def split: option.split)
  ultimately have m: "m \<noteq> []" "CHR ''?'' \<notin> set m" "CHR ''#'' \<notin> set m" "m = ''/'' \<or> last m \<noteq> CHR ''/''" by (auto simp: m_def)
  let ?l = "to_lower m"
  have l: "?l \<noteq> []" "CHR ''?'' \<notin> set ?l" "CHR ''#'' \<notin> set ?l" "?l = ''/'' \<or> last ?l \<noteq> CHR ''/''"
    using m by (auto simp: to_lower_def last_map image_iff lower_char_eq dest: sym)
  then have c: "hd (split_at CHR ''#'' (hd (split_at CHR ''?'' ?l))) = ?l" by (simp add: split_at_plain)
  have "normalize_route (Some ?l) = ?l"
  proof (cases "?l = ''/''")
    case True
    then show ?thesis using c by (simp add: normalize_route_def strip_slashes_def Let_def to_lower_simps lower_char_eq)
  next
    case False
    with l(1,4) c strip_slashes_id [of ?l] show ?thesis by (simp add: normalize_route_def Let_def)
  qed
  with l show ?thesis unfolding r by simp
qed

text \<open>
  The launcher stays in view: its place is at least the margin from the left and the top, also from the right
  and the bottom wherever it fits the window with its margins; one that is in view stays where it is, and
  clamping twice is clamping once.
\<close>

lemma launcher_stays_in_view:
  "let q = clamp_presence_launcher_position p launcher viewport in
     8 \<le> lp_x q \<and> 8 \<le> lp_y q
     \<and> (ls_width launcher + 16 \<le> ls_width viewport \<longrightarrow> lp_x q + ls_width launcher + 8 \<le> ls_width viewport)
     \<and> (ls_height launcher + 16 \<le> ls_height viewport \<longrightarrow> lp_y q + ls_height launcher + 8 \<le> ls_height viewport)
     \<and> clamp_presence_launcher_position q launcher viewport = q
     \<and> (8 \<le> lp_x p \<and> lp_x p + ls_width launcher + 8 \<le> ls_width viewport \<and> 8 \<le> lp_y p \<and> lp_y p + ls_height launcher + 8 \<le> ls_height viewport \<longrightarrow> q = p)"
  by (auto simp: clamp_presence_launcher_position_def launcher_viewport_margin_def Let_def)

theorem launcher_stays_in_view_witness:
  "clamp_presence_launcher_position \<lparr>lp_x = 100, lp_y = 20\<rparr> \<lparr>ls_width = 50, ls_height = 50\<rparr> \<lparr>ls_width = 800, ls_height = 600\<rparr> = \<lparr>lp_x = 100, lp_y = 20\<rparr>"
  using launcher_stays_in_view [of "\<lparr>lp_x = 100, lp_y = 20\<rparr>" "\<lparr>ls_width = 50, ls_height = 50\<rparr>" "\<lparr>ls_width = 800, ls_height = 600\<rparr>"]
  by (simp add: Let_def)

section \<open>Identifiers of headings\<close>

lemma numbered_inject:
  "numbered_id b m = numbered_id b n \<longleftrightarrow> m = n"
  by (auto simp: numbered_id_def)

lemma numbered_same_base:
  assumes "numbered_id b m = numbered_id c n" "0 < m" "0 < n"
  shows "b = c \<and> m = n"
proof -
  have split: "takeWhile (\<lambda>d. d \<noteq> CHR ''-'') (rev (numbered_id b k)) = rev (dec_nat (k + 1))
      \<and> dropWhile (\<lambda>d. d \<noteq> CHR ''-'') (rev (numbered_id b k)) = CHR ''-'' # rev b" if "0 < k" for b k
  proof -
    have d: "\<And>d. d \<in> set (rev (dec_nat (k + 1))) \<Longrightarrow> d \<noteq> CHR ''-''"
      using dec_nat_digits [of "k + 1"] by (auto simp: list_all_iff is_digit_def)
    have e: "rev (numbered_id b k) = rev (dec_nat (k + 1)) @ CHR ''-'' # rev b" using that by (simp add: numbered_id_def)
    show ?thesis unfolding e
      using takeWhile_append2 [where P = "\<lambda>d. d \<noteq> CHR ''-''" and xs = "rev (dec_nat (k + 1))" and ys = "CHR ''-'' # rev b", OF d]
        dropWhile_append2 [where P = "\<lambda>d. d \<noteq> CHR ''-''" and xs = "rev (dec_nat (k + 1))" and ys = "CHR ''-'' # rev b", OF d] by simp
  qed
  from split [OF assms(2), of b] split [OF assms(3), of c] assms(1) have "dec_nat (m + 1) = dec_nat (n + 1)" "b = c"
    by (metis rev_is_rev_conv, metis list.inject rev_is_rev_conv)
  then show ?thesis by simp
qed

lemma heading_count_set [simp]: "heading_count (map_set k v counts) b = (if b = k then v else heading_count counts b)"
  by (simp add: heading_count_def)

lemma heading_ids:
  "h \<in> set (index_headings counts es) \<Longrightarrow> \<exists>e \<in> set es. \<exists>n \<ge> heading_count counts (heading_base e). dh_id h = numbered_id (heading_base e) n"
proof (induction es arbitrary: counts)
  case (Cons e es)
  let ?c = "map_set (heading_base e) (heading_count counts (heading_base e) + 1) counts"
  consider "dh_id h = numbered_id (heading_base e) (heading_count counts (heading_base e))" | "h \<in> set (index_headings ?c es)"
    using Cons.prems by (auto simp: Let_def)
  then show ?case
  proof cases
    case 2
    then obtain f n where "f \<in> set es" "heading_count ?c (heading_base f) \<le> n" "dh_id h = numbered_id (heading_base f) n"
      using Cons.IH by blast
    moreover from this have "heading_count counts (heading_base f) \<le> n" by (simp split: if_splits)
    ultimately show ?thesis by auto
  qed auto
qed simp

text \<open>
  The headings of a document can be told apart: their identifiers are all different, as long as no heading
  has the name that another with a number would have; in order, a name that comes again is numbered.
\<close>

lemma heading_ids_distinct:
  assumes "\<forall>e \<in> set es. \<forall>f \<in> set es. \<forall>n > 0. heading_base e \<noteq> numbered_id (heading_base f) n"
  shows "distinct (map dh_id (index_headings counts es))"
  using assms
proof (induction es arbitrary: counts)
  case (Cons e es)
  let ?n = "heading_count counts (heading_base e)"
  let ?c = "map_set (heading_base e) (?n + 1) counts"
  have "numbered_id (heading_base e) ?n \<notin> dh_id ` set (index_headings ?c es)"
  proof
    assume "numbered_id (heading_base e) ?n \<in> dh_id ` set (index_headings ?c es)"
    then obtain h where h: "h \<in> set (index_headings ?c es)" "numbered_id (heading_base e) ?n = dh_id h" by auto
    from heading_ids [OF h(1)] h(2) obtain f k where f: "f \<in> set es" "heading_count ?c (heading_base f) \<le> k"
      "numbered_id (heading_base e) ?n = numbered_id (heading_base f) k" by auto
    have named: "heading_base a \<noteq> numbered_id (heading_base b) i" if "a \<in> set (e # es)" "b \<in> set (e # es)" "0 < i" for a b i
      using Cons.prems that by blast
    have "heading_base e = heading_base f"
    proof (cases "?n = 0 \<or> k = 0")
      case True
      then show ?thesis using f(3) f(1) named [of e f k] named [of f e ?n]
        by (cases "?n = 0"; cases "k = 0") (auto simp: numbered_id_def)
    next
      case False
      then show ?thesis using numbered_same_base [OF f(3)] by simp
    qed
    with f(2,3) show False by (simp add: numbered_inject)
  qed
  moreover have "distinct (map dh_id (index_headings ?c es))" using Cons by simp
  ultimately show ?case by (simp add: Let_def)
qed simp

theorem heading_ids_distinct_witness:
  "map dh_id (index_headings [] [\<lparr>he_text = ''A'', he_id = [], he_level = 2\<rparr>, \<lparr>he_text = ''a'', he_id = [], he_level = 3\<rparr>]) = [''a'', ''a-2'']
   \<and> distinct (map dh_id (index_headings [] [\<lparr>he_text = ''A'', he_id = [], he_level = 2\<rparr>, \<lparr>he_text = ''a'', he_id = [], he_level = 3\<rparr>]))"
proof -
  let ?es = "[\<lparr>he_text = ''A'', he_id = [], he_level = 2\<rparr>, \<lparr>he_text = ''a'', he_id = [], he_level = 3\<rparr>]"
  have "map heading_base ?es = [''a'', ''a'']" by code_simp
  then have "\<forall>e \<in> set ?es. \<forall>f \<in> set ?es. \<forall>n > 0. heading_base e \<noteq> numbered_id (heading_base f) n" by (simp add: numbered_id_def)
  moreover have "map dh_id (index_headings [] ?es) = [''a'', ''a-2'']" by code_simp
  ultimately show ?thesis using heading_ids_distinct [of ?es "[]"] by blast
qed

text \<open>A heading that is named like the second of another has its identifier.\<close>

lemma heading_named_like_second:
  "map dh_id (index_headings [] (map (\<lambda>t. \<lparr>he_text = t, he_id = [], he_level = 2\<rparr>) [''a'', ''a'', ''a 2''])) = [''a'', ''a-2'', ''a-2'']"
  by code_simp

end
