(* ===== verification/VoicePanel.thy ===== *)
theory VoicePanel
  imports ClientTools
begin

text \<open>
  \<open>components/page/layout/WebRTCPanel.tsx\<close>: whom the panel of voices connects to and listens to, which streams
  it lists, and how the stream that is enlarged and the video that plays are kept in the query of the URL.
\<close>

section \<open>The query of the URL\<close>

text \<open>
  The parameters \<open>streamId\<close> and \<open>v\<close>, the id of the stream that is enlarged, and whether the panel is
  expanded. A text that is empty or missing is falsy.
\<close>

record panel_query =
  pq_stream :: "string option"
  pq_video :: "string option"
  pq_enlarged :: "string option"
  pq_expanded :: bool

definition is_given :: "string option \<Rightarrow> bool" where
  "is_given v = (v \<noteq> None \<and> v \<noteq> Some [])"

text \<open>The effect of \<open>searchParams\<close>, which runs when they changed.\<close>

definition open_from_url :: "bool \<Rightarrow> panel_query \<Rightarrow> panel_query" where
  "open_from_url changed q =
     (if changed \<and> is_given (pq_stream q) \<and> pq_enlarged q \<noteq> pq_stream q
      then q\<lparr>pq_enlarged := pq_stream q, pq_expanded := True\<rparr> else q)"

text \<open>
  What the two effects that write the query set it to, each from the query of the render; \<open>queue\<close> holds the
  ids of the videos, when there is a queue.
\<close>

definition stream_param :: "panel_query \<Rightarrow> (string option \<times> string option) option" where
  "stream_param q =
     (if is_given (pq_enlarged q)
      then if pq_stream q \<noteq> pq_enlarged q then Some (pq_enlarged q, pq_video q) else None
      else if pq_stream q \<noteq> None then Some (None, pq_video q) else None)"

definition video_param :: "string list option \<Rightarrow> panel_query \<Rightarrow> (string option \<times> string option) option" where
  "video_param queue q =
     (case queue of
        Some ((c # cs) # _) \<Rightarrow>
          if pq_video q \<noteq> Some (c # cs) then Some (pq_stream q, Some (c # cs)) else None
      | Some _ \<Rightarrow> if pq_video q \<noteq> None then Some (pq_stream q, None) else None
      | None \<Rightarrow> None)"

text \<open>
  A render with its effects, and whether the query changes with it: of two navigations the later one, from
  the same query, remains. The effects that write find nothing to do when they run again for the same values.
\<close>

definition query_render :: "string list option \<Rightarrow> panel_query \<times> bool \<Rightarrow> panel_query \<times> bool" where
  "query_render queue = (\<lambda>(q, changed).
     (let (stream, video) = (case video_param queue q of Some u \<Rightarrow> u
        | None \<Rightarrow> (case stream_param q of Some u \<Rightarrow> u | None \<Rightarrow> (pq_stream q, pq_video q)))
      in ((open_from_url changed q)\<lparr>pq_stream := stream, pq_video := video\<rparr>,
          stream \<noteq> pq_stream q \<or> video \<noteq> pq_video q)))"

primrec query_renders :: "nat \<Rightarrow> string list option \<Rightarrow> panel_query \<times> bool \<Rightarrow> panel_query \<times> bool" where
  "query_renders 0 queue s = s"
| "query_renders (Suc n) queue s = query_renders n queue (query_render queue s)"

section \<open>Peers\<close>

record online_user =
  ou_id :: int
  ou_route :: "string option"
  ou_guest :: "string option"

text \<open>
  \<open>myPresenceId\<close>: the id of the account, or that of the guest among those online. Guests have negative ids.
\<close>

definition my_presence_id :: "int option \<Rightarrow> string \<Rightarrow> online_user list \<Rightarrow> int" where
  "my_presence_id user guest online =
     (case user of
        Some i \<Rightarrow> i
      | None \<Rightarrow> (case find (\<lambda>u. ou_guest u = Some guest) online of Some u \<Rightarrow> ou_id u | None \<Rightarrow> 0))"

definition may_meet :: "string \<Rightarrow> int \<Rightarrow> bool \<Rightarrow> online_user \<Rightarrow> bool" where
  "may_meet path me guests u =
     (normalize_route (ou_route u) = normalize_route (Some path) \<and> ou_id u \<noteq> me \<and> (guests \<or> 0 \<le> ou_id u))"

text \<open>The peers that the effect of \<open>onlineUsers\<close> connects to, and the valid ones that the timer hands on.\<close>

definition to_connect :: "string \<Rightarrow> int \<Rightarrow> bool \<Rightarrow> string list \<Rightarrow> online_user list \<Rightarrow> int list" where
  "to_connect path me guests peers online =
     (if me = 0 then []
      else map ou_id (filter (\<lambda>u. may_meet path me guests u \<and> dec_int (ou_id u) \<notin> set peers) online))"

definition valid_user_ids :: "string \<Rightarrow> int \<Rightarrow> bool \<Rightarrow> online_user list \<Rightarrow> string list" where
  "valid_user_ids path me guests online =
     remdups (map (\<lambda>u. dec_int (ou_id u)) (filter (may_meet path me guests) online))"

text \<open>The peers that are closed when guests are not allowed any more.\<close>

definition guests_to_drop :: "bool \<Rightarrow> (string \<Rightarrow> int) \<Rightarrow> string list \<Rightarrow> string list" where
  "guests_to_drop guests number peers = (if guests then [] else filter (\<lambda>p. number p < 0) peers)"

definition can_speak :: "bool \<Rightarrow> int option \<Rightarrow> (int \<Rightarrow> bool) \<Rightarrow> (int \<Rightarrow> bool) \<Rightarrow> bool" where
  "can_speak enabled user muted kicked =
     (enabled \<and> \<not> (\<exists>i \<in> set_option user. muted i) \<and> \<not> (\<exists>i \<in> set_option user. kicked i))"

record panel_signal =
  vs_sender :: int
  vs_target :: int
  vs_route :: "string option"
  vs_leaves :: bool

datatype signal_outcome = SignalIgnored | PeerClosed string | SignalHandled int

definition on_voice_signal :: "string \<Rightarrow> int \<Rightarrow> panel_signal \<Rightarrow> signal_outcome" where
  "on_voice_signal path me s =
     (if vs_sender s = 0 \<or> normalize_route (vs_route s) \<noteq> normalize_route (Some path) \<or> vs_target s \<noteq> me
      then SignalIgnored
      else if vs_leaves s then PeerClosed (dec_int (vs_sender s)) else SignalHandled (vs_sender s))"

section \<open>Streams\<close>

text \<open>
  A remote stream with its video tracks: whether each has ended, and whether its settings or its source say
  that it shows a screen. An entry of \<open>streamsByPeer\<close> has the ids of its two streams.
\<close>

record video_stream =
  vi_peer :: string
  vi_id :: string
  vi_started :: string
  vi_tracks :: "(bool \<times> bool) list"

record peer_videos =
  pe_started :: string
  pe_screen :: "string option"
  pe_camera :: "string option"

definition live_tracks :: "video_stream \<Rightarrow> (bool \<times> bool) list" where
  "live_tracks v = filter (\<lambda>t. \<not> fst t) (vi_tracks v)"

definition shows_screen :: "video_stream \<Rightarrow> bool" where
  "shows_screen v = list_ex snd (live_tracks v)"

definition list_stream :: "video_stream \<Rightarrow> (string, peer_videos) jsmap \<Rightarrow> (string, peer_videos) jsmap" where
  "list_stream v m =
     (if live_tracks v = [] then m
      else let e = (case map_get m (vi_peer v) of Some e \<Rightarrow> e
          | None \<Rightarrow> \<lparr>pe_started = vi_started v, pe_screen = None, pe_camera = None\<rparr>)
        in map_set (vi_peer v) (if shows_screen v then e\<lparr>pe_screen := Some (vi_id v)\<rparr>
          else e\<lparr>pe_camera := Some (vi_id v)\<rparr>) m)"

definition streams_by_peer :: "video_stream list \<Rightarrow> (string, peer_videos) jsmap" where
  "streams_by_peer vs = fold list_stream vs []"

text \<open>The users shown with a camera or a screen, besides the user.\<close>

definition screen_user_ids :: "video_stream list \<Rightarrow> string list" where
  "screen_user_ids vs = remdups (map vi_peer (filter (\<lambda>v. live_tracks v \<noteq> [] \<and> shows_screen v) vs))"

definition camera_user_ids :: "video_stream list \<Rightarrow> string list" where
  "camera_user_ids vs = remdups (map vi_peer (filter (\<lambda>v. live_tracks v \<noteq> [] \<and> \<not> shows_screen v) vs))"

text \<open>
  \<open>/stream/<id>\<close>: the id of the route, the playback that the other parts read, and the first video, which is
  opened once for a path, or again when asked.
\<close>

definition stream_route_id :: "string \<Rightarrow> string" where
  "stream_route_id path =
     (let pre = ''/stream/''; i = drop (length pre) path
      in if take (length pre) path = pre \<and> i \<noteq> [] \<and> list_all (\<lambda>c. c \<notin> {CHR ''/'', CHR ''?'', CHR ''#''}) i
         then i else [])"

record stream_playback =
  sp_route :: string
  sp_count :: nat

definition update_playback :: "string \<Rightarrow> (string, peer_videos) jsmap \<Rightarrow> stream_playback" where
  "update_playback path m =
     (if stream_route_id path = [] then \<lparr>sp_route = [], sp_count = 0\<rparr>
      else \<lparr>sp_route = path, sp_count = length m\<rparr>)"

definition leave_playback :: "string \<Rightarrow> stream_playback \<Rightarrow> stream_playback" where
  "leave_playback path prev =
     (if stream_route_id path \<noteq> [] \<and> sp_route prev = path then \<lparr>sp_route = [], sp_count = 0\<rparr> else prev)"

definition open_first_stream ::
  "bool \<Rightarrow> string \<Rightarrow> (string, peer_videos) jsmap \<Rightarrow> string option \<times> panel_query \<Rightarrow> string option \<times> panel_query" where
  "open_first_stream force path m = (\<lambda>(opened, q).
     (case m of
        [] \<Rightarrow> (opened, q)
      | (peer, e) # _ \<Rightarrow>
          let video = (if is_given (pe_screen e) then pe_screen e else pe_camera e)
          in if \<not> is_given video \<or> (\<not> force \<and> opened = Some path) then (opened, q)
             else (Some path, q\<lparr>pq_enlarged := Some (peer @ ''-'' @ the video), pq_expanded := True\<rparr>)))"

definition is_speaking :: "int \<Rightarrow> (string, int) jsmap \<Rightarrow> string \<Rightarrow> bool" where
  "is_speaking now spoken user = (now - (case map_get spoken user of Some t \<Rightarrow> t | None \<Rightarrow> 0) < 300)"

definition heard :: "string \<Rightarrow> int \<Rightarrow> (string, int) jsmap \<Rightarrow> (string, int) jsmap" where
  "heard user now spoken = map_set user now spoken"

section \<open>The query settles\<close>

lemma is_given_None [simp]: "\<not> is_given None"
  by (simp add: is_given_def)

text \<open>The video of the query is right after any render.\<close>

lemma stream_param_video: "stream_param q = Some (x, y) \<Longrightarrow> y = pq_video q"
  by (auto simp: stream_param_def split: if_splits)

lemma video_param_after: "video_param queue (fst (query_render queue s)) = None"
  by (cases s) (auto dest!: stream_param_video simp: query_render_def video_param_def open_from_url_def Let_def
      split: option.splits list.splits)

lemma render_quiet:
  assumes "video_param queue q = None"
  shows "query_render queue (q, changed) =
    ((open_from_url changed q)\<lparr>pq_stream := (if is_given (pq_enlarged q) then pq_enlarged q else None)\<rparr>,
      pq_stream q \<noteq> (if is_given (pq_enlarged q) then pq_enlarged q else None))"
  using assms by (auto simp: query_render_def stream_param_def open_from_url_def Let_def)

text \<open>The stream that is enlarged is the one of the query.\<close>

definition query_agrees :: "string list option \<Rightarrow> panel_query \<Rightarrow> bool" where
  "query_agrees queue q =
     (video_param queue q = None \<and> pq_stream q = (if is_given (pq_enlarged q) then pq_enlarged q else None))"

text \<open>
  The query names a stream and another one is enlarged, and either the query has just come to name it or
  the navigation to the one that is enlarged is lost to that of the video.
\<close>

definition query_conflict :: "string list option \<Rightarrow> panel_query \<times> bool \<Rightarrow> bool" where
  "query_conflict queue = (\<lambda>(q, changed). is_given (pq_stream q) \<and> is_given (pq_enlarged q) \<and> pq_stream q \<noteq> pq_enlarged q
     \<and> (changed \<longleftrightarrow> video_param queue q = None))"

lemma agrees_stays:
  assumes "query_agrees queue q"
  shows "query_render queue (q, changed) = (q, False)"
proof -
  have q: "video_param queue q = None" "(if is_given (pq_enlarged q) then pq_enlarged q else None) = pq_stream q"
    using assms by (simp_all add: query_agrees_def)
  then have "open_from_url changed q = q" by (auto simp: open_from_url_def is_given_def split: if_splits)
  with render_quiet [OF q(1), of changed] q(2) show ?thesis by simp
qed

lemma quiet_settles:
  assumes "video_param queue q = None" "\<not> query_conflict queue (q, changed)"
  shows "query_agrees queue (fst (query_render queue (query_render queue (q, changed))))"
proof (cases "is_given (pq_enlarged q)")
  case True
  then have "open_from_url changed q = q" using assms by (auto simp: open_from_url_def query_conflict_def)
  with True have "query_render queue (q, changed) = (q\<lparr>pq_stream := pq_enlarged q\<rparr>, pq_stream q \<noteq> pq_enlarged q)"
    by (simp add: render_quiet [OF assms(1)])
  moreover have "video_param queue (q\<lparr>pq_stream := pq_enlarged q\<rparr>) = None"
    using video_param_after [of queue "(q, changed)"] calculation by simp
  then have "query_agrees queue (q\<lparr>pq_stream := pq_enlarged q\<rparr>)" using True by (simp add: query_agrees_def)
  ultimately show ?thesis using agrees_stays by simp
next
  case False
  obtain q' c' where q': "query_render queue (q, changed) = (q', c')" by (cases "query_render queue (q, changed)")
  have quiet: "video_param queue q' = None" using video_param_after [of queue "(q, changed)"] q' by simp
  have "q' = (open_from_url changed q)\<lparr>pq_stream := None\<rparr>"
    using q' False by (simp add: render_quiet [OF assms(1)])
  then have "pq_stream q' = None" by simp
  then have "open_from_url c' q' = q'" by (simp add: open_from_url_def is_given_def)
  then have "fst (query_render queue (q', c')) = q'\<lparr>pq_stream := (if is_given (pq_enlarged q') then pq_enlarged q' else None)\<rparr>"
    by (simp add: render_quiet [OF quiet])
  moreover have "video_param queue (fst (query_render queue (q', c'))) = None" by (rule video_param_after)
  ultimately show ?thesis by (simp add: q' query_agrees_def)
qed

lemma conflict_stays: "query_conflict queue (query_render queue s) \<longleftrightarrow> query_conflict queue s"
proof -
  obtain q changed where s: "s = (q, changed)" by (cases s)
  have after: "video_param queue (fst (query_render queue s)) = None" by (rule video_param_after)
  show ?thesis
  proof (cases "video_param queue q")
    case None
    with after show ?thesis
      by (auto simp: s query_conflict_def render_quiet open_from_url_def split: if_splits)
  next
    case (Some u)
    then have u: "fst u = pq_stream q" "snd u \<noteq> pq_video q"
      by (auto simp: video_param_def split: option.splits list.splits if_splits)
    with Some have "query_render queue s = ((open_from_url changed q)\<lparr>pq_stream := pq_stream q, pq_video := snd u\<rparr>, True)"
      by (cases u) (auto simp: s query_render_def)
    with after Some show ?thesis
      by (auto simp: s query_conflict_def open_from_url_def)
  qed
qed

lemma conflict_stays_on: "query_conflict queue (query_renders n queue s) \<longleftrightarrow> query_conflict queue s"
  by (induction n arbitrary: s) (simp_all add: conflict_stays)

lemma conflict_disagrees: "query_conflict queue s \<Longrightarrow> \<not> query_agrees queue (fst s)"
  by (cases s) (auto simp: query_conflict_def query_agrees_def)

lemma three_renders_settle:
  assumes "\<not> query_conflict queue s"
  shows "query_agrees queue (fst (query_renders 3 queue s))"
proof -
  obtain q c where q: "query_render queue s = (q, c)" by (cases "query_render queue s")
  have "video_param queue q = None" using video_param_after [of queue s] q by simp
  moreover have "\<not> query_conflict queue (q, c)" using assms conflict_stays [of queue s] q by simp
  ultimately have "query_agrees queue (fst (query_render queue (query_render queue (q, c))))" by (rule quiet_settles)
  then show ?thesis by (simp add: q numeral_3_eq_3)
qed

lemma renders_add: "query_renders (m + n) queue s = query_renders n queue (query_renders m queue s)"
  by (induction m arbitrary: s) simp_all

lemma agrees_on: "query_agrees queue (fst s) \<Longrightarrow> query_agrees queue (fst (query_renders n queue s))"
proof (induction n arbitrary: s)
  case (Suc n)
  obtain q c where s: "s = (q, c)" by (cases s)
  with Suc agrees_stays [of queue q c] show ?case by simp
qed simp

section \<open>Properties\<close>

text \<open>
  C35. Whatever the query, the enlarged stream and the queue of videos are: unless there is a conflict, from
  the third render on the query holds the stream that is enlarged and the video that plays; and with a
  conflict, the query and the enlarged stream never agree in any render.
\<close>

theorem query_settles_unless_conflict:
  "(query_conflict queue s \<longleftrightarrow> (\<forall>n. \<not> query_agrees queue (fst (query_renders n queue s))))
   \<and> (\<not> query_conflict queue s \<longleftrightarrow> (\<forall>n. query_agrees queue (fst (query_renders (3 + n) queue s))))"
proof (cases "query_conflict queue s")
  case True
  then have "\<not> query_agrees queue (fst (query_renders n queue s))" for n
    using conflict_disagrees conflict_stays_on by blast
  with True show ?thesis by blast
next
  case False
  then have "query_agrees queue (fst (query_renders (3 + n) queue s))" for n
    using agrees_on [OF three_renders_settle] by (simp add: renders_add)
  with False show ?thesis by blast
qed

text \<open>A list of streams and the users with a camera or a screen say the same, and no user is listed twice.\<close>

lemma map_get_list_stream:
  "map_get (list_stream v m) peer =
     (if live_tracks v = [] \<or> peer \<noteq> vi_peer v then map_get m peer
      else let e = (case map_get m peer of Some e \<Rightarrow> e
          | None \<Rightarrow> \<lparr>pe_started = vi_started v, pe_screen = None, pe_camera = None\<rparr>)
        in Some (if shows_screen v then e\<lparr>pe_screen := Some (vi_id v)\<rparr> else e\<lparr>pe_camera := Some (vi_id v)\<rparr>))"
  by (auto simp: list_stream_def Let_def)

lemma listed_streams_match_users:
  "distinct (map_keys (streams_by_peer vs))
   \<and> (peer \<in> set (screen_user_ids vs) \<longleftrightarrow> (\<exists>e. map_get (streams_by_peer vs) peer = Some e \<and> pe_screen e \<noteq> None))
   \<and> (peer \<in> set (camera_user_ids vs) \<longleftrightarrow> (\<exists>e. map_get (streams_by_peer vs) peer = Some e \<and> pe_camera e \<noteq> None))"
proof (induction vs rule: rev_induct)
  case Nil
  then show ?case by (simp add: streams_by_peer_def screen_user_ids_def camera_user_ids_def map_keys_def)
next
  case (snoc v vs)
  have step: "streams_by_peer (vs @ [v]) = list_stream v (streams_by_peer vs)" by (simp add: streams_by_peer_def)
  have "distinct (map_keys (streams_by_peer (vs @ [v])))"
    using snoc.IH by (simp add: step list_stream_def distinct_map_keys_set Let_def)
  then show ?case using snoc.IH
    by (auto simp: step map_get_list_stream screen_user_ids_def camera_user_ids_def Let_def split: option.splits)
qed

text \<open>The peers that are connected to are among those that the timer keeps.\<close>

lemma connects_to_valid_peers:
  assumes "i \<in> set (to_connect path me guests peers online)"
  shows "dec_int i \<in> set (valid_user_ids path me guests online) - set peers \<and> i \<noteq> me \<and> (guests \<or> 0 \<le> i)"
  using assms by (auto simp: to_connect_def valid_user_ids_def may_meet_def split: if_splits)

section \<open>Behaviour to know of\<close>

text \<open>
  Following a link to another stream while one is enlarged: each of the two effects writes what the other
  has just is_given up, and the panel goes to and fro between the two streams.
\<close>

lemma two_streams_alternate:
  assumes "video_param queue q = None" "query_conflict queue (q, True)"
  shows "query_render queue (q, True) =
    (q\<lparr>pq_stream := pq_enlarged q, pq_enlarged := pq_stream q, pq_expanded := True\<rparr>, True)"
  using assms by (cases q) (auto simp: render_quiet query_conflict_def open_from_url_def)

text \<open>A guest who signals is answered where guests may not be met.\<close>

lemma guest_signal_is_handled:
  "on_voice_signal ''/a'' 5 \<lparr>vs_sender = - 3, vs_target = 5, vs_route = Some ''/a'', vs_leaves = False\<rparr> = SignalHandled (- 3)
   \<and> \<not> may_meet ''/a'' 5 False \<lparr>ou_id = - 3, ou_route = Some ''/a'', ou_guest = Some ''g''\<rparr>"
  by code_simp

text \<open>Closing the stream when the video changes in the same render opens it again: its navigation is lost.\<close>

lemma closing_is_lost:
  "let q = \<lparr>pq_stream = Some ''a'', pq_video = None, pq_enlarged = None, pq_expanded = True\<rparr>
   in pq_enlarged (fst (query_renders 3 (Some [''x'']) (q, False))) = Some ''a''"
  by code_simp

end
