(* ===== verification/BibleSpeech.thy ===== *)
theory BibleSpeech
  imports JsText
begin

text \<open>
  \<open>components/bible/useBibleSpeech.ts\<close>: the reader that speaks verse after verse. The speech synthesis of
  the browser is the environment: it holds at most one utterance, and its events may come late, after the
  utterance was given up.
\<close>

section \<open>Voices\<close>

record speech_voice =
  vo_uri :: string
  vo_lang :: string
  vo_default :: bool

definition english :: "speech_voice \<Rightarrow> bool" where
  "english v = (take 2 (to_lower (vo_lang v)) = ''en'')"

definition preferred_voice_uri :: "speech_voice list \<Rightarrow> string \<Rightarrow> string" where
  "preferred_voice_uri voices requested =
     (let first = (\<lambda>P. map_option vo_uri (find P voices))
      in case first (\<lambda>v. vo_uri v = requested) of Some u \<Rightarrow> u
       | None \<Rightarrow> (case first (\<lambda>v. vo_default v \<and> english v) of Some u \<Rightarrow> u
       | None \<Rightarrow> (case first english of Some u \<Rightarrow> u
       | None \<Rightarrow> (case first vo_default of Some u \<Rightarrow> u
       | None \<Rightarrow> (case voices of v # _ \<Rightarrow> vo_uri v | [] \<Rightarrow> [])))))"

section \<open>State\<close>

datatype speech_state = SpeechIdle | SpeechPlaying | SpeechPaused

text \<open>The options of the hook, with the voice already resolved.\<close>

record speech_options =
  so_text :: string
  so_key :: string
  so_scope :: string
  so_voice :: string
  so_enabled :: bool
  so_supported :: bool

text \<open>
  The references of the hook, and of the synthesis: the generation of the utterance it holds, its text, and
  whether it is paused. \<open>cancel()\<close> removes the utterance and leaves the pause, as its specification says.
\<close>

record speech =
  bs_state :: speech_state
  bs_generation :: nat
  bs_continuous :: bool
  bs_key :: string
  bs_voice :: string
  bs_scope :: string
  sy_utterance :: "(nat \<times> string) option"
  sy_paused :: bool

definition new_speech :: "string \<Rightarrow> speech" where
  "new_speech scope =
     \<lparr>bs_state = SpeechIdle, bs_generation = 0, bs_continuous = False, bs_key = [], bs_voice = [],
      bs_scope = scope, sy_utterance = None, sy_paused = False\<rparr>"

section \<open>Operations\<close>

definition stop_speech :: "speech_options \<Rightarrow> speech \<Rightarrow> speech" where
  "stop_speech w s =
     s\<lparr>bs_continuous := False, bs_generation := Suc (bs_generation s), bs_key := [], bs_voice := [],
       sy_utterance := (if so_supported w then None else sy_utterance s), bs_state := SpeechIdle\<rparr>"

definition can_speak_text :: "speech_options \<Rightarrow> bool" where
  "can_speak_text w = (so_supported w \<and> so_enabled w \<and> js_trim (so_text w) \<noteq> [])"

definition speak_current :: "speech_options \<Rightarrow> speech \<Rightarrow> bool \<times> speech" where
  "speak_current w s =
     (if \<not> can_speak_text w then (False, s)
      else (True, s\<lparr>bs_generation := Suc (bs_generation s), bs_key := so_key w, bs_voice := so_voice w,
        bs_state := SpeechPlaying, sy_utterance := Some (Suc (bs_generation s), so_text w)\<rparr>))"

definition play_speech :: "speech_options \<Rightarrow> speech \<Rightarrow> speech" where
  "play_speech w s =
     (if \<not> so_supported w \<or> \<not> so_enabled w then s
      else if bs_state s = SpeechPaused \<and> sy_paused s
      then s\<lparr>bs_continuous := True, sy_paused := False, bs_state := SpeechPlaying\<rparr>
      else let (spoken, s1) = speak_current w (s\<lparr>bs_continuous := True\<rparr>)
        in if spoken then s1 else s1\<lparr>bs_continuous := False\<rparr>)"

definition pause_speech :: "speech_options \<Rightarrow> speech \<Rightarrow> speech" where
  "pause_speech w s =
     (if \<not> so_supported w \<or> bs_state s \<noteq> SpeechPlaying then s
      else s\<lparr>sy_paused := True, bs_state := SpeechPaused\<rparr>)"

definition toggle_speech :: "speech_options \<Rightarrow> speech \<Rightarrow> speech" where
  "toggle_speech w s = (if bs_state s = SpeechPlaying then pause_speech w s else play_speech w s)"

text \<open>The effect, which runs after a render with the options \<open>w\<close>.\<close>

definition speech_effect :: "speech_options \<Rightarrow> speech \<Rightarrow> speech" where
  "speech_effect w s =
     (let scope_changed = (bs_scope s \<noteq> so_scope w); s1 = s\<lparr>bs_scope := so_scope w\<rparr>
      in if \<not> so_enabled w \<or> scope_changed then stop_speech w s1
         else if bs_state s1 = SpeechPaused \<and> bs_key s1 \<noteq> so_key w then stop_speech w s1
         else if bs_continuous s1 \<and> bs_state s1 = SpeechPlaying \<and> (bs_key s1 \<noteq> so_key w \<or> bs_voice s1 \<noteq> so_voice w)
         then snd (speak_current w s1) else s1)"

text \<open>The events of the utterance of generation \<open>g\<close>; \<open>advanced\<close> is what \<open>onAdvance\<close> answers.\<close>

definition utterance_started :: "nat \<Rightarrow> speech \<Rightarrow> speech" where
  "utterance_started g s = (if bs_generation s \<noteq> g then s else s\<lparr>bs_state := SpeechPlaying\<rparr>)"

definition utterance_ended :: "nat \<Rightarrow> bool \<Rightarrow> speech \<Rightarrow> speech" where
  "utterance_ended g advanced s =
     (if bs_generation s \<noteq> g \<or> \<not> bs_continuous s then s
      else if advanced then s else s\<lparr>bs_continuous := False, bs_key := [], bs_state := SpeechIdle\<rparr>)"

definition utterance_failed :: "nat \<Rightarrow> speech \<Rightarrow> speech" where
  "utterance_failed g s =
     (if bs_generation s \<noteq> g then s else s\<lparr>bs_continuous := False, bs_key := [], bs_state := SpeechIdle\<rparr>)"

definition let_go :: "nat \<Rightarrow> speech \<Rightarrow> speech" where
  "let_go g s = (if map_option fst (sy_utterance s) = Some g then s\<lparr>sy_utterance := None\<rparr> else s)"

section \<open>Steps\<close>

text \<open>
  An event belongs to the utterance that the synthesis holds, or to one of an earlier generation. A render
  brings new options; that speech is supported does not change. The reader has one button for play and
  pause, and one for stop.
\<close>

definition may_report :: "nat \<Rightarrow> speech \<Rightarrow> bool" where
  "may_report g s = (map_option fst (sy_utterance s) = Some g \<or> g < bs_generation s)"

inductive speech_step :: "speech_options \<times> speech \<Rightarrow> speech_options \<times> speech \<Rightarrow> bool" where
    speech_renders: "so_supported w' = so_supported w \<Longrightarrow> speech_step (w, s) (w', speech_effect w' s)"
  | speech_toggles: "speech_step (w, s) (w, toggle_speech w s)"
  | speech_stops: "speech_step (w, s) (w, stop_speech w s)"
  | speech_starts: "may_report g s \<Longrightarrow> \<not> sy_paused s \<or> g \<noteq> bs_generation s \<Longrightarrow> speech_step (w, s) (w, utterance_started g s)"
  | speech_ends: "may_report g s \<Longrightarrow> speech_step (w, s) (w, let_go g (utterance_ended g advanced s))"
  | speech_fails: "may_report g s \<Longrightarrow> speech_step (w, s) (w, let_go g (utterance_failed g s))"

inductive speech_reachable :: "speech_options \<times> speech \<Rightarrow> bool" where
    speech_begins: "speech_reachable (w, speech_effect w (new_speech (so_scope w)))"
  | speech_next: "speech_reachable c \<Longrightarrow> speech_step c c' \<Longrightarrow> speech_reachable c'"

section \<open>The invariant\<close>

text \<open>
  An utterance that is held is of the current generation. While the reader is on, what it speaks is the
  verse that is shown, as far as there is a text.
\<close>

definition speech_ok :: "speech_options \<Rightarrow> speech \<Rightarrow> bool" where
  "speech_ok w s =
     ((\<forall>g t. sy_utterance s = Some (g, t) \<longrightarrow> g = bs_generation s \<and> bs_state s \<noteq> SpeechIdle)
      \<and> bs_scope s = so_scope w
      \<and> (bs_continuous s \<longleftrightarrow> bs_state s \<noteq> SpeechIdle)
      \<and> (\<not> so_enabled w \<or> \<not> so_supported w \<longrightarrow> bs_state s = SpeechIdle \<and> sy_utterance s = None)
      \<and> (bs_state s \<noteq> SpeechIdle \<longrightarrow> can_speak_text w \<longrightarrow> bs_key s = so_key w)
      \<and> (bs_state s = SpeechPaused \<longrightarrow> sy_paused s))"

lemma stop_ok: "bs_scope s = so_scope w \<Longrightarrow> so_supported w \<or> sy_utterance s = None \<Longrightarrow> speech_ok w (stop_speech w s)"
  by (auto simp: speech_ok_def stop_speech_def)

lemma speak_ok:
  assumes "bs_scope s = so_scope w" "can_speak_text w" "bs_continuous s"
  shows "speech_ok w (snd (speak_current w s))"
  using assms by (simp add: speech_ok_def speak_current_def can_speak_text_def)

lemma effect_ok:
  assumes ok: "speech_ok w s" and same: "so_supported w' = so_supported w"
  shows "speech_ok w' (speech_effect w' s)"
proof -
  let ?s = "s\<lparr>bs_scope := so_scope w'\<rparr>"
  have held: "so_supported w' \<or> sy_utterance ?s = None" using ok same by (auto simp: speech_ok_def)
  consider "\<not> so_enabled w' \<or> bs_scope s \<noteq> so_scope w'"
    | "so_enabled w'" "bs_scope s = so_scope w'" "bs_state s = SpeechPaused" "bs_key s \<noteq> so_key w'"
    | "so_enabled w'" "bs_scope s = so_scope w'" "bs_state s = SpeechPlaying" "bs_key s \<noteq> so_key w' \<or> bs_voice s \<noteq> so_voice w'"
    | "so_enabled w'" "bs_scope s = so_scope w'" "bs_state s = SpeechIdle \<or> bs_key s = so_key w'"
      "bs_state s = SpeechPlaying \<longrightarrow> bs_voice s = so_voice w'"
    by (cases "bs_state s") auto
  then show ?thesis
  proof cases
    case 1
    then have "speech_effect w' s = stop_speech w' ?s" by (simp add: speech_effect_def Let_def)
    with stop_ok [of ?s w'] held show ?thesis by simp
  next
    case 2
    then have "speech_effect w' s = stop_speech w' ?s" by (simp add: speech_effect_def Let_def)
    with stop_ok [of ?s w'] held show ?thesis by simp
  next
    case 3
    then have "bs_continuous s" using ok by (simp add: speech_ok_def)
    with 3 have effect: "speech_effect w' s = snd (speak_current w' ?s)" by (auto simp: speech_effect_def Let_def)
    show ?thesis
    proof (cases "can_speak_text w'")
      case True
      with effect speak_ok [of ?s w'] \<open>bs_continuous s\<close> show ?thesis by simp
    next
      case False
      with ok same 3 show ?thesis by (auto simp: effect speak_current_def speech_ok_def)
    qed
  next
    case 4
    then have "speech_effect w' s = ?s" by (auto simp: speech_effect_def Let_def)
    with ok same 4 show ?thesis by (auto simp: speech_ok_def)
  qed
qed

lemma toggle_speech_ok:
  assumes "speech_ok w s"
  shows "speech_ok w (toggle_speech w s)"
proof (cases "bs_state s")
  case SpeechPlaying
  show ?thesis
  proof (cases "can_speak_text w \<or> bs_key s = so_key w")
    case True
    with assms SpeechPlaying show ?thesis by (auto simp: toggle_speech_def pause_speech_def speech_ok_def)
  next
    case False
    with assms SpeechPlaying show ?thesis by (auto simp: toggle_speech_def pause_speech_def speech_ok_def)
  qed
next
  case SpeechPaused
  with assms show ?thesis by (auto simp: toggle_speech_def play_speech_def speech_ok_def)
next
  case SpeechIdle
  show ?thesis
  proof (cases "can_speak_text w")
    case True
    with SpeechIdle assms speak_ok [of "s\<lparr>bs_continuous := True\<rparr>" w] show ?thesis
      by (simp add: toggle_speech_def play_speech_def speak_current_def speech_ok_def)
  next
    case False
    with SpeechIdle assms show ?thesis
      by (auto simp: toggle_speech_def play_speech_def speak_current_def speech_ok_def)
  qed
qed

lemma events_ok:
  assumes ok: "speech_ok w s" and g: "may_report g s"
  shows "\<not> sy_paused s \<or> g \<noteq> bs_generation s \<Longrightarrow> speech_ok w (utterance_started g s)"
    and "speech_ok w (let_go g (utterance_ended g advanced s))"
    and "speech_ok w (let_go g (utterance_failed g s))"
proof -
  have held: "map_option fst (sy_utterance s) = Some g \<longleftrightarrow> sy_utterance s \<noteq> None \<and> g = bs_generation s"
    using ok by (cases "sy_utterance s") (auto simp: speech_ok_def)
  have current: "g = bs_generation s \<Longrightarrow> sy_utterance s \<noteq> None \<and> bs_state s \<noteq> SpeechIdle"
    using g ok by (cases "sy_utterance s") (auto simp: may_report_def speech_ok_def)
  show "speech_ok w (utterance_started g s)" if "\<not> sy_paused s \<or> g \<noteq> bs_generation s"
    using ok that current by (cases "bs_state s") (auto simp: utterance_started_def speech_ok_def)
  have drop: "speech_ok w (s\<lparr>sy_utterance := None\<rparr>)"
    "speech_ok w (s\<lparr>bs_continuous := False, bs_key := [], bs_state := SpeechIdle, sy_utterance := None\<rparr>)"
    using ok by (auto simp: speech_ok_def)
  show "speech_ok w (let_go g (utterance_ended g advanced s))" "speech_ok w (let_go g (utterance_failed g s))"
  proof (atomize (full), cases "g = bs_generation s")
    case True
    then obtain t where "sy_utterance s = Some (g, t)" using current held by (cases "sy_utterance s") auto
    with True drop ok show "speech_ok w (let_go g (utterance_ended g advanced s)) \<and> speech_ok w (let_go g (utterance_failed g s))"
      by (simp add: utterance_ended_def utterance_failed_def let_go_def)
  next
    case False
    then have "map_option fst (sy_utterance s) \<noteq> Some g" using held by blast
    with False ok show "speech_ok w (let_go g (utterance_ended g advanced s)) \<and> speech_ok w (let_go g (utterance_failed g s))"
      by (simp add: utterance_ended_def utterance_failed_def let_go_def)
  qed
qed

lemma speech_step_ok:
  assumes "speech_step (w, s) (w', s')" "speech_ok w s"
  shows "speech_ok w' s'"
  using assms(1)
proof cases
  case speech_stops
  moreover have "bs_scope s = so_scope w" "so_supported w \<or> sy_utterance s = None"
    using assms(2) by (auto simp: speech_ok_def)
  ultimately show ?thesis using stop_ok by simp
next
  case speech_renders
  with effect_ok [OF assms(2)] show ?thesis by simp
next
  case speech_toggles
  with toggle_speech_ok [OF assms(2)] show ?thesis by simp
next
  case (speech_starts g)
  with events_ok(1) [OF assms(2) speech_starts(3)] show ?thesis by simp
next
  case (speech_ends g advanced)
  with events_ok(2) [OF assms(2) speech_ends(3)] show ?thesis by simp
next
  case (speech_fails g)
  with events_ok(3) [OF assms(2) speech_fails(3)] show ?thesis by simp
qed

lemma speech_reachable_ok: "speech_reachable c \<Longrightarrow> speech_ok (fst c) (snd c)"
proof (induction rule: speech_reachable.induct)
  case (speech_begins w)
  show ?case by (auto simp: speech_effect_def new_speech_def stop_speech_def speech_ok_def Let_def)
next
  case (speech_next c c')
  obtain w s w' s' where "c = (w, s)" "c' = (w', s')" by (cases c; cases c')
  with speech_next speech_step_ok [of w s w' s'] show ?case by simp
qed

section \<open>Properties\<close>


definition one_verse :: "string \<Rightarrow> string \<Rightarrow> speech_options" where
  "one_verse key voice =
     \<lparr>so_text = ''In the beginning'', so_key = key, so_scope = ''genesis'', so_voice = voice, so_enabled = True,
      so_supported = True\<rparr>"


text \<open>The voice is the one that is asked for, when the browser has it, and one of its voices in any case.\<close>

lemma preferred_voice_exists:
  assumes "voices \<noteq> []"
  shows "preferred_voice_uri voices requested \<in> vo_uri ` set voices"
    and "requested \<in> vo_uri ` set voices \<Longrightarrow> preferred_voice_uri voices requested = requested"
proof -
  have step: "(case map_option vo_uri (find P voices) of Some u \<Rightarrow> u | None \<Rightarrow> x) \<in> vo_uri ` set voices"
    if "x \<in> vo_uri ` set voices" for P x
    using that by (cases "find P voices") (auto dest: find_SomeD)
  have last: "(case voices of v # _ \<Rightarrow> vo_uri v | [] \<Rightarrow> []) \<in> vo_uri ` set voices"
    using assms by (cases voices) auto
  have shape: "preferred_voice_uri voices requested =
    (case map_option vo_uri (find (\<lambda>v. vo_uri v = requested) voices) of Some u \<Rightarrow> u | None \<Rightarrow>
      (case map_option vo_uri (find (\<lambda>v. vo_default v \<and> english v) voices) of Some u \<Rightarrow> u | None \<Rightarrow>
        (case map_option vo_uri (find english voices) of Some u \<Rightarrow> u | None \<Rightarrow>
          (case map_option vo_uri (find vo_default voices) of Some u \<Rightarrow> u | None \<Rightarrow>
            (case voices of v # _ \<Rightarrow> vo_uri v | [] \<Rightarrow> [])))))"
    unfolding preferred_voice_uri_def Let_def ..
  show "preferred_voice_uri voices requested \<in> vo_uri ` set voices"
    unfolding shape by (rule step [OF step [OF step [OF step [OF last]]]])
  show "preferred_voice_uri voices requested = requested" if "requested \<in> vo_uri ` set voices"
  proof -
    obtain v where "find (\<lambda>v. vo_uri v = requested) voices = Some v"
      using \<open>requested \<in> vo_uri ` set voices\<close> by (cases "find (\<lambda>v. vo_uri v = requested) voices") (auto simp: find_None_iff)
    then show ?thesis by (auto simp: preferred_voice_uri_def Let_def dest: find_SomeD)
  qed
qed

section \<open>Behaviour to know of\<close>

text \<open>
  Stopping a reader that is paused leaves the synthesis paused: the next play shows a reader that plays, and
  nothing is heard.
\<close>

lemma stopped_pause_silences:
  "let w = one_verse ''1:1'' ''v'';
       s = toggle_speech w (stop_speech w (toggle_speech w (toggle_speech w (new_speech ''genesis''))))
   in bs_state s = SpeechPlaying \<and> sy_paused s"
  by code_simp

text \<open>A voice that is chosen while the reader pauses is not used when it goes on.\<close>

lemma paused_voice_is_kept:
  "let w = one_verse ''1:1'' ''old''; w' = one_verse ''1:1'' ''new'';
       s = toggle_speech w' (speech_effect w' (toggle_speech w (toggle_speech w (new_speech ''genesis''))))
   in bs_state s = SpeechPlaying \<and> bs_voice s = ''old'' \<and> so_voice w' = ''new''"
  by code_simp

end
