(* ===== verification/SiteHooks.thy ===== *)
theory SiteHooks
  imports ClientTools
begin

text \<open>
  The hooks of the whole site (\<open>hooks/*.ts\<close>) and of the store (\<open>components/store/ratings.ts\<close>,
  \<open>storeMedia.ts\<close>): who is online, the cursor that is sent at intervals, the features that are switched
  on, the theme, the dialog for a session of maintenance, the guard for unsaved changes.
\<close>

section \<open>Who is online\<close>

record presence_user =
  pu_id :: int
  pu_name :: string
  pu_route :: "string option"

text \<open>\<open>usePresenceUsers\<close>: a \<open>Map\<close> by the id; guests have negative ids, and 0 is nobody.\<close>

definition see_user :: "presence_user \<Rightarrow> (int, presence_user) jsmap \<Rightarrow> (int, presence_user) jsmap" where
  "see_user u seen =
     (if pu_id u = 0 then seen
      else if pu_id u < 0 then map_set (pu_id u) u seen
      else case map_get seen (pu_id u) of
          None \<Rightarrow> map_set (pu_id u) u seen
        | Some e \<Rightarrow> if pu_name u \<noteq> [] \<and> pu_name e = [] then map_set (pu_id u) u seen else seen)"

definition presence_users :: "presence_user list \<Rightarrow> presence_user list" where
  "presence_users users = take 100 (map snd (fold see_user users []))"

definition users_here :: "string \<Rightarrow> presence_user list \<Rightarrow> presence_user list" where
  "users_here path users =
     filter (\<lambda>u. normalize_route (pu_route u) = normalize_route (Some path)) (presence_users users)"

definition users_elsewhere :: "string \<Rightarrow> presence_user list \<Rightarrow> presence_user list" where
  "users_elsewhere path users =
     filter (\<lambda>u. normalize_route (pu_route u) \<noteq> normalize_route (Some path)) (presence_users users)"

text \<open>The entry that stands for an account: the first one with a name, or the first one.\<close>

definition entry_for :: "int \<Rightarrow> presence_user list \<Rightarrow> presence_user option" where
  "entry_for i users =
     (case find (\<lambda>u. pu_id u = i \<and> pu_name u \<noteq> []) users of
        Some u \<Rightarrow> Some u
      | None \<Rightarrow> find (\<lambda>u. pu_id u = i) users)"

definition seen_ok :: "(int, presence_user) jsmap \<Rightarrow> bool" where
  "seen_ok m = (distinct (map_keys m) \<and> (\<forall>(i, u) \<in> set m. i = pu_id u \<and> i \<noteq> 0))"

lemma see_user_ok: "seen_ok m \<Longrightarrow> seen_ok (see_user u m)"
  using set_map_set_subset [of "pu_id u" u m]
  by (fastforce simp: seen_ok_def see_user_def distinct_map_keys_set split: option.splits)

lemma seen_users_ok: "seen_ok m \<Longrightarrow> seen_ok (fold see_user users m)"
  by (induction users arbitrary: m) (simp_all add: see_user_ok)

lemma see_user_at:
  assumes "0 < i"
  shows "map_get (see_user u m) i =
    (if pu_id u \<noteq> i then map_get m i
     else case map_get m i of None \<Rightarrow> Some u | Some e \<Rightarrow> if pu_name u \<noteq> [] \<and> pu_name e = [] then Some u else Some e)"
  using assms by (auto simp: see_user_def split: option.splits)

lemma seen_entry:
  assumes "0 < i"
  shows "map_get (fold see_user users []) i = entry_for i users"
proof (induction users rule: rev_induct)
  case Nil
  then show ?case by (simp add: entry_for_def)
next
  case (snoc u users)
  have find: "find P (xs @ [x]) = (case find P xs of Some y \<Rightarrow> Some y | None \<Rightarrow> if P x then Some x else None)"
    for P and xs :: "presence_user list" and x by (induction xs) auto
  have named: "map_get (fold see_user users []) i = Some e \<Longrightarrow> pu_name e = [] \<Longrightarrow>
      find (\<lambda>u. pu_id u = i \<and> pu_name u \<noteq> []) users = None" for e
    using snoc.IH by (auto simp: entry_for_def split: option.splits dest: find_SomeD)
  show ?case
  proof (cases "pu_id u = i")
    case False
    then have "map_get (fold see_user (users @ [u]) []) i = map_get (fold see_user users []) i"
      by (simp add: see_user_at [OF assms])
    with False snoc.IH show ?thesis by (auto simp: entry_for_def find split: option.splits)
  next
    case True
    show ?thesis
    proof (cases "map_get (fold see_user users []) i")
      case None
      with snoc.IH have "find (\<lambda>u. pu_id u = i) users = None" "find (\<lambda>u. pu_id u = i \<and> pu_name u \<noteq> []) users = None"
        by (auto simp: entry_for_def split: option.splits)
      with None True show ?thesis by (simp add: see_user_at [OF assms] entry_for_def find)
    next
      case (Some e)
      show ?thesis
      proof (cases "pu_name u \<noteq> [] \<and> pu_name e = []")
        case True
        with \<open>pu_id u = i\<close> Some named [OF Some] show ?thesis by (simp add: see_user_at [OF assms] entry_for_def find)
      next
        case False
        have same: "entry_for i (users @ [u]) = Some e"
        proof (cases "pu_name u = []")
          case True
          with Some snoc.IH show ?thesis by (auto simp: entry_for_def find split: option.splits)
        next
          case named_u: False
          with False have "pu_name e \<noteq> []" by simp
          with Some snoc.IH have "find (\<lambda>u. pu_id u = i \<and> pu_name u \<noteq> []) users = Some e"
            by (auto simp: entry_for_def split: option.splits dest: find_SomeD simp: find_None_iff)
          then show ?thesis by (simp add: entry_for_def find)
        qed
        with \<open>pu_id u = i\<close> Some False show ?thesis by (auto simp: see_user_at [OF assms])
      qed
    qed
  qed
qed

text \<open>
  The users that are shown: at most a hundred, nobody twice, each either here or elsewhere; an account is
  shown by its first entry with a name, if it has one.
\<close>

lemma presence_users_once:
  "distinct (map pu_id (presence_users users)) \<and> length (presence_users users) \<le> 100
   \<and> mset (users_here path users) + mset (users_elsewhere path users) = mset (presence_users users)
   \<and> (\<forall>u \<in> set (presence_users users). pu_id u \<noteq> 0 \<and> (0 < pu_id u \<longrightarrow> entry_for (pu_id u) users = Some u))"
proof -
  let ?m = "fold see_user users []"
  have ok: "distinct (map_keys ?m)" "\<And>i u. (i, u) \<in> set ?m \<Longrightarrow> i = pu_id u \<and> i \<noteq> 0"
    using seen_users_ok [of "[]" users] by (auto simp: seen_ok_def map_keys_def)
  have "(\<forall>(i, u) \<in> set n. i = pu_id u) \<Longrightarrow> map pu_id (map snd n) = map_keys n" for n :: "(int, presence_user) jsmap"
    by (induction n) (auto simp: map_keys_def)
  then have ids: "map pu_id (map snd ?m) = map_keys ?m" using ok(2) by auto
  have "distinct (map pu_id (presence_users users))"
    using ok(1) ids by (simp add: presence_users_def take_map [symmetric] del: map_map)
  moreover have "pu_id u \<noteq> 0 \<and> (0 < pu_id u \<longrightarrow> entry_for (pu_id u) users = Some u)" if "u \<in> set (presence_users users)" for u
  proof -
    have "u \<in> set (map snd ?m)" using that by (auto simp: presence_users_def dest: in_set_takeD)
    then have "(pu_id u, u) \<in> set ?m" "pu_id u \<noteq> 0" using ok(2) by auto
    moreover from this(1) have "map_get ?m (pu_id u) = Some u" using ok(1) by (simp add: map_get_def map_keys_def)
    ultimately show ?thesis using seen_entry [of "pu_id u" users] by auto
  qed
  moreover have "mset (users_here path users) + mset (users_elsewhere path users) = mset (presence_users users)"
  proof -
    have "mset (filter P xs) + mset (filter (\<lambda>x. \<not> P x) xs) = mset xs" for P and xs :: "presence_user list"
      by (induction xs) auto
    then show ?thesis by (simp add: users_here_def users_elsewhere_def)
  qed
  ultimately show ?thesis by (simp add: presence_users_def)
qed

section \<open>The cursor\<close>

record cursor_state =
  cs_last :: int
  cs_sent :: "int list"

definition throttle_ms :: int where
  "throttle_ms = 50"

definition send_position :: "int \<Rightarrow> bool \<Rightarrow> cursor_state \<Rightarrow> cursor_state" where
  "send_position now online s =
     (if now - cs_last s < throttle_ms then s
      else if online then s\<lparr>cs_last := now, cs_sent := cs_sent s @ [now]\<rparr> else s\<lparr>cs_last := now\<rparr>)"

text \<open>However the mouse moves, positions are sent at intervals of at least 50 milliseconds.\<close>

lemma positions_are_spaced:
  assumes "\<forall>t \<in> set (cs_sent s). t \<le> cs_last s" "sorted_wrt (\<lambda>t u. t + throttle_ms \<le> u) (cs_sent s)"
  shows "sorted_wrt (\<lambda>t u. t + throttle_ms \<le> u) (cs_sent (fold (\<lambda>(now, online). send_position now online) events s))"
  using assms
proof (induction events arbitrary: s)
  case Nil
  then show ?case by simp
next
  case (Cons e events)
  obtain now online where e: "e = (now, online)" by (cases e)
  have "(\<forall>t \<in> set (cs_sent (send_position now online s)). t \<le> cs_last (send_position now online s))
      \<and> sorted_wrt (\<lambda>t u. t + throttle_ms \<le> u) (cs_sent (send_position now online s))"
  proof (cases "now - cs_last s < throttle_ms")
    case True
    with Cons.prems show ?thesis by (simp add: send_position_def)
  next
    case False
    then have "\<forall>t \<in> set (cs_sent s). t + throttle_ms \<le> now" "cs_last s \<le> now"
      using Cons.prems(1) by (auto simp: throttle_ms_def)
    with False Cons.prems show ?thesis by (force simp: send_position_def sorted_wrt_append)
  qed
  then show ?case using Cons.IH by (simp add: e)
qed

section \<open>Features, theme and layout\<close>

definition feature_names :: "string list" where
  "feature_names = [''landing'', ''store'', ''forum'', ''docs'', ''cart'', ''users'', ''inbox'', ''presence'']"

text \<open>
  \<open>useFeatures\<close>: the answer is a list of names or an object of flags, \<open>None\<close> a request that failed, after
  which everything is on.
\<close>

definition enabled_set :: "jsval \<Rightarrow> string set" where
  "enabled_set remote =
     (case remote of
        JArr xs \<Rightarrow> {n. JStr n \<in> set xs}
      | JObj ps \<Rightarrow> fst ` set (filter (\<lambda>(n, v). truthy v) ps)
      | _ \<Rightarrow> {})"

definition load_features :: "jsval option \<Rightarrow> (string \<times> bool) list" where
  "load_features answered =
     map (\<lambda>n. (n, case answered of Some remote \<Rightarrow> n \<in> enabled_set remote | None \<Rightarrow> True)) feature_names"

datatype theme = Light | Dark

text \<open>
  \<open>useTheme\<close>: what the storage holds, what the system prefers, and whether the page is the clip maker, which
  is always dark.
\<close>

record theme_state =
  th_override :: "theme option"
  th_system_dark :: bool
  th_clip_maker :: bool
  th_theme :: theme

definition normal_theme :: "theme_state \<Rightarrow> theme" where
  "normal_theme t = (case th_override t of Some x \<Rightarrow> x | None \<Rightarrow> if th_system_dark t then Dark else Light)"

definition update_theme :: "theme_state \<Rightarrow> theme_state" where
  "update_theme t = t\<lparr>th_theme := (if th_clip_maker t then Dark else normal_theme t)\<rparr>"

definition set_theme_override :: "theme option \<Rightarrow> theme_state \<Rightarrow> theme_state" where
  "set_theme_override choice t = update_theme (t\<lparr>th_override := choice\<rparr>)"

definition system_changes :: "bool \<Rightarrow> theme_state \<Rightarrow> theme_state" where
  "system_changes dark t =
     (let t1 = t\<lparr>th_system_dark := dark\<rparr>
      in if th_override t = None \<and> \<not> th_clip_maker t then t1\<lparr>th_theme := (if dark then Dark else Light)\<rparr> else t1)"

definition theme_route :: "string \<Rightarrow> theme_state \<Rightarrow> theme_state" where
  "theme_route path t = update_theme (t\<lparr>th_clip_maker := starts_with ''/clipmaker'' path\<rparr>)"

text \<open>The theme is always the one that the choice, the system and the page give.\<close>

lemma theme_in_step:
  assumes "th_theme t = th_theme (update_theme t)"
  shows "th_theme (system_changes dark t) = th_theme (update_theme (system_changes dark t))"
    and "th_theme (set_theme_override choice t) = th_theme (update_theme (set_theme_override choice t))"
    and "th_theme (theme_route path t) = th_theme (update_theme (theme_route path t))"
  using assms by (auto simp: system_changes_def set_theme_override_def theme_route_def update_theme_def
      normal_theme_def Let_def split: option.splits)

definition layout_value :: "(string, string) jsmap \<Rightarrow> string \<Rightarrow> string \<Rightarrow> string" where
  "layout_value positions key fallback =
     (case map_get positions key of Some (c # cs) \<Rightarrow> c # cs | _ \<Rightarrow> fallback)"

definition set_layout_value :: "string \<Rightarrow> string \<Rightarrow> (string, string) jsmap \<Rightarrow> (string, string) jsmap" where
  "set_layout_value key v positions = map_set key v positions"

lemma layout_value_read_back:
  "v \<noteq> [] \<Longrightarrow> layout_value (set_layout_value key v positions) k fallback = (if k = key then v else layout_value positions k fallback)"
  by (cases v) (auto simp: layout_value_def set_layout_value_def)

section \<open>The dialog for a session of maintenance\<close>

record maintenance =
  gr_dialog :: bool
  gr_loading :: bool
  gr_error :: jsval
  gr_armed :: bool
  gr_left_to :: "string option"

definition armed_text :: string where
  "armed_text = ''Site is armed - online a Grengo session to manage it.''"

definition grengo_keydown :: "bool \<Rightarrow> bool \<Rightarrow> string \<Rightarrow> maintenance \<Rightarrow> maintenance" where
  "grengo_keydown admin modified key g =
     (if modified \<and> to_lower key = ''g'' \<and> admin then g\<lparr>gr_dialog := True, gr_error := JStr []\<rparr> else g)"

text \<open>\<open>site:armed\<close>, and the answer about the status when it says so.\<close>

definition site_armed :: "bool \<Rightarrow> maintenance \<Rightarrow> maintenance" where
  "site_armed admin g =
     (let g1 = g\<lparr>gr_armed := True\<rparr>
      in if admin then g1\<lparr>gr_dialog := True, gr_error := JStr armed_text\<rparr> else g1)"

definition armed_status :: "bool \<Rightarrow> bool \<Rightarrow> jsval \<Rightarrow> maintenance \<Rightarrow> maintenance" where
  "armed_status cancelled admin data g =
     (if \<not> cancelled \<and> truthy (fld data ''armed'') then site_armed admin g else g)"

definition create_session :: "maintenance \<Rightarrow> maintenance" where
  "create_session g = g\<lparr>gr_loading := True, gr_error := JStr []\<rparr>"

definition session_answered :: "jsval + jsval \<Rightarrow> maintenance \<Rightarrow> maintenance" where
  "session_answered resp g =
     (case resp of
        Inr data \<Rightarrow> g\<lparr>gr_dialog := False, gr_loading := False,
          gr_left_to := Some (''/tmp/'' @ js_string (fld data ''session_id''))\<rparr>
      | Inl message \<Rightarrow> g\<lparr>gr_error := message, gr_loading := False\<rparr>)"

definition close_grengo :: "maintenance \<Rightarrow> maintenance" where
  "close_grengo g = g\<lparr>gr_dialog := False, gr_error := JStr []\<rparr>"

text \<open>Nothing but an administrator's key or the state of the site opens the dialog.\<close>

lemma dialog_is_for_administrators:
  assumes "\<not> gr_dialog g"
  shows "\<not> gr_dialog (grengo_keydown False m k g)" "\<not> gr_dialog (site_armed False g)"
    "\<not> gr_dialog (armed_status c False d g)" "\<not> gr_dialog (create_session g)" "\<not> gr_dialog (session_answered r g)"
    "\<not> gr_dialog (close_grengo g)"
  using assms by (auto simp: grengo_keydown_def site_armed_def armed_status_def create_session_def
      session_answered_def close_grengo_def Let_def split: sum.split)

section \<open>Unsaved changes\<close>

record link_click =
  lc_plain :: bool
  lc_anchor :: bool
  lc_blank :: bool
  lc_download :: bool
  lc_same_origin :: bool
  lc_path :: string

text \<open>
  \<open>useDirtyNavigationGuard\<close>: \<open>lc_plain\<close> is the main button without modifiers on an event nobody has
  handled. The guard asks, and follows the link when the user discards the changes.
\<close>

definition guard_asks :: "bool \<Rightarrow> link_click \<Rightarrow> bool" where
  "guard_asks active c =
     (active \<and> lc_plain c \<and> lc_anchor c \<and> \<not> lc_blank c \<and> \<not> lc_download c \<and> lc_same_origin c)"

definition follow_link :: "bool \<Rightarrow> link_click \<Rightarrow> bool \<Rightarrow> string option" where
  "follow_link active c confirmed = (if guard_asks active c \<and> \<not> confirmed then None else Some (lc_path c))"

section \<open>The home page\<close>

record homepage =
  hp_slug :: string
  hp_setting :: "int option"

definition start_set_homepage :: "int \<Rightarrow> string \<Rightarrow> homepage \<Rightarrow> homepage" where
  "start_set_homepage i slug h = (if i = 0 \<or> slug = hp_slug h then h else h\<lparr>hp_setting := Some i\<rparr>)"

definition homepage_answered :: "bool \<Rightarrow> string \<Rightarrow> homepage \<Rightarrow> homepage" where
  "homepage_answered ok slug h = (if ok then h\<lparr>hp_slug := slug, hp_setting := None\<rparr> else h\<lparr>hp_setting := None\<rparr>)"

section \<open>The store\<close>

text \<open>\<open>getProductMediaItems\<close> and the fields of a review that \<open>useProductRatings\<close> takes from the server's.\<close>

definition product_media_items :: "jsval \<Rightarrow> jsval list" where
  "product_media_items product =
     (case fld product ''media'' of
        JArr (m # ms) \<Rightarrow> m # ms
      | _ \<Rightarrow> (case fld product ''image_url'' of
            JStr (c # cs) \<Rightarrow>
              [JObj [(''url'', JStr (c # cs)),
                 (''filename'', js_or (JStr (last (split_at CHR ''/'' (c # cs)))) (fld product ''name'')),
                 (''mime_type'', JStr []), (''type'', JStr ''image''), (''size'', JNum 0),
                 (''created_at'', fld product ''created_at'')]]
          | _ \<Rightarrow> []))"

definition to_review :: "jsval \<Rightarrow> jsval" where
  "to_review r =
     JObj [(''id'', fld r ''id''), (''author_id'', js_or (fld (fld r ''user'') ''id'') (fld r ''user_id'')),
       (''author_name'', fld (fld r ''user'') ''display_name''), (''author_avatar'', fld (fld r ''user'') ''avatar_url''),
       (''author_username'', fld (fld r ''user'') ''username''), (''content'', fld r ''comment''),
       (''created_at'', fld r ''created_at''), (''rating'', fld r ''rating''), (''can_delete'', fld r ''can_delete'')]"

definition average_rating :: "jsval list \<Rightarrow> rat" where
  "average_rating reviews =
     (if reviews = [] then 0
      else of_int (\<Sum>r\<leftarrow>reviews. num_of (js_or (fld r ''rating'') (JNum 0))) / of_nat (length reviews))"

text \<open>The average lies between the ratings.\<close>

lemma average_between:
  assumes "\<forall>r \<in> set reviews. lo \<le> num_of (js_or (fld r ''rating'') (JNum 0)) \<and> num_of (js_or (fld r ''rating'') (JNum 0)) \<le> hi"
    and "reviews \<noteq> []"
  shows "of_int lo \<le> average_rating reviews \<and> average_rating reviews \<le> of_int hi"
proof -
  let ?s = "\<Sum>r\<leftarrow>reviews. num_of (js_or (fld r ''rating'') (JNum 0))" and ?n = "int (length reviews)"
  have "?n * lo \<le> ?s \<and> ?s \<le> ?n * hi"
    using assms(1) by (induction reviews) (auto simp: algebra_simps)
  then have "of_int (?n * lo) \<le> (of_int ?s :: rat)" "(of_int ?s :: rat) \<le> of_int (?n * hi)"
    by (simp_all only: of_int_le_iff)
  then show ?thesis using assms(2) by (simp add: average_rating_def field_simps)
qed

text \<open>A review without a rating counts as one of zero stars.\<close>

lemma unrated_review_counts_as_zero:
  "average_rating [JObj [(''rating'', JNum 4)], JObj [(''content'', JStr ''nice'')]] = 2"
  by (simp add: average_rating_def js_or_def)

end
