(* ===== verification/UploadsPage.thy ===== *)
theory UploadsPage
  imports JsText Complex_Main
begin

text \<open>
  \<open>components/user/UserUploads.tsx\<close>: the page of a user's uploads. How the list is fetched, searched and
  selected, and how one upload or all the checked ones are deleted while other requests are under way.
\<close>

section \<open>The page\<close>

text \<open>\<open>UserUpload\<close>; the uploads are told apart by their URL.\<close>

record owned_upload =
  ou_url :: string
  ou_filename :: string
  ou_type :: string
  ou_mime :: string

text \<open>The state the hooks of the component hold; a set is a list in the order of insertion.\<close>

record uploads_page =
  yp_uploads :: "owned_upload list"
  yp_loading :: bool
  yp_error :: "string option"
  yp_deleting :: "string list"
  yp_copied :: "string option"
  yp_selected :: "owned_upload option"
  yp_checked :: "string list"
  yp_anchor :: "string option"

definition new_uploads_page :: uploads_page where
  "new_uploads_page = \<lparr>yp_uploads = [], yp_loading = True, yp_error = None, yp_deleting = [], yp_copied = None,
     yp_selected = None, yp_checked = [], yp_anchor = None\<rparr>"

text \<open>\<open>String(currentUser?.id) === String(userId)\<close>: a missing id is the text \<open>undefined\<close>.\<close>

definition owns_uploads :: "string option \<Rightarrow> string option \<Rightarrow> bool" where
  "owns_uploads viewer owner =
     (let str = (\<lambda>v. case v of None \<Rightarrow> ''undefined'' | Some s \<Rightarrow> s) in str viewer = str owner)"

section \<open>Fetching\<close>

text \<open>
  \<open>fetchUploads\<close> up to its request: the uploads that were given are shown at once, and without a user nothing
  happens. The flag tells whether a request is sent.
\<close>

definition fetch_uploads :: "owned_upload list option \<Rightarrow> string option \<Rightarrow> uploads_page \<Rightarrow> uploads_page \<times> bool" where
  "fetch_uploads given user p =
     (case given of
        Some us \<Rightarrow> (p\<lparr>yp_uploads := us, yp_loading := False\<rparr>, False)
      | None \<Rightarrow> (case user of
            None \<Rightarrow> (p, False)
          | Some [] \<Rightarrow> (p, False)
          | Some _ \<Rightarrow> (p\<lparr>yp_loading := True\<rparr>, True)))"

text \<open>Its answer, a list (\<open>null\<close> is \<open>None\<close>) or the message of the failure, \<open>None\<close> when it is no error.\<close>

definition uploads_fetched :: "owned_upload list option \<Rightarrow> uploads_page \<Rightarrow> uploads_page" where
  "uploads_fetched data p =
     p\<lparr>yp_uploads := (case data of None \<Rightarrow> [] | Some us \<Rightarrow> us), yp_error := None, yp_loading := False\<rparr>"

definition uploads_fetch_failed :: "string option \<Rightarrow> uploads_page \<Rightarrow> uploads_page" where
  "uploads_fetch_failed message p =
     p\<lparr>yp_error := Some (case message of None \<Rightarrow> ''Failed to load uploads'' | Some m \<Rightarrow> m), yp_loading := False\<rparr>"

text \<open>
  \<open>handleFileUpload\<close>, once a file was picked: the list is fetched again when the upload is through, and the
  page stops loading without waiting for the answer.
\<close>

definition file_upload_begins :: "uploads_page \<Rightarrow> uploads_page" where
  "file_upload_begins p = p\<lparr>yp_loading := True\<rparr>"

definition file_uploaded :: "owned_upload list option \<Rightarrow> string option \<Rightarrow> uploads_page \<Rightarrow> uploads_page \<times> bool" where
  "file_uploaded given user p =
     (let (q, sent) = fetch_uploads given user p in (q\<lparr>yp_loading := False\<rparr>, sent))"

definition file_upload_failed :: "string \<Rightarrow> uploads_page \<Rightarrow> uploads_page" where
  "file_upload_failed message p =
     p\<lparr>yp_error := Some (if message = [] then ''Failed to upload file'' else message), yp_loading := False\<rparr>"

section \<open>Searching and selecting\<close>

definition filtered_uploads :: "string option \<Rightarrow> owned_upload list \<Rightarrow> owned_upload list" where
  "filtered_uploads search us =
     (case search of
        None \<Rightarrow> us
      | Some [] \<Rightarrow> us
      | Some s \<Rightarrow> filter (\<lambda>u. str_includes (to_lower (ou_filename u)) (to_lower s)) us)"

text \<open>\<open>indexOf\<close>, and the loop that adds the URLs from one index to another.\<close>

fun url_index :: "string \<Rightarrow> string list \<Rightarrow> nat option" where
  "url_index x [] = None"
| "url_index x (y # ys) = (if y = x then Some 0 else map_option Suc (url_index x ys))"

definition check_range :: "nat \<Rightarrow> nat \<Rightarrow> string list \<Rightarrow> string list \<Rightarrow> string list" where
  "check_range from_idx to_idx urls = fold set_add (map (\<lambda>i. urls ! i) [from_idx ..< Suc to_idx])"

text \<open>
  \<open>handleSelect\<close>: with the shift key the uploads between the last one clicked and this one are added, when
  both are shown; in every other case this one is toggled.
\<close>

definition handle_select :: "string option \<Rightarrow> bool \<Rightarrow> string \<Rightarrow> uploads_page \<Rightarrow> uploads_page" where
  "handle_select search is_shift url p =
     (case (is_shift, yp_anchor p) of
        (True, Some (a # as)) \<Rightarrow>
          (let all_urls = map ou_url (filtered_uploads search (yp_uploads p))
           in case (url_index (a # as) all_urls, url_index url all_urls) of
                (Some i, Some j) \<Rightarrow> p\<lparr>yp_checked := check_range (min i j) (max i j) all_urls (yp_checked p)\<rparr>
              | _ \<Rightarrow> p)
      | _ \<Rightarrow> p\<lparr>yp_checked := (if url \<in> set (yp_checked p) then set_delete url (yp_checked p)
                               else set_add url (yp_checked p)),
               yp_anchor := Some url\<rparr>)"

definition all_checked :: "string option \<Rightarrow> uploads_page \<Rightarrow> bool" where
  "all_checked search p =
     (let shown = filtered_uploads search (yp_uploads p)
      in length (yp_checked p) = length shown \<and> 0 < length shown)"

definition toggle_select_all :: "string option \<Rightarrow> uploads_page \<Rightarrow> uploads_page" where
  "toggle_select_all search p =
     p\<lparr>yp_checked := (if all_checked search p then []
        else fold set_add (map ou_url (filtered_uploads search (yp_uploads p))) [])\<rparr>"

text \<open>The click on a card of the grid and on a row of the list; a modifier key makes it a selection.\<close>

definition card_clicked :: "string option \<Rightarrow> bool \<Rightarrow> bool \<Rightarrow> owned_upload \<Rightarrow> uploads_page \<Rightarrow> uploads_page" where
  "card_clicked search is_ctrl is_shift u p =
     (if is_ctrl \<or> is_shift then handle_select search is_shift (ou_url u) p
      else p\<lparr>yp_selected := (if map_option ou_url (yp_selected p) = Some (ou_url u) then None else Some u)\<rparr>)"

definition row_clicked :: "string option \<Rightarrow> bool \<Rightarrow> bool \<Rightarrow> owned_upload \<Rightarrow> uploads_page \<Rightarrow> uploads_page" where
  "row_clicked search is_ctrl is_shift u p =
     (if is_ctrl \<or> is_shift then handle_select search is_shift (ou_url u) p
      else p\<lparr>yp_selected := Some u\<rparr>)"

text \<open>\<open>handleCopyUrl\<close> once the clipboard took the address, and its timer.\<close>

definition url_copied :: "string \<Rightarrow> uploads_page \<Rightarrow> uploads_page" where
  "url_copied url p = p\<lparr>yp_copied := Some url\<rparr>"

definition copied_timer :: "uploads_page \<Rightarrow> uploads_page" where
  "copied_timer p = p\<lparr>yp_copied := None\<rparr>"

section \<open>The preview\<close>

definition is_image :: "owned_upload \<Rightarrow> bool" where
  "is_image u = (starts_with ''image/'' (ou_mime u) \<or> ou_type u \<in> {''images'', ''photos'', ''banners''})"

definition is_video :: "owned_upload \<Rightarrow> bool" where
  "is_video u = (starts_with ''video/'' (ou_mime u) \<or> ou_type u = ''videos'')"

definition get_type_label :: "string \<Rightarrow> string" where
  "get_type_label ty =
     (if ty = ''images'' then ''Image'' else if ty = ''photos'' then ''Avatar''
      else if ty = ''banners'' then ''Banner'' else if ty = ''videos'' then ''Video''
      else if ty = ''files'' then ''File'' else ty)"

definition preview_items :: "string option \<Rightarrow> uploads_page \<Rightarrow> owned_upload list" where
  "preview_items search p = filter (\<lambda>u. is_image u \<or> is_video u) (filtered_uploads search (yp_uploads p))"

text \<open>The index the lightbox opens at; \<open>Math.max(0, -1)\<close> is the first item. It is open only over an upload.\<close>

definition preview_index :: "string option \<Rightarrow> uploads_page \<Rightarrow> nat option" where
  "preview_index search p =
     (case yp_selected p of
        None \<Rightarrow> None
      | Some u \<Rightarrow> if is_image u \<or> is_video u
          then Some (case url_index (ou_url u) (map ou_url (preview_items search p)) of None \<Rightarrow> 0 | Some i \<Rightarrow> i)
          else None)"

definition preview_moved :: "string option \<Rightarrow> nat \<Rightarrow> uploads_page \<Rightarrow> uploads_page" where
  "preview_moved search i p =
     (let items = preview_items search p in p\<lparr>yp_selected := (if i < length items then Some (items ! i) else None)\<rparr>)"

definition preview_closed :: "uploads_page \<Rightarrow> uploads_page" where
  "preview_closed p = p\<lparr>yp_selected := None\<rparr>"

section \<open>The storage bar\<close>

record storage_info =
  si_limit :: rat
  si_percent :: rat

definition storage_bar_class :: "rat \<Rightarrow> string" where
  "storage_bar_class pct =
     (if 80 \<le> pct then ''up-storage-bar-fill up-storage-danger''
      else if 50 \<le> pct then ''up-storage-bar-fill up-storage-warning''
      else ''up-storage-bar-fill up-storage-ok'')"

text \<open>The class, the width and the warning of the bar.\<close>

definition storage_bar :: "storage_info option \<Rightarrow> (string \<times> rat \<times> string option) option" where
  "storage_bar info =
     (case info of
        None \<Rightarrow> None
      | Some i \<Rightarrow> if si_limit i \<le> 0 then None
          else Some (storage_bar_class (si_percent i), min (si_percent i) 100,
            if 80 \<le> si_percent i
            then Some (if 95 \<le> si_percent i then ''Upload quota nearly full!'' else ''Approaching upload limit'')
            else None))"

section \<open>Deleting\<close>

text \<open>
  A request under way: \<open>handleDelete\<close> with its URL or \<open>handleMultiDelete\<close> with those that were checked,
  each with the preview its closure saw.
\<close>

datatype upload_deletion =
  DeleteOne string "owned_upload option"
| DeleteMany "string list" "owned_upload option"

fun deletion_urls :: "upload_deletion \<Rightarrow> string list" where
  "deletion_urls (DeleteOne url _) = [url]"
| "deletion_urls (DeleteMany urls _) = urls"

text \<open>The parts of the two handlers: after the confirmation, after the answer and, with either answer, at the end.\<close>

definition deletion_asked :: "upload_deletion \<Rightarrow> uploads_page \<Rightarrow> uploads_page" where
  "deletion_asked d p = p\<lparr>yp_deleting := fold set_add (deletion_urls d) (yp_deleting p)\<rparr>"

definition deletion_settled :: "upload_deletion \<Rightarrow> uploads_page \<Rightarrow> uploads_page" where
  "deletion_settled d p = p\<lparr>yp_deleting := fold set_delete (deletion_urls d) (yp_deleting p)\<rparr>"

definition close_if :: "bool \<Rightarrow> uploads_page \<Rightarrow> uploads_page" where
  "close_if b p = (if b then p\<lparr>yp_selected := None\<rparr> else p)"

fun deletion_done :: "upload_deletion \<Rightarrow> uploads_page \<Rightarrow> uploads_page" where
  "deletion_done (DeleteOne url seen) p =
     (let q = p\<lparr>yp_uploads := filter (\<lambda>u. ou_url u \<noteq> url) (yp_uploads p)\<rparr>;
          r = close_if (map_option ou_url seen = Some url) q
      in deletion_settled (DeleteOne url seen) (r\<lparr>yp_checked := set_delete url (yp_checked r)\<rparr>))"
| "deletion_done (DeleteMany urls seen) p =
     (let q = p\<lparr>yp_uploads := filter (\<lambda>u. ou_url u \<notin> set urls) (yp_uploads p)\<rparr>;
          r = close_if (case seen of None \<Rightarrow> False | Some u \<Rightarrow> ou_url u \<in> set urls) q
      in deletion_settled (DeleteMany urls seen) (r\<lparr>yp_checked := []\<rparr>))"

definition deletion_failed :: "upload_deletion \<Rightarrow> uploads_page \<Rightarrow> uploads_page" where
  "deletion_failed d p = deletion_settled d p"

text \<open>What is asked before the request of \<open>handleMultiDelete\<close>, and the word to type for ten uploads or more.\<close>

definition multi_delete_prompt :: "uploads_page \<Rightarrow> (nat \<times> string option) option" where
  "multi_delete_prompt p =
     (let n = length (yp_checked p)
      in if n = 0 then None else Some (n, if 10 \<le> n then Some ''DELETE'' else None))"

text \<open>The page and its requests under way; what is confirmed may have been chosen in an earlier state of the page.\<close>

inductive uploads_step :: "uploads_page \<times> upload_deletion list \<Rightarrow> uploads_page \<times> upload_deletion list \<Rightarrow> bool" where
  asked: "deletion_urls d \<noteq> [] \<Longrightarrow> uploads_step (p, ds) (deletion_asked d p, ds @ [d])"
| answered: "d \<in> set ds \<Longrightarrow> uploads_step (p, ds) (deletion_done d p, remove1 d ds)"
| refused: "d \<in> set ds \<Longrightarrow> uploads_step (p, ds) (deletion_failed d p, remove1 d ds)"
| fetching: "uploads_step (p, ds) (fst (fetch_uploads given user p), ds)"
| fetched: "uploads_step (p, ds) (uploads_fetched data p, ds)"
| fetch_refused: "uploads_step (p, ds) (uploads_fetch_failed message p, ds)"
| picked: "uploads_step (p, ds) (handle_select search is_shift url p, ds)"
| picked_all: "uploads_step (p, ds) (toggle_select_all search p, ds)"

section \<open>Selection\<close>

lemma url_index_Some: "url_index x ys = Some i \<Longrightarrow> i < length ys \<and> ys ! i = x"
  by (induction ys arbitrary: i) (auto split: if_splits)

lemma url_index_None: "url_index x ys = None \<longleftrightarrow> x \<notin> set ys"
  by (induction ys) auto

lemma set_check_range: "set (check_range i j urls ys) = {urls ! k |k. i \<le> k \<and> k \<le> j} \<union> set ys"
  by (auto simp: check_range_def image_iff)

lemma distinct_check_range [simp]: "distinct (check_range i j urls ys) = distinct ys"
  by (simp add: check_range_def)

lemma select_keeps_others [simp]:
  "yp_deleting (handle_select search is_shift url p) = yp_deleting p"
  "yp_uploads (handle_select search is_shift url p) = yp_uploads p"
  "yp_deleting (toggle_select_all search p) = yp_deleting p"
  by (auto simp: handle_select_def toggle_select_all_def Let_def split: bool.split option.split list.split)

lemma fetch_keeps_marks [simp]:
  "yp_deleting (fst (fetch_uploads given user p)) = yp_deleting p"
  "yp_checked (fst (fetch_uploads given user p)) = yp_checked p"
  "yp_deleting (uploads_fetched data p) = yp_deleting p"
  "yp_checked (uploads_fetched data p) = yp_checked p"
  "yp_deleting (uploads_fetch_failed message p) = yp_deleting p"
  "yp_checked (uploads_fetch_failed message p) = yp_checked p"
  by (auto simp: fetch_uploads_def uploads_fetched_def uploads_fetch_failed_def split: option.split list.split)

lemma select_distinct: "distinct (yp_checked p) \<Longrightarrow> distinct (yp_checked (handle_select search is_shift url p))"
  by (auto simp: handle_select_def Let_def distinct_set_delete split: bool.split option.split list.split)

lemma select_all_distinct: "distinct (yp_checked (toggle_select_all search p))"
  by (simp add: toggle_select_all_def)

text \<open>
  With the shift key, from an upload that is shown to another one that is shown, every upload between the
  two, both included, is checked and nothing is unchecked, in whichever direction the click went.
\<close>

theorem shift_checks_the_range:
  assumes "yp_anchor p = Some a" "a \<noteq> []"
    and "url_index a (map ou_url (filtered_uploads search (yp_uploads p))) = Some i"
    and "url_index url (map ou_url (filtered_uploads search (yp_uploads p))) = Some j"
  shows "set (yp_checked (handle_select search True url p)) =
           set (yp_checked p) \<union>
           {map ou_url (filtered_uploads search (yp_uploads p)) ! k |k. min i j \<le> k \<and> k \<le> max i j}"
    and "a \<in> set (yp_checked (handle_select search True url p))"
    and "url \<in> set (yp_checked (handle_select search True url p))"
proof -
  obtain c cs where a: "a = c # cs" using assms(2) by (cases a) auto
  show main: "set (yp_checked (handle_select search True url p)) =
           set (yp_checked p) \<union>
           {map ou_url (filtered_uploads search (yp_uploads p)) ! k |k. min i j \<le> k \<and> k \<le> max i j}"
    using assms unfolding a by (auto simp: handle_select_def Let_def set_check_range)
  show "a \<in> set (yp_checked (handle_select search True url p))"
    using url_index_Some [OF assms(3)] unfolding main by (auto intro!: exI [of _ i])
  show "url \<in> set (yp_checked (handle_select search True url p))"
    using url_index_Some [OF assms(4)] unfolding main by (auto intro!: exI [of _ j])
qed

definition three_uploads :: uploads_page where
  "three_uploads = new_uploads_page\<lparr>
     yp_uploads := map (\<lambda>n. \<lparr>ou_url = n, ou_filename = n @ ''.png'', ou_type = ''images'', ou_mime = ''image/png''\<rparr>)
       [''a'', ''b'', ''c''],
     yp_anchor := Some ''c''\<rparr>"

lemma shift_checks_the_range_witness:
  "set (yp_checked (handle_select None True ''a'' three_uploads)) = {''a'', ''b'', ''c''}"
proof -
  have i: "url_index ''c'' (map ou_url (filtered_uploads None (yp_uploads three_uploads))) = Some 2"
    and j: "url_index ''a'' (map ou_url (filtered_uploads None (yp_uploads three_uploads))) = Some 0"
    and u: "map ou_url (filtered_uploads None (yp_uploads three_uploads)) = [''a'', ''b'', ''c'']"
    and e: "yp_checked three_uploads = []" and a: "yp_anchor three_uploads = Some ''c''"
    by code_simp+
  have k: "{[''a'', ''b'', ''c''] ! k |k. k \<le> 2} = {''a'', ''b'', ''c''}"
  proof -
    have "{[''a'', ''b'', ''c''] ! k |k. k \<le> 2} = (\<lambda>k. [''a'', ''b'', ''c''] ! k) ` {..2}" by auto
    also have "{..2} = {0, 1, 2 :: nat}" by auto
    finally show ?thesis by simp
  qed
  show ?thesis using shift_checks_the_range(1) [OF a _ i j] by (simp add: u e k)
qed

text \<open>A second click without the shift key takes the first one back.\<close>

lemma select_twice:
  assumes "distinct (yp_checked p)"
  shows "set (yp_checked (handle_select search False url (handle_select search False url p))) = set (yp_checked p)"
  by (auto simp: handle_select_def split: option.split)

text \<open>The preview opens at the upload that was selected whenever that one is among the items.\<close>

lemma preview_shows_selected:
  assumes "yp_selected p = Some u" "u \<in> set (preview_items search p)"
  shows "\<exists>i. preview_index search p = Some i \<and> i < length (preview_items search p) \<and>
           ou_url (preview_items search p ! i) = ou_url u"
proof -
  have media: "is_image u \<or> is_video u" using assms(2) by (auto simp: preview_items_def)
  have "ou_url u \<in> set (map ou_url (preview_items search p))" using assms(2) by auto
  then obtain i where i: "url_index (ou_url u) (map ou_url (preview_items search p)) = Some i"
    using url_index_None by fastforce
  show ?thesis using url_index_Some [OF i] i media assms(1) by (auto simp: preview_index_def)
qed

text \<open>
  The box for all the uploads compares numbers: one checked upload that the search hides counts for the one
  that is shown, so that the click on it clears the selection and checks nothing.
\<close>

lemma hidden_upload_counts_as_shown:
  "let p = three_uploads\<lparr>yp_checked := [''a'']\<rparr> in
     map ou_url (filtered_uploads (Some ''B'') (yp_uploads p)) = [''b''] \<and> all_checked (Some ''B'') p \<and>
     yp_checked (toggle_select_all (Some ''B'') p) = []"
  by code_simp

text \<open>Without a visitor and without a user the page is taken for the visitor's own.\<close>

lemma nobody_owns_nobodys_uploads: "owns_uploads None None"
  by code_simp

text \<open>The answers are not told apart: the one that comes last is shown, whichever user it was asked for.\<close>

lemma late_answer_shown:
  "yp_uploads (uploads_fetched (Some older) (uploads_fetched (Some newer) p)) = older"
  by (simp add: uploads_fetched_def)

section \<open>Deletion\<close>

lemma deletion_done_facts:
  "yp_deleting (deletion_done d p) = fold set_delete (deletion_urls d) (yp_deleting p)"
  "yp_uploads (deletion_done d p) = filter (\<lambda>u. ou_url u \<notin> set (deletion_urls d)) (yp_uploads p)"
  "set (yp_checked (deletion_done d p)) \<subseteq> set (yp_checked p) - set (deletion_urls d)"
  "distinct (yp_checked p) \<Longrightarrow> distinct (yp_checked (deletion_done d p))"
  by (cases d; simp add: Let_def close_if_def deletion_settled_def distinct_set_delete)+

lemma deletion_failed_facts [simp]:
  "yp_deleting (deletion_failed d p) = fold set_delete (deletion_urls d) (yp_deleting p)"
  "yp_uploads (deletion_failed d p) = yp_uploads p" "yp_checked (deletion_failed d p) = yp_checked p"
  "yp_deleting (deletion_asked d p) = fold set_add (deletion_urls d) (yp_deleting p)"
  "yp_checked (deletion_asked d p) = yp_checked p"
  by (simp_all add: deletion_failed_def deletion_settled_def deletion_asked_def)

text \<open>What was deleted is neither listed nor checked nor shown as being deleted.\<close>

lemma deleted_leaves_nothing:
  assumes "url \<in> set (deletion_urls d)"
  shows "url \<notin> ou_url ` set (yp_uploads (deletion_done d p))"
    and "url \<notin> set (yp_checked (deletion_done d p))"
    and "url \<notin> set (yp_deleting (deletion_done d p))"
  using assms deletion_done_facts [where p = p and d = d] by auto

definition deletions_inv :: "uploads_page \<times> upload_deletion list \<Rightarrow> bool" where
  "deletions_inv = (\<lambda>(p, ds). set (yp_deleting p) \<subseteq> (\<Union>d \<in> set ds. set (deletion_urls d)) \<and> distinct (yp_checked p))"

lemma settled_marks:
  assumes "set xs \<subseteq> (\<Union>d \<in> set ds. set (deletion_urls d))"
  shows "set (fold set_delete (deletion_urls d) xs) \<subseteq> (\<Union>d \<in> set (remove1 d ds). set (deletion_urls d))"
proof
  fix x assume x: "x \<in> set (fold set_delete (deletion_urls d) xs)"
  then obtain e where e: "e \<in> set ds" "x \<in> set (deletion_urls e)" using assms by auto
  moreover have "e \<noteq> d" using x e(2) by auto
  ultimately show "x \<in> (\<Union>d \<in> set (remove1 d ds). set (deletion_urls d))"
    by (metis UN_I in_set_remove1)
qed

lemma deletions_inv_step: "uploads_step s t \<Longrightarrow> deletions_inv s \<Longrightarrow> deletions_inv t"
proof (induction rule: uploads_step.induct)
  case (answered d ds p)
  then show ?case using settled_marks [of "yp_deleting p" ds d] deletion_done_facts(1,4) [where d = d and p = p]
    by (simp add: deletions_inv_def)
next
  case (refused d ds p)
  then show ?case using settled_marks [of "yp_deleting p" ds d] by (simp add: deletions_inv_def)
qed (auto simp: deletions_inv_def select_distinct select_all_distinct)

lemma deletions_inv_reachable: "uploads_step\<^sup>*\<^sup>* s t \<Longrightarrow> deletions_inv s \<Longrightarrow> deletions_inv t"
  by (induction rule: rtranclp_induct) (auto intro: deletions_inv_step)



text \<open>
  The converse fails when two requests delete the same upload, one alone and one among the checked: the first
  answer takes the mark of the second one as well.
\<close>

lemma overlapping_deletion_unmarked:
  "let p = deletion_failed (DeleteOne ''a'' None)
             (deletion_asked (DeleteMany [''a'', ''b''] None) (deletion_asked (DeleteOne ''a'' None) new_uploads_page))
   in yp_deleting p = [''b'']"
  by code_simp

text \<open>
  What was checked while the checked ones were being deleted is unchecked with them; the deletion of one
  upload leaves the others checked.
\<close>

lemma late_check_is_lost: "yp_checked (deletion_done (DeleteMany urls seen) p) = []"
  by (simp add: Let_def deletion_settled_def)

lemma other_check_kept:
  "x \<noteq> url \<Longrightarrow> x \<in> set (yp_checked (deletion_done (DeleteOne url seen) p)) \<longleftrightarrow> x \<in> set (yp_checked p)"
  by (simp add: Let_def deletion_settled_def close_if_def)

end
