(* ===== verification/ClipExport.thy ===== *)
theory ClipExport
  imports ClientTools
begin

text \<open>
  \<open>pages/clipmaker\<close>: how a clip is exported. The tracks of sound that are mixed, the stream of frames that is sent
  to the server and how it is read back, the attempts of the request, the player that is sought frame by frame,
  and the button of the studio that is kept in step. The player, the canvas and the network are parameters; numbers
  are exact, and \<open>NaN\<close> is \<open>None\<close>.
\<close>

section \<open>The sound of a project\<close>

text \<open>
  A number of the project: a number, a text that \<open>Number\<close> reads as one, or anything else. The properties of an
  element that may be missing are options; \<open>clip_muted\<close> says that \<open>props.play\<close> is \<open>false\<close>.
\<close>

datatype clip_number = Numeric rat | NumericText rat | NotNumeric

fun number_of :: "clip_number \<Rightarrow> rat option" where
  "number_of (Numeric r) = Some r"
| "number_of (NumericText r) = Some r"
| "number_of NotNumeric = None"

record clip_element =
  clip_type :: string
  clip_start :: clip_number
  clip_end :: clip_number
  clip_muted :: bool
  clip_src :: "string option"
  clip_time :: "clip_number option"
  clip_rate :: "clip_number option"
  clip_volume :: "clip_number option"

text \<open>A project with its \<open>input\<close> and its own tracks; tracks that are no array are \<open>None\<close>.\<close>

record clip_project =
  cp_input :: "clip_element list list option option"
  cp_tracks :: "clip_element list list option"

definition project_elements :: "clip_project \<Rightarrow> clip_element list" where
  "project_elements p =
     (let tracks = (case cp_input p of Some ts \<Rightarrow> ts | None \<Rightarrow> cp_tracks p)
      in concat (case tracks of Some ts \<Rightarrow> ts | None \<Rightarrow> []))"

definition project_duration_seconds :: "clip_project \<Rightarrow> rat" where
  "project_duration_seconds p =
     fold (\<lambda>e duration. max duration (case clip_end e of Numeric r \<Rightarrow> r | _ \<Rightarrow> 0)) (project_elements p) 0"

record project_audio_track =
  at_src :: string
  at_start :: rat
  at_end :: rat
  at_trim :: rat
  at_rate :: rat
  at_volume :: rat

definition number_within :: "(rat \<Rightarrow> bool) \<Rightarrow> rat \<Rightarrow> rat \<Rightarrow> clip_number option \<Rightarrow> rat" where
  "number_within ok missing otherwise v =
     (case v of
        None \<Rightarrow> if ok missing then missing else otherwise
      | Some n \<Rightarrow> (case number_of n of Some r \<Rightarrow> if ok r then r else otherwise | None \<Rightarrow> otherwise))"

definition audio_track_of :: "rat \<Rightarrow> clip_element \<Rightarrow> project_audio_track option" where
  "audio_track_of duration e =
     (if clip_type e \<noteq> ''audio'' \<and> clip_type e \<noteq> ''video'' then None
      else if clip_muted e then None
      else (let src = (case clip_src e of Some s \<Rightarrow> js_trim s | None \<Rightarrow> []) in
        case (number_of (clip_start e), number_of (clip_end e)) of
          (Some s, Some t) \<Rightarrow>
            if src = [] \<or> s < 0 \<or> min t duration \<le> s then None
            else Some \<lparr>at_src = src, at_start = s, at_end = min t duration,
              at_trim = number_within (\<lambda>r. 0 \<le> r) 0 0 (clip_time e),
              at_rate = number_within (\<lambda>r. 1 / 4 \<le> r \<and> r \<le> 4) 1 1 (clip_rate e),
              at_volume = number_within (\<lambda>r. 0 \<le> r \<and> r \<le> 4) 1 1 (clip_volume e)\<rparr>
        | _ \<Rightarrow> None))"

definition project_audio_tracks :: "clip_project option \<Rightarrow> rat \<Rightarrow> project_audio_track list" where
  "project_audio_tracks project duration =
     (case project of
        None \<Rightarrow> []
      | Some p \<Rightarrow> take 32 (List.map_filter (audio_track_of duration) (project_elements p)))"

section \<open>Requests that carry the token\<close>

definition export_auth_headers :: "(string, string) jsmap \<Rightarrow> (string \<times> string) list" where
  "export_auth_headers st =
     (let quoted_text = (\<lambda>t. t \<noteq> [] \<and> hd t = CHR 0x22 \<and> List.last t = CHR 0x22);
          token = map_option (\<lambda>t. if quoted_text t then butlast (tl t) else t) (map_get st ''auth.accessToken'')
      in case token of Some (c # cs) \<Rightarrow> [(''Authorization'', ''Bearer '' @ c # cs)] | _ \<Rightarrow> [])"

text \<open>\<open>fetchAudioSource\<close>: \<open>origin_of\<close> gives the origin of an address seen from the page, whose origin is \<open>page_origin\<close>.\<close>

definition audio_source_headers ::
  "(string \<Rightarrow> string) \<Rightarrow> string \<Rightarrow> (string, string) jsmap \<Rightarrow> string \<Rightarrow> string \<Rightarrow> (string \<times> string) list" where
  "audio_source_headers origin_of page_origin st src api_base_url =
     (if origin_of src = origin_of (if api_base_url = [] then page_origin else api_base_url)
      then export_auth_headers st else [])"

section \<open>The stream of frames\<close>

text \<open>
  The lines of JSON and what follows them, octet by octet; a line with the line feed that ends it is one symbol.
  The sound of a track is announced with its times.
\<close>

record stream_meta =
  sm_filename :: string
  sm_fps :: rat
  sm_width :: int
  sm_height :: int
  sm_duration :: rat
  sm_total_frames :: nat
  sm_audio_tracks :: nat

datatype stream_line =
  MetaLine stream_meta
| FrameLine nat rat string nat
| AudioLine nat project_audio_track string nat

datatype stream_symbol = Header stream_line | Octet nat

definition line_feed :: stream_symbol where
  "line_feed = Octet 10"

definition enqueue_data :: "stream_line \<Rightarrow> nat list \<Rightarrow> stream_symbol list" where
  "enqueue_data line bytes = Header line # List.map Octet bytes @ [line_feed]"

datatype export_error = ExportCancelled | ExportFailed string

text \<open>
  What the writing meets: whether the signal is aborted when a frame or a track begins, how the frame is rendered and
  captured, and how the sound is fetched, a blob being its type and its octets; \<open>None\<close> is an answer that is not ok.
\<close>

type_synonym blob = "string \<times> nat list"

record export_env =
  xe_frame_aborted :: "nat \<Rightarrow> bool"
  xe_render :: "nat \<Rightarrow> rat \<Rightarrow> export_error option"
  xe_capture :: "nat \<Rightarrow> export_error + blob"
  xe_audio_aborted :: "nat \<Rightarrow> bool"
  xe_audio :: "nat \<Rightarrow> string \<Rightarrow> export_error + blob option"

definition total_frames :: "rat \<Rightarrow> rat \<Rightarrow> nat" where
  "total_frames fps duration = nat (max 1 \<lceil>duration * fps\<rceil>)"

definition frame_time :: "rat \<Rightarrow> rat \<Rightarrow> nat \<Rightarrow> rat" where
  "frame_time fps duration i = min (of_nat i / fps) duration"

definition blob_type :: "string \<Rightarrow> blob \<Rightarrow> string" where
  "blob_type otherwise b = (if fst b = [] then otherwise else fst b)"

fun write_frames :: "export_env \<Rightarrow> rat \<Rightarrow> rat \<Rightarrow> nat \<Rightarrow> nat \<Rightarrow> stream_symbol list \<times> export_error option" where
  "write_frames env fps duration i 0 = ([], None)"
| "write_frames env fps duration i (Suc n) =
     (if xe_frame_aborted env i then ([], Some ExportCancelled)
      else case xe_render env i (frame_time fps duration i) of
        Some e \<Rightarrow> ([], Some e)
      | None \<Rightarrow> (case xe_capture env i of
          Inl e \<Rightarrow> ([], Some e)
        | Inr b \<Rightarrow>
            (let (rest, e) = write_frames env fps duration (Suc i) n
             in (enqueue_data (FrameLine i (frame_time fps duration i) (blob_type ''image/png'' b) (length (snd b)))
                   (snd b) @ rest, e))))"

fun write_audio :: "export_env \<Rightarrow> nat \<Rightarrow> project_audio_track list \<Rightarrow> stream_symbol list \<times> export_error option" where
  "write_audio env i [] = ([], None)"
| "write_audio env i (t # ts) =
     (if xe_audio_aborted env i then ([], Some ExportCancelled)
      else case xe_audio env i (at_src t) of
        Inl e \<Rightarrow> ([], Some e)
      | Inr None \<Rightarrow> ([], Some (ExportFailed (''Could not load audio track '' @ dec_int (int i + 1))))
      | Inr (Some b) \<Rightarrow>
          (let (rest, e) = write_audio env (Suc i) ts
           in (enqueue_data (AudioLine i t (blob_type ''application/octet-stream'' b) (length (snd b))) (snd b) @ rest, e)))"

text \<open>The options of the export that \<open>writeFrameStream\<close> closes over.\<close>

record export_options =
  xo_filename :: string
  xo_fps :: rat
  xo_duration :: rat
  xo_width :: int
  xo_height :: int
  xo_project :: "clip_project option"

definition export_meta :: "export_options \<Rightarrow> stream_meta" where
  "export_meta opts = \<lparr>sm_filename = xo_filename opts, sm_fps = xo_fps opts, sm_width = xo_width opts, sm_height = xo_height opts,
     sm_duration = xo_duration opts, sm_total_frames = total_frames (xo_fps opts) (xo_duration opts),
     sm_audio_tracks = length (project_audio_tracks (xo_project opts) (xo_duration opts))\<rparr>"

definition write_frame_stream :: "export_env \<Rightarrow> export_options \<Rightarrow> stream_symbol list \<times> export_error option" where
  "write_frame_stream env opts =
     (let (frames, e) = write_frames env (xo_fps opts) (xo_duration opts) 0 (total_frames (xo_fps opts) (xo_duration opts));
          (sounds, e') = write_audio env 0 (project_audio_tracks (xo_project opts) (xo_duration opts))
      in (case e of
            Some _ \<Rightarrow> (Header (MetaLine (export_meta opts)) # frames, e)
          | None \<Rightarrow> (Header (MetaLine (export_meta opts)) # frames @ sounds, e')))"

section \<open>The attempts\<close>

text \<open>
  \<open>streamFrameExport\<close>: the answer to the streaming request; when that is rejected while nothing is cancelled,
  everything is written once more and sent as a whole.
\<close>

record export_response =
  er_status :: int
  er_json :: "jsval option"

datatype fetch_result = Refused export_error | Responded export_response

definition response_message :: "export_response \<Rightarrow> string" where
  "response_message r =
     (let http = ''HTTP '' @ dec_int (er_status r)
      in case er_json r of
           None \<Rightarrow> http
         | Some data \<Rightarrow> js_string (js_or (js_or (fld data ''error'') (fld data ''message'')) (JStr http)))"

definition finish_export :: "fetch_result \<Rightarrow> export_error + jsval" where
  "finish_export f =
     (case f of
        Refused e \<Rightarrow> Inl e
      | Responded r \<Rightarrow>
          if er_status r < 200 \<or> 299 < er_status r then Inl (ExportFailed (response_message r))
          else (case er_json r of Some v \<Rightarrow> Inr v | None \<Rightarrow> Inl (ExportFailed ''invalid JSON'')))"

definition stream_frame_export ::
  "fetch_result \<Rightarrow> bool \<Rightarrow> export_env \<Rightarrow> export_options \<Rightarrow> (stream_symbol list \<Rightarrow> fetch_result) \<Rightarrow> export_error + jsval" where
  "stream_frame_export streamed is_aborted env opts post_buffered =
     (case streamed of
        Responded r \<Rightarrow> finish_export streamed
      | Refused e \<Rightarrow>
          if is_aborted then Inl e
          else (case write_frame_stream env opts of
              (chunks, Some e') \<Rightarrow> Inl e'
            | (chunks, None) \<Rightarrow> finish_export (post_buffered chunks)))"

text \<open>
  \<open>exportVideo\<close>: what it does to the player, to its own state and to the messages, in this order, and what it
  returns. Its parts are the results of the capture, the upload and the download.
\<close>

datatype export_effect =
  SetExporting bool
| SetProgress string
| BeginPreview
| EndPreview
| ToastSuccess string
| ToastInfo string
| ToastError string

record export_upload =
  eu_saved :: bool
  eu_url :: "string option"
  eu_download_url :: "string option"
  eu_filename :: string

record export_result =
  xr_status :: bool
  xr_message :: string
  xr_url :: "string option"
  xr_filename :: "string option"

definition failure_message :: "export_error \<Rightarrow> string" where
  "failure_message e =
     (case e of
        ExportCancelled \<Rightarrow> ''Export timed out. Please try a shorter clip or try again.''
      | ExportFailed m \<Rightarrow> if m = [] then ''Export failed'' else m)"

definition given_text :: "string option \<Rightarrow> bool" where
  "given_text t = (t \<noteq> None \<and> t \<noteq> Some [])"

text \<open>What runs inside of \<open>try\<close>: the effects, and the result or the error that is caught.\<close>

definition export_steps ::
  "export_error option \<Rightarrow> export_error + export_upload \<Rightarrow> export_error option \<Rightarrow> export_effect list \<times> (export_error + export_result)" where
  "export_steps capture upload download =
     (let begun = [BeginPreview, SetProgress ''Streaming frames...'']
      in case capture of
           Some e \<Rightarrow> (begun, Inl e)
         | None \<Rightarrow>
             (let finalizing = begun @ [SetProgress ''Finalizing MP4...'']
              in case upload of
                   Inl e \<Rightarrow> (finalizing, Inl e)
                 | Inr u \<Rightarrow>
                     if \<not> eu_saved u \<and> given_text (eu_download_url u)
                     then (case download of
                         Some e \<Rightarrow> (finalizing, Inl e)
                       | None \<Rightarrow> (finalizing @ [ToastInfo ''Clip downloaded. It was not saved because your upload storage is full.''],
                           Inr \<lparr>xr_status = True, xr_message = ''Export downloaded without saving'',
                             xr_url = eu_download_url u, xr_filename = Some (eu_filename u)\<rparr>))
                     else (finalizing @ [ToastSuccess ''Clip exported to your uploads.''],
                       Inr \<lparr>xr_status = True, xr_message = ''Export completed'',
                         xr_url = Some (case eu_url u of Some t \<Rightarrow> t | None \<Rightarrow> []), xr_filename = Some (eu_filename u)\<rparr>)))"

definition export_video ::
  "bool \<Rightarrow> export_error option \<Rightarrow> export_error + export_upload \<Rightarrow> export_error option \<Rightarrow> export_effect list \<times> export_result" where
  "export_video has_project capture upload download =
     (if \<not> has_project
      then ([ToastError ''Nothing to export yet.''],
        \<lparr>xr_status = False, xr_message = ''Project is empty'', xr_url = None, xr_filename = None\<rparr>)
      else (let (effects, r) = export_steps capture upload download;
                begun = [SetExporting True, SetProgress ''Preparing preview...''];
                ended = [EndPreview, SetExporting False, SetProgress []]
            in case r of
                 Inr result \<Rightarrow> (begun @ effects @ ended, result)
               | Inl e \<Rightarrow> (begun @ effects @ [ToastError (failure_message e)] @ ended,
                   \<lparr>xr_status = False, xr_message = failure_message e, xr_url = None, xr_filename = None\<rparr>)))"

section \<open>The player\<close>

text \<open>
  \<open>refreshProject\<close> resolves when the player reports that it was updated or after a timeout. The refreshes are
  numbered; those with a timer and those that are resolved are listed.
\<close>

record player_refresh =
  pr_pending :: "nat option"
  pr_timers :: "nat list"
  pr_resolved :: "nat list"
  pr_fresh :: nat

definition no_refresh :: player_refresh where
  "no_refresh = \<lparr>pr_pending = None, pr_timers = [], pr_resolved = [], pr_fresh = 0\<rparr>"

definition refresh_project :: "player_refresh \<Rightarrow> player_refresh" where
  "refresh_project s = s\<lparr>pr_pending := Some (pr_fresh s), pr_timers := pr_timers s @ [pr_fresh s],
     pr_fresh := Suc (pr_fresh s)\<rparr>"

definition player_updated :: "player_refresh \<Rightarrow> player_refresh" where
  "player_updated s =
     (case pr_pending s of
        None \<Rightarrow> s
      | Some n \<Rightarrow> s\<lparr>pr_pending := None, pr_timers := filter (\<lambda>m. m \<noteq> n) (pr_timers s), pr_resolved := pr_resolved s @ [n]\<rparr>)"

definition refresh_timeout :: "nat \<Rightarrow> player_refresh \<Rightarrow> player_refresh" where
  "refresh_timeout n s =
     s\<lparr>pr_pending := None, pr_timers := filter (\<lambda>m. m \<noteq> n) (pr_timers s), pr_resolved := pr_resolved s @ [n]\<rparr>"

inductive player_step :: "player_refresh \<Rightarrow> player_refresh \<Rightarrow> bool" where
  refreshed: "player_step s (refresh_project s)"
| updated: "player_step s (player_updated s)"
| timed_out: "n \<in> set (pr_timers s) \<Longrightarrow> player_step s (refresh_timeout n s)"

text \<open>\<open>seekToFrame\<close>: each frame of the browser is a poll at a time, with the time the player is at.\<close>

fun seek_polls :: "rat \<Rightarrow> rat \<Rightarrow> (rat \<times> rat) list \<Rightarrow> bool option" where
  "seek_polls deadline target [] = None"
| "seek_polls deadline target ((now, current) # polls) =
     (if \<bar>current - target\<bar> \<le> 1 / 10 then Some True
      else if deadline \<le> now then Some False
      else seek_polls deadline target polls)"

definition seek_to_frame :: "rat \<Rightarrow> rat \<Rightarrow> (rat \<times> rat) list \<Rightarrow> bool option" where
  "seek_to_frame started target polls = seek_polls (started + 200) target polls"

text \<open>
  \<open>findCaptureCanvas\<close>: the canvases inside of the players and those of the whole tree, as width and height; sorting
  by area is stable.
\<close>

definition find_capture_canvas :: "(int \<times> int) list \<Rightarrow> (int \<times> int) list \<Rightarrow> (int \<times> int) option" where
  "find_capture_canvas in_players in_tree =
     (let visible = filter (\<lambda>(w, h). 0 < w \<and> 0 < h);
          by_area = sort_key (\<lambda>(w, h). - (w * h))
      in case by_area (visible in_players) of
           c # _ \<Rightarrow> Some c
         | [] \<Rightarrow> (case by_area (visible in_tree) of c # _ \<Rightarrow> Some c | [] \<Rightarrow> None))"

section \<open>The button of the studio\<close>

text \<open>
  A button that \<open>syncExportButtonState\<close> looks at: its text, the marks the code leaves in its data, whether it is
  disabled, busy and has the spinner, and its icon with the \<open>display\<close> that was kept when it was hidden.
\<close>

record export_button =
  eb_text :: string
  eb_marked :: bool
  eb_original :: "bool option"
  eb_disabled :: bool
  eb_busy :: bool
  eb_spinner :: bool
  eb_icon :: "(string \<times> string option) option"

definition is_export_button :: "export_button \<Rightarrow> bool" where
  "is_export_button b = (eb_marked b \<or> js_trim (eb_text b) = ''Export'')"

definition hide_icon :: "string \<times> string option \<Rightarrow> string \<times> string option" where
  "hide_icon i = (case snd i of None \<Rightarrow> (''none'', Some (fst i)) | Some _ \<Rightarrow> i)"

definition restore_icon :: "string \<times> string option \<Rightarrow> string \<times> string option" where
  "restore_icon i = (case snd i of Some display \<Rightarrow> (display, None) | None \<Rightarrow> i)"

definition sync_button :: "bool \<Rightarrow> export_button \<Rightarrow> export_button" where
  "sync_button is_exporting b =
     (if \<not> is_export_button b then b
      else if is_exporting
      then b\<lparr>eb_marked := True,
             eb_original := (case eb_original b of None \<Rightarrow> Some (eb_disabled b) | Some x \<Rightarrow> Some x),
             eb_disabled := True, eb_busy := True, eb_spinner := True, eb_icon := map_option hide_icon (eb_icon b)\<rparr>
      else b\<lparr>eb_disabled := (eb_original b = Some True), eb_busy := False, eb_spinner := False,
             eb_icon := map_option restore_icon (eb_icon b), eb_original := None\<rparr>)"

definition sync_export_button_state :: "bool \<Rightarrow> export_button list \<Rightarrow> export_button list" where
  "sync_export_button_state is_exporting bs = List.map (sync_button is_exporting) bs"

text \<open>
  The effect of \<open>useExportButtonSync\<close> when \<open>isExporting\<close> changes: the clean-up of the export before, then the
  effect; while it exports, every change of the page runs the state again.
\<close>

definition exporting_changes :: "bool \<Rightarrow> bool \<Rightarrow> export_button list \<Rightarrow> export_button list" where
  "exporting_changes was is_exporting bs =
     sync_export_button_state is_exporting (if was then sync_export_button_state False bs else bs)"

definition page_mutates :: "export_button list \<Rightarrow> export_button list" where
  "page_mutates bs = sync_export_button_state True bs"

section \<open>Reading the stream back\<close>

text \<open>
  What the format promises to its reader, which knows no more than the stream: a first line with the numbers of
  frames and tracks, then as many lines, each followed by as many octets as it says and a line feed.
\<close>

definition read_octets :: "nat \<Rightarrow> stream_symbol list \<Rightarrow> (nat list \<times> stream_symbol list) option" where
  "read_octets n body =
     (let (data, rest) = (take n body, drop n body);
          octets = concat (List.map (\<lambda>s. case s of Octet b \<Rightarrow> [b] | Header _ \<Rightarrow> []) data)
      in if length octets = n \<and> rest \<noteq> [] \<and> hd rest = line_feed then Some (octets, tl rest) else None)"

fun read_frames :: "nat \<Rightarrow> stream_symbol list \<Rightarrow> ((nat \<times> rat \<times> blob) list \<times> stream_symbol list) option" where
  "read_frames 0 body = Some ([], body)"
| "read_frames (Suc k) (Header (FrameLine i t ty n) # body) =
     (case read_octets n body of
        None \<Rightarrow> None
      | Some (bytes, rest) \<Rightarrow> map_option (\<lambda>(fs, r). ((i, t, ty, bytes) # fs, r)) (read_frames k rest))"
| "read_frames (Suc k) body = None"

fun read_audio :: "nat \<Rightarrow> stream_symbol list \<Rightarrow> ((nat \<times> project_audio_track \<times> blob) list \<times> stream_symbol list) option" where
  "read_audio 0 body = Some ([], body)"
| "read_audio (Suc k) (Header (AudioLine i t ty n) # body) =
     (case read_octets n body of
        None \<Rightarrow> None
      | Some (bytes, rest) \<Rightarrow> map_option (\<lambda>(ts, r). ((i, t, ty, bytes) # ts, r)) (read_audio k rest))"
| "read_audio (Suc k) body = None"

definition read_stream ::
  "stream_symbol list \<Rightarrow> (stream_meta \<times> (nat \<times> rat \<times> blob) list \<times> (nat \<times> project_audio_track \<times> blob) list) option" where
  "read_stream body =
     (case body of
        Header (MetaLine m) # rest \<Rightarrow>
          (case read_frames (sm_total_frames m) rest of
             None \<Rightarrow> None
           | Some (fs, rest') \<Rightarrow> (case read_audio (sm_audio_tracks m) rest' of
               Some (ts, []) \<Rightarrow> Some (m, fs, ts)
             | _ \<Rightarrow> None))
      | _ \<Rightarrow> None)"

text \<open>The frame that is read where one was captured, and the track where its sound was fetched.\<close>

definition captured_frame :: "export_env \<Rightarrow> rat \<Rightarrow> rat \<Rightarrow> nat \<Rightarrow> nat \<times> rat \<times> blob" where
  "captured_frame env fps duration i =
     (i, frame_time fps duration i,
      (case xe_capture env i of Inr b \<Rightarrow> (blob_type ''image/png'' b, snd b) | Inl _ \<Rightarrow> ([], [])))"

definition fetched_track :: "export_env \<Rightarrow> nat \<times> project_audio_track \<Rightarrow> nat \<times> project_audio_track \<times> blob" where
  "fetched_track env = (\<lambda>(i, t). (i, t,
      (case xe_audio env i (at_src t) of
         Inr (Some b) \<Rightarrow> (blob_type ''application/octet-stream'' b, snd b) | _ \<Rightarrow> ([], []))))"

lemma read_octets_data: "read_octets (length bs) (List.map Octet bs @ line_feed # rest) = Some (bs, rest)"
proof -
  have "concat (List.map ((\<lambda>s. case s of Octet b \<Rightarrow> [b] | Header _ \<Rightarrow> []) \<circ> Octet) bs) = bs" by (induction bs) auto
  then show ?thesis by (simp add: read_octets_def)
qed

lemma read_written_frames:
  "write_frames env fps duration i n = (body, None) \<Longrightarrow>
     read_frames n (body @ rest) = Some (List.map (captured_frame env fps duration) [i ..< i + n], rest)"
proof (induction n arbitrary: i body)
  case (Suc n)
  obtain b body' where b: "xe_capture env i = Inr b"
    and rest': "write_frames env fps duration (Suc i) n = (body', None)"
    and body: "body = enqueue_data (FrameLine i (frame_time fps duration i) (blob_type ''image/png'' b)
      (length (snd b))) (snd b) @ body'"
    using Suc.prems by (auto split: if_splits option.splits sum.splits prod.splits)
  have "[i ..< i + Suc n] = i # [Suc i ..< Suc i + n]" by (simp add: upt_conv_Cons)
  then show ?case
    using Suc.IH [OF rest'] by (simp add: body enqueue_data_def read_octets_data captured_frame_def b)
qed simp

lemma read_written_audio:
  "write_audio env i ts = (body, None) \<Longrightarrow>
     read_audio (length ts) (body @ rest) = Some (List.map (fetched_track env) (enumerate i ts), rest)"
proof (induction ts arbitrary: i body)
  case (Cons t ts)
  obtain b body' where b: "xe_audio env i (at_src t) = Inr (Some b)"
    and rest': "write_audio env (Suc i) ts = (body', None)"
    and body: "body = enqueue_data (AudioLine i t (blob_type ''application/octet-stream'' b) (length (snd b)))
      (snd b) @ body'"
    using Cons.prems by (auto split: if_splits option.splits sum.splits prod.splits)
  show ?case
    using Cons.IH [OF rest'] by (simp add: body enqueue_data_def read_octets_data fetched_track_def b)
qed simp


definition small_export_env :: export_env where
  "small_export_env = \<lparr>xe_frame_aborted = (\<lambda>_. False), xe_render = (\<lambda>_ _. None),
     xe_capture = (\<lambda>i. Inr (if i = 0 then ''image/png'' else [], [10, i])), xe_audio_aborted = (\<lambda>_. False),
     xe_audio = (\<lambda>_ _. Inr (Some (''audio/mp4'', [10])))\<rparr>"

definition small_export :: export_options where
  "small_export = \<lparr>xo_filename = ''clip.mp4'', xo_fps = 2, xo_duration = 3 / 2, xo_width = 16, xo_height = 9,
     xo_project = Some \<lparr>cp_input = None, cp_tracks = Some [[
       \<lparr>clip_type = ''audio'', clip_start = Numeric 0, clip_end = NumericText 9, clip_muted = False,
        clip_src = Some ''/a.mp3'', clip_time = None, clip_rate = Some (Numeric 8), clip_volume = None\<rparr>]]\<rparr>\<rparr>"


lemma number_within_ok: "ok otherwise \<Longrightarrow> ok (number_within ok missing otherwise v)"
  by (auto simp: number_within_def split: option.split)

lemma audio_track_of_ok:
  assumes "audio_track_of duration e = Some t"
  shows "0 \<le> at_start t \<and> at_start t < at_end t \<and> at_end t \<le> duration \<and> 0 \<le> at_trim t \<and>
    1 / 4 \<le> at_rate t \<and> at_rate t \<le> 4 \<and> 0 \<le> at_volume t \<and> at_volume t \<le> 4 \<and> at_src t \<noteq> []"
  using assms number_within_ok [of "\<lambda>r. 0 \<le> r" 0 0 "clip_time e"]
    number_within_ok [of "\<lambda>r. 1 / 4 \<le> r \<and> r \<le> 4" 1 1 "clip_rate e"]
    number_within_ok [of "\<lambda>r. 0 \<le> r \<and> r \<le> 4" 1 1 "clip_volume e"]
  by (auto simp: audio_track_of_def Let_def split: if_splits option.splits)

text \<open>
  The sounds of a project can be mixed: each lies within the clip, starts before it ends, and its rate and volume
  are in the ranges of the mixer, however broken the numbers of the project are.
\<close>

lemma project_sounds_can_be_mixed:
  assumes "t \<in> set (project_audio_tracks project duration)"
  shows "0 \<le> at_start t \<and> at_start t < at_end t \<and> at_end t \<le> duration \<and> 0 \<le> at_trim t \<and>
    1 / 4 \<le> at_rate t \<and> at_rate t \<le> 4 \<and> 0 \<le> at_volume t \<and> at_volume t \<le> 4 \<and> at_src t \<noteq> []"
proof -
  obtain e where "audio_track_of duration e = Some t"
    using assms by (auto simp: project_audio_tracks_def List.map_filter_def split: option.splits dest!: in_set_takeD)
  then show ?thesis by (rule audio_track_of_ok)
qed

text \<open>Frames are rendered in order of time, the last one within the clip.\<close>

lemma frame_times_ordered: "0 < fps \<Longrightarrow> i \<le> j \<Longrightarrow> frame_time fps duration i \<le> frame_time fps duration j"
  unfolding frame_time_def by (intro min.mono divide_right_mono) simp_all

lemma frame_time_within: "frame_time fps duration i \<le> duration"
  by (simp add: frame_time_def)

text \<open>The token goes to the server of the client only.\<close>

lemma token_stays_at_home:
  "api \<noteq> [] \<Longrightarrow> audio_source_headers origin_of page st src api \<noteq> [] \<Longrightarrow> origin_of src = origin_of api"
  by (auto simp: audio_source_headers_def split: if_splits)

text \<open>Nothing is sent as a whole that was not written to its end.\<close>

lemma buffered_body_is_complete:
  "stream_frame_export (Refused e) False env opts post =
     (case write_frame_stream env opts of
        (chunks, None) \<Rightarrow> finish_export (post chunks) | (_, Some e') \<Rightarrow> Inl e')"
  by (simp add: stream_frame_export_def split: prod.split option.split)

text \<open>However an export ends, the player is given back, and the page shows no export any more.\<close>

lemma export_always_ends:
  "\<exists>effects. fst (export_video True capture upload download) = effects @ [EndPreview, SetExporting False, SetProgress []]"
  by (auto simp: export_video_def Let_def split: prod.split sum.split)

lemma export_succeeds_iff:
  "xr_status (snd (export_video p capture upload download)) \<longleftrightarrow>
     p \<and> capture = None \<and> (\<exists>u. upload = Inr u \<and> (eu_saved u \<or> \<not> given_text (eu_download_url u) \<or> download = None))"
  by (auto simp: export_video_def export_steps_def Let_def split: option.split sum.split)

section \<open>The player, the canvas and the button\<close>

definition refresh_inv :: "player_refresh \<Rightarrow> bool" where
  "refresh_inv s = (set (pr_timers s) \<inter> set (pr_resolved s) = {} \<and> distinct (pr_timers s) \<and> distinct (pr_resolved s) \<and>
     set (pr_timers s) \<union> set (pr_resolved s) = {..< pr_fresh s} \<and>
     (\<forall>n. pr_pending s = Some n \<longrightarrow> n \<in> set (pr_timers s)))"

lemma refresh_inv_step: "player_step s t \<Longrightarrow> refresh_inv s \<Longrightarrow> refresh_inv t"
  by (induction rule: player_step.induct)
    (auto simp: refresh_inv_def refresh_project_def player_updated_def refresh_timeout_def split: option.split)

text \<open>Every refresh waits for its timer or was resolved once.\<close>

lemma refreshes_settle_once:
  assumes "player_step\<^sup>*\<^sup>* no_refresh s"
  shows "refresh_inv s"
  using assms
proof (induction rule: rtranclp_induct)
  case base
  then show ?case by (simp add: refresh_inv_def no_refresh_def)
qed (auto intro: refresh_inv_step)

text \<open>
  The timeout of a first refresh forgets the second one that waits: the update of the player that follows resolves
  nothing, and the second refresh waits for its own timeout.
\<close>

lemma timeout_forgets_next_refresh:
  "let s = player_updated (refresh_timeout 0 (refresh_project (refresh_project no_refresh)))
   in pr_timers s = [1] \<and> pr_resolved s = [0]"
  by code_simp

lemma seek_ends:
  "(now, current) \<in> set polls \<Longrightarrow> started + 200 \<le> now \<Longrightarrow> seek_to_frame started target polls \<noteq> None"
  unfolding seek_to_frame_def by (induction polls) auto

lemma seek_lands: "seek_polls deadline target polls = Some True \<Longrightarrow> \<exists>(now, current) \<in> set polls. \<bar>current - target\<bar> \<le> 1 / 10"
  by (induction deadline target polls rule: seek_polls.induct) (auto split: if_splits)

lemma capture_canvas_is_largest:
  assumes "find_capture_canvas in_players in_tree = Some (w, h)"
    and "(w', h') \<in> set in_players" "0 < w'" "0 < h'"
  shows "(w, h) \<in> set in_players" and "w' * h' \<le> w * h"
proof -
  let ?key = "\<lambda>(w :: int, h). - (w * h)"
  let ?vis = "filter (\<lambda>(w, h). 0 < w \<and> 0 < h) in_players"
  have v: "(w', h') \<in> set (sort_key ?key ?vis)" using assms by simp
  then obtain cs where cs: "sort_key ?key ?vis = (w, h) # cs"
    using assms(1) by (cases "sort_key ?key ?vis") (auto simp: find_capture_canvas_def Let_def)
  have "(w, h) \<in> set (sort_key ?key ?vis)" unfolding cs by simp
  then show "(w, h) \<in> set in_players" by simp
  have "sorted (List.map ?key ((w, h) # cs))" using sorted_sort_key [of ?key ?vis] unfolding cs .
  then show "w' * h' \<le> w * h" using v unfolding cs by auto
qed

text \<open>What a change of the page runs while it exports settles at once, so that the observer does not go on.\<close>

lemma hide_icon_twice: "hide_icon (hide_icon i) = hide_icon i"
  by (cases i) (auto simp: hide_icon_def split: option.split)

lemma mutation_settles: "page_mutates (page_mutates bs) = page_mutates bs"
proof -
  have "sync_button True (sync_button True b) = sync_button True b" for b
    by (auto simp: sync_button_def is_export_button_def hide_icon_twice option.map_comp comp_def split: option.split)
  then show ?thesis by (simp add: page_mutates_def sync_export_button_state_def)
qed

text \<open>
  A button that the studio has disabled is enabled when the page opens without an export; and at the end of an export
  the clean-up restores it, but the effect that follows finds nothing kept any more and enables it.
\<close>

definition studio_button :: export_button where
  "studio_button = \<lparr>eb_text = '' Export '', eb_marked = False, eb_original = None, eb_disabled = True, eb_busy = False,
     eb_spinner = False, eb_icon = Some (''inline'', None)\<rparr>"

lemma idle_page_enables_button: "List.map eb_disabled (exporting_changes False False [studio_button]) = [False]"
  by code_simp

lemma ended_export_enables_button:
  "let exporting = exporting_changes False True [studio_button]
   in List.map eb_disabled (sync_export_button_state False exporting) = [True] \<and>
      List.map eb_disabled (exporting_changes True False exporting) = [False]"
  by code_simp

text \<open>Its icon is as it was.\<close>

lemma export_restores_icon:
  assumes "is_export_button b" "eb_icon b = Some (display, None)"
  shows "eb_icon (sync_button False (sync_button True b)) = Some (display, None)"
  using assms by (simp add: sync_button_def is_export_button_def hide_icon_def restore_icon_def)

end
