(* ===== verification/StorePage.thy ===== *)
theory StorePage
  imports JsText Complex_Main
begin

text \<open>
  \<open>components/store/Store.tsx\<close> and \<open>ProductPage.tsx\<close>: which products the store shows and in which order, its
  filters, the cart of a guest, what it counts of orders and reviews, and the page of a product. Times are numbers,
  prices are cents, and ratings are exact.
\<close>

section \<open>Products and filters\<close>

text \<open>A \<open>Product\<close> as far as the two pages read it, and a \<open>StoreCategory\<close> as its id and its name.\<close>

record store_product =
  sp_id :: string
  sp_name :: string
  sp_description :: string
  sp_price :: int
  sp_active :: bool
  sp_category :: string
  sp_owner :: "string option"
  sp_owner_name :: "string option"
  sp_created :: int

datatype store_sort_mode = Newest | Oldest | PriceAsc | PriceDesc | RatingDesc

record store_filters =
  sf_search :: string
  sf_categories :: "string list"
  sf_min_price :: string
  sf_max_price :: string
  sf_min_rating :: string
  sf_owner :: string
  sf_owner_label :: string
  sf_sort :: store_sort_mode

definition default_store_filters :: store_filters where
  "default_store_filters = \<lparr>sf_search = [], sf_categories = [], sf_min_price = [], sf_max_price = [],
     sf_min_rating = ''0'', sf_owner = [], sf_owner_label = [], sf_sort = Newest\<rparr>"

record rating_summary =
  rs_average :: rat
  rs_count :: nat

text \<open>
  \<open>Number.parseFloat\<close> of a decimal number with whatever follows it; \<open>None\<close> is \<open>NaN\<close>. Exponents and
  \<open>Infinity\<close> are not read.
\<close>

definition parse_float :: "string \<Rightarrow> rat option" where
  "parse_float s =
     (let t = dropWhile is_space s;
          (negative, u) = (case t of c # cs \<Rightarrow> if c = CHR ''-'' then (True, cs) else if c = CHR ''+'' then (False, cs) else (False, t)
            | [] \<Rightarrow> (False, []));
          whole = takeWhile is_digit u;
          rest = dropWhile is_digit u;
          fraction = (case rest of c # cs \<Rightarrow> if c = CHR ''.'' then takeWhile is_digit cs else [] | [] \<Rightarrow> []);
          value = of_nat (parse_nat whole) + of_nat (parse_nat fraction) / 10 ^ length fraction
      in if whole = [] \<and> fraction = [] then None else Some (if negative then - value else value))"

definition parse_price_filter :: "string \<Rightarrow> int option" where
  "parse_price_filter v =
     (case parse_float v of
        Some parsed \<Rightarrow> if 0 \<le> parsed then Some \<lfloor>parsed * 100 + 1 / 2\<rfloor> else None
      | None \<Rightarrow> None)"

text \<open>The two bounds, swapped when they are given the wrong way round.\<close>

definition price_bounds :: "store_filters \<Rightarrow> int option \<times> int option" where
  "price_bounds f =
     (let lo = parse_price_filter (sf_min_price f); hi = parse_price_filter (sf_max_price f)
      in case (lo, hi) of (Some a, Some b) \<Rightarrow> if b < a then (hi, lo) else (lo, hi) | _ \<Rightarrow> (lo, hi))"

definition min_rating :: "store_filters \<Rightarrow> rat" where
  "min_rating f = (case parse_float (sf_min_rating f) of Some r \<Rightarrow> r | None \<Rightarrow> 0)"

definition or_empty_text :: "string option \<Rightarrow> string" where
  "or_empty_text v = (case v of Some s \<Rightarrow> s | None \<Rightarrow> [])"

definition average_of :: "(string \<Rightarrow> rating_summary option) \<Rightarrow> store_product \<Rightarrow> rat" where
  "average_of ratings p = (case ratings (sp_id p) of Some r \<Rightarrow> rs_average r | None \<Rightarrow> 0)"

definition reviews_of :: "(string \<Rightarrow> rating_summary option) \<Rightarrow> store_product \<Rightarrow> rat" where
  "reviews_of ratings p = (case ratings (sp_id p) of Some r \<Rightarrow> of_nat (rs_count r) | None \<Rightarrow> 0)"

text \<open>The condition of the filter of \<open>visibleProducts\<close>; \<open>names\<close> gives the name of a category.\<close>

definition product_passes ::
  "(string \<Rightarrow> string option) \<Rightarrow> (string \<Rightarrow> rating_summary option) \<Rightarrow> store_filters \<Rightarrow> store_product \<Rightarrow> bool" where
  "product_passes names ratings f p =
     (let search = to_lower (js_trim (sf_search f)); (lo, hi) = price_bounds f; rating = average_of ratings p
      in if \<not> sp_active p then False
         else if sf_categories f \<noteq> [] \<and> sp_category p \<notin> set (sf_categories f) then False
         else if sf_owner f \<noteq> [] \<and> or_empty_text (sp_owner p) \<noteq> sf_owner f then False
         else if (case lo of Some a \<Rightarrow> sp_price p < a | None \<Rightarrow> False) then False
         else if (case hi of Some b \<Rightarrow> b < sp_price p | None \<Rightarrow> False) then False
         else if 0 < min_rating f \<and> rating < min_rating f then False
         else if search = [] then True
         else list_ex (\<lambda>v. str_includes (to_lower v) search)
           [sp_name p, sp_description p, or_empty_text (names (sp_category p)), or_empty_text (sp_owner_name p),
            or_empty_text (sp_owner p)])"

text \<open>The comparison of the sort, which is stable.\<close>

fun compare_products ::
  "store_sort_mode \<Rightarrow> (string \<Rightarrow> rating_summary option) \<Rightarrow> store_product \<Rightarrow> store_product \<Rightarrow> rat" where
  "compare_products Oldest ratings a b = of_int (sp_created a - sp_created b)"
| "compare_products PriceAsc ratings a b = of_int (sp_price a - sp_price b)"
| "compare_products PriceDesc ratings a b = of_int (sp_price b - sp_price a)"
| "compare_products RatingDesc ratings a b =
     (let d = average_of ratings b - average_of ratings a
      in if d \<noteq> 0 then d else reviews_of ratings b - reviews_of ratings a)"
| "compare_products Newest ratings a b = of_int (sp_created b - sp_created a)"

fun insert_sorted_by :: "('a \<Rightarrow> 'a \<Rightarrow> rat) \<Rightarrow> 'a \<Rightarrow> 'a list \<Rightarrow> 'a list" where
  "insert_sorted_by cmp x [] = [x]"
| "insert_sorted_by cmp x (y # ys) = (if cmp x y \<le> 0 then x # y # ys else y # insert_sorted_by cmp x ys)"

definition js_sort :: "('a \<Rightarrow> 'a \<Rightarrow> rat) \<Rightarrow> 'a list \<Rightarrow> 'a list" where
  "js_sort cmp xs = foldr (insert_sorted_by cmp) xs []"

definition visible_products ::
  "(string \<Rightarrow> string option) \<Rightarrow> (string \<Rightarrow> rating_summary option) \<Rightarrow> store_filters \<Rightarrow> store_product list \<Rightarrow> store_product list" where
  "visible_products names ratings f products =
     js_sort (compare_products (sf_sort f) ratings) (filter (product_passes names ratings f) products)"

text \<open>What changes the filters.\<close>

definition toggle_category :: "string \<Rightarrow> store_filters \<Rightarrow> store_filters" where
  "toggle_category c f =
     f\<lparr>sf_categories := (let selected = fold set_add (sf_categories f) []
        in if c \<in> set selected then set_delete c selected else set_add c selected)\<rparr>"

definition category_query :: "string option \<Rightarrow> store_filters \<Rightarrow> store_filters" where
  "category_query q f =
     (case q of
        Some (c # cs) \<Rightarrow> if (c # cs) \<in> set (sf_categories f) then f else f\<lparr>sf_categories := [c # cs]\<rparr>
      | _ \<Rightarrow> f)"

definition clear_filters :: "store_filters \<Rightarrow> store_filters" where
  "clear_filters f = default_store_filters"

text \<open>The user who is signed in: the id, and the display name and the user name.\<close>

type_synonym store_user = "string \<times> string \<times> string"

definition toggle_own_products :: "store_user option \<Rightarrow> store_filters \<Rightarrow> store_filters" where
  "toggle_own_products user f =
     (case user of
        None \<Rightarrow> f
      | Some (own, display_name, username) \<Rightarrow>
          if sf_owner f = own then f\<lparr>sf_owner := [], sf_owner_label := []\<rparr>
          else f\<lparr>sf_owner := own, sf_owner_label := (if display_name \<noteq> [] then display_name
                  else if username \<noteq> [] then username else ''You'')\<rparr>)"

definition has_active_filters :: "store_filters \<Rightarrow> bool" where
  "has_active_filters f =
     (js_trim (sf_search f) \<noteq> [] \<or> sf_categories f \<noteq> [] \<or> sf_min_price f \<noteq> [] \<or> sf_max_price f \<noteq> [] \<or>
      sf_min_rating f \<noteq> ''0'' \<or> sf_owner f \<noteq> [] \<or> sf_sort f \<noteq> Newest)"

text \<open>What remains when a product or a category was deleted: the products, or the categories and the filters.\<close>

definition product_deleted :: "string \<Rightarrow> store_product list \<Rightarrow> store_product list" where
  "product_deleted i ps = filter (\<lambda>p. sp_id p \<noteq> i) ps"

definition category_deleted :: "string \<Rightarrow> (string \<times> string) list \<times> store_filters \<Rightarrow> (string \<times> string) list \<times> store_filters" where
  "category_deleted c = (\<lambda>(cs, f).
     (filter (\<lambda>x. fst x \<noteq> c) cs, f\<lparr>sf_categories := filter (\<lambda>x. x \<noteq> c) (sf_categories f)\<rparr>))"

section \<open>Permissions\<close>

definition owns_product :: "string option \<Rightarrow> store_product \<Rightarrow> bool" where
  "owns_product user p = (user \<noteq> None \<and> or_empty_text (sp_owner p) \<noteq> [] \<and> sp_owner p = user)"

text \<open>\<open>canEditProduct\<close> and \<open>canDeleteProduct\<close>, with the permission each asks for.\<close>

definition may_change_product :: "string \<Rightarrow> string option \<Rightarrow> string list \<Rightarrow> bool \<Rightarrow> store_product \<Rightarrow> bool" where
  "may_change_product permission user permissions sandbox p =
     (permission \<in> set permissions \<or> sandbox \<or> ''store.product-seller'' \<in> set permissions \<and> owns_product user p)"

section \<open>Orders, reviews and the cart\<close>

text \<open>The statuses of an order, of its vendors and of its items.\<close>

record store_order =
  so_status :: "string option"
  so_vendors :: "string option list"
  so_items :: "string option list"

definition is_open_order_status :: "string option \<Rightarrow> bool" where
  "is_open_order_status status =
     (let s = (case status of Some (c # cs) \<Rightarrow> c # cs | _ \<Rightarrow> ''pending'')
      in s \<notin> {''completed'', ''failed'', ''cancelled'', ''rejected''})"

definition has_pending_vendor_work :: "store_order \<Rightarrow> bool" where
  "has_pending_vendor_work order =
     (if so_vendors order \<noteq> [] then list_ex is_open_order_status (so_vendors order)
      else if so_items order \<noteq> []
      then list_ex (\<lambda>v. is_open_order_status (case v of Some (c # cs) \<Rightarrow> v | _ \<Rightarrow> so_status order)) (so_items order)
      else is_open_order_status (so_status order))"

definition pending_order_count :: "store_order list \<Rightarrow> nat" where
  "pending_order_count orders = length (filter has_pending_vendor_work orders)"

text \<open>
  The summary of the reviews of a product in \<open>loadCatalog\<close>, and the average of \<open>ProductPage\<close>; a review is its
  rating, \<open>None\<close> when it has none.
\<close>

definition summarize_ratings :: "rat option list \<Rightarrow> rating_summary" where
  "summarize_ratings reviews =
     (let ratings = filter (\<lambda>r. 0 < r) (List.map (\<lambda>r. case r of Some x \<Rightarrow> x | None \<Rightarrow> 0) reviews)
      in \<lparr>rs_average = (if ratings \<noteq> [] then foldl (+) 0 ratings / of_nat (length ratings) else 0),
          rs_count = length ratings\<rparr>)"

definition page_average :: "rat option list \<Rightarrow> rat" where
  "page_average reviews =
     (if reviews = [] then 0
      else foldl (\<lambda>acc r. acc + (case r of Some x \<Rightarrow> x | None \<Rightarrow> 0)) 0 reviews / of_nat (length reviews))"

text \<open>A \<open>CartItem\<close>; its product is the id of the one it carries, when it carries one.\<close>

record cart_item =
  ci_id :: string
  ci_product_id :: string
  ci_quantity :: int
  ci_product :: "string option"

definition add_to_guest_cart :: "string \<Rightarrow> cart_item list \<Rightarrow> cart_item list" where
  "add_to_guest_cart p cart =
     (case List.find (\<lambda>i. ci_product_id i = p) cart of
        Some _ \<Rightarrow> List.map (\<lambda>i. if ci_product_id i = p then i\<lparr>ci_quantity := ci_quantity i + 1\<rparr> else i) cart
      | None \<Rightarrow> cart @ [\<lparr>ci_id = ''local-'' @ p, ci_product_id = p, ci_quantity = 1, ci_product = Some p\<rparr>])"

text \<open>\<open>addProductToCart\<close> of \<open>ProductPage\<close> once the server took it.\<close>

definition added_to_cart :: "string \<Rightarrow> string \<Rightarrow> cart_item list \<Rightarrow> cart_item list" where
  "added_to_cart now p cart =
     (let same = (\<lambda>i. ci_product i = Some p \<or> ci_product_id i = p)
      in case List.find same cart of
           Some _ \<Rightarrow> List.map (\<lambda>i. if same i then i\<lparr>ci_quantity := ci_quantity i + 1\<rparr> else i) cart
         | None \<Rightarrow> cart @ [\<lparr>ci_id = ''temp-'' @ now, ci_product_id = p, ci_quantity = 1, ci_product = Some p\<rparr>])"

section \<open>The page of a product\<close>

text \<open>The product that is shown and whether it loads; a request under way carries the id it asked for.\<close>

record product_page =
  pp_id :: string
  pp_product :: "store_product option"
  pp_loading :: bool
  pp_similar :: "store_product list"
  pp_similar_loading :: bool

definition new_product_page :: "string \<Rightarrow> product_page" where
  "new_product_page i = \<lparr>pp_id = i, pp_product = None, pp_loading = True, pp_similar = [], pp_similar_loading = True\<rparr>"

text \<open>The effect of the id and of all products: a request is sent, with the id, unless the product is known.\<close>

definition show_product :: "string \<Rightarrow> store_product list \<Rightarrow> product_page \<Rightarrow> product_page \<times> string option" where
  "show_product i products s =
     (case List.find (\<lambda>p. sp_id p = i) products of
        Some p \<Rightarrow> (s\<lparr>pp_id := i, pp_product := Some p, pp_loading := False\<rparr>, None)
      | None \<Rightarrow> (s\<lparr>pp_id := i\<rparr>, Some i))"

definition product_answered :: "store_product option \<Rightarrow> product_page \<Rightarrow> product_page" where
  "product_answered answer s =
     s\<lparr>pp_product := (case answer of Some p \<Rightarrow> Some p | None \<Rightarrow> pp_product s), pp_loading := False\<rparr>"

definition product_refused :: "product_page \<Rightarrow> product_page" where
  "product_refused s = s\<lparr>pp_loading := False\<rparr>"

definition load_similar :: "product_page \<Rightarrow> product_page" where
  "load_similar s = s\<lparr>pp_similar_loading := True\<rparr>"

definition similar_answered :: "store_product list option \<Rightarrow> product_page \<Rightarrow> product_page" where
  "similar_answered answer s =
     s\<lparr>pp_similar := (case answer of Some ps \<Rightarrow> ps | None \<Rightarrow> []), pp_similar_loading := False\<rparr>"

definition similar_refused :: "product_page \<Rightarrow> product_page" where
  "similar_refused s = s\<lparr>pp_similar := [], pp_similar_loading := False\<rparr>"

definition user_has_reviewed :: "string option \<Rightarrow> string option list \<Rightarrow> bool" where
  "user_has_reviewed user authors =
     (case user of None \<Rightarrow> False
      | Some u \<Rightarrow> list_ex (\<lambda>a. (case a of Some s \<Rightarrow> s | None \<Rightarrow> ''undefined'') = u) authors)"

section \<open>What is shown\<close>

lemma insert_sorted_by_mset [simp]: "mset (insert_sorted_by cmp x ys) = add_mset x (mset ys)"
  by (induction ys) auto

lemma js_sort_mset [simp]: "mset (js_sort cmp xs) = mset xs"
  unfolding js_sort_def by (induction xs) auto

lemma insert_sorted_by_set [simp]: "set (insert_sorted_by cmp x ys) = insert x (set ys)"
  by (induction ys) auto

lemma insert_sorted_by_sorted:
  assumes total: "\<And>x y. cmp x y \<le> 0 \<or> cmp y x \<le> 0"
    and trans: "\<And>x y z. cmp x y \<le> 0 \<Longrightarrow> cmp y z \<le> 0 \<Longrightarrow> cmp x z \<le> 0"
  shows "sorted_wrt (\<lambda>a b. cmp a b \<le> 0) ys \<Longrightarrow> sorted_wrt (\<lambda>a b. cmp a b \<le> 0) (insert_sorted_by cmp x ys)"
  by (induction ys) (use total trans in \<open>auto split: if_splits\<close>)

lemma js_sort_sorted:
  assumes "\<And>x y. cmp x y \<le> 0 \<or> cmp y x \<le> 0"
    and "\<And>x y z. cmp x y \<le> 0 \<Longrightarrow> cmp y z \<le> 0 \<Longrightarrow> cmp x z \<le> 0"
  shows "sorted_wrt (\<lambda>a b. cmp a b \<le> 0) (js_sort cmp xs)"
  unfolding js_sort_def by (induction xs) (use insert_sorted_by_sorted [OF assms] in auto)

text \<open>A comparison is the order of two keys, so that the sort is one.\<close>

definition product_keys :: "store_sort_mode \<Rightarrow> (string \<Rightarrow> rating_summary option) \<Rightarrow> store_product \<Rightarrow> rat \<times> rat" where
  "product_keys mode ratings p =
     (case mode of
        Newest \<Rightarrow> (- of_int (sp_created p), 0)
      | Oldest \<Rightarrow> (of_int (sp_created p), 0)
      | PriceAsc \<Rightarrow> (of_int (sp_price p), 0)
      | PriceDesc \<Rightarrow> (- of_int (sp_price p), 0)
      | RatingDesc \<Rightarrow> (- average_of ratings p, - reviews_of ratings p))"

lemma compare_products_keys:
  "compare_products mode ratings a b \<le> 0 \<longleftrightarrow>
     fst (product_keys mode ratings a) < fst (product_keys mode ratings b) \<or>
     fst (product_keys mode ratings a) = fst (product_keys mode ratings b) \<and>
       snd (product_keys mode ratings a) \<le> snd (product_keys mode ratings b)"
  by (cases mode) (auto simp: product_keys_def Let_def)

lemma compare_products_total: "compare_products mode ratings a b \<le> 0 \<or> compare_products mode ratings b a \<le> 0"
  unfolding compare_products_keys by linarith

lemma compare_products_trans:
  "compare_products mode ratings a b \<le> 0 \<Longrightarrow> compare_products mode ratings b c \<le> 0 \<Longrightarrow> compare_products mode ratings a c \<le> 0"
  unfolding compare_products_keys by linarith


text \<open>The two prices may be given in either order.\<close>

lemma prices_in_either_order:
  assumes "parse_price_filter a \<noteq> None" "parse_price_filter b \<noteq> None"
  shows "visible_products names ratings (f\<lparr>sf_min_price := a, sf_max_price := b\<rparr>) products =
     visible_products names ratings (f\<lparr>sf_min_price := b, sf_max_price := a\<rparr>) products"
proof -
  obtain x y where "parse_price_filter a = Some x" "parse_price_filter b = Some y" using assms by auto
  then have "price_bounds (f\<lparr>sf_min_price := a, sf_max_price := b\<rparr>) = price_bounds (f\<lparr>sf_min_price := b, sf_max_price := a\<rparr>)"
    by (auto simp: price_bounds_def Let_def)
  then have "product_passes names ratings (f\<lparr>sf_min_price := a, sf_max_price := b\<rparr>) =
      product_passes names ratings (f\<lparr>sf_min_price := b, sf_max_price := a\<rparr>)"
    by (intro ext) (simp add: product_passes_def min_rating_def)
  then show ?thesis by (simp add: visible_products_def)
qed

text \<open>Without filters every active product is shown.\<close>

lemma cleared_filters_show_all: "product_passes names ratings (clear_filters f) p = sp_active p"
proof -
  have "parse_float ''0'' = Some 0" "parse_price_filter [] = None" "to_lower (js_trim []) = []" by code_simp+
  then show ?thesis
    by (simp add: clear_filters_def default_store_filters_def product_passes_def price_bounds_def min_rating_def)
qed

lemma toggle_category_set:
  "set (sf_categories (toggle_category c f)) =
     (if c \<in> set (sf_categories f) then set (sf_categories f) - {c} else insert c (set (sf_categories f)))"
  by (simp add: toggle_category_def Let_def)

lemma toggle_category_distinct: "distinct (sf_categories (toggle_category c f))"
  by (simp add: toggle_category_def Let_def distinct_set_delete)

text \<open>A category that was deleted does not filter any more.\<close>

lemma deleted_category_is_not_filtered: "c \<notin> set (sf_categories (snd (category_deleted c (cs, f))))"
  by (simp add: category_deleted_def)

section \<open>The cart\<close>

definition cart_quantity :: "cart_item list \<Rightarrow> string \<Rightarrow> int" where
  "cart_quantity cart p = sum_list (List.map ci_quantity (filter (\<lambda>i. ci_product_id i = p) cart))"

lemma cart_keys_added:
  "List.map ci_product_id (add_to_guest_cart p cart) =
     List.map ci_product_id cart @ (if p \<in> ci_product_id ` set cart then [] else [p])"
  by (auto simp: add_to_guest_cart_def find_None_iff find_Some_iff split: option.split)

lemma quantity_counted:
  "distinct (List.map ci_product_id cart) \<Longrightarrow>
   cart_quantity (List.map (\<lambda>i. if ci_product_id i = p then i\<lparr>ci_quantity := ci_quantity i + 1\<rparr> else i) cart) q =
     cart_quantity cart q + (if q = p \<and> p \<in> ci_product_id ` set cart then 1 else 0)"
proof (induction cart)
  case (Cons i cart)
  have same: "p \<notin> ci_product_id ` set cart \<Longrightarrow>
      List.map (\<lambda>i. if ci_product_id i = p then i\<lparr>ci_quantity := ci_quantity i + 1\<rparr> else i) cart = cart"
    by (intro map_idI) auto
  show ?case using Cons same by (auto simp: cart_quantity_def)
qed (simp add: cart_quantity_def)

text \<open>The cart of a guest is a count of products: an addition counts one more of one product and none else.\<close>

lemma guest_cart_counts:
  assumes "distinct (List.map ci_product_id cart)"
  shows "cart_quantity (add_to_guest_cart p cart) = (cart_quantity cart)(p := cart_quantity cart p + 1)"
    and "distinct (List.map ci_product_id (add_to_guest_cart p cart))"
proof -
  have fresh: "p \<notin> ci_product_id ` set cart \<Longrightarrow> cart_quantity cart p = 0"
    by (induction cart) (auto simp: cart_quantity_def)
  show "cart_quantity (add_to_guest_cart p cart) = (cart_quantity cart)(p := cart_quantity cart p + 1)"
  proof (cases "List.find (\<lambda>i. ci_product_id i = p) cart")
    case None
    then have "p \<notin> ci_product_id ` set cart" by (auto simp: find_None_iff)
    then show ?thesis using fresh None by (auto simp: add_to_guest_cart_def cart_quantity_def fun_eq_iff)
  next
    case (Some i)
    then have "p \<in> ci_product_id ` set cart" by (auto simp: find_Some_iff)
    then show ?thesis using Some quantity_counted [OF assms] by (auto simp: add_to_guest_cart_def fun_eq_iff)
  qed
  show "distinct (List.map ci_product_id (add_to_guest_cart p cart))"
    using assms unfolding cart_keys_added by auto
qed

section \<open>Behaviour to know of\<close>

text \<open>A seller may change only what is their own.\<close>

lemma seller_changes_own_products:
  "may_change_product perm user [''store.product-seller''] False p \<Longrightarrow> perm \<noteq> ''store.product-seller'' \<Longrightarrow>
     user \<noteq> None \<and> sp_owner p = user"
  by (auto simp: may_change_product_def owns_product_def)

text \<open>
  A review without a rating counts as no stars on the page of the product and not at all in the store, which thus
  show two averages.
\<close>

lemma store_and_page_disagree:
  "rs_average (summarize_ratings [Some 4, None]) = 4 \<and> page_average [Some 4, None] = 2"
  by (simp add: summarize_ratings_def page_average_def Let_def)

text \<open>
  The product that comes late is shown under the id of the next page, and when that page has no product the former
  one stays.
\<close>

lemma late_product_shown:
  "List.find (\<lambda>p. sp_id p = j) products = Some new \<Longrightarrow>
   (let s = product_answered (Some older) (fst (show_product j products s0)) in pp_id s = j \<and> pp_product s = Some older)"
  by (simp add: show_product_def product_answered_def)

lemma missing_product_shows_former:
  "List.find (\<lambda>p. sp_id p = j) products = None \<Longrightarrow>
   (let s = product_refused (fst (show_product j products s0)) in
      pp_id s = j \<and> pp_product s = pp_product s0 \<and> \<not> pp_loading s)"
  by (simp add: show_product_def product_refused_def)

text \<open>A cart that has the product twice counts it twice.\<close>

lemma cart_twice:
  "ci_product_id i = p \<Longrightarrow> ci_product_id k = p \<Longrightarrow>
   cart_quantity (add_to_guest_cart p [i, k]) p = cart_quantity [i, k] p + 2"
  by (simp add: add_to_guest_cart_def cart_quantity_def)

end
