(* ===== verification/DataSourcePage.thy ===== *)
theory DataSourcePage
  imports JsText Complex_Main
begin

text \<open>
  \<open>components/page/datasources/DataSourceEditorPage.tsx\<close>: the editor of a data source. How it loads and is saved,
  how its environment is read, and a run of its code, from the answer of the compiler to the items that are kept.
  The compiler and the code that runs are parameters.
\<close>

section \<open>The editor\<close>

record source_diagnostic =
  dg_file :: string
  dg_line :: int
  dg_message :: string
  dg_category :: int

datatype exit_reason = RunSuccess | CompileError | RuntimeError | InvalidReturn | RunTimeout

record run_stats =
  rn_duration :: int
  rn_exit_reason :: exit_reason
  rn_total :: nat
  rn_valid :: nat
  rn_skipped :: nat

datatype right_panel = PreviewPanel | CompiledPanel | DiagnosticsPanel

record source_editor =
  se_name :: string
  se_description :: string
  se_files :: "(string, string) jsmap"
  se_env :: string
  se_cache_ttl :: int
  se_loading :: bool
  se_saving :: bool
  se_compiling :: bool
  se_compiled :: "string option"
  se_last_run :: "int option"
  se_diagnostics :: "source_diagnostic list"
  se_preview :: "jsval list"
  se_error :: "string option"
  se_stats :: "run_stats option"
  se_panel :: right_panel

definition new_source_editor :: "string \<Rightarrow> bool \<Rightarrow> source_editor" where
  "new_source_editor default_code is_new =
     \<lparr>se_name = [], se_description = [], se_files = [(''main.ts'', default_code)], se_env = [], se_cache_ttl = 0,
      se_loading = (\<not> is_new), se_saving = False, se_compiling = False, se_compiled = None, se_last_run = None,
      se_diagnostics = [], se_preview = [], se_error = None, se_stats = None, se_panel = PreviewPanel\<rparr>"

text \<open>A \<open>DataSource\<close> as it is loaded, and \<open>fetchDS\<close>, which asks for it unless it is new.\<close>

record data_source =
  ds_name :: string
  ds_description :: string
  ds_code :: "string option"
  ds_files :: "(string, string) jsmap option"
  ds_cache_ttl :: "int option"

definition source_fetched :: "string \<Rightarrow> data_source \<Rightarrow> source_editor \<Rightarrow> source_editor" where
  "source_fetched default_code ds e =
     e\<lparr>se_name := ds_name ds, se_description := ds_description ds,
       se_cache_ttl := (case ds_cache_ttl ds of Some t \<Rightarrow> t | None \<Rightarrow> 0),
       se_files := (case ds_files ds of
           Some (f # fs) \<Rightarrow> f # fs
         | _ \<Rightarrow> [(''main.ts'', case ds_code ds of Some (c # cs) \<Rightarrow> c # cs | _ \<Rightarrow> default_code)])\<rparr>"

text \<open>The answer for its environment, which is none when it was refused.\<close>

definition env_fetched :: "string option option \<Rightarrow> source_editor \<Rightarrow> source_editor" where
  "env_fetched answer e =
     (case answer of
        None \<Rightarrow> e\<lparr>se_loading := False\<rparr>
      | Some env \<Rightarrow> e\<lparr>se_env := (case env of Some t \<Rightarrow> t | None \<Rightarrow> []), se_loading := False\<rparr>)"

text \<open>
  \<open>handleSave\<close>: the body of the request, or no request without a name; it is over when the answer or a failure is
  there.
\<close>

definition save_source :: "source_editor \<Rightarrow> source_editor \<times> jsval option" where
  "save_source e =
     (if js_trim (se_name e) = [] then (e, None)
      else (e\<lparr>se_saving := True\<rparr>,
        Some (JObj [(''name'', JStr (se_name e)), (''description'', JStr (se_description e)),
          (''code'', JStr (case map_get (se_files e) ''main.ts'' of Some c \<Rightarrow> c | None \<Rightarrow> [])),
          (''files'', JObj (List.map (\<lambda>(k, v). (k, JStr v)) (se_files e))), (''cache_ttl'', JNum (se_cache_ttl e))])))"

definition source_saved :: "source_editor \<Rightarrow> source_editor" where
  "source_saved e = e\<lparr>se_saving := False\<rparr>"

section \<open>The environment\<close>

text \<open>A line of the environment: its key and its value without surrounding quotes.\<close>

definition strip_env_quotes :: "string \<Rightarrow> string" where
  "strip_env_quotes v =
     (if v \<noteq> [] \<and> (hd v = CHR 0x22 \<and> last v = CHR 0x22 \<or> hd v = CHR 0x27 \<and> last v = CHR 0x27)
      then butlast (tl v) else v)"

definition parse_env_line :: "string \<Rightarrow> (string \<times> string) option" where
  "parse_env_line line =
     (let trimmed = js_trim line
      in if trimmed = [] \<or> hd trimmed = CHR ''#'' then None
         else if CHR ''='' \<notin> set trimmed \<or> hd trimmed = CHR ''='' then None
         else Some (js_trim (takeWhile (\<lambda>c. c \<noteq> CHR ''='') trimmed),
           strip_env_quotes (js_trim (tl (dropWhile (\<lambda>c. c \<noteq> CHR ''='') trimmed)))))"

definition set_env_line :: "string \<Rightarrow> (string, string) jsmap \<Rightarrow> (string, string) jsmap" where
  "set_env_line line env = (case parse_env_line line of Some (k, v) \<Rightarrow> map_set k v env | None \<Rightarrow> env)"

definition parse_env :: "string \<Rightarrow> (string, string) jsmap" where
  "parse_env data = fold set_env_line (split_at (CHR 0x0A) data) []"

section \<open>The items\<close>

text \<open>The first of some properties that is a text and not blank, trimmed; an empty text is falsy.\<close>

definition trimmed_text :: "jsval \<Rightarrow> string \<Rightarrow> string" where
  "trimmed_text obj k = (case fld obj k of JStr s \<Rightarrow> js_trim s | _ \<Rightarrow> [])"

fun first_trimmed :: "jsval \<Rightarrow> string list \<Rightarrow> string" where
  "first_trimmed obj [] = []"
| "first_trimmed obj (k # ks) = (if trimmed_text obj k \<noteq> [] then trimmed_text obj k else first_trimmed obj ks)"

text \<open>The first of some properties that is a text, or \<open>undefined\<close>.\<close>

fun first_text :: "jsval \<Rightarrow> string list \<Rightarrow> jsval" where
  "first_text obj [] = JUndef"
| "first_text obj (k # ks) = (case fld obj k of JStr s \<Rightarrow> JStr s | _ \<Rightarrow> first_text obj ks)"

fun is_plain_object :: "jsval \<Rightarrow> bool" where
  "is_plain_object (JObj ps) = True"
| "is_plain_object (JMap m) = True"
| "is_plain_object v = False"

text \<open>A row of the preview, or nothing for an item that is skipped.\<close>

definition sanitize_item :: "jsval \<Rightarrow> jsval option" where
  "sanitize_item raw =
     (if \<not> is_plain_object raw then None
      else (let heading = first_trimmed raw [''heading'', ''title'', ''name''];
                subheading = first_trimmed raw [''subheading'', ''description'', ''subtitle'']
            in if heading = [] \<or> subheading = [] then None
               else Some (obj_with raw [(''heading'', JStr heading), (''subheading'', JStr subheading),
                 (''icon'', first_text raw [''icon'']), (''image_url'', first_text raw [''image_url'', ''image'']),
                 (''link_url'', first_text raw [''link_url'', ''url'', ''link''])])))"

fun sanitize_items :: "jsval list \<Rightarrow> jsval list \<times> nat" where
  "sanitize_items [] = ([], 0)"
| "sanitize_items (raw # raws) =
     (let (rows, skipped) = sanitize_items raws
      in case sanitize_item raw of Some row \<Rightarrow> (row # rows, skipped) | None \<Rightarrow> (rows, Suc skipped))"

definition table_columns :: "jsval list \<Rightarrow> string list" where
  "table_columns items = fold (\<lambda>item. fold set_add (List.map fst (own_props item))) items []"

section \<open>A run\<close>

definition begin_source_run :: "source_editor \<Rightarrow> source_editor" where
  "begin_source_run e = e\<lparr>se_compiling := True, se_error := None, se_preview := [], se_compiled := None, se_last_run := None,
     se_diagnostics := [], se_stats := None\<rparr>"

definition compile_errors :: "source_diagnostic list \<Rightarrow> source_diagnostic list" where
  "compile_errors ds = filter (\<lambda>d. dg_category d = 1) ds"

definition error_line :: "source_diagnostic \<Rightarrow> string" where
  "error_line d = (if dg_file d = [] then [] else dg_file d @ '' '') @ ''Line '' @ dec_int (dg_line d) @ '': '' @ dg_message d"

text \<open>A run that ends in an error: no item, and the panel of the diagnostics.\<close>

definition run_failed :: "exit_reason \<Rightarrow> string \<Rightarrow> int \<Rightarrow> source_editor \<Rightarrow> source_editor" where
  "run_failed reason message duration e =
     e\<lparr>se_stats := Some \<lparr>rn_duration = duration, rn_exit_reason = reason, rn_total = 0, rn_valid = 0, rn_skipped = 0\<rparr>,
       se_error := Some message, se_panel := DiagnosticsPanel, se_compiling := False\<rparr>"

text \<open>
  The answer of the compiler: nothing further runs when it has errors, and the code is evaluated otherwise. The flag
  tells whether it is.
\<close>

definition run_compiled :: "string \<Rightarrow> source_diagnostic list \<Rightarrow> int \<Rightarrow> int \<Rightarrow> source_editor \<Rightarrow> source_editor \<times> bool" where
  "run_compiled js diagnostics now duration e =
     (let e' = e\<lparr>se_compiled := Some js, se_last_run := Some now, se_diagnostics := diagnostics\<rparr>;
          errors = compile_errors diagnostics
      in if errors \<noteq> []
         then (run_failed CompileError (js_join [CHR 0x0A] (List.map error_line errors)) duration e', False)
         else (e', True))"

text \<open>
  What the evaluation comes to: the function cannot be built (a syntax error), the code or the timer throws, or a value
  is returned.
\<close>

datatype evaluation = NotBuilt string | Threw string | Returned jsval

definition run_timed_out :: evaluation where
  "run_timed_out = Threw ''Execution timed out after 15s''"

definition run_evaluated :: "evaluation \<Rightarrow> int \<Rightarrow> source_editor \<Rightarrow> source_editor" where
  "run_evaluated r duration e =
     (case r of
        NotBuilt message \<Rightarrow> run_failed RuntimeError message duration e
      | Threw message \<Rightarrow>
          run_failed (if str_includes message ''timed out'' then RunTimeout else RuntimeError) message duration e
      | Returned (JArr raws) \<Rightarrow>
          (let (rows, skipped) = sanitize_items raws
           in e\<lparr>se_stats := Some \<lparr>rn_duration = duration, rn_exit_reason = RunSuccess, rn_total = length raws,
                  rn_valid = length rows, rn_skipped = skipped\<rparr>,
                se_preview := rows, se_panel := PreviewPanel, se_compiling := False\<rparr>)
      | Returned _ \<Rightarrow> run_failed InvalidReturn ''Code must return an array of objects'' duration e)"

text \<open>\<open>handleRun\<close>: the compiler refuses the request or answers, and what the code then does.\<close>

definition handle_run ::
  "string + string \<times> source_diagnostic list \<Rightarrow> evaluation \<Rightarrow> int \<Rightarrow> int \<Rightarrow> source_editor \<Rightarrow> source_editor" where
  "handle_run compiled r now duration e =
     (case compiled of
        Inl message \<Rightarrow> run_failed RuntimeError message duration (begin_source_run e)
      | Inr (js, diagnostics) \<Rightarrow>
          (case run_compiled js diagnostics now duration (begin_source_run e) of
             (e', True) \<Rightarrow> run_evaluated r duration e'
           | (e', False) \<Rightarrow> e'))"

text \<open>The request of \<open>trackedFetch\<close> in the log: the answer with its status, or the failure.\<close>

record fetch_log_entry =
  fl_url :: string
  fl_method :: string
  fl_status :: "int option"
  fl_error :: "string option"

definition tracked_fetch :: "string \<Rightarrow> string \<Rightarrow> string + int \<times> string \<times> string \<Rightarrow> fetch_log_entry" where
  "tracked_fetch url verb answer =
     (case answer of
        Inl message \<Rightarrow> \<lparr>fl_url = url, fl_method = to_upper verb, fl_status = None, fl_error = Some message\<rparr>
      | Inr (status, status_text, body) \<Rightarrow>
          \<lparr>fl_url = url, fl_method = to_upper verb, fl_status = Some status,
           fl_error = (if 200 \<le> status \<and> status \<le> 299 then None
             else Some (''HTTP '' @ dec_int status @ '' '' @ status_text @ (if body = [] then [] else '': '' @ body)))\<rparr>)"

section \<open>What is shown of it\<close>

definition issues_badge_count :: "source_editor \<Rightarrow> nat" where
  "issues_badge_count e = length (compile_errors (se_diagnostics e)) + (case se_stats e of Some s \<Rightarrow> rn_skipped s | None \<Rightarrow> 0)"

definition has_issues :: "source_editor \<Rightarrow> bool" where
  "has_issues e = (0 < issues_badge_count e \<or> (se_error e \<noteq> None \<and> se_error e \<noteq> Some []) \<or>
     (case se_stats e of Some s \<Rightarrow> rn_exit_reason s \<noteq> RunSuccess | None \<Rightarrow> False))"

definition editor_height :: "bool \<Rightarrow> rat \<Rightarrow> nat \<Rightarrow> rat" where
  "editor_height proportional viewport lines =
     (if proportional then max 400 (min (viewport * 55 / 100) 700) else max 400 (min (of_nat lines * 20 + 40) 700))"

section \<open>Runs\<close>

lemma sanitize_items_counts: "sanitize_items raws = (rows, skipped) \<Longrightarrow> length rows + skipped = length raws"
  by (induction raws arbitrary: rows skipped) (auto split: prod.splits option.splits)

lemma sanitize_items_rows:
  "sanitize_items raws = (rows, skipped) \<Longrightarrow> row \<in> set rows \<Longrightarrow> \<exists>raw \<in> set raws. sanitize_item raw = Some row"
proof (induction raws arbitrary: rows skipped)
  case (Cons raw raws)
  then show ?case by (cases "sanitize_items raws") (auto split: option.splits)
qed simp

text \<open>A row has a heading and a subheading, and its icon, image and link are texts or missing.\<close>

definition row_ok :: "jsval \<Rightarrow> bool" where
  "row_ok row =
     ((\<exists>h. fld row ''heading'' = JStr h \<and> h \<noteq> []) \<and> (\<exists>s. fld row ''subheading'' = JStr s \<and> s \<noteq> []) \<and>
      (\<forall>k \<in> {''icon'', ''image_url'', ''link_url''}. fld row k = JUndef \<or> (\<exists>s. fld row k = JStr s)))"

lemma first_text_kinds: "first_text obj ks = JUndef \<or> (\<exists>s. first_text obj ks = JStr s)"
  by (induction ks) (auto split: jsval.split)

lemma sanitize_item_ok: "sanitize_item raw = Some row \<Longrightarrow> row_ok row"
  using first_text_kinds [of raw "[''icon'']"] first_text_kinds [of raw "[''image_url'', ''image'']"]
    first_text_kinds [of raw "[''link_url'', ''url'', ''link'']"]
  unfolding row_ok_def sanitize_item_def Let_def
  by (auto simp del: first_trimmed.simps first_text.simps split: if_splits)

lemma run_failed_facts [simp]:
  "se_compiling (run_failed reason message duration e) = False"
  "se_error (run_failed reason message duration e) = Some message"
  "se_preview (run_failed reason message duration e) = se_preview e"
  "se_panel (run_failed reason message duration e) = DiagnosticsPanel"
  by (simp_all add: run_failed_def)

text \<open>What a finished run says of itself.\<close>

definition run_reported :: "source_editor \<Rightarrow> bool" where
  "run_reported e =
     (\<not> se_compiling e \<and>
      (\<exists>s. se_stats e = Some s \<and> rn_valid s + rn_skipped s = rn_total s \<and> rn_valid s = length (se_preview e) \<and>
        (rn_exit_reason s = RunSuccess) = (se_error e = None) \<and>
        (rn_exit_reason s = RunSuccess) = (se_panel e = PreviewPanel)) \<and>
      (\<forall>row \<in> set (se_preview e). row_ok row))"

lemma run_failed_reported:
  "reason \<noteq> RunSuccess \<Longrightarrow> se_preview e = [] \<Longrightarrow> run_reported (run_failed reason message duration e)"
  by (simp add: run_reported_def run_failed_def)

lemma run_evaluated_reported:
  assumes "se_preview e = []" "se_error e = None"
  shows "run_reported (run_evaluated r duration e)"
proof (cases "\<exists>raws. r = Returned (JArr raws)")
  case True
  then obtain raws where r: "r = Returned (JArr raws)" by blast
  obtain rows skipped where s: "sanitize_items raws = (rows, skipped)" by (cases "sanitize_items raws")
  have "\<forall>row \<in> set rows. row_ok row" using sanitize_items_rows [OF s] sanitize_item_ok by blast
  then show ?thesis
    using sanitize_items_counts [OF s] assms by (simp add: run_evaluated_def r s run_reported_def)
next
  case False
  then show ?thesis
    using assms by (auto simp: run_evaluated_def run_failed_reported split: evaluation.split jsval.split)
qed

lemma begin_source_run_facts [simp]: "se_preview (begin_source_run e) = []" "se_error (begin_source_run e) = None"
  by (simp_all add: begin_source_run_def)


lemma editor_height_bounded: "400 \<le> editor_height b v n \<and> editor_height b v n \<le> 700"
  by (simp add: editor_height_def)

section \<open>The environment is read back\<close>

definition print_env :: "(string \<times> string) list \<Rightarrow> string" where
  "print_env kvs = js_join [CHR 0x0A] (List.map (\<lambda>(k, v). k @ CHR ''='' # CHR 0x22 # v @ [CHR 0x22]) kvs)"

definition env_entry_ok :: "string \<times> string \<Rightarrow> bool" where
  "env_entry_ok = (\<lambda>(k, v). k \<noteq> [] \<and> hd k \<noteq> CHR ''#'' \<and> \<not> is_space (hd k) \<and> \<not> is_space (last k) \<and>
     CHR ''='' \<notin> set k \<and> CHR 0x0A \<notin> set k \<and> CHR 0x0A \<notin> set v)"

lemma parse_printed_line:
  assumes "env_entry_ok (k, v)"
  shows "parse_env_line (k @ CHR ''='' # CHR 0x22 # v @ [CHR 0x22]) = Some (k, v)"
proof -
  let ?line = "k @ CHR ''='' # CHR 0x22 # v @ [CHR 0x22]"
  have k: "k \<noteq> []" "hd k \<noteq> CHR ''#''" "\<not> is_space (hd k)" "\<not> is_space (last k)" "CHR ''='' \<notin> set k"
    using assms by (simp_all add: env_entry_ok_def)
  have q: "\<not> is_space (CHR 0x22)" by code_simp
  have t: "js_trim ?line = ?line" using k q by (intro js_trim_id) auto
  have tk: "js_trim k = k" using k by (intro js_trim_id) auto
  have tv: "js_trim (CHR 0x22 # v @ [CHR 0x22]) = CHR 0x22 # v @ [CHR 0x22]" using q by (intro js_trim_id) auto
  have w: "takeWhile (\<lambda>c. c \<noteq> CHR ''='') ?line = k" using k(5) by (subst takeWhile_append2) auto
  have w': "dropWhile (\<lambda>c. c \<noteq> CHR ''='') ?line = CHR ''='' # CHR 0x22 # v @ [CHR 0x22]"
    using k(5) by (subst dropWhile_append2) auto
  have h: "hd ?line \<noteq> CHR ''=''" using k by (cases k) auto
  have p: "hd ?line = hd k" using k by simp
  show ?thesis
    unfolding parse_env_line_def Let_def t w w' tk
    using k h p by (simp add: tv strip_env_quotes_def)
qed

lemma set_printed_lines:
  assumes "list_all env_entry_ok kvs" "distinct (List.map fst kvs)" "fst ` set kvs \<inter> fst ` set env = {}"
  shows "fold set_env_line (List.map (\<lambda>(k, v). k @ CHR ''='' # CHR 0x22 # v @ [CHR 0x22]) kvs) env = env @ kvs"
  using assms
proof (induction kvs arbitrary: env)
  case (Cons kv kvs)
  obtain k v where kv: "kv = (k, v)" by (cases kv)
  have l: "set_env_line (k @ CHR ''='' # CHR 0x22 # v @ [CHR 0x22]) env = env @ [(k, v)]"
    using Cons.prems by (simp add: set_env_line_def parse_printed_line kv map_set_absent)
  have "fst ` set kvs \<inter> fst ` set (env @ [(k, v)]) = {}" using Cons.prems by (auto simp: kv)
  then show ?case using Cons.IH [of "env @ [(k, v)]"] Cons.prems by (simp add: kv l)
qed simp

text \<open>
  An environment whose values are written in double quotes is read back as it was, whatever the values hold beside
  line breaks, quotes and signs of equality included.
\<close>

lemma env_round_trip:
  assumes "kvs \<noteq> []" "list_all env_entry_ok kvs" "distinct (List.map fst kvs)"
  shows "parse_env (print_env kvs) = kvs"
proof -
  have "split_at (CHR 0x0A) (print_env kvs) = List.map (\<lambda>(k, v). k @ CHR ''='' # CHR 0x22 # v @ [CHR 0x22]) kvs"
    unfolding print_env_def using assms by (intro split_join) (auto simp: env_entry_ok_def list_all_iff)
  then show ?thesis using set_printed_lines [of kvs "[]"] assms by (simp add: parse_env_def)
qed

section \<open>Behaviour to know of\<close>

text \<open>Code that throws an error of its own about a timeout is reported as timed out.\<close>

lemma own_timeout_is_reported:
  "map_option rn_exit_reason (se_stats (run_evaluated (Threw ''connection timed out'') 5 e)) = Some RunTimeout"
proof -
  have "str_includes ''connection timed out'' ''timed out''" by code_simp
  then show ?thesis by (simp add: run_evaluated_def run_failed_def)
qed

text \<open>A value that is one quote is lost.\<close>

lemma lone_quote_is_lost: "parse_env_line (''Q='' @ [CHR 0x27]) = Some (''Q'', [])"
  by code_simp

text \<open>A key need not be a name that a parameter can have.\<close>

lemma keys_are_not_checked: "map_keys (parse_env ''MY-KEY=1'') = [''MY-KEY'']"
  by code_simp

end
