(* ===== verification/Spec2Isabelle.thy ===== *)
theory Spec2Isabelle
  imports ForumTypes StoreAtoms MessageHandlers UserRequests WsConnection UploadQueue BibleLocation FeedPaging PageSections PageEditor FlowEditor UserData RtcConnections MediaDevices InboxPage LiveKitClient VoicePanel BibleSpeech SiteHooks UploadsPage ClipExport StorePage DataSourcePage ClientTools
begin

text \<open>
  The client of skaia: a verification library for the TypeScript code of a community site (forum, store, inbox,
  pages that are built in the browser, voice, uploads, a Bible reader). Paths are below \<open>src/frontend/src\<close>.

  How the client works. The state of a page is a set of jotai atoms. Every module of \<open>atoms\<close> registers, in
  \<open>utils/wsRegistry.ts\<close>, the patches that a message of the server makes on its atoms; one WebSocket, shared by
  all components, receives the messages (\<open>hooks/useWebSocketSync.ts\<close>), \<open>hooks/handlers.ts\<close> does the rest of what a
  message asks for, and the same socket carries a part of the requests of \<open>utils/api.ts\<close>, whose others are HTTP
  requests. Above this are the hooks and components: feeds that load page by page, the page with its editor, uploads,
  the flow editor, the reader, the voice clients.

  Conventions. The model is a shallow embedding. What comes from the server is JSON of no certain type, so that the
  values of the code are \<open>jsval\<close> wherever it does not check them; \<open>None\<close> is an exception that is thrown, a promise
  that is rejected or a stack that overflows, as the definition says. Asynchronous code is cut where it awaits: what
  runs without a break is a function on a record of the state, and an inductive relation says which of these may come
  next, so that answers, timers and clicks come in any order. Clock, random numbers, network, protobuf codec, browser
  storage, media devices and the parser of HTML are parameters or events. Numbers are integers unless a text says
  otherwise; strings are lists of 8-bit characters.

  The language and its library.
  \<^item> \<open>JsPrelude\<close>: array combinators with callbacks that throw, the insertion-ordered \<open>Map\<close> (locale \<open>es_map\<close>).
  \<^item> \<open>JsValue\<close>, \<open>TsTypes\<close>: dynamic values, their operators and object spread; interfaces as lists of typed fields.
  \<^item> \<open>JsText\<close>, \<open>UrlText\<close>, \<open>JsonParse\<close>: strings, URLs, and \<open>JSON.parse\<close> by recursive descent; its fuel is the length of
    the text, each call consuming a character, and it reads back what \<open>JSON.stringify\<close> writes.
  \<^item> \<open>KeyedFeed\<close>: the contract of the live collections, the locales \<open>keyed_table\<close>, \<open>keyed_insert\<close>, \<open>keyed_set\<close> and
    \<open>keyed_feed\<close>; \<open>PendingTable\<close>: the table of promises by key; \<open>Entities\<close>: entities with an \<open>id\<close> and what the
    patches of all modules share.

  State that follows the server.
  \<^item> \<open>WsRegistry\<close> (\<open>utils/wsRegistry.ts\<close>): registration and dispatch in order; \<open>ClientRegistry\<close>
    (\<open>utils/wsResources.ts\<close>): all registrations of the client.
  \<^item> \<open>AuthAtoms\<close>, \<open>ForumAtoms\<close> with \<open>ForumTypes\<close>, \<open>StoreAtoms\<close>, \<open>InboxAtoms\<close>, \<open>SocialAtoms\<close> (\<open>atoms/*.ts\<close>): every patch
    and derived atom. The lemmas show that patches keep the declared types of the state when the message has them,
    that feeds hold each entity once and in order of arrival (interpretations of the locales), that a deleted thread
    is gone everywhere, and that chat and the activity list are bounded rings.
  \<^item> \<open>GuestSession\<close> (\<open>utils/guestSession.ts\<close>): the identity of a guest with its fallbacks.
  \<^item> \<open>MessageHandlers\<close> (\<open>hooks/handlers.ts\<close>): every handler and the dispatch of a decoded frame; no message makes it fail
    but for a null payload, and the locales \<open>action_relation\<close> and \<open>state_relation\<close> show what messages of
    each type leave alone.

  The connection and requests.
  \<^item> \<open>ApiClient\<close> (\<open>utils/api.ts\<close>): HTTP requests, their errors and the refresh of the session; \<open>ApiBridge\<close>: requests over
    the socket, with 32-bit identifiers drawn at random (a loop that may not end for a bad source of numbers, hence a
    partial function; it ends for one that draws every value) and one timer each.
  \<^item> \<open>RequestBatcher\<close>, \<open>UserRequests\<close> (\<open>utils/requestBatcher.ts\<close>, \<open>utils/userRequests.ts\<close>): reads by key in batches. The
    run \<open>drain\<close> has as fuel a number of turns above twice the number of keys that wait: each turn fires the timer or ends
    a batch.
  \<^item> \<open>WsConnection\<close> (\<open>hooks/useWebSocketSync.ts\<close>): the one socket, reconnects, subscriptions and authentication as a
    step relation; at most one connection is open, and a reconnect replays what the components are subscribed to.
  \<^item> \<open>UploadQueue\<close> (\<open>atoms/uploadAtom.ts\<close>): jobs, workers of chunks, retries and pauses over shared objects; the loop
    that starts jobs consumes the queue, whose length is its fuel.

  Pages and tools.
  \<^item> \<open>FeedPaging\<close> (\<open>hooks/useThreadsFeed.ts\<close>, \<open>hooks/useCommentsFeed.ts\<close>): the locale \<open>paged_feed\<close> states that
    loading page after page shows everything, interpreted on both hooks.
  \<^item> \<open>PageSections\<close> (\<open>components/page/*.ts\<close>), \<open>PageData\<close> (\<open>hooks/usePageData.ts\<close>), \<open>PageEditor\<close>
    (\<open>components/page/PageBuilder.tsx\<close>): sections and their shell, the page on show and the messages about it, the
    editing of sections and the saves: no change is forgotten, and an editor at work is not disturbed.
  \<^item> \<open>FlowEditor\<close> (\<open>components/flow\<close>): new nodes (the search for a free name has as fuel the number of nodes, and
    one more name is tried than there are nodes), the logical flow (its stack is a bound on the depth; what fails is exactly a
    cycle), the canvas with its delayed write, imports.
  \<^item> \<open>BibleReader\<close>, \<open>BibleLocation\<close> (\<open>components/bible/*.ts\<close>, \<open>atoms/bible.ts\<close>): movement from verse to verse against
    offsets into the whole translation, the cache of books (its loop evicts one book in a turn, so that the size
    is enough fuel), links that are read back.
  \<^item> \<open>BibleSpeech\<close> (\<open>components/bible/useBibleSpeech.ts\<close>): the narration of the verses over the synthesis of the
    browser, whose events may come late: what is spoken is what is shown.
  \<^item> \<open>UserData\<close> (\<open>components/user/useUserData.ts\<close>, \<open>useProfileEdit.ts\<close>): optimistic toggles, suspension, images.
  \<^item> \<open>InboxPage\<close> (\<open>components/inbox/InboxPage.tsx\<close>): the page of the conversations over \<open>InboxAtoms\<close> and the
    subscriptions of \<open>WsConnection\<close>. Every answer, click and frame is a step followed by the effects of the render:
    messages are shown in the conversation they were asked for, leaving the page unsubscribes, reading
    keeps the badge.
  \<^item> \<open>ClientTools\<close> (\<open>utils/serverTime.ts\<close>, \<open>utils/route.ts\<close>, \<open>utils/cache.ts\<close> and others): clock, routes, headings.

  \<^item> \<open>SiteHooks\<close> (\<open>hooks/*.ts\<close>, \<open>components/store/ratings.ts\<close>): who is online, the cursor, features, theme, the
    maintenance dialog, unsaved changes, averages of ratings.
  \<^item> \<open>UploadsPage\<close> (\<open>components/user/UserUploads.tsx\<close>): the uploads of a user, how they are selected by ranges
    and deleted while other deletions are under way, which are the only ones that are marked.
  \<^item> \<open>StorePage\<close> (\<open>components/store/Store.tsx\<close>, \<open>ProductPage.tsx\<close>): the products that the store shows, which
    are exactly those that pass its filters and in order, the cart of a guest, which counts products, and one product.
  \<^item> \<open>DataSourcePage\<close> (\<open>components/page/datasources/DataSourceEditorPage.tsx\<close>): the editor of a data source, its
    environment, which is read back as it was written in quotes, and its runs, each of which ends and reports itself.
  \<^item> \<open>ClipExport\<close> (\<open>pages/clipmaker\<close>): the export of a clip as a stream of lines and octets, which a reader that knows
    only the format gets back; the sounds that are mixed, the player that is sought, the button of the studio.

  Voice.
  \<^item> \<open>PeerNegotiation\<close> (\<open>lib/webrtc/PeerSession.ts\<close>, \<open>SignalQueue.ts\<close>): two sides that exchange offers, answers and
    candidates through queues, with perfect negotiation; they settle on the same descriptions, and every run of
    deliveries ends.
  \<^item> \<open>PeerManager\<close> (\<open>lib/webrtc/WebRTCManager.ts\<close>, \<open>VoiceActivityDetector.ts\<close>): the sessions of all peers with their timers.
    Its loop of synchronisation meets each session at most twice, once more after it is healed, so that twice the number
    of sessions is enough fuel. A pair of managers refines the pair of \<open>PeerNegotiation\<close>.
  \<^item> \<open>RtcMedia\<close>, \<open>RtcConnections\<close> (\<open>lib/webrtc/v2\<close>): tracks, playback and voices of the second client over its bus of
    events; its sessions, timers and check of health, whose fuel is twice the number of states for the same reason, read
    as those of the first client so that its invariant carries over.
  \<^item> \<open>LiveKitClient\<close> (\<open>lib/webrtc/livekit/LiveKitRTC.ts\<close>, \<open>lib/webrtc/useWebRTCManager.ts\<close>): the client in the rooms of
    a LiveKit server, whose library is the environment: what is shown is in step with what plays, and a
    departure removes one participant; the hook that keeps one client open.
  \<^item> \<open>VoicePanel\<close> (\<open>components/page/layout/WebRTCPanel.tsx\<close>): whom the panel connects to, and the query of the
    URL, which three renders of its effects bring in step with the panel, or none ever does.
  \<^item> \<open>MediaDevices\<close> (\<open>components/page/layout/voice/*.ts\<close>): microphone, camera and screen, whose streams run only as shown when
    nobody touches them while the browser asks, and the recording of a meeting.

  Each property is stated for every reachable state or every input; a theorem with hypotheses is followed by a witness
  at a concrete input. Lemmas after a sentence that says what goes wrong (in the section on the behaviour to know of
  in a theory) prove, by a run of the model, a behaviour that the code does not mean to have.

  Not modelled: rendering and style (most of \<open>components\<close> and \<open>pages\<close>), the drawing and simulation of
  particles (floating point), the recorder of the clip maker (which no code calls any more), the generated protobuf
  classes, the importer of schemas (regular expressions), sounds, and the server, which is written in Go and whose answers are arbitrary here. Of
  the page editor, likes, analytics and the administrators' menu are left out, of the inbox page scrolling and the
  cards of system messages.
\<close>

end
